(* ===== verification/Prelude.thy ===== *)
theory Prelude
  imports Main "HOL-Library.Word" "HOL-Library.Monad_Syntax"
begin

text \<open>
  What the components of the MedorCoin node share: the machine integers and byte
  strings of the C++ code, \<^verbatim>\<open>std::string\<close> as a byte string, big-endian numbers
  (with the abstract specification \<open>be_enc\<close> / \<open>be_val\<close> that the concrete writers and
  readers of the components refine), decimal and hexadecimal printing as
  \<^verbatim>\<open>std::ostream\<close> does it, \<^verbatim>\<open>std::stoull\<close> and \<^verbatim>\<open>std::getline\<close> of the C++ standard
  library, and generic facts about lists, maps and words.
\<close>

unbundle bit_operations_syntax

section \<open>Types\<close>

type_synonym u8 = "8 word"
type_synonym u16 = "16 word"
type_synonym u32 = "32 word"
type_synonym u64 = "64 word"
type_synonym bytes = "u8 list"

named_theorems str_simps \<open>printing, parsing and splitting of strings\<close>
named_theorems byte_simps \<open>bytes, characters and big-endian numbers\<close>

text \<open>Exceptions of the C++ standard library that the modelled code can meet.\<close>

datatype cxx_exn = Invalid_argument | Out_of_range | Length_error | Runtime_error

section \<open>Characters and bytes\<close>

text \<open>
  A \<^verbatim>\<open>std::string\<close> is a sequence of bytes, which is HOL's \<open>string\<close>;
  \<^verbatim>\<open>reinterpret_cast\<close> between \<^verbatim>\<open>char*\<close> and \<^verbatim>\<open>uint8_t*\<close> is the pair of maps below.
\<close>

definition byte_of_char :: "char \<Rightarrow> u8" where
  "byte_of_char c = word_of_nat (of_char c)"

definition char_of_byte :: "u8 \<Rightarrow> char" where
  "char_of_byte b = char_of (unat b)"

definition str_bytes :: "string \<Rightarrow> bytes" where
  "str_bytes s = map byte_of_char s"

definition bytes_str :: "bytes \<Rightarrow> string" where
  "bytes_str bs = map char_of_byte bs"

lemma of_char_less_256 [simp]: "(of_char c :: nat) < 256"
proof -
  have "(of_char (char_of (of_char c :: nat)) :: nat) = of_char c mod 256"
    by (simp only: of_char_of)
  then show ?thesis
    by (metis char_of_char mod_less_divisor zero_less_numeral)
qed

lemma unat_byte_of_char [byte_simps]: "unat (byte_of_char c) = of_char c"
  by (simp add: byte_of_char_def unat_of_nat)

lemma char_byte_char [simp, byte_simps]: "char_of_byte (byte_of_char c) = c"
  by (simp add: char_of_byte_def unat_byte_of_char)

lemma byte_char_byte [simp, byte_simps]: "byte_of_char (char_of_byte b) = b"
proof -
  have "unat b < 256" using unsigned_less [where w = b, where ?'a = nat] by simp
  then show ?thesis
    by (simp add: byte_of_char_def char_of_byte_def)
qed

lemma bytes_str_bytes [simp, byte_simps]: "bytes_str (str_bytes s) = s"
  by (simp add: bytes_str_def str_bytes_def comp_def)

lemma str_bytes_str [simp, byte_simps]: "str_bytes (bytes_str bs) = bs"
  by (simp add: bytes_str_def str_bytes_def comp_def)

lemma length_str_bytes [simp]: "length (str_bytes s) = length s"
  by (simp add: str_bytes_def)

lemma length_bytes_str [simp]: "length (bytes_str bs) = length bs"
  by (simp add: bytes_str_def)

lemma str_bytes_inj [simp]: "str_bytes s = str_bytes t \<longleftrightarrow> s = t"
  by (metis bytes_str_bytes)

lemma str_bytes_append [simp]: "str_bytes (s @ t) = str_bytes s @ str_bytes t"
  by (simp add: str_bytes_def)

lemma str_bytes_eq_Nil [simp]: "str_bytes s = [] \<longleftrightarrow> s = []"
  by (simp add: str_bytes_def)

section \<open>Big-endian numbers: the abstract specification\<close>

text \<open>
  \<open>be_enc n v\<close> is the \<open>n\<close>-byte big-endian representation of \<open>v\<close> modulo \<open>256 ^ n\<close>, and
  \<open>be_val\<close> reads a byte string as a big-endian number. Every concrete big-endian
  writer and reader of the code base is shown to be an instance of this pair.
\<close>

fun be_val :: "bytes \<Rightarrow> nat" where
  "be_val [] = 0"
| "be_val (b # bs) = unat b * 256 ^ length bs + be_val bs"

primrec be_enc :: "nat \<Rightarrow> nat \<Rightarrow> bytes" where
  "be_enc 0 v = []"
| "be_enc (Suc n) v = be_enc n (v div 256) @ [word_of_nat v]"

lemma length_be_enc [simp]: "length (be_enc n v) = n"
  by (induction n arbitrary: v) simp_all

lemma be_val_append [byte_simps]: "be_val (xs @ ys) = be_val xs * 256 ^ length ys + be_val ys"
  by (induction xs) (simp_all add: power_add algebra_simps)

lemma unat_word_of_nat_u8 [byte_simps]: "unat (word_of_nat v :: u8) = v mod 256"
  by (simp add: unat_of_nat)

lemma be_val_enc [byte_simps]: "be_val (be_enc n v) = v mod 256 ^ n"
proof (induction n arbitrary: v)
  case (Suc n)
  have "be_val (be_enc (Suc n) v) = (v div 256 mod 256 ^ n) * 256 + v mod 256"
    by (simp add: be_val_append Suc unat_word_of_nat_u8)
  also have "\<dots> = v mod (256 * 256 ^ n)"
    by (simp add: mod_mult2_eq)
  finally show ?case by simp
qed simp

lemma unat_u8_less [simp]: "unat (b :: u8) < 256"
  using unsigned_less [where w = b, where ?'a = nat] by simp

lemma be_val_less: "be_val bs < 256 ^ length bs"
proof (induction bs)
  case (Cons b bs)
  have "unat b * 256 ^ length bs + be_val bs < unat b * 256 ^ length bs + 256 ^ length bs"
    using Cons by simp
  also have "\<dots> = (unat b + 1) * 256 ^ length bs" by simp
  also have "\<dots> \<le> 256 * 256 ^ length bs"
    using unat_u8_less [of b] by (intro mult_right_mono) linarith+
  finally show ?case by simp
qed simp

lemma be_enc_mod: "be_enc n (v mod 256 ^ n) = be_enc n v"
proof (induction n arbitrary: v)
  case (Suc n)
  have d: "v mod (256 * 256 ^ n) div 256 = v div 256 mod 256 ^ n"
    by (simp add: mod_mult2_eq)
  have m: "v mod (256 * 256 ^ n) mod 256 = v mod 256"
    by (simp add: mod_mod_cancel)
  have w: "(word_of_nat (v mod (256 * 256 ^ n)) :: u8) = word_of_nat v"
    by (rule word_unat_eq_iff [THEN iffD2]) (simp add: unat_word_of_nat_u8 m)
  show ?case by (simp add: d w Suc)
qed simp

lemma be_enc_val [byte_simps]: "be_enc (length bs) (be_val bs) = bs"
proof (induction bs rule: rev_induct)
  case (snoc b bs)
  have "be_val (bs @ [b]) = be_val bs * 256 + unat b"
    by (simp add: be_val_append)
  then have d: "be_val (bs @ [b]) div 256 = be_val bs" and m: "be_val (bs @ [b]) mod 256 = unat b"
    by simp_all
  have "(word_of_nat (be_val (bs @ [b])) :: u8) = b"
    by (simp only: word_unat_eq_iff unat_word_of_nat_u8 m)
  with d snoc show ?case by simp
qed simp

lemma be_val_inj: "length xs = length ys \<Longrightarrow> be_val xs = be_val ys \<Longrightarrow> xs = ys"
  by (metis be_enc_val)

section \<open>Big-endian words: the concrete readers and writers\<close>

text \<open>
  The two idioms of the code: \<^verbatim>\<open>v = (v << 8) | p[i]\<close> reads a big-endian number, and
  \<^verbatim>\<open>push_back((v >> (8 * i)) & 0xFF)\<close> for \<open>i\<close> from \<open>n - 1\<close> down to 0 writes one.
\<close>

definition be_step :: "'a::len word \<Rightarrow> u8 \<Rightarrow> 'a word" where
  "be_step acc b = push_bit 8 acc OR ucast b"

definition be_read :: "bytes \<Rightarrow> 'a::len word" where
  "be_read bs = foldl be_step 0 bs"

definition be_write :: "nat \<Rightarrow> 'a::len word \<Rightarrow> bytes" where
  "be_write n v = map (\<lambda>i. ucast (drop_bit (8 * i) v)) (rev [0..<n])"

lemma length_be_write [simp]: "length (be_write n v) = n"
  by (simp add: be_write_def)

lemma be_step_eq: "be_step acc b = acc * 256 + ucast b"
proof -
  have "push_bit 8 acc + (ucast b :: 'a word) = push_bit 8 acc OR ucast b"
    by (rule disjunctive_add) (auto simp: bit_simps dest: bit_imp_le_length)
  then show ?thesis by (simp add: be_step_def push_bit_eq_mult mult.commute)
qed

lemma foldl_be_step: "foldl be_step acc bs = acc * 256 ^ length bs + word_of_nat (be_val bs)"
  by (induction bs arbitrary: acc) (simp_all add: be_step_eq algebra_simps)

lemma be_read_eq [byte_simps]: "be_read bs = word_of_nat (be_val bs)"
  by (simp add: be_read_def foldl_be_step)

lemma unat_be_read:
  assumes "8 * length bs \<le> LENGTH('a::len)"
  shows "unat (be_read bs :: 'a word) = be_val bs"
proof -
  have "be_val bs < 256 ^ length bs" by (rule be_val_less)
  also have "(256 :: nat) ^ length bs = 2 ^ (8 * length bs)" by (simp add: power_mult)
  also have "\<dots> \<le> 2 ^ LENGTH('a)" using assms by (intro power_increasing) auto
  finally show ?thesis by (simp add: be_read_eq unat_of_nat)
qed

lemma be_enc_map: "be_enc n v = map (\<lambda>i. word_of_nat (v div 256 ^ i)) (rev [0..<n])"
proof (induction n arbitrary: v)
  case (Suc n)
  have "rev [0..<Suc n] = map Suc (rev [0..<n]) @ [0]"
    by (simp add: rev_map [symmetric] map_Suc_upt upt_conv_Cons del: upt_Suc)
  then show ?case
    by (simp add: Suc div_mult2_eq comp_def del: upt_Suc)
qed simp

lemma be_write_eq [byte_simps]: "be_write n v = be_enc n (unat v)"
proof -
  have "(ucast (drop_bit (8 * i) v) :: u8) = word_of_nat (unat v div 256 ^ i)" for i
  proof (rule word_unat_eq_iff [THEN iffD2])
    have "unat (ucast (drop_bit (8 * i) v) :: u8) = drop_bit (8 * i) (unat v) mod 256"
      by (simp add: unsigned_ucast_eq unsigned_drop_bit_eq take_bit_eq_mod)
    then show "unat (ucast (drop_bit (8 * i) v) :: u8) = unat (word_of_nat (unat v div 256 ^ i) :: u8)"
      by (simp add: drop_bit_eq_div power_mult unat_word_of_nat_u8)
  qed
  then show ?thesis by (simp add: be_write_def be_enc_map)
qed

lemma be_read_write [simp]:
  assumes "LENGTH('a::len) \<le> 8 * n"
  shows "be_read (be_write n v) = (v :: 'a word)"
proof -
  have "unat v < 2 ^ LENGTH('a)" by (rule unsigned_less)
  also have "\<dots> \<le> 2 ^ (8 * n)" using assms by (intro power_increasing) auto
  finally have "unat v < 256 ^ n" by (simp add: power_mult)
  then show ?thesis by (simp add: be_read_eq be_write_eq be_val_enc)
qed

lemma be_write_read:
  assumes "length bs = n" "8 * n \<le> LENGTH('a::len)"
  shows "be_write n (be_read bs :: 'a word) = bs"
  using assms unat_be_read [of bs, where 'a = 'a] be_enc_val [of bs]
  by (simp add: be_write_eq)

text \<open>The same written out for four bytes, as several components do.\<close>

definition be_bytes4 :: "u32 \<Rightarrow> bytes" where
  "be_bytes4 v = [ucast (drop_bit 24 v), ucast (drop_bit 16 v), ucast (drop_bit 8 v), ucast v]"

definition be_word4 :: "u8 \<Rightarrow> u8 \<Rightarrow> u8 \<Rightarrow> u8 \<Rightarrow> u32" where
  "be_word4 a b c d =
     push_bit 24 (ucast a) OR push_bit 16 (ucast b) OR push_bit 8 (ucast c) OR ucast d"

lemma be_bytes4_eq [byte_simps]: "be_bytes4 v = be_write 4 v"
  by (simp add: be_bytes4_def be_write_def upt_rec)

lemma be_word4_eq [byte_simps]: "be_word4 a b c d = be_read [a, b, c, d]"
  by (simp add: be_word4_def be_read_def be_step_def push_bit_or push_bit_push_bit or.assoc)

lemma length_be_bytes4 [simp]: "length (be_bytes4 v) = 4"
  by (simp add: be_bytes4_def)

lemma ucast_and_FF: "(ucast (w AND 0xFF) :: u8) = ucast (w :: 'a::len word)"
proof -
  have m: "(0xFF :: 'a word) = mask 8" by (simp add: mask_eq_exp_minus_1)
  show ?thesis
    unfolding m by (rule bit_eqI) (auto simp: bit_simps simp del: mask_numeral dest: bit_imp_le_length)
qed

lemma be_write_inj: "LENGTH('a::len) \<le> 8 * n \<Longrightarrow> be_write n (v :: 'a word) = be_write n w \<longleftrightarrow> v = w"
  by (metis be_read_write)

lemma be_write_append_inj:
  "LENGTH('a::len) \<le> 8 * n \<Longrightarrow> be_write n (v :: 'a word) @ x = be_write n w @ y \<longleftrightarrow> v = w \<and> x = y"
  by (simp add: be_write_inj append_eq_append_conv)

text \<open>A string behind its 32-bit big-endian length.\<close>

definition be_str :: "string \<Rightarrow> bytes" where
  "be_str s = be_write 4 (word_of_nat (length s) :: u32) @ str_bytes s"

lemma be_str_append_inj:
  assumes "length s < 2 ^ 32" "length t < 2 ^ 32"
  shows "be_str s @ x = be_str t @ y \<longleftrightarrow> s = t \<and> x = y"
proof -
  have "(word_of_nat (length s) :: u32) = word_of_nat (length t) \<longleftrightarrow> length s = length t"
    using assms by (simp add: word_unat_eq_iff unat_of_nat)
  then show ?thesis
    by (auto simp: be_str_def be_write_inj append_eq_append_conv)
qed

lemma be_str_inj: "length s < 2 ^ 32 \<Longrightarrow> length t < 2 ^ 32 \<Longrightarrow> be_str s = be_str t \<longleftrightarrow> s = t"
  using be_str_append_inj [of s t "[]" "[]"] by simp

lemma ucast_u32_u64 [simp]: "(ucast (ucast (w :: u32) :: u64) :: u32) = w"
  by (rule bit_word_eqI) (simp add: bit_simps)

lemma ucast_u8_inj: "LENGTH('a::len) \<ge> 8 \<Longrightarrow> (ucast (x :: u8) :: 'a word) = ucast y \<longleftrightarrow> x = y"
proof -
  assume len: "LENGTH('a) \<ge> 8"
  have "ucast (ucast z :: 'a word) = z" for z :: u8
    by (rule bit_word_eqI) (use len in \<open>simp add: bit_simps\<close>)
  then show ?thesis by metis
qed

lemma xor_cancel: "(a XOR c :: 'a::len word) = b XOR c \<longleftrightarrow> a = b"
  by (metis xor.assoc xor.right_neutral xor_self_eq)

section \<open>Printing numbers\<close>

text \<open>
  \<^verbatim>\<open>operator<<\<close> on an unsigned integer prints its digits in the stream's base without
  leading zeros; \<^verbatim>\<open>std::to_string\<close> does so in base 10. Digits above 9 are the lower
  case letters (no \<^verbatim>\<open>std::uppercase\<close> in the code base).
\<close>

definition digit_char :: "nat \<Rightarrow> char" where
  "digit_char d = (if d < 10 then char_of (48 + d) else char_of (87 + d))"

fun show_base :: "nat \<Rightarrow> nat \<Rightarrow> string" where
  "show_base b n =
     (if n < b \<or> b < 2 then [digit_char n] else show_base b (n div b) @ [digit_char (n mod b)])"

declare show_base.simps [simp del]

abbreviation show_nat :: "nat \<Rightarrow> string" where
  "show_nat \<equiv> show_base 10"

abbreviation show_hex :: "nat \<Rightarrow> string" where
  "show_hex \<equiv> show_base 16"

abbreviation show_u64 :: "u64 \<Rightarrow> string" where
  "show_u64 w \<equiv> show_nat (unat w)"

abbreviation show_u32 :: "u32 \<Rightarrow> string" where
  "show_u32 w \<equiv> show_nat (unat w)"

text \<open>A signed 32-bit \<^verbatim>\<open>int\<close> in decimal.\<close>

definition show_i32 :: "u32 \<Rightarrow> string" where
  "show_i32 w = (if sint w < 0 then CHR ''-'' # show_nat (nat (- sint w)) else show_nat (nat (sint w)))"

text \<open>One byte as two hexadecimal digits (\<^verbatim>\<open>setw(2) << setfill('0') << hex\<close>, \<^verbatim>\<open>%02x\<close>).\<close>

definition hex_byte :: "u8 \<Rightarrow> string" where
  "hex_byte b = [digit_char (unat b div 16), digit_char (unat b mod 16)]"

definition hex_bytes :: "bytes \<Rightarrow> string" where
  "hex_bytes bs = concat (map hex_byte bs)"

lemma digit_chars [simp]:
  "digit_char 0 = CHR ''0''" "digit_char 1 = CHR ''1''" "digit_char (Suc 0) = CHR ''1''"
  "digit_char 2 = CHR ''2''" "digit_char 3 = CHR ''3''" "digit_char 4 = CHR ''4''"
  "digit_char 5 = CHR ''5''" "digit_char 6 = CHR ''6''" "digit_char 7 = CHR ''7''"
  "digit_char 8 = CHR ''8''" "digit_char 9 = CHR ''9''" "digit_char 10 = CHR ''a''"
  "digit_char 11 = CHR ''b''" "digit_char 12 = CHR ''c''" "digit_char 13 = CHR ''d''"
  "digit_char 14 = CHR ''e''" "digit_char 15 = CHR ''f''"
  by (simp_all add: digit_char_def char_of_def bit_iff_odd)

lemma hex_bytes_simps [simp]: "hex_bytes [] = []" "hex_bytes (b # bs) = hex_byte b @ hex_bytes bs"
  by (simp_all add: hex_bytes_def)

lemma length_hex_byte [simp]: "length (hex_byte b) = 2"
  by (simp add: hex_byte_def)

lemma length_hex_bytes [simp]: "length (hex_bytes bs) = 2 * length bs"
  by (induction bs) simp_all

section \<open>Reading numbers: std::stoull and std::stoul\<close>

text \<open>
  \<^verbatim>\<open>std::stoull\<close> (base 10) skips white space, accepts a sign, reads the longest run of
  digits and ignores what follows; no digit is \<^verbatim>\<open>std::invalid_argument\<close>, a magnitude
  above \<^verbatim>\<open>ULLONG_MAX\<close> is \<^verbatim>\<open>std::out_of_range\<close>, and a minus sign negates modulo
  \<open>2 ^ 64\<close>. \<^verbatim>\<open>std::stoul\<close> is the same function where \<^verbatim>\<open>unsigned long\<close> has 64 bits.
\<close>

definition is_space :: "char \<Rightarrow> bool" where
  "is_space c \<longleftrightarrow> c \<in> {CHR '' '', CHR 0x09, CHR 0x0A, CHR 0x0B, CHR 0x0C, CHR 0x0D}"

definition is_digit :: "char \<Rightarrow> bool" where
  "is_digit c \<longleftrightarrow> 48 \<le> (of_char c :: nat) \<and> (of_char c :: nat) \<le> 57"

definition digits_val :: "string \<Rightarrow> nat" where
  "digits_val ds = foldl (\<lambda>acc c. acc * 10 + (of_char c - 48)) 0 ds"

definition stoull :: "string \<Rightarrow> cxx_exn + u64" where
  "stoull s =
     (let t = dropWhile is_space s;
          neg = (t \<noteq> [] \<and> hd t = CHR ''-'');
          u = (if t \<noteq> [] \<and> (hd t = CHR ''-'' \<or> hd t = CHR ''+'') then tl t else t);
          ds = takeWhile is_digit u;
          n = digits_val ds
      in if ds = [] then Inl Invalid_argument
         else if n \<ge> 2 ^ 64 then Inl Out_of_range
         else Inr (if neg then - word_of_nat n else word_of_nat n))"

lemma is_digit_digit_char [simp]: "d < 10 \<Longrightarrow> is_digit (digit_char d)"
  by (simp add: is_digit_def digit_char_def)

lemma of_char_digit_char [simp]: "d < 10 \<Longrightarrow> (of_char (digit_char d) :: nat) = 48 + d"
  by (simp add: digit_char_def)

lemma digits_val_append: "digits_val (xs @ [c]) = digits_val xs * 10 + (of_char c - 48)"
  by (simp add: digits_val_def)

lemma digits_val_show [str_simps]: "digits_val (show_nat n) = n"
proof (induction "10::nat" n rule: show_base.induct)
  case (1 n)
  show ?case
  proof (cases "n < 10")
    case True
    then show ?thesis by (simp add: show_base.simps [of 10 n] digits_val_def)
  next
    case False
    with 1 have "digits_val (show_nat (n div 10)) = n div 10" by simp
    with False show ?thesis
      by (simp add: show_base.simps [of 10 n] digits_val_append)
  qed
qed

lemma show_nat_digits [str_simps]: "c \<in> set (show_nat n) \<Longrightarrow> is_digit c"
proof (induction "10::nat" n rule: show_base.induct)
  case (1 n)
  then show ?case
    by (cases "n < 10") (auto simp: show_base.simps [of 10 n])
qed

lemma show_base_nonempty [simp, str_simps]: "show_base b n \<noteq> []"
  by (subst show_base.simps) simp

lemma show_nat_no_char: "\<not> is_digit c \<Longrightarrow> c \<notin> set (show_nat n)"
  using show_nat_digits by blast

lemma digit_not_space_sign:
  "is_digit c \<Longrightarrow> \<not> is_space c \<and> c \<noteq> CHR ''-'' \<and> c \<noteq> CHR ''+'' \<and> c \<noteq> CHR ''|''"
  by (auto simp: is_digit_def is_space_def)

lemma show_nat_no_bar [simp, str_simps]: "CHR ''|'' \<notin> set (show_nat n)"
  by (rule show_nat_no_char) (simp add: is_digit_def)

lemma show_nat_inj [simp]: "show_nat m = show_nat n \<longleftrightarrow> m = n"
  by (metis digits_val_show)

text \<open>The round trip of printing and reading an unsigned 64-bit number.\<close>

lemma stoull_show_nat [str_simps]: "n < 2 ^ 64 \<Longrightarrow> stoull (show_nat n) = Inr (word_of_nat n)"
proof -
  assume n: "n < 2 ^ 64"
  let ?s = "show_nat n"
  have hd: "is_digit (hd ?s)" by (rule show_nat_digits [of _ n]) simp
  have all: "takeWhile is_digit ?s = ?s" by (simp add: show_nat_digits takeWhile_eq_all_conv)
  have drop: "dropWhile is_space ?s = ?s"
    using hd by (cases ?s) (auto dest: digit_not_space_sign)
  have sign: "hd ?s \<noteq> CHR ''-''" "hd ?s \<noteq> CHR ''+''"
    using digit_not_space_sign [OF hd] by auto
  show "stoull ?s = Inr (word_of_nat n)"
    using n by (simp add: stoull_def drop sign all digits_val_show Let_def)
qed

lemma stoull_show_u64 [simp, str_simps]: "stoull (show_u64 w) = Inr w"
  using unsigned_less [where w = w, where ?'a = nat] by (simp add: stoull_show_nat)

lemma stoull_show_u32 [simp, str_simps]: "stoull (show_u32 w) = Inr (ucast w)"
proof -
  have "unat w < 2 ^ 64" using unsigned_less [where w = w, where ?'a = nat] by simp
  then show ?thesis by (simp add: stoull_show_nat unsigned_ucast_eq word_unat_eq_iff unat_of_nat)
qed

text \<open>
  \<^verbatim>\<open>std::stoul(s, nullptr, 16)\<close>: hexadecimal digits of either case after an optional
  \<^verbatim>\<open>0x\<close>, which counts only when a digit follows it.
\<close>

definition hex_digit_val :: "char \<Rightarrow> nat option" where
  "hex_digit_val c =
     (let n = of_char c :: nat
      in if 48 \<le> n \<and> n \<le> 57 then Some (n - 48)
         else if 97 \<le> n \<and> n \<le> 102 then Some (n - 87)
         else if 65 \<le> n \<and> n \<le> 70 then Some (n - 55)
         else None)"

definition is_hex :: "char \<Rightarrow> bool" where
  "is_hex c \<longleftrightarrow> hex_digit_val c \<noteq> None"

fun skip_0x :: "string \<Rightarrow> string" where
  "skip_0x (z # x # c # u) =
     (if z = CHR ''0'' \<and> (x = CHR ''x'' \<or> x = CHR ''X'') \<and> is_hex c then c # u else z # x # c # u)"
| "skip_0x u = u"

definition stoul16 :: "string \<Rightarrow> cxx_exn + u64" where
  "stoul16 s =
     (let t = dropWhile is_space s;
          neg = (t \<noteq> [] \<and> hd t = CHR ''-'');
          u = (if t \<noteq> [] \<and> (hd t = CHR ''-'' \<or> hd t = CHR ''+'') then tl t else t);
          ds = takeWhile is_hex (skip_0x u);
          n = foldl (\<lambda>acc c. acc * 16 + the (hex_digit_val c)) 0 ds
      in if ds = [] then Inl Invalid_argument
         else if n \<ge> 2 ^ 64 then Inl Out_of_range
         else Inr (if neg then - word_of_nat n else word_of_nat n))"

lemma nat_less_16_cases:
  fixes d :: nat
  assumes "d < 16"
  shows "d \<in> {0, 1, 2, 3, 4, 5, 6, 7, 8, 9, 10, 11, 12, 13, 14, 15}"
proof -
  have "d \<in> set [0..<16]" using assms by simp
  then show ?thesis by (simp add: upt_rec eval_nat_numeral)
qed

lemma hex_digit_val_digit_char [simp]: "d < 16 \<Longrightarrow> hex_digit_val (digit_char d) = Some d"
  by (drule nat_less_16_cases) (auto simp: hex_digit_val_def Let_def)

lemma is_hex_digit_char [simp]: "d < 16 \<Longrightarrow> is_hex (digit_char d)"
  by (simp add: is_hex_def)

lemma hex_not_space_sign: "is_hex c \<Longrightarrow> \<not> is_space c \<and> c \<noteq> CHR ''-'' \<and> c \<noteq> CHR ''+''"
  by (auto simp: is_hex_def is_space_def hex_digit_val_def Let_def)

text \<open>Two printed digits read back as the byte.\<close>

lemma stoul16_hex_byte [simp, str_simps]: "stoul16 (hex_byte b) = Inr (ucast b)"
proof -
  let ?h = "unat b div 16" and ?l = "unat b mod 16"
  have h: "?h < 16" using unsigned_less [where w = b, where ?'a = nat] by (simp add: less_mult_imp_div_less)
  have s: "\<not> is_space (digit_char ?h)" "digit_char ?h \<noteq> CHR ''-''" "digit_char ?h \<noteq> CHR ''+''"
    using hex_not_space_sign [OF is_hex_digit_char [OF h]] by auto
  have "?h * 16 + ?l = unat b" by simp
  moreover have "unat b < 256" using unsigned_less [where w = b, where ?'a = nat] by simp
  then have "unat b < 2 ^ 64" by (rule less_trans) simp
  ultimately show ?thesis
    using h s by (simp add: stoul16_def hex_byte_def Let_def unsigned_ucast_eq word_unat_eq_iff unat_of_nat)
qed

section \<open>Reading fields: std::getline on an istringstream\<close>

text \<open>
  The state of an \<^verbatim>\<open>istringstream\<close> that the code reads with
  \<^verbatim>\<open>std::getline(ss, token, d)\<close>: what is left to read, whether the stream is still
  \<^verbatim>\<open>good()\<close>, and the caller's \<^verbatim>\<open>token\<close>. A stream that has met the end of its input is
  not good any more; the sentry of the next \<^verbatim>\<open>getline\<close> then fails before the token is
  erased, so the token keeps its old value.
\<close>

record istream =
  is_rest :: string
  is_good :: bool
  is_token :: string

definition open_stream :: "string \<Rightarrow> istream" where
  "open_stream s = \<lparr>is_rest = s, is_good = True, is_token = []\<rparr>"

definition getline :: "char \<Rightarrow> istream \<Rightarrow> istream" where
  "getline d st =
     (if \<not> is_good st then st
      else (case dropWhile (\<lambda>c. c \<noteq> d) (is_rest st) of
              [] \<Rightarrow> \<lparr>is_rest = [], is_good = False, is_token = is_rest st\<rparr>
            | _ # rest \<Rightarrow>
                \<lparr>is_rest = rest, is_good = True,
                 is_token = takeWhile (\<lambda>c. c \<noteq> d) (is_rest st)\<rparr>))"

text \<open>Fields joined by a delimiter, the format the writers produce.\<close>

fun join_with :: "char \<Rightarrow> string list \<Rightarrow> string" where
  "join_with d [] = []"
| "join_with d [s] = s"
| "join_with d (s # t # ts) = s @ d # join_with d (t # ts)"

lemma join_with_Cons: "ts \<noteq> [] \<Longrightarrow> join_with d (t # ts) = t @ d # join_with d ts"
  by (cases ts) simp_all

lemma join_with_concat: "join_with d (t # ts) = t @ concat (map (\<lambda>u. d # u) ts)"
  by (induction ts arbitrary: t) simp_all

lemma dropWhile_neq_append:
  "d \<notin> set t \<Longrightarrow> dropWhile (\<lambda>c. c \<noteq> d) (t @ d # r) = d # r"
  by (induction t) auto

lemma takeWhile_neq_append:
  "d \<notin> set t \<Longrightarrow> takeWhile (\<lambda>c. c \<noteq> d) (t @ d # r) = t"
  by (induction t) auto

lemma dropWhile_neq_none: "d \<notin> set t \<Longrightarrow> dropWhile (\<lambda>c. c \<noteq> d) t = []"
  by (induction t) auto

text \<open>\<open>stream_of d ts\<close> describes a good stream whose remaining fields are \<open>ts\<close>.\<close>

definition stream_of :: "char \<Rightarrow> string list \<Rightarrow> istream \<Rightarrow> bool" where
  "stream_of d ts st \<longleftrightarrow> is_good st \<and> ts \<noteq> [] \<and> is_rest st = join_with d ts \<and> (\<forall>t\<in>set ts. d \<notin> set t)"

lemma stream_of_open:
  "ts \<noteq> [] \<Longrightarrow> \<forall>t\<in>set ts. d \<notin> set t \<Longrightarrow> stream_of d ts (open_stream (join_with d ts))"
  by (simp add: stream_of_def open_stream_def)

lemma getline_token: "stream_of d (t # ts) st \<Longrightarrow> is_token (getline d st) = t"
  by (cases ts)
     (simp_all add: stream_of_def getline_def dropWhile_neq_none dropWhile_neq_append takeWhile_neq_append)

lemma getline_stream:
  "stream_of d (t # t' # ts) st \<Longrightarrow> stream_of d (t' # ts) (getline d st)"
  by (simp add: stream_of_def getline_def dropWhile_neq_append)

lemma getline_at_end: "\<not> is_good st \<Longrightarrow> getline d st = st"
  by (simp add: getline_def)

section \<open>Results\<close>

text \<open>Sequencing of fallible reads: an error ends the function.\<close>

definition bind_sum :: "'e + 'a \<Rightarrow> ('a \<Rightarrow> 'e + 'b) \<Rightarrow> 'e + 'b" where
  "bind_sum r f = (case r of Inl e \<Rightarrow> Inl e | Inr a \<Rightarrow> f a)"

lemma bind_sum_simps [simp]: "bind_sum (Inl e) f = Inl e" "bind_sum (Inr a) f = f a"
  by (simp_all add: bind_sum_def)

lemma bind_sum_Inr: "bind_sum r f = Inr b \<longleftrightarrow> (\<exists>a. r = Inr a \<and> f a = Inr b)"
  by (cases r) simp_all

section \<open>Bounds of unsigned values\<close>

lemma unat_u32_less [simp]: "unat (w :: u32) < 4294967296"
  using unsigned_less [where w = w, where ?'a = nat] by simp

lemma unat_u64_less [simp]: "unat (w :: u64) < 18446744073709551616"
  using unsigned_less [where w = w, where ?'a = nat] by simp

lemma unat_u16_less [simp]: "unat (w :: u16) < 65536"
  using unsigned_less [where w = w, where ?'a = nat] by simp

lemma unat_u64_Suc: "(m :: u64) < n \<Longrightarrow> unat (m + 1) = unat m + 1"
proof -
  assume "m < n"
  then have "unat m < unat n" by (simp add: word_less_nat_alt)
  then have "unat m + 1 < 18446744073709551616" using unat_u64_less [of n] by linarith
  then show ?thesis by (simp add: unat_word_ariths)
qed

section \<open>Reading a record of fields\<close>

text \<open>
  The text formats of the code are read field by field: each field is the next token of
  the stream, converted and stored in the object being read; a conversion that throws,
  or a check that returns, ends the reading with the object as it is then.
\<close>

type_synonym 'b reader = "string \<Rightarrow> 'b \<Rightarrow> 'b option"

fun read_fields :: "char \<Rightarrow> 'b reader list \<Rightarrow> istream \<Rightarrow> 'b \<Rightarrow> istream \<times> 'b \<times> bool" where
  "read_fields d [] st b = (st, b, True)"
| "read_fields d (f # fs) st b =
     (let st' = getline d st
      in case f (is_token st') b of
           None \<Rightarrow> (st', b, False)
         | Some b' \<Rightarrow> read_fields d fs st' b')"

text \<open>A field kept as it is, and a field read with \<^verbatim>\<open>std::stoull\<close>.\<close>

definition str_field :: "(string \<Rightarrow> 'b \<Rightarrow> 'b) \<Rightarrow> 'b reader" where
  "str_field upd t b = Some (upd t b)"

definition num_field :: "(u64 \<Rightarrow> 'b \<Rightarrow> 'b) \<Rightarrow> 'b reader" where
  "num_field upd t b = (case stoull t of Inl e \<Rightarrow> None | Inr n \<Rightarrow> Some (upd n b))"

lemma str_field_simp [simp]: "str_field upd t b = Some (upd t b)"
  by (simp add: str_field_def)

lemma num_field_u64 [simp]: "num_field upd (show_u64 w) b = Some (upd w b)"
  by (simp add: num_field_def)

lemma num_field_u32 [simp]: "num_field upd (show_u32 w) b = Some (upd (ucast w) b)"
  by (simp add: num_field_def)

text \<open>The same on a list of tokens, and a stream that holds them.\<close>

fun apply_fields :: "'b reader list \<Rightarrow> string list \<Rightarrow> 'b \<Rightarrow> 'b option" where
  "apply_fields (f # fs) (t # ts) b = Option.bind (f t b) (apply_fields fs ts)"
| "apply_fields _ _ b = Some b"

definition holds_fields :: "char \<Rightarrow> string list \<Rightarrow> istream \<Rightarrow> bool" where
  "holds_fields d ts st \<longleftrightarrow> ts = [] \<or> stream_of d ts st"

lemma holds_fields_Cons [simp]: "holds_fields d (t # ts) st \<longleftrightarrow> stream_of d (t # ts) st"
  by (simp add: holds_fields_def)

lemma holds_fields_next: "stream_of d (t # ts) st \<Longrightarrow> holds_fields d ts (getline d st)"
  by (cases ts) (auto simp: holds_fields_def intro: getline_stream)

lemma read_fields_tokens:
  "holds_fields d (ts @ rest) st \<Longrightarrow> length fs = length ts \<Longrightarrow> apply_fields fs ts b = Some b' \<Longrightarrow>
   \<exists>st'. read_fields d fs st b = (st', b', True) \<and> holds_fields d rest st'"
proof (induction fs ts b arbitrary: st rule: apply_fields.induct)
  case (1 f fs t ts b)
  from 1(4) obtain b1 where f: "f t b = Some b1" and r: "apply_fields fs ts b1 = Some b'"
    by (auto simp: bind_eq_Some_conv)
  have s: "stream_of d (t # (ts @ rest)) st" using 1(2) by simp
  from 1(1) [OF f holds_fields_next [OF s] _ r] 1(3)
  show ?case by (simp add: f getline_token [OF s])
qed auto

section \<open>Reading a byte buffer\<close>

text \<open>
  The binary formats are read from a buffer with a moving position. A reader returns the
  value and the new position, or nothing. \<open>reads rd x enc\<close> says that wherever the bytes
  \<open>enc\<close> stand in a buffer, the reader returns \<open>x\<close> and stops right after them; sequencing
  preserves it.
\<close>

type_synonym 'a breader = "bytes \<Rightarrow> nat \<Rightarrow> ('a \<times> nat) option"

definition buf_at :: "bytes \<Rightarrow> nat \<Rightarrow> bytes \<Rightarrow> bool" where
  "buf_at buf pos rest \<longleftrightarrow> pos \<le> length buf \<and> drop pos buf = rest"

definition reads :: "'a breader \<Rightarrow> 'a \<Rightarrow> bytes \<Rightarrow> bool" where
  "reads rd x enc \<longleftrightarrow>
     (\<forall>buf pos rest. buf_at buf pos (enc @ rest) \<longrightarrow>
        rd buf pos = Some (x, pos + length enc) \<and> buf_at buf (pos + length enc) rest)"

lemma buf_at_length: "buf_at buf pos rest \<Longrightarrow> length buf = pos + length rest"
  by (auto simp: buf_at_def)

lemma buf_at_take: "buf_at buf pos (enc @ rest) \<Longrightarrow> take (length enc) (drop pos buf) = enc"
  by (simp add: buf_at_def)

lemma buf_at_skip:
  assumes "buf_at buf pos (enc @ rest)"
  shows "buf_at buf (pos + length enc) rest"
proof -
  have "drop (pos + length enc) buf = drop (length enc) (drop pos buf)"
    by (simp add: add.commute)
  with assms buf_at_length [OF assms] show ?thesis by (simp add: buf_at_def)
qed

lemma buf_at_nth: "buf_at buf pos (enc @ rest) \<Longrightarrow> i < length enc \<Longrightarrow> buf ! (pos + i) = enc ! i"
  unfolding buf_at_def by (metis nth_append nth_drop)

lemma buf_at_0 [simp]: "buf_at buf 0 rest \<longleftrightarrow> buf = rest"
  by (simp add: buf_at_def)

lemma readsI:
  assumes "\<And>buf pos rest. buf_at buf pos (enc @ rest) \<Longrightarrow> rd buf pos = Some (x, pos + length enc)"
  shows "reads rd x enc"
  unfolding reads_def using assms buf_at_skip by blast

lemma reads_bind:
  assumes "reads r1 x e1" and "reads (r2 x) y e2"
  shows "reads (\<lambda>buf pos. Option.bind (r1 buf pos) (\<lambda>(a, p). r2 a buf p)) y (e1 @ e2)"
  unfolding reads_def
proof (intro allI impI)
  fix buf pos rest
  assume "buf_at buf pos ((e1 @ e2) @ rest)"
  then have 1: "r1 buf pos = Some (x, pos + length e1)" "buf_at buf (pos + length e1) (e2 @ rest)"
    using assms(1) by (auto simp: reads_def)
  from 1(2) assms(2) have "r2 x buf (pos + length e1) = Some (y, pos + length e1 + length e2)"
    "buf_at buf (pos + length e1 + length e2) rest"
    by (auto simp: reads_def)
  with 1 show "Option.bind (r1 buf pos) (\<lambda>(a, p). r2 a buf p) = Some (y, pos + length (e1 @ e2)) \<and>
      buf_at buf (pos + length (e1 @ e2)) rest"
    by (simp add: add.assoc)
qed

lemma reads_return: "reads (\<lambda>buf pos. Some (x, pos)) x []"
  by (simp add: reads_def)

lemma reads_eq: "reads rd x enc \<Longrightarrow> enc = enc' \<Longrightarrow> reads rd x enc'"
  by simp

section \<open>Checked addition\<close>

text \<open>The test \<^verbatim>\<open>b > UINT64_MAX - a\<close>.\<close>

lemma unat_add_overflow: "(b :: u64) > - 1 - a \<longleftrightarrow> unat a + unat b \<ge> 2 ^ 64"
proof -
  have "unat (- 1 - a) = 2 ^ 64 - 1 - unat a"
    by (subst unat_sub) (simp_all add: unsigned_minus_1_eq_mask mask_eq_exp_minus_1)
  moreover have "unat a < 2 ^ 64" by simp
  ultimately show ?thesis unfolding word_less_nat_alt by linarith
qed

lemma unat_add_checked:
  fixes a v :: u64
  assumes "\<not> v > - 1 - a"
  shows "unat (a + v) = unat a + unat v"
  using assms unfolding unat_add_overflow by (simp add: unat_word_ariths)

end
