(* ===== verification/Keccak.thy ===== *)
theory Keccak
  imports Prelude
begin

text \<open>
  Keccak-256, \<^verbatim>\<open>src/crypto/keccak256.cpp\<close>: the round constants and rotation offsets,
  the lane helpers, the permutation Keccak-f[1600], the absorbing loop with its padding,
  and the public overloads with their null-pointer check.

  The state is the array of 25 lanes as a list; a lane is a 64-bit word. The lemmas show
  that every digest has 32 bytes, that the in-place absorbing loop with its stack buffer
  is the sponge construction over the padded message, and how the round constants of the
  code relate to those the Keccak specification generates from its shift register.
\<close>

section \<open>Constants\<close>

definition KECCAK_RATE :: nat where "KECCAK_RATE = 136"
definition KECCAK_DOMAIN_SEP :: u8 where "KECCAK_DOMAIN_SEP = 0x01"
definition STATE_LANES :: nat where "STATE_LANES = 25"

definition RC :: "u64 list" where
  "RC =
    [0x0000000000000001, 0x0000000000008082, 0x800000000000808A,
     0x8000000080008000, 0x000000000000808B, 0x0000000080000001,
     0x8000000080008081, 0x8000000000008009, 0x000000000000008A,
     0x0000000000000088, 0x0000000080008009, 0x000000008000000A,
     0x000000008000808B, 0x800000000000008B, 0x8000000000008089,
     0x8000000000008003, 0x8000000000008002, 0x8000000000000080,
     0x000000000000800A, 0x800000008000000A, 0x8000000080008081,
     0x8000000000008080, 0x0000000000000001, 0x8000000000008008]"

definition RHO :: "nat list" where
  "RHO =
    [ 0,  1, 62, 28, 27,
     36, 44,  6, 55, 20,
      3, 10, 43, 25, 39,
     41, 45, 15, 21,  8,
     18,  2, 61, 56, 14]"

section \<open>Lanes\<close>

text \<open>
  \<^verbatim>\<open>rotl64(x, 0)\<close> shifts a 64-bit value right by 64, which C++ leaves undefined; the
  code calls it so for lane 0 (\<open>RHO ! 0 = 0\<close>). Here, as on hardware that yields either
  \<open>0\<close> or \<open>x\<close> for that shift, the result is \<open>x\<close>.
\<close>

definition rotl64 :: "u64 \<Rightarrow> nat \<Rightarrow> u64" where
  "rotl64 x n = push_bit n x OR drop_bit (64 - n) x"

definition leRead64 :: "bytes \<Rightarrow> u64" where
  "leRead64 p =
     ucast (p ! 0)
     OR push_bit 8 (ucast (p ! 1))
     OR push_bit 16 (ucast (p ! 2))
     OR push_bit 24 (ucast (p ! 3))
     OR push_bit 32 (ucast (p ! 4))
     OR push_bit 40 (ucast (p ! 5))
     OR push_bit 48 (ucast (p ! 6))
     OR push_bit 56 (ucast (p ! 7))"

definition leWrite64 :: "u64 \<Rightarrow> bytes" where
  "leWrite64 v = map (\<lambda>i. ucast (drop_bit (8 * i) v)) [0..<8]"

section \<open>The permutation\<close>

definition theta_C :: "u64 list \<Rightarrow> u64 list" where
  "theta_C st = map (\<lambda>x. st ! x XOR st ! (x + 5) XOR st ! (x + 10) XOR st ! (x + 15) XOR st ! (x + 20)) [0..<5]"

definition theta_D :: "u64 list \<Rightarrow> u64 list" where
  "theta_D C = map (\<lambda>x. C ! ((x + 4) mod 5) XOR rotl64 (C ! ((x + 1) mod 5)) 1) [0..<5]"

definition theta :: "u64 list \<Rightarrow> u64 list" where
  "theta st = (let D = theta_D (theta_C st) in map (\<lambda>i. st ! i XOR D ! (i mod 5)) [0..<25])"

definition pi_index :: "nat \<Rightarrow> nat" where
  "pi_index i = (let x = i mod 5; y = i div 5 in y + 5 * ((2 * x + 3 * y) mod 5))"

definition rho_pi :: "u64 list \<Rightarrow> u64 list" where
  "rho_pi st = fold (\<lambda>i B. B[pi_index i := rotl64 (st ! i) (RHO ! i)]) [0..<25] (replicate 25 0)"

definition chi :: "u64 list \<Rightarrow> u64 list" where
  "chi B =
     concat (map (\<lambda>y. map (\<lambda>x.
       B ! (x + 5 * y)
         XOR (NOT (B ! ((x + 1) mod 5 + 5 * y)) AND B ! ((x + 2) mod 5 + 5 * y))) [0..<5]) [0..<5])"

definition iota :: "nat \<Rightarrow> u64 list \<Rightarrow> u64 list" where
  "iota r st = st[0 := st ! 0 XOR RC ! r]"

definition keccak_round :: "nat \<Rightarrow> u64 list \<Rightarrow> u64 list" where
  "keccak_round r st = iota r (chi (rho_pi (theta st)))"

definition keccakF1600 :: "u64 list \<Rightarrow> u64 list" where
  "keccakF1600 st = fold keccak_round [0..<24] st"

section \<open>Absorbing and squeezing\<close>

text \<open>\<^verbatim>\<open>state[i] ^= leRead64(block + i * 8)\<close> for the lanes of the rate.\<close>

definition absorb :: "u64 list \<Rightarrow> bytes \<Rightarrow> u64 list" where
  "absorb state p =
     fold (\<lambda>i s. s[i := s ! i XOR leRead64 (drop (i * 8) p)]) [0..<KECCAK_RATE div 8] state"

text \<open>The \<^verbatim>\<open>while (length >= KECCAK_RATE)\<close> loop: the new state and the unread tail.\<close>

function absorb_full :: "u64 list \<Rightarrow> bytes \<Rightarrow> u64 list \<times> bytes" where
  "absorb_full state data =
     (if length data \<ge> KECCAK_RATE
      then absorb_full (keccakF1600 (absorb state data)) (drop KECCAK_RATE data)
      else (state, data))"
  by pat_completeness auto
termination
  by (relation "measure (\<lambda>(state, data). length data)") (auto simp: KECCAK_RATE_def)

declare absorb_full.simps [simp del]

definition pad_block :: "bytes \<Rightarrow> bytes" where
  "pad_block data =
     (let pad = data @ replicate (KECCAK_RATE - length data) 0;
          pad = pad[length data := pad ! length data XOR KECCAK_DOMAIN_SEP]
      in pad[KECCAK_RATE - 1 := pad ! (KECCAK_RATE - 1) XOR 0x80])"

definition keccak256Core :: "bytes \<Rightarrow> bytes" where
  "keccak256Core data =
     (let (state, rest) = absorb_full (replicate STATE_LANES 0) data;
          state = keccakF1600 (absorb state (pad_block rest))
      in concat (map (\<lambda>i. leWrite64 (state ! i)) [0..<4]))"

section \<open>The public overloads\<close>

text \<open>
  The pointer is \<open>None\<close> for \<^verbatim>\<open>nullptr\<close> and otherwise the bytes it points to; the result
  is the returned flag and the digest written to \<^verbatim>\<open>digestOut\<close>.
\<close>

definition Keccak256 :: "bytes option \<Rightarrow> nat \<Rightarrow> bool \<times> bytes" where
  "Keccak256 data len =
     (if data = None \<and> len > 0 then (False, replicate 32 0)
      else (True, keccak256Core (case data of None \<Rightarrow> [] | Some d \<Rightarrow> take len d)))"

definition Keccak256_into :: "bytes \<Rightarrow> bool \<times> bytes" where
  "Keccak256_into data = Keccak256 (if data = [] then None else Some data) (length data)"

definition Keccak256_ptr :: "bytes option \<Rightarrow> nat \<Rightarrow> bytes" where
  "Keccak256_ptr data len =
     (let (ok, digest) = Keccak256 data len in if \<not> ok then replicate 32 0 else digest)"

definition Keccak256_vec :: "bytes \<Rightarrow> bytes" where
  "Keccak256_vec data = Keccak256_ptr (if data = [] then None else Some data) (length data)"

section \<open>The sponge construction\<close>

text \<open>
  The specification: the message is padded with the domain separator, zeros and a final
  bit to a multiple of the rate, cut into blocks, and each block is absorbed.
\<close>

definition sponge_pad :: "bytes \<Rightarrow> bytes" where
  "sponge_pad m =
     (let q = KECCAK_RATE - length m mod KECCAK_RATE
      in m @ (if q = 1 then [0x81] else 0x01 # replicate (q - 2) 0 @ [0x80]))"

fun blocks_of :: "nat \<Rightarrow> bytes \<Rightarrow> bytes list" where
  "blocks_of n m = (if n = 0 \<or> length m < n then [] else take n m # blocks_of n (drop n m))"

declare blocks_of.simps [simp del]

definition sponge_absorb :: "bytes list \<Rightarrow> u64 list" where
  "sponge_absorb bs = fold (\<lambda>b st. keccakF1600 (absorb st b)) bs (replicate STATE_LANES 0)"

text \<open>
  The round constants of the Keccak specification: bit \<open>2 ^ j - 1\<close> of constant \<open>r\<close> is
  output \<open>j + 7 * r\<close> of the shift register of \<open>x ^ 8 + x ^ 6 + x ^ 5 + x ^ 4 + 1\<close>, which
  starts from 1.
\<close>

definition lfsr_step :: "int \<Rightarrow> int" where
  "lfsr_step R = (if 256 \<le> 2 * R then (2 * R) XOR 0x171 else 2 * R)"

primrec lfsr_bits :: "nat \<Rightarrow> int \<Rightarrow> bool list" where
  "lfsr_bits 0 R = []"
| "lfsr_bits (Suc n) R = odd R # lfsr_bits n (lfsr_step R)"

fun rc_words :: "bool list \<Rightarrow> u64 list" where
  "rc_words (b0 # b1 # b2 # b3 # b4 # b5 # b6 # bs) =
     (of_bool b0 + of_bool b1 * 2 + of_bool b2 * 2 ^ 3 + of_bool b3 * 2 ^ 7
      + of_bool b4 * 2 ^ 15 + of_bool b5 * 2 ^ 31 + of_bool b6 * 2 ^ 63) # rc_words bs"
| "rc_words _ = []"

definition rc_spec :: "u64 list" where
  "rc_spec = rc_words (lfsr_bits (24 * 7) 1)"

section \<open>Lemmas\<close>

lemma length_RC [simp]: "length RC = 24" by (simp add: RC_def)
lemma length_RHO [simp]: "length RHO = 25" by (simp add: RHO_def)

lemma length_leWrite64 [simp]: "length (leWrite64 v) = 8"
  by (simp add: leWrite64_def)

lemma length_fold_update:
  "length (fold (\<lambda>i s. s[f i := g i s]) is s) = length s"
  by (induction "is" arbitrary: s) simp_all

lemma length_absorb [simp]: "length (absorb st p) = length st"
  by (simp add: absorb_def length_fold_update)

lemma length_rho_pi [simp]: "length (rho_pi st) = 25"
  by (simp add: rho_pi_def length_fold_update)

lemma length_chi [simp]: "length (chi st) = 25"
  by (simp add: chi_def length_concat comp_def sum_list_triv)

lemma length_keccak_round [simp]: "length (keccak_round r st) = 25"
  by (simp add: keccak_round_def iota_def)

lemma length_fold_round: "length st = 25 \<Longrightarrow> length (fold keccak_round rs st) = 25"
  by (induction rs arbitrary: st) simp_all

lemma length_keccakF1600 [simp]: "length st = 25 \<Longrightarrow> length (keccakF1600 st) = 25"
  by (simp add: keccakF1600_def length_fold_round)

lemma length_keccak256Core [simp]: "length (keccak256Core data) = 32"
  by (simp add: keccak256Core_def length_concat comp_def sum_list_triv split: prod.splits)

text \<open>\<open>rho\<close> and \<open>pi\<close> write every lane of \<^verbatim>\<open>B\<close> exactly once: no lane is left unset.\<close>

lemma pi_index_bij: "bij_betw pi_index {..<25} {..<25}"
proof -
  have img: "set (map pi_index [0..<25]) = {..<25}"
    by (simp add: pi_index_def upt_rec) (auto simp: lessThan_nat_numeral lessThan_Suc)
  have dist: "distinct (map pi_index [0..<25])"
    by (simp add: pi_index_def upt_rec)
  have "inj_on pi_index {..<25}"
    using dist by (simp add: distinct_map atLeast0LessThan)
  then show ?thesis
    using img by (simp add: bij_betw_def atLeast0LessThan)
qed

text \<open>The rotation is the library's, for the offsets the permutation uses.\<close>

lemma rotl64_word_rotl:
  assumes "n < 64"
  shows "rotl64 x n = word_rotl n x"
proof (rule bit_word_eqI)
  fix k :: nat
  assume k: "k < LENGTH(64)"
  show "bit (rotl64 x n) k \<longleftrightarrow> bit (word_rotl n x) k"
  proof (cases "n \<le> k")
    case True
    with k assms have "(k + (64 - n)) mod 64 = k - n"
      by (simp add: mod_if)
    moreover have "\<not> bit x (64 + k - n)"
      using True bit_imp_le_length [of x "64 + k - n"] by auto
    ultimately show ?thesis
      using True k assms
      by (simp add: rotl64_def bit_or_iff bit_push_bit_iff bit_drop_bit_eq bit_word_rotl_iff)
  next
    case False
    with k assms have "(k + (64 - n)) mod 64 = k + (64 - n)"
      by simp
    with False k assms show ?thesis
      by (simp add: rotl64_def bit_or_iff bit_push_bit_iff bit_drop_bit_eq bit_word_rotl_iff add.commute [of k 64])
  qed
qed

lemma lfsr_bits_numeral:
  "lfsr_bits (numeral k) R = odd R # lfsr_bits (pred_numeral k) (lfsr_step R)"
  by (simp add: numeral_eq_Suc)

lemma rc_spec_eval:
  "rc_spec =
    [0x0000000000000001, 0x0000000000008082, 0x800000000000808A,
     0x8000000080008000, 0x000000000000808B, 0x0000000080000001,
     0x8000000080008081, 0x8000000000008009, 0x000000000000008A,
     0x0000000000000088, 0x0000000080008009, 0x000000008000000A,
     0x000000008000808B, 0x800000000000008B, 0x8000000000008089,
     0x8000000000008003, 0x8000000000008002, 0x8000000000000080,
     0x000000000000800A, 0x800000008000000A, 0x8000000080008081,
     0x8000000000008080, 0x0000000080000001, 0x8000000080008008]"
  by (simp add: rc_spec_def lfsr_bits_numeral lfsr_step_def)

text \<open>
  the round constants of the code are those of the Keccak specification except for
  the last two rounds, whose constants lack bit 31: the digest is not Keccak-256.
\<close>

theorem RC_deviates_from_spec:
  "RC = rc_spec[22 := 0x0000000000000001, 23 := 0x8000000000008008]
   \<and> rc_spec ! 22 = 0x0000000080000001 \<and> rc_spec ! 23 = 0x8000000080008008"
  by (simp add: RC_def rc_spec_eval)

section \<open>The absorbing loop is the sponge construction\<close>

lemma absorb_full_short: "length data < KECCAK_RATE \<Longrightarrow> absorb_full st data = (st, data)"
  by (simp add: absorb_full.simps)

lemma leRead64_take:
  "k + 8 \<le> n \<Longrightarrow> n \<le> length p \<Longrightarrow> leRead64 (drop k (take n p)) = leRead64 (drop k p)"
  by (simp add: leRead64_def)

lemma absorb_take:
  assumes "KECCAK_RATE \<le> length p"
  shows "absorb st (take KECCAK_RATE p) = absorb st p"
  unfolding absorb_def using assms
  by (intro fold_cong) (auto simp: KECCAK_RATE_def leRead64_take)

lemma absorb_full_eq:
  "absorb_full st m =
     (fold (\<lambda>b st. keccakF1600 (absorb st b)) (blocks_of KECCAK_RATE m) st,
      drop (KECCAK_RATE * (length m div KECCAK_RATE)) m)"
proof (induction st m rule: absorb_full.induct)
  case (1 st m)
  show ?case
  proof (cases "KECCAK_RATE \<le> length m")
    case True
    have d: "length m div 136 = Suc ((length m - 136) div 136)"
      using True by (simp add: KECCAK_RATE_def le_div_geq)
    have b: "blocks_of KECCAK_RATE m = take KECCAK_RATE m # blocks_of KECCAK_RATE (drop KECCAK_RATE m)"
      using True by (subst blocks_of.simps) (simp add: KECCAK_RATE_def)
    from 1 [OF True] show ?thesis
      using True d
      by (simp add: absorb_full.simps [of st m] b absorb_take)
         (simp add: KECCAK_RATE_def add.commute)
  next
    case False
    then show ?thesis
      by (simp add: absorb_full.simps [of st m] blocks_of.simps [of _ m] KECCAK_RATE_def)
  qed
qed

lemma pad_block_eq:
  assumes "length m < KECCAK_RATE"
  shows "pad_block m = sponge_pad m"
proof (cases "length m = 135")
  case True
  then show ?thesis
    by (simp add: pad_block_def sponge_pad_def KECCAK_RATE_def KECCAK_DOMAIN_SEP_def list_update_append nth_append)
next
  case False
  with assms obtain k where k: "KECCAK_RATE - length m = Suc (Suc k)" and l: "KECCAK_RATE - 1 = length m + Suc k"
    by (auto simp: KECCAK_RATE_def intro: that [of "134 - length m"])
  have q: "length m mod KECCAK_RATE = length m" using assms by simp
  have r: "replicate (Suc (Suc k)) (0 :: u8) = 0 # replicate k 0 @ [0]"
    by (simp add: replicate_append_same)
  show ?thesis
    unfolding pad_block_def sponge_pad_def Let_def l k q r
    by (simp add: KECCAK_DOMAIN_SEP_def list_update_append nth_append)
qed

lemma length_pad_block: "length m < KECCAK_RATE \<Longrightarrow> length (pad_block m) = KECCAK_RATE"
  by (simp add: pad_block_def KECCAK_RATE_def Let_def)

lemma blocks_of_exact: "length b = n \<Longrightarrow> 0 < n \<Longrightarrow> blocks_of n (b @ m) = b # blocks_of n m"
  by (subst blocks_of.simps) simp

lemma blocks_of_sponge_pad:
  "blocks_of KECCAK_RATE (sponge_pad m) =
     blocks_of KECCAK_RATE m @ [pad_block (drop (KECCAK_RATE * (length m div KECCAK_RATE)) m)]"
proof (induction "KECCAK_RATE" m rule: blocks_of.induct)
  case (1 m)
  show ?case
  proof (cases "length m < KECCAK_RATE")
    case True
    then have "blocks_of KECCAK_RATE (sponge_pad m) = [pad_block m]"
      using blocks_of_exact [of "pad_block m" KECCAK_RATE "[]"] length_pad_block [OF True]
      by (simp add: pad_block_eq [symmetric] KECCAK_RATE_def blocks_of.simps [of _ "[]"])
    with True show ?thesis
      by (simp add: blocks_of.simps [of _ m] KECCAK_RATE_def)
  next
    case False
    then have m: "m = take KECCAK_RATE m @ drop KECCAK_RATE m" and l: "length (take KECCAK_RATE m) = KECCAK_RATE"
      by simp_all
    have pad: "sponge_pad m = take KECCAK_RATE m @ sponge_pad (drop KECCAK_RATE m)"
      using False
      by (simp add: sponge_pad_def KECCAK_RATE_def le_mod_geq Let_def append_assoc [symmetric]
          del: append_assoc)
    have b: "blocks_of KECCAK_RATE m = take KECCAK_RATE m # blocks_of KECCAK_RATE (drop KECCAK_RATE m)"
      using False by (subst blocks_of.simps) (simp add: KECCAK_RATE_def)
    have d: "length m div 136 = Suc ((length m - 136) div 136)"
      using False by (simp add: KECCAK_RATE_def le_div_geq)
    have IH: "blocks_of KECCAK_RATE (sponge_pad (drop KECCAK_RATE m)) =
        blocks_of KECCAK_RATE (drop KECCAK_RATE m) @
        [pad_block (drop (KECCAK_RATE * ((length m - KECCAK_RATE) div KECCAK_RATE)) (drop KECCAK_RATE m))]"
      using 1 False by (simp add: KECCAK_RATE_def)
    have "blocks_of KECCAK_RATE (sponge_pad m) =
        take KECCAK_RATE m # blocks_of KECCAK_RATE (sponge_pad (drop KECCAK_RATE m))"
      unfolding pad by (rule blocks_of_exact [OF l]) (simp add: KECCAK_RATE_def)
    with IH b d show ?thesis
      by (simp add: KECCAK_RATE_def add.commute)
  qed
qed

text \<open>C36: the absorbing loop of the code, with its tail copied into a stack buffer and padded
  there, computes the sponge construction over the padded message.
\<close>

theorem keccak256Core_sponge:
  "keccak256Core m =
     take 32 (concat (map leWrite64 (sponge_absorb (blocks_of KECCAK_RATE (sponge_pad m)))))"
proof -
  let ?st = "sponge_absorb (blocks_of KECCAK_RATE (sponge_pad m))"
  have len: "length ?st = 25"
  proof -
    have "length (fold (\<lambda>b st. keccakF1600 (absorb st b)) bs st) = 25" if "length st = 25" for bs st
      using that by (induction bs arbitrary: st) simp_all
    then show ?thesis by (simp add: sponge_absorb_def STATE_LANES_def)
  qed
  have core: "keccak256Core m = concat (map (\<lambda>i. leWrite64 (?st ! i)) [0..<4])"
    by (simp add: keccak256Core_def absorb_full_eq sponge_absorb_def blocks_of_sponge_pad)
  obtain a b c d rest where st: "?st = a # b # c # d # rest"
    using len by (auto simp: numeral_eq_Suc length_Suc_conv)
  show ?thesis
    unfolding core st by (simp add: upt_rec)
qed

end
