(* ===== verification/Transaction.thy ===== *)
theory Transaction
  imports Keccak
begin

text \<open>
  Transactions, \<^verbatim>\<open>include/transaction.h\<close> and \<^verbatim>\<open>src/transaction.cpp\<close>: the data, the hash
  \<^verbatim>\<open>calculateHash\<close> computes over the printed fields, and \<^verbatim>\<open>isValid\<close>; and the address
  index of the UTXO set, \<^verbatim>\<open>src/utxo.cpp\<close>, the only method of \<^verbatim>\<open>UTXOSet\<close> in the sources.
\<close>

section \<open>Data\<close>

text \<open>\<open>in_outputIndex\<close> is a C++ \<^verbatim>\<open>int\<close>: the word is read as two's complement.\<close>

record tx_input =
  in_prevTxHash :: string
  in_outputIndex :: u32

record tx_output =
  out_value :: u64
  out_address :: string

record transaction =
  tx_chainId :: u64
  tx_nonce :: u64
  tx_maxPriorityFeePerGas :: u64
  tx_maxFeePerGas :: u64
  tx_gasLimit :: u64
  tx_toAddress :: string
  tx_value :: u64
  tx_data :: bytes
  tx_inputs :: "tx_input list"
  tx_outputs :: "tx_output list"
  tx_v :: u64
  tx_r :: bytes
  tx_s :: bytes
  tx_txHash :: string

text \<open>The default member initialisers.\<close>

definition default_tx :: transaction where
  "default_tx =
     \<lparr>tx_chainId = 0, tx_nonce = 0, tx_maxPriorityFeePerGas = 0, tx_maxFeePerGas = 0,
      tx_gasLimit = 0, tx_toAddress = [], tx_value = 0, tx_data = [], tx_inputs = [],
      tx_outputs = [], tx_v = 0, tx_r = replicate 32 0, tx_s = replicate 32 0, tx_txHash = []\<rparr>"

section \<open>The hash\<close>

text \<open>
  The printed fields. \<^verbatim>\<open>std::hex\<close> set by the first byte of \<^verbatim>\<open>data\<close> stays set on the
  stream: the output indices and values after it are printed in base 16, an \<^verbatim>\<open>int\<close> then
  as its two's complement; with empty \<^verbatim>\<open>data\<close> they are printed in decimal.
\<close>

definition show_index :: "bool \<Rightarrow> u32 \<Rightarrow> string" where
  "show_index hex i = (if hex then show_hex (unat i) else show_i32 i)"

definition show_amount :: "bool \<Rightarrow> u64 \<Rightarrow> string" where
  "show_amount hex v = (if hex then show_hex (unat v) else show_u64 v)"

definition tx_preimage :: "transaction \<Rightarrow> string" where
  "tx_preimage tx =
     (let hex = (tx_data tx \<noteq> [])
      in show_u64 (tx_chainId tx) @ show_u64 (tx_nonce tx)
         @ show_u64 (tx_maxPriorityFeePerGas tx) @ show_u64 (tx_maxFeePerGas tx)
         @ show_u64 (tx_gasLimit tx) @ tx_toAddress tx @ show_u64 (tx_value tx)
         @ hex_bytes (tx_data tx)
         @ concat (map (\<lambda>i. in_prevTxHash i @ show_index hex (in_outputIndex i)) (tx_inputs tx))
         @ concat (map (\<lambda>y. show_amount hex (out_value y) @ out_address y) (tx_outputs tx)))"

definition calculateHash :: "transaction \<Rightarrow> transaction \<times> bool" where
  "calculateHash tx =
     (let raw = tx_preimage tx;
          (ok, digest) = Keccak256 (Some (str_bytes raw)) (length raw)
      in if \<not> ok then (tx, False) else (tx\<lparr>tx_txHash := hex_bytes digest\<rparr>, True))"

definition tx_isValid :: "transaction \<Rightarrow> bool" where
  "tx_isValid tx =
     (if tx_txHash tx = [] then False else if length (tx_txHash tx) \<noteq> 64 then False else True)"

section \<open>The address index of the UTXO set\<close>

text \<open>
  \<^verbatim>\<open>addressToUtxoIndex_\<close>: per shard a map from an address to the set of its UTXO keys.
  The shard is chosen by \<^verbatim>\<open>std::hash\<close>, which the standard leaves to the implementation:
  it is the parameter \<open>hash\<close>.
\<close>

type_synonym address_index = "(string \<rightharpoonup> string set) list"

definition NUM_SHARDS :: nat where "NUM_SHARDS = 64"

definition removeAddressIndexSafe ::
    "(string \<Rightarrow> nat) \<Rightarrow> string \<Rightarrow> string \<Rightarrow> address_index \<Rightarrow> address_index" where
  "removeAddressIndexSafe hash address utxoKey index =
     (if address = [] \<or> utxoKey = [] then index
      else
        let i = hash address mod NUM_SHARDS; shardMap = index ! i
        in case shardMap address of
             None \<Rightarrow> index
           | Some utxos \<Rightarrow>
               let utxos' = utxos - {utxoKey}
               in if utxos' = {} then index[i := shardMap(address := None)]
                  else index[i := shardMap(address \<mapsto> utxos')])"

text \<open>The abstract index: the keys recorded for an address.\<close>

definition index_keys :: "(string \<Rightarrow> nat) \<Rightarrow> address_index \<Rightarrow> string \<Rightarrow> string set" where
  "index_keys hash index a =
     (case (index ! (hash a mod NUM_SHARDS)) a of None \<Rightarrow> {} | Some ks \<Rightarrow> ks)"

text \<open>Every address is kept in its own shard, with at least one key.\<close>

definition index_wf :: "(string \<Rightarrow> nat) \<Rightarrow> address_index \<Rightarrow> bool" where
  "index_wf hash index \<longleftrightarrow> length index = NUM_SHARDS \<and>
     (\<forall>i<NUM_SHARDS. \<forall>a ks. (index ! i) a = Some ks \<longrightarrow> ks \<noteq> {} \<and> hash a mod NUM_SHARDS = i)"

section \<open>Lemmas\<close>

lemma Keccak256_Some: "Keccak256 (Some d) n = (True, keccak256Core (take n d))"
  by (simp add: Keccak256_def)

lemma calculateHash_eq:
  "calculateHash tx = (tx\<lparr>tx_txHash := hex_bytes (keccak256Core (str_bytes (tx_preimage tx)))\<rparr>, True)"
  by (simp add: calculateHash_def Keccak256_Some Let_def)

lemma preimage_ignores [simp]:
  "tx_preimage (tx\<lparr>tx_txHash := h\<rparr>) = tx_preimage tx"
  "tx_preimage (tx\<lparr>tx_v := v\<rparr>) = tx_preimage tx"
  "tx_preimage (tx\<lparr>tx_r := r\<rparr>) = tx_preimage tx"
  "tx_preimage (tx\<lparr>tx_s := s\<rparr>) = tx_preimage tx"
  by (simp_all add: tx_preimage_def)

lemma show_nat_numerals:
  "show_nat 1 = ''1''" "show_nat 12 = ''12''" "show_nat 3 = ''3''" "show_nat 23 = ''23''"
  by (simp_all add: show_base.simps)

section \<open>Properties\<close>

text \<open>\<^verbatim>\<open>calculateHash\<close> always succeeds, sets the hash to the 64 hexadecimal digits of the
  Keccak digest of the printed fields and changes nothing else, so that \<^verbatim>\<open>isValid\<close> holds
  afterwards; computing it again gives the same hash, and the signature fields do not
  enter it.\<close>

theorem calculateHash_correct:
  "snd (calculateHash tx) \<and> tx_isValid (fst (calculateHash tx)) \<and>
   fst (calculateHash tx) = tx\<lparr>tx_txHash := tx_txHash (fst (calculateHash tx))\<rparr> \<and>
   tx_txHash (fst (calculateHash tx)) = hex_bytes (Keccak256_vec (str_bytes (tx_preimage tx))) \<and>
   calculateHash (fst (calculateHash tx)) = calculateHash tx \<and>
   tx_txHash (fst (calculateHash (tx\<lparr>tx_v := v, tx_r := r, tx_s := s\<rparr>))) =
     tx_txHash (fst (calculateHash tx))"
proof -
  have ne: "hex_bytes (keccak256Core m) \<noteq> []" for m
    by (simp add: length_0_conv [symmetric] del: length_0_conv)
  have vec: "Keccak256_vec m = keccak256Core m" for m
    by (simp add: Keccak256_vec_def Keccak256_ptr_def Keccak256_def)
  show ?thesis by (simp add: calculateHash_eq tx_isValid_def ne vec)
qed

text \<open>the printed fields have no separators, so the hash does not identify the
  transaction: one for chain 1 with nonce 23 has the hash of one for chain 12 with nonce 3
  whatever the other fields are, and an address that ends in a digit passes that digit on
  to the value.\<close>

theorem calculateHash_ambiguous:
  "tx_txHash (fst (calculateHash (tx\<lparr>tx_chainId := 1, tx_nonce := 23\<rparr>))) =
     tx_txHash (fst (calculateHash (tx\<lparr>tx_chainId := 12, tx_nonce := 3\<rparr>))) \<and>
   tx_txHash (fst (calculateHash (tx\<lparr>tx_toAddress := a @ ''1'', tx_value := 23\<rparr>))) =
     tx_txHash (fst (calculateHash (tx\<lparr>tx_toAddress := a, tx_value := 123\<rparr>)))"
proof -
  have v: "show_nat 123 = ''123''" "show_nat 23 = ''23''"
    by (simp_all add: show_base.simps)
  have "tx_preimage (tx\<lparr>tx_chainId := 1, tx_nonce := 23\<rparr>) = tx_preimage (tx\<lparr>tx_chainId := 12, tx_nonce := 3\<rparr>)"
    "tx_preimage (tx\<lparr>tx_toAddress := a @ ''1'', tx_value := 23\<rparr>) = tx_preimage (tx\<lparr>tx_toAddress := a, tx_value := 123\<rparr>)"
    by (simp_all add: tx_preimage_def Let_def show_nat_numerals [unfolded One_nat_def] v)
  then show ?thesis by (simp add: calculateHash_eq)
qed

text \<open>removing a UTXO key from the address index removes exactly that key from exactly
  that address, and keeps the index well formed: every address in its own shard and no
  address left with an empty set.\<close>

theorem removeAddressIndexSafe_correct:
  assumes "index_wf hash index"
  shows "index_wf hash (removeAddressIndexSafe hash address utxoKey index) \<and>
    index_keys hash (removeAddressIndexSafe hash address utxoKey index) a =
      (if a = address \<and> address \<noteq> [] \<and> utxoKey \<noteq> [] then index_keys hash index a - {utxoKey}
       else index_keys hash index a)"
proof -
  have [simp]: "0 < NUM_SHARDS" by (simp add: NUM_SHARDS_def)
  have len: "length index = NUM_SHARDS" using assms by (simp add: index_wf_def)
  have shard: "(index ! i) b = Some ks \<Longrightarrow> i < NUM_SHARDS \<Longrightarrow> ks \<noteq> {} \<and> hash b mod NUM_SHARDS = i" for i b ks
    using assms by (auto simp: index_wf_def)
  have "index_wf hash (removeAddressIndexSafe hash address utxoKey index)"
    by (auto simp: removeAddressIndexSafe_def index_wf_def Let_def nth_list_update len
        split: option.splits if_splits dest: shard)
  moreover have "index_keys hash (removeAddressIndexSafe hash address utxoKey index) a =
      (if a = address \<and> address \<noteq> [] \<and> utxoKey \<noteq> [] then index_keys hash index a - {utxoKey}
       else index_keys hash index a)"
    by (auto simp: removeAddressIndexSafe_def index_keys_def Let_def nth_list_update len
        split: option.splits)
  ultimately show ?thesis by blast
qed

text \<open>An index with one address in shard 0.\<close>

lemma index_example:
  "index_wf (\<lambda>_. 0) ((replicate NUM_SHARDS Map.empty)[0 := [''a'' \<mapsto> {''u'', ''v''}]])"
  by (auto simp: index_wf_def NUM_SHARDS_def nth_list_update split: if_splits)

theorem removeAddressIndexSafe_witness:
  "index_keys (\<lambda>_. 0) (removeAddressIndexSafe (\<lambda>_. 0) ''a'' ''u''
     ((replicate NUM_SHARDS Map.empty)[0 := [''a'' \<mapsto> {''u'', ''v''}]])) ''a'' = {''v''}"
proof -
  have k: "index_keys (\<lambda>_. 0) ((replicate NUM_SHARDS Map.empty)[0 := [''a'' \<mapsto> {''u'', ''v''}]]) ''a'' =
      {''u'', ''v''}"
    by (simp add: index_keys_def NUM_SHARDS_def)
  show ?thesis
    using removeAddressIndexSafe_correct [OF index_example, of "''a''" "''u''" "''a''"]
    by (auto simp: k)
qed

end
