(* ===== verification/Block.thy ===== *)
theory Block
  imports Transaction
begin

text \<open>
  Blocks, \<^verbatim>\<open>include/block.h\<close> and \<^verbatim>\<open>src/block.cpp\<close>: the constructors, \<^verbatim>\<open>clone\<close>, \<^verbatim>\<open>isValid\<close>,
  the binary header that proof of work hashes, and the \<^verbatim>\<open>|\<close>-separated text that the
  database stores, with its reader.

  The lemmas show that the binary header determines every field it contains, what it does
  not contain, and that the text form reads back what was written when no field contains
  the separator.
\<close>

section \<open>Data\<close>

record block =
  blk_previousHash :: string
  blk_data :: string
  blk_difficulty :: u32
  blk_minerAddress :: string
  blk_timestamp :: u64
  blk_nonce :: u64
  blk_reward :: u64
  blk_baseFee :: u64
  blk_gasUsed :: u64
  blk_gasLimit :: u64
  blk_hash :: string
  blk_signature :: string
  blk_transactions :: "transaction list"

definition BLOCK_SERIAL_VERSION :: u32 where "BLOCK_SERIAL_VERSION = 2"
definition MAX_TRANSACTIONS :: nat where "MAX_TRANSACTIONS = 10000"
definition MAX_DIFFICULTY :: u32 where "MAX_DIFFICULTY = 64"
definition MAX_GAS_LIMIT :: u64 where "MAX_GAS_LIMIT = 30000000"

text \<open>The constructors read the clock; \<open>now\<close> is the time in seconds.\<close>

definition default_block :: "u64 \<Rightarrow> block" where
  "default_block now =
     \<lparr>blk_previousHash = [], blk_data = [], blk_difficulty = 0, blk_minerAddress = [],
      blk_timestamp = now, blk_nonce = 0, blk_reward = 0, blk_baseFee = 0, blk_gasUsed = 0,
      blk_gasLimit = MAX_GAS_LIMIT, blk_hash = [], blk_signature = [], blk_transactions = []\<rparr>"

definition new_block :: "u64 \<Rightarrow> string \<Rightarrow> string \<Rightarrow> u32 \<Rightarrow> string \<Rightarrow> block" where
  "new_block now prevHash blockData diff minerAddr =
     \<lparr>blk_previousHash = prevHash, blk_data = blockData, blk_difficulty = min diff MAX_DIFFICULTY,
      blk_minerAddress = minerAddr, blk_timestamp = now, blk_nonce = 0, blk_reward = 0,
      blk_baseFee = 0, blk_gasUsed = 0, blk_gasLimit = MAX_GAS_LIMIT, blk_hash = [],
      blk_signature = [], blk_transactions = []\<rparr>"

definition clone :: "u64 \<Rightarrow> block \<Rightarrow> block" where
  "clone now b =
     (default_block now)
       \<lparr>blk_previousHash := blk_previousHash b, blk_data := blk_data b,
        blk_difficulty := blk_difficulty b, blk_minerAddress := blk_minerAddress b,
        blk_timestamp := blk_timestamp b, blk_nonce := blk_nonce b, blk_reward := blk_reward b,
        blk_baseFee := blk_baseFee b, blk_gasUsed := blk_gasUsed b, blk_gasLimit := blk_gasLimit b,
        blk_hash := blk_hash b, blk_signature := blk_signature b,
        blk_transactions := blk_transactions b\<rparr>"

definition clearHash :: "block \<Rightarrow> block" where
  "clearHash b = b\<lparr>blk_hash := [], blk_signature := []\<rparr>"

definition hasHash :: "block \<Rightarrow> bool" where
  "hasHash b \<longleftrightarrow> blk_hash b \<noteq> []"

definition isValid :: "block \<Rightarrow> bool" where
  "isValid b =
     (if blk_minerAddress b = [] then False
      else if blk_timestamp b = 0 then False
      else if blk_difficulty b > MAX_DIFFICULTY then False
      else if blk_gasUsed b > blk_gasLimit b then False
      else if length (blk_transactions b) > MAX_TRANSACTIONS then False
      else True)"

section \<open>The header\<close>

definition headerToString :: "block \<Rightarrow> string" where
  "headerToString b =
     blk_previousHash b @ show_u64 (blk_timestamp b) @ show_u64 (blk_nonce b)
     @ show_u32 (blk_difficulty b) @ blk_minerAddress b @ show_u64 (blk_baseFee b)
     @ show_u64 (blk_gasUsed b)"

definition writeU32BE :: "bytes \<Rightarrow> u32 \<Rightarrow> bytes" where
  "writeU32BE buf v = foldl (\<lambda>buf i. buf @ [ucast (drop_bit (i * 8) v AND 0xFF)]) buf [3, 2, 1, 0]"

definition writeU64BE :: "bytes \<Rightarrow> u64 \<Rightarrow> bytes" where
  "writeU64BE buf v =
     foldl (\<lambda>buf i. buf @ [ucast (drop_bit (i * 8) v AND 0xFF)]) buf [7, 6, 5, 4, 3, 2, 1, 0]"

definition writeStrBE :: "bytes \<Rightarrow> string \<Rightarrow> bytes" where
  "writeStrBE buf s = writeU32BE buf (word_of_nat (length s)) @ str_bytes s"

definition serializeHeader :: "block \<Rightarrow> bytes" where
  "serializeHeader b =
     (let buf = [];
          buf = writeStrBE buf (blk_previousHash b);
          buf = writeStrBE buf (blk_data b);
          buf = writeU32BE buf (blk_difficulty b);
          buf = writeStrBE buf (blk_minerAddress b);
          buf = writeU64BE buf (blk_timestamp b);
          buf = writeU64BE buf (blk_nonce b);
          buf = writeU64BE buf (blk_reward b);
          buf = writeU64BE buf (blk_baseFee b)
      in writeU64BE buf (blk_gasUsed b))"

section \<open>The text form\<close>

definition sep :: string where "sep = ''|''"

definition serialize_tx :: "transaction \<Rightarrow> string" where
  "serialize_tx tx =
     sep @ tx_txHash tx @ sep @ tx_toAddress tx @ sep @ show_u64 (tx_value tx)
     @ sep @ show_u64 (tx_nonce tx)"

definition serialize :: "block \<Rightarrow> string" where
  "serialize b =
     show_u32 BLOCK_SERIAL_VERSION @ sep @ blk_previousHash b @ sep @ blk_data b @ sep
     @ show_u32 (blk_difficulty b) @ sep @ blk_minerAddress b @ sep @ show_u64 (blk_timestamp b)
     @ sep @ show_u64 (blk_nonce b) @ sep @ show_u64 (blk_reward b) @ sep @ show_u64 (blk_baseFee b)
     @ sep @ show_u64 (blk_gasUsed b) @ sep @ show_u64 (blk_gasLimit b) @ sep @ blk_hash b @ sep
     @ blk_signature b @ sep @ show_nat (length (blk_transactions b))
     @ concat (map serialize_tx (blk_transactions b))"

text \<open>\<^verbatim>\<open>std::stoul\<close> yields an \<^verbatim>\<open>unsigned long\<close> of 64 bits, which the code casts to 32.\<close>

definition version_field :: "block reader" where
  "version_field t b =
     (case stoull t of
        Inl e \<Rightarrow> None
      | Inr n \<Rightarrow> if (ucast n :: u32) > BLOCK_SERIAL_VERSION then None else Some b)"

definition header_readers :: "block reader list" where
  "header_readers =
     [version_field,
      str_field (\<lambda>t b. b\<lparr>blk_previousHash := t\<rparr>),
      str_field (\<lambda>t b. b\<lparr>blk_data := t\<rparr>),
      num_field (\<lambda>n b. b\<lparr>blk_difficulty := ucast n\<rparr>),
      str_field (\<lambda>t b. b\<lparr>blk_minerAddress := t\<rparr>),
      num_field (\<lambda>n b. b\<lparr>blk_timestamp := n\<rparr>),
      num_field (\<lambda>n b. b\<lparr>blk_nonce := n\<rparr>),
      num_field (\<lambda>n b. b\<lparr>blk_reward := n\<rparr>),
      num_field (\<lambda>n b. b\<lparr>blk_baseFee := n\<rparr>),
      num_field (\<lambda>n b. b\<lparr>blk_gasUsed := n\<rparr>),
      num_field (\<lambda>n b. b\<lparr>blk_gasLimit := n\<rparr>),
      str_field (\<lambda>t b. b\<lparr>blk_hash := t\<rparr>),
      str_field (\<lambda>t b. b\<lparr>blk_signature := t\<rparr>)]"

definition tx_readers :: "transaction reader list" where
  "tx_readers =
     [str_field (\<lambda>t tx. tx\<lparr>tx_txHash := t\<rparr>),
      str_field (\<lambda>t tx. tx\<lparr>tx_toAddress := t\<rparr>),
      num_field (\<lambda>n tx. tx\<lparr>tx_value := n\<rparr>),
      num_field (\<lambda>n tx. tx\<lparr>tx_nonce := n\<rparr>)]"

fun read_txs :: "nat \<Rightarrow> istream \<Rightarrow> block \<Rightarrow> istream \<times> block \<times> bool" where
  "read_txs 0 st b = (st, b, True)"
| "read_txs (Suc n) st b =
     (let (st, tx, ok) = read_fields CHR ''|'' tx_readers st default_tx
      in if ok then read_txs n st (b\<lparr>blk_transactions := blk_transactions b @ [tx]\<rparr>)
         else (st, b, False))"

text \<open>The object as it is left, and the returned flag.\<close>

definition deserialize :: "string \<Rightarrow> block \<Rightarrow> block \<times> bool" where
  "deserialize raw b =
     (if raw = [] then (b, False)
      else
        let (st, b, ok) = read_fields CHR ''|'' header_readers (open_stream raw) b
        in if \<not> ok then (b, False)
           else
             let st = getline CHR ''|'' st
             in case stoull (is_token st) of
                  Inl e \<Rightarrow> (b, False)
                | Inr txCount \<Rightarrow>
                    if unat txCount > MAX_TRANSACTIONS then (b, False)
                    else
                      let (st, b, ok) = read_txs (unat txCount) st (b\<lparr>blk_transactions := []\<rparr>)
                      in if \<not> ok then (b, False)
                         else
                           let b = b\<lparr>blk_difficulty := min (blk_difficulty b) MAX_DIFFICULTY\<rparr>
                           in if blk_timestamp b = 0 then (b, False) else (b, True))"

section \<open>Lemmas\<close>

lemma writeU32BE_eq: "writeU32BE buf v = buf @ be_write 4 v"
  by (simp add: writeU32BE_def be_write_def upt_rec ucast_and_FF mult.commute)

lemma writeU64BE_eq: "writeU64BE buf v = buf @ be_write 8 v"
  by (simp add: writeU64BE_def be_write_def upt_rec ucast_and_FF mult.commute)

lemma writeStrBE_eq: "writeStrBE buf s = buf @ be_write 4 (word_of_nat (length s) :: u32) @ str_bytes s"
  by (simp add: writeStrBE_def writeU32BE_eq)

lemmas header_simps = writeU32BE_eq writeU64BE_eq writeStrBE_eq

text \<open>The fields the binary header contains.\<close>

definition same_header :: "block \<Rightarrow> block \<Rightarrow> bool" where
  "same_header b c \<longleftrightarrow>
     blk_previousHash b = blk_previousHash c \<and> blk_data b = blk_data c \<and>
     blk_difficulty b = blk_difficulty c \<and> blk_minerAddress b = blk_minerAddress c \<and>
     blk_timestamp b = blk_timestamp c \<and> blk_nonce b = blk_nonce c \<and>
     blk_reward b = blk_reward c \<and> blk_baseFee b = blk_baseFee c \<and> blk_gasUsed b = blk_gasUsed c"

text \<open>Strings whose length the 32-bit prefix represents.\<close>

definition short_strings :: "block \<Rightarrow> bool" where
  "short_strings b \<longleftrightarrow> length (blk_previousHash b) < 2 ^ 32 \<and> length (blk_data b) < 2 ^ 32 \<and>
     length (blk_minerAddress b) < 2 ^ 32"

lemma serializeHeader_eq:
  "serializeHeader b =
     be_str (blk_previousHash b) @ be_str (blk_data b) @ be_write 4 (blk_difficulty b)
     @ be_str (blk_minerAddress b) @ be_write 8 (blk_timestamp b) @ be_write 8 (blk_nonce b)
     @ be_write 8 (blk_reward b) @ be_write 8 (blk_baseFee b) @ be_write 8 (blk_gasUsed b)"
  by (simp add: serializeHeader_def header_simps be_str_def)

text \<open>The tokens of the text form.\<close>

definition header_tokens :: "block \<Rightarrow> string list" where
  "header_tokens b =
     [show_u32 BLOCK_SERIAL_VERSION, blk_previousHash b, blk_data b, show_u32 (blk_difficulty b),
      blk_minerAddress b, show_u64 (blk_timestamp b), show_u64 (blk_nonce b),
      show_u64 (blk_reward b), show_u64 (blk_baseFee b), show_u64 (blk_gasUsed b),
      show_u64 (blk_gasLimit b), blk_hash b, blk_signature b]"

definition tx_tokens :: "transaction \<Rightarrow> string list" where
  "tx_tokens tx = [tx_txHash tx, tx_toAddress tx, show_u64 (tx_value tx), show_u64 (tx_nonce tx)]"

definition block_tokens :: "block \<Rightarrow> string list" where
  "block_tokens b =
     header_tokens b @ show_nat (length (blk_transactions b)) # concat (map tx_tokens (blk_transactions b))"

text \<open>No stored field contains the separator.\<close>

definition no_sep :: "block \<Rightarrow> bool" where
  "no_sep b \<longleftrightarrow>
     CHR ''|'' \<notin> set (blk_previousHash b) \<and> CHR ''|'' \<notin> set (blk_data b) \<and>
     CHR ''|'' \<notin> set (blk_minerAddress b) \<and> CHR ''|'' \<notin> set (blk_hash b) \<and>
     CHR ''|'' \<notin> set (blk_signature b) \<and>
     (\<forall>tx\<in>set (blk_transactions b). CHR ''|'' \<notin> set (tx_txHash tx) \<and> CHR ''|'' \<notin> set (tx_toAddress tx))"

text \<open>What the text form keeps of a transaction and of a block.\<close>

definition stored_tx :: "transaction \<Rightarrow> transaction" where
  "stored_tx tx =
     default_tx\<lparr>tx_txHash := tx_txHash tx, tx_toAddress := tx_toAddress tx, tx_value := tx_value tx,
       tx_nonce := tx_nonce tx\<rparr>"

definition stored_block :: "block \<Rightarrow> block" where
  "stored_block b =
     b\<lparr>blk_difficulty := min (blk_difficulty b) MAX_DIFFICULTY,
       blk_transactions := map stored_tx (blk_transactions b)\<rparr>"

lemma serialize_join: "serialize b = join_with CHR ''|'' (block_tokens b)"
proof -
  have tx: "serialize_tx tx = concat (map (\<lambda>u. CHR ''|'' # u) (tx_tokens tx))" for tx
    by (simp add: serialize_tx_def tx_tokens_def sep_def)
  have txs: "concat (map serialize_tx txs) = concat (map (\<lambda>u. CHR ''|'' # u) (concat (map tx_tokens txs)))" for txs
    by (induction txs) (simp_all add: tx)
  show ?thesis
    by (simp add: serialize_def block_tokens_def header_tokens_def join_with_concat txs sep_def)
qed

lemma block_tokens_no_sep: "no_sep b \<Longrightarrow> \<forall>t\<in>set (block_tokens b). CHR ''|'' \<notin> set t"
  by (auto simp: block_tokens_def header_tokens_def tx_tokens_def no_sep_def show_nat_no_bar)

lemma apply_header:
  "apply_fields header_readers (header_tokens b) c =
     Some (b\<lparr>blk_transactions := blk_transactions c\<rparr>)"
  by (simp add: header_readers_def header_tokens_def version_field_def BLOCK_SERIAL_VERSION_def
      stoull_show_nat block.equality)

lemma read_txs_tokens:
  "holds_fields CHR ''|'' (concat (map tx_tokens txs)) st \<Longrightarrow>
   \<exists>st'. read_txs (length txs) st b =
     (st', b\<lparr>blk_transactions := blk_transactions b @ map stored_tx txs\<rparr>, True)"
proof (induction txs arbitrary: st b)
  case (Cons tx txs)
  have "apply_fields tx_readers (tx_tokens tx) default_tx = Some (stored_tx tx)"
    by (simp add: tx_readers_def tx_tokens_def stored_tx_def)
  moreover have len: "length tx_readers = length (tx_tokens tx)"
    by (simp add: tx_readers_def tx_tokens_def)
  ultimately obtain st' where r: "read_fields CHR ''|'' tx_readers st default_tx = (st', stored_tx tx, True)"
    and h: "holds_fields CHR ''|'' (concat (map tx_tokens txs)) st'"
    using read_fields_tokens [of "CHR ''|''" "tx_tokens tx" "concat (map tx_tokens txs)" st tx_readers
        default_tx "stored_tx tx"] Cons.prems len
    by auto
  from Cons.IH [OF h, of "b\<lparr>blk_transactions := blk_transactions b @ [stored_tx tx]\<rparr>"] r
  show ?case by simp
qed simp

section \<open>Properties\<close>

text \<open>the binary header that proof of work hashes determines each of its nine fields
  and nothing else: two blocks have the same header exactly if they agree on them, as long
  as no string has 4 GiB. In particular the transactions, the gas limit, the stored hash
  and the signature are not part of it.\<close>

theorem serializeHeader_determines:
  assumes "short_strings b" and "short_strings c"
  shows "serializeHeader b = serializeHeader c \<longleftrightarrow> same_header b c"
  using assms
  by (simp add: serializeHeader_eq same_header_def short_strings_def be_str_append_inj be_str_inj
      be_write_append_inj be_write_inj)

theorem serializeHeader_determines_witness:
  "serializeHeader (new_block 7 ''a'' ''bc'' 3 ''m'') \<noteq> serializeHeader (new_block 7 ''ab'' ''c'' 3 ''m'')"
  using serializeHeader_determines
    [of "new_block 7 ''a'' ''bc'' 3 ''m''" "new_block 7 ''ab'' ''c'' 3 ''m''"]
  by (simp add: short_strings_def same_header_def new_block_def)

lemma deserialize_eq:
  assumes "no_sep b" and "length (blk_transactions b) \<le> MAX_TRANSACTIONS" and "blk_timestamp b \<noteq> 0"
  shows "deserialize (serialize b) c = (stored_block b, True)"
proof -
  let ?n = "length (blk_transactions b)" and ?txs = "concat (map tx_tokens (blk_transactions b))"
  have ne: "serialize b \<noteq> []" by (simp add: serialize_def sep_def)
  have "holds_fields CHR ''|'' (header_tokens b @ show_nat ?n # ?txs) (open_stream (serialize b))"
    using stream_of_open [OF _ block_tokens_no_sep [OF assms(1)]]
    by (simp add: serialize_join holds_fields_def block_tokens_def)
  from read_fields_tokens [OF this _ apply_header, of c]
  obtain st1 where h: "read_fields CHR ''|'' header_readers (open_stream (serialize b)) c =
      (st1, b\<lparr>blk_transactions := blk_transactions c\<rparr>, True)"
    and s1: "stream_of CHR ''|'' (show_nat ?n # ?txs) st1"
    by (auto simp: header_readers_def header_tokens_def)
  from read_txs_tokens [OF holds_fields_next [OF s1], of "b\<lparr>blk_transactions := []\<rparr>"]
  obtain st2 where r: "read_txs ?n (getline CHR ''|'' st1) (b\<lparr>blk_transactions := []\<rparr>) =
      (st2, b\<lparr>blk_transactions := map stored_tx (blk_transactions b)\<rparr>, True)"
    by auto
  have n: "?n < 2 ^ 64" using assms(2) by (simp add: MAX_TRANSACTIONS_def)
  then have u: "unat (word_of_nat ?n :: u64) = ?n" by (simp add: unat_of_nat)
  show ?thesis
    using ne h r n u assms(2,3)
    by (simp add: deserialize_def getline_token [OF s1] stoull_show_nat stored_block_def)
qed

text \<open>what \<^verbatim>\<open>serialize\<close> writes, \<^verbatim>\<open>deserialize\<close> reads back into any object: every block
  field, the difficulty clamped to its maximum, and of each transaction its hash, its
  address, its value and its nonce; provided that no field contains the separator, that
  there are at most 10000 transactions and that the timestamp is not zero.\<close>

theorem deserialize_serialize:
  assumes "no_sep b" and "length (blk_transactions b) \<le> MAX_TRANSACTIONS" and "blk_timestamp b \<noteq> 0"
  shows "deserialize (serialize b) c = (stored_block b, True)"
  by (rule deserialize_eq [OF assms])

theorem deserialize_serialize_witness:
  "deserialize (serialize ((new_block 7 ''a'' ''bc'' 3 ''m'')\<lparr>blk_transactions := [default_tx]\<rparr>)) (default_block 0) =
     (stored_block ((new_block 7 ''a'' ''bc'' 3 ''m'')\<lparr>blk_transactions := [default_tx]\<rparr>), True)"
  by (rule deserialize_serialize)
     (simp_all add: no_sep_def new_block_def MAX_TRANSACTIONS_def default_tx_def)

text \<open>a text that ends too early is accepted: the stream keeps the last token after
  its end, so the one-character text \<^verbatim>\<open>1\<close> is read as a block in which every field, and the
  number of transactions, is that token.\<close>

theorem deserialize_truncated:
  "deserialize ''1'' b =
     (\<lparr>blk_previousHash = ''1'', blk_data = ''1'', blk_difficulty = 1, blk_minerAddress = ''1'',
       blk_timestamp = 1, blk_nonce = 1, blk_reward = 1, blk_baseFee = 1, blk_gasUsed = 1,
       blk_gasLimit = 1, blk_hash = ''1'', blk_signature = ''1'',
       blk_transactions = [default_tx\<lparr>tx_txHash := ''1'', tx_toAddress := ''1'', tx_value := 1, tx_nonce := 1\<rparr>]\<rparr>,
      True)"
proof -
  let ?e = "\<lparr>is_rest = [], is_good = False, is_token = ''1''\<rparr>"
  have n: "stoull ''1'' = Inr 1"
    using stoull_show_nat [of 1] unfolding show_nat_numerals by simp
  have g: "getline CHR ''|'' (open_stream ''1'') = ?e" "getline CHR ''|'' ?e = ?e"
    by (simp_all add: getline_def open_stream_def)
  show ?thesis
    by (simp add: deserialize_def header_readers_def tx_readers_def version_field_def num_field_def g n
        BLOCK_SERIAL_VERSION_def MAX_TRANSACTIONS_def MAX_DIFFICULTY_def)
qed

text \<open>a block from the constructor passes \<^verbatim>\<open>isValid\<close> whatever difficulty is asked for,
  as long as it has a miner and the clock is not at zero; a clone is equal to its
  original, and clearing the hash keeps validity and the header.\<close>

theorem new_block_valid:
  "(isValid (new_block now prev d diff miner) \<longleftrightarrow> miner \<noteq> [] \<and> now \<noteq> 0) \<and>
   clone now b = b \<and> isValid (clearHash b) = isValid b \<and>
   serializeHeader (clearHash b) = serializeHeader b \<and> \<not> hasHash (clearHash b)"
  by (auto simp: isValid_def new_block_def MAX_DIFFICULTY_def MAX_GAS_LIMIT_def MAX_TRANSACTIONS_def
      clone_def clearHash_def hasHash_def serializeHeader_def default_block_def)

end
