(* ===== verification/Crc.thy ===== *)
theory Crc
  imports Prelude
begin

text \<open>
  Reflected 32-bit cyclic redundancy checks, shared by the message codec (Castagnoli) and
  the contract storage (ISO 3309): the contract of one bit step, as the locale
  \<open>reflected_crc\<close>, and what follows from it for whole messages. The two components
  interpret it on the step functions of their own code.
\<close>

definition crc_byte :: "(u32 \<Rightarrow> u32) \<Rightarrow> u32 \<Rightarrow> u8 \<Rightarrow> u32" where
  "crc_byte step crc b = (step ^^ 8) (crc XOR ucast b)"

definition crc_run :: "(u32 \<Rightarrow> u32) \<Rightarrow> bytes \<Rightarrow> u32" where
  "crc_run step data = foldl (crc_byte step) 0xFFFFFFFF data XOR 0xFFFFFFFF"

lemma FF_mask: "(0xFF :: u32) = mask 8"
  by (simp add: mask_eq_exp_minus_1)

lemma bit31_drop: "\<not> bit (drop_bit 1 (c :: u32)) 31"
  by (simp add: bit_drop_bit_eq) (auto dest: bit_imp_le_length)

lemma and_one_u32: "(c :: u32) AND 1 = of_bool (odd c)"
  by (simp add: and_one_eq mod_2_eq_odd)

locale reflected_crc =
  fixes step :: "u32 \<Rightarrow> u32" and poly :: u32
  assumes step_eq: "step c = drop_bit 1 c XOR (if odd c then poly else 0)"
    and poly_top: "bit poly 31"
begin

lemma step_xor: "step (a XOR b) = step a XOR step b"
proof -
  have "odd (a XOR b) \<longleftrightarrow> odd a \<noteq> odd b" by (simp add: even_xor_iff)
  then show ?thesis
    by (auto simp: step_eq drop_bit_xor xor.assoc xor.left_commute)
qed

lemma steps_xor: "(step ^^ n) (a XOR b) = (step ^^ n) a XOR (step ^^ n) b"
  by (induction n) (simp_all add: step_xor)

lemma steps_low: "\<forall>i<n. \<not> bit a i \<Longrightarrow> (step ^^ n) a = drop_bit n a"
proof (induction n arbitrary: a)
  case (Suc n)
  have "step a = drop_bit 1 a" using Suc.prems by (auto simp: step_eq bit_0)
  moreover have "(step ^^ n) (drop_bit 1 a) = drop_bit n (drop_bit 1 a)"
    by (rule Suc.IH) (use Suc.prems in \<open>auto simp: bit_drop_bit_eq\<close>)
  ultimately show ?case by (simp add: funpow_Suc_right del: funpow.simps)
qed simp

text \<open>Eight steps look up the low byte and shift the others down.\<close>

lemma steps_8: "(step ^^ 8) x = drop_bit 8 x XOR (step ^^ 8) (x AND 0xFF)"
proof -
  have "x = (x AND NOT (mask 8)) XOR (x AND mask 8)"
    by (rule bit_word_eqI) (auto simp: bit_simps simp del: mask_numeral)
  then have "(step ^^ 8) x = (step ^^ 8) (x AND NOT (mask 8)) XOR (step ^^ 8) (x AND mask 8)"
    using steps_xor [of 8 "x AND NOT (mask 8)" "x AND mask 8"] by simp
  also have "(step ^^ 8) (x AND NOT (mask 8)) = drop_bit 8 (x AND NOT (mask 8))"
    by (rule steps_low) (auto simp: bit_simps simp del: mask_numeral)
  also have "drop_bit 8 (x AND NOT (mask 8)) = drop_bit 8 x"
    by (rule bit_word_eqI) (auto simp: bit_simps simp del: mask_numeral dest: bit_imp_le_length)
  finally show ?thesis by (simp only: FF_mask)
qed

text \<open>Each step is injective in the register and in the byte.\<close>

lemma step_inj: "step a = step b \<Longrightarrow> a = b"
proof -
  assume eq: "step a = step b"
  have "bit (step c) 31 \<longleftrightarrow> odd c" for c
    using poly_top bit31_drop [of c] by (simp add: step_eq bit_xor_iff)
  with eq have o: "odd a \<longleftrightarrow> odd b" by metis
  then have d: "drop_bit 1 a = drop_bit 1 b" using eq by (auto simp: step_eq xor_cancel)
  show "a = b"
  proof (rule bit_word_eqI)
    fix n assume "n < LENGTH(32)"
    show "bit a n = bit b n"
    proof (cases n)
      case 0
      then show ?thesis using o by (simp add: bit_0)
    next
      case (Suc m)
      have "bit (drop_bit 1 a) m = bit (drop_bit 1 b) m" using d by simp
      then show ?thesis using Suc by (simp add: bit_drop_bit_eq)
    qed
  qed
qed

lemma steps_inj: "(step ^^ n) a = (step ^^ n) b \<Longrightarrow> a = b"
  by (induction n) (auto dest: step_inj)

lemma byte_inj_reg: "crc_byte step a x = crc_byte step b x \<Longrightarrow> a = b"
  by (auto simp: crc_byte_def xor_cancel dest: steps_inj)

lemma byte_inj_byte: "crc_byte step c x = crc_byte step c y \<Longrightarrow> x = y"
proof -
  assume "crc_byte step c x = crc_byte step c y"
  then have "(ucast x :: u32) = ucast y"
    by (auto simp: crc_byte_def xor_cancel xor.commute [of c] dest!: steps_inj)
  then show ?thesis by (simp add: ucast_u8_inj)
qed

lemma fold_inj: "foldl (crc_byte step) a bs = foldl (crc_byte step) b bs \<Longrightarrow> a = b"
  by (induction bs arbitrary: a b) (auto dest: byte_inj_reg)

text \<open>A message with one byte changed has another check sum.\<close>

lemma detects_byte:
  assumes "i < length d" and "b \<noteq> d ! i"
  shows "crc_run step (d[i := b]) \<noteq> crc_run step d"
proof
  let ?f = "foldl (crc_byte step)"
  assume "crc_run step (d[i := b]) = crc_run step d"
  then have eq: "?f 0xFFFFFFFF (d[i := b]) = ?f 0xFFFFFFFF d"
    by (simp only: crc_run_def xor_cancel)
  have d: "take i d @ d ! i # drop (Suc i) d = d" using assms by (simp add: id_take_nth_drop [symmetric])
  have "?f (crc_byte step (?f 0xFFFFFFFF (take i d)) b) (drop (Suc i) d) = ?f 0xFFFFFFFF (d[i := b])"
    using assms by (simp add: upd_conv_take_nth_drop)
  also have "\<dots> = ?f 0xFFFFFFFF (take i d @ d ! i # drop (Suc i) d)"
    by (simp only: eq d)
  finally have "?f (crc_byte step (?f 0xFFFFFFFF (take i d)) b) (drop (Suc i) d) =
      ?f (crc_byte step (?f 0xFFFFFFFF (take i d)) (d ! i)) (drop (Suc i) d)"
    by simp
  then show False using assms(2) by (auto dest!: fold_inj byte_inj_byte)
qed

end

end
