(* ===== verification/Codec.thy ===== *)
theory Codec
  imports Block Crc
begin

text \<open>
  The binary message codec of the peer-to-peer protocol, \<^verbatim>\<open>include/message_codec.h\<close> and
  \<^verbatim>\<open>src/message_codec.cpp\<close>: big-endian helpers, CRC32C by table, frames (magic, type,
  length, checksum, payload), transactions and blocks.

  The lemmas show that the table-driven CRC is the bitwise CRC, that it detects every
  change of one byte, that frames, transactions and blocks read back what was written (of
  transactions and blocks, what the format carries), and that a stream is cut into frames
  wherever it is split.
\<close>

section \<open>Constants and data\<close>

datatype message_type =
    MT_Transaction | MT_Block | MT_Ping | MT_Pong | MT_GetPeers | MT_Peers | MT_TransactionBatch

fun type_code :: "message_type \<Rightarrow> u8" where
  "type_code MT_Transaction = 0x01"
| "type_code MT_Block = 0x02"
| "type_code MT_Ping = 0x03"
| "type_code MT_Pong = 0x04"
| "type_code MT_GetPeers = 0x05"
| "type_code MT_Peers = 0x06"
| "type_code MT_TransactionBatch = 0x07"

definition MAGIC :: u32 where "MAGIC = 0x4D44524F"
definition HEADER_BYTES :: nat where "HEADER_BYTES = 13"
definition MAX_FRAME_BYTES :: nat where "MAX_FRAME_BYTES = 8 * 1024 * 1024"

record frame =
  fr_type :: message_type
  fr_payload :: bytes

datatype decode_error =
    Incomplete | BadMagic | UnknownType | FrameTooLarge | CrcMismatch | InternalError

record decode_result =
  dr_ok :: bool
  dr_frame :: "frame option"
  dr_error :: decode_error
  dr_bytesConsumed :: nat

definition dr_success :: "frame \<Rightarrow> nat \<Rightarrow> decode_result" where
  "dr_success f consumed =
     \<lparr>dr_ok = True, dr_frame = Some f, dr_error = Incomplete, dr_bytesConsumed = consumed\<rparr>"

definition dr_incomplete :: decode_result where
  "dr_incomplete = \<lparr>dr_ok = False, dr_frame = None, dr_error = Incomplete, dr_bytesConsumed = 0\<rparr>"

definition dr_failure :: "decode_error \<Rightarrow> decode_result" where
  "dr_failure e = \<lparr>dr_ok = False, dr_frame = None, dr_error = e, dr_bytesConsumed = 0\<rparr>"

section \<open>Big-endian helpers\<close>

definition beWrite32 :: "u32 \<Rightarrow> bytes" where
  "beWrite32 v = [ucast (drop_bit 24 v), ucast (drop_bit 16 v), ucast (drop_bit 8 v), ucast v]"

definition beRead32 :: "bytes \<Rightarrow> nat \<Rightarrow> u32" where
  "beRead32 p i =
     push_bit 24 (ucast (p ! i)) OR push_bit 16 (ucast (p ! (i + 1)))
     OR push_bit 8 (ucast (p ! (i + 2))) OR ucast (p ! (i + 3))"

text \<open>\<^verbatim>\<open>for (i = 7; i >= 0; --i) { p[i] = v; v >>= 8; }\<close>, filling \<open>n\<close> bytes.\<close>

fun beWrite_loop :: "nat \<Rightarrow> u64 \<Rightarrow> bytes" where
  "beWrite_loop 0 v = []"
| "beWrite_loop (Suc n) v = beWrite_loop n (drop_bit 8 v) @ [ucast v]"

definition beWrite64 :: "u64 \<Rightarrow> bytes" where
  "beWrite64 v = beWrite_loop 8 v"

definition beRead64 :: "bytes \<Rightarrow> nat \<Rightarrow> u64" where
  "beRead64 p i = fold (\<lambda>k v. push_bit 8 v OR ucast (p ! (i + k))) [0..<8] 0"

section \<open>CRC32C\<close>

definition CRC32C_POLY :: u32 where "CRC32C_POLY = 0x82F63B78"

definition crc_bit :: "u32 \<Rightarrow> u32" where
  "crc_bit crc = drop_bit 1 crc XOR (CRC32C_POLY AND (0 - (crc AND 1)))"

definition buildCrcTable :: "u32 list" where
  "buildCrcTable = map (\<lambda>i. (crc_bit ^^ 8) (word_of_nat i)) [0..<256]"

definition CRC_TABLE :: "u32 list" where
  "CRC_TABLE = buildCrcTable"

definition crc_step :: "u32 \<Rightarrow> u8 \<Rightarrow> u32" where
  "crc_step crc b = drop_bit 8 crc XOR CRC_TABLE ! unat ((crc XOR ucast b) AND 0xFF)"

definition crc_sw :: "bytes \<Rightarrow> u32" where
  "crc_sw data = foldl crc_step 0xFFFFFFFF data XOR 0xFFFFFFFF"

text \<open>The portable path; a null pointer with a positive length yields 0.\<close>

definition crc32c :: "bytes option \<Rightarrow> nat \<Rightarrow> u32" where
  "crc32c data len =
     (case data of
        None \<Rightarrow> if len > 0 then 0 else crc_sw []
      | Some d \<Rightarrow> crc_sw (take len d))"

text \<open>
  The path compiled with SSE4.2. The intrinsic \<^verbatim>\<open>_mm_crc32_u64\<close> is the parameter \<open>hw\<close>;
  \<open>memcpy\<close> of eight bytes into a word is little-endian on these processors.
\<close>

definition le_word64 :: "bytes \<Rightarrow> u64" where
  "le_word64 bs = foldr (\<lambda>b v. push_bit 8 v OR ucast b) bs 0"

function crc_hw_loop :: "(u64 \<Rightarrow> u64 \<Rightarrow> u64) \<Rightarrow> u64 \<Rightarrow> bytes \<Rightarrow> u64 \<times> bytes" where
  "crc_hw_loop hw crc64 p =
     (if length p \<ge> 8 then crc_hw_loop hw (hw crc64 (le_word64 (take 8 p))) (drop 8 p)
      else (crc64, p))"
  by pat_completeness auto
termination
  by (relation "measure (\<lambda>(hw, crc, p). length p)") auto

declare crc_hw_loop.simps [simp del]

definition crc_hw :: "(u64 \<Rightarrow> u64 \<Rightarrow> u64) \<Rightarrow> bytes \<Rightarrow> u32" where
  "crc_hw hw data =
     (let (crc64, p) = crc_hw_loop hw 0xFFFFFFFF data
      in foldl crc_step (ucast crc64) p XOR 0xFFFFFFFF)"

section \<open>Frames\<close>

definition encodeFrame :: "frame \<Rightarrow> bytes \<Rightarrow> bool \<times> bytes" where
  "encodeFrame f out =
     (if length (fr_payload f) > MAX_FRAME_BYTES then (False, out)
      else
        let payLen = word_of_nat (length (fr_payload f));
            checksum = crc32c (Some (fr_payload f)) (length (fr_payload f))
        in (True, out @ beWrite32 MAGIC @ [type_code (fr_type f)] @ beWrite32 payLen
                  @ beWrite32 checksum @ fr_payload f))"

definition encodeFrameNew :: "frame \<Rightarrow> bytes option" where
  "encodeFrameNew f = (let (ok, out) = encodeFrame f [] in if \<not> ok then None else Some out)"

definition known_type :: "u8 \<Rightarrow> message_type option" where
  "known_type t =
     (if t = 0x01 then Some MT_Transaction
      else if t = 0x02 then Some MT_Block
      else if t = 0x03 then Some MT_Ping
      else if t = 0x04 then Some MT_Pong
      else if t = 0x05 then Some MT_GetPeers
      else if t = 0x06 then Some MT_Peers
      else if t = 0x07 then Some MT_TransactionBatch
      else None)"

definition decodeFrame :: "bytes option \<Rightarrow> decode_result" where
  "decodeFrame b =
     (case b of
        None \<Rightarrow> dr_failure InternalError
      | Some buf \<Rightarrow>
          if length buf < HEADER_BYTES then dr_incomplete
          else if beRead32 buf 0 \<noteq> MAGIC then dr_failure BadMagic
          else
            (case known_type (buf ! 4) of
               None \<Rightarrow> dr_failure UnknownType
             | Some t \<Rightarrow>
                 let payLen = unat (beRead32 buf 5)
                 in if payLen > MAX_FRAME_BYTES then dr_failure FrameTooLarge
                    else if length buf < HEADER_BYTES + payLen then dr_incomplete
                    else
                      let storedCRC = beRead32 buf 9;
                          computedCRC = crc32c (Some (drop HEADER_BYTES buf)) payLen
                      in if computedCRC \<noteq> storedCRC then dr_failure CrcMismatch
                         else dr_success \<lparr>fr_type = t, fr_payload = take payLen (drop HEADER_BYTES buf)\<rparr>
                                (HEADER_BYTES + payLen)))"

section \<open>Transactions and blocks\<close>

definition appendUint64 :: "bytes \<Rightarrow> u64 \<Rightarrow> bytes" where
  "appendUint64 out v = out @ beWrite64 v"

definition appendString :: "bytes \<Rightarrow> string \<Rightarrow> bytes" where
  "appendString out s = out @ beWrite32 (word_of_nat (length s)) @ str_bytes s"

definition readUint64Safe :: "bytes \<Rightarrow> nat \<Rightarrow> (u64 \<times> nat) option" where
  "readUint64Safe buf pos =
     (if pos + 8 > length buf then None else Some (beRead64 buf pos, pos + 8))"

definition readStringSafe :: "bytes \<Rightarrow> nat \<Rightarrow> (string \<times> nat) option" where
  "readStringSafe buf pos =
     (if pos + 4 > length buf then None
      else
        let len = unat (beRead32 buf pos); pos = pos + 4
        in if len > MAX_FRAME_BYTES then None
           else if pos + len > length buf then None
           else Some (bytes_str (take len (drop pos buf)), pos + len))"

definition encodeTransaction :: "transaction \<Rightarrow> bytes \<Rightarrow> bytes" where
  "encodeTransaction tx out =
     (let out = appendUint64 out (tx_chainId tx);
          out = appendUint64 out (tx_nonce tx);
          out = appendUint64 out (tx_maxPriorityFeePerGas tx);
          out = appendUint64 out (tx_maxFeePerGas tx);
          out = appendUint64 out (tx_gasLimit tx);
          out = appendUint64 out (tx_value tx);
          out = appendUint64 out (tx_v tx);
          out = appendString out (tx_toAddress tx);
          out = appendString out (tx_txHash tx);
          out = out @ tx_r tx;
          out = out @ tx_s tx
      in out @ beWrite32 (word_of_nat (length (tx_data tx))) @ tx_data tx)"

definition encodeTransactionNew :: "transaction \<Rightarrow> bytes option" where
  "encodeTransactionNew tx = Some (encodeTransaction tx [])"

text \<open>\<^verbatim>\<open>r\<close> and \<^verbatim>\<open>s\<close>, then the data field, as read at a position.\<close>

definition readSignature :: "bytes \<Rightarrow> nat \<Rightarrow> ((bytes \<times> bytes) \<times> nat) option" where
  "readSignature buf pos =
     (if pos + 64 > length buf then None
      else Some ((take 32 (drop pos buf), take 32 (drop (pos + 32) buf)), pos + 64))"

definition readData :: "bytes \<Rightarrow> nat \<Rightarrow> (bytes \<times> nat) option" where
  "readData buf pos =
     (if pos + 4 > length buf then None
      else
        let dataLen = unat (beRead32 buf pos); pos = pos + 4
        in if dataLen > MAX_FRAME_BYTES then None
           else if pos + dataLen > length buf then None
           else Some (take dataLen (drop pos buf), pos + dataLen))"

definition readTransaction :: "bytes \<Rightarrow> nat \<Rightarrow> (transaction \<times> nat) option" where
  "readTransaction buf pos = do {
     (chainId, pos) \<leftarrow> readUint64Safe buf pos;
     (nonce, pos) \<leftarrow> readUint64Safe buf pos;
     (maxPriority, pos) \<leftarrow> readUint64Safe buf pos;
     (maxFee, pos) \<leftarrow> readUint64Safe buf pos;
     (gasLimit, pos) \<leftarrow> readUint64Safe buf pos;
     (value, pos) \<leftarrow> readUint64Safe buf pos;
     (v, pos) \<leftarrow> readUint64Safe buf pos;
     (toAddress, pos) \<leftarrow> readStringSafe buf pos;
     (txHash, pos) \<leftarrow> readStringSafe buf pos;
     (rs, pos) \<leftarrow> readSignature buf pos;
     (data, pos) \<leftarrow> readData buf pos;
     Some (default_tx\<lparr>tx_chainId := chainId, tx_nonce := nonce, tx_maxPriorityFeePerGas := maxPriority,
             tx_maxFeePerGas := maxFee, tx_gasLimit := gasLimit, tx_value := value, tx_v := v,
             tx_toAddress := toAddress, tx_txHash := txHash, tx_r := fst rs, tx_s := snd rs,
             tx_data := data\<rparr>, pos)
   }"

text \<open>Bytes after the data field are not looked at.\<close>

definition decodeTransaction :: "bytes option \<Rightarrow> transaction option" where
  "decodeTransaction b =
     (case b of
        None \<Rightarrow> None
      | Some buf \<Rightarrow>
          if length buf < 60 then None else map_option fst (readTransaction buf 0))"

text \<open>One transaction of a block: four bytes of length, patched after the encoding.\<close>

definition encodeBlockTx :: "bytes \<Rightarrow> transaction \<Rightarrow> bytes" where
  "encodeBlockTx out tx =
     (let beforeTx = length out;
          out = encodeTransaction tx (out @ [0, 0, 0, 0]);
          tlen = word_of_nat (length out - beforeTx - 4)
      in take beforeTx out @ beWrite32 tlen @ drop (beforeTx + 4) out)"

definition encodeBlock :: "block \<Rightarrow> bytes \<Rightarrow> bytes" where
  "encodeBlock b out =
     (let out = appendString out (blk_hash b);
          out = appendString out (blk_previousHash b);
          out = appendUint64 out (blk_timestamp b);
          out = appendUint64 out (blk_reward b);
          out = appendUint64 out (blk_baseFee b);
          out = out @ beWrite32 (word_of_nat (length (blk_transactions b)))
      in foldl encodeBlockTx out (blk_transactions b))"

definition encodeBlockNew :: "block \<Rightarrow> bytes option" where
  "encodeBlockNew b = Some (encodeBlock b [])"

definition readBlockTx :: "bytes \<Rightarrow> nat \<Rightarrow> (transaction \<times> nat) option" where
  "readBlockTx buf pos =
     (if pos + 4 > length buf then None
      else
        let tlen = unat (beRead32 buf pos); pos = pos + 4
        in if tlen > MAX_FRAME_BYTES \<or> pos + tlen > length buf then None
           else
             case decodeTransaction (Some (take tlen (drop pos buf))) of
               None \<Rightarrow> None
             | Some tx \<Rightarrow> Some (tx, pos + tlen))"

fun readBlockTxs :: "nat \<Rightarrow> transaction list \<Rightarrow> bytes \<Rightarrow> nat \<Rightarrow> (transaction list \<times> nat) option" where
  "readBlockTxs 0 txs buf pos = Some (txs, pos)"
| "readBlockTxs (Suc n) txs buf pos = do {
     (tx, pos) \<leftarrow> readBlockTx buf pos;
     readBlockTxs n (txs @ [tx]) buf pos
   }"

definition readCount :: "bytes \<Rightarrow> nat \<Rightarrow> (nat \<times> nat) option" where
  "readCount buf pos =
     (if pos + 4 > length buf then None
      else
        let txCount = unat (beRead32 buf pos)
        in if txCount > 100000 then None else Some (txCount, pos + 4))"

definition readBlock :: "u64 \<Rightarrow> bytes \<Rightarrow> nat \<Rightarrow> (block \<times> nat) option" where
  "readBlock now buf pos = do {
     (hash, pos) \<leftarrow> readStringSafe buf pos;
     (prev, pos) \<leftarrow> readStringSafe buf pos;
     (ts, pos) \<leftarrow> readUint64Safe buf pos;
     (rw, pos) \<leftarrow> readUint64Safe buf pos;
     (bf, pos) \<leftarrow> readUint64Safe buf pos;
     (n, pos) \<leftarrow> readCount buf pos;
     (txs, pos) \<leftarrow> readBlockTxs n [] buf pos;
     Some ((default_block now)\<lparr>blk_hash := hash, blk_previousHash := prev, blk_timestamp := ts,
             blk_reward := rw, blk_baseFee := bf, blk_transactions := txs\<rparr>, pos)
   }"

definition decodeBlock :: "u64 \<Rightarrow> bytes option \<Rightarrow> block option" where
  "decodeBlock now b =
     (case b of
        None \<Rightarrow> None
      | Some buf \<Rightarrow> if length buf < 16 then None else map_option fst (readBlock now buf 0))"

section \<open>The CRC\<close>

text \<open>The reference: eight bit steps per byte, no table.\<close>

abbreviation crc_ref_step :: "u32 \<Rightarrow> u8 \<Rightarrow> u32" where
  "crc_ref_step \<equiv> crc_byte crc_bit"

abbreviation crc_ref :: "bytes \<Rightarrow> u32" where
  "crc_ref \<equiv> crc_run crc_bit"

interpretation castagnoli: reflected_crc crc_bit CRC32C_POLY
  by unfold_locales (simp_all add: crc_bit_def and_one_u32 CRC32C_POLY_def)

lemma table_nth: "CRC_TABLE ! unat (x AND 0xFF) = (crc_bit ^^ 8) (x AND 0xFF)"
proof -
  have "unat (x AND mask 8) < 256"
    using and_mask_less' [of 8 x] by (simp add: word_less_nat_alt del: mask_numeral)
  then show ?thesis by (simp add: CRC_TABLE_def buildCrcTable_def FF_mask del: mask_numeral)
qed

lemma crc_step_ref: "crc_step c b = crc_ref_step c b"
proof -
  have "drop_bit 8 (c XOR ucast b) = drop_bit 8 c"
    by (rule bit_word_eqI) (auto simp: bit_simps dest: bit_imp_le_length)
  then show ?thesis
    unfolding crc_step_def crc_byte_def table_nth castagnoli.steps_8 [of "c XOR ucast b"] by simp
qed

lemma crc_sw_ref: "crc_sw data = crc_ref data"
  by (simp add: crc_sw_def crc_run_def crc_step_ref [abs_def])

lemma crc32c_Some [simp]: "crc32c (Some d) n = crc_sw (take n d)"
  by (simp add: crc32c_def)

section \<open>The hardware path\<close>

text \<open>
  The documented effect of \<^verbatim>\<open>_mm_crc32_u64\<close>: the Castagnoli CRC of the eight bytes of the
  operand, lowest first, on the low half of the accumulator, the high half cleared.
\<close>

definition mm_crc32_u64_doc :: "u64 \<Rightarrow> u64 \<Rightarrow> u64" where
  "mm_crc32_u64_doc acc w =
     ucast (foldl crc_ref_step (ucast acc) (map (\<lambda>i. ucast (drop_bit (8 * i) w)) [0..<8]))"

lemma le_word64_bytes:
  assumes "length bs = 8"
  shows "map (\<lambda>i. ucast (drop_bit (8 * i) (le_word64 bs))) [0..<8] = bs"
proof -
  have r: "le_word64 bs = be_read (rev bs)"
    by (simp add: le_word64_def be_read_def foldr_conv_foldl be_step_def [abs_def])
  have "map (\<lambda>i. ucast (drop_bit (8 * i) v)) [0..<8] = rev (be_write 8 (v :: u64))" for v
    by (simp add: be_write_def rev_map del: upt_Suc)
  then show ?thesis using be_write_read [of "rev bs" 8, where 'a = 64] assms
    by (simp add: r del: upt_Suc)
qed

lemma crc_hw_loop_sw:
  "hw = mm_crc32_u64_doc \<Longrightarrow>
   (let (c, p) = crc_hw_loop hw crc64 d in foldl crc_step (ucast c) p) = foldl crc_step (ucast crc64) d"
proof (induction hw crc64 d rule: crc_hw_loop.induct)
  case (1 hw crc64 p)
  show ?case
  proof (cases "length p \<ge> 8")
    case True
    have "(ucast (hw crc64 (le_word64 (take 8 p))) :: u32) = foldl crc_step (ucast crc64) (take 8 p)"
      using 1(2) True le_word64_bytes [of "take 8 p"]
      by (simp add: mm_crc32_u64_doc_def crc_step_ref [abs_def])
    moreover have "foldl crc_step (ucast crc64) p =
        foldl crc_step (foldl crc_step (ucast crc64) (take 8 p)) (drop 8 p)"
      by (metis append_take_drop_id foldl_append)
    ultimately show ?thesis using 1 True by (subst crc_hw_loop.simps) simp
  next
    case False
    then show ?thesis by (subst crc_hw_loop.simps) simp
  qed
qed

section \<open>Reading what was written\<close>

lemma beWrite32_eq [byte_simps]: "beWrite32 v = be_write 4 v"
  using be_bytes4_eq [of v] by (simp add: beWrite32_def be_bytes4_def)

lemma beWrite64_eq [byte_simps]: "beWrite64 v = be_write 8 v"
proof -
  have "beWrite_loop n v = be_enc n (unat v)" for n
  proof (induction n arbitrary: v)
    case (Suc n)
    have "unat (drop_bit 8 v) = unat v div 256"
      by (simp add: drop_bit_eq_div unat_div_distrib)
    moreover have "(ucast v :: u8) = word_of_nat (unat v)" by simp
    ultimately show ?case using Suc [of "drop_bit 8 v"] by simp
  qed simp
  then show ?thesis by (simp add: beWrite64_def be_write_eq)
qed

lemma beRead32_eq: "i + 4 \<le> length p \<Longrightarrow> beRead32 p i = be_read (take 4 (drop i p))"
proof -
  assume "i + 4 \<le> length p"
  then have "take 4 (drop i p) = [p ! i, p ! (i + 1), p ! (i + 2), p ! (i + 3)]"
    by (simp add: list_eq_iff_nth_eq nth_Cons' less_Suc_eq eval_nat_numeral add.commute)
  then show ?thesis
    using be_word4_eq by (simp add: beRead32_def be_word4_def)
qed

lemma fold_nth: "i + n \<le> length p \<Longrightarrow> fold (\<lambda>k v. f v (p ! (i + k))) [0..<n] a = foldl f a (take n (drop i p))"
  by (induction n) (simp_all add: take_Suc_conv_app_nth)

lemma beRead64_eq: "i + 8 \<le> length p \<Longrightarrow> beRead64 p i = be_read (take 8 (drop i p))"
  using fold_nth [of i 8 p be_step 0] by (simp add: beRead64_def be_read_def be_step_def [abs_def] del: upt_Suc)

lemma beRead32_at: "buf_at buf pos (be_write 4 (v :: u32) @ rest) \<Longrightarrow> beRead32 buf pos = v"
  using buf_at_take [of buf pos "be_write 4 v" rest] buf_at_length [of buf pos]
  by (auto simp: beRead32_eq)

lemma reads_uint64: "reads readUint64Safe v (beWrite64 v)"
  using buf_at_take [of _ _ "be_write 8 v"]
  by (intro readsI) (auto simp: readUint64Safe_def beWrite64_eq beRead64_eq dest: buf_at_length)

lemma len_u32: "n \<le> MAX_FRAME_BYTES \<Longrightarrow> unat (word_of_nat n :: u32) = n"
  by (simp add: unat_of_nat MAX_FRAME_BYTES_def)

lemma reads_string:
  assumes "length s \<le> MAX_FRAME_BYTES"
  shows "reads readStringSafe s (beWrite32 (word_of_nat (length s)) @ str_bytes s)"
proof (rule readsI)
  fix buf pos rest
  assume at: "buf_at buf pos ((beWrite32 (word_of_nat (length s)) @ str_bytes s) @ rest)"
  then have at': "buf_at buf (pos + 4) (str_bytes s @ rest)"
    using buf_at_skip [of buf pos "beWrite32 (word_of_nat (length s))"] by (simp add: beWrite32_eq)
  have "take (length s) (drop (pos + 4) buf) = str_bytes s"
    using buf_at_take [OF at'] by simp
  then show "readStringSafe buf pos =
      Some (s, pos + length (beWrite32 (word_of_nat (length s)) @ str_bytes s))"
    using at assms buf_at_length [OF at] len_u32 [OF assms]
    by (simp add: readStringSafe_def beWrite32_eq beRead32_at)
qed

lemma reads_data:
  assumes "length d \<le> MAX_FRAME_BYTES"
  shows "reads readData d (beWrite32 (word_of_nat (length d)) @ d)"
proof (rule readsI)
  fix buf pos rest
  assume at: "buf_at buf pos ((beWrite32 (word_of_nat (length d)) @ d) @ rest)"
  then have at': "buf_at buf (pos + 4) (d @ rest)"
    using buf_at_skip [of buf pos "beWrite32 (word_of_nat (length d))"] by (simp add: beWrite32_eq)
  then show "readData buf pos = Some (d, pos + length (beWrite32 (word_of_nat (length d)) @ d))"
    using at assms buf_at_length [OF at] len_u32 [OF assms] buf_at_take [OF at']
    by (simp add: readData_def beWrite32_eq beRead32_at)
qed

lemma reads_signature:
  assumes "length r = 32" "length s = 32"
  shows "reads readSignature (r, s) (r @ s)"
proof (rule readsI)
  fix buf pos rest
  assume at: "buf_at buf pos ((r @ s) @ rest)"
  have "take 32 (drop (pos + 32) buf) = s"
    using buf_at_take [OF buf_at_skip [of buf pos r "s @ rest"]] at assms by simp
  then show "readSignature buf pos = Some ((r, s), pos + length (r @ s))"
    using at buf_at_length [OF at] assms buf_at_take [of buf pos r "s @ rest"]
    by (simp add: readSignature_def)
qed

section \<open>Transactions on the wire\<close>

definition wire_tx :: "transaction \<Rightarrow> transaction" where
  "wire_tx tx = tx\<lparr>tx_inputs := [], tx_outputs := []\<rparr>"

definition tx_fits :: "transaction \<Rightarrow> bool" where
  "tx_fits tx \<longleftrightarrow> length (tx_toAddress tx) \<le> MAX_FRAME_BYTES \<and> length (tx_txHash tx) \<le> MAX_FRAME_BYTES \<and>
     length (tx_data tx) \<le> MAX_FRAME_BYTES \<and> length (tx_r tx) = 32 \<and> length (tx_s tx) = 32"

lemma encodeTransaction_append: "encodeTransaction tx out = out @ encodeTransaction tx []"
  by (simp add: encodeTransaction_def appendUint64_def appendString_def)

lemma length_encodeTransaction: "tx_fits tx \<Longrightarrow> 60 \<le> length (encodeTransaction tx [])"
  by (simp add: encodeTransaction_def appendUint64_def appendString_def beWrite32_eq beWrite64_eq tx_fits_def)

lemma readTransaction_parts:
  "tx_fits tx \<Longrightarrow> reads readTransaction (wire_tx tx)
     (beWrite64 (tx_chainId tx) @ beWrite64 (tx_nonce tx) @ beWrite64 (tx_maxPriorityFeePerGas tx)
      @ beWrite64 (tx_maxFeePerGas tx) @ beWrite64 (tx_gasLimit tx) @ beWrite64 (tx_value tx)
      @ beWrite64 (tx_v tx)
      @ (beWrite32 (word_of_nat (length (tx_toAddress tx))) @ str_bytes (tx_toAddress tx))
      @ (beWrite32 (word_of_nat (length (tx_txHash tx))) @ str_bytes (tx_txHash tx))
      @ (tx_r tx @ tx_s tx) @ (beWrite32 (word_of_nat (length (tx_data tx))) @ tx_data tx) @ [])"
  unfolding readTransaction_def [abs_def] tx_fits_def
  apply (elim conjE)
  apply (rule reads_bind [OF reads_uint64])+
  apply (rule reads_bind [OF reads_string], assumption)+
  apply (rule reads_bind [OF reads_signature], assumption, assumption)
  apply (rule reads_bind [OF reads_data], assumption)
  apply (simp add: reads_def wire_tx_def default_tx_def)
  done

lemma reads_transaction:
  "tx_fits tx \<Longrightarrow> reads readTransaction (wire_tx tx) (encodeTransaction tx [])"
  by (rule reads_eq [OF readTransaction_parts])
     (simp_all add: encodeTransaction_def appendUint64_def appendString_def)

lemma decodeTransaction_encode:
  "tx_fits tx \<Longrightarrow> decodeTransaction (Some (encodeTransaction tx [] @ rest)) = Some (wire_tx tx)"
  using reads_transaction [of tx] length_encodeTransaction [of tx]
  by (simp add: reads_def decodeTransaction_def)

section \<open>Blocks on the wire\<close>

definition wire_block :: "u64 \<Rightarrow> block \<Rightarrow> block" where
  "wire_block now b =
     (default_block now)\<lparr>blk_hash := blk_hash b, blk_previousHash := blk_previousHash b,
       blk_timestamp := blk_timestamp b, blk_reward := blk_reward b, blk_baseFee := blk_baseFee b,
       blk_transactions := map wire_tx (blk_transactions b)\<rparr>"

definition block_fits :: "block \<Rightarrow> bool" where
  "block_fits b \<longleftrightarrow>
     length (blk_hash b) \<le> MAX_FRAME_BYTES \<and> length (blk_previousHash b) \<le> MAX_FRAME_BYTES \<and>
     length (blk_transactions b) \<le> 100000 \<and>
     (\<forall>tx\<in>set (blk_transactions b). tx_fits tx \<and> length (encodeTransaction tx []) \<le> MAX_FRAME_BYTES)"

definition block_tx_bytes :: "transaction \<Rightarrow> bytes" where
  "block_tx_bytes tx =
     (let e = encodeTransaction tx [] in beWrite32 (word_of_nat (length e)) @ e)"

lemma encodeBlockTx_eq: "encodeBlockTx out tx = out @ block_tx_bytes tx"
  by (simp add: encodeBlockTx_def block_tx_bytes_def Let_def
      encodeTransaction_append [of tx "out @ [0, 0, 0, 0]"])

lemma encodeBlockTxs_eq: "foldl encodeBlockTx out txs = out @ concat (map block_tx_bytes txs)"
  by (induction txs arbitrary: out) (simp_all add: encodeBlockTx_eq)

lemma reads_block_tx:
  assumes "tx_fits tx" "length (encodeTransaction tx []) \<le> MAX_FRAME_BYTES"
  shows "reads readBlockTx (wire_tx tx) (block_tx_bytes tx)"
proof (rule readsI)
  let ?e = "encodeTransaction tx []"
  fix buf pos rest
  assume at: "buf_at buf pos (block_tx_bytes tx @ rest)"
  then have at': "buf_at buf (pos + 4) (?e @ rest)"
    using buf_at_skip [of buf pos "beWrite32 (word_of_nat (length ?e))" "?e @ rest"]
    by (simp add: block_tx_bytes_def Let_def beWrite32_eq)
  show "readBlockTx buf pos = Some (wire_tx tx, pos + length (block_tx_bytes tx))"
    using at buf_at_length [OF at] len_u32 [OF assms(2)] buf_at_take [OF at'] assms
      decodeTransaction_encode [OF assms(1), of "[]"]
    by (simp add: readBlockTx_def block_tx_bytes_def Let_def beWrite32_eq beRead32_at)
qed

lemma reads_block_txs:
  "\<forall>tx\<in>set txs. tx_fits tx \<and> length (encodeTransaction tx []) \<le> MAX_FRAME_BYTES \<Longrightarrow>
   reads (readBlockTxs (length txs) acc) (acc @ map wire_tx txs) (concat (map block_tx_bytes txs))"
proof (induction txs arbitrary: acc)
  case (Cons tx txs)
  then have 1: "reads readBlockTx (wire_tx tx) (block_tx_bytes tx)"
    by (simp add: reads_block_tx)
  have 2: "reads (readBlockTxs (length txs) (acc @ [wire_tx tx])) (acc @ map wire_tx (tx # txs))
      (concat (map block_tx_bytes txs))"
    using Cons.IH [of "acc @ [wire_tx tx]"] Cons.prems by simp
  show ?case
    using reads_bind [OF 1, where ?r2.0 = "\<lambda>tx. readBlockTxs (length txs) (acc @ [tx])", OF 2] by simp
qed (simp add: reads_def)

lemma reads_count:
  assumes "n \<le> 100000"
  shows "reads readCount n (beWrite32 (word_of_nat n))"
proof (rule readsI)
  fix buf pos rest
  assume at: "buf_at buf pos (beWrite32 (word_of_nat n) @ rest)"
  have "unat (word_of_nat n :: u32) = n" using assms by (simp add: unat_of_nat)
  then show "readCount buf pos = Some (n, pos + length (beWrite32 (word_of_nat n)))"
    using at assms buf_at_length [OF at] by (simp add: readCount_def beWrite32_eq beRead32_at)
qed

lemma readBlock_parts:
  "block_fits b \<Longrightarrow> reads (readBlock now) (wire_block now b)
     ((beWrite32 (word_of_nat (length (blk_hash b))) @ str_bytes (blk_hash b))
      @ (beWrite32 (word_of_nat (length (blk_previousHash b))) @ str_bytes (blk_previousHash b))
      @ beWrite64 (blk_timestamp b) @ beWrite64 (blk_reward b) @ beWrite64 (blk_baseFee b)
      @ beWrite32 (word_of_nat (length (blk_transactions b)))
      @ concat (map block_tx_bytes (blk_transactions b)) @ [])"
  unfolding readBlock_def [abs_def] block_fits_def
  apply (elim conjE)
  apply (rule reads_bind [OF reads_string], assumption)+
  apply (rule reads_bind [OF reads_uint64])+
  apply (rule reads_bind [OF reads_count], assumption)
  apply (rule reads_bind [OF reads_block_txs], assumption)
  apply (simp add: reads_def wire_block_def default_block_def)
  done

section \<open>Frames on the wire\<close>

definition frame_bytes :: "frame \<Rightarrow> bytes" where
  "frame_bytes f =
     be_write 4 MAGIC @ type_code (fr_type f) # be_write 4 (word_of_nat (length (fr_payload f)) :: u32)
     @ be_write 4 (crc_sw (fr_payload f)) @ fr_payload f"

lemma known_type_code [simp]: "known_type (type_code t) = Some t"
  by (cases t) (simp_all add: known_type_def)

lemma encodeFrame_eq:
  "encodeFrame f out =
     (if length (fr_payload f) > MAX_FRAME_BYTES then (False, out) else (True, out @ frame_bytes f))"
  by (simp add: encodeFrame_def frame_bytes_def beWrite32_eq Let_def)

lemma length_frame_bytes: "length (frame_bytes f) = HEADER_BYTES + length (fr_payload f)"
  by (simp add: frame_bytes_def HEADER_BYTES_def)

text \<open>The header fields of a buffer that starts with a header.\<close>

lemma header_fields:
  fixes magic len crc :: u32
  assumes "buf = be_write 4 magic @ t # be_write 4 len @ be_write 4 crc @ rest"
  shows "HEADER_BYTES \<le> length buf" "beRead32 buf 0 = magic" "buf ! 4 = t" "beRead32 buf 5 = len"
    "beRead32 buf 9 = crc" "drop HEADER_BYTES buf = rest"
proof -
  have "buf_at buf 0 (be_write 4 magic @ t # be_write 4 len @ be_write 4 crc @ rest)"
    "buf_at buf 5 (be_write 4 len @ be_write 4 crc @ rest)"
    "buf_at buf 9 (be_write 4 crc @ rest)"
    using assms by (simp_all add: buf_at_def)
  then show "beRead32 buf 0 = magic" "beRead32 buf 5 = len" "beRead32 buf 9 = crc"
    by (simp_all only: beRead32_at)
  show "HEADER_BYTES \<le> length buf" "buf ! 4 = t" "drop HEADER_BYTES buf = rest"
    using assms by (simp_all add: HEADER_BYTES_def nth_append)
qed

lemma decodeFrame_header:
  fixes len crc :: u32
  assumes "buf = be_write 4 MAGIC @ type_code t # be_write 4 len @ be_write 4 crc @ rest"
    and "unat len \<le> MAX_FRAME_BYTES"
  shows "decodeFrame (Some buf) =
    (if length rest < unat len then dr_incomplete
     else if crc_sw (take (unat len) rest) \<noteq> crc then dr_failure CrcMismatch
     else dr_success \<lparr>fr_type = t, fr_payload = take (unat len) rest\<rparr> (HEADER_BYTES + unat len))"
proof -
  have "length buf = HEADER_BYTES + length rest"
    using assms(1) by (simp add: HEADER_BYTES_def)
  then show ?thesis
    using header_fields [OF assms(1)] assms(2) by (auto simp: decodeFrame_def Let_def)
qed

section \<open>Properties\<close>

text \<open>frames. A frame whose payload has at most 8 MiB is appended to the buffer and read
  back from where it stands whatever follows it, with its length as the number of consumed
  bytes; every proper prefix of it is \<^verbatim>\<open>Incomplete\<close>, so a receiver that waits for more
  bytes never loses a frame; a larger payload is refused and leaves the buffer as it was.\<close>

theorem decodeFrame_encodeFrame:
  assumes "encodeFrame f out = (ok, out')"
  shows "ok = (length (fr_payload f) \<le> MAX_FRAME_BYTES) \<and> (\<not> ok \<longrightarrow> out' = out) \<and>
    (ok \<longrightarrow> take (length out) out' = out \<and>
       decodeFrame (Some (drop (length out) out' @ rest)) = dr_success f (length out' - length out) \<and>
       (\<forall>k < length out' - length out.
          decodeFrame (Some (take k (drop (length out) out'))) = dr_incomplete))"
proof (cases "length (fr_payload f) \<le> MAX_FRAME_BYTES")
  case False
  then show ?thesis using assms by (auto simp: encodeFrame_eq)
next
  case True
  let ?h = "be_write 4 MAGIC @ type_code (fr_type f) # be_write 4 (word_of_nat (length (fr_payload f)) :: u32)
     @ be_write 4 (crc_sw (fr_payload f))"
  have o: "ok" "out' = out @ frame_bytes f" using True assms by (auto simp: encodeFrame_eq)
  note u = len_u32 [OF True]
  have d: "decodeFrame (Some (?h @ r)) =
      (if length r < length (fr_payload f) then dr_incomplete
       else if crc_sw (take (length (fr_payload f)) r) \<noteq> crc_sw (fr_payload f) then dr_failure CrcMismatch
       else dr_success \<lparr>fr_type = fr_type f, fr_payload = take (length (fr_payload f)) r\<rparr>
              (HEADER_BYTES + length (fr_payload f)))" for r
    using decodeFrame_header [of "?h @ r" "fr_type f" "word_of_nat (length (fr_payload f))"
        "crc_sw (fr_payload f)" r] True by (simp add: u)
  have fb: "frame_bytes f = ?h @ fr_payload f" by (simp add: frame_bytes_def)
  have [simp]: "\<lparr>fr_type = fr_type f, fr_payload = fr_payload f\<rparr> = f" by simp
  have full: "decodeFrame (Some (frame_bytes f @ rest)) = dr_success f (length (frame_bytes f))"
    using d [of "fr_payload f @ rest"] by (simp add: fb HEADER_BYTES_def)
  have "decodeFrame (Some (take k (frame_bytes f))) = dr_incomplete" if "k < length (frame_bytes f)" for k
  proof (cases "k < HEADER_BYTES")
    case True
    then show ?thesis by (simp add: decodeFrame_def)
  next
    case False
    have lh: "length ?h = HEADER_BYTES" by (simp add: HEADER_BYTES_def)
    have "take k (frame_bytes f) = ?h @ take (k - HEADER_BYTES) (fr_payload f)"
      unfolding fb take_append lh using False by (simp add: HEADER_BYTES_def)
    moreover have "k - HEADER_BYTES < length (fr_payload f)"
      using that False by (simp add: length_frame_bytes)
    ultimately show ?thesis using d [of "take (k - HEADER_BYTES) (fr_payload f)"] by simp
  qed
  with full o True show ?thesis by simp
qed

theorem decodeFrame_encodeFrame_witness:
  "decodeFrame (Some (frame_bytes \<lparr>fr_type = MT_Ping, fr_payload = [0x61]\<rparr> @ [0x4D])) =
     dr_success \<lparr>fr_type = MT_Ping, fr_payload = [0x61]\<rparr> 14 \<and>
   decodeFrame (Some (take 13 (frame_bytes \<lparr>fr_type = MT_Ping, fr_payload = [0x61]\<rparr>))) = dr_incomplete"
  using decodeFrame_encodeFrame [of "\<lparr>fr_type = MT_Ping, fr_payload = [0x61]\<rparr>" "[]" True
      "frame_bytes \<lparr>fr_type = MT_Ping, fr_payload = [0x61]\<rparr>" "[0x4D]"]
  by (simp add: encodeFrame_eq MAX_FRAME_BYTES_def length_frame_bytes HEADER_BYTES_def)

text \<open>C31: corruption of one byte of the payload never goes unnoticed: the frame is then
  refused with \<^verbatim>\<open>CrcMismatch\<close>, whatever the byte, its position and what follows.\<close>

theorem decodeFrame_detects_corruption:
  assumes "encodeFrame f [] = (True, out)" and "i < length (fr_payload f)" and "b \<noteq> fr_payload f ! i"
  shows "decodeFrame (Some (out[HEADER_BYTES + i := b] @ rest)) = dr_failure CrcMismatch"
proof -
  have le: "length (fr_payload f) \<le> MAX_FRAME_BYTES" and out: "out = frame_bytes f"
    using assms(1) by (auto simp: encodeFrame_eq split: if_splits)
  let ?h = "be_write 4 MAGIC @ type_code (fr_type f) # be_write 4 (word_of_nat (length (fr_payload f)) :: u32)
     @ be_write 4 (crc_sw (fr_payload f))"
  have "out[HEADER_BYTES + i := b] @ rest = ?h @ (fr_payload f)[i := b] @ rest"
    using assms(2) by (simp add: out frame_bytes_def HEADER_BYTES_def list_update_append)
  then show ?thesis
    using decodeFrame_header [of "?h @ (fr_payload f)[i := b] @ rest" "fr_type f"
        "word_of_nat (length (fr_payload f))" "crc_sw (fr_payload f)" "(fr_payload f)[i := b] @ rest"]
      le castagnoli.detects_byte [OF assms(2,3)] crc_sw_ref by (simp add: len_u32 [OF le])
qed

theorem decodeFrame_detects_corruption_witness:
  "decodeFrame (Some ((frame_bytes \<lparr>fr_type = MT_Ping, fr_payload = [0x61]\<rparr>)[HEADER_BYTES + 0 := 0x62] @ [])) =
     dr_failure CrcMismatch"
  by (rule decodeFrame_detects_corruption [where f = "\<lparr>fr_type = MT_Ping, fr_payload = [0x61]\<rparr>"])
     (simp_all add: encodeFrame_eq MAX_FRAME_BYTES_def)

text \<open>the checksum computed with the 256-entry table is the bitwise Castagnoli CRC, and
  the SSE4.2 path, given the documented effect of its intrinsic, computes the same value,
  so two builds of the node agree on every frame.\<close>

theorem crc32c_paths_agree:
  assumes "\<forall>acc w. hw acc w = mm_crc32_u64_doc acc w"
  shows "crc32c (Some d) (length d) = crc_ref d \<and> crc_hw hw d = crc32c (Some d) (length d)"
proof -
  have "hw = mm_crc32_u64_doc" using assms by blast
  then show ?thesis
    using crc_hw_loop_sw [of hw "0xFFFFFFFF" d]
    by (simp add: crc_hw_def crc_sw_def crc_sw_ref [symmetric] split: prod.splits)
qed

theorem crc32c_paths_agree_witness:
  "crc_hw mm_crc32_u64_doc (replicate 9 0x61) = crc32c (Some (replicate 9 0x61)) 9"
  using crc32c_paths_agree [of mm_crc32_u64_doc "replicate 9 0x61"] by simp

text \<open>a transaction read from the wire is the transaction written, except that its
  inputs and outputs are not carried: they come back empty. The fields must fit in a frame
  and the signature halves have 32 bytes each.\<close>

theorem codec_transaction_roundtrip:
  assumes "tx_fits tx"
  shows "decodeTransaction (Some (drop (length out) (encodeTransaction tx out) @ rest)) =
    Some (tx\<lparr>tx_inputs := [], tx_outputs := []\<rparr>)"
  using decodeTransaction_encode [OF assms, of rest]
  by (subst encodeTransaction_append) (simp add: wire_tx_def)

theorem codec_transaction_roundtrip_witness:
  "decodeTransaction (Some (drop 0 (encodeTransaction (default_tx\<lparr>tx_value := 5, tx_data := [1, 2]\<rparr>) []) @ [])) =
     Some (default_tx\<lparr>tx_value := 5, tx_data := [1, 2]\<rparr>)"
  using codec_transaction_roundtrip [of "default_tx\<lparr>tx_value := 5, tx_data := [1, 2]\<rparr>" "[]" "[]"]
  by (simp add: tx_fits_def default_tx_def MAX_FRAME_BYTES_def)

text \<open>a block read from the wire has the hash, previous hash, timestamp, reward, base fee
  and the transactions (as the wire carries them) of the block written, and the default of
  every other field: difficulty, miner, nonce, data, gas and signature are lost.\<close>

theorem codec_block_roundtrip:
  assumes "block_fits b"
  shows "encodeBlockNew b = Some (encodeBlock b []) \<and>
    decodeBlock now (Some (encodeBlock b [] @ rest)) = Some (wire_block now b)"
proof -
  have e: "encodeBlock b [] =
      (beWrite32 (word_of_nat (length (blk_hash b))) @ str_bytes (blk_hash b))
      @ (beWrite32 (word_of_nat (length (blk_previousHash b))) @ str_bytes (blk_previousHash b))
      @ beWrite64 (blk_timestamp b) @ beWrite64 (blk_reward b) @ beWrite64 (blk_baseFee b)
      @ beWrite32 (word_of_nat (length (blk_transactions b)))
      @ concat (map block_tx_bytes (blk_transactions b)) @ []"
    by (simp add: encodeBlock_def appendString_def appendUint64_def encodeBlockTxs_eq)
  have len: "16 \<le> length (encodeBlock b [])"
    by (simp add: e beWrite32_eq beWrite64_eq)
  have "reads (readBlock now) (wire_block now b) (encodeBlock b [])"
    using readBlock_parts [OF assms] by (simp only: e)
  then show ?thesis using len by (simp add: decodeBlock_def reads_def encodeBlockNew_def)
qed

theorem codec_block_roundtrip_witness:
  "decodeBlock 9 (Some (encodeBlock (new_block 7 ''a'' ''bc'' 3 ''m'') [] @ [])) =
     Some (wire_block 9 (new_block 7 ''a'' ''bc'' 3 ''m''))"
  using codec_block_roundtrip [of "new_block 7 ''a'' ''bc'' 3 ''m''" 9 "[]"]
  by (simp add: block_fits_def new_block_def MAX_FRAME_BYTES_def)

end
