(* ===== verification/Rlp.thy ===== *)
theory Rlp
  imports Prelude
begin

text \<open>
  The RLP encoder and decoder, \<^verbatim>\<open>src/crypto/rlp.cpp\<close>. An \<^verbatim>\<open>RlpValue\<close> is a byte string
  or a list of values. The encoders append to the caller's buffer \<^verbatim>\<open>out\<close>; the decoders
  read \<^verbatim>\<open>data[0..length)\<close> at an offset and return the value with \<^verbatim>\<open>nextOffset\<close>.
  A thrown exception is the left side of the result.

  \<^verbatim>\<open>size_t\<close> values are natural numbers; the sums the code computes on them wrap modulo
  \<open>2 ^ 64\<close> (\<open>sz_add\<close>), which the length checks depend on.
\<close>

section \<open>Values\<close>

datatype rlp_value = RBytes (asBytes: bytes) | RList (asList: "rlp_value list")

definition sz_add :: "nat \<Rightarrow> nat \<Rightarrow> nat" where
  "sz_add a b = (a + b) mod 2 ^ 64"

section \<open>Encoding\<close>

text \<open>\<^verbatim>\<open>for (size_t t = len; t > 0; t >>= 8) lenBuf[lenBytes++] = t & 0xFF\<close>\<close>

fun le_bytes :: "nat \<Rightarrow> bytes" where
  "le_bytes t = (if t = 0 then [] else word_of_nat t # le_bytes (t div 256))"

declare le_bytes.simps [simp del]

definition encodeLength :: "nat \<Rightarrow> u8 \<Rightarrow> bytes \<Rightarrow> cxx_exn + bytes" where
  "encodeLength len offset out =
     (if len < 56 then Inr (out @ [offset + word_of_nat len])
      else
        let lenBuf = le_bytes len; lenBytes = length lenBuf
        in if lenBytes > 8 then Inl Runtime_error
           else Inr (out @ [offset + 55 + word_of_nat lenBytes] @ rev lenBuf))"

definition encodeBytes :: "bytes \<Rightarrow> bytes \<Rightarrow> cxx_exn + bytes" where
  "encodeBytes data out =
     (if length data = 1 \<and> data ! 0 < 0x80 then Inr (out @ [data ! 0])
      else bind_sum (encodeLength (length data) 0x80 out) (\<lambda>out. Inr (out @ data)))"

definition encodeBytes32 :: "bytes \<Rightarrow> bytes \<Rightarrow> cxx_exn + bytes" where
  "encodeBytes32 input out = encodeBytes (take 32 input) out"

definition encodeUInt :: "u64 \<Rightarrow> bytes \<Rightarrow> cxx_exn + bytes" where
  "encodeUInt v out =
     (if v = 0 then Inr (out @ [0x80]) else encodeBytes (rev (le_bytes (unat v))) out)"

definition encodeUInt256 :: "bytes \<Rightarrow> bytes \<Rightarrow> cxx_exn + bytes" where
  "encodeUInt256 v out =
     (let start = length (takeWhile (\<lambda>b. b = 0) (take 32 v))
      in if start = 32 then Inr (out @ [0x80]) else encodeBytes (drop start (take 32 v)) out)"

definition encodeList :: "bytes list \<Rightarrow> bytes \<Rightarrow> cxx_exn + bytes" where
  "encodeList encodedItems out =
     (let payloadSize = foldl (\<lambda>n item. sz_add n (length item)) 0 encodedItems
      in bind_sum (encodeLength payloadSize 0xC0 out)
           (\<lambda>out. Inr (foldl (\<lambda>out item. out @ item) out encodedItems)))"

fun encodeValue :: "rlp_value \<Rightarrow> bytes \<Rightarrow> cxx_exn + bytes"
and encodeChildren :: "rlp_value list \<Rightarrow> bytes \<Rightarrow> cxx_exn + bytes" where
  "encodeValue (RBytes b) out = encodeBytes b out"
| "encodeValue (RList vs) out =
     bind_sum (encodeChildren vs []) (\<lambda>payload.
     bind_sum (encodeLength (length payload) 0xC0 out) (\<lambda>out.
     Inr (out @ payload)))"
| "encodeChildren [] payload = Inr payload"
| "encodeChildren (v # vs) payload =
     bind_sum (encodeValue v payload) (\<lambda>payload. encodeChildren vs payload)"

section \<open>Decoding\<close>

definition safeByte :: "bytes \<Rightarrow> nat \<Rightarrow> cxx_exn + u8" where
  "safeByte data index = (if index \<ge> length data then Inl Runtime_error else Inr (data ! index))"

text \<open>
  The result is the start of the payload and the two output parameters \<^verbatim>\<open>payloadLen\<close> and
  \<^verbatim>\<open>headerLen\<close>. The length bytes are read into a 64-bit \<^verbatim>\<open>size_t\<close>.
\<close>

definition decodeLength :: "bytes \<Rightarrow> nat \<Rightarrow> u8 \<Rightarrow> cxx_exn + (nat \<times> nat \<times> nat)" where
  "decodeLength data offset baseOffset =
     bind_sum (safeByte data offset) (\<lambda>prefix.
       let shortLimit = baseOffset + 55
       in if prefix \<ge> baseOffset \<and> prefix \<le> shortLimit
          then Inr (offset + 1, unat (prefix - baseOffset), 1)
          else if prefix > shortLimit
          then
            let lol = unat prefix - unat shortLimit
            in if offset + 1 + lol > length data then Inl Runtime_error
               else
                 let decodedLen = unat (foldl be_step (0 :: u64) (take lol (drop (offset + 1) data)))
                 in if decodedLen < 56 then Inl Runtime_error
                    else Inr (offset + 1 + lol, decodedLen, 1 + lol)
          else Inl Runtime_error)"

text \<open>
  \<^verbatim>\<open>RlpBytes(data + lo, data + hi)\<close>: a range that ends before it starts has a
  negative distance, which the constructor of \<^verbatim>\<open>std::vector\<close> refuses with
  \<^verbatim>\<open>std::length_error\<close>.
\<close>

definition range_bytes :: "bytes \<Rightarrow> nat \<Rightarrow> nat \<Rightarrow> cxx_exn + bytes" where
  "range_bytes data lo hi =
     (if hi < lo then Inl Length_error else Inr (take (hi - lo) (drop lo data)))"

definition decodeBytes :: "bytes \<Rightarrow> nat \<Rightarrow> cxx_exn + (bytes \<times> nat)" where
  "decodeBytes data offset =
     (if offset \<ge> length data then Inl Runtime_error
      else
        let prefix = data ! offset
        in if prefix < 0x80 then Inr ([prefix], offset + 1)
           else if prefix > 0xBF then Inl Runtime_error
           else
             bind_sum (decodeLength data offset 0x80) (\<lambda>(dataStart, payloadLen, headerLen).
               if sz_add dataStart payloadLen > length data then Inl Runtime_error
               else bind_sum (range_bytes data dataStart (sz_add dataStart payloadLen))
                      (\<lambda>bs. Inr (bs, sz_add dataStart payloadLen))))"

definition decodeUInt64 :: "bytes \<Rightarrow> nat \<Rightarrow> cxx_exn + (u64 \<times> nat)" where
  "decodeUInt64 data offset =
     bind_sum (decodeBytes data offset) (\<lambda>(bs, next).
       if length bs > 8 then Inl Runtime_error
       else if length bs > 1 \<and> bs ! 0 = 0 then Inl Runtime_error
       else Inr (foldl be_step 0 bs, next))"

definition decodeUInt256 :: "bytes \<Rightarrow> nat \<Rightarrow> cxx_exn + (bytes \<times> nat)" where
  "decodeUInt256 data offset =
     bind_sum (decodeBytes data offset) (\<lambda>(bs, next).
       if length bs > 32 then Inl Runtime_error
       else if length bs > 1 \<and> bs ! 0 = 0 then Inl Runtime_error
       else Inr (replicate (32 - length bs) 0 @ bs, next))"

text \<open>The payload of a list starts after its prefix byte: what the recursion needs.\<close>

lemma decodeLength_start:
  "decodeLength data offset base = Inr (start, payloadLen, headerLen) \<Longrightarrow> offset < start"
  by (auto simp: decodeLength_def bind_sum_Inr Let_def split: if_splits)

text \<open>
  \<^verbatim>\<open>decodeList\<close> and \<^verbatim>\<open>decodeValue\<close> call each other; \<open>decodeItems\<close> is the loop of
  \<^verbatim>\<open>decodeList\<close>, with the items read so far, the position and the end. Every call moves
  the offset forward within the input, which is what makes them terminate; the guard
  \<open>pos < length data\<close> of the loop is the first check of the call it makes.
\<close>

function decodeValue :: "bytes \<Rightarrow> nat \<Rightarrow> cxx_exn + (rlp_value \<times> nat)"
and decodeList :: "bytes \<Rightarrow> nat \<Rightarrow> cxx_exn + (rlp_value list \<times> nat)"
and decodeItems :: "bytes \<Rightarrow> nat \<Rightarrow> nat \<Rightarrow> rlp_value list \<Rightarrow> cxx_exn + (rlp_value list \<times> nat)"
where
  "decodeValue data offset =
     (if offset \<ge> length data then Inl Runtime_error
      else if data ! offset \<ge> 0xC0
      then (case decodeList data offset of Inl e \<Rightarrow> Inl e | Inr (l, next) \<Rightarrow> Inr (RList l, next))
      else (case decodeBytes data offset of Inl e \<Rightarrow> Inl e | Inr (b, next) \<Rightarrow> Inr (RBytes b, next)))"
| "decodeList data offset =
     (if offset \<ge> length data then Inl Runtime_error
      else if data ! offset < 0xC0 then Inl Runtime_error
      else
        (case decodeLength data offset 0xC0 of
           Inl e \<Rightarrow> Inl e
         | Inr (listStart, payloadLen, headerLen) \<Rightarrow>
             if sz_add listStart payloadLen > length data then Inl Runtime_error
             else decodeItems data listStart (sz_add listStart payloadLen) []))"
| "decodeItems data pos end items =
     (if pos < end
      then
        (if pos \<ge> length data then Inl Runtime_error
         else
           (case decodeValue data pos of
              Inl e \<Rightarrow> Inl e
            | Inr (child, childNext) \<Rightarrow>
                if childNext \<le> pos then Inl Runtime_error
                else decodeItems data childNext end (items @ [child])))
      else if pos \<noteq> end then Inl Runtime_error
      else Inr (items, end))"
  by pat_completeness auto
termination
  by (relation "measures
        [\<lambda>x. case x of Inl (data, offset) \<Rightarrow> length data - offset
              | Inr (Inl (data, offset)) \<Rightarrow> length data - offset
              | Inr (Inr (data, pos, _)) \<Rightarrow> length data - pos,
         \<lambda>x. case x of Inl _ \<Rightarrow> 1 | Inr (Inl _) \<Rightarrow> 0 | Inr (Inr _) \<Rightarrow> 2]")
     (auto dest: decodeLength_start)

declare decodeValue.simps [simp del] decodeList.simps [simp del] decodeItems.simps [simp del]

section \<open>Specification of the encoding\<close>

text \<open>\<open>enc v\<close> is the encoding as a function of the value alone; the code appends it to a buffer.\<close>

definition enc_header :: "u8 \<Rightarrow> nat \<Rightarrow> bytes" where
  "enc_header base n =
     (if n < 56 then [base + word_of_nat n]
      else (base + 55 + word_of_nat (length (le_bytes n))) # rev (le_bytes n))"

definition enc_bytes :: "bytes \<Rightarrow> bytes" where
  "enc_bytes b = (if length b = 1 \<and> b ! 0 < 0x80 then b else enc_header 0x80 (length b) @ b)"

fun enc :: "rlp_value \<Rightarrow> bytes" where
  "enc (RBytes b) = enc_bytes b"
| "enc (RList vs) =
     (let payload = concat (map enc vs) in enc_header 0xC0 (length payload) @ payload)"

section \<open>Little-endian digits of a length\<close>

lemma be_val_le_bytes [byte_simps]: "be_val (rev (le_bytes n)) = n"
  by (induction n rule: le_bytes.induct)
     (subst le_bytes.simps, simp add: be_val_append unat_word_of_nat_u8)

lemma le_bytes_0 [simp]: "le_bytes 0 = []"
  by (simp add: le_bytes.simps)

lemma le_bytes_Nil [simp]: "le_bytes n = [] \<longleftrightarrow> n = 0"
  by (subst le_bytes.simps) simp

lemma le_bytes_last: "n > 0 \<Longrightarrow> last (le_bytes n) \<noteq> 0"
proof (induction n rule: le_bytes.induct)
  case (1 n)
  show ?case
  proof (cases "n div 256 = 0")
    case True
    then have "n < 256" by simp
    then have "unat (word_of_nat n :: u8) = n" by (simp add: unat_word_of_nat_u8)
    then have "(word_of_nat n :: u8) \<noteq> 0" using 1(2) by (metis unat_0 less_numeral_extra(3))
    with True 1(2) show ?thesis by (simp add: le_bytes.simps [of n])
  next
    case False
    with 1 show ?thesis by (subst le_bytes.simps) auto
  qed
qed

lemma le_bytes_length: "n < 256 ^ k \<longleftrightarrow> length (le_bytes n) \<le> k"
proof (induction n arbitrary: k rule: le_bytes.induct)
  case (1 n)
  show ?case
  proof (cases k)
    case 0
    then show ?thesis by simp
  next
    case (Suc j)
    have "n < 256 ^ Suc j \<longleftrightarrow> n div 256 < 256 ^ j"
      by (simp add: div_less_iff_less_mult mult.commute)
    with 1 Suc show ?thesis by (subst le_bytes.simps) (cases "n = 0"; simp)
  qed
qed

lemma le_bytes_length8 [simp]:
  "length (le_bytes n) \<le> 8 \<longleftrightarrow> n < 18446744073709551616"
  "8 < length (le_bytes n) \<longleftrightarrow> 18446744073709551616 \<le> n"
  using le_bytes_length [of n 8] by simp_all linarith

lemma rev_le_bytes_hd: "n > 0 \<Longrightarrow> rev (le_bytes n) ! 0 \<noteq> 0"
  using le_bytes_last [of n] by (simp add: rev_nth last_conv_nth)

section \<open>The encoder appends the specification\<close>

lemma encodeLength_Inr:
  "encodeLength n base out = Inr r \<Longrightarrow> r = out @ enc_header base n \<and> n < 2 ^ 64"
  by (auto simp: encodeLength_def enc_header_def Let_def split: if_splits)

lemma encodeLength_spec: "n < 2 ^ 64 \<Longrightarrow> encodeLength n base out = Inr (out @ enc_header base n)"
  by (auto simp: encodeLength_def enc_header_def Let_def)

lemma encodeBytes_Inr:
  "encodeBytes b out = Inr r \<Longrightarrow> r = out @ enc_bytes b \<and> length b < 2 ^ 64"
  by (cases b) (auto simp: encodeBytes_def enc_bytes_def bind_sum_Inr dest: encodeLength_Inr split: if_splits)

lemma encodeBytes_spec: "length b < 2 ^ 64 \<Longrightarrow> encodeBytes b out = Inr (out @ enc_bytes b)"
  by (cases b) (auto simp: encodeBytes_def enc_bytes_def encodeLength_spec)

text \<open>Every length inside the value fits in \<^verbatim>\<open>size_t\<close>.\<close>

fun fits :: "rlp_value \<Rightarrow> bool" where
  "fits (RBytes b) \<longleftrightarrow> length b < 2 ^ 64"
| "fits (RList vs) \<longleftrightarrow> (\<forall>v\<in>set vs. fits v) \<and> length (concat (map enc vs)) < 2 ^ 64"

lemma encodeValue_iff:
  "(encodeValue v out = Inr r) = (r = out @ enc v \<and> fits v)"
  "(encodeChildren vs out = Inr r) =
     (r = out @ concat (map enc vs) \<and> (\<forall>v\<in>set vs. fits v))"
  by (induction v out and vs out arbitrary: r and r rule: encodeValue_encodeChildren.induct)
     (auto simp: bind_sum_Inr Let_def encodeBytes_spec encodeLength_spec
           dest: encodeBytes_Inr encodeLength_Inr)

section \<open>The decoder reads the specification\<close>

lemma word8_cases: "(b::u8) = word_of_nat (unat b)" by simp

lemma foldl_be_step_u64:
  "length bs \<le> 8 \<Longrightarrow> unat (foldl be_step (0 :: u64) bs) = be_val bs"
  using unat_be_read [of bs, where 'a = 64] by (simp add: be_read_def)

lemma short_prefix:
  assumes "n < 56" "base \<in> {0x80, 0xC0 :: u8}"
  shows "unat (base + word_of_nat n) = unat base + n"
  using assms by (auto simp: unat_word_ariths unat_word_of_nat_u8)

lemma long_prefix:
  assumes "k \<le> 8" "base \<in> {0x80, 0xC0 :: u8}"
  shows "unat (base + 55 + word_of_nat k) = unat base + 55 + k"
  using assms by (auto simp: unat_word_ariths unat_word_of_nat_u8)

lemma decodeLength_header:
  assumes base: "base \<in> {0x80, 0xC0 :: u8}" and n: "n < 2 ^ 64"
  shows "decodeLength (pre @ enc_header base n @ post) (length pre) base =
     Inr (length pre + length (enc_header base n), n, length (enc_header base n))"
proof (cases "n < 56")
  case True
  then have u: "unat (base + word_of_nat n) = unat base + n" by (rule short_prefix) (rule base)
  have "base + word_of_nat n \<ge> base" "base + word_of_nat n \<le> base + 55"
    using u True base by (auto simp: word_le_nat_alt)
  then show ?thesis
    using True u by (simp add: enc_header_def decodeLength_def safeByte_def unat_word_of_nat_u8)
next
  case False
  let ?ls = "rev (le_bytes n)"
  let ?k = "length ?ls"
  have n0: "0 < n" using False by simp
  then have k: "1 \<le> ?k" "?k \<le> 8"
    using n by (auto simp: Suc_le_eq)
  have u: "unat (base + 55 + word_of_nat ?k) = unat base + 55 + ?k"
    by (rule long_prefix) (rule k, rule base)
  have s: "unat (base + 55) = unat base + 55" using base by auto
  have gt: "base + 55 < base + 55 + word_of_nat ?k"
    using u s k n0 by (simp add: word_less_nat_alt)
  have v: "unat (foldl be_step (0 :: u64) ?ls) = n"
    using k by (simp add: foldl_be_step_u64 be_val_le_bytes)
  show ?thesis
    using False gt u s v
    by (simp add: enc_header_def decodeLength_def safeByte_def Let_def linorder_not_le del: le_bytes_length8)
qed

lemma enc_header_first:
  assumes "n < 2 ^ 64" "base \<in> {0x80, 0xC0 :: u8}"
  shows "enc_header base n \<noteq> []" "unat base \<le> unat (hd (enc_header base n))"
    "unat (hd (enc_header base n)) < unat base + 64"
proof -
  have "length (le_bytes n) \<le> 8" using assms(1) by simp
  then have "unat (base + 55 + word_of_nat (length (le_bytes n))) = unat base + 55 + length (le_bytes n)"
    by (rule long_prefix) (rule assms)
  with assms \<open>length (le_bytes n) \<le> 8\<close> show "enc_header base n \<noteq> []"
    "unat base \<le> unat (hd (enc_header base n))" "unat (hd (enc_header base n)) < unat base + 64"
    by (simp_all add: enc_header_def short_prefix del: le_bytes_length8)
qed

lemma sz_add_small [simp]: "a + b < 2 ^ 64 \<Longrightarrow> sz_add a b = a + b"
  by (simp add: sz_add_def)

lemma decodeBytes_enc:
  assumes "length (pre @ enc_bytes b @ post) < 2 ^ 64"
  shows "decodeBytes (pre @ enc_bytes b @ post) (length pre) =
     Inr (b, length pre + length (enc_bytes b))"
proof (cases "length b = 1 \<and> b ! 0 < 0x80")
  case True
  then obtain c where "b = [c]" by (auto simp: length_Suc_conv)
  with True show ?thesis by (simp add: decodeBytes_def enc_bytes_def)
next
  case False
  let ?h = "enc_header 0x80 (length b)"
  have n: "length b < 2 ^ 64" and tot: "length pre + (length ?h + length b) < 2 ^ 64"
    using assms False by (auto simp: enc_bytes_def)
  obtain x xs where h: "?h = x # xs" using enc_header_first(1) [of "length b" "0x80"] n by (cases ?h) auto
  have x: "\<not> x < 0x80" "\<not> x > 0xBF"
    using enc_header_first(2,3) [of "length b" "0x80"] n h by (auto simp: word_less_nat_alt)
  have dl: "decodeLength (pre @ ?h @ b @ post) (length pre) 0x80 =
      Inr (length pre + length ?h, length b, length ?h)"
    using decodeLength_header [of "0x80" "length b" pre "b @ post"] n by simp
  show ?thesis
    using dl x False tot unfolding h
    by (auto simp: decodeBytes_def enc_bytes_def h range_bytes_def)
qed

lemma decodeItems_enc:
  assumes "\<And>v pre post. v \<in> set vs \<Longrightarrow> length (pre @ enc v @ post) < 2 ^ 64 \<Longrightarrow>
      decodeValue (pre @ enc v @ post) (length pre) = Inr (v, length pre + length (enc v))"
    and "length (pre @ concat (map enc vs) @ post) < 2 ^ 64"
    and "\<And>v. v \<in> set vs \<Longrightarrow> enc v \<noteq> []"
  shows "decodeItems (pre @ concat (map enc vs) @ post) (length pre)
      (length pre + length (concat (map enc vs))) acc =
     Inr (acc @ vs, length pre + length (concat (map enc vs)))"
  using assms
proof (induction vs arbitrary: pre acc)
  case Nil
  then show ?case by (simp add: decodeItems.simps)
next
  case (Cons v vs)
  let ?rest = "concat (map enc vs)"
  have d: "decodeValue (pre @ enc v @ ?rest @ post) (length pre) = Inr (v, length pre + length (enc v))"
    using Cons.prems(1) [of v pre "?rest @ post"] Cons.prems(2) by simp
  have ne: "enc v \<noteq> []" using Cons.prems(3) by simp
  have "decodeItems ((pre @ enc v) @ ?rest @ post) (length (pre @ enc v))
      (length (pre @ enc v) + length ?rest) (acc @ [v]) =
     Inr ((acc @ [v]) @ vs, length (pre @ enc v) + length ?rest)"
    by (rule Cons.IH) (use Cons.prems in auto)
  then show ?case
    using d ne by (subst decodeItems.simps) (simp add: add.assoc)
qed

lemma enc_not_Nil: "length (enc v) < 2 ^ 64 \<Longrightarrow> enc v \<noteq> []"
  by (cases v) (auto simp: enc_bytes_def enc_header_def Let_def)

lemma decodeValue_enc:
  "length (pre @ enc v @ post) < 2 ^ 64 \<Longrightarrow>
   decodeValue (pre @ enc v @ post) (length pre) = Inr (v, length pre + length (enc v))"
proof (induction v arbitrary: pre post)
  case (RBytes b)
  have "length pre < length (pre @ enc_bytes b @ post)"
    by (auto simp: enc_bytes_def enc_header_def)
  moreover have "\<not> (pre @ enc_bytes b @ post) ! length pre \<ge> 0xC0"
  proof (cases "length b = 1 \<and> b ! 0 < 0x80")
    case True
    then show ?thesis by (auto simp: enc_bytes_def length_Suc_conv word_less_nat_alt word_le_nat_alt)
  next
    case False
    then have n: "length b < 2 ^ 64" using RBytes by (auto simp: enc_bytes_def)
    with False show ?thesis
      using enc_header_first [of "length b" "0x80"]
      by (cases "enc_header 0x80 (length b)")
         (auto simp: enc_bytes_def word_le_nat_alt)
  qed
  ultimately show ?case
    using decodeBytes_enc [of pre b post] RBytes by (simp add: decodeValue.simps)
next
  case (RList vs)
  let ?p = "concat (map enc vs)"
  let ?h = "enc_header 0xC0 (length ?p)"
  let ?data = "pre @ ?h @ ?p @ post"
  have tot: "length pre + (length ?h + (length ?p + length post)) < 2 ^ 64"
    using RList.prems by (simp add: Let_def)
  then have n: "length ?p < 2 ^ 64" by simp
  have dl: "decodeLength ?data (length pre) 0xC0 = Inr (length pre + length ?h, length ?p, length ?h)"
    using decodeLength_header [of "0xC0" "length ?p" pre "?p @ post"] n by simp
  have ne: "enc v \<noteq> []" for v
    by (cases v) (auto simp: enc_bytes_def enc_header_def Let_def)
  have items: "decodeItems ((pre @ ?h) @ ?p @ post) (length (pre @ ?h))
      (length (pre @ ?h) + length ?p) [] = Inr ([] @ vs, length (pre @ ?h) + length ?p)"
    by (rule decodeItems_enc) (use RList.IH tot ne in auto)
  obtain x xs where h: "?h = x # xs" and x: "\<not> x < 0xC0"
    using enc_header_first [of "length ?p" "0xC0"] n
    by (cases ?h) (auto simp: word_less_nat_alt)
  have l: "decodeList ?data (length pre) = Inr (vs, length pre + length ?h + length ?p)"
    using dl items h x tot by (simp add: decodeList.simps)
  then show ?case
    using h x by (simp add: decodeValue.simps [of "pre @ x # xs @ ?p @ post"] Let_def linorder_not_less add.assoc)
qed

section \<open>Bounds of the decoder\<close>

lemma decodeBytes_bounds:
  "decodeBytes data offset = Inr (b, next) \<Longrightarrow> offset < next \<and> next \<le> length data"
  by (auto simp: decodeBytes_def bind_sum_Inr Let_def range_bytes_def split: if_splits
        dest: decodeLength_start)

lemma decode_bounds:
  "decodeValue data offset = Inr (v, next) \<Longrightarrow> offset < next \<and> next \<le> length data"
  "decodeList data offset = Inr (vs, next) \<Longrightarrow> offset < next \<and> next \<le> length data"
  "decodeItems data pos end items = Inr (vs, next) \<Longrightarrow> next = end \<and> pos \<le> end"
proof (induction data offset and data offset and data pos "end" items arbitrary: v "next" and vs "next" and vs "next"
    rule: decodeValue_decodeList_decodeItems.induct)
  case (1 data offset)
  then show ?case
    by (subst (asm) decodeValue.simps)
       (auto split: if_splits sum.splits dest: decodeBytes_bounds)
next
  case (2 data offset)
  then show ?case
    by (subst (asm) decodeList.simps)
       (fastforce split: if_splits sum.splits dest: decodeLength_start)
next
  case (3 data pos "end" items)
  show ?case
  proof (cases "pos < end")
    case True
    then obtain child childNext where d: "decodeValue data pos = Inr (child, childNext)"
      and p: "pos < childNext" "pos < length data"
      and rest: "decodeItems data childNext end (items @ [child]) = Inr (vs, next)"
      using 3(3) by (subst (asm) decodeItems.simps) (auto split: if_splits sum.splits)
    have "next = end \<and> childNext \<le> end"
      using 3(2) [OF True _ d] p rest by auto
    with p show ?thesis by simp
  next
    case False
    with 3(3) show ?thesis by (subst (asm) decodeItems.simps) (auto split: if_splits)
  qed
qed

section \<open>Properties\<close>

text \<open>C28: every value that \<^verbatim>\<open>encodeValue\<close> encodes is what \<^verbatim>\<open>decodeValue\<close> reads back, at
  any position of any input that fits in \<^verbatim>\<open>size_t\<close> and whatever follows it: the decoder
  returns the same value and stops exactly at the end of the encoding.\<close>

theorem rlp_decode_encode:
  assumes "encodeValue v out = Inr data" and "length (data @ post) < 2 ^ 64"
  shows "decodeValue (data @ post) (length out) = Inr (v, length data)"
  using assms decodeValue_enc [of out v post] by (simp add: encodeValue_iff)

lemma encode_example:
  "encodeValue (RList [RBytes [0x63, 0x61, 0x74], RList [], RBytes [0x05]]) [0xFF] =
     Inr [0xFF, 0xC6, 0x83, 0x63, 0x61, 0x74, 0xC0, 0x05]"
  by (simp add: encodeBytes_def encodeLength_def)

theorem rlp_decode_encode_witness:
  "decodeValue ([0xFF, 0xC6, 0x83, 0x63, 0x61, 0x74, 0xC0, 0x05] @ [0x80]) (length [0xFF :: u8]) =
     Inr (RList [RBytes [0x63, 0x61, 0x74], RList [], RBytes [0x05]],
          length [0xFF, 0xC6, 0x83, 0x63, 0x61, 0x74, 0xC0, 0x05 :: u8])"
  by (rule rlp_decode_encode [OF encode_example]) simp

text \<open>the decoder is memory-safe and makes progress: whatever the input, a successful
  \<^verbatim>\<open>decodeValue\<close> or \<^verbatim>\<open>decodeList\<close> ends after its offset and not beyond the input, so the
  recursion over a list terminates and nothing is read past the end.\<close>

theorem rlp_decoder_bounds:
  "(\<forall>v next. decodeValue data offset = Inr (v, next) \<longrightarrow> offset < next \<and> next \<le> length data) \<and>
   (\<forall>vs next. decodeList data offset = Inr (vs, next) \<longrightarrow> offset < next \<and> next \<le> length data)"
  using decode_bounds by blast

theorem rlp_decoder_bounds_witness:
  "1 < (8::nat) \<and> (8::nat) \<le> length [0xFF, 0xC6, 0x83, 0x63, 0x61, 0x74, 0xC0, 0x05 :: u8]"
  by (rule rlp_decoder_bounds [THEN conjunct1, rule_format, where offset = 1 and data =
        "[0xFF, 0xC6, 0x83, 0x63, 0x61, 0x74, 0xC0, 0x05]"
        and v = "RList [RBytes [0x63, 0x61, 0x74], RList [], RBytes [0x05]]"])
     (use decodeValue_enc [of "[0xFF]" "RList [RBytes [0x63, 0x61, 0x74], RList [], RBytes [0x05]]" "[]"]
      in \<open>simp add: enc_bytes_def enc_header_def\<close>)

lemma be_read_le_bytes: "be_read (rev (le_bytes (unat v))) = (v :: u64)"
  by (simp add: be_read_eq be_val_le_bytes)

lemma rev_le_bytes_ok:
  "0 < n \<Longrightarrow> n < 256 ^ k \<Longrightarrow>
   rev (le_bytes n) \<noteq> [] \<and> rev (le_bytes n) ! 0 \<noteq> 0 \<and> length (rev (le_bytes n)) \<le> k"
  by (simp add: rev_le_bytes_hd le_bytes_length [symmetric])

text \<open>unsigned integers round trip: what \<^verbatim>\<open>encodeUInt\<close> writes at the end of a buffer,
  \<^verbatim>\<open>decodeUInt64\<close> reads back, and what \<^verbatim>\<open>encodeUInt256\<close> writes, \<^verbatim>\<open>decodeUInt256\<close> reads back
  into the same 32 bytes; no such encoding has a leading zero byte.\<close>

theorem rlp_uint_roundtrip:
  assumes "length out + 40 < 2 ^ 64" and "length w = 32"
  shows "(\<exists>data. encodeUInt v out = Inr data \<and> decodeUInt64 data (length out) = Inr (v, length data)) \<and>
    (\<exists>data. encodeUInt256 w out = Inr data \<and> decodeUInt256 data (length out) = Inr (w, length data))"
proof (rule conjI)
  have empty: "decodeBytes (out @ [0x80]) (length out) = Inr ([], length out + 1)"
    using decodeBytes_enc [of out "[]" "[]"] assms by (simp add: enc_bytes_def enc_header_def)
  have dec: "decodeBytes (out @ enc_bytes b) (length out) = Inr (b, length out + length (enc_bytes b))"
    if "length b \<le> 32" for b
    using decodeBytes_enc [of out b "[]"] assms that by (simp add: enc_bytes_def enc_header_def)
  show "\<exists>data. encodeUInt v out = Inr data \<and> decodeUInt64 data (length out) = Inr (v, length data)"
  proof (cases "v = 0")
    case True
    then show ?thesis by (simp add: encodeUInt_def decodeUInt64_def empty)
  next
    case False
    let ?b = "rev (le_bytes (unat v))"
    have b: "?b ! 0 \<noteq> 0" "length ?b \<le> 8"
      using rev_le_bytes_ok [of "unat v" 8] False by (simp_all add: unat_gt_0)
    have "encodeUInt v out = Inr (out @ enc_bytes ?b)"
      using False b by (simp add: encodeUInt_def encodeBytes_spec del: le_bytes_length8)
    moreover have "decodeUInt64 (out @ enc_bytes ?b) (length out) =
        Inr (v, length (out @ enc_bytes ?b))"
      using dec [OF order_trans [OF b(2)]] b be_read_le_bytes [of v]
      by (simp add: decodeUInt64_def be_read_def linorder_not_le)
    ultimately show ?thesis by blast
  qed
  let ?z = "takeWhile (\<lambda>b. b = 0) w"
  let ?b = "drop (length ?z) w"
  have zeros: "?z = replicate (length ?z) 0"
    by (rule replicate_length_same [symmetric]) (auto dest: set_takeWhileD)
  have w: "replicate (length ?z) 0 @ ?b = w"
    by (metis zeros takeWhile_dropWhile_id dropWhile_eq_drop)
  show "\<exists>data. encodeUInt256 w out = Inr data \<and> decodeUInt256 data (length out) = Inr (w, length data)"
  proof (cases "length ?z = 32")
    case True
    then have "replicate 32 0 = w" using w assms by simp
    then show ?thesis using True assms by (simp add: encodeUInt256_def decodeUInt256_def empty)
  next
    case False
    then have lt: "length ?z < 32" using length_takeWhile_le [of "\<lambda>b. b = 0" w] assms by simp
    then have hd: "?b ! 0 \<noteq> 0"
      using nth_length_takeWhile [of "\<lambda>b. b = 0" w] assms by simp
    have "encodeUInt256 w out = Inr (out @ enc_bytes ?b)"
      using False assms by (simp add: encodeUInt256_def encodeBytes_spec)
    moreover have "decodeUInt256 (out @ enc_bytes ?b) (length out) = Inr (w, length (out @ enc_bytes ?b))"
      using dec [of ?b] hd lt w assms by (simp add: decodeUInt256_def)
    ultimately show ?thesis by blast
  qed
qed

theorem rlp_uint_roundtrip_witness:
  "\<exists>data. encodeUInt 1024 [] = Inr data \<and> decodeUInt64 data 0 = Inr (1024, length data)"
  using rlp_uint_roundtrip [of "[]" "replicate 32 0" 1024] by simp

text \<open>the length check of \<^verbatim>\<open>decodeBytes\<close> is computed in \<^verbatim>\<open>size_t\<close> and wraps: the nine
  bytes \<^verbatim>\<open>BF FF FF FF FF FF FF FF FF\<close> pass it although the payload is longer than the
  input, and the call ends in \<^verbatim>\<open>std::length_error\<close>, not in the documented
  \<^verbatim>\<open>std::runtime_error\<close>. The decoder also accepts encodings that are not canonical, a
  single byte below \<^verbatim>\<open>0x80\<close> with a length prefix and a long length with a leading zero.\<close>

theorem rlp_decodeBytes_noncanonical:
  "decodeBytes (0xBF # replicate 8 0xFF) 0 = Inl Length_error \<and>
   decodeBytes [0x81, 0x05] 0 = Inr ([0x05], 2) \<and> encodeBytes [0x05] [] = Inr [0x05] \<and>
   decodeBytes ([0xB9, 0x00, 0x38] @ replicate 56 0x61) 0 = Inr (replicate 56 0x61, 59)"
proof (intro conjI)
  have r: "replicate 8 (0xFF :: u8) = [0xFF, 0xFF, 0xFF, 0xFF, 0xFF, 0xFF, 0xFF, 0xFF]" by (simp add: eval_nat_numeral)
  show "decodeBytes (0xBF # replicate 8 0xFF) 0 = Inl Length_error"
    by (simp add: r decodeBytes_def decodeLength_def safeByte_def be_step_eq sz_add_def range_bytes_def)
  show "decodeBytes [0x81, 0x05] 0 = Inr ([0x05], 2)"
    by (simp add: decodeBytes_def decodeLength_def safeByte_def sz_add_def range_bytes_def)
  show "encodeBytes [0x05] [] = Inr [0x05]" by (simp add: encodeBytes_def)
  show "decodeBytes ([0xB9, 0x00, 0x38] @ replicate 56 0x61) 0 = Inr (replicate 56 0x61, 59)"
    by (simp add: decodeBytes_def decodeLength_def safeByte_def be_step_eq sz_add_def range_bytes_def)
qed

end
