(* ===== verification/Pow.thy ===== *)
theory Pow
  imports Block
begin

text \<open>
  Proof of work, \<^verbatim>\<open>include/proof_of_work.h\<close> and \<^verbatim>\<open>src/proof_of_work.cpp\<close>: the canonical
  header, the target test, block validation, the persisted nonce, the single-threaded
  miner as a recursive loop, the multi-threaded miner as a step relation over its workers,
  difficulty adjustment and the counters.

  The clock, the abort flag and the progress callback are inputs: \<open>env_abort i\<close>,
  \<open>env_clock i\<close> are what the loop sees in its \<open>i\<close>-th round, and the callback gets the
  number of hashes and the elapsed milliseconds from which the code computes the rate.
  \<^verbatim>\<open>hashCheckInterval\<close> divides the hash count, so the code needs it to be positive.
  Logging and the text of the metrics (which prints a floating-point rate) are left out.
\<close>

section \<open>Data\<close>

record pow_config =
  cfg_threads :: u32
  cfg_hashCheckInterval :: u64
  cfg_maxNonce :: u64
  cfg_targetBlockTimeSecs :: u64
  cfg_minDifficulty :: u32
  cfg_maxDifficulty :: u32
  cfg_progressThrottleMs :: u64
  cfg_nonceStatePath :: string

record pow_metrics =
  met_hashesComputed :: u64
  met_blocksFound :: u64
  met_valPassed :: u64
  met_valFailed :: u64
  met_diffIncreases :: u64
  met_diffDecreases :: u64

text \<open>
  The object and the file at \<^verbatim>\<open>nonceStatePath\<close>: \<open>None\<close> when it cannot be opened for
  reading; \<open>pow_writable\<close> tells whether opening it for writing succeeds.
\<close>

record pow =
  pow_cfg :: pow_config
  pow_met :: pow_metrics
  pow_file :: "bytes option"
  pow_writable :: bool

record pow_result =
  res_found :: bool
  res_nonce :: u64
  res_hash :: string
  res_hashesComputed :: u64
  res_elapsedMs :: u64

definition default_config :: pow_config where
  "default_config =
     \<lparr>cfg_threads = 0, cfg_hashCheckInterval = 5000, cfg_maxNonce = - 1,
      cfg_targetBlockTimeSecs = 10, cfg_minDifficulty = 1, cfg_maxDifficulty = 256,
      cfg_progressThrottleMs = 500, cfg_nonceStatePath = []\<rparr>"

definition zero_metrics :: pow_metrics where
  "zero_metrics =
     \<lparr>met_hashesComputed = 0, met_blocksFound = 0, met_valPassed = 0, met_valFailed = 0,
      met_diffIncreases = 0, met_diffDecreases = 0\<rparr>"

definition default_result :: pow_result where
  "default_result =
     \<lparr>res_found = False, res_nonce = 0, res_hash = [], res_hashesComputed = 0, res_elapsedMs = 0\<rparr>"

text \<open>The constructor; \<open>hardware\<close> is what \<^verbatim>\<open>hardware_concurrency()\<close> returns.\<close>

definition ProofOfWork :: "u32 \<Rightarrow> pow_config \<Rightarrow> pow_config" where
  "ProofOfWork hardware cfg =
     (let cfg = (if cfg_threads cfg = 0 then cfg\<lparr>cfg_threads := max 1 hardware\<rparr> else cfg);
          cfg = cfg\<lparr>cfg_minDifficulty := max (cfg_minDifficulty cfg) 1\<rparr>
      in cfg\<lparr>cfg_maxDifficulty := max (cfg_maxDifficulty cfg) (cfg_minDifficulty cfg)\<rparr>)"

section \<open>Hashing\<close>

definition HEX :: string where "HEX = ''0123456789abcdef''"

definition digestToHex :: "bytes \<Rightarrow> string" where
  "digestToHex d = concat (map (\<lambda>b. [HEX ! unat (drop_bit 4 b), HEX ! unat (b AND 0x0F)]) d)"

definition pow_writeU64BE :: "bytes \<Rightarrow> u64 \<Rightarrow> bytes" where
  "pow_writeU64BE buf v =
     foldl (\<lambda>buf i. buf @ [ucast (drop_bit (i * 8) v AND 0xFF)]) buf [7, 6, 5, 4, 3, 2, 1, 0]"

definition pow_writeU32BE :: "bytes \<Rightarrow> u32 \<Rightarrow> bytes" where
  "pow_writeU32BE buf v = foldl (\<lambda>buf i. buf @ [ucast (drop_bit (i * 8) v AND 0xFF)]) buf [3, 2, 1, 0]"

definition pow_writeStr :: "bytes \<Rightarrow> string \<Rightarrow> bytes" where
  "pow_writeStr buf s = pow_writeU32BE buf (word_of_nat (length s)) @ str_bytes s"

definition pow_serializeHeader :: "block \<Rightarrow> bytes" where
  "pow_serializeHeader b =
     (let buf = [];
          buf = pow_writeStr buf (blk_previousHash b);
          buf = pow_writeStr buf (blk_data b);
          buf = pow_writeU32BE buf (blk_difficulty b);
          buf = pow_writeStr buf (blk_minerAddress b);
          buf = pow_writeU64BE buf (blk_timestamp b);
          buf = pow_writeU64BE buf (blk_nonce b);
          buf = pow_writeU64BE buf (blk_reward b);
          buf = pow_writeU64BE buf (blk_baseFee b)
      in pow_writeU64BE buf (blk_gasUsed b))"

definition computeHash :: "block \<Rightarrow> string" where
  "computeHash b =
     (let header = pow_serializeHeader b
      in if header = [] then []
         else
           let (ok, digest) = Keccak256 (Some header) (length header)
           in if \<not> ok then [] else digestToHex digest)"

definition hashMeetsTarget :: "string \<Rightarrow> u32 \<Rightarrow> bool" where
  "hashMeetsTarget hash difficulty =
     (if length hash < unat difficulty then False
      else list_all (\<lambda>c. c = CHR ''0'') (take (unat difficulty) hash))"

definition validateHash :: "block \<Rightarrow> bool" where
  "validateHash b =
     (if blk_hash b = [] then False
      else if blk_difficulty b = 0 then False
      else
        let computed = computeHash b
        in if computed = [] \<or> computed \<noteq> blk_hash b then False
           else hashMeetsTarget (blk_hash b) (blk_difficulty b))"

section \<open>Validation against a chain\<close>

text \<open>What \<^verbatim>\<open>validate\<close> asks of the chain: known hashes, its height, its tip.\<close>

record chain_view =
  cv_hasBlock :: "string \<Rightarrow> bool"
  cv_height :: u64
  cv_latest :: "block option"

definition val_failed :: "pow \<Rightarrow> pow" where
  "val_failed p = p\<lparr>pow_met := (pow_met p)\<lparr>met_valFailed := met_valFailed (pow_met p) + 1\<rparr>\<rparr>"

definition val_passed :: "pow \<Rightarrow> pow" where
  "val_passed p = p\<lparr>pow_met := (pow_met p)\<lparr>met_valPassed := met_valPassed (pow_met p) + 1\<rparr>\<rparr>"

definition validate :: "block \<Rightarrow> chain_view \<Rightarrow> pow \<Rightarrow> pow \<times> bool" where
  "validate b chain p =
     (if \<not> validateHash b then (val_failed p, False)
      else if blk_previousHash b \<noteq> [] \<and> blk_previousHash b \<noteq> ''0''
          \<and> \<not> cv_hasBlock chain (blk_previousHash b) then (val_failed p, False)
      else if blk_difficulty b < cfg_minDifficulty (pow_cfg p)
          \<or> blk_difficulty b > cfg_maxDifficulty (pow_cfg p) then (val_failed p, False)
      else if blk_minerAddress b = [] then (val_failed p, False)
      else if blk_gasUsed b > blk_gasLimit b then (val_failed p, False)
      else if cv_height chain > 0
          \<and> (case cv_latest chain of None \<Rightarrow> False | Some tip \<Rightarrow> blk_timestamp b \<le> blk_timestamp tip)
        then (val_failed p, False)
      else (val_passed p, True))"

section \<open>The persisted nonce\<close>

definition saveNonceState :: "u64 \<Rightarrow> pow \<Rightarrow> pow" where
  "saveNonceState nonce p =
     (if cfg_nonceStatePath (pow_cfg p) = [] then p
      else if \<not> pow_writable p then p
      else p\<lparr>pow_file := Some (map (\<lambda>i. ucast (drop_bit (i * 8) nonce AND 0xFF)) [7, 6, 5, 4, 3, 2, 1, 0])\<rparr>)"

fun nonce_bits :: "nat list \<Rightarrow> bytes \<Rightarrow> u64 \<Rightarrow> u64" where
  "nonce_bits [] f nonce = nonce"
| "nonce_bits (i # is) [] nonce = 0"
| "nonce_bits (i # is) (c # f) nonce = nonce_bits is f (nonce OR push_bit (i * 8) (ucast c))"

definition loadNonceState :: "pow \<Rightarrow> u64" where
  "loadNonceState p =
     (if cfg_nonceStatePath (pow_cfg p) = [] then 0
      else case pow_file p of
             None \<Rightarrow> 0
           | Some f \<Rightarrow> nonce_bits [7, 6, 5, 4, 3, 2, 1, 0] f 0)"

section \<open>The single-threaded miner\<close>

record mine_env =
  env_abort :: "nat \<Rightarrow> bool"
  env_clock :: "nat \<Rightarrow> nat"
  env_progress :: "(u64 \<Rightarrow> nat \<Rightarrow> bool) option"

text \<open>The progress check of one round: does it end the loop, and when was the last call.\<close>

definition progress_round ::
    "mine_env \<Rightarrow> pow_config \<Rightarrow> nat \<Rightarrow> u64 \<Rightarrow> nat \<Rightarrow> bool \<times> nat" where
  "progress_round env cfg i hashCount lastProgress =
     (case env_progress env of
        None \<Rightarrow> (False, lastProgress)
      | Some progress \<Rightarrow>
          if hashCount mod cfg_hashCheckInterval cfg \<noteq> 0 then (False, lastProgress)
          else
            let now = env_clock env i
            in if now - lastProgress \<ge> unat (cfg_progressThrottleMs cfg)
               then (\<not> progress hashCount (now - env_clock env 0), now)
               else (False, lastProgress))"

definition count_hash :: "pow \<Rightarrow> pow" where
  "count_hash p = p\<lparr>pow_met := (pow_met p)\<lparr>met_hashesComputed := met_hashesComputed (pow_met p) + 1\<rparr>\<rparr>"

definition count_found :: "pow \<Rightarrow> pow" where
  "count_found p = p\<lparr>pow_met := (pow_met p)\<lparr>met_blocksFound := met_blocksFound (pow_met p) + 1\<rparr>\<rparr>"

text \<open>
  The loop leaves the nonce, the hash count, the block and the object; \<open>Some\<close> result when
  a hash was found. \<^verbatim>\<open>break\<close> and the loop condition leave \<open>None\<close>.
\<close>

function mine_loop ::
    "mine_env \<Rightarrow> nat \<Rightarrow> u64 \<Rightarrow> u64 \<Rightarrow> nat \<Rightarrow> block \<Rightarrow> pow \<Rightarrow>
     pow_result option \<times> u64 \<times> u64 \<times> block \<times> pow" where
  "mine_loop env i nonce hashCount lastProgress b p =
     (if env_abort env i then (None, nonce, hashCount, b, p)
      else
        let b = b\<lparr>blk_nonce := nonce\<rparr>;
            header = pow_serializeHeader b
        in if header = [] then (None, nonce, hashCount, b, p)
           else
             let hash = digestToHex (snd (Keccak256 (Some header) (length header)));
                 hashCount = hashCount + 1;
                 p = count_hash p
             in if hashMeetsTarget hash (blk_difficulty b)
                then
                  (Some \<lparr>res_found = True, res_nonce = nonce, res_hash = hash,
                         res_hashesComputed = hashCount,
                         res_elapsedMs = word_of_nat (env_clock env i - env_clock env 0)\<rparr>,
                   nonce, hashCount, b\<lparr>blk_hash := hash\<rparr>, saveNonceState 0 (count_found p))
                else
                  let nonce = nonce + 1
                  in if nonce \<ge> cfg_maxNonce (pow_cfg p) then (None, nonce, hashCount, b, p)
                     else
                       let (stop, lastProgress) =
                             progress_round env (pow_cfg p) i hashCount lastProgress
                       in if stop then (None, nonce, hashCount, b, p)
                          else
                            let p = (if hashCount mod (cfg_hashCheckInterval (pow_cfg p) * 100) = 0
                                     then saveNonceState nonce p else p)
                            in mine_loop env (Suc i) nonce hashCount lastProgress b p)"
  by pat_completeness auto

text \<open>
  Only the first round can start at or above \<^verbatim>\<open>maxNonce\<close> (a stale persisted nonce); after
  it the nonce climbs to \<^verbatim>\<open>maxNonce\<close>.
\<close>

lemma saveNonceState_cfg [simp]: "pow_cfg (saveNonceState n p) = pow_cfg p"
  by (simp add: saveNonceState_def)

lemma count_hash_cfg [simp]: "pow_cfg (count_hash p) = pow_cfg p"
  by (simp add: count_hash_def)

lemma count_found_cfg [simp]: "pow_cfg (count_found p) = pow_cfg p"
  by (simp add: count_found_def)

definition nonce_left :: "u64 \<Rightarrow> u64 \<Rightarrow> nat" where
  "nonce_left maxNonce nonce = (if nonce < maxNonce then unat maxNonce - unat nonce else 2 ^ 64)"

lemma nonce_left_step: "\<not> nonce + 1 \<ge> maxNonce \<Longrightarrow> nonce_left maxNonce (nonce + 1) < nonce_left maxNonce nonce"
proof -
  assume "\<not> nonce + 1 \<ge> maxNonce"
  then have lt: "nonce + 1 < maxNonce" by simp
  show ?thesis
  proof (cases "nonce < maxNonce")
    case True
    then have "unat (nonce + 1) = unat nonce + 1" by (rule unat_u64_Suc)
    with True lt show ?thesis by (simp add: nonce_left_def word_less_nat_alt)
  next
    case False
    then show ?thesis using lt unat_u64_less [of maxNonce]
      by (simp add: nonce_left_def less_imp_diff_less del: unat_u64_less)
  qed
qed

termination mine_loop
  by (relation "measure (\<lambda>(env, i, nonce, hc, lp, b, p). nonce_left (cfg_maxNonce (pow_cfg p)) nonce)")
     (auto intro!: nonce_left_step)

declare mine_loop.simps [simp del]

definition mine :: "mine_env \<Rightarrow> block \<Rightarrow> pow \<Rightarrow> pow_result \<times> block \<times> pow" where
  "mine env b p =
     (case mine_loop env 0 (loadNonceState p) 0 (env_clock env 0) b p of
        (Some r, nonce, hashCount, b, p) \<Rightarrow> (r, b, p)
      | (None, nonce, hashCount, b, p) \<Rightarrow>
          (default_result\<lparr>res_hashesComputed := hashCount\<rparr>, b, saveNonceState nonce p))"

section \<open>Difficulty\<close>

text \<open>\<^verbatim>\<open>std::clamp\<close>\<close>

definition clamp :: "u32 \<Rightarrow> u32 \<Rightarrow> u32 \<Rightarrow> u32" where
  "clamp x lo hi = (if x < lo then lo else if hi < x then hi else x)"

definition adjustDifficulty :: "u32 \<Rightarrow> u64 \<Rightarrow> pow \<Rightarrow> u32 \<times> pow" where
  "adjustDifficulty current actual p =
     (let cfg = pow_cfg p; target = cfg_targetBlockTimeSecs cfg
      in if target = 0 then (current, p)
         else
           let (nxt, p) =
             (if actual = 0 \<or> actual < target div 2
              then
                let inc = max 1 (current div 10)
                in (if current + inc > cfg_maxDifficulty cfg then cfg_maxDifficulty cfg else current + inc,
                    p\<lparr>pow_met := (pow_met p)\<lparr>met_diffIncreases := met_diffIncreases (pow_met p) + 1\<rparr>\<rparr>)
              else if actual > target * 2
              then
                let dec = max 1 (current div 10)
                in (if current \<le> cfg_minDifficulty cfg + dec then cfg_minDifficulty cfg else current - dec,
                    p\<lparr>pow_met := (pow_met p)\<lparr>met_diffDecreases := met_diffDecreases (pow_met p) + 1\<rparr>\<rparr>)
              else (current, p))
           in (clamp nxt (cfg_minDifficulty cfg) (cfg_maxDifficulty cfg), p))"

section \<open>Counters\<close>

definition getMetrics :: "pow \<Rightarrow> pow_metrics" where
  "getMetrics p = pow_met p"

definition resetMetrics :: "pow \<Rightarrow> pow" where
  "resetMetrics p = p\<lparr>pow_met := zero_metrics\<rparr>"

section \<open>The parallel miner\<close>

text \<open>The nonce range of worker \<open>t\<close>, computed in 128 bits.\<close>

definition nonce_range :: "pow_config \<Rightarrow> nat \<Rightarrow> u64 \<times> u64" where
  "nonce_range cfg t =
     (let total = unat (cfg_maxNonce cfg);
          n = unat (cfg_threads cfg);
          rng = total div n
      in (word_of_nat (t * rng),
          if t = n - 1 then cfg_maxNonce cfg else word_of_nat ((t + 1) * rng)))"

definition preNonce :: "block \<Rightarrow> bytes" where
  "preNonce b =
     pow_writeU64BE
       (pow_writeStr
         (pow_writeU32BE (pow_writeStr (pow_writeStr [] (blk_previousHash b)) (blk_data b)) (blk_difficulty b))
         (blk_minerAddress b))
       (blk_timestamp b)"

definition postNonce :: "block \<Rightarrow> bytes" where
  "postNonce b =
     pow_writeU64BE (pow_writeU64BE (pow_writeU64BE [] (blk_reward b)) (blk_baseFee b)) (blk_gasUsed b)"

definition hash_at :: "block \<Rightarrow> u64 \<Rightarrow> string" where
  "hash_at b nonce =
     (let buf = preNonce b;
          buf = foldl (\<lambda>buf i. buf @ [ucast (drop_bit (i * 8) nonce AND 0xFF)]) buf [7, 6, 5, 4, 3, 2, 1, 0];
          buf = buf @ postNonce b
      in digestToHex (snd (Keccak256 (Some buf) (length buf))))"

text \<open>
  A worker is at the head of its loop, between a hit and its compare-and-exchange, between
  that and the publication of nonce and hash, or has returned. The shared atomics are
  \<^verbatim>\<open>found\<close>, \<^verbatim>\<open>foundNonce\<close>, \<^verbatim>\<open>totalHashes\<close>; \<^verbatim>\<open>foundHash\<close> is under its mutex.
\<close>

datatype worker =
    Looping (w_nonce: u64) (w_hashes: u64)
  | Claiming u64 string u64
  | is_Publishing: Publishing u64 string u64
  | Returned

record par =
  par_workers :: "worker list"
  par_found :: bool
  par_foundNonce :: u64
  par_foundHash :: string
  par_totalHashes :: u64
  par_hashesComputed :: u64

definition par_init :: "pow_config \<Rightarrow> par" where
  "par_init cfg =
     \<lparr>par_workers = map (\<lambda>t. Looping (fst (nonce_range cfg t)) 0) [0..<unat (cfg_threads cfg)],
      par_found = False, par_foundNonce = 0, par_foundHash = [], par_totalHashes = 0,
      par_hashesComputed = 0\<rparr>"

text \<open>
  One atomic action of worker \<open>t\<close>. The flags \<open>aborts\<close> and \<open>cancels\<close> say whether the
  abort flag may be seen set and whether the progress callback (which only worker 0 calls)
  may return false.
\<close>

inductive par_step :: "pow_config \<Rightarrow> block \<Rightarrow> bool \<Rightarrow> bool \<Rightarrow> par \<Rightarrow> par \<Rightarrow> bool"
  for cfg :: pow_config and b :: block and aborts :: bool and cancels :: bool
where
  range_done: "t < length (par_workers s) \<Longrightarrow> par_workers s ! t = Looping n l \<Longrightarrow>
    \<not> n < snd (nonce_range cfg t) \<Longrightarrow>
    par_step cfg b aborts cancels s
      (s\<lparr>par_workers := (par_workers s)[t := Returned], par_totalHashes := par_totalHashes s + l\<rparr>)"
| sees_abort: "t < length (par_workers s) \<Longrightarrow> par_workers s ! t = Looping n l \<Longrightarrow>
    n < snd (nonce_range cfg t) \<Longrightarrow> aborts \<Longrightarrow>
    par_step cfg b aborts cancels s (s\<lparr>par_workers := (par_workers s)[t := Returned]\<rparr>)"
| sees_found: "t < length (par_workers s) \<Longrightarrow> par_workers s ! t = Looping n l \<Longrightarrow>
    n < snd (nonce_range cfg t) \<Longrightarrow> par_found s \<Longrightarrow>
    par_step cfg b aborts cancels s (s\<lparr>par_workers := (par_workers s)[t := Returned]\<rparr>)"
| miss: "t < length (par_workers s) \<Longrightarrow> par_workers s ! t = Looping n l \<Longrightarrow>
    n < snd (nonce_range cfg t) \<Longrightarrow> \<not> par_found s \<Longrightarrow>
    \<not> hashMeetsTarget (hash_at b n) (blk_difficulty b) \<Longrightarrow>
    par_step cfg b aborts cancels s
      (s\<lparr>par_workers := (par_workers s)[t := Looping (n + 1) (l + 1)],
         par_hashesComputed := par_hashesComputed s + 1\<rparr>)"
| cancelled: "t < length (par_workers s) \<Longrightarrow> par_workers s ! t = Looping n l \<Longrightarrow>
    n < snd (nonce_range cfg t) \<Longrightarrow> \<not> par_found s \<Longrightarrow>
    \<not> hashMeetsTarget (hash_at b n) (blk_difficulty b) \<Longrightarrow>
    t = 0 \<Longrightarrow> cancels \<Longrightarrow> (l + 1) mod cfg_hashCheckInterval cfg = 0 \<Longrightarrow>
    par_step cfg b aborts cancels s
      (s\<lparr>par_workers := (par_workers s)[t := Returned], par_found := True,
         par_totalHashes := par_totalHashes s + (l + 1),
         par_hashesComputed := par_hashesComputed s + 1\<rparr>)"
| hit: "t < length (par_workers s) \<Longrightarrow> par_workers s ! t = Looping n l \<Longrightarrow>
    n < snd (nonce_range cfg t) \<Longrightarrow> \<not> par_found s \<Longrightarrow>
    hashMeetsTarget (hash_at b n) (blk_difficulty b) \<Longrightarrow>
    par_step cfg b aborts cancels s
      (s\<lparr>par_workers := (par_workers s)[t := Claiming n (hash_at b n) (l + 1)],
         par_hashesComputed := par_hashesComputed s + 1\<rparr>)"
| claim_won: "t < length (par_workers s) \<Longrightarrow> par_workers s ! t = Claiming n h l \<Longrightarrow>
    \<not> par_found s \<Longrightarrow>
    par_step cfg b aborts cancels s
      (s\<lparr>par_workers := (par_workers s)[t := Publishing n h l], par_found := True\<rparr>)"
| claim_lost: "t < length (par_workers s) \<Longrightarrow> par_workers s ! t = Claiming n h l \<Longrightarrow>
    par_found s \<Longrightarrow>
    par_step cfg b aborts cancels s
      (s\<lparr>par_workers := (par_workers s)[t := Returned], par_totalHashes := par_totalHashes s + l\<rparr>)"
| publish: "t < length (par_workers s) \<Longrightarrow> par_workers s ! t = Publishing n h l \<Longrightarrow>
    par_step cfg b aborts cancels s
      (s\<lparr>par_workers := (par_workers s)[t := Returned], par_foundNonce := n, par_foundHash := h,
         par_totalHashes := par_totalHashes s + l\<rparr>)"

inductive par_reach :: "pow_config \<Rightarrow> block \<Rightarrow> bool \<Rightarrow> bool \<Rightarrow> par \<Rightarrow> bool"
  for cfg :: pow_config and b :: block and aborts :: bool and cancels :: bool
where
  par_start: "par_reach cfg b aborts cancels (par_init cfg)"
| par_next: "par_reach cfg b aborts cancels s \<Longrightarrow> par_step cfg b aborts cancels s s' \<Longrightarrow>
    par_reach cfg b aborts cancels s'"

inductive_cases par_stepE: "par_step cfg b aborts cancels s s'"

text \<open>All workers joined, and what \<^verbatim>\<open>mineParallel\<close> does then.\<close>

definition par_joined :: "par \<Rightarrow> bool" where
  "par_joined s \<longleftrightarrow> list_all (\<lambda>w. w = Returned) (par_workers s)"

definition mineParallel_end :: "nat \<Rightarrow> par \<Rightarrow> block \<Rightarrow> pow \<Rightarrow> pow_result \<times> block \<times> pow" where
  "mineParallel_end elapsed s b p =
     (let p = p\<lparr>pow_met := (pow_met p)\<lparr>met_hashesComputed := met_hashesComputed (pow_met p) + par_hashesComputed s\<rparr>\<rparr>;
          result = default_result\<lparr>res_hashesComputed := par_totalHashes s, res_elapsedMs := word_of_nat elapsed\<rparr>
      in if par_found s
         then
           (if par_foundHash s \<noteq> []
            then (result\<lparr>res_found := True, res_nonce := par_foundNonce s, res_hash := par_foundHash s\<rparr>,
                  b\<lparr>blk_nonce := par_foundNonce s, blk_hash := par_foundHash s\<rparr>,
                  saveNonceState 0 (count_found p))
            else (result, b, p))
         else (result, b, saveNonceState (par_foundNonce s) p))"

section \<open>Lemmas: hashing\<close>

lemma HEX_nth: "i < 16 \<Longrightarrow> HEX ! i = digit_char i"
  by (simp add: HEX_def numeral_eq_Suc less_Suc_eq) (auto simp: digit_char_def char_of_def bit_iff_odd)

lemma digestToHex_hex_bytes: "digestToHex d = hex_bytes d"
proof -
  have "[HEX ! unat (drop_bit 4 b), HEX ! unat (b AND 0x0F)] = hex_byte b" for b :: u8
  proof -
    have "unat (drop_bit 4 b) = unat b div 16"
      by (simp add: drop_bit_eq_div unat_div_distrib)
    moreover have "unat (b AND 0x0F) = unat b mod 16"
    proof -
      have m: "(0x0F :: u8) = mask 4" by (simp add: mask_eq_exp_minus_1)
      show ?thesis unfolding m
        by (simp add: take_bit_eq_mask [symmetric] take_bit_eq_mod unat_mod_distrib del: mask_numeral)
    qed
    moreover have "unat b div 16 < 16" using unat_u8_less [of b] by linarith
    ultimately show ?thesis by (simp add: HEX_nth hex_byte_def)
  qed
  then show ?thesis by (simp add: digestToHex_def hex_bytes_def)
qed

lemma pow_writers:
  "pow_writeU64BE buf v = buf @ be_write 8 v" "pow_writeU32BE buf w = buf @ be_write 4 w"
  "pow_writeStr buf s = buf @ be_str s"
  using writeU64BE_eq [of buf v] writeU32BE_eq [of buf w] writeU32BE_eq [of buf "word_of_nat (length s)"]
  by (simp_all add: pow_writeU64BE_def writeU64BE_def pow_writeU32BE_def writeU32BE_def pow_writeStr_def
      be_str_def)

lemma pow_serializeHeader_eq: "pow_serializeHeader b = serializeHeader b"
  by (simp add: pow_serializeHeader_def pow_writers serializeHeader_eq)

lemma header_not_Nil [simp]: "pow_serializeHeader b \<noteq> []"
proof -
  have "0 < length (serializeHeader b)" by (simp add: serializeHeader_eq)
  then show ?thesis by (simp add: pow_serializeHeader_eq)
qed

lemma computeHash_eq: "computeHash b = hex_bytes (keccak256Core (serializeHeader b))"
  using header_not_Nil [of b]
  by (simp add: computeHash_def Keccak256_Some digestToHex_hex_bytes pow_serializeHeader_eq Let_def)

lemma length_computeHash [simp]: "length (computeHash b) = 64"
  by (simp add: computeHash_eq)

lemma computeHash_not_Nil [simp]: "computeHash b \<noteq> []"
  using length_computeHash [of b] by (metis length_0_conv zero_neq_numeral)

lemma computeHash_hash_irrelevant [simp]: "computeHash (b\<lparr>blk_hash := h\<rparr>) = computeHash b"
  by (simp add: computeHash_eq serializeHeader_eq)

lemma hash_at_eq: "hash_at b n = computeHash (b\<lparr>blk_nonce := n\<rparr>)"
proof -
  have "foldl (\<lambda>buf i. buf @ [ucast (drop_bit (i * 8) n AND 0xFF)]) buf [7, 6, 5, 4, 3, 2, 1, 0] =
      buf @ be_write 8 n" for buf
    using writeU64BE_eq [of buf n] by (simp add: writeU64BE_def)
  then show ?thesis
    by (simp add: hash_at_def computeHash_eq Keccak256_Some digestToHex_hex_bytes preNonce_def postNonce_def
        pow_writers serializeHeader_eq)
qed

lemma hash_at_nonce [simp]: "hash_at (b\<lparr>blk_nonce := m\<rparr>) n = hash_at b n"
  by (simp add: hash_at_eq)

section \<open>Lemmas: the single-threaded miner\<close>

text \<open>The nonce \<open>n\<close> solves the block.\<close>

definition solves :: "block \<Rightarrow> u64 \<Rightarrow> bool" where
  "solves b n \<longleftrightarrow> hashMeetsTarget (hash_at b n) (blk_difficulty b)"

definition solved_block :: "block \<Rightarrow> u64 \<Rightarrow> block" where
  "solved_block b n = b\<lparr>blk_nonce := n, blk_hash := hash_at b n\<rparr>"

lemma solved_block_valid:
  "solves b n \<Longrightarrow> blk_difficulty b \<noteq> 0 \<Longrightarrow> validateHash (solved_block b n)"
  by (simp add: solves_def solved_block_def validateHash_def hash_at_eq)

lemma solves_nonce [simp]: "solves (b\<lparr>blk_nonce := m\<rparr>) n = solves b n"
  by (simp add: solves_def)

lemma solved_block_nonce [simp]: "solved_block (b\<lparr>blk_nonce := m\<rparr>) n = solved_block b n"
  by (simp add: solved_block_def)

lemma round_hash:
  "digestToHex (snd (Keccak256 (Some (pow_serializeHeader (b\<lparr>blk_nonce := n\<rparr>)))
     (length (pow_serializeHeader (b\<lparr>blk_nonce := n\<rparr>))))) = hash_at b n"
  by (simp add: hash_at_eq computeHash_eq Keccak256_Some digestToHex_hex_bytes pow_serializeHeader_eq)

text \<open>One round of the loop.\<close>

lemma mine_loop_unfold:
  "mine_loop env i nonce hc lp b p =
     (if env_abort env i then (None, nonce, hc, b, p)
      else if solves b nonce
      then (Some \<lparr>res_found = True, res_nonce = nonce, res_hash = hash_at b nonce,
                  res_hashesComputed = hc + 1,
                  res_elapsedMs = word_of_nat (env_clock env i - env_clock env 0)\<rparr>,
            nonce, hc + 1, solved_block b nonce, saveNonceState 0 (count_found (count_hash p)))
      else if nonce + 1 \<ge> cfg_maxNonce (pow_cfg p)
      then (None, nonce + 1, hc + 1, b\<lparr>blk_nonce := nonce\<rparr>, count_hash p)
      else (let (stop, lp') = progress_round env (pow_cfg p) i (hc + 1) lp
            in if stop then (None, nonce + 1, hc + 1, b\<lparr>blk_nonce := nonce\<rparr>, count_hash p)
               else mine_loop env (Suc i) (nonce + 1) (hc + 1) lp' (b\<lparr>blk_nonce := nonce\<rparr>)
                      (if (hc + 1) mod (cfg_hashCheckInterval (pow_cfg p) * 100) = 0
                       then saveNonceState (nonce + 1) (count_hash p) else count_hash p)))"
  by (subst mine_loop.simps)
     (simp add: round_hash solves_def solved_block_def Let_def split: prod.splits)

text \<open>Induction over the rounds: each goes from a nonce to its successor below the maximum.\<close>

lemma mine_induct:
  assumes "\<And>i nonce hc lp b p.
      (\<And>i' hc' lp' b' p'. pow_cfg p' = pow_cfg p \<Longrightarrow> \<not> nonce + 1 \<ge> cfg_maxNonce (pow_cfg p) \<Longrightarrow>
         P i' (nonce + 1) hc' lp' b' p') \<Longrightarrow>
      P i nonce hc lp b p"
  shows "P i nonce hc lp b p"
proof (induction "nonce_left (cfg_maxNonce (pow_cfg p)) nonce" arbitrary: i nonce hc lp b p rule: less_induct)
  case less
  show ?case
    by (rule assms) (rule less, simp add: nonce_left_step)
qed

lemma mine_loop_cases:
  obtains (aborted) "env_abort env i" "mine_loop env i nonce hc lp b p = (None, nonce, hc, b, p)"
  | (solved) r p' where "solves b nonce" "res_found r" "res_nonce r = nonce" "res_hash r = hash_at b nonce"
      "pow_cfg p' = pow_cfg p"
      "mine_loop env i nonce hc lp b p =
        (Some r, nonce, hc + 1, solved_block b nonce, saveNonceState 0 p')"
  | (exhausted) "\<not> solves b nonce" "nonce + 1 \<ge> cfg_maxNonce (pow_cfg p)"
      "mine_loop env i nonce hc lp b p =
        (None, nonce + 1, hc + 1, b\<lparr>blk_nonce := nonce\<rparr>, count_hash p)"
  | (stopped) "\<not> solves b nonce" "env_progress env \<noteq> None"
      "mine_loop env i nonce hc lp b p =
        (None, nonce + 1, hc + 1, b\<lparr>blk_nonce := nonce\<rparr>, count_hash p)"
  | (again) lp' p' where "\<not> solves b nonce" "\<not> nonce + 1 \<ge> cfg_maxNonce (pow_cfg p)" "pow_cfg p' = pow_cfg p"
      "mine_loop env i nonce hc lp b p =
        mine_loop env (Suc i) (nonce + 1) (hc + 1) lp' (b\<lparr>blk_nonce := nonce\<rparr>) p'"
proof (cases "env_abort env i")
  case True
  then show thesis using aborted mine_loop_unfold [of env i] by simp
next
  case na: False
  show thesis
  proof (cases "solves b nonce")
    case True
    then show thesis
      using na solved [of "\<lparr>res_found = True, res_nonce = nonce, res_hash = hash_at b nonce,
                  res_hashesComputed = hc + 1,
                  res_elapsedMs = word_of_nat (env_clock env i - env_clock env 0)\<rparr>" "count_found (count_hash p)"]
      by (simp add: mine_loop_unfold [of env i])
  next
    case ns: False
    show thesis
    proof (cases "nonce + 1 \<ge> cfg_maxNonce (pow_cfg p)")
      case True
      then show thesis using na ns exhausted by (simp add: mine_loop_unfold [of env i])
    next
      case nm: False
      obtain stop lp' where pr: "progress_round env (pow_cfg p) i (hc + 1) lp = (stop, lp')"
        by (cases "progress_round env (pow_cfg p) i (hc + 1) lp")
      show thesis
      proof (cases stop)
        case True
        then have "env_progress env \<noteq> None" using pr by (auto simp: progress_round_def split: option.splits)
        then show thesis using na ns nm pr True stopped by (simp add: mine_loop_unfold [of env i])
      next
        case False
        show thesis
          by (rule again [OF ns nm, of "if (hc + 1) mod (cfg_hashCheckInterval (pow_cfg p) * 100) = 0
                       then saveNonceState (nonce + 1) (count_hash p) else count_hash p" lp'])
             (use na ns nm pr False in \<open>simp_all add: mine_loop_unfold [of env i]\<close>)
      qed
    qed
  qed
qed

lemma nonce_split: "(nonce :: u64) \<le> m \<Longrightarrow> m = nonce \<or> nonce + 1 \<le> m"
  using inc_le [of nonce m] by (auto simp: order_le_less)

lemma mine_loop_found:
  "mine_loop env i nonce hc lp b p = (Some r, n', hc', b', p') \<Longrightarrow>
   res_found r \<and> solves b (res_nonce r) \<and> res_hash r = hash_at b (res_nonce r) \<and>
   b' = solved_block b (res_nonce r) \<and> (\<exists>q. p' = saveNonceState 0 q \<and> pow_cfg q = pow_cfg p) \<and>
   (\<forall>m. nonce \<le> m \<longrightarrow> m < res_nonce r \<longrightarrow> \<not> solves b m)"
proof (induction i nonce hc lp b p rule: mine_induct)
  case (1 i nonce hc lp b p)
  show ?case
  proof (cases rule: mine_loop_cases [of env i nonce hc lp b p])
    case (again lp' q)
    have "mine_loop env (Suc i) (nonce + 1) (hc + 1) lp' (b\<lparr>blk_nonce := nonce\<rparr>) q =
        (Some r, n', hc', b', p')"
      using 1(2) again(4) by simp
    note IH = 1(1) [OF again(3,2) this]
    have "\<not> solves b m" if "nonce \<le> m" "m < res_nonce r" for m
      using nonce_split [OF that(1)] that(2) IH again(1) by auto
    with IH again(3) show ?thesis by simp
  qed (use 1(2) in auto)
qed

lemma mine_loop_None:
  "mine_loop env i nonce hc lp b p = (None, n', hc', b', p') \<Longrightarrow>
   (\<exists>m. b' = b\<lparr>blk_nonce := m\<rparr>) \<and>
   ((\<forall>j. \<not> env_abort env j) \<longrightarrow> env_progress env = None \<longrightarrow>
    (\<forall>m. nonce \<le> m \<longrightarrow> m < cfg_maxNonce (pow_cfg p) \<longrightarrow> \<not> solves b m))"
proof (induction i nonce hc lp b p rule: mine_induct)
  case (1 i nonce hc lp b p)
  show ?case
  proof (cases rule: mine_loop_cases [of env i nonce hc lp b p])
    case aborted
    then have "b' = b\<lparr>blk_nonce := blk_nonce b\<rparr>" using 1(2) by simp
    with aborted show ?thesis by blast
  next
    case exhausted
    have "m = nonce" if "nonce \<le> m" "m < cfg_maxNonce (pow_cfg p)" for m
      using nonce_split [OF that(1)] that(2) exhausted(2) by auto
    with exhausted 1(2) show ?thesis by auto
  next
    case (again lp' q)
    have "mine_loop env (Suc i) (nonce + 1) (hc + 1) lp' (b\<lparr>blk_nonce := nonce\<rparr>) q =
        (None, n', hc', b', p')"
      using 1(2) again(4) by simp
    note IH = 1(1) [OF again(3,2) this]
    have "\<not> solves b m" if "\<forall>j. \<not> env_abort env j" "env_progress env = None"
        "nonce \<le> m" "m < cfg_maxNonce (pow_cfg p)" for m
      using nonce_split [OF that(3)] that IH again(1,3) by auto
    with IH show ?thesis by simp
  qed (use 1(2) in auto)
qed

lemma nonce_file_bytes:
  "map (\<lambda>i. ucast (drop_bit (i * 8) nonce AND 0xFF)) [7, 6, 5, 4, 3, 2, 1, 0] = be_write 8 (nonce :: u64)"
  by (simp add: be_write_def upt_rec ucast_and_FF mult.commute)

lemma nonce_bits_write: "nonce_bits [7, 6, 5, 4, 3, 2, 1, 0] (be_write 8 n) 0 = n"
proof -
  have w: "be_write 8 n = map (\<lambda>i. ucast (drop_bit (8 * i) n)) [7, 6, 5, 4, 3, 2, 1, 0]"
    by (simp add: be_write_def upt_rec)
  have "be_read (be_write 8 n) = n" by simp
  then show ?thesis
    unfolding w be_read_def be_step_def
    by (simp add: push_bit_or or.assoc or.commute or.left_commute)
qed

lemma load_save_nonce:
  "cfg_nonceStatePath (pow_cfg p) \<noteq> [] \<Longrightarrow> pow_writable p \<Longrightarrow> loadNonceState (saveNonceState n p) = n"
  unfolding saveNonceState_def loadNonceState_def nonce_file_bytes
  using nonce_bits_write [of n] by (simp del: nonce_bits.simps)

section \<open>Lemmas: the parallel miner\<close>

text \<open>The ranges of the workers cover every nonce below the maximum and nothing above it.\<close>

lemma nonce_range_bounds:
  assumes "t < unat (cfg_threads cfg)"
  shows "unat (fst (nonce_range cfg t)) = t * (unat (cfg_maxNonce cfg) div unat (cfg_threads cfg))"
    "unat (snd (nonce_range cfg t)) =
      (if t = unat (cfg_threads cfg) - 1 then unat (cfg_maxNonce cfg)
       else (t + 1) * (unat (cfg_maxNonce cfg) div unat (cfg_threads cfg)))"
    "snd (nonce_range cfg t) \<le> cfg_maxNonce cfg"
proof -
  let ?M = "unat (cfg_maxNonce cfg)" and ?N = "unat (cfg_threads cfg)"
  have le: "k * (?M div ?N) \<le> ?M" if "k \<le> ?N" for k
    using mult_le_mono1 [OF that, of "?M div ?N"] times_div_less_eq_dividend [of ?N ?M] by linarith
  then have u: "unat (word_of_nat (k * (?M div ?N)) :: u64) = k * (?M div ?N)" if "k \<le> ?N" for k
    unfolding unat_of_nat using le_less_trans [OF le [OF that] unat_u64_less [of "cfg_maxNonce cfg"]] by simp
  show 1: "unat (fst (nonce_range cfg t)) = t * (?M div ?N)"
    using assms u [of t] by (simp add: nonce_range_def Let_def)
  show 2: "unat (snd (nonce_range cfg t)) = (if t = ?N - 1 then ?M else (t + 1) * (?M div ?N))"
    using assms u [of "t + 1"] by (simp add: nonce_range_def Let_def)
  show "snd (nonce_range cfg t) \<le> cfg_maxNonce cfg"
    using 2 le [of "t + 1"] assms by (simp add: word_le_nat_alt split: if_splits)
qed

lemma nonce_ranges_cover:
  assumes "cfg_threads cfg \<noteq> 0" and "m < cfg_maxNonce cfg"
  shows "\<exists>t<unat (cfg_threads cfg). fst (nonce_range cfg t) \<le> m \<and> m < snd (nonce_range cfg t)"
proof -
  let ?M = "unat (cfg_maxNonce cfg)" and ?N = "unat (cfg_threads cfg)"
  let ?r = "?M div ?N"
  have N: "0 < ?N" using assms(1) by (simp add: unat_gt_0)
  have m: "unat m < ?M" using assms(2) by (simp add: word_less_nat_alt)
  show ?thesis
  proof (cases "unat m < (?N - 1) * ?r")
    case True
    then have r: "0 < ?r" by (cases "?r = 0") auto
    define t where "t = unat m div ?r"
    have t: "t < ?N - 1" using True r by (simp add: t_def div_less_iff_less_mult)
    have "t * ?r \<le> unat m" by (simp add: t_def)
    moreover have "unat m < (t + 1) * ?r"
      using r dividend_less_div_times [of ?r "unat m"] by (simp add: t_def)
    ultimately show ?thesis
      using t nonce_range_bounds [of t cfg] by (intro exI [of _ t]) (simp add: word_le_nat_alt word_less_nat_alt)
  next
    case False
    then show ?thesis
      using N m nonce_range_bounds [of "?N - 1" cfg]
      by (intro exI [of _ "?N - 1"]) (simp add: word_le_nat_alt word_less_nat_alt)
  qed
qed

text \<open>The invariant of every interleaving. \<open>complete\<close>: no abort and no cancellation.\<close>

definition good_solution :: "pow_config \<Rightarrow> block \<Rightarrow> u64 \<Rightarrow> string \<Rightarrow> bool" where
  "good_solution cfg b n h \<longleftrightarrow> h = hash_at b n \<and> solves b n \<and> n < cfg_maxNonce cfg"

fun worker_ok :: "pow_config \<Rightarrow> block \<Rightarrow> bool \<Rightarrow> bool \<Rightarrow> nat \<Rightarrow> worker \<Rightarrow> bool" where
  "worker_ok cfg b complete found t (Looping n l) \<longleftrightarrow>
     (complete \<and> \<not> found \<longrightarrow> (\<forall>m. fst (nonce_range cfg t) \<le> m \<longrightarrow> m < n \<longrightarrow> \<not> solves b m))"
| "worker_ok cfg b complete found t (Claiming n h l) \<longleftrightarrow> good_solution cfg b n h"
| "worker_ok cfg b complete found t (Publishing n h l) \<longleftrightarrow> good_solution cfg b n h \<and> found"
| "worker_ok cfg b complete found t Returned \<longleftrightarrow>
     (complete \<and> \<not> found \<longrightarrow>
       (\<forall>m. fst (nonce_range cfg t) \<le> m \<longrightarrow> m < snd (nonce_range cfg t) \<longrightarrow> \<not> solves b m))"

definition has_publisher :: "worker list \<Rightarrow> bool" where
  "has_publisher ws \<longleftrightarrow> (\<exists>t<length ws. is_Publishing (ws ! t))"

lemma has_publisher_update:
  assumes "t < length ws" "\<not> is_Publishing (ws ! t)"
  shows "has_publisher (ws[t := w]) \<longleftrightarrow> is_Publishing w \<or> has_publisher ws"
proof
  assume "is_Publishing w \<or> has_publisher ws"
  then show "has_publisher (ws[t := w])"
    using assms unfolding has_publisher_def by (metis length_list_update nth_list_update)
qed (use assms in \<open>auto simp: has_publisher_def nth_list_update split: if_splits\<close>)

definition par_inv :: "pow_config \<Rightarrow> block \<Rightarrow> bool \<Rightarrow> bool \<Rightarrow> par \<Rightarrow> bool" where
  "par_inv cfg b aborts cancels s \<longleftrightarrow>
     length (par_workers s) = unat (cfg_threads cfg) \<and>
     (\<forall>t<length (par_workers s).
        worker_ok cfg b (\<not> aborts \<and> \<not> cancels) (par_found s) t (par_workers s ! t)) \<and>
     (par_foundHash s \<noteq> [] \<longrightarrow>
        good_solution cfg b (par_foundNonce s) (par_foundHash s) \<and> par_found s) \<and>
     (\<not> cancels \<longrightarrow> par_found s \<longrightarrow>
        par_foundHash s \<noteq> [] \<or> has_publisher (par_workers s))"

lemma par_init_inv: "par_inv cfg b aborts cancels (par_init cfg)"
  by (simp add: par_inv_def par_init_def linorder_not_less [symmetric])

lemma worker_ok_found: "worker_ok cfg b c found t w \<Longrightarrow> worker_ok cfg b c True t w"
  by (cases w) simp_all

lemma below_succ: "(m :: u64) < n + 1 \<Longrightarrow> m \<le> n"
  using inc_le [of n m] by (meson leD leI)

lemma hash_at_not_Nil [simp]: "hash_at b n \<noteq> []"
  by (simp add: hash_at_eq)

lemma par_step_inv:
  assumes "par_step cfg b aborts cancels s s'" and "par_inv cfg b aborts cancels s"
  shows "par_inv cfg b aborts cancels s'"
proof -
  note I = assms(2) [unfolded par_inv_def]
  have w: "worker_ok cfg b (\<not> aborts \<and> \<not> cancels) (par_found s) t (par_workers s ! t)"
    if "t < length (par_workers s)" for t using I that by blast
  have w': "worker_ok cfg b (\<not> aborts \<and> \<not> cancels) True t (par_workers s ! t)"
    if "t < length (par_workers s)" for t using w [OF that] by (rule worker_ok_found)
  have lt: "n < cfg_maxNonce cfg" if "n < snd (nonce_range cfg t)" "t < length (par_workers s)" for n t
    using that nonce_range_bounds(3) [of t cfg] I by auto
  show ?thesis using assms(1)
  proof cases
    case (range_done t n l)
    then show ?thesis using I w [of t]
      by (auto simp: par_inv_def nth_list_update has_publisher_update linorder_not_less dest: order.strict_trans2)
  next
    case (sees_abort t n l)
    then show ?thesis using I
      by (auto simp: par_inv_def nth_list_update has_publisher_update)
  next
    case (sees_found t n l)
    then show ?thesis using I
      by (auto simp: par_inv_def nth_list_update has_publisher_update)
  next
    case (miss t n l)
    then show ?thesis using I w [of t]
      by (auto simp: par_inv_def nth_list_update has_publisher_update solves_def order_le_less dest!: below_succ)
  next
    case (cancelled t n l)
    then show ?thesis using I w'
      by (auto simp: par_inv_def nth_list_update has_publisher_update)
  next
    case (hit t n l)
    then show ?thesis using I lt [of n t]
      by (auto simp: par_inv_def nth_list_update has_publisher_update good_solution_def solves_def)
  next
    case (claim_won t n h l)
    then show ?thesis using I w' w [of t]
      by (auto simp: par_inv_def nth_list_update has_publisher_update)
  next
    case (claim_lost t n h l)
    then show ?thesis using I
      by (auto simp: par_inv_def nth_list_update has_publisher_update)
  next
    case (publish t n h l)
    then show ?thesis using I w [of t]
      by (auto simp: par_inv_def nth_list_update has_publisher_update good_solution_def)
  qed
qed

lemma par_reach_inv: "par_reach cfg b aborts cancels s \<Longrightarrow> par_inv cfg b aborts cancels s"
  by (induction rule: par_reach.induct) (auto intro: par_init_inv par_step_inv)

text \<open>Every action brings some worker closer to its return.\<close>

fun worker_work :: "pow_config \<Rightarrow> nat \<Rightarrow> worker \<Rightarrow> nat" where
  "worker_work cfg t (Looping n l) = 3 + (unat (snd (nonce_range cfg t)) - unat n)"
| "worker_work cfg t (Claiming n h l) = 2"
| "worker_work cfg t (Publishing n h l) = 1"
| "worker_work cfg t Returned = 0"

definition par_work :: "pow_config \<Rightarrow> worker list \<Rightarrow> nat" where
  "par_work cfg ws = (\<Sum>t<length ws. worker_work cfg t (ws ! t))"

lemma par_work_update:
  assumes "t < length ws" "worker_work cfg t w < worker_work cfg t (ws ! t)"
  shows "par_work cfg (ws[t := w]) < par_work cfg ws"
  unfolding par_work_def length_list_update
  by (rule sum_strict_mono_ex1)
     (use assms in \<open>auto simp: nth_list_update intro: less_imp_le intro!: bexI [of _ t]\<close>)

lemma par_step_work:
  "par_step cfg b aborts cancels s s' \<Longrightarrow> par_work cfg (par_workers s') < par_work cfg (par_workers s)"
proof (induction rule: par_step.induct)
  case (miss t s n l)
  have "unat (n + 1) = unat n + 1" "unat n < unat (snd (nonce_range cfg t))"
    using miss(3) by (simp_all add: unat_u64_Suc word_less_nat_alt)
  with miss show ?case by (auto intro!: par_work_update)
qed (auto intro!: par_work_update)

lemma par_not_stuck: "\<not> par_joined s \<Longrightarrow> \<exists>s'. par_step cfg b aborts cancels s s'"
proof -
  assume "\<not> par_joined s"
  then obtain t where t: "t < length (par_workers s)" "par_workers s ! t \<noteq> Returned"
    by (auto simp: par_joined_def list_all_length)
  show ?thesis
  proof (cases "par_workers s ! t")
    case (Looping n l)
    then show ?thesis
      using t par_step.range_done [of t s n l cfg b] par_step.sees_found [of t s n l cfg b]
        par_step.miss [of t s n l cfg b] par_step.hit [of t s n l cfg b]
      by (cases "n < snd (nonce_range cfg t)"; cases "par_found s";
          cases "hashMeetsTarget (hash_at b n) (blk_difficulty b)") blast+
  next
    case (Claiming n h l)
    then show ?thesis
      using t par_step.claim_won [of t s n h l] par_step.claim_lost [of t s n h l] by blast
  next
    case (Publishing n h l)
    then show ?thesis using t par_step.publish [of t s n h l] by blast
  qed (use t in simp)
qed

section \<open>Lemmas: difficulty\<close>

lemma clamp_bounds:
  "unat lo \<le> unat hi \<Longrightarrow> unat lo \<le> unat (clamp x lo hi) \<and> unat (clamp x lo hi) \<le> unat hi"
  by (simp add: clamp_def word_less_nat_alt)

lemma clamp_inside: "lo \<le> x \<Longrightarrow> x \<le> hi \<Longrightarrow> clamp x lo hi = x"
  by (simp add: clamp_def linorder_not_less [symmetric])

lemma clamp_up:
  assumes "unat lo \<le> unat c" "unat c \<le> unat hi" "unat (c + s) = unat c + unat s"
  shows "unat (clamp (if c + s > hi then hi else c + s) lo hi) = min (unat hi) (unat c + unat s)"
  using assms by (simp add: clamp_def word_less_nat_alt)

lemma clamp_down:
  assumes "unat lo \<le> unat c" "unat c \<le> unat hi" "unat (lo + s) = unat lo + unat s"
    "unat (c - s) = unat c - unat s"
  shows "unat (clamp (if c \<le> lo + s then lo else c - s) lo hi) = max (unat lo) (unat c - unat s)"
proof (cases "unat c \<le> unat lo + unat s")
  case True
  then show ?thesis using assms by (simp add: clamp_def word_less_nat_alt word_le_nat_alt)
next
  case False
  then have "unat lo \<le> unat c - unat s" "unat c - unat s \<le> unat hi" using assms by linarith+
  with False show ?thesis
    using assms(3,4) by (simp add: clamp_def word_less_nat_alt word_le_nat_alt linorder_not_less [symmetric])
qed

section \<open>Properties\<close>

text \<open>the single-threaded miner returns, for every environment. When it reports a
  solution, the block it leaves is the given block with that nonce and its hash, the hash
  meets the target, \<^verbatim>\<open>validateHash\<close> accepts it (unless the difficulty is 0, which the miner
  does not refuse), and no smaller nonce from the start does; the persisted nonce is reset.
  When it reports none, only the nonce field was touched, and if it was neither aborted nor
  given a callback, no nonce from the persisted one up to the maximum solves the block.\<close>

theorem mine_correct:
  assumes "mine env b p = (r, b', p')"
  shows "(res_found r \<longrightarrow>
      solves b (res_nonce r) \<and> res_hash r = hash_at b (res_nonce r) \<and> b' = solved_block b (res_nonce r) \<and>
      (blk_difficulty b \<noteq> 0 \<longrightarrow> validateHash b') \<and>
      (cfg_nonceStatePath (pow_cfg p) \<noteq> [] \<and> pow_writable p' \<longrightarrow> loadNonceState p' = 0) \<and>
      (\<forall>m. loadNonceState p \<le> m \<longrightarrow> m < res_nonce r \<longrightarrow> \<not> solves b m)) \<and>
    (\<not> res_found r \<longrightarrow>
      (\<exists>n. b' = b\<lparr>blk_nonce := n\<rparr>) \<and>
      ((\<forall>j. \<not> env_abort env j) \<longrightarrow> env_progress env = None \<longrightarrow>
        (\<forall>m. loadNonceState p \<le> m \<longrightarrow> m < cfg_maxNonce (pow_cfg p) \<longrightarrow> \<not> solves b m)))"
proof -
  obtain o1 n hc b1 p1 where loop:
      "mine_loop env 0 (loadNonceState p) 0 (env_clock env 0) b p = (o1, n, hc, b1, p1)"
    by (cases "mine_loop env 0 (loadNonceState p) 0 (env_clock env 0) b p") blast
  show ?thesis
  proof (cases o1)
    case None
    then have "r = default_result\<lparr>res_hashesComputed := hc\<rparr>" "b' = b1"
      using assms loop by (auto simp: mine_def)
    then have "\<not> res_found r" "b' = b1" by (simp_all add: default_result_def)
    then show ?thesis using mine_loop_None [of env 0] loop None by blast
  next
    case (Some r1)
    then have eq: "r = r1" "b' = b1" "p' = p1" using assms loop by (auto simp: mine_def)
    note f = mine_loop_found [OF loop [unfolded Some], folded eq]
    from f obtain q where q: "p' = saveNonceState 0 q" "pow_cfg q = pow_cfg p" by blast
    then have "cfg_nonceStatePath (pow_cfg p) \<noteq> [] \<and> pow_writable p' \<longrightarrow> loadNonceState p' = 0"
      using load_save_nonce [of q 0] by (auto simp: saveNonceState_def)
    with f show ?thesis using solved_block_valid by blast
  qed
qed

text \<open>An easy block (difficulty 0), a quiet environment and a fresh miner.\<close>

definition easy_block :: block where "easy_block = new_block 7 ''a'' ''b'' 0 ''m''"

definition quiet_env :: mine_env where
  "quiet_env = \<lparr>env_abort = (\<lambda>_. False), env_clock = (\<lambda>_. 0), env_progress = None\<rparr>"

definition fresh_pow :: "pow_config \<Rightarrow> pow" where
  "fresh_pow cfg = \<lparr>pow_cfg = ProofOfWork 4 cfg, pow_met = zero_metrics, pow_file = None, pow_writable = True\<rparr>"

lemma easy_solves [simp]: "solves easy_block n"
  by (simp add: solves_def easy_block_def new_block_def hashMeetsTarget_def)

theorem mine_correct_witness:
  "res_found (fst (mine quiet_env easy_block (fresh_pow default_config))) \<and>
   fst (snd (mine quiet_env easy_block (fresh_pow default_config))) = solved_block easy_block 0"
proof -
  obtain r b' p' where m: "mine quiet_env easy_block (fresh_pow default_config) = (r, b', p')"
    by (cases "mine quiet_env easy_block (fresh_pow default_config)")
  then have found: "res_found r"
    unfolding mine_def mine_loop_unfold [of quiet_env 0] by (auto simp: quiet_env_def)
  have l: "loadNonceState (fresh_pow default_config) = 0"
    by (simp add: loadNonceState_def fresh_pow_def)
  note c = mine_correct [OF m]
  have "\<not> 0 < res_nonce r"
  proof
    assume "0 < res_nonce r"
    then show False using c found unfolding l by fastforce
  qed
  then have "res_nonce r = 0" by (simp add: word_gt_0)
  with c found m show ?thesis by simp
qed

text \<open>C6: the parallel miner, for every interleaving of its workers. Once all workers have
  returned, a reported solution is a nonce below the maximum whose hash meets the target,
  and the block carries exactly that nonce and that nonce's hash although both were written
  by separate stores; nothing else of the block changes. Without abort and without a
  cancelling callback a solution is reported exactly if one exists: no nonce is lost
  between the ranges of the workers and no hit is lost in a race.\<close>

theorem mineParallel_correct:
  assumes "par_reach cfg b aborts cancels s" and "par_joined s" and "cfg_threads cfg \<noteq> 0"
    and "mineParallel_end elapsed s b p = (r, b', p')"
  shows "(res_found r \<longrightarrow> solves b (res_nonce r) \<and> res_nonce r < cfg_maxNonce cfg \<and>
      res_hash r = hash_at b (res_nonce r) \<and> b' = solved_block b (res_nonce r)) \<and>
    (\<not> res_found r \<longrightarrow> b' = b) \<and>
    (\<not> aborts \<longrightarrow> \<not> cancels \<longrightarrow> (res_found r \<longleftrightarrow> (\<exists>m<cfg_maxNonce cfg. solves b m)))"
proof -
  note I = par_reach_inv [OF assms(1), unfolded par_inv_def]
  have ret: "par_workers s ! t = Returned" if "t < unat (cfg_threads cfg)" for t
    using assms(2) I that by (auto simp: par_joined_def list_all_length)
  have found: "res_found r \<longleftrightarrow> par_found s \<and> par_foundHash s \<noteq> []"
    "res_found r \<Longrightarrow> res_nonce r = par_foundNonce s \<and> res_hash r = par_foundHash s \<and>
       b' = b\<lparr>blk_nonce := par_foundNonce s, blk_hash := par_foundHash s\<rparr>"
    "\<not> res_found r \<Longrightarrow> b' = b"
    using assms(4) by (auto simp: mineParallel_end_def default_result_def Let_def split: if_splits)
  have sol: "res_found r \<Longrightarrow> good_solution cfg b (par_foundNonce s) (par_foundHash s)"
    using found I by blast
  have "\<exists>m<cfg_maxNonce cfg. solves b m \<Longrightarrow> res_found r" if c: "\<not> aborts" "\<not> cancels"
  proof (rule ccontr)
    assume ex: "\<exists>m<cfg_maxNonce cfg. solves b m" and "\<not> res_found r"
    then have nf: "\<not> par_found s" using found(1) I c(2) ret by (auto simp: has_publisher_def)
    from ex obtain m where m: "m < cfg_maxNonce cfg" "solves b m" by blast
    then obtain t where t: "t < unat (cfg_threads cfg)" "fst (nonce_range cfg t) \<le> m"
        "m < snd (nonce_range cfg t)"
      using nonce_ranges_cover [OF assms(3)] by blast
    have "worker_ok cfg b (\<not> aborts \<and> \<not> cancels) (par_found s) t Returned"
      using I t(1) ret [OF t(1)] by metis
    with t m c nf show False by simp
  qed
  with found sol show ?thesis by (auto simp: good_solution_def solved_block_def)
qed

lemma one_worker_run:
  fixes cfg
  defines "cfg \<equiv> default_config\<lparr>cfg_threads := 1, cfg_maxNonce := 1\<rparr>"
  shows "par_reach cfg easy_block False False
    \<lparr>par_workers = [Returned], par_found = True, par_foundNonce = 0, par_foundHash = hash_at easy_block 0,
     par_totalHashes = 1, par_hashesComputed = 1\<rparr>"
proof -
  have r: "nonce_range cfg 0 = (0, 1)" by (simp add: nonce_range_def cfg_def default_config_def)
  have i: "par_init cfg = \<lparr>par_workers = [Looping 0 0], par_found = False, par_foundNonce = 0,
      par_foundHash = [], par_totalHashes = 0, par_hashesComputed = 0\<rparr>"
    using r by (simp add: par_init_def upt_rec) (simp add: cfg_def default_config_def)
  have h: "hashMeetsTarget (hash_at easy_block 0) (blk_difficulty easy_block)"
    using easy_solves [of 0] by (simp only: solves_def)
  note s0 = par_start [of cfg easy_block False False, unfolded i]
  note s1 = par_next [OF s0 par_step.hit [of 0 _ 0 0], simplified r, simplified, OF h]
  note s2 = par_next [OF s1 par_step.claim_won [of 0], simplified]
  note s3 = par_next [OF s2 par_step.publish [of 0], simplified]
  show ?thesis using s3 by simp
qed

theorem mineParallel_correct_witness:
  "fst (snd (mineParallel_end 5 \<lparr>par_workers = [Returned], par_found = True, par_foundNonce = 0,
       par_foundHash = hash_at easy_block 0, par_totalHashes = 1, par_hashesComputed = 1\<rparr>
     easy_block (fresh_pow default_config))) = solved_block easy_block 0"
proof -
  let ?s = "\<lparr>par_workers = [Returned], par_found = True, par_foundNonce = 0,
       par_foundHash = hash_at easy_block 0, par_totalHashes = 1, par_hashesComputed = 1\<rparr>"
  obtain r b' p' where m: "mineParallel_end 5 ?s easy_block (fresh_pow default_config) = (r, b', p')"
    by (cases "mineParallel_end 5 ?s easy_block (fresh_pow default_config)")
  have "res_found r \<and> res_nonce r = 0"
    using m by (auto simp: mineParallel_end_def default_result_def)
  then show ?thesis
    using mineParallel_correct [OF one_worker_run _ _ m] m
    by (auto simp: par_joined_def default_config_def)
qed

text \<open>C38: the workers always finish: every action lowers a natural number, so no run is
  infinite, and as long as one worker has not returned some action is possible, so the
  joining loop of \<^verbatim>\<open>mineParallel\<close> is not left waiting.\<close>

theorem mineParallel_terminates:
  "wfP (\<lambda>s' s. par_step cfg b aborts cancels s s') \<and>
   (par_joined s \<or> (\<exists>s'. par_step cfg b aborts cancels s s'))"
proof -
  have "wf {(s', s). par_step cfg b aborts cancels s s'}"
    by (rule wf_subset [OF wf_measure [of "\<lambda>s. par_work cfg (par_workers s)"]])
       (auto dest: par_step_work)
  then show ?thesis using par_not_stuck [of s cfg b aborts cancels] by (auto simp: wfp_def)
qed

text \<open>with the limits the constructor establishes, the adjusted difficulty always lies
  between the minimum and the maximum; it never falls when blocks come at least twice too
  fast, never rises when they come more than twice too slow, moves by at most a tenth (or
  by one), and stays otherwise. The maximum must leave room for one step in 32 bits.\<close>

theorem adjustDifficulty_correct:
  assumes "pow_cfg p = ProofOfWork hw cfg" and "cfg_targetBlockTimeSecs cfg \<noteq> 0"
    and "unat (cfg_maxDifficulty (pow_cfg p)) < 2 ^ 31"
    and "cfg_minDifficulty (pow_cfg p) \<le> current" and "current \<le> cfg_maxDifficulty (pow_cfg p)"
    and "adjustDifficulty current actual p = (d, p')"
  shows "cfg_minDifficulty (pow_cfg p) \<le> d \<and> d \<le> cfg_maxDifficulty (pow_cfg p) \<and> d \<noteq> 0 \<and>
    (actual = 0 \<or> actual < cfg_targetBlockTimeSecs cfg div 2 \<longrightarrow>
       unat d = min (unat (cfg_maxDifficulty (pow_cfg p))) (unat current + max 1 (unat current div 10))) \<and>
    (actual \<noteq> 0 \<and> \<not> actual < cfg_targetBlockTimeSecs cfg div 2 \<and> actual > cfg_targetBlockTimeSecs cfg * 2 \<longrightarrow>
       unat d = max (unat (cfg_minDifficulty (pow_cfg p))) (unat current - max 1 (unat current div 10))) \<and>
    (actual \<noteq> 0 \<and> \<not> actual < cfg_targetBlockTimeSecs cfg div 2 \<and> \<not> actual > cfg_targetBlockTimeSecs cfg * 2 \<longrightarrow>
       d = current)"
proof -
  let ?mn = "cfg_minDifficulty (pow_cfg p)" and ?mx = "cfg_maxDifficulty (pow_cfg p)"
  let ?step = "max 1 (current div 10)"
  have cfg: "cfg_targetBlockTimeSecs (pow_cfg p) = cfg_targetBlockTimeSecs cfg" "1 \<le> ?mn"
    unfolding assms(1) by (simp_all add: ProofOfWork_def Let_def)
  have c: "1 \<le> unat ?mn" "unat ?mn \<le> unat current" "unat current \<le> unat ?mx"
    using cfg(2) assms(4,5) by (simp_all add: word_le_nat_alt)
  have step: "unat ?step = max 1 (unat current div 10)"
    by (simp add: max_def word_le_nat_alt unat_div_distrib)
  have small: "unat ?step \<le> unat current" using c step by (auto simp: max_def)
  have plus: "unat (current + ?step) = unat current + unat ?step"
    "unat (?mn + ?step) = unat ?mn + unat ?step"
    using small c assms(3) by (subst unat_add_lem [THEN iffD1]; simp)+
  have minus: "unat (current - ?step) = unat current - unat ?step"
    using small by (simp add: unat_sub word_le_nat_alt)
  let ?fast = "actual = 0 \<or> actual < cfg_targetBlockTimeSecs cfg div 2"
  let ?slow = "actual > cfg_targetBlockTimeSecs cfg * 2"
  note adj = assms(6) [unfolded adjustDifficulty_def Let_def cfg(1)]
  have fast: "?fast \<Longrightarrow> d = clamp (if current + ?step > ?mx then ?mx else current + ?step) ?mn ?mx"
    and slow: "\<not> ?fast \<Longrightarrow> ?slow \<Longrightarrow> d = clamp (if current \<le> ?mn + ?step then ?mn else current - ?step) ?mn ?mx"
    and same: "\<not> ?fast \<Longrightarrow> \<not> ?slow \<Longrightarrow> d = clamp current ?mn ?mx"
    using adj assms(2) by auto
  have up: "?fast \<longrightarrow> unat d = min (unat ?mx) (unat current + max 1 (unat current div 10))"
    using fast clamp_up [OF c(2,3) plus(1)] step by simp
  have down: "\<not> ?fast \<and> ?slow \<longrightarrow> unat d = max (unat ?mn) (unat current - max 1 (unat current div 10))"
    using slow clamp_down [OF c(2,3) plus(2) minus] step by simp
  have stay: "\<not> ?fast \<and> \<not> ?slow \<longrightarrow> d = current"
    using same clamp_inside [OF assms(4,5)] by simp
  have "\<exists>x. d = clamp x ?mn ?mx" using fast slow same by blast
  then have bounds: "?mn \<le> d \<and> d \<le> ?mx"
    using clamp_bounds [of ?mn ?mx] c by (auto simp: word_le_nat_alt)
  then have "d \<noteq> 0" using cfg(2) by (auto simp: word_le_nat_alt)
  with bounds up down stay show ?thesis by blast
qed

theorem adjustDifficulty_correct_witness:
  "unat (fst (adjustDifficulty 100 1 (fresh_pow default_config))) = 110"
proof -
  have cfg: "cfg_minDifficulty (ProofOfWork 4 default_config) = 1"
    "cfg_maxDifficulty (ProofOfWork 4 default_config) = 256"
    "cfg_targetBlockTimeSecs default_config = 10"
    by (simp_all add: ProofOfWork_def default_config_def)
  obtain d p' where a: "adjustDifficulty 100 1 (fresh_pow default_config) = (d, p')"
    by (cases "adjustDifficulty 100 1 (fresh_pow default_config)")
  show ?thesis
    using adjustDifficulty_correct [OF _ _ _ _ _ a, of 4 default_config] a
    by (simp add: fresh_pow_def cfg word_less_nat_alt)
qed

end
