(* ===== verification/Merkle.thy ===== *)
theory Merkle
  imports Prelude
begin

text \<open>
  Merkle trees, \<^verbatim>\<open>src/merkle.cpp\<close>: the inclusion proof of a leaf and the folding of a layer
  of leaves to the root, serial or spread over a thread pool. The double SHA-256 of
  \<^verbatim>\<open>crypto/sha256.h\<close> is not in the sources: it is the parameter \<open>dsha\<close>, a function from byte
  strings to byte strings. The verifier that the header declares has no definition in the
  sources; \<open>climb\<close> specifies it.
\<close>

section \<open>One level\<close>

text \<open>\<^verbatim>\<open>doubleSHA256(left ++ right)\<close> into \<^verbatim>\<open>mid\<close>, then \<^verbatim>\<open>doubleSHA256(mid)\<close>.\<close>

definition combine :: "(bytes \<Rightarrow> bytes) \<Rightarrow> bytes \<Rightarrow> bytes \<Rightarrow> bytes" where
  "combine dsha left right = dsha (dsha (left @ right))"

fun next_level :: "(bytes \<Rightarrow> bytes) \<Rightarrow> bytes list \<Rightarrow> bytes list" where
  "next_level dsha (l # r # rest) = combine dsha l r # next_level dsha rest"
| "next_level dsha [l] = [combine dsha l l]"
| "next_level dsha [] = []"

lemma length_next_level [simp]: "length (next_level dsha xs) = (length xs + 1) div 2"
  by (induction dsha xs rule: next_level.induct) auto

section \<open>Proofs\<close>

text \<open>
  The loop of \<^verbatim>\<open>getProof\<close>: the sibling of the index, or the node itself when it is the odd
  last one, then the same one level up.
\<close>

function proof_loop :: "(bytes \<Rightarrow> bytes) \<Rightarrow> bytes list \<Rightarrow> nat \<Rightarrow> bytes list \<Rightarrow> bytes list" where
  "proof_loop dsha currentLevel index pf =
     (if length currentLevel > 1
      then
        let pairIndex = (if index mod 2 = 0 then index + 1 else index - 1);
            pf = pf @ [if pairIndex < length currentLevel then currentLevel ! pairIndex
                         else currentLevel ! index]
        in proof_loop dsha (next_level dsha currentLevel) (index div 2) pf
      else pf)"
  by pat_completeness auto
termination
  by (relation "measure (\<lambda>(dsha, level, index, pf). length level)") auto

declare proof_loop.simps [simp del]

datatype merkle_error = LengthExceeded

definition getProof :: "(bytes \<Rightarrow> bytes) \<Rightarrow> bytes list \<Rightarrow> nat \<Rightarrow> merkle_error + bytes list" where
  "getProof dsha leaves index =
     (if index \<ge> length leaves then Inl LengthExceeded else Inr (proof_loop dsha leaves index []))"

section \<open>The root\<close>

text \<open>
  The task of index \<open>i\<close>, and a level computed by running the tasks in some order on the
  zero-initialised \<^verbatim>\<open>nextLayer\<close>: the serial loop runs them in increasing order, the
  thread pool in any order it likes.
\<close>

definition level_task :: "(bytes \<Rightarrow> bytes) \<Rightarrow> bytes list \<Rightarrow> nat \<Rightarrow> bytes list \<Rightarrow> bytes list" where
  "level_task dsha layer i nextLayer =
     nextLayer[i div 2 :=
       combine dsha (layer ! i) (if i + 1 < length layer then layer ! (i + 1) else layer ! i)]"

definition level_indices :: "nat \<Rightarrow> nat list" where
  "level_indices n = map (\<lambda>j. 2 * j) [0..<(n + 1) div 2]"

definition run_level :: "(bytes \<Rightarrow> bytes) \<Rightarrow> bytes list \<Rightarrow> nat list \<Rightarrow> bytes list" where
  "run_level dsha layer order =
     fold (level_task dsha layer) order (replicate ((length layer + 1) div 2) (replicate 32 0))"

text \<open>
  \<open>pool\<close> is \<open>None\<close> without a thread pool, and otherwise the order in which the pool runs the
  tasks of a layer. \<^verbatim>\<open>layer[0]\<close> of an empty layer is undefined: the result is \<open>None\<close>.
\<close>

lemma length_fold_level_task [simp]: "length (fold (level_task dsha layer) order init) = length init"
  by (induction order arbitrary: init) (simp_all add: level_task_def)

function computeIterative ::
    "(bytes \<Rightarrow> bytes) \<Rightarrow> (bytes list \<Rightarrow> nat list) option \<Rightarrow> bytes list \<Rightarrow> bytes option" where
  "computeIterative dsha pool layer =
     (if length layer > 1
      then
        computeIterative dsha pool
          (case pool of
             Some order \<Rightarrow>
               if length layer > 1024 then run_level dsha layer (order layer)
               else run_level dsha layer (level_indices (length layer))
           | None \<Rightarrow> run_level dsha layer (level_indices (length layer)))
      else if layer = [] then None else Some (layer ! 0))"
  by pat_completeness auto
termination
  by (relation "measure (\<lambda>(dsha, pool, layer). length layer)")
     (auto simp: run_level_def split: option.splits)

declare computeIterative.simps [simp del]

section \<open>Specification\<close>

text \<open>The root as a function of the leaves alone, and the verifier of a proof.\<close>

function root :: "(bytes \<Rightarrow> bytes) \<Rightarrow> bytes list \<Rightarrow> bytes option" where
  "root dsha layer =
     (if length layer > 1 then root dsha (next_level dsha layer)
      else if layer = [] then None else Some (layer ! 0))"
  by pat_completeness auto
termination
  by (relation "measure (\<lambda>(dsha, layer). length layer)") auto

declare root.simps [simp del]

fun climb :: "(bytes \<Rightarrow> bytes) \<Rightarrow> bytes \<Rightarrow> nat \<Rightarrow> bytes list \<Rightarrow> bytes" where
  "climb dsha h index [] = h"
| "climb dsha h index (p # ps) =
     climb dsha (if index mod 2 = 0 then combine dsha h p else combine dsha p h) (index div 2) ps"

text \<open>The byte strings hashed on the way up.\<close>

fun climb_inputs :: "(bytes \<Rightarrow> bytes) \<Rightarrow> bytes \<Rightarrow> nat \<Rightarrow> bytes list \<Rightarrow> bytes set" where
  "climb_inputs dsha h index [] = {}"
| "climb_inputs dsha h index (p # ps) =
     (let x = (if index mod 2 = 0 then h @ p else p @ h)
      in {x, dsha x} \<union> climb_inputs dsha (dsha (dsha x)) (index div 2) ps)"

text \<open>A pool runs every task exactly once.\<close>

definition fair_pool :: "(bytes list \<Rightarrow> nat list) \<Rightarrow> bool" where
  "fair_pool order \<longleftrightarrow>
     (\<forall>layer. distinct (order layer) \<and> set (order layer) = set (level_indices (length layer)))"

section \<open>Lemmas\<close>

lemma next_level_nth:
  "j < (length xs + 1) div 2 \<Longrightarrow>
   next_level dsha xs ! j =
     combine dsha (xs ! (2 * j)) (if 2 * j + 1 < length xs then xs ! (2 * j + 1) else xs ! (2 * j))"
proof (induction dsha xs arbitrary: j rule: next_level.induct)
  case (1 dsha l r rest)
  then show ?case by (cases j) auto
qed auto

text \<open>Tasks of distinct pairs write distinct cells, so their order does not matter.\<close>

lemma fold_level_task_nth:
  assumes "distinct order" "set order \<subseteq> {i. i mod 2 = 0}" "j < length init"
  shows "fold (level_task dsha layer) order init ! j =
    (if 2 * j \<in> set order
     then combine dsha (layer ! (2 * j)) (if 2 * j + 1 < length layer then layer ! (2 * j + 1) else layer ! (2 * j))
     else init ! j)"
  using assms
proof (induction order arbitrary: init)
  case (Cons i order)
  obtain k where k: "i = 2 * k" using Cons.prems(2) by (auto elim: evenE simp: mod_2_eq_odd)
  show ?case
    using Cons.IH [of "level_task dsha layer i init"] Cons.prems
    by (auto simp: k level_task_def nth_list_update)
qed simp

lemma run_level_eq:
  assumes "distinct order" "set order = set (level_indices (length layer))"
  shows "run_level dsha layer order = next_level dsha layer"
proof (rule nth_equalityI)
  fix j assume "j < length (run_level dsha layer order)"
  then have j: "j < (length layer + 1) div 2" by (simp add: run_level_def)
  then have "2 * j \<in> set order" using assms(2) by (auto simp: level_indices_def)
  moreover have "set order \<subseteq> {i. i mod 2 = 0}" using assms(2) by (auto simp: level_indices_def)
  ultimately show "run_level dsha layer order ! j = next_level dsha layer ! j"
    using j assms(1) by (simp add: run_level_def fold_level_task_nth next_level_nth)
qed (simp add: run_level_def)

lemma level_indices_distinct: "distinct (level_indices n)"
  by (simp add: level_indices_def distinct_map inj_on_def)

lemma run_level_serial: "run_level dsha layer (level_indices (length layer)) = next_level dsha layer"
  by (rule run_level_eq) (simp_all add: level_indices_distinct)

lemma computeIterative_root:
  assumes "\<And>order. pool = Some order \<Longrightarrow> fair_pool order"
  shows "computeIterative dsha pool layer = root dsha layer"
proof (induction dsha layer rule: root.induct)
  case (1 dsha layer)
  have "(case pool of
             Some order \<Rightarrow>
               if length layer > 1024 then run_level dsha layer (order layer)
               else run_level dsha layer (level_indices (length layer))
           | None \<Rightarrow> run_level dsha layer (level_indices (length layer))) = next_level dsha layer"
    using assms run_level_eq [of _ layer dsha]
    by (auto simp: run_level_serial fair_pool_def split: option.splits)
  with 1 show ?case by (subst computeIterative.simps, subst root.simps) simp
qed

lemma computeIterative_None [simp]: "computeIterative dsha None layer = root dsha layer"
  by (rule computeIterative_root) simp

lemma computeIterative_Some [simp]:
  "fair_pool order \<Longrightarrow> computeIterative dsha (Some order) layer = root dsha layer"
  by (rule computeIterative_root) simp

text \<open>The siblings on the way from a leaf to the root.\<close>

function siblings :: "(bytes \<Rightarrow> bytes) \<Rightarrow> bytes list \<Rightarrow> nat \<Rightarrow> bytes list" where
  "siblings dsha level index =
     (if length level > 1
      then (let pairIndex = (if index mod 2 = 0 then index + 1 else index - 1)
            in if pairIndex < length level then level ! pairIndex else level ! index)
           # siblings dsha (next_level dsha level) (index div 2)
      else [])"
  by pat_completeness auto
termination
  by (relation "measure (\<lambda>(dsha, level, index). length level)") auto

declare siblings.simps [simp del]

lemma proof_loop_siblings: "proof_loop dsha level index pf = pf @ siblings dsha level index"
proof (induction dsha level index pf rule: proof_loop.induct)
  case (1 dsha level index pf)
  then show ?case
    by (subst proof_loop.simps, subst siblings.simps) (simp add: Let_def)
qed

lemma siblings_climb:
  "index < length level \<Longrightarrow> root dsha level = Some (climb dsha (level ! index) index (siblings dsha level index))"
proof (induction dsha level arbitrary: index rule: root.induct)
  case (1 dsha level)
  show ?case
  proof (cases "length level > 1")
    case True
    let ?next = "next_level dsha level"
    have idx: "index div 2 < length ?next" using 1(2) by (simp add: less_mult_imp_div_less)
    have up: "?next ! (index div 2) =
        (if index mod 2 = 0
         then combine dsha (level ! index) (if index + 1 < length level then level ! (index + 1) else level ! index)
         else combine dsha (level ! (index - 1)) (level ! index))"
    proof (cases "even index")
      case True
      then show ?thesis using idx by (auto simp: next_level_nth elim!: evenE)
    next
      case False
      then show ?thesis using idx 1(2) by (auto simp: next_level_nth elim!: oddE)
    qed
    have "root dsha level = root dsha ?next" using True by (subst root.simps) simp
    also have "\<dots> = Some (climb dsha (?next ! (index div 2)) (index div 2) (siblings dsha ?next (index div 2)))"
      by (rule 1(1) [OF True idx])
    finally show ?thesis
      using True 1(2) by (subst siblings.simps) (auto simp: up Let_def)
  next
    case False
    then have "length level = 1" "index = 0" using 1(2) by auto
    then show ?thesis by (subst root.simps, subst siblings.simps) auto
  qed
qed

lemma next_level_32:
  "l \<in> set (next_level dsha level) \<Longrightarrow> (\<And>x. length (dsha x) = 32) \<Longrightarrow> length l = 32"
  by (induction dsha level rule: next_level.induct) (auto simp: combine_def)

lemma siblings_32:
  "(\<And>x. length (dsha x) = 32) \<Longrightarrow> \<forall>l\<in>set level. length l = 32 \<Longrightarrow> i < length level \<Longrightarrow>
   \<forall>p\<in>set (siblings dsha level i). length p = 32"
proof (induction dsha level i rule: siblings.induct)
  case (1 dsha level i)
  show ?case
  proof (cases "length level > 1")
    case True
    have "\<forall>p\<in>set (siblings dsha (next_level dsha level) (i div 2)). length p = 32"
      using True 1(2-4) by (intro 1(1)) (auto simp: less_mult_imp_div_less intro: next_level_32)
    with True 1(3,4) show ?thesis by (subst siblings.simps) (auto simp: Let_def)
  next
    case False
    then show ?thesis by (subst siblings.simps) simp
  qed
qed

lemma climb_collision:
  assumes "length ps = length qs" "climb dsha h i ps = climb dsha h' i qs" "h \<noteq> h'"
    "length h = 32" "length h' = 32" "\<forall>p\<in>set ps \<union> set qs. length p = 32" "\<And>x. length (dsha x) = 32"
  shows "\<exists>x\<in>climb_inputs dsha h i ps. \<exists>y\<in>climb_inputs dsha h' i qs. x \<noteq> y \<and> dsha x = dsha y"
  using assms
proof (induction ps qs arbitrary: h h' i rule: list_induct2)
  case (Cons p ps q qs)
  let ?x = "if i mod 2 = 0 then h @ p else p @ h"
  let ?y = "if i mod 2 = 0 then h' @ q else q @ h'"
  have up: "(if i mod 2 = 0 then combine dsha h p else combine dsha p h) = dsha (dsha ?x)"
    "(if i mod 2 = 0 then combine dsha h' q else combine dsha q h') = dsha (dsha ?y)"
    by (simp_all add: combine_def)
  have ne: "?x \<noteq> ?y" using Cons.prems by auto
  show ?case
  proof (cases "dsha (dsha ?x) = dsha (dsha ?y)")
    case True
    then show ?thesis using ne by (cases "dsha ?x = dsha ?y") (auto simp: Let_def)
  next
    case False
    have "climb dsha (dsha (dsha ?x)) (i div 2) ps = climb dsha (dsha (dsha ?y)) (i div 2) qs"
      using Cons.prems(1) unfolding climb.simps up .
    then have "\<exists>x\<in>climb_inputs dsha (dsha (dsha ?x)) (i div 2) ps.
        \<exists>y\<in>climb_inputs dsha (dsha (dsha ?y)) (i div 2) qs. x \<noteq> y \<and> dsha x = dsha y"
      by (rule Cons.IH [OF _ False]) (use Cons.prems in auto)
    moreover have "climb_inputs dsha (dsha (dsha ?x)) (i div 2) ps \<subseteq> climb_inputs dsha h i (p # ps)"
      "climb_inputs dsha (dsha (dsha ?y)) (i div 2) qs \<subseteq> climb_inputs dsha h' i (q # qs)"
      by (auto simp: Let_def)
    ultimately show ?thesis by blast
  qed
qed simp

section \<open>Properties\<close>

text \<open>the root does not depend on how it is computed: without a pool, and with a pool
  that runs the tasks of each layer in whatever order, \<^verbatim>\<open>computeIterative\<close> returns the same
  root for every non-empty list of leaves.\<close>

theorem computeIterative_schedule:
  assumes "fair_pool order"
  shows "computeIterative dsha (Some order) layer = computeIterative dsha None layer \<and>
    (computeIterative dsha None layer = None \<longleftrightarrow> layer = [])"
proof -
  have "root dsha layer = None \<longleftrightarrow> layer = []"
  proof (induction dsha layer rule: root.induct)
    case (1 dsha layer)
    show ?case
    proof (cases "length layer > 1")
      case True
      then have "next_level dsha layer \<noteq> []" "layer \<noteq> []"
        by (auto simp flip: length_greater_0_conv)
      with True 1 show ?thesis by (subst root.simps) simp
    next
      case False
      then show ?thesis by (subst root.simps) simp
    qed
  qed
  then show ?thesis using assms by simp
qed

theorem computeIterative_schedule_witness:
  "computeIterative rev (Some (\<lambda>layer. rev (level_indices (length layer)))) [[1], [2], [3]] =
   computeIterative rev None [[1], [2], [3]]"
  using computeIterative_schedule [of "\<lambda>layer. rev (level_indices (length layer))" rev "[[1], [2], [3]]"]
  by (simp add: fair_pool_def level_indices_distinct)

text \<open>C33: the proof that \<^verbatim>\<open>getProof\<close> returns for a leaf leads, combined level by level with
  the leaf on the side its index says, to the root that \<^verbatim>\<open>computeIterative\<close> returns; only an
  index out of range is refused. Conversely a proof binds its leaf: if a second leaf of 32
  bytes leads to the same root with some proof of the same length, then two different
  strings hashed on the two ways up are a collision of the hash function.\<close>

theorem getProof_correct:
  assumes "\<And>x. length (dsha x) = 32" and "\<forall>l\<in>set leaves. length l = 32"
  shows "(index < length leaves \<longrightarrow>
      (\<exists>pf. getProof dsha leaves index = Inr pf \<and>
        computeIterative dsha None leaves = Some (climb dsha (leaves ! index) index pf) \<and>
        (\<forall>h qs. length h = 32 \<longrightarrow> h \<noteq> leaves ! index \<longrightarrow> length qs = length pf \<longrightarrow>
           (\<forall>q\<in>set qs. length q = 32) \<longrightarrow>
           computeIterative dsha None leaves = Some (climb dsha h index qs) \<longrightarrow>
           (\<exists>x\<in>climb_inputs dsha h index qs. \<exists>y\<in>climb_inputs dsha (leaves ! index) index pf.
              x \<noteq> y \<and> dsha x = dsha y)))) \<and>
    (index \<ge> length leaves \<longrightarrow> getProof dsha leaves index = Inl LengthExceeded)"
proof (cases "index < length leaves")
  case True
  let ?pf = "siblings dsha leaves index"
  have s32: "\<forall>p\<in>set ?pf. length p = 32" using siblings_32 [OF assms True] .
  have root: "computeIterative dsha None leaves = Some (climb dsha (leaves ! index) index ?pf)"
    using siblings_climb [OF True, of dsha] by simp
  have "\<exists>x\<in>climb_inputs dsha h index qs. \<exists>y\<in>climb_inputs dsha (leaves ! index) index ?pf.
      x \<noteq> y \<and> dsha x = dsha y"
    if "length h = 32" "h \<noteq> leaves ! index" "length qs = length ?pf" "\<forall>q\<in>set qs. length q = 32"
      "computeIterative dsha None leaves = Some (climb dsha h index qs)" for h qs
    using that root s32 assms True
    by (intro climb_collision [of qs ?pf dsha h index "leaves ! index"]) auto
  then show ?thesis
    using True root by (auto simp: getProof_def proof_loop_siblings)
next
  case False
  then show ?thesis by (simp add: getProof_def)
qed

text \<open>A toy hash function with 32-byte results.\<close>

definition toy_hash :: "bytes \<Rightarrow> bytes" where
  "toy_hash x = take 32 (x @ replicate 32 0)"

lemma length_toy_hash [simp]: "length (toy_hash x) = 32"
  by (simp add: toy_hash_def)

theorem getProof_correct_witness:
  "\<exists>pf. getProof toy_hash [replicate 32 1, replicate 32 2, replicate 32 3] 2 = Inr pf \<and>
     computeIterative toy_hash None [replicate 32 1, replicate 32 2, replicate 32 3] =
       Some (climb toy_hash (replicate 32 3) 2 pf)"
  using getProof_correct [of toy_hash "[replicate 32 1, replicate 32 2, replicate 32 3]" 2] by auto

text \<open>an odd last node is paired with itself, so the tree is malleable: repeating the
  last leaf of an odd list of at least three leaves gives the same root, and two different
  lists of transactions share it.\<close>

theorem computeIterative_duplicate_leaf:
  "computeIterative dsha None (leaves @ [a, b, c]) = computeIterative dsha None (leaves @ [a, b, c, c])"
  if "even (length leaves)"
proof -
  have "next_level dsha (xs @ [a, b, c]) = next_level dsha (xs @ [a, b, c, c])" if "even (length xs)" for xs
    using that by (induction dsha xs rule: next_level.induct) auto
  then have "root dsha (leaves @ [a, b, c]) = root dsha (leaves @ [a, b, c, c])"
    using that root.simps [of dsha "leaves @ [a, b, c]"] root.simps [of dsha "leaves @ [a, b, c, c]"] by simp
  then show ?thesis by simp
qed

theorem computeIterative_duplicate_leaf_witness:
  "computeIterative rev None [[1], [2], [3]] = computeIterative rev None [[1], [2], [3], [3]]"
  using computeIterative_duplicate_leaf [of "[]" rev "[1]" "[2]" "[3]"] by simp

end
