(* ===== verification/RateLimiter.thy ===== *)
theory RateLimiter
  imports Prelude
begin

text \<open>
  The token-bucket rate limiter of the API service, \<^verbatim>\<open>include/rate_limiter.h\<close> and
  \<^verbatim>\<open>src/rate_limiter.cpp\<close>: configuration, sharded buckets with credit in nanoseconds,
  \<^verbatim>\<open>allow\<close>, \<^verbatim>\<open>evict\<close>, \<^verbatim>\<open>clear\<close>, \<^verbatim>\<open>bucketCount\<close> and one round of the janitor.

  \<^verbatim>\<open>int64_t\<close> values are integers; \<open>credit_in_range\<close> shows that no sum leaves 64 bits. The
  hash of a key is the parameter \<open>hash\<close>; the clock is an argument. Every method locks the
  shard it works on, so a run is a sequence of method calls.
  \<^verbatim>\<open>allow\<close> reads the clock before it takes that lock: calls that overlap may pass readings
  out of order, for which the code has a guard that runs in time order never reach.

  The specification is a table of credits: what a client may still spend at a given time.
\<close>

section \<open>State\<close>

record rl_config =
  rl_requestsPerSecond :: u32
  rl_burstSize :: u32
  rl_idleTimeoutMs :: u32
  rl_janitorIntervalMs :: u32
  rl_shardCount :: u32

definition default_rl_config :: rl_config where
  "default_rl_config =
     \<lparr>rl_requestsPerSecond = 20, rl_burstSize = 40, rl_idleTimeoutMs = 60000,
      rl_janitorIntervalMs = 30000, rl_shardCount = 16\<rparr>"

record bucket =
  bk_creditNs :: int
  bk_lastSeen :: int

definition empty_bucket :: bucket where
  "empty_bucket = \<lparr>bk_creditNs = 0, bk_lastSeen = 0\<rparr>"

type_synonym shard = "(string \<times> bucket) list"

record limiter =
  lim_cfg :: rl_config
  lim_shards :: "shard list"
  lim_nsPerToken :: int
  lim_maxCreditNs :: int

text \<open>A shard's hash map: an association list with distinct keys.\<close>

definition shard_get :: "shard \<Rightarrow> string \<Rightarrow> bucket option" where
  "shard_get = map_of"

definition shard_erase :: "string \<Rightarrow> shard \<Rightarrow> shard" where
  "shard_erase key s = filter (\<lambda>(k, b). k \<noteq> key) s"

definition shard_put :: "string \<Rightarrow> bucket \<Rightarrow> shard \<Rightarrow> shard" where
  "shard_put key b s = (key, b) # shard_erase key s"

section \<open>Operations\<close>

definition RateLimiter :: "rl_config \<Rightarrow> limiter" where
  "RateLimiter cfg =
     (let cfg = (if rl_shardCount cfg = 0 \<or> rl_shardCount cfg AND (rl_shardCount cfg - 1) \<noteq> 0
                 then cfg\<lparr>rl_shardCount := 16\<rparr> else cfg);
          cfg = (if rl_requestsPerSecond cfg = 0 then cfg\<lparr>rl_requestsPerSecond := 1\<rparr> else cfg);
          cfg = (if rl_burstSize cfg < rl_requestsPerSecond cfg
                 then cfg\<lparr>rl_burstSize := rl_requestsPerSecond cfg\<rparr> else cfg);
          ns = 1000000000 div uint (rl_requestsPerSecond cfg)
      in \<lparr>lim_cfg = cfg, lim_shards = replicate (unat (rl_shardCount cfg)) [], lim_nsPerToken = ns,
          lim_maxCreditNs = uint (rl_burstSize cfg) * ns\<rparr>)"

definition shardFor :: "(string \<Rightarrow> u64) \<Rightarrow> limiter \<Rightarrow> string \<Rightarrow> nat" where
  "shardFor hash l key = unat (hash key AND (ucast (rl_shardCount (lim_cfg l)) - 1))"

text \<open>The bucket after the accrual of credit, and the decision.\<close>

definition accrue :: "limiter \<Rightarrow> int \<Rightarrow> bucket \<Rightarrow> bucket" where
  "accrue l now b =
     (if bk_lastSeen b = 0 then \<lparr>bk_creditNs = lim_maxCreditNs l, bk_lastSeen = now\<rparr>
      else
        let elapsed = now - bk_lastSeen b;
            b = (if elapsed > 0
                 then
                   let b = b\<lparr>bk_creditNs := bk_creditNs b + elapsed\<rparr>
                   in if bk_creditNs b > lim_maxCreditNs l then b\<lparr>bk_creditNs := lim_maxCreditNs l\<rparr> else b
                 else b)
        in b\<lparr>bk_lastSeen := now\<rparr>)"

definition allow :: "(string \<Rightarrow> u64) \<Rightarrow> int \<Rightarrow> string \<Rightarrow> limiter \<Rightarrow> limiter \<times> bool" where
  "allow hash now key l =
     (if key = [] then (l, False)
      else
        let i = shardFor hash l key;
            shard = lim_shards l ! i;
            bucket = accrue l now (case shard_get shard key of None \<Rightarrow> empty_bucket | Some b \<Rightarrow> b)
        in if bk_creditNs bucket < lim_nsPerToken l
           then (l\<lparr>lim_shards := (lim_shards l)[i := shard_put key bucket shard]\<rparr>, False)
           else
             (l\<lparr>lim_shards := (lim_shards l)
                  [i := shard_put key (bucket\<lparr>bk_creditNs := bk_creditNs bucket - lim_nsPerToken l\<rparr>) shard]\<rparr>,
              True))"

definition evict :: "(string \<Rightarrow> u64) \<Rightarrow> string \<Rightarrow> limiter \<Rightarrow> limiter" where
  "evict hash key l =
     (if key = [] then l
      else
        let i = shardFor hash l key
        in l\<lparr>lim_shards := (lim_shards l)[i := shard_erase key (lim_shards l ! i)]\<rparr>)"

definition clear :: "limiter \<Rightarrow> limiter" where
  "clear l = l\<lparr>lim_shards := map (\<lambda>s. []) (lim_shards l)\<rparr>"

definition bucketCount :: "limiter \<Rightarrow> nat" where
  "bucketCount l = foldl (\<lambda>total s. total + length s) 0 (lim_shards l)"

text \<open>One round of the janitor at time \<open>now\<close>; also the number of evicted buckets.\<close>

definition janitor_round :: "int \<Rightarrow> limiter \<Rightarrow> limiter \<times> nat" where
  "janitor_round now l =
     (let cutoff = now - uint (rl_idleTimeoutMs (lim_cfg l)) * 1000000;
          keep = filter (\<lambda>(k, b). \<not> bk_lastSeen b < cutoff)
      in (l\<lparr>lim_shards := map keep (lim_shards l)\<rparr>,
          sum_list (map (\<lambda>s. length s - length (keep s)) (lim_shards l))))"

section \<open>Specification: credits\<close>

definition bucket_of :: "(string \<Rightarrow> u64) \<Rightarrow> limiter \<Rightarrow> string \<Rightarrow> bucket option" where
  "bucket_of hash l key = shard_get (lim_shards l ! shardFor hash l key) key"

text \<open>What a client could spend at time \<open>t\<close>.\<close>

definition credit :: "(string \<Rightarrow> u64) \<Rightarrow> limiter \<Rightarrow> string \<Rightarrow> int \<Rightarrow> int" where
  "credit hash l key t =
     (case bucket_of hash l key of
        None \<Rightarrow> lim_maxCreditNs l
      | Some b \<Rightarrow> min (lim_maxCreditNs l) (bk_creditNs b + (t - bk_lastSeen b)))"

text \<open>
  Well-formed at time \<open>t\<close>: a positive clock was seen in every bucket, not after \<open>t\<close>; every
  credit lies between 0 and the maximum; keys are distinct.
\<close>

definition bucket_ok :: "limiter \<Rightarrow> int \<Rightarrow> bucket \<Rightarrow> bool" where
  "bucket_ok l t b \<longleftrightarrow> 0 < bk_lastSeen b \<and> bk_lastSeen b \<le> t \<and> 0 \<le> bk_creditNs b \<and>
     bk_creditNs b \<le> lim_maxCreditNs l"

definition shard_ok :: "limiter \<Rightarrow> int \<Rightarrow> shard \<Rightarrow> bool" where
  "shard_ok l t s \<longleftrightarrow> distinct (map fst s) \<and> (\<forall>kb\<in>set s. bucket_ok l t (snd kb))"

definition limiter_wf :: "(string \<Rightarrow> u64) \<Rightarrow> limiter \<Rightarrow> int \<Rightarrow> bool" where
  "limiter_wf hash l t \<longleftrightarrow>
     0 \<le> lim_nsPerToken l \<and> 0 \<le> lim_maxCreditNs l \<and> lim_maxCreditNs l < 2 ^ 62 \<and>
     lim_nsPerToken l \<le> 1000000000 \<and>
     length (lim_shards l) = unat (rl_shardCount (lim_cfg l)) \<and> rl_shardCount (lim_cfg l) \<noteq> 0 \<and>
     (\<forall>s\<in>set (lim_shards l). shard_ok l t s)"

text \<open>A run of the limiter: calls of its methods, each at its time.\<close>

datatype rl_event = Allow string | Evict string | Janitor | Clear

fun rl_step :: "(string \<Rightarrow> u64) \<Rightarrow> int \<Rightarrow> rl_event \<Rightarrow> limiter \<Rightarrow> limiter \<times> bool" where
  "rl_step hash t (Allow key) l = allow hash t key l"
| "rl_step hash t (Evict key) l = (evict hash key l, False)"
| "rl_step hash t Janitor l = (fst (janitor_round t l), False)"
| "rl_step hash t Clear l = (clear l, False)"

text \<open>How many requests of \<open>key\<close> a run permits.\<close>

fun permitted :: "(string \<Rightarrow> u64) \<Rightarrow> string \<Rightarrow> (int \<times> rl_event) list \<Rightarrow> limiter \<Rightarrow> nat" where
  "permitted hash key [] l = 0"
| "permitted hash key ((t, e) # es) l =
     (let (l', ok) = rl_step hash t e l
      in (if ok \<and> e = Allow key then 1 else 0) + permitted hash key es l')"

section \<open>Lemmas: shards\<close>

lemma shard_get_erase [simp]: "shard_get (shard_erase key s) k = (if k = key then None else shard_get s k)"
  by (induction s) (auto simp: shard_get_def shard_erase_def)

lemma shard_get_put [simp]: "shard_get (shard_put key b s) k = (if k = key then Some b else shard_get s k)"
  by (simp add: shard_put_def shard_get_def shard_get_erase [unfolded shard_get_def])

lemma shard_erase_distinct: "distinct (map fst s) \<Longrightarrow> distinct (map fst (shard_erase key s))"
  unfolding shard_erase_def by (rule distinct_map_filter)

lemma shard_put_distinct: "distinct (map fst s) \<Longrightarrow> distinct (map fst (shard_put key b s))"
  by (auto simp: shard_put_def shard_erase_distinct) (auto simp: shard_erase_def)

lemma shard_put_set: "set (shard_put key b s) \<subseteq> insert (key, b) (set s)"
  by (auto simp: shard_put_def shard_erase_def)

lemma shard_get_filter:
  "distinct (map fst s) \<Longrightarrow>
   shard_get (filter (\<lambda>(k, b). P b) s) key =
     (case shard_get s key of None \<Rightarrow> None | Some b \<Rightarrow> if P b then Some b else None)"
proof (induction s)
  case (Cons kb s)
  obtain k b where kb: "kb = (k, b)" by (cases kb)
  have none: "map_of s k = None" using Cons.prems by (simp add: kb map_of_eq_None_iff)
  show ?case using Cons none by (auto simp: kb shard_get_def split: option.splits)
qed (simp add: shard_get_def)

lemma shardFor_less:
  assumes "limiter_wf hash l t"
  shows "shardFor hash l key < length (lim_shards l)"
proof -
  let ?c = "rl_shardCount (lim_cfg l)"
  have n: "0 < unat ?c" using assms by (simp add: limiter_wf_def unat_gt_0)
  have u: "unat (ucast ?c :: u64) = unat ?c"
    using order.strict_trans2 [OF unat_u32_less [of ?c], of "2 ^ 64"]
    by (simp add: unsigned_ucast_eq take_bit_eq_mod)
  have "(1 :: u64) \<le> ucast ?c" using n u by (simp add: word_le_nat_alt)
  then have "unat (ucast ?c - 1 :: u64) = unat ?c - 1" using u by (simp add: unat_sub)
  moreover have "unat (hash key AND (ucast ?c - 1)) \<le> unat (ucast ?c - 1 :: u64)"
    by (simp add: word_and_le1 word_le_nat_alt [symmetric])
  ultimately show ?thesis
    using n assms by (simp add: shardFor_def limiter_wf_def)
qed

lemma bucket_of_put:
  assumes "limiter_wf hash l t" "i = shardFor hash l key"
  shows "bucket_of hash (l\<lparr>lim_shards := (lim_shards l)[i := shard_put key b (lim_shards l ! i)]\<rparr>) k =
    (if k = key then Some b else bucket_of hash l k)"
  using shardFor_less [OF assms(1)] assms(2)
  by (auto simp: bucket_of_def shardFor_def nth_list_update)

lemma shard_ok_update [simp]:
  "shard_ok (l\<lparr>lim_shards := x\<rparr>) t s = shard_ok l t s" "bucket_ok (l\<lparr>lim_shards := x\<rparr>) t b = bucket_ok l t b"
  by (simp_all add: shard_ok_def bucket_ok_def)

lemma wf_shard: "limiter_wf hash l t \<Longrightarrow> shard_ok l t (lim_shards l ! shardFor hash l key)"
  using shardFor_less [of hash l t key] by (auto simp: limiter_wf_def)

lemma bucket_of_set: "limiter_wf hash l t \<Longrightarrow> bucket_of hash l key = Some b \<Longrightarrow> bucket_ok l t b"
  using wf_shard [of hash l t key]
  by (auto simp: bucket_of_def shard_get_def shard_ok_def dest!: map_of_SomeD)

lemma wf_update_shard:
  assumes "limiter_wf hash l t" "shard_ok l t s"
  shows "limiter_wf hash (l\<lparr>lim_shards := (lim_shards l)[i := s]\<rparr>) t"
  using assms set_update_subset_insert [of "lim_shards l" i s]
  by (auto simp: limiter_wf_def)

lemma shard_put_ok: "shard_ok l t s \<Longrightarrow> bucket_ok l t b \<Longrightarrow> shard_ok l t (shard_put key b s)"
  using shard_put_set [of key b s] by (auto simp: shard_ok_def shard_put_distinct)

lemma shard_filter_ok: "shard_ok l t s \<Longrightarrow> shard_ok l t (filter P s)"
  by (auto simp: shard_ok_def distinct_map_filter)

section \<open>Lemmas: the specification\<close>

lemma bucket_ok_mono: "bucket_ok l t b \<Longrightarrow> t \<le> t' \<Longrightarrow> bucket_ok l t' b"
  by (simp add: bucket_ok_def)

lemma limiter_wf_mono: "limiter_wf hash l t \<Longrightarrow> t \<le> t' \<Longrightarrow> limiter_wf hash l t'"
  unfolding limiter_wf_def shard_ok_def using bucket_ok_mono by blast

text \<open>Accrual reaches exactly the credit of the specification.\<close>

lemma accrue_credit:
  assumes "limiter_wf hash l t" "t \<le> now" "0 < now"
  shows "accrue l now (case bucket_of hash l key of None \<Rightarrow> empty_bucket | Some b \<Rightarrow> b) =
    \<lparr>bk_creditNs = credit hash l key now, bk_lastSeen = now\<rparr>"
proof (cases "bucket_of hash l key")
  case None
  then show ?thesis by (simp add: accrue_def empty_bucket_def credit_def)
next
  case (Some b)
  have "bucket_ok l t b" by (rule bucket_of_set [OF assms(1) Some])
  then show ?thesis using Some assms(2)
    by (auto simp: accrue_def credit_def bucket_ok_def Let_def min_def)
qed

lemma credit_bounds:
  assumes "limiter_wf hash l t" "t \<le> t'"
  shows "0 \<le> credit hash l key t'" "credit hash l key t' \<le> lim_maxCreditNs l"
  using assms bucket_of_set [OF assms(1), of key]
  by (auto simp: credit_def limiter_wf_def bucket_ok_def split: option.splits)

lemma allow_eq:
  assumes "limiter_wf hash l t" "t \<le> now" "0 < now" "key \<noteq> []"
  shows "allow hash now key l =
    (l\<lparr>lim_shards := (lim_shards l)[shardFor hash l key :=
         shard_put key \<lparr>bk_creditNs = credit hash l key now
             - (if lim_nsPerToken l \<le> credit hash l key now then lim_nsPerToken l else 0),
           bk_lastSeen = now\<rparr> (lim_shards l ! shardFor hash l key)]\<rparr>,
     lim_nsPerToken l \<le> credit hash l key now)"
  using accrue_credit [OF assms(1-3), of key] assms(4)
  by (auto simp: allow_def bucket_of_def Let_def)

lemma allow_wf:
  assumes "limiter_wf hash l t" "t \<le> now" "0 < now"
  shows "limiter_wf hash (fst (allow hash now key l)) now"
proof (cases "key = []")
  case True
  then show ?thesis using limiter_wf_mono [OF assms(1,2)] by (simp add: allow_def)
next
  case False
  note wf = limiter_wf_mono [OF assms(1,2)]
  have ns: "0 \<le> lim_nsPerToken l" using assms(1) by (simp add: limiter_wf_def)
  show ?thesis
    unfolding allow_eq [OF assms False] fst_conv
    by (intro wf_update_shard [OF wf] shard_put_ok [OF wf_shard [OF wf]])
       (use credit_bounds [OF assms(1,2), of key] ns assms(3) in \<open>simp add: bucket_ok_def\<close>)
qed

lemma evict_wf: "limiter_wf hash l t \<Longrightarrow> limiter_wf hash (evict hash key l) t"
  by (simp add: evict_def Let_def shard_erase_def wf_update_shard shard_filter_ok wf_shard)

lemma janitor_wf: "limiter_wf hash l t \<Longrightarrow> limiter_wf hash (fst (janitor_round now l)) t"
  by (auto simp: limiter_wf_def janitor_round_def Let_def shard_filter_ok)

lemma clear_wf: "limiter_wf hash l t \<Longrightarrow> limiter_wf hash (clear l) t"
  by (auto simp: limiter_wf_def clear_def) (simp add: shard_ok_def)

lemma rl_step_wf:
  "limiter_wf hash l t \<Longrightarrow> t \<le> now \<Longrightarrow> 0 < now \<Longrightarrow> limiter_wf hash (fst (rl_step hash now e l)) now"
  by (cases e) (auto intro: allow_wf evict_wf janitor_wf clear_wf limiter_wf_mono)

lemma rl_step_consts:
  "lim_nsPerToken (fst (rl_step hash now e l)) = lim_nsPerToken l"
  "lim_maxCreditNs (fst (rl_step hash now e l)) = lim_maxCreditNs l"
  "lim_cfg (fst (rl_step hash now e l)) = lim_cfg l"
  by (cases e; auto simp: allow_def evict_def janitor_round_def clear_def Let_def)+

text \<open>Credit after each event.\<close>

lemma credit_update:
  "credit hash (l\<lparr>lim_shards := x\<rparr>) k t =
     (case bucket_of hash (l\<lparr>lim_shards := x\<rparr>) k of
        None \<Rightarrow> lim_maxCreditNs l
      | Some b \<Rightarrow> min (lim_maxCreditNs l) (bk_creditNs b + (t - bk_lastSeen b)))"
  by (simp add: credit_def split: option.split)

lemma credit_allow:
  assumes "limiter_wf hash l t" "t \<le> now" "0 < now" "key \<noteq> []"
  shows "snd (allow hash now key l) \<longleftrightarrow> lim_nsPerToken l \<le> credit hash l key now"
    "now \<le> t' \<Longrightarrow> credit hash (fst (allow hash now key l)) k t' =
      (if k = key
       then min (lim_maxCreditNs l)
              (credit hash l key now - (if snd (allow hash now key l) then lim_nsPerToken l else 0) + (t' - now))
       else credit hash l k t')"
  unfolding allow_eq [OF assms] fst_conv snd_conv
  by (simp_all add: credit_update bucket_of_put [OF assms(1) refl]) (simp add: credit_def)

lemma bucket_of_janitor:
  assumes "limiter_wf hash l t"
  shows "bucket_of hash (fst (janitor_round now l)) key =
    (case bucket_of hash l key of
       None \<Rightarrow> None
     | Some b \<Rightarrow> if bk_lastSeen b < now - uint (rl_idleTimeoutMs (lim_cfg l)) * 1000000 then None else Some b)"
  using shardFor_less [OF assms, of key] 
    shard_get_filter [OF conjunct1 [OF wf_shard [OF assms, of key, unfolded shard_ok_def]]]
  by (auto simp: bucket_of_def janitor_round_def Let_def shardFor_def split: option.splits)

lemma credit_janitor:
  assumes "limiter_wf hash l t" "t \<le> now" "now \<le> t'"
    and idle: "lim_maxCreditNs l \<le> uint (rl_idleTimeoutMs (lim_cfg l)) * 1000000"
  shows "credit hash (fst (janitor_round now l)) key t' = credit hash l key t'"
proof (cases "bucket_of hash l key")
  case None
  then show ?thesis
    by (simp add: credit_def bucket_of_janitor [OF assms(1)]) (simp add: janitor_round_def Let_def)
next
  case (Some b)
  have "bucket_ok l t b" by (rule bucket_of_set [OF assms(1) Some])
  then show ?thesis
    using Some assms(2,3) idle
    by (simp add: credit_def bucket_of_janitor [OF assms(1)] bucket_ok_def)
       (simp add: janitor_round_def Let_def)
qed

lemma credit_grows:
  assumes "limiter_wf hash l t" "t \<le> t1" "t1 \<le> t2"
  shows "credit hash l key t2 = min (lim_maxCreditNs l) (credit hash l key t1 + (t2 - t1))"
  using assms credit_bounds [OF assms(1,2), of key] by (auto simp: credit_def split: option.splits)

lemma bucket_of_evict:
  assumes "limiter_wf hash l t" "key \<noteq> []"
  shows "bucket_of hash (evict hash key l) k = (if k = key then None else bucket_of hash l k)"
  using shardFor_less [OF assms(1)] assms(2)
  by (auto simp: bucket_of_def evict_def shardFor_def Let_def nth_list_update)

section \<open>Lemmas: runs\<close>

lemma RateLimiter_wf: "limiter_wf hash (RateLimiter cfg) t"
proof -
  define r where "r = (if rl_requestsPerSecond cfg = 0 then 1 else rl_requestsPerSecond cfg)"
  define b where "b = (if rl_burstSize cfg < r then r else rl_burstSize cfg)"
  define ns where "ns = 1000000000 div uint r"
  have "uint r \<noteq> 0" by (simp add: r_def uint_0_iff)
  moreover have "0 \<le> uint r" by simp
  ultimately have r: "0 < uint r" by linarith
  have ns: "0 \<le> ns" "ns \<le> 1000000000"
    using r zdiv_mono2 [of 1000000000 1 "uint r"] by (simp_all add: ns_def pos_imp_zdiv_nonneg_iff)
  have "uint b < 4294967296" using uint_lt2p [of b] by simp
  then have "uint b * ns \<le> 4294967296 * 1000000000"
    using ns by (intro mult_mono) simp_all
  then have mx: "uint b * ns < 2 ^ 62" by simp
  have c: "lim_nsPerToken (RateLimiter cfg) = ns" "lim_maxCreditNs (RateLimiter cfg) = uint b * ns"
    by (simp_all add: RateLimiter_def Let_def ns_def b_def r_def)
  have s: "lim_shards (RateLimiter cfg) = replicate (unat (rl_shardCount (lim_cfg (RateLimiter cfg)))) []"
    "rl_shardCount (lim_cfg (RateLimiter cfg)) \<noteq> 0"
    by (simp_all add: RateLimiter_def Let_def)
  show ?thesis
    unfolding limiter_wf_def c s(1) using ns mx s(2) by (auto simp: shard_ok_def)
qed

text \<open>Times do not run backwards and the clock is positive.\<close>

fun run_times :: "int \<Rightarrow> (int \<times> rl_event) list \<Rightarrow> int \<Rightarrow> bool" where
  "run_times t [] T \<longleftrightarrow> t \<le> T"
| "run_times t ((t1, e) # es) T \<longleftrightarrow> t \<le> t1 \<and> 0 < t1 \<and> run_times t1 es T"

lemma credit_other_event:
  assumes "limiter_wf hash l t" "t \<le> now" "0 < now" "e \<noteq> Clear" "e \<noteq> Evict key" "e \<noteq> Allow key"
    and "lim_maxCreditNs l \<le> uint (rl_idleTimeoutMs (lim_cfg l)) * 1000000"
  shows "credit hash (fst (rl_step hash now e l)) key now = credit hash l key now"
proof (cases e)
  case (Allow k)
  show ?thesis
  proof (cases "k = []")
    case True
    then show ?thesis using Allow by (simp add: allow_def)
  next
    case False
    then show ?thesis using credit_allow(2) [OF assms(1-3) False, of now key] Allow assms(6) by simp
  qed
next
  case (Evict k)
  show ?thesis
  proof (cases "k = []")
    case True
    then show ?thesis using Evict by (simp add: evict_def)
  next
    case False
    have "bucket_of hash (evict hash k l) key = bucket_of hash l key"
      using bucket_of_evict [OF assms(1) False] assms(5) Evict by simp
    moreover have "lim_maxCreditNs (evict hash k l) = lim_maxCreditNs l" by (simp add: evict_def Let_def)
    ultimately show ?thesis using Evict by (simp add: credit_def split: option.split)
  qed
next
  case Janitor
  then show ?thesis using credit_janitor [OF assms(1,2) order_refl assms(7)] by simp
qed (use assms in simp)

lemma permitted_bound:
  assumes "limiter_wf hash l t" "run_times t es T"
    "\<forall>(s, e)\<in>set es. e \<noteq> Clear \<and> e \<noteq> Evict key"
    "lim_maxCreditNs l \<le> uint (rl_idleTimeoutMs (lim_cfg l)) * 1000000"
  shows "int (permitted hash key es l) * lim_nsPerToken l \<le> credit hash l key t + (T - t)"
  using assms
proof (induction es arbitrary: l t)
  case Nil
  then show ?case using credit_bounds [of hash l t t key] by simp
next
  case (Cons te es)
  obtain t1 e where te: "te = (t1, e)" by (cases te)
  obtain l' ok where st: "rl_step hash t1 e l = (l', ok)" by (cases "rl_step hash t1 e l")
  have times: "t \<le> t1" "0 < t1" "run_times t1 es T" using Cons.prems(2) by (simp_all add: te)
  have l': "l' = fst (rl_step hash t1 e l)" by (simp add: st)
  have IH: "int (permitted hash key es l') * lim_nsPerToken l \<le> credit hash l' key t1 + (T - t1)"
    using Cons.IH [of l' t1] rl_step_wf [OF Cons.prems(1) times(1,2), of e] times(3) Cons.prems(3,4)
    by (auto simp: l' rl_step_consts te)
  have grow: "credit hash l key t1 \<le> credit hash l key t + (t1 - t)"
    using credit_grows [OF Cons.prems(1) order_refl times(1)] by simp
  show ?case
  proof (cases "e = Allow key \<and> key \<noteq> []")
    case True
    then have c: "credit hash l' key t1 = credit hash l key t1 - (if ok then lim_nsPerToken l else 0)"
      using credit_allow(2) [OF Cons.prems(1) times(1,2), of key t1 key] st
        credit_bounds(2) [OF Cons.prems(1) times(1), of key] Cons.prems(1)
      by (auto simp: limiter_wf_def split: if_splits)
    show ?thesis using IH grow c True st by (auto simp: te distrib_right split: if_splits)
  next
    case False
    then have no: "\<not> (ok \<and> e = Allow key)" using st by (auto simp: allow_def)
    have "credit hash l' key t1 = credit hash l key t1"
    proof (cases "e = Allow key")
      case True
      then show ?thesis using False st by (auto simp: allow_def)
    next
      case False
      then show ?thesis
        using credit_other_event [OF Cons.prems(1) times(1,2), of e key] Cons.prems(3,4) st by (auto simp: te)
    qed
    then show ?thesis using IH grow no st by (auto simp: te)
  qed
qed

section \<open>Properties\<close>

text \<open>the limiter limits. For a limiter as constructed, whatever other clients do and
  whenever the janitor runs, a client is permitted at most its burst plus one request per
  token time that passed: in every run without an eviction of that client the permitted
  requests cost at most the burst credit plus the elapsed nanoseconds. The idle timeout
  must not be shorter than the time to fill a bucket.\<close>

theorem rate_bound:
  assumes "run_times t es T" and "\<forall>(s, e)\<in>set es. e \<noteq> Clear \<and> e \<noteq> Evict key"
    and "lim_maxCreditNs (RateLimiter cfg) \<le> uint (rl_idleTimeoutMs cfg) * 1000000"
  shows "int (permitted hash key es (RateLimiter cfg)) * lim_nsPerToken (RateLimiter cfg) \<le>
    uint (rl_burstSize (lim_cfg (RateLimiter cfg))) * lim_nsPerToken (RateLimiter cfg) + (T - t)"
proof -
  have idle: "rl_idleTimeoutMs (lim_cfg (RateLimiter cfg)) = rl_idleTimeoutMs cfg"
    and mx: "lim_maxCreditNs (RateLimiter cfg) =
      uint (rl_burstSize (lim_cfg (RateLimiter cfg))) * lim_nsPerToken (RateLimiter cfg)"
    by (simp_all add: RateLimiter_def Let_def)
  have "t \<le> T" using assms(1)
    by (induction es arbitrary: t) (auto intro: order_trans)
  then have "credit hash (RateLimiter cfg) key t \<le> lim_maxCreditNs (RateLimiter cfg)"
    using credit_bounds(2) [OF RateLimiter_wf order_refl] by blast
  then show ?thesis
    using permitted_bound [OF RateLimiter_wf assms(1,2), of cfg hash] assms(3) by (simp add: idle mx)
qed

theorem rate_bound_witness:
  "int (permitted (\<lambda>_. 0) ''a'' [(1, Allow ''a''), (2, Janitor), (3, Allow ''b''), (9, Allow ''a'')] (RateLimiter default_rl_config))
     * 50000000 \<le> 40 * 50000000 + (10 - 1)"
proof -
  have c: "lim_nsPerToken (RateLimiter default_rl_config) = 50000000"
    "lim_maxCreditNs (RateLimiter default_rl_config) = 2000000000"
    "rl_burstSize (lim_cfg (RateLimiter default_rl_config)) = 40" "rl_idleTimeoutMs default_rl_config = 60000"
    by (simp_all add: RateLimiter_def default_rl_config_def Let_def)
  show ?thesis
    using rate_bound [of 1 "[(1, Allow ''a''), (2, Janitor), (3, Allow ''b''), (9, Allow ''a'')]" 10 "''a''"
        default_rl_config "\<lambda>_. 0"]
    by (simp add: c del: permitted.simps)
qed

text \<open>C35: \<^verbatim>\<open>allow\<close> implements the credit table. A request is permitted exactly if the client's
  credit covers one token; it then costs one token, credit accrues with the time up to the
  maximum, and no other client is affected. The janitor is invisible when the idle timeout
  covers the time to fill a bucket: the credit of every client at every later time is what
  it was. Evicting a client gives it a full burst. Well-formedness is kept throughout, and
  the 64-bit sum the code computes does not overflow while the clock is below 2^62 ns.\<close>

theorem allow_refines_credit:
  assumes "limiter_wf hash l t" and "t \<le> now" and "0 < now" and "now \<le> t'" and "key \<noteq> []"
  shows "limiter_wf hash (fst (allow hash now key l)) now \<and>
    (snd (allow hash now key l) \<longleftrightarrow> lim_nsPerToken l \<le> credit hash l key now) \<and>
    credit hash (fst (allow hash now key l)) k t' =
      (if k = key
       then min (lim_maxCreditNs l)
              (credit hash l key now - (if snd (allow hash now key l) then lim_nsPerToken l else 0) + (t' - now))
       else credit hash l k t') \<and>
    (lim_maxCreditNs l \<le> uint (rl_idleTimeoutMs (lim_cfg l)) * 1000000 \<longrightarrow>
       credit hash (fst (janitor_round now l)) k t' = credit hash l k t') \<and>
    credit hash (evict hash key l) key t' = lim_maxCreditNs l \<and>
    (now < 2 ^ 62 \<longrightarrow> (\<forall>b. bucket_of hash l key = Some b \<longrightarrow>
       0 \<le> bk_creditNs b + (now - bk_lastSeen b) \<and> bk_creditNs b + (now - bk_lastSeen b) < 2 ^ 63))"
proof (intro conjI)
  show "credit hash (evict hash key l) key t' = lim_maxCreditNs l"
    using bucket_of_evict [OF assms(1,5), of key] by (simp add: credit_def evict_def Let_def)
  show "now < 2 ^ 62 \<longrightarrow> (\<forall>b. bucket_of hash l key = Some b \<longrightarrow>
       0 \<le> bk_creditNs b + (now - bk_lastSeen b) \<and> bk_creditNs b + (now - bk_lastSeen b) < 2 ^ 63)"
    using bucket_of_set [OF assms(1)] assms(1,2) by (fastforce simp: bucket_ok_def limiter_wf_def)
qed (use allow_wf [OF assms(1-3)] credit_allow [OF assms(1-3,5)] credit_janitor [OF assms(1,2,4)] assms(4)
     in simp_all)

theorem allow_refines_credit_witness:
  "snd (allow (\<lambda>_. 0) 5 ''a'' (RateLimiter default_rl_config))"
proof -
  have c: "lim_nsPerToken (RateLimiter default_rl_config) = 50000000"
    "lim_maxCreditNs (RateLimiter default_rl_config) = 2000000000"
    by (simp_all add: RateLimiter_def default_rl_config_def Let_def)
  have "bucket_of (\<lambda>_. 0) (RateLimiter default_rl_config) ''a'' = None"
    by (simp add: bucket_of_def RateLimiter_def default_rl_config_def Let_def shardFor_def shard_get_def)
  then show ?thesis
    using allow_refines_credit [OF RateLimiter_wf [of "\<lambda>_. 0" default_rl_config 1], of 5 5 "''a''"]
    by (simp add: credit_def c)
qed

text \<open>a well-formed limiter stays well formed under every method: each bucket in a shard
  of distinct keys, with a credit between zero and the burst and a last access in the past.
  The constructor establishes it for every configuration, also for shard counts that are
  not a power of two, a zero rate or a burst below the rate, and \<^verbatim>\<open>clear\<close> leaves no bucket.\<close>

theorem limiter_invariant:
  assumes "limiter_wf hash l t" and "t \<le> now" and "0 < now"
  shows "limiter_wf hash (RateLimiter cfg) t \<and> limiter_wf hash (fst (rl_step hash now e l)) now \<and>
    shardFor hash l key < length (lim_shards l) \<and> bucketCount (clear l) = 0"
proof -
  have "foldl (\<lambda>total s. total + length s) n (map (\<lambda>s. []) xs) = n" for n and xs :: "shard list"
    by (induction xs) simp_all
  then have "bucketCount (clear l) = 0" by (simp add: bucketCount_def clear_def)
  then show ?thesis using RateLimiter_wf rl_step_wf [OF assms] shardFor_less [OF assms(1)] by blast
qed

theorem limiter_invariant_witness:
  "limiter_wf (\<lambda>_. 0) (fst (rl_step (\<lambda>_. 0) 5 (Allow ''a'') (RateLimiter default_rl_config))) 5"
  using limiter_invariant [OF RateLimiter_wf [of "\<lambda>_. 0" default_rl_config 1], of 5 default_rl_config "Allow ''a''"]
  by simp

end
