(* ===== verification/Mempool.thy ===== *)
theory Mempool
  imports Transaction "HOL-Library.Product_Lexorder" "HOL-Library.List_Lexorder" "HOL-Library.Char_ord"
begin

text \<open>
  The pool of pending transactions, \<^verbatim>\<open>include/mempool/mempool.h\<close> and
  \<^verbatim>\<open>src/mempool/mempool.cpp\<close>: admission with fee, double-spend and nonce checks, orphans
  and their promotion, removal, eviction, trimming, queries, and the queue of the
  persistence worker.

  A hash map is an association list with distinct keys, in its iteration order, on which
  nothing depends but the order of promotion and of the queries. The UTXO set is the
  parameter \<open>utxo\<close> (the value of an unspent output, as \<^verbatim>\<open>UTXOSet::getUTXO\<close> reports it),
  \<open>now\<close> is the monotonic clock in seconds during a call. The eviction callback is the list
  of hashes it was called with. Locks are not modelled: a method is one step. The database
  is not modelled; the worker's rounds are, with the batch handed to it and its answer.
\<close>

lemma wrap_above:
  fixes now a :: u64
  assumes "now < a"
  shows "now < now - a"
proof -
  have "unat (now - a) = unat now + 2 ^ 64 - unat a"
    using assms by (simp add: unat_sub_if' word_less_nat_alt)
  moreover have "unat a < 2 ^ 64" by simp
  ultimately show ?thesis unfolding word_less_nat_alt by linarith
qed

section \<open>State\<close>

record mempool_entry =
  me_tx :: transaction
  me_addedAt :: u64
  me_effectiveFee :: u64
  me_txBytes :: nat

record mempool_config =
  mc_maxTxCount :: nat
  mc_maxTotalBytes :: u64
  mc_minFeePerGas :: u64
  mc_maxTxAgeSeconds :: u64
  mc_orphanMaxCount :: nat
  mc_orphanMaxAgeSecs :: u64
  mc_persistBatchSize :: nat
  mc_maxPersistQueueSize :: nat

definition default_mempool_config :: mempool_config where
  "default_mempool_config =
     \<lparr>mc_maxTxCount = 100000, mc_maxTotalBytes = 256 * 1024 * 1024, mc_minFeePerGas = 1,
      mc_maxTxAgeSeconds = 3600, mc_orphanMaxCount = 1000, mc_orphanMaxAgeSecs = 300,
      mc_persistBatchSize = 512, mc_maxPersistQueueSize = 50000\<rparr>"

record mempool_metrics =
  mm_added :: u64
  mm_rejected :: u64
  mm_evicted :: u64
  mm_confirmed :: u64
  mm_dsRejected :: u64
  mm_orphansAdded :: u64
  mm_orphansEvicted :: u64

datatype persist_job = Put string string | Delete string

record mempool =
  mp_cfg :: mempool_config
  mp_entries :: "(string \<times> mempool_entry) list"
  mp_orphans :: "(string \<times> mempool_entry) list"
  mp_spentOutpoints :: "string set"
  mp_totalBytes :: u64
  mp_queue :: "persist_job list"
  mp_met :: mempool_metrics
  mp_evictions :: "string list"

definition empty_mempool :: "mempool_config \<Rightarrow> mempool" where
  "empty_mempool cfg =
     \<lparr>mp_cfg = cfg, mp_entries = [], mp_orphans = [], mp_spentOutpoints = {}, mp_totalBytes = 0,
      mp_queue = [],
      mp_met = \<lparr>mm_added = 0, mm_rejected = 0, mm_evicted = 0, mm_confirmed = 0, mm_dsRejected = 0,
                mm_orphansAdded = 0, mm_orphansEvicted = 0\<rparr>,
      mp_evictions = []\<rparr>"

definition map_erase :: "string \<Rightarrow> (string \<times> 'a) list \<Rightarrow> (string \<times> 'a) list" where
  "map_erase k = filter (\<lambda>(k', v). k' \<noteq> k)"

text \<open>\<^verbatim>\<open>emplace\<close> does nothing when the key is present.\<close>

definition map_emplace :: "string \<Rightarrow> 'a \<Rightarrow> (string \<times> 'a) list \<Rightarrow> (string \<times> 'a) list" where
  "map_emplace k v m = (if map_of m k \<noteq> None then m else m @ [(k, v)])"

section \<open>Counters\<close>

definition count_rejected :: "mempool \<Rightarrow> mempool" where
  "count_rejected m = m\<lparr>mp_met := (mp_met m)\<lparr>mm_rejected := mm_rejected (mp_met m) + 1\<rparr>\<rparr>"

definition count_dsRejected :: "mempool \<Rightarrow> mempool" where
  "count_dsRejected m = m\<lparr>mp_met := (mp_met m)\<lparr>mm_dsRejected := mm_dsRejected (mp_met m) + 1\<rparr>\<rparr>"

definition count_added :: "mempool \<Rightarrow> mempool" where
  "count_added m = m\<lparr>mp_met := (mp_met m)\<lparr>mm_added := mm_added (mp_met m) + 1\<rparr>\<rparr>"

definition count_evicted :: "mempool \<Rightarrow> mempool" where
  "count_evicted m = m\<lparr>mp_met := (mp_met m)\<lparr>mm_evicted := mm_evicted (mp_met m) + 1\<rparr>\<rparr>"

definition count_confirmed :: "mempool \<Rightarrow> mempool" where
  "count_confirmed m = m\<lparr>mp_met := (mp_met m)\<lparr>mm_confirmed := mm_confirmed (mp_met m) + 1\<rparr>\<rparr>"

definition count_orphansAdded :: "mempool \<Rightarrow> mempool" where
  "count_orphansAdded m = m\<lparr>mp_met := (mp_met m)\<lparr>mm_orphansAdded := mm_orphansAdded (mp_met m) + 1\<rparr>\<rparr>"

definition count_orphansEvicted :: "mempool \<Rightarrow> mempool" where
  "count_orphansEvicted m =
     m\<lparr>mp_met := (mp_met m)\<lparr>mm_orphansEvicted := mm_orphansEvicted (mp_met m) + 1\<rparr>\<rparr>"

lemmas count_defs = count_rejected_def count_dsRejected_def count_added_def count_evicted_def
  count_confirmed_def count_orphansAdded_def count_orphansEvicted_def

section \<open>Checks\<close>

definition estimateTxBytes :: "transaction \<Rightarrow> nat" where
  "estimateTxBytes tx =
     7 * 8 + (4 + length (tx_toAddress tx)) + (4 + length (tx_txHash tx)) + (4 + length (tx_data tx))
     + length (tx_r tx) + length (tx_s tx)
     + 4 + sum_list (map (\<lambda>i. 4 + length (in_prevTxHash i) + 4) (tx_inputs tx))
     + 4 + sum_list (map (\<lambda>y. 4 + length (out_address y) + 8) (tx_outputs tx))
     + 64"

definition effectiveFee :: "transaction \<Rightarrow> u64 \<Rightarrow> u64" where
  "effectiveFee tx baseFee =
     (let tip = tx_maxPriorityFeePerGas tx;
          maxF = tx_maxFeePerGas tx;
          total = (if tip > - 1 - baseFee then - 1 else baseFee + tip)
      in min maxF total)"

text \<open>Sums of 64 bits that refuse to wrap.\<close>

fun sum_inputs :: "(string \<Rightarrow> u32 \<Rightarrow> u64 option) \<Rightarrow> tx_input list \<Rightarrow> u64 \<Rightarrow> u64 option" where
  "sum_inputs utxo [] inSum = Some inSum"
| "sum_inputs utxo (i # is) inSum =
     (case utxo (in_prevTxHash i) (in_outputIndex i) of
        None \<Rightarrow> None
      | Some value \<Rightarrow> if value > - 1 - inSum then None else sum_inputs utxo is (inSum + value))"

fun sum_outputs :: "tx_output list \<Rightarrow> u64 \<Rightarrow> u64 option" where
  "sum_outputs [] outSum = Some outSum"
| "sum_outputs (y # ys) outSum =
     (if out_value y > - 1 - outSum then None else sum_outputs ys (outSum + out_value y))"

definition validateTx :: "(string \<Rightarrow> u32 \<Rightarrow> u64 option) \<Rightarrow> transaction \<Rightarrow> u64 \<Rightarrow> mempool \<Rightarrow> bool" where
  "validateTx utxo tx baseFee m =
     (if tx_txHash tx = [] \<or> length (tx_txHash tx) \<noteq> 64 then False
      else if \<not> tx_isValid tx then False
      else if tx_toAddress tx = [] then False
      else if effectiveFee tx baseFee < mc_minFeePerGas (mp_cfg m) then False
      else if tx_inputs tx \<noteq> []
      then
        (case sum_inputs utxo (tx_inputs tx) 0 of
           None \<Rightarrow> False
         | Some inSum \<Rightarrow>
             (case sum_outputs (tx_outputs tx) 0 of
                None \<Rightarrow> False
              | Some outSum \<Rightarrow> if outSum > inSum then False else True))
      else True)"

definition outpoint :: "tx_input \<Rightarrow> string" where
  "outpoint i = in_prevTxHash i @ '':'' @ show_i32 (in_outputIndex i)"

definition isDoubleSpend :: "transaction \<Rightarrow> mempool \<Rightarrow> bool" where
  "isDoubleSpend tx m = list_ex (\<lambda>i. outpoint i \<in> mp_spentOutpoints m) (tx_inputs tx)"

text \<open>The scan keeps the largest nonce seen among the entries to the same address.\<close>

definition checkNonceOrdering :: "transaction \<Rightarrow> mempool \<Rightarrow> bool" where
  "checkNonceOrdering tx m =
     (let (maxNonce, found) =
        foldl (\<lambda>(maxNonce, found) (h, e).
            if tx_toAddress (me_tx e) = tx_toAddress tx
            then (if \<not> found \<or> tx_nonce (me_tx e) > maxNonce then (tx_nonce (me_tx e), True)
                  else (maxNonce, found))
            else (maxNonce, found)) (0, False) (mp_entries m)
      in if found \<and> tx_nonce tx \<le> maxNonce then False else True)"

section \<open>The persistence queue\<close>

definition serializeTx :: "transaction \<Rightarrow> string" where
  "serializeTx tx =
     tx_txHash tx @ ''|'' @ show_u64 (tx_chainId tx) @ ''|'' @ show_u64 (tx_nonce tx) @ ''|''
     @ tx_toAddress tx @ ''|'' @ show_u64 (tx_value tx) @ ''|'' @ show_u64 (tx_gasLimit tx) @ ''|''
     @ show_u64 (tx_maxFeePerGas tx) @ ''|'' @ show_u64 (tx_maxPriorityFeePerGas tx)"

definition enqueue :: "persist_job \<Rightarrow> mempool \<Rightarrow> mempool" where
  "enqueue job m =
     (let q = mp_queue m @ [job]
      in m\<lparr>mp_queue := (if length q > mc_maxPersistQueueSize (mp_cfg m) then tl q else q)\<rparr>)"

definition enqueuePersist :: "transaction \<Rightarrow> mempool \<Rightarrow> mempool" where
  "enqueuePersist tx m = enqueue (Put (tx_txHash tx) (serializeTx tx)) m"

definition enqueueUnpersist :: "string \<Rightarrow> mempool \<Rightarrow> mempool" where
  "enqueueUnpersist txHash m = enqueue (Delete txHash) m"

text \<open>
  One round of the worker: the batch it takes from the queue, and what it does when the
  database has answered (\<open>None\<close>: there is none, and the batch is dropped).
\<close>

definition persist_take :: "mempool \<Rightarrow> persist_job list \<times> mempool" where
  "persist_take m =
     (let n = min (length (mp_queue m)) (mc_persistBatchSize (mp_cfg m))
      in (take n (mp_queue m), m\<lparr>mp_queue := drop n (mp_queue m)\<rparr>))"

definition persist_done :: "bool option \<Rightarrow> persist_job list \<Rightarrow> mempool \<Rightarrow> mempool" where
  "persist_done status batch m =
     (case status of
        None \<Rightarrow> m
      | Some ok \<Rightarrow> if \<not> ok then m\<lparr>mp_queue := batch @ mp_queue m\<rparr> else m)"

section \<open>Removal and eviction\<close>

definition removeTransaction :: "string \<Rightarrow> mempool \<Rightarrow> mempool" where
  "removeTransaction txHash m =
     (case map_of (mp_entries m) txHash of
        None \<Rightarrow> m
      | Some e \<Rightarrow>
          let m = m\<lparr>mp_spentOutpoints := mp_spentOutpoints m - set (map outpoint (tx_inputs (me_tx e)))\<rparr>;
              m = m\<lparr>mp_entries := map_erase txHash (mp_entries m)\<rparr>;
              m = m\<lparr>mp_totalBytes := mp_totalBytes m - word_of_nat (me_txBytes e)\<rparr>;
              m = enqueueUnpersist txHash m
          in m\<lparr>mp_evictions := mp_evictions m @ [txHash]\<rparr>)"

definition removeConfirmed :: "transaction list \<Rightarrow> mempool \<Rightarrow> mempool" where
  "removeConfirmed txs m = foldl (\<lambda>m tx. count_confirmed (removeTransaction (tx_txHash tx) m)) m txs"

definition evict_all :: "string list \<Rightarrow> mempool \<Rightarrow> mempool" where
  "evict_all hashes m = foldl (\<lambda>m h. count_evicted (removeTransaction h m)) m hashes"

definition over_capacity :: "mempool \<Rightarrow> bool" where
  "over_capacity m \<longleftrightarrow> \<not> (length (mp_entries m) \<le> mc_maxTxCount (mp_cfg m) \<and>
     mp_totalBytes m \<le> mc_maxTotalBytes (mp_cfg m))"

fun trim_loop :: "string list \<Rightarrow> mempool \<Rightarrow> mempool" where
  "trim_loop [] m = m"
| "trim_loop (h # hs) m =
     (if \<not> over_capacity m then m else trim_loop hs (count_evicted (removeTransaction h m)))"

definition trimToCapacity :: "u64 \<Rightarrow> mempool \<Rightarrow> mempool" where
  "trimToCapacity baseFee m =
     (if \<not> over_capacity m then m
      else
        let ranked = sort (map (\<lambda>(h, e). (effectiveFee (me_tx e) baseFee, h)) (mp_entries m))
        in trim_loop (map snd ranked) m)"

definition evictStaleOrphans :: "u64 \<Rightarrow> mempool \<Rightarrow> mempool" where
  "evictStaleOrphans now m =
     (let cutoff = now - mc_orphanMaxAgeSecs (mp_cfg m)
      in foldl (\<lambda>m (h, e). if me_addedAt e < cutoff
                          then count_orphansEvicted (m\<lparr>mp_orphans := map_erase h (mp_orphans m)\<rparr>) else m)
           m (mp_orphans m))"

definition evictStale :: "u64 \<Rightarrow> mempool \<Rightarrow> mempool" where
  "evictStale now m =
     (let cutoff = now - mc_maxTxAgeSeconds (mp_cfg m);
          toRemove = map fst (filter (\<lambda>(h, e). me_addedAt e < cutoff) (mp_entries m))
      in evictStaleOrphans now (evict_all toRemove m))"

definition evictLowFee :: "u64 \<Rightarrow> mempool \<Rightarrow> mempool" where
  "evictLowFee newBaseFee m =
     evict_all
       (map fst (filter (\<lambda>(h, e). effectiveFee (me_tx e) newBaseFee < mc_minFeePerGas (mp_cfg m)) (mp_entries m)))
       m"

section \<open>Admission\<close>

text \<open>\<^verbatim>\<open>std::min_element\<close>: the first of the oldest.\<close>

fun oldest :: "(string \<times> mempool_entry) list \<Rightarrow> string option" where
  "oldest [] = None"
| "oldest ((h, e) # es) =
     Some (fst (foldl (\<lambda>(bh, be) (h, e). if me_addedAt e < me_addedAt be then (h, e) else (bh, be)) (h, e) es))"

definition addOrphanLocked :: "u64 \<Rightarrow> transaction \<Rightarrow> mempool \<Rightarrow> mempool" where
  "addOrphanLocked now tx m =
     (let m = (if length (mp_orphans m) \<ge> mc_orphanMaxCount (mp_cfg m)
               then (case oldest (mp_orphans m) of
                       None \<Rightarrow> m
                     | Some h \<Rightarrow> count_orphansEvicted m\<lparr>mp_orphans := map_erase h (mp_orphans m)\<rparr>)
               else m);
          e = \<lparr>me_tx = tx, me_addedAt = now, me_effectiveFee = 0, me_txBytes = estimateTxBytes tx\<rparr>
      in count_orphansAdded (m\<lparr>mp_orphans := map_emplace (tx_txHash tx) e (mp_orphans m)\<rparr>))"

definition dependent :: "string \<Rightarrow> mempool_entry \<Rightarrow> bool" where
  "dependent txHash e = list_ex (\<lambda>i. in_prevTxHash i = txHash) (tx_inputs (me_tx e))"

text \<open>\<^verbatim>\<open>promoteOrphans\<close> up to its last loop: the orphans to add, taken out of the map.\<close>

definition take_dependents :: "string \<Rightarrow> mempool \<Rightarrow> transaction list \<times> mempool" where
  "take_dependents txHash m =
     (map (\<lambda>(h, e). me_tx e) (filter (\<lambda>(h, e). dependent txHash e) (mp_orphans m)),
      m\<lparr>mp_orphans := filter (\<lambda>(h, e). \<not> dependent txHash e) (mp_orphans m)\<rparr>)"

definition full_for :: "nat \<Rightarrow> mempool \<Rightarrow> bool" where
  "full_for txBytes m \<longleftrightarrow> length (mp_entries m) \<ge> mc_maxTxCount (mp_cfg m) \<or>
     mp_totalBytes m + word_of_nat txBytes > mc_maxTotalBytes (mp_cfg m)"

definition insert_entry :: "u64 \<Rightarrow> transaction \<Rightarrow> u64 \<Rightarrow> mempool \<Rightarrow> mempool" where
  "insert_entry now tx baseFee m =
     (let txBytes = estimateTxBytes tx;
          e = \<lparr>me_tx = tx, me_addedAt = now, me_effectiveFee = effectiveFee tx baseFee, me_txBytes = txBytes\<rparr>;
          m = m\<lparr>mp_spentOutpoints := mp_spentOutpoints m \<union> set (map outpoint (tx_inputs tx))\<rparr>;
          m = m\<lparr>mp_entries := map_emplace (tx_txHash tx) e (mp_entries m)\<rparr>;
          m = m\<lparr>mp_totalBytes := mp_totalBytes m + word_of_nat txBytes\<rparr>
      in count_added m)"

text \<open>
  \<^verbatim>\<open>addTransaction\<close> up to the insertion, and the answer. \<open>txBytes > 2^64 - 1 - curBytes\<close> is
  the code's overflow check.
\<close>

definition admit ::
    "(string \<Rightarrow> u32 \<Rightarrow> u64 option) \<Rightarrow> u64 \<Rightarrow> u64 \<Rightarrow> transaction \<Rightarrow> mempool \<Rightarrow> mempool \<times> bool" where
  "admit utxo now baseFee tx m =
     (if \<not> validateTx utxo tx baseFee m then (count_rejected m, False)
      else
        let txBytes = estimateTxBytes tx
        in if txBytes > 2 ^ 64 - 1 - unat (mp_totalBytes m) then (count_rejected m, False)
           else if map_of (mp_entries m) (tx_txHash tx) \<noteq> None then (count_rejected m, False)
           else if isDoubleSpend tx m then (count_dsRejected m, False)
           else if \<not> checkNonceOrdering tx m then (addOrphanLocked now tx m, False)
           else if full_for txBytes m
           then
             let m = trimToCapacity baseFee m
             in if map_of (mp_entries m) (tx_txHash tx) \<noteq> None then (count_rejected m, False)
                else if isDoubleSpend tx m then (count_dsRejected m, False)
                else if full_for txBytes m then (count_rejected m, False)
                else (insert_entry now tx baseFee m, True)
           else (insert_entry now tx baseFee m, True))"

text \<open>
  \<^verbatim>\<open>addTransaction\<close> promotes the dependents of an admitted transaction by calling itself
  on each; the pending calls are a stack. Every call either ends with one transaction less
  among the pending and the orphans, or puts one pending transaction back as an orphan.
\<close>

lemma length_map_erase_le: "length (map_erase k m) \<le> length m"
  by (simp add: map_erase_def)

lemma removeTransaction_orphans [simp]: "mp_orphans (removeTransaction h m) = mp_orphans m"
  by (simp add: removeTransaction_def enqueueUnpersist_def enqueue_def Let_def split: option.splits)

lemma count_orphans [simp]:
  "mp_orphans (count_rejected m) = mp_orphans m" "mp_orphans (count_dsRejected m) = mp_orphans m"
  "mp_orphans (count_evicted m) = mp_orphans m" "mp_orphans (count_added m) = mp_orphans m"
  by (simp_all add: count_defs)

lemma trim_loop_orphans [simp]: "mp_orphans (trim_loop hs m) = mp_orphans m"
  by (induction hs m rule: trim_loop.induct) simp_all

lemma trim_orphans [simp]: "mp_orphans (trimToCapacity f m) = mp_orphans m"
  by (simp add: trimToCapacity_def Let_def)

lemma length_addOrphan: "length (mp_orphans (addOrphanLocked now tx m)) \<le> length (mp_orphans m) + 1"
  using length_map_erase_le [of _ "mp_orphans m"]
  by (auto simp: addOrphanLocked_def map_emplace_def count_defs Let_def le_SucI split: option.splits)

lemma admit_orphans:
  "admit utxo now f tx m = (m', ok) \<Longrightarrow>
   (ok \<longrightarrow> mp_orphans m' = mp_orphans m) \<and> length (mp_orphans m') \<le> length (mp_orphans m) + 1"
  using length_addOrphan [of now tx m]
  by (auto simp: admit_def insert_entry_def Let_def split: if_splits)

lemma enqueuePersist_orphans [simp]: "mp_orphans (enqueuePersist tx m) = mp_orphans m"
  by (simp add: enqueuePersist_def enqueue_def Let_def)

lemma take_dependents_length:
  "take_dependents h m = (ps, m') \<Longrightarrow> length ps + length (mp_orphans m') = length (mp_orphans m)"
  using sum_length_filter_compl [of "\<lambda>(h', e). dependent h e" "mp_orphans m"]
  by (auto simp: take_dependents_def case_prod_unfold)

function add_work ::
    "(string \<Rightarrow> u32 \<Rightarrow> u64 option) \<Rightarrow> u64 \<Rightarrow> u64 \<Rightarrow> transaction list \<Rightarrow> mempool \<Rightarrow> mempool" where
  "add_work utxo now baseFee [] m = m"
| "add_work utxo now baseFee (tx # pending) m =
     (case admit utxo now baseFee tx m of (m, ok) \<Rightarrow>
       if ok
       then (case take_dependents (tx_txHash tx) (enqueuePersist tx m) of
               (toPromote, m) \<Rightarrow> add_work utxo now baseFee (toPromote @ pending) m)
       else add_work utxo now baseFee pending m)"
  by pat_completeness auto
termination
  by (relation "measures [\<lambda>(u, n, f, pending, m). length pending + length (mp_orphans m),
        \<lambda>(u, n, f, pending, m). length pending]")
     (auto dest!: admit_orphans take_dependents_length sym [of _ "admit _ _ _ _ _"]
        sym [of _ "take_dependents _ _"])

definition addTransaction ::
    "(string \<Rightarrow> u32 \<Rightarrow> u64 option) \<Rightarrow> u64 \<Rightarrow> u64 \<Rightarrow> transaction \<Rightarrow> mempool \<Rightarrow> mempool \<times> bool" where
  "addTransaction utxo now baseFee tx m =
     (case admit utxo now baseFee tx m of (m, ok) \<Rightarrow>
       if \<not> ok then (m, False)
       else
         let m = enqueuePersist tx m;
             (toPromote, m) = take_dependents (tx_txHash tx) m
         in (add_work utxo now baseFee toPromote m, True))"

definition reorgRestore ::
    "(string \<Rightarrow> u32 \<Rightarrow> u64 option) \<Rightarrow> u64 \<Rightarrow> transaction list \<Rightarrow> mempool \<Rightarrow> mempool" where
  "reorgRestore utxo now txs m =
     foldl (\<lambda>m tx. if map_of (mp_entries m) (tx_txHash tx) \<noteq> None then m
                  else fst (addTransaction utxo now (mc_minFeePerGas (mp_cfg m)) tx m)) m txs"

section \<open>Queries\<close>

definition hasTransaction :: "string \<Rightarrow> mempool \<Rightarrow> bool" where
  "hasTransaction txHash m = (map_of (mp_entries m) txHash \<noteq> None)"

definition getTransaction :: "string \<Rightarrow> mempool \<Rightarrow> transaction option" where
  "getTransaction txHash m = map_option me_tx (map_of (mp_entries m) txHash)"

definition getTransactions :: "mempool \<Rightarrow> transaction list" where
  "getTransactions m = map (\<lambda>(h, e). me_tx e) (mp_entries m)"

definition getPendingTxs :: "mempool \<Rightarrow> transaction list" where
  "getPendingTxs m = getTransactions m"

text \<open>Descending by fee; \<^verbatim>\<open>std::sort\<close> may order equal fees in another way.\<close>

definition getSortedByFee :: "nat \<Rightarrow> u64 \<Rightarrow> mempool \<Rightarrow> transaction list" where
  "getSortedByFee maxCount baseFee m =
     take maxCount (rev (sort_key (\<lambda>tx. effectiveFee tx baseFee) (getTransactions m)))"

definition txCount :: "mempool \<Rightarrow> nat" where
  "txCount m = length (mp_entries m)"

definition totalBytes :: "mempool \<Rightarrow> nat" where
  "totalBytes m = unat (mp_totalBytes m)"

definition minFee :: "mempool \<Rightarrow> u64" where
  "minFee m = mc_minFeePerGas (mp_cfg m)"

section \<open>The invariant\<close>

definition outs :: "mempool_entry \<Rightarrow> string set" where
  "outs e = set (map outpoint (tx_inputs (me_tx e)))"

definition slot :: "transaction \<Rightarrow> string \<times> u64" where
  "slot tx = (tx_toAddress tx, tx_nonce tx)"

text \<open>
  Each entry under its own hash with its own size; no two entries spend one output, and no
  two to one address have one nonce.
\<close>

definition entries_ok :: "(string \<times> mempool_entry) list \<Rightarrow> bool" where
  "entries_ok es \<longleftrightarrow> distinct (map fst es) \<and>
     (\<forall>(h, e)\<in>set es. tx_txHash (me_tx e) = h \<and> me_txBytes e = estimateTxBytes (me_tx e)) \<and>
     (\<forall>(h, e)\<in>set es. \<forall>(h', e')\<in>set es. h \<noteq> h' \<longrightarrow>
       outs e \<inter> outs e' = {} \<and> slot (me_tx e) \<noteq> slot (me_tx e'))"

definition mempool_wf :: "mempool \<Rightarrow> bool" where
  "mempool_wf m \<longleftrightarrow> entries_ok (mp_entries m) \<and>
     mp_spentOutpoints m = (\<Union>(h, e)\<in>set (mp_entries m). outs e) \<and>
     unat (mp_totalBytes m) = sum_list (map (\<lambda>(h, e). me_txBytes e) (mp_entries m)) \<and>
     length (mp_entries m) \<le> mc_maxTxCount (mp_cfg m) \<and>
     mp_totalBytes m \<le> mc_maxTotalBytes (mp_cfg m)"

lemma empty_mempool_wf: "mempool_wf (empty_mempool cfg)"
  by (simp add: mempool_wf_def empty_mempool_def entries_ok_def)

text \<open>The invariant speaks of four components only.\<close>

lemma mempool_wf_cong:
  "mp_entries m' = mp_entries m \<Longrightarrow> mp_spentOutpoints m' = mp_spentOutpoints m \<Longrightarrow>
   mp_totalBytes m' = mp_totalBytes m \<Longrightarrow> mp_cfg m' = mp_cfg m \<Longrightarrow> mempool_wf m' = mempool_wf m"
  by (simp add: mempool_wf_def)

lemma wf_ignores [simp]:
  "mempool_wf (count_rejected m) = mempool_wf m" "mempool_wf (count_dsRejected m) = mempool_wf m"
  "mempool_wf (count_evicted m) = mempool_wf m" "mempool_wf (count_added m) = mempool_wf m"
  "mempool_wf (count_confirmed m) = mempool_wf m" "mempool_wf (count_orphansAdded m) = mempool_wf m"
  "mempool_wf (count_orphansEvicted m) = mempool_wf m"
  "mempool_wf (enqueue j m) = mempool_wf m" "mempool_wf (m\<lparr>mp_orphans := x\<rparr>) = mempool_wf m"
  "mempool_wf (m\<lparr>mp_evictions := y\<rparr>) = mempool_wf m" "mempool_wf (m\<lparr>mp_queue := q\<rparr>) = mempool_wf m"
  by (rule mempool_wf_cong; simp add: count_defs enqueue_def Let_def)+

lemma wf_not_over: "mempool_wf m \<Longrightarrow> \<not> over_capacity m"
  by (simp add: mempool_wf_def over_capacity_def)

lemma wf_trim [simp]: "mempool_wf m \<Longrightarrow> trimToCapacity f m = m"
  by (simp add: trimToCapacity_def wf_not_over)

lemma map_of_split:
  "map_of es h = Some e \<Longrightarrow> distinct (map fst es) \<Longrightarrow>
   \<exists>xs ys. es = xs @ (h, e) # ys \<and> map_erase h es = xs @ ys"
proof -
  assume "map_of es h = Some e" and d: "distinct (map fst es)"
  then obtain xs ys where es: "es = xs @ (h, e) # ys"
    using split_list [OF map_of_SomeD] by metis
  have "filter (\<lambda>(k', v). k' \<noteq> h) zs = zs" if "h \<notin> set (map fst zs)" for zs :: "(string \<times> 'a) list"
    using that by (force simp: filter_id_conv)
  then have "map_erase h es = xs @ ys"
    using d by (simp add: es map_erase_def)
  with es show ?thesis by blast
qed

lemma entries_ok_disjoint:
  "entries_ok es \<Longrightarrow> (h, e) \<in> set es \<Longrightarrow> (h', e') \<in> set es \<Longrightarrow> h \<noteq> h' \<Longrightarrow>
   outs e \<inter> outs e' = {} \<and> slot (me_tx e) \<noteq> slot (me_tx e')"
  unfolding entries_ok_def by blast

lemma entries_ok_subset:
  "entries_ok es \<Longrightarrow> distinct (map fst es') \<Longrightarrow> set es' \<subseteq> set es \<Longrightarrow> entries_ok es'"
  unfolding entries_ok_def by blast

lemma entries_ok_hash: "entries_ok es \<Longrightarrow> (h, e) \<in> set es \<Longrightarrow> tx_txHash (me_tx e) = h"
  unfolding entries_ok_def by blast

lemma removeTransaction_wf:
  assumes "mempool_wf m"
  shows "mempool_wf (removeTransaction h m)"
proof (cases "map_of (mp_entries m) h")
  case None
  then show ?thesis using assms by (simp add: removeTransaction_def)
next
  case (Some e)
  have d: "distinct (map fst (mp_entries m))" using assms by (simp add: mempool_wf_def entries_ok_def)
  obtain xs ys where es: "mp_entries m = xs @ (h, e) # ys" and er: "map_erase h (mp_entries m) = xs @ ys"
    using map_of_split [OF Some d] by blast
  have sum: "unat (mp_totalBytes m) = me_txBytes e + sum_list (map (\<lambda>(h, e). me_txBytes e) (xs @ ys))"
    using assms by (simp add: mempool_wf_def es)
  have small: "me_txBytes e < 2 ^ 64"
    using sum unat_u64_less [of "mp_totalBytes m"] by (simp del: unat_u64_less)
  have sub: "unat (mp_totalBytes m - word_of_nat (me_txBytes e)) = unat (mp_totalBytes m) - me_txBytes e"
    using small sum by (subst unat_sub) (simp_all add: word_le_nat_alt unat_of_nat)
  have disj: "outs e \<inter> outs e' = {}" if "(h', e') \<in> set (xs @ ys)" for h' e'
  proof (rule entries_ok_disjoint [THEN conjunct1])
    show "entries_ok (mp_entries m)" using assms by (simp add: mempool_wf_def)
    show "(h, e) \<in> set (mp_entries m)" "(h', e') \<in> set (mp_entries m)" using that by (auto simp: es)
    show "h \<noteq> h'" using that d by (auto simp: es image_iff)
  qed
  have "mp_spentOutpoints m = outs e \<union> (\<Union>(h, e)\<in>set (xs @ ys). outs e)"
    using assms by (auto simp: mempool_wf_def es)
  moreover have "outs e \<inter> (\<Union>(h, e)\<in>set (xs @ ys). outs e) = {}"
    using disj by blast
  ultimately have spent: "mp_spentOutpoints m - outs e = (\<Union>(h, e)\<in>set (xs @ ys). outs e)"
    by blast
  have ok: "entries_ok (xs @ ys)"
  proof (rule entries_ok_subset)
    show "entries_ok (mp_entries m)" using assms by (simp add: mempool_wf_def)
    show "distinct (map fst (xs @ ys))" using d by (simp add: es)
    show "set (xs @ ys) \<subseteq> set (mp_entries m)" by (auto simp: es)
  qed
  have "mempool_wf (m\<lparr>mp_spentOutpoints := mp_spentOutpoints m - outs e, mp_entries := xs @ ys,
      mp_totalBytes := mp_totalBytes m - word_of_nat (me_txBytes e)\<rparr>)"
    using assms ok spent sub sum by (simp add: mempool_wf_def es word_le_nat_alt)
  then show ?thesis
    using Some er by (simp add: removeTransaction_def Let_def enqueueUnpersist_def outs_def)
qed


lemma removeTransaction_cfg [simp]: "mp_cfg (removeTransaction h m) = mp_cfg m"
  by (simp add: removeTransaction_def enqueueUnpersist_def enqueue_def Let_def split: option.splits)

lemma evict_all_wf: "mempool_wf m \<Longrightarrow> mempool_wf (evict_all hs m)"
  unfolding evict_all_def
  by (induction hs arbitrary: m) (simp_all add: removeTransaction_wf)

lemma removeConfirmed_wf: "mempool_wf m \<Longrightarrow> mempool_wf (removeConfirmed txs m)"
  unfolding removeConfirmed_def
  by (induction txs arbitrary: m) (simp_all add: removeTransaction_wf)

lemma evictStaleOrphans_wf: "mempool_wf m \<Longrightarrow> mempool_wf (evictStaleOrphans now m)"
proof -
  assume w: "mempool_wf m"
  have "mempool_wf (foldl (\<lambda>m (h, e). if me_addedAt e < c
          then count_orphansEvicted (m\<lparr>mp_orphans := map_erase h (mp_orphans m)\<rparr>) else m) n es)"
    if "mempool_wf n" for c n es
    using that by (induction es arbitrary: n) auto
  with w show ?thesis by (simp add: evictStaleOrphans_def Let_def)
qed

lemma evictStale_wf: "mempool_wf m \<Longrightarrow> mempool_wf (evictStale now m)"
  by (simp add: evictStale_def Let_def evict_all_wf evictStaleOrphans_wf)

lemma evictLowFee_wf: "mempool_wf m \<Longrightarrow> mempool_wf (evictLowFee f m)"
  by (simp add: evictLowFee_def evict_all_wf)

lemma addOrphan_wf: "mempool_wf m \<Longrightarrow> mempool_wf (addOrphanLocked now tx m)"
  by (simp add: addOrphanLocked_def Let_def split: option.splits)

text \<open>An insertion the checks allow.\<close>

lemma entries_ok_append:
  "entries_ok es \<Longrightarrow> map_of es h = None \<Longrightarrow> tx_txHash (me_tx e) = h \<Longrightarrow>
   me_txBytes e = estimateTxBytes (me_tx e) \<Longrightarrow>
   outs e \<inter> (\<Union>(h, e)\<in>set es. outs e) = {} \<Longrightarrow>
   slot (me_tx e) \<notin> (\<lambda>(h, e). slot (me_tx e)) ` set es \<Longrightarrow> entries_ok (es @ [(h, e)])"
  unfolding entries_ok_def map_of_eq_None_iff by (simp add: image_iff, fastforce)

text \<open>The scan of the nonces: its result bounds every nonce of the address.\<close>

lemma nonce_scan:
  "foldl (\<lambda>(maxNonce, found) (h, e).
            if tx_toAddress (me_tx e) = a
            then (if \<not> found \<or> tx_nonce (me_tx e) > maxNonce then (tx_nonce (me_tx e), True)
                  else (maxNonce, found))
            else (maxNonce, found)) (x, found) es = (y, f') \<Longrightarrow>
   (found \<longrightarrow> f' \<and> x \<le> y) \<and> (\<forall>(h, e)\<in>set es. tx_toAddress (me_tx e) = a \<longrightarrow> f' \<and> tx_nonce (me_tx e) \<le> y)"
proof (induction es arbitrary: x found)
  case (Cons p es)
  obtain h e where p: "p = (h, e)" by (cases p)
  show ?case
  proof (cases "tx_toAddress (me_tx e) = a \<and> (\<not> found \<or> tx_nonce (me_tx e) > x)")
    case True
    then show ?thesis
      using Cons.IH [of "tx_nonce (me_tx e)" True] Cons.prems by (auto simp: p)
  next
    case False
    then show ?thesis
      using Cons.IH [of x found] Cons.prems by (auto simp: p split: if_splits)
  qed
qed simp

lemma checkNonce_slot:
  "checkNonceOrdering tx m \<Longrightarrow> slot tx \<notin> (\<lambda>(h, e). slot (me_tx e)) ` set (mp_entries m)"
  unfolding checkNonceOrdering_def Let_def
  by (auto simp: slot_def split: prod.splits if_splits dest!: nonce_scan)

lemma isDoubleSpend_disjoint:
  "\<not> isDoubleSpend tx m \<longleftrightarrow> set (map outpoint (tx_inputs tx)) \<inter> mp_spentOutpoints m = {}"
  by (auto simp: isDoubleSpend_def list_ex_iff)

lemma insert_entry_wf:
  assumes w: "mempool_wf m"
    and fresh: "map_of (mp_entries m) (tx_txHash tx) = None"
    and ds: "\<not> isDoubleSpend tx m"
    and nonce: "checkNonceOrdering tx m"
    and fits: "\<not> full_for (estimateTxBytes tx) m"
    and nowrap: "estimateTxBytes tx \<le> 2 ^ 64 - 1 - unat (mp_totalBytes m)"
  shows "mempool_wf (insert_entry now tx f m)"
proof -
  let ?e = "\<lparr>me_tx = tx, me_addedAt = now, me_effectiveFee = effectiveFee tx f, me_txBytes = estimateTxBytes tx\<rparr>"
  let ?b = "word_of_nat (estimateTxBytes tx) :: u64"
  have b: "unat (mp_totalBytes m) + estimateTxBytes tx < 2 ^ 64"
    using nowrap unat_u64_less [of "mp_totalBytes m"] by (simp del: unat_u64_less)
  then have ub: "unat ?b = estimateTxBytes tx" by (simp add: unat_of_nat)
  have add: "unat (mp_totalBytes m + ?b) = unat (mp_totalBytes m) + estimateTxBytes tx"
    using b ub by (simp add: unat_word_ariths)
  have spent: "mp_spentOutpoints m = (\<Union>(h, e)\<in>set (mp_entries m). outs e)"
    using w by (simp add: mempool_wf_def)
  have "entries_ok (mp_entries m @ [(tx_txHash tx, ?e)])"
  proof (rule entries_ok_append)
    show "entries_ok (mp_entries m)" using w by (simp add: mempool_wf_def)
    show "outs ?e \<inter> (\<Union>(h, e)\<in>set (mp_entries m). outs e) = {}"
      using ds unfolding isDoubleSpend_disjoint spent by (simp add: outs_def [of ?e])
    show "slot (me_tx ?e) \<notin> (\<lambda>(h, e). slot (me_tx e)) ` set (mp_entries m)"
      using checkNonce_slot [OF nonce] by simp
  qed (use fresh in simp_all)
  moreover have "set (map outpoint (tx_inputs tx)) = outs ?e" by (simp add: outs_def)
  moreover have "mp_spentOutpoints m \<union> outs ?e = (\<Union>(h, e)\<in>set (mp_entries m @ [(tx_txHash tx, ?e)]). outs e)"
    by (auto simp: spent)
  ultimately show ?thesis
    using w fresh fits add
    by (simp add: mempool_wf_def insert_entry_def map_emplace_def full_for_def Let_def count_added_def
        not_less)
qed

lemma admit_wf: "mempool_wf m \<Longrightarrow> admit utxo now f tx m = (m', ok) \<Longrightarrow> mempool_wf m'"
  by (auto simp: admit_def Let_def insert_entry_wf addOrphan_wf split: if_splits)

lemma enqueuePersist_wf [simp]: "mempool_wf (enqueuePersist tx m) = mempool_wf m"
  by (simp add: enqueuePersist_def)

lemma take_dependents_wf: "mempool_wf m \<Longrightarrow> take_dependents h m = (ps, m') \<Longrightarrow> mempool_wf m'"
  by (auto simp: take_dependents_def)

lemma promote_wf:
  "mempool_wf m \<Longrightarrow> admit utxo now f tx m = (m1, ok) \<Longrightarrow>
   take_dependents h (enqueuePersist tx m1) = (ps, m2) \<Longrightarrow> mempool_wf m2"
  using admit_wf take_dependents_wf enqueuePersist_wf by metis

lemma add_work_wf: "mempool_wf m \<Longrightarrow> mempool_wf (add_work utxo now f ps m)"
proof (induction utxo now f ps m rule: add_work.induct)
  case (2 utxo now f tx ps m)
  show ?case
    using "2.prems" "2.IH"
    by (auto split: prod.split dest: admit_wf promote_wf)
qed simp

lemma addTransaction_wf: "mempool_wf m \<Longrightarrow> mempool_wf (fst (addTransaction utxo now f tx m))"
  by (auto simp: addTransaction_def Let_def add_work_wf split: prod.split dest: admit_wf promote_wf)

lemma reorgRestore_wf: "mempool_wf m \<Longrightarrow> mempool_wf (reorgRestore utxo now txs m)"
  unfolding reorgRestore_def
  by (induction txs arbitrary: m) (simp_all add: addTransaction_wf)

section \<open>Runs\<close>

text \<open>The public methods that change the pool, and the worker's rounds.\<close>

datatype mempool_op =
    Add u64 u64 transaction
  | Reorg u64 "transaction list"
  | Confirm "transaction list"
  | Remove string
  | Stale u64
  | StaleOrphans u64
  | LowFee u64
  | Trim u64
  | Worker "bool option"

definition mempool_step :: "(string \<Rightarrow> u32 \<Rightarrow> u64 option) \<Rightarrow> mempool_op \<Rightarrow> mempool \<Rightarrow> mempool" where
  "mempool_step utxo op m =
     (case op of
        Add now baseFee tx \<Rightarrow> fst (addTransaction utxo now baseFee tx m)
      | Reorg now txs \<Rightarrow> reorgRestore utxo now txs m
      | Confirm txs \<Rightarrow> removeConfirmed txs m
      | Remove h \<Rightarrow> removeTransaction h m
      | Stale now \<Rightarrow> evictStale now m
      | StaleOrphans now \<Rightarrow> evictStaleOrphans now m
      | LowFee f \<Rightarrow> evictLowFee f m
      | Trim f \<Rightarrow> trimToCapacity f m
      | Worker status \<Rightarrow> (case persist_take m of (batch, m) \<Rightarrow> persist_done status batch m))"

definition mempool_run :: "(string \<Rightarrow> u32 \<Rightarrow> u64 option) \<Rightarrow> mempool_op list \<Rightarrow> mempool \<Rightarrow> mempool" where
  "mempool_run utxo ops m = foldl (\<lambda>m op. mempool_step utxo op m) m ops"

lemma worker_wf: "mempool_wf m \<Longrightarrow> persist_take m = (b, m') \<Longrightarrow> mempool_wf (persist_done st b m')"
  by (auto simp: persist_take_def persist_done_def Let_def split: option.split)

lemmas mempool_wf_intros = removeTransaction_wf removeConfirmed_wf evictStale_wf evictStaleOrphans_wf
  evictLowFee_wf addTransaction_wf reorgRestore_wf

lemma mempool_step_wf: "mempool_wf m \<Longrightarrow> mempool_wf (mempool_step utxo op m)"
  by (cases op) (auto simp: mempool_step_def mempool_wf_intros intro: worker_wf split: prod.split)

lemma mempool_run_wf: "mempool_wf m \<Longrightarrow> mempool_wf (mempool_run utxo ops m)"
  unfolding mempool_run_def
  by (induction ops arbitrary: m) (simp_all add: mempool_step_wf)

lemma cfg_ignores [simp]:
  "mp_cfg (count_rejected m) = mp_cfg m" "mp_cfg (count_dsRejected m) = mp_cfg m"
  "mp_cfg (count_evicted m) = mp_cfg m" "mp_cfg (count_added m) = mp_cfg m"
  "mp_cfg (count_confirmed m) = mp_cfg m" "mp_cfg (count_orphansAdded m) = mp_cfg m"
  "mp_cfg (count_orphansEvicted m) = mp_cfg m" "mp_cfg (enqueuePersist tx m) = mp_cfg m"
  "mp_cfg (insert_entry now tx f m) = mp_cfg m"
  by (simp_all add: count_defs enqueuePersist_def enqueue_def insert_entry_def Let_def)

lemma addOrphan_cfg [simp]: "mp_cfg (addOrphanLocked now tx m) = mp_cfg m"
  by (simp add: addOrphanLocked_def Let_def split: option.splits)

lemma trim_loop_cfg [simp]: "mp_cfg (trim_loop hs m) = mp_cfg m"
  by (induction hs m rule: trim_loop.induct) simp_all

lemma trim_cfg [simp]: "mp_cfg (trimToCapacity f m) = mp_cfg m"
  by (simp add: trimToCapacity_def Let_def)

lemma admit_cfg: "admit utxo now f tx m = (m', ok) \<Longrightarrow> mp_cfg m' = mp_cfg m"
  by (auto simp: admit_def Let_def split: if_splits)

lemma take_dependents_cfg: "take_dependents h m = (ps, m') \<Longrightarrow> mp_cfg m' = mp_cfg m"
  by (auto simp: take_dependents_def)

lemma promote_cfg:
  "admit utxo now f tx m = (m1, ok) \<Longrightarrow> take_dependents h (enqueuePersist tx m1) = (ps, m2) \<Longrightarrow>
   mp_cfg m2 = mp_cfg m"
  by (drule admit_cfg, drule take_dependents_cfg) simp

lemma add_work_cfg [simp]: "mp_cfg (add_work utxo now f ps m) = mp_cfg m"
proof (induction utxo now f ps m rule: add_work.induct)
  case (2 utxo now f tx ps m)
  then show ?case
    by (auto split: prod.split dest: admit_cfg promote_cfg)
qed simp

lemma addTransaction_cfg [simp]: "mp_cfg (fst (addTransaction utxo now f tx m)) = mp_cfg m"
  by (auto simp: addTransaction_def Let_def split: prod.split dest: admit_cfg promote_cfg)

lemma foldl_cfg:
  "(\<And>m x. mp_cfg (f m x) = mp_cfg m) \<Longrightarrow> mp_cfg (foldl f m xs) = mp_cfg m"
  by (induction xs arbitrary: m) simp_all

lemma loops_cfg [simp]:
  "mp_cfg (evict_all hs m) = mp_cfg m" "mp_cfg (removeConfirmed txs m) = mp_cfg m"
  "mp_cfg (reorgRestore utxo now txs m) = mp_cfg m" "mp_cfg (evictStaleOrphans now m) = mp_cfg m"
  unfolding evict_all_def removeConfirmed_def reorgRestore_def evictStaleOrphans_def Let_def
  by (rule foldl_cfg; auto)+

lemma mempool_step_cfg [simp]: "mp_cfg (mempool_step utxo op m) = mp_cfg m"
  by (cases op)
    (auto simp: mempool_step_def evictStale_def evictLowFee_def persist_take_def persist_done_def Let_def
      split: prod.split option.split)

lemma mempool_run_cfg [simp]: "mp_cfg (mempool_run utxo ops m) = mp_cfg m"
  unfolding mempool_run_def by (rule foldl_cfg) simp

section \<open>Properties\<close>

definition no_conflict :: "transaction \<Rightarrow> transaction \<Rightarrow> bool" where
  "no_conflict t t' \<longleftrightarrow> tx_txHash t \<noteq> tx_txHash t' \<and> slot t \<noteq> slot t' \<and>
     set (map outpoint (tx_inputs t)) \<inter> set (map outpoint (tx_inputs t')) = {}"

lemma entries_no_conflict: "entries_ok es \<Longrightarrow> sorted_wrt no_conflict (map (\<lambda>(h, e). me_tx e) es)"
proof (induction es)
  case (Cons p es)
  obtain h0 e0 where p: "p = (h0, e0)" by (cases p)
  have "entries_ok es"
    by (rule entries_ok_subset [OF Cons.prems]) (use Cons.prems in \<open>auto simp: entries_ok_def\<close>)
  moreover have "no_conflict (me_tx e0) (me_tx e)" if e: "(h, e) \<in> set es" for h e
  proof -
    have "distinct (map fst (p # es))" using Cons.prems unfolding entries_ok_def by (rule conjunct1)
    then have "h0 \<noteq> h" using e by (force simp: p)
    moreover have "(h0, e0) \<in> set (p # es)" "(h, e) \<in> set (p # es)" using e p by simp_all
    note this [THEN entries_ok_hash [OF Cons.prems]]
    moreover have "outs e0 \<inter> outs e = {} \<and> slot (me_tx e0) \<noteq> slot (me_tx e)"
      by (rule entries_ok_disjoint [OF Cons.prems]) (use e \<open>h0 \<noteq> h\<close> p in auto)
    ultimately show ?thesis by (simp add: no_conflict_def outs_def)
  qed
  ultimately show ?case using Cons.IH unfolding p by fastforce
qed simp

lemma entries_bytes:
  "entries_ok es \<Longrightarrow> sum_list (map (\<lambda>(h, e). me_txBytes e) es) =
     sum_list (map estimateTxBytes (map (\<lambda>(h, e). me_tx e) es))"
  unfolding entries_ok_def map_map
  by (rule arg_cong [where f = sum_list]) (auto intro!: map_cong)

text \<open>
  C4: in every state reached from the empty pool by any sequence of additions, reorganisations,
  confirmations, removals, evictions and worker rounds, against any UTXO set, no two pooled
  transactions have one hash, spend one output, or have one recipient and nonce; the outputs
  recorded as spent are those their inputs name; the byte counter is the exact sum of their
  sizes; and count and bytes are within the configured capacity.
\<close>

theorem mempool_invariant:
  "let m = mempool_run utxo ops (empty_mempool cfg); txs = getTransactions m
   in sorted_wrt no_conflict txs \<and>
      mp_spentOutpoints m = set (concat (map (\<lambda>t. map outpoint (tx_inputs t)) txs)) \<and>
      totalBytes m = sum_list (map estimateTxBytes txs) \<and>
      txCount m \<le> mc_maxTxCount cfg \<and> totalBytes m \<le> unat (mc_maxTotalBytes cfg)"
proof -
  let ?m = "mempool_run utxo ops (empty_mempool cfg)"
  have w: "mempool_wf ?m" by (simp add: mempool_run_wf empty_mempool_wf)
  have cfg: "mp_cfg ?m = cfg" by (simp add: empty_mempool_def)
  have ok: "entries_ok (mp_entries ?m)" using w by (simp add: mempool_wf_def)
  have "mp_spentOutpoints ?m = (\<Union>(h, e)\<in>set (mp_entries ?m). outs e)"
    using w by (simp add: mempool_wf_def)
  then have sp: "mp_spentOutpoints ?m = set (concat (map (\<lambda>t. map outpoint (tx_inputs t)) (getTransactions ?m)))"
    by (auto simp: getTransactions_def outs_def)
  show ?thesis
    unfolding Let_def
    using w cfg entries_no_conflict [OF ok] entries_bytes [OF ok] sp
    by (simp add: mempool_wf_def getTransactions_def totalBytes_def txCount_def word_le_nat_alt)
qed

text \<open>What an accepted call leaves: entries are only added.\<close>

lemma count_entries [simp]:
  "mp_entries (count_rejected m) = mp_entries m" "mp_entries (count_dsRejected m) = mp_entries m"
  "mp_entries (count_evicted m) = mp_entries m" "mp_entries (count_added m) = mp_entries m"
  "mp_entries (enqueuePersist tx m) = mp_entries m"
  by (simp_all add: count_defs enqueuePersist_def enqueue_def Let_def)

lemma addOrphan_entries [simp]: "mp_entries (addOrphanLocked now tx m) = mp_entries m"
  by (simp add: addOrphanLocked_def count_defs Let_def split: option.splits)

lemma insert_entry_entries:
  "map_of (mp_entries m) (tx_txHash tx) = None \<Longrightarrow>
   mp_entries (insert_entry now tx f m) = mp_entries m @
     [(tx_txHash tx, \<lparr>me_tx = tx, me_addedAt = now, me_effectiveFee = effectiveFee tx f,
                      me_txBytes = estimateTxBytes tx\<rparr>)]"
  by (simp add: insert_entry_def map_emplace_def Let_def count_added_def)

lemma admit_entries:
  "mempool_wf m \<Longrightarrow> admit utxo now f tx m = (m', ok) \<Longrightarrow>
   mp_entries m' = mp_entries m @ (if ok then
     [(tx_txHash tx, \<lparr>me_tx = tx, me_addedAt = now, me_effectiveFee = effectiveFee tx f,
                      me_txBytes = estimateTxBytes tx\<rparr>)] else [])"
  by (auto simp: admit_def Let_def insert_entry_entries split: if_splits)

lemma take_dependents_entries: "take_dependents h m = (ps, m') \<Longrightarrow> mp_entries m' = mp_entries m"
  by (auto simp: take_dependents_def)

lemma promote_entries:
  "mempool_wf m \<Longrightarrow> admit utxo now f tx m = (m1, True) \<Longrightarrow>
   take_dependents h (enqueuePersist tx m1) = (ps, m2) \<Longrightarrow>
   mp_entries m2 = mp_entries m @
     [(tx_txHash tx, \<lparr>me_tx = tx, me_addedAt = now, me_effectiveFee = effectiveFee tx f,
                      me_txBytes = estimateTxBytes tx\<rparr>)]"
  by (drule (1) admit_entries, drule take_dependents_entries) simp

lemma add_work_entries:
  "mempool_wf m \<Longrightarrow> \<exists>zs. mp_entries (add_work utxo now f ps m) = mp_entries m @ zs"
proof (induction utxo now f ps m rule: add_work.induct)
  case (2 utxo now f tx ps m)
  obtain m1 ok where a: "admit utxo now f tx m = (m1, ok)" by fastforce
  obtain qs m2 where t: "take_dependents (tx_txHash tx) (enqueuePersist tx m1) = (qs, m2)" by fastforce
  show ?case
  proof (cases ok)
    case True
    have "\<exists>zs. mp_entries (add_work utxo now f (qs @ ps) m2) = mp_entries m2 @ zs"
      using "2.IH"(1) [OF a [symmetric] True t [symmetric]]
        promote_wf [OF "2.prems" a t] by blast
    then show ?thesis
      using a t True promote_entries [OF "2.prems" _ t] by auto
  next
    case False
    then show ?thesis
      using "2.IH"(2) [OF a [symmetric] False] admit_wf [OF "2.prems" a] admit_entries [OF "2.prems" a] a
      by auto
  qed
qed simp

lemma addTransaction_admit:
  "addTransaction utxo now f tx m = (m', ok) \<Longrightarrow> \<exists>m1. admit utxo now f tx m = (m1, ok)"
  by (auto simp: addTransaction_def Let_def split: prod.splits if_splits)

lemma addTransaction_entries:
  assumes w: "mempool_wf m" and a: "addTransaction utxo now f tx m = (m', True)"
  shows "\<exists>e zs. mp_entries m' = mp_entries m @ (tx_txHash tx, e) # zs \<and> me_tx e = tx"
proof -
  obtain m1 qs m2 where a1: "admit utxo now f tx m = (m1, True)"
    and t: "take_dependents (tx_txHash tx) (enqueuePersist tx m1) = (qs, m2)"
    and m': "m' = add_work utxo now f qs m2"
    using a by (auto simp: addTransaction_def Let_def split: prod.splits if_splits)
  then show ?thesis
    using add_work_entries [OF promote_wf [OF w a1 t], of utxo now f qs]
      promote_entries [OF w a1 t] by auto
qed

lemma sum_inputs_exact:
  "sum_inputs utxo is a = Some b \<Longrightarrow>
   list_all (\<lambda>i. utxo (in_prevTxHash i) (in_outputIndex i) \<noteq> None) is \<and>
   unat b = unat a + sum_list (map (\<lambda>i. unat (the (utxo (in_prevTxHash i) (in_outputIndex i)))) is)"
proof (induction "is" arbitrary: a)
  case (Cons i "is")
  then obtain v where v: "utxo (in_prevTxHash i) (in_outputIndex i) = Some v" "\<not> v > - 1 - a"
    "sum_inputs utxo is (a + v) = Some b"
    by (auto split: option.splits if_splits)
  have "unat (a + v) = unat a + unat v" using v(2) by (rule unat_add_checked)
  with Cons.IH [OF v(3)] v show ?case by simp
qed simp

lemma sum_outputs_exact:
  "sum_outputs ys a = Some b \<Longrightarrow> unat b = unat a + sum_list (map (\<lambda>y. unat (out_value y)) ys)"
proof (induction ys arbitrary: a)
  case (Cons y ys)
  then have v: "\<not> out_value y > - 1 - a" "sum_outputs ys (a + out_value y) = Some b"
    by (auto split: if_splits)
  show ?case using Cons.IH [OF v(2)] unat_add_checked [OF v(1)] by simp
qed simp

definition funded :: "(string \<Rightarrow> u32 \<Rightarrow> u64 option) \<Rightarrow> transaction \<Rightarrow> bool" where
  "funded utxo tx \<longleftrightarrow>
     list_all (\<lambda>i. utxo (in_prevTxHash i) (in_outputIndex i) \<noteq> None) (tx_inputs tx) \<and>
     sum_list (map (\<lambda>y. unat (out_value y)) (tx_outputs tx)) \<le>
       sum_list (map (\<lambda>i. unat (the (utxo (in_prevTxHash i) (in_outputIndex i)))) (tx_inputs tx))"

lemma validateTx_funded: "validateTx utxo tx f m \<Longrightarrow> tx_inputs tx = [] \<or> funded utxo tx"
  by (auto simp: validateTx_def funded_def word_le_nat_alt not_less split: if_splits option.splits
      dest!: sum_inputs_exact sum_outputs_exact)

text \<open>
  an accepted transaction is in the pool, behind the entries that were there, all of which
  remain; it is valid, pays at least the minimum fee, did not exceed the capacity, and when it
  has inputs each is an unspent output and together they cover its outputs, as exact sums
  rather than sums modulo 2^64.
\<close>

theorem addTransaction_accepts:
  assumes "mempool_wf m" and "addTransaction utxo now f tx m = (m', True)"
  shows "(\<exists>rest. getTransactions m' = getTransactions m @ tx # rest) \<and>
    getTransaction (tx_txHash tx) m' = Some tx \<and> getTransaction (tx_txHash tx) m = None \<and>
    tx_isValid tx \<and> mc_minFeePerGas (mp_cfg m) \<le> effectiveFee tx f \<and>
    \<not> full_for (estimateTxBytes tx) m \<and> \<not> isDoubleSpend tx m \<and> checkNonceOrdering tx m \<and>
    (tx_inputs tx = [] \<or> funded utxo tx)"
proof -
  obtain e zs where es: "mp_entries m' = mp_entries m @ (tx_txHash tx, e) # zs" "me_tx e = tx"
    using addTransaction_entries [OF assms] by blast
  obtain m1 where "admit utxo now f tx m = (m1, True)"
    using addTransaction_admit [OF assms(2)] by blast
  then have c: "validateTx utxo tx f m" "map_of (mp_entries m) (tx_txHash tx) = None"
    "\<not> isDoubleSpend tx m" "checkNonceOrdering tx m" "\<not> full_for (estimateTxBytes tx) m"
    using assms(1) by (auto simp: admit_def Let_def split: if_splits)
  then have "tx_isValid tx" "mc_minFeePerGas (mp_cfg m) \<le> effectiveFee tx f"
    by (auto simp: validateTx_def split: if_splits)
  with c es show ?thesis
    by (simp add: getTransactions_def getTransaction_def map_add_def validateTx_funded)
qed

text \<open>
  a full pool accepts nothing: whatever fee a transaction offers, when the pool cannot hold
  it as it is the call answers no and every pooled transaction stays. (The trimming that is
  to make room only acts on a pool above its capacity, and the pool never is.)
\<close>

theorem full_pool_rejects:
  assumes "mempool_wf m" and "full_for (estimateTxBytes tx) m"
  shows "\<not> snd (addTransaction utxo now f tx m) \<and>
    mp_entries (fst (addTransaction utxo now f tx m)) = mp_entries m"
proof -
  obtain m1 ok where a: "admit utxo now f tx m = (m1, ok)" by fastforce
  then have "\<not> ok" using assms by (auto simp: admit_def Let_def split: if_splits)
  with a admit_entries [OF assms(1) a] show ?thesis by (simp add: addTransaction_def)
qed

lemma removeTransaction_entries [simp]: "mp_entries (removeTransaction h m) = map_erase h (mp_entries m)"
proof (cases "map_of (mp_entries m) h")
  case None
  then have "map_erase h (mp_entries m) = mp_entries m"
    by (force simp: map_erase_def filter_id_conv map_of_eq_None_iff)
  with None show ?thesis by (simp add: removeTransaction_def)
next
  case (Some e)
  then show ?thesis by (simp add: removeTransaction_def enqueueUnpersist_def enqueue_def Let_def)
qed

lemma evict_all_entries:
  "mp_entries (evict_all hs m) = filter (\<lambda>(h, e). h \<notin> set hs) (mp_entries m)"
  unfolding evict_all_def
  by (induction hs arbitrary: m) (auto simp: map_erase_def case_prod_unfold intro: filter_cong)

lemma evictStaleOrphans_entries [simp]: "mp_entries (evictStaleOrphans now m) = mp_entries m"
proof -
  have "mp_entries (foldl (\<lambda>m (h, e). if me_addedAt e < c
          then count_orphansEvicted (m\<lparr>mp_orphans := map_erase h (mp_orphans m)\<rparr>) else m) n es) = mp_entries n"
    for c n es
    by (induction es arbitrary: n) (auto simp: count_defs)
  then show ?thesis by (simp add: evictStaleOrphans_def Let_def)
qed

lemma filter_not_marked:
  assumes "distinct (map fst es)"
  shows "filter (\<lambda>x. fst x \<notin> fst ` {x \<in> set es. P x}) es = filter (\<lambda>x. \<not> P x) es"
proof (rule filter_cong [OF refl])
  fix x assume x: "x \<in> set es"
  have i: "y = x" if "y \<in> set es" "fst y = fst x" for y
    using assms x that unfolding distinct_map inj_on_def by blast
  show "(fst x \<notin> fst ` {x \<in> set es. P x}) = (\<not> P x)"
    unfolding image_iff using x i by fastforce
qed

text \<open>
  eviction by age. With the clock at least the configured age the transactions that stay
  are exactly those at most that old; before that the cutoff \<open>now - maxTxAgeSeconds\<close> wraps and
  every transaction is evicted, however recent.
\<close>

theorem evictStale_exact:
  assumes "mempool_wf m" and "list_all (\<lambda>(h, e). me_addedAt e \<le> now) (mp_entries m)"
  shows "mp_entries (evictStale now m) =
    (if mc_maxTxAgeSeconds (mp_cfg m) \<le> now
     then filter (\<lambda>(h, e). unat now - unat (me_addedAt e) \<le> unat (mc_maxTxAgeSeconds (mp_cfg m))) (mp_entries m)
     else [])"
proof -
  let ?a = "mc_maxTxAgeSeconds (mp_cfg m)"
  have d: "distinct (map fst (mp_entries m))" using assms(1) by (simp add: mempool_wf_def entries_ok_def)
  have "mp_entries (evictStale now m) = filter (\<lambda>(h, e). \<not> me_addedAt e < now - ?a) (mp_entries m)"
    by (simp add: evictStale_def Let_def evict_all_entries filter_not_marked [OF d] case_prod_unfold)
  also have "\<dots> = (if ?a \<le> now
     then filter (\<lambda>(h, e). unat now - unat (me_addedAt e) \<le> unat ?a) (mp_entries m) else [])"
  proof (cases "?a \<le> now")
    case True
    then show ?thesis
      using assms(2) by (auto simp: list_all_iff word_less_nat_alt word_le_nat_alt unat_sub intro!: filter_cong)
  next
    case False
    then have "me_addedAt e < now - ?a" if "(h, e) \<in> set (mp_entries m)" for h e
      using assms(2) that wrap_above [of now ?a] by (force simp: list_all_iff)
    with False show ?thesis by (auto simp: filter_empty_conv)
  qed
  finally show ?thesis .
qed

section \<open>Witnesses\<close>

text \<open>A payment of 7 from an output worth 9, and pools with room for a number of transactions.\<close>

definition sample_tx :: transaction where
  "sample_tx = default_tx\<lparr>tx_txHash := replicate 64 CHR ''a'', tx_toAddress := ''bob'', tx_nonce := 1,
     tx_maxFeePerGas := 5, tx_maxPriorityFeePerGas := 1, tx_value := 7,
     tx_inputs := [\<lparr>in_prevTxHash = ''p'', in_outputIndex = 0\<rparr>],
     tx_outputs := [\<lparr>out_value = 7, out_address = ''bob''\<rparr>]\<rparr>"

definition sample_utxo :: "string \<Rightarrow> u32 \<Rightarrow> u64 option" where
  "sample_utxo h i = (if h = ''p'' \<and> i = 0 then Some 9 else None)"

definition small_pool :: "nat \<Rightarrow> mempool" where
  "small_pool n = empty_mempool (default_mempool_config\<lparr>mc_maxTxCount := n\<rparr>)"

lemmas pool_eval = small_pool_def empty_mempool_def default_mempool_config_def

lemma sample_valid: "validateTx sample_utxo sample_tx 3 (small_pool n)"
  by (simp add: validateTx_def sample_tx_def default_tx_def sample_utxo_def pool_eval tx_isValid_def
      effectiveFee_def Let_def)

lemma sample_bytes: "estimateTxBytes sample_tx = 295"
  by (simp add: estimateTxBytes_def sample_tx_def default_tx_def)

lemma sample_accepted: "snd (addTransaction sample_utxo 10 3 sample_tx (small_pool 2))"
proof -
  have "\<not> isDoubleSpend sample_tx (small_pool 2)" by (simp add: isDoubleSpend_def pool_eval list_ex_iff)
  then have "snd (admit sample_utxo 10 3 sample_tx (small_pool 2))"
    using sample_valid [of 2]
    by (simp add: admit_def sample_bytes checkNonceOrdering_def full_for_def pool_eval Let_def)
  then show ?thesis by (auto simp: addTransaction_def Let_def split: prod.splits)
qed

lemma sample_time:
  "list_all (\<lambda>(h, e). me_addedAt e \<le> 10) (mp_entries (fst (addTransaction sample_utxo 10 3 sample_tx (small_pool 2))))"
proof -
  obtain m1 ok where a: "admit sample_utxo 10 3 sample_tx (small_pool 2) = (m1, ok)" by fastforce
  have w: "mempool_wf (small_pool 2)" by (simp add: small_pool_def empty_mempool_wf)
  have none: "mp_orphans (small_pool 2) = []" by (simp add: pool_eval)
  show ?thesis
    using a admit_entries [OF w a] admit_orphans [OF a] none
    by (auto simp: addTransaction_def take_dependents_def Let_def pool_eval)
qed

lemma addTransaction_accepts_witness:
  "\<exists>rest. getTransactions (fst (addTransaction sample_utxo 10 3 sample_tx (small_pool 2))) =
     getTransactions (small_pool 2) @ sample_tx # rest"
proof -
  have "addTransaction sample_utxo 10 3 sample_tx (small_pool 2) =
      (fst (addTransaction sample_utxo 10 3 sample_tx (small_pool 2)), True)"
    using sample_accepted by (simp add: prod_eq_iff)
  from addTransaction_accepts [OF _ this] show ?thesis by (simp add: small_pool_def empty_mempool_wf)
qed

lemma full_pool_rejects_witness:
  "\<not> snd (addTransaction sample_utxo 10 1000000 sample_tx (small_pool 0))"
proof -
  have "mempool_wf (small_pool 0)" by (simp add: small_pool_def empty_mempool_wf)
  moreover have "full_for (estimateTxBytes sample_tx) (small_pool 0)" by (simp add: full_for_def pool_eval)
  ultimately show ?thesis using full_pool_rejects by blast
qed

text \<open>Ten seconds after the clock's origin nothing survives.\<close>

lemma evictStale_exact_witness:
  "mp_entries (evictStale 10 (fst (addTransaction sample_utxo 10 3 sample_tx (small_pool 2)))) = []"
proof -
  let ?m = "fst (addTransaction sample_utxo 10 3 sample_tx (small_pool 2))"
  have "mempool_wf ?m" by (intro addTransaction_wf) (simp add: small_pool_def empty_mempool_wf)
  moreover have "list_all (\<lambda>(h, e). me_addedAt e \<le> 10) (mp_entries ?m)" by (rule sample_time)
  moreover have "mc_maxTxAgeSeconds (mp_cfg ?m) = 3600"
    by (simp add: small_pool_def empty_mempool_def default_mempool_config_def)
  ultimately show ?thesis using evictStale_exact [of ?m 10] by simp
qed

end
