(* ===== verification/AccountDB.thy ===== *)
theory AccountDB
  imports Prelude
begin

text \<open>
  The account database, \<^verbatim>\<open>include/accountdb.h\<close> and \<^verbatim>\<open>src/db/accountdb.cpp\<close>: balances,
  nonces, contract code and storage, state roots and metadata as decimal or hexadecimal
  strings under prefixed keys of a RocksDB instance.

  RocksDB is not part of the program: its calls are the parameter \<open>R\<close> of every operation,
  and the locale \<open>rocks\<close> states what its documentation promises of them. An \<open>AccountDB\<close>
  object is its pointer \<^verbatim>\<open>db\<close> (\<open>None\<close>: null). Locks and log output are not modelled.
\<close>

section \<open>RocksDB\<close>

datatype rocks_status =
    SOk
  | SNotFound
  | SIOError string
  | SCorruption string
  | SInvalidArgument string
  | SOther string

datatype batch_op = BPut string string | BDelete string

text \<open>
  \<open>rdb_get\<close> takes the old content of the output string and returns the new one;
  \<open>rdb_from\<close> is an iterator: the entries from a key on, and its status at the end.
\<close>

record 'd rocksdb =
  rdb_open :: "string \<Rightarrow> rocks_status \<times> 'd"
  rdb_put :: "'d \<Rightarrow> bool \<Rightarrow> string \<Rightarrow> string \<Rightarrow> rocks_status \<times> 'd"
  rdb_get :: "'d \<Rightarrow> string \<Rightarrow> string \<Rightarrow> rocks_status \<times> string"
  rdb_delete :: "'d \<Rightarrow> bool \<Rightarrow> string \<Rightarrow> rocks_status \<times> 'd"
  rdb_write :: "'d \<Rightarrow> bool \<Rightarrow> batch_op list \<Rightarrow> rocks_status \<times> 'd"
  rdb_from :: "'d \<Rightarrow> string \<Rightarrow> (string \<times> string) list \<times> rocks_status"

fun batch_apply :: "batch_op list \<Rightarrow> (string \<Rightarrow> string option) \<Rightarrow> (string \<Rightarrow> string option)" where
  "batch_apply [] m = m"
| "batch_apply (BPut k v # ops) m = batch_apply ops (m(k := Some v))"
| "batch_apply (BDelete k # ops) m = batch_apply ops (m(k := None))"

text \<open>
  The documented contract, over the content \<open>view d\<close> of a database: a successful write is
  visible and a failed one is not, a batch is atomic, a successful read returns the entry,
  a missing entry is \<^verbatim>\<open>NotFound\<close> and leaves the output string alone.
\<close>

locale rocks =
  fixes R :: "'d rocksdb" and view :: "'d \<Rightarrow> string \<Rightarrow> string option"
  assumes put_ok: "rdb_put R d sync k v = (SOk, d') \<Longrightarrow> view d' = (view d)(k := Some v)"
    and put_fail: "rdb_put R d sync k v = (s, d') \<Longrightarrow> s \<noteq> SOk \<Longrightarrow> view d' = view d"
    and delete_ok: "rdb_delete R d sync k = (SOk, d') \<Longrightarrow> view d' = (view d)(k := None)"
    and delete_fail: "rdb_delete R d sync k = (s, d') \<Longrightarrow> s \<noteq> SOk \<Longrightarrow> view d' = view d"
    and write_ok: "rdb_write R d sync ops = (SOk, d') \<Longrightarrow> view d' = batch_apply ops (view d)"
    and write_fail: "rdb_write R d sync ops = (s, d') \<Longrightarrow> s \<noteq> SOk \<Longrightarrow> view d' = view d"
    and get_ok: "rdb_get R d k x = (SOk, y) \<Longrightarrow> view d k = Some y"
    and get_missing: "rdb_get R d k x = (SNotFound, y) \<Longrightarrow> view d k = None \<and> y = x"

text \<open>A database whose reads do not fail. RocksDB does not promise that: lemmas under this locale say
  what the code does while the disk works; what it does when reads fail is said under \<open>rocks\<close> alone.\<close>

locale reliable_rocks = rocks +
  assumes get_reliable: "fst (rdb_get R d k x) = SOk \<or> fst (rdb_get R d k x) = SNotFound"

section \<open>Results and keys\<close>

record db_result =
  dbr_ok :: bool
  dbr_error :: string

definition db_success :: db_result where
  "db_success = \<lparr>dbr_ok = True, dbr_error = []\<rparr>"

definition db_failure :: "string \<Rightarrow> db_result" where
  "db_failure e = \<lparr>dbr_ok = False, dbr_error = e\<rparr>"

lemma db_result_ok [simp]: "dbr_ok db_success" "\<not> dbr_ok (db_failure e)"
  by (simp_all add: db_success_def db_failure_def)

definition MAX_KEY_LEN :: nat where "MAX_KEY_LEN = 4096"
definition HEALTH_KEY :: string where "HEALTH_KEY = ''__health__''"
definition PREFIX_BAL :: string where "PREFIX_BAL = ''bal:''"
definition PREFIX_NONCE :: string where "PREFIX_NONCE = ''nonce:''"
definition PREFIX_CODE :: string where "PREFIX_CODE = ''code:''"
definition PREFIX_STORE :: string where "PREFIX_STORE = ''store:''"
definition PREFIX_META :: string where "PREFIX_META = ''meta:''"
definition PREFIX_STATE :: string where "PREFIX_STATE = ''state:''"

definition isValidKey :: "string \<Rightarrow> bool" where
  "isValidKey key =
     (if key = [] then False
      else if length key > MAX_KEY_LEN then False
      else list_all (\<lambda>c. \<not> (of_char c = (0 :: nat)) \<and> \<not> (of_char c < (0x20 :: nat) \<and> of_char c \<noteq> (9 :: nat))) key)"

definition quoted :: "string \<Rightarrow> string" where
  "quoted s = CHR 0x27 # s @ [CHR 0x27]"

text \<open>The carried message is the status as \<^verbatim>\<open>ToString\<close> prints it.\<close>

fun fromStatus :: "rocks_status \<Rightarrow> string \<Rightarrow> db_result" where
  "fromStatus SOk ctx = db_success"
| "fromStatus SNotFound ctx = db_failure (''NOT_FOUND:'' @ ctx)"
| "fromStatus (SIOError m) ctx = db_failure (''IO_ERROR:'' @ ctx @ '': '' @ m)"
| "fromStatus (SCorruption m) ctx = db_failure (''CORRUPTION:'' @ ctx @ '': '' @ m)"
| "fromStatus (SInvalidArgument m) ctx = db_failure (''INVALID_ARG:'' @ ctx @ '': '' @ m)"
| "fromStatus (SOther m) ctx = db_failure (''UNKNOWN:'' @ ctx @ '': '' @ m)"

lemma fromStatus_ok [simp]: "dbr_ok (fromStatus s ctx) \<longleftrightarrow> s = SOk"
  by (cases s) simp_all

section \<open>Opening\<close>

type_synonym 'd accountdb = "'d option"

definition AccountDB :: "'d rocksdb \<Rightarrow> string \<Rightarrow> 'd accountdb" where
  "AccountDB R path =
     (if path = [] then None
      else
        case rdb_open R path of (s, d) \<Rightarrow>
          if s \<noteq> SOk then None
          else
            case rdb_put R d True HEALTH_KEY ''ok'' of (hs, d) \<Rightarrow>
              if hs \<noteq> SOk then None else Some d)"

definition adb_isOpen :: "'d accountdb \<Rightarrow> bool" where
  "adb_isOpen a = (a \<noteq> None)"

definition adb_isHealthy :: "'d rocksdb \<Rightarrow> 'd accountdb \<Rightarrow> bool" where
  "adb_isHealthy R a =
     (case a of
        None \<Rightarrow> False
      | Some d \<Rightarrow> (case rdb_get R d HEALTH_KEY [] of (s, val) \<Rightarrow> s = SOk \<and> val = ''ok''))"

section \<open>Primitive operations\<close>

definition adb_put ::
    "'d rocksdb \<Rightarrow> string \<Rightarrow> string \<Rightarrow> bool \<Rightarrow> 'd accountdb \<Rightarrow> db_result \<times> 'd accountdb" where
  "adb_put R key value sync a =
     (if \<not> isValidKey key then (db_failure (''INVALID_ARG:put: invalid key '' @ quoted key), a)
      else
        case a of
          None \<Rightarrow> (db_failure ''IO_ERROR:put: DB not open'', a)
        | Some d \<Rightarrow>
            (case rdb_put R d sync key value of (s, d) \<Rightarrow> (fromStatus s (''put key='' @ key), Some d)))"

text \<open>\<^verbatim>\<open>get\<close> with the output string before and after.\<close>

definition adb_get :: "'d rocksdb \<Rightarrow> string \<Rightarrow> string \<Rightarrow> 'd accountdb \<Rightarrow> db_result \<times> string" where
  "adb_get R key valueOut a =
     (if \<not> isValidKey key then (db_failure (''INVALID_ARG:get: invalid key '' @ quoted key), valueOut)
      else
        case a of
          None \<Rightarrow> (db_failure ''IO_ERROR:get: DB not open'', valueOut)
        | Some d \<Rightarrow>
            (case rdb_get R d key valueOut of (s, valueOut) \<Rightarrow>
              if s = SNotFound then (db_failure (''NOT_FOUND:'' @ key), valueOut)
              else (fromStatus s (''get key='' @ key), valueOut)))"

definition adb_del :: "'d rocksdb \<Rightarrow> string \<Rightarrow> bool \<Rightarrow> 'd accountdb \<Rightarrow> db_result \<times> 'd accountdb" where
  "adb_del R key sync a =
     (if \<not> isValidKey key then (db_failure (''INVALID_ARG:del: invalid key '' @ quoted key), a)
      else
        case a of
          None \<Rightarrow> (db_failure ''IO_ERROR:del: DB not open'', a)
        | Some d \<Rightarrow>
            (case rdb_delete R d sync key of (s, d) \<Rightarrow> (fromStatus s (''del key='' @ key), Some d)))"

text \<open>The first position whose key is not valid.\<close>

fun first_invalid :: "nat \<Rightarrow> string list \<Rightarrow> (nat \<times> string) option" where
  "first_invalid i [] = None"
| "first_invalid i (k # ks) = (if \<not> isValidKey k then Some (i, k) else first_invalid (Suc i) ks)"

definition adb_writeBatch ::
    "'d rocksdb \<Rightarrow> (string \<times> string) list \<Rightarrow> bool \<Rightarrow> 'd accountdb \<Rightarrow> db_result \<times> 'd accountdb" where
  "adb_writeBatch R items sync a =
     (if items = [] then (db_success, a)
      else
        case first_invalid 0 (map fst items) of
          Some (i, k) \<Rightarrow>
            (db_failure (''INVALID_ARG:writeBatch: invalid key at index '' @ show_nat i @ '' key='' @ quoted k), a)
        | None \<Rightarrow>
            (case a of
               None \<Rightarrow> (db_failure ''IO_ERROR:writeBatch: DB not open'', a)
             | Some d \<Rightarrow>
                 (case rdb_write R d sync (map (\<lambda>(k, v). BPut k v) items) of (s, d) \<Rightarrow>
                   (fromStatus s ''writeBatch'', Some d))))"

definition adb_deleteBatch ::
    "'d rocksdb \<Rightarrow> string list \<Rightarrow> bool \<Rightarrow> 'd accountdb \<Rightarrow> db_result \<times> 'd accountdb" where
  "adb_deleteBatch R keys sync a =
     (if keys = [] then (db_success, a)
      else
        case first_invalid 0 keys of
          Some (i, k) \<Rightarrow>
            (db_failure (''INVALID_ARG:deleteBatch: invalid key at index '' @ show_nat i @ '' key='' @ quoted k), a)
        | None \<Rightarrow>
            (case a of
               None \<Rightarrow> (db_failure ''IO_ERROR:deleteBatch: DB not open'', a)
             | Some d \<Rightarrow>
                 (case rdb_write R d sync (map BDelete keys) of (s, d) \<Rightarrow>
                   (fromStatus s ''deleteBatch'', Some d))))"

text \<open>
  \<^verbatim>\<open>iteratePrefix\<close>: the entries collected under the lock, then the callback on each; the
  callback answers \<open>None\<close> when it throws. The answer counts the calls made.
\<close>

fun collect_prefix :: "string \<Rightarrow> nat \<Rightarrow> nat \<Rightarrow> (string \<times> string) list \<Rightarrow> (string \<times> string) list" where
  "collect_prefix prefix maxResults n [] = []"
| "collect_prefix prefix maxResults n ((key, v) # rest) =
     (if length key < length prefix \<or> take (length prefix) key \<noteq> prefix then []
      else (key, v) #
        (if maxResults > 0 \<and> Suc n \<ge> maxResults then [] else collect_prefix prefix maxResults (Suc n) rest))"

fun run_callback :: "(string \<Rightarrow> string \<Rightarrow> bool option) \<Rightarrow> nat \<Rightarrow> (string \<times> string) list \<Rightarrow> nat" where
  "run_callback callback count [] = count"
| "run_callback callback count ((k, v) # rest) =
     (case callback k v of
        Some True \<Rightarrow> run_callback callback (count + 1) rest
      | Some False \<Rightarrow> count + 1
      | None \<Rightarrow> count + 1)"

definition iteratePrefix ::
    "'d rocksdb \<Rightarrow> string \<Rightarrow> (string \<Rightarrow> string \<Rightarrow> bool option) option \<Rightarrow> nat \<Rightarrow> 'd accountdb \<Rightarrow> nat" where
  "iteratePrefix R prefix callback maxResults a =
     (case callback of
        None \<Rightarrow> 0
      | Some callback \<Rightarrow>
          if prefix = [] then 0
          else
            case a of
              None \<Rightarrow> 0
            | Some d \<Rightarrow>
                (case rdb_from R d prefix of (found, status) \<Rightarrow>
                  run_callback callback 0 (collect_prefix prefix maxResults 0 found)))"

section \<open>Balances, nonces and gas\<close>

definition stoull_or_0 :: "string \<Rightarrow> u64" where
  "stoull_or_0 val = (case stoull val of Inl e \<Rightarrow> 0 | Inr n \<Rightarrow> n)"

definition adb_getBalance :: "'d rocksdb \<Rightarrow> string \<Rightarrow> 'd accountdb \<Rightarrow> u64" where
  "adb_getBalance R address a =
     (case adb_get R (PREFIX_BAL @ address) [] a of (r, val) \<Rightarrow>
       if \<not> dbr_ok r then 0 else stoull_or_0 val)"

definition adb_setBalance :: "'d rocksdb \<Rightarrow> string \<Rightarrow> u64 \<Rightarrow> 'd accountdb \<Rightarrow> bool \<times> 'd accountdb" where
  "adb_setBalance R address amount a =
     (case adb_put R (PREFIX_BAL @ address) (show_u64 amount) True a of (r, a) \<Rightarrow> (dbr_ok r, a))"

definition adb_addBalance :: "'d rocksdb \<Rightarrow> string \<Rightarrow> u64 \<Rightarrow> 'd accountdb \<Rightarrow> bool \<times> 'd accountdb" where
  "adb_addBalance R address amount a =
     (let current = adb_getBalance R address a
      in if amount > - 1 - current then (False, a) else adb_setBalance R address (current + amount) a)"

definition adb_deductBalance :: "'d rocksdb \<Rightarrow> string \<Rightarrow> u64 \<Rightarrow> 'd accountdb \<Rightarrow> bool \<times> 'd accountdb" where
  "adb_deductBalance R address amount a =
     (let current = adb_getBalance R address a
      in if amount > current then (False, a) else adb_setBalance R address (current - amount) a)"

definition adb_getNonce :: "'d rocksdb \<Rightarrow> string \<Rightarrow> 'd accountdb \<Rightarrow> u64" where
  "adb_getNonce R address a =
     (case adb_get R (PREFIX_NONCE @ address) [] a of (r, val) \<Rightarrow>
       if \<not> dbr_ok r then 0 else stoull_or_0 val)"

definition adb_incrementNonce :: "'d rocksdb \<Rightarrow> string \<Rightarrow> 'd accountdb \<Rightarrow> bool \<times> 'd accountdb" where
  "adb_incrementNonce R address a =
     (let current = adb_getNonce R address a
      in if current = - 1 then (False, a)
         else
           case adb_put R (PREFIX_NONCE @ address) (show_u64 (current + 1)) True a of (r, a) \<Rightarrow> (dbr_ok r, a))"

definition adb_validateNonce :: "'d rocksdb \<Rightarrow> string \<Rightarrow> u64 \<Rightarrow> 'd accountdb \<Rightarrow> bool" where
  "adb_validateNonce R address txNonce a = (txNonce = adb_getNonce R address a)"

definition adb_addGasUsed :: "'d rocksdb \<Rightarrow> string \<Rightarrow> u64 \<Rightarrow> 'd accountdb \<Rightarrow> bool \<times> 'd accountdb" where
  "adb_addGasUsed R address gasUsed a =
     (let current = (case adb_get R (''gas:'' @ address) [] a of (r, val) \<Rightarrow>
                       if dbr_ok r then stoull_or_0 val else 0)
      in if gasUsed > - 1 - current then (False, a)
         else
           case adb_put R (''gas:'' @ address) (show_u64 (current + gasUsed)) True a of (r, a) \<Rightarrow> (dbr_ok r, a))"

definition adb_getTotalGasUsed :: "'d rocksdb \<Rightarrow> string \<Rightarrow> 'd accountdb \<Rightarrow> u64" where
  "adb_getTotalGasUsed R address a =
     (case adb_get R (''gas:'' @ address) [] a of (r, val) \<Rightarrow>
       if \<not> dbr_ok r then 0 else stoull_or_0 val)"

definition adb_accountExists :: "'d rocksdb \<Rightarrow> string \<Rightarrow> 'd accountdb \<Rightarrow> bool" where
  "adb_accountExists R address a = dbr_ok (fst (adb_get R (PREFIX_BAL @ address) [] a))"

section \<open>Contract code and storage, state roots, metadata\<close>

definition adb_setContractCode :: "'d rocksdb \<Rightarrow> string \<Rightarrow> bytes \<Rightarrow> 'd accountdb \<Rightarrow> bool \<times> 'd accountdb" where
  "adb_setContractCode R address code a =
     (case adb_put R (PREFIX_CODE @ address) (hex_bytes code) True a of (r, a) \<Rightarrow> (dbr_ok r, a))"

text \<open>Two characters at a time; an odd last one is dropped; \<open>None\<close> when \<^verbatim>\<open>stoul\<close> throws.\<close>

fun hex_pairs :: "string \<Rightarrow> bytes option" where
  "hex_pairs (c # d # s) =
     (case stoul16 [c, d] of
        Inl e \<Rightarrow> None
      | Inr n \<Rightarrow> (case hex_pairs s of None \<Rightarrow> None | Some bs \<Rightarrow> Some (ucast n # bs)))"
| "hex_pairs s = Some []"

definition adb_getContractCode :: "'d rocksdb \<Rightarrow> string \<Rightarrow> 'd accountdb \<Rightarrow> bytes" where
  "adb_getContractCode R address a =
     (case adb_get R (PREFIX_CODE @ address) [] a of (r, hex) \<Rightarrow>
       if \<not> dbr_ok r \<or> hex = [] then []
       else (case hex_pairs hex of None \<Rightarrow> [] | Some code \<Rightarrow> code))"

definition adb_setStorageSlot ::
    "'d rocksdb \<Rightarrow> string \<Rightarrow> string \<Rightarrow> string \<Rightarrow> 'd accountdb \<Rightarrow> bool \<times> 'd accountdb" where
  "adb_setStorageSlot R address slt value a =
     (case adb_put R (PREFIX_STORE @ address @ '':'' @ slt) value True a of (r, a) \<Rightarrow> (dbr_ok r, a))"

definition adb_getStorageSlot :: "'d rocksdb \<Rightarrow> string \<Rightarrow> string \<Rightarrow> 'd accountdb \<Rightarrow> string" where
  "adb_getStorageSlot R address slt a = snd (adb_get R (PREFIX_STORE @ address @ '':'' @ slt) [] a)"

definition adb_setStateRoot :: "'d rocksdb \<Rightarrow> u64 \<Rightarrow> string \<Rightarrow> 'd accountdb \<Rightarrow> bool \<times> 'd accountdb" where
  "adb_setStateRoot R blockHeight stateRoot a =
     (case adb_put R (PREFIX_STATE @ show_u64 blockHeight) stateRoot True a of (r, a) \<Rightarrow> (dbr_ok r, a))"

definition adb_getStateRoot :: "'d rocksdb \<Rightarrow> u64 \<Rightarrow> 'd accountdb \<Rightarrow> string" where
  "adb_getStateRoot R blockHeight a = snd (adb_get R (PREFIX_STATE @ show_u64 blockHeight) [] a)"

definition adb_setMeta ::
    "'d rocksdb \<Rightarrow> u64 \<Rightarrow> string \<Rightarrow> string \<Rightarrow> 'd accountdb \<Rightarrow> bool \<times> 'd accountdb" where
  "adb_setMeta R blockHeight key value a =
     (case adb_put R (PREFIX_META @ show_u64 blockHeight @ '':'' @ key) value True a of (r, a) \<Rightarrow> (dbr_ok r, a))"

definition adb_getMeta :: "'d rocksdb \<Rightarrow> u64 \<Rightarrow> string \<Rightarrow> 'd accountdb \<Rightarrow> string" where
  "adb_getMeta R blockHeight key a = snd (adb_get R (PREFIX_META @ show_u64 blockHeight @ '':'' @ key) [] a)"

section \<open>The commit of a block\<close>

fun stage_balances :: "(string \<times> u64) list \<Rightarrow> string + (string \<times> string) list" where
  "stage_balances [] = Inr []"
| "stage_balances ((addr, amount) # rest) =
     (if \<not> isValidKey (PREFIX_BAL @ addr)
      then Inl (''INVALID_ARG:commitBlockState: invalid address '' @ quoted addr)
      else
        case stage_balances rest of
          Inl e \<Rightarrow> Inl e
        | Inr items \<Rightarrow> Inr ((PREFIX_BAL @ addr, show_u64 amount) # items))"

fun stage_nonces :: "'d rocksdb \<Rightarrow> 'd accountdb \<Rightarrow> string list \<Rightarrow> string + (string \<times> string) list" where
  "stage_nonces R a [] = Inr []"
| "stage_nonces R a (addr # rest) =
     (let current = adb_getNonce R addr a
      in if current = - 1 then Inl (''INVALID_ARG:commitBlockState: nonce overflow for '' @ addr)
         else
           case stage_nonces R a rest of
             Inl e \<Rightarrow> Inl e
           | Inr items \<Rightarrow> Inr ((PREFIX_NONCE @ addr, show_u64 (current + 1)) # items))"

definition commitBlockState ::
    "'d rocksdb \<Rightarrow> u64 \<Rightarrow> (string \<times> u64) list \<Rightarrow> string list \<Rightarrow> string \<Rightarrow> 'd accountdb \<Rightarrow>
     db_result \<times> 'd accountdb" where
  "commitBlockState R blockHeight balanceChanges nonceIncrements stateRoot a =
     (case stage_balances balanceChanges of
        Inl e \<Rightarrow> (db_failure e, a)
      | Inr bals \<Rightarrow>
          (case stage_nonces R a nonceIncrements of
             Inl e \<Rightarrow> (db_failure e, a)
           | Inr nonces \<Rightarrow>
               adb_writeBatch R
                 (bals @ nonces @
                  (if stateRoot \<noteq> [] then [(PREFIX_STATE @ show_u64 blockHeight, stateRoot)] else []))
                 True a))"

section \<open>A store of strings as an interface\<close>

text \<open>
  What the account operations here and those of the chain rely on: reading the entry of a
  valid key, and writing one. Their shape is one: read a number, compute the next one or
  refuse, write it.
\<close>

definition number :: "string option \<Rightarrow> u64" where
  "number v = (case v of None \<Rightarrow> 0 | Some val \<Rightarrow> stoull_or_0 val)"

definition update_number ::
    "(string \<Rightarrow> 's \<Rightarrow> string option) \<Rightarrow> (string \<Rightarrow> string \<Rightarrow> 's \<Rightarrow> bool \<times> 's) \<Rightarrow>
     string \<Rightarrow> (u64 \<Rightarrow> u64 option) \<Rightarrow> 's \<Rightarrow> bool \<times> 's" where
  "update_number rd wr k f s =
     (case f (number (rd k s)) of None \<Rightarrow> (False, s) | Some n \<Rightarrow> wr k (show_u64 n) s)"

definition plus_checked :: "u64 \<Rightarrow> u64 \<Rightarrow> u64 option" where
  "plus_checked amount current = (if amount > - 1 - current then None else Some (current + amount))"

definition minus_checked :: "u64 \<Rightarrow> u64 \<Rightarrow> u64 option" where
  "minus_checked amount current = (if amount > current then None else Some (current - amount))"

lemma number_simps [simp]: "number None = 0" "number (Some (show_u64 n)) = n"
  by (simp_all add: number_def stoull_or_0_def)

lemma plus_checked_Some: "plus_checked b a = Some c \<Longrightarrow> unat c = unat a + unat b"
  by (auto simp: plus_checked_def split: if_splits intro: unat_add_checked)

lemma plus_checked_None: "plus_checked b a = None \<longleftrightarrow> unat a + unat b \<ge> 2 ^ 64"
  using unat_add_overflow [of a b] by (simp add: plus_checked_def)

lemma minus_checked_Some: "minus_checked b a = Some c \<Longrightarrow> unat c = unat a - unat b \<and> unat b \<le> unat a"
  by (auto simp: minus_checked_def word_le_nat_alt not_less unat_sub split: if_splits)

lemma minus_checked_None: "minus_checked b a = None \<longleftrightarrow> unat a < unat b"
  by (simp add: minus_checked_def word_less_nat_alt)

locale kv_store =
  fixes rd :: "string \<Rightarrow> 's \<Rightarrow> string option"
    and wr :: "string \<Rightarrow> string \<Rightarrow> 's \<Rightarrow> bool \<times> 's"
    and content :: "'s \<Rightarrow> string \<Rightarrow> string option"
    and valid :: "string \<Rightarrow> bool"
  assumes rd_content: "valid k \<Longrightarrow> rd k s = content s k"
    and wr_ok: "wr k v s = (True, s') \<Longrightarrow> content s' = (content s)(k := Some v)"
    and wr_fail: "wr k v s = (False, s') \<Longrightarrow> content s' = content s"
begin

lemma update_number_cases:
  assumes "update_number rd wr k f s = (ok, s')" and "valid k"
  shows "(\<exists>n. ok \<and> f (number (content s k)) = Some n \<and> content s' = (content s)(k := Some (show_u64 n))) \<or>
    (\<not> ok \<and> content s' = content s)"
  using assms wr_ok wr_fail rd_content [OF assms(2), of s]
  by (cases ok) (auto simp: update_number_def split: option.splits)

lemma update_number_ok:
  "update_number rd wr k f s = (True, s') \<Longrightarrow> valid k \<Longrightarrow>
   f (number (content s k)) = Some (number (content s' k)) \<and> (\<forall>k'. k' = k \<or> content s' k' = content s k')"
  by (drule (1) update_number_cases) (auto split: if_splits)

lemma update_number_fail:
  "update_number rd wr k f s = (False, s') \<Longrightarrow> valid k \<Longrightarrow> content s' = content s"
  by (drule (1) update_number_cases) auto

text \<open>Exactly the entry at \<open>k\<close> changes, to what \<open>f\<close> makes of it.\<close>

lemma update_number_spec:
  "valid k \<Longrightarrow>
   (case update_number rd wr k f s of (ok, s') \<Rightarrow>
     if ok then f (number (content s k)) = Some (number (content s' k)) \<and>
       content s' = (content s)(k := content s' k)
     else content s' = content s)"
  by (auto split: prod.split dest: update_number_cases)

lemma update_number_refused:
  "valid k \<Longrightarrow> f (number (content s k)) = None \<Longrightarrow> update_number rd wr k f s = (False, s)"
  by (simp add: update_number_def rd_content)

text \<open>A write is read back and disturbs no other entry; a failed one disturbs none.\<close>

lemma rd_wr:
  "wr k v s = (ok, s') \<Longrightarrow> valid k' \<Longrightarrow> rd k' s' = (if ok \<and> k' = k then Some v else rd k' s)"
  by (cases ok) (simp_all add: rd_content wr_ok wr_fail)

end

section \<open>The account database is such a store\<close>

definition adb_read :: "'d rocksdb \<Rightarrow> string \<Rightarrow> 'd accountdb \<Rightarrow> string option" where
  "adb_read R k a = (case adb_get R k [] a of (r, v) \<Rightarrow> if dbr_ok r then Some v else None)"

definition adb_write :: "'d rocksdb \<Rightarrow> string \<Rightarrow> string \<Rightarrow> 'd accountdb \<Rightarrow> bool \<times> 'd accountdb" where
  "adb_write R k v a = (case adb_put R k v True a of (r, a) \<Rightarrow> (dbr_ok r, a))"

definition read_fails :: "'d rocksdb \<Rightarrow> string \<Rightarrow> 'd option \<Rightarrow> bool" where
  "read_fails R k a = (case a of None \<Rightarrow> False | Some d \<Rightarrow> fst (rdb_get R d k []) \<notin> {SOk, SNotFound})"

definition adb_content :: "('d \<Rightarrow> string \<Rightarrow> string option) \<Rightarrow> 'd accountdb \<Rightarrow> string \<Rightarrow> string option" where
  "adb_content view a = (case a of None \<Rightarrow> (\<lambda>k. None) | Some d \<Rightarrow> view d)"

context rocks begin

lemma adb_write_ok: "adb_write R k v a = (True, a') \<Longrightarrow> adb_content view a' = (adb_content view a)(k := Some v)"
  using put_ok by (auto simp: adb_write_def adb_put_def adb_content_def split: option.splits if_splits prod.splits)

lemma adb_write_fail: "adb_write R k v a = (False, a') \<Longrightarrow> adb_content view a' = adb_content view a"
  using put_fail by (auto simp: adb_write_def adb_put_def adb_content_def split: option.splits if_splits prod.splits)

text \<open>
  The read of a key that RocksDB answers with an error, neither found nor missing. The
  getters take it for a missing entry.
\<close>

lemma adb_read_answer:
  "isValidKey k \<Longrightarrow> adb_read R k a = (if read_fails R k a then None else adb_content view a k)"
proof (cases a)
  case (Some d)
  assume k: "isValidKey k"
  obtain s y where g: "rdb_get R d k [] = (s, y)" by fastforce
  with k Some show ?thesis
    using get_ok [of d k "[]" y] get_missing [of d k "[]" y]
    by (cases s) (auto simp: adb_read_def adb_get_def adb_content_def read_fails_def)
qed (simp add: adb_read_def adb_get_def adb_content_def)

text \<open>A number that is read, changed and written, whatever the database answers.\<close>

lemma update_number_answer:
  assumes u: "update_number (adb_read R) (adb_write R) k f a = (ok, a')"
  shows "if ok then f (if read_fails R k a then 0 else number (adb_content view a k)) = Some (number (adb_content view a' k))
    else adb_content view a' = adb_content view a"
proof (cases "f (number (adb_read R k a))")
  case (Some n)
  then have w: "adb_write R k (show_u64 n) a = (ok, a')" using u by (simp add: update_number_def)
  show ?thesis
  proof (cases ok)
    case True
    then have "isValidKey k" using w by (auto simp: adb_write_def adb_put_def split: if_splits)
    from adb_read_answer [OF this, of a] Some have
      "f (if read_fails R k a then 0 else number (adb_content view a k)) = Some n"
      by (auto simp: number_simps split: if_splits)
    with True w show ?thesis by (simp only: if_True adb_write_ok fun_upd_same number_simps)
  qed (use w in \<open>auto dest: adb_write_fail\<close>)
qed (use u in \<open>simp add: update_number_def\<close>)

lemma adb_batch_ok:
  "adb_writeBatch R items sync a = (r, a') \<Longrightarrow> dbr_ok r \<Longrightarrow>
   adb_content view a' = batch_apply (map (\<lambda>(k, v). BPut k v) items) (adb_content view a)"
  using write_ok
  by (auto simp: adb_writeBatch_def adb_content_def split: option.splits if_splits prod.splits)

lemma adb_batch_fail:
  "adb_writeBatch R items sync a = (r, a') \<Longrightarrow> \<not> dbr_ok r \<Longrightarrow> adb_content view a' = adb_content view a"
  using write_fail
  by (auto simp: adb_writeBatch_def adb_content_def split: option.splits if_splits prod.splits)

end

context reliable_rocks begin

lemma adb_read_content: "isValidKey k \<Longrightarrow> adb_read R k a = adb_content view a k"
proof (cases a)
  case (Some d)
  assume k: "isValidKey k"
  obtain s y where g: "rdb_get R d k [] = (s, y)" by fastforce
  have "s = SOk \<or> s = SNotFound" using get_reliable [of d k "[]"] g by simp
  with k g Some show ?thesis
    using get_ok [of d k "[]" y] get_missing [of d k "[]" y]
    by (auto simp: adb_read_def adb_get_def adb_content_def)
qed (simp add: adb_read_def adb_get_def adb_content_def)

end

sublocale reliable_rocks \<subseteq> adb: kv_store "adb_read R" "adb_write R" "adb_content view" isValidKey
  by unfold_locales (simp_all add: adb_read_content adb_write_ok adb_write_fail)

section \<open>Properties\<close>

definition balance_of :: "('d \<Rightarrow> string \<Rightarrow> string option) \<Rightarrow> 'd accountdb \<Rightarrow> string \<Rightarrow> u64" where
  "balance_of view a x = number (adb_content view a (PREFIX_BAL @ x))"

definition nonce_of :: "('d \<Rightarrow> string \<Rightarrow> string option) \<Rightarrow> 'd accountdb \<Rightarrow> string \<Rightarrow> u64" where
  "nonce_of view a x = number (adb_content view a (PREFIX_NONCE @ x))"

definition next_nonce :: "u64 \<Rightarrow> u64 option" where
  "next_nonce n = (if n = - 1 then None else Some (n + 1))"

lemma next_nonce_Some: "next_nonce n = Some m \<Longrightarrow> unat m = unat n + 1"
proof -
  assume m: "next_nonce n = Some m"
  then have "n \<noteq> - 1" by (auto simp: next_nonce_def)
  then have "n < - 1" by (simp add: order.not_eq_order_implies_strict)
  with m show ?thesis by (auto simp: next_nonce_def unat_u64_Suc split: if_splits)
qed

lemma adb_get_read: "(case adb_get R k [] a of (r, val) \<Rightarrow> if \<not> dbr_ok r then 0 else stoull_or_0 val) = number (adb_read R k a)"
  by (simp add: adb_read_def number_def split: prod.split)

lemma adb_getters:
  "adb_getBalance R x a = number (adb_read R (PREFIX_BAL @ x) a)"
  "adb_getNonce R x a = number (adb_read R (PREFIX_NONCE @ x) a)"
  "adb_getTotalGasUsed R x a = number (adb_read R (''gas:'' @ x) a)"
  by (simp_all only: adb_getBalance_def adb_getNonce_def adb_getTotalGasUsed_def adb_get_read)

lemma adb_updates:
  "adb_addBalance R x n a = update_number (adb_read R) (adb_write R) (PREFIX_BAL @ x) (plus_checked n) a"
  "adb_deductBalance R x n a = update_number (adb_read R) (adb_write R) (PREFIX_BAL @ x) (minus_checked n) a"
  "adb_incrementNonce R x a = update_number (adb_read R) (adb_write R) (PREFIX_NONCE @ x) next_nonce a"
  "adb_addGasUsed R x n a = update_number (adb_read R) (adb_write R) (''gas:'' @ x) (plus_checked n) a"
  by (auto simp: adb_addBalance_def adb_deductBalance_def adb_incrementNonce_def adb_addGasUsed_def
      adb_setBalance_def update_number_def adb_getters adb_write_def plus_checked_def minus_checked_def
      next_nonce_def Let_def adb_get_read [simplified] adb_read_def number_def split: prod.splits)

lemmas checked_Some = plus_checked_Some minus_checked_Some next_nonce_Some

context reliable_rocks begin

lemmas spec = adb.update_number_spec adb.update_number_refused

lemma reads_exact:
  "isValidKey (PREFIX_BAL @ x) \<Longrightarrow> adb_getBalance R x a = balance_of view a x"
  "isValidKey (PREFIX_NONCE @ x) \<Longrightarrow> adb_getNonce R x a = nonce_of view a x"
  by (simp_all add: adb_getters adb_read_content balance_of_def nonce_of_def)

lemma add_exact:
  "isValidKey (PREFIX_BAL @ x) \<Longrightarrow>
   (case adb_addBalance R x n a of (ok, a') \<Rightarrow>
      if ok then unat (balance_of view a' x) = unat (balance_of view a x) + unat n \<and>
        adb_content view a' = (adb_content view a)(PREFIX_BAL @ x := adb_content view a' (PREFIX_BAL @ x))
      else adb_content view a' = adb_content view a)"
  using spec(1) [of "PREFIX_BAL @ x" "plus_checked n" a]
  by (auto simp: adb_updates balance_of_def split: prod.splits if_splits dest: checked_Some)

lemma add_refused:
  "isValidKey (PREFIX_BAL @ x) \<Longrightarrow>
   unat (balance_of view a x) + unat n < 2 ^ 64 \<or> adb_addBalance R x n a = (False, a)"
  unfolding adb_updates balance_of_def not_le [symmetric] plus_checked_None [symmetric]
  using spec(2) by blast

lemma deduct_exact:
  "isValidKey (PREFIX_BAL @ x) \<Longrightarrow>
   (case adb_deductBalance R x n a of (ok, a') \<Rightarrow>
      if ok then unat (balance_of view a' x) = unat (balance_of view a x) - unat n \<and>
        unat n \<le> unat (balance_of view a x) \<and>
        adb_content view a' = (adb_content view a)(PREFIX_BAL @ x := adb_content view a' (PREFIX_BAL @ x))
      else adb_content view a' = adb_content view a)"
  using spec(1) [of "PREFIX_BAL @ x" "minus_checked n" a]
  by (auto simp: adb_updates balance_of_def split: prod.splits if_splits dest: checked_Some)

lemma deduct_refused:
  "isValidKey (PREFIX_BAL @ x) \<Longrightarrow>
   unat n \<le> unat (balance_of view a x) \<or> adb_deductBalance R x n a = (False, a)"
  unfolding adb_updates balance_of_def not_less [symmetric] minus_checked_None [symmetric]
  using spec(2) by blast

lemma nonce_exact:
  "isValidKey (PREFIX_NONCE @ x) \<Longrightarrow>
   (case adb_incrementNonce R x a of (ok, a') \<Rightarrow>
      if ok then unat (nonce_of view a' x) = unat (nonce_of view a x) + 1 \<and>
        adb_content view a' = (adb_content view a)(PREFIX_NONCE @ x := adb_content view a' (PREFIX_NONCE @ x))
      else adb_content view a' = adb_content view a)"
  using spec(1) [of "PREFIX_NONCE @ x" next_nonce a]
  by (auto simp: adb_updates nonce_of_def split: prod.splits if_splits dest: checked_Some)

end

text \<open>
  on a database whose reads do not fail the account operations are exact on natural
  numbers: a successful addition, deduction or nonce increment changes the one balance or
  nonce by exactly the amount, without wrapping, and no other entry of the database; a
  refused or failed one changes nothing; a sum beyond 64 bits and a deduction beyond the
  balance are refused.
\<close>

theorem account_updates_exact:
  assumes R: "reliable_rocks R view"
    and valid: "isValidKey (PREFIX_BAL @ x)" "isValidKey (PREFIX_NONCE @ x)"
  shows "adb_getBalance R x a = balance_of view a x \<and> adb_getNonce R x a = nonce_of view a x \<and>
    (case adb_addBalance R x n a of (ok, a') \<Rightarrow>
      if ok then unat (balance_of view a' x) = unat (balance_of view a x) + unat n \<and>
        adb_content view a' = (adb_content view a)(PREFIX_BAL @ x := adb_content view a' (PREFIX_BAL @ x))
      else adb_content view a' = adb_content view a) \<and>
    (case adb_deductBalance R x n a of (ok, a') \<Rightarrow>
      if ok then unat (balance_of view a' x) = unat (balance_of view a x) - unat n \<and>
        unat n \<le> unat (balance_of view a x) \<and>
        adb_content view a' = (adb_content view a)(PREFIX_BAL @ x := adb_content view a' (PREFIX_BAL @ x))
      else adb_content view a' = adb_content view a) \<and>
    (case adb_incrementNonce R x a of (ok, a') \<Rightarrow>
      if ok then unat (nonce_of view a' x) = unat (nonce_of view a x) + 1 \<and>
        adb_content view a' = (adb_content view a)(PREFIX_NONCE @ x := adb_content view a' (PREFIX_NONCE @ x))
      else adb_content view a' = adb_content view a) \<and>
    (unat (balance_of view a x) + unat n < 2 ^ 64 \<or> adb_addBalance R x n a = (False, a)) \<and>
    (unat n \<le> unat (balance_of view a x) \<or> adb_deductBalance R x n a = (False, a))"
  by (intro conjI reliable_rocks.reads_exact [OF R] reliable_rocks.add_exact [OF R]
      reliable_rocks.deduct_exact [OF R] reliable_rocks.nonce_exact [OF R]
      reliable_rocks.add_refused [OF R] reliable_rocks.deduct_refused [OF R] valid)

text \<open>The commit of a block as a batch over the prefixed keys.\<close>

lemmas prefix_defs = PREFIX_BAL_def PREFIX_NONCE_def PREFIX_CODE_def PREFIX_STORE_def PREFIX_META_def
  PREFIX_STATE_def

lemma batch_apply_puts:
  "batch_apply (map (\<lambda>(k, v). BPut k v) items) m k =
     (case map_of (rev items) k of Some v \<Rightarrow> Some v | None \<Rightarrow> m k)"
  by (induction items arbitrary: m) (auto simp: map_add_def split: option.split)

lemma map_of_prefixed:
  "map_of (map (\<lambda>(x, n). (p @ x, f n)) l) (p @ x) = map_option f (map_of l x)"
  by (induction l) auto

lemma map_of_prefixed_keys:
  "map_of (map (\<lambda>x. (p @ x, f x)) l) (p @ x) = (if x \<in> set l then Some (f x) else None)"
  by (induction l) auto

lemma map_of_other: "k \<notin> fst ` set l \<Longrightarrow> map_of (rev l) k = None"
  by (simp add: map_of_eq_None_iff)

lemma prefix_disjoint [simp]:
  "PREFIX_BAL @ x \<noteq> PREFIX_NONCE @ y" "PREFIX_NONCE @ x \<noteq> PREFIX_BAL @ y"
  "PREFIX_BAL @ x \<noteq> PREFIX_STATE @ y" "PREFIX_STATE @ x \<noteq> PREFIX_BAL @ y"
  "PREFIX_NONCE @ x \<noteq> PREFIX_STATE @ y" "PREFIX_STATE @ x \<noteq> PREFIX_NONCE @ y"
  by (simp_all add: prefix_defs)

lemma stage_balances_Inr:
  "stage_balances l = Inr items \<Longrightarrow> items = map (\<lambda>(x, n). (PREFIX_BAL @ x, show_u64 n)) l"
  by (induction l arbitrary: items) (auto split: sum.splits if_splits)

lemma stage_nonces_Inr:
  "stage_nonces R a l = Inr items \<Longrightarrow>
   items = map (\<lambda>x. (PREFIX_NONCE @ x, show_u64 (adb_getNonce R x a + 1))) l \<and>
   (\<forall>x\<in>set l. adb_getNonce R x a \<noteq> - 1)"
  by (induction l arbitrary: items) (auto simp: Let_def split: sum.splits if_splits)

lemma first_invalid_None: "first_invalid i ks = None \<longleftrightarrow> list_all isValidKey ks"
  by (induction ks arbitrary: i) auto

lemma adb_batch_valid: "adb_writeBatch R items sync a = (r, a') \<Longrightarrow> dbr_ok r \<Longrightarrow> list_all isValidKey (map fst items)"
  by (auto simp: adb_writeBatch_def first_invalid_None split: if_splits option.splits)

lemma commit_no_overflow:
  assumes "commitBlockState R h bals nonces root a = (r, a')" and "dbr_ok r" and "x \<in> set nonces"
  shows "adb_getNonce R x a \<noteq> - 1"
  using assms by (auto simp: commitBlockState_def split: sum.splits dest!: stage_nonces_Inr)

text \<open>The keys a commit writes.\<close>

definition commit_keys :: "u64 \<Rightarrow> (string \<times> u64) list \<Rightarrow> string list \<Rightarrow> string \<Rightarrow> string set" where
  "commit_keys h bals nonces root =
     (\<lambda>(x, n). PREFIX_BAL @ x) ` set bals \<union> (\<lambda>x. PREFIX_NONCE @ x) ` set nonces \<union>
     (if root \<noteq> [] then {PREFIX_STATE @ show_u64 h} else {})"

lemma commit_items:
  assumes "commitBlockState R h bals nonces root a = (r, a')" and "dbr_ok r"
  shows "adb_writeBatch R (map (\<lambda>(x, n). (PREFIX_BAL @ x, show_u64 n)) bals @
      map (\<lambda>x. (PREFIX_NONCE @ x, show_u64 (adb_getNonce R x a + 1))) nonces @
      (if root \<noteq> [] then [(PREFIX_STATE @ show_u64 h, root)] else [])) True a = (r, a')"
  using assms
  by (auto simp: commitBlockState_def split: sum.splits dest!: stage_balances_Inr stage_nonces_Inr)

context rocks begin

lemma commit_ok:
  assumes c: "commitBlockState R h bals nonces root a = (r, a')" and ok: "dbr_ok r"
  shows "balance_of view a' x = (case map_of (rev bals) x of Some n \<Rightarrow> n | None \<Rightarrow> balance_of view a x) \<and>
    unat (nonce_of view a' x) =
      (if x \<in> set nonces then (if read_fails R (PREFIX_NONCE @ x) a then 0 else unat (nonce_of view a x)) + 1
       else unat (nonce_of view a x)) \<and>
    (root = [] \<or> adb_content view a' (PREFIX_STATE @ show_u64 h) = Some root) \<and>
    (k \<in> commit_keys h bals nonces root \<or> adb_content view a' k = adb_content view a k)"
proof -
  let ?B = "map (\<lambda>(x, n). (PREFIX_BAL @ x, show_u64 n)) bals"
  let ?N = "map (\<lambda>x. (PREFIX_NONCE @ x, show_u64 (adb_getNonce R x a + 1))) nonces"
  let ?S = "if root \<noteq> [] then [(PREFIX_STATE @ show_u64 h, root)] else []"
  have w: "adb_writeBatch R (?B @ ?N @ ?S) True a = (r, a')"
    by (rule commit_items [OF c ok])
  have cont: "adb_content view a' k = (case map_of (rev (?B @ ?N @ ?S)) k of Some v \<Rightarrow> Some v
      | None \<Rightarrow> adb_content view a k)" for k
    using adb_batch_ok [OF w ok] by (simp only: batch_apply_puts)
  have "map_of (rev ?N) (PREFIX_BAL @ x) = None" "map_of (rev ?S) (PREFIX_BAL @ x) = None"
    by (rule map_of_other; auto)+
  then have B: "map_of (rev (?B @ ?N @ ?S)) (PREFIX_BAL @ x) = map_option show_u64 (map_of (rev bals) x)"
    by (simp add: map_add_def map_of_prefixed rev_map split: option.split)
  have "map_of (rev ?B) (PREFIX_NONCE @ x) = None" "map_of (rev ?S) (PREFIX_NONCE @ x) = None"
    by (rule map_of_other; auto)+
  then have N: "map_of (rev (?B @ ?N @ ?S)) (PREFIX_NONCE @ x) =
      (if x \<in> set nonces then Some (show_u64 (adb_getNonce R x a + 1)) else None)"
    by (simp add: map_add_def map_of_prefixed_keys rev_map split: option.split)
  have "isValidKey (PREFIX_NONCE @ x)" if "x \<in> set nonces"
    using adb_batch_valid [OF w ok] that by (auto simp: list_all_iff)
  then have g: "adb_getNonce R x a = (if read_fails R (PREFIX_NONCE @ x) a then 0 else nonce_of view a x)"
    if "x \<in> set nonces"
    using that adb_read_answer [of "PREFIX_NONCE @ x" a] by (simp add: adb_getters nonce_of_def)
  have less: "unat (adb_getNonce R x a + 1) = unat (adb_getNonce R x a) + 1" if "x \<in> set nonces"
  proof -
    have "adb_getNonce R x a < - 1" using commit_no_overflow [OF c ok that] by (simp add: order.not_eq_order_implies_strict)
    then show ?thesis by (simp add: unat_u64_Suc)
  qed
  have "balance_of view a' x = (case map_of (rev bals) x of Some n \<Rightarrow> n | None \<Rightarrow> balance_of view a x)"
    unfolding balance_of_def cont B by (cases "map_of (rev bals) x") simp_all
  moreover have "unat (nonce_of view a' x) =
      (if x \<in> set nonces then (if read_fails R (PREFIX_NONCE @ x) a then 0 else unat (nonce_of view a x)) + 1
       else unat (nonce_of view a x))"
  proof (cases "x \<in> set nonces")
    case True
    then have "nonce_of view a' x = adb_getNonce R x a + 1" unfolding nonce_of_def cont N by (simp only: if_True option.case number_simps)
    then show ?thesis using True g [OF True] less [OF True] by simp
  next
    case False
    then have "nonce_of view a' x = nonce_of view a x" unfolding nonce_of_def cont N by (simp only: if_False option.case)
    then show ?thesis using False by simp
  qed
  moreover have "k \<in> commit_keys h bals nonces root \<or> adb_content view a' k = adb_content view a k"
  proof -
    have "map_of (rev (?B @ ?N @ ?S)) k = None" if "k \<notin> commit_keys h bals nonces root"
      using that by (intro map_of_other) (auto simp: commit_keys_def)
    then show ?thesis unfolding cont by (cases "k \<in> commit_keys h bals nonces root") (simp_all only: option.case simp_thms)
  qed
  moreover have "root = [] \<or> adb_content view a' (PREFIX_STATE @ show_u64 h) = Some root"
    unfolding cont by (simp add: map_add_def)
  ultimately show ?thesis by blast
qed

lemma commit_fail:
  "commitBlockState R h bals nonces root a = (r, a') \<Longrightarrow> \<not> dbr_ok r \<Longrightarrow> adb_content view a' = adb_content view a"
  by (auto simp: commitBlockState_def split: sum.splits dest: adb_batch_fail)

end

text \<open>
  C7: the commit of a block is all or nothing. On success every listed balance has its last
  listed value, every listed account's nonce is one higher without wrapping around, the state
  root is stored, and every other entry of the database is as before; on failure the database
  is unchanged. A nonce grows by one however often its account is listed. Reads may fail: a
  nonce whose read RocksDB answers with an error (\<open>read_fails\<close>) counts as 0, and the commit
  then sets it to 1, whatever it was.
\<close>

theorem commitBlockState_atomic:
  assumes "rocks R view" and "commitBlockState R h bals nonces root a = (r, a')"
  shows "if dbr_ok r
    then (\<forall>x. balance_of view a' x = (case map_of (rev bals) x of Some n \<Rightarrow> n | None \<Rightarrow> balance_of view a x) \<and>
        unat (nonce_of view a' x) =
          (if x \<in> set nonces then (if read_fails R (PREFIX_NONCE @ x) a then 0 else unat (nonce_of view a x)) + 1
           else unat (nonce_of view a x))) \<and>
      (root = [] \<or> adb_content view a' (PREFIX_STATE @ show_u64 h) = Some root) \<and>
      (\<forall>k. k \<in> (\<lambda>(x, n). PREFIX_BAL @ x) ` set bals \<union> (\<lambda>x. PREFIX_NONCE @ x) ` set nonces \<union>
          (if root \<noteq> [] then {PREFIX_STATE @ show_u64 h} else {}) \<or>
        adb_content view a' k = adb_content view a k)
    else adb_content view a' = adb_content view a"
  using rocks.commit_ok [OF assms] rocks.commit_fail [OF assms]
  unfolding commit_keys_def [of h bals nonces root, symmetric] by simp

text \<open>
  a read that fails counts as a balance of 0, and an addition after it overwrites the
  balance: when RocksDB reports an I/O error for the account's entry and then accepts the
  write, the account is left with the amount added, whatever it held.
\<close>

theorem addBalance_after_read_error:
  assumes "rocks R view" and "isValidKey (PREFIX_BAL @ x)"
    and "fst (rdb_get R d (PREFIX_BAL @ x) []) = SIOError msg"
    and "fst (rdb_put R d True (PREFIX_BAL @ x) (show_u64 n)) = SOk"
  shows "fst (adb_addBalance R x n (Some d)) \<and>
    balance_of view (snd (adb_addBalance R x n (Some d))) x = n"
proof -
  obtain d' where p: "rdb_put R d True (PREFIX_BAL @ x) (show_u64 n) = (SOk, d')"
    using assms(4) by (cases "rdb_put R d True (PREFIX_BAL @ x) (show_u64 n)") auto
  obtain val where "rdb_get R d (PREFIX_BAL @ x) [] = (SIOError msg, val)"
    using assms(3) by (cases "rdb_get R d (PREFIX_BAL @ x) []") auto
  then have "adb_read R (PREFIX_BAL @ x) (Some d) = None"
    using assms(2) by (simp add: adb_read_def adb_get_def)
  then have "adb_addBalance R x n (Some d) = (True, Some d')"
    using p assms(2) by (simp add: adb_updates update_number_def plus_checked_def adb_write_def adb_put_def)
  then show ?thesis
    using rocks.put_ok [OF assms(1) p] by (simp add: balance_of_def adb_content_def)
qed

lemma hex_pairs_hex_bytes [simp]: "hex_pairs (hex_bytes bs) = Some bs"
proof (induction bs)
  case (Cons b bs)
  obtain c d where h: "hex_byte b = [c, d]" by (simp add: hex_byte_def)
  have "stoul16 [c, d] = Inr (ucast b)" using stoul16_hex_byte [of b] by (simp add: h)
  moreover have "ucast (ucast b :: u64) = b" by (simp add: ucast_up_ucast_id is_up)
  ultimately show ?case using Cons by (simp add: h)
qed simp

lemma hex_bytes_Nil [simp]: "hex_bytes bs = [] \<longleftrightarrow> bs = []"
  by (cases bs) (simp_all add: hex_byte_def)

context reliable_rocks begin

lemma get_written:
  assumes "adb_write R k v a = (True, a')" and "isValidKey k"
  shows "adb_get R k [] a' = (fst (adb_get R k [] a'), v) \<and> dbr_ok (fst (adb_get R k [] a'))"
proof -
  have "adb_read R k a' = Some v" using assms by (simp add: adb_read_content adb_write_ok)
  then show ?thesis by (auto simp: adb_read_def split: prod.splits if_splits)
qed

end

lemma adb_set_write:
  "adb_setContractCode R x code a = adb_write R (PREFIX_CODE @ x) (hex_bytes code) a"
  "adb_setStorageSlot R x k v a = adb_write R (PREFIX_STORE @ x @ '':'' @ k) v a"
  by (simp_all add: adb_setContractCode_def adb_setStorageSlot_def adb_write_def)

text \<open>
  contract code that was stored is read back byte for byte, and a stored slot reads back
  its value. The key of a slot does not separate the address from the slot: a slot \<open>k\<close> of
  the address \<open>x:y\<close> is the slot \<open>y:k\<close> of the address \<open>x\<close>.
\<close>

theorem contract_state_roundtrip:
  assumes R: "reliable_rocks R view"
    and valid: "isValidKey (PREFIX_CODE @ x)" "isValidKey (PREFIX_STORE @ (x @ '':'' @ y) @ '':'' @ k)"
    and code: "adb_setContractCode R x code a = (True, a1)"
    and stored: "adb_setStorageSlot R (x @ '':'' @ y) k v a = (True, a2)"
  shows "adb_getContractCode R x a1 = code \<and> adb_getStorageSlot R (x @ '':'' @ y) k a2 = v \<and>
    adb_getStorageSlot R x (y @ '':'' @ k) a2 = v"
proof -
  have "adb_getContractCode R x a1 = code"
    using reliable_rocks.get_written [OF R code [unfolded adb_set_write] valid(1)]
    by (cases "adb_get R (PREFIX_CODE @ x) [] a1") (auto simp: adb_getContractCode_def)
  moreover have "snd (adb_get R (PREFIX_STORE @ (x @ '':'' @ y) @ '':'' @ k) [] a2) = v"
    using reliable_rocks.get_written [OF R stored [unfolded adb_set_write] valid(2)] by (metis snd_conv)
  ultimately show ?thesis by (simp add: adb_getStorageSlot_def)
qed

section \<open>Witnesses\<close>

text \<open>A database in memory that never fails, and one whose reads always do.\<close>

definition mem_rocks :: "(string \<Rightarrow> string option) rocksdb" where
  "mem_rocks =
     \<lparr>rdb_open = (\<lambda>path. (SOk, \<lambda>k. None)),
      rdb_put = (\<lambda>d sync k v. (SOk, d(k := Some v))),
      rdb_get = (\<lambda>d k x. case d k of None \<Rightarrow> (SNotFound, x) | Some v \<Rightarrow> (SOk, v)),
      rdb_delete = (\<lambda>d sync k. (SOk, d(k := None))),
      rdb_write = (\<lambda>d sync ops. (SOk, batch_apply ops d)),
      rdb_from = (\<lambda>d k. ([], SOk))\<rparr>"

definition blind_rocks :: "(string \<Rightarrow> string option) rocksdb" where
  "blind_rocks = mem_rocks\<lparr>rdb_get := (\<lambda>d k x. (SIOError ''IO'', x))\<rparr>"

interpretation mem: reliable_rocks mem_rocks "\<lambda>d. d"
  by unfold_locales (auto simp: mem_rocks_def split: option.splits)

interpretation blind: rocks blind_rocks "\<lambda>d. d"
  by unfold_locales (auto simp: blind_rocks_def mem_rocks_def)

lemma short_key: "isValidKey ''bal:a'' \<and> isValidKey ''nonce:a'' \<and> isValidKey ''code:a'' \<and> isValidKey ''store:a:b:c''"
  by (simp add: isValidKey_def MAX_KEY_LEN_def)

lemma account_updates_exact_witness:
  "unat (balance_of (\<lambda>d. d) (snd (adb_addBalance mem_rocks ''a'' 7 (Some (\<lambda>k. None)))) ''a'') = 7"
proof -
  have b: "balance_of (\<lambda>d. d) (Some (\<lambda>k. None)) ''a'' = 0" by (simp add: balance_of_def adb_content_def)
  have "fst (adb_addBalance mem_rocks ''a'' 7 (Some (\<lambda>k. None)))"
    using short_key
    by (simp add: adb_updates update_number_def adb_read_def adb_get_def mem_rocks_def PREFIX_BAL_def
        plus_checked_def adb_write_def adb_put_def)
  then show ?thesis
    using account_updates_exact [OF mem.reliable_rocks_axioms, of "''a''" "Some (\<lambda>k. None)" 7] short_key b
    by (auto simp: PREFIX_BAL_def PREFIX_NONCE_def split: prod.splits)
qed

lemma commitBlockState_atomic_witness:
  "unat (nonce_of (\<lambda>d. d) (snd (commitBlockState mem_rocks 1 [(''a'', 5)] [''a'', ''a''] [] (Some (\<lambda>k. None)))) ''a'') = 1"
proof -
  let ?c = "commitBlockState mem_rocks 1 [(''a'', 5)] [''a'', ''a''] [] (Some (\<lambda>k. None))"
  have n: "adb_getNonce mem_rocks ''a'' (Some (\<lambda>k. None)) = 0"
    using short_key by (simp add: adb_getters adb_read_def adb_get_def mem_rocks_def PREFIX_NONCE_def)
  have "dbr_ok (fst ?c)"
    using short_key n
    by (simp add: commitBlockState_def PREFIX_BAL_def PREFIX_NONCE_def adb_writeBatch_def mem_rocks_def)
  moreover have "?c = (fst ?c, snd ?c)" by simp
  moreover have "nonce_of (\<lambda>d. d) (Some (\<lambda>k. None)) ''a'' = 0" by (simp add: nonce_of_def adb_content_def)
  ultimately show ?thesis
    using commitBlockState_atomic [OF mem.rocks_axioms, of 1 "[(''a'', 5)]" "[''a'', ''a'']" "[]"
        "Some (\<lambda>k. None)" "fst ?c" "snd ?c"] by (simp add: read_fails_def mem_rocks_def)
qed

lemma addBalance_after_read_error_witness:
  "balance_of (\<lambda>d. d) (snd (adb_addBalance blind_rocks ''a'' 7 (Some [''bal:a'' \<mapsto> ''1000'']))) ''a'' = 7"
  using addBalance_after_read_error [OF blind.rocks_axioms, of "''a''" "[''bal:a'' \<mapsto> ''1000'']" "''IO''" 7]
    short_key by (simp add: blind_rocks_def mem_rocks_def PREFIX_BAL_def)

lemma contract_state_roundtrip_witness:
  "adb_getContractCode mem_rocks ''a'' (snd (adb_setContractCode mem_rocks ''a'' [0xAB] (Some (\<lambda>k. None)))) = [0xAB]"
proof -
  have "adb_setContractCode mem_rocks ''a'' [0xAB] (Some (\<lambda>k. None)) =
      (True, snd (adb_setContractCode mem_rocks ''a'' [0xAB] (Some (\<lambda>k. None))))"
    "adb_setStorageSlot mem_rocks (''a'' @ '':'' @ ''b'') ''c'' ''v'' (Some (\<lambda>k. None)) =
      (True, snd (adb_setStorageSlot mem_rocks (''a'' @ '':'' @ ''b'') ''c'' ''v'' (Some (\<lambda>k. None))))"
    using short_key
    by (simp_all add: adb_set_write adb_write_def adb_put_def PREFIX_CODE_def PREFIX_STORE_def mem_rocks_def)
  from contract_state_roundtrip [OF mem.reliable_rocks_axioms _ _ this] show ?thesis
    using short_key by (simp add: PREFIX_CODE_def PREFIX_STORE_def)
qed

end
