(* ===== verification/BlockDB.thy ===== *)
theory BlockDB
  imports Block AccountDB
begin

text \<open>
  The block database, \<^verbatim>\<open>include/db/blockdb.h\<close> and \<^verbatim>\<open>src/db/blockdb.cpp\<close>: blocks under their
  hashes in a LevelDB instance, in the text form of \<^verbatim>\<open>Block::serialize\<close>.

  LevelDB is the parameter \<open>L\<close>, with the locale \<open>level\<close> for what its documentation promises;
  a status is \<open>None\<close> for OK and otherwise its text. A \<open>BlockDB\<close> object is its pointer
  \<^verbatim>\<open>db_\<close> (\<open>None\<close>: null). Caches, locks and log output are not modelled.
\<close>

section \<open>LevelDB\<close>

record 'l leveldb =
  ldb_open :: "string \<Rightarrow> string option \<times> 'l"
  ldb_put :: "'l \<Rightarrow> string \<Rightarrow> string \<Rightarrow> string option \<times> 'l"
  ldb_get :: "'l \<Rightarrow> string \<Rightarrow> string option \<times> string"
  ldb_write :: "'l \<Rightarrow> (string \<times> string) list \<Rightarrow> string option \<times> 'l"
  ldb_entries :: "'l \<Rightarrow> (string \<times> string) list \<times> string option"

locale level =
  fixes L :: "'l leveldb" and stored :: "'l \<Rightarrow> string \<Rightarrow> string option"
  assumes put_ok: "ldb_put L d k v = (None, d') \<Longrightarrow> stored d' = (stored d)(k := Some v)"
    and put_fail: "ldb_put L d k v = (Some e, d') \<Longrightarrow> stored d' = stored d"
    and write_ok: "ldb_write L d kvs = (None, d') \<Longrightarrow> stored d' = stored d ++ map_of (rev kvs)"
    and write_fail: "ldb_write L d kvs = (Some e, d') \<Longrightarrow> stored d' = stored d"
    and get_ok: "ldb_get L d k = (None, v) \<Longrightarrow> stored d k = Some v"

section \<open>Operations\<close>

type_synonym 'l blockdb = "'l option"

definition blockdb_open :: "'l leveldb \<Rightarrow> string \<Rightarrow> 'l blockdb \<Rightarrow> db_result \<times> 'l blockdb" where
  "blockdb_open L path d =
     (case d of
        Some h \<Rightarrow> (db_failure ''already open'', d)
      | None \<Rightarrow>
          (case ldb_open L path of
             (Some e, h) \<Rightarrow> (db_failure (''leveldb open failed: '' @ e), None)
           | (None, h) \<Rightarrow> (db_success, Some h)))"

definition blockdb_close :: "'l blockdb \<Rightarrow> 'l blockdb" where
  "blockdb_close d = None"

definition blockdb_isOpen :: "'l blockdb \<Rightarrow> bool" where
  "blockdb_isOpen d = (d \<noteq> None)"

definition level_result :: "string option \<Rightarrow> string \<Rightarrow> db_result" where
  "level_result s ctx = (case s of None \<Rightarrow> db_success | Some e \<Rightarrow> db_failure (ctx @ '': '' @ e))"

definition isValidHash :: "string \<Rightarrow> bool" where
  "isValidHash hash =
     (if length hash \<noteq> 64 then False
      else list_all (\<lambda>c. (of_char CHR ''0'' \<le> (of_char c :: nat) \<and> (of_char c :: nat) \<le> of_char CHR ''9'') \<or>
          (of_char CHR ''a'' \<le> (of_char c :: nat) \<and> (of_char c :: nat) \<le> of_char CHR ''f'')) hash)"

definition writeBlock :: "'l leveldb \<Rightarrow> block \<Rightarrow> 'l blockdb \<Rightarrow> db_result \<times> 'l blockdb" where
  "writeBlock L b d =
     (if \<not> isValidHash (blk_hash b) then (db_failure ''writeBlock: invalid hash format'', d)
      else
        case d of
          None \<Rightarrow> (db_failure ''writeBlock: DB not open'', d)
        | Some h \<Rightarrow>
            (case ldb_put L h (blk_hash b) (serialize b) of (s, h) \<Rightarrow> (level_result s ''writeBlock'', Some h)))"

text \<open>\<^verbatim>\<open>readBlock\<close> fills the block it is given.\<close>

definition readBlock :: "'l leveldb \<Rightarrow> string \<Rightarrow> block \<Rightarrow> 'l blockdb \<Rightarrow> db_result \<times> block" where
  "readBlock L hash out d =
     (if \<not> isValidHash hash then (db_failure ''readBlock: invalid hash format'', out)
      else
        case d of
          None \<Rightarrow> (db_failure ''readBlock: DB not open'', out)
        | Some h \<Rightarrow>
            (case ldb_get L h hash of
               (Some e, raw) \<Rightarrow> (level_result (Some e) ''readBlock'', out)
             | (None, raw) \<Rightarrow>
                 (case deserialize raw out of (out, ok) \<Rightarrow>
                   if \<not> ok then (db_failure (''readBlock: deserialize failed for '' @ hash), out)
                   else (db_success, out))))"

definition blockdb_hasBlock :: "'l leveldb \<Rightarrow> string \<Rightarrow> 'l blockdb \<Rightarrow> bool" where
  "blockdb_hasBlock L hash d =
     (if \<not> isValidHash hash then False
      else case d of None \<Rightarrow> False | Some h \<Rightarrow> fst (ldb_get L h hash) = None)"

definition blockdb_writeBatch :: "'l leveldb \<Rightarrow> block list \<Rightarrow> 'l blockdb \<Rightarrow> db_result \<times> 'l blockdb" where
  "blockdb_writeBatch L blocks d =
     (case d of
        None \<Rightarrow> (db_failure ''writeBatch: DB not open'', d)
      | Some h \<Rightarrow>
          (case find (\<lambda>b. \<not> isValidHash (blk_hash b)) blocks of
             Some b \<Rightarrow> (db_failure (''writeBatch: invalid hash '' @ blk_hash b), d)
           | None \<Rightarrow>
               (case ldb_write L h (map (\<lambda>b. (blk_hash b, serialize b)) blocks) of (s, h) \<Rightarrow>
                 (level_result s ''writeBatch'', Some h))))"

text \<open>The count of the entries seen, the status and the error of a scan with a callback.\<close>

fun scan_entries :: "(string \<Rightarrow> string \<Rightarrow> bool) \<Rightarrow> nat \<Rightarrow> (string \<times> string) list \<Rightarrow> nat" where
  "scan_entries cb n [] = n"
| "scan_entries cb n ((k, v) # rest) = (if \<not> cb k v then n + 1 else scan_entries cb (n + 1) rest)"

definition blockdb_scan :: "'l leveldb \<Rightarrow> (string \<Rightarrow> string \<Rightarrow> bool) \<Rightarrow> 'l blockdb \<Rightarrow> nat \<times> db_result" where
  "blockdb_scan L cb d =
     (case d of
        None \<Rightarrow> (0, db_failure ''scan: DB not open'')
      | Some h \<Rightarrow>
          (case ldb_entries L h of (kvs, s) \<Rightarrow>
            (scan_entries cb 0 kvs, level_result s ''scan: iterator error'')))"

section \<open>Reading back\<close>

definition blockdb_content :: "('l \<Rightarrow> string \<Rightarrow> string option) \<Rightarrow> 'l blockdb \<Rightarrow> string \<Rightarrow> string option" where
  "blockdb_content stored d = (case d of None \<Rightarrow> (\<lambda>k. None) | Some h \<Rightarrow> stored h)"

context level begin

lemma writeBlock_ok:
  "writeBlock L b d = (r, d') \<Longrightarrow> dbr_ok r \<Longrightarrow>
   blockdb_content stored d' = (blockdb_content stored d)(blk_hash b := Some (serialize b)) \<and> isValidHash (blk_hash b)"
  using put_ok
  by (auto simp: writeBlock_def level_result_def blockdb_content_def split: if_splits option.splits prod.splits)

lemma writeBlock_fail:
  "writeBlock L b d = (r, d') \<Longrightarrow> \<not> dbr_ok r \<Longrightarrow> blockdb_content stored d' = blockdb_content stored d"
  using put_fail
  by (auto simp: writeBlock_def level_result_def blockdb_content_def split: if_splits option.splits prod.splits)

lemma readBlock_content:
  "readBlock L hash c d = (r, out) \<Longrightarrow> dbr_ok r \<Longrightarrow>
   \<exists>raw. blockdb_content stored d hash = Some raw \<and> deserialize raw c = (out, True)"
  using get_ok
  by (fastforce simp: readBlock_def level_result_def blockdb_content_def split: if_splits option.splits prod.splits)

lemma writeBatch_ok:
  "blockdb_writeBatch L blocks d = (r, d') \<Longrightarrow> dbr_ok r \<Longrightarrow>
   blockdb_content stored d' =
     blockdb_content stored d ++ map_of (rev (map (\<lambda>b. (blk_hash b, serialize b)) blocks))"
  using write_ok
  by (auto simp: blockdb_writeBatch_def level_result_def blockdb_content_def split: option.splits prod.splits)

end

text \<open>
  a block that was written and is read back, whatever other blocks were written in
  between under other hashes, comes back as it was stored: every field of the header and of
  the transactions the text form keeps.
\<close>

theorem blockdb_roundtrip:
  assumes L: "level L stored"
    and first: "writeBlock L b d = (r1, d1)" "dbr_ok r1"
    and second: "writeBlock L b' d1 = (r2, d2)" "blk_hash b' \<noteq> blk_hash b"
    and read: "readBlock L (blk_hash b) c d2 = (r3, out)" "dbr_ok r3"
    and b: "no_sep b" "length (blk_transactions b) \<le> MAX_TRANSACTIONS" "blk_timestamp b \<noteq> 0"
  shows "out = stored_block b"
proof -
  have "blockdb_content stored d1 (blk_hash b) = Some (serialize b)"
    using level.writeBlock_ok [OF L first] by simp
  then have "blockdb_content stored d2 (blk_hash b) = Some (serialize b)"
    using level.writeBlock_ok [OF L second(1)] level.writeBlock_fail [OF L second(1)] second(2)
    by (cases "dbr_ok r2") auto
  with level.readBlock_content [OF L read] have "deserialize (serialize b) c = (out, True)" by auto
  then show ?thesis using deserialize_eq [OF b, of c] by simp
qed

section \<open>Witness\<close>

definition mem_level :: "(string \<Rightarrow> string option) leveldb" where
  "mem_level =
     \<lparr>ldb_open = (\<lambda>path. (None, \<lambda>k. None)),
      ldb_put = (\<lambda>d k v. (None, d(k := Some v))),
      ldb_get = (\<lambda>d k. case d k of None \<Rightarrow> (Some ''NotFound: '', []) | Some v \<Rightarrow> (None, v)),
      ldb_write = (\<lambda>d kvs. (None, d ++ map_of (rev kvs))),
      ldb_entries = (\<lambda>d. ([], None))\<rparr>"

interpretation mem: level mem_level "\<lambda>d. d"
  by unfold_locales (auto simp: mem_level_def split: option.splits)

definition sample_block :: "char \<Rightarrow> block" where
  "sample_block c = (new_block 7 ''a'' ''bc'' 3 ''m'')\<lparr>blk_hash := replicate 64 c\<rparr>"

lemma sample_block_written:
  "c = CHR ''a'' \<or> c = CHR ''b'' \<Longrightarrow>
   writeBlock mem_level (sample_block c) (Some d) =
     (db_success, Some (d(replicate 64 c := Some (serialize (sample_block c)))))"
  by (auto simp: writeBlock_def mem_level_def isValidHash_def sample_block_def level_result_def list_all_iff)

lemma blockdb_roundtrip_witness:
  "snd (readBlock mem_level (replicate 64 CHR ''a'') (default_block 0)
     (snd (writeBlock mem_level (sample_block CHR ''b'')
       (snd (writeBlock mem_level (sample_block CHR ''a'') (Some (\<lambda>k. None))))))) =
   stored_block (sample_block CHR ''a'')"
proof -
  let ?a = "sample_block CHR ''a''" and ?b = "sample_block CHR ''b''"
  let ?d1 = "Some ((\<lambda>k. None)(replicate 64 CHR ''a'' := Some (serialize ?a)))"
  let ?d2 = "Some ((\<lambda>k. None)(replicate 64 CHR ''a'' := Some (serialize ?a),
                              replicate 64 CHR ''b'' := Some (serialize ?b)))"
  let ?r = "readBlock mem_level (blk_hash ?a) (default_block 0) ?d2"
  have ne: "replicate 64 CHR ''b'' \<noteq> replicate 64 CHR ''a''" by (simp add: replicate_eq_replicate)
  have ok: "no_sep ?a" "length (blk_transactions ?a) \<le> MAX_TRANSACTIONS" "blk_timestamp ?a \<noteq> 0"
    by (simp_all add: sample_block_def no_sep_def new_block_def MAX_TRANSACTIONS_def)
  have w1: "writeBlock mem_level ?a (Some (\<lambda>k. None)) = (db_success, ?d1)"
    by (rule sample_block_written) simp
  have w2: "writeBlock mem_level ?b ?d1 = (db_success, ?d2)"
    by (rule sample_block_written) simp
  have h: "blk_hash ?a = replicate 64 CHR ''a''" "blk_hash ?b = replicate 64 CHR ''b''"
    by (simp_all add: sample_block_def)
  have "dbr_ok (fst ?r)"
    using ne deserialize_eq [OF ok, of "default_block 0"]
    by (simp add: readBlock_def h mem_level_def isValidHash_def list_all_iff)
  then have "snd ?r = stored_block ?a"
    using blockdb_roundtrip [OF mem.level_axioms w1 _ w2 _ _ _ ok, of "default_block 0" "fst ?r" "snd ?r"] h ne
    by simp
  then show ?thesis by (simp add: w1 w2 h)
qed

end
