(* ===== verification/Signature.thy ===== *)
theory Signature
  imports Keccak
begin

text \<open>
  Verification of transaction signatures, \<^verbatim>\<open>src/crypto/verify_signature.cpp\<close>.

  libsecp256k1 is the parameter \<open>S\<close>: parsing of keys and signatures (\<open>None\<close>: it does not
  answer 1), verification, recovery of a public key from a hash and a recoverable
  signature, and the two serializations of a key. Logging is not modelled.
\<close>

record ('pk, 'sg, 'rs) secp =
  sp_pubkey_parse :: "bytes \<Rightarrow> 'pk option"
  sp_parse_compact :: "bytes \<Rightarrow> 'sg option"
  sp_normalize :: "'sg \<Rightarrow> 'sg"
  sp_verify :: "'sg \<Rightarrow> bytes \<Rightarrow> 'pk \<Rightarrow> bool"
  sp_parse_recoverable :: "bytes \<Rightarrow> nat \<Rightarrow> 'rs option"
  sp_recover :: "'rs \<Rightarrow> bytes \<Rightarrow> 'pk option"
  sp_compressed :: "'pk \<Rightarrow> bytes"
  sp_uncompressed :: "'pk \<Rightarrow> bytes"

definition verifyHashWithPubkey :: "('pk, 'sg, 'rs) secp \<Rightarrow> bytes \<Rightarrow> bytes \<Rightarrow> bytes \<Rightarrow> bool" where
  "verifyHashWithPubkey S hash32 pubkey33 sig64 =
     (case sp_pubkey_parse S pubkey33 of
        None \<Rightarrow> False
      | Some pub \<Rightarrow>
          (case sp_parse_compact S sig64 of
             None \<Rightarrow> False
           | Some sig \<Rightarrow> if \<not> sp_verify S (sp_normalize S sig) hash32 pub then False else True))"

text \<open>The recovery id is a C++ \<^verbatim>\<open>int\<close>. The answer is the compressed key.\<close>

definition recoverPubkey :: "('pk, 'sg, 'rs) secp \<Rightarrow> bytes \<Rightarrow> bytes \<Rightarrow> int \<Rightarrow> bytes option" where
  "recoverPubkey S hash32 sig64 recoveryId =
     (if recoveryId < 0 \<or> recoveryId > 3 then None
      else
        case sp_parse_recoverable S sig64 (nat recoveryId) of
          None \<Rightarrow> None
        | Some rsig \<Rightarrow>
            (case sp_recover S rsig hash32 of
               None \<Rightarrow> None
             | Some pub \<Rightarrow>
                 let out = sp_compressed S pub
                 in if length out \<noteq> 33 then None else Some out))"

definition computeRecoveryId :: "u64 \<Rightarrow> u64 \<Rightarrow> int" where
  "computeRecoveryId v chainId =
     (let base = 35 + 2 * chainId
      in if chainId > 0 \<and> chainId \<le> (0xFFFFFFFFFFFFFFFF - 35) div 2 \<and> (v = base \<or> v = base + 1)
         then uint (v - base)
         else if v = 27 \<or> v = 28 then uint (v - 27)
         else - 1)"

text \<open>\<^verbatim>\<open>v\<close> is an \<^verbatim>\<open>int\<close>; the cast to \<^verbatim>\<open>uint64_t\<close> extends its sign.\<close>

definition recoverAndVerify ::
    "('pk, 'sg, 'rs) secp \<Rightarrow> bytes \<Rightarrow> bytes \<Rightarrow> bytes \<Rightarrow> 32 word \<Rightarrow> bytes \<Rightarrow> bool" where
  "recoverAndVerify S hash32 rBytes sBytes v expectedAddr20 =
     (let recoveryId = computeRecoveryId (scast v) 0
      in if recoveryId < 0 \<and> \<not> (v = 0 \<or> v = 1) then False
         else
           let recoveryId = (if recoveryId < 0 then sint v else recoveryId)
           in case recoverPubkey S hash32 (rBytes @ sBytes) recoveryId of
                None \<Rightarrow> False
              | Some pubkey33 \<Rightarrow>
                  (case sp_pubkey_parse S pubkey33 of
                     None \<Rightarrow> False
                   | Some pub \<Rightarrow>
                       let (ok, digest) = Keccak256 (Some (drop 1 (sp_uncompressed S pub))) 64
                       in if \<not> ok then False else drop 12 digest = expectedAddr20))"

lemma computeRecoveryId_0 [simp]:
  "computeRecoveryId v 0 = (if v = 27 then 0 else if v = 28 then 1 else - 1)"
  by (simp add: computeRecoveryId_def)

text \<open>The round trip of a compressed key, as the library documents it.\<close>

locale secp_keys =
  fixes S :: "('pk, 'sg, 'rs) secp"
  assumes parse_compressed: "sp_pubkey_parse S (sp_compressed S pk) = Some pk"
    and length_compressed: "length (sp_compressed S pk) = 33"
begin

lemma recoverPubkey_key:
  "recoverPubkey S h sig i = Some k \<longleftrightarrow>
   0 \<le> i \<and> i \<le> 3 \<and> (\<exists>rsig pk. sp_parse_recoverable S sig (nat i) = Some rsig \<and>
     sp_recover S rsig h = Some pk \<and> k = sp_compressed S pk)"
  by (auto simp: recoverPubkey_def length_compressed Let_def split: option.splits if_splits)

end

definition recovery_of :: "32 word \<Rightarrow> nat option" where
  "recovery_of v = (if v = 27 \<or> v = 0 then Some 0 else if v = 28 \<or> v = 1 then Some 1 else None)"

text \<open>
  a signature is accepted exactly when \<^verbatim>\<open>v\<close> is 0, 1, 27 or 28, the library recovers a
  public key from it for the hash, and the last 20 bytes of the Keccak digest of that key's
  64 bytes are the expected address.
\<close>

theorem recoverAndVerify_iff:
  assumes "secp_keys S"
  shows "recoverAndVerify S h r s v addr \<longleftrightarrow>
    (case recovery_of v of
       None \<Rightarrow> False
     | Some i \<Rightarrow>
         (case sp_parse_recoverable S (r @ s) i of
            None \<Rightarrow> False
          | Some rsig \<Rightarrow>
              (case sp_recover S rsig h of
                 None \<Rightarrow> False
               | Some pk \<Rightarrow>
                   drop 12 (keccak256Core (take 64 (drop 1 (sp_uncompressed S pk)))) = addr)))"
proof -
  have cast_id: "ucast (scast v :: u64) = v" by (rule bit_word_eqI) (auto simp: bit_simps)
  have "scast v = (27 :: u64) \<Longrightarrow> v = 27" "scast v = (28 :: u64) \<Longrightarrow> v = 28"
    using cast_id by auto
  moreover have "scast (27 :: 32 word) = (27 :: u64)" "scast (28 :: 32 word) = (28 :: u64)" by simp_all
  ultimately have casts: "scast v = (27 :: u64) \<longleftrightarrow> v = 27" "scast v = (28 :: u64) \<longleftrightarrow> v = 28" by auto
  have len: "length (sp_compressed S pk) = 33" and parse: "sp_pubkey_parse S (sp_compressed S pk) = Some pk" for pk
    using assms by (simp_all add: secp_keys_def)
  have verify: "recoverPubkey S h sig (int i) = (case sp_parse_recoverable S sig i of None \<Rightarrow> None
      | Some rsig \<Rightarrow> map_option (sp_compressed S) (sp_recover S rsig h))" if "i \<le> 3" for sig i
    using that by (auto simp: recoverPubkey_def len Let_def split: option.split)
  have hash: "Keccak256 (Some k) 64 = (True, keccak256Core (take 64 k))" for k
    by (simp add: Keccak256_def)
  show ?thesis
    using verify [of 0] verify [of 1]
    by (auto simp: recoverAndVerify_def recovery_of_def casts parse hash Let_def split: option.splits)
qed

text \<open>Keys as their own 65-byte form under a toy library, where every signature recovers one key.\<close>

definition toy_secp :: "(bool, unit, unit) secp" where
  "toy_secp =
     \<lparr>sp_pubkey_parse = (\<lambda>b. if hd b = 2 then Some False else if hd b = 3 then Some True else None),
      sp_parse_compact = (\<lambda>b. Some ()), sp_normalize = (\<lambda>s. s), sp_verify = (\<lambda>s h k. True),
      sp_parse_recoverable = (\<lambda>b i. Some ()), sp_recover = (\<lambda>s h. Some True),
      sp_compressed = (\<lambda>k. (if k then 3 else 2) # replicate 32 0),
      sp_uncompressed = (\<lambda>k. 4 # replicate 64 0)\<rparr>"

interpretation toy: secp_keys toy_secp
  by unfold_locales (simp_all add: toy_secp_def)

theorem recoverAndVerify_iff_witness:
  "recoverAndVerify toy_secp [1] [2] [3] 27 (drop 12 (keccak256Core (replicate 64 0))) \<and>
   \<not> recoverAndVerify toy_secp [1] [2] [3] 29 []"
  using recoverAndVerify_iff [OF toy.secp_keys_axioms, of "[1]" "[2]" "[3]" 27]
    recoverAndVerify_iff [OF toy.secp_keys_axioms, of "[1]" "[2]" "[3]" 29 "[]"]
  by (simp add: recovery_of_def toy_secp_def)

end
