(* ===== verification/Chain.thy ===== *)
theory Chain
  imports Pow BlockDB Signature
begin

text \<open>
  The chain, \<^verbatim>\<open>include/blockchain.h\<close>, \<^verbatim>\<open>src/blockchain.cpp\<close>, \<^verbatim>\<open>include/blockchain_fork.h\<close> and
  \<^verbatim>\<open>src/blockchain_fork.cpp\<close>: loading and saving of its state, balances, the base fee, the
  reward, validation of a block's transactions, their application to the state with the
  network fee, \<^verbatim>\<open>addBlock\<close> and the longest-chain rule.

  The account database, the block database, the miner and the check of signatures are the
  models of the theories imported here. The UTXO set is a parameter: the repository has its
  header and the body of one method only. So is the wall clock: \<open>t0\<close>, \<open>t1\<close>, ... are the answers
  of the successive calls of \<^verbatim>\<open>time(nullptr)\<close>. Locks and log output are not modelled;
  \<^verbatim>\<open>mineBlockAsync\<close> runs \<^verbatim>\<open>addBlock\<close> on a thread of its own under the same lock.
\<close>

section \<open>State\<close>

record utxo =
  utxo_txHash :: string
  utxo_outputIndex :: u32
  utxo_value :: u64
  utxo_address :: string
  utxo_blockHeight :: u64
  utxo_isCoinbase :: bool

record 'u utxo_set =
  us_empty :: 'u
  us_get :: "string \<Rightarrow> u32 \<Rightarrow> 'u \<Rightarrow> utxo option"
  us_spend :: "string \<Rightarrow> u32 \<Rightarrow> u64 \<Rightarrow> 'u \<Rightarrow> bool \<times> 'u"
  us_add :: "tx_output \<Rightarrow> string \<Rightarrow> u32 \<Rightarrow> u64 \<Rightarrow> bool \<Rightarrow> 'u \<Rightarrow> bool \<times> 'u"

text \<open>What the chain calls: \<open>cx_verify\<close> is \<^verbatim>\<open>recoverAndVerify\<close>, \<open>recoverAndVerify S\<close> for a library \<open>S\<close>.\<close>

record ('d, 'l, 'u) chain_ext =
  cx_rocks :: "'d rocksdb"
  cx_level :: "'l leveldb"
  cx_utxo :: "'u utxo_set"
  cx_verify :: "bytes \<Rightarrow> bytes \<Rightarrow> bytes \<Rightarrow> 32 word \<Rightarrow> bytes \<Rightarrow> bool"

record chain_config =
  cc_ownerAddress :: string
  cc_treasuryAddress :: string
  cc_blockDBPath :: string
  cc_accountDBPath :: string
  cc_maxSupply :: u64
  cc_initialMedor :: u32
  cc_initialBaseFee :: u64
  cc_targetGasPerBlock :: u64
  cc_rewardSchedule :: "(u64 \<times> u64) list"

definition default_chain_config :: chain_config where
  "default_chain_config =
     \<lparr>cc_ownerAddress = [], cc_treasuryAddress = ''medor_treasury'',
      cc_blockDBPath = ''data/medorcoin_blocks'', cc_accountDBPath = ''data/medorcoin_accounts'',
      cc_maxSupply = 50000000, cc_initialMedor = 4, cc_initialBaseFee = 1,
      cc_targetGasPerBlock = 1000000,
      cc_rewardSchedule = [(60 * 24 * 60 * 60, 55), (- 1, 30)]\<rparr>"

record ('d, 'l, 'u) blockchain =
  bc_cfg :: chain_config
  bc_blockDB :: "'l blockdb"
  bc_accountDB :: "'d accountdb"
  bc_utxoSet :: 'u
  bc_chain :: "block list"
  bc_totalSupply :: u64
  bc_baseFeePerGas :: u64
  bc_initialised :: bool

definition KEY_TOTAL_SUPPLY :: string where "KEY_TOTAL_SUPPLY = ''__chain_total_supply__''"
definition KEY_BASE_FEE :: string where "KEY_BASE_FEE = ''__chain_base_fee__''"

section \<open>Queries and balances\<close>

definition bc_height :: "('d, 'l, 'u) blockchain \<Rightarrow> nat" where
  "bc_height bc = (if bc_chain bc = [] then 0 else length (bc_chain bc) - 1)"

definition bc_hasBlock :: "string \<Rightarrow> ('d, 'l, 'u) blockchain \<Rightarrow> bool" where
  "bc_hasBlock hash bc = (if hash = [] then False else list_ex (\<lambda>b. blk_hash b = hash) (bc_chain bc))"

definition getLatestBlock :: "u64 \<Rightarrow> ('d, 'l, 'u) blockchain \<Rightarrow> block option" where
  "getLatestBlock now bc = (if bc_chain bc = [] then None else Some (clone now (last (bc_chain bc))))"

definition chain_getBalance :: "'d rocksdb \<Rightarrow> string \<Rightarrow> 'd accountdb \<Rightarrow> u64" where
  "chain_getBalance R addr a =
     (if addr = [] then 0
      else
        case adb_get R (''bal:'' @ addr) [] a of (r, val) \<Rightarrow>
          if \<not> dbr_ok r then 0 else stoull_or_0 val)"

definition chain_setBalance :: "'d rocksdb \<Rightarrow> string \<Rightarrow> u64 \<Rightarrow> 'd accountdb \<Rightarrow> bool \<times> 'd accountdb" where
  "chain_setBalance R addr amount a =
     (if addr = [] then (False, a)
      else case adb_put R (''bal:'' @ addr) (show_u64 amount) True a of (r, a) \<Rightarrow> (dbr_ok r, a))"

definition chain_addBalance :: "'d rocksdb \<Rightarrow> string \<Rightarrow> u64 \<Rightarrow> 'd accountdb \<Rightarrow> bool \<times> 'd accountdb" where
  "chain_addBalance R addr amount a =
     (if addr = [] then (False, a)
      else
        let current = chain_getBalance R addr a
        in if amount > - 1 - current then (False, a)
           else chain_setBalance R addr (current + amount) a)"

definition chain_deductBalance :: "'d rocksdb \<Rightarrow> string \<Rightarrow> u64 \<Rightarrow> 'd accountdb \<Rightarrow> bool \<times> 'd accountdb" where
  "chain_deductBalance R addr amount a =
     (if addr = [] then (False, a)
      else
        let current = chain_getBalance R addr a
        in if amount > current then (False, a)
           else chain_setBalance R addr (current - amount) a)"

section \<open>Fees and rewards\<close>

definition calculateNetworkFee :: "u64 \<Rightarrow> u64" where
  "calculateNetworkFee value = (if value \<le> 1000 then 9 else (value * 2) div 100)"

definition setBaseFee :: "u64 \<Rightarrow> ('d, 'l, 'u) blockchain \<Rightarrow> ('d, 'l, 'u) blockchain" where
  "setBaseFee fee bc = bc\<lparr>bc_baseFeePerGas := (if fee < 1 then 1 else fee)\<rparr>"

definition burnBaseFees :: "('d, 'l, 'u) chain_ext \<Rightarrow> u64 \<Rightarrow> ('d, 'l, 'u) blockchain \<Rightarrow> ('d, 'l, 'u) blockchain" where
  "burnBaseFees X amount bc =
     bc\<lparr>bc_accountDB := snd (chain_addBalance (cx_rocks X) (cc_treasuryAddress (bc_cfg bc)) amount (bc_accountDB bc))\<rparr>"

definition adjustBaseFee :: "u64 \<Rightarrow> u64 \<Rightarrow> ('d, 'l, 'u) blockchain \<Rightarrow> ('d, 'l, 'u) blockchain" where
  "adjustBaseFee gasUsed gasLimit bc =
     (if gasLimit = 0 then bc
      else
        let current = bc_baseFeePerGas bc;
            delta = max 1 (current div 8);
            next = (if gasUsed * 2 > gasLimit then current + delta
                    else if current > delta then current - delta else 1)
        in bc\<lparr>bc_baseFeePerGas := max next 1\<rparr>)"

text \<open>\<^verbatim>\<open>back()\<close> of an empty schedule is undefined in C++, as \<open>last []\<close> is here.\<close>

fun reward_after :: "u64 \<Rightarrow> (u64 \<times> u64) list \<Rightarrow> u64 option" where
  "reward_after elapsed [] = None"
| "reward_after elapsed ((threshold, reward) # rest) =
     (if elapsed < threshold then Some reward else reward_after elapsed rest)"

definition calculateReward :: "u64 \<Rightarrow> ('d, 'l, 'u) blockchain \<Rightarrow> u64" where
  "calculateReward now bc =
     (let schedule = cc_rewardSchedule (bc_cfg bc)
      in if bc_chain bc = [] then (if schedule = [] then 0 else snd (hd schedule))
         else
           let genesisTime = blk_timestamp (hd (bc_chain bc));
               elapsed = (if now \<ge> genesisTime then now - genesisTime else 0)
           in case reward_after elapsed schedule of
                Some reward \<Rightarrow> reward
              | None \<Rightarrow> snd (last schedule))"

section \<open>Persisted state\<close>

definition loadPersistedState :: "'d rocksdb \<Rightarrow> ('d, 'l, 'u) blockchain \<Rightarrow> ('d, 'l, 'u) blockchain" where
  "loadPersistedState R bc =
     (let (r1, val) = adb_get R KEY_TOTAL_SUPPLY [] (bc_accountDB bc);
          bc = (if dbr_ok r1
                then bc\<lparr>bc_totalSupply := (case stoull val of Inl e \<Rightarrow> 0 | Inr n \<Rightarrow> n)\<rparr> else bc);
          (r2, val) = adb_get R KEY_BASE_FEE val (bc_accountDB bc)
      in if dbr_ok r2
         then bc\<lparr>bc_baseFeePerGas := (case stoull val of Inl e \<Rightarrow> 1 | Inr n \<Rightarrow> n)\<rparr>
         else bc\<lparr>bc_baseFeePerGas := cc_initialBaseFee (bc_cfg bc)\<rparr>)"

definition persistState :: "'d rocksdb \<Rightarrow> ('d, 'l, 'u) blockchain \<Rightarrow> bool \<times> ('d, 'l, 'u) blockchain" where
  "persistState R bc =
     (let (r1, a) = adb_put R KEY_TOTAL_SUPPLY (show_u64 (bc_totalSupply bc)) True (bc_accountDB bc);
          (r2, a) = adb_put R KEY_BASE_FEE (show_u64 (bc_baseFeePerGas bc)) True a
      in (dbr_ok r1 \<and> dbr_ok r2, bc\<lparr>bc_accountDB := a\<rparr>))"

text \<open>
  The blocks the iterator meets; the second result counts those that could not be read. Each
  is read into a new \<^verbatim>\<open>Block\<close>, whose timestamp the code sets to the clock.
\<close>

fun load_blocks :: "'l leveldb \<Rightarrow> u64 \<Rightarrow> 'l blockdb \<Rightarrow> string list \<Rightarrow> block list \<times> nat" where
  "load_blocks L now d [] = ([], 0)"
| "load_blocks L now d (key # keys) =
     (case readBlock L key (default_block now) d of (r, b) \<Rightarrow>
       case load_blocks L now d keys of (bs, failed) \<Rightarrow>
         if \<not> dbr_ok r then (bs, failed + 1) else (b # bs, failed))"

text \<open>\<^verbatim>\<open>std::sort\<close> by timestamp; blocks with one timestamp may come in another order.\<close>

definition loadChainFromDB ::
    "'l leveldb \<Rightarrow> u64 \<Rightarrow> ('d, 'l, 'u) blockchain \<Rightarrow> bool \<times> ('d, 'l, 'u) blockchain" where
  "loadChainFromDB L now bc =
     (case bc_blockDB bc of
        None \<Rightarrow> (False, bc)
      | Some h \<Rightarrow>
          (case ldb_entries L h of (kvs, status) \<Rightarrow>
            case load_blocks L now (bc_blockDB bc) (map fst kvs) of (bs, failed) \<Rightarrow>
              let chain = bc_chain bc @ bs
              in if status \<noteq> None then (False, bc\<lparr>bc_chain := chain\<rparr>)
                 else (failed = 0, bc\<lparr>bc_chain := sort_key blk_timestamp chain\<rparr>)))"

section \<open>Validation of a block's transactions\<close>

fun has_duplicate :: "string set \<Rightarrow> transaction list \<Rightarrow> bool" where
  "has_duplicate seen [] = False"
| "has_duplicate seen (tx # txs) =
     (if tx_txHash tx = [] then has_duplicate seen txs
      else if tx_txHash tx \<in> seen then True
      else has_duplicate (insert (tx_txHash tx) seen) txs)"

definition hasDuplicateTxInBlock :: "transaction list \<Rightarrow> bool" where
  "hasDuplicateTxInBlock txs = has_duplicate {} txs"

text \<open>
  The owner's address from 40 hexadecimal characters, read in pairs with \<^verbatim>\<open>operator>>\<close>, which
  leaves 0 where \<^verbatim>\<open>stoul\<close> throws; any other length gives the zero address.
\<close>

definition hex_byte_at :: "string \<Rightarrow> nat \<Rightarrow> u8" where
  "hex_byte_at s j = (case stoul16 (take 2 (drop (j * 2) s)) of Inl e \<Rightarrow> 0 | Inr n \<Rightarrow> ucast n)"

definition expected_address :: "string \<Rightarrow> bytes" where
  "expected_address addrHex =
     (if length addrHex = 40 then map (hex_byte_at addrHex) [0..<20] else replicate 20 0)"

definition outpoint_key :: "tx_input \<Rightarrow> string" where
  "outpoint_key i = in_prevTxHash i @ '':'' @ show_i32 (in_outputIndex i)"

definition is_signed :: "transaction \<Rightarrow> bool" where
  "is_signed tx \<longleftrightarrow> tx_r tx \<noteq> replicate 32 0 \<or> tx_s tx \<noteq> replicate 32 0"

text \<open>The inputs of one transaction: the outpoints spent so far in the block, and the sum.\<close>

fun check_inputs ::
    "('d, 'l, 'u) chain_ext \<Rightarrow> 'u \<Rightarrow> transaction \<Rightarrow> tx_input list \<Rightarrow> string set \<Rightarrow> u64 \<Rightarrow>
     (string set \<times> u64) option" where
  "check_inputs X u tx [] spent inputSum = Some (spent, inputSum)"
| "check_inputs X u tx (i # is) spent inputSum =
     (if outpoint_key i \<in> spent then None
      else
        let spent = insert (outpoint_key i) spent
        in case us_get (cx_utxo X) (in_prevTxHash i) (in_outputIndex i) u of
             None \<Rightarrow> None
           | Some utxo \<Rightarrow>
               if is_signed tx
               then
                 (case Keccak256 (Some (str_bytes (tx_txHash tx))) (length (tx_txHash tx)) of
                    (False, h) \<Rightarrow> None
                  | (True, signingHash) \<Rightarrow>
                      if \<not> cx_verify X signingHash (tx_r tx) (tx_s tx) (ucast (tx_v tx))
                             (expected_address (utxo_address utxo)) then None
                      else check_inputs X u tx is spent (inputSum + utxo_value utxo))
               else check_inputs X u tx is spent (inputSum + utxo_value utxo))"

definition sum_values :: "tx_output list \<Rightarrow> u64" where
  "sum_values ys = foldl (\<lambda>s y. s + out_value y) 0 ys"

fun check_txs ::
    "('d, 'l, 'u) chain_ext \<Rightarrow> 'u \<Rightarrow> transaction list \<Rightarrow> string set \<Rightarrow> bool" where
  "check_txs X u [] spent = True"
| "check_txs X u (tx # txs) spent =
     (if tx_txHash tx = [] then False
      else if \<not> tx_isValid tx then False
      else
        case check_inputs X u tx (tx_inputs tx) spent 0 of
          None \<Rightarrow> False
        | Some (spent, inputSum) \<Rightarrow>
            if sum_values (tx_outputs tx) > inputSum then False else check_txs X u txs spent)"

text \<open>The first transaction is taken for the coinbase.\<close>

definition validateTransactions ::
    "('d, 'l, 'u) chain_ext \<Rightarrow> u64 \<Rightarrow> transaction list \<Rightarrow> ('d, 'l, 'u) blockchain \<Rightarrow> bool" where
  "validateTransactions X now txs bc =
     (case txs of
        [] \<Rightarrow> True
      | cb # rest \<Rightarrow>
          if hasDuplicateTxInBlock txs then False
          else
            let cbValue = sum_values (tx_outputs cb);
                expected = calculateReward now bc;
                remaining = cc_maxSupply (bc_cfg bc) - bc_totalSupply bc;
                allowed = min expected remaining
            in if cbValue > allowed then False else check_txs X (bc_utxoSet bc) rest {})"

section \<open>Applying a block to the state\<close>

fun spend_inputs :: "'u utxo_set \<Rightarrow> u64 \<Rightarrow> tx_input list \<Rightarrow> 'u \<Rightarrow> bool \<times> 'u" where
  "spend_inputs U h [] u = (True, u)"
| "spend_inputs U h (i # is) u =
     (case us_spend U (in_prevTxHash i) (in_outputIndex i) h u of (ok, u) \<Rightarrow>
       if \<not> ok then (False, u) else spend_inputs U h is u)"

text \<open>The credit of an output and the network fee taken from it.\<close>

definition network_fee :: "u64 \<Rightarrow> u64" where
  "network_fee value = min (calculateNetworkFee value) value"

definition credit_output ::
    "'d rocksdb \<Rightarrow> string \<Rightarrow> bool \<Rightarrow> tx_output \<Rightarrow> 'd accountdb \<Rightarrow> 'd accountdb" where
  "credit_output R treasury isCoinbase y a =
     (let a = snd (chain_addBalance R (out_address y) (out_value y) a)
      in if \<not> isCoinbase \<and> treasury \<noteq> []
         then
           let fee = network_fee (out_value y)
           in if fee > 0
              then
                case chain_deductBalance R (out_address y) fee a of (ok, a) \<Rightarrow>
                  if ok then snd (chain_addBalance R treasury fee a) else a
              else a
         else a)"

fun add_outputs ::
    "('d, 'l, 'u) chain_ext \<Rightarrow> string \<Rightarrow> bool \<Rightarrow> string \<Rightarrow> u64 \<Rightarrow> nat \<Rightarrow> tx_output list \<Rightarrow>
     'u \<Rightarrow> 'd accountdb \<Rightarrow> bool \<times> 'u \<times> 'd accountdb" where
  "add_outputs X treasury isCoinbase txHash h i [] u a = (True, u, a)"
| "add_outputs X treasury isCoinbase txHash h i (y # ys) u a =
     (case us_add (cx_utxo X) y txHash (word_of_nat i) h isCoinbase u of (ok, u) \<Rightarrow>
       if \<not> ok then (False, u, a)
       else add_outputs X treasury isCoinbase txHash h (Suc i) ys u
              (credit_output (cx_rocks X) treasury isCoinbase y a))"

fun apply_txs ::
    "('d, 'l, 'u) chain_ext \<Rightarrow> string \<Rightarrow> u64 \<Rightarrow> bool \<Rightarrow> transaction list \<Rightarrow>
     'u \<Rightarrow> 'd accountdb \<Rightarrow> bool \<times> 'u \<times> 'd accountdb" where
  "apply_txs X treasury h isCoinbase [] u a = (True, u, a)"
| "apply_txs X treasury h isCoinbase (tx # txs) u a =
     (case spend_inputs (cx_utxo X) h (tx_inputs tx) u of (ok, u) \<Rightarrow>
       if \<not> ok then (False, u, a)
       else
         case add_outputs X treasury isCoinbase (tx_txHash tx) h 0 (tx_outputs tx) u a of (ok, u, a) \<Rightarrow>
           if \<not> ok then (False, u, a) else apply_txs X treasury h False txs u a)"

definition applyBlockToState ::
    "('d, 'l, 'u) chain_ext \<Rightarrow> block \<Rightarrow> u64 \<Rightarrow> ('d, 'l, 'u) blockchain \<Rightarrow> bool \<times> ('d, 'l, 'u) blockchain" where
  "applyBlockToState X b blockHeight bc =
     (case apply_txs X (cc_treasuryAddress (bc_cfg bc)) blockHeight True (blk_transactions b)
             (bc_utxoSet bc) (bc_accountDB bc) of (ok, u, a) \<Rightarrow>
       (ok, bc\<lparr>bc_utxoSet := u, bc_accountDB := a\<rparr>))"

definition rollbackBlockFromState ::
    "('d, 'l, 'u) chain_ext \<Rightarrow> block \<Rightarrow> ('d, 'l, 'u) blockchain \<Rightarrow> ('d, 'l, 'u) blockchain" where
  "rollbackBlockFromState X b bc =
     bc\<lparr>bc_utxoSet :=
       foldl (\<lambda>u tx. foldl (\<lambda>u i. snd (us_spend (cx_utxo X) (tx_txHash tx) (word_of_nat i) (- 1) u)) u
                      [0..<length (tx_outputs tx)])
         (bc_utxoSet bc) (rev (blk_transactions b))\<rparr>"

section \<open>Adding a block\<close>

text \<open>The coinbase and whether its hash could be computed.\<close>

definition coinbase :: "string \<Rightarrow> string \<Rightarrow> u64 \<Rightarrow> transaction \<times> bool" where
  "coinbase minerAddr ownerAddr reward =
     (let minerValue = (reward * 90) div 100
      in calculateHash
           (default_tx\<lparr>tx_outputs := [\<lparr>out_value = minerValue, out_address = minerAddr\<rparr>,
                                       \<lparr>out_value = reward - minerValue, out_address = ownerAddr\<rparr>]\<rparr>))"

text \<open>The miner \<^verbatim>\<open>addBlock\<close> makes, and the loop it runs on: no abort, no progress callback.\<close>

definition chain_miner :: "u32 \<Rightarrow> chain_config \<Rightarrow> pow" where
  "chain_miner hardware cfg =
     \<lparr>pow_cfg = ProofOfWork hardware
        (default_config\<lparr>cfg_minDifficulty := cc_initialMedor cfg, cfg_maxDifficulty := cc_initialMedor cfg\<rparr>),
      pow_met = zero_metrics, pow_file = None, pow_writable = False\<rparr>"

definition mining_loop :: "(nat \<Rightarrow> nat) \<Rightarrow> mine_env" where
  "mining_loop clock = \<lparr>env_abort = (\<lambda>i. False), env_clock = clock, env_progress = None\<rparr>"

text \<open>
  The block before mining. \<open>t2\<close> is read by the constructor and replaced by \<open>t3\<close>.
\<close>

definition candidate ::
    "u64 \<Rightarrow> u64 \<Rightarrow> string \<Rightarrow> u64 \<Rightarrow> transaction list \<Rightarrow> ('d, 'l, 'u) blockchain \<Rightarrow> block" where
  "candidate t2 t3 minerAddr reward txs bc =
     (let b = (if bc_chain bc \<noteq> []
               then new_block t2 (blk_hash (last (bc_chain bc))) ''MedorCoin Block''
                      (cc_initialMedor (bc_cfg bc)) minerAddr
               else new_block t2 '''' ''Genesis Block'' (cc_initialMedor (bc_cfg bc)) minerAddr)
      in b\<lparr>blk_timestamp := t3, blk_reward := reward, blk_transactions := txs,
           blk_baseFee := bc_baseFeePerGas bc\<rparr>)"

text \<open>The wall clock, the clock of the miner and the number of cores, during one call.\<close>

record chain_clock =
  ck_time :: "nat \<Rightarrow> u64"
  ck_mining :: "nat \<Rightarrow> nat"
  ck_hardware :: u32

definition addBlock ::
    "('d, 'l, 'u) chain_ext \<Rightarrow> chain_clock \<Rightarrow> string \<Rightarrow> transaction list \<Rightarrow> ('d, 'l, 'u) blockchain \<Rightarrow>
     bool \<times> ('d, 'l, 'u) blockchain" where
  "addBlock X ck minerAddr transactions bc =
     (if minerAddr = [] then (False, bc)
      else
        let blockHeight = word_of_nat (length (bc_chain bc));
            reward = calculateReward (ck_time ck 0) bc;
            remaining = cc_maxSupply (bc_cfg bc) - bc_totalSupply bc;
            reward = min reward remaining;
            (cb, hashed) = coinbase minerAddr (cc_ownerAddress (bc_cfg bc)) reward
        in if reward > 0 \<and> \<not> hashed then (False, bc)
           else
             let txs = (if reward > 0 then cb # transactions else transactions)
             in if \<not> validateTransactions X (ck_time ck 1) txs bc then (False, bc)
                else
                  let b = candidate (ck_time ck 2) (ck_time ck 3) minerAddr reward txs bc;
                      (result, b, p) = mine (mining_loop (ck_mining ck)) b
                        (chain_miner (ck_hardware ck) (bc_cfg bc))
                  in if \<not> res_found result then (False, bc)
                     else
                       let (w, d) = writeBlock (cx_level X) b (bc_blockDB bc);
                           bc = bc\<lparr>bc_blockDB := d\<rparr>
                       in if \<not> dbr_ok w then (False, bc)
                          else
                            let (ok, bc) = applyBlockToState X b blockHeight bc
                            in if \<not> ok then (False, rollbackBlockFromState X b bc)
                               else
                                 let bc = bc\<lparr>bc_chain := bc_chain bc @ [b]\<rparr>;
                                     bc = bc\<lparr>bc_totalSupply := bc_totalSupply bc + reward\<rparr>;
                                     bc = adjustBaseFee (blk_gasUsed b) (cc_targetGasPerBlock (bc_cfg bc)) bc
                                 in (True, snd (persistState (cx_rocks X) bc)))"

section \<open>The constructor\<close>

definition Blockchain :: "('d, 'l, 'u) chain_ext \<Rightarrow> chain_clock \<Rightarrow> chain_config \<Rightarrow> ('d, 'l, 'u) blockchain" where
  "Blockchain X ck cfg =
     (let bc = \<lparr>bc_cfg = cfg, bc_blockDB = None,
                bc_accountDB = AccountDB (cx_rocks X) (cc_accountDBPath cfg),
                bc_utxoSet = us_empty (cx_utxo X), bc_chain = [], bc_totalSupply = 0,
                bc_baseFeePerGas = 1, bc_initialised = False\<rparr>
      in if cc_ownerAddress cfg = [] then bc
         else
           let (r, d) = blockdb_open (cx_level X) (cc_blockDBPath cfg) (bc_blockDB bc);
               bc = bc\<lparr>bc_blockDB := d\<rparr>
           in if \<not> dbr_ok r then bc
              else if \<not> adb_isOpen (bc_accountDB bc) then bc
              else
                let bc = loadPersistedState (cx_rocks X) bc;
                    (loaded, bc) = loadChainFromDB (cx_level X) (ck_time ck 4) bc
                in if bc_chain bc = []
                   then
                     let (ok, bc) = addBlock X ck (cc_ownerAddress cfg) [] bc
                     in if \<not> ok then bc else bc\<lparr>bc_initialised := True\<rparr>
                   else bc\<lparr>bc_initialised := True\<rparr>)"

section \<open>The longest chain\<close>

text \<open>The blocks from index \<open>i > 0\<close> on, each against the one before it.\<close>

fun candidate_links :: "string \<Rightarrow> block list \<Rightarrow> bool" where
  "candidate_links prev [] = True"
| "candidate_links prev (b # bs) =
     (if blk_hash b = [] then False
      else if blk_timestamp b = 0 then False
      else if blk_previousHash b \<noteq> prev then False
      else candidate_links (blk_hash b) bs)"

definition candidate_ok :: "block list \<Rightarrow> bool" where
  "candidate_ok bs =
     (case bs of
        [] \<Rightarrow> True
      | b # rest \<Rightarrow>
          if blk_hash b = [] then False
          else if blk_timestamp b = 0 then False
          else candidate_links (blk_hash b) rest)"

definition resolveLongestChain :: "u64 \<Rightarrow> block list \<Rightarrow> block list \<Rightarrow> bool \<times> block list" where
  "resolveLongestChain now candidates current =
     (if candidates = [] \<or> current = [] then (False, current)
      else if blk_hash (hd candidates) \<noteq> blk_hash (hd current) then (False, current)
      else if length candidates \<le> length current then (False, current)
      else if \<not> candidate_ok candidates then (False, current)
      else (True, map (clone now) candidates))"

section \<open>What addBlock does\<close>

lemma mine_found:
  assumes "mine env b p = (r, b', p')" and "res_found r"
  shows "b' = solved_block b (res_nonce r) \<and> solves b (res_nonce r)"
proof -
  obtain o1 n hc b1 p1 where loop:
      "mine_loop env 0 (loadNonceState p) 0 (env_clock env 0) b p = (o1, n, hc, b1, p1)"
    by (cases "mine_loop env 0 (loadNonceState p) 0 (env_clock env 0) b p") blast
  show ?thesis
  proof (cases o1)
    case None
    then show ?thesis using assms loop by (auto simp: mine_def default_result_def)
  next
    case (Some r1)
    then have "r = r1" "b' = b1" using assms(1) loop by (auto simp: mine_def)
    then show ?thesis using mine_loop_found loop Some by blast
  qed
qed

definition block_reward :: "chain_clock \<Rightarrow> ('d, 'l, 'u) blockchain \<Rightarrow> u64" where
  "block_reward ck bc =
     min (calculateReward (ck_time ck 0) bc) (cc_maxSupply (bc_cfg bc) - bc_totalSupply bc)"

definition block_txs :: "chain_clock \<Rightarrow> string \<Rightarrow> transaction list \<Rightarrow> ('d, 'l, 'u) blockchain \<Rightarrow> transaction list" where
  "block_txs ck minerAddr transactions bc =
     (if block_reward ck bc > 0
      then fst (coinbase minerAddr (cc_ownerAddress (bc_cfg bc)) (block_reward ck bc)) # transactions
      else transactions)"

definition to_mine :: "chain_clock \<Rightarrow> string \<Rightarrow> transaction list \<Rightarrow> ('d, 'l, 'u) blockchain \<Rightarrow> block" where
  "to_mine ck minerAddr transactions bc =
     candidate (ck_time ck 2) (ck_time ck 3) minerAddr (block_reward ck bc)
       (block_txs ck minerAddr transactions bc) bc"

text \<open>The stages of a call that mined a block, up to the write of the block.\<close>

definition mined_and_written ::
    "('d, 'l, 'u) chain_ext \<Rightarrow> chain_clock \<Rightarrow> string \<Rightarrow> transaction list \<Rightarrow> ('d, 'l, 'u) blockchain \<Rightarrow>
     block \<Rightarrow> 'l blockdb \<Rightarrow> bool" where
  "mined_and_written X ck minerAddr transactions bc b d \<longleftrightarrow>
     minerAddr \<noteq> [] \<and>
     validateTransactions X (ck_time ck 1) (block_txs ck minerAddr transactions bc) bc \<and>
     (\<exists>n. solves (to_mine ck minerAddr transactions bc) n \<and>
          b = solved_block (to_mine ck minerAddr transactions bc) n) \<and>
     (\<exists>w. writeBlock (cx_level X) b (bc_blockDB bc) = (w, d) \<and> dbr_ok w)"

text \<open>The call, with the results of its stages named.\<close>

lemma addBlock_eq:
  assumes "coinbase m (cc_ownerAddress (bc_cfg bc)) (block_reward ck bc) = (cb, hashed)"
    and "mine (mining_loop (ck_mining ck)) (to_mine ck m txs bc) (chain_miner (ck_hardware ck) (bc_cfg bc)) = (r, b, p)"
    and "writeBlock (cx_level X) b (bc_blockDB bc) = (w, d)"
    and "applyBlockToState X b (word_of_nat (length (bc_chain bc))) (bc\<lparr>bc_blockDB := d\<rparr>) = (ok1, bc1)"
  shows "addBlock X ck m txs bc =
    (if m = [] then (False, bc)
     else if block_reward ck bc > 0 \<and> \<not> hashed then (False, bc)
     else if \<not> validateTransactions X (ck_time ck 1) (block_txs ck m txs bc) bc then (False, bc)
     else if \<not> res_found r then (False, bc)
     else if \<not> dbr_ok w then (False, bc\<lparr>bc_blockDB := d\<rparr>)
     else if \<not> ok1 then (False, rollbackBlockFromState X b bc1)
     else (True, snd (persistState (cx_rocks X)
           (adjustBaseFee (blk_gasUsed b) (cc_targetGasPerBlock (bc_cfg bc1))
             (bc1\<lparr>bc_chain := bc_chain bc1 @ [b], bc_totalSupply := bc_totalSupply bc1 + block_reward ck bc\<rparr>)))))"
proof (cases "block_reward ck bc > 0")
  case True
  then have t: "block_txs ck m txs bc = cb # txs" using assms(1) by (simp add: block_txs_def)
  show ?thesis
    using assms(2-4) True unfolding addBlock_def Let_def block_reward_def [symmetric] to_mine_def t assms(1)
    by simp
next
  case False
  then have t: "block_txs ck m txs bc = txs" by (simp add: block_txs_def)
  show ?thesis
    using assms(2-4) False unfolding addBlock_def Let_def block_reward_def [symmetric] to_mine_def t assms(1)
    by simp
qed

text \<open>Every outcome of a call: rejected before anything changed, or after a write that failed,
  or after the application to the state failed, or the block is committed.\<close>

lemma addBlock_outcomes:
  assumes "addBlock X ck m txs bc = (ok, bc')"
  obtains (rejected) "\<not> ok" "bc' = bc"
    | (unwritten) b w d where "\<not> ok" "bc' = bc\<lparr>bc_blockDB := d\<rparr>"
        "writeBlock (cx_level X) b (bc_blockDB bc) = (w, d)" "\<not> dbr_ok w"
    | (unapplied) b d bc1 where "\<not> ok" "mined_and_written X ck m txs bc b d"
        "applyBlockToState X b (word_of_nat (length (bc_chain bc))) (bc\<lparr>bc_blockDB := d\<rparr>) = (False, bc1)"
        "bc' = rollbackBlockFromState X b bc1"
    | (committed) b d bc1 where "ok" "mined_and_written X ck m txs bc b d"
        "applyBlockToState X b (word_of_nat (length (bc_chain bc))) (bc\<lparr>bc_blockDB := d\<rparr>) = (True, bc1)"
        "bc' = snd (persistState (cx_rocks X)
           (adjustBaseFee (blk_gasUsed b) (cc_targetGasPerBlock (bc_cfg bc1))
             (bc1\<lparr>bc_chain := bc_chain bc1 @ [b], bc_totalSupply := bc_totalSupply bc1 + block_reward ck bc\<rparr>)))"
proof -
  let ?rew = "block_reward ck bc"
  let ?h = "word_of_nat (length (bc_chain bc)) :: u64"
  obtain cb hashed where cb: "coinbase m (cc_ownerAddress (bc_cfg bc)) ?rew = (cb, hashed)" by fastforce
  obtain r b p where mined: "mine (mining_loop (ck_mining ck)) (to_mine ck m txs bc)
      (chain_miner (ck_hardware ck) (bc_cfg bc)) = (r, b, p)" by (metis surj_pair)
  obtain w d where wr: "writeBlock (cx_level X) b (bc_blockDB bc) = (w, d)" by fastforce
  obtain ok1 bc1 where ap: "applyBlockToState X b ?h (bc\<lparr>bc_blockDB := d\<rparr>) = (ok1, bc1)" by fastforce
  note eq = addBlock_eq [OF cb mined wr ap]
  show ?thesis
  proof (cases "m = [] \<or> (?rew > 0 \<and> \<not> hashed) \<or>
      \<not> validateTransactions X (ck_time ck 1) (block_txs ck m txs bc) bc \<or> \<not> res_found r")
    case True
    then show ?thesis using assms eq rejected by (auto split: if_splits)
  next
    case False
    note found = mine_found [OF mined]
    show ?thesis
    proof (cases "dbr_ok w")
      case True
      then have mw: "mined_and_written X ck m txs bc b d"
        using False found wr by (auto simp: mined_and_written_def)
      show ?thesis
        using assms eq False True mw ap unapplied committed by (cases ok1) auto
    next
      case notok: False
      then show ?thesis using assms eq False wr unwritten by auto
    qed
  qed
qed

section \<open>What each stage leaves alone\<close>

lemma adjustBaseFee_frame [simp]:
  "bc_cfg (adjustBaseFee g l bc) = bc_cfg bc" "bc_chain (adjustBaseFee g l bc) = bc_chain bc"
  "bc_totalSupply (adjustBaseFee g l bc) = bc_totalSupply bc"
  "bc_blockDB (adjustBaseFee g l bc) = bc_blockDB bc"
  "bc_accountDB (adjustBaseFee g l bc) = bc_accountDB bc" "bc_utxoSet (adjustBaseFee g l bc) = bc_utxoSet bc"
  by (simp_all add: adjustBaseFee_def Let_def)

lemma persistState_frame [simp]:
  "bc_cfg (snd (persistState R bc)) = bc_cfg bc" "bc_chain (snd (persistState R bc)) = bc_chain bc"
  "bc_totalSupply (snd (persistState R bc)) = bc_totalSupply bc"
  "bc_blockDB (snd (persistState R bc)) = bc_blockDB bc"
  "bc_baseFeePerGas (snd (persistState R bc)) = bc_baseFeePerGas bc"
  by (simp_all add: persistState_def Let_def split: prod.split)

lemma applyBlock_frame:
  "applyBlockToState X b h bc = (ok, bc') \<Longrightarrow>
   bc_cfg bc' = bc_cfg bc \<and> bc_chain bc' = bc_chain bc \<and> bc_totalSupply bc' = bc_totalSupply bc \<and>
   bc_blockDB bc' = bc_blockDB bc \<and> bc_baseFeePerGas bc' = bc_baseFeePerGas bc"
  by (auto simp: applyBlockToState_def split: prod.splits)

lemma rollback_frame [simp]:
  "bc_cfg (rollbackBlockFromState X b bc) = bc_cfg bc"
  "bc_chain (rollbackBlockFromState X b bc) = bc_chain bc"
  "bc_totalSupply (rollbackBlockFromState X b bc) = bc_totalSupply bc"
  "bc_blockDB (rollbackBlockFromState X b bc) = bc_blockDB bc"
  "bc_baseFeePerGas (rollbackBlockFromState X b bc) = bc_baseFeePerGas bc"
  by (simp_all add: rollbackBlockFromState_def)

text \<open>No gas used is at most half of any limit.\<close>

lemma base_fee_falls:
  "bc_baseFeePerGas (adjustBaseFee 0 l bc) \<le> bc_baseFeePerGas bc \<or> bc_baseFeePerGas (adjustBaseFee 0 l bc) = 1"
proof (cases "l = 0 \<or> bc_baseFeePerGas bc \<le> max 1 (bc_baseFeePerGas bc div 8)")
  case True
  then have "l = 0 \<or> \<not> bc_baseFeePerGas bc > max 1 (bc_baseFeePerGas bc div 8)" by (simp only: not_less)
  then show ?thesis unfolding adjustBaseFee_def Let_def by (elim disjE) (simp_all del: max_less_iff_conj)
next
  case False
  let ?x = "bc_baseFeePerGas bc - max 1 (bc_baseFeePerGas bc div 8)"
  have "max 1 (bc_baseFeePerGas bc div 8) < bc_baseFeePerGas bc" using False by (simp only: de_Morgan_disj not_le)
  then have le: "?x \<le> bc_baseFeePerGas bc" by (rule word_sub_le [OF less_imp_le])
  have "bc_baseFeePerGas (adjustBaseFee 0 l bc) = max ?x 1"
    using False unfolding adjustBaseFee_def Let_def de_Morgan_disj not_le by simp
  with le show ?thesis by (cases "?x \<le> 1") (simp_all add: max_absorb1 max_absorb2)
qed

text \<open>The block as mined.\<close>

lemma to_mine_fields:
  "blk_previousHash (to_mine ck m txs bc) = (if bc_chain bc = [] then [] else blk_hash (last (bc_chain bc)))"
  "blk_difficulty (to_mine ck m txs bc) = min (cc_initialMedor (bc_cfg bc)) 64"
  "blk_reward (to_mine ck m txs bc) = block_reward ck bc"
  "blk_transactions (to_mine ck m txs bc) = block_txs ck m txs bc"
  "blk_baseFee (to_mine ck m txs bc) = bc_baseFeePerGas bc"
  "blk_gasUsed (to_mine ck m txs bc) = 0"
  by (simp_all add: to_mine_def candidate_def Let_def new_block_def MAX_DIFFICULTY_def)

lemma solved_fields:
  "blk_previousHash (solved_block b n) = blk_previousHash b" "blk_reward (solved_block b n) = blk_reward b"
  "blk_transactions (solved_block b n) = blk_transactions b" "blk_baseFee (solved_block b n) = blk_baseFee b"
  "blk_gasUsed (solved_block b n) = blk_gasUsed b" "blk_difficulty (solved_block b n) = blk_difficulty b"
  by (simp_all add: solved_block_def)

text \<open>
  The hash of the block is that of its header and meets the block's own difficulty: what the
  miner establishes. \<^verbatim>\<open>validateHash\<close> asks for the same and for a difficulty other than 0.
\<close>

definition sealed :: "block \<Rightarrow> bool" where
  "sealed b \<longleftrightarrow> blk_hash b = computeHash b \<and> hashMeetsTarget (blk_hash b) (blk_difficulty b)"

lemma validateHash_sealed: "validateHash b \<longleftrightarrow> sealed b \<and> blk_difficulty b \<noteq> 0"
  by (auto simp: validateHash_def sealed_def Let_def)

lemma solved_block_sealed: "solves b n \<Longrightarrow> sealed (solved_block b n)"
  by (simp add: solves_def solved_block_def sealed_def hash_at_eq)

text \<open>At a configured difficulty other than 0, and only there, \<^verbatim>\<open>validateHash\<close> agrees with the miner.\<close>

lemma validateHash_configured:
  "sealed b \<Longrightarrow> blk_difficulty b = min c 64 \<Longrightarrow> validateHash b \<longleftrightarrow> c \<noteq> 0"
  by (auto simp: validateHash_sealed min_def)

lemma mined_block:
  assumes "mined_and_written X ck m txs bc b d"
  shows "blk_previousHash b = (if bc_chain bc = [] then [] else blk_hash (last (bc_chain bc))) \<and>
    blk_reward b = block_reward ck bc \<and> blk_transactions b = block_txs ck m txs bc \<and>
    blk_baseFee b = bc_baseFeePerGas bc \<and> blk_gasUsed b = 0 \<and> sealed b \<and>
    blk_difficulty b = min (cc_initialMedor (bc_cfg bc)) 64"
proof -
  obtain n where n: "solves (to_mine ck m txs bc) n" "b = solved_block (to_mine ck m txs bc) n"
    using assms by (auto simp: mined_and_written_def)
  then show ?thesis using solved_block_sealed [OF n(1)] by (simp add: solved_fields to_mine_fields)
qed

text \<open>A committed block as the state sees it.\<close>

lemma reward_le: "block_reward ck bc \<le> cc_maxSupply (bc_cfg bc) - bc_totalSupply bc"
  by (simp add: block_reward_def)

lemma base_fee_cong:
  "bc_baseFeePerGas bc1 = bc_baseFeePerGas bc \<Longrightarrow>
   bc_baseFeePerGas (adjustBaseFee g l bc1) = bc_baseFeePerGas (adjustBaseFee g l bc)"
  by (simp add: adjustBaseFee_def Let_def)

lemma addBlock_committed:
  assumes "addBlock X ck m txs bc = (True, bc')"
  shows "\<exists>b. mined_and_written X ck m txs bc b (bc_blockDB bc') \<and> bc_chain bc' = bc_chain bc @ [b] \<and>
    bc_totalSupply bc' = bc_totalSupply bc + block_reward ck bc \<and> bc_cfg bc' = bc_cfg bc \<and>
    bc_baseFeePerGas bc' = bc_baseFeePerGas (adjustBaseFee 0 (cc_targetGasPerBlock (bc_cfg bc)) bc)"
proof (rule addBlock_outcomes [OF assms])
  fix b d bc1
  assume mw: "mined_and_written X ck m txs bc b d"
    and ap: "applyBlockToState X b (word_of_nat (length (bc_chain bc))) (bc\<lparr>bc_blockDB := d\<rparr>) = (True, bc1)"
    and bc': "bc' = snd (persistState (cx_rocks X)
       (adjustBaseFee (blk_gasUsed b) (cc_targetGasPerBlock (bc_cfg bc1))
         (bc1\<lparr>bc_chain := bc_chain bc1 @ [b], bc_totalSupply := bc_totalSupply bc1 + block_reward ck bc\<rparr>)))"
  have f: "bc_cfg bc1 = bc_cfg bc \<and> bc_chain bc1 = bc_chain bc \<and> bc_totalSupply bc1 = bc_totalSupply bc \<and>
      bc_blockDB bc1 = d \<and> bc_baseFeePerGas bc1 = bc_baseFeePerGas bc"
    using applyBlock_frame [OF ap] by simp
  then have h: "bc_cfg bc1 = bc_cfg bc" "bc_baseFeePerGas bc1 = bc_baseFeePerGas bc" by simp_all
  have g: "blk_gasUsed b = 0" using mined_block [OF mw] by blast
  have "bc_baseFeePerGas bc' = bc_baseFeePerGas (adjustBaseFee 0 (cc_targetGasPerBlock (bc_cfg bc1))
      (bc1\<lparr>bc_chain := bc_chain bc1 @ [b], bc_totalSupply := bc_totalSupply bc1 + block_reward ck bc\<rparr>))"
    unfolding bc' g by simp
  also have "\<dots> = bc_baseFeePerGas (adjustBaseFee 0 (cc_targetGasPerBlock (bc_cfg bc)) bc)"
    unfolding h(1) by (rule base_fee_cong) (simp add: h(2))
  finally have fee: "bc_baseFeePerGas bc' = bc_baseFeePerGas (adjustBaseFee 0 (cc_targetGasPerBlock (bc_cfg bc)) bc)" .
  have "bc_blockDB bc' = d" "bc_chain bc' = bc_chain bc @ [b]" "bc_cfg bc' = bc_cfg bc"
    "bc_totalSupply bc' = bc_totalSupply bc + block_reward ck bc"
    using f unfolding bc' by simp_all
  with fee mw show ?thesis by blast
qed simp_all

lemma addBlock_refused:
  assumes "addBlock X ck m txs bc = (False, bc')"
  shows "bc_chain bc' = bc_chain bc \<and> bc_totalSupply bc' = bc_totalSupply bc \<and>
    bc_baseFeePerGas bc' = bc_baseFeePerGas bc \<and> bc_cfg bc' = bc_cfg bc"
proof (rule addBlock_outcomes [OF assms])
  fix b d bc1
  assume "applyBlockToState X b (word_of_nat (length (bc_chain bc))) (bc\<lparr>bc_blockDB := d\<rparr>) = (False, bc1)"
    and "bc' = rollbackBlockFromState X b bc1"
  then show ?thesis using applyBlock_frame by fastforce
qed simp_all

section \<open>Properties: blocks\<close>

text \<open>
  C3: a call of \<^verbatim>\<open>addBlock\<close> either appends one block or leaves the chain, the supply and the
  base fee alone. The block appended names the hash of the last block, carries the reward
  and, in front of the given transactions, the coinbase when there is a reward; its
  transactions passed validation; its hash is that of its header and meets its difficulty,
  which is the configured one up to 64; it is in the block database; the supply grows by the
  reward, which the remaining supply covers; and since the gas used is never filled in, the
  base fee does not rise, except from 0 to the minimum of 1. \<^verbatim>\<open>validateHash\<close> accepts the
  block when the configured difficulty is not 0; at difficulty 0 the miner still commits the
  block, and \<^verbatim>\<open>validateHash\<close> refuses it.
\<close>

theorem addBlock_commits:
  assumes "level (cx_level X) stored" and "addBlock X ck m txs bc = (ok, bc')"
  shows "if ok
    then (\<exists>b. bc_chain bc' = bc_chain bc @ [b] \<and>
        blk_previousHash b = (if bc_chain bc = [] then [] else blk_hash (last (bc_chain bc))) \<and>
        blk_transactions b = block_txs ck m txs bc \<and>
        validateTransactions X (ck_time ck 1) (blk_transactions b) bc \<and>
        blk_reward b = block_reward ck bc \<and> bc_totalSupply bc' = bc_totalSupply bc + blk_reward b \<and>
        blk_reward b \<le> cc_maxSupply (bc_cfg bc) - bc_totalSupply bc \<and>
        blk_hash b = computeHash b \<and> hashMeetsTarget (blk_hash b) (blk_difficulty b) \<and>
        blk_difficulty b = min (cc_initialMedor (bc_cfg bc)) 64 \<and>
        validateHash b = (cc_initialMedor (bc_cfg bc) \<noteq> 0) \<and>
        blockdb_content stored (bc_blockDB bc') (blk_hash b) = Some (serialize b)) \<and>
      (bc_baseFeePerGas bc' \<le> bc_baseFeePerGas bc \<or> bc_baseFeePerGas bc = 0 \<and> bc_baseFeePerGas bc' = 1)
    else bc_chain bc' = bc_chain bc \<and> bc_totalSupply bc' = bc_totalSupply bc \<and>
      bc_baseFeePerGas bc' = bc_baseFeePerGas bc"
proof (cases ok)
  case True
  then have e: "addBlock X ck m txs bc = (True, bc')" using assms(2) by simp
  obtain b where b: "mined_and_written X ck m txs bc b (bc_blockDB bc')"
    "bc_chain bc' = bc_chain bc @ [b]" "bc_totalSupply bc' = bc_totalSupply bc + block_reward ck bc"
    "bc_baseFeePerGas bc' = bc_baseFeePerGas (adjustBaseFee 0 (cc_targetGasPerBlock (bc_cfg bc)) bc)"
    using addBlock_committed [OF e] by blast
  obtain w where w: "writeBlock (cx_level X) b (bc_blockDB bc) = (w, bc_blockDB bc')" "dbr_ok w"
    using b(1) by (auto simp: mined_and_written_def)
  note n = mined_block [OF b(1)]
  then have h: "hashMeetsTarget (computeHash b) (min (cc_initialMedor (bc_cfg bc)) 64)"
    by (metis sealed_def)
  have v: "validateHash b = (cc_initialMedor (bc_cfg bc) \<noteq> 0)"
    using n validateHash_configured [of b "cc_initialMedor (bc_cfg bc)"] by blast
  have "blockdb_content stored (bc_blockDB bc') (blk_hash b) = Some (serialize b)"
    using level.writeBlock_ok [OF assms(1) w] by simp
  moreover have "validateTransactions X (ck_time ck 1) (block_txs ck m txs bc) bc"
    using b(1) by (simp add: mined_and_written_def)
  moreover have "bc_baseFeePerGas bc' \<le> bc_baseFeePerGas bc \<or> bc_baseFeePerGas bc = 0 \<and> bc_baseFeePerGas bc' = 1"
    using base_fee_falls [of "cc_targetGasPerBlock (bc_cfg bc)" bc] unfolding b(4) [symmetric]
    by (cases "bc_baseFeePerGas bc = 0") (auto simp: word_le_nat_alt unat_gt_0 Suc_le_eq)
  ultimately show ?thesis
    using True b(2,3) n h v reward_le [of ck bc] by (simp add: sealed_def)
qed (use addBlock_refused [of X ck m txs bc bc'] assms(2) in simp)

fun linked :: "string \<Rightarrow> block list \<Rightarrow> bool" where
  "linked prev [] = True"
| "linked prev (b # bs) = (blk_previousHash b = prev \<and> linked (blk_hash b) bs)"

lemma linked_snoc:
  "linked prev (bs @ [b]) \<longleftrightarrow> linked prev bs \<and>
   blk_previousHash b = (if bs = [] then prev else blk_hash (last bs))"
  by (induction bs arbitrary: prev) auto

definition chain_wf :: "('d, 'l, 'u) blockchain \<Rightarrow> bool" where
  "chain_wf bc \<longleftrightarrow> linked [] (bc_chain bc) \<and>
     list_all (\<lambda>b. sealed b \<and> blk_difficulty b = min (cc_initialMedor (bc_cfg bc)) 64) (bc_chain bc) \<and>
     unat (bc_totalSupply bc) = sum_list (map (\<lambda>b. unat (blk_reward b)) (bc_chain bc)) \<and>
     bc_totalSupply bc \<le> cc_maxSupply (bc_cfg bc)"

lemma supply_step:
  fixes s m r :: u64
  assumes "s \<le> m" and "r \<le> m - s"
  shows "unat (s + r) = unat s + unat r \<and> s + r \<le> m"
proof -
  have "unat r \<le> unat m - unat s" using assms by (simp add: word_le_nat_alt unat_sub)
  then have *: "unat s + unat r \<le> unat m" using assms(1) by (simp add: word_le_nat_alt)
  also have "\<dots> < 2 ^ 64" by simp
  finally have "unat (s + r) = unat s + unat r" by (simp add: unat_word_ariths)
  with * show ?thesis by (simp add: word_le_nat_alt)
qed

lemma addBlock_wf:
  assumes w: "chain_wf bc"
  shows "chain_wf (snd (addBlock X ck m txs bc))"
proof -
  obtain ok bc' where a: "addBlock X ck m txs bc = (ok, bc')" by fastforce
  show ?thesis
  proof (cases ok)
    case True
    have e: "addBlock X ck m txs bc = (True, bc')" using a True by simp
  obtain b where b: "mined_and_written X ck m txs bc b (bc_blockDB bc')"
      "bc_chain bc' = bc_chain bc @ [b]" "bc_totalSupply bc' = bc_totalSupply bc + block_reward ck bc"
      "bc_cfg bc' = bc_cfg bc"
      using addBlock_committed [OF e] by blast
    have m: "bc_totalSupply bc \<le> cc_maxSupply (bc_cfg bc)" using w by (simp add: chain_wf_def)
    note s = supply_step [OF m reward_le] and n = mined_block [OF b(1)]
    have "chain_wf bc'"
      unfolding chain_wf_def b(2-4) linked_snoc list_all_append map_append sum_list_append
      using w s n by (simp add: chain_wf_def)
    then show ?thesis by (simp add: a)
  next
    case False
    then show ?thesis using w a addBlock_refused [of X ck m txs bc bc'] by (simp add: chain_wf_def)
  qed
qed

lemma addBlock_cfg: "bc_cfg (snd (addBlock X ck m txs bc)) = bc_cfg bc"
proof -
  obtain ok bc' where a: "addBlock X ck m txs bc = (ok, bc')" by fastforce
  show ?thesis
  proof (cases ok)
    case True
    then have "addBlock X ck m txs bc = (True, bc')" using a by simp
    from addBlock_committed [OF this] a show ?thesis by auto
  qed (use a addBlock_refused [of X ck m txs bc bc'] in simp)
qed

definition chain_run ::
    "('d, 'l, 'u) chain_ext \<Rightarrow> (chain_clock \<times> string \<times> transaction list) list \<Rightarrow> ('d, 'l, 'u) blockchain \<Rightarrow>
     ('d, 'l, 'u) blockchain" where
  "chain_run X calls bc = foldl (\<lambda>bc (ck, m, txs). snd (addBlock X ck m txs bc)) bc calls"

lemma chain_run_wf: "chain_wf bc \<Longrightarrow> chain_wf (chain_run X calls bc)"
  unfolding chain_run_def by (induction calls arbitrary: bc) (auto simp: addBlock_wf)

lemma chain_run_cfg: "bc_cfg (chain_run X calls bc) = bc_cfg bc"
  unfolding chain_run_def by (induction calls arbitrary: bc) (auto simp: addBlock_cfg)

text \<open>
  C1: from an empty chain, whatever blocks are added or refused, with any clock, databases and
  UTXO set: every block names the hash of the one before it (the first the empty hash), its
  own hash is that of its header and meets its difficulty, which is the configured one up to
  64, the total supply is the exact sum of the rewards, and it never exceeds the maximum.
  \<^verbatim>\<open>validateHash\<close> accepts every block of the chain when the configured difficulty is not 0,
  and none of them when it is: the miner commits blocks of difficulty 0 and
  \<^verbatim>\<open>validateHash\<close> refuses that difficulty.
\<close>

theorem chain_invariant:
  "let bc = chain_run X calls \<lparr>bc_cfg = cfg, bc_blockDB = d, bc_accountDB = a, bc_utxoSet = u, bc_chain = [],
        bc_totalSupply = 0, bc_baseFeePerGas = f, bc_initialised = i\<rparr>
   in linked [] (bc_chain bc) \<and>
      list_all (\<lambda>b. blk_hash b = computeHash b \<and> hashMeetsTarget (blk_hash b) (blk_difficulty b) \<and>
        blk_difficulty b = min (cc_initialMedor cfg) 64 \<and>
        validateHash b = (cc_initialMedor cfg \<noteq> 0)) (bc_chain bc) \<and>
      unat (bc_totalSupply bc) = sum_list (map (\<lambda>b. unat (blk_reward b)) (bc_chain bc)) \<and>
      bc_totalSupply bc \<le> cc_maxSupply (bc_cfg bc)"
proof -
  define bc where "bc = chain_run X calls \<lparr>bc_cfg = cfg, bc_blockDB = d, bc_accountDB = a, bc_utxoSet = u,
      bc_chain = [], bc_totalSupply = 0, bc_baseFeePerGas = f, bc_initialised = i\<rparr>"
  have "chain_wf bc" unfolding bc_def by (rule chain_run_wf) (simp add: chain_wf_def)
  moreover have "bc_cfg bc = cfg" by (simp add: bc_def chain_run_cfg)
  ultimately show ?thesis
    unfolding bc_def [symmetric] Let_def
    by (auto simp: chain_wf_def list_all_iff validateHash_sealed sealed_def min_def)
qed

end
