(* ===== verification/Ledger.thy ===== *)
theory Ledger
  imports Chain
begin

text \<open>
  What the chain guarantees of transactions and balances: validation of spends, the effect of
  a block on account balances with the network fee, and the longest-chain rule.
\<close>

section \<open>Validation\<close>

definition input_value :: "('d, 'l, 'u) chain_ext \<Rightarrow> 'u \<Rightarrow> tx_input \<Rightarrow> u64" where
  "input_value X u i =
     (case us_get (cx_utxo X) (in_prevTxHash i) (in_outputIndex i) u of None \<Rightarrow> 0 | Some o' \<Rightarrow> utxo_value o')"

text \<open>The input is an unspent output and, when the transaction is signed, by its owner.\<close>

definition authorised :: "('d, 'l, 'u) chain_ext \<Rightarrow> 'u \<Rightarrow> transaction \<Rightarrow> tx_input \<Rightarrow> bool" where
  "authorised X u tx i \<longleftrightarrow>
     (case us_get (cx_utxo X) (in_prevTxHash i) (in_outputIndex i) u of
        None \<Rightarrow> False
      | Some o' \<Rightarrow> \<not> is_signed tx \<or>
          cx_verify X (keccak256Core (str_bytes (tx_txHash tx))) (tx_r tx) (tx_s tx) (ucast (tx_v tx))
            (expected_address (utxo_address o')))"

definition keys_of :: "transaction \<Rightarrow> string list" where
  "keys_of tx = map outpoint_key (tx_inputs tx)"

lemma check_inputs_Some:
  "check_inputs X u tx is spent s = Some (spent', s') \<Longrightarrow>
   distinct (map outpoint_key is) \<and> set (map outpoint_key is) \<inter> spent = {} \<and>
   spent' = spent \<union> set (map outpoint_key is) \<and> list_all (authorised X u tx) is \<and>
   s' = s + sum_list (map (input_value X u) is)"
proof (induction "is" arbitrary: spent s)
  case (Cons i "is")
  from Cons.prems obtain o' where new: "outpoint_key i \<notin> spent"
    and o': "us_get (cx_utxo X) (in_prevTxHash i) (in_outputIndex i) u = Some o'"
    and auth: "authorised X u tx i"
    and rest: "check_inputs X u tx is (insert (outpoint_key i) spent) (s + utxo_value o') = Some (spent', s')"
    by (auto simp: authorised_def Keccak256_Some Let_def split: if_splits option.splits prod.splits bool.splits)
  from Cons.IH [OF rest] new auth o' show ?case by (auto simp: input_value_def add.assoc)
qed simp

lemma check_txs_True:
  "check_txs X u txs spent \<Longrightarrow>
   distinct (concat (map keys_of txs)) \<and> set (concat (map keys_of txs)) \<inter> spent = {} \<and>
   list_all (\<lambda>tx. tx_isValid tx \<and> list_all (authorised X u tx) (tx_inputs tx) \<and>
     sum_values (tx_outputs tx) \<le> sum_list (map (input_value X u) (tx_inputs tx))) txs"
proof (induction txs arbitrary: spent)
  case (Cons tx txs)
  then obtain spent' s where c: "check_inputs X u tx (tx_inputs tx) spent 0 = Some (spent', s)"
    and v: "tx_isValid tx" "\<not> sum_values (tx_outputs tx) > s" and rest: "check_txs X u txs spent'"
    by (auto split: if_splits option.splits)
  from check_inputs_Some [OF c] v Cons.IH [OF rest] show ?case
    by (auto simp: keys_of_def not_less) blast+
qed simp

lemma has_duplicate_distinct:
  "\<not> has_duplicate seen txs \<Longrightarrow>
   distinct (filter (\<lambda>h. h \<noteq> []) (map tx_txHash txs)) \<and>
   set (filter (\<lambda>h. h \<noteq> []) (map tx_txHash txs)) \<inter> seen = {}"
  by (induction seen txs rule: has_duplicate.induct) (auto split: if_splits)

text \<open>
  C2: in a block that validation accepts no transaction hash repeats and the first
  transaction's outputs stay within the reward and the remaining supply; among all the other
  transactions no output is spent twice; each of their inputs is an unspent output, and when
  the transaction is signed, its signature recovers to the address that owns the output; and
  their outputs do not exceed their inputs, as sums of 64 bits. Three things validation does
  not ask: the inputs of the first transaction are not looked at, a transaction whose
  signature is all zero spends without one (\<open>is_signed\<close>), and the sums wrap around.
\<close>

theorem validated_spends:
  assumes "validateTransactions X now (cb # txs) bc"
  shows "distinct (filter (\<lambda>h. h \<noteq> []) (map tx_txHash (cb # txs))) \<and>
    sum_values (tx_outputs cb) \<le> calculateReward now bc \<and>
    sum_values (tx_outputs cb) \<le> cc_maxSupply (bc_cfg bc) - bc_totalSupply bc \<and>
    distinct (concat (map keys_of txs)) \<and>
    list_all (\<lambda>tx. tx_isValid tx \<and> list_all (authorised X (bc_utxoSet bc) tx) (tx_inputs tx) \<and>
      sum_values (tx_outputs tx) \<le> sum_list (map (input_value X (bc_utxoSet bc)) (tx_inputs tx))) txs"
proof -
  from assms have d: "\<not> has_duplicate {} (cb # txs)" and c: "check_txs X (bc_utxoSet bc) txs {}"
    and s: "sum_values (tx_outputs cb) \<le> calculateReward now bc"
      "sum_values (tx_outputs cb) \<le> cc_maxSupply (bc_cfg bc) - bc_totalSupply bc"
    by (auto simp: validateTransactions_def hasDuplicateTxInBlock_def Let_def not_less split: if_splits)
  from has_duplicate_distinct [OF d] check_txs_True [OF c] s show ?thesis by blast
qed

section \<open>Sums that wrap\<close>

definition minting_tx :: "string \<Rightarrow> string \<Rightarrow> u64 \<Rightarrow> transaction" where
  "minting_tx hash addr v =
     default_tx\<lparr>tx_txHash := hash,
       tx_outputs := [\<lparr>out_value = v, out_address = addr\<rparr>, \<lparr>out_value = - v, out_address = addr\<rparr>]\<rparr>"

lemma check_txs_append:
  "check_txs X u txs spent \<Longrightarrow> tx_isValid tx \<Longrightarrow> tx_inputs tx = [] \<Longrightarrow> sum_values (tx_outputs tx) = 0 \<Longrightarrow>
   check_txs X u (txs @ [tx]) spent"
  by (induction txs arbitrary: spent) (auto simp: tx_isValid_def split: if_splits option.splits)

lemma has_duplicate_append:
  "\<not> has_duplicate seen txs \<Longrightarrow> tx_txHash tx \<notin> seen \<Longrightarrow> tx_txHash tx \<notin> tx_txHash ` set txs \<Longrightarrow>
   \<not> has_duplicate seen (txs @ [tx])"
  by (induction seen txs rule: has_duplicate.induct) (auto split: if_splits)

text \<open>
  the sums of values are taken modulo 2^64, and a transaction needs no inputs: a block that
  validation accepts is still accepted with a transaction appended that spends nothing and
  whose two outputs are worth \<open>2 ^ 64\<close> units together.
\<close>

theorem validation_admits_minting:
  assumes "validateTransactions X now txs bc" and "txs \<noteq> []" and "v \<noteq> 0"
    and "length h = 64" and "h \<notin> tx_txHash ` set txs"
  shows "validateTransactions X now (txs @ [minting_tx h addr v]) bc \<and>
    sum_list (map (\<lambda>y. unat (out_value y)) (tx_outputs (minting_tx h addr v))) = 2 ^ 64"
proof -
  obtain cb rest where txs: "txs = cb # rest" using assms(2) by (cases txs) auto
  have d: "\<not> has_duplicate {} (cb # rest)" and c: "check_txs X (bc_utxoSet bc) rest {}"
    using assms(1) unfolding txs
    by (auto simp: validateTransactions_def hasDuplicateTxInBlock_def Let_def split: if_splits)
  have "check_txs X (bc_utxoSet bc) (rest @ [minting_tx h addr v]) {}"
    using c assms(4)
    by (intro check_txs_append) (auto simp: minting_tx_def default_tx_def tx_isValid_def sum_values_def)
  moreover have "\<not> has_duplicate {} ((cb # rest) @ [minting_tx h addr v])"
    using d assms(5) by (intro has_duplicate_append) (auto simp: txs minting_tx_def)
  moreover have "unat v + unat (- v) = 2 ^ 64"
  proof -
    have "unat (- v) = 2 ^ 64 - unat v"
      using assms(3) by (simp add: unat_sub_if' unsigned_eq_0_iff flip: diff_0)
    moreover have "unat v < 2 ^ 64" by simp
    ultimately show ?thesis by linarith
  qed
  ultimately show ?thesis
    using assms(1) unfolding txs
    by (auto simp: validateTransactions_def hasDuplicateTxInBlock_def Let_def minting_tx_def split: if_splits)
qed

section \<open>The longest chain\<close>

lemma clone_id [simp]: "clone now b = b"
  by (simp add: clone_def default_block_def)

lemma map_clone [simp]: "map (clone now) bs = bs"
  by (simp add: map_idI)

lemma candidate_links_iff:
  "candidate_links prev bs \<longleftrightarrow> linked prev bs \<and> list_all (\<lambda>b. blk_hash b \<noteq> [] \<and> blk_timestamp b \<noteq> 0) bs"
  by (induction prev bs rule: candidate_links.induct) auto

text \<open>
  C30: the candidate replaces the current chain, whole, exactly when it is strictly longer, has
  the same genesis hash, every block after the first names the hash of the one before it,
  and no hash is empty and no timestamp zero; otherwise the current chain is unchanged. Length
  decides: proof of work, difficulties, the blocks' own hashes and their transactions play no
  part. \<^verbatim>\<open>docs/protocol_spec.md\<close>, section 4.1, asks for the chain with the greatest total
  difficulty instead, ``not simply the longest chain by block count''; the code does not
  implement that rule.
\<close>

theorem resolveLongestChain_iff:
  "resolveLongestChain now candidates current =
     (if current \<noteq> [] \<and> length candidates > length current \<and>
         blk_hash (hd candidates) = blk_hash (hd current) \<and>
         linked (blk_hash (hd candidates)) (tl candidates) \<and>
         list_all (\<lambda>b. blk_hash b \<noteq> [] \<and> blk_timestamp b \<noteq> 0) candidates
      then (True, candidates) else (False, current))"
proof (cases candidates)
  case (Cons b bs)
  have "candidate_ok candidates \<longleftrightarrow> linked (blk_hash b) bs \<and>
      list_all (\<lambda>b. blk_hash b \<noteq> [] \<and> blk_timestamp b \<noteq> 0) candidates"
    by (auto simp: Cons candidate_ok_def candidate_links_iff)
  then show ?thesis by (auto simp: resolveLongestChain_def Cons)
qed (simp add: resolveLongestChain_def)

section \<open>Balances\<close>

lemma chain_updates:
  "chain_addBalance R x n a = (if x = [] then (False, a) else adb_addBalance R x n a)"
  "chain_deductBalance R x n a = (if x = [] then (False, a) else adb_deductBalance R x n a)"
  by (simp_all add: chain_addBalance_def chain_deductBalance_def adb_addBalance_def adb_deductBalance_def
      chain_getBalance_def adb_getBalance_def chain_setBalance_def adb_setBalance_def PREFIX_BAL_def Let_def)

context rocks begin

lemma update_frame:
  "k' \<noteq> k \<Longrightarrow>
   adb_content view (snd (update_number (adb_read R) (adb_write R) k f a)) k' = adb_content view a k'"
proof (cases "f (number (adb_read R k a))")
  case (Some n)
  assume "k' \<noteq> k"
  obtain ok a' where w: "adb_write R k (show_u64 n) a = (ok, a')" by fastforce
  show ?thesis
    using Some w \<open>k' \<noteq> k\<close> adb_write_ok [of k "show_u64 n" a a'] adb_write_fail [of k "show_u64 n" a a']
    by (cases ok) (simp_all add: update_number_def)
qed (simp add: update_number_def)

lemma balance_frame:
  "y \<noteq> x \<Longrightarrow> balance_of view (snd (chain_addBalance R x n a)) y = balance_of view a y"
  "y \<noteq> x \<Longrightarrow> balance_of view (snd (chain_deductBalance R x n a)) y = balance_of view a y"
  by (simp_all add: balance_of_def chain_updates adb_updates update_frame)

lemma credit_frame:
  assumes "y \<noteq> out_address o'" and "y \<noteq> treasury"
  shows "balance_of view (credit_output R treasury cb o' a) y = balance_of view a y"
proof -
  let ?a = "snd (chain_addBalance R (out_address o') (out_value o') a)"
  have 1: "balance_of view ?a y = balance_of view a y" using assms(1) by (rule balance_frame)
  obtain ok b where d: "chain_deductBalance R (out_address o') (network_fee (out_value o')) ?a = (ok, b)"
    by fastforce
  have 2: "balance_of view b y = balance_of view ?a y"
    using balance_frame(2) [OF assms(1), of "network_fee (out_value o')" ?a] d by simp
  have 3: "balance_of view (snd (chain_addBalance R treasury n b)) y = balance_of view b y" for n
    using assms(2) by (rule balance_frame)
  show ?thesis using 1 2 3 d by (simp add: credit_output_def Let_def)
qed

lemma add_outputs_frame:
  "add_outputs X treasury cb h ht i ys u a = (ok, u', a') \<Longrightarrow> cx_rocks X = R \<Longrightarrow>
   y \<notin> out_address ` set ys \<Longrightarrow> y \<noteq> treasury \<Longrightarrow> balance_of view a' y = balance_of view a y"
  by (induction X treasury cb h ht i ys u a rule: add_outputs.induct)
     (auto split: prod.splits if_splits simp: credit_frame)

lemma apply_txs_frame:
  "apply_txs X treasury h cb txs u a = (ok, u', a') \<Longrightarrow> cx_rocks X = R \<Longrightarrow>
   y \<notin> out_address ` set (concat (map tx_outputs txs)) \<Longrightarrow> y \<noteq> treasury \<Longrightarrow>
   balance_of view a' y = balance_of view a y"
  by (induction X treasury h cb txs u a rule: apply_txs.induct)
     (auto split: prod.splits if_splits simp: image_Un dest: add_outputs_frame)

end

text \<open>
  applying a block changes no account balance but those of the recipients of its outputs
  and of the treasury, whether it succeeds or stops half-way: in particular the owner of an
  output that the block spends keeps the balance that output gave.
\<close>

theorem spenders_keep_their_balance:
  assumes "rocks (cx_rocks X) view"
    and "y \<notin> out_address ` set (concat (map tx_outputs (blk_transactions b)))"
    and "y \<noteq> cc_treasuryAddress (bc_cfg bc)"
  shows "balance_of view (bc_accountDB (snd (applyBlockToState X b h bc))) y =
    balance_of view (bc_accountDB bc) y"
  using rocks.apply_txs_frame [OF assms(1) _ refl assms(2,3)]
  by (auto simp: applyBlockToState_def split: prod.splits)

section \<open>The network fee\<close>

context rocks begin

text \<open>The outcome of an addition and of a deduction, from what the read of the balance answers.\<close>

lemma add_answer:
  assumes "chain_addBalance R x n a = (ok, a')"
  shows "unat (balance_of view a' x) =
    (if ok then (if read_fails R (PREFIX_BAL @ x) a then 0 else unat (balance_of view a x)) + unat n
     else unat (balance_of view a x))"
proof (cases "x = []")
  case False
  then have "update_number (adb_read R) (adb_write R) (PREFIX_BAL @ x) (plus_checked n) a = (ok, a')"
    using assms by (simp add: chain_updates adb_updates)
  from update_number_answer [OF this] show ?thesis
    by (auto simp: balance_of_def split: if_splits dest: plus_checked_Some)
qed (use assms in \<open>simp add: chain_updates\<close>)

lemma deduct_answer:
  assumes "chain_deductBalance R x n a = (ok, a')" and n: "n \<noteq> 0"
  shows "unat (balance_of view a' x) = unat (balance_of view a x) - (if ok then unat n else 0)"
    and "ok \<Longrightarrow> unat n \<le> unat (balance_of view a x)"
proof -
  have "unat (balance_of view a' x) = unat (balance_of view a x) - (if ok then unat n else 0) \<and>
    (ok \<longrightarrow> unat n \<le> unat (balance_of view a x))"
  proof (cases "x = []")
    case False
    then have "update_number (adb_read R) (adb_write R) (PREFIX_BAL @ x) (minus_checked n) a = (ok, a')"
      using assms by (simp add: chain_updates adb_updates)
    from update_number_answer [OF this] n show ?thesis
      by (auto simp: balance_of_def unsigned_eq_0_iff split: if_splits dest!: minus_checked_Some)
  qed (use assms in \<open>simp add: chain_updates\<close>)
  then show "unat (balance_of view a' x) = unat (balance_of view a x) - (if ok then unat n else 0)"
    and "ok \<Longrightarrow> unat n \<le> unat (balance_of view a x)" by blast+
qed

end

lemma network_fee_le: "unat (network_fee v) \<le> unat v"
  by (simp add: network_fee_def min_def word_le_nat_alt)

lemma network_fee_value:
  "unat (network_fee v) =
     (if unat v \<le> 1000 then min 9 (unat v) else min (2 * unat v mod 2 ^ 64 div 100) (unat v))"
proof -
  have "unat (min a b) = min (unat a) (unat b)" for a b :: u64 by (simp add: min_def word_le_nat_alt)
  moreover have "v \<le> 1000 \<longleftrightarrow> unat v \<le> 1000" by (simp add: word_le_nat_alt)
  moreover have "unat (v * 2 div 100) = 2 * unat v mod 2 ^ 64 div 100"
    by (simp add: unat_div unat_word_ariths mult.commute)
  ultimately show ?thesis by (simp add: network_fee_def calculateNetworkFee_def)
qed

text \<open>
  C29: the credit of an output that is not the coinbase's, whatever the database answers. The
  recipient is credited with the value, the fee is taken from the recipient and credited to
  the treasury, each step only if its write succeeds (\<open>ok1\<close>, \<open>ok2\<close>, \<open>ok3\<close>); no other balance
  changes. When the three steps succeed and no read fails, the two balances grow by the value
  together, the treasury's by the fee. A read that RocksDB answers with an error
  (\<open>read_fails\<close>) counts as a balance of 0, so the credit after it forgets the old balance;
  a failed credit of the treasury loses the fee. The fee is 9 units (or all of a smaller
  output) up to 1000 units and 2 percent, rounded down, above, except that from 2^63 units on
  the doubling wraps. The units are base units: \<^verbatim>\<open>docs/protocol_spec.md\<close>, section 6, gives the
  bounds 1000 and 0.009 in MEDOR.
\<close>

theorem network_fee_exact:
  assumes R: "rocks R view" and t: "t \<noteq> []" and xt: "x \<noteq> t"
    and s1: "chain_addBalance R x v a = (ok1, a1)"
    and s2: "chain_deductBalance R x (network_fee v) a1 = (ok2, a2)"
    and s3: "chain_addBalance R t (network_fee v) a2 = (ok3, a3)"
    and a': "a' = credit_output R t False \<lparr>out_value = v, out_address = x\<rparr> a"
    and lost: "lx = read_fails R (PREFIX_BAL @ x) a" "lt = read_fails R (PREFIX_BAL @ t) a2"
    and paid: "paid = (0 < network_fee v \<and> ok2)"
  shows "(\<forall>y. y = x \<or> y = t \<or> balance_of view a' y = balance_of view a y) \<and>
    unat (balance_of view a' x) =
      (if ok1 then (if lx then 0 else unat (balance_of view a x)) + unat v else unat (balance_of view a x)) -
      (if paid then unat (network_fee v) else 0) \<and>
    unat (balance_of view a' t) =
      (if paid \<and> ok3 then (if lt then 0 else unat (balance_of view a t)) + unat (network_fee v)
       else unat (balance_of view a t)) \<and>
    (\<not> ok1 \<or> \<not> ok2 \<or> \<not> ok3 \<or> lx \<or> lt \<or>
       unat (balance_of view a' x) + unat (balance_of view a' t) =
         unat (balance_of view a x) + unat (balance_of view a t) + unat v) \<and>
    unat (network_fee v) =
      (if unat v \<le> 1000 then min 9 (unat v) else min (2 * unat v mod 2 ^ 64 div 100) (unat v))"
proof -
  let ?fee = "network_fee v"
  have tx: "t \<noteq> x" and frame: "y = x \<or> y = t \<or> balance_of view a' y = balance_of view a y" for y
    using xt rocks.credit_frame [OF R, of y "\<lparr>out_value = v, out_address = x\<rparr>" t False a] a' by auto
  note add = rocks.add_answer [OF R s1] and keep1 = rocks.balance_frame(1) [OF R tx, of v a, unfolded s1 snd_conv]
  note keep2 = rocks.balance_frame(2) [OF R tx, of ?fee a1, unfolded s2 snd_conv]
  note pay = rocks.add_answer [OF R s3] and keep3 = rocks.balance_frame(1) [OF R xt, of ?fee a2, unfolded s3 snd_conv]
  show ?thesis
  proof (cases "?fee = 0")
    case True
    then have "a' = a1" and "\<not> paid" using a' s1 paid by (simp_all add: credit_output_def Let_def)
    with add keep1 frame network_fee_value [of v] lost show ?thesis by auto
  next
    case False
    note ded = rocks.deduct_answer [OF R s2 False]
    have p: "paid = ok2" using False paid by (simp add: word_greater_zero_iff)
    have "a' = (if ok2 then a3 else a2)"
      using False t s1 s2 s3 a' by (simp add: credit_output_def Let_def word_greater_zero_iff)
    with add keep1 keep2 ded pay keep3 frame network_fee_value [of v] lost p show ?thesis by auto
  qed
qed

section \<open>Witnesses\<close>

text \<open>Databases in memory, a UTXO set that is a function, and signatures that always hold.\<close>

definition fun_utxo :: "(string \<Rightarrow> u32 \<Rightarrow> utxo option) utxo_set" where
  "fun_utxo =
     \<lparr>us_empty = (\<lambda>h i. None), us_get = (\<lambda>h i u. u h i),
      us_spend = (\<lambda>h i ht u. (u h i \<noteq> None, u(h := (u h)(i := None)))),
      us_add = (\<lambda>y h i ht cb u. (True, u(h := (u h)(i := Some
        \<lparr>utxo_txHash = h, utxo_outputIndex = i, utxo_value = out_value y, utxo_address = out_address y,
         utxo_blockHeight = ht, utxo_isCoinbase = cb\<rparr>))))\<rparr>"

definition mem_ext :: "(string \<Rightarrow> string option, string \<Rightarrow> string option, string \<Rightarrow> u32 \<Rightarrow> utxo option) chain_ext" where
  "mem_ext = \<lparr>cx_rocks = mem_rocks, cx_level = mem_level, cx_utxo = fun_utxo, cx_verify = (\<lambda>h r s v a. True)\<rparr>"

definition mem_chain :: "(string \<Rightarrow> string option, string \<Rightarrow> string option, string \<Rightarrow> u32 \<Rightarrow> utxo option) blockchain" where
  "mem_chain =
     \<lparr>bc_cfg = default_chain_config, bc_blockDB = Some (\<lambda>k. None), bc_accountDB = Some (\<lambda>k. None),
      bc_utxoSet = (\<lambda>h i. None), bc_chain = [], bc_totalSupply = 0, bc_baseFeePerGas = 1, bc_initialised = True\<rparr>"

lemma coinbase_accepted: "validateTransactions mem_ext 0 [default_tx] mem_chain"
  by (simp add: validateTransactions_def hasDuplicateTxInBlock_def default_tx_def sum_values_def)

text \<open>A first block, with difficulty 0: the first nonce is found and the block committed.\<close>

definition easy_chain :: "(string \<Rightarrow> string option, string \<Rightarrow> string option, string \<Rightarrow> u32 \<Rightarrow> utxo option) blockchain" where
  "easy_chain = mem_chain\<lparr>bc_cfg := default_chain_config\<lparr>cc_ownerAddress := ''o'', cc_initialMedor := 0\<rparr>\<rparr>"

definition still_clock :: chain_clock where
  "still_clock = \<lparr>ck_time = (\<lambda>i. 7), ck_mining = (\<lambda>i. 0), ck_hardware = 1\<rparr>"

lemma digit_char_valid: "d < 16 \<Longrightarrow>
  (of_char CHR ''0'' \<le> (of_char (digit_char d) :: nat) \<and> (of_char (digit_char d) :: nat) \<le> of_char CHR ''9'') \<or>
  (of_char CHR ''a'' \<le> (of_char (digit_char d) :: nat) \<and> (of_char (digit_char d) :: nat) \<le> of_char CHR ''f'')"
  by (drule nat_less_16_cases) auto

lemma hex_byte_valid:
  "c \<in> set (hex_byte b) \<Longrightarrow>
   (of_char CHR ''0'' \<le> (of_char c :: nat) \<and> (of_char c :: nat) \<le> of_char CHR ''9'') \<or>
   (of_char CHR ''a'' \<le> (of_char c :: nat) \<and> (of_char c :: nat) \<le> of_char CHR ''f'')"
proof -
  have "unat b div 16 < 16" using unsigned_less [where w = b, where ?'a = nat] by (simp add: less_mult_imp_div_less)
  moreover assume "c \<in> set (hex_byte b)"
  ultimately show ?thesis using digit_char_valid [of "unat b div 16"] digit_char_valid [of "unat b mod 16"]
    by (auto simp: hex_byte_def)
qed

lemma isValidHash_hash_at: "isValidHash (hash_at b n)"
proof -
  obtain bs where bs: "hash_at b n = hex_bytes bs" by (simp add: hash_at_eq computeHash_eq)
  have "\<forall>c\<in>set (hex_bytes bs).
      (of_char CHR ''0'' \<le> (of_char c :: nat) \<and> (of_char c :: nat) \<le> of_char CHR ''9'') \<or>
      (of_char CHR ''a'' \<le> (of_char c :: nat) \<and> (of_char c :: nat) \<le> of_char CHR ''f'')"
  proof
    fix c assume "c \<in> set (hex_bytes bs)"
    then obtain x where "c \<in> set (hex_byte x)" by (auto simp: hex_bytes_def)
    then show "(of_char CHR ''0'' \<le> (of_char c :: nat) \<and> (of_char c :: nat) \<le> of_char CHR ''9'') \<or>
      (of_char CHR ''a'' \<le> (of_char c :: nat) \<and> (of_char c :: nat) \<le> of_char CHR ''f'')"
      by (rule hex_byte_valid)
  qed
  moreover have "length (hash_at b n) = 64" by (simp add: hash_at_eq)
  ultimately show ?thesis unfolding isValidHash_def list_all_iff bs by simp
qed

lemma mining_easy:
  "blk_difficulty b = 0 \<Longrightarrow> \<exists>r n p'. mine (mining_loop c) b (chain_miner h cfg) = (r, solved_block b n, p') \<and> res_found r"
  by (simp add: mine_def mine_loop_unfold mining_loop_def solves_def hashMeetsTarget_def) blast

lemma easy_reward: "block_reward still_clock easy_chain = 55"
  by (simp add: block_reward_def easy_chain_def mem_chain_def default_chain_config_def calculateReward_def)

lemma coinbase_fields:
  "snd (coinbase m w r)" "tx_inputs (fst (coinbase m w r)) = []"
  "sum_values (tx_outputs (fst (coinbase m w r))) = r"
  by (simp_all add: coinbase_def calculateHash_eq default_tx_def sum_values_def Let_def)

lemma easy_txs: "block_txs still_clock ''m'' [] easy_chain = [fst (coinbase ''m'' ''o'' 55)]"
  unfolding block_txs_def easy_reward by (simp add: easy_chain_def mem_chain_def)

lemma easy_valid: "validateTransactions mem_ext 7 [fst (coinbase ''m'' ''o'' 55)] easy_chain"
  by (simp add: validateTransactions_def coinbase_fields hasDuplicateTxInBlock_def Let_def calculateReward_def
      easy_chain_def mem_chain_def default_chain_config_def)

lemma mem_add_outputs: "\<exists>u' a'. add_outputs mem_ext t cb h ht i ys u a = (True, u', a')"
  by (induction ys arbitrary: i u a) (simp_all add: mem_ext_def fun_utxo_def)

lemma mem_apply:
  "blk_transactions b = [tx] \<Longrightarrow> tx_inputs tx = [] \<Longrightarrow> \<exists>bc'. applyBlockToState mem_ext b h bc = (True, bc')"
  using mem_add_outputs by (auto simp: applyBlockToState_def split: prod.split) (metis prod.inject)

lemma easy_commit: "fst (addBlock mem_ext still_clock ''m'' [] easy_chain)"
proof -
  let ?b0 = "to_mine still_clock ''m'' [] easy_chain"
  have d: "blk_difficulty ?b0 = 0"
    by (simp add: to_mine_fields easy_chain_def)
  obtain r n p where m: "mine (mining_loop (ck_mining still_clock)) ?b0
      (chain_miner (ck_hardware still_clock) (bc_cfg easy_chain)) = (r, solved_block ?b0 n, p)" "res_found r"
    using mining_easy [OF d] by blast
  have tx: "blk_transactions (solved_block ?b0 n) = [fst (coinbase ''m'' ''o'' 55)]"
    by (simp add: solved_fields to_mine_fields easy_txs)
  have w: "writeBlock (cx_level mem_ext) (solved_block ?b0 n) (bc_blockDB easy_chain) =
      (db_success, Some ((\<lambda>k. None)(blk_hash (solved_block ?b0 n) := Some (serialize (solved_block ?b0 n)))))"
    by (simp add: writeBlock_def mem_ext_def mem_level_def easy_chain_def mem_chain_def level_result_def
        solved_block_def isValidHash_hash_at)
  obtain bc1 where ap: "applyBlockToState mem_ext (solved_block ?b0 n) (word_of_nat (length (bc_chain easy_chain)))
      (easy_chain\<lparr>bc_blockDB := Some ((\<lambda>k. None)(blk_hash (solved_block ?b0 n) := Some (serialize (solved_block ?b0 n))))\<rparr>) =
      (True, bc1)"
    using mem_apply [OF tx coinbase_fields(2)] by blast
  obtain cb where cb: "coinbase ''m'' (cc_ownerAddress (bc_cfg easy_chain)) (block_reward still_clock easy_chain) = (cb, True)"
    using coinbase_fields(1) by (metis prod.collapse)
  show ?thesis
    unfolding addBlock_eq [OF cb m(1) w ap] easy_txs
    using m(2) easy_valid by (simp add: still_clock_def)
qed

lemma addBlock_commits_witness:
  "bc_totalSupply (snd (addBlock mem_ext still_clock ''m'' [] easy_chain)) = 55"
proof -
  have l: "level (cx_level mem_ext) (\<lambda>d. d)" by (simp add: mem_ext_def mem.level_axioms)
  have a: "addBlock mem_ext still_clock ''m'' [] easy_chain =
      (True, snd (addBlock mem_ext still_clock ''m'' [] easy_chain))"
    using easy_commit by (simp add: prod_eq_iff)
  have "bc_totalSupply easy_chain = 0" by (simp add: easy_chain_def mem_chain_def)
  with addBlock_commits [OF l a] show ?thesis by (auto simp: easy_reward)
qed

text \<open>An output of 10 units, and a signed transaction that spends it.\<close>

definition rich_chain :: "(string \<Rightarrow> string option, string \<Rightarrow> string option, string \<Rightarrow> u32 \<Rightarrow> utxo option) blockchain" where
  "rich_chain = mem_chain\<lparr>bc_utxoSet := (\<lambda>h i. if h = ''p'' \<and> i = 0 then Some
     \<lparr>utxo_txHash = ''p'', utxo_outputIndex = 0, utxo_value = 10, utxo_address = ''a'', utxo_blockHeight = 0,
      utxo_isCoinbase = False\<rparr> else None)\<rparr>"

definition paying_tx :: transaction where
  "paying_tx = default_tx\<lparr>tx_txHash := replicate 64 CHR ''a'', tx_r := replicate 32 1,
     tx_inputs := [\<lparr>in_prevTxHash = ''p'', in_outputIndex = 0\<rparr>],
     tx_outputs := [\<lparr>out_value = 7, out_address = ''b''\<rparr>]\<rparr>"

lemma paying_accepted: "validateTransactions mem_ext 0 [default_tx, paying_tx] rich_chain"
  by (simp add: validateTransactions_def hasDuplicateTxInBlock_def default_tx_def sum_values_def paying_tx_def
      rich_chain_def tx_isValid_def mem_ext_def fun_utxo_def is_signed_def Keccak256_Some mem_chain_def Let_def
      calculateReward_def default_chain_config_def)

lemma validated_spends_witness:
  "is_signed paying_tx \<and>
   authorised mem_ext (bc_utxoSet rich_chain) paying_tx \<lparr>in_prevTxHash = ''p'', in_outputIndex = 0\<rparr>"
  using validated_spends [OF paying_accepted] by (simp add: paying_tx_def is_signed_def)

lemma validation_admits_minting_witness:
  "validateTransactions mem_ext 0 ([default_tx] @ [minting_tx (replicate 64 CHR ''a'') ''me'' 1]) mem_chain"
  using validation_admits_minting [OF coinbase_accepted, of 1 "replicate 64 CHR ''a''" "''me''"]
  by (simp add: default_tx_def)

lemma spenders_keep_their_balance_witness:
  "balance_of (\<lambda>d. d) (bc_accountDB (snd (applyBlockToState mem_ext (easy_block\<lparr>blk_transactions :=
      [default_tx, default_tx\<lparr>tx_inputs := [\<lparr>in_prevTxHash = ''p'', in_outputIndex = 0\<rparr>]\<rparr>]\<rparr>) 1 mem_chain))) ''me'' =
   balance_of (\<lambda>d. d) (bc_accountDB mem_chain) ''me''"
  by (rule spenders_keep_their_balance)
     (simp_all add: mem_ext_def mem.rocks_axioms default_tx_def mem_chain_def default_chain_config_def)

lemma mem_add:
  "isValidKey (PREFIX_BAL @ x) \<Longrightarrow> x \<noteq> [] \<Longrightarrow> number (d (PREFIX_BAL @ x)) = 0 \<Longrightarrow>
   chain_addBalance mem_rocks x n (Some d) = (True, Some (d(PREFIX_BAL @ x := Some (show_u64 n))))"
  by (cases "d (PREFIX_BAL @ x)")
     (simp_all add: chain_updates adb_updates update_number_def adb_read_def adb_get_def mem_rocks_def
      adb_write_def adb_put_def plus_checked_def)

lemma mem_deduct:
  "isValidKey (PREFIX_BAL @ x) \<Longrightarrow> x \<noteq> [] \<Longrightarrow> d (PREFIX_BAL @ x) = Some (show_u64 m) \<Longrightarrow> n \<le> m \<Longrightarrow>
   chain_deductBalance mem_rocks x n (Some d) = (True, Some (d(PREFIX_BAL @ x := Some (show_u64 (m - n)))))"
  by (simp add: chain_updates adb_updates update_number_def adb_read_def adb_get_def mem_rocks_def
      adb_write_def adb_put_def minus_checked_def)

lemma blind_steps:
  "isValidKey (PREFIX_BAL @ x) \<Longrightarrow> x \<noteq> [] \<Longrightarrow>
   chain_addBalance blind_rocks x n (Some d) = (True, Some (d(PREFIX_BAL @ x := Some (show_u64 n))))"
  "isValidKey (PREFIX_BAL @ x) \<Longrightarrow> x \<noteq> [] \<Longrightarrow> 0 < n \<Longrightarrow>
   chain_deductBalance blind_rocks x n (Some d) = (False, Some d)"
  by (simp_all add: chain_updates adb_updates update_number_def adb_read_def adb_get_def blind_rocks_def
      mem_rocks_def adb_write_def adb_put_def plus_checked_def minus_checked_def)

lemma network_fee_exact_witness:
  "unat (balance_of (\<lambda>d. d)
     (credit_output mem_rocks ''t'' False \<lparr>out_value = 2000, out_address = ''a''\<rparr> (Some (\<lambda>k. None))) ''a'') = 1960 \<and>
   unat (balance_of (\<lambda>d. d)
     (credit_output mem_rocks ''t'' False \<lparr>out_value = 2000, out_address = ''a''\<rparr> (Some (\<lambda>k. None))) ''t'') = 40 \<and>
   unat (balance_of (\<lambda>d. d)
     (credit_output blind_rocks ''t'' False \<lparr>out_value = 7, out_address = ''a''\<rparr>
       (Some [''bal:a'' \<mapsto> ''1000''])) ''a'') = 7"
proof -
  have k: "isValidKey (PREFIX_BAL @ ''a'')" "isValidKey (PREFIX_BAL @ ''t'')"
    by (simp_all add: isValidKey_def PREFIX_BAL_def MAX_KEY_LEN_def)
  have fee: "network_fee 2000 = 40" "network_fee 7 = 7" by (simp_all add: network_fee_def calculateNetworkFee_def)
  define d :: "string \<Rightarrow> string option" where "d = (\<lambda>k. None)"
  define d1 where "d1 = d(PREFIX_BAL @ ''a'' := Some (show_u64 2000))"
  define d2 where "d2 = d1(PREFIX_BAL @ ''a'' := Some (show_u64 (2000 - 40)))"
  define d3 where "d3 = d2(PREFIX_BAL @ ''t'' := Some (show_u64 40))"
  define e :: "string \<Rightarrow> string option" where "e = [''bal:a'' \<mapsto> ''1000'']"
  define e1 where "e1 = e(PREFIX_BAL @ ''a'' := Some (show_u64 7))"
  have m1: "chain_addBalance mem_rocks ''a'' 2000 (Some d) = (True, Some d1)"
    unfolding d1_def by (rule mem_add [OF k(1)]) (simp_all add: d_def number_def)
  have m2: "chain_deductBalance mem_rocks ''a'' (network_fee 2000) (Some d1) = (True, Some d2)"
    unfolding d2_def fee by (rule mem_deduct [OF k(1)]) (simp_all add: d1_def)
  have m3: "chain_addBalance mem_rocks ''t'' (network_fee 2000) (Some d2) = (True, Some d3)"
    unfolding d3_def fee by (rule mem_add [OF k(2)]) (simp_all add: d2_def d1_def d_def number_def)
  have b1: "chain_addBalance blind_rocks ''a'' 7 (Some e) = (True, Some e1)"
    unfolding e1_def by (rule blind_steps(1) [OF k(1)]) simp
  have b2: "chain_deductBalance blind_rocks ''a'' (network_fee 7) (Some e1) = (False, Some e1)"
    unfolding fee by (rule blind_steps(2) [OF k(1)]) simp_all
  have z: "balance_of (\<lambda>d. d) (Some d) y = 0" for y by (simp add: balance_of_def adb_content_def d_def)
  have l: "\<not> read_fails mem_rocks q (Some w)" "read_fails blind_rocks q (Some w)" for q w
    by (simp_all add: read_fails_def mem_rocks_def blind_rocks_def split: option.split)
  have t: "''t'' \<noteq> []" "''a'' \<noteq> ''t''" by simp_all
  have "unat (balance_of (\<lambda>d. d) (credit_output mem_rocks ''t'' False \<lparr>out_value = 2000, out_address = ''a''\<rparr> (Some d)) ''a'') = 1960 \<and>
    unat (balance_of (\<lambda>d. d) (credit_output mem_rocks ''t'' False \<lparr>out_value = 2000, out_address = ''a''\<rparr> (Some d)) ''t'') = 40"
    using network_fee_exact [OF mem.rocks_axioms t m1 m2 m3 refl refl refl refl] by (simp add: z l fee)
  moreover have "unat (balance_of (\<lambda>d. d) (credit_output blind_rocks ''t'' False \<lparr>out_value = 7, out_address = ''a''\<rparr> (Some e)) ''a'') = 7"
    using network_fee_exact [OF blind.rocks_axioms t b1 b2 prod.collapse [symmetric] refl refl refl refl] by (simp add: l fee)
  ultimately show ?thesis by (simp add: d_def e_def)
qed

end
