(* ===== verification/RocksWrapper.thy ===== *)
theory RocksWrapper
  imports AccountDB
begin

text \<open>
  \<^verbatim>\<open>include/rocksdb_wrapper.h\<close> and \<^verbatim>\<open>src/db/rocksdb_wrapper.cpp\<close>: the wrapper around
  RocksDB that the EVM storage uses. The library's calls are the parameter \<open>R\<close> of theory
  \<open>AccountDB\<close>, the object is its pointer \<^verbatim>\<open>db\<close>. The calls of the library report errors by
  their status, so the handlers of exceptions have no case here; the striped locks of the
  wrapper are not modelled.
\<close>

section \<open>Results\<close>

type_synonym 'd rocks_wrapper = "'d option"

text \<open>\<^verbatim>\<open>Result\<close> has the fields and constructors of the account database's result.\<close>

type_synonym wrapper_result = db_result

definition rw_success :: wrapper_result where
  "rw_success = \<lparr>dbr_ok = True, dbr_error = []\<rparr>"

definition rw_failure :: "string \<Rightarrow> wrapper_result" where
  "rw_failure msg = \<lparr>dbr_ok = False, dbr_error = msg\<rparr>"

lemma rw_result_ok [simp]: "dbr_ok rw_success" "\<not> dbr_ok (rw_failure e)"
  by (simp_all add: rw_success_def rw_failure_def)

text \<open>\<^verbatim>\<open>Status::ToString\<close>, whose message the other constructors carry.\<close>

fun status_text :: "rocks_status \<Rightarrow> string" where
  "status_text SOk = ''OK''"
| "status_text SNotFound = ''NotFound: ''"
| "status_text (SIOError m) = m"
| "status_text (SCorruption m) = m"
| "status_text (SInvalidArgument m) = m"
| "status_text (SOther m) = m"

definition RW_HEALTH_KEY :: string where "RW_HEALTH_KEY = ''__rocksdb_health_probe__''"

section \<open>Operations\<close>

definition RocksDBWrapper :: "'d rocksdb \<Rightarrow> string \<Rightarrow> 'd rocks_wrapper" where
  "RocksDBWrapper R path = (case rdb_open R path of (status, rawDb) \<Rightarrow> if status \<noteq> SOk then None else Some rawDb)"

definition rw_isOpen :: "'d rocks_wrapper \<Rightarrow> bool" where
  "rw_isOpen w = (w \<noteq> None)"

definition rw_isHealthy :: "'d rocksdb \<Rightarrow> 'd rocks_wrapper \<Rightarrow> bool \<times> 'd rocks_wrapper" where
  "rw_isHealthy R w =
     (case w of
        None \<Rightarrow> (False, w)
      | Some d \<Rightarrow>
          (case rdb_put R d True RW_HEALTH_KEY ''1'' of (ws, d) \<Rightarrow>
            if ws \<noteq> SOk then (False, Some d)
            else
              case rdb_get R d RW_HEALTH_KEY [] of (rs, readBack) \<Rightarrow>
                (\<not> (rs \<noteq> SOk \<or> readBack \<noteq> ''1''), Some d)))"

definition rw_put ::
    "'d rocksdb \<Rightarrow> string \<Rightarrow> string \<Rightarrow> bool \<Rightarrow> 'd rocks_wrapper \<Rightarrow> wrapper_result \<times> 'd rocks_wrapper" where
  "rw_put R key value sync w =
     (case w of
        None \<Rightarrow> (rw_failure ''DB not open'', w)
      | Some d \<Rightarrow>
          if key = [] then (rw_failure ''empty key rejected'', w)
          else
            case rdb_put R d sync key value of (s, d) \<Rightarrow>
              if s \<noteq> SOk then (rw_failure (''put failed for key '' @ quoted key @ '': '' @ status_text s), Some d)
              else (rw_success, Some d))"

text \<open>The result and the new content of the output string, which is cleared first.\<close>

definition rw_get :: "'d rocksdb \<Rightarrow> string \<Rightarrow> 'd rocks_wrapper \<Rightarrow> wrapper_result \<times> string" where
  "rw_get R key w =
     (case w of
        None \<Rightarrow> (rw_failure ''DB not open'', [])
      | Some d \<Rightarrow>
          if key = [] then (rw_failure ''empty key rejected'', [])
          else
            case rdb_get R d key [] of (s, valueOut) \<Rightarrow>
              if s = SNotFound then (rw_failure ''NOT_FOUND'', valueOut)
              else if s \<noteq> SOk
              then (rw_failure (''get failed for key '' @ quoted key @ '': '' @ status_text s), valueOut)
              else (rw_success, valueOut))"

definition rw_del ::
    "'d rocksdb \<Rightarrow> string \<Rightarrow> bool \<Rightarrow> 'd rocks_wrapper \<Rightarrow> wrapper_result \<times> 'd rocks_wrapper" where
  "rw_del R key sync w =
     (case w of
        None \<Rightarrow> (rw_failure ''DB not open'', w)
      | Some d \<Rightarrow>
          if key = [] then (rw_failure ''empty key rejected'', w)
          else
            case rdb_delete R d sync key of (s, d) \<Rightarrow>
              if s \<noteq> SOk \<and> s \<noteq> SNotFound
              then (rw_failure (''del failed for key '' @ quoted key @ '': '' @ status_text s), Some d)
              else (rw_success, Some d))"

text \<open>
  The streaming iterator. The callback answers whether to go on, \<open>None\<close> when it throws;
  the result is the number of entries visited, or \<open>-1\<close>. The second component is the list
  of entries the callback was called with.
\<close>

fun rw_iterate ::
    "string \<Rightarrow> (string \<Rightarrow> string \<Rightarrow> bool option) \<Rightarrow> nat \<Rightarrow> nat \<Rightarrow> (string \<times> string) list \<Rightarrow>
     (nat \<times> (string \<times> string) list) option" where
  "rw_iterate prefix callback maxResults count [] = Some (count, [])"
| "rw_iterate prefix callback maxResults count ((k, v) # rest) =
     (if take (length prefix) k \<noteq> prefix then Some (count, [])
      else
        case callback k v of
          None \<Rightarrow> None
        | Some False \<Rightarrow> Some (count + 1, [(k, v)])
        | Some True \<Rightarrow>
            if maxResults > 0 \<and> count + 1 \<ge> maxResults then Some (count + 1, [(k, v)])
            else map_option (apsnd ((#) (k, v))) (rw_iterate prefix callback maxResults (count + 1) rest))"

definition rw_iteratePrefix ::
    "'d rocksdb \<Rightarrow> string \<Rightarrow> (string \<Rightarrow> string \<Rightarrow> bool option) option \<Rightarrow> nat \<Rightarrow> 'd rocks_wrapper \<Rightarrow> int" where
  "rw_iteratePrefix R prefix callback maxResults w =
     (case w of
        None \<Rightarrow> - 1
      | Some d \<Rightarrow>
          if prefix = [] then - 1
          else
            case callback of
              None \<Rightarrow> - 1
            | Some callback \<Rightarrow>
                (case rdb_from R d prefix of (entries, status) \<Rightarrow>
                  case rw_iterate prefix callback maxResults 0 entries of
                    None \<Rightarrow> - 1
                  | Some (count, visited) \<Rightarrow> if status \<noteq> SOk then - 1 else int count))"

fun first_empty :: "nat \<Rightarrow> string list \<Rightarrow> nat option" where
  "first_empty i [] = None"
| "first_empty i (k # ks) = (if k = [] then Some i else first_empty (Suc i) ks)"

definition rw_batchPut ::
    "'d rocksdb \<Rightarrow> (string \<times> string) list \<Rightarrow> bool \<Rightarrow> 'd rocks_wrapper \<Rightarrow> wrapper_result \<times> 'd rocks_wrapper" where
  "rw_batchPut R items sync w =
     (case w of
        None \<Rightarrow> (rw_failure ''DB not open'', w)
      | Some d \<Rightarrow>
          if items = [] then (rw_success, w)
          else
            case first_empty 0 (map fst items) of
              Some i \<Rightarrow> (rw_failure (''empty key at batch index '' @ show_nat i), w)
            | None \<Rightarrow>
                (case rdb_write R d sync (map (\<lambda>(k, v). BPut k v) items) of (s, d) \<Rightarrow>
                  if s \<noteq> SOk then (rw_failure (''batchPut failed: '' @ status_text s), Some d)
                  else (rw_success, Some d)))"

definition rw_batchDelete ::
    "'d rocksdb \<Rightarrow> string list \<Rightarrow> bool \<Rightarrow> 'd rocks_wrapper \<Rightarrow> wrapper_result \<times> 'd rocks_wrapper" where
  "rw_batchDelete R keys sync w =
     (case w of
        None \<Rightarrow> (rw_failure ''DB not open'', w)
      | Some d \<Rightarrow>
          if keys = [] then (rw_success, w)
          else
            case first_empty 0 keys of
              Some i \<Rightarrow> (rw_failure (''empty key at batch index '' @ show_nat i), w)
            | None \<Rightarrow>
                (case rdb_write R d sync (map BDelete keys) of (s, d) \<Rightarrow>
                  if s \<noteq> SOk then (rw_failure (''batchDelete failed: '' @ status_text s), Some d)
                  else (rw_success, Some d)))"

section \<open>The wrapper over a database that keeps its contract\<close>

lemma first_empty_None [simp]: "first_empty i ks = None \<longleftrightarrow> [] \<notin> set ks"
  by (induction ks arbitrary: i) auto

definition rw_content :: "('d \<Rightarrow> string \<Rightarrow> string option) \<Rightarrow> 'd rocks_wrapper \<Rightarrow> string \<Rightarrow> string option" where
  "rw_content view w = (case w of None \<Rightarrow> (\<lambda>k. None) | Some d \<Rightarrow> view d)"

lemmas rw_op_splits = option.splits if_splits prod.splits

context rocks begin

lemma rw_put_ok:
  "rw_put R k v sync w = (r, w') \<Longrightarrow> dbr_ok r \<Longrightarrow> rw_content view w' = (rw_content view w)(k := Some v)"
  using put_ok by (auto simp: rw_put_def rw_content_def split: rw_op_splits)

lemma rw_put_fail:
  "rw_put R k v sync w = (r, w') \<Longrightarrow> \<not> dbr_ok r \<Longrightarrow> rw_content view w' = rw_content view w"
  using put_fail by (auto simp: rw_put_def rw_content_def split: rw_op_splits)

lemma rw_put_isOpen: "rw_put R k v sync w = (r, w') \<Longrightarrow> rw_isOpen w' = rw_isOpen w"
  by (auto simp: rw_put_def rw_isOpen_def split: rw_op_splits)

lemma rw_get_ok: "rw_get R k w = (r, v) \<Longrightarrow> dbr_ok r \<Longrightarrow> rw_content view w k = Some v"
  using get_ok by (auto simp: rw_get_def rw_content_def split: rw_op_splits)

text \<open>A deletion that finds no entry changes nothing, whatever status reports it.\<close>

lemma rw_del_cases:
  assumes "rw_del R k sync w = (r, w')"
  shows "rw_content view w' = rw_content view w \<or> rw_content view w' = (rw_content view w)(k := None)"
    and "\<not> dbr_ok r \<Longrightarrow> rw_content view w' = rw_content view w"
proof -
  have "view d' = view d \<or> view d' = (view d)(k := None)" "s \<noteq> SOk \<Longrightarrow> view d' = view d"
    if "rdb_delete R d sync k = (s, d')" for d s d'
    using that delete_ok [of d sync k d'] delete_fail [of d sync k s d'] by (cases "s = SOk"; simp)+
  then show "rw_content view w' = rw_content view w \<or> rw_content view w' = (rw_content view w)(k := None)"
    and "\<not> dbr_ok r \<Longrightarrow> rw_content view w' = rw_content view w"
    using assms by (auto simp: rw_del_def rw_content_def split: rw_op_splits)
qed

lemma rw_batchPut_ok:
  "rw_batchPut R items sync w = (r, w') \<Longrightarrow> dbr_ok r \<Longrightarrow>
   rw_content view w' = batch_apply (map (\<lambda>(k, v). BPut k v) items) (rw_content view w)"
  using write_ok by (auto simp: rw_batchPut_def rw_content_def split: rw_op_splits)

lemma rw_batchPut_fail:
  "rw_batchPut R items sync w = (r, w') \<Longrightarrow> \<not> dbr_ok r \<Longrightarrow> rw_content view w' = rw_content view w"
  using write_fail by (auto simp: rw_batchPut_def rw_content_def split: rw_op_splits)

end

text \<open>What the callers use: whether there is a value, and whether the write succeeded.\<close>

definition rw_lookup :: "'d rocksdb \<Rightarrow> string \<Rightarrow> 'd rocks_wrapper \<Rightarrow> string option" where
  "rw_lookup R k w = (case rw_get R k w of (r, v) \<Rightarrow> if dbr_ok r then Some v else None)"

context rocks begin

lemma rw_lookup_answer: "k \<noteq> [] \<Longrightarrow> rw_lookup R k w = (if read_fails R k w then None else rw_content view w k)"
proof (cases w)
  case (Some d)
  assume k: "k \<noteq> []"
  obtain s y where g: "rdb_get R d k [] = (s, y)" by fastforce
  with k Some show ?thesis
    using get_ok [of d k "[]" y] get_missing [of d k "[]" y]
    by (cases s) (auto simp: rw_lookup_def rw_get_def rw_content_def read_fails_def)
qed (simp add: rw_lookup_def rw_get_def rw_content_def read_fails_def)

end

definition rw_store :: "'d rocksdb \<Rightarrow> string \<Rightarrow> string \<Rightarrow> 'd rocks_wrapper \<Rightarrow> bool \<times> 'd rocks_wrapper" where
  "rw_store R k v w = (case rw_put R k v True w of (r, w) \<Rightarrow> (dbr_ok r, w))"

context rocks begin

lemma rw_store_content:
  "rw_store R k v w = (ok, w') \<Longrightarrow>
   rw_content view w' = (if ok then (rw_content view w)(k := Some v) else rw_content view w)"
  using rw_put_ok rw_put_fail by (auto simp: rw_store_def split: prod.splits)

end

context reliable_rocks begin

lemma rw_lookup_content: "k \<noteq> [] \<Longrightarrow> rw_lookup R k w = rw_content view w k"
proof (cases w)
  case (Some d)
  assume k: "k \<noteq> []"
  obtain s y where e: "rdb_get R d k [] = (s, y)" by fastforce
  have "s = SOk \<or> s = SNotFound" using get_reliable [of d k "[]"] e by simp
  then show ?thesis
    using Some k e get_ok [of d k "[]" y] get_missing [of d k "[]" y]
    by (auto simp: rw_lookup_def rw_get_def rw_content_def)
qed (simp add: rw_lookup_def rw_get_def rw_content_def)

lemma rw_store_ok: "rw_store R k v w = (True, w') \<Longrightarrow> rw_content view w' = (rw_content view w)(k := Some v)"
  by (auto simp: rw_store_def split: prod.splits dest: rw_put_ok)

lemma rw_store_fail: "rw_store R k v w = (False, w') \<Longrightarrow> rw_content view w' = rw_content view w"
  by (auto simp: rw_store_def split: prod.splits dest: rw_put_fail)

end

sublocale reliable_rocks \<subseteq> rw: kv_store "rw_lookup R" "rw_store R" "rw_content view" "\<lambda>k. k \<noteq> []"
  by unfold_locales (simp_all add: rw_lookup_content rw_store_ok rw_store_fail)

end
