(* ===== verification/EvmStorage.thy ===== *)
theory EvmStorage
  imports RocksWrapper Crc
begin

text \<open>
  The EVM's persistent state, \<^verbatim>\<open>include/storage.h\<close> and \<^verbatim>\<open>src/evm/storage.cpp\<close>: contract
  code with a length and a check sum, storage slots and 256-bit balances under prefixed
  keys. An \<open>EVMStorage\<close> object is its wrapper; a 256-bit balance is an array of 32 bytes.
  The per-slot mutexes and the log output are not modelled.
\<close>

section \<open>Layout\<close>

definition ADDR_HEX_LEN :: nat where "ADDR_HEX_LEN = 40"
definition SLOT_HEX_LEN :: nat where "SLOT_HEX_LEN = 64"
definition BALANCE_BYTES :: nat where "BALANCE_BYTES = 32"
definition CODE_HEADER_BYTES :: nat where "CODE_HEADER_BYTES = 8"
definition SCHEMA_VERSION :: u32 where "SCHEMA_VERSION = 1"

datatype read_status = OK | NOT_FOUND | CORRUPT | DB_ERROR

record storage_batch_item =
  sbi_addrHex :: string
  sbi_slotHex :: string
  sbi_valueHex :: string

definition codeKey :: "string \<Rightarrow> string" where "codeKey addr = ''code:'' @ addr"
definition storageKey :: "string \<Rightarrow> string \<Rightarrow> string" where "storageKey addr slot = ''storage:'' @ addr @ '':'' @ slot"
definition balanceKey :: "string \<Rightarrow> string" where "balanceKey addr = ''balance:'' @ addr"
definition schemaKey :: string where "schemaKey = ''__schema_version__''"

section \<open>The check sum\<close>

definition EVM_CRC_POLY :: u32 where "EVM_CRC_POLY = 0xEDB88320"

definition evm_crc_bit :: "u32 \<Rightarrow> u32" where
  "evm_crc_bit crc = drop_bit 1 crc XOR (EVM_CRC_POLY AND NOT ((crc AND 1) - 1))"

definition evm_crc32c :: "bytes \<Rightarrow> u32" where
  "evm_crc32c data = foldl (\<lambda>crc b. (evm_crc_bit ^^ 8) (crc XOR ucast b)) 0xFFFFFFFF data XOR 0xFFFFFFFF"

section \<open>Opening and the schema version\<close>

definition initSchemaVersion :: "'d rocksdb \<Rightarrow> 'd rocks_wrapper \<Rightarrow> bool \<times> 'd rocks_wrapper" where
  "initSchemaVersion R w =
     (case rw_get R schemaKey w of (found, existing) \<Rightarrow>
       if \<not> dbr_ok found then
         (case rw_put R schemaKey (bytes_str (be_bytes4 SCHEMA_VERSION)) True w of (r, w) \<Rightarrow> (dbr_ok r, w))
       else if length existing \<noteq> 4 then (False, w)
       else
         let e = str_bytes existing;
             stored = be_word4 (e ! 0) (e ! 1) (e ! 2) (e ! 3)
         in (stored = SCHEMA_VERSION, w))"

text \<open>The constructor prints a failed version check and keeps the object usable.\<close>

definition EVMStorage :: "'d rocksdb \<Rightarrow> string \<Rightarrow> 'd rocks_wrapper" where
  "EVMStorage R dbPath =
     (let w = RocksDBWrapper R dbPath
      in if \<not> rw_isOpen w then w else snd (initSchemaVersion R w))"

section \<open>Validation\<close>

definition isValidHex :: "string \<Rightarrow> nat \<Rightarrow> bool" where
  "isValidHex s requiredLen = (if length s \<noteq> requiredLen then False else list_all is_hex s)"

definition isValidAddrHex :: "string \<Rightarrow> bool" where
  "isValidAddrHex s = isValidHex s ADDR_HEX_LEN"

definition isValidSlotHex :: "string \<Rightarrow> bool" where
  "isValidSlotHex s = isValidHex s SLOT_HEX_LEN"

section \<open>Contract code\<close>

definition code_record :: "bytes \<Rightarrow> bytes" where
  "code_record code =
     (let codeLen = word_of_nat (length code) :: u32;
          checksum = evm_crc32c code
      in be_bytes4 codeLen @ be_bytes4 checksum @ code)"

definition putContractCode :: "'d rocksdb \<Rightarrow> string \<Rightarrow> bytes \<Rightarrow> 'd rocks_wrapper \<Rightarrow> bool \<times> 'd rocks_wrapper" where
  "putContractCode R addrHex code w =
     (if \<not> isValidAddrHex addrHex then (False, w)
      else case rw_put R (codeKey addrHex) (bytes_str (code_record code)) True w of (ok, w) \<Rightarrow> (dbr_ok ok, w))"

definition getContractCode :: "'d rocksdb \<Rightarrow> string \<Rightarrow> 'd rocks_wrapper \<Rightarrow> read_status \<times> bytes" where
  "getContractCode R addrHex w =
     (if \<not> isValidAddrHex addrHex then (DB_ERROR, [])
      else
        case rw_get R (codeKey addrHex) w of (r, raw) \<Rightarrow>
          if \<not> dbr_ok r then (NOT_FOUND, [])
          else
            let raw = str_bytes raw in
            if length raw < CODE_HEADER_BYTES then (CORRUPT, [])
            else
              let storedLen = unat (be_word4 (raw ! 0) (raw ! 1) (raw ! 2) (raw ! 3)) in
              if length raw \<noteq> CODE_HEADER_BYTES + storedLen then (CORRUPT, [])
              else
                let storedCRC = be_word4 (raw ! 4) (raw ! 5) (raw ! 6) (raw ! 7);
                    body = drop CODE_HEADER_BYTES raw
                in if evm_crc32c (take storedLen body) \<noteq> storedCRC then (CORRUPT, [])
                   else (OK, take storedLen body))"

section \<open>Storage slots\<close>

definition putContractStorage ::
    "'d rocksdb \<Rightarrow> string \<Rightarrow> string \<Rightarrow> string \<Rightarrow> 'd rocks_wrapper \<Rightarrow> bool \<times> 'd rocks_wrapper" where
  "putContractStorage R addrHex slotHex valueHex w =
     (if \<not> isValidAddrHex addrHex then (False, w)
      else if \<not> isValidSlotHex slotHex then (False, w)
      else if \<not> isValidSlotHex valueHex then (False, w)
      else case rw_put R (storageKey addrHex slotHex) valueHex True w of (ok, w) \<Rightarrow> (dbr_ok ok, w))"

definition getContractStorage ::
    "'d rocksdb \<Rightarrow> string \<Rightarrow> string \<Rightarrow> 'd rocks_wrapper \<Rightarrow> read_status \<times> string" where
  "getContractStorage R addrHex slotHex w =
     (if \<not> isValidAddrHex addrHex then (DB_ERROR, [])
      else if \<not> isValidSlotHex slotHex then (DB_ERROR, [])
      else
        case rw_get R (storageKey addrHex slotHex) w of (r, valueOut) \<Rightarrow>
          if \<not> dbr_ok r then (NOT_FOUND, valueOut)
          else if length valueOut \<noteq> SLOT_HEX_LEN then (CORRUPT, [])
          else if \<not> isValidSlotHex valueOut then (CORRUPT, [])
          else (OK, valueOut))"

definition deleteContractStorage ::
    "'d rocksdb \<Rightarrow> string \<Rightarrow> string \<Rightarrow> 'd rocks_wrapper \<Rightarrow> bool \<times> 'd rocks_wrapper" where
  "deleteContractStorage R addrHex slotHex w =
     (if \<not> isValidAddrHex addrHex then (False, w)
      else if \<not> isValidSlotHex slotHex then (False, w)
      else case rw_del R (storageKey addrHex slotHex) True w of (ok, w) \<Rightarrow> (dbr_ok ok, w))"

definition valid_item :: "storage_batch_item \<Rightarrow> bool" where
  "valid_item item =
     (isValidAddrHex (sbi_addrHex item) \<and> isValidSlotHex (sbi_slotHex item) \<and> isValidSlotHex (sbi_valueHex item))"

definition putContractStorageBatch ::
    "'d rocksdb \<Rightarrow> storage_batch_item list \<Rightarrow> 'd rocks_wrapper \<Rightarrow> bool \<times> 'd rocks_wrapper" where
  "putContractStorageBatch R items w =
     (if items = [] then (True, w)
      else if \<not> list_all valid_item items then (False, w)
      else
        let kvPairs = map (\<lambda>item. (storageKey (sbi_addrHex item) (sbi_slotHex item), sbi_valueHex item)) items
        in case rw_batchPut R kvPairs True w of (ok, w) \<Rightarrow> (dbr_ok ok, w))"

section \<open>Balances\<close>

definition putBalance :: "'d rocksdb \<Rightarrow> string \<Rightarrow> bytes \<Rightarrow> 'd rocks_wrapper \<Rightarrow> bool \<times> 'd rocks_wrapper" where
  "putBalance R addrHex balance w =
     (if \<not> isValidAddrHex addrHex then (False, w)
      else
        case rw_put R (balanceKey addrHex) (bytes_str (take BALANCE_BYTES balance)) True w of (ok, w) \<Rightarrow> (dbr_ok ok, w))"

definition zero256 :: bytes where "zero256 = replicate 32 0"

definition getBalance :: "'d rocksdb \<Rightarrow> string \<Rightarrow> 'd rocks_wrapper \<Rightarrow> read_status \<times> bytes" where
  "getBalance R addrHex w =
     (if \<not> isValidAddrHex addrHex then (DB_ERROR, zero256)
      else
        case rw_get R (balanceKey addrHex) w of (r, raw) \<Rightarrow>
          if \<not> dbr_ok r then (NOT_FOUND, zero256)
          else if length raw \<noteq> BALANCE_BYTES then (CORRUPT, zero256)
          else (OK, str_bytes raw))"

text \<open>The 64-bit wrappers: the loops write and read the last eight bytes, big-endian.\<close>

definition putBalance64 :: "'d rocksdb \<Rightarrow> string \<Rightarrow> u64 \<Rightarrow> 'd rocks_wrapper \<Rightarrow> bool \<times> 'd rocks_wrapper" where
  "putBalance64 R addrHex balance w =
     putBalance R addrHex
       (foldl (\<lambda>buf i. buf[BALANCE_BYTES - 8 + (7 - i) := ucast (drop_bit (8 * i) balance)]) zero256 (rev [0..<8])) w"

definition getBalance64 :: "'d rocksdb \<Rightarrow> string \<Rightarrow> 'd rocks_wrapper \<Rightarrow> read_status \<times> u64" where
  "getBalance64 R addrHex w =
     (case getBalance R addrHex w of (status, buf) \<Rightarrow>
       if status \<noteq> OK then (status, 0)
       else if list_ex (\<lambda>b. b \<noteq> 0) (take (BALANCE_BYTES - 8) buf) then (CORRUPT, 0)
       else (OK, foldl (\<lambda>v i. push_bit 8 v OR ucast (buf ! (BALANCE_BYTES - 8 + i))) 0 [0..<8]))"

section \<open>The check sum detects every change of one byte\<close>

interpretation iso3309: reflected_crc evm_crc_bit EVM_CRC_POLY
proof
  fix c :: u32
  have "NOT (of_bool (odd c) - 1) = (if odd c then - 1 else 0 :: u32)" by simp
  then show "evm_crc_bit c = drop_bit 1 c XOR (if odd c then EVM_CRC_POLY else 0)"
    by (simp add: evm_crc_bit_def and_one_u32)
qed (simp add: EVM_CRC_POLY_def)

lemma evm_crc32c_run: "evm_crc32c data = crc_run evm_crc_bit data"
  by (simp add: evm_crc32c_def crc_run_def crc_byte_def [abs_def])

section \<open>Operations over the lookups of the wrapper\<close>

definition read_code :: "bytes \<Rightarrow> read_status \<times> bytes" where
  "read_code raw =
     (if length raw < CODE_HEADER_BYTES then (CORRUPT, [])
      else if length raw \<noteq> CODE_HEADER_BYTES + unat (be_read (take 4 raw) :: u32) then (CORRUPT, [])
      else if evm_crc32c (drop 8 raw) \<noteq> be_read (take 4 (drop 4 raw)) then (CORRUPT, [])
      else (OK, drop 8 raw))"

definition read_slot :: "string \<Rightarrow> read_status \<times> string" where
  "read_slot v = (if isValidSlotHex v then (OK, v) else (CORRUPT, []))"

definition read_balance :: "string \<Rightarrow> read_status \<times> bytes" where
  "read_balance raw = (if length raw \<noteq> BALANCE_BYTES then (CORRUPT, zero256) else (OK, str_bytes raw))"

lemma take4: "length xs \<ge> 4 \<Longrightarrow> take 4 xs = [xs ! 0, xs ! 1, xs ! 2, xs ! 3]"
  by (cases xs; cases "tl xs"; cases "tl (tl xs)"; cases "tl (tl (tl xs))") (auto simp: numeral_eq_Suc)

lemma getContractCode_lookup:
  "getContractCode R a w =
     (if \<not> isValidAddrHex a then (DB_ERROR, [])
      else case rw_lookup R (codeKey a) w of None \<Rightarrow> (NOT_FOUND, []) | Some raw \<Rightarrow> read_code (str_bytes raw))"
proof -
  have "take (unat l) (drop 8 raw) = drop 8 raw" if "length raw = 8 + unat l" for l :: u32 and raw :: bytes
    using that by simp
  then show ?thesis
    by (auto simp: getContractCode_def rw_lookup_def read_code_def CODE_HEADER_BYTES_def Let_def be_word4_eq
        take4 split: prod.split)
qed

lemma getBalance_lookup:
  "getBalance R a w =
     (if \<not> isValidAddrHex a then (DB_ERROR, zero256)
      else case rw_lookup R (balanceKey a) w of None \<Rightarrow> (NOT_FOUND, zero256) | Some raw \<Rightarrow> read_balance raw)"
  by (simp add: getBalance_def rw_lookup_def read_balance_def split: prod.split)

lemma read_slot_eq:
  "(if length v \<noteq> SLOT_HEX_LEN then (CORRUPT, []) else if \<not> isValidSlotHex v then (CORRUPT, []) else (OK, v)) = read_slot v"
  by (simp add: read_slot_def isValidSlotHex_def isValidHex_def)

lemma evm_put_store:
  "putContractCode R a code w =
     (if \<not> isValidAddrHex a then (False, w) else rw_store R (codeKey a) (bytes_str (code_record code)) w)"
  "putContractStorage R a k v w =
     (if \<not> isValidAddrHex a \<or> \<not> isValidSlotHex k \<or> \<not> isValidSlotHex v then (False, w)
      else rw_store R (storageKey a k) v w)"
  "putBalance R a bal w =
     (if \<not> isValidAddrHex a then (False, w) else rw_store R (balanceKey a) (bytes_str (take BALANCE_BYTES bal)) w)"
  by (simp_all add: putContractCode_def putContractStorage_def putBalance_def rw_store_def)

section \<open>Keys\<close>

lemma valid_hex_length: "isValidAddrHex a \<Longrightarrow> length a = 40" "isValidSlotHex k \<Longrightarrow> length k = 64"
  by (auto simp: isValidAddrHex_def isValidSlotHex_def isValidHex_def ADDR_HEX_LEN_def SLOT_HEX_LEN_def split: if_splits)

lemma evm_keys_nonempty [simp]: "codeKey a \<noteq> []" "storageKey a k \<noteq> []" "balanceKey a \<noteq> []"
  by (simp_all add: codeKey_def storageKey_def balanceKey_def)

lemma evm_keys_distinct [simp]:
  "codeKey a \<noteq> storageKey b k" "storageKey b k \<noteq> codeKey a" "codeKey a \<noteq> balanceKey b"
  "balanceKey b \<noteq> codeKey a" "storageKey a k \<noteq> balanceKey b" "balanceKey b \<noteq> storageKey a k"
  by (simp_all add: codeKey_def storageKey_def balanceKey_def)

lemma evm_keys_inj [simp]:
  "codeKey a = codeKey b \<longleftrightarrow> a = b" "balanceKey a = balanceKey b \<longleftrightarrow> a = b"
  by (simp_all add: codeKey_def balanceKey_def)

lemma storageKey_inj:
  "isValidAddrHex a \<Longrightarrow> isValidAddrHex b \<Longrightarrow> storageKey a k = storageKey b l \<longleftrightarrow> a = b \<and> k = l"
  by (auto simp: storageKey_def dest!: valid_hex_length)

section \<open>Reading back\<close>

lemma length_code_record [simp]: "length (code_record code) = 8 + length code"
  by (simp add: code_record_def be_bytes4_eq Let_def)

lemma read_code_parts:
  assumes "length hl = 4" "length hc = 4"
  shows "read_code (hl @ hc @ body) =
    (if length body \<noteq> unat (be_read hl :: u32) then (CORRUPT, [])
     else if evm_crc32c body \<noteq> be_read hc then (CORRUPT, []) else (OK, body))"
  using assms by (simp add: read_code_def CODE_HEADER_BYTES_def)

lemma code_record_parts:
  "code_record code = be_write 4 (word_of_nat (length code) :: u32) @ be_write 4 (evm_crc32c code) @ code"
  by (simp add: code_record_def be_bytes4_eq Let_def)

lemma be_read_write4: "be_read (be_write 4 (v :: u32)) = v"
  by (rule be_read_write) simp

lemma unat_len32: "n < 2 ^ 32 \<Longrightarrow> unat (word_of_nat n :: u32) = n"
  by (simp add: unat_of_nat)

lemma read_code_record: "length code < 2 ^ 32 \<Longrightarrow> read_code (code_record code) = (OK, code)"
  unfolding code_record_parts by (subst read_code_parts) (simp_all add: be_read_write4 unat_len32)

lemma be_read_inj4: "length xs = 4 \<Longrightarrow> length ys = 4 \<Longrightarrow> (be_read xs :: u32) = be_read ys \<Longrightarrow> xs = ys"
proof -
  assume l: "length xs = 4" "length ys = 4" and e: "(be_read xs :: u32) = be_read ys"
  have "be_write 4 (be_read xs :: u32) = xs" "be_write 4 (be_read ys :: u32) = ys"
    using be_write_read [OF l(1), where 'a = 32] be_write_read [OF l(2), where 'a = 32] by simp_all
  with e show "xs = ys" by metis
qed

lemma list_update_neq: "i < length xs \<Longrightarrow> b \<noteq> xs ! i \<Longrightarrow> xs[i := b] \<noteq> xs"
  by (metis nth_list_update_eq)

text \<open>A record with one byte changed, wherever it is.\<close>

lemma read_code_corrupted:
  assumes len: "length code < 2 ^ 32" and i: "i < length (code_record code)" and b: "b \<noteq> code_record code ! i"
  shows "read_code ((code_record code)[i := b]) = (CORRUPT, [])"
proof -
  let ?l = "be_write 4 (word_of_nat (length code) :: u32)" and ?c = "be_write 4 (evm_crc32c code)"
  consider "i < 4" | "4 \<le> i" "i < 8" | "8 \<le> i" by linarith
  then show ?thesis
  proof cases
    case 1
    then have "(code_record code)[i := b] = ?l[i := b] @ ?c @ code" and "?l[i := b] \<noteq> ?l"
      using b list_update_neq [of i ?l b] by (auto simp: code_record_parts list_update_append nth_append)
    moreover from this(2) have "(be_read (?l[i := b]) :: u32) \<noteq> word_of_nat (length code)"
      using be_read_inj4 [of "?l[i := b]" ?l] by (auto simp: be_read_write4)
    then have "length code \<noteq> unat (be_read (?l[i := b]) :: u32)"
      by (metis of_nat_unat ucast_id)
    ultimately show ?thesis by (simp add: read_code_parts)
  next
    case 2
    then have "i - 4 < 4" by simp
    with 2 have "(code_record code)[i := b] = ?l @ ?c[i - 4 := b] @ code" and "?c[i - 4 := b] \<noteq> ?c"
      using b list_update_neq [of "i - 4" ?c b] by (auto simp: code_record_parts list_update_append nth_append)
    moreover from this(2) have "(be_read (?c[i - 4 := b]) :: u32) \<noteq> be_read ?c"
      using be_read_inj4 [of "?c[i - 4 := b]" ?c] by auto
    ultimately show ?thesis by (simp add: read_code_parts be_read_write4)
  next
    case 3
    then have "\<not> i < 4" "\<not> i - 4 < 4" "i - 4 - 4 = i - 8" by simp_all
    with 3 have e: "(code_record code)[i := b] = ?l @ ?c @ code[i - 8 := b]" and n: "i - 8 < length code"
      and d: "b \<noteq> code ! (i - 8)"
      using b i by (auto simp: code_record_parts list_update_append nth_append)
    have "evm_crc32c (code[i - 8 := b]) \<noteq> evm_crc32c code"
      using iso3309.detects_byte [OF n d] by (simp add: evm_crc32c_run)
    then show ?thesis by (simp add: e read_code_parts be_read_write4)
  qed
qed

lemma read_code_truncated:
  assumes len: "length code < 2 ^ 32" and k: "k < length (code_record code)"
  shows "read_code (take k (code_record code)) = (CORRUPT, [])"
proof (cases "k < 8")
  case False
  let ?l = "be_write 4 (word_of_nat (length code) :: u32)" and ?c = "be_write 4 (evm_crc32c code)"
  have "take k (code_record code) = ?l @ ?c @ take (k - 8) code" using False by (simp add: code_record_parts)
  then show ?thesis using len k False by (simp add: read_code_parts be_read_write4 unat_len32)
qed (use k in \<open>simp add: read_code_def CODE_HEADER_BYTES_def\<close>)

section \<open>The storage as three independent maps\<close>

text \<open>RocksDB documents that deleting a missing entry is not an error, so it is never \<^verbatim>\<open>NotFound\<close>.
  That no read fails is the assumption of \<open>reliable_rocks\<close>; a failed one is taken for a missing entry
  (\<open>read_error_is_not_found\<close>).\<close>

locale evm_rocks = reliable_rocks +
  assumes delete_status: "fst (rdb_delete R d sync k) \<noteq> SNotFound"
begin

lemma getContractStorage_lookup:
  "getContractStorage R a k w =
     (if \<not> isValidAddrHex a \<or> \<not> isValidSlotHex k then (DB_ERROR, [])
      else case rw_lookup R (storageKey a k) w of None \<Rightarrow> (NOT_FOUND, []) | Some v \<Rightarrow> read_slot v)"
proof -
  have "v = []" if "rw_get R (storageKey a k) w = (r, v)" "\<not> dbr_ok r" for r v
  proof (cases w)
    case (Some d)
    obtain s y where g: "rdb_get R d (storageKey a k) [] = (s, y)" by fastforce
    have "s = SOk \<or> s = SNotFound" using get_reliable [of d "storageKey a k" "[]"] g by simp
    then show ?thesis
      using that Some g get_missing [of d "storageKey a k" "[]" y] by (auto simp: rw_get_def)
  qed (use that in \<open>auto simp: rw_get_def\<close>)
  then show ?thesis
    by (auto simp: getContractStorage_def rw_lookup_def read_slot_eq split: prod.split)
qed

lemma rw_del_lookup:
  "rw_del R k True w = (r, w') \<Longrightarrow> k \<noteq> [] \<Longrightarrow> k' \<noteq> [] \<Longrightarrow>
   rw_lookup R k' w' = (if dbr_ok r \<and> k' = k then None else rw_lookup R k' w)"
proof (cases w)
  case (Some d)
  assume e: "rw_del R k True w = (r, w')" and k: "k \<noteq> []" "k' \<noteq> []"
  obtain s d' where g: "rdb_delete R d True k = (s, d')" by fastforce
  have "s \<noteq> SNotFound" using delete_status [of d True k] g by simp
  then show ?thesis
    using Some e k g delete_ok [of d True k d'] delete_fail [of d True k s d']
    by (cases "s = SOk") (auto simp: rw_del_def rw_lookup_content rw_content_def)
qed (auto simp: rw_del_def rw_lookup_content rw_content_def)

lemmas evm_gets = getContractCode_lookup getContractStorage_lookup getBalance_lookup

lemma put_code_reads:
  assumes "putContractCode R a code w = (ok, w')" and len: "length code < 2 ^ 32"
  shows "getContractCode R b w' = (if ok \<and> b = a then (OK, code) else getContractCode R b w)"
    and "getContractStorage R b k w' = getContractStorage R b k w"
    and "getBalance R b w' = getBalance R b w"
  using assms(1) read_code_record [OF len]
  by (auto simp: evm_put_store evm_gets rw.rd_wr split: if_splits)

lemma put_slot_reads:
  assumes "putContractStorage R a k v w = (ok, w')"
  shows "getContractStorage R b l w' = (if ok \<and> b = a \<and> l = k then (OK, v) else getContractStorage R b l w)"
    and "getContractCode R b w' = getContractCode R b w"
    and "getBalance R b w' = getBalance R b w"
  using assms by (auto simp: evm_put_store evm_gets rw.rd_wr storageKey_inj read_slot_def split: if_splits)

lemma put_balance_reads:
  assumes "putBalance R a bal w = (ok, w')" and len: "length bal = 32"
  shows "getBalance R b w' = (if ok \<and> b = a then (OK, bal) else getBalance R b w)"
    and "getContractCode R b w' = getContractCode R b w"
    and "getContractStorage R b k w' = getContractStorage R b k w"
  using assms(1) len
  by (auto simp: evm_put_store evm_gets rw.rd_wr read_balance_def BALANCE_BYTES_def split: if_splits)

lemma delete_slot_reads:
  assumes "deleteContractStorage R a k w = (ok, w')"
  shows "getContractStorage R b l w' = (if ok \<and> b = a \<and> l = k then (NOT_FOUND, []) else getContractStorage R b l w)"
    and "getContractCode R b w' = getContractCode R b w"
    and "getBalance R b w' = getBalance R b w"
  using assms
  by (auto simp: deleteContractStorage_def evm_gets rw_del_lookup storageKey_inj split: if_splits prod.splits)

lemma batch_reads:
  assumes "putContractStorageBatch R items w = (ok, w')"
  shows "getContractStorage R b l w' =
      (case (if ok then map_of (rev (map (\<lambda>i. ((sbi_addrHex i, sbi_slotHex i), sbi_valueHex i)) items)) (b, l) else None) of
         Some v \<Rightarrow> (OK, v) | None \<Rightarrow> getContractStorage R b l w)"
proof -
  let ?kv = "map (\<lambda>i. (storageKey (sbi_addrHex i) (sbi_slotHex i), sbi_valueHex i)) items"
  let ?al = "map (\<lambda>i. ((sbi_addrHex i, sbi_slotHex i), sbi_valueHex i)) items"
  have map_eq: "map_of (rev ?kv) (storageKey b l) = map_of (rev ?al) (b, l)"
    if "list_all valid_item items" "isValidAddrHex b"
    using that by (induction items rule: rev_induct) (auto simp: valid_item_def storageKey_inj)
  have found: "isValidAddrHex b \<and> isValidSlotHex l \<and> isValidSlotHex v"
    if "list_all valid_item items" "map_of (rev ?al) (b, l) = Some v" for v
    using that by (auto dest!: map_of_SomeD simp: list_all_iff valid_item_def)
  show ?thesis
  proof (cases "items = [] \<or> \<not> list_all valid_item items")
    case True
    then show ?thesis using assms by (cases "items = []") (auto simp: putContractStorageBatch_def)
  next
    case False
    then obtain r where r: "rw_batchPut R ?kv True w = (r, w')" and ok: "ok = dbr_ok r"
      using assms by (auto simp: putContractStorageBatch_def Let_def split: prod.splits)
    have c: "rw_content view w' (storageKey b l) =
        (case (if ok then map_of (rev ?kv) (storageKey b l) else None) of
           Some v \<Rightarrow> Some v | None \<Rightarrow> rw_content view w (storageKey b l))"
      using rw_batchPut_ok [OF r] rw_batchPut_fail [OF r] ok batch_apply_puts [of ?kv] by simp
    show ?thesis
    proof (cases "isValidAddrHex b \<and> isValidSlotHex l")
      case True
      with False c found show ?thesis
        by (auto simp: getContractStorage_lookup rw_lookup_content map_eq read_slot_def split: option.split)
    next
      case nv: False
      with found False have "map_of (rev ?al) (b, l) = None" by fastforce
      with nv show ?thesis by (auto simp: getContractStorage_lookup)
    qed
  qed
qed

end

section \<open>Properties\<close>

text \<open>on a database that keeps its documented contract, the EVM storage is three
  independent maps: a successful write of code, a slot, a balance or a batch of slots is
  read back by the matching getter and changes the answer of no other getter and of no
  other address or slot, a deleted slot is \<^verbatim>\<open>NOT_FOUND\<close>, and a refused or failed
  operation changes no answer at all; in particular a batch is written as a whole or not
  at all.
\<close>

theorem evm_storage_maps:
  assumes R: "evm_rocks R view" and len: "length code < 2 ^ 32" "length bal = 32"
  shows "(case putContractCode R a code w of (ok, w') \<Rightarrow>
      getContractCode R b w' = (if ok \<and> b = a then (OK, code) else getContractCode R b w) \<and>
      getContractStorage R b l w' = getContractStorage R b l w \<and> getBalance R b w' = getBalance R b w) \<and>
    (case putContractStorage R a k v w of (ok, w') \<Rightarrow>
      getContractStorage R b l w' = (if ok \<and> b = a \<and> l = k then (OK, v) else getContractStorage R b l w) \<and>
      getContractCode R b w' = getContractCode R b w \<and> getBalance R b w' = getBalance R b w) \<and>
    (case putBalance R a bal w of (ok, w') \<Rightarrow>
      getBalance R b w' = (if ok \<and> b = a then (OK, bal) else getBalance R b w) \<and>
      getContractCode R b w' = getContractCode R b w \<and> getContractStorage R b l w' = getContractStorage R b l w) \<and>
    (case deleteContractStorage R a k w of (ok, w') \<Rightarrow>
      getContractStorage R b l w' =
        (if ok \<and> b = a \<and> l = k then (NOT_FOUND, []) else getContractStorage R b l w) \<and>
      getContractCode R b w' = getContractCode R b w \<and> getBalance R b w' = getBalance R b w) \<and>
    (case putContractStorageBatch R items w of (ok, w') \<Rightarrow>
      getContractStorage R b l w' =
        (case (if ok then map_of (rev (map (\<lambda>i. ((sbi_addrHex i, sbi_slotHex i), sbi_valueHex i)) items)) (b, l)
               else None) of
           Some v \<Rightarrow> (OK, v) | None \<Rightarrow> getContractStorage R b l w))"
proof -
  obtain ok_code w_code where code: "putContractCode R a code w = (ok_code, w_code)" by fastforce
  obtain ok_slot w_slot where slot: "putContractStorage R a k v w = (ok_slot, w_slot)" by fastforce
  obtain ok_bal w_bal where bal: "putBalance R a bal w = (ok_bal, w_bal)" by fastforce
  obtain ok_del w_del where del: "deleteContractStorage R a k w = (ok_del, w_del)" by fastforce
  obtain ok_batch w_batch where batch: "putContractStorageBatch R items w = (ok_batch, w_batch)" by fastforce
  show ?thesis
    unfolding code slot bal del batch prod.case
    by (intro conjI)
      (rule evm_rocks.put_code_reads [OF R code len(1)]
        evm_rocks.put_slot_reads [OF R slot]
        evm_rocks.put_balance_reads [OF R bal len(2)]
        evm_rocks.delete_slot_reads [OF R del]
        evm_rocks.batch_reads [OF R batch])+
qed

text \<open>a code record that was damaged on disk, by a change of any one of its bytes (length,
  check sum or code) or by a loss of its end, is reported \<^verbatim>\<open>CORRUPT\<close>, never returned.
\<close>

theorem corrupted_code_detected:
  assumes R: "evm_rocks R view" and a: "isValidAddrHex a" and len: "length code < 2 ^ 32"
    and stored: "rw_content view w (codeKey a) = Some (bytes_str raw)"
    and damage: "(\<exists>i b. i < length (code_record code) \<and> b \<noteq> code_record code ! i \<and> raw = (code_record code)[i := b]) \<or>
      (\<exists>k. k < length (code_record code) \<and> raw = take k (code_record code))"
  shows "getContractCode R a w = (CORRUPT, [])"
proof -
  have "rw_lookup R (codeKey a) w = Some (bytes_str raw)"
    using stored by (simp add: reliable_rocks.rw_lookup_content [OF evm_rocks.axioms(1) [OF R]])
  moreover have "read_code raw = (CORRUPT, [])"
    using damage read_code_corrupted [OF len] read_code_truncated [OF len] by blast
  ultimately show ?thesis using a by (simp add: getContractCode_lookup)
qed

text \<open>
  The 64-bit wrappers: a balance written with one is read back with the other, and a
  256-bit balance beyond 64 bits is refused.
\<close>

lemma list_update_numeral: "(x # xs)[numeral n := v] = x # xs[pred_numeral n := v]"
  by (simp add: numeral_eq_Suc)

lemma balance64_bytes:
  "foldl (\<lambda>buf i. buf[BALANCE_BYTES - 8 + (7 - i) := ucast (drop_bit (8 * i) balance)]) zero256 (rev [0..<8]) =
     replicate 24 0 @ be_write 8 (balance :: u64)"
proof -
  have z: "zero256 = replicate 24 0 @ [0, 0, 0, 0, 0, 0, 0, 0]"
    unfolding zero256_def by code_simp
  have l: "length (replicate 24 (0 :: u8)) = 24" by simp
  show ?thesis
    unfolding z be_write_def
    by (simp add: BALANCE_BYTES_def upt_rec list_update_append list_update_numeral l)
qed

lemma balance64_read:
  "length buf = 32 \<Longrightarrow> foldl (\<lambda>v i. push_bit 8 v OR ucast (buf ! (BALANCE_BYTES - 8 + i))) 0 [0..<8] =
     (be_read (drop 24 buf) :: u64)"
proof -
  assume l: "length buf = 32"
  have "drop 24 buf = map (\<lambda>i. buf ! (24 + i)) [0..<8]"
    by (rule nth_equalityI) (use l in auto)
  then show ?thesis by (simp add: be_read_def be_step_def foldl_map BALANCE_BYTES_def)
qed

lemma balance64_roundtrip:
  assumes R: "evm_rocks R view" and put: "putBalance64 R a n w = (True, w')"
  shows "getBalance64 R a w' = (OK, n)"
proof -
  have p: "putBalance R a (replicate 24 0 @ be_write 8 n) w = (True, w')"
    using put unfolding putBalance64_def balance64_bytes by simp
  have "getBalance R a w' = (OK, replicate 24 0 @ be_write 8 n)"
    using evm_rocks.put_balance_reads(1) [OF R p, of a] by simp
  moreover have "foldl (\<lambda>v i. push_bit 8 v OR ucast ((replicate 24 0 @ be_write 8 n) ! (BALANCE_BYTES - 8 + i))) 0 [0..<8] = n"
    by (subst balance64_read) (simp_all add: be_read_write)
  moreover have "\<not> list_ex (\<lambda>b. b \<noteq> 0) (take (BALANCE_BYTES - 8) (replicate 24 0 @ be_write 8 n))"
    by (simp add: BALANCE_BYTES_def list_ex_iff)
  ultimately show ?thesis by (simp only: getBalance64_def prod.case) simp
qed

lemma balance64_overflow:
  "getBalance R a w = (OK, buf) \<Longrightarrow> length buf = 32 \<Longrightarrow> be_val (take 24 buf) \<noteq> 0 \<Longrightarrow> getBalance64 R a w = (CORRUPT, 0)"
proof -
  assume g: "getBalance R a w = (OK, buf)" and l: "length buf = 32" and n: "be_val (take 24 buf) \<noteq> 0"
  have z: "(\<forall>b \<in> set bs. b = 0) \<longrightarrow> be_val bs = 0" for bs
    by (induction bs) auto
  have "\<exists>b \<in> set (take 24 buf). b \<noteq> 0" using z [of "take 24 buf"] n by auto
  then show ?thesis using g by (simp add: getBalance64_def BALANCE_BYTES_def list_ex_iff)
qed

text \<open>
  A read that fails is reported as a missing entry: the wrapper's result carries only
  whether a value was read, and no caller looks at its message.
\<close>

lemma read_error_is_not_found:
  assumes "isValidAddrHex a" and "rdb_get R d (balanceKey a) [] = (SIOError m, x)"
  shows "getBalance R a (Some d) = (NOT_FOUND, zero256)"
  using assms by (simp add: getBalance_def rw_get_def)

section \<open>Witnesses\<close>

interpretation evm_mem: evm_rocks mem_rocks "\<lambda>d. d"
  by unfold_locales (simp add: mem_rocks_def)

definition addr_a :: string where "addr_a = replicate 40 (CHR ''a'')"

lemma addr_a_valid [simp]: "isValidAddrHex addr_a"
  by (simp add: isValidAddrHex_def isValidHex_def addr_a_def ADDR_HEX_LEN_def list_all_iff is_hex_def hex_digit_val_def)

lemma evm_storage_maps_witness:
  "getContractCode mem_rocks addr_a (snd (putContractCode mem_rocks addr_a [0x60, 0] (Some (\<lambda>k. None)))) = (OK, [0x60, 0])"
proof -
  have "fst (putContractCode mem_rocks addr_a [0x60, 0] (Some (\<lambda>k. None)))"
    by (simp add: putContractCode_def rw_put_def mem_rocks_def)
  then show ?thesis
    using conjunct1 [OF evm_storage_maps [OF evm_mem.evm_rocks_axioms, where code = "[0x60, 0]" and bal = zero256
          and a = addr_a and b = addr_a and w = "Some (\<lambda>k. None)" and l = "[]"]]
    by (simp add: zero256_def split_beta)
qed

lemma corrupted_code_detected_witness:
  "getContractCode mem_rocks addr_a (Some [codeKey addr_a \<mapsto> bytes_str ((code_record [0x60, 0])[9 := 1])]) = (CORRUPT, [])"
proof -
  have "code_record [0x60, 0] ! 9 = 0"
    by (simp add: code_record_parts nth_append)
  then show ?thesis
    by (intro corrupted_code_detected [OF evm_mem.evm_rocks_axioms, where code = "[0x60, 0]"
          and raw = "(code_record [0x60, 0])[9 := 1]"])
       (auto simp: rw_content_def intro!: exI [of _ "9 :: nat"] exI [of _ "1 :: u8"])
qed

end
