(* ===== verification/EvmHost.thy ===== *)
theory EvmHost
  imports EvmStorage Keccak
begin

text \<open>
  The EVM host, \<^verbatim>\<open>include/host.h\<close> and \<^verbatim>\<open>src/evm/host.cpp\<close>: accounts, storage, code,
  balances, self-destruction, logs and the access sets of EIP-2929, over the EVM storage.

  Addresses are lists of 20 bytes and EVMC words lists of 32; the transaction context is a
  value of the EVMC library, the type parameter \<open>'c\<close>. The host holds a reference to the
  storage, here its component \<open>h_storageDB\<close>. Every method holds the one mutex throughout,
  so a concurrent execution is a sequence of these operations; the mutex itself and the
  log output are not modelled.
\<close>

section \<open>Data\<close>

record log_entry =
  le_contractHex :: string
  le_topics :: "bytes list"
  le_data :: bytes

record gas_usage =
  gu_storageReads :: u64
  gu_storageWrites :: u64
  gu_codeReads :: u64
  gu_balanceReads :: u64
  gu_selfdestructs :: u64
  gu_total :: u64

definition no_gas :: gas_usage where
  "no_gas = \<lparr>gu_storageReads = 0, gu_storageWrites = 0, gu_codeReads = 0, gu_balanceReads = 0,
     gu_selfdestructs = 0, gu_total = 0\<rparr>"

datatype storage_status = STORAGE_UNCHANGED | STORAGE_ADDED | STORAGE_DELETED | STORAGE_MODIFIED

datatype access_status = ACCESS_COLD | ACCESS_WARM

text \<open>
  A callback answers \<open>None\<close> when it throws; an unset \<^verbatim>\<open>std::function\<close> is \<open>None\<close>.
\<close>

record ('d, 'c) evm_host =
  h_storageDB :: "'d rocks_wrapper"
  h_txContext :: 'c
  h_blockHashFn :: "(64 word \<Rightarrow> bytes option) option"
  h_hasLogSink :: bool
  h_logs :: "log_entry list"
  h_gas :: gas_usage
  h_storageErrorOccurred :: bool
  h_inSelfdestruct :: bool
  h_accessedAccounts :: "bytes set"
  h_accessedStorageSlots :: "bytes \<Rightarrow> bytes set"
  h_addrHexCache :: "bytes \<Rightarrow> string option"
  h_keyHexCache :: "bytes \<Rightarrow> string option"

definition GAS_SLOAD_COLD :: u64 where "GAS_SLOAD_COLD = 2100"
definition GAS_SLOAD_WARM :: u64 where "GAS_SLOAD_WARM = 100"
definition GAS_SSTORE_SET :: u64 where "GAS_SSTORE_SET = 20000"
definition GAS_SSTORE_RESET :: u64 where "GAS_SSTORE_RESET = 2900"
definition GAS_SSTORE_WARM :: u64 where "GAS_SSTORE_WARM = 100"
definition GAS_BALANCE_COLD :: u64 where "GAS_BALANCE_COLD = 2600"
definition GAS_BALANCE_WARM :: u64 where "GAS_BALANCE_WARM = 100"
definition GAS_EXTCODE_COLD :: u64 where "GAS_EXTCODE_COLD = 2600"
definition GAS_EXTCODE_WARM :: u64 where "GAS_EXTCODE_WARM = 100"
definition GAS_SELFDESTRUCT :: u64 where "GAS_SELFDESTRUCT = 5000"

section \<open>Helpers\<close>

definition hexEncode :: "bytes \<Rightarrow> string" where
  "hexEncode data = concat (map (\<lambda>b. [digit_char (unat (drop_bit 4 b)), digit_char (unat (b AND 0x0F))]) data)"

definition uint64ToUint256be :: "u64 \<Rightarrow> bytes" where
  "uint64ToUint256be v = foldl (\<lambda>out i. out[24 + i := ucast (drop_bit (56 - 8 * i) v)]) (replicate 32 0) [0..<8]"

definition isAllZero :: "bytes \<Rightarrow> bool" where
  "isAllZero v = list_all (\<lambda>b. b = 0) v"

definition to_lower :: "char \<Rightarrow> char" where
  "to_lower c = (if 65 \<le> (of_char c :: nat) \<and> of_char c \<le> (90 :: nat) then char_of (of_char c + 32 :: nat) else c)"

definition nibble :: "char \<Rightarrow> u8" where
  "nibble c = (if is_digit c then byte_of_char c - byte_of_char (CHR ''0'')
               else byte_of_char c - byte_of_char (CHR ''a'') + 10)"

fun decode_hex_pairs :: "string \<Rightarrow> bytes option" where
  "decode_hex_pairs (h # l # s) =
     (let hi = to_lower h; lo = to_lower l
      in if \<not> is_hex hi \<or> \<not> is_hex lo then None
         else map_option ((#) (push_bit 4 (nibble hi) OR nibble lo)) (decode_hex_pairs s))"
| "decode_hex_pairs s = Some []"

text \<open>\<open>None\<close> stands for the answer false, after which no caller uses the output.\<close>

definition hexToBytes32 :: "string \<Rightarrow> bytes option" where
  "hexToBytes32 hex = (if length hex \<noteq> 64 then None else decode_hex_pairs hex)"

definition cachedAddrHex :: "bytes \<Rightarrow> ('d, 'c) evm_host \<Rightarrow> string \<times> ('d, 'c) evm_host" where
  "cachedAddrHex addr h =
     (case h_addrHexCache h addr of
        Some s \<Rightarrow> (s, h)
      | None \<Rightarrow> (hexEncode addr, h\<lparr>h_addrHexCache := (h_addrHexCache h)(addr \<mapsto> hexEncode addr)\<rparr>))"

definition cachedKeyHex :: "bytes \<Rightarrow> ('d, 'c) evm_host \<Rightarrow> string \<times> ('d, 'c) evm_host" where
  "cachedKeyHex key h =
     (case h_keyHexCache h key of
        Some s \<Rightarrow> (s, h)
      | None \<Rightarrow> (hexEncode key, h\<lparr>h_keyHexCache := (h_keyHexCache h)(key \<mapsto> hexEncode key)\<rparr>))"

section \<open>Construction and transactions\<close>

definition MedorEVMHost :: "'d rocks_wrapper \<Rightarrow> 'c \<Rightarrow> ('d, 'c) evm_host" where
  "MedorEVMHost storage ctx0 =
     \<lparr>h_storageDB = storage, h_txContext = ctx0, h_blockHashFn = None, h_hasLogSink = False,
      h_logs = [], h_gas = no_gas, h_storageErrorOccurred = False, h_inSelfdestruct = False,
      h_accessedAccounts = {}, h_accessedStorageSlots = (\<lambda>a. {}), h_addrHexCache = (\<lambda>a. None),
      h_keyHexCache = (\<lambda>k. None)\<rparr>"

definition setBlockHashResolver :: "(64 word \<Rightarrow> bytes option) option \<Rightarrow> ('d, 'c) evm_host \<Rightarrow> ('d, 'c) evm_host" where
  "setBlockHashResolver fn h = h\<lparr>h_blockHashFn := fn\<rparr>"

definition setLogSink :: "bool \<Rightarrow> ('d, 'c) evm_host \<Rightarrow> ('d, 'c) evm_host" where
  "setLogSink present h = h\<lparr>h_hasLogSink := present\<rparr>"

definition setTxContext :: "'c \<Rightarrow> ('d, 'c) evm_host \<Rightarrow> ('d, 'c) evm_host" where
  "setTxContext ctx h = h\<lparr>h_txContext := ctx\<rparr>"

definition beginTransaction :: "('d, 'c) evm_host \<Rightarrow> ('d, 'c) evm_host" where
  "beginTransaction h =
     h\<lparr>h_logs := [], h_gas := no_gas, h_storageErrorOccurred := False, h_inSelfdestruct := False,
       h_accessedAccounts := {}, h_accessedStorageSlots := (\<lambda>a. {}), h_addrHexCache := (\<lambda>a. None),
       h_keyHexCache := (\<lambda>k. None)\<rparr>"

definition commitTransaction :: "('d, 'c) evm_host \<Rightarrow> ('d, 'c) evm_host" where
  "commitTransaction h = h"

definition getLogs :: "('d, 'c) evm_host \<Rightarrow> log_entry list" where "getLogs h = h_logs h"
definition getGasUsage :: "('d, 'c) evm_host \<Rightarrow> gas_usage" where "getGasUsage h = h_gas h"
definition hadStorageError :: "('d, 'c) evm_host \<Rightarrow> bool" where "hadStorageError h = h_storageErrorOccurred h"

section \<open>Accounts and storage\<close>

definition account_exists :: "'d rocksdb \<Rightarrow> bytes \<Rightarrow> ('d, 'c) evm_host \<Rightarrow> bool \<times> ('d, 'c) evm_host" where
  "account_exists R addr h =
     (case cachedAddrHex addr h of (key, h) \<Rightarrow>
       case getBalance R key (h_storageDB h) of (bs, bal) \<Rightarrow>
         if bs = OK \<and> list_ex (\<lambda>b. b \<noteq> 0) bal then (True, h)
         else
           case getContractCode R key (h_storageDB h) of (cs, code) \<Rightarrow> (cs = OK \<and> code \<noteq> [], h))"

text \<open>The cost of an access, cold the first time in the transaction.\<close>

definition touch_slot :: "bytes \<Rightarrow> bytes \<Rightarrow> ('d, 'c) evm_host \<Rightarrow> bool \<times> ('d, 'c) evm_host" where
  "touch_slot addr key h =
     (key \<in> h_accessedStorageSlots h addr,
      h\<lparr>h_accessedStorageSlots := (h_accessedStorageSlots h)(addr := insert key (h_accessedStorageSlots h addr))\<rparr>)"

definition touch_account :: "bytes \<Rightarrow> ('d, 'c) evm_host \<Rightarrow> bool \<times> ('d, 'c) evm_host" where
  "touch_account addr h =
     (addr \<in> h_accessedAccounts h, h\<lparr>h_accessedAccounts := insert addr (h_accessedAccounts h)\<rparr>)"

definition get_storage :: "'d rocksdb \<Rightarrow> bytes \<Rightarrow> bytes \<Rightarrow> ('d, 'c) evm_host \<Rightarrow> bytes \<times> ('d, 'c) evm_host" where
  "get_storage R addr key h =
     (case touch_slot addr key h of (warm, h) \<Rightarrow>
       let g = h_gas h;
           h = h\<lparr>h_gas := g\<lparr>gu_storageReads := gu_storageReads g + 1,
                            gu_total := gu_total g + (if warm then GAS_SLOAD_WARM else GAS_SLOAD_COLD)\<rparr>\<rparr>
       in case cachedAddrHex addr h of (addrHex, h) \<Rightarrow>
          case cachedKeyHex key h of (keyHex, h) \<Rightarrow>
          case getContractStorage R addrHex keyHex (h_storageDB h) of (s, valueHex) \<Rightarrow>
            if s = OK then
              (case hexToBytes32 valueHex of
                 Some out \<Rightarrow> (out, h)
               | None \<Rightarrow> (replicate 32 0, h\<lparr>h_storageErrorOccurred := True\<rparr>))
            else (replicate 32 0, h))"

definition set_storage ::
    "'d rocksdb \<Rightarrow> bytes \<Rightarrow> bytes \<Rightarrow> bytes \<Rightarrow> ('d, 'c) evm_host \<Rightarrow> storage_status \<times> ('d, 'c) evm_host" where
  "set_storage R addr key val h =
     (case cachedAddrHex addr h of (addrHex, h) \<Rightarrow>
      case cachedKeyHex key h of (keyHex, h) \<Rightarrow>
      case getContractStorage R addrHex keyHex (h_storageDB h) of (rs, currentHex) \<Rightarrow>
        let currentEmpty = (rs = NOT_FOUND);
            newIsZero = isAllZero val
        in case touch_slot addr key h of (warm, h) \<Rightarrow>
           let g = h_gas h;
               h = h\<lparr>h_gas := g\<lparr>gu_storageWrites := gu_storageWrites g + 1,
                     gu_total := gu_total g + (if warm then GAS_SSTORE_WARM
                                               else if currentEmpty \<and> \<not> newIsZero then GAS_SSTORE_SET
                                               else GAS_SSTORE_RESET)\<rparr>\<rparr>;
               newValHex = hexEncode val
           in case putContractStorage R addrHex keyHex newValHex (h_storageDB h) of (ok, w) \<Rightarrow>
              let h = h\<lparr>h_storageDB := w\<rparr>
              in if \<not> ok then (STORAGE_UNCHANGED, h\<lparr>h_storageErrorOccurred := True\<rparr>)
                 else if currentEmpty \<and> \<not> newIsZero then (STORAGE_ADDED, h)
                 else if \<not> currentEmpty \<and> newIsZero then (STORAGE_DELETED, h)
                 else if \<not> currentEmpty \<and> currentHex = newValHex then (STORAGE_UNCHANGED, h)
                 else (STORAGE_MODIFIED, h))"

definition get_balance :: "'d rocksdb \<Rightarrow> bytes \<Rightarrow> ('d, 'c) evm_host \<Rightarrow> bytes \<times> ('d, 'c) evm_host" where
  "get_balance R addr h =
     (case touch_account addr h of (warm, h) \<Rightarrow>
       let g = h_gas h;
           h = h\<lparr>h_gas := g\<lparr>gu_balanceReads := gu_balanceReads g + 1,
                            gu_total := gu_total g + (if warm then GAS_BALANCE_WARM else GAS_BALANCE_COLD)\<rparr>\<rparr>
       in case cachedAddrHex addr h of (addrHex, h) \<Rightarrow>
          case getBalance R addrHex (h_storageDB h) of (s, bal) \<Rightarrow>
            (if s = OK then bal else replicate 32 0, h))"

section \<open>Contract code\<close>

definition get_code_size :: "'d rocksdb \<Rightarrow> bytes \<Rightarrow> ('d, 'c) evm_host \<Rightarrow> nat \<times> ('d, 'c) evm_host" where
  "get_code_size R addr h =
     (case touch_account addr h of (warm, h) \<Rightarrow>
       let g = h_gas h;
           h = h\<lparr>h_gas := g\<lparr>gu_codeReads := gu_codeReads g + 1,
                            gu_total := gu_total g + (if warm then GAS_EXTCODE_WARM else GAS_EXTCODE_COLD)\<rparr>\<rparr>
       in case cachedAddrHex addr h of (addrHex, h) \<Rightarrow>
          case getContractCode R addrHex (h_storageDB h) of (s, code) \<Rightarrow>
            (if s = OK then length code else 0, h))"

definition get_code_hash :: "'d rocksdb \<Rightarrow> bytes \<Rightarrow> ('d, 'c) evm_host \<Rightarrow> bytes \<times> ('d, 'c) evm_host" where
  "get_code_hash R addr h =
     (case cachedAddrHex addr h of (addrHex, h) \<Rightarrow>
      case getContractCode R addrHex (h_storageDB h) of (s, code) \<Rightarrow>
        if s \<noteq> OK \<or> code = [] then (replicate 32 0, h)
        else
          let digest = Keccak256_vec code
          in (if length digest = 32 then digest else replicate 32 0, h))"

text \<open>The result and the caller's buffer after the call; \<open>None\<close> is a null buffer.\<close>

definition copy_code ::
    "'d rocksdb \<Rightarrow> bytes \<Rightarrow> nat \<Rightarrow> bytes option \<Rightarrow> nat \<Rightarrow> ('d, 'c) evm_host \<Rightarrow> (nat \<times> bytes option) \<times> ('d, 'c) evm_host" where
  "copy_code R addr code_offset buffer_data buffer_size h =
     (case buffer_data of
        None \<Rightarrow> ((0, None), h)
      | Some buf \<Rightarrow>
          if buffer_size = 0 then ((0, Some buf), h)
          else
            case cachedAddrHex addr h of (addrHex, h) \<Rightarrow>
            case getContractCode R addrHex (h_storageDB h) of (s, code) \<Rightarrow>
              if s \<noteq> OK \<or> code_offset \<ge> length code then ((0, Some buf), h)
              else
                let n = min buffer_size (length code - code_offset)
                in ((n, Some (take n (drop code_offset code) @ drop n buf)), h))"

section \<open>Self-destruction\<close>

text \<open>The addition of two 256-bit numbers, byte by byte from the end.\<close>

definition add256 :: "bytes \<Rightarrow> bytes \<Rightarrow> bytes \<times> u16" where
  "add256 addrBal benBal =
     foldl (\<lambda>(ben, carry) i.
         let sum = ucast (addrBal ! i) + ucast (ben ! i) + carry :: u16
         in (ben[i := ucast (sum AND 0xFF)], drop_bit 8 sum))
       (benBal, 0) (rev [0..<32])"

definition selfdestruct :: "'d rocksdb \<Rightarrow> bytes \<Rightarrow> bytes \<Rightarrow> ('d, 'c) evm_host \<Rightarrow> bool \<times> ('d, 'c) evm_host" where
  "selfdestruct R addr beneficiary h =
     (if h_inSelfdestruct h then (False, h)
      else
        let g = h_gas h;
            h = h\<lparr>h_inSelfdestruct := True,
                  h_gas := g\<lparr>gu_selfdestructs := gu_selfdestructs g + 1, gu_total := gu_total g + GAS_SELFDESTRUCT\<rparr>\<rparr>
        in case cachedAddrHex addr h of (addrHex, h) \<Rightarrow>
           case cachedAddrHex beneficiary h of (benHex, h) \<Rightarrow>
           case getBalance R addrHex (h_storageDB h) of (s, addrBal) \<Rightarrow>
             if s = OK \<and> list_ex (\<lambda>b. b \<noteq> 0) addrBal then
               let benBal = snd (getBalance R benHex (h_storageDB h));
                   (benBal, carry) = add256 addrBal benBal
               in case putBalance R benHex benBal (h_storageDB h) of (ok1, w) \<Rightarrow>
                  if \<not> ok1 then (False, h\<lparr>h_storageDB := w, h_storageErrorOccurred := True, h_inSelfdestruct := False\<rparr>)
                  else
                    case putBalance R addrHex zero256 w of (ok2, w) \<Rightarrow>
                      if \<not> ok2 then (False, h\<lparr>h_storageDB := w, h_storageErrorOccurred := True, h_inSelfdestruct := False\<rparr>)
                      else (True, h\<lparr>h_storageDB := w, h_inSelfdestruct := False\<rparr>)
             else (True, h\<lparr>h_inSelfdestruct := False\<rparr>))"

section \<open>Context, block hashes, logs and access tracking\<close>

definition get_tx_context :: "('d, 'c) evm_host \<Rightarrow> 'c" where "get_tx_context h = h_txContext h"

definition get_block_hash :: "64 word \<Rightarrow> ('d, 'c) evm_host \<Rightarrow> bytes" where
  "get_block_hash block_number h =
     (case h_blockHashFn h of
        Some fn \<Rightarrow> (case fn block_number of Some hash \<Rightarrow> hash | None \<Rightarrow> replicate 32 0)
      | None \<Rightarrow> replicate 32 0)"

text \<open>The second component is the entry handed to the sink, whose exceptions are swallowed.\<close>

definition emit_log ::
    "bytes \<Rightarrow> bytes option \<Rightarrow> nat \<Rightarrow> bytes list option \<Rightarrow> nat \<Rightarrow> ('d, 'c) evm_host \<Rightarrow>
     log_entry option \<times> ('d, 'c) evm_host" where
  "emit_log addr data data_size topics topics_count h =
     (case cachedAddrHex addr h of (addrHex, h) \<Rightarrow>
       let entry =
             \<lparr>le_contractHex = addrHex,
              le_topics = (case topics of Some ts \<Rightarrow> map (take 32) (take topics_count ts) | None \<Rightarrow> []),
              le_data = (case data of Some d \<Rightarrow> (if data_size > 0 then take data_size d else []) | None \<Rightarrow> [])\<rparr>
       in (if h_hasLogSink h then Some entry else None, h\<lparr>h_logs := h_logs h @ [entry]\<rparr>))"

definition access_account :: "bytes \<Rightarrow> ('d, 'c) evm_host \<Rightarrow> access_status \<times> ('d, 'c) evm_host" where
  "access_account addr h =
     (if addr \<in> h_accessedAccounts h then (ACCESS_WARM, h)
      else (ACCESS_COLD, h\<lparr>h_accessedAccounts := insert addr (h_accessedAccounts h)\<rparr>))"

definition access_storage :: "bytes \<Rightarrow> bytes \<Rightarrow> ('d, 'c) evm_host \<Rightarrow> access_status \<times> ('d, 'c) evm_host" where
  "access_storage addr key h =
     (if key \<in> h_accessedStorageSlots h addr then (ACCESS_WARM, h)
      else (ACCESS_COLD,
        h\<lparr>h_accessedStorageSlots := (h_accessedStorageSlots h)(addr := insert key (h_accessedStorageSlots h addr))\<rparr>))"

section \<open>Hexadecimal words\<close>

lemma unat_nibbles: "unat (drop_bit 4 (b :: u8)) = unat b div 16" "unat ((b :: u8) AND 15) = unat b mod 16"
proof -
  show "unat (drop_bit 4 b) = unat b div 16"
    by (simp add: drop_bit_eq_div unat_div)
  have "(15 :: u8) = mask 4" by (simp add: mask_eq_exp_minus_1)
  then have "b AND 15 = take_bit 4 b" by (simp only: take_bit_eq_mask)
  then show "unat (b AND 15) = unat b mod 16" by (simp add: unat_mod take_bit_eq_mod)
qed

lemma hexEncode_eq: "hexEncode data = hex_bytes data"
  by (simp add: hexEncode_def hex_bytes_def hex_byte_def [abs_def] unat_nibbles)

lemma length_hexEncode [simp]: "length (hexEncode data) = 2 * length data"
  by (simp add: hexEncode_eq)

lemma nibble_bound: "unat (b :: u8) div 16 < 16"
  using unat_u8_less [of b] by (simp add: less_mult_imp_div_less)

lemma hexEncode_is_hex: "list_all is_hex (hexEncode data)"
  unfolding hexEncode_eq by (induction data) (simp_all add: hex_byte_def nibble_bound)

lemma hexEncode_valid [simp]:
  "length a = 20 \<Longrightarrow> isValidAddrHex (hexEncode a)" "length k = 32 \<Longrightarrow> isValidSlotHex (hexEncode k)"
  using hexEncode_is_hex
  by (simp_all add: isValidAddrHex_def isValidSlotHex_def isValidHex_def ADDR_HEX_LEN_def SLOT_HEX_LEN_def)

lemma nibble_digit_char:
  "d < 16 \<Longrightarrow> is_hex (to_lower (digit_char d)) \<and> nibble (to_lower (digit_char d)) = word_of_nat d"
  by (drule nat_less_16_cases)
     (auto simp: to_lower_def nibble_def is_digit_def is_hex_def hex_digit_val_def byte_of_char_def)

lemma nibbles_join: "push_bit 4 (word_of_nat (unat b div 16)) OR word_of_nat (unat b mod 16) = (b :: u8)"
proof -
  have m: "(15 :: u8) = mask 4" by (simp add: mask_eq_exp_minus_1)
  have "(word_of_nat (unat b div 16) :: u8) = drop_bit 4 b" "(word_of_nat (unat b mod 16) :: u8) = b AND mask 4"
    unfolding unat_nibbles [symmetric] m by simp_all
  then show ?thesis
    by (auto intro!: bit_word_eqI simp: bit_simps simp del: mask_numeral)
qed

lemma decode_hex_pairs_hexEncode: "decode_hex_pairs (hexEncode v) = Some v"
  unfolding hexEncode_eq
  by (induction v) (simp_all add: hex_byte_def Let_def nibble_digit_char nibble_bound nibbles_join)

lemma hexToBytes32_hexEncode [simp]: "length v = 32 \<Longrightarrow> hexToBytes32 (hexEncode v) = Some v"
  by (simp add: hexToBytes32_def decode_hex_pairs_hexEncode)

lemma hexEncode_inj [simp]: "hexEncode a = hexEncode b \<longleftrightarrow> a = b"
  using decode_hex_pairs_hexEncode by (metis option.inject)

section \<open>The addition is the addition of numbers\<close>

lemma byte_sum_parts:
  fixes a b :: u8 and c :: u16
  assumes "unat c \<le> 1"
  shows "unat (ucast ((ucast a + ucast b + c) AND 0xFF) :: u8) + 256 * unat (drop_bit 8 (ucast a + ucast b + c :: u16)) =
      unat a + unat b + unat c"
    and "unat (drop_bit 8 (ucast a + ucast b + c :: u16)) \<le> 1"
proof -
  let ?s = "ucast a + ucast b + c :: u16"
  have "take_bit 16 (unat x) = unat x" for x :: u8
    by (rule take_bit_nat_eq_self) (simp add: less_trans [OF unat_u8_less [of x]])
  then have u: "unat (ucast a :: u16) = unat a" "unat (ucast b :: u16) = unat b"
    by (simp_all add: unsigned_ucast_eq)
  have s: "unat ?s = unat a + unat b + unat c"
  proof -
    have "unat a + unat b + unat c < 65536" "unat a + unat b < 65536"
      using unat_u8_less [of a] unat_u8_less [of b] assms by linarith+
    then show ?thesis by (simp add: unat_word_ariths u)
  qed
  have "unat (ucast (?s AND 0xFF) :: u8) = unat ?s mod 256"
    unfolding ucast_and_FF by (simp add: unsigned_ucast_eq take_bit_eq_mod)
  moreover have d: "unat (drop_bit 8 ?s) = unat ?s div 256"
    by (simp add: drop_bit_eq_div unat_div)
  ultimately show "unat (ucast (?s AND 0xFF) :: u8) + 256 * unat (drop_bit 8 ?s) = unat a + unat b + unat c"
    using s by simp
  show "unat (drop_bit 8 ?s) \<le> 1"
  proof -
    have "unat a + unat b + unat c < 512"
      using unat_u8_less [of a] unat_u8_less [of b] assms by linarith
    then show ?thesis using d s by simp
  qed
qed

definition add_step :: "bytes \<Rightarrow> bytes \<times> u16 \<Rightarrow> nat \<Rightarrow> bytes \<times> u16" where
  "add_step a = (\<lambda>(ben, carry) i.
     let sum = ucast (a ! i) + ucast (ben ! i) + carry :: u16
     in (ben[i := ucast (sum AND 0xFF)], drop_bit 8 sum))"

lemma add_loop:
  assumes "n \<le> length a" "n \<le> length b" "unat c \<le> 1" "foldl (add_step a) (b, c) (rev [0..<n]) = (b', c')"
  shows "be_val (take n b') + 256 ^ n * unat c' = be_val (take n a) + be_val (take n b) + unat c \<and>
    drop n b' = drop n b \<and> length b' = length b \<and> unat c' \<le> 1"
  using assms
proof (induction n arbitrary: b c)
  case (Suc n)
  let ?s = "ucast (a ! n) + ucast (b ! n) + c :: u16"
  let ?b = "b[n := ucast (?s AND 0xFF)]" and ?c = "drop_bit 8 ?s"
  note parts = byte_sum_parts [OF Suc.prems(3), of "a ! n" "b ! n"]
  have "foldl (add_step a) (?b, ?c) (rev [0..<n]) = (b', c')"
    using Suc.prems(4) by (simp add: add_step_def Let_def)
  then have IH: "be_val (take n b') + 256 ^ n * unat c' = be_val (take n a) + be_val (take n ?b) + unat ?c"
    "drop n b' = drop n ?b" "length b' = length ?b" "unat c' \<le> 1"
    using Suc.IH [of ?b ?c] Suc.prems(1,2) parts(2) by auto
  have len: "length b' = length b" using IH(3) by simp
  have "b' ! n = ?b ! n" using IH(2) Suc.prems(2) len by (metis Cons_nth_drop_Suc Suc_le_lessD length_list_update list.inject)
  then have nth: "unat (b' ! n) + 256 * unat ?c = unat (a ! n) + unat (b ! n) + unat c"
    using parts(1) Suc.prems(2) by simp
  have "take (Suc n) x = take n x @ [x ! n]" if "Suc n \<le> length x" for x :: bytes
    using that by (simp add: take_Suc_conv_app_nth)
  then have "be_val (take (Suc n) x) = be_val (take n x) * 256 + unat (x ! n)" if "Suc n \<le> length x" for x
    using that by (simp add: be_val_append)
  then have "be_val (take (Suc n) b') + 256 ^ Suc n * unat c' =
      (be_val (take n b') + 256 ^ n * unat c') * 256 + unat (b' ! n)"
    and "be_val (take (Suc n) a) = be_val (take n a) * 256 + unat (a ! n)"
    and "be_val (take (Suc n) b) = be_val (take n b) * 256 + unat (b ! n)"
    using Suc.prems(1,2) len by (simp_all add: algebra_simps)
  moreover have "drop (Suc n) b' = drop (Suc n) b"
    using arg_cong [OF IH(2), of "drop 1"] by simp
  ultimately show ?case using IH nth len by simp
qed simp

lemma add256_exact:
  assumes "length a = 32" "length b = 32" "add256 a b = (r, carry)"
  shows "length r = 32" and "be_val r + 2 ^ 256 * unat carry = be_val a + be_val b"
proof -
  have "foldl (add_step a) (b, 0) (rev [0..<32]) = (r, carry)"
    using assms(3) by (simp only: add256_def add_step_def)
  moreover have "32 \<le> length a" "32 \<le> length b" "unat (0 :: u16) \<le> 1" using assms(1,2) by simp_all
  ultimately have L: "be_val (take 32 r) + 256 ^ 32 * unat carry = be_val (take 32 a) + be_val (take 32 b) + unat (0 :: u16)"
    "length r = length b"
    using add_loop by blast+
  show l: "length r = 32" using L(2) assms(2) by (rule trans)
  have t: "take 32 r = r" "take 32 a = a" "take 32 b = b" using l assms(1,2) by simp_all
  have p: "(256 :: nat) ^ 32 = 2 ^ 256" by (simp add: power_mult [of 2 8 32, symmetric])
  show "be_val r + 2 ^ 256 * unat carry = be_val a + be_val b"
    using L(1) by (simp only: t p unsigned_0 add_0_right)
qed

section \<open>The caches\<close>

text \<open>The caches hold the encodings they stand for; every operation keeps this.\<close>

definition host_wf :: "('d, 'c) evm_host \<Rightarrow> bool" where
  "host_wf h \<longleftrightarrow> (\<forall>a s. h_addrHexCache h a = Some s \<longrightarrow> s = hexEncode a) \<and>
     (\<forall>k s. h_keyHexCache h k = Some s \<longrightarrow> s = hexEncode k)"

lemma host_wf_fields [simp]:
  "host_wf (h\<lparr>h_storageDB := w\<rparr>) = host_wf h" "host_wf (h\<lparr>h_gas := g\<rparr>) = host_wf h"
  "host_wf (h\<lparr>h_logs := l\<rparr>) = host_wf h" "host_wf (h\<lparr>h_storageErrorOccurred := e\<rparr>) = host_wf h"
  "host_wf (h\<lparr>h_inSelfdestruct := i\<rparr>) = host_wf h" "host_wf (h\<lparr>h_accessedAccounts := s\<rparr>) = host_wf h"
  "host_wf (h\<lparr>h_accessedStorageSlots := t\<rparr>) = host_wf h" "host_wf (h\<lparr>h_txContext := c\<rparr>) = host_wf h"
  by (simp_all add: host_wf_def)

definition with_caches :: "('d, 'c) evm_host \<Rightarrow> ('d, 'c) evm_host \<Rightarrow> bool" where
  "with_caches h h' \<longleftrightarrow> host_wf h' \<and>
     h' = h\<lparr>h_addrHexCache := h_addrHexCache h', h_keyHexCache := h_keyHexCache h'\<rparr>"

lemma cachedAddrHex_wf:
  assumes "host_wf h" and "cachedAddrHex a h = (s, h')"
  shows "s = hexEncode a" and "with_caches h h'"
  using assms by (auto simp: cachedAddrHex_def with_caches_def host_wf_def split: option.splits if_splits)

lemma cachedKeyHex_wf:
  assumes "host_wf h" and "cachedKeyHex k h = (s, h')"
  shows "s = hexEncode k" and "with_caches h h'"
  using assms by (auto simp: cachedKeyHex_def with_caches_def host_wf_def split: option.splits if_splits)

lemma with_caches_fields:
  "with_caches h h' \<Longrightarrow> host_wf h' \<and> h_storageDB h' = h_storageDB h \<and> h_gas h' = h_gas h \<and> h_logs h' = h_logs h \<and>
     h_storageErrorOccurred h' = h_storageErrorOccurred h \<and> h_inSelfdestruct h' = h_inSelfdestruct h \<and>
     h_accessedAccounts h' = h_accessedAccounts h \<and> h_accessedStorageSlots h' = h_accessedStorageSlots h"
  by (cases h; cases h') (simp add: with_caches_def)

section \<open>What the operations read and write\<close>

definition stored_word :: "read_status \<times> string \<Rightarrow> bytes" where
  "stored_word r = (if fst r = OK then (case hexToBytes32 (snd r) of Some out \<Rightarrow> out | None \<Rightarrow> replicate 32 0)
                    else replicate 32 0)"

definition slot_read :: "'d rocksdb \<Rightarrow> bytes \<Rightarrow> bytes \<Rightarrow> ('d, 'c) evm_host \<Rightarrow> read_status \<times> string" where
  "slot_read R a k h = getContractStorage R (hexEncode a) (hexEncode k) (h_storageDB h)"

lemma get_storage_value: "host_wf h \<Longrightarrow> fst (get_storage R a k h) = stored_word (slot_read R a k h)"
proof -
  assume wf: "host_wf h"
  let ?g = "h_gas h"
  define h1 where "h1 = snd (touch_slot a k h)\<lparr>h_gas := ?g\<lparr>gu_storageReads := gu_storageReads ?g + 1,
      gu_total := gu_total ?g + (if fst (touch_slot a k h) then GAS_SLOAD_WARM else GAS_SLOAD_COLD)\<rparr>\<rparr>"
  obtain s2 h2 where c2: "cachedAddrHex a h1 = (s2, h2)" by fastforce
  obtain s3 h3 where c3: "cachedKeyHex k h2 = (s3, h3)" by fastforce
  have wf1: "host_wf h1" and db1: "h_storageDB h1 = h_storageDB h"
    using wf by (simp_all add: h1_def touch_slot_def host_wf_def)
  note a = cachedAddrHex_wf [OF wf1 c2]
  note b = cachedKeyHex_wf [OF with_caches_fields [OF a(2), THEN conjunct1] c3]
  have db: "h_storageDB h3 = h_storageDB h"
    using with_caches_fields [OF a(2)] with_caches_fields [OF b(2)] db1 by simp
  have "get_storage R a k h =
      (case getContractStorage R s2 s3 (h_storageDB h3) of (s, valueHex) \<Rightarrow>
         if s = OK then
           (case hexToBytes32 valueHex of
              Some out \<Rightarrow> (out, h3)
            | None \<Rightarrow> (replicate 32 0, h3\<lparr>h_storageErrorOccurred := True\<rparr>))
         else (replicate 32 0, h3))"
    by (simp add: get_storage_def touch_slot_def Let_def h1_def [unfolded touch_slot_def fst_conv snd_conv, symmetric]
        c2 c3)
  then show ?thesis
    using a(1) b(1) db by (auto simp: stored_word_def slot_read_def split: prod.split option.split)
qed

lemma get_balance_value: "host_wf h \<Longrightarrow> fst (get_balance R a h) = snd (getBalance R (hexEncode a) (h_storageDB h))"
proof -
  assume wf: "host_wf h"
  let ?g = "h_gas h"
  define h1 where "h1 = snd (touch_account a h)\<lparr>h_gas := ?g\<lparr>gu_balanceReads := gu_balanceReads ?g + 1,
      gu_total := gu_total ?g + (if fst (touch_account a h) then GAS_BALANCE_WARM else GAS_BALANCE_COLD)\<rparr>\<rparr>"
  obtain s2 h2 where c2: "cachedAddrHex a h1 = (s2, h2)" by fastforce
  have wf1: "host_wf h1" and db1: "h_storageDB h1 = h_storageDB h"
    using wf by (simp_all add: h1_def touch_account_def host_wf_def)
  note a = cachedAddrHex_wf [OF wf1 c2]
  have db: "h_storageDB h2 = h_storageDB h" using with_caches_fields [OF a(2)] db1 by simp
  have "get_balance R a h = (case getBalance R s2 (h_storageDB h2) of (s, bal) \<Rightarrow> (if s = OK then bal else replicate 32 0, h2))"
    by (simp add: get_balance_def touch_account_def Let_def h1_def [unfolded touch_account_def fst_conv snd_conv, symmetric] c2)
  moreover have "s = OK \<or> bal = replicate 32 0" if "getBalance R x w = (s, bal)" for s bal x w
    using that by (auto simp: getBalance_def zero256_def split: prod.splits if_splits)
  ultimately show ?thesis using a(1) db by (auto split: prod.split)
qed

text \<open>The answer of a storage write, from what the slot held before.\<close>

definition write_status :: "read_status \<times> string \<Rightarrow> bytes \<Rightarrow> storage_status" where
  "write_status cur val =
     (if fst cur = NOT_FOUND \<and> \<not> isAllZero val then STORAGE_ADDED
      else if fst cur \<noteq> NOT_FOUND \<and> isAllZero val then STORAGE_DELETED
      else if fst cur \<noteq> NOT_FOUND \<and> snd cur = hexEncode val then STORAGE_UNCHANGED
      else STORAGE_MODIFIED)"

lemma set_storage_effect:
  assumes wf: "host_wf h" and put: "putContractStorage R (hexEncode a) (hexEncode k) (hexEncode v) (h_storageDB h) = (ok, w)"
    and set: "set_storage R a k v h = (st, h')"
  shows "host_wf h' \<and> h_storageDB h' = w \<and> h_storageErrorOccurred h' = (h_storageErrorOccurred h \<or> \<not> ok) \<and>
    st = (if ok then write_status (slot_read R a k h) v else STORAGE_UNCHANGED)"
proof -
  obtain s1 h1 where c1: "cachedAddrHex a h = (s1, h1)" by fastforce
  obtain s2 h2 where c2: "cachedKeyHex k h1 = (s2, h2)" by fastforce
  note a = cachedAddrHex_wf [OF wf c1]
  note b = cachedKeyHex_wf [OF with_caches_fields [OF a(2), THEN conjunct1] c2]
  obtain rs cur where g: "getContractStorage R s1 s2 (h_storageDB h2) = (rs, cur)" by fastforce
  have f: "host_wf h2" "h_storageDB h2 = h_storageDB h" "h_storageErrorOccurred h2 = h_storageErrorOccurred h"
    using with_caches_fields [OF a(2)] with_caches_fields [OF b(2)] by simp_all
  have p: "putContractStorage R s1 s2 (hexEncode v) (h_storageDB h2) = (ok, w)"
    and r: "slot_read R a k h = (rs, cur)"
    using put g a(1) b(1) f(2) by (simp_all add: slot_read_def)
  show ?thesis
    using set p f(1,3) unfolding set_storage_def c1 c2 prod.case g r Let_def touch_slot_def
    by (cases ok; cases "fst (rs, cur) = NOT_FOUND"; cases "isAllZero v"; cases "cur = hexEncode v")
       (auto simp: write_status_def)
qed

lemma length_getBalance: "length (snd (getBalance R a w)) = 32"
  by (auto simp: getBalance_def BALANCE_BYTES_def zero256_def split: prod.split)

lemma be_val_zeros: "be_val bs = 0 \<longleftrightarrow> (\<forall>b \<in> set bs. b = 0)"
proof (induction bs)
  case (Cons b bs)
  have "b = 0 \<longleftrightarrow> unat b = 0" by (simp add: unat_eq_0)
  with Cons show ?case by simp
qed simp

definition balance_val :: "'d rocksdb \<Rightarrow> bytes \<Rightarrow> 'd rocks_wrapper \<Rightarrow> nat" where
  "balance_val R a w = be_val (snd (getBalance R (hexEncode a) w))"

lemma balance_val_less: "balance_val R a w < 2 ^ 256"
proof -
  have "be_val (snd (getBalance R (hexEncode a) w)) < 256 ^ 32"
    using be_val_less [of "snd (getBalance R (hexEncode a) w)"] by (simp only: length_getBalance)
  moreover have "(256 :: nat) ^ 32 = 2 ^ 256" by (simp add: power_mult [of 2 8 32, symmetric])
  ultimately show ?thesis by (simp only: balance_val_def)
qed

lemma balance_after_put:
  assumes "evm_rocks R view" and "putBalance R (hexEncode a) bal w = (True, w')" and "length bal = 32"
  shows "balance_val R x w' = (if x = a then be_val bal else balance_val R x w)"
  using evm_rocks.put_balance_reads(1) [OF assms, of "hexEncode x"] by (simp add: balance_val_def)

lemma be_val_zero256: "be_val zero256 = 0"
  by (simp add: be_val_zeros zero256_def)

text \<open>The transfer, over the storage alone.\<close>

lemma transfer_exact:
  assumes R: "evm_rocks R view"
    and add: "add256 (snd (getBalance R (hexEncode a) w)) (snd (getBalance R (hexEncode b) w)) = (r, carry)"
    and p1: "putBalance R (hexEncode b) r w = (True, w1)" and p2: "putBalance R (hexEncode a) zero256 w1 = (True, w2)"
  shows "balance_val R x w2 =
    (if x = a then 0 else if x = b then (balance_val R a w + balance_val R b w) mod 2 ^ 256 else balance_val R x w)"
proof -
  note e = add256_exact [OF length_getBalance length_getBalance add]
  have z: "length zero256 = 32" by (simp add: zero256_def)
  have "be_val r < 256 ^ 32" using be_val_less [of r] by (simp only: e(1))
  moreover have "(256 :: nat) ^ 32 = 2 ^ 256" by (simp add: power_mult [of 2 8 32, symmetric])
  ultimately have "be_val r < 2 ^ 256" by (simp only:)
  then have "be_val r = (be_val r + 2 ^ 256 * unat carry) mod 2 ^ 256" by (simp only: mod_mult_self2 mod_less)
  then have "be_val r = (balance_val R a w + balance_val R b w) mod 2 ^ 256"
    by (simp only: e(2) balance_val_def)
  then show ?thesis
    by (simp only: balance_after_put [OF R p2 z] balance_after_put [OF R p1 e(1)] be_val_zero256)
qed

lemma selfdestruct_effect:
  assumes R: "evm_rocks R view" and wf: "host_wf h" and sd: "selfdestruct R a b h = (True, h')"
  shows "host_wf h' \<and> \<not> h_inSelfdestruct h \<and> \<not> h_inSelfdestruct h' \<and>
    (\<forall>x. balance_val R x (h_storageDB h') =
      (if x = a then 0
       else if x = b then (balance_val R a (h_storageDB h) + balance_val R b (h_storageDB h)) mod 2 ^ 256
       else balance_val R x (h_storageDB h)))"
proof -
  have i: "\<not> h_inSelfdestruct h" using sd by (auto simp: selfdestruct_def)
  let ?g = "h_gas h"
  define h1 where "h1 = h\<lparr>h_inSelfdestruct := True,
      h_gas := ?g\<lparr>gu_selfdestructs := gu_selfdestructs ?g + 1, gu_total := gu_total ?g + GAS_SELFDESTRUCT\<rparr>\<rparr>"
  obtain s2 h2 where c2: "cachedAddrHex a h1 = (s2, h2)" by fastforce
  obtain s3 h3 where c3: "cachedAddrHex b h2 = (s3, h3)" by fastforce
  have wf1: "host_wf h1" and db1: "h_storageDB h1 = h_storageDB h" using wf by (simp_all add: h1_def)
  note ca = cachedAddrHex_wf [OF wf1 c2]
  note cb = cachedAddrHex_wf [OF with_caches_fields [OF ca(2), THEN conjunct1] c3]
  have f: "host_wf h3" "h_storageDB h3 = h_storageDB h"
    using with_caches_fields [OF ca(2)] with_caches_fields [OF cb(2)] db1 by simp_all
  obtain s bal where g: "getBalance R (hexEncode a) (h_storageDB h) = (s, bal)" by fastforce
  have step: "selfdestruct R a b h =
      (if s = OK \<and> list_ex (\<lambda>b. b \<noteq> 0) bal then
         (case add256 bal (snd (getBalance R (hexEncode b) (h_storageDB h))) of (r, carry) \<Rightarrow>
          case putBalance R (hexEncode b) r (h_storageDB h) of (ok1, w) \<Rightarrow>
            if \<not> ok1 then (False, h3\<lparr>h_storageDB := w, h_storageErrorOccurred := True, h_inSelfdestruct := False\<rparr>)
            else
              case putBalance R (hexEncode a) zero256 w of (ok2, w) \<Rightarrow>
                if \<not> ok2 then (False, h3\<lparr>h_storageDB := w, h_storageErrorOccurred := True, h_inSelfdestruct := False\<rparr>)
                else (True, h3\<lparr>h_storageDB := w, h_inSelfdestruct := False\<rparr>))
       else (True, h3\<lparr>h_inSelfdestruct := False\<rparr>))"
    using i ca(1) cb(1) f(2) g c3
    by (simp add: selfdestruct_def Let_def h1_def [symmetric] c2)
  show ?thesis
  proof (cases "s = OK \<and> list_ex (\<lambda>b. b \<noteq> 0) bal")
    case True
    obtain r carry where add: "add256 bal (snd (getBalance R (hexEncode b) (h_storageDB h))) = (r, carry)" by fastforce
    obtain ok1 w1 where p1: "putBalance R (hexEncode b) r (h_storageDB h) = (ok1, w1)" by fastforce
    obtain ok2 w2 where p2: "putBalance R (hexEncode a) zero256 w1 = (ok2, w2)" by fastforce
    have h': "ok1" "ok2" "h' = h3\<lparr>h_storageDB := w2, h_inSelfdestruct := False\<rparr>"
      using sd True unfolding step add p1 prod.case by (auto simp: p2 split: if_splits)
    have "add256 (snd (getBalance R (hexEncode a) (h_storageDB h))) (snd (getBalance R (hexEncode b) (h_storageDB h))) = (r, carry)"
      using add g by simp
    from transfer_exact [OF R this] p1 p2 h' f(1) i show ?thesis by simp
  next
    case False
    then have "selfdestruct R a b h = (True, h3\<lparr>h_inSelfdestruct := False\<rparr>)" unfolding step by (rule if_not_P)
    then have h': "h' = h3\<lparr>h_inSelfdestruct := False\<rparr>" using sd by simp
    have "bal = zero256" if "s \<noteq> OK"
      using g that by (auto simp: getBalance_def split: prod.splits if_splits)
    with False have "balance_val R a (h_storageDB h) = 0"
      by (cases "s = OK") (auto simp: balance_val_def g be_val_zeros be_val_zero256 list_ex_iff)
    then show ?thesis
      using h' f i balance_val_less [of R b "h_storageDB h"] by (simp add: mod_less)
  qed
qed

section \<open>Storage writes over the content of the database\<close>

text \<open>
  The word a slot's entry holds and the status of a write over it: a missing entry is the
  zero word. The database may answer a read with an error; the storage then reports
  \<^verbatim>\<open>NOT_FOUND\<close>, as for a missing entry.
\<close>

definition slot_key :: "bytes \<Rightarrow> bytes \<Rightarrow> string" where
  "slot_key a k = storageKey (hexEncode a) (hexEncode k)"

definition slot_word :: "string option \<Rightarrow> bytes" where
  "slot_word e = (case e of None \<Rightarrow> replicate 32 0 | Some s \<Rightarrow> stored_word (read_slot s))"

definition slot_status :: "string option \<Rightarrow> bytes \<Rightarrow> storage_status" where
  "slot_status e v =
     (case e of
        None \<Rightarrow> if isAllZero v then STORAGE_MODIFIED else STORAGE_ADDED
      | Some s \<Rightarrow> if isAllZero v then STORAGE_DELETED
                  else if s = hexEncode v then STORAGE_UNCHANGED else STORAGE_MODIFIED)"

definition balance_word :: "string option \<Rightarrow> bytes" where
  "balance_word e = (case e of None \<Rightarrow> zero256 | Some raw \<Rightarrow> snd (read_balance raw))"

lemma slot_key_simps [simp]:
  "slot_key a k \<noteq> []" "slot_key a k \<noteq> balanceKey s" "balanceKey s \<noteq> slot_key a k"
  "length a = 20 \<Longrightarrow> length b = 20 \<Longrightarrow> slot_key a k = slot_key b l \<longleftrightarrow> a = b \<and> k = l"
  by (simp_all add: slot_key_def storageKey_inj)

lemma slot_word_written [simp]: "length v = 32 \<Longrightarrow> slot_word (Some (hexEncode v)) = v"
  by (simp add: slot_word_def read_slot_def stored_word_def)

lemma slot_lookup:
  assumes "length a = 20" and "length k = 32" and "length v = 32"
  shows "stored_word (slot_read R a k h) = slot_word (rw_lookup R (slot_key a k) (h_storageDB h))"
    and "write_status (slot_read R a k h) v = slot_status (rw_lookup R (slot_key a k) (h_storageDB h)) v"
proof -
  obtain r s where g: "rw_get R (slot_key a k) (h_storageDB h) = (r, s)" by fastforce
  have e: "slot_read R a k h = (if dbr_ok r then read_slot s else (NOT_FOUND, s))"
    using assms(1,2) g
    by (simp add: slot_read_def getContractStorage_def slot_key_def [symmetric] read_slot_eq)
  have l: "rw_lookup R (slot_key a k) (h_storageDB h) = (if dbr_ok r then Some s else None)"
    by (simp add: rw_lookup_def g)
  have v: "isValidSlotHex (hexEncode v)" "hexEncode v \<noteq> []" using assms(3) by (auto simp flip: length_0_conv)
  show "stored_word (slot_read R a k h) = slot_word (rw_lookup R (slot_key a k) (h_storageDB h))"
    unfolding e l by (simp add: slot_word_def stored_word_def)
  show "write_status (slot_read R a k h) v = slot_status (rw_lookup R (slot_key a k) (h_storageDB h)) v"
    unfolding e l using v by (auto simp: slot_status_def write_status_def read_slot_def)
qed

context rocks begin

lemma get_storage_answer:
  assumes "host_wf h" and "length a = 20" and "length k = 32"
  shows "fst (get_storage R a k h) =
    slot_word (if read_fails R (slot_key a k) (h_storageDB h) then None else rw_content view (h_storageDB h) (slot_key a k))"
  using slot_lookup(1) [OF assms(2,3), of "replicate 32 0" R h] by (simp add: get_storage_value assms(1) rw_lookup_answer)

lemma get_balance_answer:
  assumes "host_wf h" and "length a = 20"
  shows "fst (get_balance R a h) = balance_word
    (if read_fails R (balanceKey (hexEncode a)) (h_storageDB h) then None
     else rw_content view (h_storageDB h) (balanceKey (hexEncode a)))"
  using assms
  by (auto simp: get_balance_value getBalance_lookup balance_word_def rw_lookup_answer split: option.split)

end

section \<open>Properties\<close>

text \<open>C34: a storage write is exact. When it succeeds, one entry of the database changes, to the
  word written, and the status says whether the slot was missing, cleared, unchanged or
  modified; when it fails no entry changes, the status is \<^verbatim>\<open>UNCHANGED\<close> and the error flag
  is set. So a slot read afterwards is the word written, or for any other slot what its entry
  held, and every balance is what its entry held. Reads may fail (\<open>read_fails\<close>): a slot or a
  balance whose read RocksDB answers with an error reads as 0, and when the read of the old
  value fails the status is that of a missing slot, whatever the slot held. Cleared slots are
  kept as records of zeros, so they count as present for the next write.
\<close>

theorem set_storage_exact:
  assumes R: "rocks R view" and wf: "host_wf h"
    and len: "length a = 20" "length k = 32" "length v = 32" "length b = 20" "length l = 32"
    and set: "set_storage R a k v h = (st, h')"
    and old: "old = rw_content view (h_storageDB h)"
  shows "host_wf h' \<and>
    (if fst (putContractStorage R (hexEncode a) (hexEncode k) (hexEncode v) (h_storageDB h)) then
       rw_content view (h_storageDB h') = old(slot_key a k := Some (hexEncode v)) \<and>
       st = slot_status (if read_fails R (slot_key a k) (h_storageDB h) then None else old (slot_key a k)) v \<and>
       h_storageErrorOccurred h' = h_storageErrorOccurred h
     else
       rw_content view (h_storageDB h') = old \<and> st = STORAGE_UNCHANGED \<and> h_storageErrorOccurred h') \<and>
    fst (get_storage R b l h') =
      (if read_fails R (slot_key b l) (h_storageDB h') then replicate 32 0
       else if fst (putContractStorage R (hexEncode a) (hexEncode k) (hexEncode v) (h_storageDB h)) \<and> b = a \<and> l = k
       then v
       else slot_word (old (slot_key b l))) \<and>
    fst (get_balance R b h') = balance_word
      (if read_fails R (balanceKey (hexEncode b)) (h_storageDB h') then None else old (balanceKey (hexEncode b)))"
proof -
  obtain ok w where p: "putContractStorage R (hexEncode a) (hexEncode k) (hexEncode v) (h_storageDB h) = (ok, w)" by fastforce
  note e = set_storage_effect [OF wf p set]
  have wf': "host_wf h'" and db: "h_storageDB h' = w" using e by simp_all
  have "rw_store R (slot_key a k) (hexEncode v) (h_storageDB h) = (ok, w)"
    using p len by (simp add: evm_put_store slot_key_def)
  from rocks.rw_store_content [OF R this]
  have c: "rw_content view w = (if ok then old(slot_key a k := Some (hexEncode v)) else old)" by (simp add: old)
  have st: "write_status (slot_read R a k h) v =
      slot_status (if read_fails R (slot_key a k) (h_storageDB h) then None else old (slot_key a k)) v"
    using slot_lookup(2) [OF len(1-3), of R h] by (simp add: rocks.rw_lookup_answer [OF R] old)
  have "fst (get_storage R b l h') =
      (if read_fails R (slot_key b l) w then replicate 32 0 else if ok \<and> b = a \<and> l = k then v
       else slot_word (old (slot_key b l)))"
    using rocks.get_storage_answer [OF R wf' len(4,5)] len by (simp add: db c slot_word_def [of None])
  moreover have "fst (get_balance R b h') =
      balance_word (if read_fails R (balanceKey (hexEncode b)) w then None else old (balanceKey (hexEncode b)))"
    using rocks.get_balance_answer [OF R wf' len(4)] by (simp add: db c)
  ultimately show ?thesis using e st c p by (auto simp: db)
qed

text \<open>a successful self-destruction leaves the account with balance 0, gives a beneficiary
  other than the account the sum of the two balances modulo \<open>2 ^ 256\<close>, and touches no other
  balance. When the account is its own beneficiary its balance is destroyed.
\<close>

theorem selfdestruct_exact:
  assumes R: "evm_rocks R view" and wf: "host_wf h" and sd: "selfdestruct R a b h = (True, h')"
  shows "be_val (fst (get_balance R a h')) = 0 \<and>
    (a = b \<or> be_val (fst (get_balance R b h')) =
       (be_val (fst (get_balance R a h)) + be_val (fst (get_balance R b h))) mod 2 ^ 256) \<and>
    (x \<in> {a, b} \<or> be_val (fst (get_balance R x h')) = be_val (fst (get_balance R x h))) \<and>
    \<not> h_inSelfdestruct h'"
proof -
  note e = selfdestruct_effect [OF R wf sd]
  have v: "be_val (fst (get_balance R y g)) = balance_val R y (h_storageDB g)" if "host_wf g" for y and g
    using that by (simp only: get_balance_value balance_val_def)
  have wf': "host_wf h'" using e by blast
  show ?thesis unfolding v [OF wf] v [OF wf'] using e by simp
qed

section \<open>Witnesses\<close>

definition host_a :: bytes where "host_a = replicate 20 1"
definition host_b :: bytes where "host_b = replicate 20 2"

lemma host_addrs [simp]: "length host_a = 20" "length host_b = 20" "host_a \<noteq> host_b"
  by (simp_all add: host_a_def host_b_def)

definition mem_host :: "(string \<Rightarrow> string option) \<Rightarrow> (string \<Rightarrow> string option, unit) evm_host" where
  "mem_host d = MedorEVMHost (Some d) ()"

lemma mem_host_wf: "host_wf (mem_host d)" "h_storageDB (mem_host d) = Some d"
  by (simp_all add: mem_host_def MedorEVMHost_def host_wf_def)

lemma mem_putBalance:
  "length a = 20 \<Longrightarrow> putBalance mem_rocks (hexEncode a) bal (Some d) =
     (True, Some (d(balanceKey (hexEncode a) \<mapsto> bytes_str (take BALANCE_BYTES bal))))"
  by (simp add: putBalance_def rw_put_def mem_rocks_def)

text \<open>A slot that is there: it is read and reported, and reported as missing when its read fails.\<close>

definition slot_db :: "string \<Rightarrow> string option" where
  "slot_db = [slot_key host_a (replicate 32 0) \<mapsto> hexEncode (replicate 32 1)]"

lemma mem_no_read_fails: "\<not> read_fails mem_rocks k w"
  by (simp add: read_fails_def mem_rocks_def split: option.split)

lemma blind_read_fails: "read_fails blind_rocks k (Some d)"
  by (simp add: read_fails_def blind_rocks_def)

lemma set_storage_exact_witness:
  "fst (get_storage mem_rocks host_a (replicate 32 0)
     (snd (set_storage mem_rocks host_a (replicate 32 0) (replicate 32 5) (mem_host slot_db)))) = replicate 32 5 \<and>
   fst (set_storage mem_rocks host_a (replicate 32 0) (replicate 32 5) (mem_host slot_db)) = STORAGE_MODIFIED \<and>
   fst (set_storage blind_rocks host_a (replicate 32 0) (replicate 32 5) (mem_host slot_db)) = STORAGE_ADDED"
proof -
  let ?k = "replicate 32 0 :: bytes" and ?v = "replicate 32 5 :: bytes"
  have put: "fst (putContractStorage R (hexEncode host_a) (hexEncode ?k) (hexEncode ?v) (Some slot_db))"
    if "R = mem_rocks \<or> R = blind_rocks" for R
    using that by (auto simp: putContractStorage_def rw_put_def mem_rocks_def blind_rocks_def)
  have z: "\<not> isAllZero ?v" "hexEncode (replicate 32 1) \<noteq> hexEncode ?v"
    by (simp_all add: isAllZero_def list_all_iff)
  have s: "rw_content (\<lambda>d. d) (Some slot_db) (slot_key host_a ?k) = Some (hexEncode (replicate 32 1))"
    by (simp add: rw_content_def slot_db_def)
  note m = set_storage_exact [OF mem.rocks_axioms mem_host_wf(1) _ _ _ _ _ prod.collapse [symmetric] refl,
      of host_a ?k ?v host_a ?k slot_db]
  note f = set_storage_exact [OF blind.rocks_axioms mem_host_wf(1) _ _ _ _ _ prod.collapse [symmetric] refl,
      of host_a ?k ?v host_a ?k slot_db]
  show ?thesis
    using m f put z s by (simp add: mem_host_wf(2) mem_no_read_fails blind_read_fails slot_status_def)
qed

definition rich_db :: "string \<Rightarrow> string option" where
  "rich_db = [balanceKey (hexEncode host_a) \<mapsto> bytes_str (replicate 31 0 @ [7])]"

lemma rich_balance: "getBalance mem_rocks (hexEncode host_a) (Some rich_db) = (OK, replicate 31 0 @ [7])"
  by (simp add: getBalance_def rw_get_def mem_rocks_def rich_db_def BALANCE_BYTES_def)

lemma selfdestruct_exact_witness:
  "be_val (fst (get_balance mem_rocks host_a
     (snd (selfdestruct mem_rocks host_a host_b (mem_host rich_db))))) = 0"
proof -
  have "fst (selfdestruct mem_rocks host_a host_b (mem_host rich_db))"
    by (simp add: selfdestruct_def mem_host_def MedorEVMHost_def cachedAddrHex_def Let_def split_beta mem_putBalance)
  then have "selfdestruct mem_rocks host_a host_b (mem_host rich_db) =
      (True, snd (selfdestruct mem_rocks host_a host_b (mem_host rich_db)))"
    by (metis prod.collapse)
  from selfdestruct_exact [OF evm_mem.evm_rocks_axioms mem_host_wf(1) this] show ?thesis by blast
qed

end
