(* ===== verification/Receipts.thy ===== *)
theory Receipts
  imports Transaction
begin

text \<open>
  Transaction receipts and their Bloom filter: \<^verbatim>\<open>updateBloom\<close> and the receipt types of
  \<^verbatim>\<open>include/receipt.h\<close> (\<^verbatim>\<open>src/receipt.cpp\<close> repeats them) and \<^verbatim>\<open>buildReceipt\<close> of
  \<^verbatim>\<open>src/blockchain_receipts.cpp\<close>.
\<close>

record receipt_log =
  rl_address :: string
  rl_topics :: "string list"
  rl_data :: bytes

record transaction_receipt =
  tr_transactionHash :: string
  tr_blockHash :: string
  tr_blockNumber :: u64
  tr_transactionIndex :: u64
  tr_from :: string
  tr_to :: string
  tr_gasUsed :: u64
  tr_cumulativeGasUsed :: u64
  tr_logs :: "receipt_log list"
  tr_logsBloom :: bytes
  tr_status :: bool

text \<open>The position of the bit that pass \<open>i\<close> sets, computed in \<^verbatim>\<open>size_t\<close>.\<close>

definition bloom_pos :: "nat \<Rightarrow> string \<Rightarrow> nat" where
  "bloom_pos i value =
     unat (foldl (\<lambda>pos c. pos * 31 + ucast (byte_of_char c) + word_of_nat i) (0 :: u64) value) mod (256 * 8)"

definition bloom_set :: "nat \<Rightarrow> bytes \<Rightarrow> bytes" where
  "bloom_set pos bloom = bloom[pos div 8 := (bloom ! (pos div 8)) OR word_of_nat (2 ^ (pos mod 8))]"

definition updateBloom :: "bytes \<Rightarrow> string \<Rightarrow> bytes" where
  "updateBloom bloom value = foldl (\<lambda>b i. bloom_set (bloom_pos i value) b) bloom [0..<3]"

definition buildReceipt ::
    "transaction \<Rightarrow> string \<Rightarrow> u64 \<Rightarrow> u64 \<Rightarrow> u64 \<Rightarrow> u64 \<Rightarrow> bool \<Rightarrow> receipt_log list \<Rightarrow> transaction_receipt" where
  "buildReceipt tx blockHash blockNumber txIndex cumulativeGas gasUsed success logs =
     \<lparr>tr_transactionHash = tx_txHash tx, tr_blockHash = blockHash, tr_blockNumber = blockNumber,
      tr_transactionIndex = txIndex, tr_from = [], tr_to = tx_toAddress tx, tr_gasUsed = gasUsed,
      tr_cumulativeGasUsed = cumulativeGas, tr_logs = logs,
      tr_logsBloom = foldl (\<lambda>b log. foldl updateBloom (updateBloom b (rl_address log)) (rl_topics log))
        (replicate 256 0) logs,
      tr_status = success\<rparr>"

text \<open>
  \<^verbatim>\<open>src/bloom_utils.cpp\<close> has a second filter, over the first six bytes of a 32-byte digest.
  Its four-argument \<^verbatim>\<open>keccak\<close> is declared nowhere in the program: it is the parameter
  \<open>keccak\<close>.
\<close>

definition digest_bit :: "bytes \<Rightarrow> nat \<Rightarrow> nat" where
  "digest_bit hash i =
     unat ((push_bit 8 (ucast (hash ! (i * 2))) OR ucast (hash ! (i * 2 + 1))) AND 2047 :: u16)"

definition updateBloom_digest :: "(bytes \<Rightarrow> bytes) \<Rightarrow> bytes \<Rightarrow> bytes \<Rightarrow> bytes" where
  "updateBloom_digest keccak b data =
     (let hash = keccak data in foldl (\<lambda>b i. bloom_set (digest_bit hash i) b) b [0..<3])"

section \<open>No false negatives\<close>

text \<open>The question a filter of logs asks of a Bloom field.\<close>

definition bit_set :: "bytes \<Rightarrow> nat \<Rightarrow> bool" where
  "bit_set bloom pos \<longleftrightarrow> bit (bloom ! (pos div 8)) (pos mod 8)"

definition may_contain :: "bytes \<Rightarrow> string \<Rightarrow> bool" where
  "may_contain bloom value \<longleftrightarrow> (\<forall>i \<in> {0..<3}. bit_set bloom (bloom_pos i value))"

lemma bloom_pos_less: "bloom_pos i v < 2048"
  by (simp add: bloom_pos_def)

lemma length_bloom_set [simp]: "length (bloom_set p b) = length b"
  by (simp add: bloom_set_def)

lemma bit_one_byte: "n < 8 \<Longrightarrow> bit (word_of_nat (2 ^ m) :: u8) n \<longleftrightarrow> n = m"
proof -
  assume n: "n < 8"
  have "(word_of_nat (2 ^ m) :: u8) = 2 ^ m" by simp
  then show ?thesis using n by (simp add: bit_exp_iff)
qed

lemma bit_set_bloom_set:
  assumes "length b = 256" and "q < 2048"
  shows "bit_set (bloom_set q b) p \<longleftrightarrow> bit_set b p \<or> p = q"
proof -
  have m: "p mod 8 < 8" by simp
  have l: "q div 8 < length b" using assms by (simp add: less_mult_imp_div_less)
  show ?thesis
  proof (cases "p div 8 = q div 8")
    case True
    have "p = q \<longleftrightarrow> p mod 8 = q mod 8" using True by (metis div_mult_mod_eq)
    then show ?thesis
      using True l bit_one_byte [OF m] by (simp add: bit_set_def bloom_set_def bit_or_iff)
  next
    case False
    then show ?thesis by (auto simp: bit_set_def bloom_set_def)
  qed
qed

lemma updateBloom_bits:
  assumes "length b = 256"
  shows "length (updateBloom b v) = 256"
    and "bit_set (updateBloom b v) p \<longleftrightarrow> bit_set b p \<or> (\<exists>i \<in> {0..<3}. p = bloom_pos i v)"
proof -
  have u: "[0..<3] = [0, 1, 2 :: nat]" by (simp add: upt_rec)
  have s: "{0..<3} = {0, 1, 2 :: nat}" by auto
  show "length (updateBloom b v) = 256" using assms by (simp add: updateBloom_def u)
  show "bit_set (updateBloom b v) p \<longleftrightarrow> bit_set b p \<or> (\<exists>i \<in> {0..<3}. p = bloom_pos i v)"
    unfolding updateBloom_def u s using assms by (auto simp: bit_set_bloom_set bloom_pos_less)
qed

lemma digest_bit_less: "digest_bit hash i < 2048"
proof -
  have "(2047 :: u16) = mask 11" by (simp add: mask_eq_exp_minus_1)
  then have "digest_bit hash i = unat (take_bit 11 (push_bit 8 (ucast (hash ! (i * 2))) OR ucast (hash ! (i * 2 + 1)) :: u16))"
    by (simp only: digest_bit_def take_bit_eq_mask)
  also have "\<dots> < 2 ^ 11" by (simp only: unsigned_take_bit_eq take_bit_nat_less_exp)
  finally show ?thesis by simp
qed

lemma updateBloom_digest_bits:
  assumes "length b = 256"
  shows "bit_set (updateBloom_digest keccak b d) p \<longleftrightarrow> bit_set b p \<or> (\<exists>i \<in> {0..<3}. p = digest_bit (keccak d) i)"
proof -
  have u: "[0..<3] = [0, 1, 2 :: nat]" by (simp add: upt_rec)
  have s: "{0..<3} = {0, 1, 2 :: nat}" by auto
  show ?thesis
    unfolding updateBloom_digest_def u s using assms by (auto simp: Let_def bit_set_bloom_set digest_bit_less)
qed

text \<open>The values fed to a Bloom field, one after the other.\<close>

definition log_values :: "receipt_log list \<Rightarrow> string list" where
  "log_values logs = concat (map (\<lambda>log. rl_address log # rl_topics log) logs)"

lemma receipt_bloom:
  "tr_logsBloom (buildReceipt tx bh n i c g s logs) = foldl updateBloom (replicate 256 0) (log_values logs)"
proof -
  have "foldl (\<lambda>b log. foldl updateBloom (updateBloom b (rl_address log)) (rl_topics log)) b0 logs =
      foldl updateBloom b0 (log_values logs)" for b0
    by (induction logs arbitrary: b0) (simp_all add: log_values_def)
  then show ?thesis by (simp add: buildReceipt_def)
qed

lemma bloom_fold:
  "length b = 256 \<Longrightarrow> length (foldl updateBloom b vs) = 256 \<and>
   (bit_set (foldl updateBloom b vs) p \<longleftrightarrow> bit_set b p \<or> (\<exists>v \<in> set vs. \<exists>i \<in> {0..<3}. p = bloom_pos i v))"
  by (induction vs arbitrary: b) (auto simp: updateBloom_bits)

lemma bit_set_zero: "\<not> bit_set (replicate 256 0) p"
  if "p < 2048" for p
  using that by (simp add: bit_set_def less_mult_imp_div_less)

text \<open>
  a receipt's Bloom field has no false negatives and no stray bits: every address and
  every topic of its logs is found in it, and a bit below 2048 is set exactly if one of the
  three hash passes of one of these values sets it.
\<close>

theorem receipt_bloom_exact:
  assumes p: "p < 2048"
  shows "(bit_set (tr_logsBloom (buildReceipt tx bh n i c g s logs)) p \<longleftrightarrow>
      (\<exists>v \<in> set (log_values logs). \<exists>j \<in> {0..<3}. p = bloom_pos j v)) \<and>
    list_all (may_contain (tr_logsBloom (buildReceipt tx bh n i c g s logs))) (log_values logs)"
proof -
  have "length (replicate 256 (0 :: u8)) = 256" by simp
  note b = bloom_fold [OF this, of "log_values logs"]
  show ?thesis
    using b p bit_set_zero bloom_pos_less by (auto simp: receipt_bloom list_all_iff may_contain_def)
qed

lemma receipt_bloom_exact_witness:
  "may_contain (tr_logsBloom (buildReceipt default_tx ''b'' 1 0 0 0 True
      [\<lparr>rl_address = ''a'', rl_topics = [''t''], rl_data = []\<rparr>])) ''t''"
  using receipt_bloom_exact [of 0 default_tx "''b''" 1 0 0 0 True "[\<lparr>rl_address = ''a'', rl_topics = [''t''], rl_data = []\<rparr>]"]
  by (simp add: log_values_def)

end
