(* ===== verification/Consensus.thy ===== *)
theory Consensus
  imports Block "HOL-Library.Signed_Division"
begin

text \<open>
  \<^verbatim>\<open>include/consensus.h\<close>, \<^verbatim>\<open>src/consensus.cpp\<close> and \<^verbatim>\<open>doubleSHA256\<close> of \<^verbatim>\<open>src/crypto.cpp\<close>:
  the older proof of work over the printed header, and the adjustment of the base fee.

  SHA-256 is OpenSSL's: the parameter \<open>sha256\<close>. \<open>Consensus::validateBlock\<close> and
  \<open>validateChain\<close> read members that \<open>Block\<close> and \<open>Blockchain\<close> do not have (\<^verbatim>\<open>index\<close>,
  \<^verbatim>\<open>blocks\<close>) and belong to a class that is declared nowhere; they are not modelled.
\<close>

section \<open>Proof of work on the printed header\<close>

definition doubleSHA256 :: "(bytes \<Rightarrow> bytes) \<Rightarrow> string \<Rightarrow> string" where
  "doubleSHA256 sha256 input =
     (let hash1 = sha256 (str_bytes input);
          hash2 = sha256 (take 32 hash1)
      in hex_bytes (take 32 hash2))"

definition targetString :: "nat \<Rightarrow> string" where
  "targetString difficulty = replicate difficulty (CHR ''0'')"

definition header_hash :: "(bytes \<Rightarrow> bytes) \<Rightarrow> block \<Rightarrow> string" where
  "header_hash sha256 b = doubleSHA256 sha256 (headerToString b)"

text \<open>The loop runs until the hash begins with the target; \<open>None\<close> means it never ends.\<close>

partial_function (option) mineBlock_loop :: "(bytes \<Rightarrow> bytes) \<Rightarrow> nat \<Rightarrow> block \<Rightarrow> block option" where
  "mineBlock_loop sha256 difficulty b =
     (if take difficulty (blk_hash b) \<noteq> targetString difficulty then
        mineBlock_loop sha256 difficulty
          (let b = b\<lparr>blk_nonce := blk_nonce b + 1\<rparr> in b\<lparr>blk_hash := header_hash sha256 b\<rparr>)
      else Some b)"

definition pow_mineBlock :: "(bytes \<Rightarrow> bytes) \<Rightarrow> nat \<Rightarrow> block \<Rightarrow> block option" where
  "pow_mineBlock sha256 difficulty b =
     (let b = b\<lparr>blk_nonce := 0\<rparr> in mineBlock_loop sha256 difficulty (b\<lparr>blk_hash := header_hash sha256 b\<rparr>))"

definition pow_validateBlock :: "(bytes \<Rightarrow> bytes) \<Rightarrow> nat \<Rightarrow> block \<Rightarrow> bool" where
  "pow_validateBlock sha256 difficulty b = (take difficulty (header_hash sha256 b) = targetString difficulty)"

section \<open>The base fee\<close>



section \<open>Mining ends exactly when there is a solution\<close>

abbreviation at_nonce :: "block \<Rightarrow> u64 \<Rightarrow> block" where
  "at_nonce b n \<equiv> b\<lparr>blk_nonce := n\<rparr>"

definition mined :: "(bytes \<Rightarrow> bytes) \<Rightarrow> block \<Rightarrow> u64 \<Rightarrow> block" where
  "mined sha256 b n = (at_nonce b n)\<lparr>blk_hash := header_hash sha256 (at_nonce b n)\<rparr>"

lemma header_hash_hash [simp]:
  "header_hash sha256 (b\<lparr>blk_hash := h\<rparr>) = header_hash sha256 b"
  "header_hash sha256 (b\<lparr>blk_hash := h, blk_nonce := n\<rparr>) = header_hash sha256 (at_nonce b n)"
  by (simp_all add: header_hash_def headerToString_def)

lemma loop_at:
  "mineBlock_loop sha256 d (mined sha256 b n) =
     (if pow_validateBlock sha256 d (at_nonce b n) then Some (mined sha256 b n)
      else mineBlock_loop sha256 d (mined sha256 b (n + 1)))"
  by (subst mineBlock_loop.simps) (simp add: mined_def pow_validateBlock_def Let_def)

lemma mineBlock_start: "pow_mineBlock sha256 d b = mineBlock_loop sha256 d (mined sha256 b 0)"
  by (simp add: pow_mineBlock_def mined_def Let_def)

text \<open>A loop that returns has passed over nonces that do not solve and stops at one that does.\<close>

definition stops_at :: "(bytes \<Rightarrow> bytes) \<Rightarrow> nat \<Rightarrow> block \<Rightarrow> u64 \<Rightarrow> nat \<Rightarrow> bool" where
  "stops_at sha256 d b n k \<longleftrightarrow> pow_validateBlock sha256 d (at_nonce b (n + word_of_nat k)) \<and>
     (\<forall>j<k. \<not> pow_validateBlock sha256 d (at_nonce b (n + word_of_nat j)))"

lemma stops_at_Suc:
  "\<not> pow_validateBlock sha256 d (at_nonce b n) \<Longrightarrow> stops_at sha256 d b n (Suc k) \<longleftrightarrow> stops_at sha256 d b (n + 1) k"
  by (auto simp: stops_at_def less_Suc_eq_0_disj algebra_simps)

lemma loop_some:
  "mineBlock_loop sha256 d c = Some b' \<Longrightarrow>
   \<forall>b n. c = mined sha256 b n \<longrightarrow> (\<exists>k. b' = mined sha256 b (n + word_of_nat k) \<and> stops_at sha256 d b n k)"
proof (induction rule: mineBlock_loop.raw_induct [rotated 1, consumes 1, case_names step])
  case (step loop sha256 d c b')
  show ?case
  proof (intro allI impI)
    fix b n assume c: "c = mined sha256 b n"
    show "\<exists>k. b' = mined sha256 b (n + word_of_nat k) \<and> stops_at sha256 d b n k"
    proof (cases "pow_validateBlock sha256 d (at_nonce b n)")
      case True
      then show ?thesis
        using step c by (intro exI [of _ 0]) (auto simp: mined_def pow_validateBlock_def stops_at_def)
    next
      case False
      then have "loop sha256 d (mined sha256 b (n + 1)) = Some b'"
        using step(2) c by (simp add: mined_def pow_validateBlock_def Let_def)
      from step(1) [OF this] obtain k where
        "b' = mined sha256 b (n + 1 + word_of_nat k)" "stops_at sha256 d b (n + 1) k" by blast
      then show ?thesis
        using False by (intro exI [of _ "Suc k"]) (simp add: stops_at_Suc algebra_simps)
    qed
  qed
qed

lemma loop_reaches:
  "pow_validateBlock sha256 d (at_nonce b (n + word_of_nat k)) \<Longrightarrow> \<exists>b'. mineBlock_loop sha256 d (mined sha256 b n) = Some b'"
proof (induction k arbitrary: n)
  case (Suc k)
  have "\<exists>b'. mineBlock_loop sha256 d (mined sha256 b (n + 1)) = Some b'"
    using Suc.IH [of "n + 1"] Suc.prems by (simp add: algebra_simps)
  then show ?case by (simp add: loop_at)
qed (simp add: loop_at)

lemma stops_at_least:
  assumes "stops_at sha256 d b 0 k"
  shows "k < 2 ^ 64" and "m < word_of_nat k \<Longrightarrow> \<not> pow_validateBlock sha256 d (at_nonce b m)"
proof -
  have w: "(word_of_nat (k mod 2 ^ 64) :: u64) = word_of_nat k"
    by (simp add: word_unat_eq_iff unat_of_nat)
  show k: "k < 2 ^ 64"
  proof (rule ccontr)
    assume "\<not> k < 2 ^ 64"
    moreover have "k mod 2 ^ 64 < 2 ^ 64" by (rule mod_less_divisor) simp
    ultimately have "k mod 2 ^ 64 < k" by linarith
    then show False using assms w by (auto simp: stops_at_def)
  qed
  assume "m < word_of_nat k"
  then have "unat m < k" using k by (simp add: word_less_nat_alt unat_of_nat)
  then show "\<not> pow_validateBlock sha256 d (at_nonce b m)"
    using assms by (auto simp: stops_at_def dest!: spec [of _ "unat m"])
qed

lemma header_hash_length: "length (header_hash sha256 b) \<le> 64"
  by (simp add: header_hash_def doubleSHA256_def)

text \<open>
  C32: mining on the printed header ends exactly if some nonce solves the target; the block
  it returns differs from the given one in nonce and hash only, carries its own hash, is
  accepted by the validator and has the least solving nonce. With a difficulty beyond the
  64 digits of a hash no block is ever accepted, so mining never ends.
\<close>

theorem pow_mineBlock_correct:
  "(pow_mineBlock sha256 d b \<noteq> None \<longleftrightarrow> (\<exists>n. pow_validateBlock sha256 d (at_nonce b n))) \<and>
   (case pow_mineBlock sha256 d b of
      None \<Rightarrow> True
    | Some b' \<Rightarrow> b' = mined sha256 b (blk_nonce b') \<and> pow_validateBlock sha256 d b' \<and>
        list_all (\<lambda>m. \<not> pow_validateBlock sha256 d (at_nonce b (word_of_nat m))) [0..<unat (blk_nonce b')]) \<and>
   (d \<le> 64 \<or> pow_mineBlock sha256 d b = None)"
proof (intro conjI)
  have found: "\<exists>k. b' = mined sha256 b (word_of_nat k) \<and> stops_at sha256 d b 0 k"
    if "pow_mineBlock sha256 d b = Some b'" for b'
    using loop_some [OF that [unfolded mineBlock_start]] by force
  have valid_at: "pow_validateBlock sha256 d (mined sha256 b n) = pow_validateBlock sha256 d (at_nonce b n)" for n
    by (simp add: pow_validateBlock_def mined_def)
  have nonce: "blk_nonce (mined sha256 b n) = n" for n by (simp add: mined_def)
  show ends: "pow_mineBlock sha256 d b \<noteq> None \<longleftrightarrow> (\<exists>n. pow_validateBlock sha256 d (at_nonce b n))"
  proof
    assume "pow_mineBlock sha256 d b \<noteq> None"
    then show "\<exists>n. pow_validateBlock sha256 d (at_nonce b n)" using found by (auto simp: stops_at_def)
  next
    assume "\<exists>n. pow_validateBlock sha256 d (at_nonce b n)"
    then obtain n where n: "pow_validateBlock sha256 d (at_nonce b n)" by blast
    have "0 + word_of_nat (unat n) = n" by (metis add_0 of_nat_unat ucast_id)
    then show "pow_mineBlock sha256 d b \<noteq> None"
      using n loop_reaches [where b = b and n = 0 and k = "unat n"] by (auto simp: mineBlock_start)
  qed
  show "case pow_mineBlock sha256 d b of
      None \<Rightarrow> True
    | Some b' \<Rightarrow> b' = mined sha256 b (blk_nonce b') \<and> pow_validateBlock sha256 d b' \<and>
        list_all (\<lambda>m. \<not> pow_validateBlock sha256 d (at_nonce b (word_of_nat m))) [0..<unat (blk_nonce b')]"
  proof (cases "pow_mineBlock sha256 d b")
    case (Some b')
    from found [OF Some] obtain k where b': "b' = mined sha256 b (word_of_nat k)" and k: "stops_at sha256 d b 0 k" by blast
    have u: "unat (blk_nonce b') = k" using stops_at_least(1) [OF k] by (simp add: b' nonce unat_of_nat)
    show ?thesis using k by (simp add: Some u list_all_iff stops_at_def) (simp add: b' nonce valid_at)
  qed simp
  show "d \<le> 64 \<or> pow_mineBlock sha256 d b = None"
  proof (rule disjCI, rule ccontr)
    assume "pow_mineBlock sha256 d b \<noteq> None" and "\<not> d \<le> 64"
    then obtain n where "pow_validateBlock sha256 d (at_nonce b n)" using ends by blast
    then have "length (take d (header_hash sha256 (at_nonce b n))) = d"
      by (simp only: pow_validateBlock_def targetString_def length_replicate)
    then show False using header_hash_length [of sha256 "at_nonce b n"] \<open>\<not> d \<le> 64\<close> by simp
  qed
qed

text \<open>
  What the hash covers: not the transactions, the data or the reward, and without
  separators between the printed numbers.
\<close>

lemma header_hash_ignores: "header_hash sha256 (b\<lparr>blk_transactions := txs, blk_data := d, blk_reward := r\<rparr>) = header_hash sha256 b"
  by (simp add: header_hash_def headerToString_def)

section \<open>The base fee on small numbers\<close>











lemma uint_u64_eq_0: "uint (w :: u64) = 0 \<longleftrightarrow> w = 0"
  by (simp add: word_uint_eq_iff)



end
