(* ===== verification/Miner.thy ===== *)
theory Miner
  imports Mempool Ledger
begin

text \<open>
  The miner, \<^verbatim>\<open>include/miner.h\<close> and \<^verbatim>\<open>src/miner.cpp\<close>: blocks of the coinbase alone, and
  blocks of the pool's transactions that pay the base fee. The component joins the chain
  (theory \<open>Chain\<close>) and the transaction pool (theory \<open>Mempool\<close>).
\<close>

definition mineMedor ::
    "('d, 'l, 'u) chain_ext \<Rightarrow> chain_clock \<Rightarrow> string \<Rightarrow> ('d, 'l, 'u) blockchain \<Rightarrow> ('d, 'l, 'u) blockchain" where
  "mineMedor X ck minerAddress bc = snd (addBlock X ck minerAddress [] bc)"

text \<open>The transactions taken from the pool, with their hash computed again.\<close>

definition select_paying :: "u64 \<Rightarrow> transaction list \<Rightarrow> transaction list" where
  "select_paying baseFee pendingTxs =
     foldl (\<lambda>validTxs tx.
         let tx = fst (calculateHash tx)
         in if effectiveFee tx baseFee \<ge> baseFee then validTxs @ [tx] else validTxs)
       [] pendingTxs"

definition mineWithMempool ::
    "('d, 'l, 'u) chain_ext \<Rightarrow> chain_clock \<Rightarrow> string \<Rightarrow> u64 \<Rightarrow> mempool \<Rightarrow> ('d, 'l, 'u) blockchain \<Rightarrow>
     ('d, 'l, 'u) blockchain \<times> mempool" where
  "mineWithMempool X ck minerAddress baseFee m bc =
     (let pendingTxs = getTransactions m;
          validTxs = select_paying baseFee pendingTxs;
          (ok, bc) = addBlock X ck minerAddress validTxs bc
      in (bc, removeConfirmed validTxs m))"

section \<open>What is mined and what is removed\<close>

lemma select_paying_eq:
  "select_paying baseFee txs = filter (\<lambda>tx. baseFee \<le> effectiveFee tx baseFee) (map (fst \<circ> calculateHash) txs)"
proof -
  have "foldl (\<lambda>validTxs tx. let tx = fst (calculateHash tx)
         in if effectiveFee tx baseFee \<ge> baseFee then validTxs @ [tx] else validTxs) acc txs =
      acc @ filter (\<lambda>tx. baseFee \<le> effectiveFee tx baseFee) (map (fst \<circ> calculateHash) txs)" for acc
    by (induction txs arbitrary: acc) (simp_all add: Let_def)
  then show ?thesis by (simp add: select_paying_def)
qed

lemma effectiveFee_hash: "effectiveFee (fst (calculateHash tx)) f = effectiveFee tx f"
  by (simp add: effectiveFee_def calculateHash_eq)

lemma removeConfirmed_entries:
  "mp_entries (removeConfirmed txs m) = filter (\<lambda>(h, e). h \<notin> tx_txHash ` set txs) (mp_entries m)"
  unfolding removeConfirmed_def
  by (induction txs arbitrary: m) (auto simp: map_erase_def case_prod_unfold count_confirmed_def intro: filter_cong)

text \<open>Every pooled transaction is stored under the hash its fields give.\<close>

definition hashed_pool :: "mempool \<Rightarrow> bool" where
  "hashed_pool m \<longleftrightarrow> distinct (map fst (mp_entries m)) \<and>
     list_all (\<lambda>(h, e). tx_txHash (fst (calculateHash (me_tx e))) = h) (mp_entries m)"

lemma removed_hashes:
  assumes "hashed_pool m"
  shows "mp_entries (removeConfirmed (select_paying baseFee (getTransactions m)) m) =
    filter (\<lambda>(h, e). effectiveFee (me_tx e) baseFee < baseFee) (mp_entries m)"
proof -
  have h: "tx_txHash (fst (calculateHash (me_tx e))) = h" if "(h, e) \<in> set (mp_entries m)" for h e
    using assms that by (auto simp: hashed_pool_def list_all_iff)
  have key: "h \<in> tx_txHash ` set (select_paying baseFee (getTransactions m)) \<longleftrightarrow> baseFee \<le> effectiveFee (me_tx e) baseFee"
    if e: "(h, e) \<in> set (mp_entries m)" for h e
  proof
    assume "h \<in> tx_txHash ` set (select_paying baseFee (getTransactions m))"
    then obtain h' e' where e': "(h', e') \<in> set (mp_entries m)" "h = tx_txHash (fst (calculateHash (me_tx e')))"
      "baseFee \<le> effectiveFee (me_tx e') baseFee"
      by (auto simp: select_paying_eq getTransactions_def effectiveFee_hash)
    then have "h' = h" using h by simp
    with e e' assms have "e' = e" by (auto simp: hashed_pool_def dest: eq_key_imp_eq_value)
    with e'(3) show "baseFee \<le> effectiveFee (me_tx e) baseFee" by simp
  next
    assume "baseFee \<le> effectiveFee (me_tx e) baseFee"
    then have "fst (calculateHash (me_tx e)) \<in> set (select_paying baseFee (getTransactions m))"
      using e by (force simp: select_paying_eq getTransactions_def effectiveFee_hash)
    then show "h \<in> tx_txHash ` set (select_paying baseFee (getTransactions m))" using h [OF e] by force
  qed
  show ?thesis
    unfolding removeConfirmed_entries
  proof (rule filter_cong [OF refl])
    fix x assume "x \<in> set (mp_entries m)"
    then obtain h e where x: "x = (h, e)" "(h, e) \<in> set (mp_entries m)" by (metis surj_pair)
    show "(case x of (h, e) \<Rightarrow> h \<notin> tx_txHash ` set (select_paying baseFee (getTransactions m))) =
        (case x of (h, e) \<Rightarrow> effectiveFee (me_tx e) baseFee < baseFee)"
      using key [OF x(2)] by (simp only: x(1) prod.case not_le [symmetric])
  qed
qed

text \<open>
  mining from the pool offers the chain exactly the pooled transactions whose effective
  fee reaches the base fee, and takes exactly these out of the pool, whether or not the
  chain accepted the block: when \<^verbatim>\<open>addBlock\<close> refuses, the chain and the supply stay as they
  are and the transactions are lost.
\<close>

theorem mineWithMempool_removes_paying:
  assumes "hashed_pool m" and "mineWithMempool X ck minerAddress baseFee m bc = (bc', m')"
  shows "mp_entries m' = filter (\<lambda>(h, e). effectiveFee (me_tx e) baseFee < baseFee) (mp_entries m) \<and>
    (let txs = filter (\<lambda>tx. baseFee \<le> effectiveFee tx baseFee) (map (fst \<circ> calculateHash) (getTransactions m))
     in if fst (addBlock X ck minerAddress txs bc)
        then \<exists>b. bc_chain bc' = bc_chain bc @ [b] \<and> blk_transactions b = block_txs ck minerAddress txs bc
        else bc_chain bc' = bc_chain bc \<and> bc_totalSupply bc' = bc_totalSupply bc)"
proof -
  let ?txs = "filter (\<lambda>tx. baseFee \<le> effectiveFee tx baseFee) (map (fst \<circ> calculateHash) (getTransactions m))"
  obtain ok bc1 where a: "addBlock X ck minerAddress ?txs bc = (ok, bc1)" by fastforce
  have r: "bc' = bc1" "m' = removeConfirmed (select_paying baseFee (getTransactions m)) m"
    using assms(2) a by (simp_all add: mineWithMempool_def select_paying_eq Let_def)
  have "\<exists>b. bc_chain bc1 = bc_chain bc @ [b] \<and> blk_transactions b = block_txs ck minerAddress ?txs bc" if ok
    using addBlock_committed [of X ck minerAddress ?txs bc bc1] a that mined_block by fastforce
  moreover have "bc_chain bc1 = bc_chain bc \<and> bc_totalSupply bc1 = bc_totalSupply bc" if "\<not> ok"
    using addBlock_refused [of X ck minerAddress ?txs bc bc1] a that by simp
  ultimately show ?thesis
    unfolding r Let_def a fst_conv using removed_hashes [OF assms(1)] by simp
qed

definition pooled_tx :: transaction where
  "pooled_tx = fst (calculateHash (default_tx\<lparr>tx_maxFeePerGas := 9, tx_maxPriorityFeePerGas := 1\<rparr>))"

definition one_tx_pool :: mempool where
  "one_tx_pool = (empty_mempool default_mempool_config)
     \<lparr>mp_entries := [(tx_txHash pooled_tx, \<lparr>me_tx = pooled_tx, me_addedAt = 0, me_effectiveFee = 4, me_txBytes = 100\<rparr>)]\<rparr>"

lemma one_tx_pool_hashed: "hashed_pool one_tx_pool"
  by (simp add: hashed_pool_def one_tx_pool_def pooled_tx_def calculateHash_eq tx_preimage_def)

lemma mineWithMempool_removes_paying_witness:
  "mp_entries (snd (mineWithMempool mem_ext still_clock [] 3 one_tx_pool easy_chain)) = [] \<and>
   bc_chain (fst (mineWithMempool mem_ext still_clock [] 3 one_tx_pool easy_chain)) = bc_chain easy_chain"
proof -
  have "\<not> effectiveFee pooled_tx 3 < 3"
    unfolding pooled_tx_def effectiveFee_hash by (simp add: effectiveFee_def default_tx_def)
  moreover have "\<not> fst (addBlock mem_ext still_clock [] txs easy_chain)" for txs
    by (simp add: addBlock_def)
  ultimately show ?thesis
    using mineWithMempool_removes_paying [OF one_tx_pool_hashed, of mem_ext still_clock "[]" 3 easy_chain]
    by (auto simp: Let_def one_tx_pool_def prod_eq_iff)
qed

end
