(* ===== verification/Sha256.thy ===== *)
theory Sha256
  imports Prelude
begin

unbundle bit_operations_syntax

text \<open>
  The SHA-256 of \<^verbatim>\<open>src/src/network.cpp\<close> (\<^verbatim>\<open>sha256hex\<close>), the checksum of the peer store
  and of the queue of pending messages: the code's rotation, padding, message schedule and
  rounds, and their equivalence with the formulation of FIPS 180-4.
\<close>

section \<open>The code\<close>

definition sha256_rotr :: "u32 \<Rightarrow> nat \<Rightarrow> u32" where
  "sha256_rotr x n = drop_bit n x OR push_bit (32 - n) x"

text \<open>The round constants, eight to a row.\<close>

definition sha_K1 :: "u32 list" where
  "sha_K1 = [0x428a2f98, 0x71374491, 0xb5c0fbcf, 0xe9b5dba5, 0x3956c25b, 0x59f111f1, 0x923f82a4, 0xab1c5ed5]"

definition sha_K2 :: "u32 list" where
  "sha_K2 = [0xd807aa98, 0x12835b01, 0x243185be, 0x550c7dc3, 0x72be5d74, 0x80deb1fe, 0x9bdc06a7, 0xc19bf174]"

definition sha_K3 :: "u32 list" where
  "sha_K3 = [0xe49b69c1, 0xefbe4786, 0x0fc19dc6, 0x240ca1cc, 0x2de92c6f, 0x4a7484aa, 0x5cb0a9dc, 0x76f988da]"

definition sha_K4 :: "u32 list" where
  "sha_K4 = [0x983e5152, 0xa831c66d, 0xb00327c8, 0xbf597fc7, 0xc6e00bf3, 0xd5a79147, 0x06ca6351, 0x14292967]"

definition sha_K5 :: "u32 list" where
  "sha_K5 = [0x27b70a85, 0x2e1b2138, 0x4d2c6dfc, 0x53380d13, 0x650a7354, 0x766a0abb, 0x81c2c92e, 0x92722c85]"

definition sha_K6 :: "u32 list" where
  "sha_K6 = [0xa2bfe8a1, 0xa81a664b, 0xc24b8b70, 0xc76c51a3, 0xd192e819, 0xd6990624, 0xf40e3585, 0x106aa070]"

definition sha_K7 :: "u32 list" where
  "sha_K7 = [0x19a4c116, 0x1e376c08, 0x2748774c, 0x34b0bcb5, 0x391c0cb3, 0x4ed8aa4a, 0x5b9cca4f, 0x682e6ff3]"

definition sha_K8 :: "u32 list" where
  "sha_K8 = [0x748f82ee, 0x78a5636f, 0x84c87814, 0x8cc70208, 0x90befffa, 0xa4506ceb, 0xbef9a3f7, 0xc67178f2]"

definition sha_K :: "u32 list" where
  "sha_K = sha_K1 @ sha_K2 @ sha_K3 @ sha_K4 @ sha_K5 @ sha_K6 @ sha_K7 @ sha_K8"

type_synonym sha_state = "u32 list"

definition sha_init :: sha_state where
  "sha_init = [0x6a09e667, 0xbb67ae85, 0x3c6ef372, 0xa54ff53a, 0x510e527f, 0x9b05688c, 0x1f83d9ab, 0x5be0cd19]"

text \<open>Padding: the marker byte, zeros up to 56 modulo 64, the length in bits.\<close>

definition zeros_left :: "nat \<Rightarrow> nat" where
  "zeros_left n = (if n mod 64 \<le> 56 then 56 - n mod 64 else 120 - n mod 64)"

lemma zeros_left_Suc: "n mod 64 \<noteq> 56 \<Longrightarrow> zeros_left n = Suc (zeros_left (Suc n))"
  using mod_less_divisor [of 64 n] by (auto simp: zeros_left_def mod_Suc split: if_splits)

lemma zeros_left_0: "n mod 64 = 56 \<Longrightarrow> zeros_left n = 0"
  by (simp add: zeros_left_def)

lemma zeros_left_total: "64 dvd n + zeros_left n + 8"
proof -
  have "n + zeros_left n + 8 = 64 * (n div 64) + (n mod 64 + zeros_left n + 8)"
    by (simp add: mult_div_mod_eq)
  moreover have "n mod 64 + zeros_left n + 8 = 64 \<or> n mod 64 + zeros_left n + 8 = 128"
    using mod_less_divisor [of 64 n] by (auto simp: zeros_left_def)
  ultimately show ?thesis by (metis dvd_add dvd_triv_left dvd_refl numeral_Bit0 mult_2 one_add_one)
qed

function fill_zeros :: "bytes \<Rightarrow> bytes" where
  "fill_zeros msg = (if length msg mod 64 \<noteq> 56 then fill_zeros (msg @ [0]) else msg)"
  by pat_completeness auto
termination
  by (relation "measure (\<lambda>msg. zeros_left (length msg))") (simp_all add: zeros_left_Suc)

declare fill_zeros.simps [simp del]

definition sha_padded :: "bytes \<Rightarrow> bytes" where
  "sha_padded data =
     (let msg = fill_zeros (data @ [0x80]);
          bits = word_of_nat (length data) * 8 :: u64
      in msg @ map (\<lambda>i. ucast (drop_bit (i * 8) bits AND 0xFF)) (rev [0..<8]))"

text \<open>The schedule \<open>w[0..63]\<close> of the block at offset \<open>i\<close>.\<close>

definition sha_schedule :: "bytes \<Rightarrow> nat \<Rightarrow> u32 list" where
  "sha_schedule msg i =
     foldl (\<lambda>w j.
         let s0 = sha256_rotr (w ! (j - 15)) 7 XOR sha256_rotr (w ! (j - 15)) 18 XOR drop_bit 3 (w ! (j - 15));
             s1 = sha256_rotr (w ! (j - 2)) 17 XOR sha256_rotr (w ! (j - 2)) 19 XOR drop_bit 10 (w ! (j - 2))
         in w @ [w ! (j - 16) + s0 + w ! (j - 7) + s1])
       (map (\<lambda>j. push_bit 24 (ucast (msg ! (i + j * 4))) OR push_bit 16 (ucast (msg ! (i + j * 4 + 1)))
          OR push_bit 8 (ucast (msg ! (i + j * 4 + 2))) OR ucast (msg ! (i + j * 4 + 3))) [0..<16])
       [16..<64]"

definition sha_round :: "u32 list \<Rightarrow> sha_state \<Rightarrow> nat \<Rightarrow> sha_state" where
  "sha_round w st j =
     (let a = st ! 0; b = st ! 1; c = st ! 2; d = st ! 3; e = st ! 4; f = st ! 5; g = st ! 6; hh = st ! 7;
          S1 = sha256_rotr e 6 XOR sha256_rotr e 11 XOR sha256_rotr e 25;
          ch = (e AND f) XOR (NOT e AND g);
          tmp1 = hh + S1 + ch + sha_K ! j + w ! j;
          S0 = sha256_rotr a 2 XOR sha256_rotr a 13 XOR sha256_rotr a 22;
          maj = (a AND b) XOR (a AND c) XOR (b AND c);
          tmp2 = S0 + maj
      in [tmp1 + tmp2, a, b, c, d + tmp1, e, f, g])"

definition sha_block :: "bytes \<Rightarrow> sha_state \<Rightarrow> nat \<Rightarrow> sha_state" where
  "sha_block msg h i = map2 (+) h (foldl (sha_round (sha_schedule msg i)) h [0..<64])"

definition hex8 :: "u32 \<Rightarrow> string" where
  "hex8 v = (let s = show_hex (unat v) in replicate (8 - length s) CHR ''0'' @ s)"

definition sha256_words :: "bytes \<Rightarrow> sha_state" where
  "sha256_words data =
     (let msg = sha_padded data
      in foldl (sha_block msg) sha_init (map (\<lambda>k. 64 * k) [0..<(length msg + 63) div 64]))"

definition sha256hex :: "bytes \<Rightarrow> string" where
  "sha256hex data = concat (map hex8 (sha256_words data))"

section \<open>FIPS 180-4\<close>

definition Ch :: "u32 \<Rightarrow> u32 \<Rightarrow> u32 \<Rightarrow> u32" where
  "Ch x y z = (x AND y) OR (NOT x AND z)"

definition Maj :: "u32 \<Rightarrow> u32 \<Rightarrow> u32 \<Rightarrow> u32" where
  "Maj x y z = (x AND y) OR (x AND z) OR (y AND z)"

definition big_sigma0 :: "u32 \<Rightarrow> u32" where
  "big_sigma0 x = word_rotr 2 x XOR word_rotr 13 x XOR word_rotr 22 x"

definition big_sigma1 :: "u32 \<Rightarrow> u32" where
  "big_sigma1 x = word_rotr 6 x XOR word_rotr 11 x XOR word_rotr 25 x"

definition small_sigma0 :: "u32 \<Rightarrow> u32" where
  "small_sigma0 x = word_rotr 7 x XOR word_rotr 18 x XOR drop_bit 3 x"

definition small_sigma1 :: "u32 \<Rightarrow> u32" where
  "small_sigma1 x = word_rotr 17 x XOR word_rotr 19 x XOR drop_bit 10 x"

text \<open>The schedule of a block by recursion on its index.\<close>

fun fips_W :: "bytes \<Rightarrow> nat \<Rightarrow> u32" where
  "fips_W blk t =
     (if t < 16 then be_read (take 4 (drop (4 * t) blk))
      else small_sigma1 (fips_W blk (t - 2)) + fips_W blk (t - 7)
         + small_sigma0 (fips_W blk (t - 15)) + fips_W blk (t - 16))"

declare fips_W.simps [simp del]

fun fips_step :: "u32 \<Rightarrow> u32 \<Rightarrow> sha_state \<Rightarrow> sha_state" where
  "fips_step k w [a, b, c, d, e, f, g, h] =
     (let t1 = h + big_sigma1 e + Ch e f g + k + w; t2 = big_sigma0 a + Maj a b c
      in [t1 + t2, a, b, c, d + t1, e, f, g])"
| "fips_step k w st = st"

fun fips_rounds :: "nat \<Rightarrow> bytes \<Rightarrow> sha_state \<Rightarrow> sha_state" where
  "fips_rounds 0 blk st = st"
| "fips_rounds (Suc t) blk st = fips_step (sha_K ! t) (fips_W blk t) (fips_rounds t blk st)"

definition fips_compress :: "sha_state \<Rightarrow> bytes \<Rightarrow> sha_state" where
  "fips_compress h blk = map2 (+) h (fips_rounds 64 blk h)"

fun fips_hash :: "sha_state \<Rightarrow> bytes list \<Rightarrow> sha_state" where
  "fips_hash h [] = h"
| "fips_hash h (blk # blks) = fips_hash (fips_compress h blk) blks"

text \<open>The number of zero bytes between the marker and the length.\<close>

definition fips_zeros :: "nat \<Rightarrow> nat" where
  "fips_zeros len = (119 - len mod 64) mod 64"

definition fips_pad :: "bytes \<Rightarrow> bytes" where
  "fips_pad data = data @ 0x80 # replicate (fips_zeros (length data)) 0 @ be_enc 8 (8 * length data)"

definition blocks_of :: "bytes \<Rightarrow> bytes list" where
  "blocks_of msg = map (\<lambda>k. take 64 (drop (64 * k) msg)) [0..<length msg div 64]"

section \<open>Equivalence\<close>

lemma fill_zeros_eq: "fill_zeros msg = msg @ replicate (zeros_left (length msg)) 0"
proof (induction msg rule: fill_zeros.induct)
  case (1 msg)
  show ?case
    using 1 by (cases "length msg mod 64 = 56") (simp_all add: fill_zeros.simps [of msg] zeros_left_0 zeros_left_Suc)
qed

lemma fips_zeros_eq: "fips_zeros n = zeros_left (Suc n)"
proof -
  have small: "(119 - r) mod 64 = (if r \<le> 55 then 55 - r else 119 - r)" if "r < 64" for r :: nat
  proof (cases "r \<le> 55")
    case True
    then have "119 - r = (55 - r) + 64" by simp
    then have "(119 - r) mod 64 = (55 - r) mod 64" by (metis mod_add_self2)
    then show ?thesis using True by simp
  qed (use that in simp)
  show ?thesis
    unfolding fips_zeros_def zeros_left_def mod_Suc small [OF mod_less_divisor [OF zero_less_numeral]]
    using mod_less_divisor [of 64 n] by (auto split: if_splits)
qed

lemma sha_bits: "be_write 8 (word_of_nat n * 8 :: u64) = be_enc 8 (8 * n)"
proof -
  have "unat (word_of_nat n * 8 :: u64) = 8 * n mod 2 ^ 64"
    by (simp add: unat_word_ariths unat_of_nat mod_mult_left_eq mult.commute [of 8])
  moreover have "(256 :: nat) ^ 8 = 2 ^ 64" by simp
  ultimately show ?thesis by (metis be_write_eq be_enc_mod)
qed

lemma sha_padded_eq: "sha_padded data = fips_pad data"
proof -
  have "map (\<lambda>i. ucast (drop_bit (i * 8) b AND 0xFF)) (rev [0..<8]) = be_write 8 b" for b :: u64
    by (simp add: be_write_def ucast_and_FF mult.commute)
  then show ?thesis
    by (simp only: sha_padded_def Let_def sha_bits fill_zeros_eq fips_pad_def fips_zeros_eq) simp
qed

lemma fips_pad_length: "64 dvd length (fips_pad data)"
  using zeros_left_total [of "Suc (length data)"] by (simp add: fips_pad_def fips_zeros_eq add.commute add.left_commute)


lemma sha256_rotr_eq: "0 < n \<Longrightarrow> n < 32 \<Longrightarrow> sha256_rotr x n = word_rotr n x"
  unfolding sha256_rotr_def
  by (rule bit_word_eqI)
     (auto simp: bit_simps bit_word_rotr_iff mod_if less_imp_diff_less add.commute [of n] dest: bit_imp_le_length)

lemma sigma_eqs:
  "sha256_rotr x 7 XOR sha256_rotr x 18 XOR drop_bit 3 x = small_sigma0 x"
  "sha256_rotr x 17 XOR sha256_rotr x 19 XOR drop_bit 10 x = small_sigma1 x"
  "sha256_rotr x 2 XOR sha256_rotr x 13 XOR sha256_rotr x 22 = big_sigma0 x"
  "sha256_rotr x 6 XOR sha256_rotr x 11 XOR sha256_rotr x 25 = big_sigma1 x"
  by (simp_all add: sha256_rotr_eq small_sigma0_def small_sigma1_def big_sigma0_def big_sigma1_def)

lemma Ch_eq: "(e AND f) XOR (NOT e AND g) = Ch e f g"
  unfolding Ch_def by (rule bit_word_eqI) (auto simp: bit_simps)

lemma Maj_eq: "(a AND b) XOR (a AND c) XOR (b AND c) = Maj a b c"
  unfolding Maj_def by (rule bit_word_eqI) (auto simp: bit_simps)

lemma first_words:
  assumes "i + 64 \<le> length msg" and "j < 16"
  shows "push_bit 24 (ucast (msg ! (i + j * 4))) OR push_bit 16 (ucast (msg ! (i + j * 4 + 1)))
      OR push_bit 8 (ucast (msg ! (i + j * 4 + 2))) OR ucast (msg ! (i + j * 4 + 3))
    = fips_W (take 64 (drop i msg)) j"
proof -
  let ?k = "i + j * 4"
  have "take 4 (drop (4 * j) (take 64 (drop i msg))) = take 4 (drop ?k msg)"
    using assms by (simp add: take_drop min_def ac_simps)
  moreover have "take 4 (drop ?k msg) = [msg ! ?k, msg ! (?k + 1), msg ! (?k + 2), msg ! (?k + 3)]"
    by (rule nth_equalityI) (use assms in \<open>auto simp: less_Suc_eq numeral_eq_Suc\<close>)
  ultimately show ?thesis
    using assms(2) by (simp add: fips_W.simps [of _ j] be_word4_eq [symmetric] be_word4_def)
qed

lemma schedule_upto:
  assumes "i + 64 \<le> length msg"
  shows "foldl (\<lambda>w j.
         let s0 = sha256_rotr (w ! (j - 15)) 7 XOR sha256_rotr (w ! (j - 15)) 18 XOR drop_bit 3 (w ! (j - 15));
             s1 = sha256_rotr (w ! (j - 2)) 17 XOR sha256_rotr (w ! (j - 2)) 19 XOR drop_bit 10 (w ! (j - 2))
         in w @ [w ! (j - 16) + s0 + w ! (j - 7) + s1])
       (map (fips_W (take 64 (drop i msg))) [0..<16]) [16..<16 + n]
     = map (fips_W (take 64 (drop i msg))) [0..<16 + n]"
proof (induction n)
  case (Suc n)
  have "[0..<16 + Suc n] = [0..<16 + n] @ [16 + n]" "[16..<16 + Suc n] = [16..<16 + n] @ [16 + n]"
    by (simp_all only: add_Suc_right upt_Suc) simp_all
  moreover have "fips_W blk (16 + n) = fips_W blk n + small_sigma0 (fips_W blk (Suc n))
      + fips_W blk (9 + n) + small_sigma1 (fips_W blk (14 + n))" for blk
    by (subst fips_W.simps) (simp add: add.assoc add.commute add.left_commute)
  ultimately show ?case using Suc by (simp add: sigma_eqs Let_def)
qed simp

lemma sha_schedule_eq:
  assumes "i + 64 \<le> length msg"
  shows "sha_schedule msg i = map (fips_W (take 64 (drop i msg))) [0..<64]"
proof -
  have "map (\<lambda>j. push_bit 24 (ucast (msg ! (i + j * 4))) OR push_bit 16 (ucast (msg ! (i + j * 4 + 1)))
          OR push_bit 8 (ucast (msg ! (i + j * 4 + 2))) OR ucast (msg ! (i + j * 4 + 3))) [0..<16]
      = map (fips_W (take 64 (drop i msg))) [0..<16]"
    by (rule map_cong [OF refl]) (rule first_words [OF assms], simp)
  moreover have "16 + 48 = (64 :: nat)" by simp
  ultimately show ?thesis
    using schedule_upto [OF assms, of 48] by (simp only: sha_schedule_def)
qed

lemma list_8: "length st = 8 \<Longrightarrow> \<exists>a b c d e f g h. st = [a, b, c, d, e, f, g, h]"
  by (auto simp: length_Suc_conv eval_nat_numeral)

lemma length_fips_step: "length (fips_step k w st) = length st"
  by (cases "(k, w, st)" rule: fips_step.cases) (simp_all add: Let_def)

lemma length_fips_rounds [simp]: "length (fips_rounds t blk st) = length st"
  by (induction t) (simp_all add: length_fips_step)

lemma sha_round_eq:
  assumes "length st = 8" shows "sha_round w st j = fips_step (sha_K ! j) (w ! j) st"
  using list_8 [OF assms] by (auto simp: sha_round_def sigma_eqs Ch_eq Maj_eq Let_def nth_Cons')

lemma sha_rounds_eq:
  assumes "length st = 8" and "t \<le> 64" and "w = map (fips_W blk) [0..<64]"
  shows "foldl (sha_round w) st [0..<t] = fips_rounds t blk st"
  using assms(2)
proof (induction t)
  case (Suc t)
  then show ?case using assms(1,3) by (simp add: sha_round_eq)
qed simp

lemma sha_block_eq:
  assumes "length h = 8" and "i + 64 \<le> length msg"
  shows "sha_block msg h i = fips_compress h (take 64 (drop i msg))"
  using sha_rounds_eq [OF assms(1) order_refl sha_schedule_eq [OF assms(2)]]
  by (simp add: sha_block_def fips_compress_def)

lemma length_fips_compress [simp]: "length h = 8 \<Longrightarrow> length (fips_compress h blk) = 8"
  by (simp add: fips_compress_def)

lemma sha_fold_eq:
  assumes "\<forall>k\<in>set ks. 64 * k + 64 \<le> length msg" and "length h = 8"
  shows "foldl (sha_block msg) h (map (\<lambda>k. 64 * k) ks) = fips_hash h (map (\<lambda>k. take 64 (drop (64 * k) msg)) ks)"
  using assms by (induction ks arbitrary: h) (simp_all add: sha_block_eq)


lemma length_sha_words: "length h = 8 \<Longrightarrow> length (fips_hash h bs) = 8"
  by (induction bs arbitrary: h) simp_all

lemma show_hex_length: "n < 16 ^ k \<Longrightarrow> 0 < k \<Longrightarrow> length (show_hex n) \<le> k"
proof (induction k arbitrary: n)
  case (Suc k)
  show ?case
  proof (cases "n < 16")
    case False
    then have "0 < k" using Suc.prems(1) by (cases k) auto
    moreover have "n div 16 < 16 ^ k" using Suc.prems(1) by (simp add: less_mult_imp_div_less mult.commute)
    ultimately have "length (show_hex (n div 16)) \<le> k" using Suc.IH by blast
    then show ?thesis using False by (simp add: show_base.simps [of 16 n])
  qed (simp add: show_base.simps [of 16 n])
qed simp

lemma length_hex8 [simp]: "length (hex8 v) = 8"
proof -
  have "unat v < 16 ^ 8" using unat_u32_less [of v] by simp
  then show ?thesis using show_hex_length [of "unat v" 8] by (simp add: hex8_def Let_def)
qed

lemma sha_hex_words: "sha256_words data = fips_hash sha_init (blocks_of (fips_pad data))"
proof -
  obtain m where m: "length (fips_pad data) = 64 * m" using fips_pad_length by (auto elim: dvdE)
  show ?thesis
    using sha_fold_eq [of "[0..<m]" "fips_pad data" sha_init] m
    by (simp add: sha256_words_def sha_padded_eq blocks_of_def Let_def sha_init_def)
qed

lemma sha_hex_length: "length (sha256hex data) = 64"
proof -
  have "length (concat (map hex8 ws)) = 8 * length ws" for ws by (induction ws) simp_all
  then show ?thesis
    using length_sha_words [of sha_init] by (simp add: sha256hex_def sha_hex_words sha_init_def)
qed

text \<open>C37: the checksum function is SHA-256: for every message it is the iteration of the FIPS 180-4
  compression function over the 64-byte blocks of the padded message, printed as 64
  hexadecimal digits; the padding loses nothing of a message shorter than \<open>2^61\<close> bytes.
\<close>

theorem sha256hex_fips:
  "sha256hex data = concat (map hex8 (fips_hash sha_init (blocks_of (fips_pad data)))) \<and>
   concat (blocks_of (fips_pad data)) = fips_pad data \<and>
   length (sha256hex data) = 64 \<and>
   (\<forall>data'. length data < 2 ^ 61 \<longrightarrow> length data' < 2 ^ 61 \<longrightarrow>
      fips_pad data' = fips_pad data \<longrightarrow> data' = data)"
proof -
  obtain m where m: "length (fips_pad data) = 64 * m" using fips_pad_length by (auto elim: dvdE)
  have "concat (map (\<lambda>k. take 64 (drop (64 * k) msg)) [0..<n]) = take (64 * n) msg" for n and msg :: bytes
    by (induction n) (simp_all add: take_add [symmetric] add.commute)
  moreover have "data' = data" if "fips_pad data' = fips_pad data" "length data < 2 ^ 61" "length data' < 2 ^ 61" for data'
  proof -
    have last8: "drop (length (fips_pad x) - 8) (fips_pad x) = be_enc 8 (8 * length x)" for x
      by (simp add: fips_pad_def)
    have "be_val (be_enc 8 (8 * length data')) = be_val (be_enc 8 (8 * length data))"
      using last8 [of data] last8 [of data'] that(1) by simp
    then have "length data' = length data" using that(2,3) by (simp add: be_val_enc)
    then show ?thesis using that(1) by (simp add: fips_pad_def)
  qed
  ultimately show ?thesis
    using m sha_hex_length [of data]
    by (auto simp: sha256hex_def sha_hex_words blocks_of_def)
qed

theorem sha256hex_fips_witness:
  "length (sha256hex [0x61]) = 64 \<and> fips_pad [0x62] \<noteq> fips_pad [0x61]"
proof -
  note t = sha256hex_fips [of "[0x61]", THEN conjunct2, THEN conjunct2]
  have "fips_pad [0x62] = fips_pad [0x61] \<Longrightarrow> [0x62 :: u8] = [0x61]"
    using t [THEN conjunct2, THEN spec, of "[0x62]"] by simp
  then show ?thesis using t [THEN conjunct1] by fastforce
qed

end
