(* ===== verification/NetCodec.thy ===== *)
theory NetCodec
  imports Block
begin

text \<open>
  The wire format of the peer-to-peer layer (\<^verbatim>\<open>namespace codec\<close> of
  \<^verbatim>\<open>src/include/network.h\<close> and \<^verbatim>\<open>src/src/network.cpp\<close>): frames with a 9-byte header,
  blocks and transactions as length-prefixed text, the decoding errors, the fuzzing entry
  point and the self test of the codec.
\<close>

section \<open>Constants and data\<close>

text \<open>
  \<^verbatim>\<open>enum class MessageType : uint8_t\<close>: a \<^verbatim>\<open>static_cast\<close> from any byte is a value of it, so
  there is a constructor for the codes that have no name.
\<close>

datatype net_type =
    Handshake | HandshakeAck | PingMsg | PongMsg | BlockMsg | TransactionMsg | TransactionBatch
  | GetBlocks | Inventory | GetData | NotFoundMsg | Headers | GetHeaders | PeerExchange
  | VersionMsg | VersionAck | Reject | UnknownMsg | Unnamed u8

definition type_names :: "(u8 \<times> net_type) list" where
  "type_names =
     [(0x01, Handshake), (0x02, HandshakeAck), (0x03, PingMsg), (0x04, PongMsg), (0x10, BlockMsg),
      (0x11, TransactionMsg), (0x12, TransactionBatch), (0x20, GetBlocks), (0x21, Inventory),
      (0x22, GetData), (0x23, NotFoundMsg), (0x24, Headers), (0x25, GetHeaders), (0x30, PeerExchange),
      (0x40, VersionMsg), (0x41, VersionAck), (0x50, Reject), (0xFF, UnknownMsg)]"

definition net_type_of :: "u8 \<Rightarrow> net_type" where
  "net_type_of b = (case map_of type_names b of Some t \<Rightarrow> t | None \<Rightarrow> Unnamed b)"

fun net_code :: "net_type \<Rightarrow> u8" where
  "net_code (Unnamed b) = b"
| "net_code t = fst (the (find (\<lambda>e. snd e = t) type_names))"

definition NET_HEADER_BYTES :: nat where "NET_HEADER_BYTES = 9"
definition NET_MAX_FRAME_BYTES :: nat where "NET_MAX_FRAME_BYTES = 32 * 1024 * 1024"
definition MIN_PROTOCOL_VERSION :: u32 where "MIN_PROTOCOL_VERSION = 1"
definition MAX_PROTOCOL_VERSION :: u32 where "MAX_PROTOCOL_VERSION = 1"
definition PROTOCOL_VERSION :: u32 where "PROTOCOL_VERSION = 1"
definition FRAME_MAGIC :: bytes where "FRAME_MAGIC = [0x4D, 0x44, 0x52, 0x31]"

record net_frame =
  nf_type :: net_type
  nf_payload :: bytes
  nf_version :: u32

datatype net_error =
    NoError | TooShort | BadMagic | OversizedFrame | PayloadTrunc | AllocFailed
  | VersionMismatch | BadMessageType | ChecksumFail | UnknownError

fun decodeErrorName :: "net_error \<Rightarrow> string" where
  "decodeErrorName NoError = ''None''"
| "decodeErrorName TooShort = ''TooShort''"
| "decodeErrorName BadMagic = ''BadMagic''"
| "decodeErrorName OversizedFrame = ''OversizedFrame''"
| "decodeErrorName PayloadTrunc = ''PayloadTrunc''"
| "decodeErrorName AllocFailed = ''AllocFailed''"
| "decodeErrorName VersionMismatch = ''VersionMismatch''"
| "decodeErrorName BadMessageType = ''BadMessageType''"
| "decodeErrorName ChecksumFail = ''ChecksumFail''"
| "decodeErrorName UnknownError = ''Unknown''"

record net_decode =
  nd_ok :: bool
  nd_frame :: "net_frame option"
  nd_error :: net_error

abbreviation nd_fail :: "net_error \<Rightarrow> net_decode" where
  "nd_fail e \<equiv> \<lparr>nd_ok = False, nd_frame = None, nd_error = e\<rparr>"

section \<open>Frames\<close>

definition net_encodeFrame :: "net_frame \<Rightarrow> bytes \<Rightarrow> bool \<times> bytes" where
  "net_encodeFrame f out =
     (if length (nf_payload f) > NET_MAX_FRAME_BYTES then (False, out)
      else
        let payLen = word_of_nat (length (nf_payload f))
        in (True, out @ FRAME_MAGIC @ [net_code (nf_type f)] @ be_bytes4 payLen @ nf_payload f))"

definition net_decodeFrame :: "bytes option \<Rightarrow> net_decode" where
  "net_decodeFrame data =
     (case data of
        None \<Rightarrow> nd_fail TooShort
      | Some d \<Rightarrow>
          if length d < NET_HEADER_BYTES then nd_fail TooShort
          else if \<exists>i\<in>set [0..<4]. d ! i \<noteq> FRAME_MAGIC ! i then nd_fail BadMagic
          else
            let type = net_type_of (d ! 4)
            in if type = UnknownMsg then nd_fail BadMessageType
               else
                 let payLen = unat (be_word4 (d ! 5) (d ! 6) (d ! 7) (d ! 8))
                 in if payLen > NET_MAX_FRAME_BYTES then nd_fail OversizedFrame
                    else if length d < NET_HEADER_BYTES + payLen then nd_fail PayloadTrunc
                    else
                      let payload = take payLen (drop NET_HEADER_BYTES d);
                          frame = \<lparr>nf_type = type, nf_payload = payload, nf_version = PROTOCOL_VERSION\<rparr>
                      in if type = VersionMsg \<and> payload \<noteq> []
                         then
                           let peerVer = ucast (payload ! 0)
                           in if peerVer < MIN_PROTOCOL_VERSION \<or> peerVer > MAX_PROTOCOL_VERSION
                              then nd_fail VersionMismatch
                              else \<lparr>nd_ok = True, nd_frame = Some (frame\<lparr>nf_version := peerVer\<rparr>), nd_error = NoError\<rparr>
                         else \<lparr>nd_ok = True, nd_frame = Some frame, nd_error = NoError\<rparr>)"

definition fuzzDecodeFrame :: "bytes option \<Rightarrow> bool" where
  "fuzzDecodeFrame data =
     (if data = None then False
      else
        let r = net_decodeFrame data
        in if nd_ok r \<and> nd_frame r = None then False
           else if \<not> nd_ok r \<and> nd_error r = NoError then False
           else True)"

definition codecSelfTest :: bool where
  "codecSelfTest =
     (let f = \<lparr>nf_type = PingMsg, nf_payload = [0x01, 0x02, 0x03], nf_version = PROTOCOL_VERSION\<rparr>;
          (ok, encoded) = net_encodeFrame f []
      in if \<not> ok then False
         else
           let r = net_decodeFrame (Some encoded)
           in if \<not> nd_ok r then False
              else if nf_type (the (nd_frame r)) \<noteq> PingMsg then False
              else if nf_payload (the (nd_frame r)) \<noteq> nf_payload f then False
              else
                let big = \<lparr>nf_type = BlockMsg, nf_payload = replicate (NET_MAX_FRAME_BYTES + 1) 0xAA,
                           nf_version = PROTOCOL_VERSION\<rparr>
                in \<not> fst (net_encodeFrame big []))"

section \<open>Blocks and transactions\<close>

definition length_prefixed :: "string \<Rightarrow> bytes" where
  "length_prefixed s = be_bytes4 (word_of_nat (length s)) @ str_bytes s"

definition net_encodeBlock :: "block \<Rightarrow> bytes \<Rightarrow> bytes" where
  "net_encodeBlock b out = out @ length_prefixed (serialize b)"

definition tx_text :: "transaction \<Rightarrow> string" where
  "tx_text tx =
     show_u64 (tx_chainId tx) @ ''|'' @ show_u64 (tx_nonce tx) @ ''|'' @ tx_toAddress tx @ ''|''
     @ show_u64 (tx_value tx) @ ''|'' @ show_u64 (tx_gasLimit tx) @ ''|'' @ show_u64 (tx_maxFeePerGas tx)
     @ ''|'' @ show_u64 (tx_maxPriorityFeePerGas tx) @ ''|'' @ tx_txHash tx"

definition net_encodeTransaction :: "transaction \<Rightarrow> bytes \<Rightarrow> bytes" where
  "net_encodeTransaction tx out = out @ length_prefixed (tx_text tx)"

text \<open>The text behind the length; \<open>None\<close> when the buffer is too short.\<close>

definition prefixed_text :: "bytes \<Rightarrow> string option" where
  "prefixed_text data =
     (if length data < 4 then None
      else
        let len = unat (be_word4 (data ! 0) (data ! 1) (data ! 2) (data ! 3))
        in if len > length data - 4 then None else Some (bytes_str (take len (drop 4 data))))"

text \<open>The result of \<^verbatim>\<open>deserialize\<close> is not looked at; \<open>now\<close> is the clock of the constructor.\<close>

definition net_decodeBlock :: "u64 \<Rightarrow> bytes \<Rightarrow> block option" where
  "net_decodeBlock now data =
     (case prefixed_text data of None \<Rightarrow> None | Some s \<Rightarrow> Some (fst (deserialize s (default_block now))))"

definition wire_tx_readers :: "transaction reader list" where
  "wire_tx_readers =
     [num_field (\<lambda>n tx. tx\<lparr>tx_chainId := n\<rparr>),
      num_field (\<lambda>n tx. tx\<lparr>tx_nonce := n\<rparr>),
      str_field (\<lambda>t tx. tx\<lparr>tx_toAddress := t\<rparr>),
      num_field (\<lambda>n tx. tx\<lparr>tx_value := n\<rparr>),
      num_field (\<lambda>n tx. tx\<lparr>tx_gasLimit := n\<rparr>),
      num_field (\<lambda>n tx. tx\<lparr>tx_maxFeePerGas := n\<rparr>),
      num_field (\<lambda>n tx. tx\<lparr>tx_maxPriorityFeePerGas := n\<rparr>),
      str_field (\<lambda>t tx. tx\<lparr>tx_txHash := t\<rparr>)]"

definition net_decodeTransaction :: "bytes \<Rightarrow> transaction option" where
  "net_decodeTransaction data =
     (case prefixed_text data of
        None \<Rightarrow> None
      | Some raw \<Rightarrow>
          let (st, tx, ok) = read_fields CHR ''|'' wire_tx_readers (open_stream raw) default_tx
          in if ok then Some tx else None)"

text \<open>The payload of \<^verbatim>\<open>broadcastTransactionBatch\<close>.\<close>

definition batch_payload :: "transaction list \<Rightarrow> bytes" where
  "batch_payload txs =
     foldl (\<lambda>batch tx.
         let enc = net_encodeTransaction tx []
         in batch @ be_bytes4 (word_of_nat (length enc)) @ enc)
       (be_bytes4 (word_of_nat (length txs))) txs"

section \<open>Lemmas\<close>

lemma map_of_type_names: "map_of type_names (net_code t) = Some t \<or> (\<exists>b. t = Unnamed b)"
  by (cases t) (simp_all add: type_names_def)

lemma net_code_of [simp]: "net_code (net_type_of b) = b"
proof (cases "map_of type_names b")
  case (Some t)
  then have "(b, t) \<in> set type_names" by (rule map_of_SomeD)
  then show ?thesis using Some by (auto simp: net_type_of_def type_names_def)
qed (simp add: net_type_of_def)

text \<open>A frame's type read back: itself, unless it carries a named code without its name.\<close>

definition proper_type :: "net_type \<Rightarrow> bool" where
  "proper_type t = (net_type_of (net_code t) = t)"

lemma proper_type_of [simp]: "proper_type (net_type_of b)"
  by (simp add: proper_type_def)

lemma proper_named: "(\<And>b. t \<noteq> Unnamed b) \<Longrightarrow> proper_type t"
  using map_of_type_names [of t] by (auto simp: proper_type_def net_type_of_def)

definition net_bytes :: "net_frame \<Rightarrow> bytes" where
  "net_bytes f = FRAME_MAGIC @ net_code (nf_type f) # be_bytes4 (word_of_nat (length (nf_payload f))) @ nf_payload f"

lemma net_encodeFrame_eq:
  "net_encodeFrame f out =
     (if length (nf_payload f) > NET_MAX_FRAME_BYTES then (False, out) else (True, out @ net_bytes f))"
  by (simp add: net_encodeFrame_def net_bytes_def Let_def)

lemma length_net_bytes: "length (net_bytes f) = NET_HEADER_BYTES + length (nf_payload f)"
  by (simp add: net_bytes_def NET_HEADER_BYTES_def FRAME_MAGIC_def)

lemma word4_bytes4 [simp]:
  "be_word4 (be_bytes4 v ! 0) (be_bytes4 v ! Suc 0) (be_bytes4 v ! 2) (be_bytes4 v ! 3) = v"
proof -
  have "[be_bytes4 v ! 0, be_bytes4 v ! 1, be_bytes4 v ! 2, be_bytes4 v ! 3] = be_bytes4 v"
    by (rule nth_equalityI) (auto simp: less_Suc_eq numeral_eq_Suc)
  then show ?thesis by (simp add: be_word4_eq be_bytes4_eq)
qed

lemma magic_bytes: "\<forall>i\<in>set [0..<4]. (FRAME_MAGIC @ xs) ! i = FRAME_MAGIC ! i"
proof -
  have "length FRAME_MAGIC = 4" by (simp add: FRAME_MAGIC_def)
  then show ?thesis by (simp add: nth_append)
qed

lemma net_type_of_eq: "net_type_of t = s \<longleftrightarrow> t = net_code s" if "proper_type s"
  using that net_code_of [of t] by (auto simp: proper_type_def simp del: net_code_of)

lemma special_types [simp]:
  "net_type_of t = UnknownMsg \<longleftrightarrow> t = 0xFF" "net_type_of t = VersionMsg \<longleftrightarrow> t = 0x40"
  by (subst net_type_of_eq; simp add: proper_named type_names_def)+

lemma frame_header:
  "length (FRAME_MAGIC @ t # be_bytes4 len @ rest) = NET_HEADER_BYTES + length rest"
  "(FRAME_MAGIC @ t # be_bytes4 len @ rest) ! 4 = t"
  "be_word4 ((FRAME_MAGIC @ t # be_bytes4 len @ rest) ! 5) ((FRAME_MAGIC @ t # be_bytes4 len @ rest) ! 6)
     ((FRAME_MAGIC @ t # be_bytes4 len @ rest) ! 7) ((FRAME_MAGIC @ t # be_bytes4 len @ rest) ! 8) = len"
  "drop NET_HEADER_BYTES (FRAME_MAGIC @ t # be_bytes4 len @ rest) = rest"
  using word4_bytes4 [of len]
  by (simp_all add: FRAME_MAGIC_def NET_HEADER_BYTES_def nth_append)

lemma decode_header:
  assumes "t \<noteq> 0xFF" and "unat len \<le> NET_MAX_FRAME_BYTES"
  shows "net_decodeFrame (Some (FRAME_MAGIC @ t # be_bytes4 len @ rest)) =
    (if length rest < unat len then nd_fail PayloadTrunc
     else if t = 0x40 \<and> take (unat len) rest \<noteq> [] \<and> rest ! 0 \<noteq> 1 then nd_fail VersionMismatch
     else \<lparr>nd_ok = True, nd_frame = Some \<lparr>nf_type = net_type_of t, nf_payload = take (unat len) rest,
             nf_version = PROTOCOL_VERSION\<rparr>, nd_error = NoError\<rparr>)"
proof -
  let ?buf = "FRAME_MAGIC @ t # be_bytes4 len @ rest"
  have v: "(ucast b < MIN_PROTOCOL_VERSION \<or> ucast b > MAX_PROTOCOL_VERSION) \<longleftrightarrow> b \<noteq> 1" for b :: u8
    using ucast_u8_inj [where 'a = 32, of b 1]
    unfolding MIN_PROTOCOL_VERSION_def MAX_PROTOCOL_VERSION_def neq_iff [symmetric] by simp
  have v1: "ucast b = PROTOCOL_VERSION" if "b = 1" for b :: u8 using that by (simp add: PROTOCOL_VERSION_def)
  have m: "\<not> (\<exists>i\<in>set [0..<4]. ?buf ! i \<noteq> FRAME_MAGIC ! i)"
    using magic_bytes by blast
  show ?thesis
    using assms v v1 by (simp only: net_decodeFrame_def option.case frame_header m special_types Let_def) auto
qed


lemma len_payload: "n \<le> NET_MAX_FRAME_BYTES \<Longrightarrow> unat (word_of_nat n :: u32) = n"
  by (simp add: NET_MAX_FRAME_BYTES_def unat_of_nat)

lemma decode_net_bytes:
  assumes "length (nf_payload f) \<le> NET_MAX_FRAME_BYTES" and "proper_type (nf_type f)"
  shows "net_decodeFrame (Some (net_bytes f @ rest)) =
    (if nf_type f = UnknownMsg then nd_fail BadMessageType
     else if nf_type f = VersionMsg \<and> nf_payload f \<noteq> [] \<and> hd (nf_payload f) \<noteq> 1 then nd_fail VersionMismatch
     else \<lparr>nd_ok = True, nd_frame = Some (f\<lparr>nf_version := PROTOCOL_VERSION\<rparr>), nd_error = NoError\<rparr>)"
proof (cases "net_code (nf_type f) = 0xFF")
  case True
  then have t: "nf_type f = UnknownMsg" using assms(2) by (metis proper_type_def special_types(1))
  have h: "net_bytes f @ rest = FRAME_MAGIC @ 0xFF # be_bytes4 (word_of_nat (length (nf_payload f))) @ nf_payload f @ rest"
    using True by (simp add: net_bytes_def)
  have m: "\<not> (\<exists>i\<in>set [0..<4]. (FRAME_MAGIC @ xs) ! i \<noteq> FRAME_MAGIC ! i)" for xs
    using magic_bytes by blast
  show ?thesis
    using t by (simp only: h net_decodeFrame_def option.case frame_header m special_types Let_def) simp
next
  case False
  have types: "nf_type f \<noteq> UnknownMsg" "net_code (nf_type f) = 0x40 \<longleftrightarrow> nf_type f = VersionMsg"
    using False assms(2) by (auto simp: proper_type_def type_names_def, metis special_types(2))
  show ?thesis
    using decode_header [OF False, of "word_of_nat (length (nf_payload f))" "nf_payload f @ rest"] assms types
    by (auto simp: net_bytes_def len_payload proper_type_def nth_append hd_conv_nth)
qed

lemma take_header: "k \<ge> NET_HEADER_BYTES \<Longrightarrow> take k (net_bytes f) =
    FRAME_MAGIC @ net_code (nf_type f) # be_bytes4 (word_of_nat (length (nf_payload f))) @
      take (k - NET_HEADER_BYTES) (nf_payload f)"
  by (simp add: net_bytes_def NET_HEADER_BYTES_def FRAME_MAGIC_def be_bytes4_eq take_Cons')

lemma decode_prefix:
  assumes "length (nf_payload f) \<le> NET_MAX_FRAME_BYTES" and "net_code (nf_type f) \<noteq> 0xFF"
    and "k < length (net_bytes f)"
  shows "net_decodeFrame (Some (take k (net_bytes f))) =
    nd_fail (if k < NET_HEADER_BYTES then TooShort else PayloadTrunc)"
proof (cases "k < NET_HEADER_BYTES")
  case True
  then show ?thesis using assms(3) by (simp add: net_decodeFrame_def)
next
  case False
  then show ?thesis
    using assms by (simp add: take_header decode_header len_payload length_net_bytes)
qed

section \<open>Properties\<close>

text \<open>
  network frames. A frame whose payload has at most 32 MiB is appended to the buffer and
  decoded from where it stands whatever follows it, with the protocol version set to 1; a
  larger payload is refused and leaves the buffer as it was. Of the types only
  \<^verbatim>\<open>Unknown\<close> is rejected, so codes without a name are accepted, and a version frame must be
  empty or start with byte 1. Every proper prefix is reported as too short or truncated.
\<close>

theorem net_frame_roundtrip:
  assumes "net_encodeFrame f out = (ok, out')" and "proper_type (nf_type f)"
  shows "ok = (length (nf_payload f) \<le> NET_MAX_FRAME_BYTES) \<and> (\<not> ok \<longrightarrow> out' = out) \<and>
    (ok \<longrightarrow> take (length out) out' = out \<and>
       net_decodeFrame (Some (drop (length out) out' @ rest)) =
         (if nf_type f = UnknownMsg then nd_fail BadMessageType
          else if nf_type f = VersionMsg \<and> nf_payload f \<noteq> [] \<and> hd (nf_payload f) \<noteq> 1 then nd_fail VersionMismatch
          else \<lparr>nd_ok = True, nd_frame = Some (f\<lparr>nf_version := PROTOCOL_VERSION\<rparr>), nd_error = NoError\<rparr>) \<and>
       (\<forall>k < length out' - length out. nf_type f \<noteq> UnknownMsg \<longrightarrow>
          net_decodeFrame (Some (take k (drop (length out) out'))) =
            nd_fail (if k < NET_HEADER_BYTES then TooShort else PayloadTrunc)))"
proof (cases "length (nf_payload f) \<le> NET_MAX_FRAME_BYTES")
  case True
  then have "ok" "out' = out @ net_bytes f" using assms(1) by (auto simp: net_encodeFrame_eq)
  moreover have "net_code (nf_type f) \<noteq> 0xFF" if "nf_type f \<noteq> UnknownMsg"
    using that assms(2) by (metis proper_type_def special_types(1))
  ultimately show ?thesis
    using decode_net_bytes [OF True assms(2)] decode_prefix [OF True] True by simp
qed (use assms(1) in \<open>auto simp: net_encodeFrame_eq\<close>)

theorem net_frame_roundtrip_witness:
  "net_decodeFrame (Some ([0x4D, 0x44, 0x52, 0x31, 0x77, 0, 0, 0, 1, 0xAB] @ [0xFF])) =
     \<lparr>nd_ok = True, nd_frame = Some \<lparr>nf_type = Unnamed 0x77, nf_payload = [0xAB], nf_version = 1\<rparr>, nd_error = NoError\<rparr>"
proof -
  have e: "net_encodeFrame \<lparr>nf_type = Unnamed 0x77, nf_payload = [0xAB], nf_version = 0\<rparr> [] =
      (True, [0x4D, 0x44, 0x52, 0x31, 0x77, 0, 0, 0, 1, 0xAB])"
    by (simp add: net_encodeFrame_def FRAME_MAGIC_def be_bytes4_def NET_MAX_FRAME_BYTES_def)
  have p: "proper_type (Unnamed 0x77)" by (simp add: proper_type_def net_type_of_def type_names_def)
  show ?thesis
    using net_frame_roundtrip [OF e, of "[0xFF]"] p by (simp add: PROTOCOL_VERSION_def)
qed

lemma decode_consistent: "nd_ok (net_decodeFrame d) \<longleftrightarrow> nd_frame (net_decodeFrame d) \<noteq> None"
  "nd_ok (net_decodeFrame d) \<longleftrightarrow> nd_error (net_decodeFrame d) = NoError"
  by (simp_all add: net_decodeFrame_def Let_def split: option.splits)

text \<open>The fuzzing entry point never finds an inconsistent result, and the self test passes.\<close>

lemma fuzz_total: "fuzzDecodeFrame (Some d)"
  using decode_consistent [of "Some d"] by (auto simp: fuzzDecodeFrame_def Let_def)

lemma self_test: codecSelfTest
proof -
  have "net_code PingMsg = 3" by (simp add: type_names_def)
  then show ?thesis
    using decode_net_bytes [of "\<lparr>nf_type = PingMsg, nf_payload = [0x01, 0x02, 0x03], nf_version = PROTOCOL_VERSION\<rparr>" "[]"]
    by (simp add: codecSelfTest_def net_encodeFrame_eq Let_def NET_MAX_FRAME_BYTES_def proper_named)
qed

lemma prefixed_text_length:
  assumes "length s < 2 ^ 32" shows "prefixed_text (length_prefixed s @ rest) = Some s"
proof -
  have "unat (word_of_nat (length s) :: u32) = length s" using assms by (simp add: unat_of_nat)
  moreover have "be_word4 ((length_prefixed s @ rest) ! 0) ((length_prefixed s @ rest) ! 1)
      ((length_prefixed s @ rest) ! 2) ((length_prefixed s @ rest) ! 3) = word_of_nat (length s)"
    by (simp add: length_prefixed_def nth_append)
  ultimately show ?thesis
    by (simp add: prefixed_text_def) (simp add: length_prefixed_def)
qed

definition sent_tokens :: "transaction \<Rightarrow> string list" where
  "sent_tokens tx =
     [show_u64 (tx_chainId tx), show_u64 (tx_nonce tx), tx_toAddress tx, show_u64 (tx_value tx),
      show_u64 (tx_gasLimit tx), show_u64 (tx_maxFeePerGas tx), show_u64 (tx_maxPriorityFeePerGas tx), tx_txHash tx]"

text \<open>What of a transaction travels over the network.\<close>

definition sent_tx :: "transaction \<Rightarrow> transaction" where
  "sent_tx tx =
     default_tx\<lparr>tx_chainId := tx_chainId tx, tx_nonce := tx_nonce tx, tx_toAddress := tx_toAddress tx,
       tx_value := tx_value tx, tx_gasLimit := tx_gasLimit tx, tx_maxFeePerGas := tx_maxFeePerGas tx,
       tx_maxPriorityFeePerGas := tx_maxPriorityFeePerGas tx, tx_txHash := tx_txHash tx\<rparr>"

lemma tx_text_join: "tx_text tx = join_with CHR ''|'' (sent_tokens tx)"
  by (simp add: tx_text_def sent_tokens_def)

lemma net_decodeTransaction_text:
  assumes "CHR ''|'' \<notin> set (tx_toAddress tx)" and "CHR ''|'' \<notin> set (tx_txHash tx)"
    and "length (tx_text tx) < 2 ^ 32"
  shows "net_decodeTransaction (net_encodeTransaction tx [] @ rest) = Some (sent_tx tx)"
proof -
  have "holds_fields CHR ''|'' (sent_tokens tx @ []) (open_stream (tx_text tx))"
    using assms(1,2) stream_of_open [of "sent_tokens tx" "CHR ''|''"]
    by (auto simp: tx_text_join holds_fields_def sent_tokens_def)
  moreover have "apply_fields wire_tx_readers (sent_tokens tx) default_tx = Some (sent_tx tx)"
    by (simp add: wire_tx_readers_def sent_tokens_def sent_tx_def)
  ultimately obtain st where
    "read_fields CHR ''|'' wire_tx_readers (open_stream (tx_text tx)) default_tx = (st, sent_tx tx, True)"
    using read_fields_tokens [of "CHR ''|''" "sent_tokens tx" "[]" _ wire_tx_readers default_tx]
    by (auto simp: wire_tx_readers_def sent_tokens_def)
  then show ?thesis
    using prefixed_text_length [OF assms(3)]
    by (simp add: net_decodeTransaction_def net_encodeTransaction_def)
qed


lemma first_token: "is_token (getline d (open_stream s)) = takeWhile (\<lambda>c. c \<noteq> d) s"
proof (cases "dropWhile (\<lambda>c. c \<noteq> d) s")
  case Nil
  then have "takeWhile (\<lambda>c. c \<noteq> d) s = s" by (simp add: dropWhile_eq_Nil_conv takeWhile_eq_all_conv)
  then show ?thesis using Nil by (simp add: getline_def open_stream_def del: dropWhile_eq_Nil_conv takeWhile_eq_all_conv)
qed (simp add: getline_def open_stream_def)

text \<open>
  transactions on the network. A transaction whose address and hash do not contain the
  separator is decoded to its chain id, nonce, address, value, gas limit, fees and hash, the
  inputs, outputs, data and signature being lost; and a batch is never decoded: the receiver
  hands the payload of a batch to the decoder of one transaction, which reads the number of
  transactions as the length of a text that starts with a zero byte.
\<close>

theorem net_transactions:
  assumes "length (tx_text tx) + 4 < 2 ^ 24" and "length txs < 2 ^ 32 - 1"
  shows "(CHR ''|'' \<notin> set (tx_toAddress tx) \<and> CHR ''|'' \<notin> set (tx_txHash tx) \<longrightarrow>
      net_decodeTransaction (net_encodeTransaction tx []) = Some (sent_tx tx)) \<and>
    net_decodeTransaction (batch_payload (tx # txs)) = None"
proof -
  have small: "length (tx_text tx) < 2 ^ 32" using assms(1) by simp
  let ?n = "Suc (length txs)"
  have n: "unat (word_of_nat ?n :: u32) = ?n" using assms(2) by (simp add: unat_of_nat del: of_nat_Suc)
  have fold: "foldl (\<lambda>batch tx. let enc = net_encodeTransaction tx [] in batch @ be_bytes4 (word_of_nat (length enc)) @ enc) b xs
      = b @ foldl (\<lambda>batch tx. let enc = net_encodeTransaction tx [] in batch @ be_bytes4 (word_of_nat (length enc)) @ enc) [] xs"
    for b xs
  proof (induction xs arbitrary: b)
    case (Cons x xs)
    show ?case
      using Cons [of "b @ be_bytes4 (word_of_nat (length (net_encodeTransaction x []))) @ net_encodeTransaction x []"]
        Cons [of "be_bytes4 (word_of_nat (length (net_encodeTransaction x []))) @ net_encodeTransaction x []"]
      by (simp add: Let_def)
  qed simp
  let ?len = "word_of_nat (length (net_encodeTransaction tx [])) :: u32"
  obtain rest where b: "batch_payload (tx # txs) = be_bytes4 (word_of_nat ?n) @ be_bytes4 ?len @ rest"
    using fold [of "be_bytes4 (word_of_nat ?n)" "tx # txs"]
      fold [of "be_bytes4 ?len @ net_encodeTransaction tx []" txs]
    by (simp add: batch_payload_def Let_def)
  have "unat ?len = length (tx_text tx) + 4"
    using assms(1) by (simp add: unat_of_nat net_encodeTransaction_def length_prefixed_def del: of_nat_add)
  then have "be_bytes4 ?len ! 0 = 0"
    using assms(1) by (simp add: be_bytes4_def word_unat_eq_iff unsigned_ucast_eq unsigned_drop_bit_eq drop_bit_eq_div [where 'a = nat]
        take_bit_eq_mod)
  then obtain bs where z: "be_bytes4 ?len = 0 # bs" by (cases "be_bytes4 ?len") (auto simp: be_bytes4_def)
  have zero: "char_of_byte 0 = CHR 0x00" by (simp add: char_of_byte_def char_of_def)
  have tok: "stoull (takeWhile P (bytes_str (0 # cs))) = Inl Invalid_argument" for cs P
    by (cases "P (CHR 0x00)") (simp_all add: stoull_def bytes_str_def zero is_space_def is_digit_def)
  have "net_decodeTransaction (batch_payload (tx # txs)) = None"
  proof (cases "?n > length (batch_payload (tx # txs)) - 4")
    case True
    then have "prefixed_text (batch_payload (tx # txs)) = None"
      using n by (simp add: prefixed_text_def b nth_append)
    then show ?thesis by (simp add: net_decodeTransaction_def)
  next
    case False
    then have "prefixed_text (batch_payload (tx # txs)) = Some (bytes_str (0 # take (length txs) (bs @ rest)))"
      using n by (simp add: prefixed_text_def b nth_append z del: of_nat_Suc)
    then show ?thesis
      by (simp add: net_decodeTransaction_def wire_tx_readers_def num_field_def first_token tok)
  qed
  then show ?thesis using net_decodeTransaction_text [of tx "[]"] small by simp
qed

theorem net_transactions_witness:
  "net_decodeTransaction (batch_payload [default_tx\<lparr>tx_txHash := ''ab''\<rparr>]) = None"
proof -
  have "length (tx_text (default_tx\<lparr>tx_txHash := ''ab''\<rparr>)) + 4 < 2 ^ 24"
    by (simp add: tx_text_def default_tx_def show_base.simps [of 10 0])
  then show ?thesis using net_transactions [of "default_tx\<lparr>tx_txHash := ''ab''\<rparr>" "[]"] by simp
qed

text \<open>Blocks: the text form behind a length, and a text that does not parse is a block all the same.\<close>

lemma net_decodeBlock_encode:
  assumes "no_sep b" and "length (blk_transactions b) \<le> MAX_TRANSACTIONS" and "blk_timestamp b \<noteq> 0"
    and "length (serialize b) < 2 ^ 32"
  shows "net_decodeBlock now (net_encodeBlock b []) = Some (stored_block b)"
  using prefixed_text_length [OF assms(4), of "[]"] deserialize_eq [OF assms(1-3)]
  by (simp add: net_decodeBlock_def net_encodeBlock_def)

lemma net_decodeBlock_garbage: "net_decodeBlock now [0, 0, 0, 0] = Some (default_block now)"
  by (simp add: net_decodeBlock_def prefixed_text_def be_word4_def bytes_str_def deserialize_def)

end
