(* ===== verification/NetStore.thy ===== *)
theory NetStore
  imports Sha256 NetCodec "HOL-Library.Sublist"
begin

text \<open>
  The two files of the network layer (\<^verbatim>\<open>src/src/network.cpp\<close>): the queue of pending
  messages (\<^verbatim>\<open>savePendingQueue\<close>, \<^verbatim>\<open>loadPendingQueue\<close>) and the peer store
  (\<^verbatim>\<open>savePeers\<close>, \<^verbatim>\<open>loadPeers\<close>). Both start with 64 characters that are the SHA-256 of the
  rest, or zeros when checksums are off. A file is its bytes; \<open>None\<close> is a file that cannot
  be opened.
\<close>

section \<open>The code\<close>

record pending_entry =
  pe_address :: string
  pe_port :: u16
  pe_type :: net_type
  pe_payload :: bytes

definition port_bytes :: "u16 \<Rightarrow> bytes" where
  "port_bytes p = [ucast (drop_bit 8 p AND 0xFF), ucast (p AND 0xFF)]"

definition read_port :: "bytes \<Rightarrow> nat \<Rightarrow> u16" where
  "read_port body off = push_bit 8 (ucast (body ! off)) OR ucast (body ! (off + 1))"

definition checksum_header :: "bool \<Rightarrow> bytes \<Rightarrow> bytes" where
  "checksum_header verify body = str_bytes (if verify then sha256hex body else replicate 64 CHR ''0'')"

definition entry_bytes :: "pending_entry \<Rightarrow> bytes" where
  "entry_bytes e =
     be_bytes4 (word_of_nat (length (pe_address e))) @ str_bytes (pe_address e) @ port_bytes (pe_port e)
     @ [net_code (pe_type e)] @ be_bytes4 (word_of_nat (length (pe_payload e))) @ pe_payload e"

text \<open>\<open>store\<close> is the content of the files by path.\<close>

definition savePendingQueue ::
    "string \<Rightarrow> pending_entry list \<Rightarrow> bool \<Rightarrow> (string \<Rightarrow> bytes option) \<Rightarrow> string \<Rightarrow> bytes option" where
  "savePendingQueue path entries verifyChecksum store =
     (if path = [] then store
      else
        let body = be_bytes4 (word_of_nat (length entries)) @ concat (map entry_bytes entries)
        in store(path \<mapsto> checksum_header verifyChecksum body @ body))"

text \<open>\<^verbatim>\<open>readU32\<close>: \<open>None\<close> is the exception that ends the loading with what was read.\<close>

definition readU32 :: "bytes \<Rightarrow> nat \<Rightarrow> (u32 \<times> nat) option" where
  "readU32 body off =
     (if off + 4 > length body then None
      else Some (be_word4 (body ! off) (body ! (off + 1)) (body ! (off + 2)) (body ! (off + 3)), off + 4))"

definition chunk :: "bytes \<Rightarrow> nat \<Rightarrow> nat \<Rightarrow> bytes" where
  "chunk body off n = take n (drop off body)"

definition read_entry :: "bytes \<Rightarrow> nat \<Rightarrow> (pending_entry \<times> nat) option" where
  "read_entry body off =
     (case readU32 body off of
        None \<Rightarrow> None
      | Some (v, off) \<Rightarrow>
          let addrLen = min (unat v) 256
          in if off + addrLen > length body then None
             else
               let address = bytes_str (chunk body off addrLen); off = off + addrLen
               in if off + 3 > length body then None
                  else
                    let port = read_port body off; off = off + 2;
                        type = net_type_of (body ! off); off = off + 1
                    in case readU32 body off of
                         None \<Rightarrow> None
                       | Some (v, off) \<Rightarrow>
                           let payLen = min (unat v) NET_MAX_FRAME_BYTES
                           in if off + payLen > length body then None
                              else Some (\<lparr>pe_address = address, pe_port = port, pe_type = type,
                                          pe_payload = chunk body off payLen\<rparr>, off + payLen))"

fun read_list :: "'a breader \<Rightarrow> nat \<Rightarrow> bytes \<Rightarrow> nat \<Rightarrow> 'a list" where
  "read_list rd 0 body off = []"
| "read_list rd (Suc n) body off =
     (case rd body off of None \<Rightarrow> [] | Some (e, off) \<Rightarrow> e # read_list rd n body off)"

text \<open>
  The 64 bytes of the header are zero where the file is shorter; the body is what follows
  them. A mismatch of the checksum yields nothing.
\<close>

definition store_body :: "bool \<Rightarrow> bytes \<Rightarrow> bytes option" where
  "store_body verify file =
     (let cksum = take 64 (file @ replicate 64 0); body = drop 64 file
      in if verify \<and> str_bytes (sha256hex body) \<noteq> cksum then None else Some body)"

definition parse_store :: "'a breader \<Rightarrow> nat \<Rightarrow> bytes \<Rightarrow> 'a list" where
  "parse_store rd limit body =
     (case readU32 body 0 of
        None \<Rightarrow> []
      | Some (v, off) \<Rightarrow> read_list rd (min (unat v) limit) body off)"

definition load_store :: "'a breader \<Rightarrow> nat \<Rightarrow> string \<Rightarrow> bool \<Rightarrow> (string \<Rightarrow> bytes option) \<Rightarrow> 'a list" where
  "load_store rd limit path verify store =
     (if path = [] then []
      else
        case store path of
          None \<Rightarrow> []
        | Some file \<Rightarrow>
            (case store_body verify file of None \<Rightarrow> [] | Some body \<Rightarrow> parse_store rd limit body))"

definition loadPendingQueue :: "string \<Rightarrow> bool \<Rightarrow> (string \<Rightarrow> bytes option) \<Rightarrow> pending_entry list" where
  "loadPendingQueue = load_store read_entry 100000"

text \<open>The peer store: addresses and ports, which \<^verbatim>\<open>loadPeers\<close> connects to one by one.\<close>

definition peer_bytes :: "string \<times> u16 \<Rightarrow> bytes" where
  "peer_bytes p = be_bytes4 (word_of_nat (length (fst p))) @ str_bytes (fst p) @ port_bytes (snd p)"

definition write_peers ::
    "string \<Rightarrow> (string \<times> u16) list \<Rightarrow> bool \<Rightarrow> (string \<Rightarrow> bytes option) \<Rightarrow> string \<Rightarrow> bytes option" where
  "write_peers path saved verify store =
     (if path = [] then store
      else
        let body = be_bytes4 (word_of_nat (length saved)) @ concat (map peer_bytes saved)
        in store(path \<mapsto> checksum_header verify body @ body))"

definition read_peer :: "bytes \<Rightarrow> nat \<Rightarrow> ((string \<times> u16) \<times> nat) option" where
  "read_peer body off =
     (case readU32 body off of
        None \<Rightarrow> None
      | Some (v, off) \<Rightarrow>
          let addrLen = min (unat v) 256
          in if off + addrLen + 2 > length body then None
             else Some ((bytes_str (chunk body off addrLen), read_port body (off + addrLen)), off + addrLen + 2))"

definition read_peers :: "string \<Rightarrow> bool \<Rightarrow> (string \<Rightarrow> bytes option) \<Rightarrow> (string \<times> u16) list" where
  "read_peers = load_store read_peer 10000"

section \<open>Reading what was written\<close>

lemma readU32_at:
  "buf_at buf off (be_bytes4 v @ rest) \<Longrightarrow> readU32 buf off = Some (v, off + 4) \<and> buf_at buf (off + 4) rest"
  using buf_at_nth [of buf off "be_bytes4 v" rest 0] buf_at_nth [of buf off "be_bytes4 v" rest 1]
    buf_at_nth [of buf off "be_bytes4 v" rest 2] buf_at_nth [of buf off "be_bytes4 v" rest 3]
    buf_at_length [of buf off "be_bytes4 v @ rest"] buf_at_skip [of buf off "be_bytes4 v" rest]
  by (simp add: readU32_def)

lemma readU32_cut: "readU32 (take k buf) off = Some r \<Longrightarrow> readU32 buf off = Some r"
  by (auto simp: readU32_def split: if_splits)

lemma length_checksum_header [simp]: "length (checksum_header v body) = 64"
  using sha_hex_length by (simp add: checksum_header_def)

lemma store_body_header:
  "store_body verify (checksum_header v body @ body') =
     (if verify \<and> str_bytes (sha256hex body') \<noteq> checksum_header v body then None else Some body')"
  by (simp add: store_body_def)

lemma store_body_written: "store_body verify (checksum_header verify body @ body) = Some body"
  by (simp add: store_body_header) (simp add: checksum_header_def)

text \<open>
  The contract of an entry format: the reader reads back an encoded entry wherever it
  stands, and it only looks at what it consumes, so that cutting the file behind its end
  does not change it and cutting it before makes it fail.
\<close>

locale entry_format =
  fixes rd :: "'a breader" and enc :: "'a \<Rightarrow> bytes" and fits :: "'a \<Rightarrow> bool"
  assumes reads_entry: "fits x \<Longrightarrow> reads rd x (enc x)"
    and reads_cut: "rd (take k buf) off = Some (x, off') \<Longrightarrow> rd buf off = Some (x, off')"
begin

lemma read_list_encoded:
  assumes "list_all fits xs" and "buf_at buf off (concat (map enc xs) @ rest)"
  shows "read_list rd (length xs) buf off = xs"
  using assms
proof (induction xs arbitrary: off)
  case (Cons x xs)
  have "rd buf off = Some (x, off + length (enc x)) \<and> buf_at buf (off + length (enc x)) (concat (map enc xs) @ rest)"
    using reads_entry [of x] Cons.prems by (simp add: reads_def)
  then show ?case using Cons by simp
qed simp

lemma read_list_cut: "prefix (read_list rd n (take k buf) off) (read_list rd n buf off)"
proof (induction n arbitrary: off)
  case (Suc n)
  then show ?case by (auto split: option.splits dest: reads_cut)
qed simp

lemma parse_encoded:
  assumes "list_all fits xs" and "length xs \<le> limit" and "limit < 2 ^ 32"
  shows "parse_store rd limit (be_bytes4 (word_of_nat (length xs)) @ concat (map enc xs)) = xs"
proof -
  have "unat (word_of_nat (length xs) :: u32) = length xs" using assms(2,3) by (simp add: unat_of_nat)
  then show ?thesis
    using read_list_encoded [OF assms(1), of _ 4 "[]"] readU32_at [of _ 0] assms(2)
    by (simp add: parse_store_def)
qed

lemma parse_cut: "prefix (parse_store rd limit (take k body)) (parse_store rd limit body)"
  using read_list_cut by (auto simp: parse_store_def split: option.splits dest: readU32_cut)

text \<open>
  A saved file is loaded back; with checksums on, a file with the same header and another body is
  loaded only when the checksum of that body is the same; with checksums off, a file that
  was cut is loaded as a prefix of the entries.
\<close>

lemma load_saved:
  assumes "list_all fits xs" and "length xs \<le> limit" and "limit < 2 ^ 32" and "path \<noteq> []"
    and "body = be_bytes4 (word_of_nat (length xs)) @ concat (map enc xs)"
  shows "load_store rd limit path verify (store(path \<mapsto> checksum_header verify body @ body)) = xs"
  using parse_encoded [OF assms(1-3)] assms(4,5) by (simp add: load_store_def store_body_written)

lemma load_corrupted:
  assumes "store path = Some (checksum_header True body @ body')" and "load_store rd limit path True store \<noteq> []"
  shows "sha256hex body' = sha256hex body"
proof -
  have "str_bytes (sha256hex body') = checksum_header True body"
    using assms by (auto simp: load_store_def store_body_header split: if_splits)
  then show ?thesis by (simp add: checksum_header_def)
qed

lemma load_cut:
  assumes "list_all fits xs" and "length xs \<le> limit" and "limit < 2 ^ 32" and "path \<noteq> []"
    and "body = be_bytes4 (word_of_nat (length xs)) @ concat (map enc xs)"
    and "store path = Some (take k (checksum_header v body @ body))"
  shows "prefix (load_store rd limit path False store) xs"
proof -
  have "drop 64 (take k (checksum_header v body @ body)) = take (k - 64) body"
    by (cases "k \<le> 64") (simp_all add: drop_take)
  then have "load_store rd limit path False store = parse_store rd limit (take (k - 64) body)"
    using assms(4,6) by (simp add: load_store_def store_body_def)
  then show ?thesis using parse_cut [of limit "k - 64" body] parse_encoded [OF assms(1-3)] assms(5) by simp
qed

end

section \<open>The two formats\<close>

lemma chunk_at:
  "buf_at buf off (xs @ rest) \<Longrightarrow>
   chunk buf off (length xs) = xs \<and> off + length xs \<le> length buf \<and> buf_at buf (off + length xs) rest"
  by (simp add: chunk_def buf_at_take buf_at_length buf_at_skip)

lemma port_round [simp]: "push_bit 8 (ucast (ucast (drop_bit 8 p AND 0xFF) :: u8)) OR ucast (ucast (p AND 0xFF) :: u8) = (p :: u16)"
  by (rule bit_word_eqI) (auto simp: ucast_and_FF bit_simps)

lemma port_at:
  "buf_at buf off (port_bytes p @ rest) \<Longrightarrow> read_port buf off = p \<and> buf_at buf (off + 2) rest"
  using buf_at_nth [of buf off "port_bytes p" rest 0] buf_at_nth [of buf off "port_bytes p" rest 1]
    buf_at_skip [of buf off "port_bytes p" rest]
  by (simp add: read_port_def port_bytes_def)

definition entry_fits :: "pending_entry \<Rightarrow> bool" where
  "entry_fits e \<longleftrightarrow>
     length (pe_address e) \<le> 256 \<and> length (pe_payload e) \<le> NET_MAX_FRAME_BYTES \<and> proper_type (pe_type e)"

definition peer_fits :: "string \<times> u16 \<Rightarrow> bool" where
  "peer_fits p \<longleftrightarrow> length (fst p) \<le> 256"

lemma len_address: "n \<le> 256 \<Longrightarrow> unat (word_of_nat n :: u32) = n"
  by (simp add: unat_of_nat)


lemma reads_read_entry:
  assumes "entry_fits e" shows "reads read_entry e (entry_bytes e)"
proof (rule readsI)
  fix buf pos rest
  let ?addr = "str_bytes (pe_address e)" and ?pay = "pe_payload e"
  let ?r2 = "be_bytes4 (word_of_nat (length ?pay)) @ ?pay @ rest"
  have fits: "length ?addr \<le> 256" "length ?pay \<le> NET_MAX_FRAME_BYTES" "proper_type (pe_type e)"
    using assms by (simp_all add: entry_fits_def)
  assume "buf_at buf pos (entry_bytes e @ rest)"
  then have b: "buf_at buf pos (be_bytes4 (word_of_nat (length ?addr)) @ ?addr @ port_bytes (pe_port e) @ [net_code (pe_type e)] @ ?r2)"
    by (simp add: entry_bytes_def)
  note b1 = readU32_at [OF b]
  note b2 = chunk_at [OF b1 [THEN conjunct2]]
  note b3 = port_at [OF b2 [THEN conjunct2, THEN conjunct2]]
  note b4 = buf_at_skip [OF b3 [THEN conjunct2]] buf_at_nth [OF b3 [THEN conjunct2], of 0]
  have "buf_at buf (pos + 4 + length ?addr + 2 + 1) ?r2" using b4(1) by simp
  note b5 = readU32_at [OF this]
  note b6 = chunk_at [OF b5 [THEN conjunct2]]
  have t: "net_type_of (buf ! (pos + 4 + length ?addr + 2)) = pe_type e"
    using b4(2) fits(3) by (simp add: proper_type_def)
  have len: "unat (word_of_nat (length ?addr) :: u32) = length ?addr" "unat (word_of_nat (length ?pay) :: u32) = length ?pay"
    using fits by (simp_all add: len_address len_payload)
  show "read_entry buf pos = Some (e, pos + length (entry_bytes e))"
    using b1 b2 b3 b5 b6 t fits(1,2) len buf_at_length [OF b2 [THEN conjunct2, THEN conjunct2]]
    by (simp add: read_entry_def Let_def min_def entry_bytes_def port_bytes_def)
qed

lemma chunk_cut: "off + n \<le> length (take k buf) \<Longrightarrow> chunk (take k buf) off n = chunk buf off n"
  by (auto simp: chunk_def drop_take min_def split: if_splits)

lemma read_entry_cut: "read_entry (take k buf) off = Some r \<Longrightarrow> read_entry buf off = Some r"
  by (auto simp: read_entry_def Let_def chunk_cut read_port_def not_less dest!: readU32_cut split: option.splits if_splits)


lemma reads_read_peer:
  assumes "peer_fits p" shows "reads read_peer p (peer_bytes p)"
proof (rule readsI)
  fix buf pos rest
  let ?addr = "str_bytes (fst p)"
  assume "buf_at buf pos (peer_bytes p @ rest)"
  then have b: "buf_at buf pos (be_bytes4 (word_of_nat (length ?addr)) @ ?addr @ port_bytes (snd p) @ rest)"
    by (simp add: peer_bytes_def)
  note b1 = readU32_at [OF b]
  note b2 = chunk_at [OF b1 [THEN conjunct2]]
  note b3 = port_at [OF b2 [THEN conjunct2, THEN conjunct2]]
  have len: "length ?addr \<le> 256" "unat (word_of_nat (length ?addr) :: u32) = length ?addr"
    using assms by (simp_all add: peer_fits_def len_address)
  show "read_peer buf pos = Some (p, pos + length (peer_bytes p))"
    using b1 b2 b3 len buf_at_length [OF b2 [THEN conjunct2, THEN conjunct2]]
    by (simp add: read_peer_def Let_def min_def peer_bytes_def port_bytes_def)
qed

lemma read_peer_cut: "read_peer (take k buf) off = Some r \<Longrightarrow> read_peer buf off = Some r"
  by (auto simp: read_peer_def Let_def chunk_cut read_port_def not_less dest!: readU32_cut split: option.splits if_splits)

interpretation pending: entry_format read_entry entry_bytes entry_fits
  by unfold_locales (erule reads_read_entry, erule read_entry_cut)

interpretation peers: entry_format read_peer peer_bytes peer_fits
  by unfold_locales (erule reads_read_peer, erule read_peer_cut)

section \<open>Properties\<close>

text \<open>
  crash recovery of the queue of pending messages. A saved queue of at most 100000 entries,
  each with an address of at most 256 characters and a payload of at most 32 MiB, is loaded
  back entry by entry, with checksums on or off, and the other files are untouched. With
  checksums on, a file whose body was changed yields entries only if the changed body has
  the same SHA-256; with checksums off, a file cut at any byte yields the entries before
  the cut, a prefix of what was saved.
\<close>

theorem pending_queue_recovery:
  assumes "list_all entry_fits es" and "length es \<le> 100000" and "path \<noteq> []"
    and "store' = savePendingQueue path es verify store" and "store' path = Some file"
  shows "loadPendingQueue path verify store' = es \<and> (\<forall>p. p \<noteq> path \<longrightarrow> store' p = store p) \<and>
    (verify \<and> loadPendingQueue path True (store'(path \<mapsto> take 64 file @ body')) \<noteq> [] \<longrightarrow>
       sha256hex body' = sha256hex (drop 64 file)) \<and>
    prefix (loadPendingQueue path False (store'(path \<mapsto> take k file))) es"
proof -
  let ?body = "be_bytes4 (word_of_nat (length es)) @ concat (map entry_bytes es)"
  have s: "store' = store(path \<mapsto> checksum_header verify ?body @ ?body)"
    using assms(3,4) by (simp add: savePendingQueue_def Let_def)
  then have f: "file = checksum_header verify ?body @ ?body" using assms(5) by simp
  have lim: "(100000 :: nat) < 2 ^ 32" by simp
  have "loadPendingQueue path verify store' = es"
    unfolding s loadPendingQueue_def by (rule pending.load_saved [OF assms(1,2) lim assms(3) refl])
  moreover have "sha256hex body' = sha256hex (drop 64 file)"
    if "verify" "loadPendingQueue path True (store'(path \<mapsto> take 64 file @ body')) \<noteq> []"
    using pending.load_corrupted [of "store'(path \<mapsto> take 64 file @ body')" path ?body body'] that
    by (simp add: f loadPendingQueue_def)
  moreover have "prefix (loadPendingQueue path False (store'(path \<mapsto> take k file))) es"
    unfolding loadPendingQueue_def f
    by (rule pending.load_cut [OF assms(1,2) lim assms(3) refl]) simp
  ultimately show ?thesis using s by auto
qed

theorem pending_queue_recovery_witness:
  "let e = \<lparr>pe_address = ''node'', pe_port = 4001, pe_type = BlockMsg, pe_payload = [1, 2]\<rparr>
   in loadPendingQueue ''q'' True (savePendingQueue ''q'' [e, e] True (\<lambda>p. None)) = [e, e]"
proof -
  let ?e = "\<lparr>pe_address = ''node'', pe_port = 4001, pe_type = BlockMsg, pe_payload = [1, 2]\<rparr>"
  have "list_all entry_fits [?e, ?e]"
    by (simp add: entry_fits_def NET_MAX_FRAME_BYTES_def proper_named)
  moreover obtain c where "savePendingQueue ''q'' [?e, ?e] True (\<lambda>p. None) ''q'' = Some c"
    by (simp add: savePendingQueue_def Let_def)
  ultimately show ?thesis
    using pending_queue_recovery [of "[?e, ?e]" "''q''" _ True "\<lambda>p. None" c] by (simp add: Let_def)
qed

text \<open>The peer store in the same way.\<close>

lemma peer_store_recovery:
  assumes "list_all peer_fits ps" and "length ps \<le> 10000" and "path \<noteq> []"
  shows "read_peers path verify (write_peers path ps verify store) = ps"
  using peers.load_saved [OF assms(1,2) _ assms(3) refl] assms(3)
  by (simp add: read_peers_def write_peers_def Let_def)

text \<open>
  An entry whose address is longer than 256 characters is read back with a cut address, and the
  rest of the file is out of step.
\<close>

lemma long_address_cut:
  assumes "256 < length a" and "length a < 2 ^ 32"
  shows "\<exists>p off. read_peer (peer_bytes (a, port) @ rest) 0 = Some (p, off) \<and>
     fst p = take 256 a \<and> off < length (peer_bytes (a, port))"
proof -
  have b: "buf_at (peer_bytes (a, port) @ rest) 0
      (be_bytes4 (word_of_nat (length a)) @ str_bytes (take 256 a) @ str_bytes (drop 256 a) @ port_bytes port @ rest)"
    by (simp add: peer_bytes_def flip: str_bytes_append)
  note b1 = readU32_at [OF b]
  note b2 = chunk_at [OF b1 [THEN conjunct2]]
  have "unat (word_of_nat (length a) :: u32) = length a" using assms(2) by (simp add: unat_of_nat)
  then show ?thesis
    using b1 b2 assms(1) by (simp add: read_peer_def Let_def min_def peer_bytes_def port_bytes_def)
qed

end
