(* ===== verification/NetSocket.thy ===== *)
theory NetSocket
  imports NetCodec
begin

text \<open>
  Sending and receiving frames on a socket (\<^verbatim>\<open>sendRaw\<close>, \<^verbatim>\<open>recvFrameRaw\<close> in
  \<^verbatim>\<open>src/src/network.cpp\<close>). The operating system is a list of outcomes, one per system
  call: so many bytes are transferred, the call is interrupted, it fails. A connection
  whose incoming bytes are used up is closed.
\<close>

section \<open>System calls\<close>

datatype sys_outcome = Transfers nat | Interrupted | Fails

record conn =
  cn_incoming :: bytes          \<comment> \<open>what the peer has still sent\<close>
  cn_sent :: bytes              \<comment> \<open>what was sent to the peer\<close>
  cn_calls :: "sys_outcome list"

datatype sys_result = Got bytes | Closed | Again | Failed

text \<open>\<^verbatim>\<open>recv\<close>: at most \<open>want\<close> bytes, at least one; 0 when the peer has closed.\<close>

definition sys_recv :: "nat \<Rightarrow> conn \<Rightarrow> sys_result \<times> conn" where
  "sys_recv want c =
     (case cn_calls c of
        Interrupted # cs \<Rightarrow> (Again, c\<lparr>cn_calls := cs\<rparr>)
      | Fails # cs \<Rightarrow> (Failed, c\<lparr>cn_calls := cs\<rparr>)
      | cs \<Rightarrow>
          let n = min want (case cs of Transfers k # _ \<Rightarrow> max 1 k | _ \<Rightarrow> want);
              c = c\<lparr>cn_calls := tl cs\<rparr>
          in if cn_incoming c = [] then (Closed, c)
             else (Got (take n (cn_incoming c)), c\<lparr>cn_incoming := drop n (cn_incoming c)\<rparr>))"

text \<open>\<^verbatim>\<open>send\<close> of \<open>data\<close>: the number of bytes taken.\<close>

definition sys_send :: "bytes \<Rightarrow> conn \<Rightarrow> sys_result \<times> conn" where
  "sys_send data c =
     (case cn_calls c of
        Interrupted # cs \<Rightarrow> (Again, c\<lparr>cn_calls := cs\<rparr>)
      | Fails # cs \<Rightarrow> (Failed, c\<lparr>cn_calls := cs\<rparr>)
      | cs \<Rightarrow>
          let n = (case cs of Transfers k # _ \<Rightarrow> k | _ \<Rightarrow> length data)
          in if n = 0 then (Closed, c\<lparr>cn_calls := tl cs\<rparr>)
             else (Got (take n data), c\<lparr>cn_calls := tl cs, cn_sent := cn_sent c @ take n data\<rparr>))"

lemma sys_recv_Got:
  assumes "sys_recv want c = (Got bs, c')" and "0 < want"
  shows "bs \<noteq> []" "length bs \<le> want" "cn_incoming c = bs @ cn_incoming c'"
  using assms by (auto simp: sys_recv_def Let_def split: list.splits sys_outcome.splits if_splits)

lemma sys_recv_Again: "sys_recv want c = (Again, c') \<Longrightarrow> cn_incoming c' = cn_incoming c"
  by (auto simp: sys_recv_def Let_def split: list.splits sys_outcome.splits if_splits)

section \<open>The loops\<close>

lemma eintr_dec: "0 < (e :: u32) \<Longrightarrow> unat (e - 1) < unat e"
proof -
  assume "0 < e"
  then have "e \<noteq> 0" "0 < unat e" by (simp_all add: word_gt_0 unat_gt_0)
  then show ?thesis by (simp add: unat_minus_one)
qed

text \<open>\<^verbatim>\<open>sendRaw\<close>: the budget for interruptions is renewed by every transfer.\<close>

function sendRaw :: "u32 \<Rightarrow> bytes \<Rightarrow> u32 \<Rightarrow> conn \<Rightarrow> bool \<times> conn" where
  "sendRaw maxEINTR remaining eintr c =
     (if remaining = [] then (True, c)
      else
        case sys_send remaining c of
          (Got sent, c) \<Rightarrow> if sent = [] then (False, c) else sendRaw maxEINTR (drop (length sent) remaining) maxEINTR c
        | (Again, c) \<Rightarrow> if eintr > 0 then sendRaw maxEINTR remaining (eintr - 1) c else (False, c)
        | (_, c) \<Rightarrow> (False, c))"
  by pat_completeness auto
termination
  by (relation "measures [\<lambda>(m, r, e, c). length r, \<lambda>(m, r, e, c). unat e]") (auto intro: eintr_dec)

declare sendRaw.simps [simp del]

text \<open>The two receiving loops: \<open>want\<close> more bytes behind \<open>got\<close>; the message on failure.\<close>

function recv_loop :: "string \<Rightarrow> nat \<Rightarrow> bytes \<Rightarrow> u32 \<Rightarrow> conn \<Rightarrow> (string + bytes) \<times> conn" where
  "recv_loop closed goal got eintr c =
     (if length got \<ge> goal then (Inr got, c)
      else
        case sys_recv (goal - length got) c of
          (Got bs, c) \<Rightarrow> if bs = [] then (Inl closed, c) else recv_loop closed goal (got @ bs) eintr c
        | (Closed, c) \<Rightarrow> (Inl closed, c)
        | (Again, c) \<Rightarrow> if eintr > 0 then recv_loop closed goal got (eintr - 1) c else (Inl ''errno'', c)
        | (Failed, c) \<Rightarrow> (Inl ''errno'', c))"
  by pat_completeness auto
termination
  by (relation "measures [\<lambda>(m, t, g, e, c). t - length g, \<lambda>(m, t, g, e, c). unat e]")
     (auto intro: eintr_dec intro!: diff_less_mono2 simp: not_le)

declare recv_loop.simps [simp del]

definition recvFrameRaw :: "u32 \<Rightarrow> conn \<Rightarrow> (string + net_frame) \<times> conn" where
  "recvFrameRaw maxEINTR c =
     (case recv_loop ''closed'' NET_HEADER_BYTES [] maxEINTR c of
        (Inl e, c) \<Rightarrow> (Inl e, c)
      | (Inr hdr, c) \<Rightarrow>
          let payLen = unat (be_word4 (hdr ! 5) (hdr ! 6) (hdr ! 7) (hdr ! 8))
          in if payLen > NET_MAX_FRAME_BYTES then (Inl (''oversized '' @ show_nat payLen), c)
             else
               case recv_loop ''closed mid-frame'' (NET_HEADER_BYTES + payLen) hdr maxEINTR c of
                 (Inl e, c) \<Rightarrow> (Inl e, c)
               | (Inr buf, c) \<Rightarrow>
                   let r = net_decodeFrame (Some buf)
                   in if \<not> nd_ok r then (Inl (decodeErrorName (nd_error r)), c)
                      else (Inr (the (nd_frame r)), c))"

section \<open>Reassembly\<close>

text \<open>A benign system: no call fails, and at most \<open>n\<close> are interrupted.\<close>

definition benign :: "nat \<Rightarrow> conn \<Rightarrow> bool" where
  "benign n c \<longleftrightarrow> Fails \<notin> set (cn_calls c) \<and> length (filter (\<lambda>r. r = Interrupted) (cn_calls c)) \<le> n"

lemma recv_loop_benign:
  assumes "benign (unat eintr) c" and "length got \<le> goal" and "cn_incoming c = bs @ rest"
    and "length bs = goal - length got"
  shows "\<exists>c'. recv_loop closed goal got eintr c = (Inr (got @ bs), c') \<and> cn_incoming c' = rest \<and>
    benign (unat eintr) c'"
  using assms
proof (induction closed goal got eintr c arbitrary: bs rule: recv_loop.induct)
  case (1 closed goal got eintr c)
  show ?case
  proof (cases "length got \<ge> goal")
    case True
    then show ?thesis using 1(3-6) by (simp add: recv_loop.simps [of _ _ got])
  next
    case False
    then have bs: "bs \<noteq> []" "cn_incoming c \<noteq> []" using 1(5,6) by auto
    obtain r c1 where s: "sys_recv (goal - length got) c = (r, c1)" by fastforce
    consider (got) b where "r = Got b" | (again) "r = Again"
      using s bs 1(3) by (cases r) (auto simp: sys_recv_def Let_def benign_def split: list.splits sys_outcome.splits if_splits)
    then show ?thesis
    proof cases
      case got
      have b: "b \<noteq> []" "length b \<le> goal - length got" "bs @ rest = b @ cn_incoming c1"
        using sys_recv_Got [OF s [unfolded got]] False 1(5) by auto
      then obtain bs' where bs': "bs = b @ bs'" "cn_incoming c1 = bs' @ rest"
        using 1(6) by (auto simp: append_eq_append_conv2)
      have ben: "benign (unat eintr) c1"
        using 1(3) s got by (auto simp: sys_recv_def Let_def benign_def split: list.splits sys_outcome.splits if_splits)
      have l: "length (got @ b) \<le> goal" "length bs' = goal - length (got @ b)"
        using b(2) bs'(1) 1(6) False by auto
      obtain c' where "recv_loop closed goal (got @ b) eintr c1 = (Inr ((got @ b) @ bs'), c')"
        "cn_incoming c' = rest" "benign (unat eintr) c'"
        using 1(1) [OF False s [symmetric] got b(1) ben l(1) bs'(2) l(2)] by auto
      then show ?thesis using False s got b bs' by (simp add: recv_loop.simps [of _ _ got])
    next
      case again
      have ben: "benign (unat eintr - 1) c1" "0 < unat eintr"
        using 1(3) s again
        by (auto simp: sys_recv_def Let_def benign_def split: list.splits sys_outcome.splits if_splits)
      then have e: "0 < eintr" "unat (eintr - 1) = unat eintr - 1"
        by (simp_all add: word_gt_0 unat_minus_one unat_gt_0)
      have "cn_incoming c1 = bs @ rest" using sys_recv_Again [OF s [unfolded again]] 1(5) by simp
      then obtain c' where "recv_loop closed goal got (eintr - 1) c1 = (Inr (got @ bs), c')"
        "cn_incoming c' = rest" "benign (unat (eintr - 1)) c'"
        using 1(2) [OF False s [symmetric] again e(1)] ben e 1(4,6) by auto
      then show ?thesis using False s again e by (auto simp: recv_loop.simps [of _ _ got] benign_def)
    qed
  qed
qed


text \<open>Sending delivers everything, or a proper prefix and an error.\<close>

lemma sys_send_Got:
  assumes "sys_send data c = (Got bs, c')" and "data \<noteq> []"
  shows "bs \<noteq> []" "\<exists>more. data = bs @ more" "cn_sent c' = cn_sent c @ bs"
  using assms by (auto simp: sys_send_def Let_def intro: exI [of _ "drop k data" for k]
      split: list.splits sys_outcome.splits if_splits) (metis append_take_drop_id)+

lemma sys_send_other:
  assumes "sys_send data c = (r, c')" and "\<And>bs. r \<noteq> Got bs"
  shows "cn_sent c' = cn_sent c"
  using assms by (auto simp: sys_send_def Let_def split: list.splits sys_outcome.splits if_splits)

lemma sendRaw_prefix:
  "\<exists>sent more. data = sent @ more \<and> cn_sent (snd (sendRaw m data e c)) = cn_sent c @ sent \<and>
     (fst (sendRaw m data e c) \<longleftrightarrow> more = [])"
proof (induction m data e c rule: sendRaw.induct)
  case (1 m data e c)
  show ?case
  proof (cases "data = []")
    case False
    obtain r c1 where s: "sys_send data c = (r, c1)" by fastforce
    show ?thesis
    proof (cases r)
      case (Got bs)
      have b: "bs \<noteq> []" "\<exists>more. data = bs @ more" "cn_sent c1 = cn_sent c @ bs"
        using sys_send_Got [OF s [unfolded Got] False] by auto
      then obtain more where d: "data = bs @ more" by blast
      obtain sent more' where "more = sent @ more'" "cn_sent (snd (sendRaw m more m c1)) = cn_sent c1 @ sent"
        "fst (sendRaw m more m c1) \<longleftrightarrow> more' = []"
        using 1(1) [OF False s [symmetric] Got b(1)] d by auto
      moreover have "sendRaw m data e c = sendRaw m (drop (length bs) data) m c1"
        using False s Got b(1) by (simp add: sendRaw.simps [of m data])
      ultimately have "data = (bs @ sent) @ more' \<and> cn_sent (snd (sendRaw m data e c)) = cn_sent c @ (bs @ sent) \<and>
          (fst (sendRaw m data e c) \<longleftrightarrow> more' = [])"
        using b d by simp
      then show ?thesis by blast
    next
      case Again
      have c1: "cn_sent c1 = cn_sent c" using sys_send_other [OF s] Again by simp
      show ?thesis
      proof (cases "0 < e")
        case True
        then show ?thesis
          using 1(2) [OF False s [symmetric] Again True] False s Again c1 by (simp add: sendRaw.simps [of _ data])
      next
        case False
        then show ?thesis
          using \<open>data \<noteq> []\<close> s Again c1 by (intro exI [of _ "[]"] exI [of _ data]) (simp add: sendRaw.simps [of _ data])
      qed
    qed (use False s sys_send_other [OF s] in
        \<open>auto simp: sendRaw.simps [of _ data] intro!: exI [of _ "[]"] exI [of _ data]\<close>)
  qed (simp add: sendRaw.simps [of _ "[]"])
qed

lemma recv_frame:
  assumes "benign (unat maxEINTR) c" and "cn_incoming c = net_bytes f @ rest"
    and "length (nf_payload f) \<le> NET_MAX_FRAME_BYTES" and "proper_type (nf_type f)"
  shows "\<exists>c'. recvFrameRaw maxEINTR c =
      (if nf_type f = UnknownMsg then Inl ''BadMessageType''
       else if nf_type f = VersionMsg \<and> nf_payload f \<noteq> [] \<and> hd (nf_payload f) \<noteq> 1 then Inl ''VersionMismatch''
       else Inr (f\<lparr>nf_version := PROTOCOL_VERSION\<rparr>), c') \<and> cn_incoming c' = rest"
proof -
  let ?len = "word_of_nat (length (nf_payload f)) :: u32"
  let ?hdr = "FRAME_MAGIC @ net_code (nf_type f) # be_bytes4 ?len"
  have bytes: "net_bytes f = ?hdr @ nf_payload f" by (simp add: net_bytes_def)
  have hdr: "length ?hdr = NET_HEADER_BYTES"
    "unat (be_word4 (?hdr ! 5) (?hdr ! 6) (?hdr ! 7) (?hdr ! 8)) = length (nf_payload f)"
    using frame_header [of "net_code (nf_type f)" ?len "[]"] len_payload [OF assms(3)] by simp_all
  obtain c1 where 1: "recv_loop ''closed'' NET_HEADER_BYTES [] maxEINTR c = (Inr ?hdr, c1)"
    "cn_incoming c1 = nf_payload f @ rest" "benign (unat maxEINTR) c1"
    using recv_loop_benign [OF assms(1), of "[]" NET_HEADER_BYTES ?hdr "nf_payload f @ rest"] hdr(1) assms(2) bytes
    by auto
  obtain c2 where 2: "recv_loop ''closed mid-frame'' (NET_HEADER_BYTES + length (nf_payload f)) ?hdr maxEINTR c1 =
      (Inr (?hdr @ nf_payload f), c2)" "cn_incoming c2 = rest"
    using recv_loop_benign [OF 1(3), of ?hdr "NET_HEADER_BYTES + length (nf_payload f)" "nf_payload f" rest] hdr(1) 1(2)
    by auto
  have "net_decodeFrame (Some (?hdr @ nf_payload f)) = net_decodeFrame (Some (net_bytes f @ []))"
    by (simp add: bytes)
  then have "recvFrameRaw maxEINTR c =
      (if nf_type f = UnknownMsg then Inl ''BadMessageType''
       else if nf_type f = VersionMsg \<and> nf_payload f \<noteq> [] \<and> hd (nf_payload f) \<noteq> 1 then Inl ''VersionMismatch''
       else Inr (f\<lparr>nf_version := PROTOCOL_VERSION\<rparr>), c2)"
    unfolding recvFrameRaw_def 1(1) sum.case prod.case hdr(2) Let_def 2(1) decode_net_bytes [OF assms(3,4)]
    using assms(3) by simp
  then show ?thesis using 2(2) by blast
qed

section \<open>Properties\<close>

text \<open>
  frames survive the socket. Whatever part of the data each system call transfers and however
  interruptions fall, as long as no call fails and they stay within the retry budget, the
  receiver gets exactly the frame that was sent, with the version set, and leaves what
  follows it on the connection; a frame the decoder refuses is reported by its error name.
  And a sender reports success exactly when every byte went out, a failure meaning that a
  proper prefix did.
\<close>

theorem frames_survive_the_socket:
  assumes "benign (unat maxEINTR) c" and "cn_incoming c = net_bytes f @ rest"
    and "length (nf_payload f) \<le> NET_MAX_FRAME_BYTES" and "proper_type (nf_type f)"
  shows "(\<exists>c'. recvFrameRaw maxEINTR c =
      (if nf_type f = UnknownMsg then Inl ''BadMessageType''
       else if nf_type f = VersionMsg \<and> nf_payload f \<noteq> [] \<and> hd (nf_payload f) \<noteq> 1 then Inl ''VersionMismatch''
       else Inr (f\<lparr>nf_version := PROTOCOL_VERSION\<rparr>), c') \<and> cn_incoming c' = rest) \<and>
    (\<exists>sent more. data = sent @ more \<and> cn_sent (snd (sendRaw m data e d)) = cn_sent d @ sent \<and>
       (fst (sendRaw m data e d) \<longleftrightarrow> more = []))"
  using recv_frame [OF assms] sendRaw_prefix by blast

theorem frames_survive_the_socket_witness:
  "fst (recvFrameRaw 3 \<lparr>cn_incoming = net_bytes \<lparr>nf_type = BlockMsg, nf_payload = [1, 2], nf_version = 1\<rparr>,
      cn_sent = [], cn_calls = [Transfers 2, Interrupted, Transfers 1]\<rparr>) =
     Inr \<lparr>nf_type = BlockMsg, nf_payload = [1, 2], nf_version = 1\<rparr>"
  using frames_survive_the_socket [THEN conjunct1, of 3 "\<lparr>cn_incoming = net_bytes \<lparr>nf_type = BlockMsg, nf_payload = [1, 2], nf_version = 1\<rparr>,
      cn_sent = [], cn_calls = [Transfers 2, Interrupted, Transfers 1]\<rparr>"
      "\<lparr>nf_type = BlockMsg, nf_payload = [1, 2], nf_version = 1\<rparr>" "[]"]
  by (auto simp: benign_def NET_MAX_FRAME_BYTES_def proper_named PROTOCOL_VERSION_def)

end
