(* ===== verification/NetMetrics.thy ===== *)
theory NetMetrics
  imports Complex_Main NetCodec
begin

text \<open>
  The counters of the network layer: the 60-second window (\<^verbatim>\<open>WindowedCounter\<close>), the
  metrics and their export, reset and alerts (\<^verbatim>\<open>src/include/network.h\<close>,
  \<^verbatim>\<open>src/src/network.cpp\<close>). A counter is a 64-bit word and wraps around.
\<close>

section \<open>The windowed counter\<close>

definition WINDOW_SLOTS :: nat where "WINDOW_SLOTS = 60"

record window =
  win_slots :: "u64 list"
  win_lastEpoch :: u64

definition new_window :: window where
  "new_window = \<lparr>win_slots = replicate WINDOW_SLOTS 0, win_lastEpoch = 0\<rparr>"

text \<open>\<open>cas\<close>: whether \<^verbatim>\<open>compare_exchange_weak\<close> succeeds, which it may fail to do spuriously.\<close>

definition window_record :: "bool \<Rightarrow> u64 \<Rightarrow> u64 \<Rightarrow> window \<Rightarrow> window" where
  "window_record cas value epochSec w =
     (let slot = unat epochSec mod WINDOW_SLOTS;
          w = (if epochSec \<noteq> win_lastEpoch w \<and> cas
               then w\<lparr>win_lastEpoch := epochSec, win_slots := (win_slots w)[slot := 0]\<rparr> else w)
      in w\<lparr>win_slots := (win_slots w)[slot := win_slots w ! slot + value]\<rparr>)"

definition window_sum :: "window \<Rightarrow> u64" where
  "window_sum w = foldl (\<lambda>total s. total + s) 0 (win_slots w)"

section \<open>The metrics\<close>

datatype net_counter =
    BlocksReceived | BlocksSent | TxReceived | TxSent | BytesIn | BytesOut |
    ConnectionsAttempted | ConnectionsAccepted | ConnectionsRejected | ConnectionsDropped |
    ActivePeers | BanEvents | RateLimitEvents | ByteQuotaEvents | OversizedFrames | DecodeErrors
    | DecodeTooShort | DecodeBadMagic | DecodeOversized | DecodePayloadTrunc | DecodeAllocFailed
    | DecodeVersionMismatch | DecodeBadMsgType | HandshakeFailed | ReplayRejected |
    BadMagicFrames | TlsHandshakeFailed | AutoBanOnDecodeError | BroadcastAttempts |
    BroadcastSucceeded | BroadcastFailed | SlowPeerDisconnects | SendRetries | SendQueueFull |
    PendingQueueRecovered | PeersEvicted

record net_metrics =
  mt_count :: "net_counter \<Rightarrow> u64"
  mt_qpsIn :: window
  mt_qpsOut :: window
  mt_bwIn :: window
  mt_bwOut :: window

definition zero_metrics :: net_metrics where
  "zero_metrics =
     \<lparr>mt_count = (\<lambda>c. 0), mt_qpsIn = new_window, mt_qpsOut = new_window, mt_bwIn = new_window, mt_bwOut = new_window\<rparr>"

text \<open>\<^verbatim>\<open>fetch_add\<close> and \<^verbatim>\<open>fetch_sub\<close>.\<close>

definition count_add :: "net_counter \<Rightarrow> u64 \<Rightarrow> net_metrics \<Rightarrow> net_metrics" where
  "count_add c n m = m\<lparr>mt_count := (mt_count m)(c := mt_count m c + n)\<rparr>"

definition recordDecodeError :: "net_error \<Rightarrow> net_metrics \<Rightarrow> net_metrics" where
  "recordDecodeError err m =
     (let m = count_add DecodeErrors 1 m in
      case err of
        TooShort \<Rightarrow> count_add DecodeTooShort 1 m
      | BadMagic \<Rightarrow> count_add BadMagicFrames 1 (count_add DecodeBadMagic 1 m)
      | OversizedFrame \<Rightarrow> count_add OversizedFrames 1 (count_add DecodeOversized 1 m)
      | PayloadTrunc \<Rightarrow> count_add DecodePayloadTrunc 1 m
      | AllocFailed \<Rightarrow> count_add DecodeAllocFailed 1 m
      | VersionMismatch \<Rightarrow> count_add DecodeVersionMismatch 1 m
      | BadMessageType \<Rightarrow> count_add DecodeBadMsgType 1 m
      | _ \<Rightarrow> m)"

text \<open>The exported names and values, in the order of \<^verbatim>\<open>toPrometheusText\<close>.\<close>

definition prometheus_values :: "net_metrics \<Rightarrow> (string \<times> u64) list" where
  "prometheus_values m =
     [(''blocks_received_total'', mt_count m BlocksReceived),
      (''blocks_sent_total'', mt_count m BlocksSent),
      (''tx_received_total'', mt_count m TxReceived),
      (''tx_sent_total'', mt_count m TxSent),
      (''bytes_in_total'', mt_count m BytesIn),
      (''bytes_out_total'', mt_count m BytesOut),
      (''connections_attempted_total'', mt_count m ConnectionsAttempted),
      (''connections_accepted_total'', mt_count m ConnectionsAccepted),
      (''connections_rejected_total'', mt_count m ConnectionsRejected),
      (''connections_dropped_total'', mt_count m ConnectionsDropped),
      (''active_peers'', mt_count m ActivePeers),
      (''ban_events_total'', mt_count m BanEvents),
      (''rate_limit_events_total'', mt_count m RateLimitEvents),
      (''byte_quota_events_total'', mt_count m ByteQuotaEvents),
      (''oversized_frames_total'', mt_count m OversizedFrames),
      (''decode_errors_total'', mt_count m DecodeErrors),
      (''decode_too_short_total'', mt_count m DecodeTooShort),
      (''decode_bad_magic_total'', mt_count m DecodeBadMagic),
      (''decode_oversized_total'', mt_count m DecodeOversized),
      (''decode_payload_trunc_total'', mt_count m DecodePayloadTrunc),
      (''decode_alloc_failed_total'', mt_count m DecodeAllocFailed),
      (''decode_version_mismatch_total'', mt_count m DecodeVersionMismatch),
      (''decode_bad_msg_type_total'', mt_count m DecodeBadMsgType),
      (''handshake_failed_total'', mt_count m HandshakeFailed),
      (''replay_rejected_total'', mt_count m ReplayRejected),
      (''bad_magic_frames_total'', mt_count m BadMagicFrames),
      (''tls_handshake_failed_total'', mt_count m TlsHandshakeFailed),
      (''auto_ban_decode_error_total'', mt_count m AutoBanOnDecodeError),
      (''broadcast_attempts_total'', mt_count m BroadcastAttempts),
      (''broadcast_succeeded_total'', mt_count m BroadcastSucceeded),
      (''broadcast_failed_total'', mt_count m BroadcastFailed),
      (''slow_peer_disconnects_total'', mt_count m SlowPeerDisconnects),
      (''send_retries_total'', mt_count m SendRetries),
      (''send_queue_full_total'', mt_count m SendQueueFull),
      (''pending_queue_recovered_total'', mt_count m PendingQueueRecovered),
      (''peers_evicted_total'', mt_count m PeersEvicted),
      (''qps_in_60s'', window_sum (mt_qpsIn m)),
      (''qps_out_60s'', window_sum (mt_qpsOut m)),
      (''bw_in_60s_bytes'', window_sum (mt_bwIn m)),
      (''bw_out_60s_bytes'', window_sum (mt_bwOut m))]"

definition toPrometheusText :: "net_metrics \<Rightarrow> string" where
  "toPrometheusText m =
     concat (map (\<lambda>(name, val). ''medorcoin_p2p_'' @ name @ '' '' @ show_u64 val @ [CHR 0x0A]) (prometheus_values m))"

definition toSummaryLine :: "net_metrics \<Rightarrow> string" where
  "toSummaryLine m =
     ''[NetMetrics]'' @ '' peers='' @ show_u64 (mt_count m ActivePeers)
     @ '' blkRx='' @ show_u64 (mt_count m BlocksReceived) @ '' blkTx='' @ show_u64 (mt_count m BlocksSent)
     @ '' txRx='' @ show_u64 (mt_count m TxReceived) @ '' txTx='' @ show_u64 (mt_count m TxSent)
     @ '' bIn='' @ show_u64 (mt_count m BytesIn) @ '' bOut='' @ show_u64 (mt_count m BytesOut)
     @ '' bans='' @ show_u64 (mt_count m BanEvents) @ '' decErr='' @ show_u64 (mt_count m DecodeErrors)
     @ '' qpsIn='' @ show_u64 (window_sum (mt_qpsIn m)) @ '' bwIn='' @ show_u64 (window_sum (mt_bwIn m))"

definition reset_counters :: "net_counter list" where
  "reset_counters =
    [BlocksReceived, BlocksSent, TxReceived, TxSent, BytesIn, BytesOut, ConnectionsAttempted,
     ConnectionsAccepted, ConnectionsRejected, ConnectionsDropped, BanEvents,
     RateLimitEvents, ByteQuotaEvents, OversizedFrames, DecodeErrors, HandshakeFailed,
     ReplayRejected, BadMagicFrames, TlsHandshakeFailed, AutoBanOnDecodeError,
     DecodeTooShort, DecodeBadMagic, DecodeOversized, DecodePayloadTrunc, DecodeAllocFailed,
     DecodeVersionMismatch, DecodeBadMsgType, BroadcastAttempts, BroadcastSucceeded,
     BroadcastFailed, SlowPeerDisconnects, SendRetries, SendQueueFull,
     PendingQueueRecovered, PeersEvicted]"

definition resetMetrics :: "net_metrics \<Rightarrow> net_metrics" where
  "resetMetrics m = foldl (\<lambda>m c. m\<lparr>mt_count := (mt_count m)(c := 0)\<rparr>) m reset_counters"

section \<open>Alerts\<close>

text \<open>A call of the alert handler: metric, value, threshold. No handler, no call.\<close>

type_synonym alert = "string \<times> u64 \<times> u64"

definition checkAlert :: "bool \<Rightarrow> string \<Rightarrow> u64 \<Rightarrow> u64 \<Rightarrow> alert list" where
  "checkAlert handler metric value threshold =
     (if value < threshold then [] else if handler then [(metric, value, threshold)] else [])"

record alert_config =
  ac_maxBanPerMin :: u64
  ac_maxFailSendPerMin :: u64
  ac_maxDecErrPerMin :: u64
  ac_minBroadcastSuccessRate :: rat

text \<open>One round of \<^verbatim>\<open>runAlertChecker\<close>; the rate is a rational number.\<close>

definition percent :: "rat \<Rightarrow> u64" where
  "percent r = word_of_int \<lfloor>r * 100\<rfloor>"

definition alert_round :: "bool \<Rightarrow> alert_config \<Rightarrow> net_metrics \<Rightarrow> alert list" where
  "alert_round handler a m =
     (let att = mt_count m BroadcastAttempts; suc = mt_count m BroadcastSucceeded;
          rate = rat_of_nat (unat suc) / rat_of_nat (unat att)
      in checkAlert handler ''ban_events'' (mt_count m BanEvents) (ac_maxBanPerMin a)
         @ checkAlert handler ''failed_sends'' (mt_count m BroadcastFailed) (ac_maxFailSendPerMin a)
         @ checkAlert handler ''decode_errors'' (mt_count m DecodeErrors) (ac_maxDecErrPerMin a)
         @ (if att > 0 \<and> rate < ac_minBroadcastSuccessRate a
            then checkAlert handler ''broadcast_success_rate'' (percent rate) (percent (ac_minBroadcastSuccessRate a))
            else []))"

section \<open>Lemmas\<close>

lemma mt_count_add [simp]: "mt_count (count_add c n m) d = (if d = c then mt_count m c + n else mt_count m d)"
  by (simp add: count_add_def)

text \<open>Reset keeps the number of active peers and the windows, and zeroes everything else.\<close>

lemma resetMetrics_exact:
  "mt_count (resetMetrics m) c = (if c = ActivePeers then mt_count m c else 0)"
  "mt_qpsIn (resetMetrics m) = mt_qpsIn m"
proof -
  have 1: "mt_count (foldl (\<lambda>m c. m\<lparr>mt_count := (mt_count m)(c := 0)\<rparr>) m cs) c =
      (if c \<in> set cs then 0 else mt_count m c)" for cs
    by (induction cs arbitrary: m) auto
  have 2: "mt_qpsIn (foldl (\<lambda>m c. m\<lparr>mt_count := (mt_count m)(c := 0)\<rparr>) m cs) = mt_qpsIn m" for cs
    by (induction cs arbitrary: m) auto
  have 3: "c \<in> set reset_counters \<longleftrightarrow> c \<noteq> ActivePeers"
    by (cases c) (simp_all add: reset_counters_def)
  show "mt_count (resetMetrics m) c = (if c = ActivePeers then mt_count m c else 0)"
    by (simp only: resetMetrics_def 1 3) simp
  show "mt_qpsIn (resetMetrics m) = mt_qpsIn m" by (simp add: resetMetrics_def 2)
qed

section \<open>Properties\<close>

text \<open>What was recorded at each epoch, in the order of the calls.\<close>

definition window_run :: "(u64 \<times> u64) list \<Rightarrow> window" where
  "window_run calls = foldl (\<lambda>w (epoch, value). window_record True value epoch w) new_window calls"

text \<open>The epoch last seen in a slot, and what was recorded in it.\<close>

definition slot_epoch :: "(u64 \<times> u64) list \<Rightarrow> nat \<Rightarrow> u64 option" where
  "slot_epoch calls s =
     (let es = filter (\<lambda>(e, v). unat e mod WINDOW_SLOTS = s) calls in if es = [] then None else Some (fst (last es)))"

definition epoch_total :: "(u64 \<times> u64) list \<Rightarrow> u64 \<Rightarrow> u64" where
  "epoch_total calls e = sum_list (map snd (filter (\<lambda>(e', v). e' = e) calls))"


lemma window_run_snoc: "window_run (calls @ [(e, v)]) = window_record True v e (window_run calls)"
  by (simp add: window_run_def)

lemma length_window [simp]: "length (win_slots (window_run calls)) = 60"
proof (induction calls rule: rev_induct)
  case (snoc c calls)
  then show ?case by (cases c) (simp add: window_run_snoc window_record_def Let_def)
qed (simp add: window_run_def new_window_def WINDOW_SLOTS_def)

lemma last_epoch: "win_lastEpoch (window_run calls) = (if calls = [] then 0 else fst (last calls))"
proof (induction calls rule: rev_induct)
  case (snoc c calls)
  then show ?case by (cases c) (simp add: window_run_snoc window_record_def Let_def)
qed (simp add: window_run_def new_window_def)

lemma slot_epoch_snoc:
  "slot_epoch (calls @ [(e, v)]) s = (if unat e mod WINDOW_SLOTS = s then Some e else slot_epoch calls s)"
  by (simp add: slot_epoch_def Let_def)

lemma epoch_total_snoc: "epoch_total (calls @ [(e, v)]) e' = epoch_total calls e' + (if e' = e then v else 0)"
  by (simp add: epoch_total_def)

lemma window_slot:
  assumes "sorted (map fst calls)" and "s < 60"
  shows "win_slots (window_run calls) ! s = (case slot_epoch calls s of None \<Rightarrow> 0 | Some e \<Rightarrow> epoch_total calls e)"
  using assms(1)
proof (induction calls rule: rev_induct)
  case Nil
  then show ?case using assms(2) by (simp add: window_run_def new_window_def WINDOW_SLOTS_def slot_epoch_def)
next
  case (snoc c calls)
  obtain e v where c: "c = (e, v)" by fastforce
  have le: "\<forall>x\<in>set calls. fst x \<le> e" and IH: "win_slots (window_run calls) ! s =
      (case slot_epoch calls s of None \<Rightarrow> 0 | Some e \<Rightarrow> epoch_total calls e)"
    using snoc by (auto simp: c sorted_append)
  let ?slot = "unat e mod WINDOW_SLOTS" and ?last = "win_lastEpoch (window_run calls)"
  have slot60: "?slot < 60" by (simp add: WINDOW_SLOTS_def)
  show ?case
  proof (cases "s = ?slot")
    case False
    have "epoch_total (calls @ [(e, v)]) e' = epoch_total calls e'" if "slot_epoch calls s = Some e'" for e'
    proof -
      have "last (filter (\<lambda>(e, v). unat e mod WINDOW_SLOTS = s) calls) \<in> set (filter (\<lambda>(e, v). unat e mod WINDOW_SLOTS = s) calls)"
        using that by (intro last_in_set) (simp add: slot_epoch_def Let_def split: if_splits)
      then have "unat e' mod WINDOW_SLOTS = s"
        using that by (auto simp: slot_epoch_def Let_def split: if_splits)
      then show ?thesis using False by (auto simp: epoch_total_snoc)
    qed
    moreover have "win_slots (window_run (calls @ [c])) ! s = win_slots (window_run calls) ! s"
      using False by (simp add: c window_run_snoc window_record_def Let_def)
    ultimately show ?thesis using IH False by (simp add: c slot_epoch_snoc split: option.split)
  next
    case True
    have "win_slots (window_run (calls @ [c])) ! s = (if e \<noteq> ?last then 0 else win_slots (window_run calls) ! s) + v"
      using slot60 True by (auto simp: c window_run_snoc window_record_def Let_def)
    moreover have "epoch_total calls e = (if e \<noteq> ?last then 0 else win_slots (window_run calls) ! s)"
    proof (cases "calls = [] \<or> e \<noteq> ?last")
      case True
      have "filter (\<lambda>(e', v). e' = e) calls = []"
      proof (cases calls rule: rev_exhaust)
        case (snoc ys y)
        then have "fst y \<noteq> e" "fst y \<le> e" using True le last_epoch [of calls] by auto
        moreover have "\<forall>x\<in>set calls. fst x \<le> fst y" using snoc.prems snoc by (auto simp: sorted_append)
        ultimately show ?thesis by (force simp: filter_empty_conv)
      qed simp
      then show ?thesis
        using True assms(2) by (auto simp: epoch_total_def window_run_def new_window_def WINDOW_SLOTS_def)
    next
      case nonempty: False
      then have "slot_epoch calls s = Some e"
        using True last_epoch [of calls] by (cases calls rule: rev_exhaust) (auto simp: slot_epoch_snoc)
      then show ?thesis using IH nonempty by simp
    qed
    ultimately show ?thesis using True by (simp add: c slot_epoch_snoc epoch_total_snoc)
  qed
qed

lemma window_sum_slots: "window_sum w = sum_list (win_slots w)"
proof -
  have "foldl (\<lambda>total s. total + s) t xs = t + sum_list xs" for t :: u64 and xs
    by (induction xs arbitrary: t) (simp_all add: add.assoc)
  then show ?thesis by (simp add: window_sum_def)
qed

text \<open>
  the 60-second window. After any calls in the order of time, every slot holds exactly what
  was recorded in the last second that fell into it, however long ago that is: a slot is
  cleared only when a later second uses it again. So after a pause the sum still counts
  old seconds: two records in different slots add up whatever time lies between them.
\<close>

theorem window_slots_exact:
  assumes "sorted (map fst calls)"
  shows "window_sum (window_run calls) =
      sum_list (map (\<lambda>s. case slot_epoch calls s of None \<Rightarrow> 0 | Some e \<Rightarrow> epoch_total calls e) [0..<60]) \<and>
    (t < t' \<and> unat t mod 60 \<noteq> unat t' mod 60 \<longrightarrow> window_sum (window_run [(t, v), (t', v')]) = v + v')"
proof (intro conjI impI)
  have sum: "window_sum (window_run cs) =
      sum_list (map (\<lambda>s. case slot_epoch cs s of None \<Rightarrow> 0 | Some e \<Rightarrow> epoch_total cs e) [0..<60])"
    if "sorted (map fst cs)" for cs
  proof -
    have "win_slots (window_run cs) = map (\<lambda>s. case slot_epoch cs s of None \<Rightarrow> 0 | Some e \<Rightarrow> epoch_total cs e) [0..<60]"
      by (rule nth_equalityI) (simp_all add: window_slot [OF that])
    then show ?thesis by (simp add: window_sum_slots)
  qed
  show "window_sum (window_run calls) =
      sum_list (map (\<lambda>s. case slot_epoch calls s of None \<Rightarrow> 0 | Some e \<Rightarrow> epoch_total calls e) [0..<60])"
    by (rule sum [OF assms])
  assume a: "t < t' \<and> unat t mod 60 \<noteq> unat t' mod 60"
  let ?cs = "[(t, v), (t', v')]" and ?s = "unat t mod 60" and ?s' = "unat t' mod 60"
  have "(case slot_epoch ?cs s of None \<Rightarrow> 0 | Some e \<Rightarrow> epoch_total ?cs e) =
      (if s = ?s then v else 0) + (if s = ?s' then v' else 0)" for s
    using a by (auto simp: slot_epoch_def epoch_total_def WINDOW_SLOTS_def Let_def)
  moreover have "sum_list (map (\<lambda>s. if s = k then x else 0) [0..<n]) = (if k < n then x else 0)" for k n and x :: u64
    by (induction n) auto
  ultimately show "window_sum (window_run ?cs) = v + v'"
    using sum [of ?cs] a less_imp_le [of t t'] by (simp add: sum_list_addf del: upt_Suc)
qed

theorem window_slots_exact_witness: "window_sum (window_run [(1, 5), (1000000, 1)]) = 6"
  using window_slots_exact [of "[]" 1 1000000 5 1] by (simp add: word_less_nat_alt)

lemma floor_percent_mono: "r < q \<Longrightarrow> \<lfloor>r * 100\<rfloor> \<le> \<lfloor>q * 100 :: rat\<rfloor>"
  by (intro floor_mono) simp

lemma percent_less:
  assumes "0 \<le> r" and "r < q" and "q \<le> 1"
  shows "percent r < percent q \<longleftrightarrow> \<lfloor>r * 100\<rfloor> < \<lfloor>q * 100\<rfloor>"
    "percent r = percent q \<longleftrightarrow> \<lfloor>r * 100\<rfloor> = \<lfloor>q * 100\<rfloor>"
proof -
  define a b where ab: "a = \<lfloor>r * 100\<rfloor>" "b = \<lfloor>q * 100\<rfloor>"
  have "0 \<le> a" "b \<le> 100" "a \<le> b"
    using assms(1,3) floor_mono [of "q * 100" 100] floor_percent_mono [OF assms(2)] by (simp_all add: ab)
  then have "uint (word_of_int a :: u64) = a" "uint (word_of_int b :: u64) = b"
    by (simp_all add: uint_word_of_int)
  then have "uint (percent r) = \<lfloor>r * 100\<rfloor>" "uint (percent q) = \<lfloor>q * 100\<rfloor>"
    by (simp_all only: percent_def ab)
  then show "percent r < percent q \<longleftrightarrow> \<lfloor>r * 100\<rfloor> < \<lfloor>q * 100\<rfloor>" "percent r = percent q \<longleftrightarrow> \<lfloor>r * 100\<rfloor> = \<lfloor>q * 100\<rfloor>"
    by (simp_all add: word_less_def word_uint_eq_iff)
qed

text \<open>
  the alert for a low broadcast success rate. A round of the checker reports it only when the
  rate is below the configured minimum but not below it in whole percent, because
  \<^verbatim>\<open>checkAlert\<close> ignores a value below its threshold: a rate of one half never raises it
  when the minimum is eighty percent. The other three alerts are raised exactly when their
  counter has reached its threshold.
\<close>

theorem alert_round_exact:
  assumes "0 < ac_minBroadcastSuccessRate a" and "ac_minBroadcastSuccessRate a \<le> 1"
  shows "alert_round True a m =
    (if mt_count m BanEvents \<ge> ac_maxBanPerMin a then [(''ban_events'', mt_count m BanEvents, ac_maxBanPerMin a)] else [])
    @ (if mt_count m BroadcastFailed \<ge> ac_maxFailSendPerMin a
       then [(''failed_sends'', mt_count m BroadcastFailed, ac_maxFailSendPerMin a)] else [])
    @ (if mt_count m DecodeErrors \<ge> ac_maxDecErrPerMin a
       then [(''decode_errors'', mt_count m DecodeErrors, ac_maxDecErrPerMin a)] else [])
    @ (let rate = rat_of_nat (unat (mt_count m BroadcastSucceeded)) / rat_of_nat (unat (mt_count m BroadcastAttempts))
       in if mt_count m BroadcastAttempts \<noteq> 0 \<and> rate < ac_minBroadcastSuccessRate a \<and>
            \<lfloor>rate * 100\<rfloor> = \<lfloor>ac_minBroadcastSuccessRate a * 100\<rfloor>
          then [(''broadcast_success_rate'', percent rate, percent rate)] else [])"
proof -
  let ?r = "rat_of_nat (unat (mt_count m BroadcastSucceeded)) / rat_of_nat (unat (mt_count m BroadcastAttempts))"
  let ?min = "ac_minBroadcastSuccessRate a"
  have "0 \<le> ?r" by (intro divide_nonneg_nonneg of_nat_0_le_iff)
  note p = percent_less [OF this _ assms(2)] and le = floor_percent_mono [of ?r ?min]
  show ?thesis
    using p le unfolding alert_round_def checkAlert_def Let_def word_gt_0
    by (intro arg_cong2 [where f = append] refl) auto
qed

theorem alert_round_exact_witness:
  "alert_round True \<lparr>ac_maxBanPerMin = 50, ac_maxFailSendPerMin = 100, ac_maxDecErrPerMin = 200,
      ac_minBroadcastSuccessRate = 4 / 5\<rparr>
     (count_add BroadcastSucceeded 1 (count_add BroadcastAttempts 2 zero_metrics)) = []"
  by (subst alert_round_exact)
     (simp_all add: zero_metrics_def Let_def floor_divide_of_int_eq word_le_nat_alt)

end
