(* ===== verification/WorkerPool.thy ===== *)
theory WorkerPool
  imports Prelude "HOL-Library.Multiset"
begin

text \<open>
  The worker pool of \<^verbatim>\<open>src/src/network.cpp\<close> (class \<^verbatim>\<open>WorkerPool\<close>): a bounded queue of tasks
  that threads take from the front, \<^verbatim>\<open>submit\<close>, \<^verbatim>\<open>drain\<close> and \<^verbatim>\<open>shutdown\<close>. Every critical
  section of the mutex, every access to the atomic counter outside it and every
  notification is one step, so the interleavings of the threads are the step sequences.
  A task is a number, the order of its submission.
\<close>

section \<open>The state\<close>

datatype pool_worker =
    Idle            \<comment> \<open>before or in \<^verbatim>\<open>cv_.wait\<close>\<close>
  | Running nat     \<comment> \<open>the task was taken and is counted in \<^verbatim>\<open>activeCount_\<close>\<close>
  | Finished        \<comment> \<open>the count was taken back, \<^verbatim>\<open>drainCv_.notify_all\<close> is still to come\<close>
  | Left            \<comment> \<open>the thread has returned\<close>

datatype drainer =
    NotDraining | Draining   \<comment> \<open>holds the mutex, the predicate was false\<close>
  | Asleep                   \<comment> \<open>in \<^verbatim>\<open>drainCv_.wait\<close>, the mutex released\<close>
  | Awake                    \<comment> \<open>notified, the predicate to be checked again\<close>
  | Drained

record pool =
  wp_maxQueue :: nat
  wp_stopping :: bool
  wp_active :: nat
  wp_queue :: "nat list"
  wp_workers :: "pool_worker list"
  wp_drainer :: drainer
  wp_submitted :: "nat list"   \<comment> \<open>tasks \<^verbatim>\<open>submit\<close> accepted, in order\<close>
  wp_started :: "nat list"     \<comment> \<open>tasks taken by a worker, in order\<close>
  wp_done :: "nat list"

definition new_pool :: "nat \<Rightarrow> nat \<Rightarrow> pool" where
  "new_pool workers maxQueue =
     \<lparr>wp_maxQueue = max 1 maxQueue, wp_stopping = False, wp_active = 0, wp_queue = [],
      wp_workers = replicate (max 1 workers) Idle, wp_drainer = NotDraining,
      wp_submitted = [], wp_started = [], wp_done = []\<rparr>"

section \<open>The operations\<close>

text \<open>\<^verbatim>\<open>submit\<close>: an invalid future (\<open>False\<close>) when stopping or full.\<close>

definition submit :: "nat \<Rightarrow> pool \<Rightarrow> pool \<times> bool" where
  "submit t p =
     (if wp_stopping p \<or> length (wp_queue p) \<ge> wp_maxQueue p then (p, False)
      else (p\<lparr>wp_queue := wp_queue p @ [t], wp_submitted := wp_submitted p @ [t]\<rparr>, True))"

definition drained :: "pool \<Rightarrow> bool" where
  "drained p \<longleftrightarrow> wp_queue p = [] \<and> wp_active p = 0"

definition queueDepth :: "pool \<Rightarrow> nat" where
  "queueDepth p = length (wp_queue p)"

definition workerCount :: "pool \<Rightarrow> nat" where
  "workerCount p = length (wp_workers p)"

text \<open>
  One step of a thread. The mutex is held from the check of the drain predicate until the
  drainer sleeps, so no critical section of another thread falls in between; the
  decrement of the counter and the notification take no mutex.
\<close>

definition mutex_free :: "pool \<Rightarrow> bool" where
  "mutex_free p \<longleftrightarrow> wp_drainer p \<noteq> Draining"

inductive pool_step :: "pool \<Rightarrow> pool \<Rightarrow> bool" where
  submit: "mutex_free p \<Longrightarrow> pool_step p (fst (submit t p))"
| take: "mutex_free p \<Longrightarrow> i < length (wp_workers p) \<Longrightarrow> wp_workers p ! i = Idle \<Longrightarrow> wp_queue p = t # ts \<Longrightarrow>
    pool_step p (p\<lparr>wp_queue := ts, wp_workers := (wp_workers p)[i := Running t],
      wp_active := wp_active p + 1, wp_started := wp_started p @ [t]\<rparr>)"
| finish: "i < length (wp_workers p) \<Longrightarrow> wp_workers p ! i = Running t \<Longrightarrow>
    pool_step p (p\<lparr>wp_workers := (wp_workers p)[i := Finished], wp_active := wp_active p - 1,
      wp_done := wp_done p @ [t]\<rparr>)"
| wake: "i < length (wp_workers p) \<Longrightarrow> wp_workers p ! i = Finished \<Longrightarrow>
    pool_step p (p\<lparr>wp_workers := (wp_workers p)[i := Idle],
      wp_drainer := (if wp_drainer p = Asleep then Awake else wp_drainer p)\<rparr>)"
| leave: "mutex_free p \<Longrightarrow> i < length (wp_workers p) \<Longrightarrow> wp_workers p ! i = Idle \<Longrightarrow>
    wp_stopping p \<Longrightarrow> wp_queue p = [] \<Longrightarrow>
    pool_step p (p\<lparr>wp_workers := (wp_workers p)[i := Left]\<rparr>)"
| stop: "mutex_free p \<Longrightarrow> pool_step p (p\<lparr>wp_stopping := True\<rparr>)"
| check: "wp_drainer p \<in> {NotDraining, Awake} \<Longrightarrow>
    pool_step p (p\<lparr>wp_drainer := (if drained p then Drained else Draining)\<rparr>)"
| sleep: "wp_drainer p = Draining \<Longrightarrow> pool_step p (p\<lparr>wp_drainer := Asleep\<rparr>)"

definition pool_steps :: "pool \<Rightarrow> pool \<Rightarrow> bool" where
  "pool_steps = pool_step\<^sup>*\<^sup>*"

text \<open>The state after \<^verbatim>\<open>resize\<close>, once the old threads were drained and joined.\<close>

definition resized :: "nat \<Rightarrow> pool \<Rightarrow> pool" where
  "resized n p = p\<lparr>wp_stopping := False, wp_workers := replicate (max 1 n) Idle, wp_drainer := NotDraining\<rparr>"

section \<open>Invariant\<close>

fun running :: "pool_worker \<Rightarrow> nat list" where
  "running (Running t) = [t]"
| "running _ = []"

definition in_flight :: "pool \<Rightarrow> nat list" where
  "in_flight p = concat (map running (wp_workers p))"

definition pool_inv :: "pool \<Rightarrow> bool" where
  "pool_inv p \<longleftrightarrow>
     wp_submitted p = wp_started p @ wp_queue p \<and>
     wp_active p = length (in_flight p) \<and>
     mset (wp_started p) = mset (in_flight p) + mset (wp_done p) \<and>
     length (wp_queue p) \<le> wp_maxQueue p \<and>
     (Left \<in> set (wp_workers p) \<longrightarrow> wp_stopping p \<and> wp_queue p = [])"

inductive_cases pool_stepE: "pool_step p p'"

lemma mset_in_flight: "mset (in_flight p) = sum_list (map (mset \<circ> running) (wp_workers p))"
  by (simp add: in_flight_def mset_concat)

lemma length_in_flight: "length (in_flight p) = size (mset (in_flight p))"
  by simp

lemma mset_running_update:
  assumes "i < length ws"
  shows "sum_list (map (mset \<circ> running) (ws[i := w])) + mset (running (ws ! i)) =
    sum_list (map (mset \<circ> running) ws) + mset (running w)"
  using assms
proof (induction ws arbitrary: i)
  case (Cons x ws)
  then show ?case by (cases i) (auto simp: ac_simps)
qed simp

lemma in_flight_update:
  assumes "i < length (wp_workers p)"
  shows "mset (in_flight (p\<lparr>wp_workers := (wp_workers p)[i := w]\<rparr>)) + mset (running (wp_workers p ! i)) =
    mset (in_flight p) + mset (running w)"
  using mset_running_update [OF assms] by (simp add: mset_in_flight)

lemma in_flight_cong: "wp_workers p = wp_workers q \<Longrightarrow> in_flight p = in_flight q"
  by (simp add: in_flight_def)

lemma new_pool_inv: "pool_inv (new_pool w q)"
  by (simp add: pool_inv_def new_pool_def in_flight_def)


lemma in_flight_set:
  assumes "wp_workers p' = (wp_workers p)[i := w]" and "i < length (wp_workers p)"
  shows "mset (in_flight p') + mset (running (wp_workers p ! i)) = mset (in_flight p) + mset (running w)"
  using in_flight_update [OF assms(2), of w] in_flight_cong [of p' "p\<lparr>wp_workers := (wp_workers p)[i := w]\<rparr>"] assms(1)
  by simp

lemma in_flight_length:
  assumes "wp_workers p' = (wp_workers p)[i := w]" and "i < length (wp_workers p)"
  shows "length (in_flight p') + length (running (wp_workers p ! i)) = length (in_flight p) + length (running w)"
  using arg_cong [OF in_flight_set [OF assms], of size] by simp

lemma left_update:
  "i < length ws \<Longrightarrow> w \<noteq> Left \<Longrightarrow> Left \<in> set (ws[i := w]) \<Longrightarrow> Left \<in> set ws"
  by (metis in_set_conv_nth length_list_update nth_list_update)

lemma pool_step_inv:
  assumes "pool_step p p'" and "pool_inv p" shows "pool_inv p'"
  using assms(1)
proof cases
  case (submit t)
  have "in_flight p' = in_flight p"
    using submit by (intro in_flight_cong) (simp add: WorkerPool.submit_def)
  then show ?thesis using submit assms(2) by (auto simp: pool_inv_def WorkerPool.submit_def)
next
  case (take i t ts)
  then have w: "wp_workers p' = (wp_workers p)[i := Running t]" by simp
  show ?thesis
    using in_flight_set [OF w take(3)] in_flight_length [OF w take(3)] left_update [OF take(3), of "Running t"]
      take assms(2)
    by (auto simp: pool_inv_def)
next
  case (finish i t)
  then have w: "wp_workers p' = (wp_workers p)[i := Finished]" by simp
  show ?thesis
    using in_flight_set [OF w finish(2)] in_flight_length [OF w finish(2)] left_update [OF finish(2), of Finished]
      finish assms(2)
    by (auto simp: pool_inv_def)
next
  case (wake i)
  then have w: "wp_workers p' = (wp_workers p)[i := Idle]" by simp
  show ?thesis
    using in_flight_set [OF w wake(2)] in_flight_length [OF w wake(2)] left_update [OF wake(2), of Idle]
      wake assms(2)
    by (auto simp: pool_inv_def)
next
  case (leave i)
  then have w: "wp_workers p' = (wp_workers p)[i := Left]" by simp
  show ?thesis
    using in_flight_set [OF w leave(3)] in_flight_length [OF w leave(3)] leave assms(2)
    by (auto simp: pool_inv_def)
next
  case stop
  have "in_flight p' = in_flight p" using stop by (intro in_flight_cong) simp
  then show ?thesis using stop assms(2) by (auto simp: pool_inv_def)
next
  case check
  have "in_flight p' = in_flight p" using check by (intro in_flight_cong) simp
  then show ?thesis using check assms(2) by (auto simp: pool_inv_def)
next
  case sleep
  have "in_flight p' = in_flight p" using sleep by (intro in_flight_cong) simp
  then show ?thesis using sleep assms(2) by (auto simp: pool_inv_def)
qed

lemma pool_steps_inv:
  assumes "pool_steps p p'" and "pool_inv p" shows "pool_inv p'"
  using assms unfolding pool_steps_def
  by (induction rule: rtranclp_induct) (auto intro: pool_step_inv)

lemma all_left_idle: "set ws \<subseteq> {Left} \<Longrightarrow> concat (map running ws) = []"
  by (induction ws) auto

section \<open>Properties\<close>

text \<open>
  in every interleaving of submitting, working, stopping and draining threads, the tasks
  are started in the order of their submission, each exactly once, and at most
  \<^verbatim>\<open>maxQueue_\<close> wait; when all threads have left after \<^verbatim>\<open>shutdown\<close>, and whenever
  \<^verbatim>\<open>drain\<close> finds the pool drained, every accepted task has been run.
\<close>

theorem pool_runs_all_tasks:
  assumes "pool_steps (new_pool w q) p" and "pool_step p p'"
  shows "(\<exists>waiting. wp_submitted p = wp_started p @ waiting \<and> length waiting \<le> max 1 q) \<and>
    mset (wp_started p) = mset (in_flight p) + mset (wp_done p) \<and>
    (set (wp_workers p) \<subseteq> {Left} \<longrightarrow> mset (wp_done p) = mset (wp_submitted p)) \<and>
    (wp_drainer p \<noteq> Drained \<and> wp_drainer p' = Drained \<longrightarrow> mset (wp_done p') = mset (wp_submitted p'))"
proof -
  have I: "pool_inv p" by (rule pool_steps_inv [OF assms(1) new_pool_inv])
  have I': "pool_inv p'" by (rule pool_step_inv [OF assms(2) I])
  have W: "length (wp_workers p) = max 1 w \<and> wp_maxQueue p = max 1 q"
    using assms(1) unfolding pool_steps_def
  proof (induction rule: rtranclp_induct)
    case base then show ?case by (simp add: new_pool_def)
  next
    case (step y z)
    then show ?case by (auto elim!: pool_stepE simp: submit_def)
  qed
  have left: "mset (wp_done p) = mset (wp_submitted p)" if l: "set (wp_workers p) \<subseteq> {Left}"
  proof -
    have "wp_workers p \<noteq> []" using W by auto
    then have "Left \<in> set (wp_workers p)" using l by (cases "wp_workers p") auto
    then show ?thesis using I all_left_idle [OF l] by (auto simp: pool_inv_def in_flight_def)
  qed
  have "mset (wp_done p') = mset (wp_submitted p')" if "wp_drainer p \<noteq> Drained" "wp_drainer p' = Drained"
  proof -
    from assms(2) that have "drained p'"
      by (auto elim!: pool_stepE simp: submit_def drained_def split: if_splits)
    then show ?thesis using I' by (auto simp: pool_inv_def drained_def)
  qed
  then show ?thesis using I W left by (auto simp: pool_inv_def)
qed

theorem pool_runs_all_tasks_witness:
  "\<exists>p p'. pool_steps (new_pool 1 1) p \<and> pool_step p p' \<and> wp_submitted p = [7] \<and>
     mset (wp_started p) = mset (in_flight p) + mset (wp_done p)"
proof -
  let ?p0 = "new_pool 1 1"
  let ?p1 = "?p0\<lparr>wp_queue := [7], wp_submitted := [7]\<rparr>"
  let ?p2 = "?p1\<lparr>wp_queue := [], wp_workers := [Running 7], wp_active := 1, wp_started := [7]\<rparr>"
  let ?p3 = "?p2\<lparr>wp_workers := [Finished], wp_active := 0, wp_done := [7]\<rparr>"
  have 1: "pool_step ?p0 ?p1"
    using pool_step.submit [of ?p0 7] by (simp add: new_pool_def submit_def mutex_free_def)
  have 2: "pool_step ?p1 ?p2"
    using pool_step.take [of ?p1 0 7 "[]"] by (simp add: new_pool_def mutex_free_def)
  have 3: "pool_step ?p2 ?p3"
    using pool_step.finish [of 0 ?p2 7] by (simp add: new_pool_def)
  have s: "pool_steps ?p0 ?p2" unfolding pool_steps_def using 1 2 by auto
  show ?thesis
  proof (intro exI conjI)
    show "mset (wp_started ?p2) = mset (in_flight ?p2) + mset (wp_done ?p2)"
      using pool_runs_all_tasks [OF s 3] by blast
  qed (use s 3 in simp_all)
qed

text \<open>A state in which the drainer sleeps although the pool is drained and no worker will notify.\<close>

definition lost_wakeup :: "pool \<Rightarrow> bool" where
  "lost_wakeup p \<longleftrightarrow>
     wp_drainer p = Asleep \<and> drained p \<and> list_all (\<lambda>w. w = Idle \<or> w = Left) (wp_workers p)"

text \<open>
  \<^verbatim>\<open>drain\<close> can miss its notification. A worker takes its task off the count and notifies
  without the mutex; if it does so after the drainer has found the pool busy and before it
  sleeps, nobody wakes it: the pool is drained, and as long as nobody submits another
  task every step leaves the drainer asleep.
\<close>

theorem drain_lost_wakeup:
  "(\<exists>p. pool_steps (new_pool w q) p \<and> lost_wakeup p) \<and>
   (lost_wakeup p \<and> pool_step p p' \<and> wp_submitted p' = wp_submitted p \<longrightarrow> lost_wakeup p')"
proof (intro conjI impI)
  let ?ws = "replicate (max 1 w) Idle"
  let ?p0 = "new_pool w q"
  let ?p1 = "?p0\<lparr>wp_queue := [7], wp_submitted := [7]\<rparr>"
  let ?p2 = "?p1\<lparr>wp_queue := [], wp_workers := ?ws[0 := Running 7], wp_active := 1, wp_started := [7]\<rparr>"
  let ?p3 = "?p2\<lparr>wp_drainer := Draining\<rparr>"
  let ?p4 = "?p3\<lparr>wp_workers := ?ws[0 := Finished], wp_active := 0, wp_done := [7]\<rparr>"
  let ?p5 = "?p4\<lparr>wp_workers := ?ws\<rparr>"
  let ?p6 = "?p5\<lparr>wp_drainer := Asleep\<rparr>"
  have ws: "0 < length ?ws" "?ws ! 0 = Idle" "?ws[0 := Idle] = ?ws" by (simp_all add: list_update_same_conv)
  have 1: "pool_step ?p0 ?p1"
    using pool_step.submit [of ?p0 7] by (simp add: new_pool_def submit_def mutex_free_def)
  have 2: "pool_step ?p1 ?p2"
    using pool_step.take [of ?p1 0 7 "[]"] ws by (simp add: new_pool_def mutex_free_def)
  have 3: "pool_step ?p2 ?p3"
    using pool_step.check [of ?p2] by (simp add: new_pool_def drained_def)
  have 4: "pool_step ?p3 ?p4"
    using pool_step.finish [of 0 ?p3 7] ws by (simp add: new_pool_def)
  have 5: "pool_step ?p4 ?p5"
    using pool_step.wake [of 0 ?p4] ws by (simp add: new_pool_def)
  have 6: "pool_step ?p5 ?p6"
    using pool_step.sleep [of ?p5] by (simp add: new_pool_def)
  have "pool_steps ?p0 ?p6"
    unfolding pool_steps_def using 1 2 3 4 5 6 by (meson rtranclp.rtrancl_into_rtrancl rtranclp.rtrancl_refl)
  moreover have "lost_wakeup ?p6"
    by (simp add: lost_wakeup_def drained_def new_pool_def list_all_iff)
  ultimately show "\<exists>p. pool_steps (new_pool w q) p \<and> lost_wakeup p" by blast
next
  assume a: "lost_wakeup p \<and> pool_step p p' \<and> wp_submitted p' = wp_submitted p"
  then have L: "lost_wakeup p" and S: "pool_step p p'" and E: "wp_submitted p' = wp_submitted p" by auto
  have idle: "wp_workers p ! i \<noteq> Running t \<and> wp_workers p ! i \<noteq> Finished" if "i < length (wp_workers p)" for i t
    using L that by (auto simp: lost_wakeup_def list_all_length)
  show "lost_wakeup p'"
    using S L E
    by (cases rule: pool_step.cases)
       (auto simp: lost_wakeup_def drained_def submit_def list_all_length nth_list_update idle split: if_splits)
qed

lemma drain_lost_wakeup_witness:
  "let p = (new_pool 1 1)\<lparr>wp_drainer := Asleep\<rparr>; p' = p\<lparr>wp_stopping := True\<rparr>
   in pool_step p p' \<and> lost_wakeup p \<and> lost_wakeup p' \<and> (\<exists>q. pool_steps (new_pool 1 1) q \<and> lost_wakeup q)"
proof -
  let ?p = "(new_pool 1 1)\<lparr>wp_drainer := Asleep\<rparr>"
  let ?p' = "?p\<lparr>wp_stopping := True\<rparr>"
  have 1: "pool_step ?p ?p'" by (rule pool_step.stop) (simp add: mutex_free_def)
  have 2: "lost_wakeup ?p" by (simp add: lost_wakeup_def drained_def new_pool_def)
  have "lost_wakeup ?p'"
    using drain_lost_wakeup [of 1 1 ?p ?p', THEN conjunct2] 1 2 by (simp add: new_pool_def)
  then show ?thesis using 1 2 drain_lost_wakeup [of 1 1 ?p ?p', THEN conjunct1] by (simp add: Let_def)
qed

end
