(* ===== verification/Shards.thy ===== *)
theory Shards
  imports Prelude
begin

text \<open>
  The sharded hash maps of the peer tables (\<^verbatim>\<open>shards_\<close>, \<^verbatim>\<open>shardCount_\<close>, \<^verbatim>\<open>shardFor\<close>,
  \<^verbatim>\<open>maybeGrowShards\<close> in \<^verbatim>\<open>src/src/network.cpp\<close> and \<^verbatim>\<open>src/src/net/peer_manager.cpp\<close>). A shard
  is an association list with distinct keys, in the order in which the code iterates; the
  string hash is the parameter \<open>hash\<close>. The contract the peer tables rely on is the locale
  \<open>keyed_table\<close>: what a lookup and the list of entries return after each update.
\<close>

section \<open>The code\<close>

record 'a shards =
  sh_count :: nat                         \<comment> \<open>\<^verbatim>\<open>shardCount_\<close>\<close>
  sh_maps :: "(string \<times> 'a) list list"    \<comment> \<open>\<^verbatim>\<open>shards_\<close>, at least as many\<close>

definition shardIndex :: "(string \<Rightarrow> u64) \<Rightarrow> string \<Rightarrow> nat \<Rightarrow> nat" where
  "shardIndex hash key count = unat (hash key) mod count"

definition new_shards :: "nat \<Rightarrow> 'a shards" where
  "new_shards n = \<lparr>sh_count = max 1 n, sh_maps = replicate (max 1 n) []\<rparr>"

definition shard_of :: "(string \<Rightarrow> u64) \<Rightarrow> string \<Rightarrow> 'a shards \<Rightarrow> (string \<times> 'a) list" where
  "shard_of hash key s = sh_maps s ! shardIndex hash key (sh_count s)"

definition sh_find :: "(string \<Rightarrow> u64) \<Rightarrow> string \<Rightarrow> 'a shards \<Rightarrow> 'a option" where
  "sh_find hash key s = map_of (shard_of hash key s) key"

definition on_shard ::
    "(string \<Rightarrow> u64) \<Rightarrow> string \<Rightarrow> ((string \<times> 'a) list \<Rightarrow> (string \<times> 'a) list) \<Rightarrow> 'a shards \<Rightarrow> 'a shards" where
  "on_shard hash key f s =
     s\<lparr>sh_maps := (sh_maps s)[shardIndex hash key (sh_count s) := f (shard_of hash key s)]\<rparr>"

text \<open>\<^verbatim>\<open>emplace\<close>, the update of a found entry, and \<^verbatim>\<open>erase\<close>.\<close>

definition alist_emplace :: "string \<Rightarrow> 'a \<Rightarrow> (string \<times> 'a) list \<Rightarrow> (string \<times> 'a) list" where
  "alist_emplace key v m = (if map_of m key = None then m @ [(key, v)] else m)"

definition sh_emplace :: "(string \<Rightarrow> u64) \<Rightarrow> string \<Rightarrow> 'a \<Rightarrow> 'a shards \<Rightarrow> 'a shards" where
  "sh_emplace hash key v s = on_shard hash key (alist_emplace key v) s"

definition sh_update :: "(string \<Rightarrow> u64) \<Rightarrow> string \<Rightarrow> ('a \<Rightarrow> 'a) \<Rightarrow> 'a shards \<Rightarrow> 'a shards" where
  "sh_update hash key f s = on_shard hash key (map (\<lambda>(k, v). (k, if k = key then f v else v))) s"

definition sh_erase :: "(string \<Rightarrow> u64) \<Rightarrow> string \<Rightarrow> 'a shards \<Rightarrow> 'a shards" where
  "sh_erase hash key s = on_shard hash key (filter (\<lambda>(k, v). k \<noteq> key)) s"

text \<open>The loops over the first \<^verbatim>\<open>shardCount_\<close> shards.\<close>

definition sh_entries :: "'a shards \<Rightarrow> (string \<times> 'a) list" where
  "sh_entries s = concat (take (sh_count s) (sh_maps s))"

definition sh_size :: "'a shards \<Rightarrow> nat" where
  "sh_size s = sum_list (map length (take (sh_count s) (sh_maps s)))"

definition sh_mapi :: "(string \<Rightarrow> 'a \<Rightarrow> 'a) \<Rightarrow> 'a shards \<Rightarrow> 'a shards" where
  "sh_mapi f s =
     s\<lparr>sh_maps := map (map (\<lambda>(k, v). (k, f k v))) (take (sh_count s) (sh_maps s)) @ drop (sh_count s) (sh_maps s)\<rparr>"

text \<open>
  The redistribution of all entries over \<open>n\<close> shards: the first shards are cleared, the
  vector is extended, and every entry is emplaced in its new shard under the key \<open>rekey\<close>
  gives it.
\<close>

definition sh_grow :: "(string \<Rightarrow> u64) \<Rightarrow> (string \<Rightarrow> 'a \<Rightarrow> string) \<Rightarrow> nat \<Rightarrow> 'a shards \<Rightarrow> 'a shards" where
  "sh_grow hash rekey n s =
     (let cleared = replicate (min (sh_count s) (length (sh_maps s))) [] @ drop (sh_count s) (sh_maps s);
          maps = cleared @ replicate (n - length cleared) [];
          s' = \<lparr>sh_count = n, sh_maps = maps\<rparr>
      in foldl (\<lambda>t (k, v). sh_emplace hash (rekey k v) v t) s' (sh_entries s))"

section \<open>The contract of a table\<close>

locale keyed_table =
  fixes wf :: "'s \<Rightarrow> bool" and find :: "string \<Rightarrow> 's \<Rightarrow> 'a option" and entries :: "'s \<Rightarrow> (string \<times> 'a) list"
    and emplace :: "string \<Rightarrow> 'a \<Rightarrow> 's \<Rightarrow> 's" and upd :: "string \<Rightarrow> ('a \<Rightarrow> 'a) \<Rightarrow> 's \<Rightarrow> 's"
    and erase :: "string \<Rightarrow> 's \<Rightarrow> 's" and mapi :: "(string \<Rightarrow> 'a \<Rightarrow> 'a) \<Rightarrow> 's \<Rightarrow> 's"
  assumes wf_ops: "wf s \<Longrightarrow> wf (emplace k v s)" "wf s \<Longrightarrow> wf (upd k f s)" "wf s \<Longrightarrow> wf (erase k s)" "wf s \<Longrightarrow> wf (mapi g s)"
    and find_entries: "wf s \<Longrightarrow> find k s = map_of (entries s) k"
    and distinct_entries: "wf s \<Longrightarrow> distinct (map fst (entries s))"
    and find_emplace: "wf s \<Longrightarrow> find j (emplace k v s) = (if j = k \<and> find k s = None then Some v else find j s)"
    and find_upd: "wf s \<Longrightarrow> find j (upd k f s) = (if j = k then map_option f (find k s) else find j s)"
    and find_erase: "wf s \<Longrightarrow> find j (erase k s) = (if j = k then None else find j s)"
    and find_mapi: "wf s \<Longrightarrow> find j (mapi g s) = map_option (g j) (find j s)"
begin

lemma mem_entries: "wf s \<Longrightarrow> (k, v) \<in> set (entries s) \<longleftrightarrow> find k s = Some v"
  by (simp add: find_entries distinct_entries)

lemma dom_find: "wf s \<Longrightarrow> {k. find k s \<noteq> None} = fst ` set (entries s)"
  by (auto simp: find_entries map_of_eq_None_iff)

lemma size_card: "wf s \<Longrightarrow> length (entries s) = card {k. find k s \<noteq> None}"
  using dom_find [of s] distinct_entries [of s] by (metis distinct_card length_map set_map)

lemma finite_dom: "wf s \<Longrightarrow> finite {k. find k s \<noteq> None}"
  by (subst dom_find) simp_all

lemma size_emplace: "wf s \<Longrightarrow> length (entries (emplace k v s)) = (if find k s = None then Suc (length (entries s)) else length (entries s))"
proof -
  assume w: "wf s"
  have "{j. find j (emplace k v s) \<noteq> None} = insert k {j. find j s \<noteq> None}"
    using w by (auto simp: find_emplace)
  then show ?thesis using w finite_dom [OF w] by (simp add: size_card wf_ops card_insert_if)
qed

lemma size_erase: "wf s \<Longrightarrow> length (entries (erase k s)) = (if find k s = None then length (entries s) else length (entries s) - 1)"
proof -
  assume w: "wf s"
  have "{j. find j (erase k s) \<noteq> None} = {j. find j s \<noteq> None} - {k}"
    using w by (auto simp: find_erase)
  then show ?thesis using w finite_dom [OF w] by (simp add: size_card wf_ops card_Diff_singleton_if)
qed

lemma size_upd: "wf s \<Longrightarrow> length (entries (upd k f s)) = length (entries s)"
proof -
  assume w: "wf s"
  have "{j. find j (upd k f s) \<noteq> None} = {j. find j s \<noteq> None}" using w by (auto simp: find_upd)
  then show ?thesis using w by (simp add: size_card wf_ops)
qed

lemma size_mapi: "wf s \<Longrightarrow> length (entries (mapi g s)) = length (entries s)"
proof -
  assume w: "wf s"
  have "{j. find j (mapi g s) \<noteq> None} = {j. find j s \<noteq> None}" using w by (auto simp: find_mapi)
  then show ?thesis using w by (simp add: size_card wf_ops)
qed

text \<open>Removing a list of keys, as the evictions do.\<close>

lemma erase_all: "wf s \<Longrightarrow> wf (foldl (\<lambda>t k. erase k t) s ks) \<and>
    find j (foldl (\<lambda>t k. erase k t) s ks) = (if j \<in> set ks then None else find j s)"
  by (induction ks arbitrary: s) (auto simp: wf_ops find_erase)

lemma emplace_all:
  "wf s \<Longrightarrow> distinct (map fst xs) \<Longrightarrow> (\<And>k v. (k, v) \<in> set xs \<Longrightarrow> find k s = None) \<Longrightarrow>
   wf (foldl (\<lambda>t (k, v). emplace k v t) s xs) \<and>
   find j (foldl (\<lambda>t (k, v). emplace k v t) s xs) = (case map_of xs j of Some v \<Rightarrow> Some v | None \<Rightarrow> find j s)"
proof (induction xs arbitrary: s)
  case (Cons x xs)
  obtain k v where x: "x = (k, v)" by fastforce
  have none: "find k s = None" using Cons.prems(3) [of k v] x by simp
  have "find k' (emplace k v s) = None" if "(k', v') \<in> set xs" for k' v'
    using that Cons.prems x none by (force simp: find_emplace)
  moreover have "map_of xs k = None" using Cons.prems(2) x by (simp add: map_of_eq_None_iff)
  ultimately show ?case
    using Cons.IH [of "emplace k v s"] Cons.prems(1,2) none x
    by (simp add: wf_ops find_emplace split: option.split)
qed simp

end


section \<open>Shards are a table\<close>

definition sh_wf :: "(string \<Rightarrow> u64) \<Rightarrow> 'a shards \<Rightarrow> bool" where
  "sh_wf hash s \<longleftrightarrow>
     0 < sh_count s \<and> sh_count s \<le> length (sh_maps s) \<and>
     (\<forall>i < sh_count s. distinct (map fst (sh_maps s ! i)) \<and>
        (\<forall>k\<in>set (map fst (sh_maps s ! i)). shardIndex hash k (sh_count s) = i)) \<and>
     list_all (\<lambda>m. m = []) (drop (sh_count s) (sh_maps s))"

lemma shardIndex_less [simp]: "0 < n \<Longrightarrow> shardIndex hash k n < n"
  by (simp add: shardIndex_def)

lemma new_shards_wf: "sh_wf hash (new_shards n)"
  by (simp add: sh_wf_def new_shards_def)

lemma new_shards_empty: "sh_entries (new_shards n) = []"
  by (simp add: sh_entries_def new_shards_def)

lemma sh_size_eq: "sh_size s = length (sh_entries s)"
  by (simp add: sh_size_def sh_entries_def length_concat)

text \<open>What an update of one shard must keep.\<close>

lemma on_shard_wf:
  assumes "sh_wf hash s"
    and "distinct (map fst (shard_of hash key s)) \<Longrightarrow> distinct (map fst (f (shard_of hash key s)))"
    and "fst ` set (f (shard_of hash key s)) \<subseteq> insert key (fst ` set (shard_of hash key s))"
  shows "sh_wf hash (on_shard hash key f s)"
proof -
  let ?i = "shardIndex hash key (sh_count s)"
  have i: "?i < sh_count s" "?i < length (sh_maps s)"
    using assms(1) by (auto simp: sh_wf_def intro: less_le_trans shardIndex_less)
  have old: "shardIndex hash k (sh_count s) = ?i" if "k \<in> fst ` set (sh_maps s ! ?i)" for k
    using that assms(1) i(1) unfolding sh_wf_def by (metis set_map)
  have "distinct (map fst (f (sh_maps s ! ?i)))"
    using assms(1,2) i(1) by (simp add: sh_wf_def shard_of_def)
  moreover have "shardIndex hash k (sh_count s) = ?i" if "k \<in> fst ` set (f (sh_maps s ! ?i))" for k
    using that old assms(3) unfolding shard_of_def by blast
  moreover have "sh_count (on_shard hash key f s) = sh_count s"
    "sh_maps (on_shard hash key f s) = (sh_maps s)[?i := f (sh_maps s ! ?i)]"
    by (simp_all add: on_shard_def shard_of_def)
  ultimately show ?thesis
    using assms(1) i unfolding sh_wf_def
    by (metis drop_update_cancel length_list_update nth_list_update set_map)
qed

lemma find_on_shard:
  assumes "sh_wf hash s"
    and "\<And>j. j \<noteq> key \<Longrightarrow> map_of (f (shard_of hash key s)) j = map_of (shard_of hash key s) j"
  shows "sh_find hash j (on_shard hash key f s) =
    (if j = key then map_of (f (shard_of hash key s)) key else sh_find hash j s)"
proof -
  have i: "shardIndex hash key (sh_count s) < length (sh_maps s)"
    using assms(1) by (auto simp: sh_wf_def intro: less_le_trans shardIndex_less)
  have sel: "sh_count (on_shard hash key f s) = sh_count s"
    "sh_maps (on_shard hash key f s) = (sh_maps s)[shardIndex hash key (sh_count s) := f (shard_of hash key s)]"
    by (simp_all add: on_shard_def)
  show ?thesis
    using i assms(2) by (auto simp: sh_find_def shard_of_def sel nth_list_update)
qed

lemma alist_emplace_simps:
  "map_of (alist_emplace k v m) j = (if j = k \<and> map_of m k = None then Some v else map_of m j)"
  "distinct (map fst m) \<Longrightarrow> distinct (map fst (alist_emplace k v m))"
  "fst ` set (alist_emplace k v m) \<subseteq> insert k (fst ` set m)"
  by (simp_all add: alist_emplace_def map_add_def split: option.split) (auto simp: map_of_eq_None_iff)

lemma map_of_update: "map_of (map (\<lambda>(k, v). (k, if k = key then f v else v)) m) j =
    (if j = key then map_option f (map_of m key) else map_of m j)"
  by (induction m) auto

lemma map_of_mapi: "map_of (map (\<lambda>(k, v). (k, f k v)) m) j = map_option (f j) (map_of m j)"
  by (induction m) auto

lemma map_of_filter_key: "map_of (filter (\<lambda>(k, v). k \<noteq> key) m) j = (if j = key then None else map_of m j)"
  by (induction m) auto

lemma fst_pairs: "map fst (map (\<lambda>(k, v). (k, g k v)) m) = map fst m"
  by (induction m) auto

lemma fst_pairs_set: "fst ` set (map (\<lambda>(k, v). (k, g k v)) m) = fst ` set m"
  by (metis fst_pairs set_map)

lemma distinct_concat_keys:
  assumes "\<forall>i<length ms. distinct (map fst (ms ! i)) \<and> (\<forall>k\<in>set (map fst (ms ! i)). idx k = i + n)"
  shows "distinct (map fst (concat ms)) \<and> (\<forall>k\<in>set (map fst (concat ms)). n \<le> idx k) \<and>
    map_of (concat ms) k = (if n \<le> idx k \<and> idx k < n + length ms then map_of (ms ! (idx k - n)) k else None)"
  using assms
proof (induction ms arbitrary: n)
  case (Cons m ms)
  have m: "distinct (map fst m)" "\<forall>k\<in>set (map fst m). idx k = n"
    using Cons.prems [rule_format, of 0] by auto
  have "\<forall>i<length ms. distinct (map fst (ms ! i)) \<and> (\<forall>k\<in>set (map fst (ms ! i)). idx k = i + Suc n)"
    using Cons.prems [rule_format, of "Suc i" for i] by auto
  note IH = Cons.IH [OF this]
  have "k \<notin> set (map fst (concat ms))" if "k \<in> set (map fst m)" for k
    using m(2) IH that by fastforce
  then have "distinct (map fst (concat (m # ms)))"
    using m(1) IH by (simp only: concat.simps map_append distinct_append) blast
  moreover have "\<forall>k\<in>set (map fst (concat (m # ms))). n \<le> idx k"
    using m(2) IH unfolding concat.simps map_append set_append by (metis Suc_leD Un_iff order_refl)
  moreover have "map_of (concat (m # ms)) k =
      (if n \<le> idx k \<and> idx k < n + length (m # ms) then map_of ((m # ms) ! (idx k - n)) k else None)"
  proof (cases "idx k = n")
    case True
    then show ?thesis using IH by (simp add: map_of_append map_add_def split: option.split)
  next
    case False
    then have "map_of m k = None" using m(2) by (auto simp: map_of_eq_None_iff)
    then show ?thesis
      using IH False by (auto simp: map_of_append map_add_def nth_Cons' split: option.splits)
  qed
  ultimately show ?case by blast
qed auto


lemma entries_lookup:
  assumes "sh_wf hash s"
  shows "distinct (map fst (sh_entries s))" "map_of (sh_entries s) k = sh_find hash k s"
proof -
  let ?ms = "take (sh_count s) (sh_maps s)" and ?idx = "\<lambda>k. shardIndex hash k (sh_count s)"
  have c: "0 < sh_count s" "length ?ms = sh_count s" using assms by (simp_all add: sh_wf_def)
  have "\<forall>i<length ?ms. distinct (map fst (?ms ! i)) \<and> (\<forall>k\<in>set (map fst (?ms ! i)). ?idx k = i + 0)"
    using assms by (simp add: sh_wf_def)
  note d = distinct_concat_keys [OF this, of k]
  show "distinct (map fst (sh_entries s))" using d by (simp add: sh_entries_def)
  have l: "?idx k < sh_count s" "?idx k < 0 + length ?ms" using c by simp_all
  show "map_of (sh_entries s) k = sh_find hash k s"
    using d [THEN conjunct2, THEN conjunct2] l
    by (simp only: sh_entries_def sh_find_def shard_of_def le0 simp_thms if_True diff_zero nth_take)
qed

lemma sh_mapi_wf:
  assumes "sh_wf hash s" shows "sh_wf hash (sh_mapi f s)"
proof -
  have c: "0 < sh_count s" "sh_count s \<le> length (sh_maps s)" using assms by (simp_all add: sh_wf_def)
  have keys: "map fst (sh_maps (sh_mapi f s) ! i) = map fst (sh_maps s ! i)" if "i < sh_count s" for i
    using that c fst_pairs [of f "sh_maps s ! i"] by (simp add: sh_mapi_def nth_append)
  have sel: "sh_count (sh_mapi f s) = sh_count s" "length (sh_maps (sh_mapi f s)) = length (sh_maps s)"
    "drop (sh_count s) (sh_maps (sh_mapi f s)) = drop (sh_count s) (sh_maps s)"
    using c by (simp_all add: sh_mapi_def)
  show ?thesis using assms keys unfolding sh_wf_def sel by metis
qed

lemma find_sh_mapi:
  assumes "sh_wf hash s" shows "sh_find hash j (sh_mapi f s) = map_option (f j) (sh_find hash j s)"
proof -
  have c: "0 < sh_count s" "sh_count s \<le> length (sh_maps s)" using assms by (simp_all add: sh_wf_def)
  have "sh_maps (sh_mapi f s) ! i = map (\<lambda>(k, v). (k, f k v)) (sh_maps s ! i)" if "i < sh_count s" for i
    using that c by (simp add: sh_mapi_def nth_append)
  then show ?thesis
    using c by (simp add: sh_find_def shard_of_def map_of_mapi) (simp add: sh_mapi_def map_of_mapi)
qed

interpretation shards: keyed_table "sh_wf hash" "sh_find hash" sh_entries "sh_emplace hash" "sh_update hash"
    "sh_erase hash" sh_mapi for hash
proof unfold_locales
  fix s :: "'a shards" and k v f j and g :: "string \<Rightarrow> 'a \<Rightarrow> 'a"
  assume w: "sh_wf hash s"
  show "sh_wf hash (sh_emplace hash k v s)"
    unfolding sh_emplace_def by (rule on_shard_wf [OF w]) (rule alist_emplace_simps, assumption?)+
  show "sh_wf hash (sh_update hash k f s)"
    unfolding sh_update_def by (rule on_shard_wf [OF w]) (simp_all only: fst_pairs fst_pairs_set subset_insertI)
  show "sh_wf hash (sh_erase hash k s)"
    unfolding sh_erase_def by (rule on_shard_wf [OF w]) (auto simp: distinct_map_filter)
  show "sh_wf hash (sh_mapi g s)" by (rule sh_mapi_wf [OF w])
  show "sh_find hash k s = map_of (sh_entries s) k" "distinct (map fst (sh_entries s))"
    by (simp_all add: entries_lookup [OF w])
  show "sh_find hash j (sh_emplace hash k v s) = (if j = k \<and> sh_find hash k s = None then Some v else sh_find hash j s)"
    unfolding sh_emplace_def by (subst find_on_shard [OF w]) (simp_all add: alist_emplace_simps sh_find_def)
  show "sh_find hash j (sh_update hash k f s) = (if j = k then map_option f (sh_find hash k s) else sh_find hash j s)"
    unfolding sh_update_def by (subst find_on_shard [OF w]) (simp_all add: map_of_update sh_find_def)
  show "sh_find hash j (sh_erase hash k s) = (if j = k then None else sh_find hash j s)"
    unfolding sh_erase_def by (subst find_on_shard [OF w]) (simp_all add: map_of_filter_key)
  show "sh_find hash j (sh_mapi g s) = map_option (g j) (sh_find hash j s)" by (rule find_sh_mapi [OF w])
qed

text \<open>Growing redistributes the entries and changes no lookup.\<close>

lemma sh_grow_correct:
  assumes "sh_wf hash s" and "0 < n" and "\<forall>(k, v)\<in>set (sh_entries s). rekey k v = k"
  shows "sh_wf hash (sh_grow hash rekey n s) \<and> sh_find hash k (sh_grow hash rekey n s) = sh_find hash k s \<and>
    sh_size (sh_grow hash rekey n s) = sh_size s \<and> sh_count (sh_grow hash rekey n s) = n"
proof -
  let ?cleared = "replicate (min (sh_count s) (length (sh_maps s))) [] @ drop (sh_count s) (sh_maps s)"
  let ?s = "\<lparr>sh_count = n, sh_maps = ?cleared @ replicate (n - length ?cleared) []\<rparr>"
  have "\<forall>m\<in>set (sh_maps ?s). m = []"
    using assms(1) by (auto simp: sh_wf_def list_all_iff)
  then have nil: "sh_maps ?s ! i = []" if "i < length (sh_maps ?s)" for i
    using that nth_mem by blast
  have len: "n \<le> length (sh_maps ?s)" by simp
  have d: "list_all (\<lambda>m. m = []) (drop n (sh_maps ?s))"
    using \<open>\<forall>m\<in>set (sh_maps ?s). m = []\<close> unfolding list_all_iff by (metis in_set_dropD)
  have "sh_maps ?s ! i = []" if "i < n" for i using nil len that by (meson less_le_trans)
  then have w: "sh_wf hash ?s"
    using len d assms(2) unfolding sh_wf_def by (metis distinct.simps(1) empty_iff list.set(1) list.simps(8) shards.select_convs(1))
  have none: "sh_find hash j ?s = None" for j
  proof -
    have "shardIndex hash j n < length (sh_maps ?s)" using len assms(2) by (meson less_le_trans shardIndex_less)
    then show ?thesis using nil by (simp add: sh_find_def shard_of_def)
  qed
  have g: "sh_grow hash rekey n s = foldl (\<lambda>t (k, v). sh_emplace hash k v t) ?s (sh_entries s)"
    unfolding sh_grow_def Let_def by (rule foldl_cong [OF refl refl]) (use assms(3) in auto)
  have 1: "sh_wf hash (sh_grow hash rekey n s)" "sh_find hash j (sh_grow hash rekey n s) = sh_find hash j s" for j
    using shards.emplace_all [OF w entries_lookup(1) [OF assms(1)]] none entries_lookup(2) [OF assms(1)]
    by (auto simp: g split: option.splits)
  moreover have "sh_count (foldl (\<lambda>t (k, v). sh_emplace hash k v t) t xs) = sh_count t" for t :: "'a shards" and xs
    by (induction xs arbitrary: t) (auto simp: sh_emplace_def on_shard_def)
  moreover have "sh_size (sh_grow hash rekey n s) = sh_size s"
    using shards.size_card [OF 1(1)] shards.size_card [OF assms(1)] 1(2) by (simp add: sh_size_eq)
  ultimately show ?thesis by (simp add: g)
qed

end
