(* ===== verification/NetPeers.thy ===== *)
theory NetPeers
  imports Complex_Main "HOL-Library.AList" NetMetrics NetStore Shards
begin

text \<open>
  The peer table of the network layer (\<^verbatim>\<open>src/include/network.h\<close>,
  \<^verbatim>\<open>src/src/network.cpp\<close>): peers, the connection pool, the reconnect tracker, bans, scores,
  token buckets, eviction and persistence. One method call is one step of the state; the
  clock is an argument \<open>now\<close> that stays the same during a call.

  The token buckets are C++ \<^verbatim>\<open>double\<close>s that hold whole numbers below \<open>2^53\<close>, on which the
  arithmetic is exact: they are natural numbers here. A score is a rational number; the
  rounding of the scores is not modelled. The callbacks of the application and the system
  calls on pooled descriptors are lists of events in the state.
\<close>

section \<open>State\<close>

record net_peer =
  np_id :: string
  np_address :: string
  np_port :: u16
  np_version :: u32
  np_connectedAt :: u64
  np_lastSeenAt :: u64
  np_lastPingSentAt :: u64
  np_lastPongAt :: u64
  np_messagesSent :: u64
  np_messagesRecv :: u64
  np_bytesRecv :: u64
  np_bytesSent :: u64
  np_rateLimitEpoch :: u64
  np_msgThisSecond :: u32
  np_byteThisSecond :: u64
  np_banExpiresAt :: u64
  np_banCount :: u32
  np_decodeErrorCount :: u32
  np_score :: rat
  np_isBanned :: bool
  np_isInbound :: bool
  np_isReachable :: bool
  np_handshakeDone :: bool
  np_sendQueueDepth :: u64
  np_tokenMsgBucket :: nat
  np_tokenByteBucket :: nat
  np_tokenLastRefillEpoch :: u64

definition default_peer :: net_peer where
  "default_peer =
     \<lparr>np_id = [], np_address = [], np_port = 0, np_version = 0, np_connectedAt = 0, np_lastSeenAt = 0,
      np_lastPingSentAt = 0, np_lastPongAt = 0, np_messagesSent = 0, np_messagesRecv = 0, np_bytesRecv = 0,
      np_bytesSent = 0, np_rateLimitEpoch = 0, np_msgThisSecond = 0, np_byteThisSecond = 0,
      np_banExpiresAt = 0, np_banCount = 0, np_decodeErrorCount = 0, np_score = 100, np_isBanned = False,
      np_isInbound = False, np_isReachable = False, np_handshakeDone = False, np_sendQueueDepth = 0,
      np_tokenMsgBucket = 0, np_tokenByteBucket = 0, np_tokenLastRefillEpoch = 0\<rparr>"

text \<open>The fields of \<^verbatim>\<open>Network::Config\<close> the modelled code reads.\<close>

record net_config =
  nc_listenPort :: u16
  nc_maxPeers :: nat
  nc_maxConnsPerPeer :: nat
  nc_peerTimeoutSecs :: u64
  nc_banDurationSecs :: u64
  nc_pingDeadlineSecs :: u64
  nc_maxMsgPerSecPerPeer :: u32
  nc_maxBytesPerSecPerPeer :: u64
  nc_tokenBucketBurstMsg :: u32
  nc_tokenBucketBurstBytes :: u64
  nc_maxSendRetries :: u32
  nc_retryBaseDelayMs :: u32
  nc_retryMaxDelayMs :: u32
  nc_maxPerPeerSendQueue :: u64
  nc_peerMapShards :: nat
  nc_adaptiveSharding :: bool
  nc_maxDecodeErrorsBeforeBan :: u32
  nc_peerStorePath :: string
  nc_verifyPeerStoreChecksum :: bool
  nc_enablePendingQueueRecovery :: bool
  nc_pendingQueuePath :: string
  nc_verifyPendingQueueChecksum :: bool
  nc_maxEINTRRetries :: u32
  nc_tlsCertFile :: string
  nc_tlsKeyFile :: string
  nc_tlsCAFile :: string
  nc_tlsDHParamFile :: string
  nc_enableMetricsDump :: bool
  nc_enableAlerts :: bool
  nc_enableHealthEndpoint :: bool
  nc_enablePrometheusEndpoint :: bool

text \<open>The default member initialisers.\<close>

definition default_net_config :: net_config where
  "default_net_config =
     \<lparr>nc_listenPort = 4001, nc_maxPeers = 1000, nc_maxConnsPerPeer = 2, nc_peerTimeoutSecs = 120,
      nc_banDurationSecs = 3600, nc_pingDeadlineSecs = 90, nc_maxMsgPerSecPerPeer = 200,
      nc_maxBytesPerSecPerPeer = 10485760, nc_tokenBucketBurstMsg = 400,
      nc_tokenBucketBurstBytes = 20971520, nc_maxSendRetries = 3, nc_retryBaseDelayMs = 250,
      nc_retryMaxDelayMs = 8000, nc_maxPerPeerSendQueue = 256, nc_peerMapShards = 64,
      nc_adaptiveSharding = True, nc_maxDecodeErrorsBeforeBan = 10, nc_peerStorePath = ''data/peers.dat'',
      nc_verifyPeerStoreChecksum = True, nc_enablePendingQueueRecovery = True,
      nc_pendingQueuePath = ''data/pending_sends.dat'', nc_verifyPendingQueueChecksum = True,
      nc_maxEINTRRetries = 16, nc_tlsCertFile = [], nc_tlsKeyFile = [], nc_tlsCAFile = [], nc_tlsDHParamFile = [],
      nc_enableMetricsDump = True, nc_enableAlerts = True, nc_enableHealthEndpoint = True,
      nc_enablePrometheusEndpoint = True\<rparr>"

record reconnect_entry =
  re_attempts :: u32
  re_delayMs :: u32
  re_nextRetryMs :: u64

definition new_reconnect :: reconnect_entry where
  "new_reconnect = \<lparr>re_attempts = 0, re_delayMs = 1000, re_nextRetryMs = 0\<rparr>"

datatype net_event =
    PeerConnected net_peer | PeerDisconnected string string | PeerScored string rat
  | BlockReceived block string | TransactionReceived transaction string

record network =
  nw_cfg :: net_config
  nw_shards :: "net_peer shards"
  nw_metrics :: net_metrics
  nw_pool :: "(string \<times> int list) list"              \<comment> \<open>idle descriptors by peer key\<close>
  nw_closed :: "int list"                            \<comment> \<open>descriptors closed so far\<close>
  nw_reconnect :: "string \<Rightarrow> reconnect_entry option"
  nw_seen :: "string set"
  nw_pending :: "pending_entry list"
  nw_queueDepth :: nat
  nw_maxMsgPerSec :: u32
  nw_maxBytesPerSec :: u64
  nw_maxPeers :: nat
  nw_maxDecodeErrBan :: u32
  nw_events :: "net_event list"

definition Network :: "net_config \<Rightarrow> network" where
  "Network cfg =
     \<lparr>nw_cfg = cfg, nw_shards = new_shards (nc_peerMapShards cfg), nw_metrics = zero_metrics,
      nw_pool = [], nw_closed = [], nw_reconnect = (\<lambda>k. None), nw_seen = {}, nw_pending = [],
      nw_queueDepth = 0, nw_maxMsgPerSec = nc_maxMsgPerSecPerPeer cfg,
      nw_maxBytesPerSec = nc_maxBytesPerSecPerPeer cfg, nw_maxPeers = nc_maxPeers cfg,
      nw_maxDecodeErrBan = nc_maxDecodeErrorsBeforeBan cfg, nw_events = []\<rparr>"

definition count :: "net_counter \<Rightarrow> u64 \<Rightarrow> network \<Rightarrow> network" where
  "count c n w = w\<lparr>nw_metrics := count_add c n (nw_metrics w)\<rparr>"

definition emit :: "net_event \<Rightarrow> network \<Rightarrow> network" where
  "emit e w = w\<lparr>nw_events := nw_events w @ [e]\<rparr>"

definition on_shards :: "(net_peer shards \<Rightarrow> net_peer shards) \<Rightarrow> network \<Rightarrow> network" where
  "on_shards f w = w\<lparr>nw_shards := f (nw_shards w)\<rparr>"

definition peerKey :: "string \<Rightarrow> u16 \<Rightarrow> string" where
  "peerKey address port = address @ '':'' @ show_nat (unat port)"

section \<open>The connection pool\<close>

text \<open>
  \<^verbatim>\<open>acquire\<close> takes the last pooled descriptor of the peer or opens a new one; \<open>opened\<close> is
  what the system returns for a new connection, negative on failure.
\<close>

definition pool_get :: "string \<Rightarrow> network \<Rightarrow> int list" where
  "pool_get key w = (case map_of (nw_pool w) key of None \<Rightarrow> [] | Some fds \<Rightarrow> fds)"

definition pool_put :: "string \<Rightarrow> int list \<Rightarrow> network \<Rightarrow> network" where
  "pool_put key fds w = w\<lparr>nw_pool := AList.update key fds (nw_pool w)\<rparr>"

definition acquire :: "int \<Rightarrow> string \<Rightarrow> u16 \<Rightarrow> network \<Rightarrow> int \<times> network" where
  "acquire opened address port w =
     (let key = peerKey address port; fds = pool_get key w
      in if fds \<noteq> [] then (last fds, pool_put key (butlast fds) w) else (opened, w))"

definition close_fds :: "int list \<Rightarrow> network \<Rightarrow> network" where
  "close_fds fds w = w\<lparr>nw_closed := nw_closed w @ fds\<rparr>"

definition release :: "string \<Rightarrow> u16 \<Rightarrow> int \<Rightarrow> bool \<Rightarrow> network \<Rightarrow> network" where
  "release address port fd healthy w =
     (if fd < 0 then w
      else if \<not> healthy then close_fds [fd] w
      else
        let key = peerKey address port; fds = pool_get key w
        in if length fds < nc_maxConnsPerPeer (nw_cfg w) then pool_put key (fds @ [fd]) w
           else close_fds [fd] (pool_put key fds w))"

definition evictPeer :: "string \<Rightarrow> u16 \<Rightarrow> network \<Rightarrow> network" where
  "evictPeer address port w =
     (let key = peerKey address port
      in (close_fds (pool_get key w) w)\<lparr>nw_pool := filter (\<lambda>(k, fds). k \<noteq> key) (nw_pool w)\<rparr>)"

definition pool_clear :: "network \<Rightarrow> network" where
  "pool_clear w = (close_fds (concat (map snd (nw_pool w))) w)\<lparr>nw_pool := []\<rparr>"

section \<open>The reconnect tracker\<close>

definition re_fail :: "u64 \<Rightarrow> u32 \<Rightarrow> reconnect_entry \<Rightarrow> reconnect_entry" where
  "re_fail nowMs maxDelayMs e =
     (let e = e\<lparr>re_attempts := re_attempts e + 1\<rparr>;
          e = e\<lparr>re_delayMs := min (ucast (min (ucast (re_delayMs e) * 2) (ucast maxDelayMs :: u64))) maxDelayMs\<rparr>
      in e\<lparr>re_nextRetryMs := nowMs + ucast (re_delayMs e)\<rparr>)"

definition re_ready :: "u64 \<Rightarrow> reconnect_entry \<Rightarrow> bool" where
  "re_ready nowMs e \<longleftrightarrow> nowMs \<ge> re_nextRetryMs e"

definition entry_of :: "string \<Rightarrow> network \<Rightarrow> reconnect_entry" where
  "entry_of key w = (case nw_reconnect w key of None \<Rightarrow> new_reconnect | Some e \<Rightarrow> e)"

definition recordFailure :: "u64 \<Rightarrow> string \<Rightarrow> u32 \<Rightarrow> network \<Rightarrow> network" where
  "recordFailure nowMs key maxDelayMs w =
     w\<lparr>nw_reconnect := (nw_reconnect w)(key \<mapsto> re_fail nowMs maxDelayMs (entry_of key w))\<rparr>"

definition recordSuccess :: "string \<Rightarrow> network \<Rightarrow> network" where
  "recordSuccess key w =
     (case nw_reconnect w key of
        None \<Rightarrow> w
      | Some e \<Rightarrow> w\<lparr>nw_reconnect := (nw_reconnect w)(key \<mapsto> new_reconnect)\<rparr>)"

definition shouldRetry :: "u64 \<Rightarrow> string \<Rightarrow> u32 \<Rightarrow> network \<Rightarrow> network \<times> bool" where
  "shouldRetry nowMs key maxAttempts w =
     (let e = entry_of key w; w = w\<lparr>nw_reconnect := (nw_reconnect w)(key \<mapsto> e)\<rparr>
      in (w, if re_attempts e \<ge> maxAttempts then False else re_ready nowMs e))"

definition attempts :: "string \<Rightarrow> network \<Rightarrow> u32" where
  "attempts key w = (case nw_reconnect w key of None \<Rightarrow> 0 | Some e \<Rightarrow> re_attempts e)"


section \<open>Peers\<close>

definition getPeer :: "(string \<Rightarrow> u64) \<Rightarrow> string \<Rightarrow> network \<Rightarrow> net_peer option" where
  "getPeer hash peerId w = sh_find hash peerId (nw_shards w)"

definition getPeers :: "network \<Rightarrow> net_peer list" where
  "getPeers w = map snd (sh_entries (nw_shards w))"

definition getActivePeers :: "network \<Rightarrow> net_peer list" where
  "getActivePeers w = filter (\<lambda>p. \<not> np_isBanned p \<and> np_isReachable p \<and> np_handshakeDone p) (getPeers w)"

definition peerCount :: "network \<Rightarrow> nat" where
  "peerCount w = sh_size (nw_shards w)"

definition activePeerCount :: "network \<Rightarrow> nat" where
  "activePeerCount w = unat (mt_count (nw_metrics w) ActivePeers)"

definition isConnected :: "string \<Rightarrow> network \<Rightarrow> bool" where
  "isConnected address w \<longleftrightarrow> list_ex (\<lambda>(k, p). np_address p = address) (sh_entries (nw_shards w))"

definition isBanned :: "(string \<Rightarrow> u64) \<Rightarrow> u64 \<Rightarrow> string \<Rightarrow> network \<Rightarrow> bool" where
  "isBanned hash now peerId w =
     (case getPeer hash peerId w of None \<Rightarrow> False | Some p \<Rightarrow> np_isBanned p \<and> now < np_banExpiresAt p)"

text \<open>Growing reads the counter of active peers, and rekeys the peers by their id.\<close>

definition maybeGrowShards :: "(string \<Rightarrow> u64) \<Rightarrow> network \<Rightarrow> network" where
  "maybeGrowShards hash w =
     (let currentShards = sh_count (nw_shards w)
      in if activePeerCount w \<le> currentShards * 8 then w
         else on_shards (sh_grow hash (\<lambda>k p. np_id p) (min (currentShards * 2) 1024)) w)"

text \<open>
  \<^verbatim>\<open>connectToPeer\<close> holds its shard's mutex exclusively when it calls \<^verbatim>\<open>peerCount\<close>, which locks
  every shard again. \<^verbatim>\<open>std::shared_mutex\<close> does not define what happens then: \<open>relock\<close> says
  whether the second lock is granted; if not, the call never returns (\<open>None\<close>).
\<close>

definition connectToPeer ::
    "bool \<Rightarrow> (string \<Rightarrow> u64) \<Rightarrow> u64 \<Rightarrow> string \<Rightarrow> u16 \<Rightarrow> network \<Rightarrow> (bool \<times> network) option" where
  "connectToPeer relock hash now address port w =
     (if address = [] then Some (False, w)
      else
        let key = peerKey address port
        in if getPeer hash key w \<noteq> None then Some (False, w)
           else if \<not> relock then None
           else if peerCount w \<ge> nw_maxPeers w then Some (False, w)
           else
             let info = default_peer\<lparr>np_id := key, np_address := address, np_port := port,
                   np_connectedAt := now, np_lastSeenAt := now, np_isReachable := True,
                   np_tokenMsgBucket := unat (nc_tokenBucketBurstMsg (nw_cfg w)),
                   np_tokenByteBucket := unat (nc_tokenBucketBurstBytes (nw_cfg w)),
                   np_tokenLastRefillEpoch := now\<rparr>;
                 w = on_shards (sh_emplace hash key info) w;
                 w = count ActivePeers 1 w;
                 w = recordSuccess key w;
                 w = (case getPeer hash key w of None \<Rightarrow> w | Some p \<Rightarrow> emit (PeerConnected p) w)
             in Some (True, if nc_adaptiveSharding (nw_cfg w) then maybeGrowShards hash w else w))"

definition disconnectPeer :: "(string \<Rightarrow> u64) \<Rightarrow> string \<Rightarrow> network \<Rightarrow> bool \<times> network" where
  "disconnectPeer hash peerId w =
     (case getPeer hash peerId w of
        None \<Rightarrow> (False, w)
      | Some p \<Rightarrow>
          let w = on_shards (sh_erase hash peerId) w;
              w = count ActivePeers (- 1) w;
              w = evictPeer (np_address p) (np_port p) w
          in (True, emit (PeerDisconnected peerId ''disconnected'') w))"

text \<open>The three assignments of a ban.\<close>

definition ban :: "u64 \<Rightarrow> network \<Rightarrow> net_peer \<Rightarrow> net_peer" where
  "ban now w p =
     p\<lparr>np_isBanned := True, np_banExpiresAt := now + nc_banDurationSecs (nw_cfg w), np_banCount := np_banCount p + 1\<rparr>"

definition banPeer :: "(string \<Rightarrow> u64) \<Rightarrow> u64 \<Rightarrow> string \<Rightarrow> network \<Rightarrow> bool \<times> network" where
  "banPeer hash now peerId w =
     (case getPeer hash peerId w of
        None \<Rightarrow> (False, w)
      | Some p \<Rightarrow>
          let w = on_shards (sh_update hash peerId (ban now w)) w;
              w = evictPeer peerId (nc_listenPort (nw_cfg w)) w
          in (True, count BanEvents 1 w))"

definition clamp_score :: "rat \<Rightarrow> rat" where
  "clamp_score s = (if s < 0 then 0 else if 100 < s then 100 else s)"

definition applyScoreChange :: "(string \<Rightarrow> u64) \<Rightarrow> u64 \<Rightarrow> string \<Rightarrow> rat \<Rightarrow> bool \<Rightarrow> network \<Rightarrow> network" where
  "applyScoreChange hash now peerId delta isBanCheck w =
     (case getPeer hash peerId w of
        None \<Rightarrow> w
      | Some p \<Rightarrow>
          let newScore = clamp_score (np_score p + delta);
              banned = (isBanCheck \<and> newScore \<le> 0);
              set = (\<lambda>p. p\<lparr>np_score := newScore\<rparr>);
              w = on_shards (sh_update hash peerId (\<lambda>p. if banned then ban now w (set p) else set p)) w;
              w = emit (PeerScored peerId newScore) w
          in if banned then count BanEvents 1 w else w)"

definition penalizePeer :: "(string \<Rightarrow> u64) \<Rightarrow> u64 \<Rightarrow> string \<Rightarrow> rat \<Rightarrow> network \<Rightarrow> bool \<times> network" where
  "penalizePeer hash now peerId penalty w = (True, applyScoreChange hash now peerId (- \<bar>penalty\<bar>) True w)"

definition rewardPeer :: "(string \<Rightarrow> u64) \<Rightarrow> u64 \<Rightarrow> string \<Rightarrow> rat \<Rightarrow> network \<Rightarrow> bool \<times> network" where
  "rewardPeer hash now peerId reward w = (True, applyScoreChange hash now peerId \<bar>reward\<bar> False w)"

definition maybeAutoBanPeer :: "(string \<Rightarrow> u64) \<Rightarrow> u64 \<Rightarrow> string \<Rightarrow> network \<Rightarrow> network" where
  "maybeAutoBanPeer hash now peerId w =
     (case getPeer hash peerId w of
        None \<Rightarrow> w
      | Some p \<Rightarrow>
          let n = np_decodeErrorCount p + 1;
              w' = on_shards (sh_update hash peerId (\<lambda>p. p\<lparr>np_decodeErrorCount := n\<rparr>)) w
          in if n < nw_maxDecodeErrBan w then w'
             else
               let w' = on_shards (sh_update hash peerId (ban now w)) w';
                   w' = count BanEvents 1 w';
                   w' = count AutoBanOnDecodeError 1 w'
               in evictPeer peerId (nc_listenPort (nw_cfg w)) w')"

section \<open>Token buckets\<close>

definition refillTokenBucket :: "network \<Rightarrow> u64 \<Rightarrow> net_peer \<Rightarrow> net_peer" where
  "refillTokenBucket w nowSec p =
     (if np_tokenLastRefillEpoch p = nowSec then p
      else
        let elapsed = unat (nowSec - np_tokenLastRefillEpoch p)
        in p\<lparr>np_tokenLastRefillEpoch := nowSec,
             np_tokenMsgBucket := min (np_tokenMsgBucket p + elapsed * unat (nw_maxMsgPerSec w))
               (unat (nc_tokenBucketBurstMsg (nw_cfg w))),
             np_tokenByteBucket := min (np_tokenByteBucket p + elapsed * unat (nw_maxBytesPerSec w))
               (unat (nc_tokenBucketBurstBytes (nw_cfg w)))\<rparr>)"

text \<open>The peer as it is left, and the answer; the rejections are counted by the caller's network.\<close>

definition checkRateLimit :: "network \<Rightarrow> u64 \<Rightarrow> net_peer \<Rightarrow> net_peer \<times> bool" where
  "checkRateLimit w sec p =
     (let p = refillTokenBucket w sec p
      in if np_tokenMsgBucket p < 1 then (p, False)
         else (p\<lparr>np_tokenMsgBucket := np_tokenMsgBucket p - 1, np_msgThisSecond := np_msgThisSecond p + 1\<rparr>, True))"

definition checkByteQuota :: "network \<Rightarrow> u64 \<Rightarrow> nat \<Rightarrow> net_peer \<Rightarrow> net_peer \<times> bool" where
  "checkByteQuota w sec bytes p =
     (let p = refillTokenBucket w sec p
      in if np_tokenByteBucket p < bytes then (p, False)
         else (p\<lparr>np_tokenByteBucket := np_tokenByteBucket p - bytes,
                 np_byteThisSecond := np_byteThisSecond p + word_of_nat bytes\<rparr>, True))"

definition setRateLimit :: "u32 \<Rightarrow> u64 \<Rightarrow> network \<Rightarrow> network" where
  "setRateLimit maxMsg maxBytes w = w\<lparr>nw_maxMsgPerSec := maxMsg, nw_maxBytesPerSec := maxBytes\<rparr>"

definition setMaxPeers :: "nat \<Rightarrow> network \<Rightarrow> network" where
  "setMaxPeers n w = w\<lparr>nw_maxPeers := max 1 n\<rparr>"

section \<open>Health checks\<close>

definition disconnect_all :: "(string \<Rightarrow> u64) \<Rightarrow> net_counter \<Rightarrow> string list \<Rightarrow> network \<Rightarrow> network" where
  "disconnect_all hash c keys w = foldl (\<lambda>w key. count c 1 (snd (disconnectPeer hash key w))) w keys"

definition evictStalePeers :: "(string \<Rightarrow> u64) \<Rightarrow> u64 \<Rightarrow> network \<Rightarrow> network" where
  "evictStalePeers hash now w =
     (let cutoff = now - nc_peerTimeoutSecs (nw_cfg w);
          toEvict = map fst (filter (\<lambda>(key, p). \<not> np_isBanned p \<and> np_lastSeenAt p > 0 \<and> np_lastSeenAt p < cutoff)
            (sh_entries (nw_shards w)))
      in disconnect_all hash PeersEvicted toEvict w)"

definition disconnectSlowPeers :: "(string \<Rightarrow> u64) \<Rightarrow> network \<Rightarrow> network" where
  "disconnectSlowPeers hash w =
     (let slow = map fst (filter (\<lambda>(key, p). np_sendQueueDepth p \<ge> nc_maxPerPeerSendQueue (nw_cfg w))
            (sh_entries (nw_shards w)))
      in disconnect_all hash SlowPeerDisconnects slow w)"

definition announce :: "(string \<Rightarrow> u64) \<Rightarrow> string list \<Rightarrow> network \<Rightarrow> network" where
  "announce hash keys w =
     foldl (\<lambda>w key. case getPeer hash key w of None \<Rightarrow> w | Some p \<Rightarrow> emit (PeerConnected p) w) w keys"

definition unbanExpiredPeers :: "(string \<Rightarrow> u64) \<Rightarrow> u64 \<Rightarrow> network \<Rightarrow> network" where
  "unbanExpiredPeers hash now w =
     (let expired = (\<lambda>p. np_isBanned p \<and> now \<ge> np_banExpiresAt p);
          unbanned = map fst (filter (\<lambda>(key, p). expired p) (sh_entries (nw_shards w)));
          w = on_shards (sh_mapi (\<lambda>key p. if expired p then p\<lparr>np_isBanned := False\<rparr> else p)) w
      in announce hash unbanned w)"

section \<open>Persistence\<close>

definition savePeers :: "network \<Rightarrow> (string \<Rightarrow> bytes option) \<Rightarrow> string \<Rightarrow> bytes option" where
  "savePeers w store =
     (let saved = filter (\<lambda>p. \<not> np_isBanned p \<and> np_handshakeDone p) (getPeers w)
      in write_peers (nc_peerStorePath (nw_cfg w)) (map (\<lambda>p. (np_address p, np_port p)) saved)
           (nc_verifyPeerStoreChecksum (nw_cfg w)) store)"

fun connect_all ::
    "bool \<Rightarrow> (string \<Rightarrow> u64) \<Rightarrow> u64 \<Rightarrow> (string \<times> u16) list \<Rightarrow> network \<Rightarrow> network option" where
  "connect_all relock hash now [] w = Some w"
| "connect_all relock hash now ((address, port) # ps) w =
     (case connectToPeer relock hash now address port w of
        None \<Rightarrow> None
      | Some (_, w) \<Rightarrow> connect_all relock hash now ps w)"

definition loadPeers ::
    "bool \<Rightarrow> (string \<Rightarrow> u64) \<Rightarrow> u64 \<Rightarrow> (string \<Rightarrow> bytes option) \<Rightarrow> network \<Rightarrow> network option" where
  "loadPeers relock hash now store w =
     connect_all relock hash now
       (read_peers (nc_peerStorePath (nw_cfg w)) (nc_verifyPeerStoreChecksum (nw_cfg w)) store) w"


section \<open>Specification: one map of peers\<close>

text \<open>
  The management operations, and what they do to the table of peers as one map. The flag of
  \<open>Connect\<close> says whether \<^verbatim>\<open>connectToPeer\<close> is granted the second lock of its shard when it
  asks for it; a call that is not granted it changes nothing and does not return.
\<close>

datatype net_op =
    Connect bool u64 string u16 | Disconnect string | Ban u64 string | Penalize u64 string rat
  | RewardPeer u64 string rat | DecodeFailure u64 string | EvictStale u64 | DisconnectSlow
  | UnbanExpired u64 | GrowShards

definition net_step :: "(string \<Rightarrow> u64) \<Rightarrow> net_op \<Rightarrow> network \<Rightarrow> network" where
  "net_step hash op w =
     (case op of
        Connect relock now address port \<Rightarrow>
          (case connectToPeer relock hash now address port w of None \<Rightarrow> w | Some (_, w') \<Rightarrow> w')
      | Disconnect pid \<Rightarrow> snd (disconnectPeer hash pid w)
      | Ban now pid \<Rightarrow> snd (banPeer hash now pid w)
      | Penalize now pid x \<Rightarrow> snd (penalizePeer hash now pid x w)
      | RewardPeer now pid x \<Rightarrow> snd (rewardPeer hash now pid x w)
      | DecodeFailure now pid \<Rightarrow> maybeAutoBanPeer hash now pid w
      | EvictStale now \<Rightarrow> evictStalePeers hash now w
      | DisconnectSlow \<Rightarrow> disconnectSlowPeers hash w
      | UnbanExpired now \<Rightarrow> unbanExpiredPeers hash now w
      | GrowShards \<Rightarrow> maybeGrowShards hash w)"

type_synonym peer_table = "string \<Rightarrow> net_peer option"

definition new_peer :: "network \<Rightarrow> u64 \<Rightarrow> string \<Rightarrow> u16 \<Rightarrow> net_peer" where
  "new_peer w now address port =
     default_peer\<lparr>np_id := peerKey address port, np_address := address, np_port := port,
       np_connectedAt := now, np_lastSeenAt := now, np_isReachable := True,
       np_tokenMsgBucket := unat (nc_tokenBucketBurstMsg (nw_cfg w)),
       np_tokenByteBucket := unat (nc_tokenBucketBurstBytes (nw_cfg w)), np_tokenLastRefillEpoch := now\<rparr>"

definition drop_peers :: "(net_peer \<Rightarrow> bool) \<Rightarrow> peer_table \<Rightarrow> peer_table" where
  "drop_peers P T = (\<lambda>k. case T k of None \<Rightarrow> None | Some p \<Rightarrow> if P p then None else Some p)"

definition change :: "string \<Rightarrow> (net_peer \<Rightarrow> net_peer) \<Rightarrow> peer_table \<Rightarrow> peer_table" where
  "change pid f T = T(pid := map_option f (T pid))"

definition scored :: "network \<Rightarrow> u64 \<Rightarrow> rat \<Rightarrow> bool \<Rightarrow> net_peer \<Rightarrow> net_peer" where
  "scored w now delta check p =
     (let s = clamp_score (np_score p + delta); p = p\<lparr>np_score := s\<rparr>
      in if check \<and> s \<le> 0 then ban now w p else p)"

definition failed_once :: "network \<Rightarrow> u64 \<Rightarrow> net_peer \<Rightarrow> net_peer" where
  "failed_once w now p =
     (let p = p\<lparr>np_decodeErrorCount := np_decodeErrorCount p + 1\<rparr>
      in if np_decodeErrorCount p < nw_maxDecodeErrBan w then p else ban now w p)"

definition spec_step :: "network \<Rightarrow> net_op \<Rightarrow> peer_table \<Rightarrow> peer_table" where
  "spec_step w op T =
     (case op of
        Connect granted now address port \<Rightarrow>
          if granted \<and> address \<noteq> [] \<and> T (peerKey address port) = None \<and> card (dom T) < nw_maxPeers w
          then T(peerKey address port \<mapsto> new_peer w now address port) else T
      | Disconnect pid \<Rightarrow> T(pid := None)
      | Ban now pid \<Rightarrow> change pid (ban now w) T
      | Penalize now pid x \<Rightarrow> change pid (scored w now (- \<bar>x\<bar>) True) T
      | RewardPeer now pid x \<Rightarrow> change pid (scored w now \<bar>x\<bar> False) T
      | DecodeFailure now pid \<Rightarrow> change pid (failed_once w now) T
      | EvictStale now \<Rightarrow> drop_peers (\<lambda>p. \<not> np_isBanned p \<and> np_lastSeenAt p > 0 \<and>
          np_lastSeenAt p < now - nc_peerTimeoutSecs (nw_cfg w)) T
      | DisconnectSlow \<Rightarrow> drop_peers (\<lambda>p. np_sendQueueDepth p \<ge> nc_maxPerPeerSendQueue (nw_cfg w)) T
      | UnbanExpired now \<Rightarrow>
          (\<lambda>k. map_option (\<lambda>p. if np_isBanned p \<and> now \<ge> np_banExpiresAt p then p\<lparr>np_isBanned := False\<rparr> else p) (T k))
      | GrowShards \<Rightarrow> T)"

section \<open>Invariant\<close>

text \<open>\<open>d\<close> is how far the counter of active peers is from the size of the table.\<close>

definition peers_at :: "(string \<Rightarrow> u64) \<Rightarrow> network \<Rightarrow> peer_table" where
  "peers_at hash w = (\<lambda>k. getPeer hash k w)"

definition net_wf :: "(string \<Rightarrow> u64) \<Rightarrow> u64 \<Rightarrow> network \<Rightarrow> bool" where
  "net_wf hash d w \<longleftrightarrow>
     sh_wf hash (nw_shards w) \<and>
     (\<forall>k p. getPeer hash k w = Some p \<longrightarrow> np_id p = k \<and> peerKey (np_address p) (np_port p) = k) \<and>
     mt_count (nw_metrics w) ActivePeers = word_of_nat (peerCount w) + d"

text \<open>What does not touch the table.\<close>

lemma off_table [simp]:
  "nw_shards (count c n w) = nw_shards w" "nw_cfg (count c n w) = nw_cfg w"
  "nw_shards (emit e w) = nw_shards w" "nw_metrics (emit e w) = nw_metrics w" "nw_cfg (emit e w) = nw_cfg w"
  "nw_shards (evictPeer a po w) = nw_shards w" "nw_metrics (evictPeer a po w) = nw_metrics w"
  "nw_cfg (evictPeer a po w) = nw_cfg w"
  "nw_shards (recordSuccess k w) = nw_shards w" "nw_metrics (recordSuccess k w) = nw_metrics w"
  "nw_cfg (recordSuccess k w) = nw_cfg w"
  "nw_metrics (on_shards f w) = nw_metrics w" "nw_cfg (on_shards f w) = nw_cfg w"
  "nw_shards (on_shards f w) = f (nw_shards w)"
  by (simp_all add: count_def emit_def evictPeer_def close_fds_def recordSuccess_def on_shards_def Let_def
      split: option.split)

lemma limits [simp]:
  "nw_maxPeers (count c n w) = nw_maxPeers w" "nw_maxDecodeErrBan (count c n w) = nw_maxDecodeErrBan w"
  "nw_maxPeers (emit e w) = nw_maxPeers w" "nw_maxDecodeErrBan (emit e w) = nw_maxDecodeErrBan w"
  "nw_maxPeers (evictPeer a po w) = nw_maxPeers w" "nw_maxDecodeErrBan (evictPeer a po w) = nw_maxDecodeErrBan w"
  "nw_maxPeers (recordSuccess k w) = nw_maxPeers w" "nw_maxDecodeErrBan (recordSuccess k w) = nw_maxDecodeErrBan w"
  "nw_maxPeers (on_shards f w) = nw_maxPeers w" "nw_maxDecodeErrBan (on_shards f w) = nw_maxDecodeErrBan w"
  by (simp_all add: count_def emit_def evictPeer_def close_fds_def recordSuccess_def on_shards_def Let_def
      split: option.split)

lemma getPeer_shards: "nw_shards w' = nw_shards w \<Longrightarrow> getPeer hash k w' = getPeer hash k w"
  by (simp add: getPeer_def)

lemma peerCount_shards: "nw_shards w' = nw_shards w \<Longrightarrow> peerCount w' = peerCount w"
  by (simp add: peerCount_def)

lemma mt_count_count [simp]:
  "mt_count (nw_metrics (count c n w)) d = (if d = c then mt_count (nw_metrics w) c + n else mt_count (nw_metrics w) d)"
  by (simp add: count_def)

text \<open>The same configuration, limits included.\<close>

definition same_limits :: "network \<Rightarrow> network \<Rightarrow> bool" where
  "same_limits w' w \<longleftrightarrow> nw_cfg w' = nw_cfg w \<and> nw_maxPeers w' = nw_maxPeers w \<and> nw_maxDecodeErrBan w' = nw_maxDecodeErrBan w"

lemma peerCount_card: "net_wf hash d w \<Longrightarrow> peerCount w = card (dom (peers_at hash w))"
  using shards.size_card [of hash "nw_shards w"]
  by (simp add: peerCount_def sh_size_eq net_wf_def peers_at_def getPeer_def dom_def)

text \<open>
  A step of the table: the new network is well-formed and stands for the table \<open>T\<close>, under the
  same limits.
\<close>

definition stands_for :: "(string \<Rightarrow> u64) \<Rightarrow> u64 \<Rightarrow> network \<Rightarrow> network \<Rightarrow> peer_table \<Rightarrow> bool" where
  "stands_for hash d w w' T \<longleftrightarrow> net_wf hash d w' \<and> same_limits w' w \<and> peers_at hash w' = T"

lemma stands_for_change:
  assumes "net_wf hash d w" and "\<And>p. np_id (f p) = np_id p \<and> np_address (f p) = np_address p \<and> np_port (f p) = np_port p"
    and "nw_shards w' = sh_update hash pid f (nw_shards w)" and "same_limits w' w"
    and "mt_count (nw_metrics w') ActivePeers = mt_count (nw_metrics w) ActivePeers"
  shows "stands_for hash d w w' (change pid f (peers_at hash w))"
proof -
  have s: "sh_wf hash (nw_shards w)" using assms(1) by (simp add: net_wf_def)
  have g: "getPeer hash k w' = (if k = pid then map_option f (getPeer hash pid w) else getPeer hash k w)" for k
    using shards.find_upd [OF s] by (simp add: getPeer_def assms(3))
  have "net_wf hash d w'"
    unfolding net_wf_def
  proof (intro conjI allI impI)
    show "sh_wf hash (nw_shards w')" using shards.wf_ops(2) [OF s] by (simp add: assms(3))
    show "mt_count (nw_metrics w') ActivePeers = word_of_nat (peerCount w') + d"
      using assms(1) shards.size_upd [OF s] by (simp add: assms(3,5) net_wf_def peerCount_def sh_size_eq)
  qed (use assms(1,2) g in \<open>auto simp: net_wf_def split: if_splits\<close>)
  then show ?thesis
    using assms(4) g by (auto simp: stands_for_def peers_at_def change_def)
qed

lemma stands_for_erase:
  assumes "net_wf hash d w" and "getPeer hash pid w \<noteq> None"
    and "nw_shards w' = sh_erase hash pid (nw_shards w)" and "same_limits w' w"
    and "mt_count (nw_metrics w') ActivePeers = mt_count (nw_metrics w) ActivePeers - 1"
  shows "stands_for hash d w w' ((peers_at hash w)(pid := None))"
proof -
  have s: "sh_wf hash (nw_shards w)" using assms(1) by (simp add: net_wf_def)
  have g: "getPeer hash k w' = (if k = pid then None else getPeer hash k w)" for k
    using shards.find_erase [OF s] by (simp add: getPeer_def assms(3))
  have "sh_entries (nw_shards w) \<noteq> []"
    using assms(2) shards.find_entries [OF s, of pid] by (auto simp: getPeer_def)
  then have n: "word_of_nat (length (sh_entries (nw_shards w)) - 1) = (word_of_nat (length (sh_entries (nw_shards w))) - 1 :: u64)"
    by (cases "sh_entries (nw_shards w)") simp_all
  have "net_wf hash d w'"
    unfolding net_wf_def
  proof (intro conjI allI impI)
    show "sh_wf hash (nw_shards w')" using shards.wf_ops(3) [OF s] by (simp add: assms(3))
    show "mt_count (nw_metrics w') ActivePeers = word_of_nat (peerCount w') + d"
      using assms(1,2) shards.size_erase [OF s, of pid] n
      by (simp add: assms(3,5) net_wf_def peerCount_def sh_size_eq getPeer_def)
  qed (use assms(1) g in \<open>auto simp: net_wf_def split: if_splits\<close>)
  then show ?thesis using assms(4) g by (auto simp: stands_for_def peers_at_def)
qed


lemma same_limits_trans: "same_limits w'' w' \<Longrightarrow> same_limits w' w \<Longrightarrow> same_limits w'' w"
  by (simp add: same_limits_def)

lemma same_limits_off [simp]:
  "same_limits w w" "same_limits (count c n w') w \<longleftrightarrow> same_limits w' w" "same_limits (emit e w') w \<longleftrightarrow> same_limits w' w"
  "same_limits (evictPeer a po w') w \<longleftrightarrow> same_limits w' w" "same_limits (recordSuccess k w') w \<longleftrightarrow> same_limits w' w"
  "same_limits (on_shards f w') w \<longleftrightarrow> same_limits w' w"
  by (simp_all add: same_limits_def)

lemma stands_for_same:
  assumes "net_wf hash d w" and "nw_shards w' = nw_shards w" and "same_limits w' w"
    and "mt_count (nw_metrics w') ActivePeers = mt_count (nw_metrics w) ActivePeers"
  shows "stands_for hash d w w' (peers_at hash w)"
  using assms by (simp add: stands_for_def net_wf_def peers_at_def getPeer_def peerCount_def)

lemma change_None: "T pid = None \<Longrightarrow> change pid f T = T"
  by (auto simp: change_def)

lemma change_cong: "T pid = Some p \<Longrightarrow> f p = g p \<Longrightarrow> change pid f T = change pid g T"
  by (simp add: change_def)

lemma step_disconnect:
  assumes "net_wf hash d w"
  shows "stands_for hash d w (snd (disconnectPeer hash pid w)) ((peers_at hash w)(pid := None))"
proof (cases "getPeer hash pid w")
  case None
  then show ?thesis
    using stands_for_same [OF assms, of w] by (simp add: disconnectPeer_def peers_at_def fun_upd_idem)
next
  case (Some p)
  then show ?thesis
    by (intro stands_for_erase [OF assms]) (simp_all add: disconnectPeer_def Let_def)
qed

lemma step_ban:
  assumes "net_wf hash d w"
  shows "stands_for hash d w (snd (banPeer hash now pid w)) (change pid (ban now w) (peers_at hash w))"
proof (cases "getPeer hash pid w")
  case None
  then show ?thesis
    using stands_for_same [OF assms, of w] by (simp add: banPeer_def change_None peers_at_def)
next
  case (Some p)
  then show ?thesis
    by (intro stands_for_change [OF assms]) (simp_all add: banPeer_def Let_def ban_def)
qed

lemma step_score:
  assumes "net_wf hash d w"
  shows "stands_for hash d w (applyScoreChange hash now pid delta check w)
    (change pid (scored w now delta check) (peers_at hash w))"
proof (cases "getPeer hash pid w")
  case None
  then show ?thesis
    using stands_for_same [OF assms, of w] by (simp add: applyScoreChange_def change_None peers_at_def)
next
  case (Some p)
  let ?s = "clamp_score (np_score p + delta)"
  let ?f = "\<lambda>p. if check \<and> ?s \<le> 0 then ban now w (p\<lparr>np_score := ?s\<rparr>) else p\<lparr>np_score := ?s\<rparr>"
  have "stands_for hash d w (applyScoreChange hash now pid delta check w) (change pid ?f (peers_at hash w))"
    using Some by (intro stands_for_change [OF assms]) (simp_all add: applyScoreChange_def Let_def ban_def)
  moreover have "change pid ?f (peers_at hash w) = change pid (scored w now delta check) (peers_at hash w)"
    by (rule change_cong [where p = p]) (use Some in \<open>simp_all add: peers_at_def scored_def Let_def\<close>)
  ultimately show ?thesis by simp
qed

lemma sh_update_twice:
  assumes "sh_wf hash s"
  shows "sh_update hash k f (sh_update hash k g s) = sh_update hash k (f \<circ> g) s"
proof -
  have i: "shardIndex hash k (sh_count s) < length (sh_maps s)"
    using assms by (auto simp: sh_wf_def intro: less_le_trans shardIndex_less)
  have "map (\<lambda>(x, v). (x, if x = k then f v else v)) (map (\<lambda>(x, v). (x, if x = k then g v else v)) m) =
      map (\<lambda>(x, v). (x, if x = k then (f \<circ> g) v else v)) m" for m
    by (induction m) auto
  then show ?thesis using i by (simp add: sh_update_def on_shard_def shard_of_def del: map_map)
qed

lemma step_decode_failure:
  assumes "net_wf hash d w"
  shows "stands_for hash d w (maybeAutoBanPeer hash now pid w) (change pid (failed_once w now) (peers_at hash w))"
proof (cases "getPeer hash pid w")
  case None
  then show ?thesis
    using stands_for_same [OF assms, of w] by (simp add: maybeAutoBanPeer_def change_None peers_at_def)
next
  case (Some p)
  let ?g = "\<lambda>q. q\<lparr>np_decodeErrorCount := np_decodeErrorCount p + 1\<rparr>"
  let ?f = "\<lambda>q. if np_decodeErrorCount p + 1 < nw_maxDecodeErrBan w then ?g q else ban now w (?g q)"
  have s: "sh_wf hash (nw_shards w)" using assms by (simp add: net_wf_def)
  have "stands_for hash d w (maybeAutoBanPeer hash now pid w) (change pid ?f (peers_at hash w))"
    using Some
    by (intro stands_for_change [OF assms])
       (simp_all add: maybeAutoBanPeer_def Let_def ban_def sh_update_twice [OF s] comp_def)
  moreover have "change pid ?f (peers_at hash w) = change pid (failed_once w now) (peers_at hash w)"
    by (rule change_cong [where p = p]) (use Some in \<open>simp_all add: peers_at_def failed_once_def Let_def\<close>)
  ultimately show ?thesis by simp
qed

lemma disconnect_all_stands:
  assumes "net_wf hash d w" and "c \<noteq> ActivePeers"
  shows "stands_for hash d w (disconnect_all hash c ks w) (\<lambda>k. if k \<in> set ks then None else peers_at hash w k)"
  using assms(1)
proof (induction ks arbitrary: w)
  case Nil
  then show ?case using stands_for_same [OF Nil, of w] by (simp add: disconnect_all_def)
next
  case (Cons k ks)
  let ?w = "count c 1 (snd (disconnectPeer hash k w))"
  note d = step_disconnect [OF Cons.prems, of k]
  have w': "net_wf hash d ?w" "same_limits ?w w" "peers_at hash ?w = (peers_at hash w)(k := None)"
    using d assms(2) by (simp_all add: stands_for_def net_wf_def peers_at_def getPeer_def peerCount_def)
  have "disconnect_all hash c (k # ks) w = disconnect_all hash c ks ?w" by (simp add: disconnect_all_def)
  moreover have "(\<lambda>j. if j \<in> set ks then None else peers_at hash ?w j) =
      (\<lambda>j. if j \<in> set (k # ks) then None else peers_at hash w j)"
    by (auto simp: w'(3))
  ultimately show ?case
    using Cons.IH [OF w'(1)] w'(2) by (auto simp: stands_for_def intro: same_limits_trans)
qed

lemma drop_peers_keys:
  assumes "net_wf hash d w"
  shows "(\<lambda>k. if k \<in> set (map fst (filter (\<lambda>(k, p). P p) (sh_entries (nw_shards w)))) then None else peers_at hash w k) =
    drop_peers P (peers_at hash w)"
proof
  fix k
  have s: "sh_wf hash (nw_shards w)" using assms by (simp add: net_wf_def)
  have "k \<in> set (map fst (filter (\<lambda>(k, p). P p) (sh_entries (nw_shards w)))) \<longleftrightarrow>
      (\<exists>p. peers_at hash w k = Some p \<and> P p)"
    using shards.mem_entries [OF s] by (auto simp: peers_at_def getPeer_def image_iff split: prod.splits)
  then show "(if k \<in> set (map fst (filter (\<lambda>(k, p). P p) (sh_entries (nw_shards w)))) then None else peers_at hash w k) =
      drop_peers P (peers_at hash w) k"
    by (auto simp: drop_peers_def split: option.split)
qed

lemma step_drop:
  assumes "net_wf hash d w" and "c \<noteq> ActivePeers"
  shows "stands_for hash d w (disconnect_all hash c (map fst (filter (\<lambda>(k, p). P p) (sh_entries (nw_shards w)))) w)
    (drop_peers P (peers_at hash w))"
  unfolding drop_peers_keys [OF assms(1), symmetric] by (rule disconnect_all_stands [OF assms])

lemma announce_same:
  "nw_shards (announce hash ks w) = nw_shards w \<and> nw_metrics (announce hash ks w) = nw_metrics w \<and>
   same_limits (announce hash ks w) w"
proof (induction ks arbitrary: w)
  case (Cons k ks)
  have "announce hash (k # ks) w =
      announce hash ks (case getPeer hash k w of None \<Rightarrow> w | Some p \<Rightarrow> emit (PeerConnected p) w)"
    by (simp add: announce_def)
  then show ?case
    using Cons.IH same_limits_trans [OF Cons.IH [THEN conjunct2, THEN conjunct2], of _ w]
    by (cases "getPeer hash k w") simp_all
qed (simp add: announce_def)

lemma step_unban:
  assumes "net_wf hash d w"
  shows "stands_for hash d w (unbanExpiredPeers hash now w)
    (\<lambda>k. map_option (\<lambda>p. if np_isBanned p \<and> now \<ge> np_banExpiresAt p then p\<lparr>np_isBanned := False\<rparr> else p) (peers_at hash w k))"
    (is "stands_for hash d w ?w' (\<lambda>k. map_option ?f (peers_at hash w k))")
proof -
  have s: "sh_wf hash (nw_shards w)" using assms by (simp add: net_wf_def)
  let ?w1 = "on_shards (sh_mapi (\<lambda>k. ?f)) w"
  have "\<exists>ks. ?w' = announce hash ks ?w1" by (simp add: unbanExpiredPeers_def Let_def) blast
  then obtain ks where ks: "?w' = announce hash ks ?w1" ..
  have sh: "nw_shards ?w' = sh_mapi (\<lambda>k. ?f) (nw_shards w)" "nw_metrics ?w' = nw_metrics w" "same_limits ?w' w"
    unfolding ks using announce_same [of hash ks ?w1] same_limits_trans [of _ ?w1 w] by simp_all
  have g: "getPeer hash k ?w' = map_option ?f (getPeer hash k w)" for k
    using shards.find_mapi [OF s] by (simp add: getPeer_def sh(1))
  have "net_wf hash d ?w'"
    unfolding net_wf_def
  proof (intro conjI allI impI)
    show "sh_wf hash (nw_shards ?w')" using shards.wf_ops(4) [OF s] by (simp add: sh(1))
    show "mt_count (nw_metrics ?w') ActivePeers = word_of_nat (peerCount ?w') + d"
      using assms shards.size_mapi [OF s] by (simp add: net_wf_def peerCount_def sh_size_eq sh)
  qed (use assms g in \<open>auto simp: net_wf_def split: if_splits\<close>)
  then show ?thesis using sh(3) g by (simp add: stands_for_def peers_at_def)
qed

lemma step_grow:
  assumes "net_wf hash d w"
  shows "stands_for hash d w (maybeGrowShards hash w) (peers_at hash w)"
proof (cases "activePeerCount w \<le> sh_count (nw_shards w) * 8")
  case True
  then show ?thesis using stands_for_same [OF assms, of w] by (simp add: maybeGrowShards_def)
next
  case False
  let ?n = "min (sh_count (nw_shards w) * 2) 1024"
  have s: "sh_wf hash (nw_shards w)" using assms by (simp add: net_wf_def)
  have n: "0 < ?n" using s by (simp add: sh_wf_def)
  have "\<forall>(k, p)\<in>set (sh_entries (nw_shards w)). np_id p = k"
    using shards.mem_entries [OF s] assms by (auto simp: net_wf_def getPeer_def)
  note g = sh_grow_correct [OF s n this]
  have w': "maybeGrowShards hash w = on_shards (sh_grow hash (\<lambda>k p. np_id p) ?n) w"
    using False by (simp add: maybeGrowShards_def Let_def)
  have p: "getPeer hash k (maybeGrowShards hash w) = getPeer hash k w" for k
    using g by (simp add: getPeer_def w')
  have c: "peerCount (maybeGrowShards hash w) = peerCount w" using g by (simp add: peerCount_def w')
  have "net_wf hash d (maybeGrowShards hash w)"
    using assms g unfolding net_wf_def p c by (simp add: w')
  then show ?thesis using p by (simp add: stands_for_def peers_at_def w')
qed

lemma step_granted:
  assumes "net_wf hash d w"
  shows "stands_for hash d w (snd (the (connectToPeer True hash now address port w)))
    (spec_step w (Connect True now address port) (peers_at hash w))"
proof (cases "address \<noteq> [] \<and> getPeer hash (peerKey address port) w = None \<and> peerCount w < nw_maxPeers w")
  case False
  then show ?thesis
    using stands_for_same [OF assms, of w] peerCount_card [OF assms]
    by (auto simp: connectToPeer_def spec_step_def peers_at_def Let_def)
next
  case True
  let ?k = "peerKey address port"
  let ?p = "new_peer w now address port"
  let ?w1 = "recordSuccess ?k (count ActivePeers 1 (on_shards (sh_emplace hash ?k ?p) w))"
  let ?w2 = "case getPeer hash ?k ?w1 of None \<Rightarrow> ?w1 | Some p \<Rightarrow> emit (PeerConnected p) ?w1"
  have s: "sh_wf hash (nw_shards w)" using assms by (simp add: net_wf_def)
  have r: "snd (the (connectToPeer True hash now address port w)) =
      (if nc_adaptiveSharding (nw_cfg w) then maybeGrowShards hash ?w2 else ?w2)"
    using True by (simp add: connectToPeer_def Let_def new_peer_def split: option.split)
  have t: "nw_shards ?w2 = sh_emplace hash ?k ?p (nw_shards w)" "same_limits ?w2 w"
    "mt_count (nw_metrics ?w2) ActivePeers = mt_count (nw_metrics w) ActivePeers + 1"
    by (simp_all split: option.split)
  have none: "sh_find hash ?k (nw_shards w) = None" using True by (simp add: getPeer_def)
  have g: "getPeer hash k ?w2 = (if k = ?k then Some ?p else getPeer hash k w)" for k
    by (subst (1) getPeer_def, subst t(1)) (use none in \<open>simp add: shards.find_emplace [OF s] getPeer_def\<close>)
  have "net_wf hash d ?w2"
    unfolding net_wf_def
  proof (intro conjI allI impI)
    show "sh_wf hash (nw_shards ?w2)" unfolding t(1) by (rule shards.wf_ops(1) [OF s])
    show "mt_count (nw_metrics ?w2) ActivePeers = word_of_nat (peerCount ?w2) + d"
      unfolding t(3) peerCount_def sh_size_eq t(1) shards.size_emplace [OF s]
      using assms none by (simp add: net_wf_def peerCount_def sh_size_eq)
  qed (use assms g in \<open>auto simp: net_wf_def new_peer_def split: if_splits\<close>)
  then have w2: "stands_for hash d w ?w2 ((peers_at hash w)(?k \<mapsto> ?p))"
    using t(2) g by (auto simp: stands_for_def peers_at_def)
  have "stands_for hash d w (snd (the (connectToPeer True hash now address port w))) ((peers_at hash w)(?k \<mapsto> ?p))"
    unfolding r using w2 step_grow [of hash d ?w2] by (auto simp: stands_for_def intro: same_limits_trans)
  then show ?thesis
    using True peerCount_card [OF assms] by (simp add: spec_step_def peers_at_def)
qed

lemma net_step_connect:
  "net_step hash (Connect relock now a po) w = (if relock then snd (the (connectToPeer True hash now a po w)) else w)"
  by (auto simp: net_step_def connectToPeer_def Let_def split: option.split)

lemma step_connect:
  assumes "net_wf hash d w"
  shows "stands_for hash d w (net_step hash (Connect relock now a po) w) (spec_step w (Connect relock now a po) (peers_at hash w))"
  using step_granted [OF assms, of now a po] stands_for_same [OF assms, of w]
  by (cases relock) (simp_all add: net_step_connect spec_step_def)

lemmas net_steps = step_connect step_disconnect step_ban step_score step_decode_failure step_drop step_unban step_grow

lemma net_step_stands:
  assumes "net_wf hash d w"
  shows "stands_for hash d w (net_step hash op w) (spec_step w op (peers_at hash w))"
proof (cases op)
  case (Connect relock now a po)
  then show ?thesis using step_connect [OF assms] by simp
next
  case (EvictStale now)
  then show ?thesis
    using step_drop [OF assms, of PeersEvicted] by (simp add: net_step_def spec_step_def evictStalePeers_def Let_def)
next
  case DisconnectSlow
  then show ?thesis
    using step_drop [OF assms, of SlowPeerDisconnects]
    by (simp add: net_step_def spec_step_def disconnectSlowPeers_def Let_def)
next
  case GrowShards
  then show ?thesis using step_grow [OF assms] by (simp add: net_step_def spec_step_def)
next
  case (UnbanExpired now)
  then show ?thesis using step_unban [OF assms] by (simp add: net_step_def spec_step_def)
qed (use step_disconnect [OF assms] step_ban [OF assms] step_score [OF assms] step_decode_failure [OF assms] in
    \<open>simp_all add: net_step_def spec_step_def penalizePeer_def rewardPeer_def\<close>)

lemma Network_wf: "net_wf hash 0 (Network cfg)"
  by (simp add: net_wf_def Network_def new_shards_wf getPeer_def peerCount_def sh_size_eq new_shards_empty
      shards.find_entries [OF new_shards_wf] zero_metrics_def)

section \<open>Runs of the peer table\<close>

definition net_run :: "(string \<Rightarrow> u64) \<Rightarrow> net_op list \<Rightarrow> network \<Rightarrow> network" where
  "net_run hash ops w = foldl (\<lambda>w op. net_step hash op w) w ops"

definition spec_run :: "network \<Rightarrow> net_op list \<Rightarrow> peer_table \<Rightarrow> peer_table" where
  "spec_run w ops T = foldl (\<lambda>T op. spec_step w op T) T ops"

lemma spec_step_limits:
  assumes "same_limits w' w"
  shows "spec_step w' op T = spec_step w op T"
proof -
  have "ban now w' = ban now w" for now using assms by (simp add: ban_def [abs_def] same_limits_def)
  then have "scored w' now x c = scored w now x c" "failed_once w' now = failed_once w now" for now x c
    using assms by (simp_all add: fun_eq_iff scored_def failed_once_def same_limits_def Let_def)
  then show ?thesis
    using assms \<open>\<And>now. ban now w' = ban now w\<close> by (cases op) (simp_all add: spec_step_def same_limits_def new_peer_def)
qed

lemma net_run_stands:
  assumes "net_wf hash d w"
  shows "stands_for hash d w (net_run hash ops w) (spec_run w ops (peers_at hash w))"
  using assms
proof (induction ops rule: rev_induct)
  case Nil
  then show ?case by (simp add: net_run_def spec_run_def stands_for_def)
next
  case (snoc op ops)
  let ?w = "net_run hash ops w"
  have IH: "net_wf hash d ?w" "same_limits ?w w" "peers_at hash ?w = spec_run w ops (peers_at hash w)"
    using snoc by (simp_all add: stands_for_def)
  have "stands_for hash d ?w (net_step hash op ?w) (spec_step w op (spec_run w ops (peers_at hash w)))"
    using net_step_stands [OF IH(1), of op] by (simp add: IH(3) spec_step_limits [OF IH(2)])
  then show ?case
    using same_limits_trans [OF _ IH(2)] by (simp add: stands_for_def net_run_def spec_run_def)
qed

lemma Network_table: "peers_at hash (Network cfg) = Map.empty"
  by (rule ext) (simp add: peers_at_def getPeer_def Network_def shards.find_entries [OF new_shards_wf] new_shards_empty)

lemma Network_limits: "nw_cfg (Network cfg) = cfg" "nw_maxPeers (Network cfg) = nc_maxPeers cfg"
  by (simp_all add: Network_def)

lemma net_run_Network:
  "net_wf hash 0 (net_run hash ops (Network cfg))"
  "peers_at hash (net_run hash ops (Network cfg)) = spec_run (Network cfg) ops Map.empty"
  "nw_cfg (net_run hash ops (Network cfg)) = cfg"
  using net_run_stands [OF Network_wf, of hash cfg ops] Network_table [of hash cfg] Network_limits(1) [of cfg]
  by (auto simp add: stands_for_def same_limits_def)

text \<open>A property of every peer that new peers have and no step takes away.\<close>

lemma spec_run_peers:
  assumes "\<And>now a po. P (new_peer w now a po)"
    and "\<And>p. P p \<Longrightarrow> P (p\<lparr>np_isBanned := False\<rparr>)" and "\<And>p now. P p \<Longrightarrow> P (ban now w p)"
    and "\<And>p now x c. P p \<Longrightarrow> P (scored w now x c p)" and "\<And>p now. P p \<Longrightarrow> P (failed_once w now p)"
    and "spec_run w ops Map.empty k = Some p"
  shows "P p"
  using assms(6)
proof (induction ops arbitrary: k p rule: rev_induct)
  case (snoc op ops)
  have step: "spec_step w op (spec_run w ops Map.empty) k = Some p"
    using snoc.prems by (simp add: spec_run_def)
  show ?case
    using step snoc.IH assms(1-5)
    by (cases op) (auto simp: spec_step_def change_def drop_peers_def split: if_splits option.splits)
qed (simp add: spec_run_def)

lemma spec_run_card: "finite (dom (spec_run w ops Map.empty)) \<and> card (dom (spec_run w ops Map.empty)) \<le> nw_maxPeers w"
proof (induction ops rule: rev_induct)
  case (snoc op ops)
  let ?T = "spec_run w ops Map.empty"
  have sub: "dom (spec_step w op ?T) \<subseteq> dom ?T \<or> (\<exists>k. dom (spec_step w op ?T) = insert k (dom ?T) \<and> card (dom ?T) < nw_maxPeers w)"
    by (cases op) (auto simp: spec_step_def change_def drop_peers_def split: if_splits option.splits)
  have "finite (dom (spec_step w op ?T)) \<and> card (dom (spec_step w op ?T)) \<le> nw_maxPeers w"
    using sub
  proof (elim disjE exE conjE)
    assume "dom (spec_step w op ?T) \<subseteq> dom ?T"
    then show ?thesis using snoc by (meson card_mono finite_subset le_trans)
  next
    fix k assume "dom (spec_step w op ?T) = insert k (dom ?T)" "card (dom ?T) < nw_maxPeers w"
    then show ?thesis using snoc by (simp add: card_insert_if)
  qed
  then show ?case by (simp add: spec_run_def)
qed (simp add: spec_run_def)

definition relock_granted :: "net_op \<Rightarrow> bool" where
  "relock_granted op = (case op of Connect granted now address port \<Rightarrow> granted | _ \<Rightarrow> False)"

lemma spec_run_stuck: "list_ex relock_granted ops \<or> spec_run w ops Map.empty = Map.empty"
proof (induction ops rule: rev_induct)
  case (snoc op ops)
  have "relock_granted op \<or> spec_step w op Map.empty = Map.empty"
    by (cases op) (auto simp: relock_granted_def spec_step_def change_def drop_peers_def)
  then show ?case using snoc by (auto simp: spec_run_def)
qed (simp add: spec_run_def)

text \<open>
  C5: the sharded peer table with its counters is one map. Whatever sequence of connects,
  disconnects, bans, score changes, decode failures, evictions, unbans and shard
  redistributions a network with any hash function and configuration goes through, looking a
  peer up gives what the same steps on one map give, the counter of active peers is the size
  of that map modulo \<open>2^64\<close>, and the map never holds more than the configured number of
  peers. \<^verbatim>\<open>connectToPeer\<close> locks the mutex of its shard twice, which C++ leaves undefined; the
  claim covers the platforms where each such call is either granted the second lock or never
  returns, as the flag of its \<open>Connect\<close> says, and where it is never granted no peer is ever
  added. After a call that does not return the steps that need its shard cannot happen, so
  the runs here include more than the program has.
\<close>

theorem peer_table_refines:
  "let w = net_run hash ops (Network cfg); T = spec_run (Network cfg) ops Map.empty
   in (\<lambda>k. getPeer hash k w) = T \<and> peerCount w = card (dom T) \<and>
      mt_count (nw_metrics w) ActivePeers = word_of_nat (card (dom T)) \<and> peerCount w \<le> nc_maxPeers cfg \<and>
      (list_ex relock_granted ops \<or> T = Map.empty)"
proof -
  let ?w = "net_run hash ops (Network cfg)"
  have "peerCount ?w = card (dom (spec_run (Network cfg) ops Map.empty))"
    using peerCount_card [OF net_run_Network(1), of hash ops cfg] by (simp add: net_run_Network(2))
  then show ?thesis
    using net_run_Network(1,2) [of hash ops cfg] spec_run_card [of "Network cfg" ops]
      spec_run_stuck [of ops "Network cfg"]
    by (simp add: Network_limits Let_def peers_at_def net_wf_def)
qed

text \<open>C39: every peer a run leaves in the table is well-formed: it is filed under its own
  id, the id is its address and port, its score lies between 0 and 100, and it is reachable.
\<close>

theorem peers_well_formed:
  "case getPeer hash k (net_run hash ops (Network cfg)) of
     None \<Rightarrow> True
   | Some p \<Rightarrow> np_id p = k \<and> k = peerKey (np_address p) (np_port p) \<and> 0 \<le> np_score p \<and> np_score p \<le> 100 \<and>
       np_isReachable p"
proof (cases "getPeer hash k (net_run hash ops (Network cfg))")
  case (Some p)
  let ?P = "\<lambda>p. 0 \<le> np_score p \<and> np_score p \<le> 100 \<and> np_isReachable p"
  have "spec_run (Network cfg) ops Map.empty k = Some p"
    using Some net_run_Network(2) [of hash ops cfg] by (metis peers_at_def)
  then have "?P p"
    by (rule spec_run_peers [where P = ?P, rotated -1])
      (auto simp: new_peer_def default_peer_def ban_def scored_def failed_once_def clamp_score_def Let_def)
  then show ?thesis using Some net_run_Network(1) [of hash ops cfg] by (auto simp: net_wf_def)
qed simp

text \<open>
  no peer ever becomes active. No operation sets \<^verbatim>\<open>handshakeDone\<close>, so \<^verbatim>\<open>getActivePeers\<close>
  is empty in every run, and \<^verbatim>\<open>savePeers\<close> overwrites the peer store with an empty one.
\<close>

theorem no_peer_active:
  "getActivePeers (net_run hash ops (Network cfg)) = [] \<and>
   savePeers (net_run hash ops (Network cfg)) store =
     write_peers (nc_peerStorePath cfg) [] (nc_verifyPeerStoreChecksum cfg) store"
proof -
  let ?w = "net_run hash ops (Network cfg)"
  have s: "sh_wf hash (nw_shards ?w)" using net_run_Network(1) by (simp add: net_wf_def)
  have no: "\<not> np_handshakeDone p" if "p \<in> set (getPeers ?w)" for p
  proof -
    obtain k where "getPeer hash k ?w = Some p"
      using \<open>p \<in> set (getPeers ?w)\<close> shards.mem_entries [OF s] by (auto simp: getPeers_def getPeer_def)
    then have "spec_run (Network cfg) ops Map.empty k = Some p"
      using net_run_Network(2) [of hash ops cfg] by (metis peers_at_def)
    then show ?thesis
      by (rule spec_run_peers [where P = "\<lambda>p. \<not> np_handshakeDone p", rotated -1])
        (auto simp: new_peer_def default_peer_def ban_def scored_def failed_once_def Let_def)
  qed
  have f: "filter (\<lambda>p. \<not> np_isBanned p \<and> np_handshakeDone p) (getPeers ?w) = []" "getActivePeers ?w = []"
    unfolding getActivePeers_def filter_empty_conv using no by blast+
  then show ?thesis by (simp add: savePeers_def net_run_Network(3))
qed

text \<open>
  \<^verbatim>\<open>connectToPeer\<close> depends on locking its shard a second time: when the second
  lock is not granted it returns for known peers and empty addresses only, and
  otherwise never.
\<close>

theorem connect_needs_second_lock:
  "connectToPeer False hash now address port w =
     (if address = [] then Some (False, w)
      else case getPeer hash (peerKey address port) w of Some p \<Rightarrow> Some (False, w) | None \<Rightarrow> None)"
  by (simp add: connectToPeer_def Let_def split: option.split)

lemma peerKey_longer: "peerKey a port \<noteq> a"
  by (simp add: peerKey_def)

lemma pool_get_evict: "pool_get k (evictPeer a po w) = (if k = peerKey a po then [] else pool_get k w)"
proof -
  have "map_of (filter (\<lambda>(j, fds). j \<noteq> key) m) k = (if k = key then None else map_of m k)" for key and m :: "(string \<times> int list) list"
    by (induction m) auto
  then show ?thesis by (simp add: pool_get_def evictPeer_def close_fds_def Let_def)
qed

lemma pool_get_off: "pool_get k (count c n w) = pool_get k w" "pool_get k (emit e w) = pool_get k w"
    "pool_get k (on_shards f w) = pool_get k w"
  by (simp_all add: pool_get_def count_def emit_def on_shards_def)

lemmas pool_kept = pool_get_off pool_get_evict peerKey_longer peerKey_longer [symmetric]

text \<open>a disconnected peer's idle connections are closed, a banned peer's are not: \<^verbatim>\<open>banPeer\<close>
  and the ban on decode errors evict the connections of a key with the port appended once
  more, so the pool still holds those of the peer.
\<close>

theorem ban_keeps_connections:
  "pool_get pid (snd (banPeer hash now pid w)) = pool_get pid w \<and>
   pool_get pid (maybeAutoBanPeer hash now pid w) = pool_get pid w \<and>
   (case getPeer hash pid (net_run hash ops (Network cfg)) of None \<Rightarrow> True | Some p \<Rightarrow>
      pool_get pid (snd (disconnectPeer hash pid (net_run hash ops (Network cfg)))) = [])"
proof (intro conjI)
  show "pool_get pid (snd (banPeer hash now pid w)) = pool_get pid w"
    by (cases "getPeer hash pid w") (simp_all add: banPeer_def Let_def pool_kept)
  show "pool_get pid (maybeAutoBanPeer hash now pid w) = pool_get pid w"
    by (cases "getPeer hash pid w") (simp_all add: maybeAutoBanPeer_def Let_def pool_kept)
  show "case getPeer hash pid (net_run hash ops (Network cfg)) of None \<Rightarrow> True | Some p \<Rightarrow>
      pool_get pid (snd (disconnectPeer hash pid (net_run hash ops (Network cfg)))) = []"
    using net_run_Network(1) [of hash ops cfg]
    by (cases "getPeer hash pid (net_run hash ops (Network cfg))")
      (simp_all add: disconnectPeer_def Let_def pool_get_off pool_get_evict net_wf_def)
qed

text \<open>The retry delay never exceeds the configured maximum.\<close>

lemma retry_delay_bounded: "re_delayMs (re_fail nowMs m e) \<le> m"
  by (simp add: re_fail_def Let_def)

end
