(* ===== verification/NetFlow.thy ===== *)
theory NetFlow
  imports NetPeers NetSocket
begin

text \<open>
  Messages through the network layer (\<^verbatim>\<open>src/src/network.cpp\<close>): sending with retries and
  backpressure, receiving with replay protection and rate limits, dispatch, broadcast,
  pings, the pending queue, start and stop. What the system answers during one call is a
  record \<open>net_io\<close>; a task given to a worker pool runs at once, in the order of the
  submissions, which is one of the orders in which the workers may run it.
\<close>

section \<open>The environment of a call\<close>

record net_io =
  io_now :: u64                  \<comment> \<open>\<^verbatim>\<open>nowSecs\<close>\<close>
  io_nowMs :: "nat \<Rightarrow> u64"       \<comment> \<open>\<^verbatim>\<open>nowMs\<close> at the end of each attempt\<close>
  io_opened :: "nat \<Rightarrow> int"      \<comment> \<open>the descriptor a new connection gets in each attempt, negative on failure\<close>
  io_conn :: "nat \<Rightarrow> conn"       \<comment> \<open>the connection behind the descriptor used in each attempt\<close>
  io_cas :: bool                 \<comment> \<open>whether the windows' \<^verbatim>\<open>compare_exchange_weak\<close> succeeds\<close>

definition on_metrics :: "(net_metrics \<Rightarrow> net_metrics) \<Rightarrow> network \<Rightarrow> network" where
  "on_metrics f w = w\<lparr>nw_metrics := f (nw_metrics w)\<rparr>"

definition count_out :: "net_io \<Rightarrow> u64 \<Rightarrow> net_metrics \<Rightarrow> net_metrics" where
  "count_out io n m =
     (let m = count_add BytesOut n m;
          m = m\<lparr>mt_bwOut := window_record (io_cas io) n (io_now io) (mt_bwOut m)\<rparr>
      in m\<lparr>mt_qpsOut := window_record (io_cas io) 1 (io_now io) (mt_qpsOut m)\<rparr>)"

definition count_in :: "net_io \<Rightarrow> u64 \<Rightarrow> net_metrics \<Rightarrow> net_metrics" where
  "count_in io n m =
     (let m = count_add BytesIn n m;
          m = m\<lparr>mt_bwIn := window_record (io_cas io) n (io_now io) (mt_bwIn m)\<rparr>
      in m\<lparr>mt_qpsIn := window_record (io_cas io) 1 (io_now io) (mt_qpsIn m)\<rparr>)"

section \<open>Sending\<close>

definition GLOBAL_MAX :: nat where "GLOBAL_MAX = 1000000"
definition PENDING_MAX :: nat where "PENDING_MAX = 10000"

text \<open>
  The attempts: \<open>attempt\<close> is the number of the next one, the number after it how many are
  left. The delays slept before the retries are returned with the result. The counter of
  the C++ loop is 32 bits wide and equal to \<open>attempt\<close> as long as the configured number of
  retries is below \<open>2^32 - 1\<close>.
\<close>

fun deliver_loop ::
    "net_io \<Rightarrow> string \<Rightarrow> string \<Rightarrow> u16 \<Rightarrow> bytes \<Rightarrow> nat \<Rightarrow> nat \<Rightarrow> u32 \<Rightarrow> network \<Rightarrow> bool \<times> u32 list \<times> network" where
  "deliver_loop io peerId address port encoded attempt 0 delay w = (False, [], w)"
| "deliver_loop io peerId address port encoded attempt (Suc left) delay w =
     (let cfg = nw_cfg w;
          slept = (if attempt > 0 then [delay] else []);
          delay = (if attempt > 0 then min (delay * 2) (nc_retryMaxDelayMs cfg) else delay);
          w = (if attempt > 0 then count SendRetries 1 w else w);
          (fd, w) = acquire (io_opened io attempt) address port w
      in if fd < 0 then
           let (sent, more, w) = deliver_loop io peerId address port encoded (attempt + 1) left delay
                 (recordFailure (io_nowMs io attempt) peerId (nc_retryMaxDelayMs cfg) w)
           in (sent, slept @ more, w)
         else
           let sent = fst (sendRaw (nc_maxEINTRRetries cfg) encoded (nc_maxEINTRRetries cfg) (io_conn io attempt));
               w = release address port fd sent w
           in if sent then (True, slept, recordSuccess peerId w)
              else
                let (sent, more, w) = deliver_loop io peerId address port encoded (attempt + 1) left delay
                      (recordFailure (io_nowMs io attempt) peerId (nc_retryMaxDelayMs cfg) w)
                in (sent, slept @ more, w))"

definition after_send :: "u64 \<Rightarrow> nat \<Rightarrow> bool \<Rightarrow> net_peer \<Rightarrow> net_peer" where
  "after_send now n sent p =
     (let p = (if np_sendQueueDepth p > 0 then p\<lparr>np_sendQueueDepth := np_sendQueueDepth p - 1\<rparr> else p)
      in if sent
         then p\<lparr>np_messagesSent := np_messagesSent p + 1, np_bytesSent := np_bytesSent p + word_of_nat n,
                np_lastSeenAt := now, np_isReachable := True\<rparr>
         else p\<lparr>np_isReachable := False\<rparr>)"

definition push_pending :: "pending_entry \<Rightarrow> network \<Rightarrow> network" where
  "push_pending e w =
     (if nc_enablePendingQueueRecovery (nw_cfg w) \<and> length (nw_pending w) < PENDING_MAX
      then w\<lparr>nw_pending := nw_pending w @ [e]\<rparr> else w)"

definition deliverToPeer ::
    "(string \<Rightarrow> u64) \<Rightarrow> net_io \<Rightarrow> string \<Rightarrow> net_type \<Rightarrow> bytes \<Rightarrow> network \<Rightarrow> bool \<times> network" where
  "deliverToPeer hash io peerId type payload w =
     (if nw_queueDepth w \<ge> GLOBAL_MAX then (False, count SendQueueFull 1 w)
      else
        case getPeer hash peerId w of
          None \<Rightarrow> (False, w)
        | Some p \<Rightarrow>
            if np_sendQueueDepth p \<ge> nc_maxPerPeerSendQueue (nw_cfg w) then (False, count SendQueueFull 1 w)
            else if np_isBanned p then (False, w)
            else
              let (ok, encoded) = net_encodeFrame \<lparr>nf_type = type, nf_payload = payload, nf_version = PROTOCOL_VERSION\<rparr> []
              in if \<not> ok then (False, w)
                 else
                   let w = w\<lparr>nw_queueDepth := nw_queueDepth w + 1\<rparr>;
                       w = on_shards (sh_update hash peerId (\<lambda>p. p\<lparr>np_sendQueueDepth := np_sendQueueDepth p + 1\<rparr>)) w;
                       (sent, slept, w) = deliver_loop io peerId (np_address p) (np_port p) encoded 0
                         (Suc (unat (nc_maxSendRetries (nw_cfg w)))) (nc_retryBaseDelayMs (nw_cfg w)) w;
                       w = on_shards (sh_update hash peerId (after_send (io_now io) (length encoded) sent)) w;
                       w = w\<lparr>nw_queueDepth := nw_queueDepth w - 1\<rparr>
                   in if sent then (True, on_metrics (count_out io (word_of_nat (length encoded))) w)
                      else (False, push_pending \<lparr>pe_address = np_address p, pe_port = np_port p, pe_type = type,
                             pe_payload = payload\<rparr> w))"

section \<open>Receiving\<close>

definition contains :: "string \<Rightarrow> string \<Rightarrow> bool" where
  "contains pat s \<longleftrightarrow> list_ex (\<lambda>i. take (length pat) (drop i s) = pat) [0..<Suc (length s)]"

definition logDecodeFailure :: "net_error \<Rightarrow> network \<Rightarrow> network" where
  "logDecodeFailure err w = on_metrics (recordDecodeError err) w"

text \<open>Dispatch of a frame; the exceptions of the callbacks are swallowed.\<close>

definition dispatchFrame ::
    "(string \<Rightarrow> u64) \<Rightarrow> net_io \<Rightarrow> net_frame \<Rightarrow> string \<Rightarrow> network \<Rightarrow> network" where
  "dispatchFrame hash io frame peerAddr w =
     (let failed = maybeAutoBanPeer hash (io_now io) peerAddr (logDecodeFailure UnknownError w)
      in case nf_type frame of
           BlockMsg \<Rightarrow>
             (case net_decodeBlock (io_now io) (nf_payload frame) of
                None \<Rightarrow> failed
              | Some b \<Rightarrow> emit (BlockReceived b peerAddr) (count BlocksReceived 1 w))
         | PingMsg \<Rightarrow> snd (deliverToPeer hash io peerAddr PongMsg [] w)
         | PongMsg \<Rightarrow>
             on_shards (sh_update hash peerAddr (\<lambda>p. p\<lparr>np_lastPongAt := io_now io, np_lastSeenAt := io_now io,
               np_isReachable := True\<rparr>)) w
         | t \<Rightarrow>
             if t = TransactionMsg \<or> t = TransactionBatch then
               case net_decodeTransaction (nf_payload frame) of
                 None \<Rightarrow> failed
               | Some tx \<Rightarrow> emit (TransactionReceived tx peerAddr) (count TxReceived 1 w)
             else w)"

text \<open>Replay protection by the first 32 bytes of the payload.\<close>

definition msgId_of :: "bytes \<Rightarrow> string" where
  "msgId_of payload = bytes_str (take 32 payload)"

definition remember :: "string \<Rightarrow> network \<Rightarrow> bool \<times> network" where
  "remember msgId w =
     (if msgId \<in> nw_seen w then (False, count ReplayRejected 1 w)
      else
        let seen = insert msgId (nw_seen w)
        in (True, w\<lparr>nw_seen := (if card seen > 500000 then {} else seen)\<rparr>))"

datatype verdict = Proceed | AlreadyBanned | RateBanned

definition admit_frame :: "(string \<Rightarrow> u64) \<Rightarrow> u64 \<Rightarrow> string \<Rightarrow> nat \<Rightarrow> network \<Rightarrow> verdict \<times> network" where
  "admit_frame hash now peerAddr n w =
     (case getPeer hash peerAddr w of
        None \<Rightarrow> (Proceed, w)
      | Some p \<Rightarrow>
          if np_isBanned p then (AlreadyBanned, w)
          else
            let set = (\<lambda>p' w. on_shards (sh_update hash peerAddr (\<lambda>p. p')) w);
                (p1, ok) = checkRateLimit w now p
            in if \<not> ok then (RateBanned, count BanEvents 1 (set (ban now w p1) (count RateLimitEvents 1 w)))
               else
                 let (p2, ok) = checkByteQuota w now n p1
                 in if \<not> ok then (RateBanned, count BanEvents 1 (set (ban now w p2) (count ByteQuotaEvents 1 w)))
                    else (Proceed, set (p2\<lparr>np_messagesRecv := np_messagesRecv p2 + 1, np_lastSeenAt := now,
                           np_bytesRecv := np_bytesRecv p2 + word_of_nat n\<rparr>) w))"

definition handleInbound :: "(string \<Rightarrow> u64) \<Rightarrow> net_io \<Rightarrow> conn \<Rightarrow> string \<Rightarrow> network \<Rightarrow> network" where
  "handleInbound hash io c peerAddr w =
     (case fst (recvFrameRaw (nc_maxEINTRRetries (nw_cfg w)) c) of
        Inl errMsg \<Rightarrow>
          let err = (if contains ''oversized'' errMsg then OversizedFrame
                     else if contains ''alloc'' errMsg then AllocFailed else UnknownError)
          in maybeAutoBanPeer hash (io_now io) peerAddr (logDecodeFailure err w)
      | Inr frame \<Rightarrow>
          let n = length (nf_payload frame);
              w = on_metrics (count_in io (word_of_nat (NET_HEADER_BYTES + n))) w;
              (fresh, w) = remember (msgId_of (nf_payload frame)) w
          in if \<not> fresh then w
             else
               case admit_frame hash (io_now io) peerAddr n w of
                 (AlreadyBanned, w) \<Rightarrow> w
               | (RateBanned, w) \<Rightarrow>
                   let w = evictPeer peerAddr (nc_listenPort (nw_cfg w)) w
                   in emit (PeerDisconnected peerAddr ''rate ban'') (count ActivePeers (- 1) w)
               | (Proceed, w) \<Rightarrow> dispatchFrame hash io frame peerAddr w)"

text \<open>
  One accepted connection of \<^verbatim>\<open>runListener\<close>: \<open>queued\<close> tells whether the inbound pool took the
  task; the result tells whether the connection is handled.
\<close>

definition accept_connection ::
    "(string \<Rightarrow> u64) \<Rightarrow> u64 \<Rightarrow> int \<Rightarrow> string \<Rightarrow> bool \<Rightarrow> network \<Rightarrow> bool \<times> network" where
  "accept_connection hash now fd peerAddr queued w =
     (let w = count ConnectionsAttempted 1 w;
          reject = close_fds [fd] (count ConnectionsRejected 1 w)
      in if isBanned hash now peerAddr w then (False, reject)
         else if peerCount w \<ge> nw_maxPeers w then (False, reject)
         else if \<not> queued then (False, reject)
         else (True, count ActivePeers 1 (count ConnectionsAccepted 1 w)))"

section \<open>Broadcast\<close>

record broadcast_result =
  br_attempted :: u32
  br_succeeded :: u32
  br_failed :: u32
  br_skippedSlowPeer :: u32
  br_skippedBanned :: u32

definition no_result :: broadcast_result where
  "no_result = \<lparr>br_attempted = 0, br_succeeded = 0, br_failed = 0, br_skippedSlowPeer = 0, br_skippedBanned = 0\<rparr>"

text \<open>The loop that chooses the peers.\<close>

fun choose_peers :: "(string \<times> net_peer) list \<Rightarrow> u64 \<Rightarrow> string list \<Rightarrow> broadcast_result \<Rightarrow> network \<Rightarrow>
    string list \<times> broadcast_result \<times> network" where
  "choose_peers [] maxQueue ids r w = (ids, r, w)"
| "choose_peers ((key, p) # es) maxQueue ids r w =
     (if np_isBanned p then choose_peers es maxQueue ids (r\<lparr>br_skippedBanned := br_skippedBanned r + 1\<rparr>) w
      else if np_sendQueueDepth p \<ge> maxQueue then
        choose_peers es maxQueue ids (r\<lparr>br_skippedSlowPeer := br_skippedSlowPeer r + 1\<rparr>) (count SlowPeerDisconnects 1 w)
      else choose_peers es maxQueue (if np_isReachable p then ids @ [key] else ids) r w)"

text \<open>\<open>queued i\<close> and \<open>ios i\<close>: whether the outbound pool takes the \<open>i\<close>-th task, and its environment.\<close>

fun send_all ::
    "(string \<Rightarrow> u64) \<Rightarrow> (nat \<Rightarrow> bool) \<Rightarrow> (nat \<Rightarrow> net_io) \<Rightarrow> net_type \<Rightarrow> bytes \<Rightarrow> nat \<Rightarrow> string list \<Rightarrow>
     broadcast_result \<times> network \<Rightarrow> broadcast_result \<times> network" where
  "send_all hash queued ios type payload i [] rw = rw"
| "send_all hash queued ios type payload i (pid # pids) (r, w) =
     (let r = r\<lparr>br_attempted := br_attempted r + 1\<rparr>
      in send_all hash queued ios type payload (i + 1) pids
           (if \<not> queued i then (r\<lparr>br_failed := br_failed r + 1\<rparr>, count SendQueueFull 1 w)
            else
              let (ok, w) = deliverToPeer hash (ios i) pid type payload w
              in if ok then (r\<lparr>br_succeeded := br_succeeded r + 1\<rparr>, count BroadcastSucceeded 1 w)
                 else (r\<lparr>br_failed := br_failed r + 1\<rparr>, count BroadcastFailed 1 w)))"

definition broadcastPayload ::
    "(string \<Rightarrow> u64) \<Rightarrow> (nat \<Rightarrow> bool) \<Rightarrow> (nat \<Rightarrow> net_io) \<Rightarrow> net_type \<Rightarrow> bytes \<Rightarrow> network \<Rightarrow>
     broadcast_result \<times> network" where
  "broadcastPayload hash queued ios type payload w =
     (let w = count BroadcastAttempts 1 w;
          (peerIds, r, w) = choose_peers (sh_entries (nw_shards w)) (nc_maxPerPeerSendQueue (nw_cfg w)) [] no_result w
      in if peerIds = [] then (r, w) else send_all hash queued ios type payload 0 peerIds (r, w))"

definition broadcastBlock ::
    "(string \<Rightarrow> u64) \<Rightarrow> (nat \<Rightarrow> bool) \<Rightarrow> (nat \<Rightarrow> net_io) \<Rightarrow> block \<Rightarrow> network \<Rightarrow> broadcast_result \<times> network" where
  "broadcastBlock hash queued ios b w =
     (if blk_hash b = [] then (no_result, w)
      else broadcastPayload hash queued ios BlockMsg (net_encodeBlock b []) (count BlocksSent 1 w))"

definition broadcastTransaction ::
    "(string \<Rightarrow> u64) \<Rightarrow> (nat \<Rightarrow> bool) \<Rightarrow> (nat \<Rightarrow> net_io) \<Rightarrow> transaction \<Rightarrow> network \<Rightarrow> broadcast_result \<times> network" where
  "broadcastTransaction hash queued ios tx w =
     (if tx_txHash tx = [] then (no_result, w)
      else broadcastPayload hash queued ios TransactionMsg (net_encodeTransaction tx []) (count TxSent 1 w))"

definition broadcastTransactionBatch ::
    "(string \<Rightarrow> u64) \<Rightarrow> (nat \<Rightarrow> bool) \<Rightarrow> (nat \<Rightarrow> net_io) \<Rightarrow> transaction list \<Rightarrow> network \<Rightarrow> broadcast_result \<times> network" where
  "broadcastTransactionBatch hash queued ios txs w =
     (if txs = [] then (no_result, w)
      else broadcastPayload hash queued ios TransactionBatch (batch_payload txs) (count TxSent (word_of_nat (length txs)) w))"

definition broadcastToPeer ::
    "(string \<Rightarrow> u64) \<Rightarrow> net_io \<Rightarrow> string \<Rightarrow> net_type \<Rightarrow> bytes \<Rightarrow> network \<Rightarrow> broadcast_result \<times> network" where
  "broadcastToPeer hash io peerId type payload w =
     (let (ok, w) = deliverToPeer hash io peerId type payload w
      in (if ok then no_result\<lparr>br_attempted := 1, br_succeeded := 1\<rparr> else no_result\<lparr>br_attempted := 1, br_failed := 1\<rparr>, w))"

section \<open>Pings\<close>

fun ping_all ::
    "(string \<Rightarrow> u64) \<Rightarrow> u64 \<Rightarrow> (nat \<Rightarrow> bool) \<Rightarrow> (nat \<Rightarrow> net_io) \<Rightarrow> nat \<Rightarrow> (string \<times> net_peer) list \<Rightarrow> network \<Rightarrow> network" where
  "ping_all hash now queued ios i [] w = w"
| "ping_all hash now queued ios i ((key, p) # ps) w =
     (if np_lastPingSentAt p > 0 \<and> np_lastPongAt p < np_lastPingSentAt p \<and>
         now - np_lastPingSentAt p > nc_pingDeadlineSecs (nw_cfg w)
      then ping_all hash now queued ios (i + 1) ps (snd (disconnectPeer hash key w))
      else
        let w = on_shards (sh_update hash key (\<lambda>p. p\<lparr>np_lastPingSentAt := now\<rparr>)) w;
            w = (if queued i then snd (deliverToPeer hash (ios i) key PingMsg [] w) else w)
        in ping_all hash now queued ios (i + 1) ps w)"

definition sendPings ::
    "(string \<Rightarrow> u64) \<Rightarrow> u64 \<Rightarrow> (nat \<Rightarrow> bool) \<Rightarrow> (nat \<Rightarrow> net_io) \<Rightarrow> network \<Rightarrow> network" where
  "sendPings hash now queued ios w =
     ping_all hash now queued ios 0 (filter (\<lambda>(key, p). \<not> np_isBanned p) (sh_entries (nw_shards w))) w"

section \<open>The pending queue\<close>

fun resend_all ::
    "bool \<Rightarrow> (string \<Rightarrow> u64) \<Rightarrow> u64 \<Rightarrow> (nat \<Rightarrow> net_io) \<Rightarrow> nat \<Rightarrow> pending_entry list \<Rightarrow> u64 \<Rightarrow> network \<Rightarrow>
     (u64 \<times> network) option" where
  "resend_all relock hash now ios i [] recovered w = Some (recovered, w)"
| "resend_all relock hash now ios i (e # es) recovered w =
     (case connectToPeer relock hash now (pe_address e) (pe_port e) w of
        None \<Rightarrow> None
      | Some (_, w) \<Rightarrow>
          let (ok, w) = deliverToPeer hash (ios i) (peerKey (pe_address e) (pe_port e)) (pe_type e) (pe_payload e) w
          in resend_all relock hash now ios (i + 1) es (if ok then recovered + 1 else recovered) w)"

definition recoverPendingQueue ::
    "bool \<Rightarrow> (string \<Rightarrow> u64) \<Rightarrow> u64 \<Rightarrow> (nat \<Rightarrow> net_io) \<Rightarrow> (string \<Rightarrow> bytes option) \<Rightarrow> network \<Rightarrow> network option" where
  "recoverPendingQueue relock hash now ios store w =
     (let entries = loadPendingQueue (nc_pendingQueuePath (nw_cfg w)) (nc_verifyPendingQueueChecksum (nw_cfg w)) store
      in if entries = [] then Some w
         else
           case resend_all relock hash now ios 0 entries 0 w of
             None \<Rightarrow> None
           | Some (recovered, w) \<Rightarrow>
               Some (on_metrics (\<lambda>m. m\<lparr>mt_count := (mt_count m)(PendingQueueRecovered := recovered)\<rparr>) w))"

definition persistPendingQueue :: "(string \<Rightarrow> bytes option) \<Rightarrow> network \<Rightarrow> (string \<Rightarrow> bytes option) \<times> network" where
  "persistPendingQueue store w =
     (savePendingQueue (nc_pendingQueuePath (nw_cfg w)) (nw_pending w) (nc_verifyPendingQueueChecksum (nw_cfg w)) store,
      w\<lparr>nw_pending := []\<rparr>)"

section \<open>Start and stop\<close>

record net_node =
  nn_net :: network
  nn_running :: bool
  nn_listener :: bool
  nn_health :: bool
  nn_ping :: bool
  nn_metricsDump :: bool
  nn_alert :: bool
  nn_healthServer :: bool
  nn_prometheus :: bool
  nn_inWorkers :: nat
  nn_outWorkers :: nat

definition resolveWorkerCount :: "nat \<Rightarrow> nat \<Rightarrow> nat" where
  "resolveWorkerCount hardware configured =
     (if configured > 0 then configured else if hardware > 0 then hardware else 1)"

definition validateTLSConfig :: "(string \<Rightarrow> bool) \<Rightarrow> net_config \<Rightarrow> bool" where
  "validateTLSConfig readable cfg =
     (if nc_tlsCertFile cfg = [] \<or> nc_tlsKeyFile cfg = [] then True
      else list_all (\<lambda>path. path = [] \<or> readable path)
             [nc_tlsCertFile cfg, nc_tlsKeyFile cfg, nc_tlsCAFile cfg, nc_tlsDHParamFile cfg])"

text \<open>\<open>readable\<close>: the files that can be opened; \<open>bound\<close>: whether the listener could be bound.\<close>

definition net_start ::
    "bool \<Rightarrow> (string \<Rightarrow> u64) \<Rightarrow> u64 \<Rightarrow> (nat \<Rightarrow> net_io) \<Rightarrow> (string \<Rightarrow> bool) \<Rightarrow> bool \<Rightarrow> (string \<Rightarrow> bytes option) \<Rightarrow>
     net_node \<Rightarrow> (bool \<times> net_node) option" where
  "net_start relock hash now ios readable bound store n =
     (let cfg = nw_cfg (nn_net n) in
      if nn_running n then Some (True, n)
      else if \<not> codecSelfTest then Some (False, n)
      else if \<not> validateTLSConfig readable cfg then Some (False, n)
      else if \<not> bound then Some (False, n)
      else
        let n = n\<lparr>nn_running := True, nn_listener := True, nn_health := True, nn_ping := True\<rparr>;
            n = (if nc_enableMetricsDump cfg then n\<lparr>nn_metricsDump := True\<rparr> else n);
            n = (if nc_enableAlerts cfg then n\<lparr>nn_alert := True\<rparr> else n);
            n = (if nc_enableHealthEndpoint cfg then n\<lparr>nn_healthServer := True\<rparr> else n);
            n = (if nc_enablePrometheusEndpoint cfg then n\<lparr>nn_prometheus := True\<rparr> else n)
        in case (if nc_enablePendingQueueRecovery cfg then recoverPendingQueue relock hash now ios store (nn_net n)
                 else Some (nn_net n)) of
             None \<Rightarrow> None
           | Some w \<Rightarrow>
               (case loadPeers relock hash now store w of
                  None \<Rightarrow> None
                | Some w \<Rightarrow> Some (True, n\<lparr>nn_net := w\<rparr>)))"

definition net_stop :: "(string \<Rightarrow> bytes option) \<Rightarrow> net_node \<Rightarrow> (string \<Rightarrow> bytes option) \<times> net_node" where
  "net_stop store n =
     (if \<not> nn_running n then (store, n)
      else
        let n = n\<lparr>nn_running := False, nn_listener := False, nn_health := False, nn_ping := False,
              nn_metricsDump := False, nn_alert := False, nn_healthServer := False, nn_prometheus := False\<rparr>;
            (store, w) = (if nc_enablePendingQueueRecovery (nw_cfg (nn_net n))
              then persistPendingQueue store (nn_net n) else (store, nn_net n));
            store = savePeers w store
        in (store, n\<lparr>nn_net := pool_clear w\<rparr>))"

definition isLive :: "net_node \<Rightarrow> bool" where
  "isLive n \<longleftrightarrow> nn_running n \<and> nn_listener n \<and> nn_inWorkers n > 0 \<and> nn_outWorkers n > 0"

definition isReady :: "net_node \<Rightarrow> bool" where
  "isReady n \<longleftrightarrow> isLive n \<and> activePeerCount (nn_net n) > 0"

text \<open>Stopping keeps no descriptor open and no message in memory.\<close>

lemma stop_quiesces:
  "nn_running n \<Longrightarrow> nc_enablePendingQueueRecovery (nw_cfg (nn_net n)) \<Longrightarrow>
   (let n' = snd (net_stop store n) in \<not> isLive n' \<and> nw_pool (nn_net n') = [] \<and> nw_pending (nn_net n') = [] \<and>
      nw_closed (nn_net n') = nw_closed (nn_net n) @ concat (map snd (nw_pool (nn_net n))))"
  by (simp add: net_stop_def persistPendingQueue_def pool_clear_def close_fds_def isLive_def Let_def)

section \<open>What the steps leave alone\<close>

text \<open>Everything but the connection pool, the reconnect tracker and the other counters is the same.\<close>

definition kept :: "network \<Rightarrow> network \<Rightarrow> bool" where
  "kept w' w \<longleftrightarrow> same_limits w' w \<and> nw_shards w' = nw_shards w \<and>
     mt_count (nw_metrics w') ActivePeers = mt_count (nw_metrics w) ActivePeers \<and>
     nw_seen w' = nw_seen w \<and> nw_pending w' = nw_pending w \<and> nw_queueDepth w' = nw_queueDepth w \<and>
     nw_events w' = nw_events w"

lemma kept_refl [simp]: "kept w w" by (simp add: kept_def)

lemma kept_trans: "kept w'' w' \<Longrightarrow> kept w' w \<Longrightarrow> kept w'' w"
  by (auto simp: kept_def same_limits_def)

lemma kept_count: "c \<noteq> ActivePeers \<Longrightarrow> kept (count c n w') w \<longleftrightarrow> kept w' w"
  by (simp add: kept_def same_limits_def) (simp add: count_def)

lemma kept_simps [simp]:
  "kept (close_fds fds w') w \<longleftrightarrow> kept w' w" "kept (pool_put k fds w') w \<longleftrightarrow> kept w' w"
  "kept (evictPeer a po w') w \<longleftrightarrow> kept w' w" "kept (recordFailure t k m w') w \<longleftrightarrow> kept w' w"
  "kept (recordSuccess k w') w \<longleftrightarrow> kept w' w" "kept (release a po fd ok w') w \<longleftrightarrow> kept w' w"
  by (auto simp: kept_def same_limits_def close_fds_def pool_put_def evictPeer_def recordFailure_def recordSuccess_def
      release_def Let_def split: option.split)

lemma kept_acquire: "acquire o1 a po w = (fd, w') \<Longrightarrow> kept w' w"
  by (auto simp: acquire_def Let_def split: if_splits)

lemma deliver_loop_kept:
  "deliver_loop io pid a po data attempt left delay w = (sent, slept, w') \<Longrightarrow> kept w' w"
proof (induction left arbitrary: attempt delay w sent slept w')
  case (Suc left)
  let ?w1 = "if attempt > 0 then count SendRetries 1 w else w"
  obtain fd w2 where acq: "acquire (io_opened io attempt) a po ?w1 = (fd, w2)" by fastforce
  have "kept ?w1 w" by (simp add: kept_count)
  then have k: "kept w2 w" using kept_acquire [OF acq] kept_trans by blast
  let ?sent = "fst (sendRaw (nc_maxEINTRRetries (nw_cfg w)) data (nc_maxEINTRRetries (nw_cfg w)) (io_conn io attempt))"
  let ?w3 = "if fd < 0 then w2 else release a po fd ?sent w2"
  have k3: "kept ?w3 w" using k by simp
  let ?wf = "recordFailure (io_nowMs io attempt) pid (nc_retryMaxDelayMs (nw_cfg w)) ?w3"
  let ?d = "if attempt > 0 then min (delay * 2) (nc_retryMaxDelayMs (nw_cfg w)) else delay"
  obtain s m w4 where rest: "deliver_loop io pid a po data (attempt + 1) left ?d ?wf = (s, m, w4)"
    using prod_cases3 by blast
  have "kept w4 w" using Suc.IH [OF rest] k3 kept_trans by (metis kept_simps(4))
  then show ?case
    using Suc.prems k3 acq rest by (auto simp: Let_def split: if_splits)
qed simp

section \<open>Delivery\<close>

definition pool_ok :: "network \<Rightarrow> bool" where
  "pool_ok w \<longleftrightarrow> (\<forall>k. list_all (\<lambda>fd. 0 \<le> fd) (pool_get k w))"

lemma pool_get_put: "pool_get k (pool_put j fds w) = (if k = j then fds else pool_get k w)"
  by (simp add: pool_get_def pool_put_def update_conv')

lemma pool_get_other [simp]:
  "pool_get k (close_fds fds w) = pool_get k w" "pool_get k (recordFailure t j m w) = pool_get k w"
  by (simp_all add: pool_get_def close_fds_def recordFailure_def)

lemma pool_ok_acquire: "pool_ok w \<Longrightarrow> acquire o1 a po w = (fd, w') \<Longrightarrow> pool_ok w' \<and> (0 \<le> o1 \<longrightarrow> 0 \<le> fd)"
proof (cases "pool_get (peerKey a po) w = []")
  case False
  assume ok: "pool_ok w" and a: "acquire o1 a po w = (fd, w')"
  have fd: "fd = last (pool_get (peerKey a po) w)" "w' = pool_put (peerKey a po) (butlast (pool_get (peerKey a po) w)) w"
    using a False by (simp_all add: acquire_def Let_def)
  have "list_all (\<lambda>fd. 0 \<le> fd) (pool_get k w)" for k using ok by (simp add: pool_ok_def)
  then have "\<forall>fd\<in>set (pool_get k w). 0 \<le> fd" for k by (simp add: list_all_iff)
  then show ?thesis
    using False last_in_set [OF False] in_set_butlastD [of _ "pool_get (peerKey a po) w"]
    unfolding pool_ok_def fd pool_get_put list_all_iff by metis
qed (simp add: acquire_def Let_def)

lemma pool_ok_release: "pool_ok w \<Longrightarrow> pool_ok (release a po fd ok w)"
  by (auto simp: pool_ok_def release_def pool_get_put Let_def list_all_iff)

lemma pool_ok_off [simp]: "pool_ok (recordFailure t k m w) \<longleftrightarrow> pool_ok w" "pool_ok (count c n w) \<longleftrightarrow> pool_ok w"
  by (simp_all add: pool_ok_def pool_get_off)

text \<open>The attempt \<open>i\<close> goes through once it has a descriptor.\<close>

definition goes_through :: "net_io \<Rightarrow> u32 \<Rightarrow> bytes \<Rightarrow> nat \<Rightarrow> bool" where
  "goes_through io m data i \<longleftrightarrow> fst (sendRaw m data m (io_conn io i))"

lemma deliver_loop_outcome:
  assumes "deliver_loop io pid a po data attempt left delay w = (sent, slept, w')"
    and "m = nc_maxEINTRRetries (nw_cfg w)"
  shows "(sent \<longrightarrow> (\<exists>i. attempt \<le> i \<and> i < attempt + left \<and> goes_through io m data i)) \<and>
    (\<not> sent \<and> pool_ok w \<longrightarrow> (\<forall>i. attempt \<le> i \<and> i < attempt + left \<and> 0 \<le> io_opened io i \<longrightarrow> \<not> goes_through io m data i)) \<and>
    length slept \<le> left \<and> list_all (\<lambda>d. d \<le> max delay (nc_retryMaxDelayMs (nw_cfg w))) slept"
  using assms
proof (induction left arbitrary: attempt delay w sent slept w')
  case (Suc left)
  let ?w1 = "if attempt > 0 then count SendRetries 1 w else w"
  obtain fd w2 where acq: "acquire (io_opened io attempt) a po ?w1 = (fd, w2)" by fastforce
  have "kept ?w1 w" by (simp add: kept_count)
  then have k: "kept w2 w" using kept_acquire [OF acq] kept_trans by blast
  let ?sent = "goes_through io m data attempt"
  let ?w3 = "if fd < 0 then w2 else release a po fd ?sent w2"
  let ?wf = "recordFailure (io_nowMs io attempt) pid (nc_retryMaxDelayMs (nw_cfg w)) ?w3"
  let ?d = "if attempt > 0 then min (delay * 2) (nc_retryMaxDelayMs (nw_cfg w)) else delay"
  obtain s l w4 where rest: "deliver_loop io pid a po data (attempt + 1) left ?d ?wf = (s, l, w4)"
    using prod_cases3 by blast
  have "kept ?wf w" using k by simp
  then have cfg: "nw_cfg ?wf = nw_cfg w" by (simp add: kept_def same_limits_def)
  note IH = Suc.IH [OF rest]
  have pool: "pool_ok w \<Longrightarrow> pool_ok ?wf \<and> (0 \<le> io_opened io attempt \<longrightarrow> 0 \<le> fd)"
    using pool_ok_acquire [OF _ acq] pool_ok_release by auto
  have split_i: "(attempt \<le> i \<and> i < attempt + Suc left) = (i = attempt \<or> (attempt + 1 \<le> i \<and> i < attempt + 1 + left))" for i
    by linarith
  have dmax: "max ?d (nc_retryMaxDelayMs (nw_cfg w)) \<le> max delay (nc_retryMaxDelayMs (nw_cfg w))"
    by (auto simp: max_def min_def)
  then have lmax: "list_all (\<lambda>d. d \<le> max ?d (nc_retryMaxDelayMs (nw_cfg w))) l \<Longrightarrow>
      list_all (\<lambda>d. d \<le> max delay (nc_retryMaxDelayMs (nw_cfg w))) l"
    by (auto simp: list_all_iff intro: order_trans)
  show ?case
  proof (cases "fd < 0 \<or> \<not> ?sent")
    case True
    then have r: "sent = s" "slept = (if attempt > 0 then [delay] else []) @ l"
      using Suc.prems acq rest by (auto simp: Let_def goes_through_def split: if_splits)
    have "\<not> ?sent" if "0 \<le> io_opened io attempt" "pool_ok w" using True pool that by auto
    moreover have "list_all (\<lambda>d. d \<le> max delay (nc_retryMaxDelayMs (nw_cfg w))) slept"
      using IH lmax Suc.prems(2) cfg by (auto simp: r)
    moreover have "\<exists>i. attempt \<le> i \<and> i < attempt + Suc left \<and> goes_through io m data i" if "sent"
      using IH [THEN conjunct1] that Suc.prems(2) cfg unfolding r by simp (meson Suc_leD)
    moreover have "\<not> goes_through io m data i"
      if "\<not> sent" "pool_ok w" "attempt \<le> i" "i < attempt + Suc left" "0 \<le> io_opened io i" for i
    proof (cases "i = attempt")
      case True
      then show ?thesis using calculation(1) that by simp
    next
      case False
      then show ?thesis
        using IH [THEN conjunct2, THEN conjunct1] that pool Suc.prems(2) cfg unfolding r by simp
    qed
    moreover have "length slept \<le> Suc left" using IH Suc.prems(2) cfg unfolding r by simp
    ultimately show ?thesis by blast
  next
    case False
    then have "sent" "slept = (if attempt > 0 then [delay] else [])"
      using Suc.prems acq by (auto simp: Let_def goes_through_def split: if_splits)
    then show ?thesis using False unfolding split_i by auto
  qed
qed auto

definition queued_once :: "net_peer \<Rightarrow> net_peer" where
  "queued_once p = p\<lparr>np_sendQueueDepth := np_sendQueueDepth p + 1\<rparr>"

definition sent_frame :: "net_type \<Rightarrow> bytes \<Rightarrow> bytes" where
  "sent_frame type payload = net_bytes \<lparr>nf_type = type, nf_payload = payload, nf_version = PROTOCOL_VERSION\<rparr>"

text \<open>A delivery is refused and changes counters only, or it is tried.\<close>

definition refused :: "(string \<Rightarrow> u64) \<Rightarrow> string \<Rightarrow> bytes \<Rightarrow> network \<Rightarrow> bool" where
  "refused hash pid payload w \<longleftrightarrow> nw_queueDepth w \<ge> GLOBAL_MAX \<or> length payload > NET_MAX_FRAME_BYTES \<or>
     (case getPeer hash pid w of None \<Rightarrow> True
      | Some p \<Rightarrow> np_sendQueueDepth p \<ge> nc_maxPerPeerSendQueue (nw_cfg w) \<or> np_isBanned p)"

lemma deliver_refused:
  assumes "refused hash pid payload w"
  shows "\<not> fst (deliverToPeer hash io pid type payload w) \<and> kept (snd (deliverToPeer hash io pid type payload w)) w"
  using assms
  by (cases "getPeer hash pid w")
    (auto simp: refused_def deliverToPeer_def kept_count net_encodeFrame_def split: option.split prod.split)

lemma deliver_tried:
  assumes "\<not> refused hash pid payload w" and "net_wf hash d w"
    and p: "getPeer hash pid w = Some p" and r: "deliverToPeer hash io pid type payload w = (sent, w')"
  shows "nw_shards w' = sh_update hash pid (after_send (io_now io) (length (sent_frame type payload)) sent \<circ> queued_once) (nw_shards w)"
    "same_limits w' w" "mt_count (nw_metrics w') ActivePeers = mt_count (nw_metrics w) ActivePeers"
    "nw_seen w' = nw_seen w" "nw_events w' = nw_events w" "nw_queueDepth w' = nw_queueDepth w"
    "nw_pending w' = nw_pending (if sent then w else push_pending
       \<lparr>pe_address = np_address p, pe_port = np_port p, pe_type = type, pe_payload = payload\<rparr> w)"
    "sent \<longrightarrow> (\<exists>i \<le> unat (nc_maxSendRetries (nw_cfg w)). goes_through io (nc_maxEINTRRetries (nw_cfg w)) (sent_frame type payload) i)"
    "\<not> sent \<and> pool_ok w \<longrightarrow> (\<forall>i \<le> unat (nc_maxSendRetries (nw_cfg w)).
       0 \<le> io_opened io i \<longrightarrow> \<not> goes_through io (nc_maxEINTRRetries (nw_cfg w)) (sent_frame type payload) i)"
proof -
  let ?data = "sent_frame type payload"
  let ?w1 = "on_shards (sh_update hash pid queued_once) (w\<lparr>nw_queueDepth := nw_queueDepth w + 1\<rparr>)"
  let ?left = "Suc (unat (nc_maxSendRetries (nw_cfg w)))"
  obtain s slept w2 where loop: "deliver_loop io pid (np_address p) (np_port p) ?data 0 ?left
      (nc_retryBaseDelayMs (nw_cfg w)) ?w1 = (s, slept, w2)"
    using prod_cases3 by blast
  let ?w3 = "(on_shards (sh_update hash pid (after_send (io_now io) (length ?data) s)) w2)\<lparr>nw_queueDepth := nw_queueDepth w2 - 1\<rparr>"
  let ?e = "\<lparr>pe_address = np_address p, pe_port = np_port p, pe_type = type, pe_payload = payload\<rparr>"
  have enc: "net_encodeFrame \<lparr>nf_type = type, nf_payload = payload, nf_version = PROTOCOL_VERSION\<rparr> [] = (True, ?data)"
    using assms(1) by (simp add: net_encodeFrame_eq refused_def sent_frame_def)
  have q: "(\<lambda>p. p\<lparr>np_sendQueueDepth := np_sendQueueDepth p + 1\<rparr>) = queued_once"
    by (rule ext) (simp add: queued_once_def)
  have qd: "nw_queueDepth (on_shards f v) = nw_queueDepth v" for f v by (simp add: on_shards_def)
  have res: "sent = s" "w' = (if s then on_metrics (count_out io (word_of_nat (length ?data))) ?w3 else push_pending ?e ?w3)"
    using r assms(1) p loop enc by (auto simp: deliverToPeer_def refused_def q qd Let_def simp del: deliver_loop.simps split: if_splits)
  have k: "kept w2 ?w1" using deliver_loop_kept [OF loop] .
  have sw: "sh_wf hash (nw_shards w)" using assms(2) by (simp add: net_wf_def)
  show "nw_shards w' = sh_update hash pid (after_send (io_now io) (length ?data) sent \<circ> queued_once) (nw_shards w)"
    using k sh_update_twice [OF sw] by (simp add: res kept_def on_metrics_def push_pending_def on_shards_def)
  show "same_limits w' w" "nw_seen w' = nw_seen w" "nw_events w' = nw_events w" "nw_queueDepth w' = nw_queueDepth w"
    "mt_count (nw_metrics w') ActivePeers = mt_count (nw_metrics w) ActivePeers"
    "nw_pending w' = nw_pending (if sent then w else push_pending ?e w)"
    using k by (auto simp: res kept_def same_limits_def on_metrics_def push_pending_def on_shards_def count_out_def
        count_add_def Let_def)
  have "nw_cfg ?w1 = nw_cfg w" "pool_ok w \<Longrightarrow> pool_ok ?w1"
    by (simp_all add: on_shards_def pool_ok_def pool_get_def)
  then show "sent \<longrightarrow> (\<exists>i \<le> unat (nc_maxSendRetries (nw_cfg w)). goes_through io (nc_maxEINTRRetries (nw_cfg w)) ?data i)"
    "\<not> sent \<and> pool_ok w \<longrightarrow> (\<forall>i \<le> unat (nc_maxSendRetries (nw_cfg w)).
       0 \<le> io_opened io i \<longrightarrow> \<not> goes_through io (nc_maxEINTRRetries (nw_cfg w)) ?data i)"
    using deliver_loop_outcome [OF loop refl] by (auto simp: res less_Suc_eq_le)
qed

lemma after_send_queued:
  "np_sendQueueDepth p < m \<Longrightarrow> after_send now n sent (queued_once p) =
     (if sent then p\<lparr>np_messagesSent := np_messagesSent p + 1, np_bytesSent := np_bytesSent p + word_of_nat n,
        np_lastSeenAt := now, np_isReachable := True\<rparr> else p\<lparr>np_isReachable := False\<rparr>)"
proof -
  assume "np_sendQueueDepth p < m"
  have "np_sendQueueDepth p \<noteq> - 1" by (metis \<open>np_sendQueueDepth p < m\<close> word_order.extremum_strict)
  then have "np_sendQueueDepth p + 1 \<noteq> 0" by (simp add: eq_neg_iff_add_eq_0)
  then show ?thesis by (simp add: after_send_def queued_once_def word_gt_0)
qed

lemma kept_wf: "kept w' w \<Longrightarrow> net_wf hash d w \<Longrightarrow> net_wf hash d w'"
  by (simp add: kept_def net_wf_def getPeer_def peerCount_def)

lemma change_wf:
  assumes "net_wf hash d w" and "\<And>p. np_id (f p) = np_id p \<and> np_address (f p) = np_address p \<and> np_port (f p) = np_port p"
    and "nw_shards w' = sh_update hash pid f (nw_shards w)"
    and "mt_count (nw_metrics w') ActivePeers = mt_count (nw_metrics w) ActivePeers + e"
  shows "net_wf hash (d + e) w'"
proof -
  have "net_wf hash d (on_shards (sh_update hash pid f) w)"
    using stands_for_change [OF assms(1,2), of "on_shards (sh_update hash pid f) w" pid] by (simp add: stands_for_def)
  then show ?thesis using assms(3,4) by (simp add: net_wf_def getPeer_def peerCount_def)
qed

lemma same_peer [simp]:
  "np_id (queued_once p) = np_id p" "np_address (queued_once p) = np_address p" "np_port (queued_once p) = np_port p"
  "np_id (after_send t n b p) = np_id p" "np_address (after_send t n b p) = np_address p"
  "np_port (after_send t n b p) = np_port p"
  by (simp_all add: queued_once_def after_send_def Let_def)

lemma deliver_wf:
  assumes "net_wf hash d w"
  shows "net_wf hash d (snd (deliverToPeer hash io pid type payload w)) \<and>
    same_limits (snd (deliverToPeer hash io pid type payload w)) w \<and>
    nw_seen (snd (deliverToPeer hash io pid type payload w)) = nw_seen w"
proof (cases "refused hash pid payload w")
  case True
  then show ?thesis
    using deliver_refused [OF True, of io type] kept_wf [OF _ assms] by (auto simp: kept_def)
next
  case False
  obtain p where p: "getPeer hash pid w = Some p"
    using False by (auto simp: refused_def split: option.splits)
  obtain sent w' where r: "deliverToPeer hash io pid type payload w = (sent, w')" by fastforce
  note t = deliver_tried [OF False assms p r]
  have "net_wf hash (d + 0) w'" by (rule change_wf [OF assms _ t(1)]) (simp_all add: t(3))
  then show ?thesis using t(2,4) by (simp add: r)
qed

text \<open>
  C25: \<^verbatim>\<open>deliverToPeer\<close> to a peer that is known, not banned and below its queue limit makes
  one attempt and up to \<^verbatim>\<open>maxSendRetries\<close> more. It succeeds only when an attempt sends the
  whole frame, and does when some attempt with a descriptor would; the peer's queue depth
  and the global one are what they were, the peer is reachable exactly if the frame was
  sent, and a failed message joins the pending queue while that is below its limit.
\<close>

theorem delivery_exact:
  assumes "net_wf hash d w" and "pool_ok w" and "\<not> refused hash pid payload w"
    and "deliverToPeer hash io pid type payload w = (sent, w')"
  shows "(sent \<longrightarrow> (\<exists>i \<le> unat (nc_maxSendRetries (nw_cfg w)). goes_through io (nc_maxEINTRRetries (nw_cfg w)) (sent_frame type payload) i)) \<and>
    ((\<exists>i \<le> unat (nc_maxSendRetries (nw_cfg w)). 0 \<le> io_opened io i \<and>
        goes_through io (nc_maxEINTRRetries (nw_cfg w)) (sent_frame type payload) i) \<longrightarrow> sent) \<and>
    (\<exists>p. getPeer hash pid w = Some p \<and>
       peers_at hash w' = (peers_at hash w)(pid \<mapsto>
         (if sent then p\<lparr>np_messagesSent := np_messagesSent p + 1,
             np_bytesSent := np_bytesSent p + word_of_nat (length (sent_frame type payload)),
             np_lastSeenAt := io_now io, np_isReachable := True\<rparr>
          else p\<lparr>np_isReachable := False\<rparr>)) \<and>
       nw_queueDepth w' = nw_queueDepth w \<and>
       nw_pending w' =
         (if sent \<or> \<not> nc_enablePendingQueueRecovery (nw_cfg w) \<or> length (nw_pending w) \<ge> PENDING_MAX then nw_pending w
          else nw_pending w @ [\<lparr>pe_address = np_address p, pe_port = np_port p, pe_type = type, pe_payload = payload\<rparr>]))"
proof -
  obtain p where p: "getPeer hash pid w = Some p" "np_sendQueueDepth p < nc_maxPerPeerSendQueue (nw_cfg w)"
    using assms(3) by (auto simp: refused_def split: option.splits)
  note t = deliver_tried [OF assms(3,1) p(1) assms(4)]
  have s: "sh_wf hash (nw_shards w)" using assms(1) by (simp add: net_wf_def)
  have "getPeer hash k w' = (if k = pid then Some (after_send (io_now io) (length (sent_frame type payload)) sent (queued_once p))
      else getPeer hash k w)" for k
    using shards.find_upd [OF s] p(1) by (simp add: getPeer_def t(1))
  then have "peers_at hash w' = (peers_at hash w)(pid \<mapsto> after_send (io_now io) (length (sent_frame type payload)) sent (queued_once p))"
    by (auto simp: peers_at_def)
  then show ?thesis
    using t(6-9) p(1) assms(2) by (auto simp: after_send_queued [OF p(2)] push_pending_def)
qed

text \<open>A network with one peer, for the examples.\<close>

definition one_peer :: network where
  "one_peer = net_run (\<lambda>k. 0) [Connect True 5 ''10.0.0.1'' 7] (Network default_net_config)"

lemma one_peer_wf: "net_wf (\<lambda>k. 0) 0 one_peer"
  by (simp add: one_peer_def net_run_Network)

lemma one_peer_cfg: "nw_cfg one_peer = default_net_config"
  by (simp add: one_peer_def net_run_Network)

lemma one_peer_table: "getPeer (\<lambda>k. 0) k one_peer =
    (if k = peerKey ''10.0.0.1'' 7 then Some (new_peer (Network default_net_config) 5 ''10.0.0.1'' 7) else None)"
proof -
  have "peers_at (\<lambda>k. 0) one_peer = [peerKey ''10.0.0.1'' 7 \<mapsto> new_peer (Network default_net_config) 5 ''10.0.0.1'' 7]"
    unfolding one_peer_def net_run_Network(2)
    by (simp add: spec_run_def spec_step_def Network_def default_net_config_def)
  then show ?thesis by (auto simp: peers_at_def fun_eq_iff split: if_splits)
qed

lemma grow_keeps: "nw_pool (maybeGrowShards hash w) = nw_pool w" "nw_queueDepth (maybeGrowShards hash w) = nw_queueDepth w"
    "nw_seen (maybeGrowShards hash w) = nw_seen w" "nw_maxMsgPerSec (maybeGrowShards hash w) = nw_maxMsgPerSec w"
  by (simp_all add: maybeGrowShards_def on_shards_def Let_def)

lemma connect_keeps:
  "nw_pool (snd (the (connectToPeer True hash now a po w))) = nw_pool w"
  "nw_queueDepth (snd (the (connectToPeer True hash now a po w))) = nw_queueDepth w"
  "nw_seen (snd (the (connectToPeer True hash now a po w))) = nw_seen w"
  "nw_maxMsgPerSec (snd (the (connectToPeer True hash now a po w))) = nw_maxMsgPerSec w"
  by (auto simp: connectToPeer_def Let_def grow_keeps on_shards_def count_def emit_def recordSuccess_def split: option.split)

lemma one_peer_idle: "pool_ok one_peer" "nw_queueDepth one_peer = 0"
proof -
  have "pool_get k one_peer = []" for k
    by (simp add: one_peer_def net_run_def net_step_connect connect_keeps pool_get_def Network_def)
  then show "pool_ok one_peer" by (simp add: pool_ok_def)
  show "nw_queueDepth one_peer = 0" by (simp add: one_peer_def net_run_def net_step_connect connect_keeps Network_def)
qed

definition easy_io :: net_io where
  "easy_io = \<lparr>io_now = 6, io_nowMs = (\<lambda>i. 6000), io_opened = (\<lambda>i. 3),
     io_conn = (\<lambda>i. \<lparr>cn_incoming = [], cn_sent = [], cn_calls = []\<rparr>), io_cas = True\<rparr>"

lemma easy_sends: "goes_through easy_io m data i"
  by (simp add: goes_through_def easy_io_def sendRaw.simps [of _ data] sendRaw.simps [of _ "[]"] sys_send_def)

lemma delivery_exact_witness:
  "fst (deliverToPeer (\<lambda>k. 0) easy_io (peerKey ''10.0.0.1'' 7) PingMsg [] one_peer) \<and>
   \<not> refused (\<lambda>k. 0) (peerKey ''10.0.0.1'' 7) [] one_peer"
proof -
  obtain sent w' where r: "deliverToPeer (\<lambda>k. 0) easy_io (peerKey ''10.0.0.1'' 7) PingMsg [] one_peer = (sent, w')"
    by fastforce
  have n: "\<not> refused (\<lambda>k. 0) (peerKey ''10.0.0.1'' 7) [] one_peer"
    by (simp add: refused_def one_peer_idle one_peer_table one_peer_cfg GLOBAL_MAX_def default_net_config_def
        new_peer_def default_peer_def)
  have "0 \<le> io_opened easy_io 0" by (simp add: easy_io_def)
  then have "sent"
    using delivery_exact [OF one_peer_wf one_peer_idle(1) n r, THEN conjunct2, THEN conjunct1] easy_sends by blast
  then show ?thesis using n r by simp
qed

section \<open>Replay protection\<close>

lemma dispatch_keeps:
  assumes "net_wf hash d w"
  shows "nw_seen (dispatchFrame hash io f a w) = nw_seen w \<and> same_limits (dispatchFrame hash io f a w) w \<and>
    net_wf hash d (dispatchFrame hash io f a w)"
proof -
  let ?w = "logDecodeFailure UnknownError w"
  have kd: "mt_count (recordDecodeError e m) ActivePeers = mt_count m ActivePeers" for e m
    by (cases e) (simp_all add: recordDecodeError_def Let_def)
  have k: "kept ?w w" by (simp add: logDecodeFailure_def on_metrics_def kept_def same_limits_def kd)
  have seen_ban: "nw_seen (maybeAutoBanPeer hash now a v) = nw_seen v" for now v
    by (simp add: maybeAutoBanPeer_def Let_def on_shards_def count_def evictPeer_def close_fds_def split: option.split)
  have ban: "stands_for hash d ?w (maybeAutoBanPeer hash (io_now io) a ?w) (change a (failed_once ?w (io_now io)) (peers_at hash ?w))"
    by (rule step_decode_failure [OF kept_wf [OF k assms]])
  have failed: "nw_seen (maybeAutoBanPeer hash (io_now io) a ?w) = nw_seen w \<and>
      same_limits (maybeAutoBanPeer hash (io_now io) a ?w) w \<and> net_wf hash d (maybeAutoBanPeer hash (io_now io) a ?w)"
    using ban k by (auto simp: seen_ban stands_for_def kept_def intro: same_limits_trans)
  have counted: "net_wf hash d (emit e (count c n w))" if "c \<noteq> ActivePeers" for e c n
    using kept_wf [OF _ assms, of "count c n w"] that
    by (simp add: kept_count net_wf_def getPeer_def peerCount_def)
  have seen_off: "nw_seen (emit e v) = nw_seen v" "nw_seen (count c n v) = nw_seen v" "nw_seen (on_shards g v) = nw_seen v" for e c n v g
    by (simp_all add: emit_def count_def on_shards_def)
  have pong: "net_wf hash (d + 0) (on_shards (sh_update hash a (\<lambda>p. p\<lparr>np_lastPongAt := t, np_lastSeenAt := t, np_isReachable := True\<rparr>)) w)" for t
    by (rule change_wf [OF assms]) simp_all
  show ?thesis
    using failed deliver_wf [OF assms, of io a PongMsg "[]"] pong assms
    by (cases "nf_type f") (auto simp: dispatchFrame_def Let_def counted seen_off split: option.split)
qed

lemma limits_keep_peer:
  "np_id (fst (checkRateLimit w t p)) = np_id p" "np_address (fst (checkRateLimit w t p)) = np_address p"
  "np_port (fst (checkRateLimit w t p)) = np_port p" "np_id (fst (checkByteQuota w t n p)) = np_id p"
  "np_address (fst (checkByteQuota w t n p)) = np_address p" "np_port (fst (checkByteQuota w t n p)) = np_port p"
  by (simp_all add: checkRateLimit_def checkByteQuota_def refillTokenBucket_def Let_def)

text \<open>What an admitted or refused frame does to the peer.\<close>

lemma admit_shape:
  assumes "admit_frame hash now a n w = (v, w')"
  shows "(v = Proceed \<and> getPeer hash a w = None \<and> w' = w) \<or> (v = AlreadyBanned \<and> w' = w) \<or>
    (\<exists>p p'. getPeer hash a w = Some p \<and> np_id p' = np_id p \<and> np_address p' = np_address p \<and> np_port p' = np_port p \<and>
       nw_shards w' = sh_update hash a (\<lambda>q. p') (nw_shards w) \<and> same_limits w' w \<and> nw_seen w' = nw_seen w \<and>
       mt_count (nw_metrics w') ActivePeers = mt_count (nw_metrics w) ActivePeers)"
proof (cases "getPeer hash a w")
  case None
  then show ?thesis using assms by (simp add: admit_frame_def)
next
  case (Some p)
  obtain p1 ok1 where 1: "checkRateLimit w now p = (p1, ok1)" by fastforce
  obtain p2 ok2 where 2: "checkByteQuota w now n p1 = (p2, ok2)" by fastforce
  let ?p3 = "p2\<lparr>np_messagesRecv := np_messagesRecv p2 + 1, np_lastSeenAt := now, np_bytesRecv := np_bytesRecv p2 + word_of_nat n\<rparr>"
  let ?p' = "if \<not> ok1 then ban now w p1 else if \<not> ok2 then ban now w p2 else ?p3"
  have "np_id p1 = np_id p \<and> np_address p1 = np_address p \<and> np_port p1 = np_port p"
    using limits_keep_peer(1-3) [of w now p] by (simp add: 1)
  moreover have "np_id p2 = np_id p1 \<and> np_address p2 = np_address p1 \<and> np_port p2 = np_port p1"
    using limits_keep_peer(4-6) [of w now n p1] by (simp add: 2)
  ultimately have same: "np_id ?p' = np_id p \<and> np_address ?p' = np_address p \<and> np_port ?p' = np_port p"
    by (simp add: ban_def)
  show ?thesis
  proof (cases "np_isBanned p")
    case True
    then show ?thesis using assms Some by (simp add: admit_frame_def)
  next
    case False
    have "nw_shards w' = sh_update hash a (\<lambda>q. ?p') (nw_shards w) \<and> same_limits w' w \<and> nw_seen w' = nw_seen w \<and>
       mt_count (nw_metrics w') ActivePeers = mt_count (nw_metrics w) ActivePeers"
      using assms False
      by (auto simp: admit_frame_def Some 1 2 Let_def same_limits_def on_shards_def count_def count_add_def split: if_splits)
    then show ?thesis using Some same by blast
  qed
qed

lemma sh_update_found:
  assumes "sh_wf hash s" and "sh_find hash k s = Some p"
  shows "sh_find hash j (sh_update hash k (\<lambda>q. p') s) = (if j = k then Some p' else sh_find hash j s)"
  using shards.find_upd [OF assms(1)] assms(2) by simp

lemma replace_wf:
  assumes "net_wf hash d w" and "getPeer hash a w = Some p"
    and "np_id p' = np_id p" "np_address p' = np_address p" "np_port p' = np_port p"
    and "nw_shards w' = sh_update hash a (\<lambda>q. p') (nw_shards w)"
    and "mt_count (nw_metrics w') ActivePeers = mt_count (nw_metrics w) ActivePeers"
  shows "net_wf hash d w'"
proof -
  have s: "sh_wf hash (nw_shards w)" using assms(1) by (simp add: net_wf_def)
  have g: "getPeer hash j w' = (if j = a then Some p' else getPeer hash j w)" for j
    using sh_update_found [OF s] assms(2) by (simp add: getPeer_def assms(6))
  show ?thesis
    unfolding net_wf_def
  proof (intro conjI allI impI)
    show "sh_wf hash (nw_shards w')" using shards.wf_ops(2) [OF s] by (simp add: assms(6))
    show "mt_count (nw_metrics w') ActivePeers = word_of_nat (peerCount w') + d"
      using assms(1) shards.size_upd [OF s] by (simp add: assms(6,7) net_wf_def peerCount_def sh_size_eq)
  qed (use assms(1-5) g in \<open>auto simp: net_wf_def split: if_splits\<close>)
qed

lemma admit_keeps:
  assumes "net_wf hash d w" and "admit_frame hash now a n w = (v, w')"
  shows "net_wf hash d w' \<and> same_limits w' w \<and> nw_seen w' = nw_seen w"
  using admit_shape [OF assms(2)] replace_wf [OF assms(1)] assms(1) by (elim disjE exE conjE) auto

lemma count_in_keeps [simp]:
  "mt_count (count_in io n m) ActivePeers = mt_count m ActivePeers"
  by (simp add: count_in_def count_add_def Let_def)

lemma inbound_noted:
  assumes "net_wf hash d w"
  shows "net_wf hash d (snd (remember i (on_metrics (count_in io n) w))) \<and>
    same_limits (snd (remember i (on_metrics (count_in io n) w))) w \<and>
    nw_shards (snd (remember i (on_metrics (count_in io n) w))) = nw_shards w"
  using assms by (auto simp: remember_def on_metrics_def net_wf_def getPeer_def peerCount_def same_limits_def Let_def count_def)

text \<open>
  The messages \<open>handleInbound\<close> has seen: the message that was handled is one of them,
  unless there were so many that they have been forgotten.
\<close>

lemma handleInbound_replayed:
  assumes "fst (recvFrameRaw (nc_maxEINTRRetries (nw_cfg w)) c) = Inr f" and "msgId_of (nf_payload f) \<in> nw_seen w"
  shows "handleInbound hash io c a w =
    count ReplayRejected 1 (on_metrics (count_in io (word_of_nat (NET_HEADER_BYTES + length (nf_payload f)))) w)"
  using assms by (simp add: handleInbound_def remember_def on_metrics_def)

lemma handleInbound_frame:
  assumes "net_wf hash d w" and "fst (recvFrameRaw (nc_maxEINTRRetries (nw_cfg w)) c) = Inr f"
  shows "nw_cfg (handleInbound hash io c a w) = nw_cfg w \<and>
    nw_seen (handleInbound hash io c a w) =
      (if msgId_of (nf_payload f) \<in> nw_seen w then nw_seen w
       else if card (insert (msgId_of (nf_payload f)) (nw_seen w)) > 500000 then {}
       else insert (msgId_of (nf_payload f)) (nw_seen w))"
proof -
  let ?i = "msgId_of (nf_payload f)"
  let ?n = "length (nf_payload f)"
  let ?w1 = "on_metrics (count_in io (word_of_nat (NET_HEADER_BYTES + ?n))) w"
  obtain fresh w2 where r: "remember ?i ?w1 = (fresh, w2)" by fastforce
  have w2: "net_wf hash d w2" "same_limits w2 w"
    using inbound_noted [OF assms(1), of ?i io "word_of_nat (NET_HEADER_BYTES + ?n)"] unfolding r by simp_all
  show ?thesis
  proof (cases "?i \<in> nw_seen w")
    case True
    then show ?thesis using handleInbound_replayed [OF assms(2)] by (simp add: on_metrics_def count_def)
  next
    case False
    let ?seen = "if card (insert ?i (nw_seen w)) > 500000 then {} else insert ?i (nw_seen w)"
    have f: "fresh" "nw_seen w2 = ?seen"
      using r False by (auto simp: remember_def on_metrics_def Let_def)
    obtain v w3 where adm: "admit_frame hash (io_now io) a ?n w2 = (v, w3)" by fastforce
    note k = admit_keeps [OF w2(1) adm]
    note disp = dispatch_keeps [OF k [THEN conjunct1], of io f a]
    have "handleInbound hash io c a w =
        (case v of AlreadyBanned \<Rightarrow> w3 | RateBanned \<Rightarrow>
           emit (PeerDisconnected a ''rate ban'') (count ActivePeers (- 1) (evictPeer a (nc_listenPort (nw_cfg w3)) w3))
         | Proceed \<Rightarrow> dispatchFrame hash io f a w3)"
      using r f adm by (cases v) (simp_all add: handleInbound_def assms(2) Let_def)
    then have "nw_cfg (handleInbound hash io c a w) = nw_cfg w \<and> nw_seen (handleInbound hash io c a w) = ?seen"
      using k disp f(2) w2(2)
      by (cases v) (simp_all add: same_limits_def emit_def count_def evictPeer_def close_fds_def Let_def)
    then show ?thesis using False by simp
  qed
qed

text \<open>
  a payload is handled once. When a frame has been received and fewer than 500000
  messages are remembered, every later frame whose payload starts with the same 32 bytes is
  dropped, whoever sends it and whatever its type: it reaches no callback, changes no peer
  and is answered by nothing. Pings and pongs have empty payloads, so of all of them
  only the first one is ever processed.
\<close>

theorem replayed_frames_dropped:
  assumes "net_wf hash d w" and "card (nw_seen w) < 500000"
    and "fst (recvFrameRaw (nc_maxEINTRRetries (nw_cfg w)) c) = Inr f"
    and "fst (recvFrameRaw (nc_maxEINTRRetries (nw_cfg w)) c') = Inr f'"
    and "take 32 (nf_payload f') = take 32 (nf_payload f)"
    and "w1 = handleInbound hash io c a w" and "w2 = handleInbound hash io' c' b w1"
  shows "nw_shards w2 = nw_shards w1 \<and> nw_events w2 = nw_events w1 \<and> nw_pending w2 = nw_pending w1"
proof -
  let ?i = "msgId_of (nf_payload f)"
  have i: "msgId_of (nf_payload f') = ?i" using assms(5) by (simp add: msgId_of_def)
  note 1 = handleInbound_frame [OF assms(1,3), of io a]
  have "card (insert ?i (nw_seen w)) \<le> 500000" by (rule card_insert_le_m1) (use assms(2) in simp_all)
  then have "?i \<in> nw_seen w1" using 1 by (auto simp: assms(6))
  moreover have "nw_cfg w1 = nw_cfg w" using 1 by (simp add: assms(6))
  ultimately show ?thesis
    using handleInbound_replayed [of w1 c' f' hash io' b] assms(4) i by (simp add: assms(7) on_metrics_def count_def)
qed

definition ping_conn :: conn where
  "ping_conn = \<lparr>cn_incoming = net_bytes \<lparr>nf_type = PingMsg, nf_payload = [], nf_version = 0\<rparr>, cn_sent = [], cn_calls = []\<rparr>"

lemma ping_received: "fst (recvFrameRaw 16 ping_conn) = Inr \<lparr>nf_type = PingMsg, nf_payload = [], nf_version = PROTOCOL_VERSION\<rparr>"
  using recv_frame [of 16 ping_conn "\<lparr>nf_type = PingMsg, nf_payload = [], nf_version = 0\<rparr>" "[]"]
  by (auto simp: ping_conn_def benign_def NET_MAX_FRAME_BYTES_def proper_named)

lemma one_peer_seen: "nw_seen one_peer = {}"
  by (simp add: one_peer_def net_run_def net_step_connect connect_keeps Network_def)

lemma replayed_frames_dropped_witness:
  "let w1 = handleInbound (\<lambda>k. 0) easy_io ping_conn ''a'' one_peer; w2 = handleInbound (\<lambda>k. 0) easy_io ping_conn ''b'' w1
   in nw_shards w2 = nw_shards w1 \<and> nw_events w2 = nw_events w1 \<and> nw_pending w2 = nw_pending w1"
  unfolding Let_def
  by (rule replayed_frames_dropped [OF one_peer_wf _ _ _ refl refl refl])
    (use ping_received in \<open>simp_all add: one_peer_seen one_peer_cfg default_net_config_def\<close>)

section \<open>Inbound peers\<close>

text \<open>Everything the network does with its peers.\<close>

datatype flow_op =
    Manage net_op | Deliver net_io string net_type bytes | InboundMsg net_io conn string
  | AcceptConn u64 int string bool

definition flow_step :: "(string \<Rightarrow> u64) \<Rightarrow> flow_op \<Rightarrow> network \<Rightarrow> network" where
  "flow_step hash op w =
     (case op of
        Manage op \<Rightarrow> net_step hash op w
      | Deliver io pid t payload \<Rightarrow> snd (deliverToPeer hash io pid t payload w)
      | InboundMsg io c a \<Rightarrow> handleInbound hash io c a w
      | AcceptConn now fd a queued \<Rightarrow> snd (accept_connection hash now fd a queued w))"

text \<open>The address of an accepted connection is an IPv4 address: it has no colon.\<close>

definition plain_address :: "string \<Rightarrow> bool" where
  "plain_address a \<longleftrightarrow> CHR '':'' \<notin> set a"

fun plain_op :: "flow_op \<Rightarrow> bool" where
  "plain_op (InboundMsg io c a) \<longleftrightarrow> plain_address a"
| "plain_op (AcceptConn now fd a queued) \<longleftrightarrow> plain_address a"
| "plain_op _ \<longleftrightarrow> True"

text \<open>Whether the step takes an accepted connection on.\<close>

definition takes_on :: "(string \<Rightarrow> u64) \<Rightarrow> flow_op \<Rightarrow> network \<Rightarrow> bool" where
  "takes_on hash op w \<longleftrightarrow> (case op of AcceptConn now fd a queued \<Rightarrow> fst (accept_connection hash now fd a queued w) | _ \<Rightarrow> False)"

fun flow_run :: "(string \<Rightarrow> u64) \<Rightarrow> flow_op list \<Rightarrow> network \<times> nat \<Rightarrow> network \<times> nat" where
  "flow_run hash [] (w, n) = (w, n)"
| "flow_run hash (op # ops) (w, n) = flow_run hash ops (flow_step hash op w, if takes_on hash op w then n + 1 else n)"

lemma plain_unknown: "net_wf hash d w \<Longrightarrow> plain_address a \<Longrightarrow> getPeer hash a w = None"
proof (cases "getPeer hash a w")
  case (Some p)
  assume "net_wf hash d w" "plain_address a"
  then have "a = peerKey (np_address p) (np_port p)" using Some by (simp add: net_wf_def)
  then have "CHR '':'' \<in> set a" by (simp add: peerKey_def)
  then show ?thesis using \<open>plain_address a\<close> by (simp add: plain_address_def)
qed

lemma accept_wf:
  assumes "net_wf hash d w"
  shows "net_wf hash (if fst (accept_connection hash now fd a queued w) then d + 1 else d)
    (snd (accept_connection hash now fd a queued w))"
  using assms
  by (auto simp: accept_connection_def Let_def net_wf_def getPeer_def peerCount_def close_fds_def count_def count_add_def)

lemma handleInbound_wf:
  assumes "net_wf hash d w" and "plain_address a"
  shows "net_wf hash d (handleInbound hash io c a w)"
proof (cases "fst (recvFrameRaw (nc_maxEINTRRetries (nw_cfg w)) c)")
  case (Inl e)
  have none: "getPeer hash a v = None" if "nw_shards v = nw_shards w" for v
    using plain_unknown [OF assms] getPeer_shards [OF that] by metis
  have kd: "mt_count (recordDecodeError err m) ActivePeers = mt_count m ActivePeers" for err m
    by (cases err) (simp_all add: recordDecodeError_def Let_def)
  have k: "kept (logDecodeFailure err w) w" for err
    by (simp add: logDecodeFailure_def on_metrics_def kept_def same_limits_def kd)
  have "maybeAutoBanPeer hash now a (logDecodeFailure err w) = logDecodeFailure err w" for now err
    using none [of "logDecodeFailure err w"] k by (simp add: maybeAutoBanPeer_def kept_def)
  then show ?thesis using Inl kept_wf [OF k assms(1)] by (simp add: handleInbound_def Let_def)
next
  case (Inr f)
  let ?w1 = "on_metrics (count_in io (word_of_nat (NET_HEADER_BYTES + length (nf_payload f)))) w"
  obtain fresh w2 where r: "remember (msgId_of (nf_payload f)) ?w1 = (fresh, w2)" by fastforce
  have w2: "net_wf hash d w2" "nw_shards w2 = nw_shards w"
    using inbound_noted [OF assms(1), of "msgId_of (nf_payload f)" io "word_of_nat (NET_HEADER_BYTES + length (nf_payload f))"]
    unfolding r by simp_all
  have "admit_frame hash (io_now io) a (length (nf_payload f)) w2 = (Proceed, w2)"
    using plain_unknown [OF w2(1) assms(2)] by (simp add: admit_frame_def)
  then have "handleInbound hash io c a w = (if fresh then dispatchFrame hash io f a w2 else w2)"
    using Inr r by (simp add: handleInbound_def Let_def)
  then show ?thesis using w2(1) dispatch_keeps [OF w2(1), of io f a] by simp
qed

lemma flow_step_wf:
  assumes "net_wf hash d w" and "plain_op op"
  shows "net_wf hash (if takes_on hash op w then d + 1 else d) (flow_step hash op w)"
  using assms net_step_stands [OF assms(1)] deliver_wf [OF assms(1)] handleInbound_wf [OF assms(1)] accept_wf [OF assms(1)]
  by (cases op) (auto simp: flow_step_def takes_on_def stands_for_def)

lemma flow_run_wf:
  "net_wf hash (word_of_nat n) w \<Longrightarrow> list_all plain_op ops \<Longrightarrow> flow_run hash ops (w, n) = (w', n') \<Longrightarrow>
   net_wf hash (word_of_nat n') w'"
proof (induction ops arbitrary: w n)
  case (Cons op ops)
  let ?n = "if takes_on hash op w then n + 1 else n"
  have d: "(word_of_nat ?n :: u64) = (if takes_on hash op w then word_of_nat n + 1 else word_of_nat n)" by simp
  have "net_wf hash (word_of_nat ?n) (flow_step hash op w)"
    unfolding d using flow_step_wf [OF Cons.prems(1), of op] Cons.prems(2) by simp
  then show ?case using Cons.IH [of ?n] Cons.prems(2,3) by simp
qed simp

text \<open>
  the inbound side is not policed. In every run of the network, whatever is managed, sent,
  accepted and received, a peer that connects from a plain address is looked up under that
  address, and no peer is ever filed under an address without a port: its frames are never
  rate limited, it is never found banned, and the decode errors it causes are never
  charged to anybody. And the counter of active peers exceeds the number of peers by the number
  of all connections ever taken on: nothing counts them down.
\<close>

theorem inbound_not_policed:
  assumes "list_all plain_op ops" and "plain_address a" and "flow_run hash ops (Network cfg, 0) = (w, accepted)"
  shows "admit_frame hash now a n w = (Proceed, w) \<and> \<not> isBanned hash now a w \<and>
    maybeAutoBanPeer hash now a w = w \<and>
    mt_count (nw_metrics w) ActivePeers = word_of_nat (peerCount w) + word_of_nat accepted"
proof -
  have wf: "net_wf hash (word_of_nat accepted) w"
    using flow_run_wf [of hash 0 "Network cfg" ops w accepted] Network_wf assms(1,3) by simp
  then have "getPeer hash a w = None" by (rule plain_unknown [OF _ assms(2)])
  then show ?thesis
    using wf by (simp add: admit_frame_def isBanned_def maybeAutoBanPeer_def net_wf_def)
qed

lemma inbound_not_policed_witness:
  "let ops = [AcceptConn 5 3 ''10.0.0.2'' True]; w = fst (flow_run (\<lambda>k. 0) ops (Network default_net_config, 0))
   in mt_count (nw_metrics w) ActivePeers = word_of_nat (peerCount w) + 1 \<and> \<not> isBanned (\<lambda>k. 0) 6 ''10.0.0.2'' w"
proof -
  let ?w = "fst (flow_run (\<lambda>k. 0) [AcceptConn 5 3 ''10.0.0.2'' True] (Network default_net_config, 0))"
  have none: "getPeer (\<lambda>k. 0) ''10.0.0.2'' (count c n (Network cfg)) = None" for c n cfg
    using plain_unknown [OF Network_wf, of "''10.0.0.2''" "\<lambda>k. 0" cfg] by (simp add: getPeer_def plain_address_def)
  have pc: "peerCount (count c n (Network cfg)) = 0" for c n cfg
    by (simp add: peerCount_def Network_def sh_size_eq new_shards_empty)
  have "flow_run (\<lambda>k. 0) [AcceptConn 5 3 ''10.0.0.2'' True] (Network default_net_config, 0) = (?w, 1)"
    by (simp add: takes_on_def flow_step_def accept_connection_def isBanned_def none pc Let_def)
      (simp add: Network_def default_net_config_def count_def)
  then show ?thesis
    using inbound_not_policed [of "[AcceptConn 5 3 ''10.0.0.2'' True]" "''10.0.0.2''" "\<lambda>k. 0" default_net_config ?w 1 6]
    by (simp add: Let_def plain_address_def)
qed

section \<open>Broadcasts\<close>

definition reachable_targets :: "u64 \<Rightarrow> (string \<times> net_peer) list \<Rightarrow> string list" where
  "reachable_targets m es =
     map fst (filter (\<lambda>(k, p). \<not> np_isBanned p \<and> np_sendQueueDepth p < m \<and> np_isReachable p) es)"

definition how_many :: "('a \<Rightarrow> bool) \<Rightarrow> (string \<times> 'a) list \<Rightarrow> u32" where
  "how_many P es = word_of_nat (length (filter (\<lambda>(k, p). P p) es))"

lemma how_many_simps: "how_many P [] = 0" "how_many P ((k, p) # es) = (if P p then how_many P es + 1 else how_many P es)"
  by (simp_all add: how_many_def)

lemma choose_peers_eq:
  "choose_peers es m ids r w = (ids', r', w') \<Longrightarrow>
   ids' = ids @ reachable_targets m es \<and>
   r' = r\<lparr>br_skippedBanned := br_skippedBanned r + how_many np_isBanned es,
          br_skippedSlowPeer := br_skippedSlowPeer r + how_many (\<lambda>p. \<not> np_isBanned p \<and> np_sendQueueDepth p \<ge> m) es\<rparr>"
proof (induction es arbitrary: ids r w)
  case Nil
  then show ?case by (simp add: how_many_simps reachable_targets_def)
next
  case (Cons e es)
  obtain k p where e: "e = (k, p)" by fastforce
  have t: "reachable_targets m ((k, p) # es) =
      (if \<not> np_isBanned p \<and> np_sendQueueDepth p < m \<and> np_isReachable p then [k] else []) @ reachable_targets m es"
    by (simp add: reachable_targets_def)
  show ?case
    using Cons.prems Cons.IH unfolding e t how_many_simps by (fastforce split: if_splits simp: ac_simps)
qed

lemma send_all_accounts:
  "send_all hash queued ios type payload i pids (r, w) = (r', w') \<Longrightarrow>
   br_attempted r' = br_attempted r + word_of_nat (length pids) \<and>
   br_succeeded r' + br_failed r' = br_succeeded r + br_failed r + word_of_nat (length pids) \<and>
   br_skippedBanned r' = br_skippedBanned r \<and> br_skippedSlowPeer r' = br_skippedSlowPeer r"
proof (induction pids arbitrary: i r w)
  case (Cons pid pids)
  obtain ok w1 where d: "deliverToPeer hash (ios i) pid type payload w = (ok, w1)" by fastforce
  let ?r = "r\<lparr>br_attempted := br_attempted r + 1\<rparr>"
  let ?r1 = "if queued i \<and> ok then ?r\<lparr>br_succeeded := br_succeeded ?r + 1\<rparr> else ?r\<lparr>br_failed := br_failed ?r + 1\<rparr>"
  obtain w2 where "send_all hash queued ios type payload (i + 1) pids (?r1, w2) = (r', w')"
    using Cons.prems d by (fastforce split: if_splits simp: Let_def)
  then show ?case using Cons.IH by (fastforce simp: ac_simps)
qed simp

text \<open>
  the books of a broadcast balance. Whatever the worker pool accepts and whatever the
  network does, the peers that are neither banned, nor slow, nor unreachable are the ones
  attempted, every attempt is counted as succeeded or failed, and the skipped peers are the
  banned ones and the slow ones.
\<close>

theorem broadcast_accounts:
  "let es = sh_entries (nw_shards w); m = nc_maxPerPeerSendQueue (nw_cfg w);
       r = fst (broadcastPayload hash queued ios type payload w)
   in br_attempted r = word_of_nat (length (reachable_targets m es)) \<and>
      br_succeeded r + br_failed r = br_attempted r \<and>
      br_skippedBanned r = how_many np_isBanned es \<and>
      br_skippedSlowPeer r = how_many (\<lambda>p. \<not> np_isBanned p \<and> np_sendQueueDepth p \<ge> m) es"
proof -
  let ?es = "sh_entries (nw_shards w)" and ?m = "nc_maxPerPeerSendQueue (nw_cfg w)"
  obtain ids r1 w1 where c: "choose_peers ?es ?m [] no_result (count BroadcastAttempts 1 w) = (ids, r1, w1)"
    using prod_cases3 by blast
  note cp = choose_peers_eq [OF c]
  obtain r w2 where r: "broadcastPayload hash queued ios type payload w = (r, w2)" by fastforce
  have "br_attempted r = br_attempted r1 + word_of_nat (length ids) \<and>
      br_succeeded r + br_failed r = br_succeeded r1 + br_failed r1 + word_of_nat (length ids) \<and>
      br_skippedBanned r = br_skippedBanned r1 \<and> br_skippedSlowPeer r = br_skippedSlowPeer r1"
    using r send_all_accounts [of hash queued ios type payload 0 ids r1 w1 r w2]
    by (auto simp: broadcastPayload_def c split: if_splits)
  then show ?thesis using cp by (simp add: r Let_def no_result_def)
qed

section \<open>Rate limits\<close>

text \<open>The frames of one peer, as \<open>admit_frame\<close> answers them: time and payload length.\<close>

fun admitted :: "(string \<Rightarrow> u64) \<Rightarrow> string \<Rightarrow> (u64 \<times> nat) list \<Rightarrow> network \<Rightarrow> nat list" where
  "admitted hash a [] w = []"
| "admitted hash a ((now, n) # fs) w =
     (let (v, w) = admit_frame hash now a n w in (if v = Proceed then [n] else []) @ admitted hash a fs w)"

lemma refill_bound:
  assumes "np_tokenLastRefillEpoch p \<le> t"
  shows "np_tokenMsgBucket (refillTokenBucket w t p) \<le> np_tokenMsgBucket p + (unat t - unat (np_tokenLastRefillEpoch p)) * unat (nw_maxMsgPerSec w)"
    "np_tokenByteBucket (refillTokenBucket w t p) \<le> np_tokenByteBucket p + (unat t - unat (np_tokenLastRefillEpoch p)) * unat (nw_maxBytesPerSec w)"
    "np_tokenLastRefillEpoch (refillTokenBucket w t p) = t" "np_isBanned (refillTokenBucket w t p) = np_isBanned p"
  using assms by (auto simp: refillTokenBucket_def Let_def unat_sub)

lemma refill_again: "np_tokenLastRefillEpoch p = t \<Longrightarrow> refillTokenBucket w t p = p"
  by (simp add: refillTokenBucket_def)

text \<open>One frame: what the peer pays for it.\<close>

lemma admit_pays:
  assumes "getPeer hash a w = Some p" and "net_wf hash d w" and "np_tokenLastRefillEpoch p \<le> t"
    and "admit_frame hash t a n w = (v, w')"
  shows "(v \<noteq> Proceed \<and> (\<exists>p'. getPeer hash a w' = Some p' \<and> np_isBanned p')) \<or>
    (v = Proceed \<and> (\<exists>p'. getPeer hash a w' = Some p' \<and> np_tokenLastRefillEpoch p' = t \<and>
      np_tokenMsgBucket p' + 1 \<le> np_tokenMsgBucket p + (unat t - unat (np_tokenLastRefillEpoch p)) * unat (nw_maxMsgPerSec w) \<and>
      np_tokenByteBucket p' + n \<le> np_tokenByteBucket p + (unat t - unat (np_tokenLastRefillEpoch p)) * unat (nw_maxBytesPerSec w) \<and>
      nw_maxMsgPerSec w' = nw_maxMsgPerSec w \<and> nw_maxBytesPerSec w' = nw_maxBytesPerSec w))"
proof -
  have s: "sh_wf hash (nw_shards w)" using assms(2) by (simp add: net_wf_def)
  have upd: "getPeer hash a v = Some p'" if "nw_shards v = sh_update hash a (\<lambda>q. p') (nw_shards w)" for v p'
    using sh_update_found [OF s] assms(1) by (simp add: getPeer_def that)
  note b = refill_bound [OF assms(3), of w]
  let ?p = "refillTokenBucket w t p"
  show ?thesis
  proof (cases "np_isBanned p")
    case True
    then show ?thesis using assms(1,4) by (simp add: admit_frame_def)
  next
    case nb: False
    show ?thesis
    proof (cases "np_tokenMsgBucket ?p < 1")
      case True
      then show ?thesis
        using assms(1,4) nb upd [of w' "ban t w ?p"]
        by (auto simp: admit_frame_def checkRateLimit_def Let_def ban_def)
    next
      case enough: False
      let ?q = "?p\<lparr>np_tokenMsgBucket := np_tokenMsgBucket ?p - 1, np_msgThisSecond := np_msgThisSecond ?p + 1\<rparr>"
      have 1: "checkRateLimit w t p = (?q, True)" using enough by (simp add: checkRateLimit_def Let_def)
      have again: "refillTokenBucket w t ?q = ?q" by (rule refill_again) (simp add: b(3))
      show ?thesis
      proof (cases "np_tokenByteBucket ?q < n")
        case True
        then have "checkByteQuota w t n ?q = (?q, False)" unfolding checkByteQuota_def Let_def again by simp
        then show ?thesis
          using assms(1,4) nb 1 upd [of w' "ban t w ?q"] by (auto simp: admit_frame_def Let_def ban_def)
      next
        case False
        let ?r = "?q\<lparr>np_tokenByteBucket := np_tokenByteBucket ?q - n, np_byteThisSecond := np_byteThisSecond ?q + word_of_nat n\<rparr>"
        let ?r' = "?r\<lparr>np_messagesRecv := np_messagesRecv ?r + 1, np_lastSeenAt := t, np_bytesRecv := np_bytesRecv ?r + word_of_nat n\<rparr>"
        have "checkByteQuota w t n ?q = (?r, True)" using False unfolding checkByteQuota_def Let_def again by simp
        then have v: "v = Proceed" "w' = on_shards (sh_update hash a (\<lambda>q. ?r')) w"
          using assms(1,4) nb 1 by (auto simp: admit_frame_def Let_def)
        then have "getPeer hash a w' = Some ?r'" by (intro upd) simp
        moreover have "nw_maxMsgPerSec w' = nw_maxMsgPerSec w" "nw_maxBytesPerSec w' = nw_maxBytesPerSec w"
          by (simp_all add: v(2) on_shards_def)
        ultimately show ?thesis using b enough False v(1) by simp
      qed
    qed
  qed
qed

lemma banned_admits_nothing:
  "getPeer hash a w = Some p \<Longrightarrow> np_isBanned p \<Longrightarrow> admitted hash a fs w = []"
  by (induction fs arbitrary: w) (auto simp: admit_frame_def)

text \<open>
  the token buckets bound what a peer in the table gets through. Over any frames in the
  order of time, the frames admitted are at most the tokens the peer had plus the message
  rate times the seconds since its last refill, and their payloads together are
  at most the byte tokens it had plus the byte rate times those seconds; after the first
  refusal nothing is admitted any more.
\<close>

theorem inbound_rate_bound:
  assumes "net_wf hash d w" and "getPeer hash a w = Some p" and "sorted (map fst fs)" and "fs \<noteq> []"
    and "np_tokenLastRefillEpoch p \<le> fst (hd fs)"
  shows "length (admitted hash a fs w) \<le>
      np_tokenMsgBucket p + (unat (fst (last fs)) - unat (np_tokenLastRefillEpoch p)) * unat (nw_maxMsgPerSec w) \<and>
    sum_list (admitted hash a fs w) \<le>
      np_tokenByteBucket p + (unat (fst (last fs)) - unat (np_tokenLastRefillEpoch p)) * unat (nw_maxBytesPerSec w)"
  using assms
proof (induction fs arbitrary: w p)
  case (Cons f fs)
  obtain t n where f: "f = (t, n)" by fastforce
  let ?e = "unat (np_tokenLastRefillEpoch p)" and ?l = "unat (fst (last (f # fs)))"
  have t: "np_tokenLastRefillEpoch p \<le> t" using Cons.prems(5) f by simp
  have lt: "t \<le> fst (last (f # fs))" using Cons.prems(3) f by (cases fs rule: rev_cases) auto
  obtain v w' where adm: "admit_frame hash t a n w = (v, w')" by fastforce
  have wf': "net_wf hash d w'" using admit_keeps [OF Cons.prems(1) adm] by simp
  from admit_pays [OF Cons.prems(2,1) t adm] show ?case
  proof (elim disjE conjE exE)
    fix p' assume "v \<noteq> Proceed" "getPeer hash a w' = Some p'" "np_isBanned p'"
    then show ?thesis using adm f banned_admits_nothing by simp
  next
    fix p'
    assume v: "v = Proceed" and p': "getPeer hash a w' = Some p'" "np_tokenLastRefillEpoch p' = t"
      and m: "np_tokenMsgBucket p' + 1 \<le> np_tokenMsgBucket p + (unat t - ?e) * unat (nw_maxMsgPerSec w)"
      and b: "np_tokenByteBucket p' + n \<le> np_tokenByteBucket p + (unat t - ?e) * unat (nw_maxBytesPerSec w)"
      and r: "nw_maxMsgPerSec w' = nw_maxMsgPerSec w" "nw_maxBytesPerSec w' = nw_maxBytesPerSec w"
    have e: "?e \<le> unat t" "unat t \<le> ?l" using t lt by (simp_all add: word_le_nat_alt)
    have sum: "(?l - ?e) * k = (unat t - ?e) * k + (?l - unat t) * k" for k
      using e by (simp add: add_mult_distrib [symmetric])
    have "length (admitted hash a fs w') \<le> np_tokenMsgBucket p' + (?l - unat t) * unat (nw_maxMsgPerSec w) \<and>
        sum_list (admitted hash a fs w') \<le> np_tokenByteBucket p' + (?l - unat t) * unat (nw_maxBytesPerSec w)"
    proof (cases "fs = []")
      case False
      have "t \<le> fst (hd fs)" using Cons.prems(3) f False by (cases fs) auto
      then show ?thesis using Cons.IH [OF wf' p'(1)] Cons.prems(3) False p'(2) by (simp add: r)
    qed simp
    then show ?thesis using m b adm v f unfolding sum by simp
  qed
qed simp

lemma inbound_rate_bound_witness:
  "length (admitted (\<lambda>k. 0) (peerKey ''10.0.0.1'' 7) [(5, 3), (6, 4)] one_peer) \<le> 400 + 1 * 200"
proof -
  have "nw_maxMsgPerSec one_peer = 200"
    by (simp add: one_peer_def net_run_def net_step_connect connect_keeps) (simp add: Network_def default_net_config_def)
  then show ?thesis
    using inbound_rate_bound [OF one_peer_wf, of "peerKey ''10.0.0.1'' 7" "new_peer (Network default_net_config) 5 ''10.0.0.1'' 7" "[(5, 3), (6, 4)]"]
    by (simp add: one_peer_table new_peer_def Network_def default_net_config_def)
qed

end
