(* ===== verification/PeerStore.thy ===== *)
theory PeerStore
  imports Complex_Main NetCodec Crc
begin

text \<open>
  The binary peer store of the peer manager (\<^verbatim>\<open>StoreHeader\<close>, \<^verbatim>\<open>StoredPeer\<close>, \<^verbatim>\<open>crc32\<close>,
  \<^verbatim>\<open>savePeers\<close> and \<^verbatim>\<open>loadPeers\<close> in \<^verbatim>\<open>src/src/net/peer_manager.cpp\<close>). The structures
  are packed and written as they lie in memory, little-endian. The bit pattern of a
  \<^verbatim>\<open>double\<close> is a pair of parameters: \<open>dbl\<close> gives the pattern of a number, \<open>undbl\<close> the number.
\<close>

section \<open>The checksum table\<close>

text \<open>
  The initialiser of \<^verbatim>\<open>CRC32_TABLE[256]\<close> lists 180 values; the others are zero. Three source
  lines to a row.
\<close>

definition crc_row1 :: "u32 list" where
  "crc_row1 =
    [0x00000000, 0x77073096, 0xEE0E612C, 0x990951BA, 0x076DC419, 0x706AF48F,
     0xE963A535, 0x9E6495A3, 0x0EDB8832, 0x79DCB8A4, 0xE0D5E91B, 0x97D2D988,
     0x09B64C2B, 0x7EB17CBF, 0xE7B82D09, 0x90BF1CBB, 0x1DB71064, 0x6AB020F2]"

definition crc_row2 :: "u32 list" where
  "crc_row2 =
    [0xF3B97148, 0x84BE41DE, 0x1ADAD47D, 0x6DDDE4EB, 0xF4D4B551, 0x83D385C7,
     0x136C9856, 0x646BA8C0, 0xFD62F97A, 0x8A65C9EC, 0x14015C4F, 0x63066CD9,
     0xFA0F3D63, 0x8D080DF5, 0x3B6E20C8, 0x4C69105E, 0xD56041E4, 0xA2677172]"

definition crc_row3 :: "u32 list" where
  "crc_row3 =
    [0x3C03E4D1, 0x4B04D447, 0xD20D85FD, 0xA50AB56B, 0x35B5A8FA, 0x42B2986C,
     0xDBBBC9D6, 0xACBCF940, 0x32D86CE3, 0x45DF5C75, 0xDCD60DCF, 0xABD13D59,
     0x26D930AC, 0x51DE003A, 0xC8D75180, 0xBFD06116, 0x21B4F927, 0x56B3C9B1]"

definition crc_row4 :: "u32 list" where
  "crc_row4 =
    [0xCFBA9899, 0xB8BDA50F, 0x2802B89E, 0x5F058808, 0xC60CD9B2, 0xB10BE924,
     0x2F6F7C87, 0x58684C11, 0xC1611DAB, 0xB6662D3D, 0x76DC4190, 0x01DB7106,
     0x98D220BC, 0xEFD5102A, 0x71B18589, 0x06B6B51F, 0x9FBFE4A5, 0xE8B8D433]"

definition crc_row5 :: "u32 list" where
  "crc_row5 =
    [0x7807C9A2, 0x0F00F934, 0x9609A88E, 0xE10E9818, 0x7F6396BB, 0x086D3D2D,
     0x91646C97, 0xE6635C01, 0x6B6B51F4, 0x1C6C6162, 0x856530D8, 0xF262004E,
     0x6C0695ED, 0x1B01A57B, 0x8208F4C1, 0xF50FC457, 0x65B0D9C6, 0x12B7E950]"

definition crc_row6 :: "u32 list" where
  "crc_row6 =
    [0x8BBEB8EA, 0xFCB9887C, 0x62DD1D7F, 0x15DA2D49, 0x8CD37CF3, 0xFBD44C65,
     0x4DB26158, 0x3AB551CE, 0xA3BC0074, 0xD4BB30E2, 0x4ADFA541, 0x3DD895D7,
     0xA4D1C46D, 0xD3D6F4FB, 0x4369E96A, 0x346ED9FC, 0xAD678846, 0xDA60B8D0]"

definition crc_row7 :: "u32 list" where
  "crc_row7 =
    [0x44042D73, 0x33031DE5, 0xAA0A4C5F, 0xDD0D7CC9, 0x5005713C, 0x270241AA,
     0xBE0B1010, 0xC90C2086, 0x5768B525, 0x206F85B3, 0xB966D409, 0xCE61E49F,
     0x5EDEF90E, 0x29D9C998, 0xB0D09822, 0xC7D7A8B4, 0x59B33D17, 0x2EB40D81]"

definition crc_row8 :: "u32 list" where
  "crc_row8 =
    [0xB7BD5C3B, 0xC0BA6CAD, 0xEDB88320, 0x9ABFB3B6, 0x03B6E20C, 0x74B1D29A,
     0xEAD54739, 0x9DD277AF, 0x04DB2615, 0x73DC1683, 0xE3630B12, 0x94643B84,
     0x0D6D6A3E, 0x7A6A5AA8, 0xE40ECF0B, 0x9309FF9D, 0x0A00AE27, 0x7D079EB1]"

definition crc_row9 :: "u32 list" where
  "crc_row9 =
    [0xF00F9344, 0x8708A3D2, 0x1E01F268, 0x6906C2FE, 0xF762575D, 0x806567CB,
     0x196C3671, 0x6E6B06E7, 0xFED41B76, 0x89D32BE0, 0x10DA7A5A, 0x67DD4ACC,
     0xF9B9DF6F, 0x8EBEEFF9, 0x17B7BE43, 0x60B08ED5, 0xD6D6A3E8, 0xA1D1937E]"

definition crc_row10 :: "u32 list" where
  "crc_row10 =
    [0x38D8C2C4, 0x4FDFF252, 0xD1BB67F1, 0xA6BC5767, 0x3FB506DD, 0x48B2364B,
     0xD80D2BDA, 0xAF0A1B4C, 0x36034AF6, 0x41047A60, 0xDF60EFC3, 0xA8670955,
     0x316658EF, 0x466856A9, 0xB40BBE37, 0xC30C8EA1, 0x5A05DF1B, 0x2D02EF8D]"

definition CRC32_TABLE :: "u32 list" where
  "CRC32_TABLE =
     crc_row1 @ crc_row2 @ crc_row3 @ crc_row4 @ crc_row5 @ crc_row6 @ crc_row7 @ crc_row8 @ crc_row9 @ crc_row10
     @ replicate 76 0"

definition crc32_step :: "u32 \<Rightarrow> u8 \<Rightarrow> u32" where
  "crc32_step crc b = drop_bit 8 crc XOR CRC32_TABLE ! unat ((crc XOR ucast b) AND 0xFF)"

definition crc32 :: "bytes \<Rightarrow> u32" where
  "crc32 data = foldl crc32_step 0xFFFFFFFF data XOR 0xFFFFFFFF"

section \<open>Peers\<close>

record peer_info =
  pi_id :: string
  pi_address :: string
  pi_port :: u16
  pi_version :: u32
  pi_connectedAt :: u64
  pi_lastSeenAt :: u64
  pi_lastPingSentAt :: u64
  pi_lastPongAt :: u64
  pi_messagesSent :: u64
  pi_messagesRecv :: u64
  pi_bytesRecv :: u64
  pi_bytesSent :: u64
  pi_banExpiresAt :: u64
  pi_banCount :: u32
  pi_decodeErrorCount :: u32
  pi_msgThisSecond :: u64
  pi_byteThisSecond :: u64
  pi_score :: rat
  pi_isBanned :: bool
  pi_isInbound :: bool
  pi_isReachable :: bool
  pi_handshakeDone :: bool
  pi_sendQueueDepth :: u64
  pi_tokenMsgBucket :: nat
  pi_tokenByteBucket :: nat
  pi_tokenLastRefill :: u64
  pi_dirty :: bool

definition default_info :: peer_info where
  "default_info =
     \<lparr>pi_id = [], pi_address = [], pi_port = 0, pi_version = 0, pi_connectedAt = 0, pi_lastSeenAt = 0,
      pi_lastPingSentAt = 0, pi_lastPongAt = 0, pi_messagesSent = 0, pi_messagesRecv = 0, pi_bytesRecv = 0,
      pi_bytesSent = 0, pi_banExpiresAt = 0, pi_banCount = 0, pi_decodeErrorCount = 0, pi_msgThisSecond = 0,
      pi_byteThisSecond = 0, pi_score = 100, pi_isBanned = False, pi_isInbound = False, pi_isReachable = False,
      pi_handshakeDone = False, pi_sendQueueDepth = 0, pi_tokenMsgBucket = 0, pi_tokenByteBucket = 0,
      pi_tokenLastRefill = 0, pi_dirty = False\<rparr>"

definition pm_peerKey :: "string \<Rightarrow> u16 \<Rightarrow> string" where
  "pm_peerKey address port = address @ '':'' @ show_nat (unat port)"

section \<open>The store\<close>

definition STORE_MAGIC :: u32 where "STORE_MAGIC = 0x4D445250"
definition STORE_VERSION :: u32 where "STORE_VERSION = 3"

text \<open>An integer as it lies in memory.\<close>

definition mem_bytes :: "nat \<Rightarrow> 'a::len word \<Rightarrow> bytes" where
  "mem_bytes n v = rev (be_write n v)"

definition mem_word :: "bytes \<Rightarrow> 'a::len word" where
  "mem_word bs = be_read (rev bs)"

definition HEADER_SIZE :: nat where "HEADER_SIZE = 36"
definition STORED_SIZE :: nat where "STORED_SIZE = 302"

definition flag :: "bool \<Rightarrow> u8" where
  "flag b = (if b then 1 else 0)"

definition stored_peer :: "(rat \<Rightarrow> u64) \<Rightarrow> peer_info \<Rightarrow> bytes" where
  "stored_peer dbl p =
     (let a = take 254 (str_bytes (pi_address p))
      in [word_of_nat (length a)] @ (a @ replicate (255 - length a) 0) @ mem_bytes 2 (pi_port p) @ mem_bytes 8 (dbl (pi_score p))
         @ mem_bytes 8 (pi_connectedAt p) @ mem_bytes 8 (pi_lastSeenAt p) @ mem_bytes 8 (pi_banExpiresAt p)
         @ mem_bytes 4 (pi_banCount p) @ mem_bytes 4 (pi_decodeErrorCount p)
         @ [flag (pi_isBanned p), flag (pi_handshakeDone p)] @ [0, 0])"

definition store_header :: "u64 \<Rightarrow> nat \<Rightarrow> u32 \<Rightarrow> bytes" where
  "store_header now n checksum =
     mem_bytes 4 STORE_MAGIC @ mem_bytes 4 STORE_VERSION @ mem_bytes 4 (word_of_nat n :: u32) @ mem_bytes 8 now
     @ mem_bytes 4 checksum @ replicate 12 0"

definition store_file :: "(rat \<Rightarrow> u64) \<Rightarrow> u64 \<Rightarrow> peer_info list \<Rightarrow> bytes" where
  "store_file dbl now ps =
     (let payload = concat (map (stored_peer dbl) ps)
      in store_header now (length ps) (if payload = [] then 0 else crc32 payload) @ payload)"

definition clamp_100 :: "rat \<Rightarrow> rat" where
  "clamp_100 s = (if s < 0 then 0 else if 100 < s then 100 else s)"

text \<open>One record: the peer to be added, or nothing when its ban is over.\<close>

definition restored_peer :: "(u64 \<Rightarrow> rat) \<Rightarrow> u64 \<Rightarrow> bytes \<Rightarrow> peer_info option" where
  "restored_peer undbl now rec =
     (let field = (\<lambda>off n. take n (drop off rec));
          isBanned = rec ! 298; banExpiresAt = mem_word (field 282 8);
          address = bytes_str (field 1 (unat (rec ! 0))); port = mem_word (field 256 2)
      in if isBanned \<noteq> 0 \<and> banExpiresAt \<le> now then None
         else Some (default_info\<lparr>pi_address := address, pi_port := port, pi_id := pm_peerKey address port,
                pi_score := clamp_100 (undbl (mem_word (field 258 8))), pi_connectedAt := mem_word (field 266 8),
                pi_lastSeenAt := mem_word (field 274 8), pi_banExpiresAt := banExpiresAt,
                pi_banCount := mem_word (field 290 4), pi_decodeErrorCount := mem_word (field 294 4),
                pi_isBanned := (isBanned \<noteq> 0), pi_handshakeDone := False, pi_isReachable := False\<rparr>))"

fun restored_peers :: "(u64 \<Rightarrow> rat) \<Rightarrow> u64 \<Rightarrow> nat \<Rightarrow> bytes \<Rightarrow> peer_info list" where
  "restored_peers undbl now 0 payload = []"
| "restored_peers undbl now (Suc n) payload =
     (if STORED_SIZE > length payload then []
      else (case restored_peer undbl now (take STORED_SIZE payload) of None \<Rightarrow> [] | Some p \<Rightarrow> [p])
           @ restored_peers undbl now n (drop STORED_SIZE payload))"

text \<open>
  What \<^verbatim>\<open>loadPeers\<close> reads from a file: \<open>None\<close> when it is refused. The buffer of the records is
  zeroed before it is filled, so what a short file lacks is zero.
\<close>

definition read_store :: "(u64 \<Rightarrow> rat) \<Rightarrow> u64 \<Rightarrow> bytes \<Rightarrow> peer_info list option" where
  "read_store undbl now f =
     (if length f < HEADER_SIZE \<or> mem_word (take 4 f) \<noteq> STORE_MAGIC then None
      else if mem_word (take 4 (drop 4 f)) > STORE_VERSION then None
      else
        let numPeers = unat (mem_word (take 4 (drop 8 f)) :: u32); checksum = mem_word (take 4 (drop 20 f));
            paySize = numPeers * STORED_SIZE; got = take paySize (drop HEADER_SIZE f);
            payload = got @ replicate (paySize - length got) 0
        in if (if payload = [] then 0 else crc32 payload) \<noteq> checksum then None
           else Some (restored_peers undbl now numPeers payload))"

section \<open>The checksum\<close>

lemma length_crc_rows: "length (crc_row1 @ crc_row2 @ crc_row3 @ crc_row4 @ crc_row5 @ crc_row6 @ crc_row7 @ crc_row8 @ crc_row9 @ crc_row10) = 180"
  by (simp add: crc_row1_def crc_row2_def crc_row3_def crc_row4_def crc_row5_def crc_row6_def crc_row7_def crc_row8_def
      crc_row9_def crc_row10_def)

lemma length_CRC32_TABLE: "length CRC32_TABLE = 256"
  using length_crc_rows by (simp add: CRC32_TABLE_def)

lemma crc_table_tail: "180 \<le> i \<Longrightarrow> i < 256 \<Longrightarrow> CRC32_TABLE ! i = 0"
proof -
  assume i: "180 \<le> i" "i < 256"
  let ?rows = "crc_row1 @ crc_row2 @ crc_row3 @ crc_row4 @ crc_row5 @ crc_row6 @ crc_row7 @ crc_row8 @ crc_row9 @ crc_row10"
  have "CRC32_TABLE = ?rows @ replicate 76 0" by (simp add: CRC32_TABLE_def)
  then have "CRC32_TABLE ! i = replicate 76 0 ! (i - 180)"
    using i(1) length_crc_rows by (metis not_less nth_append)
  then show ?thesis using i by simp
qed

lemma low_byte: "unat ((c XOR ucast (ucast c XOR (x :: u8))) AND 0xFF :: u32) = unat x"
proof -
  have "(c XOR ucast (ucast c XOR x)) AND 0xFF = (ucast x :: u32)"
    unfolding FF_mask by (rule bit_word_eqI) (auto simp: bit_simps dest: bit_imp_le_length)
  then show ?thesis by (simp add: unsigned_ucast_eq take_bit_nat_eq_self_iff unat_u8_less less_trans [OF unat_u8_less])
qed

text \<open>
  the store's checksum does not see every error in a single byte. Whatever the data, its last
  byte can take 76 values that all give the same checksum, because the table in the code ends
  after 180 of its 256 values: any two bytes with a zero entry are interchangeable.
\<close>

theorem crc32_blind_spot:
  "\<exists>crc. 76 \<le> card {b. crc32 (data @ [b]) = crc}"
proof -
  let ?c = "foldl crc32_step 0xFFFFFFFF data"
  let ?f = "\<lambda>i. ucast ?c XOR (word_of_nat i :: u8)"
  let ?B = "?f ` {180..<256}"
  have inj: "inj_on ?f {180..<256}"
  proof (rule inj_onI)
    fix i j :: nat assume ij: "i \<in> {180..<256}" "j \<in> {180..<256}" "?f i = ?f j"
    have "(word_of_nat i :: u8) = word_of_nat j" using arg_cong [OF ij(3), of "\<lambda>x. ucast ?c XOR x"] by (simp add: xor.assoc [symmetric])
    then have "unat (word_of_nat i :: u8) = unat (word_of_nat j :: u8)" by simp
    then show "i = j" using ij(1,2) by (simp add: unat_word_of_nat_u8)
  qed
  have "crc32 (data @ [?f i]) = drop_bit 8 ?c XOR 0xFFFFFFFF" if "i \<in> {180..<256}" for i
  proof -
    have "unat ((?c XOR ucast (?f i)) AND 0xFF :: u32) = i"
      using that unfolding low_byte by (simp add: unat_word_of_nat_u8)
    then show ?thesis using that by (simp add: crc32_def crc32_step_def [of ?c] crc_table_tail)
  qed
  then have "?B \<subseteq> {b. crc32 (data @ [b]) = drop_bit 8 ?c XOR 0xFFFFFFFF}" by blast
  then have "card ?B \<le> card {b. crc32 (data @ [b]) = drop_bit 8 ?c XOR 0xFFFFFFFF}" by (intro card_mono) simp_all
  moreover have "card ?B = 76" using card_image [OF inj] by simp
  ultimately show ?thesis by (intro exI) (rule order_trans [OF eq_imp_le [OF sym]])
qed

section \<open>Saving and loading\<close>

lemma length_mem_bytes [simp]: "length (mem_bytes n v) = n"
  by (simp add: mem_bytes_def)

lemma mem_round:
  "LENGTH('a::len) \<le> 8 * n \<Longrightarrow> mem_word (mem_bytes n v) = (v :: 'a word)"
  by (simp add: mem_word_def mem_bytes_def)

lemma length_stored_peer [simp]: "length (stored_peer dbl p) = STORED_SIZE"
  by (simp add: stored_peer_def STORED_SIZE_def Let_def)

text \<open>The fields of a record lie where the loader reads them.\<close>

lemma take_field: "length a = k \<Longrightarrow> length f = n \<Longrightarrow> take n (drop k (a @ f @ r)) = f"
  by simp

lemma stored_fields:
  fixes dbl p
  defines "r \<equiv> stored_peer dbl p" and "a \<equiv> take 254 (str_bytes (pi_address p))"
  shows "r ! 0 = word_of_nat (length a)" "take (length a) (drop 1 r) = a"
    "take 2 (drop 256 r) = mem_bytes 2 (pi_port p)" "take 8 (drop 258 r) = mem_bytes 8 (dbl (pi_score p))"
    "take 8 (drop 266 r) = mem_bytes 8 (pi_connectedAt p)" "take 8 (drop 274 r) = mem_bytes 8 (pi_lastSeenAt p)"
    "take 8 (drop 282 r) = mem_bytes 8 (pi_banExpiresAt p)" "take 4 (drop 290 r) = mem_bytes 4 (pi_banCount p)"
    "take 4 (drop 294 r) = mem_bytes 4 (pi_decodeErrorCount p)" "r ! 298 = flag (pi_isBanned p)"
  by (simp_all add: r_def stored_peer_def a_def Let_def nth_append nth_Cons' min_def) arith

text \<open>A peer as it comes back: what is not stored has its default.\<close>

definition reloaded :: "peer_info \<Rightarrow> peer_info" where
  "reloaded p =
     (let address = take 254 (pi_address p)
      in default_info\<lparr>pi_address := address, pi_port := pi_port p, pi_id := pm_peerKey address (pi_port p),
           pi_score := clamp_100 (pi_score p), pi_connectedAt := pi_connectedAt p, pi_lastSeenAt := pi_lastSeenAt p,
           pi_banExpiresAt := pi_banExpiresAt p, pi_banCount := pi_banCount p,
           pi_decodeErrorCount := pi_decodeErrorCount p, pi_isBanned := pi_isBanned p\<rparr>)"

definition comes_back :: "u64 \<Rightarrow> peer_info \<Rightarrow> bool" where
  "comes_back now p \<longleftrightarrow> \<not> (pi_isBanned p \<and> pi_banExpiresAt p \<le> now)"

lemma take_str_bytes: "take n (str_bytes s) = str_bytes (take n s)"
  by (simp add: str_bytes_def take_map)

lemma restored_stored:
  assumes "undbl (dbl (pi_score p)) = pi_score p"
  shows "restored_peer undbl now (stored_peer dbl p) = (if comes_back now p then Some (reloaded p) else None)"
proof -
  let ?a = "take 254 (str_bytes (pi_address p))"
  have "unat (word_of_nat (length ?a) :: u8) = length ?a" by (simp add: unat_word_of_nat_u8)
  then have a: "bytes_str (take (unat (stored_peer dbl p ! 0)) (drop 1 (stored_peer dbl p))) = take 254 (pi_address p)"
    unfolding stored_fields(1) by (simp only: stored_fields(2)) (simp add: take_str_bytes)
  have f: "flag b = 0 \<longleftrightarrow> \<not> b" for b by (simp add: flag_def)
  have m: "mem_word (mem_bytes 2 p') = p'" "mem_word (mem_bytes 8 w) = w" "mem_word (mem_bytes 4 v) = v"
    for p' :: u16 and w :: u64 and v :: u32
    by (simp_all add: mem_round)
  show ?thesis
    unfolding restored_peer_def Let_def a stored_fields(3-10) m
    by (simp only: f assms comes_back_def reloaded_def Let_def simp_thms de_Morgan_conj not_not) (simp add: default_info_def)
qed

lemma restored_payload:
  assumes "list_all (\<lambda>p. undbl (dbl (pi_score p)) = pi_score p) ps"
  shows "restored_peers undbl now (length ps) (concat (map (stored_peer dbl) ps)) = map reloaded (filter (comes_back now) ps)"
  using assms by (induction ps) (simp_all add: restored_stored)

lemma store_header_fields:
  "take 4 (store_header now n c @ r) = mem_bytes 4 STORE_MAGIC"
  "take 4 (drop 4 (store_header now n c @ r)) = mem_bytes 4 STORE_VERSION"
  "take 4 (drop 8 (store_header now n c @ r)) = mem_bytes 4 (word_of_nat n :: u32)"
  "take 4 (drop 20 (store_header now n c @ r)) = mem_bytes 4 c"
  "drop HEADER_SIZE (store_header now n c @ r) = r" "length (store_header now n c) = HEADER_SIZE"
  by (simp_all add: store_header_def HEADER_SIZE_def)

lemma length_payload: "length (concat (map (stored_peer dbl) ps)) = length ps * STORED_SIZE"
  by (induction ps) simp_all

lemma store_read_back:
  assumes "length ps < 2 ^ 32" and "list_all (\<lambda>p. undbl (dbl (pi_score p)) = pi_score p) ps"
  shows "read_store undbl now (store_file dbl saved ps) = Some (map reloaded (filter (comes_back now) ps))"
proof -
  let ?pay = "concat (map (stored_peer dbl) ps)"
  have f: "store_file dbl saved ps = store_header saved (length ps) (if ?pay = [] then 0 else crc32 ?pay) @ ?pay"
    by (simp only: store_file_def Let_def)
  have m: "mem_word (mem_bytes 4 v) = v" for v :: u32 by (simp add: mem_round)
  have n: "unat (mem_word (take 4 (drop 8 (store_file dbl saved ps))) :: u32) = length ps"
    unfolding f store_header_fields m using assms(1) by (simp add: unat_of_nat take_bit_nat_eq_self_iff)
  have v: "mem_word (take 4 (drop 4 (store_file dbl saved ps))) = STORE_VERSION"
    "mem_word (take 4 (store_file dbl saved ps)) = STORE_MAGIC"
    "mem_word (take 4 (drop 20 (store_file dbl saved ps))) = (if ?pay = [] then 0 else crc32 ?pay)"
    unfolding f store_header_fields m by (rule refl)+
  have l: "\<not> length (store_file dbl saved ps) < HEADER_SIZE" "drop HEADER_SIZE (store_file dbl saved ps) = ?pay"
    unfolding f store_header_fields length_append by simp_all
  show ?thesis
    unfolding read_store_def Let_def n v l using restored_payload [OF assms(2)]
    by (simp add: l length_payload)
qed

text \<open>the peer store is read back. A file written for fewer than \<open>2^32\<close> peers, whatever their
  fields, loads as those peers, in order, without the ones whose ban is over: address (its first
  254 characters), port, score, times and ban are as saved, and whether the handshake was done is
  forgotten.
\<close>

theorem peer_store_roundtrip:
  assumes "length ps < 2 ^ 32" and "list_all (\<lambda>p. undbl (dbl (pi_score p)) = pi_score p) ps"
  shows "read_store undbl now (store_file dbl saved ps) = Some (map reloaded (filter (comes_back now) ps))"
  by (rule store_read_back [OF assms])

lemma peer_store_roundtrip_witness:
  "read_store (\<lambda>x. 50) 5 (store_file (\<lambda>s. 7) 3 [default_info\<lparr>pi_address := ''a'', pi_score := 50\<rparr>]) =
     Some [default_info\<lparr>pi_id := ''a:0'', pi_address := ''a'', pi_score := 50\<rparr>]"
  using peer_store_roundtrip [of "[default_info\<lparr>pi_address := ''a'', pi_score := 50\<rparr>]" "\<lambda>x. 50" "\<lambda>s. 7" 5 3]
  by (simp add: comes_back_def reloaded_def default_info_def clamp_100_def pm_peerKey_def show_base.simps [of 10 0] Let_def)

end
