(* ===== verification/PeerManager.thy ===== *)
theory PeerManager
  imports PeerStore Shards NetSocket
begin

text \<open>
  The peer manager (\<^verbatim>\<open>src/include/net/peer_manager.h\<close>, \<^verbatim>\<open>src/src/net/peer_manager.cpp\<close>):
  the sharded table of peers with its limits, scores and bans, the handshake, the two-bucket
  deduplication of messages, and the store on disk. One method call is one step; the
  clock is an argument that stays the same during a call. Scores are rational numbers and
  the token buckets natural numbers, as in \<open>NetPeers\<close>. The bounded log queue and the background
  pool, which nothing posts to, are not modelled.
\<close>

section \<open>State\<close>

record pm_config =
  pc_peerMapShards :: nat
  pc_adaptiveSharding :: bool
  pc_maxPeers :: nat
  pc_peerTimeoutSecs :: u64
  pc_banDurationSecs :: u64
  pc_maxMsgPerSecPerPeer :: u32
  pc_maxBytesPerSecPerPeer :: u64
  pc_tokenBucketBurstMsg :: u32
  pc_tokenBucketBurstBytes :: u64
  pc_maxDecodeErrorsBeforeBan :: u32
  pc_maxBanCount :: u32
  pc_protocolVersion :: u32
  pc_minPeerVersion :: u32
  pc_maxPeerVersion :: u32
  pc_networkMagic :: string
  pc_nodeId :: string
  pc_peerStorePath :: string
  pc_incrementalSave :: bool
  pc_persistenceIntervalSec :: u64
  pc_cleanupIntervalSec :: u64
  pc_metricsIntervalSec :: u64
  pc_metricsExportPath :: string

definition default_pm_config :: pm_config where
  "default_pm_config =
     \<lparr>pc_peerMapShards = 64, pc_adaptiveSharding = True, pc_maxPeers = 1000, pc_peerTimeoutSecs = 120,
      pc_banDurationSecs = 3600, pc_maxMsgPerSecPerPeer = 200, pc_maxBytesPerSecPerPeer = 10485760,
      pc_tokenBucketBurstMsg = 400, pc_tokenBucketBurstBytes = 20971520, pc_maxDecodeErrorsBeforeBan = 10,
      pc_maxBanCount = 1000, pc_protocolVersion = 1, pc_minPeerVersion = 1, pc_maxPeerVersion = 1,
      pc_networkMagic = ''MEDOR'', pc_nodeId = [], pc_peerStorePath = ''data/peers.dat'', pc_incrementalSave = True,
      pc_persistenceIntervalSec = 30, pc_cleanupIntervalSec = 600, pc_metricsIntervalSec = 60,
      pc_metricsExportPath = []\<rparr>"

datatype pm_counter =
    PmActive | PmConnected | PmEvictedTotal | PmBans | PmAutoBans | PmRateLimited | PmByteLimited | PmDecodeErrors
  | PmHandshakeFailed | PmHandshakeSuccess | PmReplays | PmEvicted | PmGrowths | PmSaves | PmLoads | PmIncrementalSaves

datatype pm_event = OnConnected peer_info | OnDisconnected string string | OnScored string rat

record peer_manager =
  pm_cfg :: pm_config
  pm_shards :: "peer_info shards"
  pm_counts :: "pm_counter \<Rightarrow> u64"
  pm_seenActive :: "string set"
  pm_seenStale :: "string set"
  pm_dirtyIds :: "string set"
  pm_maxMsgPerSec :: u32
  pm_maxBytesPerSec :: u64
  pm_maxDecodeErrBan :: u32
  pm_maxPeers :: nat
  pm_events :: "pm_event list"

definition PeerManager :: "pm_config \<Rightarrow> peer_manager" where
  "PeerManager cfg =
     \<lparr>pm_cfg = cfg, pm_shards = new_shards (pc_peerMapShards cfg), pm_counts = (\<lambda>c. 0), pm_seenActive = {},
      pm_seenStale = {}, pm_dirtyIds = {}, pm_maxMsgPerSec = pc_maxMsgPerSecPerPeer cfg,
      pm_maxBytesPerSec = pc_maxBytesPerSecPerPeer cfg, pm_maxDecodeErrBan = pc_maxDecodeErrorsBeforeBan cfg,
      pm_maxPeers = pc_maxPeers cfg, pm_events = []\<rparr>"

definition pm_add :: "pm_counter \<Rightarrow> u64 \<Rightarrow> peer_manager \<Rightarrow> peer_manager" where
  "pm_add c n m = m\<lparr>pm_counts := (pm_counts m)(c := pm_counts m c + n)\<rparr>"

definition pm_emit :: "pm_event \<Rightarrow> peer_manager \<Rightarrow> peer_manager" where
  "pm_emit e m = m\<lparr>pm_events := pm_events m @ [e]\<rparr>"

definition pm_on_shards :: "(peer_info shards \<Rightarrow> peer_info shards) \<Rightarrow> peer_manager \<Rightarrow> peer_manager" where
  "pm_on_shards f m = m\<lparr>pm_shards := f (pm_shards m)\<rparr>"

definition markDirty :: "string \<Rightarrow> peer_manager \<Rightarrow> peer_manager" where
  "markDirty i m = m\<lparr>pm_dirtyIds := insert i (pm_dirtyIds m)\<rparr>"

definition pm_reloadConfig :: "pm_config \<Rightarrow> peer_manager \<Rightarrow> peer_manager" where
  "pm_reloadConfig cfg m =
     m\<lparr>pm_cfg := cfg, pm_maxMsgPerSec := pc_maxMsgPerSecPerPeer cfg, pm_maxBytesPerSec := pc_maxBytesPerSecPerPeer cfg,
       pm_maxDecodeErrBan := pc_maxDecodeErrorsBeforeBan cfg, pm_maxPeers := pc_maxPeers cfg\<rparr>"

section \<open>Queries\<close>

definition pm_getPeer :: "(string \<Rightarrow> u64) \<Rightarrow> string \<Rightarrow> peer_manager \<Rightarrow> peer_info option" where
  "pm_getPeer hash i m = sh_find hash i (pm_shards m)"

definition pm_hasPeer :: "(string \<Rightarrow> u64) \<Rightarrow> string \<Rightarrow> peer_manager \<Rightarrow> bool" where
  "pm_hasPeer hash i m \<longleftrightarrow> pm_getPeer hash i m \<noteq> None"

definition pm_isBanned :: "(string \<Rightarrow> u64) \<Rightarrow> u64 \<Rightarrow> string \<Rightarrow> peer_manager \<Rightarrow> bool" where
  "pm_isBanned hash now i m \<longleftrightarrow>
     (case pm_getPeer hash i m of None \<Rightarrow> False | Some p \<Rightarrow> pi_isBanned p \<and> now < pi_banExpiresAt p)"

definition pm_getAllPeers :: "peer_manager \<Rightarrow> peer_info list" where
  "pm_getAllPeers m = map snd (sh_entries (pm_shards m))"

definition pm_getActivePeers :: "peer_manager \<Rightarrow> peer_info list" where
  "pm_getActivePeers m = filter (\<lambda>p. \<not> pi_isBanned p \<and> pi_isReachable p \<and> pi_handshakeDone p) (pm_getAllPeers m)"

definition pm_peerCount :: "peer_manager \<Rightarrow> nat" where
  "pm_peerCount m = sh_size (pm_shards m)"

section \<open>The table\<close>

definition pm_maybeGrowShards :: "(string \<Rightarrow> u64) \<Rightarrow> peer_manager \<Rightarrow> peer_manager" where
  "pm_maybeGrowShards hash m =
     (let current = sh_count (pm_shards m); total = sh_size (pm_shards m); n = min (current * 2) 1024
      in if total \<le> current * 8 then m
         else if n = current then m
         else pm_add PmGrowths 1 (pm_on_shards (sh_grow hash (\<lambda>k p. k) n) m))"

definition pm_addPeer :: "(string \<Rightarrow> u64) \<Rightarrow> u64 \<Rightarrow> peer_info \<Rightarrow> peer_manager \<Rightarrow> bool \<times> peer_manager" where
  "pm_addPeer hash now info m =
     (if pi_id info = [] \<or> pi_address info = [] then (False, m)
      else if pm_peerCount m \<ge> pm_maxPeers m then (False, m)
      else if pm_hasPeer hash (pi_id info) m then (False, m)
      else
        let copy = info\<lparr>pi_tokenMsgBucket := unat (pc_tokenBucketBurstMsg (pm_cfg m)),
              pi_tokenByteBucket := unat (pc_tokenBucketBurstBytes (pm_cfg m)),
              pi_tokenLastRefill := now, pi_dirty := True\<rparr>;
            m = pm_on_shards (sh_emplace hash (pi_id info) copy) m;
            m = pm_add PmActive 1 m;
            m = pm_add PmConnected 1 m;
            m = markDirty (pi_id info) m;
            m = (if pc_adaptiveSharding (pm_cfg m) then pm_maybeGrowShards hash m else m)
        in (True, pm_emit (OnConnected info) m))"

definition pm_removePeer :: "(string \<Rightarrow> u64) \<Rightarrow> string \<Rightarrow> peer_manager \<Rightarrow> bool \<times> peer_manager" where
  "pm_removePeer hash i m =
     (if \<not> pm_hasPeer hash i m then (False, m)
      else
        let m = pm_on_shards (sh_erase hash i) m;
            m = pm_add PmActive (- 1) m
        in (True, pm_emit (OnDisconnected i ''removed'') m))"

definition pm_ban :: "u64 \<Rightarrow> peer_manager \<Rightarrow> peer_info \<Rightarrow> peer_info" where
  "pm_ban now m p =
     p\<lparr>pi_isBanned := True, pi_banExpiresAt := now + pc_banDurationSecs (pm_cfg m),
       pi_banCount := (if pi_banCount p < pc_maxBanCount (pm_cfg m) then pi_banCount p + 1 else pi_banCount p),
       pi_dirty := True\<rparr>"

definition pm_update :: "(string \<Rightarrow> u64) \<Rightarrow> string \<Rightarrow> peer_info \<Rightarrow> peer_manager \<Rightarrow> peer_manager" where
  "pm_update hash i p m = pm_on_shards (sh_update hash i (\<lambda>q. p)) m"

definition pm_banPeer :: "(string \<Rightarrow> u64) \<Rightarrow> u64 \<Rightarrow> string \<Rightarrow> peer_manager \<Rightarrow> bool \<times> peer_manager" where
  "pm_banPeer hash now i m =
     (case pm_getPeer hash i m of
        None \<Rightarrow> (False, m)
      | Some p \<Rightarrow> (True, pm_add PmBans 1 (pm_update hash i (pm_ban now m p) m)))"

definition pm_applyScore :: "(string \<Rightarrow> u64) \<Rightarrow> u64 \<Rightarrow> string \<Rightarrow> rat \<Rightarrow> peer_manager \<Rightarrow> peer_manager" where
  "pm_applyScore hash now i delta m =
     (case pm_getPeer hash i m of
        None \<Rightarrow> m
      | Some p \<Rightarrow>
          let newScore = clamp_100 (pi_score p + delta);
              p = p\<lparr>pi_score := newScore\<rparr>;
              autoBan = (newScore \<le> 0 \<and> \<not> pi_isBanned p);
              m = pm_update hash i (if autoBan then pm_ban now m p else p) m;
              m = pm_emit (OnScored i newScore) m
          in if autoBan then pm_add PmBans 1 m else m)"

definition pm_penalizePeer :: "(string \<Rightarrow> u64) \<Rightarrow> u64 \<Rightarrow> string \<Rightarrow> rat \<Rightarrow> peer_manager \<Rightarrow> peer_manager" where
  "pm_penalizePeer hash now i penalty m = pm_applyScore hash now i (- \<bar>penalty\<bar>) m"

definition pm_rewardPeer :: "(string \<Rightarrow> u64) \<Rightarrow> u64 \<Rightarrow> string \<Rightarrow> rat \<Rightarrow> peer_manager \<Rightarrow> peer_manager" where
  "pm_rewardPeer hash now i reward m = pm_applyScore hash now i \<bar>reward\<bar> m"

definition pm_recordDecodeError :: "(string \<Rightarrow> u64) \<Rightarrow> u64 \<Rightarrow> string \<Rightarrow> peer_manager \<Rightarrow> peer_manager" where
  "pm_recordDecodeError hash now i m =
     (case pm_getPeer hash i m of
        None \<Rightarrow> m
      | Some p \<Rightarrow>
          let p = p\<lparr>pi_decodeErrorCount := pi_decodeErrorCount p + 1\<rparr>;
              autoBan = (pi_decodeErrorCount p \<ge> pm_maxDecodeErrBan m \<and> \<not> pi_isBanned p);
              m = pm_update hash i (if autoBan then pm_ban now m p else p) m;
              m = pm_add PmDecodeErrors 1 m
          in if autoBan then pm_add PmAutoBans 1 (pm_add PmBans 1 m) else m)"

definition pm_refillBucket :: "peer_manager \<Rightarrow> u64 \<Rightarrow> peer_info \<Rightarrow> peer_info" where
  "pm_refillBucket m nowSec p =
     (if pi_tokenLastRefill p = nowSec then p
      else
        let elapsed = unat (nowSec - pi_tokenLastRefill p)
        in p\<lparr>pi_tokenLastRefill := nowSec,
             pi_tokenMsgBucket := min (pi_tokenMsgBucket p + elapsed * unat (pm_maxMsgPerSec m))
               (unat (pc_tokenBucketBurstMsg (pm_cfg m))),
             pi_tokenByteBucket := min (pi_tokenByteBucket p + elapsed * unat (pm_maxBytesPerSec m))
               (unat (pc_tokenBucketBurstBytes (pm_cfg m)))\<rparr>)"

definition pm_checkRateLimit ::
    "(string \<Rightarrow> u64) \<Rightarrow> u64 \<Rightarrow> string \<Rightarrow> nat \<Rightarrow> peer_manager \<Rightarrow> bool \<times> peer_manager" where
  "pm_checkRateLimit hash now i msgBytes m =
     (case pm_getPeer hash i m of
        None \<Rightarrow> (False, m)
      | Some p \<Rightarrow>
          let p = pm_refillBucket m now p
          in if pi_tokenMsgBucket p < 1 then (False, pm_add PmRateLimited 1 (pm_update hash i p m))
             else if pi_tokenByteBucket p < msgBytes then (False, pm_add PmByteLimited 1 (pm_update hash i p m))
             else (True, pm_update hash i
                    (p\<lparr>pi_tokenMsgBucket := pi_tokenMsgBucket p - 1, pi_tokenByteBucket := pi_tokenByteBucket p - msgBytes,
                       pi_msgThisSecond := pi_msgThisSecond p + 1,
                       pi_byteThisSecond := pi_byteThisSecond p + word_of_nat msgBytes\<rparr>) m))"

section \<open>Deduplication\<close>

definition SEEN_MAX :: nat where "SEEN_MAX = 500000"

definition markSeen :: "string \<Rightarrow> peer_manager \<Rightarrow> bool \<times> peer_manager" where
  "markSeen msgId m =
     (if msgId \<in> pm_seenStale m \<or> msgId \<in> pm_seenActive m then (False, pm_add PmReplays 1 m)
      else
        let active = insert msgId (pm_seenActive m)
        in (True, if card active \<ge> SEEN_MAX div 2 then m\<lparr>pm_seenStale := active, pm_seenActive := {}\<rparr>
                  else m\<lparr>pm_seenActive := active\<rparr>))"

definition cleanupSeenMessages :: "peer_manager \<Rightarrow> peer_manager" where
  "cleanupSeenMessages m = m\<lparr>pm_seenActive := {}, pm_seenStale := {}\<rparr>"

section \<open>Maintenance\<close>

definition pm_evictStalePeers :: "(string \<Rightarrow> u64) \<Rightarrow> u64 \<Rightarrow> peer_manager \<Rightarrow> peer_manager" where
  "pm_evictStalePeers hash now m =
     (let cutoff = now - pc_peerTimeoutSecs (pm_cfg m);
          toEvict = map fst (filter (\<lambda>(i, p). \<not> pi_isBanned p \<and> pi_lastSeenAt p > 0 \<and> pi_lastSeenAt p < cutoff)
            (sh_entries (pm_shards m)))
      in foldl (\<lambda>m i. pm_add PmEvicted 1 (snd (pm_removePeer hash i m))) m toEvict)"

definition pm_evictLowScorePeers :: "(string \<Rightarrow> u64) \<Rightarrow> u64 \<Rightarrow> peer_manager \<Rightarrow> peer_manager" where
  "pm_evictLowScorePeers hash now m =
     (let toBan = map fst (filter (\<lambda>(i, p). pi_score p \<le> 0 \<and> \<not> pi_isBanned p) (sh_entries (pm_shards m)))
      in foldl (\<lambda>m i. snd (pm_banPeer hash now i m)) m toBan)"

definition pm_lift_ban :: "u64 \<Rightarrow> peer_info \<Rightarrow> peer_info" where
  "pm_lift_ban now p =
     (if pi_isBanned p \<and> now \<ge> pi_banExpiresAt p then p\<lparr>pi_isBanned := False, pi_score := 10, pi_dirty := True\<rparr> else p)"

definition pm_unbanExpiredPeers :: "u64 \<Rightarrow> peer_manager \<Rightarrow> peer_manager" where
  "pm_unbanExpiredPeers now m =
     (let unbanned = map (\<lambda>(i, p). pm_lift_ban now p)
            (filter (\<lambda>(i, p). pi_isBanned p \<and> now \<ge> pi_banExpiresAt p) (sh_entries (pm_shards m)));
          m = pm_on_shards (sh_mapi (\<lambda>i. pm_lift_ban now)) m
      in foldl (\<lambda>m p. pm_emit (OnConnected p) (markDirty (pi_id p) m)) m unbanned)"

section \<open>Persistence\<close>

definition to_save :: "peer_manager \<Rightarrow> peer_info list" where
  "to_save m =
     (if pc_incrementalSave (pm_cfg m)
      then map snd (filter (\<lambda>(i, p). i \<in> pm_dirtyIds m) (sh_entries (pm_shards m)))
      else pm_getAllPeers m)"

definition pm_savePeers ::
    "(rat \<Rightarrow> u64) \<Rightarrow> u64 \<Rightarrow> (string \<Rightarrow> bytes option) \<Rightarrow> peer_manager \<Rightarrow> (string \<Rightarrow> bytes option) \<times> peer_manager" where
  "pm_savePeers dbl now store m =
     (let path = pc_peerStorePath (pm_cfg m) in
      if path = [] then (store, m)
      else
        let toSave = to_save m;
            m = (if pc_incrementalSave (pm_cfg m) then pm_add PmIncrementalSaves 1 (m\<lparr>pm_dirtyIds := {}\<rparr>) else m)
        in ((store(path @ ''.tmp'' := None))(path \<mapsto> store_file dbl now toSave), pm_add PmSaves 1 m))"

definition pm_loadPeers ::
    "(string \<Rightarrow> u64) \<Rightarrow> (u64 \<Rightarrow> rat) \<Rightarrow> u64 \<Rightarrow> (string \<Rightarrow> bytes option) \<Rightarrow> peer_manager \<Rightarrow> peer_manager" where
  "pm_loadPeers hash undbl now store m =
     (let path = pc_peerStorePath (pm_cfg m) in
      if path = [] then m
      else
        case store path of
          None \<Rightarrow> m
        | Some f \<Rightarrow>
            (case read_store undbl now f of
               None \<Rightarrow> m
             | Some ps \<Rightarrow> pm_add PmLoads 1 (foldl (\<lambda>m p. snd (pm_addPeer hash now p m)) m ps)))"

section \<open>Handshake\<close>

text \<open>
  The socket of a handshake: whether each \<^verbatim>\<open>poll\<close> finds it ready in time (the list, ready when it
  is used up), and the connection. A send or receive that moves no byte ends the handshake.
\<close>

record hs_socket =
  hs_polls :: "bool list"
  hs_conn :: conn

datatype hs_result = HsOk | HsTimeout | HsError

definition pollWait :: "hs_socket \<Rightarrow> bool \<times> hs_socket" where
  "pollWait h = (case hs_polls h of [] \<Rightarrow> (True, h) | ready # ps \<Rightarrow> (ready, h\<lparr>hs_polls := ps\<rparr>))"

function hs_send :: "bytes \<Rightarrow> hs_socket \<Rightarrow> hs_result \<times> hs_socket" where
  "hs_send remaining h =
     (if remaining = [] then (HsOk, h)
      else
        let (ready, h) = pollWait h in
        if \<not> ready then (HsTimeout, h)
        else
          let (r, c) = sys_send remaining (hs_conn h); h = h\<lparr>hs_conn := c\<rparr> in
          case r of
            Got sent \<Rightarrow> if sent = [] then (HsError, h) else hs_send (drop (length sent) remaining) h
          | _ \<Rightarrow> (HsError, h))"
  by pat_completeness auto
termination
  by (relation "measure (\<lambda>(r, h). length r)") auto

declare hs_send.simps [simp del]

text \<open>Receiving until \<open>goal\<close> bytes are there.\<close>

function hs_recv :: "nat \<Rightarrow> bytes \<Rightarrow> hs_socket \<Rightarrow> hs_result \<times> bytes \<times> hs_socket" where
  "hs_recv goal got h =
     (if length got \<ge> goal then (HsOk, got, h)
      else
        let (ready, h) = pollWait h in
        if \<not> ready then (HsTimeout, got, h)
        else
          let (r, c) = sys_recv (goal - length got) (hs_conn h); h = h\<lparr>hs_conn := c\<rparr> in
          case r of
            Got bs \<Rightarrow> if bs = [] then (HsError, got, h) else hs_recv goal (got @ bs) h
          | _ \<Rightarrow> (HsError, got, h))"
  by pat_completeness auto
termination
  by (relation "measure (\<lambda>(g, s, h). g - length s)") (auto intro!: diff_less_mono2 simp: not_le)

declare hs_recv.simps [simp del]

definition magic_byte :: "string \<Rightarrow> nat \<Rightarrow> u8" where
  "magic_byte magic i = (if i < length magic then byte_of_char (magic ! i) else 0)"

definition handshake_packet :: "pm_config \<Rightarrow> bytes" where
  "handshake_packet cfg =
     map (magic_byte (pc_networkMagic cfg)) [0..<4] @ be_bytes4 (pc_protocolVersion cfg)
     @ [word_of_nat (min (length (pc_nodeId cfg)) 255)]
     @ str_bytes (take (min (length (pc_nodeId cfg)) 255) (pc_nodeId cfg))"

definition greeted :: "u64 \<Rightarrow> u32 \<Rightarrow> peer_info \<Rightarrow> peer_info" where
  "greeted now ver p =
     p\<lparr>pi_handshakeDone := True, pi_version := ver, pi_lastSeenAt := now, pi_score := min (pi_score p + 5) 100,
       pi_dirty := True\<rparr>"

definition doHandshake ::
    "(string \<Rightarrow> u64) \<Rightarrow> u64 \<Rightarrow> string \<Rightarrow> hs_socket \<Rightarrow> peer_manager \<Rightarrow> bool \<times> peer_manager" where
  "doHandshake hash now peerId h m =
     (let cfg = pm_cfg m; failed = (\<lambda>m. (False, pm_add PmHandshakeFailed 1 m));
          penalized = (\<lambda>x m. pm_penalizePeer hash now peerId x m)
      in case hs_send (handshake_packet cfg) h of
           (HsTimeout, h) \<Rightarrow> failed (penalized 10 m)
         | (HsError, h) \<Rightarrow> failed m
         | (HsOk, h) \<Rightarrow>
             (case hs_recv 9 [] h of
                (HsTimeout, hdr, h) \<Rightarrow> failed (penalized 10 m)
              | (HsError, hdr, h) \<Rightarrow> failed m
              | (HsOk, hdr, h) \<Rightarrow>
                  if \<not> list_all (\<lambda>i. hdr ! i = magic_byte (pc_networkMagic cfg) i) [0..<4]
                  then failed (snd (pm_banPeer hash now peerId m))
                  else
                    let peerVer = be_word4 (hdr ! 4) (hdr ! 5) (hdr ! 6) (hdr ! 7) in
                    if peerVer < pc_minPeerVersion cfg \<or> peerVer > pc_maxPeerVersion cfg then failed (penalized 20 m)
                    else if hdr ! 8 = 0 then failed (penalized 10 m)
                    else
                      case hs_recv (unat (hdr ! 8)) [] h of
                        (HsOk, nodeId, h) \<Rightarrow>
                          (case pm_getPeer hash peerId m of
                             None \<Rightarrow> (False, m)
                           | Some p \<Rightarrow>
                               (True, pm_add PmHandshakeSuccess 1
                                        (markDirty peerId (pm_update hash peerId (greeted now peerVer p) m))))
                      | _ \<Rightarrow> failed m))"

section \<open>The timer\<close>

definition MAX_CONSECUTIVE_FAILURES :: u32 where "MAX_CONSECUTIVE_FAILURES = 5"
definition SUSPEND_SECS :: u64 where "SUSPEND_SECS = 300"

record task_state =
  ts_failures :: u32
  ts_suspendUntil :: u64

text \<open>One task of the timer on a state: the task returns its new state, or throws (\<open>None\<close>).\<close>

definition runTask :: "u64 \<Rightarrow> ('s \<Rightarrow> 's option) \<Rightarrow> task_state \<times> 's \<Rightarrow> task_state \<times> 's" where
  "runTask now fn ts =
     (if ts_suspendUntil (fst ts) > 0 \<and> now < ts_suspendUntil (fst ts) then ts
      else
        case fn (snd ts) of
          Some s \<Rightarrow> (\<lparr>ts_failures = 0, ts_suspendUntil = 0\<rparr>, s)
        | None \<Rightarrow>
            let f = ts_failures (fst ts) + 1
            in (\<lparr>ts_failures = f,
                 ts_suspendUntil = (if f \<ge> MAX_CONSECUTIVE_FAILURES then now + SUSPEND_SECS else ts_suspendUntil (fst ts))\<rparr>,
                snd ts))"

definition pm_cleanup :: "(string \<Rightarrow> u64) \<Rightarrow> u64 \<Rightarrow> peer_manager \<Rightarrow> peer_manager" where
  "pm_cleanup hash now m =
     (let m = pm_evictStalePeers hash now m;
          m = pm_evictLowScorePeers hash now m;
          m = pm_unbanExpiredPeers now m;
          m = cleanupSeenMessages m
      in if pc_adaptiveSharding (pm_cfg m) then pm_maybeGrowShards hash m else m)"

record pm_timer =
  tm_lastPersist :: u64
  tm_lastCleanup :: u64
  tm_persist :: task_state
  tm_cleanup :: task_state

text \<open>
  One round of the timer loop, without the metrics export, which changes nothing. The tasks
  themselves are \<^verbatim>\<open>noexcept\<close>: none of them throws.
\<close>

definition timer_round ::
    "(string \<Rightarrow> u64) \<Rightarrow> (rat \<Rightarrow> u64) \<Rightarrow> u64 \<Rightarrow> pm_timer \<times> (string \<Rightarrow> bytes option) \<times> peer_manager \<Rightarrow>
     pm_timer \<times> (string \<Rightarrow> bytes option) \<times> peer_manager" where
  "timer_round hash dbl now t =
     (let (tm, store, m) = t; cfg = pm_cfg m;
          (tm, store, m) =
            (if now - tm_lastPersist tm \<ge> pc_persistenceIntervalSec cfg then
               let (ts, store, m) = runTask now (\<lambda>(store, m). Some (pm_savePeers dbl now store m)) (tm_persist tm, store, m)
               in (tm\<lparr>tm_lastPersist := now, tm_persist := ts\<rparr>, store, m)
             else (tm, store, m))
      in if now - tm_lastCleanup tm \<ge> pc_cleanupIntervalSec cfg then
           let (ts, m) = runTask now (\<lambda>m. Some (pm_cleanup hash now m)) (tm_cleanup tm, m)
           in (tm\<lparr>tm_lastCleanup := now, tm_cleanup := ts\<rparr>, store, m)
         else (tm, store, m))"

section \<open>Export\<close>

text \<open>The gauges and counters of \<^verbatim>\<open>exportMetrics\<close>; \<open>avg\<close> prints the average score.\<close>

definition export_values :: "(rat \<Rightarrow> string) \<Rightarrow> peer_manager \<Rightarrow> (string \<times> string \<times> string \<times> string) list" where
  "export_values avg m =
     (let ps = pm_getAllPeers m; total = length ps; n = (\<lambda>c. show_u64 (pm_counts m c))
      in [(''peers_total'', ''Total peers'', ''gauge'', show_nat total),
          (''peers_active'', ''Active peers'', ''gauge'', show_nat (length (pm_getActivePeers m))),
          (''peers_banned'', ''Banned peers'', ''gauge'', show_nat (length (filter pi_isBanned ps))),
          (''peer_score_avg'', ''Average peer score'', ''gauge'',
             avg (if total > 0 then sum_list (map pi_score ps) / rat_of_nat total else sum_list (map pi_score ps))),
          (''shard_count'', ''Shard count'', ''gauge'', show_nat (sh_count (pm_shards m))),
          (''ban_events_total'', ''Ban events'', ''counter'', n PmBans),
          (''rate_limit_events_total'', ''Rate limit hits'', ''counter'', n PmRateLimited),
          (''decode_errors_total'', ''Decode errors'', ''counter'', n PmDecodeErrors),
          (''handshake_success_total'', ''Handshake OK'', ''counter'', n PmHandshakeSuccess),
          (''handshake_failed_total'', ''Handshake failed'', ''counter'', n PmHandshakeFailed),
          (''peers_evicted_total'', ''Evicted'', ''counter'', n PmEvicted),
          (''shard_growths_total'', ''Shard resizes'', ''counter'', n PmGrowths),
          (''save_count_total'', ''Saves'', ''counter'', n PmSaves),
          (''incremental_saves_total'', ''Incremental saves'', ''counter'', n PmIncrementalSaves),
          (''replay_rejected_total'', ''Replay rejected'', ''counter'', n PmReplays),
          (''qps_in_60s'', ''Msgs in per 60s'', ''gauge'', show_nat 0),
          (''qps_out_60s'', ''Msgs out per 60s'', ''gauge'', show_nat 0),
          (''bw_in_60s'', ''Bytes in per 60s'', ''gauge'', show_nat 0),
          (''bw_out_60s'', ''Bytes out per 60s'', ''gauge'', show_nat 0)])"

definition export_text :: "(rat \<Rightarrow> string) \<Rightarrow> peer_manager \<Rightarrow> string" where
  "export_text avg m =
     concat (map (\<lambda>(name, help, type, val).
       ''# HELP peermgr_'' @ name @ '' '' @ help @ [CHR 0x0A] @ ''# TYPE peermgr_'' @ name @ '' '' @ type @ [CHR 0x0A]
       @ ''peermgr_'' @ name @ '' '' @ val @ [CHR 0x0A]) (export_values avg m))"

section \<open>Runs\<close>

datatype pm_op =
    PmAddPeer u64 peer_info | PmRemovePeer string | PmBanPeer u64 string | PmPenalize u64 string rat
  | PmReward u64 string rat | PmDecodeError u64 string | PmRateCheck u64 string nat | PmSeen string
  | PmHandshake u64 string hs_socket | PmEvictStale u64 | PmEvictLowScore u64 | PmUnban u64 | PmForget | PmGrow
  | PmSetMaxPeers nat | PmSetRate u32 u64 | PmSetMaxDecodeErrors u32 | PmReload pm_config

definition pm_step :: "(string \<Rightarrow> u64) \<Rightarrow> pm_op \<Rightarrow> peer_manager \<Rightarrow> peer_manager" where
  "pm_step hash op m =
     (case op of
        PmAddPeer now p \<Rightarrow> snd (pm_addPeer hash now p m)
      | PmRemovePeer i \<Rightarrow> snd (pm_removePeer hash i m)
      | PmBanPeer now i \<Rightarrow> snd (pm_banPeer hash now i m)
      | PmPenalize now i x \<Rightarrow> pm_penalizePeer hash now i x m
      | PmReward now i x \<Rightarrow> pm_rewardPeer hash now i x m
      | PmDecodeError now i \<Rightarrow> pm_recordDecodeError hash now i m
      | PmRateCheck now i n \<Rightarrow> snd (pm_checkRateLimit hash now i n m)
      | PmSeen i \<Rightarrow> snd (markSeen i m)
      | PmHandshake now i h \<Rightarrow> snd (doHandshake hash now i h m)
      | PmEvictStale now \<Rightarrow> pm_evictStalePeers hash now m
      | PmEvictLowScore now \<Rightarrow> pm_evictLowScorePeers hash now m
      | PmUnban now \<Rightarrow> pm_unbanExpiredPeers now m
      | PmForget \<Rightarrow> cleanupSeenMessages m
      | PmGrow \<Rightarrow> pm_maybeGrowShards hash m
      | PmSetMaxPeers n \<Rightarrow> m\<lparr>pm_maxPeers := n\<rparr>
      | PmSetRate x y \<Rightarrow> m\<lparr>pm_maxMsgPerSec := x, pm_maxBytesPerSec := y\<rparr>
      | PmSetMaxDecodeErrors n \<Rightarrow> m\<lparr>pm_maxDecodeErrBan := n\<rparr>
      | PmReload cfg \<Rightarrow> pm_reloadConfig cfg m)"

definition pm_run :: "(string \<Rightarrow> u64) \<Rightarrow> pm_op list \<Rightarrow> peer_manager \<Rightarrow> peer_manager" where
  "pm_run hash ops m = foldl (\<lambda>m op. pm_step hash op m) m ops"

section \<open>Invariant\<close>

definition seen_ok :: "peer_manager \<Rightarrow> bool" where
  "seen_ok m \<longleftrightarrow> finite (pm_seenActive m) \<and> card (pm_seenActive m) < SEEN_MAX div 2 \<and>
     finite (pm_seenStale m) \<and> card (pm_seenStale m) \<le> SEEN_MAX div 2"

definition pm_wf :: "(string \<Rightarrow> u64) \<Rightarrow> peer_manager \<Rightarrow> bool" where
  "pm_wf hash m \<longleftrightarrow>
     sh_wf hash (pm_shards m) \<and>
     (\<forall>k p. pm_getPeer hash k m = Some p \<longrightarrow> pi_id p = k \<and> k \<noteq> [] \<and> pi_address p \<noteq> []) \<and>
     pm_counts m PmActive = word_of_nat (pm_peerCount m) \<and> seen_ok m"

lemma pm_off_table [simp]:
  "pm_shards (pm_add c n m) = pm_shards m" "pm_shards (pm_emit e m) = pm_shards m" "pm_shards (markDirty i m) = pm_shards m"
  "pm_cfg (pm_add c n m) = pm_cfg m" "pm_cfg (pm_emit e m) = pm_cfg m" "pm_cfg (markDirty i m) = pm_cfg m"
  "pm_counts (pm_emit e m) = pm_counts m" "pm_counts (markDirty i m) = pm_counts m"
  "pm_counts (pm_add c n m) d = (if d = c then pm_counts m c + n else pm_counts m d)"
  "pm_dirtyIds (pm_add c n m) = pm_dirtyIds m" "pm_dirtyIds (pm_emit e m) = pm_dirtyIds m"
  "seen_ok (pm_add c n m) = seen_ok m" "seen_ok (pm_emit e m) = seen_ok m" "seen_ok (markDirty i m) = seen_ok m"
  "pm_maxPeers (pm_add c n m) = pm_maxPeers m"
  by (simp_all add: pm_add_def pm_emit_def markDirty_def seen_ok_def)

lemma pm_on_shards_simps [simp]:
  "pm_shards (pm_on_shards f m) = f (pm_shards m)" "pm_counts (pm_on_shards f m) = pm_counts m"
  "pm_cfg (pm_on_shards f m) = pm_cfg m" "pm_dirtyIds (pm_on_shards f m) = pm_dirtyIds m"
  "seen_ok (pm_on_shards f m) = seen_ok m"
  by (simp_all add: pm_on_shards_def seen_ok_def)

text \<open>What the invariant reads.\<close>

lemma pm_wf_cong:
  "pm_wf hash m \<Longrightarrow> pm_shards m' = pm_shards m \<Longrightarrow> pm_counts m' PmActive = pm_counts m PmActive \<Longrightarrow> seen_ok m' \<Longrightarrow> pm_wf hash m'"
  by (simp add: pm_wf_def pm_getPeer_def pm_peerCount_def)

lemma pm_wf_ignores [simp]:
  "c \<noteq> PmActive \<Longrightarrow> pm_wf hash (pm_add c n m) \<longleftrightarrow> pm_wf hash m"
  "pm_wf hash (pm_emit e m) \<longleftrightarrow> pm_wf hash m" "pm_wf hash (markDirty i m) \<longleftrightarrow> pm_wf hash m"
  by (simp_all add: pm_wf_def pm_getPeer_def pm_peerCount_def)

lemma pm_wf_shards: "pm_wf hash m \<Longrightarrow> sh_wf hash (pm_shards m)"
  by (simp add: pm_wf_def)

lemma update_wf:
  assumes "pm_wf hash m" and "pm_getPeer hash i m = Some p" and "pi_id p' = pi_id p" and "pi_address p' = pi_address p"
  shows "pm_wf hash (pm_update hash i p' m)"
proof -
  note s = pm_wf_shards [OF assms(1)]
  have g: "pm_getPeer hash k (pm_update hash i p' m) = (if k = i then Some p' else pm_getPeer hash k m)" for k
    using shards.find_upd [OF s] assms(2) by (simp add: pm_getPeer_def pm_update_def)
  have c: "pm_peerCount (pm_update hash i p' m) = pm_peerCount m"
    using shards.size_upd [OF s] by (simp add: pm_peerCount_def pm_update_def sh_size_eq)
  have "sh_wf hash (pm_shards (pm_update hash i p' m))"
    using shards.wf_ops(2) [OF s] by (simp add: pm_update_def)
  then show ?thesis
    unfolding pm_wf_def c using assms g by (auto simp: pm_wf_def pm_update_def split: if_splits)
qed

lemma remove_wf: "pm_wf hash m \<Longrightarrow> pm_wf hash (snd (pm_removePeer hash i m))"
proof (cases "pm_hasPeer hash i m")
  case True
  assume wf: "pm_wf hash m"
  note s = pm_wf_shards [OF wf]
  let ?m = "pm_add PmActive (- 1) (pm_on_shards (sh_erase hash i) m)"
  have g: "pm_getPeer hash k ?m = (if k = i then None else pm_getPeer hash k m)" for k
    using shards.find_erase [OF s] by (simp add: pm_getPeer_def)
  have found: "sh_find hash i (pm_shards m) \<noteq> None" using True by (simp add: pm_hasPeer_def pm_getPeer_def)
  then have "sh_entries (pm_shards m) \<noteq> []" using shards.find_entries [OF s, of i] by auto
  then have n: "word_of_nat (length (sh_entries (pm_shards m)) - 1) = (word_of_nat (length (sh_entries (pm_shards m))) - 1 :: u64)"
    by (cases "sh_entries (pm_shards m)") simp_all
  have "pm_counts ?m PmActive = word_of_nat (pm_peerCount ?m)"
    using wf found n shards.size_erase [OF s, of i] by (simp add: pm_wf_def pm_peerCount_def sh_size_eq)
  then have "pm_wf hash ?m"
    using wf g shards.wf_ops(3) [OF s] unfolding pm_wf_def by (auto split: if_splits)
  then show ?thesis using True by (simp add: pm_removePeer_def)
qed (simp add: pm_removePeer_def)

lemma grow_wf: "pm_wf hash m \<Longrightarrow> pm_wf hash (pm_maybeGrowShards hash m)"
proof -
  assume wf: "pm_wf hash m"
  note s = pm_wf_shards [OF wf]
  let ?n = "min (sh_count (pm_shards m) * 2) 1024"
  have n: "0 < ?n" using s by (simp add: sh_wf_def)
  have r: "\<forall>(k, p)\<in>set (sh_entries (pm_shards m)). k = k" by auto
  have g: "sh_wf hash (sh_grow hash (\<lambda>k p. k) ?n (pm_shards m))"
    "sh_find hash k (sh_grow hash (\<lambda>k p. k) ?n (pm_shards m)) = sh_find hash k (pm_shards m)"
    "sh_size (sh_grow hash (\<lambda>k p. k) ?n (pm_shards m)) = sh_size (pm_shards m)" for k
    using sh_grow_correct [OF s n r, of k] by simp_all
  have "pm_wf hash (pm_on_shards (sh_grow hash (\<lambda>k p. k) ?n) m)"
    using wf g by (simp add: pm_wf_def pm_getPeer_def pm_peerCount_def)
  then show ?thesis using wf by (simp add: pm_maybeGrowShards_def Let_def)
qed

lemma add_wf: "pm_wf hash m \<Longrightarrow> pm_wf hash (snd (pm_addPeer hash now p m))"
proof (cases "pi_id p = [] \<or> pi_address p = [] \<or> pm_peerCount m \<ge> pm_maxPeers m \<or> pm_hasPeer hash (pi_id p) m")
  case False
  assume wf: "pm_wf hash m"
  note s = pm_wf_shards [OF wf]
  define q where "q = p\<lparr>pi_tokenMsgBucket := unat (pc_tokenBucketBurstMsg (pm_cfg m)),
    pi_tokenByteBucket := unat (pc_tokenBucketBurstBytes (pm_cfg m)), pi_tokenLastRefill := now, pi_dirty := True\<rparr>"
  let ?m = "pm_add PmActive 1 (pm_on_shards (sh_emplace hash (pi_id p) q) m)"
  have none: "sh_find hash (pi_id p) (pm_shards m) = None" using False by (simp add: pm_hasPeer_def pm_getPeer_def)
  have g: "pm_getPeer hash k ?m = (if k = pi_id p then Some q else pm_getPeer hash k m)" for k
    using shards.find_emplace [OF s] none by (simp add: pm_getPeer_def)
  have "pm_counts ?m PmActive = word_of_nat (pm_peerCount ?m)"
    using wf none shards.size_emplace [OF s, of "pi_id p"] by (simp add: pm_wf_def pm_peerCount_def sh_size_eq)
  then have "pm_wf hash ?m"
    using wf g False shards.wf_ops(1) [OF s] unfolding pm_wf_def by (auto simp: q_def split: if_splits)
  then have "pm_wf hash (markDirty (pi_id p) (pm_add PmConnected 1 ?m))" by simp
  then show ?thesis
    using False grow_wf by (simp add: pm_addPeer_def q_def [symmetric] Let_def)
qed (auto simp: pm_addPeer_def)

lemma pm_same_peer [simp]:
  "pi_id (pm_ban now m p) = pi_id p" "pi_address (pm_ban now m p) = pi_address p"
  "pi_id (pm_refillBucket m now p) = pi_id p" "pi_address (pm_refillBucket m now p) = pi_address p"
  "pi_id (greeted now v p) = pi_id p" "pi_address (greeted now v p) = pi_address p"
  "pi_id (pm_lift_ban now p) = pi_id p" "pi_address (pm_lift_ban now p) = pi_address p"
  by (simp_all add: pm_ban_def pm_refillBucket_def greeted_def pm_lift_ban_def Let_def)

lemma ban_wf: "pm_wf hash m \<Longrightarrow> pm_wf hash (snd (pm_banPeer hash now i m))"
  by (auto simp: pm_banPeer_def intro: update_wf split: option.split)

lemma score_wf: "pm_wf hash m \<Longrightarrow> pm_wf hash (pm_applyScore hash now i x m)"
  by (auto simp: pm_applyScore_def Let_def intro: update_wf split: option.split)

lemma decode_error_wf: "pm_wf hash m \<Longrightarrow> pm_wf hash (pm_recordDecodeError hash now i m)"
  by (auto simp: pm_recordDecodeError_def Let_def intro: update_wf split: option.split)

lemma rate_wf: "pm_wf hash m \<Longrightarrow> pm_wf hash (snd (pm_checkRateLimit hash now i n m))"
  by (auto simp: pm_checkRateLimit_def Let_def intro: update_wf split: option.split)

lemma handshake_wf: "pm_wf hash m \<Longrightarrow> pm_wf hash (snd (doHandshake hash now i h m))"
  using score_wf ban_wf
  by (auto simp: doHandshake_def Let_def pm_penalizePeer_def intro: update_wf
      split: prod.split hs_result.split option.split)

lemma seen_wf:
  assumes "pm_wf hash m"
  shows "pm_wf hash (snd (markSeen i m))"
proof -
  have s: "finite (pm_seenActive m)" "card (pm_seenActive m) < SEEN_MAX div 2"
    using assms by (simp_all add: pm_wf_def seen_ok_def)
  then have "card (insert i (pm_seenActive m)) \<le> SEEN_MAX div 2"
    by (intro card_insert_le_m1) (simp_all add: SEEN_MAX_def)
  then have "seen_ok (snd (markSeen i m))"
    using assms s by (simp add: markSeen_def pm_wf_def seen_ok_def Let_def pm_add_def SEEN_MAX_def)
  moreover have "pm_shards (snd (markSeen i m)) = pm_shards m" "pm_counts (snd (markSeen i m)) PmActive = pm_counts m PmActive"
    by (simp_all add: markSeen_def Let_def pm_add_def)
  ultimately show ?thesis using pm_wf_cong [OF assms] by blast
qed

lemma evict_stale_wf: "pm_wf hash m \<Longrightarrow> pm_wf hash (pm_evictStalePeers hash now m)"
proof -
  have "pm_wf hash m \<Longrightarrow> pm_wf hash (foldl (\<lambda>m i. pm_add PmEvicted 1 (snd (pm_removePeer hash i m))) m ks)" for ks
    by (induction ks arbitrary: m) (simp_all add: remove_wf)
  then show "pm_wf hash m \<Longrightarrow> ?thesis" by (simp add: pm_evictStalePeers_def)
qed

lemma evict_low_wf: "pm_wf hash m \<Longrightarrow> pm_wf hash (pm_evictLowScorePeers hash now m)"
proof -
  have "pm_wf hash m \<Longrightarrow> pm_wf hash (foldl (\<lambda>m i. snd (pm_banPeer hash now i m)) m ks)" for ks
    by (induction ks arbitrary: m) (simp_all add: ban_wf)
  then show "pm_wf hash m \<Longrightarrow> ?thesis" by (simp add: pm_evictLowScorePeers_def)
qed

lemma unban_wf: "pm_wf hash m \<Longrightarrow> pm_wf hash (pm_unbanExpiredPeers now m)"
proof -
  assume wf: "pm_wf hash m"
  note s = pm_wf_shards [OF wf]
  let ?m = "pm_on_shards (sh_mapi (\<lambda>i. pm_lift_ban now)) m"
  have g: "pm_getPeer hash k ?m = map_option (pm_lift_ban now) (pm_getPeer hash k m)" for k
    using shards.find_mapi [OF s] by (simp add: pm_getPeer_def)
  have "pm_counts ?m PmActive = word_of_nat (pm_peerCount ?m)"
    using wf shards.size_mapi [OF s] by (simp add: pm_wf_def pm_peerCount_def sh_size_eq)
  then have m: "pm_wf hash ?m"
    using wf g shards.wf_ops(4) [OF s] unfolding pm_wf_def by auto
  have "pm_wf hash v \<Longrightarrow> pm_wf hash (foldl (\<lambda>m p. pm_emit (OnConnected p) (markDirty (pi_id p) m)) v ps)" for v ps
    by (induction ps arbitrary: v) simp_all
  then show ?thesis using m by (simp add: pm_unbanExpiredPeers_def Let_def)
qed

lemma pm_step_wf: "pm_wf hash m \<Longrightarrow> pm_wf hash (pm_step hash op m)"
  by (cases op)
    (simp_all add: pm_step_def add_wf remove_wf ban_wf score_wf decode_error_wf rate_wf handshake_wf seen_wf evict_stale_wf
      evict_low_wf unban_wf grow_wf pm_penalizePeer_def pm_rewardPeer_def,
     simp_all add: pm_wf_def pm_getPeer_def pm_peerCount_def cleanupSeenMessages_def seen_ok_def pm_reloadConfig_def SEEN_MAX_def)

lemma PeerManager_wf: "pm_wf hash (PeerManager cfg)"
  by (simp add: pm_wf_def PeerManager_def new_shards_wf pm_getPeer_def pm_peerCount_def sh_size_eq new_shards_empty
      shards.find_entries [OF new_shards_wf] seen_ok_def SEEN_MAX_def)

lemma pm_run_wf: "pm_wf hash m \<Longrightarrow> pm_wf hash (pm_run hash ops m)"
  unfolding pm_run_def by (induction ops arbitrary: m) (simp_all add: pm_step_wf)

text \<open>C8: the peer manager keeps its books. After any sequence of its operations, with any hash
  function, configuration and socket behaviour, every peer is filed under its own non-empty id
  in the shard of its hash and has an address, the active-peer gauge is the number of
  peers modulo \<open>2^64\<close>, and the two deduplication buckets stay within half a million messages.
\<close>

theorem peer_manager_invariant:
  "let m = pm_run hash ops (PeerManager cfg) in
     sh_wf hash (pm_shards m) \<and> pm_counts m PmActive = word_of_nat (length (pm_getAllPeers m)) \<and>
     (case pm_getPeer hash k m of None \<Rightarrow> True | Some p \<Rightarrow> pi_id p = k \<and> k \<noteq> [] \<and> pi_address p \<noteq> []) \<and>
     card (pm_seenActive m) + card (pm_seenStale m) < SEEN_MAX"
  using pm_run_wf [OF PeerManager_wf, of hash ops cfg]
  by (auto simp: pm_wf_def Let_def pm_getAllPeers_def pm_peerCount_def sh_size_eq seen_ok_def SEEN_MAX_def
      split: option.split)

section \<open>Deduplication\<close>

definition seen_all :: "string list \<Rightarrow> peer_manager \<Rightarrow> peer_manager" where
  "seen_all ms m = foldl (\<lambda>m i. snd (markSeen i m)) m ms"

lemma seen_all_blocks:
  assumes "finite (pm_seenActive m)" and "card (pm_seenActive m) < SEEN_MAX div 2" and "length ms < SEEN_MAX div 2"
    and "i \<in> pm_seenActive m \<or> i \<in> pm_seenStale m \<and> card (pm_seenActive m) + length ms < SEEN_MAX div 2"
  shows "i \<in> pm_seenActive (seen_all ms m) \<or> i \<in> pm_seenStale (seen_all ms m)"
  using assms
proof (induction ms arbitrary: m)
  case Nil
  then show ?case by (simp add: seen_all_def)
next
  case (Cons j ms)
  let ?m = "snd (markSeen j m)"
  have c: "card (insert j (pm_seenActive m)) \<le> Suc (card (pm_seenActive m))" by (rule card_insert_le_m1) simp_all
  have "finite (pm_seenActive ?m) \<and> card (pm_seenActive ?m) < SEEN_MAX div 2 \<and>
      (i \<in> pm_seenActive ?m \<or> i \<in> pm_seenStale ?m \<and> card (pm_seenActive ?m) + length ms < SEEN_MAX div 2)"
    using Cons.prems c by (auto simp: markSeen_def Let_def pm_add_def)
  then have "i \<in> pm_seenActive (seen_all ms ?m) \<or> i \<in> pm_seenStale (seen_all ms ?m)"
    using Cons.IH [of ?m] Cons.prems(3) by simp
  then show ?case by (simp add: seen_all_def)
qed

text \<open>deduplication has a window. A message that was accepted is refused again as long as fewer
  than 250000 other messages have been offered since; the periodic cleanup, however, forgets
  everything at once, and right after it every message is accepted again.
\<close>

theorem dedup_window:
  assumes "fst (markSeen i m)" and "length ms < SEEN_MAX div 2" and "seen_ok m"
  shows "\<not> fst (markSeen i (seen_all ms (snd (markSeen i m)))) \<and>
    fst (markSeen i (cleanupSeenMessages (seen_all ms (snd (markSeen i m)))))"
proof
  let ?m = "snd (markSeen i m)"
  have new: "i \<notin> pm_seenActive m" "i \<notin> pm_seenStale m"
    using assms(1) by (auto simp: markSeen_def split: if_splits)
  have "finite (pm_seenActive ?m) \<and> card (pm_seenActive ?m) < SEEN_MAX div 2 \<and>
      (i \<in> pm_seenActive ?m \<or> i \<in> pm_seenStale ?m \<and> card (pm_seenActive ?m) + length ms < SEEN_MAX div 2)"
    using new assms(2,3) by (auto simp: markSeen_def Let_def seen_ok_def SEEN_MAX_def)
  then show "\<not> fst (markSeen i (seen_all ms ?m))"
    using seen_all_blocks [of ?m ms i] assms(2) by (auto simp: markSeen_def)
  show "fst (markSeen i (cleanupSeenMessages (seen_all ms ?m)))"
    by (simp add: markSeen_def cleanupSeenMessages_def Let_def)
qed

lemma dedup_window_witness:
  "\<not> fst (markSeen ''a'' (seen_all [''b'', ''c''] (snd (markSeen ''a'' (PeerManager default_pm_config)))))"
  using dedup_window [of "''a''" "PeerManager default_pm_config" "[''b'', ''c'']"]
  by (simp add: PeerManager_def markSeen_def Let_def seen_ok_def SEEN_MAX_def)

section \<open>Incremental saving\<close>

text \<open>The operations that do not mark a peer as changed for the next save.\<close>

fun unmarked :: "pm_op \<Rightarrow> bool" where
  "unmarked (PmAddPeer now p) \<longleftrightarrow> False"
| "unmarked (PmHandshake now i h) \<longleftrightarrow> False"
| "unmarked (PmUnban now) \<longleftrightarrow> False"
| "unmarked (PmReload cfg) \<longleftrightarrow> False"
| "unmarked op \<longleftrightarrow> True"

definition clean_as :: "pm_config \<Rightarrow> peer_manager \<Rightarrow> bool" where
  "clean_as cfg m \<longleftrightarrow> pm_dirtyIds m = {} \<and> pm_cfg m = cfg"

lemma clean_simps [simp]:
  "clean_as cfg (pm_add c n m) = clean_as cfg m" "clean_as cfg (pm_emit e m) = clean_as cfg m"
  "clean_as cfg (pm_on_shards f m) = clean_as cfg m" "clean_as cfg (pm_update hash i p m) = clean_as cfg m"
  by (simp_all add: clean_as_def pm_update_def)

lemma clean_ops [simp]:
  "clean_as cfg (snd (pm_removePeer hash i m)) = clean_as cfg m" "clean_as cfg (snd (pm_banPeer hash now i m)) = clean_as cfg m"
  "clean_as cfg (pm_applyScore hash now i x m) = clean_as cfg m" "clean_as cfg (pm_recordDecodeError hash now i m) = clean_as cfg m"
  "clean_as cfg (snd (pm_checkRateLimit hash now i n m)) = clean_as cfg m" "clean_as cfg (pm_maybeGrowShards hash m) = clean_as cfg m"
  by (simp_all add: pm_removePeer_def pm_banPeer_def pm_applyScore_def pm_recordDecodeError_def pm_checkRateLimit_def
      pm_maybeGrowShards_def Let_def split: option.split)

lemma clean_folds [simp]:
  "clean_as cfg (foldl (\<lambda>m i. pm_add PmEvicted 1 (snd (pm_removePeer hash i m))) m ks) = clean_as cfg m"
  "clean_as cfg (foldl (\<lambda>m i. snd (pm_banPeer hash now i m)) m ks) = clean_as cfg m"
  by (induction ks arbitrary: m) simp_all

lemma unmarked_clean: "unmarked op \<Longrightarrow> clean_as cfg m \<Longrightarrow> clean_as cfg (pm_step hash op m)"
  by (cases op)
    (simp_all add: pm_step_def pm_penalizePeer_def pm_rewardPeer_def pm_evictStalePeers_def pm_evictLowScorePeers_def Let_def,
     simp_all add: clean_as_def markSeen_def cleanupSeenMessages_def pm_add_def Let_def)

lemma unmarked_run: "list_all unmarked ops \<Longrightarrow> clean_as cfg m \<Longrightarrow> clean_as cfg (pm_run hash ops m)"
  unfolding pm_run_def by (induction ops arbitrary: m) (simp_all add: unmarked_clean)

text \<open>an incremental save loses what it does not repeat. Every save rewrites the whole file with
  the peers marked since the last one; bans, scores, decode errors and evictions mark
  nothing. So when only such things happen between two saves, the second one replaces the
  file by an empty one: a restart then knows no peer and no ban, however many there were.
\<close>

theorem incremental_save_forgets:
  assumes "pc_incrementalSave (pm_cfg m)" and "pc_peerStorePath (pm_cfg m) \<noteq> []" and "list_all unmarked ops"
    and "pm_savePeers dbl t1 store m = (store1, m1)"
    and "pm_savePeers dbl t2 store1 (pm_run hash ops m1) = (store2, m2)"
  shows "pm_loadPeers hash undbl now store2 (PeerManager (pm_cfg m)) = pm_add PmLoads 1 (PeerManager (pm_cfg m))"
proof -
  have m1: "clean_as (pm_cfg m) m1" using assms(1,2,4) by (auto simp: pm_savePeers_def clean_as_def Let_def)
  have c: "pm_dirtyIds (pm_run hash ops m1) = {}" "pm_cfg (pm_run hash ops m1) = pm_cfg m"
    using unmarked_run [OF assms(3) m1] by (simp_all add: clean_as_def)
  have none: "filter (\<lambda>(i, p). False) xs = []" for xs :: "(string \<times> peer_info) list"
    by (induction xs) auto
  have "to_save (pm_run hash ops m1) = []"
    unfolding to_save_def c using assms(1) none by simp
  then have s: "store2 (pc_peerStorePath (pm_cfg m)) = Some (store_file dbl t2 [])"
    using assms(2,5) c(2) by (auto simp: pm_savePeers_def Let_def)
  have "read_store undbl now (store_file dbl t2 []) = Some []"
    using store_read_back [of "[]" undbl dbl now t2] by simp
  then show ?thesis using s assms(2) by (simp add: pm_loadPeers_def PeerManager_def)
qed

lemma incremental_save_forgets_witness:
  "let m = PeerManager default_pm_config; (store1, m1) = pm_savePeers (\<lambda>s. 0) 1 Map.empty m;
       (store2, m2) = pm_savePeers (\<lambda>s. 0) 2 store1 (pm_run (\<lambda>k. 0) [PmBanPeer 1 ''a:1''] m1)
   in pm_loadPeers (\<lambda>k. 0) (\<lambda>w. 0) 3 store2 m = pm_add PmLoads 1 m"
proof -
  let ?m = "PeerManager default_pm_config"
  obtain store1 m1 where 1: "pm_savePeers (\<lambda>s. 0) 1 Map.empty ?m = (store1, m1)" by fastforce
  obtain store2 m2 where 2: "pm_savePeers (\<lambda>s. 0) 2 store1 (pm_run (\<lambda>k. 0) [PmBanPeer 1 ''a:1''] m1) = (store2, m2)" by fastforce
  show ?thesis
    using incremental_save_forgets [OF _ _ _ 1 2, of "\<lambda>w. 0" 3] 1 2 by (simp add: PeerManager_def default_pm_config_def)
qed

section \<open>Handshakes\<close>

text \<open>A socket that is always ready and never interrupted.\<close>

definition ready_socket :: "bytes \<Rightarrow> bytes \<Rightarrow> hs_socket" where
  "ready_socket incoming sent = \<lparr>hs_polls = [], hs_conn = \<lparr>cn_incoming = incoming, cn_sent = sent, cn_calls = []\<rparr>\<rparr>"

lemma ready_poll: "pollWait (ready_socket i s) = (True, ready_socket i s)"
  by (simp add: pollWait_def ready_socket_def)

lemma ready_send: "hs_send data (ready_socket i s) = (HsOk, ready_socket i (s @ data))"
proof (cases "data = []")
  case False
  have "sys_send data (hs_conn (ready_socket i s)) = (Got data, hs_conn (ready_socket i (s @ data)))"
    using False by (simp add: sys_send_def ready_socket_def)
  moreover have "(ready_socket i s)\<lparr>hs_conn := hs_conn (ready_socket i (s @ data))\<rparr> = ready_socket i (s @ data)"
    by (simp add: ready_socket_def)
  ultimately show ?thesis
    using False by (simp add: hs_send.simps [of data] hs_send.simps [of "[]"] ready_poll)
qed (simp add: hs_send.simps)

lemma ready_recv:
  assumes "0 < n" and "length bs = n"
  shows "hs_recv n [] (ready_socket (bs @ rest) s) = (HsOk, bs, ready_socket rest s)"
proof -
  have "sys_recv n (hs_conn (ready_socket (bs @ rest) s)) = (Got bs, hs_conn (ready_socket rest s))"
    using assms by (auto simp: sys_recv_def ready_socket_def Let_def)
  moreover have "(ready_socket (bs @ rest) s)\<lparr>hs_conn := hs_conn (ready_socket rest s)\<rparr> = ready_socket rest s"
    by (simp add: ready_socket_def)
  moreover have "bs \<noteq> []" using assms by auto
  ultimately show ?thesis
    using assms by (simp add: hs_recv.simps [of n "[]"] hs_recv.simps [of n bs] ready_poll)
qed

lemma packet_parts:
  "handshake_packet cfg = (map (magic_byte (pc_networkMagic cfg)) [0..<4] @ be_bytes4 (pc_protocolVersion cfg)
     @ [word_of_nat (min (length (pc_nodeId cfg)) 255)]) @ str_bytes (take 255 (pc_nodeId cfg))"
  by (simp add: handshake_packet_def min_def)

lemma packet_header:
  fixes cfg :: pm_config
  defines "hdr \<equiv> map (magic_byte (pc_networkMagic cfg)) [0..<4] @ be_bytes4 (pc_protocolVersion cfg)
     @ [word_of_nat (min (length (pc_nodeId cfg)) 255)]"
  shows "length hdr = 9" "i < 4 \<Longrightarrow> hdr ! i = magic_byte (pc_networkMagic cfg) i"
    "be_word4 (hdr ! 4) (hdr ! 5) (hdr ! 6) (hdr ! 7) = pc_protocolVersion cfg"
    "unat (hdr ! 8) = min (length (pc_nodeId cfg)) 255"
proof -
  show "length hdr = 9" by (simp add: hdr_def)
  show "i < 4 \<Longrightarrow> hdr ! i = magic_byte (pc_networkMagic cfg) i" by (simp add: hdr_def nth_append)
  have "hdr ! 4 = be_bytes4 (pc_protocolVersion cfg) ! 0" "hdr ! 5 = be_bytes4 (pc_protocolVersion cfg) ! 1"
    "hdr ! 6 = be_bytes4 (pc_protocolVersion cfg) ! 2" "hdr ! 7 = be_bytes4 (pc_protocolVersion cfg) ! 3"
    "hdr ! 8 = word_of_nat (min (length (pc_nodeId cfg)) 255)"
    by (simp_all add: hdr_def nth_append)
  then show "be_word4 (hdr ! 4) (hdr ! 5) (hdr ! 6) (hdr ! 7) = pc_protocolVersion cfg"
    "unat (hdr ! 8) = min (length (pc_nodeId cfg)) 255"
    using word4_bytes4 [of "pc_protocolVersion cfg"] by (simp_all add: unat_word_of_nat_u8)
qed

text \<open>C9: what a handshake accepts. On a socket that delivers the packet of another node, the
  handshake succeeds exactly when the networks' first four magic bytes agree, the other's
  version is in the accepted range, its node id is not empty and the peer is in the table. The
  default node id is empty, so two nodes with the default configuration never shake hands.
\<close>

theorem handshake_iff:
  "fst (doHandshake hash now pid (ready_socket (handshake_packet cfg @ rest) sent) m) \<longleftrightarrow>
     list_all (\<lambda>i. magic_byte (pc_networkMagic cfg) i = magic_byte (pc_networkMagic (pm_cfg m)) i) [0..<4] \<and>
     pc_minPeerVersion (pm_cfg m) \<le> pc_protocolVersion cfg \<and> pc_protocolVersion cfg \<le> pc_maxPeerVersion (pm_cfg m) \<and>
     pc_nodeId cfg \<noteq> [] \<and> pm_getPeer hash pid m \<noteq> None"
proof -
  let ?id = "str_bytes (take 255 (pc_nodeId cfg))"
  define hdr where "hdr = map (magic_byte (pc_networkMagic cfg)) [0..<4] @ be_bytes4 (pc_protocolVersion cfg)
     @ [word_of_nat (min (length (pc_nodeId cfg)) 255)]"
  note h = packet_header [where cfg = cfg, folded hdr_def]
  have p: "handshake_packet cfg @ rest = hdr @ ?id @ rest" by (simp add: packet_parts hdr_def)
  let ?out = "sent @ handshake_packet (pm_cfg m)"
  have r: "hs_recv 9 [] (ready_socket (hdr @ ?id @ rest) ?out) = (HsOk, hdr, ready_socket (?id @ rest) ?out)"
    by (rule ready_recv) (simp_all add: h(1))
  have magic: "list_all (\<lambda>i. hdr ! i = magic_byte (pc_networkMagic (pm_cfg m)) i) [0..<4] \<longleftrightarrow>
      list_all (\<lambda>i. magic_byte (pc_networkMagic cfg) i = magic_byte (pc_networkMagic (pm_cfg m)) i) [0..<4]"
    by (auto simp: list_all_iff h(2))
  have z: "hdr ! 8 = 0 \<longleftrightarrow> pc_nodeId cfg = []" using h(4) by (cases "pc_nodeId cfg") (auto simp: unat_eq_zero [symmetric] simp del: unat_eq_zero)
  have r2: "hs_recv (unat (hdr ! 8)) [] (ready_socket (?id @ rest) ?out) = (HsOk, ?id, ready_socket rest ?out)"
    if "pc_nodeId cfg \<noteq> []"
    by (rule ready_recv) (use that h(4) in \<open>simp_all add: min_def\<close>)
  show ?thesis
    unfolding p doHandshake_def Let_def ready_send prod.case hs_result.case r magic h(3) z
    by (cases "pc_nodeId cfg = []") (auto simp: r2 not_less split: option.split)
qed

text \<open>A peer banned for its decode errors is banned again by the first one after its ban.\<close>

lemma reban_after_expiry:
  assumes "pm_wf hash m" and "pm_getPeer hash i m = Some p" and "pi_isBanned p" and "pi_banExpiresAt p \<le> now"
    and "pi_decodeErrorCount p \<ge> pm_maxDecodeErrBan m" and "pi_decodeErrorCount p + 1 \<noteq> 0"
  shows "\<exists>q. pm_getPeer hash i (pm_recordDecodeError hash now i (pm_unbanExpiredPeers now m)) = Some q \<and> pi_isBanned q"
proof -
  note s = pm_wf_shards [OF assms(1)]
  let ?m = "pm_unbanExpiredPeers now m"
  have fold: "pm_shards (foldl (\<lambda>m p. pm_emit (OnConnected p) (markDirty (pi_id p) m)) v ps) = pm_shards v \<and>
      pm_maxDecodeErrBan (foldl (\<lambda>m p. pm_emit (OnConnected p) (markDirty (pi_id p) m)) v ps) = pm_maxDecodeErrBan v" for v ps
    by (induction ps arbitrary: v) (simp_all, simp add: pm_emit_def markDirty_def)
  have m: "pm_shards ?m = sh_mapi (\<lambda>i. pm_lift_ban now) (pm_shards m)" "pm_maxDecodeErrBan ?m = pm_maxDecodeErrBan m"
    using fold by (simp_all add: pm_unbanExpiredPeers_def Let_def) (simp add: pm_on_shards_def)
  have g: "pm_getPeer hash i ?m = Some (pm_lift_ban now p)"
    using shards.find_mapi [OF s] assms(2) by (simp add: pm_getPeer_def m)
  have "pi_decodeErrorCount p \<le> pi_decodeErrorCount p + 1"
    using assms(6) unatSuc [of "pi_decodeErrorCount p"] by (simp add: word_le_nat_alt add.commute)
  then have ge: "pm_maxDecodeErrBan m \<le> pi_decodeErrorCount p + 1" using assms(5) by (rule order_trans [rotated])
  let ?p = "(pm_lift_ban now p)\<lparr>pi_decodeErrorCount := pi_decodeErrorCount (pm_lift_ban now p) + 1\<rparr>"
  have "pm_recordDecodeError hash now i ?m =
      pm_add PmAutoBans 1 (pm_add PmBans 1 (pm_add PmDecodeErrors 1 (pm_update hash i (pm_ban now ?m ?p) ?m)))"
    using assms(3,4) ge by (simp add: pm_recordDecodeError_def g m(2) Let_def pm_lift_ban_def)
  moreover have "sh_wf hash (pm_shards ?m)" using shards.wf_ops(4) [OF s] by (simp add: m)
  ultimately show ?thesis
    using g shards.find_upd [of hash "pm_shards ?m"] by (simp add: pm_getPeer_def pm_update_def pm_ban_def)
qed

end
