(* ===== verification/WireJson.thy ===== *)
theory WireJson
  imports Complex_Main Block Signature
begin

text \<open>
  Transactions and blocks as JSON (\<^verbatim>\<open>src/src/net/serialization.cpp\<close>): base64, the content
  hash, serialization with validation, the replay cache. JSON values are a datatype with the
  number kinds of the JSON library; SHA-256 (OpenSSL) and libsecp256k1 are parameters. The source
  file ends in the middle of a comment before \<^verbatim>\<open>deserializeBlock\<close>, which therefore has no model.
\<close>

section \<open>JSON values\<close>

datatype json =
    JNull | JBool bool | JUnsigned u64 | JInteger u64   \<comment> \<open>signed: two's complement\<close>
  | JFloat rat | JString string | JArray "json list" | JObject "(string \<times> json) list"

fun is_object :: "json \<Rightarrow> bool" where
  "is_object (JObject kvs) \<longleftrightarrow> True"
| "is_object j \<longleftrightarrow> False"

fun jget :: "string \<Rightarrow> json \<Rightarrow> json option" where
  "jget field (JObject kvs) = map_of kvs field"
| "jget field j = None"

text \<open>
  What the JSON library promises for an object it has printed: parsed, it is the same value,
  where a signed number that is not negative has become an unsigned one.
\<close>

fun parsed :: "json \<Rightarrow> json" where
  "parsed (JInteger n) = (if sint n < 0 then JInteger n else JUnsigned n)"
| "parsed (JObject kvs) = JObject (map (\<lambda>(k, j). (k, parsed j)) kvs)"
| "parsed (JArray js) = JArray (map parsed js)"
| "parsed j = j"

definition json_law :: "(json \<Rightarrow> string option) \<Rightarrow> (string \<Rightarrow> json option) \<Rightarrow> bool" where
  "json_law dump parse \<longleftrightarrow> (\<forall>j s. dump j = Some s \<longrightarrow> parse s = Some (parsed j) \<and> s \<noteq> [])"

section \<open>Errors\<close>

datatype ser_code =
    MissingField | TypeMismatch | LengthExceeded | InvalidAddress | ChainIdMismatch | SerVersionMismatch
  | HashMismatch | SignatureInvalid | ReplayDetected | BadBase64 | OutOfMemory | InternalError

section \<open>Base64\<close>

definition B64_CHARS :: string where
  "B64_CHARS = ''ABCDEFGHIJKLMNOPQRSTUVWXYZabcdefghijklmnopqrstuvwxyz0123456789+/''"

text \<open>\<^verbatim>\<open>B64_TABLE\<close>, as ranges: -1 for what is no digit, 0 for the padding character.\<close>

definition b64_value :: "char \<Rightarrow> int" where
  "b64_value c =
     (let n = of_char c :: nat
      in if n = 43 then 62 else if n = 47 then 63
         else if 48 \<le> n \<and> n \<le> 57 then int n + 4
         else if n = 61 then 0
         else if 65 \<le> n \<and> n \<le> 90 then int n - 65
         else if 97 \<le> n \<and> n \<le> 122 then int n - 71
         else - 1)"

definition b64_digit :: "u32 \<Rightarrow> nat \<Rightarrow> char" where
  "b64_digit v shift = B64_CHARS ! unat (drop_bit shift v AND 0x3F)"

fun b64enc :: "bytes \<Rightarrow> string" where
  "b64enc (a # b # c # bs) =
     (let v = push_bit 16 (ucast a) OR push_bit 8 (ucast b) OR ucast c
      in [b64_digit v 18, b64_digit v 12, b64_digit v 6, b64_digit v 0] @ b64enc bs)"
| "b64enc [a, b] =
     (let v = push_bit 16 (ucast a) OR push_bit 8 (ucast b)
      in [b64_digit v 18, b64_digit v 12, b64_digit v 6, CHR ''=''])"
| "b64enc [a] =
     (let v = push_bit 16 (ucast a)
      in [b64_digit v 18, b64_digit v 12, CHR ''='', CHR ''=''])"
| "b64enc [] = []"

text \<open>The decoder's loop: buffer, number of bits in it, whether padding was seen, result.\<close>

fun b64_loop :: "string \<Rightarrow> u32 \<Rightarrow> nat \<Rightarrow> bool \<Rightarrow> bytes \<Rightarrow> ser_code + bytes" where
  "b64_loop [] buf bits padSeen result = Inr result"
| "b64_loop (c # cs) buf bits padSeen result =
     (if c = CHR ''='' then b64_loop cs buf bits True result
      else if padSeen then Inl BadBase64
      else if b64_value c < 0 then Inl BadBase64
      else
        let buf = push_bit 6 buf OR word_of_int (b64_value c); bits = bits + 6
        in if bits \<ge> 8 then b64_loop cs buf (bits - 8) padSeen (result @ [ucast (drop_bit (bits - 8) buf AND 0xFF)])
           else b64_loop cs buf bits padSeen result)"

definition b64dec :: "string \<Rightarrow> ser_code + bytes" where
  "b64dec s = b64_loop s 0 0 False []"

section \<open>The content hash\<close>

text \<open>A number as it lies in memory.\<close>

definition native :: "nat \<Rightarrow> 'a::len word \<Rightarrow> bytes" where
  "native n v = rev (be_write n v)"

definition CURRENT_TX_VERSION :: u32 where "CURRENT_TX_VERSION = 1"
definition MIN_TX_VERSION :: u32 where "MIN_TX_VERSION = 1"
definition CURRENT_BLOCK_VERSION :: u32 where "CURRENT_BLOCK_VERSION = 1"
definition MAX_TX_DATA_BYTES :: nat where "MAX_TX_DATA_BYTES = 128 * 1024"
definition MAX_ADDRESS_LEN :: nat where "MAX_ADDRESS_LEN = 128"
definition MAX_HASH_LEN :: nat where "MAX_HASH_LEN = 128"
definition MAX_SIG_COMPONENT_B64 :: nat where "MAX_SIG_COMPONENT_B64 = 96"
definition MEDORCOIN_CHAIN_ID :: u64 where "MEDORCOIN_CHAIN_ID = 1"

text \<open>What \<^verbatim>\<open>computeTxContentHash\<close> feeds to the hash.\<close>

definition content :: "transaction \<Rightarrow> bytes" where
  "content tx =
     native 4 CURRENT_TX_VERSION @ native 8 (tx_chainId tx) @ native 8 (tx_nonce tx) @ str_bytes (tx_toAddress tx)
     @ native 8 (tx_value tx) @ native 8 (tx_gasLimit tx) @ native 8 (tx_maxFeePerGas tx)
     @ native 8 (tx_maxPriorityFeePerGas tx) @ native 8 (word_of_nat (length (tx_data tx)) :: u64) @ tx_data tx
     @ native 8 (word_of_nat (length (tx_inputs tx)) :: u64)
     @ concat (map (\<lambda>i. str_bytes (in_prevTxHash i) @ native 4 (in_outputIndex i)) (tx_inputs tx))
     @ native 8 (word_of_nat (length (tx_outputs tx)) :: u64)
     @ concat (map (\<lambda>y. native 8 (out_value y) @ str_bytes (out_address y)) (tx_outputs tx))"

section \<open>Fields\<close>

definition requireField :: "json \<Rightarrow> string \<Rightarrow> ser_code + json" where
  "requireField j field =
     (if \<not> is_object j then Inl TypeMismatch
      else case jget field j of None \<Rightarrow> Inl MissingField | Some v \<Rightarrow> Inr v)"

definition getString :: "json \<Rightarrow> string \<Rightarrow> nat \<Rightarrow> ser_code + string" where
  "getString j field maxLen =
     bind_sum (requireField j field) (\<lambda>v.
       case v of
         JString s \<Rightarrow> if length s > maxLen then Inl LengthExceeded else Inr s
       | _ \<Rightarrow> Inl TypeMismatch)"

definition getUint64 :: "json \<Rightarrow> string \<Rightarrow> ser_code + u64" where
  "getUint64 j field =
     bind_sum (requireField j field) (\<lambda>v. case v of JUnsigned n \<Rightarrow> Inr n | _ \<Rightarrow> Inl TypeMismatch)"

text \<open>The conversion to 32 bits drops the high half.\<close>

definition getUint32 :: "json \<Rightarrow> string \<Rightarrow> ser_code + u32" where
  "getUint32 j field =
     bind_sum (requireField j field) (\<lambda>v. case v of JUnsigned n \<Rightarrow> Inr (ucast n) | _ \<Rightarrow> Inl TypeMismatch)"

definition getSigComp :: "json \<Rightarrow> string \<Rightarrow> ser_code + bytes" where
  "getSigComp j field =
     bind_sum (requireField j field) (\<lambda>v.
       case v of
         JString s \<Rightarrow> if length s > MAX_SIG_COMPONENT_B64 then Inl LengthExceeded else b64dec s
       | _ \<Rightarrow> Inl TypeMismatch)"

definition isValidAddress :: "string \<Rightarrow> bool" where
  "isValidAddress addr \<longleftrightarrow> addr \<noteq> [] \<and> length addr \<le> MAX_ADDRESS_LEN"

section \<open>Serialization\<close>

definition input_json :: "tx_input \<Rightarrow> json" where
  "input_json i = JObject [(''prevTxHash'', JString (in_prevTxHash i)), (''outputIndex'', JInteger (scast (in_outputIndex i)))]"

definition output_json :: "tx_output \<Rightarrow> json" where
  "output_json y = JObject [(''value'', JUnsigned (out_value y)), (''address'', JString (out_address y))]"

definition serializeTx :: "transaction \<Rightarrow> json" where
  "serializeTx tx = JObject
     [(''version'', JUnsigned (ucast CURRENT_TX_VERSION)), (''txHash'', JString (tx_txHash tx)),
      (''toAddress'', JString (tx_toAddress tx)), (''value'', JUnsigned (tx_value tx)),
      (''gasLimit'', JUnsigned (tx_gasLimit tx)), (''maxFeePerGas'', JUnsigned (tx_maxFeePerGas tx)),
      (''maxPriorityFeePerGas'', JUnsigned (tx_maxPriorityFeePerGas tx)), (''nonce'', JUnsigned (tx_nonce tx)),
      (''chainId'', JUnsigned (tx_chainId tx)), (''v'', JUnsigned (tx_v tx)), (''r'', JString (b64enc (tx_r tx))),
      (''s'', JString (b64enc (tx_s tx))), (''data'', JString (b64enc (tx_data tx))),
      (''inputs'', JArray (map input_json (tx_inputs tx))), (''outputs'', JArray (map output_json (tx_outputs tx)))]"

definition serializeBlock :: "block \<Rightarrow> json" where
  "serializeBlock b = JObject
     [(''version'', JUnsigned (ucast CURRENT_BLOCK_VERSION)), (''hash'', JString (blk_hash b)),
      (''previousHash'', JString (blk_previousHash b)), (''timestamp'', JUnsigned (blk_timestamp b)),
      (''difficulty'', JUnsigned (ucast (blk_difficulty b))), (''nonce'', JUnsigned (blk_nonce b)),
      (''minerAddress'', JString (blk_minerAddress b)), (''reward'', JUnsigned (blk_reward b)),
      (''baseFee'', JUnsigned (blk_baseFee b)), (''gasUsed'', JUnsigned (blk_gasUsed b)),
      (''gasLimit'', JUnsigned (blk_gasLimit b)), (''signature'', JString (blk_signature b)),
      (''data'', JString (blk_data b)), (''transactions'', JArray (map serializeTx (blk_transactions b)))]"

section \<open>The replay cache\<close>

text \<open>The code reads the clock before it locks the cache, so calls that overlap may pass readings out of order.\<close>

definition REPLAY_WINDOW_SECONDS :: u64 where "REPLAY_WINDOW_SECONDS = 3600"

type_synonym replay_cache = "string \<Rightarrow> u64 option"

definition replay_check :: "u64 \<Rightarrow> string \<Rightarrow> replay_cache \<Rightarrow> bool \<times> replay_cache" where
  "replay_check now txHash seen =
     (let seen = (\<lambda>k. case seen k of Some t \<Rightarrow> if now - t > REPLAY_WINDOW_SECONDS then None else Some t | None \<Rightarrow> None)
      in (seen txHash = None, seen(txHash \<mapsto> now)))"

section \<open>Deserialization\<close>

text \<open>\<^verbatim>\<open>get<int>\<close> of a number; for a fraction the conversion truncates towards zero.\<close>

fun json_int :: "json \<Rightarrow> u32 option" where
  "json_int (JUnsigned n) = Some (ucast n)"
| "json_int (JInteger n) = Some (ucast n)"
| "json_int (JFloat q) = Some (word_of_int (if q < 0 then - \<lfloor>- q\<rfloor> else \<lfloor>q\<rfloor>))"
| "json_int j = None"

definition read_input :: "json \<Rightarrow> ser_code + tx_input" where
  "read_input j =
     (let h = (case jget ''prevTxHash'' j of Some (JString s) \<Rightarrow> s | _ \<Rightarrow> []);
          n = (case jget ''outputIndex'' j of Some v \<Rightarrow> json_int v | None \<Rightarrow> None)
      in case n of
           None \<Rightarrow> Inr \<lparr>in_prevTxHash = h, in_outputIndex = 0\<rparr>
         | Some i \<Rightarrow> if sint i < 0 then Inl TypeMismatch else Inr \<lparr>in_prevTxHash = h, in_outputIndex = i\<rparr>)"

definition read_output :: "json \<Rightarrow> tx_output" where
  "read_output j =
     \<lparr>out_value = (case jget ''value'' j of Some (JUnsigned n) \<Rightarrow> n | _ \<Rightarrow> 0),
      out_address = (case jget ''address'' j of Some (JString s) \<Rightarrow> s | _ \<Rightarrow> [])\<rparr>"

fun read_inputs :: "json list \<Rightarrow> ser_code + tx_input list" where
  "read_inputs [] = Inr []"
| "read_inputs (j # js) = bind_sum (read_input j) (\<lambda>i. bind_sum (read_inputs js) (\<lambda>is. Inr (i # is)))"

text \<open>The fields up to the outputs, in the order of the checks.\<close>

definition read_tx :: "json \<Rightarrow> ser_code + transaction" where
  "read_tx j =
     (if \<not> is_object j then Inl TypeMismatch else
      bind_sum (getUint32 j ''version'') (\<lambda>ver.
      if ver < MIN_TX_VERSION \<or> ver > CURRENT_TX_VERSION then Inl SerVersionMismatch else
      bind_sum (getString j ''txHash'' MAX_HASH_LEN) (\<lambda>txHash.
      bind_sum (getString j ''toAddress'' MAX_ADDRESS_LEN) (\<lambda>toAddress.
      bind_sum (getUint64 j ''value'') (\<lambda>val.
      bind_sum (getUint64 j ''gasLimit'') (\<lambda>gasLimit.
      bind_sum (getUint64 j ''maxFeePerGas'') (\<lambda>maxFee.
      bind_sum (getUint64 j ''maxPriorityFeePerGas'') (\<lambda>maxPrio.
      bind_sum (getUint64 j ''nonce'') (\<lambda>nonce.
      bind_sum (getUint64 j ''chainId'') (\<lambda>chainId.
      bind_sum (getUint64 j ''v'') (\<lambda>v.
      bind_sum (getSigComp j ''r'') (\<lambda>r.
      bind_sum (getSigComp j ''s'') (\<lambda>s.
      if length r \<noteq> 32 \<or> length s \<noteq> 32 then Inl SignatureInvalid else
      bind_sum (requireField j ''data'') (\<lambda>d.
      bind_sum (case d of JString str \<Rightarrow> b64dec str | _ \<Rightarrow> Inl TypeMismatch) (\<lambda>bs.
      if length bs > MAX_TX_DATA_BYTES then Inl LengthExceeded
      else if \<not> isValidAddress toAddress then Inl InvalidAddress
      else if chainId \<noteq> MEDORCOIN_CHAIN_ID then Inl ChainIdMismatch else
      bind_sum (case jget ''inputs'' j of Some (JArray js) \<Rightarrow> read_inputs js | _ \<Rightarrow> Inr []) (\<lambda>ins.
        Inr \<lparr>tx_chainId = chainId, tx_nonce = nonce, tx_maxPriorityFeePerGas = maxPrio, tx_maxFeePerGas = maxFee,
             tx_gasLimit = gasLimit, tx_toAddress = toAddress, tx_value = val, tx_data = bs, tx_inputs = ins,
             tx_outputs = (case jget ''outputs'' j of Some (JArray js) \<Rightarrow> map read_output js | _ \<Rightarrow> []),
             tx_v = v, tx_r = r, tx_s = s, tx_txHash = txHash\<rparr>))))))))))))))))"

text \<open>The checks after the replay check; the flag says that the failure counts as one of the signature.\<close>

definition check_signed ::
    "(bytes \<Rightarrow> bytes) \<Rightarrow> ('pk, 'sg, 'rs) secp \<Rightarrow> transaction \<Rightarrow> (ser_code \<times> bool) option" where
  "check_signed sha256 S tx =
     (let computedHash = sha256 (content tx); recoveryId = computeRecoveryId (tx_v tx) (tx_chainId tx);
          sig64 = tx_r tx @ tx_s tx
      in if tx_txHash tx \<noteq> hex_bytes computedHash then Some (HashMismatch, False)
         else if recoveryId < 0 then Some (SignatureInvalid, False)
         else
           case recoverPubkey S computedHash sig64 recoveryId of
             None \<Rightarrow> Some (SignatureInvalid, True)
           | Some pub \<Rightarrow>
               if \<not> verifyHashWithPubkey S computedHash pub sig64 then Some (SignatureInvalid, True) else None)"

text \<open>The state of the module: the replay cache and the counters.\<close>

record ser_state =
  ss_seen :: replay_cache
  ss_tx_serialize_ok :: u64
  ss_tx_deserialize_ok :: u64
  ss_tx_deserialize_err :: u64
  ss_block_serialize_ok :: u64
  ss_sig_verify_fail :: u64
  ss_replay_rejected :: u64

definition count_err :: "ser_state \<Rightarrow> ser_state" where
  "count_err st = st\<lparr>ss_tx_deserialize_err := ss_tx_deserialize_err st + 1\<rparr>"

definition count_replay :: "ser_state \<Rightarrow> ser_state" where
  "count_replay st = st\<lparr>ss_replay_rejected := ss_replay_rejected st + 1\<rparr>"

text \<open>The entry points, with their counters.\<close>

definition serializeTx_st :: "transaction \<Rightarrow> ser_state \<Rightarrow> json \<times> ser_state" where
  "serializeTx_st tx st = (serializeTx tx, st\<lparr>ss_tx_serialize_ok := ss_tx_serialize_ok st + 1\<rparr>)"

definition serializeBlock_st :: "block \<Rightarrow> ser_state \<Rightarrow> json \<times> ser_state" where
  "serializeBlock_st b st =
     (serializeBlock b,
      st\<lparr>ss_tx_serialize_ok := ss_tx_serialize_ok st + word_of_nat (length (blk_transactions b)),
         ss_block_serialize_ok := ss_block_serialize_ok st + 1\<rparr>)"

definition deserializeTx ::
    "(bytes \<Rightarrow> bytes) \<Rightarrow> ('pk, 'sg, 'rs) secp \<Rightarrow> u64 \<Rightarrow> json \<Rightarrow> ser_state \<Rightarrow> (ser_code + transaction) \<times> ser_state" where
  "deserializeTx sha256 S now j st =
     (case read_tx j of
        Inl e \<Rightarrow> (Inl e, count_err (if e = ChainIdMismatch then count_replay st else st))
      | Inr tx \<Rightarrow>
          let (fresh, seen) = replay_check now (tx_txHash tx) (ss_seen st); st = st\<lparr>ss_seen := seen\<rparr>
          in if \<not> fresh then (Inl ReplayDetected, count_err (count_replay st))
             else
               case check_signed sha256 S tx of
                 Some (e, counted) \<Rightarrow>
                   (Inl e, count_err (if counted then st\<lparr>ss_sig_verify_fail := ss_sig_verify_fail st + 1\<rparr> else st))
               | None \<Rightarrow> (Inr tx, st\<lparr>ss_tx_deserialize_ok := ss_tx_deserialize_ok st + 1\<rparr>))"

section \<open>Base64: round trip\<close>

lemma B64_values: "map b64_value B64_CHARS = map int [0..<64]"
  by (simp add: B64_CHARS_def b64_value_def upt_rec)

lemma B64_char:
  assumes "n < 64"
  shows "b64_value (B64_CHARS ! n) = int n \<and> B64_CHARS ! n \<noteq> CHR ''=''"
proof -
  have len: "length B64_CHARS = 64" by (simp add: B64_CHARS_def)
  have "b64_value (B64_CHARS ! n) = map b64_value B64_CHARS ! n" using assms len by simp
  then have "b64_value (B64_CHARS ! n) = int n" using assms by (simp add: B64_values)
  moreover have "CHR ''='' \<notin> set B64_CHARS" by (simp add: B64_CHARS_def)
  ultimately show ?thesis using assms len nth_mem by metis
qed

lemma six_bits: "unat (x AND 0x3F :: u32) < 64"
proof -
  have "x AND 0x3F \<le> 0x3F" by (rule word_and_le1)
  then show ?thesis by (simp add: word_le_nat_alt)
qed

lemma b64_digit_value: "b64_value (b64_digit v k) = uint (drop_bit k v AND 0x3F)"
  using B64_char [OF six_bits] by (simp add: b64_digit_def)

lemma b64_digit_no_pad: "b64_digit v k \<noteq> CHR ''=''"
  using B64_char [OF six_bits] by (simp add: b64_digit_def)

lemma b64_value_nonneg: "\<not> b64_value (b64_digit v k) < 0"
  by (simp add: b64_digit_value)

text \<open>A digit's six bits, the buffer with a digit appended and the byte in it.\<close>

definition b64_six :: "u32 \<Rightarrow> nat \<Rightarrow> u32" where "b64_six v k = drop_bit k v AND 0x3F"
definition b64_push :: "u32 \<Rightarrow> u32 \<Rightarrow> u32" where "b64_push buf d = push_bit 6 buf OR d"
definition b64_out :: "nat \<Rightarrow> u32 \<Rightarrow> u8" where "b64_out k buf = ucast (drop_bit k buf AND 0xFF)"

lemma b64_loop_digit:
  "b64_loop (b64_digit v k # cs) buf bits False result =
     (let buf = b64_push buf (b64_six v k); bits = bits + 6
      in if bits \<ge> 8 then b64_loop cs buf (bits - 8) False (result @ [b64_out (bits - 8) buf])
         else b64_loop cs buf bits False result)"
  by (simp add: b64_digit_no_pad b64_digit_value Let_def b64_six_def b64_push_def b64_out_def)

lemma b64_loop_pad:
  "b64_loop (CHR ''='' # cs) buf bits padSeen result = b64_loop cs buf bits True result"
  by simp

declare b64_loop.simps(2) [simp del]

lemma b64_masks: "(0x3F :: u32) = mask 6" "(0xFF :: u32) = mask 8"
  by (simp_all add: mask_eq_exp_minus_1)

lemma byte_eqI:
  fixes x y :: u8
  assumes "\<And>n. n \<in> {0, 1, 2, 3, 4, 5, 6, 7} \<Longrightarrow> bit x n = bit y n"
  shows "x = y"
proof (rule bit_word_eqI)
  fix n :: nat assume "n < LENGTH(8)"
  then have "n \<in> {0, 1, 2, 3, 4, 5, 6, 7}" by auto
  then show "bit x n = bit y n" by (rule assms)
qed

lemma u8_no_bit: "8 \<le> n \<Longrightarrow> \<not> bit (x :: u8) n"
  using bit_imp_le_length [of x n] by auto

lemma b64_byte:
  fixes a b c :: u8 and buf :: u32
  assumes "v = push_bit 16 (ucast a) OR push_bit 8 (ucast b) OR ucast c"
  shows "b64_out 4 (b64_push (b64_push buf (b64_six v 18)) (b64_six v 12)) = a"
    and "b64_out 2 (b64_push (b64_push buf (b64_six v 12)) (b64_six v 6)) = b"
    and "b64_out 0 (b64_push (b64_push buf (b64_six v 6)) (b64_six v 0)) = c"
  unfolding assms b64_out_def b64_push_def b64_six_def b64_masks
  by (rule byte_eqI; elim insertE emptyE; simp add: bit_simps u8_no_bit)+

lemma b64_loop_enc:
  "b64_loop (b64enc xs) buf 0 False result = Inr (result @ xs)"
proof (induction xs arbitrary: buf result rule: b64enc.induct)
  case (1 a b c bs)
  define v where "v = push_bit 16 (ucast a) OR push_bit 8 (ucast b) OR (ucast c :: u32)"
  show ?case
    by (simp add: Let_def b64_loop_digit b64_byte [OF v_def] 1 [unfolded Let_def] flip: v_def)
next
  case (2 a b)
  define v where "v = push_bit 16 (ucast a) OR (push_bit 8 (ucast b) :: u32)"
  have "v = push_bit 16 (ucast a) OR push_bit 8 (ucast b) OR ucast (0 :: u8)" by (simp add: v_def)
  from b64_byte [OF this] show ?case
    by (simp add: Let_def b64_loop_digit b64_loop_pad flip: v_def)
next
  case (3 a)
  define v where "v = (push_bit 16 (ucast a) :: u32)"
  have "v = push_bit 16 (ucast a) OR push_bit 8 (ucast (0 :: u8)) OR ucast (0 :: u8)" by (simp add: v_def)
  from b64_byte(1) [OF this] show ?case
    by (simp add: Let_def b64_loop_digit b64_loop_pad flip: v_def)
qed simp

lemma b64dec_enc [simp]: "b64dec (b64enc xs) = Inr xs"
  by (simp add: b64dec_def b64_loop_enc)

lemma length_b64enc: "length (b64enc xs) = 4 * ((length xs + 2) div 3)"
proof (induction xs rule: b64enc.induct)
  case (1 a b c bs)
  have "(5 + length bs) div 3 = Suc ((2 + length bs) div 3)" by linarith
  then show ?case using 1 by (simp add: Let_def)
qed (simp_all add: Let_def)

section \<open>Round trip of a transaction\<close>

lemma scast_ucast_u32 [simp]: "ucast (scast (x :: u32) :: u64) = x"
  by (rule bit_word_eqI) (auto simp: bit_simps)

lemma read_input_json:
  "read_input (input_json i) = (if sint (in_outputIndex i) < 0 then Inl TypeMismatch else Inr i)"
  by (simp add: read_input_def input_json_def)

lemma read_inputs_json:
  "read_inputs (map input_json is) =
     (if \<forall>i \<in> set is. 0 \<le> sint (in_outputIndex i) then Inr is else Inl TypeMismatch)"
  by (induction "is") (auto simp: read_input_json not_less)

lemma read_output_json [simp]: "read_output (output_json y) = y"
  by (simp add: read_output_def output_json_def)

lemma read_outputs_json [simp]: "map (read_output \<circ> output_json) ys = ys"
  by (simp add: map_idI)

lemma getSigComp_b64:
  "length xs = 32 \<Longrightarrow> jget field (JObject kvs) = Some (JString (b64enc xs)) \<Longrightarrow>
   getSigComp (JObject kvs) field = Inr xs"
  by (simp add: getSigComp_def requireField_def length_b64enc MAX_SIG_COMPONENT_B64_def)

text \<open>What a transaction needs to pass the checks before the replay check.\<close>

definition wire_ok :: "transaction \<Rightarrow> bool" where
  "wire_ok tx \<longleftrightarrow> length (tx_txHash tx) \<le> MAX_HASH_LEN \<and> isValidAddress (tx_toAddress tx) \<and>
     length (tx_data tx) \<le> MAX_TX_DATA_BYTES \<and> tx_chainId tx = MEDORCOIN_CHAIN_ID \<and>
     (\<forall>i \<in> set (tx_inputs tx). 0 \<le> sint (in_outputIndex i))"

text \<open>The error of the first of these checks that fails, in the order of the code.\<close>

definition wire_error :: "transaction \<Rightarrow> ser_code option" where
  "wire_error tx =
     (if MAX_HASH_LEN < length (tx_txHash tx) \<or> MAX_ADDRESS_LEN < length (tx_toAddress tx)
           \<or> MAX_TX_DATA_BYTES < length (tx_data tx) then Some LengthExceeded
      else if tx_toAddress tx = [] then Some InvalidAddress
      else if tx_chainId tx \<noteq> MEDORCOIN_CHAIN_ID then Some ChainIdMismatch
      else if \<exists>i \<in> set (tx_inputs tx). sint (in_outputIndex i) < 0 then Some TypeMismatch
      else None)"

lemma wire_error_None: "wire_error tx = None \<longleftrightarrow> wire_ok tx"
  by (auto simp: wire_error_def wire_ok_def isValidAddress_def not_less not_le Bex_def Ball_def)

lemma read_serializeTx_error:
  assumes "length (tx_r tx) = 32" "length (tx_s tx) = 32"
  shows "read_tx (serializeTx tx) = (case wire_error tx of None \<Rightarrow> Inr tx | Some e \<Rightarrow> Inl e)"
  using assms
  by (auto simp: read_tx_def serializeTx_def getUint32_def getUint64_def getString_def requireField_def
      getSigComp_b64 wire_error_def isValidAddress_def read_inputs_json CURRENT_TX_VERSION_def MIN_TX_VERSION_def not_less)

lemma read_serializeTx:
  assumes "length (tx_r tx) = 32" "length (tx_s tx) = 32"
  shows "wire_ok tx \<Longrightarrow> read_tx (serializeTx tx) = Inr tx"
    and "\<not> wire_ok tx \<Longrightarrow> \<exists>e. read_tx (serializeTx tx) = Inl e"
  using read_serializeTx_error [OF assms] wire_error_None [of tx] by (auto split: option.split)

section \<open>The replay cache\<close>

lemma replay_check_fst:
  "fst (replay_check now h seen) \<longleftrightarrow>
     (case seen h of None \<Rightarrow> True | Some t \<Rightarrow> now - t > REPLAY_WINDOW_SECONDS)"
  by (simp add: replay_check_def Let_def split: option.split)

lemma replay_check_snd:
  "snd (replay_check now h seen) k =
     (if k = h then Some now
      else case seen k of Some t \<Rightarrow> if now - t > REPLAY_WINDOW_SECONDS then None else Some t | None \<Rightarrow> None)"
  by (simp add: replay_check_def Let_def)

lemma deserializeTx_seen:
  "ss_seen (snd (deserializeTx sha256 S now j st)) =
     (case read_tx j of Inl e \<Rightarrow> ss_seen st | Inr tx \<Rightarrow> snd (replay_check now (tx_txHash tx) (ss_seen st)))"
  by (auto simp: deserializeTx_def count_err_def count_replay_def Let_def split: sum.split prod.split option.split)

lemma deserializeTx_Inr:
  "fst (deserializeTx sha256 S now j st) = Inr tx \<longleftrightarrow>
     read_tx j = Inr tx \<and> fst (replay_check now (tx_txHash tx) (ss_seen st)) \<and> check_signed sha256 S tx = None"
  by (auto simp: deserializeTx_def Let_def split: sum.split prod.split option.split)

lemma deserializeTx_replay:
  "read_tx j = Inr tx \<Longrightarrow> \<not> fst (replay_check now (tx_txHash tx) (ss_seen st)) \<Longrightarrow>
   fst (deserializeTx sha256 S now j st) = Inl ReplayDetected"
  by (auto simp: deserializeTx_def Let_def split: prod.split)


definition sample_json_tx :: transaction where
  "sample_json_tx = \<lparr>tx_chainId = 1, tx_nonce = 0, tx_maxPriorityFeePerGas = 1, tx_maxFeePerGas = 2, tx_gasLimit = 21000,
     tx_toAddress = ''M1'', tx_value = 5, tx_data = [7], tx_inputs = [\<lparr>in_prevTxHash = ''aa'', in_outputIndex = 1\<rparr>],
     tx_outputs = [\<lparr>out_value = 3, out_address = ''x''\<rparr>, \<lparr>out_value = 4, out_address = ''y''\<rparr>],
     tx_v = 27, tx_r = replicate 32 1, tx_s = replicate 32 2, tx_txHash = ''00''\<rparr>"

definition empty_ser :: ser_state where
  "empty_ser = \<lparr>ss_seen = (\<lambda>h. None), ss_tx_serialize_ok = 0, ss_tx_deserialize_ok = 0, ss_tx_deserialize_err = 0,
     ss_block_serialize_ok = 0, ss_sig_verify_fail = 0, ss_replay_rejected = 0\<rparr>"

lemma json_sample_accepted:
  "wire_ok sample_json_tx" "length (tx_r sample_json_tx) = 32" "length (tx_s sample_json_tx) = 32"
  "check_signed (\<lambda>b. [0]) toy_secp sample_json_tx = None"
  "fst (replay_check 7 (tx_txHash sample_json_tx) (ss_seen empty_ser))"
proof -
  show "wire_ok sample_json_tx"
    by (simp add: wire_ok_def sample_json_tx_def isValidAddress_def MAX_HASH_LEN_def MAX_ADDRESS_LEN_def
        MAX_TX_DATA_BYTES_def MEDORCOIN_CHAIN_ID_def)
  show "check_signed (\<lambda>b. [0]) toy_secp sample_json_tx = None"
    by (simp add: check_signed_def sample_json_tx_def computeRecoveryId_def recoverPubkey_def verifyHashWithPubkey_def
        toy_secp_def hex_bytes_def hex_byte_def Let_def)
qed (simp_all add: sample_json_tx_def empty_ser_def replay_check_def)



section \<open>What the cache and the hash do not protect\<close>

lemma check_signed_content:
  assumes "content (tx\<lparr>tx_outputs := ys\<rparr>) = content (tx\<lparr>tx_outputs := zs\<rparr>)"
  shows "check_signed sha256 S (tx\<lparr>tx_outputs := ys\<rparr>) = check_signed sha256 S (tx\<lparr>tx_outputs := zs\<rparr>)"
  unfolding check_signed_def assms by simp

text \<open>
  the hash does not fix where one output's address ends and the next output's value
  begins: moving eight bytes from the end of an address into the next value, and that value into
  the next address, gives another transaction with the same content, on which the hash and
  signature checks have the same outcome.
\<close>

theorem output_boundary_collision:
  fixes v v1 v2 :: u64
  shows "let t1 = tx\<lparr>tx_outputs := [\<lparr>out_value = v1, out_address = a @ bytes_str (native 8 v)\<rparr>,
                                    \<lparr>out_value = v2, out_address = b\<rparr>]\<rparr>;
             t2 = tx\<lparr>tx_outputs := [\<lparr>out_value = v1, out_address = a\<rparr>,
                                    \<lparr>out_value = v, out_address = bytes_str (native 8 v2) @ b\<rparr>]\<rparr>
         in t1 \<noteq> t2 \<and> content t1 = content t2 \<and> check_signed sha256 S t1 = check_signed sha256 S t2"
proof -
  have "length (bytes_str (native 8 v)) = 8" by (simp add: native_def)
  then have "a @ bytes_str (native 8 v) \<noteq> a" by (metis append_self_conv list.size(3) zero_neq_numeral)
  moreover have "content (tx\<lparr>tx_outputs := [\<lparr>out_value = v1, out_address = a @ bytes_str (native 8 v)\<rparr>,
                                        \<lparr>out_value = v2, out_address = b\<rparr>]\<rparr>) =
      content (tx\<lparr>tx_outputs := [\<lparr>out_value = v1, out_address = a\<rparr>,
                                 \<lparr>out_value = v, out_address = bytes_str (native 8 v2) @ b\<rparr>]\<rparr>)"
    by (simp add: content_def)
  ultimately show ?thesis
    using check_signed_content
    by (metis (no_types, lifting) list.inject transaction.select_convs(10) transaction.surjective
        transaction.update_convs(10) tx_output.ext_inject)
qed

text \<open>
  anyone can have a valid transaction refused: reading the same JSON with other signature
  bytes puts its hash into the cache before anything is verified, and the genuine transaction is
  then refused as a replay for the whole window, each refusal starting the window anew.
\<close>

theorem replay_poisoning:
  fixes now now' :: u64
  assumes "wire_ok tx" "length (tx_r tx) = 32" "length (tx_s tx) = 32" "length r = 32" "length s = 32"
    and "now' - now \<le> REPLAY_WINDOW_SECONDS"
  shows "let st1 = snd (deserializeTx sha256 S now (serializeTx (tx\<lparr>tx_r := r, tx_s := s\<rparr>)) st);
             (result, st2) = deserializeTx sha256 S now' (serializeTx tx) st1
         in result = Inl ReplayDetected \<and> ss_seen st2 (tx_txHash tx) = Some now'"
proof -
  let ?forged = "tx\<lparr>tx_r := r, tx_s := s\<rparr>"
  define st1 where "st1 = snd (deserializeTx sha256 S now (serializeTx ?forged) st)"
  have read: "read_tx (serializeTx ?forged) = Inr ?forged" "read_tx (serializeTx tx) = Inr tx"
    using assms read_serializeTx(1) [of ?forged] read_serializeTx(1) [of tx] by (simp_all add: wire_ok_def)
  have "ss_seen st1 (tx_txHash tx) = Some now"
    unfolding st1_def by (simp add: deserializeTx_seen read replay_check_snd)
  then have "\<not> fst (replay_check now' (tx_txHash tx) (ss_seen st1))"
    using assms(6) by (simp add: replay_check_fst)
  then have "fst (deserializeTx sha256 S now' (serializeTx tx) st1) = Inl ReplayDetected"
    by (rule deserializeTx_replay [OF read(2)])
  moreover have "ss_seen (snd (deserializeTx sha256 S now' (serializeTx tx) st1)) (tx_txHash tx) = Some now'"
    by (simp add: deserializeTx_seen read replay_check_snd)
  ultimately show ?thesis by (simp add: st1_def Let_def split_beta)
qed

theorem replay_poisoning_witness:
  "let st1 = snd (deserializeTx (\<lambda>b. [0]) toy_secp 7
        (serializeTx (sample_json_tx\<lparr>tx_r := replicate 32 0, tx_s := replicate 32 0\<rparr>)) empty_ser);
       (result, st2) = deserializeTx (\<lambda>b. [0]) toy_secp 8 (serializeTx sample_json_tx) st1
   in result = Inl ReplayDetected \<and> ss_seen st2 (tx_txHash sample_json_tx) = Some 8"
  by (rule replay_poisoning) (simp_all add: json_sample_accepted REPLAY_WINDOW_SECONDS_def)

section \<open>Accepted once per window\<close>

text \<open>A sequence of calls with the readings of the clock, and their results.\<close>

fun ser_run ::
    "(bytes \<Rightarrow> bytes) \<Rightarrow> ('pk, 'sg, 'rs) secp \<Rightarrow> (u64 \<times> json) list \<Rightarrow> ser_state \<Rightarrow> (u64 \<times> (ser_code + transaction)) list"
where
  "ser_run sha256 S [] st = []"
| "ser_run sha256 S ((now, j) # calls) st =
     (let (result, st) = deserializeTx sha256 S now j st in (now, result) # ser_run sha256 S calls st)"

lemma ser_run_Cons:
  "ser_run sha256 S ((now, j) # calls) st =
     (now, fst (deserializeTx sha256 S now j st)) # ser_run sha256 S calls (snd (deserializeTx sha256 S now j st))"
  by (simp split: prod.split)

lemma length_ser_run [simp]: "length (ser_run sha256 S calls st) = length calls"
  by (induction calls arbitrary: st) (auto split: prod.split)

lemma ser_run_times: "map fst (ser_run sha256 S calls st) = map fst calls"
  by (induction calls arbitrary: st) (auto split: prod.split)

lemma word_diff_mono:
  fixes x y z :: u64
  assumes "x \<le> y" "y \<le> z"
  shows "z - y \<le> z - x" and "y - x \<le> z - x"
  using assms by (simp_all add: word_le_nat_alt unat_sub)

text \<open>A hash seen at \<open>t0\<close> or later is in the cache, or \<open>t0\<close> is out of the window.\<close>

definition remembers :: "string \<Rightarrow> u64 \<Rightarrow> u64 \<Rightarrow> ser_state \<Rightarrow> bool" where
  "remembers h t0 now st \<longleftrightarrow>
     (\<exists>t. ss_seen st h = Some t \<and> t0 \<le> t \<and> t \<le> now) \<or> now - t0 > REPLAY_WINDOW_SECONDS"

lemma remembers_accept:
  assumes "remembers h t0 now st" "t0 \<le> now" "now \<le> now'"
    and "fst (deserializeTx sha256 S now' j st) = Inr tx" "tx_txHash tx = h"
  shows "now' - t0 > REPLAY_WINDOW_SECONDS"
proof (cases "now - t0 > REPLAY_WINDOW_SECONDS")
  case True
  then show ?thesis using word_diff_mono(2) [OF assms(2,3)] by simp
next
  case False
  then obtain t where t: "ss_seen st h = Some t" "t0 \<le> t" "t \<le> now" using assms(1) by (auto simp: remembers_def)
  have "now' - t > REPLAY_WINDOW_SECONDS"
    using assms(4,5) t(1) by (simp add: deserializeTx_Inr replay_check_fst)
  then show ?thesis using word_diff_mono(1) [of t0 t now'] t assms(3) by (meson order.trans order.strict_trans2)
qed

lemma remembers_step:
  assumes "remembers h t0 now st" "t0 \<le> now" "now \<le> now'"
  shows "remembers h t0 now' (snd (deserializeTx sha256 S now' j st))"
proof (cases "now - t0 > REPLAY_WINDOW_SECONDS")
  case True
  then show ?thesis using word_diff_mono(2) [OF assms(2,3)] order.strict_trans2 by (auto simp: remembers_def)
next
  case False
  then obtain t where t: "ss_seen st h = Some t" "t0 \<le> t" "t \<le> now" using assms(1) by (auto simp: remembers_def)
  then have "now' - t \<le> now' - t0" using word_diff_mono(1) [of t0 t now'] assms(3) by simp
  then show ?thesis
    using t assms(2,3) unfolding remembers_def
    by (auto simp: deserializeTx_seen replay_check_snd not_less split: sum.split)
qed

lemma remembers_run:
  assumes "remembers h t0 now st" "t0 \<le> now" "sorted (now # map fst calls)"
    and "(now', Inr tx) \<in> set (ser_run sha256 S calls st)" "tx_txHash tx = h"
  shows "now' - t0 > REPLAY_WINDOW_SECONDS"
  using assms
proof (induction calls arbitrary: now st)
  case (Cons c calls)
  obtain m j where c: "c = (m, j)" by (cases c)
  have "now \<le> m" using Cons.prems c by simp
  note step = remembers_step [OF Cons.prems(1,2) this, of sha256 S j]
  show ?case
  proof (cases "now' = m \<and> fst (deserializeTx sha256 S m j st) = Inr tx")
    case True
    then show ?thesis using remembers_accept Cons.prems \<open>now \<le> m\<close> by metis
  next
    case False
    then have "(now', Inr tx) \<in> set (ser_run sha256 S calls (snd (deserializeTx sha256 S m j st)))"
      using Cons.prems(4) by (auto simp: c ser_run_Cons simp del: ser_run.simps)
    then show ?thesis using Cons.IH [OF step] Cons.prems c \<open>now \<le> m\<close> by auto
  qed
qed simp

lemma accepted_remembered:
  assumes "fst (deserializeTx sha256 S now j st) = Inr tx"
  shows "remembers (tx_txHash tx) now now (snd (deserializeTx sha256 S now j st))"
  using assms by (auto simp: deserializeTx_Inr remembers_def deserializeTx_seen replay_check_snd)

text \<open>
  C27: over any sequence of calls with a clock that does not run backwards, two acceptances
  of the same transaction hash are more than 3600 seconds apart.
\<close>

theorem accepted_once_per_window:
  assumes "sorted (map fst calls)" "i < k" "k < length calls"
    and "ser_run sha256 S calls st ! i = (t, Inr tx)" "ser_run sha256 S calls st ! k = (t', Inr tx')"
    and "tx_txHash tx = tx_txHash tx'"
  shows "t' - t > REPLAY_WINDOW_SECONDS"
  using assms
proof (induction calls arbitrary: i k st)
  case (Cons c calls)
  obtain m j where c: "c = (m, j)" by (cases c)
  let ?st = "snd (deserializeTx sha256 S m j st)"
  obtain k' where k: "k = Suc k'" using Cons.prems(2) by (cases k) auto
  have later: "ser_run sha256 S calls ?st ! k' = (t', Inr tx')"
    using Cons.prems(5) by (simp add: c k ser_run_Cons del: ser_run.simps)
  show ?case
  proof (cases i)
    case 0
    then have "m = t \<and> fst (deserializeTx sha256 S m j st) = Inr tx"
      using Cons.prems(4) by (auto simp: c ser_run_Cons simp del: ser_run.simps)
    note acc = conjunct1 [OF this] conjunct2 [OF this]
    have "(t', Inr tx') \<in> set (ser_run sha256 S calls ?st)"
      using later Cons.prems(3) k nth_mem [of k' "ser_run sha256 S calls ?st"] by simp
    then show ?thesis
      using remembers_run [OF accepted_remembered [OF acc(2)] order_refl] Cons.prems(1) Cons.prems(6) [symmetric]
        acc(1) c by simp
  next
    case (Suc i')
    then show ?thesis
      using Cons.IH [of i' k' ?st] Cons.prems later k by (simp add: c ser_run_Cons del: ser_run.simps)
  qed
qed simp

theorem accepted_once_per_window_witness:
  "let calls = [(7, serializeTx sample_json_tx), (3608, serializeTx sample_json_tx)]
   in ser_run (\<lambda>b. [0]) toy_secp calls empty_ser = [(7, Inr sample_json_tx), (3608, Inr sample_json_tx)] \<and>
      (3608 :: u64) - 7 > REPLAY_WINDOW_SECONDS"
proof -
  let ?calls = "[(7, serializeTx sample_json_tx), (3608, serializeTx sample_json_tx)]"
  have "fst (deserializeTx (\<lambda>b. [0]) toy_secp 7 (serializeTx sample_json_tx) empty_ser) = Inr sample_json_tx"
    using json_sample_accepted by (simp add: deserializeTx_Inr read_serializeTx)
  moreover have "fst (deserializeTx (\<lambda>b. [0]) toy_secp 3608 (serializeTx sample_json_tx)
      (snd (deserializeTx (\<lambda>b. [0]) toy_secp 7 (serializeTx sample_json_tx) empty_ser))) = Inr sample_json_tx"
    using json_sample_accepted
    by (simp add: deserializeTx_Inr read_serializeTx deserializeTx_seen replay_check_fst replay_check_snd
        REPLAY_WINDOW_SECONDS_def)
  ultimately have run: "ser_run (\<lambda>b. [0]) toy_secp ?calls empty_ser = [(7, Inr sample_json_tx), (3608, Inr sample_json_tx)]"
    by (simp add: ser_run_Cons del: ser_run.simps(2))
  then show ?thesis
    using accepted_once_per_window [of ?calls 0 1 "\<lambda>b. [0]" toy_secp empty_ser 7 sample_json_tx 3608 sample_json_tx]
    by simp
qed

end
