(* ===== verification/MessageHandler.thy ===== *)
theory MessageHandler
  imports Mempool PeerManager NetCodec
begin

text \<open>
  The message handler of the peer-to-peer node, \<^verbatim>\<open>src/src/net/message_handler.cpp\<close>: frames,
  dispatch, one handler per message type and the outbound builders, on the models of the peer
  manager and the transaction pool. The callbacks are the events in \<open>mh_out\<close>. The clock does not
  advance while one frame is handled; logging and running out of memory are not modelled.
\<close>

section \<open>Messages\<close>

datatype mh_type =
    MHandshake | MHandshakeAck | MPing | MPong | MGetPeers | MPeers | MInv | MGetData
  | MBlock | MTransaction | MTxBatch | MGetHeaders | MHeaders | MGetBlocks | MReject | MUnknown | MOther u8

definition mh_types :: "(u8 \<times> mh_type) list" where
  "mh_types =
     [(0x01, MHandshake), (0x02, MHandshakeAck), (0x03, MPing), (0x04, MPong), (0x05, MGetPeers), (0x06, MPeers),
      (0x07, MInv), (0x08, MGetData), (0x10, MBlock), (0x11, MTransaction), (0x12, MTxBatch), (0x20, MGetHeaders),
      (0x21, MHeaders), (0x22, MGetBlocks), (0xFE, MReject), (0xFF, MUnknown)]"

text \<open>The cast from a byte.\<close>

definition mh_type_of :: "u8 \<Rightarrow> mh_type" where
  "mh_type_of b = (case map_of mh_types b of Some t \<Rightarrow> t | None \<Rightarrow> MOther b)"

fun mh_code :: "mh_type \<Rightarrow> u8" where
  "mh_code (MOther b) = b"
| "mh_code t = fst (hd (filter (\<lambda>bt. snd bt = t) mh_types))"

definition FRAME_HEADER_SIZE :: nat where "FRAME_HEADER_SIZE = 9"
definition MAX_PAYLOAD_SIZE :: nat where "MAX_PAYLOAD_SIZE = 8 * 1024 * 1024"

datatype mh_error = MhTooShort | MhBadMagic | MhOversizedFrame | MhPayloadTrunc | MhBadMsgType

record mh_config =
  mc_networkMagic :: string
  mc_protocolVersion :: u32
  mc_minPeerVersion :: u32
  mc_maxPeerVersion :: u32
  mc_nodeId :: string
  mc_maxPayloadBytes :: nat

definition default_mh_config :: mh_config where
  "default_mh_config = \<lparr>mc_networkMagic = ''MEDOR'', mc_protocolVersion = 1, mc_minPeerVersion = 1,
     mc_maxPeerVersion = 1, mc_nodeId = [], mc_maxPayloadBytes = MAX_PAYLOAD_SIZE\<rparr>"

text \<open>Calls of the callbacks, and the log lines that carry what a message said.\<close>

datatype mh_event =
    MhSend string bytes | MhBroadcast mh_type bytes string | MhBlock block string | MhTx transaction string
  | MhHint string u16 string | MhRejected string string

record mh =
  mh_cfg :: mh_config
  mh_pm :: peer_manager
  mh_pool :: mempool
  mh_out :: "mh_event list"

text \<open>What the handler reads: \<^verbatim>\<open>std::hash\<close>, the clock, the UTXO set behind the pool and the chain.\<close>

record mh_env =
  me_hash :: "string \<Rightarrow> u64"
  me_now :: u64
  me_utxo :: "string \<Rightarrow> u32 \<Rightarrow> u64 option"
  me_isOpen :: bool
  me_baseFee :: u64
  me_height :: u64

definition mh_emit :: "mh_event \<Rightarrow> mh \<Rightarrow> mh" where
  "mh_emit e h = h\<lparr>mh_out := mh_out h @ [e]\<rparr>"

definition mh_penalize :: "mh_env \<Rightarrow> string \<Rightarrow> rat \<Rightarrow> mh \<Rightarrow> mh" where
  "mh_penalize E i x h = h\<lparr>mh_pm := pm_penalizePeer (me_hash E) (me_now E) i x (mh_pm h)\<rparr>"

definition mh_reward :: "mh_env \<Rightarrow> string \<Rightarrow> rat \<Rightarrow> mh \<Rightarrow> mh" where
  "mh_reward E i x h = h\<lparr>mh_pm := pm_rewardPeer (me_hash E) (me_now E) i x (mh_pm h)\<rparr>"

definition mh_decodeError :: "mh_env \<Rightarrow> string \<Rightarrow> mh \<Rightarrow> mh" where
  "mh_decodeError E i h = h\<lparr>mh_pm := pm_recordDecodeError (me_hash E) (me_now E) i (mh_pm h)\<rparr>"

definition mh_ban :: "mh_env \<Rightarrow> string \<Rightarrow> mh \<Rightarrow> mh" where
  "mh_ban E i h = h\<lparr>mh_pm := snd (pm_banPeer (me_hash E) (me_now E) i (mh_pm h))\<rparr>"

section \<open>Bytes\<close>

definition mh_writeUint32BE :: "u32 \<Rightarrow> bytes" where
  "mh_writeUint32BE v = be_bytes4 v"

definition mh_writeUint64BE :: "u64 \<Rightarrow> bytes" where
  "mh_writeUint64BE v = map (\<lambda>i. ucast (drop_bit (i * 8) v AND 0xFF)) [7, 6, 5, 4, 3, 2, 1, 0]"

definition mh_readUint32BE :: "bytes \<Rightarrow> nat \<Rightarrow> u32" where
  "mh_readUint32BE p off = be_word4 (p ! off) (p ! (off + 1)) (p ! (off + 2)) (p ! (off + 3))"

definition mh_readUint64BE :: "bytes \<Rightarrow> u64" where
  "mh_readUint64BE p = foldl (\<lambda>v i. push_bit 8 v OR ucast (p ! i)) 0 [0..<8]"

definition writeString :: "string \<Rightarrow> bytes" where
  "writeString s = mh_writeUint32BE (word_of_nat (length s)) @ str_bytes s"

text \<open>The string and the new offset.\<close>

definition readString :: "bytes \<Rightarrow> nat \<Rightarrow> string \<times> nat" where
  "readString p offset =
     (if offset + 4 > length p then ([], length p)
      else
        let len = unat (mh_readUint32BE p offset); offset = offset + 4
        in if len > length p - offset then ([], length p)
           else if len > MAX_PAYLOAD_SIZE then ([], length p)
           else (bytes_str (take len (drop offset p)), offset + len))"

section \<open>Frames\<close>

definition mh_encodeFrame :: "mh_type \<Rightarrow> bytes \<Rightarrow> string \<Rightarrow> bytes" where
  "mh_encodeFrame type payload magic =
     (if length payload > MAX_PAYLOAD_SIZE then []
      else map (magic_byte magic) [0..<4] @ [mh_code type] @ be_bytes4 (word_of_nat (length payload)) @ payload)"

definition mh_decodeFrame :: "bytes \<Rightarrow> string \<Rightarrow> mh_error + mh_type \<times> bytes" where
  "mh_decodeFrame raw magic =
     (if length raw < FRAME_HEADER_SIZE then Inl MhTooShort
      else if \<not> list_all (\<lambda>i. raw ! i = magic_byte magic i) [0..<4] then Inl MhBadMagic
      else
        let type = mh_type_of (raw ! 4)
        in if type = MUnknown then Inl MhBadMsgType
           else
             let payLen = unat (mh_readUint32BE raw 5)
             in if payLen > MAX_PAYLOAD_SIZE then Inl MhOversizedFrame
                else if length raw < FRAME_HEADER_SIZE + payLen then Inl MhPayloadTrunc
                else Inr (type, take payLen (drop FRAME_HEADER_SIZE raw)))"

section \<open>Outbound builders\<close>

definition buildHandshake :: "mh_config \<Rightarrow> bytes" where
  "buildHandshake cfg =
     mh_encodeFrame MHandshake
       (mh_writeUint32BE (mc_protocolVersion cfg) @ writeString (mc_networkMagic cfg) @ writeString (mc_nodeId cfg))
       (mc_networkMagic cfg)"

definition buildPing :: "mh_config \<Rightarrow> bytes" where
  "buildPing cfg = mh_encodeFrame MPing [] (mc_networkMagic cfg)"

definition buildPong :: "mh_config \<Rightarrow> bytes" where
  "buildPong cfg = mh_encodeFrame MPong [] (mc_networkMagic cfg)"

definition buildGetPeers :: "mh_config \<Rightarrow> bytes" where
  "buildGetPeers cfg = mh_encodeFrame MGetPeers [] (mc_networkMagic cfg)"

definition buildBlock :: "mh_config \<Rightarrow> block \<Rightarrow> bytes" where
  "buildBlock cfg b = mh_encodeFrame MBlock (str_bytes (serialize b)) (mc_networkMagic cfg)"

definition buildTx :: "mh_config \<Rightarrow> transaction \<Rightarrow> bytes" where
  "buildTx cfg tx =
     mh_encodeFrame MTransaction
       (str_bytes
         (show_u64 (tx_chainId tx) @ ''|'' @ show_u64 (tx_nonce tx) @ ''|'' @ tx_toAddress tx @ ''|''
          @ show_u64 (tx_value tx) @ ''|'' @ show_u64 (tx_gasLimit tx) @ ''|'' @ show_u64 (tx_maxFeePerGas tx)
          @ ''|'' @ show_u64 (tx_maxPriorityFeePerGas tx) @ ''|'' @ tx_txHash tx))
       (mc_networkMagic cfg)"

definition mh_batch :: "mh_config \<Rightarrow> transaction list \<Rightarrow> bytes" where
  "mh_batch cfg txs =
     foldl (\<lambda>payload tx. let txFrame = buildTx cfg tx in payload @ mh_writeUint32BE (word_of_nat (length txFrame)) @ txFrame)
       (mh_writeUint32BE (word_of_nat (length txs))) txs"

definition buildTxBatch :: "mh_config \<Rightarrow> transaction list \<Rightarrow> bytes" where
  "buildTxBatch cfg txs = mh_encodeFrame MTxBatch (mh_batch cfg txs) (mc_networkMagic cfg)"

definition buildGetHeaders :: "mh_config \<Rightarrow> u64 \<Rightarrow> bytes" where
  "buildGetHeaders cfg fromHeight = mh_encodeFrame MGetHeaders (mh_writeUint64BE fromHeight) (mc_networkMagic cfg)"

definition buildReject :: "mh_config \<Rightarrow> string \<Rightarrow> bytes" where
  "buildReject cfg reason = mh_encodeFrame MReject (writeString reason) (mc_networkMagic cfg)"

section \<open>Handlers\<close>

definition handleHandshake :: "mh_env \<Rightarrow> string \<Rightarrow> bytes \<Rightarrow> mh \<Rightarrow> mh" where
  "handleHandshake E peerId payload h =
     (if length payload < 8 then mh_penalize E peerId 10 h
      else
        let ver = mh_readUint32BE payload 0;
            (magic, off) = readString payload 4;
            (nodeId, off) = readString payload off
        in if off > length payload then mh_penalize E peerId 10 h
           else if ver < mc_minPeerVersion (mh_cfg h) \<or> ver > mc_maxPeerVersion (mh_cfg h) then
             mh_penalize E peerId 20
               (mh_emit (MhSend peerId (buildReject (mh_cfg h) ''incompatible protocol version'')) h)
           else if magic \<noteq> mc_networkMagic (mh_cfg h) then
             mh_ban E peerId (mh_emit (MhSend peerId (buildReject (mh_cfg h) ''wrong network'')) h)
           else mh_emit (MhSend peerId (buildHandshake (mh_cfg h))) (mh_reward E peerId 5 h))"

definition handleHandshakeAck :: "mh_env \<Rightarrow> string \<Rightarrow> mh \<Rightarrow> mh" where
  "handleHandshakeAck E peerId h = mh_reward E peerId 2 h"

definition handlePing :: "mh_env \<Rightarrow> string \<Rightarrow> mh \<Rightarrow> mh" where
  "handlePing E peerId h = mh_emit (MhSend peerId (buildPong (mh_cfg h))) h"

definition handlePong :: "mh_env \<Rightarrow> string \<Rightarrow> mh \<Rightarrow> mh" where
  "handlePong E peerId h = mh_reward E peerId (1 / 2) h"

definition peer_entry :: "peer_info \<Rightarrow> bytes" where
  "peer_entry p =
     writeString (pi_address p) @ [ucast (drop_bit 8 (pi_port p) AND 0xFF), ucast (pi_port p AND 0xFF)]"

definition handleGetPeers :: "mh_env \<Rightarrow> string \<Rightarrow> mh \<Rightarrow> mh" where
  "handleGetPeers E peerId h =
     (let peers = pm_getActivePeers (mh_pm h);
          payload = mh_writeUint32BE (word_of_nat (min (length peers) 200)) @ concat (map peer_entry (take 200 peers))
      in mh_emit (MhSend peerId (mh_encodeFrame MPeers payload (mc_networkMagic (mh_cfg h)))) h)"

text \<open>The addresses and ports a peer tells; they are only logged.\<close>

fun hint_loop :: "nat \<Rightarrow> bytes \<Rightarrow> nat \<Rightarrow> (string \<times> u16) list" where
  "hint_loop 0 payload off = []"
| "hint_loop (Suc n) payload off =
     (if off \<ge> length payload then []
      else
        let (addr, off) = readString payload off
        in if off + 2 > length payload then []
           else
             let port = push_bit 8 (ucast (payload ! off)) OR ucast (payload ! (off + 1));
                 hints = hint_loop n payload (off + 2)
             in if addr = [] \<or> port = 0 then hints else (addr, port) # hints)"

definition handlePeers :: "mh_env \<Rightarrow> string \<Rightarrow> bytes \<Rightarrow> mh \<Rightarrow> mh" where
  "handlePeers E peerId payload h =
     (if length payload < 4 then h
      else
        let hints = hint_loop (unat (min (mh_readUint32BE payload 0) 200)) payload 4
        in mh_reward E peerId (1 / 2) (foldl (\<lambda>h (addr, port). mh_emit (MhHint addr port peerId) h) h hints))"

text \<open>\<^verbatim>\<open>deserialize\<close> reports a failure by its result, which is not looked at, and throws nothing.\<close>

definition handleBlock :: "mh_env \<Rightarrow> string \<Rightarrow> bytes \<Rightarrow> mh \<Rightarrow> mh" where
  "handleBlock E peerId payload h =
     (let block = fst (deserialize (bytes_str payload) (default_block (me_now E)))
      in if blk_hash block = [] then mh_penalize E peerId 10 h
         else if \<not> me_isOpen E then h
         else mh_emit (MhBroadcast MBlock payload peerId) (mh_emit (MhBlock block peerId) (mh_reward E peerId 2 h)))"

definition read_wire_tx :: "string \<Rightarrow> transaction option" where
  "read_wire_tx raw =
     (let (st, tx, ok) = read_fields CHR ''|'' wire_tx_readers (open_stream raw) default_tx
      in if ok then Some tx else None)"

definition handleTransaction :: "mh_env \<Rightarrow> string \<Rightarrow> bytes \<Rightarrow> mh \<Rightarrow> mh" where
  "handleTransaction E peerId payload h =
     (case read_wire_tx (bytes_str payload) of
        None \<Rightarrow> mh_decodeError E peerId (mh_penalize E peerId 5 h)
      | Some tx \<Rightarrow>
          if \<not> tx_isValid tx then mh_penalize E peerId 5 h
          else
            let (pool, ok) = addTransaction (me_utxo E) (me_now E) (me_baseFee E) tx (mh_pool h); h = h\<lparr>mh_pool := pool\<rparr>
            in if \<not> ok then h
               else mh_emit (MhBroadcast MTransaction payload peerId) (mh_emit (MhTx tx peerId) (mh_reward E peerId (1 / 2) h)))"

fun batch_loop :: "mh_env \<Rightarrow> string \<Rightarrow> nat \<Rightarrow> bytes \<Rightarrow> nat \<Rightarrow> mh \<Rightarrow> mh" where
  "batch_loop E peerId 0 payload off h = h"
| "batch_loop E peerId (Suc n) payload off h =
     (if off + 4 > length payload then h
      else
        let txLen = unat (mh_readUint32BE payload off); off = off + 4
        in if txLen > length payload - off then h
           else batch_loop E peerId n payload (off + txLen) (handleTransaction E peerId (take txLen (drop off payload)) h))"

definition handleTxBatch :: "mh_env \<Rightarrow> string \<Rightarrow> bytes \<Rightarrow> mh \<Rightarrow> mh" where
  "handleTxBatch E peerId payload h =
     (if length payload < 4 then h
      else batch_loop E peerId (unat (min (mh_readUint32BE payload 0) 1000)) payload 4 h)"

definition headers_payload :: "u64 \<Rightarrow> u64 \<Rightarrow> bytes" where
  "headers_payload chainHeight fromHeight =
     (let count = (if fromHeight \<le> chainHeight then min (chainHeight - fromHeight + 1) 2000 else 0)
      in mh_writeUint64BE count
         @ concat (map (\<lambda>i. mh_writeUint64BE (fromHeight + word_of_nat i)) [0..<if fromHeight < fromHeight + count then unat count else 0]))"

definition handleGetHeaders :: "mh_env \<Rightarrow> string \<Rightarrow> bytes \<Rightarrow> mh \<Rightarrow> mh" where
  "handleGetHeaders E peerId payload h =
     (if length payload < 8 then h
      else
        mh_emit (MhSend peerId
          (mh_encodeFrame MHeaders (headers_payload (me_height E) (mh_readUint64BE payload)) (mc_networkMagic (mh_cfg h)))) h)"

definition handleHeaders :: "mh_env \<Rightarrow> string \<Rightarrow> bytes \<Rightarrow> mh \<Rightarrow> mh" where
  "handleHeaders E peerId payload h = (if length payload < 8 then h else mh_reward E peerId 1 h)"

definition handleReject :: "mh_env \<Rightarrow> string \<Rightarrow> bytes \<Rightarrow> mh \<Rightarrow> mh" where
  "handleReject E peerId payload h =
     (let reason = fst (readString payload 0); reason = (if reason = [] then ''(no reason)'' else reason)
      in mh_penalize E peerId 1 (mh_emit (MhRejected peerId reason) h))"

fun mh_dispatch :: "mh_env \<Rightarrow> string \<Rightarrow> mh_type \<Rightarrow> bytes \<Rightarrow> mh \<Rightarrow> mh" where
  "mh_dispatch E peerId MHandshake payload h = handleHandshake E peerId payload h"
| "mh_dispatch E peerId MHandshakeAck payload h = handleHandshakeAck E peerId h"
| "mh_dispatch E peerId MPing payload h = handlePing E peerId h"
| "mh_dispatch E peerId MPong payload h = handlePong E peerId h"
| "mh_dispatch E peerId MGetPeers payload h = handleGetPeers E peerId h"
| "mh_dispatch E peerId MPeers payload h = handlePeers E peerId payload h"
| "mh_dispatch E peerId MBlock payload h = handleBlock E peerId payload h"
| "mh_dispatch E peerId MTransaction payload h = handleTransaction E peerId payload h"
| "mh_dispatch E peerId MTxBatch payload h = handleTxBatch E peerId payload h"
| "mh_dispatch E peerId MGetHeaders payload h = handleGetHeaders E peerId payload h"
| "mh_dispatch E peerId MHeaders payload h = handleHeaders E peerId payload h"
| "mh_dispatch E peerId MReject payload h = handleReject E peerId payload h"
| "mh_dispatch E peerId t payload h = mh_penalize E peerId 2 h"

definition msg_id :: "bytes \<Rightarrow> string" where
  "msg_id raw = bytes_str (take 32 raw)"

definition handleRaw :: "mh_env \<Rightarrow> string \<Rightarrow> bytes \<Rightarrow> mh \<Rightarrow> mh" where
  "handleRaw E peerId raw h =
     (let (ok, pm) = pm_checkRateLimit (me_hash E) (me_now E) peerId (length raw) (mh_pm h); h = h\<lparr>mh_pm := pm\<rparr>
      in if \<not> ok then mh_penalize E peerId 5 h
         else
           case mh_decodeFrame raw (mc_networkMagic (mh_cfg h)) of
             Inl e \<Rightarrow> mh_penalize E peerId 3 (mh_decodeError E peerId h)
           | Inr (type, payload) \<Rightarrow>
               if length payload > mc_maxPayloadBytes (mh_cfg h) then mh_penalize E peerId 10 h
               else
                 let (fresh, pm) = markSeen (msg_id raw) (mh_pm h); h = h\<lparr>mh_pm := pm\<rparr>
                 in if \<not> fresh then h else mh_dispatch E peerId type payload (mh_reward E peerId (1 / 10) h))"

section \<open>Frames: exactly the encodings\<close>

lemma map_of_mh_types: "map_of mh_types (mh_code t) = Some t \<or> (\<exists>b. t = MOther b)"
  by (cases t) (simp_all add: mh_types_def)

lemma mh_code_of [simp]: "mh_code (mh_type_of b) = b"
  by (simp add: mh_type_of_def mh_types_def)

text \<open>A type the wire can carry: one with a name, or a byte without one.\<close>

definition wire_type :: "mh_type \<Rightarrow> bool" where
  "wire_type t \<longleftrightarrow> mh_type_of (mh_code t) = t"

lemma wire_type_of [simp]: "wire_type (mh_type_of b)"
  by (simp add: wire_type_def)

lemma wire_type_named: "(\<And>b. t \<noteq> MOther b) \<Longrightarrow> wire_type t"
  using map_of_mh_types [of t] by (auto simp: wire_type_def mh_type_of_def)

lemma bytes4_word4: "be_bytes4 (be_word4 a b c d) = [a, b, c, d]"
  using be_write_read [of "[a, b, c, d]", where 'a = 32] by (simp add: be_bytes4_eq be_word4_eq numeral_eq_Suc)

definition frame_head :: "string \<Rightarrow> mh_type \<Rightarrow> nat \<Rightarrow> bytes" where
  "frame_head magic t n = map (magic_byte magic) [0..<4] @ [mh_code t] @ be_bytes4 (word_of_nat n)"

lemma length_frame_head [simp]: "length (frame_head magic t n) = FRAME_HEADER_SIZE"
  by (simp add: frame_head_def FRAME_HEADER_SIZE_def)

lemma frame_head_nth:
  "i < 4 \<Longrightarrow> (frame_head magic t n @ rest) ! i = magic_byte magic i"
  "(frame_head magic t n @ rest) ! 4 = mh_code t"
  "mh_readUint32BE (frame_head magic t n @ rest) 5 = word_of_nat n"
  using word4_bytes4 [of "word_of_nat n"]
  by (simp_all add: frame_head_def nth_append mh_readUint32BE_def)

lemma small_payload: "n \<le> MAX_PAYLOAD_SIZE \<Longrightarrow> unat (word_of_nat n :: u32) = n"
  by (simp add: MAX_PAYLOAD_SIZE_def unat_of_nat)

lemma mh_encodeFrame_eq:
  "mh_encodeFrame t p magic = (if length p > MAX_PAYLOAD_SIZE then [] else frame_head magic t (length p) @ p)"
  by (simp add: mh_encodeFrame_def frame_head_def)

lemma decode_frame_head:
  assumes "wire_type t" "t \<noteq> MUnknown" "length p \<le> MAX_PAYLOAD_SIZE"
  shows "mh_decodeFrame (frame_head magic t (length p) @ p @ rest) magic = Inr (t, p)"
  using assms
  by (simp add: mh_decodeFrame_def frame_head_nth small_payload wire_type_def Let_def list_all_iff)

lemma split_frame:
  assumes "length raw \<ge> 9" "\<forall>i<4. raw ! i = magic_byte magic i"
  shows "raw = map (magic_byte magic) [0..<4] @ [raw ! 4] @ be_bytes4 (mh_readUint32BE raw 5) @ drop 9 raw"
proof -
  have "take 9 raw = map (nth raw) [0..<9]" using assms(1) by (simp add: list_eq_iff_nth_eq)
  then have "raw = map (nth raw) [0..<9] @ drop 9 raw" using append_take_drop_id [of 9 raw] by simp
  moreover have "map (nth raw) [0..<9] =
      map (magic_byte magic) [0..<4] @ [raw ! 4] @ be_bytes4 (mh_readUint32BE raw 5)"
    using assms(2) by (simp add: mh_readUint32BE_def bytes4_word4 upt_rec numeral_eq_Suc)
  ultimately show ?thesis by simp
qed

lemma decode_exact:
  assumes "mh_decodeFrame raw magic = Inr (t, p)"
  shows "t \<noteq> MUnknown \<and> wire_type t \<and> length p \<le> MAX_PAYLOAD_SIZE \<and>
    (\<exists>rest. raw = frame_head magic t (length p) @ p @ rest)"
proof -
  let ?n = "unat (mh_readUint32BE raw 5)"
  have a: "length raw \<ge> 9" "\<forall>i<4. raw ! i = magic_byte magic i" "mh_type_of (raw ! 4) \<noteq> MUnknown" "?n \<le> MAX_PAYLOAD_SIZE"
    "length raw \<ge> 9 + ?n" "t = mh_type_of (raw ! 4)" "p = take ?n (drop 9 raw)"
    using assms by (auto simp: mh_decodeFrame_def Let_def FRAME_HEADER_SIZE_def list_all_iff split: if_splits)
  then have n: "length p = ?n" by simp
  have "raw = frame_head magic t (length p) @ drop 9 raw"
    using split_frame [OF a(1,2)] a(6) unfolding n by (simp add: frame_head_def)
  also have "drop 9 raw = p @ drop ?n (drop 9 raw)" unfolding a(7) by (rule append_take_drop_id [symmetric])
  finally show ?thesis using a(3,4,6) n by auto
qed

text \<open>
  a frame is decoded to a type and a payload exactly when the buffer starts with the
  encoding of that frame: the network's magic, a type byte other than 255 and at most 8 MB of
  payload, with anything after it ignored.
\<close>

theorem mh_frames_exact:
  "mh_decodeFrame raw magic = Inr (t, p) \<longleftrightarrow>
     t \<noteq> MUnknown \<and> mh_type_of (mh_code t) = t \<and> length p \<le> MAX_PAYLOAD_SIZE \<and>
     (\<exists>rest. raw = mh_encodeFrame t p magic @ rest)"
  using decode_exact [of raw magic t p] decode_frame_head [of t p magic]
  by (auto simp: mh_encodeFrame_eq wire_type_def)

lemma decode_encode:
  "(\<And>b. t \<noteq> MOther b) \<Longrightarrow> t \<noteq> MUnknown \<Longrightarrow> length p \<le> MAX_PAYLOAD_SIZE \<Longrightarrow>
   mh_decodeFrame (mh_encodeFrame t p magic) magic = Inr (t, p)"
  using decode_frame_head [of t p magic "[]"] wire_type_named by (simp add: mh_encodeFrame_eq)

section \<open>Invariants\<close>

text \<open>
  What the handler may pass on: valid transactions, blocks with a hash, peers with an address
  and a port; and only blocks and transactions are broadcast.
\<close>

fun event_ok :: "mh_event \<Rightarrow> bool" where
  "event_ok (MhSend i bs) = True"
| "event_ok (MhBroadcast t bs i) = (t = MBlock \<or> t = MTransaction)"
| "event_ok (MhBlock b i) = (blk_hash b \<noteq> [])"
| "event_ok (MhTx tx i) = (length (tx_txHash tx) = 64)"
| "event_ok (MhHint addr port i) = (addr \<noteq> [] \<and> port \<noteq> 0)"
| "event_ok (MhRejected i reason) = (reason \<noteq> [])"

definition mh_wf :: "(string \<Rightarrow> u64) \<Rightarrow> mh \<Rightarrow> bool" where
  "mh_wf hash h \<longleftrightarrow> pm_wf hash (mh_pm h) \<and> mempool_wf (mh_pool h) \<and> list_all event_ok (mh_out h)"

named_theorems mh_wf_intro

lemma mh_emit_wf [mh_wf_intro]: "mh_wf hash h \<Longrightarrow> event_ok e \<Longrightarrow> mh_wf hash (mh_emit e h)"
  by (simp add: mh_wf_def mh_emit_def)

lemma hint_loop_ok: "list_all (\<lambda>(addr, port). addr \<noteq> [] \<and> port \<noteq> 0) (hint_loop n payload off)"
  by (induction n arbitrary: off) (auto simp: Let_def split: prod.split)

lemma mh_hints_wf [mh_wf_intro]:
  "mh_wf hash h \<Longrightarrow> list_all (\<lambda>(addr, port). addr \<noteq> [] \<and> port \<noteq> 0) hints \<Longrightarrow>
   mh_wf hash (foldl (\<lambda>h (addr, port). mh_emit (MhHint addr port i) h) h hints)"
proof (induction hints arbitrary: h)
  case (Cons p hints)
  obtain addr port where p: "p = (addr, port)" by fastforce
  have "mh_wf hash (mh_emit (MhHint addr port i) h)" using Cons.prems by (simp add: p mh_emit_wf)
  with Cons.IH Cons.prems(2) show ?case by (simp add: p)
qed simp

lemmas hint_loop_ok [mh_wf_intro]

lemma mh_peer_wf [mh_wf_intro]:
  assumes "mh_wf (me_hash E) h"
  shows "mh_wf (me_hash E) (mh_penalize E i x h)" "mh_wf (me_hash E) (mh_reward E i x h)"
    "mh_wf (me_hash E) (mh_decodeError E i h)" "mh_wf (me_hash E) (mh_ban E i h)"
  using assms
  by (simp_all add: mh_wf_def mh_penalize_def mh_reward_def mh_decodeError_def mh_ban_def pm_penalizePeer_def
      pm_rewardPeer_def score_wf decode_error_wf ban_wf)

lemma handleTransaction_wf [mh_wf_intro]: "mh_wf (me_hash E) h \<Longrightarrow> mh_wf (me_hash E) (handleTransaction E i payload h)"
proof (cases "read_wire_tx (bytes_str payload)")
  case (Some tx)
  assume wf: "mh_wf (me_hash E) h"
  obtain pool ok where a: "addTransaction (me_utxo E) (me_now E) (me_baseFee E) tx (mh_pool h) = (pool, ok)" by fastforce
  then have "mh_wf (me_hash E) (h\<lparr>mh_pool := pool\<rparr>)"
    using wf addTransaction_wf [of "mh_pool h" "me_utxo E" "me_now E" "me_baseFee E" tx] by (simp add: mh_wf_def)
  then show ?thesis using wf by (auto simp: handleTransaction_def Some a Let_def tx_isValid_def intro!: mh_wf_intro)
qed (simp add: handleTransaction_def mh_wf_intro)

lemma batch_loop_wf [mh_wf_intro]: "mh_wf (me_hash E) h \<Longrightarrow> mh_wf (me_hash E) (batch_loop E i n payload off h)"
  by (induction n arbitrary: off h) (auto simp: Let_def intro: mh_wf_intro)

lemmas mh_handler_defs =
  handleHandshake_def handleHandshakeAck_def handlePing_def handlePong_def handleGetPeers_def handlePeers_def
  handleBlock_def handleTxBatch_def handleGetHeaders_def handleHeaders_def handleReject_def

lemma mh_dispatch_wf [mh_wf_intro]: "mh_wf (me_hash E) h \<Longrightarrow> mh_wf (me_hash E) (mh_dispatch E i t payload h)"
  by (cases t) (auto simp: mh_handler_defs Let_def intro!: mh_wf_intro split: prod.split)


definition mh_new :: "mh_config \<Rightarrow> pm_config \<Rightarrow> mempool_config \<Rightarrow> mh" where
  "mh_new cfg pcfg mcfg = \<lparr>mh_cfg = cfg, mh_pm = PeerManager pcfg, mh_pool = empty_mempool mcfg, mh_out = []\<rparr>"

text \<open>
  What happens to a node: frames arrive, with the environment at that moment, the peer and the
  bytes; the peer manager adds, greets, bans, evicts or forgets peers; the pool is used by its
  other callers, over the UTXO set they see. The hash function is fixed.
\<close>

datatype node_event =
    Frame mh_env string bytes | PeerCall pm_op | PoolCall "string \<Rightarrow> u32 \<Rightarrow> u64 option" mempool_op

definition node_step :: "(string \<Rightarrow> u64) \<Rightarrow> node_event \<Rightarrow> mh \<Rightarrow> mh" where
  "node_step hash ev h =
     (case ev of
        Frame E i raw \<Rightarrow> handleRaw (E\<lparr>me_hash := hash\<rparr>) i raw h
      | PeerCall op \<Rightarrow> h\<lparr>mh_pm := pm_step hash op (mh_pm h)\<rparr>
      | PoolCall utxo op \<Rightarrow> h\<lparr>mh_pool := mempool_step utxo op (mh_pool h)\<rparr>)"

definition mh_run :: "(string \<Rightarrow> u64) \<Rightarrow> node_event list \<Rightarrow> mh \<Rightarrow> mh" where
  "mh_run hash evs h = foldl (\<lambda>h ev. node_step hash ev h) h evs"





section \<open>Frames with a common prefix\<close>

definition mh_seen :: "mh \<Rightarrow> string set" where
  "mh_seen h = pm_seenActive (mh_pm h) \<union> pm_seenStale (mh_pm h)"

named_theorems mh_seen_simp

lemma pm_seen_kept:
  "pm_seenActive (pm_penalizePeer hash now i x m) = pm_seenActive m" "pm_seenStale (pm_penalizePeer hash now i x m) = pm_seenStale m"
  "pm_seenActive (pm_rewardPeer hash now i x m) = pm_seenActive m" "pm_seenStale (pm_rewardPeer hash now i x m) = pm_seenStale m"
  "pm_seenActive (pm_recordDecodeError hash now i m) = pm_seenActive m" "pm_seenStale (pm_recordDecodeError hash now i m) = pm_seenStale m"
  "pm_seenActive (snd (pm_banPeer hash now i m)) = pm_seenActive m" "pm_seenStale (snd (pm_banPeer hash now i m)) = pm_seenStale m"
  "pm_seenActive (snd (pm_checkRateLimit hash now i n m)) = pm_seenActive m"
  "pm_seenStale (snd (pm_checkRateLimit hash now i n m)) = pm_seenStale m"
  by (simp_all add: pm_penalizePeer_def pm_rewardPeer_def pm_applyScore_def pm_recordDecodeError_def pm_banPeer_def
      pm_checkRateLimit_def pm_add_def pm_emit_def pm_update_def pm_on_shards_def Let_def split: option.split)

lemma mh_seen_kept [mh_seen_simp]:
  "mh_seen (mh_emit e h) = mh_seen h" "mh_seen (mh_penalize E i x h) = mh_seen h" "mh_seen (mh_reward E i x h) = mh_seen h"
  "mh_seen (mh_decodeError E i h) = mh_seen h" "mh_seen (mh_ban E i h) = mh_seen h" "mh_seen (h\<lparr>mh_pool := pool\<rparr>) = mh_seen h"
  by (simp_all add: mh_seen_def mh_emit_def mh_penalize_def mh_reward_def mh_decodeError_def mh_ban_def pm_seen_kept)

lemma hints_seen [mh_seen_simp]:
  "mh_seen (foldl (\<lambda>h (addr, port). mh_emit (MhHint addr port i) h) h hints) = mh_seen h"
  by (induction hints arbitrary: h) (auto simp: mh_seen_simp)

lemma handleTransaction_seen [mh_seen_simp]: "mh_seen (handleTransaction E i payload h) = mh_seen h"
  by (simp add: handleTransaction_def Let_def mh_seen_simp split: option.split prod.split)

lemma batch_loop_seen [mh_seen_simp]: "mh_seen (batch_loop E i n payload off h) = mh_seen h"
  by (induction n arbitrary: off h) (simp_all add: Let_def mh_seen_simp)

lemma dispatch_seen [mh_seen_simp]: "mh_seen (mh_dispatch E i t payload h) = mh_seen h"
  by (cases t) (simp_all add: mh_handler_defs Let_def mh_seen_simp split: prod.split)

text \<open>What a frame whose id is known does: the answers and the pool stay.\<close>

lemma mh_pm_only [simp]:
  "mh_out (mh_penalize E i x h) = mh_out h" "mh_pool (mh_penalize E i x h) = mh_pool h"
  "mh_out (mh_decodeError E i h) = mh_out h" "mh_pool (mh_decodeError E i h) = mh_pool h"
  "mh_cfg (mh_penalize E i x h) = mh_cfg h" "mh_cfg (mh_decodeError E i h) = mh_cfg h"
  "mh_cfg (mh_reward E i x h) = mh_cfg h" "mh_cfg (mh_ban E i h) = mh_cfg h" "mh_cfg (mh_emit e h) = mh_cfg h"
  "mh_out (mh_reward E i x h) = mh_out h" "mh_pool (mh_reward E i x h) = mh_pool h"
  "mh_out (mh_ban E i h) = mh_out h" "mh_pool (mh_ban E i h) = mh_pool h"
  "mh_out (mh_emit e h) = mh_out h @ [e]" "mh_pool (mh_emit e h) = mh_pool h"
  by (simp_all add: mh_penalize_def mh_decodeError_def mh_reward_def mh_ban_def mh_emit_def)

lemma known_frame_ignored:
  assumes "msg_id raw \<in> mh_seen h"
  shows "mh_out (handleRaw E i raw h) = mh_out h \<and> mh_pool (handleRaw E i raw h) = mh_pool h"
proof -
  obtain ok pm where r: "pm_checkRateLimit (me_hash E) (me_now E) i (length raw) (mh_pm h) = (ok, pm)" by fastforce
  then have "msg_id raw \<in> pm_seenActive pm \<union> pm_seenStale pm"
    using assms pm_seen_kept(9,10) [of "me_hash E" "me_now E" i "length raw" "mh_pm h"] by (simp add: mh_seen_def)
  then have "\<not> fst (markSeen (msg_id raw) pm)" by (auto simp: markSeen_def Let_def)
  then show ?thesis
    by (auto simp: handleRaw_def r Let_def split: sum.split prod.split)
qed

text \<open>Whether a frame gets as far as deduplication.\<close>

definition reaches_dedup :: "mh_env \<Rightarrow> string \<Rightarrow> bytes \<Rightarrow> mh \<Rightarrow> bool" where
  "reaches_dedup E i raw h \<longleftrightarrow>
     fst (pm_checkRateLimit (me_hash E) (me_now E) i (length raw) (mh_pm h)) \<and>
     (case mh_decodeFrame raw (mc_networkMagic (mh_cfg h)) of
        Inl e \<Rightarrow> False
      | Inr (t, payload) \<Rightarrow> length payload \<le> mc_maxPayloadBytes (mh_cfg h))"

lemma dedup_remembers:
  assumes "reaches_dedup E i raw h"
  shows "msg_id raw \<in> mh_seen (handleRaw E i raw h)"
proof -
  obtain pm where r: "pm_checkRateLimit (me_hash E) (me_now E) i (length raw) (mh_pm h) = (True, pm)"
    using assms by (cases "pm_checkRateLimit (me_hash E) (me_now E) i (length raw) (mh_pm h)") (simp add: reaches_dedup_def)
  obtain t p where d: "mh_decodeFrame raw (mc_networkMagic (mh_cfg h)) = Inr (t, p)" "\<not> length p > mc_maxPayloadBytes (mh_cfg h)"
    using assms by (auto simp: reaches_dedup_def split: sum.splits)
  obtain fresh pm' where s: "markSeen (msg_id raw) pm = (fresh, pm')" by fastforce
  then have "msg_id raw \<in> pm_seenActive pm' \<union> pm_seenStale pm'"
    by (auto simp: markSeen_def Let_def pm_add_def split: if_splits)
  then have "msg_id raw \<in> mh_seen (h\<lparr>mh_pm := pm'\<rparr>)" by (simp add: mh_seen_def)
  then show ?thesis using d by (simp add: handleRaw_def r s Let_def mh_seen_simp)
qed

text \<open>
  the id by which a frame is deduplicated is its first 32 bytes, for the whole network:
  once a frame of any peer has been handled, the next frame that agrees with it there, from any
  peer and whatever follows those bytes, is dropped without answer and without touching the pool.
\<close>

theorem common_prefix_dropped:
  assumes "reaches_dedup E i raw h" and "take 32 raw' = take 32 raw"
  shows "let h1 = handleRaw E i raw h; h2 = handleRaw E' j raw' h1 in mh_out h2 = mh_out h1 \<and> mh_pool h2 = mh_pool h1"
proof -
  have "msg_id raw' = msg_id raw" using assms(2) by (simp add: msg_id_def)
  then show ?thesis using dedup_remembers [OF assms(1)] known_frame_ignored by (simp add: Let_def)
qed

text \<open>A peer manager that knows two peers.\<close>

definition two_peers :: peer_manager where
  "two_peers = (PeerManager default_pm_config)\<lparr>pm_shards := \<lparr>sh_count = 1,
     sh_maps = [[(''a'', default_info\<lparr>pi_id := ''a'', pi_address := ''h'', pi_score := 50, pi_tokenMsgBucket := 9, pi_tokenByteBucket := 999\<rparr>),
                 (''b'', default_info\<lparr>pi_id := ''b'', pi_address := ''h'', pi_score := 50, pi_tokenMsgBucket := 9, pi_tokenByteBucket := 999\<rparr>)]]\<rparr>\<rparr>"

definition sample_env :: mh_env where
  "sample_env = \<lparr>me_hash = (\<lambda>k. 0), me_now = 0, me_utxo = (\<lambda>h i. None), me_isOpen = True, me_baseFee = 1, me_height = 3\<rparr>"

definition sample_mh :: mh where
  "sample_mh = (mh_new default_mh_config default_pm_config default_mempool_config)\<lparr>mh_pm := two_peers\<rparr>"

lemma ping_decoded:
  "mh_decodeFrame (buildPing cfg) (mc_networkMagic cfg) = Inr (MPing, [])" "length (buildPing cfg) = 9"
  by (simp_all add: buildPing_def decode_encode) (simp add: mh_encodeFrame_eq FRAME_HEADER_SIZE_def)

lemma sample_reaches: "reaches_dedup sample_env ''a'' (buildPing default_mh_config) sample_mh"
  using ping_decoded [of default_mh_config]
  by (simp add: reaches_dedup_def sample_mh_def mh_new_def)
    (simp add: pm_checkRateLimit_def pm_getPeer_def two_peers_def sample_env_def sh_find_def shard_of_def shardIndex_def
      pm_refillBucket_def default_info_def Let_def)

text \<open>Peer a's ping was handled; peer b's ping gets no answer.\<close>

theorem common_prefix_dropped_witness:
  "let ping = buildPing default_mh_config; h1 = handleRaw sample_env ''a'' ping sample_mh; h2 = handleRaw sample_env ''b'' ping h1
   in mh_out h2 = mh_out h1 \<and> mh_pool h2 = mh_pool h1"
  using common_prefix_dropped [OF sample_reaches] by simp

section \<open>Transactions\<close>

lemma buildTx_text: "buildTx cfg tx = mh_encodeFrame MTransaction (str_bytes (tx_text tx)) (mc_networkMagic cfg)"
  by (simp add: buildTx_def tx_text_def)

lemma read_wire_tx_text:
  assumes "CHR ''|'' \<notin> set (tx_toAddress tx)" and "CHR ''|'' \<notin> set (tx_txHash tx)"
  shows "read_wire_tx (tx_text tx) = Some (sent_tx tx)"
proof -
  have "holds_fields CHR ''|'' (sent_tokens tx @ []) (open_stream (tx_text tx))"
    using assms stream_of_open [of "sent_tokens tx" "CHR ''|''"]
    by (auto simp: tx_text_join holds_fields_def sent_tokens_def)
  moreover have "apply_fields wire_tx_readers (sent_tokens tx) default_tx = Some (sent_tx tx)"
    by (simp add: wire_tx_readers_def sent_tokens_def sent_tx_def)
  ultimately obtain st where
    "read_fields CHR ''|'' wire_tx_readers (open_stream (tx_text tx)) default_tx = (st, sent_tx tx, True)"
    using read_fields_tokens [of "CHR ''|''" "sent_tokens tx" "[]" _ wire_tx_readers default_tx]
    by (auto simp: wire_tx_readers_def sent_tokens_def)
  then show ?thesis by (simp add: read_wire_tx_def)
qed

text \<open>The transaction that arrives, once its frame is through.\<close>

definition offer_tx :: "mh_env \<Rightarrow> string \<Rightarrow> transaction \<Rightarrow> bytes \<Rightarrow> mh \<Rightarrow> mh" where
  "offer_tx E i tx payload h =
     (if length (tx_txHash tx) \<noteq> 64 then mh_penalize E i 5 h
      else case addTransaction (me_utxo E) (me_now E) (me_baseFee E) tx (mh_pool h) of
        (pool, ok) \<Rightarrow>
          if ok then mh_emit (MhBroadcast MTransaction payload i) (mh_emit (MhTx tx i) (mh_reward E i (1 / 2) (h\<lparr>mh_pool := pool\<rparr>)))
          else h\<lparr>mh_pool := pool\<rparr>)"

lemma handle_sent:
  assumes "CHR ''|'' \<notin> set (tx_toAddress tx)" and "CHR ''|'' \<notin> set (tx_txHash tx)"
  shows "handleTransaction E i (str_bytes (tx_text tx)) h = offer_tx E i (sent_tx tx) (str_bytes (tx_text tx)) h"
proof -
  have "tx_isValid (sent_tx tx) \<longleftrightarrow> length (tx_txHash (sent_tx tx)) = 64" by (auto simp: tx_isValid_def sent_tx_def)
  then show ?thesis
    by (simp add: handleTransaction_def offer_tx_def read_wire_tx_text [OF assms] Let_def split: prod.split)
qed

lemma handleRaw_tx:
  assumes "CHR ''|'' \<notin> set (tx_toAddress tx)" and "CHR ''|'' \<notin> set (tx_txHash tx)"
    and "length (tx_text tx) \<le> MAX_PAYLOAD_SIZE" and "mc_networkMagic cfg = mc_networkMagic (mh_cfg h)"
  shows "handleRaw E i (buildTx cfg tx) h =
    (let (ok, pm) = pm_checkRateLimit (me_hash E) (me_now E) i (length (buildTx cfg tx)) (mh_pm h);
         (fresh, pm') = markSeen (msg_id (buildTx cfg tx)) pm
     in if \<not> ok then mh_penalize E i 5 (h\<lparr>mh_pm := pm\<rparr>)
        else if length (tx_text tx) > mc_maxPayloadBytes (mh_cfg h) then mh_penalize E i 10 (h\<lparr>mh_pm := pm\<rparr>)
        else if \<not> fresh then h\<lparr>mh_pm := pm'\<rparr>
        else offer_tx E i (sent_tx tx) (str_bytes (tx_text tx)) (mh_reward E i (1 / 10) (h\<lparr>mh_pm := pm'\<rparr>)))"
proof -
  have d: "mh_decodeFrame (buildTx cfg tx) (mc_networkMagic (mh_cfg h)) = Inr (MTransaction, str_bytes (tx_text tx))"
    using assms(3,4) decode_encode [of MTransaction "str_bytes (tx_text tx)" "mc_networkMagic cfg"]
    by (simp add: buildTx_text)
  show ?thesis by (auto simp: handleRaw_def d handle_sent [OF assms(1,2)] Let_def split: prod.split)
qed

text \<open>
  C11: a transaction frame of another node of the network, whose address and hash contain no
  separator, as \<^verbatim>\<open>handleRaw\<close> handles it, on every path. It may be stopped before it is read:
  when the sender is unknown or over its rate limit it costs 5 points; when the payload is longer than
  configured it costs 10; when a frame with the same first 32 bytes was seen before it is dropped.
  Otherwise the sender is rewarded, and the transaction the frame stands for (chain id, nonce,
  address, value, gas, fees and hash, without inputs, outputs, data and signature) costs the
  sender 5 points if its hash has not 64 characters and is offered to the pool as it is if it
  has: when the pool takes it, the callback is called and the same payload is broadcast to the
  other peers.
\<close>

theorem tx_relay_exact:
  assumes "CHR ''|'' \<notin> set (tx_toAddress tx)" and "CHR ''|'' \<notin> set (tx_txHash tx)"
    and "length (tx_text tx) \<le> MAX_PAYLOAD_SIZE" and "mc_networkMagic cfg = mc_networkMagic (mh_cfg h)"
  shows "handleRaw E i (buildTx cfg tx) h =
    (let raw = buildTx cfg tx; payload = str_bytes (tx_text tx);
         (ok, pm) = pm_checkRateLimit (me_hash E) (me_now E) i (length raw) (mh_pm h);
         (fresh, pm') = markSeen (msg_id raw) pm;
         h' = mh_reward E i (1 / 10) (h\<lparr>mh_pm := pm'\<rparr>)
     in if \<not> ok then mh_penalize E i 5 (h\<lparr>mh_pm := pm\<rparr>)
        else if length payload > mc_maxPayloadBytes (mh_cfg h) then mh_penalize E i 10 (h\<lparr>mh_pm := pm\<rparr>)
        else if \<not> fresh then h\<lparr>mh_pm := pm'\<rparr>
        else if length (tx_txHash tx) \<noteq> 64 then mh_penalize E i 5 h'
        else case addTransaction (me_utxo E) (me_now E) (me_baseFee E) (sent_tx tx) (mh_pool h) of
          (pool, taken) \<Rightarrow>
            if taken then mh_emit (MhBroadcast MTransaction payload i)
              (mh_emit (MhTx (sent_tx tx) i) (mh_reward E i (1 / 2) (h'\<lparr>mh_pool := pool\<rparr>)))
            else h'\<lparr>mh_pool := pool\<rparr>)"
proof -
  have l: "tx_txHash (sent_tx tx) = tx_txHash tx" by (simp add: sent_tx_def)
  show ?thesis
    by (auto simp: handleRaw_tx [OF assms] offer_tx_def l Let_def split: prod.split)
qed

text \<open>A batch: frames, each behind its length.\<close>

lemma mh_batch_eq:
  "mh_batch cfg txs = be_bytes4 (word_of_nat (length txs)) @
     concat (map (\<lambda>tx. be_bytes4 (word_of_nat (length (buildTx cfg tx))) @ buildTx cfg tx) txs)"
proof -
  have "foldl (\<lambda>payload tx. let txFrame = buildTx cfg tx in payload @ mh_writeUint32BE (word_of_nat (length txFrame)) @ txFrame) b xs
      = b @ concat (map (\<lambda>tx. be_bytes4 (word_of_nat (length (buildTx cfg tx))) @ buildTx cfg tx) xs)" for b xs
    by (induction xs arbitrary: b) (simp_all add: Let_def mh_writeUint32BE_def)
  then show ?thesis by (simp add: mh_batch_def mh_writeUint32BE_def)
qed

lemma frame_is_no_tx:
  assumes "mc_networkMagic cfg = ''MEDOR''"
  shows "read_wire_tx (bytes_str (buildTx cfg tx)) = None"
proof (cases "buildTx cfg tx")
  case Nil
  then show ?thesis
    by (simp add: read_wire_tx_def wire_tx_readers_def num_field_def first_token stoull_def bytes_str_def)
next
  case (Cons b bs)
  then have "b = byte_of_char CHR ''M''"
    using assms by (auto simp: buildTx_text mh_encodeFrame_eq frame_head_def upt_rec magic_byte_def split: if_splits)
  then have "char_of_byte b = CHR ''M''" by simp
  then have "takeWhile (\<lambda>c. c \<noteq> CHR ''|'') (bytes_str (buildTx cfg tx)) = CHR ''M'' # takeWhile (\<lambda>c. c \<noteq> CHR ''|'') (bytes_str bs)"
    by (simp add: Cons bytes_str_def)
  then have "is_token (getline CHR ''|'' (open_stream (bytes_str (buildTx cfg tx)))) = CHR ''M'' # takeWhile (\<lambda>c. c \<noteq> CHR ''|'') (bytes_str bs)"
    by (simp add: first_token)
  moreover have "stoull (CHR ''M'' # cs) = Inl Invalid_argument" for cs
    by (simp add: stoull_def is_space_def is_digit_def)
  ultimately show ?thesis
    by (simp add: read_wire_tx_def wire_tx_readers_def num_field_def)
qed

definition tx_refused :: "mh_env \<Rightarrow> string \<Rightarrow> mh \<Rightarrow> mh" where
  "tx_refused E i h = mh_decodeError E i (mh_penalize E i 5 h)"

lemma length_buildTx: "unat (word_of_nat (length (buildTx cfg tx)) :: u32) = length (buildTx cfg tx)"
  by (simp add: buildTx_text mh_encodeFrame_eq FRAME_HEADER_SIZE_def MAX_PAYLOAD_SIZE_def unat_of_nat)

lemma readUint32_at: "mh_readUint32BE (pre @ be_bytes4 w @ rest) (length pre) = w"
  using word4_bytes4 [of w] by (simp add: mh_readUint32BE_def nth_append)

lemma batch_loop_frames:
  assumes "mc_networkMagic cfg = ''MEDOR''"
    and "payload = pre @ concat (map (\<lambda>tx. be_bytes4 (word_of_nat (length (buildTx cfg tx))) @ buildTx cfg tx) txs)"
    and "n \<le> length txs"
  shows "batch_loop E i n payload (length pre) h = (tx_refused E i ^^ n) h"
  using assms(2,3)
proof (induction n arbitrary: pre txs h)
  case (Suc n)
  then obtain tx txs' where txs: "txs = tx # txs'" by (cases txs) auto
  let ?f = "buildTx cfg tx" let ?w = "word_of_nat (length ?f) :: u32"
  let ?pre = "pre @ be_bytes4 ?w @ ?f"
  define rest where "rest = concat (map (\<lambda>tx. be_bytes4 (word_of_nat (length (buildTx cfg tx))) @ buildTx cfg tx) txs')"
  have p: "payload = pre @ be_bytes4 ?w @ ?f @ rest" using Suc.prems(1) by (simp add: txs rest_def)
  have len: "unat (mh_readUint32BE payload (length pre)) = length ?f"
    unfolding p readUint32_at by (rule length_buildTx)
  have "take (length ?f) (drop (length pre + 4) payload) = ?f" by (simp add: p)
  moreover have "handleTransaction E i ?f h = tx_refused E i h"
    using frame_is_no_tx [OF assms(1)] by (simp add: handleTransaction_def tx_refused_def)
  ultimately have "batch_loop E i (Suc n) payload (length pre) h = batch_loop E i n payload (length ?pre) (tx_refused E i h)"
    by (simp add: len Let_def) (simp add: p add.assoc)
  also have "\<dots> = (tx_refused E i ^^ n) (tx_refused E i h)"
    using Suc.prems by (intro Suc.IH [of ?pre txs']) (simp_all add: p rest_def txs)
  finally show ?case by (simp add: funpow_Suc_right del: funpow.simps)
qed simp

text \<open>
  a batch that a node of the network builds is never accepted by another. The builder puts
  whole frames into it and the reader expects bare transactions, so that every entry is
  refused: for each of the first thousand the sender is penalised with 5 points and a decode
  error, the pool and the outbound messages staying as they are.
\<close>

theorem batch_refused:
  assumes "mc_networkMagic cfg = ''MEDOR''" and "length txs < 2 ^ 32"
  shows "handleTxBatch E i (mh_batch cfg txs) h = (tx_refused E i ^^ min (length txs) 1000) h \<and>
    mh_pool (handleTxBatch E i (mh_batch cfg txs) h) = mh_pool h \<and>
    mh_out (handleTxBatch E i (mh_batch cfg txs) h) = mh_out h"
proof -
  have kept: "mh_pool ((tx_refused E i ^^ n) h) = mh_pool h \<and> mh_out ((tx_refused E i ^^ n) h) = mh_out h" for n
    by (induction n) (simp_all add: tx_refused_def)
  have u: "unat (word_of_nat (length txs) :: u32) = length txs" using assms(2) by (simp add: unat_of_nat)
  then have count: "unat (min (mh_readUint32BE (mh_batch cfg txs) 0) 1000) = min (length txs) 1000"
    using readUint32_at [of "[]"] by (simp add: mh_batch_eq min_def word_le_nat_alt)
  have "batch_loop E i (min (length txs) 1000) (mh_batch cfg txs) 4 h = (tx_refused E i ^^ min (length txs) 1000) h"
    using batch_loop_frames [OF assms(1), of "mh_batch cfg txs" "be_bytes4 (word_of_nat (length txs))" txs "min (length txs) 1000"]
    by (simp add: mh_batch_eq)
  then show ?thesis using kept count by (simp add: handleTxBatch_def) (simp add: mh_batch_eq)
qed

definition wire_sample :: transaction where
  "wire_sample = default_tx\<lparr>tx_toAddress := ''M1'', tx_txHash := ''ab''\<rparr>"

text \<open>
  A node that starts, learns of a peer, and receives from it a transaction with a hash of 64
  characters: the frame is read, the pool takes the transaction and it is broadcast.
\<close>

definition good_tx :: transaction where
  "good_tx = default_tx\<lparr>tx_toAddress := ''M1'', tx_txHash := replicate 64 CHR ''a'', tx_maxFeePerGas := 5,
     tx_maxPriorityFeePerGas := 1\<rparr>"

definition peer_a :: peer_info where
  "peer_a = default_info\<lparr>pi_id := ''a'', pi_address := ''h'', pi_score := 50\<rparr>"

definition one_shard :: pm_config where
  "one_shard = default_pm_config\<lparr>pc_peerMapShards := 1, pc_adaptiveSharding := False\<rparr>"

definition started :: mh where
  "started = mh_run (\<lambda>k. 0) [PeerCall (PmAddPeer 0 peer_a)] (mh_new default_mh_config one_shard default_mempool_config)"

lemma good_text:
  "CHR ''|'' \<notin> set (tx_toAddress good_tx)" "CHR ''|'' \<notin> set (tx_txHash good_tx)" "length (tx_txHash good_tx) = 64"
  "sent_tx good_tx = good_tx" "length (tx_text good_tx) \<le> 1000"
  by (simp_all add: good_tx_def sent_tx_def default_tx_def) code_simp

lemma good_frame: "length (buildTx default_mh_config good_tx) \<le> 20971520"
  using good_text(5) by (simp add: buildTx_text mh_encodeFrame_eq FRAME_HEADER_SIZE_def)

lemma good_taken:
  "\<exists>pool. addTransaction (me_utxo sample_env) (me_now sample_env) (me_baseFee sample_env) good_tx
     (empty_mempool default_mempool_config) = (pool, True) \<and> getTransactions pool = [good_tx]"
proof -
  let ?m = "empty_mempool default_mempool_config"
  let ?m1 = "insert_entry 0 good_tx 1 ?m"
  have n: "estimateTxBytes good_tx = 270" by (simp add: estimateTxBytes_def good_tx_def default_tx_def)
  have e: "mp_entries ?m = []" "mp_totalBytes ?m = 0" "mp_orphans ?m = []" "mp_cfg ?m = default_mempool_config"
    by (simp_all add: empty_mempool_def)
  have v: "validateTx u good_tx 1 ?m" for u
    by (simp add: validateTx_def e) (simp add: good_tx_def default_tx_def default_mempool_config_def effectiveFee_def tx_isValid_def Let_def)
  have "tx_inputs good_tx = []" by (simp add: good_tx_def default_tx_def)
  then have "\<not> isDoubleSpend good_tx ?m" "checkNonceOrdering good_tx ?m" "\<not> full_for (estimateTxBytes good_tx) ?m"
    unfolding isDoubleSpend_def checkNonceOrdering_def full_for_def e n by (simp_all add: default_mempool_config_def)
  then have "admit u 0 1 good_tx ?m = (?m1, True)" for u
    using n v by (simp add: admit_def e Let_def)
  moreover have "mp_orphans ?m1 = []" by (simp add: insert_entry_def e count_defs Let_def)
  moreover have "getTransactions (enqueuePersist good_tx ?m1) = [good_tx]"
    using insert_entry_entries [of ?m good_tx] by (simp add: getTransactions_def e)
  ultimately show ?thesis
    by (simp add: addTransaction_def take_dependents_def sample_env_def getTransactions_def Let_def)
qed

lemma started_table:
  "pm_getPeer (\<lambda>k. 0) ''a'' (mh_pm started) = Some (peer_a\<lparr>pi_tokenMsgBucket := 400, pi_tokenByteBucket := 20971520,
     pi_tokenLastRefill := 0, pi_dirty := True\<rparr>)"
  "pm_seenActive (mh_pm started) = {}" "pm_seenStale (mh_pm started) = {}"
proof -
  let ?m = "PeerManager one_shard"
  have e: "pm_shards ?m = \<lparr>sh_count = 1, sh_maps = [[]]\<rparr>" "pm_maxPeers ?m = 1000" "\<not> pc_adaptiveSharding (pm_cfg ?m)"
    "pc_tokenBucketBurstMsg (pm_cfg ?m) = 400" "pc_tokenBucketBurstBytes (pm_cfg ?m) = 20971520"
    "pm_seenActive ?m = {}" "pm_seenStale ?m = {}"
    by (simp_all add: PeerManager_def one_shard_def default_pm_config_def new_shards_def)
  have i: "pi_id peer_a = ''a''" "pi_address peer_a = ''h''" by (simp_all add: peer_a_def)
  have "mh_pm started = snd (pm_addPeer (\<lambda>k. 0) 0 peer_a ?m)"
    by (simp add: started_def mh_run_def node_step_def mh_new_def pm_step_def)
  then show "pm_getPeer (\<lambda>k. 0) ''a'' (mh_pm started) = Some (peer_a\<lparr>pi_tokenMsgBucket := 400, pi_tokenByteBucket := 20971520,
     pi_tokenLastRefill := 0, pi_dirty := True\<rparr>)"
    "pm_seenActive (mh_pm started) = {}" "pm_seenStale (mh_pm started) = {}"
    by (simp_all add: pm_addPeer_def e i pm_peerCount_def sh_size_def pm_hasPeer_def pm_getPeer_def sh_find_def shard_of_def
        shardIndex_def sh_emplace_def on_shard_def alist_emplace_def pm_on_shards_def pm_add_def markDirty_def pm_emit_def Let_def)
qed

lemma started_peer:
  assumes "n \<le> 20971520"
  shows "\<exists>pm. pm_checkRateLimit (\<lambda>k. 0) 0 ''a'' n (mh_pm started) = (True, pm) \<and> fst (markSeen m pm)"
proof -
  have r: "fst (pm_checkRateLimit (\<lambda>k. 0) 0 ''a'' n (mh_pm started))"
    using assms by (simp add: pm_checkRateLimit_def started_table pm_refillBucket_def)
  obtain pm where pm: "pm_checkRateLimit (\<lambda>k. 0) 0 ''a'' n (mh_pm started) = (True, pm)"
    using r by (metis prod.collapse)
  have "pm_seenActive pm = {}" "pm_seenStale pm = {}"
    using pm_seen_kept(9,10) [of "\<lambda>k. 0" 0 "''a''" n "mh_pm started"] by (simp_all add: pm started_table)
  then have "fst (markSeen m pm)" by (simp add: markSeen_def Let_def)
  with pm show ?thesis by blast
qed

lemma started_rest: "mh_cfg started = default_mh_config" "mh_pool started = empty_mempool default_mempool_config"
    "mh_out started = []"
  by (simp_all add: started_def mh_run_def node_step_def mh_new_def)

theorem tx_relay_exact_witness:
  "let h = handleRaw sample_env ''a'' (buildTx default_mh_config good_tx) started; payload = str_bytes (tx_text good_tx) in
     mh_out h = [MhTx good_tx ''a'', MhBroadcast MTransaction payload ''a''] \<and> getTransactions (mh_pool h) = [good_tx]"
proof -
  obtain pool where pool: "addTransaction (me_utxo sample_env) (me_now sample_env) (me_baseFee sample_env) good_tx
      (empty_mempool default_mempool_config) = (pool, True)" "getTransactions pool = [good_tx]"
    using good_taken by blast
  obtain pm where pm: "pm_checkRateLimit (\<lambda>k. 0) 0 ''a'' (length (buildTx default_mh_config good_tx)) (mh_pm started) = (True, pm)"
    "fst (markSeen (msg_id (buildTx default_mh_config good_tx)) pm)"
    using started_peer [OF good_frame] by blast
  have c: "length (tx_text good_tx) \<le> MAX_PAYLOAD_SIZE" "\<not> mc_maxPayloadBytes default_mh_config < length (tx_text good_tx)"
    using good_text(5) by (simp_all add: MAX_PAYLOAD_SIZE_def default_mh_config_def)
  have env: "me_hash sample_env = (\<lambda>k. 0)" "me_now sample_env = 0" by (simp_all add: sample_env_def)
  show ?thesis
    using tx_relay_exact [OF good_text(1,2) c(1), of default_mh_config started sample_env "''a''"] pool pm c(2)
    by (simp add: started_rest env good_text Let_def split_beta)
qed


theorem batch_refused_witness:
  "handleTxBatch sample_env ''a'' (mh_batch default_mh_config [wire_sample]) sample_mh = tx_refused sample_env ''a'' sample_mh"
  using batch_refused [of default_mh_config "[wire_sample]" sample_env "''a''" sample_mh]
  by (simp add: default_mh_config_def)

section \<open>Handshakes\<close>

lemma readString_written:
  assumes "length s \<le> MAX_PAYLOAD_SIZE"
  shows "readString (pre @ writeString s @ rest) (length pre) = (s, length pre + 4 + length s)"
proof -
  have "unat (word_of_nat (length s) :: u32) = length s" using assms by (rule small_payload)
  then show ?thesis
    using assms readUint32_at [of pre "word_of_nat (length s)" "str_bytes s @ rest"]
    by (simp add: readString_def writeString_def mh_writeUint32BE_def Let_def)
qed

definition handshake_payload :: "mh_config \<Rightarrow> bytes" where
  "handshake_payload cfg = be_bytes4 (mc_protocolVersion cfg) @ writeString (mc_networkMagic cfg) @ writeString (mc_nodeId cfg)"

lemma buildHandshake_eq:
  "buildHandshake cfg = mh_encodeFrame MHandshake (handshake_payload cfg) (mc_networkMagic cfg)"
  by (simp add: buildHandshake_def handshake_payload_def mh_writeUint32BE_def)

text \<open>
  to the handshake of another node the handler answers exactly so: a version outside the
  accepted range is rejected and costs 20 points, another network's full name is rejected and the peer banned,
  and otherwise the peer earns 5 points and is sent a handshake again, not an acknowledgement. The
  node id the peer announces has no influence.
\<close>

theorem handshake_answer:
  assumes "length (mc_networkMagic cfg) + length (mc_nodeId cfg) + 12 \<le> MAX_PAYLOAD_SIZE"
  shows "handleHandshake E i (handshake_payload cfg) h =
     (if \<not> (mc_minPeerVersion (mh_cfg h) \<le> mc_protocolVersion cfg \<and> mc_protocolVersion cfg \<le> mc_maxPeerVersion (mh_cfg h))
      then mh_penalize E i 20 (mh_emit (MhSend i (buildReject (mh_cfg h) ''incompatible protocol version'')) h)
      else if mc_networkMagic cfg \<noteq> mc_networkMagic (mh_cfg h)
      then mh_ban E i (mh_emit (MhSend i (buildReject (mh_cfg h) ''wrong network'')) h)
      else mh_emit (MhSend i (buildHandshake (mh_cfg h))) (mh_reward E i 5 h)) \<and>
    mh_decodeFrame (buildHandshake (mh_cfg h)) (mc_networkMagic (mh_cfg h)) \<noteq> Inr (MHandshakeAck, p)"
proof -
  let ?v = "be_bytes4 (mc_protocolVersion cfg)" let ?m = "mc_networkMagic cfg" let ?n = "mc_nodeId cfg"
  have len: "length (handshake_payload cfg) = 12 + length ?m + length ?n"
    by (simp add: handshake_payload_def writeString_def mh_writeUint32BE_def)
  have ver: "mh_readUint32BE (handshake_payload cfg) 0 = mc_protocolVersion cfg"
    using readUint32_at [of "[]"] by (simp add: handshake_payload_def)
  have m: "readString (handshake_payload cfg) 4 = (?m, 8 + length ?m)"
    using readString_written [of ?m ?v "writeString ?n"] assms by (simp add: handshake_payload_def)
  have n: "readString (handshake_payload cfg) (8 + length ?m) = (?n, 12 + length ?m + length ?n)"
    using readString_written [of ?n "?v @ writeString ?m" "[]"] assms
    by (simp add: handshake_payload_def writeString_def mh_writeUint32BE_def)
  have "mh_decodeFrame (buildHandshake (mh_cfg h)) (mc_networkMagic (mh_cfg h)) \<noteq> Inr (MHandshakeAck, p)"
    using decode_encode [of MHandshake "handshake_payload (mh_cfg h)" "mc_networkMagic (mh_cfg h)"]
    by (cases "length (handshake_payload (mh_cfg h)) \<le> MAX_PAYLOAD_SIZE")
      (simp_all add: buildHandshake_eq, simp add: mh_encodeFrame_eq mh_decodeFrame_def FRAME_HEADER_SIZE_def)
  then show ?thesis
    using len by (auto simp: handleHandshake_def ver m n not_le Let_def)
qed

theorem handshake_answer_witness:
  "mh_out (handleHandshake sample_env ''a'' (handshake_payload (default_mh_config\<lparr>mc_networkMagic := ''MEDOR-2''\<rparr>)) sample_mh)
     = [MhSend ''a'' (buildReject default_mh_config ''wrong network'')]"
  using handshake_answer [of "default_mh_config\<lparr>mc_networkMagic := ''MEDOR-2''\<rparr>" sample_env "''a''" sample_mh "[]"]
  by (simp add: sample_mh_def mh_new_def default_mh_config_def MAX_PAYLOAD_SIZE_def)

section \<open>Blocks\<close>

definition broken_block :: string where
  "broken_block = ''2|p|d|1|m|5|0|0|0|0|0|h|s|x''"

lemma broken_block_tokens:
  "broken_block = join_with CHR ''|'' [''2'', ''p'', ''d'', ''1'', ''m'', ''5'', ''0'', ''0'', ''0'', ''0'', ''0'', ''h'', ''s'', ''x'']"
  by (simp add: broken_block_def)

lemma digit_fields [simp]:
  "num_field upd ''0'' b = Some (upd 0 b)" "num_field upd ''1'' b = Some (upd 1 b)" "num_field upd ''5'' b = Some (upd 5 b)"
  "version_field ''2'' c = Some c" "stoull ''x'' = Inl Invalid_argument"
  by (simp_all add: num_field_def version_field_def stoull_def is_space_def is_digit_def digits_val_def
      BLOCK_SERIAL_VERSION_def)

text \<open>
  a block that does not parse is passed on all the same: its text breaks off at a number of
  transactions that is no number, \<^verbatim>\<open>deserialize\<close> fails with the fields read so far, and the handler,
  which looks only at the hash being there, hands the block to the callback, rewards the sender
  and broadcasts the broken text.
\<close>

theorem broken_block_relayed:
  "let (b, ok) = deserialize broken_block (default_block (me_now E)) in
     \<not> ok \<and> blk_hash b = ''h'' \<and>
     handleBlock E i (str_bytes broken_block) h =
       (if me_isOpen E
        then mh_emit (MhBroadcast MBlock (str_bytes broken_block) i) (mh_emit (MhBlock b i) (mh_reward E i 2 h))
        else h)"
proof -
  let ?ts = "[''2'', ''p'', ''d'', ''1'', ''m'', ''5'', ''0'', ''0'', ''0'', ''0'', ''0'', ''h'', ''s'']"
  let ?b = "(default_block (me_now E))\<lparr>blk_previousHash := ''p'', blk_data := ''d'', blk_difficulty := 1, blk_minerAddress := ''m'',
    blk_timestamp := 5, blk_nonce := 0, blk_reward := 0, blk_baseFee := 0, blk_gasUsed := 0, blk_gasLimit := 0, blk_hash := ''h'',
    blk_signature := ''s''\<rparr>"
  have h: "holds_fields CHR ''|'' (?ts @ [''x'']) (open_stream broken_block)"
    using stream_of_open [of "?ts @ [''x'']" "CHR ''|''"] by (simp add: broken_block_def)
  have a: "apply_fields header_readers ?ts (default_block (me_now E)) = Some ?b" by (simp add: header_readers_def)
  have l: "length header_readers = length ?ts" by (simp add: header_readers_def)
  obtain st where st: "read_fields CHR ''|'' header_readers (open_stream broken_block) (default_block (me_now E)) = (st, ?b, True)"
    "stream_of CHR ''|'' [''x''] st"
    using read_fields_tokens [OF h l a] by auto
  have ne: "broken_block \<noteq> []" by (simp add: broken_block_def)
  have "deserialize broken_block (default_block (me_now E)) = (?b, False)"
    unfolding deserialize_def st using ne st(2) by (simp add: getline_token Let_def)
  then show ?thesis by (simp add: handleBlock_def Let_def)
qed

section \<open>Peer exchange\<close>

lemma port_bytes: "push_bit 8 (ucast (ucast (drop_bit 8 p AND 0xFF) :: u8)) OR ucast (ucast (p AND 0xFF) :: u8) = (p :: u16)"
proof -
  have m: "(0xFF :: u16) = mask 8" by (simp add: mask_eq_exp_minus_1)
  show ?thesis
    unfolding m by (rule bit_word_eqI) (auto simp: bit_simps)
qed

lemma hint_entries:
  assumes "\<forall>p \<in> set ps. length (pi_address p) \<le> MAX_PAYLOAD_SIZE"
    and "payload = pre @ concat (map peer_entry ps)"
  shows "hint_loop (length ps) payload (length pre) =
    map (\<lambda>p. (pi_address p, pi_port p)) (filter (\<lambda>p. pi_address p \<noteq> [] \<and> pi_port p \<noteq> 0) ps)"
  using assms
proof (induction ps arbitrary: pre)
  case (Cons p ps)
  let ?a = "pi_address p" let ?pb = "[ucast (drop_bit 8 (pi_port p) AND 0xFF), ucast (pi_port p AND 0xFF)] :: bytes"
  define rest where "rest = concat (map peer_entry ps)"
  have pl: "payload = pre @ writeString ?a @ ?pb @ rest" using Cons.prems(2) by (simp add: peer_entry_def [of p] rest_def)
  have rs: "readString payload (length pre) = (?a, length pre + 4 + length ?a)"
    unfolding pl using Cons.prems(1) by (intro readString_written) simp
  have w: "length (writeString ?a) = 4 + length ?a" by (simp add: writeString_def mh_writeUint32BE_def)
  have nth: "payload ! (length pre + 4 + length ?a) = ?pb ! 0" "payload ! (length pre + 4 + length ?a + 1) = ?pb ! 1"
    unfolding pl using w by (simp_all add: nth_append)
  then have port: "push_bit 8 (ucast (payload ! (length pre + 4 + length ?a))) OR ucast (payload ! (length pre + 4 + length ?a + 1))
      = pi_port p" using port_bytes [of "pi_port p"] by simp
  have ih: "hint_loop (length ps) payload (length (pre @ peer_entry p)) =
      map (\<lambda>p. (pi_address p, pi_port p)) (filter (\<lambda>p. pi_address p \<noteq> [] \<and> pi_port p \<noteq> 0) ps)"
    using Cons.prems by (intro Cons.IH) simp_all
  have l: "length payload = length pre + 4 + length ?a + 2 + length rest" unfolding pl using w by simp
  have e: "length (pre @ peer_entry p) = length pre + 4 + length ?a + 2" using w by (simp add: peer_entry_def)
  show ?case
    using ih unfolding e length_Cons hint_loop.simps rs prod.case Let_def port by (simp add: l)
qed simp

text \<open>
  what a node tells about its peers another node reads as it was told: the addresses
  and ports of the first 200 active peers, those without an address or port left out; the
  reader earns the teller half a point and stores nothing.
\<close>

theorem peer_exchange_roundtrip:
  assumes "\<forall>p \<in> set (pm_getActivePeers (mh_pm h)). length (pi_address p) \<le> 255"
  shows "\<exists>payload.
    mh_out (handleGetPeers E i h) = mh_out h @ [MhSend i (mh_encodeFrame MPeers payload (mc_networkMagic (mh_cfg h)))] \<and>
    mh_decodeFrame (mh_encodeFrame MPeers payload magic) magic = Inr (MPeers, payload) \<and>
    mh_out (handlePeers E' j payload g) =
      mh_out g @ map (\<lambda>p. MhHint (pi_address p) (pi_port p) j)
        (filter (\<lambda>p. pi_address p \<noteq> [] \<and> pi_port p \<noteq> 0) (take 200 (pm_getActivePeers (mh_pm h)))) \<and>
    mh_pm (handlePeers E' j payload g) = pm_rewardPeer (me_hash E') (me_now E') j (1 / 2) (mh_pm g)"
proof -
  let ?ps = "take 200 (pm_getActivePeers (mh_pm h))"
  let ?n = "min (length (pm_getActivePeers (mh_pm h))) 200"
  define payload where "payload = be_bytes4 (word_of_nat ?n) @ concat (map peer_entry ?ps)"
  have short: "\<forall>p \<in> set ?ps. length (pi_address p) \<le> 255" using assms in_set_takeD by fastforce
  then have hints: "hint_loop (length ?ps) payload 4 =
      map (\<lambda>p. (pi_address p, pi_port p)) (filter (\<lambda>p. pi_address p \<noteq> [] \<and> pi_port p \<noteq> 0) ?ps)"
    using hint_entries [of ?ps payload "be_bytes4 (word_of_nat ?n)"] by (force simp: payload_def MAX_PAYLOAD_SIZE_def)
  have "length (concat (map peer_entry qs)) \<le> 261 * length qs" if "\<forall>p \<in> set qs. length (pi_address p) \<le> 255" for qs
    using that by (induction qs) (auto simp: peer_entry_def writeString_def mh_writeUint32BE_def)
  from this [OF short] have size: "length payload \<le> MAX_PAYLOAD_SIZE" by (simp add: payload_def MAX_PAYLOAD_SIZE_def)
  have "mh_readUint32BE payload 0 = word_of_nat ?n"
    using readUint32_at [of "[]"] by (simp add: payload_def)
  then have count: "unat (min (mh_readUint32BE payload 0) 200) = length ?ps"
    by (simp add: min_def word_le_nat_alt unat_of_nat)
  have emit: "mh_out (foldl (\<lambda>h (addr, port). mh_emit (MhHint addr port j) h) g hs) = mh_out g @ map (\<lambda>(a, p). MhHint a p j) hs \<and>
      mh_pm (foldl (\<lambda>h (addr, port). mh_emit (MhHint addr port j) h) g hs) = mh_pm g" for g hs
    by (induction hs arbitrary: g) (auto simp: mh_emit_def)
  have "length payload \<ge> 4" by (simp add: payload_def)
  then have "handlePeers E' j payload g = mh_reward E' j (1 / 2) (foldl (\<lambda>h (addr, port). mh_emit (MhHint addr port j) h) g
      (map (\<lambda>p. (pi_address p, pi_port p)) (filter (\<lambda>p. pi_address p \<noteq> [] \<and> pi_port p \<noteq> 0) ?ps)))"
    unfolding handlePeers_def count hints Let_def by simp
  then have "mh_out (handlePeers E' j payload g) = mh_out g @ map (\<lambda>p. MhHint (pi_address p) (pi_port p) j)
        (filter (\<lambda>p. pi_address p \<noteq> [] \<and> pi_port p \<noteq> 0) ?ps)"
    "mh_pm (handlePeers E' j payload g) = pm_rewardPeer (me_hash E') (me_now E') j (1 / 2) (mh_pm g)"
    using emit by (simp_all add: comp_def) (simp add: mh_reward_def emit)
  moreover have "mh_out (handleGetPeers E i h) = mh_out h @ [MhSend i (mh_encodeFrame MPeers payload (mc_networkMagic (mh_cfg h)))]"
    by (simp add: handleGetPeers_def payload_def mh_writeUint32BE_def Let_def)
  moreover have "mh_decodeFrame (mh_encodeFrame MPeers payload magic) magic = Inr (MPeers, payload)"
    using size by (simp add: decode_encode)
  ultimately show ?thesis by blast
qed

theorem peer_exchange_roundtrip_witness:
  "\<exists>payload. mh_out (handleGetPeers sample_env ''a'' sample_mh) =
       mh_out sample_mh @ [MhSend ''a'' (mh_encodeFrame MPeers payload ''MEDOR'')] \<and>
     mh_out (handlePeers sample_env ''b'' payload sample_mh) = mh_out sample_mh"
proof -
  have none: "pm_getActivePeers (mh_pm sample_mh) = []"
    by (simp add: sample_mh_def two_peers_def pm_getActivePeers_def pm_getAllPeers_def sh_entries_def default_info_def)
  have "mc_networkMagic (mh_cfg sample_mh) = ''MEDOR''" by (simp add: sample_mh_def mh_new_def default_mh_config_def)
  moreover have "\<forall>p \<in> set (pm_getActivePeers (mh_pm sample_mh)). length (pi_address p) \<le> 255" by (simp add: none)
  ultimately show ?thesis
    using peer_exchange_roundtrip [of sample_mh sample_env "''a''" "''MEDOR''" sample_env "''b''" sample_mh] none by auto
qed

end
