(* ===== verification/ApiKeys.thy ===== *)
theory ApiKeys
  imports RocksWrapper WireJson "HOL-Library.Sublist"
begin

text \<open>
  API keys, \<^verbatim>\<open>src/src/api_key_manager.cpp\<close>: records in RocksDB, creation, validation, revocation,
  rotation, and the backups after a number of writes. Parameters: RocksDB (theory \<open>AccountDB\<close>),
  the text of a JSON value (\<open>dump\<close>, \<open>None\<close> when it throws, and \<open>parse\<close>, \<open>None\<close> on a syntax error),
  the bytes \<^verbatim>\<open>/dev/urandom\<close> yields, the clock and the backup library. Of a failure the code is
  modelled, not its message. A 64-bit signed integer is a word read as two's complement.
\<close>

section \<open>Data\<close>

type_synonym i64 = "64 word"

definition NO_EXPIRY :: i64 where "NO_EXPIRY = 0"
definition KEY_HEX_LEN :: nat where "KEY_HEX_LEN = 64"
definition MAX_CLIENT_ID_LEN :: nat where "MAX_CLIENT_ID_LEN = 128"
definition MAX_LABEL_LEN :: nat where "MAX_LABEL_LEN = 256"
definition MAX_RECORD_BYTES :: nat where "MAX_RECORD_BYTES = 4096"

datatype key_error =
    KeyNotFound | KeyRevoked | KeyExpired | CorruptRecord | KeyDbError | InvalidInput | GenerationFailed
  | SerialisationError | KeyNotOpen | BackupError

record key_record =
  kr_clientId :: string
  kr_label :: string
  kr_key :: string
  kr_createdAt :: i64
  kr_expiresAt :: i64
  kr_revokedAt :: i64

record key_config =
  kc_dbPath :: string
  kc_backupPath :: string
  kc_defaultTtlSeconds :: i64
  kc_backupAfterNWrites :: u32
  kc_healthRetries :: u32

text \<open>The backup library: does creating the directory throw, and what opening and copying answer.\<close>

datatype backup_answer = BackupOk | BackupFails | BackupThrows

record backup_lib =
  bl_directory_throws :: bool
  bl_open :: backup_answer
  bl_create :: backup_answer

record 'd key_manager =
  km_cfg :: key_config
  km_db :: "'d rocks_wrapper"
  km_writeCount :: u32
  km_backups :: nat   \<comment> \<open>backups made\<close>

record 'd key_env =
  ke_rocks :: "'d rocksdb"
  ke_dump :: "json \<Rightarrow> string option"
  ke_parse :: "string \<Rightarrow> json option"
  ke_backup :: backup_lib

section \<open>Helpers\<close>

definition dbKey :: "string \<Rightarrow> string" where
  "dbKey keyHex = ''key:'' @ keyHex"

definition is_control :: "char \<Rightarrow> bool" where
  "is_control c \<longleftrightarrow> (of_char c :: nat) < 0x20 \<or> (of_char c :: nat) = 0x7F"

definition isValidClientId :: "string \<Rightarrow> bool" where
  "isValidClientId s \<longleftrightarrow> (if s = [] \<or> length s > MAX_CLIENT_ID_LEN then False else \<not> list_ex is_control s)"

definition isValidLabel :: "string \<Rightarrow> bool" where
  "isValidLabel s \<longleftrightarrow> (if length s > MAX_LABEL_LEN then False else \<not> list_ex is_control s)"

definition is_xdigit :: "char \<Rightarrow> bool" where
  "is_xdigit c \<longleftrightarrow> (let n = of_char c :: nat in 48 \<le> n \<and> n \<le> 57 \<or> 65 \<le> n \<and> n \<le> 70 \<or> 97 \<le> n \<and> n \<le> 102)"

definition isValidKeyHex :: "string \<Rightarrow> bool" where
  "isValidKeyHex s \<longleftrightarrow> (if length s \<noteq> KEY_HEX_LEN then False else list_all is_xdigit s)"

definition APIKeyManager :: "'d rocksdb \<Rightarrow> key_config \<Rightarrow> 'd key_manager" where
  "APIKeyManager R cfg = \<lparr>km_cfg = cfg, km_db = RocksDBWrapper R (kc_dbPath cfg), km_writeCount = 0, km_backups = 0\<rparr>"

definition km_isOpen :: "'d key_manager \<Rightarrow> bool" where
  "km_isOpen m = rw_isOpen (km_db m)"

text \<open>One probe and up to \<^verbatim>\<open>healthRetries\<close> more; the sleep in between has no effect.\<close>

fun probe :: "'d rocksdb \<Rightarrow> nat \<Rightarrow> 'd rocks_wrapper \<Rightarrow> bool \<times> 'd rocks_wrapper" where
  "probe R 0 w = (False, w)"
| "probe R (Suc n) w = (let (ok, w) = rw_isHealthy R w in if ok then (True, w) else probe R n w)"

definition km_isHealthy :: "'d key_env \<Rightarrow> 'd key_manager \<Rightarrow> bool \<times> 'd key_manager" where
  "km_isHealthy E m =
     (let (ok, w) = probe (ke_rocks E) (Suc (unat (kc_healthRetries (km_cfg m)))) (km_db m) in (ok, m\<lparr>km_db := w\<rparr>))"

text \<open>\<open>None\<close>: the file cannot be opened; fewer than 32 bytes: the read ends early.\<close>

definition generateKeyHex :: "bytes option \<Rightarrow> key_error + string" where
  "generateKeyHex urandom =
     (case urandom of
        None \<Rightarrow> Inl GenerationFailed
      | Some bs \<Rightarrow> if length bs < 32 then Inl GenerationFailed else Inr (hex_bytes (take 32 bs)))"

definition record_json :: "key_record \<Rightarrow> json" where
  "record_json r = JObject
     [(''clientId'', JString (kr_clientId r)), (''label'', JString (kr_label r)), (''key'', JString (kr_key r)),
      (''createdAt'', JInteger (kr_createdAt r)), (''expiresAt'', JInteger (kr_expiresAt r)),
      (''revokedAt'', JInteger (kr_revokedAt r))]"

definition serialise :: "'d key_env \<Rightarrow> key_record \<Rightarrow> key_error + string" where
  "serialise E r =
     (case ke_dump E (record_json r) of
        None \<Rightarrow> Inl SerialisationError
      | Some out \<Rightarrow> if length out > MAX_RECORD_BYTES then Inl InvalidInput else Inr out)"

fun json_text :: "json option \<Rightarrow> string option" where
  "json_text (Some (JString s)) = Some s"
| "json_text j = None"

fun json_integer :: "json option \<Rightarrow> i64 option" where
  "json_integer (Some (JUnsigned n)) = Some n"
| "json_integer (Some (JInteger n)) = Some n"
| "json_integer j = None"

definition deserialise :: "'d key_env \<Rightarrow> string \<Rightarrow> key_error + key_record" where
  "deserialise E raw =
     (if raw = [] then Inl CorruptRecord
      else
        case ke_parse E raw of
          None \<Rightarrow> Inl CorruptRecord
        | Some j \<Rightarrow>
            (case (json_text (jget ''clientId'' j), json_text (jget ''label'' j), json_text (jget ''key'' j),
                   json_integer (jget ''createdAt'' j), json_integer (jget ''expiresAt'' j), json_integer (jget ''revokedAt'' j)) of
               (Some c, Some l, Some k, Some created, Some expires, Some revoked) \<Rightarrow>
                 Inr \<lparr>kr_clientId = c, kr_label = l, kr_key = k, kr_createdAt = created, kr_expiresAt = expires, kr_revokedAt = revoked\<rparr>
             | _ \<Rightarrow> Inl CorruptRecord))"

definition writeRecord :: "'d key_env \<Rightarrow> string \<Rightarrow> string \<Rightarrow> 'd key_manager \<Rightarrow> key_error option \<times> 'd key_manager" where
  "writeRecord E keyHex payload m =
     (if length payload > MAX_RECORD_BYTES then (Some InvalidInput, m)
      else
        let (r, w) = rw_put (ke_rocks E) (dbKey keyHex) payload True (km_db m); m = m\<lparr>km_db := w\<rparr>
        in if \<not> dbr_ok r then (Some KeyDbError, m) else (None, m))"

definition triggerBackup :: "'d key_env \<Rightarrow> 'd key_manager \<Rightarrow> key_error option \<times> 'd key_manager" where
  "triggerBackup E m =
     (if kc_backupPath (km_cfg m) = [] then (Some BackupError, m)
      else if bl_directory_throws (ke_backup E) then (Some BackupError, m)
      else if bl_open (ke_backup E) \<noteq> BackupOk then (Some BackupError, m)
      else if bl_create (ke_backup E) \<noteq> BackupOk then (Some BackupError, m)
      else (None, m\<lparr>km_backups := km_backups m + 1\<rparr>))"

definition maybeBackup :: "'d key_env \<Rightarrow> 'd key_manager \<Rightarrow> 'd key_manager" where
  "maybeBackup E m =
     (if kc_backupPath (km_cfg m) = [] \<or> kc_backupAfterNWrites (km_cfg m) = 0 then m
      else
        let m = m\<lparr>km_writeCount := km_writeCount m + 1\<rparr>
        in if km_writeCount m mod kc_backupAfterNWrites (km_cfg m) \<noteq> 0 then m else snd (triggerBackup E m))"

section \<open>Operations\<close>

definition lookupLocked :: "'d key_env \<Rightarrow> string \<Rightarrow> 'd key_manager \<Rightarrow> key_record option" where
  "lookupLocked E key m =
     (case rw_get (ke_rocks E) (dbKey key) (km_db m) of (r, raw) \<Rightarrow>
       if \<not> dbr_ok r then None
       else case deserialise E raw of Inl e \<Rightarrow> None | Inr rec \<Rightarrow> Some rec)"

definition lookup_key :: "'d key_env \<Rightarrow> string \<Rightarrow> 'd key_manager \<Rightarrow> key_record option" where
  "lookup_key E key m = (if \<not> km_isOpen m \<or> \<not> isValidKeyHex key then None else lookupLocked E key m)"

definition expiry :: "i64 \<Rightarrow> i64 \<Rightarrow> i64" where
  "expiry now ttl = (if sint ttl > 0 then now + ttl else NO_EXPIRY)"

definition createKeyResult ::
    "'d key_env \<Rightarrow> bytes option \<Rightarrow> i64 \<Rightarrow> string \<Rightarrow> string \<Rightarrow> i64 \<Rightarrow> 'd key_manager \<Rightarrow> (key_error + string) \<times> 'd key_manager" where
  "createKeyResult E urandom now clientId label ttlSeconds m =
     (if \<not> km_isOpen m then (Inl KeyNotOpen, m)
      else if \<not> isValidClientId clientId then (Inl InvalidInput, m)
      else if \<not> isValidLabel label then (Inl InvalidInput, m)
      else
        let default = kc_defaultTtlSeconds (km_cfg m);
            effectiveTtl = (if ttlSeconds = NO_EXPIRY \<and> sint default > 0 then default else ttlSeconds)
        in case generateKeyHex urandom of
             Inl e \<Rightarrow> (Inl e, m)
           | Inr keyHex \<Rightarrow>
               let rec = \<lparr>kr_clientId = clientId, kr_label = label, kr_key = keyHex, kr_createdAt = now,
                     kr_expiresAt = expiry now effectiveTtl, kr_revokedAt = 0\<rparr>
               in case serialise E rec of
                    Inl e \<Rightarrow> (Inl e, m)
                  | Inr payload \<Rightarrow>
                      (case writeRecord E keyHex payload m of
                         (Some e, m) \<Rightarrow> (Inl e, m)
                       | (None, m) \<Rightarrow> (Inr keyHex, maybeBackup E m)))"

text \<open>\<^verbatim>\<open>find("NOT_FOUND")\<close> in the wrapper's message.\<close>

definition read_failure :: "string \<Rightarrow> key_error" where
  "read_failure msg = (if sublist ''NOT_FOUND'' msg then KeyNotFound else KeyDbError)"

definition validate :: "'d key_env \<Rightarrow> i64 \<Rightarrow> string \<Rightarrow> 'd key_manager \<Rightarrow> key_error + string" where
  "validate E now key m =
     (if \<not> km_isOpen m then Inl KeyNotOpen
      else if \<not> isValidKeyHex key then Inl InvalidInput
      else
        case rw_get (ke_rocks E) (dbKey key) (km_db m) of (r, raw) \<Rightarrow>
          if \<not> dbr_ok r then Inl (read_failure (dbr_error r))
          else
            case deserialise E raw of
              Inl e \<Rightarrow> Inl e
            | Inr rec \<Rightarrow>
                if kr_revokedAt rec \<noteq> 0 then Inl KeyRevoked
                else if kr_expiresAt rec \<noteq> NO_EXPIRY \<and> sint now > sint (kr_expiresAt rec) then Inl KeyExpired
                else Inr (kr_clientId rec))"

definition revoke :: "'d key_env \<Rightarrow> i64 \<Rightarrow> string \<Rightarrow> 'd key_manager \<Rightarrow> key_error option \<times> 'd key_manager" where
  "revoke E now key m =
     (if \<not> km_isOpen m then (Some KeyNotOpen, m)
      else if \<not> isValidKeyHex key then (Some InvalidInput, m)
      else
        case rw_get (ke_rocks E) (dbKey key) (km_db m) of (r, raw) \<Rightarrow>
          if \<not> dbr_ok r then (Some (read_failure (dbr_error r)), m)
          else
            case deserialise E raw of
              Inl e \<Rightarrow> (Some e, m)
            | Inr rec \<Rightarrow>
                if kr_revokedAt rec \<noteq> 0 then (Some KeyRevoked, m)
                else
                  let rec = rec\<lparr>kr_revokedAt := now\<rparr>
                  in case serialise E rec of
                       Inl e \<Rightarrow> (Some e, m)
                     | Inr payload \<Rightarrow>
                         (case writeRecord E (kr_key rec) payload m of
                            (Some e, m) \<Rightarrow> (Some e, m)
                          | (None, m) \<Rightarrow> (None, maybeBackup E m)))"

text \<open>The clock is read once by the creation and once by the revocation.\<close>

definition rotateResult ::
    "'d key_env \<Rightarrow> bytes option \<Rightarrow> i64 \<Rightarrow> i64 \<Rightarrow> string \<Rightarrow> 'd key_manager \<Rightarrow> (key_error + string) \<times> 'd key_manager" where
  "rotateResult E urandom now now' oldKey m =
     (if \<not> km_isOpen m then (Inl KeyNotOpen, m)
      else if \<not> isValidKeyHex oldKey then (Inl InvalidInput, m)
      else
        case lookupLocked E oldKey m of
          None \<Rightarrow> (Inl KeyNotFound, m)
        | Some oldRec \<Rightarrow>
            (case createKeyResult E urandom now (kr_clientId oldRec) (kr_label oldRec) NO_EXPIRY m of
               (Inl e, m) \<Rightarrow> (Inl e, m)
             | (Inr newKey, m) \<Rightarrow> (Inr newKey, snd (revoke E now' oldKey m))))"

text \<open>The forms that answer with the key alone, empty on failure.\<close>

definition key_or_empty :: "(key_error + string) \<times> 'd key_manager \<Rightarrow> string \<times> 'd key_manager" where
  "key_or_empty r = (case fst r of Inl e \<Rightarrow> [] | Inr k \<Rightarrow> k, snd r)"

definition createKey ::
    "'d key_env \<Rightarrow> bytes option \<Rightarrow> i64 \<Rightarrow> string \<Rightarrow> string \<Rightarrow> i64 \<Rightarrow> 'd key_manager \<Rightarrow> string \<times> 'd key_manager" where
  "createKey E urandom now clientId label ttl m = key_or_empty (createKeyResult E urandom now clientId label ttl m)"

definition rotateKey ::
    "'d key_env \<Rightarrow> bytes option \<Rightarrow> i64 \<Rightarrow> i64 \<Rightarrow> string \<Rightarrow> 'd key_manager \<Rightarrow> string \<times> 'd key_manager" where
  "rotateKey E urandom now now' oldKey m = key_or_empty (rotateResult E urandom now now' oldKey m)"

section \<open>Records in the database\<close>

lemma json_integer_parsed [simp]: "json_integer (Some (parsed (JInteger n))) = Some n"
  by simp

lemma deserialise_serialise:
  assumes "json_law (ke_dump E) (ke_parse E)" and "serialise E r = Inr payload"
  shows "deserialise E payload = Inr r" and "length payload \<le> MAX_RECORD_BYTES"
  using assms
  by (auto simp: serialise_def deserialise_def record_json_def json_law_def split: option.splits if_splits)

text \<open>The record filed under a key, through what the database holds.\<close>

definition record_of :: "'d key_env \<Rightarrow> ('d \<Rightarrow> string \<Rightarrow> string option) \<Rightarrow> 'd key_manager \<Rightarrow> string \<Rightarrow> key_record option" where
  "record_of E view m key =
     (case rw_content view (km_db m) (dbKey key) of
        None \<Rightarrow> None
      | Some raw \<Rightarrow> (case deserialise E raw of Inl e \<Rightarrow> None | Inr r \<Rightarrow> Some r))"

definition keys_filed :: "'d key_env \<Rightarrow> ('d \<Rightarrow> string \<Rightarrow> string option) \<Rightarrow> 'd key_manager \<Rightarrow> bool" where
  "keys_filed E view m \<longleftrightarrow> (\<forall>k r. record_of E view m k = Some r \<longrightarrow> kr_key r = k)"

lemma dbKey_inj [simp]: "dbKey a = dbKey b \<longleftrightarrow> a = b" "dbKey a \<noteq> []"
  by (simp_all add: dbKey_def)

lemma maybeBackup_kept [simp]:
  "km_db (maybeBackup E m) = km_db m" "km_cfg (maybeBackup E m) = km_cfg m" "record_of E' view (maybeBackup E m) = record_of E' view m"
  "km_isOpen (maybeBackup E m) = km_isOpen m"
proof -
  show d: "km_db (maybeBackup E m) = km_db m" by (simp add: maybeBackup_def triggerBackup_def Let_def)
  show "km_cfg (maybeBackup E m) = km_cfg m" by (simp add: maybeBackup_def triggerBackup_def Let_def)
  show "record_of E' view (maybeBackup E m) = record_of E' view m" "km_isOpen (maybeBackup E m) = km_isOpen m"
    by (simp_all add: fun_eq_iff record_of_def km_isOpen_def d)
qed

text \<open>The record a creation writes.\<close>

definition new_record :: "key_config \<Rightarrow> i64 \<Rightarrow> string \<Rightarrow> string \<Rightarrow> i64 \<Rightarrow> string \<Rightarrow> key_record" where
  "new_record cfg now clientId label ttl k =
     \<lparr>kr_clientId = clientId, kr_label = label, kr_key = k, kr_createdAt = now,
      kr_expiresAt = expiry now (if ttl = NO_EXPIRY \<and> sint (kc_defaultTtlSeconds cfg) > 0 then kc_defaultTtlSeconds cfg else ttl),
      kr_revokedAt = 0\<rparr>"

context reliable_rocks begin

lemma get_content:
  assumes "ke_rocks E = R" and "rw_get (ke_rocks E) (dbKey k) (km_db m) = (r, raw)" and "dbr_ok r"
  shows "rw_content view (km_db m) (dbKey k) = Some raw"
  using rw_get_ok assms by metis

lemma get_missing_content:
  assumes "ke_rocks E = R" and "rw_get (ke_rocks E) (dbKey k) (km_db m) = (r, raw)" and "\<not> dbr_ok r"
  shows "rw_content view (km_db m) (dbKey k) = None"
  using assms rw_lookup_content [of "dbKey k" "km_db m"] by (simp add: rw_lookup_def)

lemma lookupLocked_record: "ke_rocks E = R \<Longrightarrow> lookupLocked E key m = record_of E view m key"
  using get_content get_missing_content
  by (fastforce simp: lookupLocked_def record_of_def split: prod.split)

lemma validate_record:
  assumes "ke_rocks E = R" and "km_isOpen m" and "isValidKeyHex key" and "record_of E view m key = Some r"
  shows "validate E now key m =
    (if kr_revokedAt r \<noteq> 0 then Inl KeyRevoked
     else if kr_expiresAt r \<noteq> NO_EXPIRY \<and> sint now > sint (kr_expiresAt r) then Inl KeyExpired
     else Inr (kr_clientId r))"
proof -
  obtain res raw where g: "rw_get (ke_rocks E) (dbKey key) (km_db m) = (res, raw)" by fastforce
  then have "dbr_ok res" using get_missing_content [OF assms(1)] assms(4) by (fastforce simp: record_of_def)
  then have "deserialise E raw = Inr r"
    using get_content [OF assms(1) g] assms(4) by (simp add: record_of_def split: sum.splits)
  then show ?thesis using assms(2,3) g \<open>dbr_ok res\<close> by (simp add: validate_def)
qed

lemma writeRecord_ok:
  assumes "ke_rocks E = R" and "writeRecord E k payload m = (None, m')"
  shows "rw_content view (km_db m') = (rw_content view (km_db m))(dbKey k \<mapsto> payload)"
    "km_isOpen m' = km_isOpen m" "km_cfg m' = km_cfg m"
  using assms rw_put_ok rw_put_isOpen
  by (auto simp: writeRecord_def km_isOpen_def Let_def split: if_splits prod.splits)

lemma writeRecord_fail:
  assumes "ke_rocks E = R" and "writeRecord E k payload m = (Some e, m')"
  shows "rw_content view (km_db m') = rw_content view (km_db m)" "km_isOpen m' = km_isOpen m" "km_cfg m' = km_cfg m"
  using assms rw_put_fail rw_put_isOpen
  by (auto simp: writeRecord_def km_isOpen_def Let_def split: if_splits prod.splits)

lemma record_written:
  assumes "ke_rocks E = R" and "json_law (ke_dump E) (ke_parse E)" and "serialise E r = Inr payload"
    and "writeRecord E k payload m = (None, m')"
  shows "record_of E view m' = (record_of E view m)(k \<mapsto> r)"
  using writeRecord_ok [OF assms(1,4)] deserialise_serialise [OF assms(2,3)]
  by (auto simp: record_of_def fun_eq_iff)

lemma record_unwritten:
  assumes "ke_rocks E = R" and "writeRecord E k payload m = (Some e, m')"
  shows "record_of E view m' = record_of E view m"
  using writeRecord_fail [OF assms] by (simp add: record_of_def fun_eq_iff)

lemma create_cases:
  assumes "ke_rocks E = R" and "json_law (ke_dump E) (ke_parse E)"
    and "createKeyResult E urandom now c l ttl m = (res, m')"
  shows "km_isOpen m' = km_isOpen m" "km_cfg m' = km_cfg m"
    "case res of
       Inl e \<Rightarrow> record_of E view m' = record_of E view m
     | Inr k \<Rightarrow> km_isOpen m \<and> generateKeyHex urandom = Inr k \<and>
         record_of E view m' = (record_of E view m)(k \<mapsto> new_record (km_cfg m) now c l ttl k)"
  using assms(3) writeRecord_ok(2,3) [OF assms(1)] writeRecord_fail(2,3) [OF assms(1)] record_unwritten [OF assms(1)]
    record_written [OF assms(1,2)]
  by (auto simp: createKeyResult_def new_record_def Let_def simp del: fun_upd_apply
      split: if_splits sum.splits prod.splits option.splits)

lemma revoke_cases:
  assumes "ke_rocks E = R" and "json_law (ke_dump E) (ke_parse E)" and "revoke E now key m = (res, m')"
  shows "km_isOpen m' = km_isOpen m" "km_cfg m' = km_cfg m"
    "case res of
       Some e \<Rightarrow> record_of E view m' = record_of E view m
     | None \<Rightarrow> \<exists>r. km_isOpen m \<and> isValidKeyHex key \<and> record_of E view m key = Some r \<and> kr_revokedAt r = 0 \<and>
         record_of E view m' = (record_of E view m)(kr_key r \<mapsto> r\<lparr>kr_revokedAt := now\<rparr>)"
proof -
  obtain g raw where g: "rw_get (ke_rocks E) (dbKey key) (km_db m) = (g, raw)" by fastforce
  have r: "record_of E view m key = Some rec" if "dbr_ok g" "deserialise E raw = Inr rec" for rec
    using get_content [OF assms(1) g that(1)] that(2) by (simp add: record_of_def)
  show "km_isOpen m' = km_isOpen m" "km_cfg m' = km_cfg m"
    "case res of
       Some e \<Rightarrow> record_of E view m' = record_of E view m
     | None \<Rightarrow> \<exists>r. km_isOpen m \<and> isValidKeyHex key \<and> record_of E view m key = Some r \<and> kr_revokedAt r = 0 \<and>
         record_of E view m' = (record_of E view m)(kr_key r \<mapsto> r\<lparr>kr_revokedAt := now\<rparr>)"
    using assms(3) g r writeRecord_ok(2,3) [OF assms(1)] writeRecord_fail(2,3) [OF assms(1)] record_unwritten [OF assms(1)]
      record_written [OF assms(1,2), of "_\<lparr>kr_revokedAt := now\<rparr>"]
    by (auto simp: revoke_def Let_def simp del: fun_upd_apply split: if_splits sum.splits prod.splits option.splits)
qed

end

section \<open>Histories\<close>

text \<open>The operations that write, with what they read of the outside.\<close>

datatype key_op =
    KCreate "bytes option" i64 string string i64 | KRevoke i64 string | KRotate "bytes option" i64 i64 string

definition km_step :: "'d key_env \<Rightarrow> 'd key_manager \<Rightarrow> key_op \<Rightarrow> 'd key_manager" where
  "km_step E m op =
     (case op of
        KCreate u now c l ttl \<Rightarrow> snd (createKeyResult E u now c l ttl m)
      | KRevoke now key \<Rightarrow> snd (revoke E now key m)
      | KRotate u now now' key \<Rightarrow> snd (rotateResult E u now now' key m))"

definition km_run :: "'d key_env \<Rightarrow> key_op list \<Rightarrow> 'd key_manager \<Rightarrow> 'd key_manager" where
  "km_run E ops m = foldl (km_step E) m ops"

text \<open>The random bytes of an operation are not those of the key; it does not revoke the key.\<close>

fun draws :: "string \<Rightarrow> key_op \<Rightarrow> bool" where
  "draws key (KCreate u now c l ttl) \<longleftrightarrow> generateKeyHex u = Inr key"
| "draws key (KRotate u now now' k) \<longleftrightarrow> generateKeyHex u = Inr key"
| "draws key (KRevoke now k) \<longleftrightarrow> False"

fun ends :: "string \<Rightarrow> key_op \<Rightarrow> bool" where
  "ends key (KCreate u now c l ttl) \<longleftrightarrow> False"
| "ends key (KRotate u now now' k) \<longleftrightarrow> k = key"
| "ends key (KRevoke now k) \<longleftrightarrow> k = key"

text \<open>The state of a key that no longer changes, or changes only by being revoked.\<close>

definition settled :: "'d key_env \<Rightarrow> ('d \<Rightarrow> string \<Rightarrow> string option) \<Rightarrow> string \<Rightarrow> key_record \<Rightarrow> 'd key_manager \<Rightarrow> bool" where
  "settled E view key r m \<longleftrightarrow> km_isOpen m \<and> keys_filed E view m \<and> record_of E view m key = Some r"

context reliable_rocks begin

lemma create_settled:
  assumes "ke_rocks E = R" and "json_law (ke_dump E) (ke_parse E)" and "settled E view key r m"
    and "generateKeyHex u \<noteq> Inr key"
  shows "settled E view key r (snd (createKeyResult E u now c l ttl m))"
proof -
  obtain res m' where cr: "createKeyResult E u now c l ttl m = (res, m')" by fastforce
  note cc = create_cases [OF assms(1,2) cr]
  show ?thesis
    using assms(3,4) cc cr
    by (auto simp: settled_def keys_filed_def new_record_def split: sum.splits if_splits)
qed

lemma revoke_settled:
  assumes "ke_rocks E = R" and "json_law (ke_dump E) (ke_parse E)" and "settled E view key r m"
    and "k \<noteq> key \<or> kr_revokedAt r \<noteq> 0"
  shows "settled E view key r (snd (revoke E now k m))"
proof -
  obtain res m' where rv: "revoke E now k m = (res, m')" by fastforce
  note rc = revoke_cases [OF assms(1,2) rv]
  show ?thesis
  proof (cases res)
    case None
    then obtain q where q: "record_of E view m k = Some q" "kr_revokedAt q = 0"
      "record_of E view m' = (record_of E view m)(kr_key q \<mapsto> q\<lparr>kr_revokedAt := now\<rparr>)"
      using rc(3) by auto
    then have "kr_key q = k" using assms(3) by (simp add: settled_def keys_filed_def)
    moreover have "k \<noteq> key" using assms(3,4) q(1,2) by (auto simp: settled_def)
    ultimately show ?thesis using assms(3) q(3) rc(1) rv by (auto simp: settled_def keys_filed_def)
  next
    case (Some e)
    then show ?thesis using assms(3) rc rv by (simp add: settled_def keys_filed_def)
  qed
qed

lemma step_settled:
  assumes "ke_rocks E = R" and "json_law (ke_dump E) (ke_parse E)" and "settled E view key r m"
    and "\<not> draws key op" and "\<not> ends key op \<or> kr_revokedAt r \<noteq> 0"
  shows "settled E view key r (km_step E m op)"
proof (cases op)
  case (KCreate u now c l ttl)
  then show ?thesis using create_settled [OF assms(1-3)] assms(4) by (simp add: km_step_def)
next
  case (KRevoke now k)
  then show ?thesis using revoke_settled [OF assms(1-3)] assms(5) by (simp add: km_step_def)
next
  case (KRotate u now now' k)
  have "settled E view key r (snd (createKeyResult E u now c l NO_EXPIRY m))" for c l
    using create_settled [OF assms(1-3)] assms(4) KRotate by simp
  then have "settled E view key r (snd (revoke E now' k (snd (createKeyResult E u now c l NO_EXPIRY m))))" for c l
    using revoke_settled [OF assms(1,2)] assms(5) KRotate by simp
  then show ?thesis
    using KRotate assms(3) \<open>\<And>l c. settled E view key r (snd (createKeyResult E u now c l NO_EXPIRY m))\<close>
    by (auto simp: km_step_def rotateResult_def split: option.split sum.split prod.split) (metis snd_conv)+
qed

lemma run_settled:
  assumes "ke_rocks E = R" and "json_law (ke_dump E) (ke_parse E)" and "settled E view key r m"
    and "list_all (\<lambda>op. \<not> draws key op \<and> (\<not> ends key op \<or> kr_revokedAt r \<noteq> 0)) ops"
  shows "settled E view key r (km_run E ops m)"
  using assms(3,4) step_settled [OF assms(1,2)]
  by (induction ops arbitrary: m) (simp_all add: km_run_def)

end

section \<open>Properties\<close>

lemma xdigit_hex: "list_all is_xdigit (hex_bytes bs)"
proof -
  have "is_xdigit (digit_char n)" if "n < 16" for n
  proof -
    have "\<forall>n \<in> set [0..<16]. is_xdigit (digit_char n)" by (simp add: upt_rec digit_char_def is_xdigit_def)
    then show ?thesis using that by simp
  qed
  then have "list_all is_xdigit (hex_byte b)" for b
    using unat_u8_less [of b] by (simp add: hex_byte_def less_mult_imp_div_less)
  then show ?thesis by (induction bs) simp_all
qed

lemma generated_valid: "generateKeyHex u = Inr key \<Longrightarrow> isValidKeyHex key"
  using xdigit_hex by (auto simp: generateKeyHex_def isValidKeyHex_def KEY_HEX_LEN_def split: option.splits if_splits)

lemma created_settled:
  assumes "reliable_rocks (ke_rocks E) view" and "json_law (ke_dump E) (ke_parse E)" and "keys_filed E view m"
    and "createKeyResult E u now c l ttl m = (Inr key, m1)"
  shows "settled E view key (new_record (km_cfg m) now c l ttl key) m1" and "isValidKeyHex key"
  using reliable_rocks.create_cases [OF assms(1) refl assms(2,4)] assms(3)
  by (auto simp: settled_def keys_filed_def new_record_def intro: generated_valid)

text \<open>
  a key that was created is valid for its client until it expires. Whatever keys are
  created, revoked and rotated afterwards, as long as none of that concerns the key itself, validation
  answers the client the key was made for, and once the clock is past the expiry that it has
  expired; a time to live that is zero or negative, with no default configured, means for ever.
\<close>

theorem created_key_valid:
  assumes "reliable_rocks (ke_rocks E) view" and "json_law (ke_dump E) (ke_parse E)" and "keys_filed E view m"
    and "createKeyResult E u now clientId label ttl m = (Inr key, m1)"
    and "list_all (\<lambda>op. \<not> draws key op \<and> \<not> ends key op) ops"
  shows "validate E t key (km_run E ops m1) =
    (let default = kc_defaultTtlSeconds (km_cfg m);
         x = expiry now (if ttl = NO_EXPIRY \<and> sint default > 0 then default else ttl)
     in if x \<noteq> NO_EXPIRY \<and> sint t > sint x then Inl KeyExpired else Inr clientId)"
proof -
  let ?r = "new_record (km_cfg m) now clientId label ttl key"
  note c = created_settled [OF assms(1-4)]
  have "list_all (\<lambda>op. \<not> draws key op \<and> (\<not> ends key op \<or> kr_revokedAt ?r \<noteq> 0)) ops"
    using assms(5) by (simp add: list_all_iff)
  then have "settled E view key ?r (km_run E ops m1)"
    by (rule reliable_rocks.run_settled [OF assms(1) refl assms(2) c(1)])
  then show ?thesis
    using reliable_rocks.validate_record [OF assms(1) refl _ c(2), of "km_run E ops m1" ?r t]
    by (simp add: settled_def new_record_def Let_def)
qed

text \<open>
  a revoked key stays revoked. After a successful revocation at a time other than zero
  no sequence of creations, revocations and rotations makes it valid again, unless one of them
  draws the same 32 random bytes.
\<close>

theorem revoked_key_stays_revoked:
  assumes "reliable_rocks (ke_rocks E) view" and "json_law (ke_dump E) (ke_parse E)" and "keys_filed E view m"
    and "revoke E now key m = (None, m1)" and "now \<noteq> 0" and "list_all (\<lambda>op. \<not> draws key op) ops"
  shows "validate E t key (km_run E ops m1) = Inl KeyRevoked"
proof -
  obtain r where r: "km_isOpen m" "isValidKeyHex key" "record_of E view m key = Some r"
    "record_of E view m1 = (record_of E view m)(kr_key r \<mapsto> r\<lparr>kr_revokedAt := now\<rparr>)" "km_isOpen m1"
    using reliable_rocks.revoke_cases [OF assms(1) refl assms(2,4)] by auto
  let ?r = "r\<lparr>kr_revokedAt := now\<rparr>"
  have "kr_key r = key" using assms(3) r(3) by (simp add: keys_filed_def)
  then have "settled E view key ?r m1" using assms(3) r by (auto simp: settled_def keys_filed_def)
  moreover have "list_all (\<lambda>op. \<not> draws key op \<and> (\<not> ends key op \<or> kr_revokedAt ?r \<noteq> 0)) ops"
    using assms(5,6) by (simp add: list_all_iff)
  ultimately have "settled E view key ?r (km_run E ops m1)"
    by (rule reliable_rocks.run_settled [OF assms(1) refl assms(2)])
  then show ?thesis
    using reliable_rocks.validate_record [OF assms(1) refl _ r(2), of "km_run E ops m1" ?r t] assms(5)
    by (simp add: settled_def)
qed

text \<open>
  rotation gives a revoked or expired key back its rights. Rotating reads the old record
  without looking at its revocation and expiry, so that whenever it answers a new key, that
  key is valid for the old key's client, and for ever when no default time to live is configured.
\<close>

theorem rotation_revives:
  assumes "reliable_rocks (ke_rocks E) view" and "json_law (ke_dump E) (ke_parse E)" and "keys_filed E view m"
    and "rotateResult E u now now' old m = (Inr new, m1)" and "new \<noteq> old" and "\<not> sint (kc_defaultTtlSeconds (km_cfg m)) > 0"
  shows "\<exists>r. lookup_key E old m = Some r \<and> validate E t new m1 = Inr (kr_clientId r)"
proof -
  obtain r where r: "km_isOpen m" "isValidKeyHex old" "lookupLocked E old m = Some r"
    using assms(4) by (auto simp: rotateResult_def split: if_splits option.splits)
  obtain res m0 where c: "createKeyResult E u now (kr_clientId r) (kr_label r) NO_EXPIRY m = (res, m0)" by fastforce
  then have new: "createKeyResult E u now (kr_clientId r) (kr_label r) NO_EXPIRY m = (Inr new, m0)"
    and m1: "m1 = snd (revoke E now' old m0)"
    using assms(4) r by (auto simp: rotateResult_def split: sum.splits)
  note cs = created_settled [OF assms(1-3) new]
  have "settled E view new (new_record (km_cfg m) now (kr_clientId r) (kr_label r) NO_EXPIRY new) m1"
    unfolding m1 by (rule reliable_rocks.revoke_settled [OF assms(1) refl assms(2) cs(1)]) (use assms(5) in blast)
  then have "validate E t new m1 = Inr (kr_clientId r)"
    using reliable_rocks.validate_record [OF assms(1) refl _ cs(2)] assms(6)
    by (simp add: settled_def new_record_def expiry_def NO_EXPIRY_def)
  then show ?thesis using r by (simp add: lookup_key_def)
qed

section \<open>An instance\<close>

text \<open>Two keys of one client, three records and a JSON library that prints just these.\<close>

definition key1 :: string where "key1 = hex_bytes (replicate 32 0)"
definition key2 :: string where "key2 = hex_bytes (replicate 32 1)"

definition rec1 :: key_record where
  "rec1 = \<lparr>kr_clientId = ''alice'', kr_label = [], kr_key = key1, kr_createdAt = 5, kr_expiresAt = 0, kr_revokedAt = 0\<rparr>"
definition rec1_revoked :: key_record where "rec1_revoked = rec1\<lparr>kr_revokedAt := 9\<rparr>"
definition rec2 :: key_record where
  "rec2 = \<lparr>kr_clientId = ''alice'', kr_label = [], kr_key = key2, kr_createdAt = 10, kr_expiresAt = 0, kr_revokedAt = 0\<rparr>"

definition three_dump :: "json \<Rightarrow> string option" where
  "three_dump j =
     (if j = record_json rec1 then Some ''1'' else if j = record_json rec1_revoked then Some ''2''
      else if j = record_json rec2 then Some ''3'' else None)"

definition three_parse :: "string \<Rightarrow> json option" where
  "three_parse s =
     (if s = ''1'' then Some (parsed (record_json rec1)) else if s = ''2'' then Some (parsed (record_json rec1_revoked))
      else if s = ''3'' then Some (parsed (record_json rec2)) else None)"

lemma three_law: "json_law three_dump three_parse"
  by (auto simp: json_law_def three_dump_def three_parse_def)

definition key_sample_env :: "(string \<Rightarrow> string option) key_env" where
  "key_sample_env = \<lparr>ke_rocks = mem_rocks, ke_dump = three_dump, ke_parse = three_parse,
     ke_backup = \<lparr>bl_directory_throws = False, bl_open = BackupOk, bl_create = BackupOk\<rparr>\<rparr>"

definition empty_keys :: "(string \<Rightarrow> string option) key_manager" where
  "empty_keys = \<lparr>km_cfg = \<lparr>kc_dbPath = ''keys'', kc_backupPath = [], kc_defaultTtlSeconds = 0, kc_backupAfterNWrites = 0,
     kc_healthRetries = 2\<rparr>, km_db = Some (\<lambda>k. None), km_writeCount = 0, km_backups = 0\<rparr>"

definition keys_with :: "(string \<Rightarrow> string option) \<Rightarrow> (string \<Rightarrow> string option) key_manager" where
  "keys_with d = empty_keys\<lparr>km_db := Some d\<rparr>"

lemma key_sample_simps [simp]:
  "ke_rocks key_sample_env = mem_rocks" "ke_dump key_sample_env = three_dump" "ke_parse key_sample_env = three_parse"
  by (simp_all add: key_sample_env_def)

lemma keys_differ: "key1 \<noteq> key2"
proof -
  have "replicate 32 x = x # replicate 31 x" for x :: u8 using replicate_Suc [of 31 x] by (simp del: replicate_Suc)
  then show ?thesis by (simp add: key1_def key2_def hex_byte_def)
qed

lemma three_serialised:
  "serialise key_sample_env rec1 = Inr ''1''" "serialise key_sample_env rec1_revoked = Inr ''2''"
  "serialise key_sample_env rec2 = Inr ''3''"
  using keys_differ
  by (auto simp: serialise_def three_dump_def record_json_def rec1_def rec1_revoked_def rec2_def MAX_RECORD_BYTES_def)

lemma three_deserialised:
  "deserialise key_sample_env ''1'' = Inr rec1" "deserialise key_sample_env ''2'' = Inr rec1_revoked"
  using deserialise_serialise(1) [of key_sample_env] three_law three_serialised by simp_all

lemma generated_sample:
  "generateKeyHex (Some (replicate 32 0)) = Inr key1" "generateKeyHex (Some (replicate 32 1)) = Inr key2"
  by (simp_all add: generateKeyHex_def key1_def key2_def)

lemma sample_new_records:
  "new_record (km_cfg empty_keys) 5 ''alice'' [] 0 key1 = rec1" "new_record (km_cfg empty_keys) 10 ''alice'' [] 0 key2 = rec2"
  by (simp_all add: new_record_def rec1_def rec2_def empty_keys_def expiry_def NO_EXPIRY_def)

lemma keys_with_simps [simp]:
  "km_isOpen (keys_with d)" "km_db (keys_with d) = Some d" "km_cfg (keys_with d) = km_cfg empty_keys"
  "maybeBackup E (keys_with d) = keys_with d" "(keys_with d)\<lparr>km_db := Some d'\<rparr> = keys_with d'"
  by (simp_all add: keys_with_def empty_keys_def km_isOpen_def rw_isOpen_def maybeBackup_def)

lemma write_sample:
  "length payload \<le> MAX_RECORD_BYTES \<Longrightarrow> writeRecord key_sample_env k payload (keys_with d) = (None, keys_with (d(dbKey k \<mapsto> payload)))"
  by (simp add: writeRecord_def rw_put_def mem_rocks_def rw_success_def)

lemma create_sample:
  assumes "generateKeyHex u = Inr k" and "new_record (km_cfg empty_keys) now ''alice'' [] 0 k = r"
    and "serialise key_sample_env r = Inr payload"
  shows "createKeyResult key_sample_env u now ''alice'' [] 0 (keys_with d) = (Inr k, keys_with (d(dbKey k \<mapsto> payload)))"
proof -
  have v: "isValidClientId ''alice''" "isValidLabel []"
    by (simp_all add: isValidClientId_def isValidLabel_def is_control_def MAX_CLIENT_ID_LEN_def)
  have "length payload \<le> MAX_RECORD_BYTES" using assms(3) by (auto simp: serialise_def split: option.splits if_splits)
  then show ?thesis
    using assms by (simp add: createKeyResult_def v write_sample new_record_def NO_EXPIRY_def)
qed

lemma sample_filed: "keys_filed key_sample_env (\<lambda>d. d) (keys_with (\<lambda>k. None))"
  by (simp add: keys_filed_def record_of_def rw_content_def)

lemma first_key: "createKeyResult key_sample_env (Some (replicate 32 0)) 5 ''alice'' [] 0 (keys_with (\<lambda>k. None))
    = (Inr key1, keys_with [dbKey key1 \<mapsto> ''1''])"
  by (rule create_sample [OF generated_sample(1) sample_new_records(1) three_serialised(1)])

theorem created_key_valid_witness:
  "validate key_sample_env 99 key1
     (km_run key_sample_env [KCreate (Some (replicate 32 1)) 10 ''alice'' [] 0] (keys_with [dbKey key1 \<mapsto> ''1''])) = Inr ''alice''"
  using created_key_valid [OF _ _ sample_filed first_key, of "[KCreate (Some (replicate 32 1)) 10 ''alice'' [] 0]" 99]
    mem.reliable_rocks_axioms three_law keys_differ
  by (simp add: generated_sample empty_keys_def expiry_def NO_EXPIRY_def)

lemma key1_valid: "isValidKeyHex key1" using generated_valid generated_sample(1) by blast

lemma get_sample: "d (dbKey k) = Some v \<Longrightarrow> rw_get mem_rocks (dbKey k) (Some d) = (rw_success, v)"
  by (simp add: rw_get_def mem_rocks_def)

lemma revoke_sample:
  assumes "d (dbKey key1) = Some ''1''"
  shows "revoke key_sample_env 9 key1 (keys_with d) = (None, keys_with (d(dbKey key1 \<mapsto> ''2'')))"
  using three_serialised(2) get_sample [where d = d and k = key1, OF assms]
  by (simp add: revoke_def key1_valid three_deserialised write_sample MAX_RECORD_BYTES_def)
    (simp add: rec1_revoked_def rec1_def write_sample MAX_RECORD_BYTES_def)

lemma filed_first: "keys_filed key_sample_env (\<lambda>d. d) (keys_with [dbKey key1 \<mapsto> s])" if "s = ''1'' \<or> s = ''2''"
  using that by (auto simp: keys_filed_def record_of_def rw_content_def three_deserialised rec1_def rec1_revoked_def)

lemma first_revoked:
  "revoke key_sample_env 9 key1 (keys_with [dbKey key1 \<mapsto> ''1'']) = (None, keys_with [dbKey key1 \<mapsto> ''2''])"
  using revoke_sample [of "[dbKey key1 \<mapsto> ''1'']"] by simp

theorem revoked_key_stays_revoked_witness:
  "validate key_sample_env 99 key1
     (km_run key_sample_env [KRotate (Some (replicate 32 1)) 10 10 key1] (keys_with [dbKey key1 \<mapsto> ''2''])) = Inl KeyRevoked"
  using revoked_key_stays_revoked [OF _ _ filed_first [of "''1''"] first_revoked,
      of "[KRotate (Some (replicate 32 1)) 10 10 key1]" 99]
    mem.reliable_rocks_axioms three_law keys_differ
  by (simp add: generated_sample)

text \<open>The revoked key of alice is rotated at time 10 and its successor is valid.\<close>

theorem rotation_revives_witness:
  "validate key_sample_env 99 key1 (keys_with [dbKey key1 \<mapsto> ''2'']) = Inl KeyRevoked \<and>
   (\<exists>m1. rotateResult key_sample_env (Some (replicate 32 1)) 10 10 key1 (keys_with [dbKey key1 \<mapsto> ''2'']) = (Inr key2, m1) \<and>
     validate key_sample_env 99 key2 m1 = Inr ''alice'')"
proof -
  let ?m = "keys_with [dbKey key1 \<mapsto> ''2'']"
  have v: "validate key_sample_env 99 key1 ?m = Inl KeyRevoked"
    using get_sample [of "[dbKey key1 \<mapsto> ''2'']" key1 "''2''"]
    by (simp add: validate_def key1_valid three_deserialised) (simp add: rec1_revoked_def)
  have l: "lookupLocked key_sample_env key1 ?m = Some rec1_revoked"
    using get_sample [of "[dbKey key1 \<mapsto> ''2'']" key1 "''2''"] by (simp add: lookupLocked_def three_deserialised)
  have "createKeyResult key_sample_env (Some (replicate 32 1)) 10 ''alice'' [] 0 ?m
      = (Inr key2, keys_with ([dbKey key1 \<mapsto> ''2''](dbKey key2 \<mapsto> ''3'')))"
    by (rule create_sample [OF generated_sample(2) sample_new_records(2) three_serialised(3)])
  then obtain m1 where r: "rotateResult key_sample_env (Some (replicate 32 1)) 10 10 key1 ?m = (Inr key2, m1)"
    by (simp add: rotateResult_def key1_valid l rec1_revoked_def rec1_def NO_EXPIRY_def)
  have "\<exists>q. lookup_key key_sample_env key1 ?m = Some q \<and> validate key_sample_env 99 key2 m1 = Inr (kr_clientId q)"
    using rotation_revives [OF _ _ filed_first [of "''2''"] r, of 99] mem.reliable_rocks_axioms three_law keys_differ
    by (simp add: empty_keys_def)
  then have "validate key_sample_env 99 key2 m1 = Inr ''alice''"
    by (simp add: lookup_key_def key1_valid l rec1_revoked_def rec1_def)
  then show ?thesis using v r by blast
qed

end
