(* ===== verification/ConnPool.thy ===== *)
theory ConnPool
  imports Prelude "HOL-Library.Multiset"
begin

text \<open>
  The pool of outgoing TCP connections, \<^verbatim>\<open>src/src/connection_pool.cpp\<close>: pooled descriptors per
  peer, the budget of open descriptors, and the asynchronous path from the request queue over
  the DNS workers, the reactor and the TLS workers to the callback. The kernel is the set of open
  descriptors; what its calls answer (name resolution, sockets, connects, the liveness probe,
  the TLS callback) are arguments of the operations. One round of a worker's loop is one
  operation, and operations do not overlap: races between the threads are not modelled, nor are
  socket options, the platform's event queue, waiting and threads. Counters are unbounded.
\<close>

section \<open>Data\<close>

record pool_config =
  pl_maxConnsPerPeer :: nat
  pl_globalMaxFds :: nat
  pl_connectTimeoutMs :: u64
  pl_idleTimeoutSecs :: u64
  pl_janitorWorkerCount :: nat
  pl_maxEINTRRetries :: nat

record slot =
  sl_fd :: int
  sl_lastUsed :: u64

text \<open>A callback is known by a number.\<close>

record pool_request =
  rq_host :: string
  rq_port :: u16
  rq_cb :: nat

record pending_connect =
  pd_request :: pool_request
  pd_deadlineMs :: u64

datatype pool_counter =
  PlAcquired | PlReleased | PlEvicted | PlFailed | PlGlobalRej | PlTlsFail | PlAsyncDepth | PlReactorEvents

record conn_pool =
  cp_cfg :: pool_config
  cp_pool :: "(string \<times> slot list) list"
  cp_openFds :: nat
  cp_counts :: "pool_counter \<Rightarrow> nat"
  cp_tls :: bool   \<comment> \<open>a TLS callback is installed\<close>
  cp_pending :: "(int \<times> pending_connect) list"
  cp_asyncQueue :: "pool_request list"
  cp_dnsQueue :: "pool_request list"
  cp_tlsQueue :: "(int \<times> pool_request) list"
  cp_calls :: "(nat \<times> int) list"   \<comment> \<open>the callbacks invoked, with their argument\<close>
  cp_os :: "int set"   \<comment> \<open>the descriptors open in the kernel\<close>

definition ConnectionPool :: "pool_config \<Rightarrow> bool \<Rightarrow> conn_pool" where
  "ConnectionPool cfg tls =
     \<lparr>cp_cfg = cfg, cp_pool = [], cp_openFds = 0, cp_counts = (\<lambda>c. 0), cp_tls = tls, cp_pending = [], cp_asyncQueue = [],
      cp_dnsQueue = [], cp_tlsQueue = [], cp_calls = [], cp_os = {}\<rparr>"

text \<open>What the kernel answers to a probe and to the calls on one address.\<close>

datatype errno = EBADF | ENOTCONN | EAGAIN | EOther
datatype peek = PeekData | PeekEof | PeekError errno
datatype connect_result = ConnectOk | ConnectIntr | ConnectInProgress | ConnectFails

record attempt =
  at_socket :: int
  at_connects :: "connect_result list"

section \<open>Helpers\<close>

definition makeKey :: "string \<Rightarrow> u16 \<Rightarrow> string" where
  "makeKey h p = h @ '':'' @ show_nat (unat p)"

definition pl_add :: "pool_counter \<Rightarrow> conn_pool \<Rightarrow> conn_pool" where
  "pl_add c p = p\<lparr>cp_counts := (cp_counts p)(c := cp_counts p c + 1)\<rparr>"

definition os_close :: "int \<Rightarrow> conn_pool \<Rightarrow> conn_pool" where
  "os_close fd p = p\<lparr>cp_os := cp_os p - {fd}\<rparr>"

definition less_open :: "conn_pool \<Rightarrow> conn_pool" where
  "less_open p = (if cp_openFds p > 0 then p\<lparr>cp_openFds := cp_openFds p - 1\<rparr> else p)"

definition closeFd :: "int \<Rightarrow> conn_pool \<Rightarrow> conn_pool" where
  "closeFd fd p = (if fd < 0 then p else less_open (os_close fd p))"

definition isAlive :: "int \<Rightarrow> peek \<Rightarrow> bool" where
  "isAlive fd r =
     (if fd < 0 then False
      else case r of PeekEof \<Rightarrow> False | PeekError EBADF \<Rightarrow> False | PeekError ENOTCONN \<Rightarrow> False | _ \<Rightarrow> True)"

definition call :: "nat \<Rightarrow> int \<Rightarrow> conn_pool \<Rightarrow> conn_pool" where
  "call cb fd p = p\<lparr>cp_calls := cp_calls p @ [(cb, fd)]\<rparr>"

text \<open>The bucket of a peer, created when it is missing.\<close>

definition getBucket :: "string \<Rightarrow> conn_pool \<Rightarrow> slot list \<times> conn_pool" where
  "getBucket key p =
     (case map_of (cp_pool p) key of
        Some b \<Rightarrow> (b, p)
      | None \<Rightarrow> ([], p\<lparr>cp_pool := cp_pool p @ [(key, [])]\<rparr>))"

definition setBucket :: "string \<Rightarrow> slot list \<Rightarrow> conn_pool \<Rightarrow> conn_pool" where
  "setBucket key b p = p\<lparr>cp_pool := map (\<lambda>(k, c). (k, if k = key then b else c)) (cp_pool p)\<rparr>"

text \<open>Taking slots off a bucket until one is alive: its descriptor, the rest, the pool.\<close>

fun take_alive :: "(int \<Rightarrow> peek) \<Rightarrow> slot list \<Rightarrow> conn_pool \<Rightarrow> int option \<times> slot list \<times> conn_pool" where
  "take_alive peeks [] p = (None, [], p)"
| "take_alive peeks (s # ss) p =
     (if sl_fd s \<ge> 0 \<and> isAlive (sl_fd s) (peeks (sl_fd s)) then (Some (sl_fd s), ss, p)
      else take_alive peeks ss (closeFd (sl_fd s) p))"

definition reuse :: "(int \<Rightarrow> peek) \<Rightarrow> string \<Rightarrow> conn_pool \<Rightarrow> int option \<times> conn_pool" where
  "reuse peeks key p =
     (let (b, p) = getBucket key p; (found, b, p) = take_alive peeks b p in (found, setBucket key b p))"

section \<open>Opening\<close>

text \<open>The connect with its retries on \<^verbatim>\<open>EINTR\<close>; a missing answer counts as a failure.\<close>

fun connects :: "nat \<Rightarrow> nat \<Rightarrow> connect_result list \<Rightarrow> bool" where
  "connects maxRetries retries [] = False"
| "connects maxRetries retries (r # rs) =
     (if r = ConnectOk then True
      else if r = ConnectIntr \<and> retries + 1 \<le> maxRetries then connects maxRetries (retries + 1) rs
      else False)"

fun open_addresses :: "attempt list \<Rightarrow> conn_pool \<Rightarrow> int \<times> conn_pool" where
  "open_addresses [] p = (- 1, p)"
| "open_addresses (a # as) p =
     (if at_socket a < 0 then open_addresses as p
      else
        let p = p\<lparr>cp_os := insert (at_socket a) (cp_os p)\<rparr>
        in if connects (pl_maxEINTRRetries (cp_cfg p)) 0 (at_connects a)
           then (at_socket a, p\<lparr>cp_openFds := cp_openFds p + 1\<rparr>)
           else open_addresses as (os_close (at_socket a) p))"

text \<open>\<open>None\<close>: the name does not resolve.\<close>

definition openBlocking :: "attempt list option \<Rightarrow> conn_pool \<Rightarrow> int \<times> conn_pool" where
  "openBlocking res p = (case res of None \<Rightarrow> (- 1, p) | Some as \<Rightarrow> open_addresses as p)"

text \<open>
  The callback may wrap the descriptor: what it answers stands for the connection from then on,
  and the raw descriptor belongs to the wrapper. \<open>cp_os\<close> holds the descriptors that stand for
  connections; \<open>wrapped fd fd\<close> changes nothing.
\<close>

definition wrapped :: "int \<Rightarrow> int \<Rightarrow> conn_pool \<Rightarrow> conn_pool" where
  "wrapped fd tfd p = p\<lparr>cp_os := insert tfd (cp_os p - {fd})\<rparr>"

definition applyTlsDirect :: "(int \<Rightarrow> int) \<Rightarrow> int \<Rightarrow> conn_pool \<Rightarrow> int \<times> conn_pool" where
  "applyTlsDirect tlsFn fd p =
     (if \<not> cp_tls p then (fd, p)
      else let tfd = tlsFn fd in if tfd < 0 then (- 1, pl_add PlTlsFail (os_close fd p)) else (tfd, wrapped fd tfd p))"

section \<open>The interface\<close>

definition acquire ::
    "(int \<Rightarrow> peek) \<Rightarrow> attempt list option \<Rightarrow> (int \<Rightarrow> int) \<Rightarrow> string \<Rightarrow> u16 \<Rightarrow> conn_pool \<Rightarrow> int \<times> conn_pool" where
  "acquire peeks res tlsFn host port p =
     (let (found, p) = reuse peeks (makeKey host port) p
      in case found of
           Some fd \<Rightarrow> (fd, pl_add PlAcquired p)
         | None \<Rightarrow>
             if cp_openFds p \<ge> pl_globalMaxFds (cp_cfg p) then (- 1, pl_add PlFailed (pl_add PlGlobalRej p))
             else
               let (fd, p) = openBlocking res p
               in if fd < 0 then (- 1, pl_add PlFailed p)
                  else
                    let (fd, p) = applyTlsDirect tlsFn fd p
                    in if fd < 0 then (- 1, pl_add PlTlsFail (pl_add PlFailed p)) else (fd, pl_add PlAcquired p))"

definition acquireAsync :: "pool_request \<Rightarrow> conn_pool \<Rightarrow> conn_pool" where
  "acquireAsync r p = (let p = pl_add PlAsyncDepth p in p\<lparr>cp_asyncQueue := cp_asyncQueue p @ [r]\<rparr>)"

definition pool_release :: "u64 \<Rightarrow> string \<Rightarrow> u16 \<Rightarrow> int \<Rightarrow> bool \<Rightarrow> conn_pool \<Rightarrow> conn_pool" where
  "pool_release now host port fd healthy p =
     (let p = pl_add PlReleased p
      in if fd < 0 \<or> \<not> healthy then closeFd fd p
         else
           let (b, p) = getBucket (makeKey host port) p
           in if length b \<ge> pl_maxConnsPerPeer (cp_cfg p) then pl_add PlEvicted (closeFd fd p)
              else setBucket (makeKey host port) (b @ [\<lparr>sl_fd = fd, sl_lastUsed = now\<rparr>]) p)"

definition evict_slots :: "slot list \<Rightarrow> conn_pool \<Rightarrow> conn_pool" where
  "evict_slots ss p = foldl (\<lambda>p s. pl_add PlEvicted (closeFd (sl_fd s) p)) p ss"

definition evictPeer :: "string \<Rightarrow> u16 \<Rightarrow> conn_pool \<Rightarrow> conn_pool" where
  "evictPeer host port p =
     (case map_of (cp_pool p) (makeKey host port) of
        None \<Rightarrow> p
      | Some b \<Rightarrow> setBucket (makeKey host port) [] (evict_slots b p))"

definition pool_clear :: "conn_pool \<Rightarrow> conn_pool" where
  "pool_clear p = (foldl (\<lambda>p (k, b). evict_slots b p) p (cp_pool p))\<lparr>cp_pool := []\<rparr>"

section \<open>The workers\<close>

text \<open>One request of the asynchronous queue.\<close>

definition async_work :: "(int \<Rightarrow> peek) \<Rightarrow> conn_pool \<Rightarrow> conn_pool" where
  "async_work peeks p =
     (case cp_asyncQueue p of
        [] \<Rightarrow> p
      | r # rs \<Rightarrow>
          let p = p\<lparr>cp_asyncQueue := rs\<rparr>;
              p = (if cp_counts p PlAsyncDepth > 0 then p\<lparr>cp_counts := (cp_counts p)(PlAsyncDepth := cp_counts p PlAsyncDepth - 1)\<rparr> else p);
              (found, p) = reuse peeks (makeKey (rq_host r) (rq_port r)) p
          in case found of
               Some fd \<Rightarrow> call (rq_cb r) fd (pl_add PlAcquired p)
             | None \<Rightarrow> p\<lparr>cp_dnsQueue := cp_dnsQueue p @ [r]\<rparr>)"

text \<open>The loop over the addresses: the first connect that is on its way is registered.\<close>

fun start_connect :: "u64 \<Rightarrow> pool_request \<Rightarrow> attempt list \<Rightarrow> conn_pool \<Rightarrow> int \<times> conn_pool" where
  "start_connect nowMs r [] p = (- 1, p)"
| "start_connect nowMs r (a # as) p =
     (if at_socket a < 0 then start_connect nowMs r as p
      else
        let p = p\<lparr>cp_os := insert (at_socket a) (cp_os p)\<rparr>
        in if (case at_connects a of [] \<Rightarrow> False | c # cs \<Rightarrow> c = ConnectOk \<or> c = ConnectInProgress)
           then
             let p = p\<lparr>cp_openFds := cp_openFds p + 1\<rparr>;
                 pc = \<lparr>pd_request = r, pd_deadlineMs = nowMs + pl_connectTimeoutMs (cp_cfg p)\<rparr>
             in (- 1, p\<lparr>cp_pending := filter (\<lambda>(fd, q). fd \<noteq> at_socket a) (cp_pending p) @ [(at_socket a, pc)]\<rparr>)
           else start_connect nowMs r as (os_close (at_socket a) p))"

definition dns_work :: "u64 \<Rightarrow> attempt list option \<Rightarrow> conn_pool \<Rightarrow> conn_pool" where
  "dns_work nowMs res p =
     (case cp_dnsQueue p of
        [] \<Rightarrow> p
      | r # rs \<Rightarrow>
          let p = p\<lparr>cp_dnsQueue := rs\<rparr>
          in if cp_openFds p \<ge> pl_globalMaxFds (cp_cfg p) then call (rq_cb r) (- 1) (pl_add PlFailed (pl_add PlGlobalRej p))
             else
               case res of
                 None \<Rightarrow> call (rq_cb r) (- 1) (pl_add PlFailed p)
               | Some as \<Rightarrow>
                   let (fd, p) = start_connect nowMs r as p
                   in if fd \<ge> 0 then call (rq_cb r) (- 1) (pl_add PlFailed (os_close fd p)) else p)"

definition fail_connect :: "int \<Rightarrow> nat \<Rightarrow> conn_pool \<Rightarrow> conn_pool" where
  "fail_connect fd cb p = call cb (- 1) (pl_add PlFailed (less_open (os_close fd p)))"

text \<open>An event of the reactor with its error flag and the socket's pending error.\<close>

definition handleReactorEvent :: "int \<Rightarrow> bool \<Rightarrow> bool \<Rightarrow> conn_pool \<Rightarrow> conn_pool" where
  "handleReactorEvent fd err so_error p =
     (case map_of (cp_pending p) fd of
        None \<Rightarrow> p
      | Some pc \<Rightarrow>
          let r = pd_request pc; p = p\<lparr>cp_pending := filter (\<lambda>(f, q). f \<noteq> fd) (cp_pending p)\<rparr>
          in if err then fail_connect fd (rq_cb r) p
             else if so_error then fail_connect fd (rq_cb r) p
             else if \<not> cp_tls p then call (rq_cb r) fd (pl_add PlAcquired p)
             else p\<lparr>cp_tlsQueue := cp_tlsQueue p @ [(fd, r)]\<rparr>)"

definition expire_connect :: "int \<Rightarrow> conn_pool \<Rightarrow> conn_pool" where
  "expire_connect fd p =
     (case map_of (cp_pending p) fd of
        None \<Rightarrow> p
      | Some pc \<Rightarrow>
          call (rq_cb (pd_request pc)) (- 1)
            (less_open (os_close fd (p\<lparr>cp_pending := filter (\<lambda>(f, q). f \<noteq> fd) (cp_pending p)\<rparr>))))"

text \<open>A round of the reactor: the events, then the connects past their deadline.\<close>

definition reactor_events :: "(int \<times> bool \<times> bool) list \<Rightarrow> conn_pool \<Rightarrow> conn_pool" where
  "reactor_events events p =
     foldl (\<lambda>p (fd, err, so_error). handleReactorEvent fd err so_error (pl_add PlReactorEvents p)) p events"

definition reactor_timeouts :: "u64 \<Rightarrow> conn_pool \<Rightarrow> conn_pool" where
  "reactor_timeouts nowMs p =
     foldl (\<lambda>p fd. expire_connect fd p) p (map fst (filter (\<lambda>(fd, pc). nowMs \<ge> pd_deadlineMs pc) (cp_pending p)))"

definition tls_work :: "(int \<Rightarrow> int) \<Rightarrow> conn_pool \<Rightarrow> conn_pool" where
  "tls_work tlsFn p =
     (case cp_tlsQueue p of
        [] \<Rightarrow> p
      | (fd, r) # rs \<Rightarrow>
          let p = p\<lparr>cp_tlsQueue := rs\<rparr>; finalFd = (if cp_tls p then tlsFn fd else fd)
          in if cp_tls p \<and> finalFd < 0 then call (rq_cb r) (- 1) (pl_add PlFailed (pl_add PlTlsFail (os_close fd p)))
             else call (rq_cb r) finalFd (pl_add PlAcquired (if cp_tls p then wrapped fd finalFd p else p)))"

definition keep_slot :: "(int \<Rightarrow> peek) \<Rightarrow> u64 \<Rightarrow> pool_config \<Rightarrow> slot \<Rightarrow> bool" where
  "keep_slot peeks now cfg s \<longleftrightarrow>
     sl_fd s \<ge> 0 \<and> now - sl_lastUsed s < pl_idleTimeoutSecs cfg \<and> isAlive (sl_fd s) (peeks (sl_fd s))"

definition janitor_bucket :: "(int \<Rightarrow> peek) \<Rightarrow> u64 \<Rightarrow> string \<times> slot list \<Rightarrow> conn_pool \<Rightarrow> conn_pool" where
  "janitor_bucket peeks now kb p =
     setBucket (fst kb) (filter (keep_slot peeks now (cp_cfg p)) (snd kb))
       (evict_slots (filter (\<lambda>s. \<not> keep_slot peeks now (cp_cfg p) s) (snd kb)) p)"

text \<open>The buckets of a janitor are those whose position is its index modulo the number of janitors.\<close>

definition janitor_work :: "(int \<Rightarrow> peek) \<Rightarrow> u64 \<Rightarrow> nat \<Rightarrow> conn_pool \<Rightarrow> conn_pool" where
  "janitor_work peeks now index p =
     foldl (\<lambda>p kb. janitor_bucket peeks now kb p) p
       (map fst (filter (\<lambda>(kb, i). i mod pl_janitorWorkerCount (cp_cfg p) = index) (zip (cp_pool p) [0..<length (cp_pool p)])))"

definition pool_getMetrics :: "conn_pool \<Rightarrow> (pool_counter \<Rightarrow> nat) \<times> nat" where
  "pool_getMetrics p = (cp_counts p, cp_openFds p)"

section \<open>The system\<close>


datatype pool_act =
    ActAcquire "int \<Rightarrow> peek" "attempt list option" "int \<Rightarrow> int" string u16
  | ActSubmit pool_request
  | ActRelease u64 string u16 int bool
  | ActEvict string u16
  | ActClear
  | ActAsync "int \<Rightarrow> peek"
  | ActDns u64 "attempt list option"
  | ActEvents "(int \<times> bool \<times> bool) list"
  | ActTimeouts u64
  | ActTls "int \<Rightarrow> int"
  | ActJanitor "int \<Rightarrow> peek" u64 nat

definition pool_op :: "pool_act \<Rightarrow> conn_pool \<Rightarrow> conn_pool" where
  "pool_op a p =
     (case a of
        ActAcquire peeks res tlsFn host port \<Rightarrow> snd (acquire peeks res tlsFn host port p)
      | ActSubmit r \<Rightarrow> acquireAsync r p
      | ActRelease now host port fd healthy \<Rightarrow> pool_release now host port fd healthy p
      | ActEvict host port \<Rightarrow> evictPeer host port p
      | ActClear \<Rightarrow> pool_clear p
      | ActAsync peeks \<Rightarrow> async_work peeks p
      | ActDns now res \<Rightarrow> dns_work now res p
      | ActEvents events \<Rightarrow> reactor_events events p
      | ActTimeouts now \<Rightarrow> reactor_timeouts now p
      | ActTls tlsFn \<Rightarrow> tls_work tlsFn p
      | ActJanitor peeks now index \<Rightarrow> janitor_work peeks now index p)"

text \<open>The descriptors a list of callback calls hands out.\<close>

definition given :: "(nat \<times> int) list \<Rightarrow> int multiset" where
  "given calls = mset (filter (\<lambda>fd. fd \<ge> 0) (map snd calls))"


text \<open>
  What kernel, callback and clients keep to: a new socket's number is not that of an open one;
  the TLS callback answers a negative number, the descriptor it was given, or a wrapped one,
  which is not open yet; and a client gives back descriptors it holds.
\<close>

definition fresh :: "attempt list option \<Rightarrow> conn_pool \<Rightarrow> bool" where
  "fresh res p \<longleftrightarrow> (case res of None \<Rightarrow> True | Some as \<Rightarrow> list_all (\<lambda>a. at_socket a < 0 \<or> at_socket a \<notin> cp_os p) as)"




section \<open>Descriptors balance\<close>

definition owned :: "conn_pool \<Rightarrow> int multiset" where
  "owned p = mset (map sl_fd (concat (map snd (cp_pool p)))) + mset (map fst (cp_pending p)) + mset (map fst (cp_tlsQueue p))"

text \<open>
  \<open>balanced H p\<close>: the open descriptors are, each once, those in the buckets, the pending connects
  and the TLS queue and those in \<open>H\<close>; the counter is at least their number and within the budget.
\<close>

definition balanced :: "int multiset \<Rightarrow> conn_pool \<Rightarrow> bool" where
  "balanced H p \<longleftrightarrow>
     finite (cp_os p) \<and> owned p + H = mset_set (cp_os p) \<and> (\<forall>fd\<in>cp_os p. 0 \<le> fd) \<and>
     card (cp_os p) \<le> cp_openFds p \<and> cp_openFds p \<le> pl_globalMaxFds (cp_cfg p) \<and>
     distinct (map fst (cp_pool p)) \<and> distinct (map fst (cp_pending p))"

named_theorems pool_simp

lemma pl_add_simps [pool_simp]:
  "cp_cfg (pl_add c p) = cp_cfg p" "cp_pool (pl_add c p) = cp_pool p" "cp_openFds (pl_add c p) = cp_openFds p"
  "cp_pending (pl_add c p) = cp_pending p" "cp_asyncQueue (pl_add c p) = cp_asyncQueue p" "cp_dnsQueue (pl_add c p) = cp_dnsQueue p"
  "cp_tlsQueue (pl_add c p) = cp_tlsQueue p" "cp_calls (pl_add c p) = cp_calls p" "cp_os (pl_add c p) = cp_os p" "cp_tls (pl_add c p) = cp_tls p"
  by (simp_all add: pl_add_def)

lemma call_simps [pool_simp]:
  "cp_cfg (call cb x p) = cp_cfg p" "cp_pool (call cb x p) = cp_pool p" "cp_openFds (call cb x p) = cp_openFds p"
  "cp_pending (call cb x p) = cp_pending p" "cp_asyncQueue (call cb x p) = cp_asyncQueue p" "cp_dnsQueue (call cb x p) = cp_dnsQueue p"
  "cp_tlsQueue (call cb x p) = cp_tlsQueue p" "cp_calls (call cb x p) = cp_calls p @ [(cb, x)]" "cp_os (call cb x p) = cp_os p"
  "cp_tls (call cb x p) = cp_tls p"
  by (simp_all add: call_def)

lemma setBucket_simps [pool_simp]:
  "cp_cfg (setBucket k b p) = cp_cfg p" "cp_openFds (setBucket k b p) = cp_openFds p" "cp_pending (setBucket k b p) = cp_pending p"
  "cp_asyncQueue (setBucket k b p) = cp_asyncQueue p" "cp_dnsQueue (setBucket k b p) = cp_dnsQueue p"
  "cp_tlsQueue (setBucket k b p) = cp_tlsQueue p" "cp_calls (setBucket k b p) = cp_calls p" "cp_os (setBucket k b p) = cp_os p"
  "cp_tls (setBucket k b p) = cp_tls p"
  by (simp_all add: setBucket_def)

lemma close_simps [pool_simp]:
  "cp_cfg (closeFd x p) = cp_cfg p" "cp_pool (closeFd x p) = cp_pool p" "cp_pending (closeFd x p) = cp_pending p"
  "cp_asyncQueue (closeFd x p) = cp_asyncQueue p" "cp_dnsQueue (closeFd x p) = cp_dnsQueue p" "cp_tlsQueue (closeFd x p) = cp_tlsQueue p"
  "cp_calls (closeFd x p) = cp_calls p" "cp_tls (closeFd x p) = cp_tls p"
  by (simp_all add: closeFd_def less_open_def os_close_def)

lemma balanced_pl_add [pool_simp]: "balanced H (pl_add c p) \<longleftrightarrow> balanced H p"
  by (simp add: balanced_def owned_def pool_simp)

lemma balanced_call [pool_simp]: "balanced H (call cb x p) \<longleftrightarrow> balanced H p"
  by (simp add: balanced_def owned_def pool_simp)








lemma setBucket_keys [pool_simp]: "map fst (cp_pool (setBucket key b p)) = map fst (cp_pool p)"
  by (simp add: setBucket_def comp_def case_prod_beta)












lemma evict_simps [pool_simp]:
  "cp_cfg (evict_slots ss p) = cp_cfg p" "cp_pool (evict_slots ss p) = cp_pool p" "cp_pending (evict_slots ss p) = cp_pending p"
  "cp_asyncQueue (evict_slots ss p) = cp_asyncQueue p" "cp_dnsQueue (evict_slots ss p) = cp_dnsQueue p"
  "cp_tlsQueue (evict_slots ss p) = cp_tlsQueue p" "cp_calls (evict_slots ss p) = cp_calls p" "cp_tls (evict_slots ss p) = cp_tls p"
  by (induction ss arbitrary: p) (simp_all add: evict_slots_def pool_simp)






text \<open>Opening: a new descriptor goes to the hand.\<close>

lemma os_open_close [simp]: "fd \<notin> cp_os p \<Longrightarrow> os_close fd (p\<lparr>cp_os := insert fd (cp_os p)\<rparr>) = p"
  by (simp add: os_close_def)


definition in_hand :: "int \<Rightarrow> int multiset" where
  "in_hand fd = (if fd < 0 then {#} else {#fd#})"

lemma in_hand_none [simp]: "in_hand (- 1) = {#}"
  by (simp add: in_hand_def)




lemma wrapped_simps [pool_simp]:
  "cp_cfg (wrapped fd t p) = cp_cfg p" "cp_pool (wrapped fd t p) = cp_pool p" "cp_openFds (wrapped fd t p) = cp_openFds p"
  "cp_pending (wrapped fd t p) = cp_pending p" "cp_asyncQueue (wrapped fd t p) = cp_asyncQueue p"
  "cp_dnsQueue (wrapped fd t p) = cp_dnsQueue p" "cp_tlsQueue (wrapped fd t p) = cp_tlsQueue p"
  "cp_calls (wrapped fd t p) = cp_calls p" "cp_tls (wrapped fd t p) = cp_tls p"
  by (simp_all add: wrapped_def)





lemma given_simps [simp]: "given [] = {#}" "given (xs @ ys) = given xs + given ys" "given [(cb, x)] = in_hand x"
  by (simp_all add: given_def in_hand_def)






lemma balanced_queues [simp]:
  "balanced L (p\<lparr>cp_asyncQueue := x\<rparr>) = balanced L p" "balanced L (p\<lparr>cp_dnsQueue := x\<rparr>) = balanced L p"
  "balanced L (p\<lparr>cp_counts := c\<rparr>) = balanced L p"
  by (simp_all add: balanced_def owned_def)






lemma lo_calls [pool_simp]: "cp_calls (less_open p) = cp_calls p" "cp_calls (os_close fd p) = cp_calls p"
  by (simp_all add: less_open_def os_close_def)

















lemma low_cfg [pool_simp]: "cp_cfg (less_open p) = cp_cfg p" "cp_cfg (os_close fd p) = cp_cfg p"
  by (simp_all add: less_open_def os_close_def)





text \<open>
  A run: a call for a peer whose first address refuses and whose second one answers, on
  descriptor 5, which the TLS callback wraps as 6; then the descriptor is given back.
\<close>

definition example_config :: pool_config where
  "example_config = \<lparr>pl_maxConnsPerPeer = 2, pl_globalMaxFds = 8, pl_connectTimeoutMs = 1000, pl_idleTimeoutSecs = 30,
     pl_janitorWorkerCount = 1, pl_maxEINTRRetries = 3\<rparr>"




section \<open>Failed handshakes use up the budget\<close>

definition idle :: "conn_pool \<Rightarrow> bool" where
  "idle p \<longleftrightarrow> (\<forall>(k, b) \<in> set (cp_pool p). b = []) \<and> cp_os p = {}"

lemma idle_reuse:
  assumes "idle p"
  shows "\<exists>q. reuse peeks key p = (None, q) \<and> idle q \<and> cp_openFds q = cp_openFds p \<and> cp_cfg q = cp_cfg p \<and> cp_tls q = cp_tls p"
proof -
  obtain b q where g: "getBucket key p = (b, q)" by fastforce
  then have "b = []" "idle q" "cp_openFds q = cp_openFds p" "cp_cfg q = cp_cfg p" "cp_tls q = cp_tls p"
    using assms by (auto simp: getBucket_def idle_def split: option.splits dest: map_of_SomeD)
  then show ?thesis using g by (auto simp: reuse_def idle_def pool_simp) (auto simp: setBucket_def)
qed

text \<open>A call that connects and whose handshake fails.\<close>

definition refused_acquire :: "(int \<Rightarrow> peek) \<Rightarrow> string \<Rightarrow> u16 \<Rightarrow> int \<Rightarrow> conn_pool \<Rightarrow> conn_pool" where
  "refused_acquire peeks host port fd p =
     snd (acquire peeks (Some [\<lparr>at_socket = fd, at_connects = [ConnectOk]\<rparr>]) (\<lambda>x. - 1) host port p)"

text \<open>
  a failed TLS handshake closes the descriptor and keeps it counted. After as many
  \<^verbatim>\<open>acquire\<close> calls whose handshake fails as the budget has places, no descriptor is open, the
  counter is at the budget, and every further call for any peer fails, whatever the network answers.
\<close>

theorem tls_failures_exhaust:
  assumes "0 \<le> fd"
  shows "let p = (refused_acquire peeks host port fd ^^ pl_globalMaxFds cfg) (ConnectionPool cfg True) in
    cp_os p = {} \<and> cp_openFds p = pl_globalMaxFds cfg \<and> fst (acquire peeks' res tlsFn host' port' p) = - 1"
proof -
  let ?failing = "refused_acquire peeks host port fd"
  have step: "idle (?failing p) \<and> cp_openFds (?failing p) = cp_openFds p + 1 \<and> cp_cfg (?failing p) = cp_cfg p \<and> cp_tls (?failing p)"
    if "idle p" and "cp_openFds p < pl_globalMaxFds (cp_cfg p)" and "cp_tls p" for p
  proof -
    obtain q where q: "reuse peeks (makeKey host port) p = (None, q)" "idle q" "cp_openFds q = cp_openFds p"
      "cp_cfg q = cp_cfg p" "cp_tls q = cp_tls p" using idle_reuse \<open>idle p\<close> by blast
    show ?thesis
      using q that(2,3) assms(1)
      by (simp add: refused_acquire_def acquire_def openBlocking_def applyTlsDirect_def Let_def pool_simp idle_def)
        (simp add: pl_add_def os_close_def)
  qed
  have run: "idle ((?failing ^^ k) (ConnectionPool cfg True)) \<and> cp_openFds ((?failing ^^ k) (ConnectionPool cfg True)) = k \<and>
      cp_cfg ((?failing ^^ k) (ConnectionPool cfg True)) = cfg \<and> cp_tls ((?failing ^^ k) (ConnectionPool cfg True))"
    if "k \<le> pl_globalMaxFds cfg" for k
    using that
  proof (induction k)
    case 0
    then show ?case by (simp add: idle_def ConnectionPool_def)
  next
    case (Suc k)
    then show ?case using step [of "(?failing ^^ k) (ConnectionPool cfg True)"] by simp
  qed
  let ?p = "(?failing ^^ pl_globalMaxFds cfg) (ConnectionPool cfg True)"
  note r = run [OF order_refl]
  obtain q where "reuse peeks' (makeKey host' port') ?p = (None, q)" "cp_openFds q = cp_openFds ?p" "cp_cfg q = cp_cfg ?p"
    using idle_reuse [of ?p] r by blast
  then show ?thesis using r by (simp add: acquire_def idle_def)
qed

theorem tls_failures_exhaust_witness:
  "fst (acquire (\<lambda>fd. PeekData) (Some []) (\<lambda>fd. fd) ''b'' 81
     ((refused_acquire (\<lambda>fd. PeekData) ''a'' 80 4 ^^ 8) (ConnectionPool example_config True))) = - 1"
  using tls_failures_exhaust [of 4 example_config "\<lambda>fd. PeekData" "''a''" 80 "\<lambda>fd. PeekData" "Some []" "\<lambda>fd. fd" "''b''" 81]
  by (simp add: Let_def example_config_def)

section \<open>Requests\<close>

text \<open>
  The requests under way and those answered. Every asynchronous request is in one queue or pending or has
  had its callback invoked, unless a DNS worker dropped it.
\<close>

definition under_way :: "conn_pool \<Rightarrow> nat multiset" where
  "under_way p = mset (map rq_cb (cp_asyncQueue p)) + mset (map rq_cb (cp_dnsQueue p)) +
     mset (map (\<lambda>e. rq_cb (pd_request (snd e))) (cp_pending p)) + mset (map (\<lambda>e. rq_cb (snd e)) (cp_tlsQueue p))"

definition requests :: "conn_pool \<Rightarrow> nat multiset" where
  "requests p = under_way p + mset (map fst (cp_calls p))"

definition submits :: "pool_act \<Rightarrow> nat multiset" where
  "submits a = (case a of ActSubmit r \<Rightarrow> {#rq_cb r#} | _ \<Rightarrow> {#})"

named_theorems req_simp

lemma req_low [req_simp]:
  "requests (pl_add c p) = requests p" "requests (setBucket k b p) = requests p" "requests (closeFd fd p) = requests p"
  "requests (less_open p) = requests p" "requests (os_close fd p) = requests p" "requests (evict_slots ss p) = requests p"
  "requests (p\<lparr>cp_pool := x\<rparr>) = requests p" "requests (p\<lparr>cp_os := y\<rparr>) = requests p" "requests (p\<lparr>cp_openFds := n\<rparr>) = requests p"
  "requests (p\<lparr>cp_counts := c'\<rparr>) = requests p" "requests (wrapped fd t p) = requests p" "requests (call cb fd p) = add_mset cb (requests p)"
  by (simp_all add: requests_def under_way_def pool_simp) (simp_all add: less_open_def os_close_def)

lemma take_alive_req: "take_alive peeks ss p = (f, rest, q) \<Longrightarrow> requests q = requests p"
  by (induction peeks ss p rule: take_alive.induct) (auto simp: req_simp split: if_splits)

lemma bucket_req: "getBucket k p = (b, q) \<Longrightarrow> requests q = requests p"
  by (auto simp: getBucket_def req_simp split: option.splits)

lemma reuse_req: "reuse peeks k p = (f, q) \<Longrightarrow> requests q = requests p"
  by (auto simp: reuse_def req_simp split: prod.splits dest!: take_alive_req bucket_req)

lemma open_addresses_req: "open_addresses as p = (fd, q) \<Longrightarrow> requests q = requests p"
  by (induction as p rule: open_addresses.induct) (auto simp: Let_def req_simp split: if_splits)

lemma acquire_req: "requests (snd (acquire peeks res tlsFn host port p)) = requests p"
  by (auto simp: acquire_def openBlocking_def applyTlsDirect_def Let_def req_simp
      split: prod.split option.split if_split dest!: reuse_req open_addresses_req)

lemma fold_req: "(\<And>p x. requests (f p x) \<subseteq># requests p) \<Longrightarrow> requests (foldl f p xs) \<subseteq># requests p"
  by (induction xs arbitrary: p) (auto intro: subset_mset.order_trans)

lemma filter_req: "requests (p\<lparr>cp_pending := filter P (cp_pending p)\<rparr>) \<subseteq># requests p"
proof -
  have "mset (map (\<lambda>e. rq_cb (pd_request (snd e))) (filter P m)) \<subseteq># mset (map (\<lambda>e. rq_cb (pd_request (snd e))) m)"
    for m :: "(int \<times> pending_connect) list" by (simp add: image_mset_subseteq_mono multiset_filter_subset)
  from this [of "cp_pending p"] show ?thesis
    by (simp add: requests_def under_way_def subset_mset.add_right_mono subset_mset.add_left_mono)
qed

lemma append_req: "requests (p\<lparr>cp_pending := m @ [(fd, pc)]\<rparr>) = add_mset (rq_cb (pd_request pc)) (requests (p\<lparr>cp_pending := m\<rparr>))"
  by (simp add: requests_def under_way_def)

lemma start_connect_req:
  "start_connect now r as p = (fd, q) \<Longrightarrow> requests q \<subseteq># add_mset (rq_cb r) (requests p)"
proof (induction now r as p rule: start_connect.induct)
  case (2 now r a as p)
  let ?p = "p\<lparr>cp_os := insert (at_socket a) (cp_os p), cp_openFds := cp_openFds p + 1\<rparr>"
  have "requests (?p\<lparr>cp_pending := filter (\<lambda>(fd, q). fd \<noteq> at_socket a) (cp_pending ?p)\<rparr>) \<subseteq># requests ?p"
    by (rule filter_req)
  then show ?case
    using 2 by (auto simp: Let_def req_simp append_req split: if_splits)
qed simp

lemma async_req: "requests (async_work peeks p) \<subseteq># requests p"
proof (cases "cp_asyncQueue p")
  case (Cons r rs)
  obtain f q where u: "reuse peeks (makeKey (rq_host r) (rq_port r))
      (if cp_counts p PlAsyncDepth > 0 then p\<lparr>cp_asyncQueue := rs, cp_counts := (cp_counts p)(PlAsyncDepth := cp_counts p PlAsyncDepth - 1)\<rparr>
       else p\<lparr>cp_asyncQueue := rs\<rparr>) = (f, q)" by fastforce
  have "add_mset (rq_cb r) (requests q) = requests p"
    unfolding reuse_req [OF u] using Cons by (simp add: requests_def under_way_def)
  moreover have "requests (q\<lparr>cp_dnsQueue := cp_dnsQueue q @ [r]\<rparr>) = add_mset (rq_cb r) (requests q)"
    by (simp add: requests_def under_way_def)
  ultimately show ?thesis
    using u by (cases f; cases "cp_counts p PlAsyncDepth > 0") (simp_all add: async_work_def Cons Let_def req_simp)
qed (simp add: async_work_def)

lemma dns_req: "requests (dns_work now res p) \<subseteq># requests p"
proof (cases "cp_dnsQueue p")
  case (Cons r rs)
  have q: "add_mset (rq_cb r) (requests (p\<lparr>cp_dnsQueue := rs\<rparr>)) = requests p" using Cons by (simp add: requests_def under_way_def)
  have st: "fd = - 1" if "start_connect now r as q = (fd, s)" for as q fd s
    using that by (induction now r as q rule: start_connect.induct) (auto simp: Let_def split: if_splits)
  show ?thesis
    using q st start_connect_req [of now r _ "p\<lparr>cp_dnsQueue := rs\<rparr>"]
    by (fastforce simp: dns_work_def Cons Let_def req_simp split: option.split prod.split)
qed (simp add: dns_work_def)

lemma pending_req:
  assumes "map_of (cp_pending p) fd = Some pc"
  shows "add_mset (rq_cb (pd_request pc)) (requests (p\<lparr>cp_pending := filter (\<lambda>(f, q). f \<noteq> fd) (cp_pending p)\<rparr>)) \<subseteq># requests p"
proof -
  let ?cb = "\<lambda>e. rq_cb (pd_request (snd e))"
  let ?R = "mset (map rq_cb (cp_asyncQueue p)) + mset (map rq_cb (cp_dnsQueue p)) + mset (map (\<lambda>e. rq_cb (snd e)) (cp_tlsQueue p))
    + mset (map fst (cp_calls p))"
  have "add_mset (rq_cb (pd_request pc)) (mset (map ?cb (filter (\<lambda>(f, q). f \<noteq> fd) m))) \<subseteq># mset (map ?cb m)"
    if "map_of m fd = Some pc" for m :: "(int \<times> pending_connect) list"
    using that
  proof (induction m)
    case (Cons e m)
    show ?case
    proof (cases "fst e = fd")
      case True
      then show ?thesis using Cons.prems
        by (auto simp: image_mset_subseteq_mono multiset_filter_subset case_prod_beta)
    next
      case False
      then show ?thesis using Cons by (auto simp: case_prod_beta add_mset_commute)
    qed
  qed simp
  then have "?R + add_mset (rq_cb (pd_request pc)) (mset (map ?cb (filter (\<lambda>(f, q). f \<noteq> fd) (cp_pending p)))) \<subseteq># ?R + mset (map ?cb (cp_pending p))"
    using assms by (intro subset_mset.add_left_mono) blast
  moreover have "requests p = ?R + mset (map ?cb (cp_pending p))"
    by (simp add: requests_def under_way_def ac_simps)
  moreover have "requests (p\<lparr>cp_pending := m\<rparr>) = ?R + mset (map ?cb m)" for m
    by (simp add: requests_def under_way_def ac_simps)
  ultimately show ?thesis by simp
qed

lemma tls_append_req:
  "requests (p\<lparr>cp_tlsQueue := q @ [(fd, r)]\<rparr>) = add_mset (rq_cb r) (requests (p\<lparr>cp_tlsQueue := q\<rparr>))"
  by (simp add: requests_def under_way_def)

lemma async_append_req:
  "requests (p\<lparr>cp_asyncQueue := q @ [r]\<rparr>) = add_mset (rq_cb r) (requests (p\<lparr>cp_asyncQueue := q\<rparr>))"
  by (simp add: requests_def under_way_def)

lemma event_req: "requests (handleReactorEvent fd err so_error p) \<subseteq># requests p"
proof (cases "map_of (cp_pending p) fd")
  case (Some pc)
  from pending_req [OF this] show ?thesis
    by (auto simp: handleReactorEvent_def fail_connect_def Some Let_def req_simp tls_append_req)
qed (simp add: handleReactorEvent_def)

lemma expire_req: "requests (expire_connect fd p) \<subseteq># requests p"
proof (cases "map_of (cp_pending p) fd")
  case (Some pc)
  from pending_req [OF this] show ?thesis by (simp add: expire_connect_def Some Let_def req_simp)
qed (simp add: expire_connect_def)

lemma tls_req: "requests (tls_work tlsFn p) \<subseteq># requests p"
proof (cases "cp_tlsQueue p")
  case (Cons e rs)
  have "add_mset (rq_cb (snd e)) (requests (p\<lparr>cp_tlsQueue := rs\<rparr>)) = requests p"
    using Cons by (simp add: requests_def under_way_def)
  then show ?thesis by (cases e) (auto simp: tls_work_def Cons Let_def req_simp)
qed (simp add: tls_work_def)

lemma fold_req_eq: "(\<And>p x. requests (f p x) = requests p) \<Longrightarrow> requests (foldl f p xs) = requests p"
  by (induction xs arbitrary: p) auto

lemma op_requests: "requests (pool_op a p) \<subseteq># requests p + submits a"
proof (cases a)
  case (ActSubmit r)
  then show ?thesis
    by (auto simp: pool_op_def submits_def acquireAsync_def Let_def req_simp async_append_req)
next
  case (ActEvents es)
  have "requests (reactor_events es p) \<subseteq># requests p"
    unfolding reactor_events_def
    by (rule fold_req) (auto simp: req_simp split: prod.split intro: subset_mset.order_trans [OF event_req])
  then show ?thesis by (simp add: ActEvents pool_op_def submits_def)
next
  case (ActTimeouts now)
  then show ?thesis unfolding ActTimeouts
    by (simp add: pool_op_def submits_def reactor_timeouts_def fold_req expire_req)
qed (auto simp: pool_op_def submits_def acquire_req pool_release_def evictPeer_def pool_clear_def janitor_work_def janitor_bucket_def
    Let_def req_simp fold_req_eq async_req dns_req tls_req split: prod.split option.split if_split dest!: bucket_req)

lemma run_requests:
  "requests (foldl (\<lambda>p a. pool_op a p) (ConnectionPool cfg tls) acts) \<subseteq>#
     mset (concat (map (\<lambda>a. case a of ActSubmit r \<Rightarrow> [rq_cb r] | _ \<Rightarrow> []) acts))"
proof (induction acts rule: rev_induct)
  case Nil
  show ?case by (simp add: ConnectionPool_def requests_def under_way_def)
next
  case (snoc a acts)
  let ?p = "foldl (\<lambda>p a. pool_op a p) (ConnectionPool cfg tls) acts"
  have "requests (pool_op a ?p) \<subseteq># requests ?p + submits a" by (rule op_requests)
  moreover have "submits a = mset (case a of ActSubmit r \<Rightarrow> [rq_cb r] | _ \<Rightarrow> [])"
    by (simp add: submits_def split: pool_act.split)
  ultimately show ?case using snoc
    by (simp add: subset_mset.order_trans [OF _ subset_mset.add_right_mono])
qed

text \<open>C16: In every sequence of operations of the pool, each taken as one step, whatever kernel, peers,
  TLS callback and clients do, a callback is invoked at most as often as requests naming it were submitted:
  no asynchronous request is answered twice.
\<close>

theorem answered_at_most_once:
  "count (mset (map fst (cp_calls (foldl (\<lambda>p a. pool_op a p) (ConnectionPool cfg tls) acts)))) cb
     \<le> length (filter (\<lambda>a. case a of ActSubmit r \<Rightarrow> rq_cb r = cb | _ \<Rightarrow> False) acts)"
proof -
  let ?p = "foldl (\<lambda>p a. pool_op a p) (ConnectionPool cfg tls) acts"
  have "count (mset (map fst (cp_calls ?p))) cb \<le> count (requests ?p) cb"
    by (simp add: requests_def)
  also have "\<dots> \<le> count (mset (concat (map (\<lambda>a. case a of ActSubmit r \<Rightarrow> [rq_cb r] | _ \<Rightarrow> []) acts))) cb"
    by (rule mset_subset_eq_count [OF run_requests])
  also have "\<dots> = length (filter (\<lambda>a. case a of ActSubmit r \<Rightarrow> rq_cb r = cb | _ \<Rightarrow> False) acts)"
    by (induction acts) (auto split: pool_act.split)
  finally show ?thesis .
qed

text \<open>
  A request that is answered: it is resolved, its connect is under way, the reactor sees the
  connection, and the TLS worker hands out the wrapped descriptor. Its callback was invoked
  once, as often as the bound allows.
\<close>

definition answered_run :: "pool_act list" where
  "answered_run =
     [ActSubmit \<lparr>rq_host = ''a'', rq_port = 80, rq_cb = 3\<rparr>, ActAsync (\<lambda>fd. PeekData),
      ActDns 0 (Some [\<lparr>at_socket = 4, at_connects = [ConnectInProgress]\<rparr>]), ActEvents [(4, False, False)], ActTls (\<lambda>fd. 5)]"

theorem answered_at_most_once_witness:
  "let calls = cp_calls (foldl (\<lambda>p a. pool_op a p) (ConnectionPool example_config True) answered_run)
   in calls = [(3, 5)] \<and> count (mset (map fst calls)) 3 \<le> 1"
proof -
  have "cp_calls (foldl (\<lambda>p a. pool_op a p) (ConnectionPool example_config True) answered_run) = [(3, 5)]"
    by code_simp
  then show ?thesis using answered_at_most_once [of example_config True answered_run 3] by (simp add: answered_run_def Let_def)
qed

section \<open>Requests that are never answered\<close>

definition all_refuse :: "attempt list \<Rightarrow> bool" where
  "all_refuse as \<longleftrightarrow>
     list_all (\<lambda>a. at_socket a < 0 \<or> (case at_connects a of [] \<Rightarrow> True | c # cs \<Rightarrow> c = ConnectFails \<or> c = ConnectIntr)) as"

lemma start_connect_refused:
  "all_refuse as \<Longrightarrow> fresh (Some as) p \<Longrightarrow> start_connect now r as p = (- 1, p)"
proof (induction now r as p rule: start_connect.induct)
  case (2 now r a as p)
  then show ?case by (auto simp: all_refuse_def fresh_def Let_def split: list.splits)
qed simp

text \<open>
  a DNS worker loses the request when no address connects. The request at the head of the queue leaves
  it, the pool is otherwise unchanged, so the request is in no queue, no connect is pending for it and its
  callback is not invoked: the descriptor tested after the loop over the addresses is always -1.
\<close>

theorem lost_request:
  assumes "cp_dnsQueue p = r # rs" and "cp_openFds p < pl_globalMaxFds (cp_cfg p)" and "fresh (Some as) p" and "all_refuse as"
  shows "dns_work now (Some as) p = p\<lparr>cp_dnsQueue := rs\<rparr> \<and> cp_calls (dns_work now (Some as) p) = cp_calls p \<and>
    add_mset (rq_cb r) (under_way (dns_work now (Some as) p)) = under_way p"
proof -
  have "fresh (Some as) (p\<lparr>cp_dnsQueue := rs\<rparr>)" using assms(3) by (simp add: fresh_def)
  then have "dns_work now (Some as) p = p\<lparr>cp_dnsQueue := rs\<rparr>"
    using assms by (simp add: dns_work_def start_connect_refused)
  then show ?thesis using assms(1) by (simp add: under_way_def)
qed

theorem lost_request_witness:
  "let p = (ConnectionPool example_config False)\<lparr>cp_dnsQueue := [\<lparr>rq_host = ''a'', rq_port = 80, rq_cb = 3\<rparr>]\<rparr> in
    dns_work 5 (Some [\<lparr>at_socket = 4, at_connects = [ConnectFails]\<rparr>]) p = ConnectionPool example_config False"
  using lost_request [of "(ConnectionPool example_config False)\<lparr>cp_dnsQueue := [\<lparr>rq_host = ''a'', rq_port = 80, rq_cb = 3\<rparr>]\<rparr>"
      "\<lparr>rq_host = ''a'', rq_port = 80, rq_cb = 3\<rparr>" "[]" "[\<lparr>at_socket = 4, at_connects = [ConnectFails]\<rparr>]" 5]
  by (simp add: ConnectionPool_def example_config_def fresh_def all_refuse_def Let_def)

end
