(* ===== verification/Base58.thy ===== *)
theory Base58
  imports Prelude
begin

text \<open>
  Base58Check, \<^verbatim>\<open>base58check\<close> of \<^verbatim>\<open>src/src/bip39.cpp\<close> and \<^verbatim>\<open>encodeBase58Check\<close> of
  \<^verbatim>\<open>src/src/wallet.cpp\<close>: the long division of a byte string into base-58 digits on machine
  integers, the checksum and the leading ones. The lemmas show that the division computes the digits
  of the big-endian number and that two payloads never have the same text. SHA-256 of OpenSSL
  is an argument; it may fail.
\<close>

section \<open>Digits\<close>

definition BASE58_CHARS :: string where
  "BASE58_CHARS = ''123456789ABCDEFGHJKLMNPQRSTUVWXYZabcdefghijkmnopqrstuvwxyz''"

text \<open>The pass over the digits, least significant first, and the digits pushed for the remaining carry.\<close>

fun b58_carry :: "u32 \<Rightarrow> bytes \<Rightarrow> bytes \<times> u32" where
  "b58_carry carry [] = ([], carry)"
| "b58_carry carry (d # ds) =
     (let carry = carry + push_bit 8 (ucast d); (ds', c) = b58_carry (carry div 58) ds
      in (ucast (carry mod 58) # ds', c))"

function b58_extend :: "u32 \<Rightarrow> bytes" where
  "b58_extend carry = (if carry > 0 then ucast (carry mod 58) # b58_extend (carry div 58) else [])"
  by pat_completeness auto
termination
  by (relation "measure unat") (auto simp: unat_div word_less_nat_alt)

declare b58_extend.simps [simp del]

definition b58_step :: "bytes \<Rightarrow> u8 \<Rightarrow> bytes" where
  "b58_step digits byte = (let (ds, carry) = b58_carry (ucast byte) digits in ds @ b58_extend carry)"

definition b58_digits :: "bytes \<Rightarrow> bytes" where
  "b58_digits full = foldl b58_step [0] full"

definition leadingZeros :: "bytes \<Rightarrow> nat" where
  "leadingZeros payload = length (takeWhile (\<lambda>b. b = 0) payload)"

definition b58_text :: "bytes \<Rightarrow> bytes \<Rightarrow> string" where
  "b58_text payload check =
     replicate (leadingZeros payload) CHR ''1'' @
     map (\<lambda>d. BASE58_CHARS ! unat d) (rev (b58_digits (payload @ check)))"

definition base58check :: "(bytes \<Rightarrow> bytes option) \<Rightarrow> bytes \<Rightarrow> cxx_exn + string" where
  "base58check sha256 payload =
     (if payload = [] then Inl Invalid_argument
      else
        case sha256 payload of
          None \<Rightarrow> Inl Runtime_error
        | Some h1 \<Rightarrow>
            (case sha256 h1 of
               None \<Rightarrow> Inl Runtime_error
             | Some h2 \<Rightarrow> Inr (b58_text payload (take 4 h2))))"

section \<open>The division computes the digits\<close>

text \<open>The number of a list of digits, least significant first.\<close>

fun val58 :: "bytes \<Rightarrow> nat" where
  "val58 [] = 0"
| "val58 (d # ds) = unat d + 58 * val58 ds"

definition digits58 :: "bytes \<Rightarrow> bool" where
  "digits58 ds \<longleftrightarrow> (\<forall>d \<in> set ds. unat d < 58)"

lemma digits58_simps [simp]:
  "digits58 []" "digits58 (d # ds) \<longleftrightarrow> unat d < 58 \<and> digits58 ds" "digits58 (ds @ es) \<longleftrightarrow> digits58 ds \<and> digits58 es"
  by (auto simp: digits58_def)

lemma val58_append: "val58 (ds @ es) = val58 ds + 58 ^ length ds * val58 es"
  by (induction ds) (simp_all add: algebra_simps)

lemma carry_sum:
  assumes "unat (c :: u32) \<le> 255" "unat (d :: u8) < 58"
  shows "unat (c + push_bit 8 (ucast d)) = unat c + 256 * unat d"
proof -
  have u: "unat (push_bit 8 (ucast d) :: u32) = 256 * unat d"
    using assms(2) by (simp add: push_bit_eq_mult unat_word_ariths unsigned_ucast_eq take_bit_nat_eq_self)
  show ?thesis using assms by (simp add: unat_word_ariths u)
qed

lemma unat_58 [simp]: "unat (w div 58 :: u32) = unat w div 58" "unat (w mod 58 :: u32) = unat w mod 58"
  by (simp_all add: unat_div unat_mod)

lemma digit_u8 [simp]: "unat (ucast (w mod 58 :: u32) :: u8) = unat w mod 58"
proof -
  have "unat w mod 58 < 256" by (rule less_trans [of _ 58]) simp_all
  then show ?thesis by (simp add: unsigned_ucast_eq take_bit_eq_mod)
qed

lemma b58_carry_val:
  assumes "unat c \<le> 255" "digits58 ds" "b58_carry c ds = (es, c')"
  shows "digits58 es \<and> length es = length ds \<and> unat c' \<le> 255 \<and>
    val58 es + 58 ^ length ds * unat c' = unat c + 256 * val58 ds"
  using assms
proof (induction c ds arbitrary: es c' rule: b58_carry.induct)
  case (2 carry d ds)
  let ?t = "carry + push_bit 8 (ucast d)"
  have t: "unat ?t = unat carry + 256 * unat d" using 2 by (intro carry_sum) simp_all
  then have "unat ?t \<le> 14847" using 2 by simp
  then have small: "unat (?t div 58) \<le> 255" by simp
  obtain fs where fs: "b58_carry (?t div 58) ds = (fs, c')" "es = ucast (?t mod 58) # fs"
    using 2 by (auto simp: Let_def split: prod.splits)
  from 2 small fs(1) have ih: "digits58 fs \<and> length fs = length ds \<and> unat c' \<le> 255 \<and>
      val58 fs + 58 ^ length ds * unat c' = unat ?t div 58 + 256 * val58 ds" by (simp del: unat_58(2))
  have "val58 es + 58 ^ length (d # ds) * unat c' = unat ?t mod 58 + 58 * (val58 fs + 58 ^ length ds * unat c')"
    by (simp add: fs(2) algebra_simps)
  also have "\<dots> = (unat ?t mod 58 + 58 * (unat ?t div 58)) + 58 * (256 * val58 ds)"
    using ih by simp
  also have "\<dots> = unat carry + 256 * val58 (d # ds)" unfolding mod_mult_div_eq t by simp
  finally show ?case using ih by (simp add: fs(2))
qed simp

lemma b58_extend_val:
  "digits58 (b58_extend c) \<and> val58 (b58_extend c) = unat c \<and> (c > 0 \<longrightarrow> b58_extend c \<noteq> [] \<and> last (b58_extend c) \<noteq> 0)"
proof (induction c rule: b58_extend.induct)
  case (1 c)
  show ?case
  proof (cases "c > 0")
    case True
    note ih = 1 [OF True]
    have e: "b58_extend c = ucast (c mod 58) # b58_extend (c div 58)" using True by (simp add: b58_extend.simps)
    have "last (b58_extend c) \<noteq> 0"
    proof (cases "c div 58 > 0")
      case True
      then show ?thesis using ih by (simp add: e)
    next
      case False
      then have z: "b58_extend (c div 58) = []" by (simp add: b58_extend.simps)
      have "c div 58 = 0" using False by (simp add: word_gt_0)
      then have "unat c div 58 = 0" by (metis unat_58(1) unsigned_0)
      then have "unat (ucast (c mod 58) :: u8) = unat c" by simp
      then have "ucast (c mod 58) \<noteq> (0 :: u8)" using True by (metis unat_gt_0 unsigned_0 word_gt_0)
      then show ?thesis by (simp add: e z)
    qed
    with ih show ?thesis by (simp add: e)
  next
    case False
    then have "c = 0" by (simp add: word_gt_0)
    then show ?thesis by (simp add: b58_extend.simps)
  qed
qed

text \<open>The digits so far: of the number read, without a leading zero unless there is one digit only.\<close>

definition canonical58 :: "bytes \<Rightarrow> bool" where
  "canonical58 ds \<longleftrightarrow> ds \<noteq> [] \<and> digits58 ds \<and> (last ds \<noteq> 0 \<or> ds = [0])"

lemma unat_nonzero: "(w :: 'a::len word) \<noteq> 0 \<longleftrightarrow> 0 < unat w"
  by (simp add: unat_gt_0)

lemma val58_pos: "ds \<noteq> [] \<Longrightarrow> last ds \<noteq> 0 \<Longrightarrow> val58 ds > 0"
proof (induction ds)
  case (Cons d ds)
  show ?case
  proof (cases "ds = []")
    case True
    then have "0 < unat d" using Cons.prems unat_nonzero [of d] by simp
    then show ?thesis by simp
  qed (use Cons in simp)
qed simp

lemma val58_inj:
  "canonical58 ds \<Longrightarrow> canonical58 es \<Longrightarrow> val58 ds = val58 es \<Longrightarrow> ds = es"
proof (induction ds arbitrary: es)
  case (Cons d ds)
  from Cons.prems(2) have "es \<noteq> []" by (simp add: canonical58_def)
  then obtain e es' where e: "es = e # es'" using list.exhaust by blast
  have b: "unat d < 58" "unat e < 58" using Cons.prems(1,2) by (simp_all add: canonical58_def e)
  have v: "unat d + 58 * val58 ds = unat e + 58 * val58 es'" using Cons.prems by (simp add: e)
  have "(unat d + 58 * val58 ds) mod 58 = (unat e + 58 * val58 es') mod 58"
    "(unat d + 58 * val58 ds) div 58 = (unat e + 58 * val58 es') div 58" by (simp_all add: v)
  then have m: "unat d = unat e" "val58 ds = val58 es'" using b by simp_all
  have "ds = [] \<longleftrightarrow> val58 ds = 0" if "canonical58 (d # ds)" for d ds
    using that val58_pos [of ds] by (cases ds) (auto simp: canonical58_def split: if_splits)
  then have n: "ds = [] \<longleftrightarrow> es' = []" using Cons.prems(1,2) m unfolding e by metis
  show ?case
  proof (cases "ds = []")
    case False
    then have "canonical58 ds" "canonical58 es'"
      using Cons.prems(1,2) n by (auto simp: canonical58_def e)
    then have "ds = es'" using Cons.IH m(2) by blast
    with m(1) show ?thesis by (simp add: e word_unat_eq_iff)
  qed (use n m(1) in \<open>simp add: e word_unat_eq_iff\<close>)
qed (simp add: canonical58_def)

lemma val58_less: "digits58 ds \<Longrightarrow> val58 ds < 58 ^ length ds"
  by (induction ds) auto

lemma val58_last:
  assumes "es \<noteq> []" "last es = 0" "digits58 es"
  shows "58 * val58 es < 58 ^ length es"
proof -
  have e: "es = butlast es @ [0]" using assms by (metis append_butlast_last_id)
  then have "val58 es = val58 (butlast es)" using val58_append [of "butlast es" "[0]"] by simp
  moreover have "digits58 (butlast es)" using assms(3) e by (metis digits58_simps(3))
  ultimately have "val58 es < 58 ^ length (butlast es)" using val58_less by metis
  then have "58 * val58 es < 58 ^ Suc (length (butlast es))" by simp
  then show ?thesis using assms(1) by simp
qed

lemma val58_ge: "ds \<noteq> [] \<Longrightarrow> last ds \<noteq> 0 \<Longrightarrow> 58 ^ length ds \<le> 58 * val58 ds"
proof (induction ds)
  case (Cons d ds)
  then show ?case
    by (cases "ds = []") (auto simp: Suc_le_eq unat_gt_0)
qed simp

lemma b58_step_val:
  assumes "canonical58 ds"
  shows "canonical58 (b58_step ds b) \<and> val58 (b58_step ds b) = 256 * val58 ds + unat b"
proof -
  have u: "unat (ucast b :: u32) = unat b" by (simp add: unsigned_ucast_eq take_bit_nat_eq_self less_trans [OF unat_u8_less])
  obtain es c where c: "b58_carry (ucast b) ds = (es, c)" by fastforce
  have "unat b < 256" by simp
  then have "unat (ucast b :: u32) \<le> 255" unfolding u by linarith
  then have s: "digits58 es" "length es = length ds" "val58 es + 58 ^ length ds * unat c = unat b + 256 * val58 ds"
    using b58_carry_val [OF _ _ c] assms unfolding u canonical58_def by blast+
  have e: "b58_step ds b = es @ b58_extend c" by (simp add: b58_step_def c)
  have v: "val58 (b58_step ds b) = 256 * val58 ds + unat b"
    using s by (simp add: e val58_append b58_extend_val)
  have "digits58 (b58_step ds b)" "b58_step ds b \<noteq> []" using s(1,2) assms by (auto simp: e b58_extend_val canonical58_def)
  moreover have "last (b58_step ds b) \<noteq> 0 \<or> b58_step ds b = [0]"
  proof (cases "c > 0")
    case True
    then show ?thesis using b58_extend_val [of c] by (simp add: e)
  next
    case False
    then have "c = 0" by (simp add: word_gt_0)
    then have n: "b58_extend c = []" "unat c = 0" by (simp_all add: b58_extend.simps)
    show ?thesis
    proof (cases "length ds = 1")
      case True
      then obtain d where "es = [d]" using s(2) by (cases es) auto
      then show ?thesis by (simp add: e n)
    next
      case False
      show ?thesis
      proof (rule ccontr)
        assume "\<not> ?thesis"
        then have l: "last es = 0" by (simp add: e n)
        have "last ds \<noteq> 0" "ds \<noteq> []" using assms False by (auto simp: canonical58_def)
        then have "58 ^ length ds \<le> 58 * val58 ds" by (rule val58_ge [rotated])
        also have "\<dots> \<le> 58 * val58 es" using s(3) n(2) by simp
        also have "\<dots> < 58 ^ length ds" using val58_last [of es] l s(1,2) \<open>ds \<noteq> []\<close> by (metis length_0_conv)
        finally show False by simp
      qed
    qed
  qed
  ultimately show ?thesis using v by (simp add: canonical58_def)
qed

lemma b58_digits_val: "canonical58 (b58_digits bs) \<and> val58 (b58_digits bs) = be_val bs"
proof (induction bs rule: rev_induct)
  case Nil
  then show ?case by (simp add: b58_digits_def canonical58_def)
next
  case (snoc b bs)
  then show ?case using b58_step_val [of "b58_digits bs" b] by (simp add: b58_digits_def be_val_append)
qed

section \<open>Two payloads never have the same text\<close>

lemma char58_one: "d < 58 \<Longrightarrow> BASE58_CHARS ! d = CHR ''1'' \<longleftrightarrow> d = 0"
proof -
  have "distinct BASE58_CHARS" "length BASE58_CHARS = 58" "BASE58_CHARS ! 0 = CHR ''1''" by (simp_all add: BASE58_CHARS_def)
  then show "d < 58 \<Longrightarrow> BASE58_CHARS ! d = CHR ''1'' \<longleftrightarrow> d = 0"
    using nth_eq_iff_index_eq [of BASE58_CHARS d 0] by auto
qed

lemma char58_inj: "d < 58 \<Longrightarrow> e < 58 \<Longrightarrow> BASE58_CHARS ! d = BASE58_CHARS ! e \<longleftrightarrow> d = e"
proof -
  have "distinct BASE58_CHARS" "length BASE58_CHARS = 58" by (simp_all add: BASE58_CHARS_def)
  then show "d < 58 \<Longrightarrow> e < 58 \<Longrightarrow> BASE58_CHARS ! d = BASE58_CHARS ! e \<longleftrightarrow> d = e"
    by (simp add: nth_eq_iff_index_eq)
qed

definition b58_chars :: "bytes \<Rightarrow> string" where
  "b58_chars ds = map (\<lambda>d. BASE58_CHARS ! unat d) (rev ds)"

lemma b58_chars_inj:
  "digits58 ds \<Longrightarrow> digits58 es \<Longrightarrow> b58_chars ds = b58_chars es \<Longrightarrow> ds = es"
proof -
  assume d: "digits58 ds" "digits58 es" "b58_chars ds = b58_chars es"
  have "inj_on (\<lambda>d. BASE58_CHARS ! unat d) (set ds \<union> set es)"
    using d(1,2) by (intro inj_onI) (auto simp: digits58_def char58_inj word_unat_eq_iff)
  then show "ds = es" using d(3) map_inj_on [of "\<lambda>d. BASE58_CHARS ! unat d" "rev ds" "rev es"]
    by (simp add: b58_chars_def)
qed

text \<open>The ones in front of a text whose number is not zero are the leading zeros of the payload.\<close>

lemma b58_ones:
  assumes "canonical58 ds" "ds \<noteq> [0]"
  shows "takeWhile (\<lambda>c. c = CHR ''1'') (replicate z CHR ''1'' @ b58_chars ds) = replicate z CHR ''1''"
proof -
  have "last ds \<noteq> 0" "ds \<noteq> []" "unat (last ds) < 58"
    using assms last_in_set [of ds] by (auto simp: canonical58_def digits58_def)
  then have "\<exists>c cs. b58_chars ds = c # cs \<and> c \<noteq> CHR ''1''"
    by (cases ds rule: rev_cases) (auto simp: b58_chars_def char58_one unat_nonzero)
  then show ?thesis by (auto simp: takeWhile_append)
qed

lemma leading_split: "payload = replicate (leadingZeros payload) 0 @ dropWhile (\<lambda>b. b = 0) payload"
proof -
  have "takeWhile (\<lambda>b. b = 0) xs = replicate (length (takeWhile (\<lambda>b. b = 0) xs)) 0" for xs :: bytes
    by (induction xs) auto
  then show ?thesis unfolding leadingZeros_def by (metis takeWhile_dropWhile_id)
qed

lemma be_val_pad [simp]: "be_val (replicate n 0 @ bs) = be_val bs"
  by (induction n) simp_all

lemma be_val_ge: "bs \<noteq> [] \<Longrightarrow> hd bs \<noteq> 0 \<Longrightarrow> 256 ^ (length bs - 1) \<le> be_val bs"
proof (cases bs)
  case (Cons b bs')
  assume "hd bs \<noteq> 0"
  then have "1 \<le> unat b" using unat_nonzero [of b] Cons by simp
  then have "256 ^ length bs' \<le> unat b * 256 ^ length bs'" by (cases "unat b") simp_all
  then show ?thesis by (simp add: Cons trans_le_add1)
qed simp

lemma be_val_pos: "bs \<noteq> [] \<Longrightarrow> hd bs \<noteq> 0 \<Longrightarrow> 0 < be_val bs"
  using be_val_ge [of bs] by (metis le_0_eq neq0_conv power_not_zero zero_neq_numeral)

text \<open>A number without leading zeros determines its bytes.\<close>

lemma be_val_inj_hd:
  assumes "bs \<noteq> []" "hd bs \<noteq> 0" "cs \<noteq> []" "hd cs \<noteq> 0" "be_val bs = be_val cs"
  shows "bs = cs"
proof -
  have le: "length xs \<le> length ys"
    if "xs \<noteq> []" "hd xs \<noteq> 0" "ys \<noteq> []" "be_val xs = be_val ys" for xs ys :: bytes
  proof -
    have "(256 :: nat) ^ (length xs - 1) < 256 ^ length ys"
      using be_val_ge [OF that(1,2)] be_val_less [of ys] that(4) by linarith
    then have "length xs - 1 < length ys" by (rule power_less_imp_less_exp [rotated]) simp
    then show ?thesis by simp
  qed
  then have "length bs = length cs" using assms by (intro antisym) simp_all
  then show ?thesis using assms(5) by (rule be_val_inj)
qed

lemma hd_stripped: "dropWhile (\<lambda>b. b = 0) x \<noteq> [] \<Longrightarrow> hd (dropWhile (\<lambda>b. b = 0) x) \<noteq> (0 :: u8)"
  using hd_dropWhile [of "\<lambda>b. b = 0" x] by simp

lemma be_val_stripped: "be_val (dropWhile (\<lambda>b. b = 0) x) = be_val x"
  using leading_split [of x] be_val_pad by metis

lemma stripped_zero: "be_val x = 0 \<Longrightarrow> dropWhile (\<lambda>b. b = 0) x = []"
  using be_val_pos [OF _ hd_stripped, of x] be_val_stripped [of x] by linarith

text \<open>The payload is determined by its leading zeros and the number with its checksum.\<close>

lemma payload_unique:
  assumes z: "leadingZeros p = leadingZeros q" and n: "be_val (p @ c) = be_val (q @ d)" and l: "length c = length d"
  shows "p = q"
proof -
  let ?s = "dropWhile (\<lambda>b. b = 0)"
  have m: "be_val x * 256 ^ length y + be_val y = be_val (x @ y)" for x y :: bytes by (simp add: be_val_append)
  have dv: "be_val x = be_val (x @ y) div 256 ^ length y" for x y :: bytes
    using be_val_less [of y] by (simp add: m [symmetric])
  have v: "be_val p = be_val q" by (subst dv [of p c], subst dv [of q d]) (simp only: n l)
  have "?s p = ?s q"
  proof (cases "?s p = [] \<or> ?s q = []")
    case True
    then have "be_val (?s p) = 0 \<or> be_val (?s q) = 0" by (metis be_val.simps(1))
    then have "be_val p = 0" "be_val q = 0" using v by (simp_all add: be_val_stripped)
    then show ?thesis by (simp add: stripped_zero)
  next
    case False
    then show ?thesis using be_val_inj_hd [of "?s p" "?s q"] v by (simp add: hd_stripped be_val_stripped)
  qed
  then show ?thesis using leading_split [of p] leading_split [of q] z by metis
qed

lemma b58_text_inj:
  assumes "length c = 4" "length d = 4" "p \<noteq> []" "q \<noteq> []" "b58_text p c = b58_text q d"
  shows "p = q"
proof -
  let ?t = "\<lambda>z ds. replicate z CHR ''1'' @ b58_chars ds"
  let ?p = "b58_digits (p @ c)" and ?q = "b58_digits (q @ d)"
  have t: "?t (leadingZeros p) ?p = ?t (leadingZeros q) ?q" using assms(5) by (simp add: b58_text_def b58_chars_def)
  have c: "canonical58 ?p" "canonical58 ?q" "val58 ?p = be_val (p @ c)" "val58 ?q = be_val (q @ d)" using b58_digits_val by blast+
  have d: "digits58 ?p" "digits58 ?q" using c by (simp_all add: canonical58_def)
  let ?ones = "takeWhile (\<lambda>c. c = CHR ''1'')"
  have all: "length (?ones (?t z [0])) = Suc z" "length (?t z [0]) = Suc z" for z
    by (induction z) (simp_all add: b58_chars_def BASE58_CHARS_def)
  have zero: "x = replicate (length x) 0" if "b58_digits (x @ y) = [0]" for x y :: bytes
  proof -
    have "be_val (x @ y) = 0" using b58_digits_val [of "x @ y"] that by simp
    then have "be_val x = 0" by (simp add: be_val_append)
    then have "dropWhile (\<lambda>b. b = 0) x = []" by (rule stripped_zero)
    then show ?thesis using leading_split [of x] by (metis append_Nil2 length_replicate)
  qed
  have len: "length (?ones (?t z ds)) = z" if "canonical58 ds" "ds \<noteq> [0]" for z ds
    unfolding b58_ones [OF that] by simp
  have mixed: "length (?t z ds) \<noteq> length (?ones (?t z ds))" if "canonical58 ds" "ds \<noteq> [0]" for z ds
    unfolding b58_ones [OF that] using that by (simp add: canonical58_def b58_chars_def)
  have same: "?p = [0] \<longleftrightarrow> ?q = [0]"
    using t mixed [OF c(1), of "leadingZeros p"] mixed [OF c(2), of "leadingZeros q"] all [of "leadingZeros p"] all [of "leadingZeros q"]
    by (cases "?p = [0]"; cases "?q = [0]") (simp_all only: simp_thms)
  have lz: "leadingZeros p = leadingZeros q"
  proof (cases "?p = [0]")
    case True
    then show ?thesis using t same all(2) by (metis nat.inject)
  next
    case False
    then show ?thesis using t same len [OF c(1)] len [OF c(2)] by metis
  qed
  with t have "b58_chars ?p = b58_chars ?q" by simp
  then have "?p = ?q" using b58_chars_inj d by blast
  then show ?thesis using payload_unique [OF lz] c(3,4) assms(1,2) by metis
qed

lemma base58check_inj:
  assumes "\<And>x h. sha256 x = Some h \<Longrightarrow> 4 \<le> length h"
    and "base58check sha256 p = Inr s" and "base58check sha256 q = Inr s"
  shows "p = q"
proof -
  have "\<exists>c. length c = 4 \<and> p \<noteq> [] \<and> s = b58_text p c" if "base58check sha256 p = Inr s" for p
  proof -
    from that obtain h1 h2 where "p \<noteq> []" "sha256 h1 = Some h2" "s = b58_text p (take 4 h2)"
      by (auto simp: base58check_def split: if_splits option.splits)
    moreover have "length (take 4 h2) = 4" using assms(1) [OF \<open>sha256 h1 = Some h2\<close>] by simp
    ultimately show ?thesis by blast
  qed
  then show ?thesis using assms(2,3) b58_text_inj by metis
qed

text \<open>C22: The address text determines the payload. If Base58Check answers the same text for two payloads, they
  are the same, whatever bytes they start with and whatever the checksums are, provided the hash
  has at least four bytes: no two version bytes and key hashes share an address.
\<close>

theorem base58check_injective:
  assumes "\<And>x h. sha256 x = Some h \<Longrightarrow> 4 \<le> length h"
    and "base58check sha256 p = Inr s" and "base58check sha256 q = Inr s"
  shows "p = q"
  using assms by (rule base58check_inj)

theorem base58check_injective_witness:
  "base58check (\<lambda>x. Some [1, 2, 3, 4]) [0, 5] \<noteq> base58check (\<lambda>x. Some [1, 2, 3, 4]) [5]"
proof
  assume e: "base58check (\<lambda>x. Some [1, 2, 3, 4]) [0, 5] = base58check (\<lambda>x. Some [1, 2, 3, 4]) [5]"
  then obtain s where "base58check (\<lambda>x. Some [1, 2, 3, 4]) [5] = Inr s" by (simp add: base58check_def)
  with e have "[0, 5 :: u8] = [5]"
    by (intro base58check_injective [of "\<lambda>x. Some [1, 2, 3, 4]"]) auto
  then show False by simp
qed

end
