(* ===== verification/HdWallet.thy ===== *)
theory HdWallet
  imports Base58
begin

text \<open>
  Mnemonics and keys: \<^verbatim>\<open>src/src/bip39.cpp\<close>, \<^verbatim>\<open>src/src/wallet.cpp\<close>. The word list comes from the
  first readable file of the candidates; a mnemonic is made of sixteen random bytes and their
  checksum, checked word by word, and turned into a seed; keys are derived along the path and end in
  an address. The cryptographic functions of OpenSSL and secp256k1 are an argument, each of which may fail;
  wiping memory and the one-time loading of contexts and providers are not modelled.
\<close>

record crypto_lib =
  lib_sha256 :: "bytes \<Rightarrow> bytes option"
  lib_ripemd160 :: "bytes \<Rightarrow> bytes option"
  lib_hmac_sha512 :: "bytes \<Rightarrow> bytes \<Rightarrow> bytes option"   \<comment> \<open>key and data\<close>
  lib_pbkdf2 :: "bytes \<Rightarrow> bytes \<Rightarrow> bytes option"   \<comment> \<open>password and salt, 2048 rounds, 64 bytes\<close>
  lib_seckey_verify :: "bytes \<Rightarrow> bool"
  lib_pubkey :: "bytes \<Rightarrow> bytes option"   \<comment> \<open>the compressed public key\<close>
  lib_tweak_add :: "bytes \<Rightarrow> bytes \<Rightarrow> bytes option"

section \<open>The word list\<close>

text \<open>\<^verbatim>\<open>stream >> word\<close> until it fails: the runs of characters that are not white space.\<close>

lemma rest_shorter:
  assumes "dropWhile is_space s \<noteq> []"
  shows "length (dropWhile (\<lambda>c. \<not> is_space c) (dropWhile is_space s)) < length s"
proof -
  obtain c cs where c: "dropWhile is_space s = c # cs" using assms by (cases "dropWhile is_space s") simp_all
  then have "\<not> is_space c" using hd_dropWhile [OF assms] by simp
  then have "length (dropWhile (\<lambda>c. \<not> is_space c) (c # cs)) < length (c # cs)"
    by (simp add: length_dropWhile_le le_imp_less_Suc)
  also have "\<dots> \<le> length s" using length_dropWhile_le [of is_space s] by (simp add: c)
  finally show ?thesis by (simp add: c)
qed

function split_ws :: "string \<Rightarrow> string list" where
  "split_ws s =
     (let t = dropWhile is_space s
      in if t = [] then [] else takeWhile (\<lambda>c. \<not> is_space c) t # split_ws (dropWhile (\<lambda>c. \<not> is_space c) t))"
  by pat_completeness auto
termination
  by (relation "measure length") (simp, metis in_measure rest_shorter)

declare split_ws.simps [simp del]

definition BIP39_MIN_WORDS :: nat where "BIP39_MIN_WORDS = 1"
definition MAX_MNEMONIC_LEN :: nat where "MAX_MNEMONIC_LEN = 1024"
definition MAX_PASSPHRASE_LEN :: nat where "MAX_PASSPHRASE_LEN = 512"

definition wordlist_paths :: "string option \<Rightarrow> string list" where
  "wordlist_paths envPath =
     (case envPath of None \<Rightarrow> [] | Some p \<Rightarrow> [p]) @
     [''bip39_wordlist.txt'', ''/usr/share/medorcoin/bip39_wordlist.txt'', ''/etc/medorcoin/bip39_wordlist.txt'']"

fun load_words :: "(string \<Rightarrow> string option) \<Rightarrow> string list \<Rightarrow> cxx_exn + string list" where
  "load_words files [] = Inl Runtime_error"
| "load_words files (path # paths) =
     (case files path of
        None \<Rightarrow> load_words files paths
      | Some text \<Rightarrow> if length (split_ws text) < BIP39_MIN_WORDS then load_words files paths else Inr (split_ws text))"

definition getWordList :: "(string \<Rightarrow> string option) \<Rightarrow> string option \<Rightarrow> cxx_exn + string list" where
  "getWordList files envPath = load_words files (wordlist_paths envPath)"

definition checkLength :: "string \<Rightarrow> nat \<Rightarrow> cxx_exn + unit" where
  "checkLength s limit = (if length s > limit then Inl Invalid_argument else Inr ())"

section \<open>Mnemonics\<close>

text \<open>The lengths of entropy in bytes and of the checksum in bits by the number of words.\<close>

definition mnemonic_sizes :: "nat \<Rightarrow> (nat \<times> nat) option" where
  "mnemonic_sizes wordCount =
     (if wordCount = 12 then Some (16, 4)
      else if wordCount = 15 then Some (20, 5)
      else if wordCount = 18 then Some (24, 6)
      else if wordCount = 21 then Some (28, 7)
      else if wordCount = 24 then Some (32, 8)
      else None)"

fun find_word :: "string list \<Rightarrow> string \<Rightarrow> nat option" where
  "find_word [] w = None"
| "find_word (v # vs) w = (if v = w then Some 0 else map_option Suc (find_word vs w))"

definition put_bit :: "bytes \<Rightarrow> nat \<Rightarrow> bytes" where
  "put_bit bits pos = bits[pos div 8 := bits ! (pos div 8) OR push_bit (7 - pos mod 8) 1]"

text \<open>The eleven low bits of the index of word \<open>i\<close>, the highest first.\<close>

definition put_index :: "nat \<Rightarrow> u32 \<Rightarrow> bytes \<Rightarrow> bytes" where
  "put_index i idx bits = foldl (\<lambda>bits b. if bit idx b then put_bit bits (i * 11 + (10 - b)) else bits) bits (rev [0..<11])"

fun put_words :: "string list \<Rightarrow> nat \<Rightarrow> string list \<Rightarrow> bytes \<Rightarrow> bytes option" where
  "put_words words i [] bits = Some bits"
| "put_words words i (t # ts) bits =
     (case find_word words t of
        None \<Rightarrow> None
      | Some n \<Rightarrow> put_words words (i + 1) ts (put_index i (word_of_nat n) bits))"

definition get_bit :: "bytes \<Rightarrow> nat \<Rightarrow> bool" where
  "get_bit bits pos \<longleftrightarrow> bit (bits ! (pos div 8)) (7 - pos mod 8)"

definition verifyChecksum :: "crypto_lib \<Rightarrow> string list \<Rightarrow> string \<Rightarrow> cxx_exn + bool" where
  "verifyChecksum lib words mnemonic =
     (let tokens = split_ws mnemonic; wordCount = length tokens
      in case mnemonic_sizes wordCount of
           None \<Rightarrow> Inr False
         | Some (entropyBytes, checksumBits) \<Rightarrow>
             (case put_words words 0 tokens (replicate ((wordCount * 11 + 7) div 8) 0) of
                None \<Rightarrow> Inr False
              | Some bits \<Rightarrow>
                  (case lib_sha256 lib (take entropyBytes bits) of
                     None \<Rightarrow> Inl Runtime_error
                   | Some hash \<Rightarrow> Inr (list_all (\<lambda>i. get_bit hash i = get_bit bits (entropyBytes * 8 + i)) [0..<checksumBits]))))"

text \<open>The eleven bits of word \<open>i\<close> out of three bytes, the third missing at the end.\<close>

definition word_value :: "bytes \<Rightarrow> nat \<Rightarrow> u32" where
  "word_value bits i =
     (let bitOff = i * 11; byteIdx = bitOff div 8; bitPos = bitOff mod 8;
          value = push_bit 16 (ucast (bits ! byteIdx)) OR push_bit 8 (ucast (bits ! (byteIdx + 1)));
          value = (if byteIdx + 2 < 17 then value OR ucast (bits ! (byteIdx + 2)) else value)
      in drop_bit (13 - bitPos) value AND 0x7FF)"

fun add_words :: "string list \<Rightarrow> bytes \<Rightarrow> nat list \<Rightarrow> string \<Rightarrow> cxx_exn + string" where
  "add_words words bits [] mnemonic = Inr mnemonic"
| "add_words words bits (i # is) mnemonic =
     (let value = word_value bits i
      in if unat value \<ge> length words then Inl Runtime_error
         else add_words words bits is (mnemonic @ words ! unat value @ (if i < 11 then '' '' else [])))"

text \<open>The random source answers sixteen bytes or fails.\<close>

definition generateMnemonic :: "crypto_lib \<Rightarrow> string list \<Rightarrow> bytes option \<Rightarrow> cxx_exn + string" where
  "generateMnemonic lib words rand =
     (case rand of
        None \<Rightarrow> Inl Runtime_error
      | Some entropy \<Rightarrow>
          (case lib_sha256 lib entropy of
             None \<Rightarrow> Inl Runtime_error
           | Some hash \<Rightarrow>
               bind_sum (add_words words (entropy @ [hash ! 0]) [0..<12] [])
                 (\<lambda>mnemonic. bind_sum (verifyChecksum lib words mnemonic)
                   (\<lambda>ok. if ok then Inr mnemonic else Inl Runtime_error))))"

definition mnemonicToSeed :: "crypto_lib \<Rightarrow> string list \<Rightarrow> string \<Rightarrow> string \<Rightarrow> cxx_exn + bytes" where
  "mnemonicToSeed lib words mnemonic passphrase =
     bind_sum (checkLength mnemonic MAX_MNEMONIC_LEN) (\<lambda>_.
     bind_sum (checkLength passphrase MAX_PASSPHRASE_LEN) (\<lambda>_.
     bind_sum (verifyChecksum lib words mnemonic) (\<lambda>ok.
       if \<not> ok then Inl Invalid_argument
       else case lib_pbkdf2 lib (str_bytes mnemonic) (str_bytes (''mnemonic'' @ passphrase)) of
              None \<Rightarrow> Inl Runtime_error
            | Some seed \<Rightarrow> Inr seed)))"

section \<open>Keys\<close>

text \<open>A private key with its chain code.\<close>

record ext_key =
  privKey :: bytes
  chainCode :: bytes

definition split_key :: "bytes \<Rightarrow> ext_key" where
  "split_key out = \<lparr>privKey = take 32 out, chainCode = take 32 (drop 32 out)\<rparr>"

definition deriveMaster :: "crypto_lib \<Rightarrow> bytes \<Rightarrow> cxx_exn + ext_key" where
  "deriveMaster lib seed =
     (if length seed < 16 \<or> length seed > 64 then Inl Invalid_argument
      else
        case lib_hmac_sha512 lib (str_bytes ''Bitcoin seed'') seed of
          None \<Rightarrow> Inl Runtime_error
        | Some out \<Rightarrow>
            if length out \<noteq> 64 then Inl Runtime_error
            else if \<not> lib_seckey_verify lib (take 32 out) then Inl Runtime_error
            else Inr (split_key out))"

definition deriveChild :: "crypto_lib \<Rightarrow> ext_key \<Rightarrow> u32 \<Rightarrow> cxx_exn + ext_key" where
  "deriveChild lib parent index =
     (if \<not> lib_seckey_verify lib (privKey parent) then Inl Invalid_argument
      else
        bind_sum
          (if index \<ge> 0x80000000 then Inr (0 # privKey parent)
           else case lib_pubkey lib (privKey parent) of
                  None \<Rightarrow> Inl Runtime_error
                | Some pub \<Rightarrow> if length pub \<noteq> 33 then Inl Runtime_error else Inr pub)
          (\<lambda>data.
             case lib_hmac_sha512 lib (chainCode parent) (data @ be_bytes4 index) of
               None \<Rightarrow> Inl Runtime_error
             | Some out \<Rightarrow>
                 if length out \<noteq> 64 then Inl Runtime_error
                 else
                   case lib_tweak_add lib (take 32 out) (privKey parent) of
                     None \<Rightarrow> Inl Runtime_error
                   | Some key \<Rightarrow>
                       if \<not> lib_seckey_verify lib key then Inl Runtime_error
                       else Inr ((split_key out)\<lparr>privKey := key\<rparr>)))"

fun deriveChain :: "crypto_lib \<Rightarrow> ext_key \<Rightarrow> u32 list \<Rightarrow> cxx_exn + ext_key" where
  "deriveChain lib k [] = Inr k"
| "deriveChain lib k (i # is) = bind_sum (deriveChild lib k i) (\<lambda>k'. deriveChain lib k' is)"

text \<open>The hash of a public key and its address under a version byte.\<close>

definition key_address :: "crypto_lib \<Rightarrow> u8 \<Rightarrow> bytes \<Rightarrow> cxx_exn + string" where
  "key_address lib version pub =
     (case lib_sha256 lib pub of
        None \<Rightarrow> Inl Runtime_error
      | Some sha \<Rightarrow>
          (case lib_ripemd160 lib sha of
             None \<Rightarrow> Inl Runtime_error
           | Some rip \<Rightarrow> base58check (lib_sha256 lib) (version # rip)))"

record wallet_info =
  wi_mnemonic :: string
  wi_seedHex :: string
  wi_derivedPrivKey :: string
  wi_derivedPubKey :: string
  wi_address :: string
  wi_derivationPath :: string
  wi_accountIndex :: u32
  wi_addressIndex :: u32

definition derivation_path :: "u32 \<Rightarrow> u32 \<Rightarrow> u32 \<Rightarrow> u32 \<Rightarrow> string" where
  "derivation_path coinType account change addressIndex =
     ''m/44'' @ [CHR 0x27, CHR ''/''] @ show_u32 coinType @ [CHR 0x27, CHR ''/''] @ show_u32 account @ [CHR 0x27, CHR ''/''] @
     show_u32 change @ ''/'' @ show_u32 addressIndex"

definition derivation_indices :: "u32 \<Rightarrow> u32 \<Rightarrow> u32 \<Rightarrow> u32 \<Rightarrow> u32 list" where
  "derivation_indices coinType account change addressIndex =
     [0x8000002C, coinType OR 0x80000000, account OR 0x80000000, change, addressIndex]"

definition deriveFromMnemonic ::
    "crypto_lib \<Rightarrow> string list \<Rightarrow> string \<Rightarrow> string \<Rightarrow> u32 \<Rightarrow> u32 \<Rightarrow> u32 \<Rightarrow> u32 \<Rightarrow> u8 \<Rightarrow> cxx_exn + wallet_info" where
  "deriveFromMnemonic lib words mnemonic passphrase account addressIndex coinType change versionByte =
     bind_sum (checkLength mnemonic MAX_MNEMONIC_LEN) (\<lambda>_.
     bind_sum (checkLength passphrase MAX_PASSPHRASE_LEN) (\<lambda>_.
     bind_sum (mnemonicToSeed lib words mnemonic passphrase) (\<lambda>seed.
     bind_sum (deriveMaster lib seed) (\<lambda>master.
     bind_sum (deriveChain lib master (derivation_indices coinType account change addressIndex)) (\<lambda>lvl5.
       case lib_pubkey lib (privKey lvl5) of
         None \<Rightarrow> Inl Runtime_error
       | Some pubComp \<Rightarrow>
           if length pubComp \<noteq> 33 then Inl Runtime_error
           else
             bind_sum (key_address lib versionByte pubComp) (\<lambda>address.
               Inr \<lparr>wi_mnemonic = mnemonic, wi_seedHex = hex_bytes seed, wi_derivedPrivKey = hex_bytes (privKey lvl5),
                    wi_derivedPubKey = hex_bytes pubComp, wi_address = address,
                    wi_derivationPath = derivation_path coinType account change addressIndex,
                    wi_accountIndex = account, wi_addressIndex = addressIndex\<rparr>))))))"

definition wipeWalletInfo :: "wallet_info \<Rightarrow> wallet_info" where
  "wipeWalletInfo w =
     \<lparr>wi_mnemonic = [], wi_seedHex = [], wi_derivedPrivKey = [], wi_derivedPubKey = [], wi_address = [], wi_derivationPath = [],
      wi_accountIndex = 0, wi_addressIndex = 0\<rparr>"

section \<open>The wallet\<close>

record wallet =
  wl_privateKey :: bytes
  wl_publicKey :: bytes
  wl_address :: string

definition Wallet :: wallet where
  "Wallet = \<lparr>wl_privateKey = [], wl_publicKey = [], wl_address = []\<rparr>"

text \<open>The key pair that \<^verbatim>\<open>crypto::generateKeypair\<close> answers, or its failure.\<close>

definition generateKeys :: "(bytes \<times> bytes) option \<Rightarrow> wallet \<Rightarrow> cxx_exn + wallet" where
  "generateKeys kp w =
     (case kp of
        None \<Rightarrow> Inl Runtime_error
      | Some (priv, pub) \<Rightarrow> Inr (w\<lparr>wl_privateKey := priv, wl_publicKey := pub\<rparr>))"

definition encodeBase58Check :: "crypto_lib \<Rightarrow> bytes \<Rightarrow> cxx_exn + string" where
  "encodeBase58Check lib payload =
     (if payload = [] then Inl Invalid_argument
      else
        case lib_sha256 lib payload of
          None \<Rightarrow> Inl Runtime_error
        | Some h1 \<Rightarrow>
            (case lib_sha256 lib h1 of
               None \<Rightarrow> Inl Runtime_error
             | Some h2 \<Rightarrow>
                 Inr (replicate (leadingZeros payload) CHR ''1'' @
                   map (\<lambda>d. BASE58_CHARS ! unat d) (rev (foldl b58_step [0] (payload @ take 4 h2))))))"

definition generateAddress :: "crypto_lib \<Rightarrow> wallet \<Rightarrow> cxx_exn + wallet" where
  "generateAddress lib w =
     (if wl_publicKey w = [] then Inl Runtime_error
      else if length (wl_publicKey w) \<noteq> 33 then Inl Runtime_error
      else
        case lib_sha256 lib (wl_publicKey w) of
          None \<Rightarrow> Inl Runtime_error
        | Some sha \<Rightarrow>
            (case lib_ripemd160 lib sha of
               None \<Rightarrow> Inl Runtime_error
             | Some rip \<Rightarrow>
                 bind_sum (encodeBase58Check lib (0 # rip)) (\<lambda>address. Inr (w\<lparr>wl_address := address\<rparr>))))"

definition getPublicKeyHex :: "wallet \<Rightarrow> cxx_exn + string" where
  "getPublicKeyHex w = (if wl_publicKey w = [] then Inl Runtime_error else Inr (hex_bytes (wl_publicKey w)))"

definition getPrivateKeyHex :: "wallet \<Rightarrow> cxx_exn + string" where
  "getPrivateKeyHex w = (if wl_privateKey w = [] then Inl Runtime_error else Inr (hex_bytes (wl_privateKey w)))"

definition getAddress :: "wallet \<Rightarrow> cxx_exn + string" where
  "getAddress w = (if wl_address w = [] then Inl Runtime_error else Inr (wl_address w))"

definition wallet_wipe :: "wallet \<Rightarrow> wallet" where
  "wallet_wipe w = \<lparr>wl_privateKey = [], wl_publicKey = [], wl_address = []\<rparr>"

section \<open>Splitting what was joined\<close>

definition plain_word :: "string \<Rightarrow> bool" where
  "plain_word w \<longleftrightarrow> w \<noteq> [] \<and> (\<forall>c \<in> set w. \<not> is_space c)"

lemma space_char [simp]: "is_space CHR '' ''"
  by (simp add: is_space_def)

lemma split_ws_Nil [simp]: "split_ws [] = []"
  by (simp add: split_ws.simps)

lemma split_ws_space [simp]: "split_ws (CHR '' '' # s) = split_ws s"
  by (subst (1 2) split_ws.simps) simp

lemma split_ws_word:
  assumes "plain_word w" "s = [] \<or> is_space (hd s)"
  shows "split_ws (w @ s) = w # split_ws s"
proof -
  obtain c cs where w: "w = c # cs" "\<not> is_space c" using assms(1) by (cases w) (auto simp: plain_word_def)
  have "dropWhile is_space (w @ s) = w @ s" using w by simp
  moreover have "takeWhile (\<lambda>c. \<not> is_space c) (w @ s) = w" "dropWhile (\<lambda>c. \<not> is_space c) (w @ s) = s"
    using assms by (cases s; auto simp: plain_word_def takeWhile_append dropWhile_append)+
  ultimately show ?thesis using w(1) by (subst split_ws.simps) (simp add: Let_def)
qed

lemma split_ws_join: "(\<And>w. w \<in> set ws \<Longrightarrow> plain_word w) \<Longrightarrow> split_ws (join_with CHR '' '' ws) = ws"
proof (induction ws)
  case (Cons w ws)
  then show ?case
    using split_ws_word [of w "[]"] split_ws_word [of w "CHR '' '' # join_with CHR '' '' ws"]
    by (cases ws) (simp_all add: join_with_Cons)
qed simp

lemma split_ws_plain: "w \<in> set (split_ws s) \<Longrightarrow> plain_word w"
proof (induction s rule: split_ws.induct)
  case (1 s)
  let ?t = "dropWhile is_space s"
  have "?t \<noteq> [] \<Longrightarrow> plain_word (takeWhile (\<lambda>c. \<not> is_space c) ?t)"
    using hd_dropWhile [of is_space s] by (cases ?t) (auto simp: plain_word_def dest: set_takeWhileD)
  then show ?case using 1 by (subst (asm) (2) split_ws.simps) (auto simp: Let_def split: if_splits)
qed

lemma load_words_plain:
  "load_words files paths = Inr words \<Longrightarrow> words \<noteq> [] \<and> (\<forall>w \<in> set words. plain_word w)"
  by (induction files paths rule: load_words.induct)
    (auto simp: BIP39_MIN_WORDS_def Let_def split: option.splits if_splits dest: split_ws_plain)

lemma find_word_nth: "distinct words \<Longrightarrow> n < length words \<Longrightarrow> find_word words (words ! n) = Some n"
proof (induction words arbitrary: n)
  case (Cons v vs)
  then show ?case by (cases n) auto
qed simp

lemma find_word_Some: "find_word words w = Some n \<Longrightarrow> n < length words \<and> words ! n = w"
  by (induction words arbitrary: n) (auto split: if_splits)

section \<open>Bits\<close>

lemma length_put_bit [simp]: "length (put_bit bits p) = length bits"
  by (simp add: put_bit_def)

lemma get_put_bit:
  assumes "p < 8 * length bits" "q < 8 * length bits"
  shows "get_bit (put_bit bits p) q \<longleftrightarrow> get_bit bits q \<or> p = q"
proof -
  have d: "p div 8 < length bits" "q div 8 < length bits" using assms by auto
  have "7 - p mod 8 = 7 - q mod 8 \<longleftrightarrow> p mod 8 = q mod 8"
    using mod_less_divisor [of 8 p] mod_less_divisor [of 8 q] by linarith
  then have "p = q \<longleftrightarrow> p div 8 = q div 8 \<and> 7 - p mod 8 = 7 - q mod 8"
    by (metis div_mult_mod_eq)
  moreover have "bit (push_bit m 1 :: u8) n \<longleftrightarrow> m = n" if "n < 8" for m n
    using that by (auto simp: bit_simps)
  ultimately show ?thesis
    using d by (cases "p div 8 = q div 8") (auto simp: get_bit_def put_bit_def bit_or_iff)
qed

lemma put_index_fold:
  assumes "\<And>b. b \<in> set bs \<Longrightarrow> i * 11 + (10 - b) < 8 * length bits" "q < 8 * length bits"
  shows "length (foldl (\<lambda>bits b. if bit idx b then put_bit bits (i * 11 + (10 - b)) else bits) bits bs) = length bits \<and>
    (get_bit (foldl (\<lambda>bits b. if bit (idx :: u32) b then put_bit bits (i * 11 + (10 - b)) else bits) bits bs) q \<longleftrightarrow>
     get_bit bits q \<or> (\<exists>b \<in> set bs. bit idx b \<and> q = i * 11 + (10 - b)))"
  using assms
proof (induction bs arbitrary: bits)
  case (Cons b bs)
  show ?case
  proof (cases "bit idx b")
    case True
    then show ?thesis
      using Cons.IH [of "put_bit bits (i * 11 + (10 - b))"] Cons.prems
      by (auto simp: get_put_bit)
  next
    case False
    then show ?thesis using Cons.IH [of bits] Cons.prems by auto
  qed
qed simp

lemma put_index_length [simp]: "length (put_index i idx bits) = length bits"
proof -
  have "length (foldl (\<lambda>bits b. if bit idx b then put_bit bits (i * 11 + (10 - b)) else bits) bits bs) = length bits" for bs
    by (induction bs arbitrary: bits) auto
  then show ?thesis by (simp add: put_index_def)
qed

lemma get_put_index:
  assumes "i * 11 + 10 < 8 * length bits" "q < 8 * length bits"
  shows "get_bit (put_index i idx bits) q \<longleftrightarrow> get_bit bits q \<or> (q div 11 = i \<and> bit idx (10 - q mod 11))"
proof -
  have "(\<exists>b \<in> set (rev [0..<11]). bit idx b \<and> q = i * 11 + (10 - b)) \<longleftrightarrow> q div 11 = i \<and> bit idx (10 - q mod 11)"
  proof
    assume "\<exists>b \<in> set (rev [0..<11]). bit idx b \<and> q = i * 11 + (10 - b)"
    then obtain b where b: "b < 11" "bit idx b" "q = i * 11 + (10 - b)" by auto
    define c where "c = 10 - b"
    have c: "c < 11" "10 - c = b" "q = i * 11 + c" using b by (simp_all add: c_def)
    then have "q div 11 = i" "q mod 11 = c" by simp_all
    then show "q div 11 = i \<and> bit idx (10 - q mod 11)" using b(2) c(2) by simp
  next
    assume q: "q div 11 = i \<and> bit idx (10 - q mod 11)"
    have "q mod 11 < 11" by simp
    then have "10 - q mod 11 < 11" "10 - (10 - q mod 11) = q mod 11" by linarith+
    moreover have "q = i * 11 + q mod 11" using q div_mult_mod_eq [of q 11] by linarith
    ultimately show "\<exists>b \<in> set (rev [0..<11]). bit idx b \<and> q = i * 11 + (10 - b)"
      using q by (intro bexI [of _ "10 - q mod 11"]) auto
  qed
  then show ?thesis
    using put_index_fold [of "rev [0..<11]" i bits q idx] assms by (simp add: put_index_def)
qed

text \<open>After the loop over the words the bits are those of the indices.\<close>

lemma put_words_bits:
  assumes "\<And>t. t \<in> set ts \<Longrightarrow> find_word words t \<noteq> None" "(i + length ts) * 11 \<le> 8 * length bits" "q < 8 * length bits"
  shows "\<exists>bits'. put_words words i ts bits = Some bits' \<and> length bits' = length bits \<and>
    (get_bit bits' q \<longleftrightarrow> get_bit bits q \<or>
      (i \<le> q div 11 \<and> q div 11 < i + length ts \<and>
       bit (word_of_nat (the (find_word words (ts ! (q div 11 - i)))) :: u32) (10 - q mod 11)))"
  using assms
proof (induction ts arbitrary: i bits)
  case (Cons t ts)
  obtain n where n: "find_word words t = Some n" using Cons.prems(1) by fastforce
  let ?b = "put_index i (word_of_nat n) bits"
  obtain bits' where b: "put_words words (i + 1) ts ?b = Some bits'" "length bits' = length bits"
    "get_bit bits' q \<longleftrightarrow> get_bit ?b q \<or> (i + 1 \<le> q div 11 \<and> q div 11 < i + 1 + length ts \<and>
       bit (word_of_nat (the (find_word words (ts ! (q div 11 - (i + 1))))) :: u32) (10 - q mod 11))"
    using Cons.IH [of "i + 1" ?b] Cons.prems by auto
  have s: "get_bit ?b q \<longleftrightarrow> get_bit bits q \<or> (q div 11 = i \<and> bit (word_of_nat n :: u32) (10 - q mod 11))"
    using Cons.prems by (intro get_put_index) auto
  have "q div 11 - i = Suc (q div 11 - Suc i)" if "Suc i \<le> q div 11" using that by simp
  then show ?case
    using b n unfolding s by (cases "q div 11 = i") (auto simp: le_Suc_eq Suc_le_eq)
qed auto

text \<open>Three bytes side by side, and the bits of a word's value.\<close>

lemma split_at:
  assumes "(j :: nat) = n * m + d" "d < m"
  shows "j div m = n" "j mod m = d"
  using assms by simp_all

lemma three_bytes_bit:
  assumes "k < 24"
  shows "bit (push_bit 16 (ucast (a :: u8)) OR push_bit 8 (ucast (b :: u8)) OR ucast (c :: u8) :: u32) k = get_bit [a, b, c] (23 - k)"
proof -
  have e: "bit (push_bit 16 (ucast a) OR push_bit 8 (ucast b) OR ucast c :: u32) k \<longleftrightarrow>
      (16 \<le> k \<and> bit a (k - 16)) \<or> (8 \<le> k \<and> bit b (k - 8)) \<or> bit c k"
    using assms by (auto simp: bit_or_iff bit_push_bit_iff bit_ucast_iff)
  have o: "\<not> bit w n" if "8 \<le> n" for w :: u8 and n
    using that bit_imp_le_length [of w n] by auto
  consider "k < 8" | "8 \<le> k" "k < 16" | "16 \<le> k" by linarith
  then show ?thesis
  proof cases
    case 1
    have "(23 - k) div 8 = 2" "(23 - k) mod 8 = 7 - k" using 1 by (simp_all add: split_at [of "23 - k" 2 8 "7 - k"])
    moreover have "7 - (7 - k) = k" using 1 by simp
    ultimately have "get_bit [a, b, c] (23 - k) \<longleftrightarrow> bit c k" by (simp add: get_bit_def)
    then show ?thesis using 1 e by simp
  next
    case 2
    then have "(23 - k) div 8 = 1" "(23 - k) mod 8 = 15 - k" by (simp_all add: split_at [of "23 - k" 1 8 "15 - k"])
    moreover have "7 - (15 - k) = k - 8" using 2 by simp
    ultimately have "get_bit [a, b, c] (23 - k) \<longleftrightarrow> bit b (k - 8)" by (simp add: get_bit_def)
    then show ?thesis using 2 e o [of k c] by simp
  next
    case 3
    then have "(23 - k) div 8 = 0" "(23 - k) mod 8 = 23 - k" by (simp_all add: split_at [of "23 - k" 0 8 "23 - k"])
    moreover have "7 - (23 - k) = k - 16" using 3 assms by simp
    ultimately have "get_bit [a, b, c] (23 - k) \<longleftrightarrow> bit a (k - 16)" by (simp add: get_bit_def)
    then show ?thesis using 3 e o [of k c] o [of "k - 8" b] by simp
  qed
qed

lemma get_bit_window:
  assumes "j < 24"
  shows "get_bit [bits ! x, bits ! (x + 1), bits ! (x + 2)] j = get_bit bits (8 * x + j)"
proof -
  have "j div 8 < 3" using assms by auto
  then have "j div 8 = 0 \<or> j div 8 = 1 \<or> j div 8 = 2" by linarith
  then show ?thesis by (auto simp: get_bit_def)
qed

lemma get_bit_first_two: "j < 16 \<Longrightarrow> get_bit [a, b, c] j = get_bit [a, b, d] j"
proof -
  assume "j < 16"
  then have "j div 8 = 0 \<or> j div 8 = 1" by linarith
  then show ?thesis by (auto simp: get_bit_def)
qed

lemma bit_7FF: "bit (0x7FF :: u32) b \<longleftrightarrow> b \<le> 10"
proof -
  have m: "(0x7FF :: u32) = mask 11" by (simp add: mask_eq_exp_minus_1)
  have "bit (mask 11 :: u32) b \<longleftrightarrow> possible_bit TYPE(u32) b \<and> b < 11" by (rule bit_mask_iff)
  also have "\<dots> \<longleftrightarrow> b \<le> 10" by (simp add: possible_bit_word less_Suc_eq_le) linarith
  finally show ?thesis by (simp only: m)
qed

lemma word_value_bit:
  assumes "i < 12"
  shows "bit (word_value bits i) b \<longleftrightarrow> b \<le> 10 \<and> get_bit bits (i * 11 + (10 - b))"
proof (cases "b \<le> 10")
  case True
  define x where "x = i * 11 div 8"
  define p where "p = i * 11 mod 8"
  have p: "p < 8" "i * 11 = 8 * x + p" by (simp_all add: x_def p_def)
  define k where "k = 13 - p + b"
  have k: "k < 24" "13 - p + b = k" using p(1) True by (auto simp: k_def)
  define c where "c = (if x + 2 < 17 then bits ! (x + 2) else 0)"
  have v: "word_value bits i =
      drop_bit (13 - p) (push_bit 16 (ucast (bits ! x)) OR push_bit 8 (ucast (bits ! (x + 1))) OR ucast c) AND 0x7FF"
    by (simp add: word_value_def Let_def x_def p_def c_def or.assoc)
  have "bit (0x7FF :: u32) b" using True by (simp only: bit_7FF)
  then have "bit (word_value bits i) b \<longleftrightarrow> get_bit [bits ! x, bits ! (x + 1), c] (23 - k)"
    by (simp only: v bit_and_iff bit_drop_bit_eq comp_apply k(2) three_bytes_bit [OF k(1)] simp_thms)
  also have "\<dots> \<longleftrightarrow> get_bit [bits ! x, bits ! (x + 1), bits ! (x + 2)] (23 - k)"
  proof (cases "x + 2 < 17")
    case False
    then have "8 * 15 \<le> i * 11" by (simp add: x_def)
    then have "i = 11" using assms by simp
    then have "p = 1" by (simp add: p_def)
    then have "23 - k < 16" by (simp add: k_def)
    then show ?thesis by (rule get_bit_first_two)
  qed (simp add: c_def)
  also have "\<dots> \<longleftrightarrow> get_bit bits (8 * x + (23 - k))" by (rule get_bit_window) simp
  also have "8 * x + (23 - k) = i * 11 + (10 - b)" using p True by (simp add: k_def)
  finally show ?thesis using True by simp
next
  case False
  have "\<not> bit (0x7FF :: u32) b" using False by (simp only: bit_7FF not_False_eq_True)
  then show ?thesis using False by (simp add: word_value_def Let_def bit_and_iff)
qed

lemma word_value_less: "i < 12 \<Longrightarrow> unat (word_value bits i) < 2048"
proof -
  have "unat (w AND 0x7FF) < 2048" for w :: u32
  proof -
    have "(0x7FF :: u32) = mask 11" by (simp add: mask_eq_exp_minus_1)
    then have "unat (w AND 0x7FF) = take_bit 11 (unat w)" by (simp only: take_bit_eq_mask [symmetric] unsigned_take_bit_eq)
    also have "\<dots> < 2 ^ 11" by (rule take_bit_nat_less_exp)
    finally show ?thesis by simp
  qed
  then show ?thesis by (simp add: word_value_def Let_def)
qed

lemma add_words_join:
  assumes "\<And>i. i < 12 \<Longrightarrow> unat (word_value bits i) < length words"
  shows "add_words words bits [0..<12] [] = Inr (join_with CHR '' '' (map (\<lambda>i. words ! unat (word_value bits i)) [0..<12]))"
proof -
  have u: "[0..<12] = [0, 1, 2, 3, 4, 5, 6, 7, 8, 9, 10, 11]" by (simp add: upt_rec)
  show ?thesis unfolding u using assms by (simp add: not_le [symmetric] not_less)
qed

text \<open>What the words of an entropy decode to.\<close>

definition entropy_words :: "string list \<Rightarrow> bytes \<Rightarrow> string list" where
  "entropy_words words buf = map (\<lambda>i. words ! unat (word_value buf i)) [0..<12]"

lemma bytes_eq_bits:
  assumes "j < length xs" "\<And>q. q div 8 = j \<Longrightarrow> get_bit xs q = get_bit ys q"
  shows "xs ! j = ys ! j"
proof (rule bit_eqI)
  fix n
  assume "possible_bit TYPE(u8) n"
  then have n: "n < 8" by (simp add: possible_bit_def)
  define m where "m = 7 - n"
  have "8 * j + m = j * 8 + m" "m < 8" "7 - m = n" using n by (simp_all add: m_def)
  then have d: "(8 * j + m) div 8 = j" "(8 * j + m) mod 8 = m" "7 - m = n" by (simp_all add: split_at)
  show "bit (xs ! j) n = bit (ys ! j) n" using assms(2) [OF d(1)] by (simp only: get_bit_def d)
qed

lemma decoded_bits:
  assumes "2048 \<le> length words" "distinct words"
  shows "\<exists>bits. put_words words 0 (entropy_words words buf) (replicate 17 0) = Some bits \<and> length bits = 17 \<and>
    (\<forall>q < 132. get_bit bits q = get_bit buf q)"
proof -
  let ?v = "\<lambda>i. word_value buf i"
  have f: "find_word words (words ! unat (?v i)) = Some (unat (?v i))" if "i < 12" for i
    using assms word_value_less [OF that, of buf] by (intro find_word_nth) simp_all
  have known: "find_word words t \<noteq> None" if "t \<in> set (entropy_words words buf)" for t
    using that f by (auto simp: entropy_words_def)
  have bit: "\<exists>bits. put_words words 0 (entropy_words words buf) (replicate 17 0) = Some bits \<and> length bits = 17 \<and>
      get_bit bits q = get_bit buf q" if q: "q < 132" for q
  proof -
    have i: "q div 11 < 12" using q by (simp add: less_mult_imp_div_less)
    have "get_bit (replicate 17 0) q = False" using q by (simp add: get_bit_def less_mult_imp_div_less)
    moreover have "bit (word_of_nat (the (find_word words (entropy_words words buf ! (q div 11)))) :: u32) (10 - q mod 11)
        = get_bit buf q"
    proof -
      have "q mod 11 < 11" by simp
      then have "10 - (10 - q mod 11) = q mod 11" by linarith
      then show ?thesis using i by (simp add: entropy_words_def f word_value_bit)
    qed
    moreover have "length (entropy_words words buf) = 12" by (simp add: entropy_words_def)
    ultimately show ?thesis
      using put_words_bits [of "entropy_words words buf" words 0 "replicate 17 0" q] known q i by auto
  qed
  from bit [of 0] obtain bits where "put_words words 0 (entropy_words words buf) (replicate 17 0) = Some bits" "length bits = 17" by auto
  moreover have "get_bit bits q = get_bit buf q" if "q < 132" for q using bit [OF that] calculation(1) by auto
  ultimately show ?thesis by blast
qed

section \<open>Generated mnemonics\<close>

text \<open>A library and a word list to try the theorems on.\<close>

definition example_lib :: crypto_lib where
  "example_lib =
     \<lparr>lib_sha256 = (\<lambda>x. Some (replicate 32 0)), lib_ripemd160 = (\<lambda>x. Some (take 20 (x @ replicate 20 0))),
      lib_hmac_sha512 = (\<lambda>k x. Some (replicate 64 1)), lib_pbkdf2 = (\<lambda>p s. Some (take 64 (p @ s @ replicate 64 0))),
      lib_seckey_verify = (\<lambda>k. length k = 32), lib_pubkey = (\<lambda>k. Some (2 # k)), lib_tweak_add = (\<lambda>k t. Some k)\<rparr>"

definition example_words :: "string list" where
  "example_words = map show_nat [0..<2048]"

lemma example_words_ok: "2048 \<le> length example_words" "distinct example_words" "w \<in> set example_words \<Longrightarrow> plain_word w"
proof -
  show "2048 \<le> length example_words" by (simp add: example_words_def)
  show "distinct example_words" by (simp add: example_words_def distinct_map inj_on_def)
  show "plain_word w" if "w \<in> set example_words"
    using that show_nat_digits digit_not_space_sign by (fastforce simp: example_words_def plain_word_def)
qed

lemma length_entropy_words [simp]: "length (entropy_words words buf) = 12"
  by (simp add: entropy_words_def)

lemma generate_add_words:
  assumes "2048 \<le> length words"
  shows "add_words words buf [0..<12] [] = Inr (join_with CHR '' '' (entropy_words words buf))"
proof -
  have "unat (word_value buf i) < length words" if "i < 12" for i using word_value_less [OF that] assms by (rule less_le_trans)
  then show ?thesis by (simp add: add_words_join entropy_words_def)
qed

lemma entropy_words_split:
  assumes "2048 \<le> length words" "\<And>w. w \<in> set words \<Longrightarrow> plain_word w"
  shows "split_ws (join_with CHR '' '' (entropy_words words buf)) = entropy_words words buf"
proof (rule split_ws_join)
  fix w
  assume "w \<in> set (entropy_words words buf)"
  then obtain i where "i < 12" "w = words ! unat (word_value buf i)" by (auto simp: entropy_words_def)
  moreover from this have "unat (word_value buf i) < length words" using word_value_less [of i buf] assms(1) by linarith
  ultimately show "plain_word w" using assms(2) by simp
qed

lemma decoded_entropy:
  assumes "length e = 16" "length bits = 17" "\<forall>q < 132. get_bit bits q = get_bit (e @ [h]) q"
  shows "take 16 bits = e"
proof (rule nth_equalityI)
  show "length (take 16 bits) = length e" using assms(1,2) by simp
next
  fix j
  assume "j < length (take 16 bits)"
  then have j: "j < 16" "j < length bits" using assms(2) by auto
  have "bits ! j = (e @ [h]) ! j"
  proof (rule bytes_eq_bits [OF j(2)])
    fix q
    assume "q div 8 = j"
    then have "q < 132" using j(1) div_mult_mod_eq [of q 8] mod_less_divisor [of 8 q] by linarith
    then show "get_bit bits q = get_bit (e @ [h]) q" using assms(3) by blast
  qed
  then show "take 16 bits ! j = e ! j" using j assms(1) by (simp add: nth_append)
qed

lemma generated_bits:
  assumes "2048 \<le> length words" "distinct words" "\<And>w. w \<in> set words \<Longrightarrow> plain_word w" "length e = 16"
  shows "\<exists>bits. put_words words 0 (split_ws (join_with CHR '' '' (entropy_words words (e @ [h])))) (replicate 17 0) = Some bits \<and>
    take 16 bits = e \<and> (\<forall>i < 4. get_bit bits (128 + i) = get_bit [h] i)"
proof -
  obtain bits where b: "put_words words 0 (entropy_words words (e @ [h])) (replicate 17 0) = Some bits" "length bits = 17"
    "\<forall>q < 132. get_bit bits q = get_bit (e @ [h]) q" using decoded_bits [OF assms(1,2)] by blast
  have "get_bit bits (128 + i) = get_bit [h] i" if "i < 4" for i
  proof -
    have "(128 + i) div 8 = 16" "(128 + i) mod 8 = i" "i div 8 = 0" "i mod 8 = i" using that by (simp_all add: split_at [of "128 + i" 16 8 i])
    moreover have "get_bit bits (128 + i) = get_bit (e @ [h]) (128 + i)" using b(3) that by simp
    ultimately show ?thesis using assms(4) by (simp add: get_bit_def nth_append)
  qed
  then show ?thesis using b decoded_entropy [OF assms(4) b(2,3)] assms by (auto simp: entropy_words_split)
qed

lemma sizes12: "mnemonic_sizes 12 = Some (16, 4)"
  by (simp add: mnemonic_sizes_def)

lemma generated_verifies:
  assumes "2048 \<le> length words" and "distinct words" and "\<And>w. w \<in> set words \<Longrightarrow> plain_word w"
    and "length e = 16" and "lib_sha256 lib e = Some hash" and "hash \<noteq> []"
  shows "\<exists>m bits. generateMnemonic lib words (Some e) = Inr m \<and> length (split_ws m) = 12 \<and>
    verifyChecksum lib words m = Inr True \<and>
    put_words words 0 (split_ws m) (replicate 17 0) = Some bits \<and> take 16 bits = e"
proof -
  let ?m = "join_with CHR '' '' (entropy_words words (e @ [hash ! 0]))"
  obtain bits where b: "put_words words 0 (split_ws ?m) (replicate 17 0) = Some bits" "take 16 bits = e"
    "\<forall>i < 4. get_bit bits (128 + i) = get_bit [hash ! 0] i"
    using generated_bits [OF assms(1-4), of "hash ! 0"] by blast
  have l: "length (split_ws ?m) = 12" using assms(1,3) by (simp add: entropy_words_split)
  have h: "get_bit [hash ! 0] i = get_bit hash i" if "i < 4" for i using that by (simp add: get_bit_def)
  have v: "verifyChecksum lib words ?m = Inr True"
    using b h assms(5) by (simp add: verifyChecksum_def Let_def l sizes12 list_all_iff)
  moreover have "generateMnemonic lib words (Some e) = Inr ?m"
    using assms(1,5) v by (simp add: generateMnemonic_def generate_add_words)
  ultimately show ?thesis using b(1,2) l by blast
qed

lemma generated_mnemonic_exists:
  assumes "2048 \<le> length words" "distinct words" "\<And>w. w \<in> set words \<Longrightarrow> plain_word w"
    "length e = 16" "lib_sha256 lib e = Some hash" "hash \<noteq> []"
  shows "\<exists>m. generateMnemonic lib words (Some e) = Inr m"
  using generated_verifies [OF assms] by blast

text \<open>C21: generation and verification agree. From a list of at least 2048 different words, whatever the sixteen
  random bytes and the digest are, a mnemonic of twelve words is generated, its checksum verifies, so the
  generator's own check never fails, and decoding its words gives the random bytes back.
\<close>

theorem generated_mnemonic_verifies:
  assumes "2048 \<le> length words" and "distinct words" and "\<And>w. w \<in> set words \<Longrightarrow> plain_word w"
    and "length e = 16" and "lib_sha256 lib e = Some hash" and "hash \<noteq> []"
  shows "\<exists>m bits. generateMnemonic lib words (Some e) = Inr m \<and> length (split_ws m) = 12 \<and>
    verifyChecksum lib words m = Inr True \<and>
    put_words words 0 (split_ws m) (replicate 17 0) = Some bits \<and> take 16 bits = e"
  using assms by (rule generated_verifies)

theorem generated_mnemonic_verifies_witness:
  "\<exists>m bits. generateMnemonic example_lib example_words (Some (replicate 16 9)) = Inr m \<and> length (split_ws m) = 12 \<and>
    verifyChecksum example_lib example_words m = Inr True \<and>
    put_words example_words 0 (split_ws m) (replicate 17 0) = Some bits \<and> take 16 bits = replicate 16 9"
  by (rule generated_mnemonic_verifies [where hash = "replicate 32 0"]) (simp_all add: example_words_ok example_lib_def)

text \<open>
  No two random values have the same mnemonic, whatever the digests are: what was generated is the only
  secret that the words stand for.
\<close>

theorem mnemonic_determines_entropy:
  assumes "2048 \<le> length words" and "distinct words" and "\<And>w. w \<in> set words \<Longrightarrow> plain_word w"
    and "length e = 16" and "length e' = 16"
    and "generateMnemonic lib words (Some e) = Inr m" and "generateMnemonic lib words (Some e') = Inr m"
  shows "e = e'"
proof -
  have "\<exists>bits. put_words words 0 (split_ws m) (replicate 17 0) = Some bits \<and> take 16 bits = x"
    if x: "length x = 16" "generateMnemonic lib words (Some x) = Inr m" for x
  proof -
    obtain hash where h: "lib_sha256 lib x = Some hash" using x(2) by (auto simp: generateMnemonic_def split: option.splits)
    then have "m = join_with CHR '' '' (entropy_words words (x @ [hash ! 0]))"
      using x(2) assms(1) by (auto simp: generateMnemonic_def generate_add_words bind_sum_Inr split: if_splits)
    then show ?thesis using generated_bits [OF assms(1-3) x(1), of "hash ! 0"] by blast
  qed
  from this [OF assms(4,6)] this [OF assms(5,7)] show ?thesis by auto
qed

theorem mnemonic_determines_entropy_witness:
  "generateMnemonic example_lib example_words (Some (replicate 16 9)) \<noteq> generateMnemonic example_lib example_words (Some (replicate 16 8))"
proof
  assume e: "generateMnemonic example_lib example_words (Some (replicate 16 9)) = generateMnemonic example_lib example_words (Some (replicate 16 8))"
  have "\<exists>m. generateMnemonic example_lib example_words (Some (replicate 16 8)) = Inr m"
    by (rule generated_mnemonic_exists [where hash = "replicate 32 0"]) (simp_all add: example_words_ok example_lib_def)
  then obtain m where "generateMnemonic example_lib example_words (Some (replicate 16 8)) = Inr m" ..
  with e have "replicate 16 9 = (replicate 16 8 :: bytes)"
    by (intro mnemonic_determines_entropy [OF example_words_ok]) simp_all
  then show False by (simp add: replicate_eq_replicate)
qed

section \<open>Seeds\<close>

lemma split_ws_append_space: "split_ws (s @ '' '') = split_ws s"
proof (induction s rule: split_ws.induct)
  case (1 s)
  let ?t = "dropWhile is_space s"
  show ?case
  proof (cases "?t = []")
    case True
    then have "\<forall>c \<in> set s. is_space c" by (simp add: dropWhile_eq_Nil_conv)
    then have "dropWhile is_space (s @ '' '') = []" by simp
    then show ?thesis using True by (subst (1 2) split_ws.simps) (simp add: Let_def)
  next
    case False
    then have d: "dropWhile is_space (s @ '' '') = ?t @ '' ''" by (auto simp: dropWhile_append)
    have t: "takeWhile (\<lambda>c. \<not> is_space c) (?t @ '' '') = takeWhile (\<lambda>c. \<not> is_space c) ?t"
      by (simp add: takeWhile_tail)
    have r: "split_ws (dropWhile (\<lambda>c. \<not> is_space c) (?t @ '' '')) = split_ws (dropWhile (\<lambda>c. \<not> is_space c) ?t)"
    proof (cases "\<forall>c \<in> set ?t. \<not> is_space c")
      case True
      then have e: "dropWhile (\<lambda>c. \<not> is_space c) ?t = []" "dropWhile (\<lambda>c. \<not> is_space c) (?t @ '' '') = '' ''"
        by (simp_all add: dropWhile_append)
      show ?thesis unfolding e by simp
    next
      case False
      then have "dropWhile (\<lambda>c. \<not> is_space c) (?t @ '' '') = dropWhile (\<lambda>c. \<not> is_space c) ?t @ '' ''"
        by (auto simp: dropWhile_append)
      then show ?thesis using 1 [OF refl \<open>?t \<noteq> []\<close>] by simp
    qed
    have "split_ws (s @ '' '') = takeWhile (\<lambda>c. \<not> is_space c) (?t @ '' '') # split_ws (dropWhile (\<lambda>c. \<not> is_space c) (?t @ '' ''))"
      using False by (subst split_ws.simps) (simp only: Let_def d if_False append_is_Nil_conv simp_thms)
    also have "\<dots> = split_ws s" unfolding t r using False by (subst (2) split_ws.simps) (simp add: Let_def)
    finally show ?thesis .
  qed
qed

text \<open>
  White space is part of the secret but not of the check: a mnemonic with a space appended is accepted
  exactly when the mnemonic is, and its seed is derived from the longer password.
\<close>

theorem spaces_change_the_seed:
  assumes "length m < MAX_MNEMONIC_LEN" and "length pass \<le> MAX_PASSPHRASE_LEN" and "verifyChecksum lib words m = Inr True"
  shows "verifyChecksum lib words (m @ '' '') = Inr True \<and>
    mnemonicToSeed lib words m pass =
      (case lib_pbkdf2 lib (str_bytes m) (str_bytes (''mnemonic'' @ pass)) of None \<Rightarrow> Inl Runtime_error | Some seed \<Rightarrow> Inr seed) \<and>
    mnemonicToSeed lib words (m @ '' '') pass =
      (case lib_pbkdf2 lib (str_bytes m @ [32]) (str_bytes (''mnemonic'' @ pass)) of None \<Rightarrow> Inl Runtime_error | Some seed \<Rightarrow> Inr seed)"
proof -
  have v: "verifyChecksum lib words (m @ '' '') = Inr True"
    using assms(3) by (simp add: verifyChecksum_def split_ws_append_space)
  have "str_bytes '' '' = [32]" by (simp add: str_bytes_def byte_of_char_def)
  then show ?thesis using assms v by (simp add: mnemonicToSeed_def checkLength_def)
qed

text \<open>A list of one word and a digest of zeros.\<close>

lemma example_mnemonic: "verifyChecksum example_lib [''a''] ''a a a a a a a a a a a a'' = Inr True"
  by code_simp

theorem spaces_change_the_seed_witness:
  "mnemonicToSeed example_lib [''a''] ''a a a a a a a a a a a a'' [] \<noteq> mnemonicToSeed example_lib [''a''] ''a a a a a a a a a a a a '' []"
  using spaces_change_the_seed [OF _ _ example_mnemonic, of "[]"]
  by (simp add: MAX_MNEMONIC_LEN_def MAX_PASSPHRASE_LEN_def example_lib_def str_bytes_def byte_of_char_def)

section \<open>Derivation\<close>

definition wallet_keys :: "wallet_info \<Rightarrow> string \<times> string \<times> string" where
  "wallet_keys w = (wi_derivedPrivKey w, wi_derivedPubKey w, wi_address w)"

lemma hardened_twice: "((w :: u32) OR 0x80000000) OR 0x80000000 = w OR 0x80000000"
  by (simp add: or.assoc)

lemma hardened_differs: "w < 0x80000000 \<Longrightarrow> w \<noteq> (w :: u32) OR 0x80000000"
proof
  assume "w < 0x80000000" "w = w OR 0x80000000"
  have "0x80000000 \<le> 0x80000000 OR w" by (rule le_word_or2)
  then have "0x80000000 \<le> w" using \<open>w = w OR 0x80000000\<close> by (metis or.commute)
  then show False using \<open>w < 0x80000000\<close> by simp
qed

lemma show_u32_inj: "show_u32 v = show_u32 w \<longleftrightarrow> v = w"
  by (simp add: word_unat_eq_iff)

lemma quote_not_digit: "CHR 0x27 \<notin> set (show_nat n)" "CHR ''/'' \<notin> set (show_nat n)"
  by (simp_all add: show_nat_no_char is_digit_def)

lemma split_mark: "d \<notin> set s \<Longrightarrow> d \<notin> set t \<Longrightarrow> s @ d # x = t @ d # y \<longleftrightarrow> s = t \<and> x = y"
  by (metis append_eq_append_conv_if append.assoc append_Cons append_Nil append_same_eq dropWhile_neq_append list.inject takeWhile_neq_append)

text \<open>The printed path determines the four indices.\<close>

lemma derivation_path_inj:
  "derivation_path c a ch i = derivation_path c' a' ch' i' \<longleftrightarrow> c = c' \<and> a = a' \<and> ch = ch' \<and> i = i'"
  by (simp add: derivation_path_def split_mark quote_not_digit word_unat_eq_iff)

text \<open>
  Account numbers from \<open>2 ^ 31\<close> on repeat the ones before: an account and the account with its top bit
  set, and likewise for the coin type, end in the same private key, public key and address, or the same
  failure, under two different derivation paths.
\<close>

theorem accounts_alias:
  assumes "account < 0x80000000"
  shows "map_sum id wallet_keys (deriveFromMnemonic lib words m pass account i coin ch v) =
      map_sum id wallet_keys (deriveFromMnemonic lib words m pass (account OR 0x80000000) i coin ch v) \<and>
    map_sum id wallet_keys (deriveFromMnemonic lib words m pass account i coin ch v) =
      map_sum id wallet_keys (deriveFromMnemonic lib words m pass account i (coin OR 0x80000000) ch v) \<and>
    derivation_path coin account ch i \<noteq> derivation_path coin (account OR 0x80000000) ch i"
proof -
  have b: "map_sum id wallet_keys (bind_sum r f) = map_sum id wallet_keys (bind_sum r g)"
    if "\<And>x. map_sum id wallet_keys (f x) = map_sum id wallet_keys (g x)"
    for r :: "cxx_exn + 'a" and f g using that by (cases r) simp_all
  have "derivation_indices coin account ch i = derivation_indices coin (account OR 0x80000000) ch i"
    "derivation_indices coin account ch i = derivation_indices (coin OR 0x80000000) account ch i"
    by (simp_all add: derivation_indices_def hardened_twice)
  then show ?thesis
    using hardened_differs [OF assms]
    by (auto simp: derivation_path_inj deriveFromMnemonic_def wallet_keys_def Let_def intro!: b split: option.split)
qed

theorem accounts_alias_witness:
  "map_sum id wallet_keys (deriveFromMnemonic example_lib [''a''] ''a a a a a a a a a a a a'' [] 3 0 0 0 0) =
    map_sum id wallet_keys (deriveFromMnemonic example_lib [''a''] ''a a a a a a a a a a a a'' [] 0x80000003 0 0 0 0)"
  using accounts_alias [of 3 example_lib "[''a'']" "''a a a a a a a a a a a a''" "[]" 0 0 0 0] by simp

section \<open>Addresses\<close>

text \<open>
  An address commits to the version and to the hash of the key: two keys with the same address under any
  two version bytes have the same version and the same RIPEMD-160 of their SHA-256.
\<close>

theorem address_commits:
  assumes "\<And>x h. lib_sha256 lib x = Some h \<Longrightarrow> 4 \<le> length h"
    and "key_address lib v pub = Inr a" and "key_address lib v' pub' = Inr a"
  shows "v = v' \<and>
    Option.bind (lib_sha256 lib pub) (lib_ripemd160 lib) = Option.bind (lib_sha256 lib pub') (lib_ripemd160 lib)"
proof -
  have "\<exists>rip. Option.bind (lib_sha256 lib p) (lib_ripemd160 lib) = Some rip \<and> base58check (lib_sha256 lib) (w # rip) = Inr a"
    if "key_address lib w p = Inr a" for w p
    using that by (auto simp: key_address_def split: option.splits)
  from this [OF assms(2)] this [OF assms(3)]
  obtain rip rip' where r: "Option.bind (lib_sha256 lib pub) (lib_ripemd160 lib) = Some rip"
      "Option.bind (lib_sha256 lib pub') (lib_ripemd160 lib) = Some rip'"
      "base58check (lib_sha256 lib) (v # rip) = Inr a" "base58check (lib_sha256 lib) (v' # rip') = Inr a" by blast
  have "v # rip = v' # rip'"
    by (rule base58check_inj [OF _ r(3,4)]) (rule assms(1))
  then show ?thesis using r(1,2) by simp
qed

theorem address_commits_witness:
  "key_address example_lib 0 [7] \<noteq> key_address example_lib 5 [7]"
proof
  assume e: "key_address example_lib 0 [7] = key_address example_lib 5 [7]"
  obtain a where "key_address example_lib 5 [7] = Inr a" by (simp add: key_address_def example_lib_def base58check_def)
  with e have "(0 :: u8) = 5 \<and>
      Option.bind (lib_sha256 example_lib [7]) (lib_ripemd160 example_lib) = Option.bind (lib_sha256 example_lib [7]) (lib_ripemd160 example_lib)"
    by (intro address_commits) (auto simp: example_lib_def)
  then show False by simp
qed

text \<open>The two copies of Base58Check compute the same.\<close>

lemma encodeBase58Check_eq: "encodeBase58Check lib payload = base58check (lib_sha256 lib) payload"
  by (auto simp: encodeBase58Check_def base58check_def b58_text_def b58_digits_def split: option.split)

text \<open>
  The wallet's address is the address that derivation from a mnemonic gives the same public key under
  the version byte 0, and it is what \<^verbatim>\<open>getAddress\<close> answers until the wallet is wiped; new keys do not
  change it, so after \<^verbatim>\<open>generateKeys\<close> the wallet answers the address of the key it no longer has.
\<close>

theorem wallet_address_exact:
  assumes "length (wl_publicKey w) = 33" and "key_address lib 0 (wl_publicKey w) = Inr a" and "a \<noteq> []"
  shows "\<exists>w'. generateAddress lib w = Inr w' \<and> getAddress w' = Inr a \<and>
    (\<exists>w''. generateKeys (Some (priv, pub)) w' = Inr w'' \<and> wl_publicKey w'' = pub \<and> getAddress w'' = Inr a) \<and>
    getAddress (wallet_wipe w') = Inl Runtime_error \<and> getPublicKeyHex (wallet_wipe w') = Inl Runtime_error \<and>
    getPrivateKeyHex (wallet_wipe w') = Inl Runtime_error"
proof -
  have "wl_publicKey w \<noteq> []" using assms(1) by auto
  then have "generateAddress lib w = Inr (w\<lparr>wl_address := a\<rparr>)"
    using assms(1,2) by (auto simp: generateAddress_def key_address_def encodeBase58Check_eq split: option.splits)
  then show ?thesis using assms(3)
    by (simp add: getAddress_def generateKeys_def wallet_wipe_def getPublicKeyHex_def getPrivateKeyHex_def)
qed

theorem wallet_address_exact_witness:
  "\<exists>w'. generateAddress example_lib (Wallet\<lparr>wl_publicKey := 2 # replicate 32 5\<rparr>) = Inr w' \<and>
    getAddress (wallet_wipe w') = Inl Runtime_error"
proof -
  let ?w = "Wallet\<lparr>wl_publicKey := 2 # replicate 32 5\<rparr>"
  obtain a where "key_address example_lib 0 (wl_publicKey ?w) = Inr a" "a \<noteq> []"
    by (simp add: key_address_def example_lib_def base58check_def b58_text_def leadingZeros_def)
  then show ?thesis using wallet_address_exact [of ?w example_lib a "[]" "[]"] by auto
qed

end
