(* ===== verification/PeerDb.thy ===== *)
theory PeerDb
  imports AccountDB WireJson "HOL-Library.AList" "HOL-Library.List_Lexorder" "HOL-Library.Char_ord"
begin

text \<open>
  The peer store over RocksDB, \<^verbatim>\<open>src/src/net/peer_store.cpp\<close>: peers, bans and metrics as
  JSON records under prefixed keys. RocksDB and the text of a JSON value are parameters: \<open>dump\<close>
  (\<open>None\<close> when it throws) and \<open>parse\<close> (\<open>None\<close> on a syntax error). The store is its pointer. A C++ \<^verbatim>\<open>int\<close> is a
  32-bit word read as two's complement, a \<^verbatim>\<open>double\<close> a rational number. Locks, log output and
  the options of the database are not modelled.
\<close>

section \<open>Records\<close>

definition PEER_SCHEMA_VERSION :: u32 where "PEER_SCHEMA_VERSION = 1"
definition BAN_SCHEMA_VERSION :: u32 where "BAN_SCHEMA_VERSION = 1"

record persisted_peer =
  pp_schemaVersion :: u32
  pp_id :: string
  pp_host :: string
  pp_port :: u32
  pp_trusted :: bool
  pp_priority :: u32
  pp_region :: string
  pp_tags :: "string list"
  pp_banCount :: u32
  pp_bannedUntil :: u64
  pp_score :: rat
  pp_lastSeen :: u64
  pp_bytesReceived :: u64
  pp_bytesSent :: u64
  pp_blocksRelayed :: u64

definition PersistedPeer :: persisted_peer where
  "PersistedPeer =
     \<lparr>pp_schemaVersion = PEER_SCHEMA_VERSION, pp_id = [], pp_host = [], pp_port = 30303, pp_trusted = False, pp_priority = 2,
      pp_region = [], pp_tags = [], pp_banCount = 0, pp_bannedUntil = 0, pp_score = 1, pp_lastSeen = 0,
      pp_bytesReceived = 0, pp_bytesSent = 0, pp_blocksRelayed = 0\<rparr>"

definition DB_PREFIX_PEER :: string where "DB_PREFIX_PEER = ''peer:''"
definition DB_PREFIX_BAN :: string where "DB_PREFIX_BAN = ''ban:''"
definition KEY_METRICS :: string where "KEY_METRICS = ''__net_metrics__''"

section \<open>JSON\<close>

text \<open>A signed \<^verbatim>\<open>int\<close> as the library stores it.\<close>

definition json_of_int :: "u32 \<Rightarrow> json" where
  "json_of_int n = JInteger (scast n)"

definition peerToJson :: "persisted_peer \<Rightarrow> json" where
  "peerToJson p = JObject
     [(''schemaVersion'', JUnsigned (ucast PEER_SCHEMA_VERSION)),
      (''id'', JString (pp_id p)),
      (''host'', JString (pp_host p)),
      (''port'', json_of_int (pp_port p)),
      (''trusted'', JBool (pp_trusted p)),
      (''priority'', json_of_int (pp_priority p)),
      (''region'', JString (pp_region p)),
      (''tags'', JArray (map JString (pp_tags p))),
      (''banCount'', json_of_int (pp_banCount p)),
      (''bannedUntil'', JUnsigned (pp_bannedUntil p)),
      (''score'', JFloat (pp_score p)),
      (''lastSeen'', JUnsigned (pp_lastSeen p)),
      (''bytesReceived'', JUnsigned (pp_bytesReceived p)),
      (''bytesSent'', JUnsigned (pp_bytesSent p)),
      (''blocksRelayed'', JUnsigned (pp_blocksRelayed p))]"

definition banToJson :: "u64 \<Rightarrow> u32 \<Rightarrow> json" where
  "banToJson bannedUntil banCount = JObject
     [(''schemaVersion'', JUnsigned (ucast BAN_SCHEMA_VERSION)), (''bannedUntil'', JUnsigned bannedUntil),
      (''banCount'', json_of_int banCount)]"

text \<open>
  The conversions of the library's numbers; \<open>None\<close> is its type error. The 32-bit ones take a truth value for
  a number, the others do not. A fraction is cut towards zero.
\<close>

definition cut :: "rat \<Rightarrow> int" where
  "cut q = (if q < 0 then - \<lfloor>- q\<rfloor> else \<lfloor>q\<rfloor>)"

fun get_u32 :: "json \<Rightarrow> u32 option" where
  "get_u32 (JUnsigned n) = Some (ucast n)"
| "get_u32 (JInteger n) = Some (ucast n)"
| "get_u32 (JFloat q) = Some (word_of_int (cut q))"
| "get_u32 (JBool b) = Some (if b then 1 else 0)"
| "get_u32 j = None"

fun get_u64 :: "json \<Rightarrow> u64 option" where
  "get_u64 (JUnsigned n) = Some n"
| "get_u64 (JInteger n) = Some n"
| "get_u64 (JFloat q) = Some (word_of_int (cut q))"
| "get_u64 j = None"

fun get_double :: "json \<Rightarrow> rat option" where
  "get_double (JUnsigned n) = Some (of_nat (unat n))"
| "get_double (JInteger n) = Some (of_int (sint n))"
| "get_double (JFloat q) = Some q"
| "get_double j = None"

fun get_string :: "json \<Rightarrow> string option" where
  "get_string (JString s) = Some s"
| "get_string j = None"

fun is_number :: "json \<Rightarrow> bool" where
  "is_number (JUnsigned n) \<longleftrightarrow> True"
| "is_number (JInteger n) \<longleftrightarrow> True"
| "is_number (JFloat q) \<longleftrightarrow> True"
| "is_number j \<longleftrightarrow> False"

fun is_number_unsigned :: "json \<Rightarrow> bool" where
  "is_number_unsigned (JUnsigned n) \<longleftrightarrow> True"
| "is_number_unsigned j \<longleftrightarrow> False"

text \<open>\<^verbatim>\<open>j.value(field, default)\<close>.\<close>

definition jvalue :: "(json \<Rightarrow> 'a option) \<Rightarrow> string \<Rightarrow> 'a \<Rightarrow> json \<Rightarrow> 'a option" where
  "jvalue get field dflt j = (case jget field j of None \<Rightarrow> Some dflt | Some v \<Rightarrow> get v)"

text \<open>One assignment after the other, up to the first that throws.\<close>

fun assign :: "('p \<Rightarrow> 'p option) list \<Rightarrow> 'p \<Rightarrow> bool \<times> 'p" where
  "assign [] p = (True, p)"
| "assign (f # fs) p = (case f p of None \<Rightarrow> (False, p) | Some p' \<Rightarrow> assign fs p')"

definition tags_of :: "json \<Rightarrow> string list \<Rightarrow> string list" where
  "tags_of j old = (case jget ''tags'' j of Some (JArray ts) \<Rightarrow> List.map_filter get_string ts | _ \<Rightarrow> old)"

definition field_setters :: "json \<Rightarrow> (persisted_peer \<Rightarrow> persisted_peer option) list" where
  "field_setters j =
     [\<lambda>p. map_option (\<lambda>x. p\<lparr>pp_schemaVersion := x\<rparr>) (Option.bind (jget ''schemaVersion'' j) get_u32),
      \<lambda>p. map_option (\<lambda>x. p\<lparr>pp_id := x\<rparr>) (Option.bind (jget ''id'' j) get_string),
      \<lambda>p. map_option (\<lambda>x. p\<lparr>pp_host := x\<rparr>) (Option.bind (jget ''host'' j) get_string),
      \<lambda>p. map_option (\<lambda>x. p\<lparr>pp_port := x\<rparr>) (Option.bind (jget ''port'' j) get_u32),
      \<lambda>p. (case jget ''trusted'' j of Some (JBool b) \<Rightarrow> Some (p\<lparr>pp_trusted := b\<rparr>) | _ \<Rightarrow> None),
      \<lambda>p. map_option (\<lambda>x. p\<lparr>pp_priority := x\<rparr>) (jvalue get_u32 ''priority'' 2 j),
      \<lambda>p. map_option (\<lambda>x. p\<lparr>pp_region := x\<rparr>) (jvalue get_string ''region'' [] j),
      \<lambda>p. map_option (\<lambda>x. p\<lparr>pp_banCount := x\<rparr>) (jvalue get_u32 ''banCount'' 0 j),
      \<lambda>p. map_option (\<lambda>x. p\<lparr>pp_bannedUntil := x\<rparr>) (jvalue get_u64 ''bannedUntil'' 0 j),
      \<lambda>p. map_option (\<lambda>x. p\<lparr>pp_score := x\<rparr>) (jvalue get_double ''score'' 1 j),
      \<lambda>p. map_option (\<lambda>x. p\<lparr>pp_lastSeen := x\<rparr>) (jvalue get_u64 ''lastSeen'' 0 j),
      \<lambda>p. map_option (\<lambda>x. p\<lparr>pp_bytesReceived := x\<rparr>) (jvalue get_u64 ''bytesReceived'' 0 j),
      \<lambda>p. map_option (\<lambda>x. p\<lparr>pp_bytesSent := x\<rparr>) (jvalue get_u64 ''bytesSent'' 0 j),
      \<lambda>p. map_option (\<lambda>x. p\<lparr>pp_blocksRelayed := x\<rparr>) (jvalue get_u64 ''blocksRelayed'' 0 j),
      \<lambda>p. Some (p\<lparr>pp_tags := tags_of j (pp_tags p)\<rparr>)]"

definition valid_port :: "u32 \<Rightarrow> bool" where
  "valid_port p \<longleftrightarrow> \<not> (sint p < 1 \<or> sint p > 65535)"

text \<open>The record and the output parameter give the answer and what the output parameter holds then.\<close>

definition jsonToPeer :: "json \<Rightarrow> persisted_peer \<Rightarrow> bool \<times> persisted_peer" where
  "jsonToPeer j out =
     (if \<not> is_object j then (False, out)
      else
        case jget ''schemaVersion'' j of
          None \<Rightarrow> (False, out)
        | Some sv \<Rightarrow>
            if \<not> is_number_unsigned sv then (False, out)
            else if (case get_u32 sv of Some n \<Rightarrow> n > PEER_SCHEMA_VERSION | None \<Rightarrow> True) then (False, out)
            else if \<not> (case jget ''id'' j of Some (JString s) \<Rightarrow> True | _ \<Rightarrow> False) then (False, out)
            else if \<not> (case jget ''host'' j of Some (JString s) \<Rightarrow> True | _ \<Rightarrow> False) then (False, out)
            else if \<not> (case jget ''port'' j of Some v \<Rightarrow> is_number v | None \<Rightarrow> False) then (False, out)
            else if \<not> (case jget ''trusted'' j of Some (JBool b) \<Rightarrow> True | _ \<Rightarrow> False) then (False, out)
            else
              let (ok, out) = assign (field_setters j) out
              in if \<not> ok then (False, out)
                 else if \<not> valid_port (pp_port out) then (False, out)
                 else if pp_id out = [] \<or> pp_host out = [] then (False, out)
                 else (True, out))"

section \<open>The store\<close>

type_synonym 'd peer_db = "'d option"

record json_lib =
  js_dump :: "json \<Rightarrow> string option"
  js_parse :: "string \<Rightarrow> json option"

definition PeerStore :: "'d rocksdb \<Rightarrow> string \<Rightarrow> 'd peer_db" where
  "PeerStore R dbPath =
     (if dbPath = [] then None else case rdb_open R dbPath of (s, d) \<Rightarrow> if s \<noteq> SOk then None else Some d)"

definition ps_isOpen :: "'d peer_db \<Rightarrow> bool" where
  "ps_isOpen s \<longleftrightarrow> s \<noteq> None"

text \<open>A write, a deletion and a read, as each operation does them under its lock.\<close>

definition ps_put :: "'d rocksdb \<Rightarrow> bool \<Rightarrow> string \<Rightarrow> string \<Rightarrow> 'd peer_db \<Rightarrow> bool \<times> 'd peer_db" where
  "ps_put R sync key val s =
     (case s of None \<Rightarrow> (False, s) | Some d \<Rightarrow> (case rdb_put R d sync key val of (r, d) \<Rightarrow> (r = SOk, Some d)))"

definition ps_delete :: "'d rocksdb \<Rightarrow> string \<Rightarrow> 'd peer_db \<Rightarrow> bool \<times> 'd peer_db" where
  "ps_delete R key s =
     (case s of
        None \<Rightarrow> (False, s)
      | Some d \<Rightarrow> (case rdb_delete R d True key of (r, d) \<Rightarrow> (\<not> (r \<noteq> SOk \<and> r \<noteq> SNotFound), Some d)))"

definition ps_get :: "'d rocksdb \<Rightarrow> string \<Rightarrow> 'd peer_db \<Rightarrow> string option" where
  "ps_get R key s =
     (case s of None \<Rightarrow> None | Some d \<Rightarrow> (case rdb_get R d key [] of (r, raw) \<Rightarrow> if r = SOk then Some raw else None))"

definition savePeer :: "'d rocksdb \<Rightarrow> json_lib \<Rightarrow> persisted_peer \<Rightarrow> 'd peer_db \<Rightarrow> bool \<times> 'd peer_db" where
  "savePeer R J p s =
     (if pp_id p = [] \<or> pp_host p = [] then (False, s)
      else if \<not> valid_port (pp_port p) then (False, s)
      else
        case js_dump J (peerToJson p) of
          None \<Rightarrow> (False, s)
        | Some serialized \<Rightarrow> ps_put R True (DB_PREFIX_PEER @ pp_id p) serialized s)"

definition loadPeer :: "'d rocksdb \<Rightarrow> json_lib \<Rightarrow> string \<Rightarrow> persisted_peer \<Rightarrow> 'd peer_db \<Rightarrow> bool \<times> persisted_peer" where
  "loadPeer R J pid out s =
     (if pid = [] then (False, out)
      else
        case ps_get R (DB_PREFIX_PEER @ pid) s of
          None \<Rightarrow> (False, out)
        | Some raw \<Rightarrow>
            if raw = [] then (False, out)
            else case js_parse J raw of None \<Rightarrow> (False, out) | Some j \<Rightarrow> jsonToPeer j out)"

definition deletePeer :: "'d rocksdb \<Rightarrow> string \<Rightarrow> 'd peer_db \<Rightarrow> bool \<times> 'd peer_db" where
  "deletePeer R pid s = (if pid = [] then (False, s) else ps_delete R (DB_PREFIX_PEER @ pid) s)"

text \<open>The entries from a prefix on, up to the first key without it.\<close>

definition scan :: "'d rocksdb \<Rightarrow> string \<Rightarrow> 'd \<Rightarrow> (string \<times> string) list" where
  "scan R p d = takeWhile (\<lambda>(k, v). \<not> (length k < length p \<or> take (length p) k \<noteq> p)) (fst (rdb_from R d p))"

definition read_db_peer :: "json_lib \<Rightarrow> string \<Rightarrow> persisted_peer option" where
  "read_db_peer J raw =
     (case js_parse J raw of
        None \<Rightarrow> None
      | Some j \<Rightarrow> (case jsonToPeer j PersistedPeer of (ok, peer) \<Rightarrow> if ok then Some peer else None))"

definition loadAllPeers :: "'d rocksdb \<Rightarrow> json_lib \<Rightarrow> 'd peer_db \<Rightarrow> persisted_peer list" where
  "loadAllPeers R J s =
     (case s of None \<Rightarrow> [] | Some d \<Rightarrow> List.map_filter (\<lambda>(k, raw). read_db_peer J raw) (scan R DB_PREFIX_PEER d))"

definition saveBan :: "'d rocksdb \<Rightarrow> json_lib \<Rightarrow> string \<Rightarrow> u64 \<Rightarrow> u32 \<Rightarrow> 'd peer_db \<Rightarrow> bool \<times> 'd peer_db" where
  "saveBan R J pid bannedUntil banCount s =
     (if pid = [] then (False, s)
      else
        case js_dump J (banToJson bannedUntil banCount) of
          None \<Rightarrow> (False, s)
        | Some serialized \<Rightarrow> ps_put R True (DB_PREFIX_BAN @ pid) serialized s)"

definition read_ban :: "json \<Rightarrow> (u64 \<times> u32) option" where
  "read_ban j =
     (if \<not> is_object j then None
      else
        case (jget ''bannedUntil'' j, jget ''banCount'' j) of
          (Some u, Some c) \<Rightarrow>
            if \<not> is_number_unsigned u then None
            else if \<not> is_number c then None
            else if (case jget ''schemaVersion'' j of
                       None \<Rightarrow> False
                     | Some v \<Rightarrow> (case get_u32 v of None \<Rightarrow> True | Some sv \<Rightarrow> sv > BAN_SCHEMA_VERSION)) then None
            else (case (get_u64 u, get_u32 c) of (Some u, Some c) \<Rightarrow> Some (u, c) | _ \<Rightarrow> None)
        | _ \<Rightarrow> None)"

definition loadBan :: "'d rocksdb \<Rightarrow> json_lib \<Rightarrow> string \<Rightarrow> 'd peer_db \<Rightarrow> (u64 \<times> u32) option" where
  "loadBan R J pid s =
     (if pid = [] then None
      else
        case ps_get R (DB_PREFIX_BAN @ pid) s of
          None \<Rightarrow> None
        | Some raw \<Rightarrow> (case js_parse J raw of None \<Rightarrow> None | Some j \<Rightarrow> read_ban j))"

definition clearBan :: "'d rocksdb \<Rightarrow> string \<Rightarrow> 'd peer_db \<Rightarrow> bool \<times> 'd peer_db" where
  "clearBan R pid s = (if pid = [] then (False, s) else ps_delete R (DB_PREFIX_BAN @ pid) s)"

definition ban_entry :: "json_lib \<Rightarrow> string \<times> string \<Rightarrow> (string \<times> u64) option" where
  "ban_entry J kv =
     (case js_parse J (snd kv) of
        None \<Rightarrow> None
      | Some j \<Rightarrow>
          (case jget ''bannedUntil'' j of
             None \<Rightarrow> None
           | Some u \<Rightarrow>
               let pid = drop (length DB_PREFIX_BAN) (fst kv)
               in if \<not> is_number u then None
                  else if pid = [] then None
                  else map_option (\<lambda>t. (pid, t)) (get_u64 u)))"

definition loadAllBans :: "'d rocksdb \<Rightarrow> json_lib \<Rightarrow> 'd peer_db \<Rightarrow> (string \<Rightarrow> u64 option)" where
  "loadAllBans R J s =
     (case s of
        None \<Rightarrow> (\<lambda>k. None)
      | Some d \<Rightarrow>
          foldl (\<lambda>result kv. case ban_entry J kv of None \<Rightarrow> result | Some (pid, t) \<Rightarrow> result(pid \<mapsto> t)) (\<lambda>k. None)
            (scan R DB_PREFIX_BAN d))"

definition saveMetrics :: "'d rocksdb \<Rightarrow> json_lib \<Rightarrow> json \<Rightarrow> 'd peer_db \<Rightarrow> bool \<times> 'd peer_db" where
  "saveMetrics R J metrics s =
     (case js_dump J metrics of None \<Rightarrow> (False, s) | Some serialized \<Rightarrow> ps_put R False KEY_METRICS serialized s)"

text \<open>The answer and what the output parameter holds then.\<close>

definition loadMetrics :: "'d rocksdb \<Rightarrow> json_lib \<Rightarrow> json \<Rightarrow> 'd peer_db \<Rightarrow> bool \<times> json" where
  "loadMetrics R J out s =
     (case ps_get R KEY_METRICS s of
        None \<Rightarrow> (False, out)
      | Some raw \<Rightarrow>
          (case js_parse J raw of
             None \<Rightarrow> (False, out)
           | Some j \<Rightarrow> (is_object j, j)))"

section \<open>Records survive\<close>

lemma ucast_scast_u32 [simp]: "ucast (scast (n :: u32) :: u64) = n"
  by (rule bit_word_eqI) (simp add: bit_ucast_iff bit_signed_iff min_def)

lemma parsed_int [simp]: "get_u32 (parsed (json_of_int n)) = Some n" "is_number (parsed (json_of_int n))"
  by (simp_all add: json_of_int_def)

lemma parsed_string [simp]: "map parsed (map JString ts) = map JString ts"
  by simp

lemma strings_back [simp]: "List.map_filter get_string (map JString ts) = ts"
  by (induction ts) (simp_all add: List.map_filter_def)

definition saved_form :: "persisted_peer \<Rightarrow> persisted_peer" where
  "saved_form p = p\<lparr>pp_schemaVersion := PEER_SCHEMA_VERSION\<rparr>"

definition storable :: "persisted_peer \<Rightarrow> bool" where
  "storable p \<longleftrightarrow> pp_id p \<noteq> [] \<and> pp_host p \<noteq> [] \<and> valid_port (pp_port p)"

lemma peer_json_back:
  assumes "storable p"
  shows "jsonToPeer (parsed (peerToJson p)) out = (True, saved_form p)"
proof -
  let ?j = "parsed (peerToJson p)"
  have f: "jget ''schemaVersion'' ?j = Some (JUnsigned 1)" "jget ''id'' ?j = Some (JString (pp_id p))"
    "jget ''host'' ?j = Some (JString (pp_host p))" "jget ''port'' ?j = Some (parsed (json_of_int (pp_port p)))"
    "jget ''trusted'' ?j = Some (JBool (pp_trusted p))" "jget ''priority'' ?j = Some (parsed (json_of_int (pp_priority p)))"
    "jget ''region'' ?j = Some (JString (pp_region p))" "jget ''tags'' ?j = Some (JArray (map JString (pp_tags p)))"
    "jget ''banCount'' ?j = Some (parsed (json_of_int (pp_banCount p)))" "jget ''bannedUntil'' ?j = Some (JUnsigned (pp_bannedUntil p))"
    "jget ''score'' ?j = Some (JFloat (pp_score p))" "jget ''lastSeen'' ?j = Some (JUnsigned (pp_lastSeen p))"
    "jget ''bytesReceived'' ?j = Some (JUnsigned (pp_bytesReceived p))" "jget ''bytesSent'' ?j = Some (JUnsigned (pp_bytesSent p))"
    "jget ''blocksRelayed'' ?j = Some (JUnsigned (pp_blocksRelayed p))"
    by (simp_all add: peerToJson_def PEER_SCHEMA_VERSION_def comp_def)
  have "is_object ?j" by (simp add: peerToJson_def)
  moreover have "tags_of ?j ts = pp_tags p" for ts by (simp add: tags_of_def f)
  moreover have "assign (field_setters ?j) out = (True, saved_form p)"
    by (simp add: field_setters_def f jvalue_def saved_form_def PEER_SCHEMA_VERSION_def calculation)
  ultimately show ?thesis
    using assms by (simp add: jsonToPeer_def f PEER_SCHEMA_VERSION_def storable_def saved_form_def)
qed

lemma ban_json_back: "read_ban (parsed (banToJson until n)) = Some (until, n)"
  by (simp add: read_ban_def banToJson_def BAN_SCHEMA_VERSION_def)

section \<open>The abstract store\<close>

text \<open>What a store holds: the peer and the ban filed under an identifier, and the metrics.\<close>

definition db_content :: "('d \<Rightarrow> string \<Rightarrow> string option) \<Rightarrow> 'd peer_db \<Rightarrow> string \<Rightarrow> string option" where
  "db_content view s = (case s of None \<Rightarrow> (\<lambda>k. None) | Some d \<Rightarrow> view d)"

definition peer_at :: "json_lib \<Rightarrow> (string \<Rightarrow> string option) \<Rightarrow> string \<Rightarrow> persisted_peer option" where
  "peer_at J c pid = (case c (DB_PREFIX_PEER @ pid) of None \<Rightarrow> None | Some raw \<Rightarrow> if raw = [] then None else read_db_peer J raw)"

definition ban_at :: "json_lib \<Rightarrow> (string \<Rightarrow> string option) \<Rightarrow> string \<Rightarrow> (u64 \<times> u32) option" where
  "ban_at J c pid = (case c (DB_PREFIX_BAN @ pid) of None \<Rightarrow> None | Some raw \<Rightarrow> Option.bind (js_parse J raw) read_ban)"

definition metrics_at :: "json_lib \<Rightarrow> (string \<Rightarrow> string option) \<Rightarrow> json option" where
  "metrics_at J c =
     (case c KEY_METRICS of None \<Rightarrow> None
      | Some raw \<Rightarrow> (case js_parse J raw of None \<Rightarrow> None | Some j \<Rightarrow> if is_object j then Some j else None))"

type_synonym peer_records = "(string \<Rightarrow> persisted_peer option) \<times> (string \<Rightarrow> (u64 \<times> u32) option) \<times> json option"

definition records_of ::
    "json_lib \<Rightarrow> ('d \<Rightarrow> string \<Rightarrow> string option) \<Rightarrow> 'd peer_db \<Rightarrow> peer_records" where
  "records_of J view s =
     (peer_at J (db_content view s), ban_at J (db_content view s), metrics_at J (db_content view s))"

text \<open>The keys of the three kinds are apart.\<close>

lemma key_apart [simp]:
  "DB_PREFIX_PEER @ a \<noteq> DB_PREFIX_BAN @ b" "DB_PREFIX_BAN @ b \<noteq> DB_PREFIX_PEER @ a"
  "DB_PREFIX_PEER @ a \<noteq> KEY_METRICS" "KEY_METRICS \<noteq> DB_PREFIX_PEER @ a"
  "DB_PREFIX_BAN @ a \<noteq> KEY_METRICS" "KEY_METRICS \<noteq> DB_PREFIX_BAN @ a"
  by (simp_all add: DB_PREFIX_PEER_def DB_PREFIX_BAN_def KEY_METRICS_def)

lemma peer_at_upd:
  "peer_at J (c(DB_PREFIX_PEER @ i := x)) =
     (peer_at J c)(i := (case x of None \<Rightarrow> None | Some raw \<Rightarrow> if raw = [] then None else read_db_peer J raw))"
  "peer_at J (c(DB_PREFIX_BAN @ i := x)) = peer_at J c" "peer_at J (c(KEY_METRICS := x)) = peer_at J c"
  by (auto simp: peer_at_def fun_eq_iff)

lemma ban_at_upd:
  "ban_at J (c(DB_PREFIX_BAN @ i := x)) = (ban_at J c)(i := (case x of None \<Rightarrow> None | Some raw \<Rightarrow> Option.bind (js_parse J raw) read_ban))"
  "ban_at J (c(DB_PREFIX_PEER @ i := x)) = ban_at J c" "ban_at J (c(KEY_METRICS := x)) = ban_at J c"
  by (auto simp: ban_at_def fun_eq_iff)

lemma metrics_at_upd:
  "metrics_at J (c(DB_PREFIX_PEER @ i := x)) = metrics_at J c" "metrics_at J (c(DB_PREFIX_BAN @ i := x)) = metrics_at J c"
  "metrics_at J (c(KEY_METRICS := x)) =
     (case x of None \<Rightarrow> None | Some raw \<Rightarrow> (case js_parse J raw of None \<Rightarrow> None | Some j \<Rightarrow> if is_object j then Some j else None))"
  by (auto simp: metrics_at_def)

lemmas records_upd = peer_at_upd ban_at_upd metrics_at_upd

text \<open>
  What the store relies on beyond writes and reads: the deletion of a missing entry may say so, and an
  iterator yields the entries from a key on in the order of their keys.
\<close>

locale ordered_rocks = reliable_rocks +
  assumes delete_missing: "rdb_delete R d sync k = (SNotFound, d') \<Longrightarrow> view d k = None"
    and from_sorted: "sorted (map fst (fst (rdb_from R d k)))"
    and from_exact: "set (fst (rdb_from R d k)) = {(x, v). view d x = Some v \<and> k \<le> x}"
begin

lemma ps_put_content:
  "ps_put R sync k v s = (ok, s') \<Longrightarrow> db_content view s' = (if ok then (db_content view s)(k := Some v) else db_content view s)"
  using put_ok put_fail by (auto simp: ps_put_def db_content_def split: option.splits prod.splits)

lemma ps_delete_content:
  assumes "ps_delete R k s = (ok, s')"
  shows "db_content view s' = (if ok then (db_content view s)(k := None) else db_content view s)"
proof (cases s)
  case (Some d)
  obtain r d' where r: "rdb_delete R d True k = (r, d')" by fastforce
  show ?thesis
  proof (cases "r = SNotFound")
    case True
    then have "view d' = view d" "view d k = None" using r delete_fail delete_missing by auto
    then show ?thesis using assms Some r True by (auto simp: ps_delete_def db_content_def)
  next
    case False
    then show ?thesis using assms Some r delete_ok [of d True k d'] delete_fail [of d True k r d']
      by (auto simp: ps_delete_def db_content_def)
  qed
qed (use assms in \<open>simp add: ps_delete_def\<close>)

lemma ps_get_content: "ps_get R k s = db_content view s k"
proof (cases s)
  case (Some d)
  obtain r y where g: "rdb_get R d k [] = (r, y)" by fastforce
  then have "r = SOk \<or> r = SNotFound" using get_reliable [of d k "[]"] by simp
  then show ?thesis
    using g Some get_ok [of d k "[]" y] get_missing [of d k "[]" y] by (auto simp: ps_get_def db_content_def)
qed (simp add: ps_get_def db_content_def)

end

sublocale ordered_rocks \<subseteq> pdb: kv_store "ps_get R" "ps_put R True" "db_content view" "\<lambda>k. True"
  by unfold_locales (simp_all add: ps_get_content ps_put_content)

text \<open>The keys with a prefix are the first ones from the prefix on.\<close>

lemma prefix_first:
  fixes x y :: string
  assumes "p \<le> x" "take (length p) x \<noteq> p" "x \<le> y"
  shows "take (length p) y \<noteq> p"
  using assms
proof (induction p arbitrary: x y)
  case (Cons a p)
  then obtain b xs where x: "x = b # xs" by (cases x) auto
  then obtain c ys where y: "y = c # ys" using Cons.prems by (cases y) auto
  show ?case using Cons x y by (auto simp: Cons_le_Cons)
qed simp

lemma sorted_takeWhile:
  assumes "sorted (map fst xs)" "\<And>x y. x \<in> set xs \<Longrightarrow> y \<in> set xs \<Longrightarrow> \<not> P x \<Longrightarrow> fst x \<le> fst y \<Longrightarrow> \<not> P y"
  shows "takeWhile P xs = filter P xs"
  using assms
proof (induction xs)
  case (Cons x xs)
  show ?case
  proof (cases "P x")
    case False
    have "\<not> P y" if "y \<in> set xs" for y
      using Cons.prems(2) [of x y] Cons.prems(1) that False by simp
    then show ?thesis using False by simp
  next
    case True
    have "takeWhile P xs = filter P xs"
    proof (rule Cons.IH)
      show "sorted (map fst xs)" using Cons.prems(1) by simp
      show "\<not> P y" if "x \<in> set xs" "y \<in> set xs" "\<not> P x" "fst x \<le> fst y" for x y
        using Cons.prems(2) [of x y] that by simp
    qed
    then show ?thesis using True by simp
  qed
qed simp

context ordered_rocks begin

lemma scan_exact: "set (scan R p d) = {(k, v). view d k = Some v \<and> take (length p) k = p}"
proof -
  let ?P = "\<lambda>(k, v :: string). \<not> (length k < length p \<or> take (length p) k \<noteq> p)"
  let ?es = "fst (rdb_from R d p)"
  have P: "?P (k, v) \<longleftrightarrow> take (length p) k = p" for k v by (auto simp: not_less) (metis length_take min.cobounded1)
  have ge: "p \<le> k" if "take (length p) k = p" for k :: string
  proof -
    have "p \<le> p @ r" for r :: string by (induction p) (simp_all add: Cons_le_Cons)
    then show ?thesis using that by (metis append_take_drop_id)
  qed
  have "takeWhile ?P ?es = filter ?P ?es"
  proof (rule sorted_takeWhile [OF from_sorted])
    fix x y
    assume "x \<in> set ?es" "y \<in> set ?es" "\<not> ?P x" "fst x \<le> fst y"
    then show "\<not> ?P y" using prefix_first [of p "fst x" "fst y"] P [of "fst x" "snd x"] P [of "fst y" "snd y"] by (auto simp: from_exact)
  qed
  then show ?thesis unfolding scan_def using ge P by (auto simp: from_exact)
qed

end

section \<open>The store implements the abstract store\<close>

datatype peer_op =
    OpSavePeer persisted_peer | OpDeletePeer string | OpSaveBan string u64 u32 | OpClearBan string | OpSaveMetrics json

fun run_peer_op :: "'d rocksdb \<Rightarrow> json_lib \<Rightarrow> peer_op \<Rightarrow> 'd peer_db \<Rightarrow> bool \<times> 'd peer_db" where
  "run_peer_op R J (OpSavePeer p) s = savePeer R J p s"
| "run_peer_op R J (OpDeletePeer pid) s = deletePeer R pid s"
| "run_peer_op R J (OpSaveBan pid until n) s = saveBan R J pid until n s"
| "run_peer_op R J (OpClearBan pid) s = clearBan R pid s"
| "run_peer_op R J (OpSaveMetrics j) s = saveMetrics R J j s"

fun peer_op_spec :: "peer_op \<Rightarrow> peer_records \<Rightarrow> peer_records" where
  "peer_op_spec (OpSavePeer p) (P, B, M) = (P(pp_id p \<mapsto> saved_form p), B, M)"
| "peer_op_spec (OpDeletePeer pid) (P, B, M) = (P(pid := None), B, M)"
| "peer_op_spec (OpSaveBan pid until n) (P, B, M) = (P, B(pid \<mapsto> (until, n)), M)"
| "peer_op_spec (OpClearBan pid) (P, B, M) = (P, B(pid := None), M)"
| "peer_op_spec (OpSaveMetrics j) (P, B, M) = (P, B, if is_object j then Some (parsed j) else None)"

lemma is_object_parsed [simp]: "is_object (parsed j) = is_object j"
  by (cases j) simp_all

lemma json_text_back: "json_law (js_dump J) (js_parse J) \<Longrightarrow> js_dump J j = Some raw \<Longrightarrow> js_parse J raw = Some (parsed j) \<and> raw \<noteq> []"
  by (auto simp: json_law_def)

context ordered_rocks begin

lemma put_records:
  assumes "ps_put R sync k v s = (ok, s')"
  shows "records_of J view s' =
    (if ok then (peer_at J ((db_content view s)(k := Some v)), ban_at J ((db_content view s)(k := Some v)), metrics_at J ((db_content view s)(k := Some v)))
     else records_of J view s)"
  by (simp add: records_of_def ps_put_content [OF assms])

lemma delete_records:
  assumes "ps_delete R k s = (ok, s')"
  shows "records_of J view s' =
    (if ok then (peer_at J ((db_content view s)(k := None)), ban_at J ((db_content view s)(k := None)), metrics_at J ((db_content view s)(k := None)))
     else records_of J view s)"
  by (simp add: records_of_def ps_delete_content [OF assms])

lemma op_refines:
  assumes J: "json_law (js_dump J) (js_parse J)" and op: "run_peer_op R J a s = (ok, s')"
  shows "records_of J view s' = (if ok then peer_op_spec a (records_of J view s) else records_of J view s)"
proof (cases a)
  case (OpSavePeer p)
  show ?thesis
  proof (cases "storable p \<and> js_dump J (peerToJson p) \<noteq> None")
    case True
    then obtain raw where raw: "js_dump J (peerToJson p) = Some raw" by blast
    then have put: "ps_put R True (DB_PREFIX_PEER @ pp_id p) raw s = (ok, s')"
      using True op by (simp add: OpSavePeer savePeer_def storable_def)
    have "read_db_peer J raw = Some (saved_form p)"
      using json_text_back [OF J raw] True by (simp add: read_db_peer_def peer_json_back)
    then show ?thesis
      using put_records [OF put, of J] json_text_back [OF J raw]
      by (simp add: OpSavePeer records_of_def records_upd)
  next
    case False
    then have "ok = False \<and> s' = s" using op by (auto simp: OpSavePeer savePeer_def storable_def split: if_splits option.splits)
    then show ?thesis by simp
  qed
next
  case (OpDeletePeer pid)
  then show ?thesis
    using op delete_records [of "DB_PREFIX_PEER @ pid" s ok s' J]
    by (cases "pid = []") (auto simp: deletePeer_def records_of_def records_upd)
next
  case (OpSaveBan pid until n)
  show ?thesis
  proof (cases "pid \<noteq> [] \<and> js_dump J (banToJson until n) \<noteq> None")
    case True
    then obtain raw where raw: "js_dump J (banToJson until n) = Some raw" by blast
    then have put: "ps_put R True (DB_PREFIX_BAN @ pid) raw s = (ok, s')"
      using True op by (simp add: OpSaveBan saveBan_def)
    then show ?thesis
      using put_records [OF put, of J] json_text_back [OF J raw]
      by (simp add: OpSaveBan records_of_def records_upd ban_json_back)
  next
    case False
    then have "ok = False \<and> s' = s" using op by (auto simp: OpSaveBan saveBan_def split: if_splits option.splits)
    then show ?thesis by simp
  qed
next
  case (OpClearBan pid)
  then show ?thesis
    using op delete_records [of "DB_PREFIX_BAN @ pid" s ok s' J]
    by (cases "pid = []") (auto simp: clearBan_def records_of_def records_upd)
next
  case (OpSaveMetrics j)
  show ?thesis
  proof (cases "js_dump J j")
    case (Some raw)
    then have put: "ps_put R False KEY_METRICS raw s = (ok, s')" using op by (simp add: OpSaveMetrics saveMetrics_def)
    then show ?thesis
      using put_records [OF put, of J] json_text_back [OF J Some]
      by (simp add: OpSaveMetrics records_of_def records_upd)
  next
    case None
    then have "ok = False \<and> s' = s" using op by (simp add: OpSaveMetrics saveMetrics_def)
    then show ?thesis by simp
  qed
qed

lemma loadPeer_exact:
  "pid \<noteq> [] \<Longrightarrow> loadPeer R J pid PersistedPeer s = (True, p) \<longleftrightarrow> fst (records_of J view s) pid = Some p"
  by (auto simp: loadPeer_def ps_get_content records_of_def peer_at_def read_db_peer_def split: option.split prod.split if_split)

lemma loadBan_exact: "pid \<noteq> [] \<Longrightarrow> loadBan R J pid s = fst (snd (records_of J view s)) pid"
  by (auto simp: loadBan_def ps_get_content records_of_def ban_at_def split: option.split)

lemma loadMetrics_exact: "loadMetrics R J out s = (True, j) \<longleftrightarrow> snd (snd (records_of J view s)) = Some j"
  by (auto simp: loadMetrics_def ps_get_content records_of_def metrics_at_def split: option.split)

lemma loadAllPeers_exact:
  assumes "js_parse J [] = None"
  shows "set (loadAllPeers R J s) = {p. \<exists>pid. fst (records_of J view s) pid = Some p}"
proof (cases s)
  case (Some d)
  have e: "read_db_peer J [] = None" using assms by (simp add: read_db_peer_def)
  have keys: "take (length DB_PREFIX_PEER) k = DB_PREFIX_PEER \<longleftrightarrow> (\<exists>pid. k = DB_PREFIX_PEER @ pid)" for k
    by (metis append_eq_conv_conj append_take_drop_id)
  have "p \<in> set (loadAllPeers R J s) \<longleftrightarrow> (\<exists>k raw. (k, raw) \<in> set (scan R DB_PREFIX_PEER d) \<and> read_db_peer J raw = Some p)" for p
    by (force simp: loadAllPeers_def Some map_filter_def image_iff)
  moreover have "(\<exists>k raw. (k, raw) \<in> set (scan R DB_PREFIX_PEER d) \<and> read_db_peer J raw = Some p) \<longleftrightarrow>
      (\<exists>pid raw. view d (DB_PREFIX_PEER @ pid) = Some raw \<and> read_db_peer J raw = Some p)" for p
    by (auto simp: scan_exact keys)
  moreover have "(\<exists>raw. view d (DB_PREFIX_PEER @ pid) = Some raw \<and> read_db_peer J raw = Some p) \<longleftrightarrow> fst (records_of J view s) pid = Some p"
    for p pid using e by (auto simp: records_of_def peer_at_def db_content_def Some split: option.splits)
  ultimately show ?thesis by auto
qed (simp add: loadAllPeers_def records_of_def peer_at_def db_content_def)

end

section \<open>Bans\<close>

definition ban_upd :: "json_lib \<Rightarrow> (string \<Rightarrow> u64 option) \<Rightarrow> string \<times> string \<Rightarrow> (string \<Rightarrow> u64 option)" where
  "ban_upd J result kv = (case ban_entry J kv of None \<Rightarrow> result | Some (pid, t) \<Rightarrow> result(pid \<mapsto> t))"

lemma fold_bans_other:
  "(\<And>kv t. kv \<in> set xs \<Longrightarrow> ban_entry J kv \<noteq> Some (pid, t)) \<Longrightarrow> foldl (ban_upd J) m xs pid = m pid"
proof (induction xs arbitrary: m)
  case (Cons x xs)
  have "ban_upd J m x pid = m pid"
    using Cons.prems [of x] by (auto simp: ban_upd_def split: option.split)
  then show ?case using Cons by simp
qed simp

lemma fold_bans_one:
  assumes "kv \<in> set xs" "ban_entry J kv = Some (pid, t)" "\<And>kv t'. kv \<in> set xs \<Longrightarrow> ban_entry J kv = Some (pid, t') \<Longrightarrow> t' = t"
  shows "foldl (ban_upd J) m xs pid = Some t"
  using assms
proof (induction xs arbitrary: m kv)
  case (Cons x xs)
  show ?case
  proof (cases "\<exists>kv' \<in> set xs. \<exists>t'. ban_entry J kv' = Some (pid, t')")
    case True
    then obtain kv' t' where k: "kv' \<in> set xs" "ban_entry J kv' = Some (pid, t')" by blast
    then have "t' = t" using Cons.prems(3) [of kv' t'] by simp
    have "foldl (ban_upd J) (ban_upd J m x) xs pid = Some t"
    proof (rule Cons.IH)
      show "kv' \<in> set xs" "ban_entry J kv' = Some (pid, t)" using k \<open>t' = t\<close> by simp_all
      show "t'' = t" if "kv'' \<in> set xs" "ban_entry J kv'' = Some (pid, t'')" for kv'' t''
        using Cons.prems(3) [of kv'' t''] that by simp
    qed
    then show ?thesis by simp
  next
    case False
    then have "kv = x" using Cons.prems(1,2) by auto
    then have "ban_upd J m x pid = Some t" using Cons.prems(2) by (simp add: ban_upd_def)
    then show ?thesis using False fold_bans_other [of xs J pid "ban_upd J m x"] by auto
  qed
qed simp

lemma loadAllBans_fold:
  "loadAllBans R J s = (case s of None \<Rightarrow> (\<lambda>k. None) | Some d \<Rightarrow> foldl (ban_upd J) (\<lambda>k. None) (scan R DB_PREFIX_BAN d))"
  by (cases s) (simp_all add: loadAllBans_def ban_upd_def [abs_def])

lemma ban_entry_key: "ban_entry J (k, raw) = Some (pid, t) \<Longrightarrow> pid = drop (length DB_PREFIX_BAN) k \<and> pid \<noteq> []"
  by (auto simp: ban_entry_def Let_def split: option.splits if_splits)

context ordered_rocks begin

lemma loadAllBans_exact:
  "loadAllBans R J s pid =
     (case db_content view s (DB_PREFIX_BAN @ pid) of
        None \<Rightarrow> None
      | Some raw \<Rightarrow> map_option snd (ban_entry J (DB_PREFIX_BAN @ pid, raw)))"
proof (cases s)
  case (Some d)
  let ?xs = "scan R DB_PREFIX_BAN d"
  have mem: "kv \<in> set ?xs \<and> ban_entry J kv = Some (pid, t) \<longleftrightarrow>
      kv = (DB_PREFIX_BAN @ pid, snd kv) \<and> view d (DB_PREFIX_BAN @ pid) = Some (snd kv) \<and> ban_entry J kv = Some (pid, t)" for kv t
  proof (cases kv)
    case (Pair k raw)
    have "take (length DB_PREFIX_BAN) k = DB_PREFIX_BAN \<and> drop (length DB_PREFIX_BAN) k = pid \<longleftrightarrow> k = DB_PREFIX_BAN @ pid"
      by (metis append_eq_conv_conj append_take_drop_id)
    then show ?thesis unfolding Pair scan_exact using ban_entry_key [of J k raw pid t] by auto
  qed
  show ?thesis
  proof (cases "\<exists>raw t. view d (DB_PREFIX_BAN @ pid) = Some raw \<and> ban_entry J (DB_PREFIX_BAN @ pid, raw) = Some (pid, t)")
    case True
    then obtain raw t where r: "view d (DB_PREFIX_BAN @ pid) = Some raw" "ban_entry J (DB_PREFIX_BAN @ pid, raw) = Some (pid, t)" by blast
    have "foldl (ban_upd J) (\<lambda>k. None) ?xs pid = Some t"
    proof (rule fold_bans_one)
      show "(DB_PREFIX_BAN @ pid, raw) \<in> set ?xs" "ban_entry J (DB_PREFIX_BAN @ pid, raw) = Some (pid, t)"
        using mem [of "(DB_PREFIX_BAN @ pid, raw)" t] r by simp_all
      fix kv t'
      assume "kv \<in> set ?xs" "ban_entry J kv = Some (pid, t')"
      then have "kv = (DB_PREFIX_BAN @ pid, raw)" using mem [of kv t'] r(1) by (metis option.inject)
      then show "t' = t" using \<open>ban_entry J kv = Some (pid, t')\<close> r(2) by simp
    qed
    then show ?thesis using r by (simp add: loadAllBans_fold Some db_content_def)
  next
    case False
    have "foldl (ban_upd J) (\<lambda>k. None) ?xs pid = None"
    proof (subst fold_bans_other)
      show "ban_entry J kv \<noteq> Some (pid, t)" if "kv \<in> set ?xs" for kv t
        using mem [of kv t] that False by metis
    qed simp
    moreover have "ban_entry J (DB_PREFIX_BAN @ pid, raw) = None" if "view d (DB_PREFIX_BAN @ pid) = Some raw" for raw
    proof (rule ccontr)
      assume "ban_entry J (DB_PREFIX_BAN @ pid, raw) \<noteq> None"
      then obtain q t where "ban_entry J (DB_PREFIX_BAN @ pid, raw) = Some (q, t)" by auto
      then show False using False that ban_entry_key [of J "DB_PREFIX_BAN @ pid" raw q t] by auto
    qed
    ultimately show ?thesis by (simp add: loadAllBans_fold Some db_content_def split: option.split)
  qed
qed (simp add: loadAllBans_fold db_content_def)

lemma loadAllBans_ban:
  assumes "pid \<noteq> []" "loadBan R J pid s = Some (t, n)"
  shows "loadAllBans R J s pid = Some t"
proof -
  obtain raw j where r: "db_content view s (DB_PREFIX_BAN @ pid) = Some raw" "js_parse J raw = Some j" "read_ban j = Some (t, n)"
    using assms by (auto simp: loadBan_def ps_get_content split: option.splits)
  obtain u where "jget ''bannedUntil'' j = Some u" "is_number_unsigned u" "get_u64 u = Some t"
    using r(3) by (auto simp: read_ban_def split: option.splits if_splits)
  moreover from this have "is_number u" by (cases u) simp_all
  ultimately show ?thesis using r assms(1) by (simp add: loadAllBans_exact ban_entry_def Let_def)
qed

end

section \<open>Properties\<close>

text \<open>C12: The peer store implements three maps: from identifiers to peers, from identifiers to bans, and the
  metrics. An operation that reports success changes exactly its entry, a saved peer to the record with
  the current schema version; one that reports failure changes nothing.
\<close>

theorem peer_db_refines:
  assumes "ordered_rocks R view" and "json_law (js_dump J) (js_parse J)" and "run_peer_op R J a s = (ok, s')"
  shows "records_of J view s' = (if ok then peer_op_spec a (records_of J view s) else records_of J view s)"
  using assms by (rule ordered_rocks.op_refines)

text \<open>
  Every read answers what the three maps hold: the peer, the ban and the metrics of its key, and the
  full scan answers exactly the peers filed under any identifier.
\<close>

theorem peer_db_reads:
  assumes "ordered_rocks R view" and "js_parse J [] = None" and "pid \<noteq> []"
  shows "(loadPeer R J pid PersistedPeer s = (True, p) \<longleftrightarrow> fst (records_of J view s) pid = Some p) \<and>
    loadBan R J pid s = fst (snd (records_of J view s)) pid \<and>
    (loadMetrics R J out s = (True, j) \<longleftrightarrow> snd (snd (records_of J view s)) = Some j) \<and>
    set (loadAllPeers R J s) = {p. \<exists>q. fst (records_of J view s) q = Some p}"
  using ordered_rocks.loadPeer_exact [OF assms(1,3)] ordered_rocks.loadBan_exact [OF assms(1,3)]
    ordered_rocks.loadMetrics_exact [OF assms(1)] ordered_rocks.loadAllPeers_exact [OF assms(1,2)] by simp

text \<open>C24: What was saved is loaded: after \<^verbatim>\<open>savePeer\<close> reports success, \<^verbatim>\<open>loadPeer\<close> of its identifier
  answers the peer, with the current schema version, whatever the output parameter held before.
\<close>

theorem peer_db_roundtrip:
  assumes "ordered_rocks R view" and "json_law (js_dump J) (js_parse J)" and "savePeer R J p s = (True, s')"
  shows "loadPeer R J (pp_id p) out s' = (True, p\<lparr>pp_schemaVersion := PEER_SCHEMA_VERSION\<rparr>)"
proof -
  obtain raw where raw: "js_dump J (peerToJson p) = Some raw" "storable p"
    and put: "ps_put R True (DB_PREFIX_PEER @ pp_id p) raw s = (True, s')"
    using assms(3) by (auto simp: savePeer_def storable_def split: if_splits option.splits)
  have "ps_get R (DB_PREFIX_PEER @ pp_id p) s' = Some raw"
    using ordered_rocks.ps_get_content [OF assms(1)] ordered_rocks.ps_put_content [OF assms(1) put] by simp
  then show ?thesis
    using json_text_back [OF assms(2) raw(1)] raw(2) peer_json_back [OF raw(2)]
    by (simp add: loadPeer_def storable_def saved_form_def)
qed

text \<open>
  The two ways to read bans disagree. Every ban that \<^verbatim>\<open>loadBan\<close> accepts is among
  \<^verbatim>\<open>loadAllBans\<close> with the same end, but a record of a newer schema is refused by the one and answered by the
  other.
\<close>

theorem bans_disagree:
  assumes "ordered_rocks R view" and "pid \<noteq> []"
  shows "(case loadBan R J pid s of None \<Rightarrow> True | Some (t, n) \<Rightarrow> loadAllBans R J s pid = Some t) \<and>
    (db_content view s (DB_PREFIX_BAN @ pid) = Some raw \<longrightarrow>
     js_parse J raw = Some (JObject [(''schemaVersion'', JUnsigned 2), (''bannedUntil'', JUnsigned t), (''banCount'', JUnsigned 1)]) \<longrightarrow>
     loadBan R J pid s = None \<and> loadAllBans R J s pid = Some t)"
proof -
  have "loadBan R J pid s = None \<and> loadAllBans R J s pid = Some t"
    if "db_content view s (DB_PREFIX_BAN @ pid) = Some raw"
      "js_parse J raw = Some (JObject [(''schemaVersion'', JUnsigned 2), (''bannedUntil'', JUnsigned t), (''banCount'', JUnsigned 1)])"
    using that assms(2)
    by (simp add: loadBan_def ordered_rocks.ps_get_content [OF assms(1)] read_ban_def BAN_SCHEMA_VERSION_def
        ordered_rocks.loadAllBans_exact [OF assms(1)] ban_entry_def Let_def)
  then show ?thesis
    using ordered_rocks.loadAllBans_ban [OF assms] by (auto split: option.split)
qed

section \<open>Witnesses\<close>

text \<open>A database that is a list of entries.\<close>

definition list_rocks :: "((string \<times> string) list) rocksdb" where
  "list_rocks =
     \<lparr>rdb_open = (\<lambda>path. (SOk, [])),
      rdb_put = (\<lambda>d sync k v. (SOk, AList.update k v d)),
      rdb_get = (\<lambda>d k x. case map_of d k of None \<Rightarrow> (SNotFound, x) | Some v \<Rightarrow> (SOk, v)),
      rdb_delete = (\<lambda>d sync k. (SOk, AList.delete k d)),
      rdb_write = (\<lambda>d sync ops. (SOk, foldl (\<lambda>d b. case b of BPut k v \<Rightarrow> AList.update k v d | BDelete k \<Rightarrow> AList.delete k d) d ops)),
      rdb_from = (\<lambda>d k. (map (\<lambda>x. (x, the (map_of d x))) (sort (filter (\<lambda>x. k \<le> x) (remdups (map fst d)))), SOk))\<rparr>"

lemma list_batch:
  "map_of (foldl (\<lambda>d b. case b of BPut k v \<Rightarrow> AList.update k v d | BDelete k \<Rightarrow> AList.delete k d) d ops) = batch_apply ops (map_of d)"
proof (induction ops arbitrary: d)
  case (Cons b ops)
  then show ?case by (cases b) (simp_all add: AList.update_conv' AList.delete_conv' fun_upd_def)
qed simp

interpretation listed: ordered_rocks list_rocks map_of
proof unfold_locales
  fix d :: "(string \<times> string) list" and k :: string
  show "set (fst (rdb_from list_rocks d k)) = {(x, v). map_of d x = Some v \<and> k \<le> x}"
    by (auto simp: list_rocks_def image_iff map_of_eq_None_iff [symmetric] dest: weak_map_of_SomeI)
       (metis map_of_SomeD fst_conv)
qed (auto simp: list_rocks_def comp_def list_batch AList.update_conv' AList.delete_conv' split: option.splits)

text \<open>A JSON library that knows the text of one value.\<close>

definition one_text :: "json \<Rightarrow> json_lib" where
  "one_text j =
     \<lparr>js_dump = (\<lambda>x. if x = j then Some ''x'' else None), js_parse = (\<lambda>t. if t = ''x'' then Some (parsed j) else None)\<rparr>"

lemma one_text_law: "json_law (js_dump (one_text j)) (js_parse (one_text j))" "js_parse (one_text j) [] = None"
  by (simp_all add: json_law_def one_text_def)

definition a_peer :: persisted_peer where
  "a_peer = PersistedPeer\<lparr>pp_id := ''p'', pp_host := ''h'', pp_port := 80, pp_tags := [''t'']\<rparr>"

lemma a_peer_saved: "savePeer list_rocks (one_text (peerToJson a_peer)) a_peer (Some []) = (True, Some [(''peer:p'', ''x'')])"
  by (simp add: savePeer_def a_peer_def PersistedPeer_def valid_port_def one_text_def ps_put_def list_rocks_def DB_PREFIX_PEER_def)

theorem peer_db_refines_witness:
  "fst (records_of (one_text (peerToJson a_peer)) map_of (Some [(''peer:p'', ''x'')])) ''p'' = Some (saved_form a_peer)"
  using peer_db_refines [OF listed.ordered_rocks_axioms one_text_law(1), of "peerToJson a_peer" "OpSavePeer a_peer" "Some []" True
      "Some [(''peer:p'', ''x'')]"] a_peer_saved
  by (simp add: records_of_def) (simp add: a_peer_def)

theorem peer_db_reads_witness:
  "set (loadAllPeers list_rocks (one_text (peerToJson a_peer)) (Some [(''peer:p'', ''x'')])) =
     {p. \<exists>q. fst (records_of (one_text (peerToJson a_peer)) map_of (Some [(''peer:p'', ''x'')])) q = Some p}"
  using peer_db_reads [OF listed.ordered_rocks_axioms one_text_law(2), of "''p''" "peerToJson a_peer" "Some [(''peer:p'', ''x'')]" a_peer
      JNull JNull] by simp

theorem peer_db_roundtrip_witness:
  "loadPeer list_rocks (one_text (peerToJson a_peer)) ''p'' PersistedPeer (Some [(''peer:p'', ''x'')]) = (True, a_peer)"
  using peer_db_roundtrip [OF listed.ordered_rocks_axioms one_text_law(1) a_peer_saved, of PersistedPeer]
  by (simp add: a_peer_def PersistedPeer_def)

definition newer_ban :: json where
  "newer_ban = JObject [(''schemaVersion'', JUnsigned 2), (''bannedUntil'', JUnsigned 9), (''banCount'', JUnsigned 1)]"

theorem bans_disagree_witness:
  "loadBan list_rocks (one_text newer_ban) ''p'' (Some [(''ban:p'', ''x'')]) = None \<and>
    loadAllBans list_rocks (one_text newer_ban) (Some [(''ban:p'', ''x'')]) ''p'' = Some 9"
  using bans_disagree [OF listed.ordered_rocks_axioms, of "''p''" "one_text newer_ban" "Some [(''ban:p'', ''x'')]" "''x''" 9]
  by (simp add: db_content_def DB_PREFIX_BAN_def one_text_def newer_ban_def)

end
