(* ===== verification/NetManager.thy ===== *)
theory NetManager
  imports PeerDb "HOL-Library.Product_Lexorder"
begin

text \<open>
  The network manager, \<^verbatim>\<open>src/src/net/net_manager.cpp\<close>: the peer registry, rate limits, bans,
  the handshake, dispatch of messages, reconnects, eviction, broadcasts. The clock of an operation is a
  pair of seconds and milliseconds; the text of JSON values is a parameter. An operation ends, blocks on the
  registry's lock that its own thread holds, terminates the program by an exception that leaves a
  \<^verbatim>\<open>noexcept\<close> function, or throws. Operations do not overlap. The list of peers stands for the hash
  table in the order of its iteration; a C++ \<^verbatim>\<open>int\<close> that is counted is an integer, a \<^verbatim>\<open>double\<close> a rational
  number. Threads, sleeping and log output are not modelled.
\<close>

section \<open>Constants\<close>

definition PROTOCOL_VERSION :: int where "PROTOCOL_VERSION = 1"
definition MIN_PROTOCOL_VERSION :: int where "MIN_PROTOCOL_VERSION = 1"
definition MAX_MESSAGE_BYTES :: nat where "MAX_MESSAGE_BYTES = 32 * 1024 * 1024"
definition NM_MAX_PEERS :: nat where "NM_MAX_PEERS = 1000"
definition MAX_PEERS_PER_IP :: int where "MAX_PEERS_PER_IP = 5"
definition MAX_RETRY_ATTEMPTS :: int where "MAX_RETRY_ATTEMPTS = 5"
definition INITIAL_RETRY_DELAY_MS :: int where "INITIAL_RETRY_DELAY_MS = 1000"
definition MAX_RETRY_DELAY_MS :: int where "MAX_RETRY_DELAY_MS = 60000"
definition MAX_MESSAGES_PER_SEC :: u64 where "MAX_MESSAGES_PER_SEC = 100"
definition MAX_BYTES_PER_SEC :: u64 where "MAX_BYTES_PER_SEC = 10 * 1024 * 1024"
definition BAN_DURATION_SECS :: u64 where "BAN_DURATION_SECS = 3600"
definition MAX_BAN_SECS :: u64 where "MAX_BAN_SECS = 86400"
definition BROADCAST_THREADS :: nat where "BROADCAST_THREADS = 8"

definition MSG_HELLO :: u8 where "MSG_HELLO = 0"
definition MSG_DISCONNECT :: u8 where "MSG_DISCONNECT = 1"
definition MSG_PING :: u8 where "MSG_PING = 2"
definition MSG_PONG :: u8 where "MSG_PONG = 3"
definition MSG_GET_PEERS :: u8 where "MSG_GET_PEERS = 4"
definition MSG_PEERS :: u8 where "MSG_PEERS = 5"
definition MSG_NEW_BLOCK :: u8 where "MSG_NEW_BLOCK = 6"
definition MSG_BLOCKS :: u8 where "MSG_BLOCKS = 8"
definition MSG_NEW_TX :: u8 where "MSG_NEW_TX = 9"
definition MSG_TXS :: u8 where "MSG_TXS = 11"
definition MSG_STATUS :: u8 where "MSG_STATUS = 12"
definition MSG_RECEIPTS :: u8 where "MSG_RECEIPTS = 14"

lemmas msg_codes =
  MSG_HELLO_def MSG_DISCONNECT_def MSG_PING_def MSG_PONG_def MSG_GET_PEERS_def MSG_PEERS_def MSG_NEW_BLOCK_def
  MSG_BLOCKS_def MSG_NEW_TX_def MSG_TXS_def MSG_STATUS_def MSG_RECEIPTS_def

section \<open>Data\<close>

record nm_peer =
  np_id :: string
  np_host :: string
  np_port :: u32
  np_trusted :: bool
  np_priority :: u32
  np_region :: string
  np_tags :: "string list"
  np_connected :: bool
  np_banned :: bool
  np_banCount :: int
  np_bannedUntil :: u64
  np_connectedAt :: u64
  np_lastSeen :: u64
  np_lastPing :: u64
  np_lastPong :: u64
  np_retryCount :: int
  np_retryDelayMs :: int
  np_nextRetryAt :: u64
  np_latencyMs :: rat
  np_bytesReceived :: u64
  np_bytesSent :: u64
  np_blocksRelayed :: u64
  np_txsRelayed :: u64
  np_violations :: nat
  np_score :: rat
  np_msgThisSecond :: u64
  np_bytesThisSec :: u64
  np_ratePeriodStart :: u64

definition PeerState :: nm_peer where
  "PeerState =
     \<lparr>np_id = [], np_host = [], np_port = 30303, np_trusted = False, np_priority = 2, np_region = [], np_tags = [],
      np_connected = False, np_banned = False, np_banCount = 0, np_bannedUntil = 0, np_connectedAt = 0, np_lastSeen = 0,
      np_lastPing = 0, np_lastPong = 0, np_retryCount = 0, np_retryDelayMs = INITIAL_RETRY_DELAY_MS, np_nextRetryAt = 0,
      np_latencyMs = 0, np_bytesReceived = 0, np_bytesSent = 0, np_blocksRelayed = 0, np_txsRelayed = 0, np_violations = 0,
      np_score = 1, np_msgThisSecond = 0, np_bytesThisSec = 0, np_ratePeriodStart = 0\<rparr>"

definition isBootstrap :: "nm_peer \<Rightarrow> bool" where
  "isBootstrap p \<longleftrightarrow> list_ex (\<lambda>t. t = ''bootstrap'') (np_tags p)"

definition isValidator :: "nm_peer \<Rightarrow> bool" where
  "isValidator p \<longleftrightarrow> list_ex (\<lambda>t. t = ''validator'') (np_tags p)"

definition computeScore :: "nm_peer \<Rightarrow> rat" where
  "computeScore p =
     (let uptime = (if np_connectedAt p > 0 then min 1 (of_nat (unat (np_lastSeen p - np_connectedAt p)) / 86400) else 0);
          latScore = (if np_latencyMs p > 0 then max 0 (1 - np_latencyMs p / 500) else 1 / 2);
          bwScore = (if np_bytesSent p > 0 then min 1 (of_nat (unat (np_bytesSent p)) / (100 * 1024 * 1024)) else 0);
          relayScore = (if np_blocksRelayed p > 0 then min 1 (of_nat (unat (np_blocksRelayed p)) / 1000) else 0)
      in 3 / 10 * uptime + 3 / 10 * latScore + 2 / 10 * bwScore + 2 / 10 * relayScore)"

datatype nm_counter =
    NmMsgReceived | NmMsgSent | NmBytesReceived | NmBytesSent | NmConnections | NmDisconnections | NmBanned | NmRateLimited
  | NmHandshakeFailed | NmBroadcastSent | NmBroadcastFailed

text \<open>The calls of the three handlers.\<close>

datatype nm_event = EvMessage json | EvConnect string | EvDisconnect string

record net_manager =
  nm_listenAddr :: string
  nm_chainId :: u32
  nm_running :: bool
  nm_peers :: "(string \<times> nm_peer) list"
  nm_ipCount :: "string \<Rightarrow> int option"
  nm_bannedIps :: "string list"
  nm_counts :: "nm_counter \<Rightarrow> nat"
  nm_events :: "nm_event list"
  nm_queue :: "(string \<times> string) list"   \<comment> \<open>the broadcast pool's jobs\<close>
  nm_poolStopped :: bool
  nm_workers :: nat   \<comment> \<open>the pool's threads that run\<close>

definition NetworkManager :: "string \<Rightarrow> net_manager" where
  "NetworkManager listenAddr =
     \<lparr>nm_listenAddr = listenAddr, nm_chainId = 1337, nm_running = False, nm_peers = [], nm_ipCount = (\<lambda>h. None), nm_bannedIps = [],
      nm_counts = (\<lambda>c. 0), nm_events = [], nm_queue = [], nm_poolStopped = False, nm_workers = 0\<rparr>"

datatype 'a outcome = Done 'a | Blocked | Terminated | Throws cxx_exn

fun bind_outcome :: "'a outcome \<Rightarrow> ('a \<Rightarrow> 'b outcome) \<Rightarrow> 'b outcome" where
  "bind_outcome (Done x) f = f x"
| "bind_outcome Blocked f = Blocked"
| "bind_outcome Terminated f = Terminated"
| "bind_outcome (Throws e) f = Throws e"

type_synonym clock = "u64 \<times> u64"   \<comment> \<open>seconds, milliseconds\<close>

section \<open>Helpers\<close>

definition find_peer :: "string \<Rightarrow> net_manager \<Rightarrow> nm_peer option" where
  "find_peer pid s = map_of (nm_peers s) pid"

definition upd_peer :: "string \<Rightarrow> (nm_peer \<Rightarrow> nm_peer) \<Rightarrow> net_manager \<Rightarrow> net_manager" where
  "upd_peer pid f s = s\<lparr>nm_peers := map (\<lambda>(k, p). (k, if k = pid then f p else p)) (nm_peers s)\<rparr>"

definition nm_add :: "nm_counter \<Rightarrow> nat \<Rightarrow> net_manager \<Rightarrow> net_manager" where
  "nm_add c n s = s\<lparr>nm_counts := (nm_counts s)(c := nm_counts s c + n)\<rparr>"

definition nm_event :: "nm_event \<Rightarrow> net_manager \<Rightarrow> net_manager" where
  "nm_event e s = s\<lparr>nm_events := nm_events s @ [e]\<rparr>"

text \<open>The count is compared as an unsigned number.\<close>

definition ip_full :: "net_manager \<Rightarrow> string \<Rightarrow> bool" where
  "ip_full s host \<longleftrightarrow> (case nm_ipCount s host of None \<Rightarrow> False | Some n \<Rightarrow> n < 0 \<or> n \<ge> MAX_PEERS_PER_IP)"

section \<open>Bans and rate limits\<close>

text \<open>\<open>held\<close>: the caller's thread holds the registry's lock.\<close>

definition ban_duration :: "int \<Rightarrow> u64" where
  "ban_duration banCount = min (BAN_DURATION_SECS * word_of_int banCount) MAX_BAN_SECS"

definition nm_banPeer :: "bool \<Rightarrow> clock \<Rightarrow> string \<Rightarrow> net_manager \<Rightarrow> net_manager outcome" where
  "nm_banPeer held clk pid s =
     (if held then Blocked
      else
        case find_peer pid s of
          None \<Rightarrow> Done s
        | Some p \<Rightarrow>
            if np_trusted p then Done s
            else
              Done (nm_add NmBanned 1 (upd_peer pid (\<lambda>p. p\<lparr>np_banCount := np_banCount p + 1, np_banned := True,
                np_bannedUntil := fst clk + ban_duration (np_banCount p + 1), np_connected := False\<rparr>) s)))"

definition new_period :: "clock \<Rightarrow> nm_peer \<Rightarrow> nm_peer" where
  "new_period clk p =
     (if fst clk \<noteq> np_ratePeriodStart p then p\<lparr>np_ratePeriodStart := fst clk, np_msgThisSecond := 0, np_bytesThisSec := 0\<rparr> else p)"

definition over_limit :: "u64 \<Rightarrow> nm_peer \<Rightarrow> bool" where
  "over_limit msgBytes p \<longleftrightarrow>
     np_msgThisSecond p \<ge> (if np_trusted p then MAX_MESSAGES_PER_SEC * 2 else MAX_MESSAGES_PER_SEC) \<or>
     np_bytesThisSec p + msgBytes > (if np_trusted p then MAX_BYTES_PER_SEC * 2 else MAX_BYTES_PER_SEC)"

text \<open>Called with the lock held, for a peer of the registry.\<close>

definition checkRateLimit :: "clock \<Rightarrow> u64 \<Rightarrow> string \<Rightarrow> net_manager \<Rightarrow> (bool \<times> net_manager) outcome" where
  "checkRateLimit clk msgBytes pid s =
     (case find_peer pid s of
        None \<Rightarrow> Done (False, s)
      | Some p \<Rightarrow>
          let p = new_period clk p; s = upd_peer pid (\<lambda>_. p) s
          in if over_limit msgBytes p then
               let p = p\<lparr>np_violations := np_violations p + 1\<rparr>; s = nm_add NmRateLimited 1 (upd_peer pid (\<lambda>_. p) s)
               in if np_violations p \<ge> 10 \<and> \<not> np_trusted p then bind_outcome (nm_banPeer True clk pid s) (\<lambda>s. Done (False, s))
                  else Done (False, s)
             else
               Done (True, upd_peer pid (\<lambda>_. p\<lparr>np_msgThisSecond := np_msgThisSecond p + 1, np_bytesThisSec := np_bytesThisSec p + msgBytes\<rparr>) s))"

section \<open>Sending and reconnects\<close>

text \<open>Nothing is sent: the counters change and the call succeeds.\<close>

definition sendToPeer :: "string \<Rightarrow> string \<Rightarrow> net_manager \<Rightarrow> bool \<times> net_manager" where
  "sendToPeer pid msg s =
     (True, upd_peer pid (\<lambda>p. p\<lparr>np_bytesSent := np_bytesSent p + word_of_nat (length msg)\<rparr>)
        (nm_add NmBytesSent (length msg) (nm_add NmMsgSent 1 s)))"

definition scheduleReconnect :: "bool \<Rightarrow> clock \<Rightarrow> string \<Rightarrow> net_manager \<Rightarrow> net_manager outcome" where
  "scheduleReconnect held clk pid s =
     (if held then Blocked
      else
        case find_peer pid s of
          None \<Rightarrow> Done s
        | Some p \<Rightarrow>
            if np_retryCount p \<ge> MAX_RETRY_ATTEMPTS then
              Done (upd_peer pid (\<lambda>p. p\<lparr>np_retryCount := 0, np_retryDelayMs := INITIAL_RETRY_DELAY_MS\<rparr>) s)
            else
              Done (upd_peer pid (\<lambda>p. p\<lparr>np_nextRetryAt := fst clk + word_of_int (np_retryDelayMs p div 1000),
                np_retryDelayMs := min (np_retryDelayMs p * 2) MAX_RETRY_DELAY_MS, np_retryCount := np_retryCount p + 1\<rparr>) s))"

definition disconnectPeer :: "clock \<Rightarrow> string \<Rightarrow> net_manager \<Rightarrow> net_manager outcome" where
  "disconnectPeer clk pid s =
     (case find_peer pid s of
        None \<Rightarrow> Done s
      | Some p \<Rightarrow>
          if \<not> np_connected p then Done s
          else
            let s = nm_event (EvDisconnect pid) (nm_add NmDisconnections 1 (upd_peer pid (\<lambda>p. p\<lparr>np_connected := False\<rparr>) s))
            in if np_trusted p then scheduleReconnect False clk pid s else Done s)"

section \<open>The handshake\<close>

definition handshake_failed :: "net_manager \<Rightarrow> (bool \<times> net_manager) outcome" where
  "handshake_failed s = Done (False, nm_add NmHandshakeFailed 1 s)"

definition performHandshake :: "clock \<Rightarrow> string \<Rightarrow> json \<Rightarrow> net_manager \<Rightarrow> (bool \<times> net_manager) outcome" where
  "performHandshake clk pid hello s =
     (case (jget ''chainId'' hello, jget ''protocolVersion'' hello, jget ''network'' hello) of
        (Some c, Some v, Some n) \<Rightarrow>
          (case (get_u32 c, get_u32 v, get_string n) of
             (Some peerChainId, Some peerProto, Some peerNet) \<Rightarrow>
               if peerChainId \<noteq> nm_chainId s then
                 bind_outcome (nm_banPeer False clk pid (nm_add NmHandshakeFailed 1 s)) (\<lambda>s. Done (False, s))
               else if sint peerProto < MIN_PROTOCOL_VERSION \<or> sint peerProto > PROTOCOL_VERSION then handshake_failed s
               else if peerNet \<noteq> ''mainnet'' then handshake_failed s
               else Done (True, s)
           | _ \<Rightarrow> handshake_failed s)
      | _ \<Rightarrow> handshake_failed s)"

section \<open>Messages\<close>

fun get_u8 :: "json \<Rightarrow> u8 option" where
  "get_u8 (JUnsigned n) = Some (ucast n)"
| "get_u8 (JInteger n) = Some (ucast n)"
| "get_u8 (JFloat q) = Some (word_of_int (cut q))"
| "get_u8 (JBool b) = Some (if b then 1 else 0)"
| "get_u8 j = None"

definition peer_entry :: "nm_peer \<Rightarrow> json" where
  "peer_entry p = JObject
     [(''id'', JString (np_id p)), (''host'', JString (np_host p)), (''port'', json_of_int (np_port p)),
      (''region'', JString (np_region p))]"

text \<open>The limit is tested after a peer has been listed.\<close>

definition getPeerList :: "nat \<Rightarrow> net_manager \<Rightarrow> json" where
  "getPeerList maxCount s = JArray (map peer_entry (take (max 1 maxCount) (filter np_connected (map snd (nm_peers s)))))"

text \<open>A message of the given type, printed and sent; an exception of the printing leaves a \<^verbatim>\<open>noexcept\<close> function.\<close>

definition reply :: "json_lib \<Rightarrow> string \<Rightarrow> json \<Rightarrow> net_manager \<Rightarrow> net_manager outcome" where
  "reply J pid j s = (case js_dump J j of None \<Rightarrow> Terminated | Some msg \<Rightarrow> Done (snd (sendToPeer pid msg s)))"

definition pong :: "clock \<Rightarrow> nm_peer \<Rightarrow> nm_peer" where
  "pong clk p =
     (let p = p\<lparr>np_lastPong := snd clk\<rparr>;
          p = (if np_lastPing p > 0 then p\<lparr>np_latencyMs := of_nat (unat (np_lastPong p - np_lastPing p))\<rparr> else p)
      in p\<lparr>np_score := computeScore p\<rparr>)"

definition relayed :: "u8 \<Rightarrow> nm_peer \<Rightarrow> nm_peer" where
  "relayed t p =
     (if t = MSG_NEW_BLOCK \<or> t = MSG_BLOCKS then p\<lparr>np_blocksRelayed := np_blocksRelayed p + 1\<rparr>
      else if t = MSG_NEW_TX \<or> t = MSG_TXS then p\<lparr>np_txsRelayed := np_txsRelayed p + 1\<rparr> else p)"

definition dispatch :: "json_lib \<Rightarrow> clock \<Rightarrow> string \<Rightarrow> json \<Rightarrow> u8 \<Rightarrow> net_manager \<Rightarrow> net_manager outcome" where
  "dispatch J clk pid msg t s =
     (if t = MSG_HELLO then
        bind_outcome (performHandshake clk pid msg s) (\<lambda>(ok, s). if \<not> ok then disconnectPeer clk pid s else Done s)
      else if t = MSG_PING then
        reply J pid (JObject [(''type'', JUnsigned (ucast MSG_PONG)), (''timestamp'', JUnsigned (snd clk))]) s
      else if t = MSG_PONG then Done (upd_peer pid (pong clk) s)
      else if t = MSG_GET_PEERS then
        reply J pid (JObject [(''type'', JUnsigned (ucast MSG_PEERS)), (''peers'', getPeerList 10 s)]) s
      else if t \<in> {MSG_NEW_BLOCK, MSG_NEW_TX, MSG_BLOCKS, MSG_TXS, MSG_STATUS, MSG_RECEIPTS} then
        Done (nm_event (EvMessage msg) (upd_peer pid (relayed t) s))
      else if t = MSG_DISCONNECT then disconnectPeer clk pid s
      else Done s)"

definition processMessage :: "json_lib \<Rightarrow> clock \<Rightarrow> string \<Rightarrow> string \<Rightarrow> net_manager \<Rightarrow> net_manager outcome" where
  "processMessage J clk pid raw s =
     (let s = nm_add NmBytesReceived (length raw) (nm_add NmMsgReceived 1 s)
      in case find_peer pid s of
           None \<Rightarrow> Done s
         | Some p \<Rightarrow>
             bind_outcome (checkRateLimit clk (word_of_nat (length raw)) pid s) (\<lambda>(ok, s).
               if \<not> ok then Done s
               else
                 let s = upd_peer pid (\<lambda>p. p\<lparr>np_lastSeen := fst clk, np_bytesReceived := np_bytesReceived p + word_of_nat (length raw)\<rparr>) s
                 in if length raw > MAX_MESSAGE_BYTES then nm_banPeer False clk pid s
                    else
                      case js_parse J raw of
                        None \<Rightarrow> Done (upd_peer pid (\<lambda>p. p\<lparr>np_violations := np_violations p + 1\<rparr>) s)
                      | Some msg \<Rightarrow>
                          (case jget ''type'' msg of
                             None \<Rightarrow> Done s
                           | Some v \<Rightarrow> (case get_u8 v of None \<Rightarrow> Done s | Some t \<Rightarrow> dispatch J clk pid msg t s))))"

section \<open>Maintenance\<close>

text \<open>The ranked peers: connected and not trusted, by score and identifier.\<close>

definition eviction_rank :: "net_manager \<Rightarrow> (rat \<times> string) list" where
  "eviction_rank s =
     sort (map (\<lambda>(k, p). (np_score p, k)) (filter (\<lambda>(k, p). np_connected p \<and> \<not> np_trusted p) (nm_peers s)))"

definition evictPeers :: "net_manager \<Rightarrow> net_manager" where
  "evictPeers s =
     (if length (nm_peers s) \<le> NM_MAX_PEERS then s
      else
        foldl (\<lambda>s (score, k). nm_add NmDisconnections 1 (upd_peer k (\<lambda>p. p\<lparr>np_connected := False\<rparr>) s)) s
          (take (length (nm_peers s) - NM_MAX_PEERS) (eviction_rank s)))"

definition unbanExpired :: "clock \<Rightarrow> net_manager \<Rightarrow> net_manager" where
  "unbanExpired clk s =
     s\<lparr>nm_peers := map (\<lambda>(k, p). (k, if np_banned p \<and> np_bannedUntil p \<le> fst clk then p\<lparr>np_banned := False, np_bannedUntil := 0\<rparr> else p))
       (nm_peers s)\<rparr>"

text \<open>An idle peer is pinged like the others.\<close>

fun ping_each :: "json_lib \<Rightarrow> clock \<Rightarrow> string list \<Rightarrow> net_manager \<Rightarrow> net_manager outcome" where
  "ping_each J clk [] s = Done s"
| "ping_each J clk (k # ks) s =
     bind_outcome
       (reply J k (JObject [(''type'', JUnsigned (ucast MSG_PING)), (''timestamp'', JUnsigned (snd clk))])
         (upd_peer k (\<lambda>p. p\<lparr>np_lastPing := snd clk\<rparr>) s))
       (ping_each J clk ks)"

definition pingAllPeers :: "json_lib \<Rightarrow> clock \<Rightarrow> net_manager \<Rightarrow> net_manager outcome" where
  "pingAllPeers J clk s = ping_each J clk (map fst (filter (\<lambda>(k, p). np_connected p) (nm_peers s))) s"

definition hello_message :: "clock \<Rightarrow> net_manager \<Rightarrow> json" where
  "hello_message clk s = JObject
     [(''type'', JUnsigned (ucast MSG_HELLO)), (''chainId'', json_of_int (nm_chainId s)),
      (''protocolVersion'', json_of_int (word_of_int PROTOCOL_VERSION)), (''network'', JString ''mainnet''),
      (''version'', JString ''1.0.0''), (''timestamp'', JUnsigned (snd clk))]"

definition connectToPeer :: "json_lib \<Rightarrow> clock \<Rightarrow> string \<Rightarrow> net_manager \<Rightarrow> net_manager outcome" where
  "connectToPeer J clk pid s =
     (case find_peer pid s of
        None \<Rightarrow> Done s
      | Some p \<Rightarrow>
          if np_banned p then Done s
          else if np_connected p then Done s
          else if ip_full s (np_host p) then Done s
          else
            case js_dump J (hello_message clk s) of
              None \<Rightarrow> Terminated
            | Some hello \<Rightarrow>
                let (ok, s) = sendToPeer pid hello s
                in if ok then
                     let s = upd_peer pid (\<lambda>p. p\<lparr>np_connected := True, np_connectedAt := fst clk, np_lastSeen := fst clk,
                           np_retryCount := 0, np_retryDelayMs := INITIAL_RETRY_DELAY_MS\<rparr>) s;
                         s = s\<lparr>nm_ipCount := (nm_ipCount s)(np_host p := Some (case nm_ipCount s (np_host p) of None \<Rightarrow> 1 | Some n \<Rightarrow> n + 1))\<rparr>
                     in Done (nm_event (EvConnect pid) (nm_add NmConnections 1 s))
                   else scheduleReconnect True clk pid s)"

fun connect_each :: "json_lib \<Rightarrow> clock \<Rightarrow> string list \<Rightarrow> net_manager \<Rightarrow> net_manager outcome" where
  "connect_each J clk [] s = Done s"
| "connect_each J clk (k # ks) s = bind_outcome (connectToPeer J clk k s) (connect_each J clk ks)"

definition retryDisconnected :: "json_lib \<Rightarrow> clock \<Rightarrow> net_manager \<Rightarrow> net_manager outcome" where
  "retryDisconnected J clk s =
     connect_each J clk
       (map fst (filter (\<lambda>(k, p). \<not> np_connected p \<and> \<not> np_banned p \<and> \<not> (np_retryCount p \<ge> MAX_RETRY_ATTEMPTS) \<and> \<not> np_nextRetryAt p > fst clk)
         (nm_peers s))) s"

section \<open>The interface\<close>

definition nm_addPeer ::
    "string \<Rightarrow> string \<Rightarrow> u32 \<Rightarrow> bool \<Rightarrow> u32 \<Rightarrow> string \<Rightarrow> string list \<Rightarrow> net_manager \<Rightarrow> net_manager" where
  "nm_addPeer pid host port trusted priority region tags s =
     (if \<not> trusted \<and> host \<in> set (nm_bannedIps s) then s
      else if \<not> trusted \<and> ip_full s host then s
      else if length (nm_peers s) \<ge> NM_MAX_PEERS \<and> \<not> trusted then s
      else if find_peer pid s \<noteq> None then s
      else s\<lparr>nm_peers := nm_peers s @ [(pid, PeerState\<lparr>np_id := pid, np_host := host, np_port := port, np_trusted := trusted,
             np_priority := priority, np_region := region, np_tags := tags\<rparr>)]\<rparr>)"

definition nm_removePeer :: "string \<Rightarrow> net_manager \<Rightarrow> net_manager" where
  "nm_removePeer pid s =
     (case find_peer pid s of
        None \<Rightarrow> s
      | Some p \<Rightarrow>
          let s = (if np_connected p
                   then s\<lparr>nm_ipCount := (nm_ipCount s)(np_host p := Some (case nm_ipCount s (np_host p) of None \<Rightarrow> - 1 | Some n \<Rightarrow> n - 1))\<rparr>
                   else s)
          in s\<lparr>nm_peers := filter (\<lambda>(k, p). k \<noteq> pid) (nm_peers s)\<rparr>)"

text \<open>\<^verbatim>\<open>std::stoi\<close>.\<close>

definition stoi :: "string \<Rightarrow> cxx_exn + u32" where
  "stoi str =
     (let t = dropWhile is_space str;
          neg = (t \<noteq> [] \<and> hd t = CHR ''-'');
          u = (if t \<noteq> [] \<and> (hd t = CHR ''-'' \<or> hd t = CHR ''+'') then tl t else t);
          ds = takeWhile is_digit u;
          n = (if neg then - int (digits_val ds) else int (digits_val ds))
      in if ds = [] then Inl Invalid_argument
         else if n < - (2 ^ 31) \<or> n \<ge> 2 ^ 31 then Inl Out_of_range
         else Inr (word_of_int n))"

text \<open>The parts before and after the last colon.\<close>

definition split_port :: "string \<Rightarrow> string \<times> string option" where
  "split_port addr =
     (if CHR '':'' \<in> set addr
      then (butlast (rev (dropWhile (\<lambda>c. c \<noteq> CHR '':'') (rev addr))), Some (rev (takeWhile (\<lambda>c. c \<noteq> CHR '':'') (rev addr))))
      else (addr, None))"

fun connectBootstrap :: "json_lib \<Rightarrow> clock \<Rightarrow> string list \<Rightarrow> net_manager \<Rightarrow> net_manager outcome" where
  "connectBootstrap J clk [] s = Done s"
| "connectBootstrap J clk (addr # addrs) s =
     (case split_port addr of
        (host, port_text) \<Rightarrow>
          (case (case port_text of None \<Rightarrow> Inr 30303 | Some t \<Rightarrow> stoi t) of
             Inl e \<Rightarrow> Throws e
           | Inr port \<Rightarrow>
               let pid = ''bootstrap-'' @ host;
                   s = (if find_peer pid s = None
                        then s\<lparr>nm_peers := nm_peers s @ [(pid, PeerState\<lparr>np_id := pid, np_host := host, np_port := port,
                               np_trusted := True, np_priority := 1, np_tags := [''bootstrap'']\<rparr>)]\<rparr>
                        else s)
               in bind_outcome (connectToPeer J clk pid s) (connectBootstrap J clk addrs)))"

text \<open>\<^verbatim>\<open>broadcastBlock\<close> and \<^verbatim>\<open>broadcastTx\<close>: a job for every connected peer.\<close>

definition broadcast :: "u8 \<Rightarrow> json_lib \<Rightarrow> json \<Rightarrow> net_manager \<Rightarrow> net_manager outcome" where
  "broadcast t J payload s =
     (case js_dump J (JObject [(''type'', JUnsigned (ucast t)), (''payload'', payload)]) of
        None \<Rightarrow> Throws Runtime_error
      | Some msg \<Rightarrow> Done (s\<lparr>nm_queue := nm_queue s @ map (\<lambda>(k, p). (k, msg)) (filter (\<lambda>(k, p). np_connected p) (nm_peers s))\<rparr>))"

definition broadcastBlock :: "json_lib \<Rightarrow> json \<Rightarrow> net_manager \<Rightarrow> net_manager outcome" where
  "broadcastBlock J blockMsg s = broadcast MSG_NEW_BLOCK J blockMsg s"

definition broadcastTx :: "json_lib \<Rightarrow> json \<Rightarrow> net_manager \<Rightarrow> net_manager outcome" where
  "broadcastTx J txMsg s = broadcast MSG_NEW_TX J txMsg s"

text \<open>One round of a thread of the pool: it leaves, waits, or sends a job.\<close>

definition send_job :: "net_manager \<Rightarrow> net_manager" where
  "send_job s =
     (case nm_queue s of
        [] \<Rightarrow> s
      | (pid, msg) # jobs \<Rightarrow>
          (let (ok, s) = sendToPeer pid msg (s\<lparr>nm_queue := jobs\<rparr>) in nm_add (if ok then NmBroadcastSent else NmBroadcastFailed) 1 s))"

definition pool_worker :: "net_manager \<Rightarrow> net_manager" where
  "pool_worker s =
     (if nm_workers s = 0 then s
      else if nm_poolStopped s \<and> nm_queue s = [] then s\<lparr>nm_workers := nm_workers s - 1\<rparr>
      else send_job s)"

definition nm_start :: "net_manager \<Rightarrow> net_manager" where
  "nm_start s = (if nm_running s then s else s\<lparr>nm_running := True, nm_workers := nm_workers s + BROADCAST_THREADS\<rparr>)"

text \<open>Stopping waits for the pool: while a thread runs, the jobs left are sent, then every thread leaves.\<close>

definition nm_stop :: "net_manager \<Rightarrow> net_manager" where
  "nm_stop s =
     (if \<not> nm_running s then s
      else
        let s = s\<lparr>nm_running := False, nm_poolStopped := True\<rparr>;
            s = (if nm_workers s = 0 then s else (send_job ^^ length (nm_queue s)) s)
        in s\<lparr>nm_workers := 0\<rparr>)"

definition receiveRaw :: "json_lib \<Rightarrow> clock \<Rightarrow> string \<Rightarrow> string \<Rightarrow> net_manager \<Rightarrow> net_manager outcome" where
  "receiveRaw J clk pid raw s = processMessage J clk pid raw s"

definition peerCount :: "net_manager \<Rightarrow> nat" where
  "peerCount s = length (filter (\<lambda>(k, p). np_connected p) (nm_peers s))"

definition trustedPeerCount :: "net_manager \<Rightarrow> nat" where
  "trustedPeerCount s = length (filter (\<lambda>(k, p). np_connected p \<and> np_trusted p) (nm_peers s))"

text \<open>Connected, trusted and banned peers, and the counters.\<close>

definition nm_getMetrics :: "net_manager \<Rightarrow> nat \<times> nat \<times> nat \<times> (nm_counter \<Rightarrow> nat)" where
  "nm_getMetrics s =
     (length (filter (\<lambda>(k, p). np_connected p) (nm_peers s)), length (filter (\<lambda>(k, p). np_trusted p) (nm_peers s)),
      length (filter (\<lambda>(k, p). np_banned p) (nm_peers s)), nm_counts s)"

section \<open>The system\<close>

datatype nm_op =
    NmReceive string string
  | NmConnect string
  | NmBootstrap "string list"
  | NmAdd string string u32 bool u32 string "string list"
  | NmRemove string
  | NmBan string
  | NmBroadcastBlock json
  | NmBroadcastTx json
  | NmPing
  | NmEvict
  | NmUnban
  | NmRetry
  | NmStart
  | NmStop
  | NmWorker

fun run_nm :: "json_lib \<Rightarrow> clock \<Rightarrow> nm_op \<Rightarrow> net_manager \<Rightarrow> net_manager outcome" where
  "run_nm J clk (NmReceive pid raw) s = receiveRaw J clk pid raw s"
| "run_nm J clk (NmConnect pid) s = connectToPeer J clk pid s"
| "run_nm J clk (NmBootstrap addrs) s = connectBootstrap J clk addrs s"
| "run_nm J clk (NmAdd pid host port trusted priority region tags) s = Done (nm_addPeer pid host port trusted priority region tags s)"
| "run_nm J clk (NmRemove pid) s = Done (nm_removePeer pid s)"
| "run_nm J clk (NmBan pid) s = nm_banPeer False clk pid s"
| "run_nm J clk (NmBroadcastBlock j) s = broadcastBlock J j s"
| "run_nm J clk (NmBroadcastTx j) s = broadcastTx J j s"
| "run_nm J clk NmPing s = pingAllPeers J clk s"
| "run_nm J clk NmEvict s = Done (evictPeers s)"
| "run_nm J clk NmUnban s = Done (unbanExpired clk s)"
| "run_nm J clk NmRetry s = retryDisconnected J clk s"
| "run_nm J clk NmStart s = Done (nm_start s)"
| "run_nm J clk NmStop s = Done (nm_stop s)"
| "run_nm J clk NmWorker s = Done (pool_worker s)"

inductive nm_reach :: "json_lib \<Rightarrow> net_manager \<Rightarrow> bool" for J where
  created: "nm_reach J (NetworkManager addr)"
| operated: "nm_reach J s \<Longrightarrow> run_nm J clk a s = Done s' \<Longrightarrow> nm_reach J s'"

section \<open>Scores\<close>

lemma share_bounds:
  assumes "(c :: rat) > 0"
  shows "0 \<le> (if P then min 1 (of_nat n / c) else 0) \<and> (if P then min 1 (of_nat n / c) else 0) \<le> 1"
proof -
  have "0 \<le> of_nat n / c" using assms by (intro divide_nonneg_pos) simp_all
  then have "0 \<le> min 1 (of_nat n / c) \<and> min 1 (of_nat n / c) \<le> 1" unfolding min_def by (cases "1 \<le> of_nat n / c") simp_all
  then show ?thesis by (cases P) simp_all
qed

lemma score_bounds: "0 \<le> computeScore p \<and> computeScore p \<le> 1"
proof -
  define u where "u = (if np_connectedAt p > 0 then min 1 (of_nat (unat (np_lastSeen p - np_connectedAt p)) / 86400) else (0 :: rat))"
  define l where "l = (if np_latencyMs p > 0 then max 0 (1 - np_latencyMs p / 500) else (1 / 2 :: rat))"
  define b where "b = (if np_bytesSent p > 0 then min 1 (of_nat (unat (np_bytesSent p)) / (100 * 1024 * 1024)) else (0 :: rat))"
  define r where "r = (if np_blocksRelayed p > 0 then min 1 (of_nat (unat (np_blocksRelayed p)) / 1000) else (0 :: rat))"
  have pos: "(86400 :: rat) > 0" "(100 * 1024 * 1024 :: rat) > 0" "(1000 :: rat) > 0" by simp_all
  have "0 \<le> u \<and> u \<le> 1" unfolding u_def by (rule share_bounds [OF pos(1)])
  moreover have "0 \<le> b \<and> b \<le> 1" unfolding b_def by (rule share_bounds [OF pos(2)])
  moreover have "0 \<le> r \<and> r \<le> 1" unfolding r_def by (rule share_bounds [OF pos(3)])
  moreover have "0 \<le> l" "l \<le> 1" by (simp_all add: l_def)
  moreover have "computeScore p = 3 / 10 * u + 3 / 10 * l + 2 / 10 * b + 2 / 10 * r"
    unfolding computeScore_def Let_def u_def l_def b_def r_def by (rule refl)
  ultimately show ?thesis by linarith
qed

section \<open>The invariant\<close>

definition peer_ok :: "nm_peer \<Rightarrow> bool" where
  "peer_ok p \<longleftrightarrow> (np_banned p \<longrightarrow> \<not> np_connected p \<and> \<not> np_trusted p) \<and> 0 \<le> np_retryCount p \<and> np_retryCount p \<le> MAX_RETRY_ATTEMPTS \<and>
     INITIAL_RETRY_DELAY_MS \<le> np_retryDelayMs p \<and> np_retryDelayMs p \<le> MAX_RETRY_DELAY_MS \<and> 0 \<le> np_score p \<and> np_score p \<le> 1 \<and>
     np_bytesThisSec p \<le> MAX_BYTES_PER_SEC * 2"

definition connected_at :: "string \<Rightarrow> (string \<times> nm_peer) list \<Rightarrow> nat" where
  "connected_at h ps = length (filter (\<lambda>(k, p). np_connected p \<and> np_host p = h) ps)"

definition ip_count :: "net_manager \<Rightarrow> string \<Rightarrow> int" where
  "ip_count s h = (case nm_ipCount s h of None \<Rightarrow> 0 | Some n \<Rightarrow> n)"

definition nm_ok :: "net_manager \<Rightarrow> bool" where
  "nm_ok s \<longleftrightarrow> distinct (map fst (nm_peers s)) \<and> (\<forall>(k, p) \<in> set (nm_peers s). np_id p = k \<and> peer_ok p) \<and> nm_bannedIps s = [] \<and>
     (\<forall>h. int (connected_at h (nm_peers s)) \<le> ip_count s h \<and> ip_count s h \<le> MAX_PEERS_PER_IP)"

named_theorems nm_simp

lemma nm_add_fields [simp]:
  "nm_peers (nm_add c n s) = nm_peers s" "nm_ipCount (nm_add c n s) = nm_ipCount s" "nm_bannedIps (nm_add c n s) = nm_bannedIps s"
  "nm_events (nm_add c n s) = nm_events s" "nm_chainId (nm_add c n s) = nm_chainId s" "nm_queue (nm_add c n s) = nm_queue s"
  "nm_workers (nm_add c n s) = nm_workers s" "nm_poolStopped (nm_add c n s) = nm_poolStopped s"
  by (simp_all add: nm_add_def)

lemma nm_counts_add [simp]: "nm_counts (nm_add c n s) d = (if d = c then nm_counts s d + n else nm_counts s d)"
  by (simp add: nm_add_def)

lemma nm_event_fields [simp]:
  "nm_counts (nm_event e s) = nm_counts s"
  "nm_peers (nm_event e s) = nm_peers s" "nm_ipCount (nm_event e s) = nm_ipCount s" "nm_bannedIps (nm_event e s) = nm_bannedIps s"
  "nm_events (nm_event e s) = nm_events s @ [e]" "nm_chainId (nm_event e s) = nm_chainId s"
  by (simp_all add: nm_event_def)

lemma upd_peer_fields [simp]:
  "nm_ipCount (upd_peer k f s) = nm_ipCount s" "nm_bannedIps (upd_peer k f s) = nm_bannedIps s"
  "nm_events (upd_peer k f s) = nm_events s" "nm_chainId (upd_peer k f s) = nm_chainId s" "nm_counts (upd_peer k f s) = nm_counts s"
  "nm_queue (upd_peer k f s) = nm_queue s" "nm_workers (upd_peer k f s) = nm_workers s"
  "nm_poolStopped (upd_peer k f s) = nm_poolStopped s"
  by (simp_all add: upd_peer_def)

lemma map_of_upd: "map_of (map (\<lambda>(k, p). (k, if k = i then f p else p)) ps) j = (if j = i then map_option f (map_of ps i) else map_of ps j)"
  by (induction ps) auto

lemma find_upd [simp]: "find_peer j (upd_peer i f s) = (if j = i then map_option f (find_peer i s) else find_peer j s)"
  by (simp add: find_peer_def upd_peer_def map_of_upd)

lemma find_other [simp]:
  "find_peer j (nm_add c n s) = find_peer j s" "find_peer j (nm_event e s) = find_peer j s"
  "find_peer j (s\<lparr>nm_ipCount := x\<rparr>) = find_peer j s" "find_peer j (s\<lparr>nm_queue := q\<rparr>) = find_peer j s"
  by (simp_all add: find_peer_def)

lemma nm_ok_cong:
  "nm_peers s' = nm_peers s \<Longrightarrow> nm_ipCount s' = nm_ipCount s \<Longrightarrow> nm_bannedIps s' = nm_bannedIps s \<Longrightarrow> nm_ok s' = nm_ok s"
  by (simp add: nm_ok_def ip_count_def)

lemma nm_ok_fields [simp]:
  "nm_ok (nm_add c n s) = nm_ok s" "nm_ok (nm_event e s) = nm_ok s" "nm_ok (s\<lparr>nm_queue := q\<rparr>) = nm_ok s"
  "nm_ok (s\<lparr>nm_workers := w\<rparr>) = nm_ok s" "nm_ok (s\<lparr>nm_running := b\<rparr>) = nm_ok s" "nm_ok (s\<lparr>nm_poolStopped := b\<rparr>) = nm_ok s"
  by (rule nm_ok_cong; simp)+

text \<open>An update that keeps host and identifier and connects nobody.\<close>

definition quiet :: "(nm_peer \<Rightarrow> nm_peer) \<Rightarrow> bool" where
  "quiet f \<longleftrightarrow> (\<forall>p. peer_ok p \<longrightarrow> peer_ok (f p) \<and> np_id (f p) = np_id p \<and> np_host (f p) = np_host p \<and> (np_connected (f p) \<longrightarrow> np_connected p))"

lemma connected_at_simps [simp]:
  "connected_at h [] = 0"
  "connected_at h ((k, p) # ps) = (if np_connected p \<and> np_host p = h then Suc (connected_at h ps) else connected_at h ps)"
  "connected_at h (ps @ qs) = connected_at h ps + connected_at h qs"
  by (simp_all add: connected_at_def)

lemma connected_at_map:
  assumes "\<And>k p. (k, p) \<in> set ps \<Longrightarrow> np_host (g k p) = np_host p \<and> (np_connected (g k p) \<longrightarrow> np_connected p)"
  shows "connected_at h (map (\<lambda>(k, p). (k, g k p)) ps) \<le> connected_at h ps"
  using assms
proof (induction ps)
  case (Cons x ps)
  obtain k p where x: "x = (k, p)" by fastforce
  have "connected_at h (map (\<lambda>(k, p). (k, g k p)) ps) \<le> connected_at h ps"
    by (rule Cons.IH) (rule Cons.prems, simp)
  moreover have "np_host (g k p) = np_host p \<and> (np_connected (g k p) \<longrightarrow> np_connected p)" by (rule Cons.prems) (simp add: x)
  ultimately show ?case by (auto simp: x)
qed simp

lemma nm_okI:
  assumes "distinct (map fst (nm_peers s))" "\<And>k p. (k, p) \<in> set (nm_peers s) \<Longrightarrow> np_id p = k \<and> peer_ok p" "nm_bannedIps s = []"
    "\<And>h. int (connected_at h (nm_peers s)) \<le> ip_count s h \<and> ip_count s h \<le> MAX_PEERS_PER_IP"
  shows "nm_ok s"
  using assms unfolding nm_ok_def by blast

lemma nm_okD:
  assumes "nm_ok s"
  shows "distinct (map fst (nm_peers s))" "(k, p) \<in> set (nm_peers s) \<Longrightarrow> np_id p = k \<and> peer_ok p" "nm_bannedIps s = []"
    "int (connected_at h (nm_peers s)) \<le> ip_count s h" "ip_count s h \<le> MAX_PEERS_PER_IP"
  using assms unfolding nm_ok_def by blast+

lemma nm_ok_map:
  assumes ok: "nm_ok s" and g: "\<And>k p. (k, p) \<in> set (nm_peers s) \<Longrightarrow> peer_ok p \<Longrightarrow>
      peer_ok (g k p) \<and> np_id (g k p) = np_id p \<and> np_host (g k p) = np_host p \<and> (np_connected (g k p) \<longrightarrow> np_connected p)"
  shows "nm_ok (s\<lparr>nm_peers := map (\<lambda>(k, p). (k, g k p)) (nm_peers s)\<rparr>)"
proof -
  let ?ps = "map (\<lambda>(k, p). (k, g k p)) (nm_peers s)"
  have c: "connected_at h ?ps \<le> connected_at h (nm_peers s)" for h
    using g nm_okD(2) [OF ok] by (intro connected_at_map) blast
  show ?thesis
  proof (rule nm_okI)
    show "distinct (map fst (nm_peers (s\<lparr>nm_peers := ?ps\<rparr>)))" using nm_okD(1) [OF ok] by (simp add: case_prod_beta comp_def)
    show "np_id q = k \<and> peer_ok q" if "(k, q) \<in> set (nm_peers (s\<lparr>nm_peers := ?ps\<rparr>))" for k q
    proof -
      from that obtain p where "(k, p) \<in> set (nm_peers s)" "q = g k p" by auto
      then show ?thesis using g [of k p] nm_okD(2) [OF ok, of k p] by simp
    qed
    show "nm_bannedIps (s\<lparr>nm_peers := ?ps\<rparr>) = []" using nm_okD(3) [OF ok] by simp
    show "int (connected_at h (nm_peers (s\<lparr>nm_peers := ?ps\<rparr>))) \<le> ip_count (s\<lparr>nm_peers := ?ps\<rparr>) h \<and> ip_count (s\<lparr>nm_peers := ?ps\<rparr>) h \<le> MAX_PEERS_PER_IP" for h
      using nm_okD(4,5) [OF ok, of h] c [of h] by (simp add: ip_count_def)
  qed
qed

lemma upd_ok: "nm_ok s \<Longrightarrow> quiet f \<Longrightarrow> nm_ok (upd_peer i f s)"
  unfolding upd_peer_def by (rule nm_ok_map) (auto simp: quiet_def)

text \<open>The same for one peer, whose other fields may be known.\<close>

lemma upd_ok_at:
  assumes "nm_ok s" "find_peer i s = Some p"
    "peer_ok p \<Longrightarrow> peer_ok (f p) \<and> np_id (f p) = np_id p \<and> np_host (f p) = np_host p \<and> (np_connected (f p) \<longrightarrow> np_connected p)"
  shows "nm_ok (upd_peer i f s)"
  unfolding upd_peer_def
proof (rule nm_ok_map [OF assms(1)])
  fix k q
  assume q: "(k, q) \<in> set (nm_peers s)" "peer_ok q"
  have "k = i \<Longrightarrow> q = p"
    using q(1) assms(2) nm_okD(1) [OF assms(1)] by (simp add: find_peer_def)
  then show "peer_ok (if k = i then f q else q) \<and> np_id (if k = i then f q else q) = np_id q \<and>
      np_host (if k = i then f q else q) = np_host q \<and> (np_connected (if k = i then f q else q) \<longrightarrow> np_connected q)"
    using assms(3) q(2) by (cases "k = i") auto
qed

lemma find_ok: "nm_ok s \<Longrightarrow> find_peer i s = Some p \<Longrightarrow> peer_ok p \<and> np_id p = i"
  using nm_okD(2) [of s i p] map_of_SomeD [of "nm_peers s" i p] by (simp add: find_peer_def)

definition ends :: "('a \<Rightarrow> bool) \<Rightarrow> 'a outcome \<Rightarrow> bool" where
  "ends P r \<longleftrightarrow> (\<forall>x. r = Done x \<longrightarrow> P x)"

lemma ends_simps [simp]: "ends P (Done x) = P x" "ends P Blocked" "ends P Terminated" "ends P (Throws e)"
  by (simp_all add: ends_def)

lemma ends_bind: "ends Q r \<Longrightarrow> (\<And>x. Q x \<Longrightarrow> ends P (f x)) \<Longrightarrow> ends P (bind_outcome r f)"
  by (cases r) simp_all

lemmas nm_consts = MAX_PEERS_PER_IP_def MAX_RETRY_ATTEMPTS_def INITIAL_RETRY_DELAY_MS_def MAX_RETRY_DELAY_MS_def

lemma ban_ok: "nm_ok s \<Longrightarrow> ends nm_ok (nm_banPeer held clk i s)"
  by (auto simp: nm_banPeer_def peer_ok_def intro!: upd_ok_at split: option.split)

lemma new_period_ok: "peer_ok p \<Longrightarrow> peer_ok (new_period clk p)"
  by (simp add: new_period_def peer_ok_def)

lemma new_period_fields [simp]:
  "np_id (new_period clk p) = np_id p" "np_host (new_period clk p) = np_host p" "np_connected (new_period clk p) = np_connected p"
  "np_trusted (new_period clk p) = np_trusted p" "np_banned (new_period clk p) = np_banned p"
  "np_violations (new_period clk p) = np_violations p" "np_banCount (new_period clk p) = np_banCount p"
  by (simp_all add: new_period_def)

lemma counted_ok:
  assumes "peer_ok p" "\<not> over_limit n p"
  shows "peer_ok (p\<lparr>np_msgThisSecond := np_msgThisSecond p + 1, np_bytesThisSec := np_bytesThisSec p + n\<rparr>)"
proof -
  have "np_bytesThisSec p + n \<le> MAX_BYTES_PER_SEC * 2"
    using assms(2) by (auto simp: over_limit_def MAX_BYTES_PER_SEC_def not_less not_le split: if_splits elim: order_trans)
  then show ?thesis using assms(1) by (simp add: peer_ok_def)
qed

lemma rate_ok:
  assumes "nm_ok s"
  shows "ends (\<lambda>(ok, s). nm_ok s) (checkRateLimit clk n i s)"
proof (cases "find_peer i s")
  case (Some p)
  let ?p = "new_period clk p"
  have s1: "nm_ok (upd_peer i (\<lambda>_. ?p) s)" by (rule upd_ok_at [OF assms Some]) (simp add: new_period_ok)
  have v: "nm_ok (upd_peer i (\<lambda>_. ?p\<lparr>np_violations := np_violations ?p + 1\<rparr>) (upd_peer i (\<lambda>_. ?p) s))"
    by (rule upd_ok_at [OF s1, where p = ?p]) (simp_all add: Some peer_ok_def)
  have m: "nm_ok (upd_peer i (\<lambda>_. ?p\<lparr>np_msgThisSecond := np_msgThisSecond ?p + 1, np_bytesThisSec := np_bytesThisSec ?p + n\<rparr>) (upd_peer i (\<lambda>_. ?p) s))"
    if "\<not> over_limit n ?p"
    by (rule upd_ok_at [OF s1, where p = ?p]) (simp_all add: Some counted_ok that)
  show ?thesis using v m by (auto simp: checkRateLimit_def Some Let_def nm_banPeer_def)
qed (use assms in \<open>simp add: checkRateLimit_def\<close>)

lemma send_ok [simp]: "nm_ok s \<Longrightarrow> nm_ok (snd (sendToPeer i msg s))"
  by (simp add: sendToPeer_def upd_ok quiet_def peer_ok_def)

lemma reply_ok: "nm_ok s \<Longrightarrow> ends nm_ok (reply J i j s)"
  by (simp add: reply_def split: option.split)

lemma reconnect_ok: "nm_ok s \<Longrightarrow> ends nm_ok (scheduleReconnect held clk i s)"
  by (auto simp: scheduleReconnect_def peer_ok_def nm_consts intro!: upd_ok_at split: option.split)

lemma disconnect_ok: "nm_ok s \<Longrightarrow> ends nm_ok (disconnectPeer clk i s)"
  by (auto simp: disconnectPeer_def Let_def peer_ok_def intro!: reconnect_ok upd_ok_at split: option.split)

lemma handshake_ok: "nm_ok s \<Longrightarrow> ends (\<lambda>(ok, s). nm_ok s) (performHandshake clk i j s)"
  by (auto simp: performHandshake_def handshake_failed_def split: option.split intro!: ends_bind [OF ban_ok])

lemma pong_quiet: "quiet (pong clk)"
  by (auto simp: quiet_def pong_def Let_def peer_ok_def score_bounds)

lemma relayed_quiet: "quiet (relayed t)"
  by (auto simp: quiet_def relayed_def peer_ok_def)

lemma dispatch_ok: "nm_ok s \<Longrightarrow> ends nm_ok (dispatch J clk i msg t s)"
  by (auto simp: dispatch_def upd_ok pong_quiet relayed_quiet intro!: reply_ok disconnect_ok ends_bind [OF handshake_ok])

lemma process_ok:
  assumes "nm_ok s"
  shows "ends nm_ok (processMessage J clk i raw s)"
proof -
  let ?s = "nm_add NmBytesReceived (length raw) (nm_add NmMsgReceived 1 s)"
  have q: "quiet (\<lambda>p. p\<lparr>np_lastSeen := fst clk, np_bytesReceived := np_bytesReceived p + word_of_nat (length raw)\<rparr>)"
    "quiet (\<lambda>p. p\<lparr>np_violations := np_violations p + 1\<rparr>)" by (simp_all add: quiet_def peer_ok_def)
  have "ends (\<lambda>(ok, s). nm_ok s) (checkRateLimit clk (word_of_nat (length raw)) i ?s)" using assms by (intro rate_ok) simp
  then show ?thesis
    using assms q
    by (auto simp: processMessage_def Let_def upd_ok intro!: ends_bind [of "\<lambda>(ok, s). nm_ok s"] ban_ok dispatch_ok split: option.split)
qed

lemma fold_nm_ok: "nm_ok s \<Longrightarrow> (\<And>s x. nm_ok s \<Longrightarrow> nm_ok (f s x)) \<Longrightarrow> nm_ok (foldl f s xs)"
  by (induction xs arbitrary: s) simp_all

lemma drop_connection: "quiet (\<lambda>p. p\<lparr>np_connected := False\<rparr>)"
  by (simp add: quiet_def peer_ok_def)

lemma evict_ok: "nm_ok s \<Longrightarrow> nm_ok (evictPeers s)"
  by (auto simp: evictPeers_def upd_ok drop_connection intro!: fold_nm_ok)

lemma unban_ok: "nm_ok s \<Longrightarrow> nm_ok (unbanExpired clk s)"
  unfolding unbanExpired_def by (rule nm_ok_map) (auto simp: peer_ok_def)

lemma ping_ok: "nm_ok s \<Longrightarrow> ends nm_ok (ping_each J clk ks s)"
proof (induction ks arbitrary: s)
  case (Cons k ks)
  have "quiet (\<lambda>p. p\<lparr>np_lastPing := snd clk\<rparr>)" by (simp add: quiet_def peer_ok_def)
  then show ?case using Cons by (auto simp: upd_ok intro!: ends_bind [OF reply_ok])
qed simp

text \<open>Connecting counts one more peer at its host.\<close>

lemma connect_count:
  assumes "distinct (map fst ps)" "map_of ps i = Some p" "\<not> np_connected p" "np_connected (f p)" "np_host (f p) = np_host p"
  shows "connected_at h (map (\<lambda>(k, p). (k, if k = i then f p else p)) ps) = connected_at h ps + (if h = np_host p then 1 else 0)"
  using assms
proof (induction ps)
  case (Cons x ps)
  obtain k q where x: "x = (k, q)" by fastforce
  show ?case
  proof (cases "k = i")
    case True
    then have "i \<notin> fst ` set ps" "q = p" using Cons.prems x by auto
    then have "map (\<lambda>(k, p). (k, if k = i then f p else p)) ps = ps" by (induction ps) (auto simp: image_iff)
    then show ?thesis using True Cons.prems x \<open>q = p\<close> by simp
  next
    case False
    then show ?thesis using Cons x by simp
  qed
qed simp

lemma connect_ok:
  assumes "nm_ok s"
  shows "ends nm_ok (connectToPeer J clk i s)"
proof (cases "find_peer i s")
  case (Some p)
  define f :: "nm_peer \<Rightarrow> nm_peer" where "f = (\<lambda>p. p\<lparr>np_connected := True, np_connectedAt := fst clk, np_lastSeen := fst clk, np_retryCount := 0,
    np_retryDelayMs := INITIAL_RETRY_DELAY_MS\<rparr>)"
  have "ends nm_ok (connectToPeer J clk i s)" if c: "\<not> np_banned p" "\<not> np_connected p" "\<not> ip_full s (np_host p)"
    and msg: "js_dump J (hello_message clk s) = Some msg" for msg
  proof -
    let ?t = "snd (sendToPeer i msg s)"
    have t: "nm_ok ?t" using assms by simp
    have ft: "\<exists>q. find_peer i ?t = Some q \<and> np_host q = np_host p \<and> \<not> np_connected q \<and> \<not> np_banned q"
      using Some c by (simp add: sendToPeer_def)
    then obtain q where q: "find_peer i ?t = Some q" "np_host q = np_host p" "\<not> np_connected q" "\<not> np_banned q" by blast
    let ?n = "ip_count s (np_host p)"
    have ipt: "nm_ipCount ?t = nm_ipCount s" by (simp add: sendToPeer_def)
    let ?u = "(upd_peer i f ?t)\<lparr>nm_ipCount := (nm_ipCount ?t)(np_host p := Some (case nm_ipCount ?t (np_host p) of None \<Rightarrow> 1 | Some n \<Rightarrow> n + 1))\<rparr>"
    have n: "0 \<le> ?n" "?n < MAX_PEERS_PER_IP"
      using c(3) nm_okD(4) [OF assms, of "np_host p"] by (auto simp: ip_full_def ip_count_def nm_consts split: option.splits)
    have ip: "ip_count ?u h = (if h = np_host p then ?n + 1 else ip_count s h)" for h
      by (simp add: ip_count_def ipt split: option.split)
    have ps: "nm_peers ?u = map (\<lambda>(k, p). (k, if k = i then f p else p)) (nm_peers ?t)" by (simp add: upd_peer_def)
    have cc: "connected_at h (nm_peers ?u) = connected_at h (nm_peers ?t) + (if h = np_host p then 1 else 0)" for h
      unfolding ps using q nm_okD(1) [OF t] by (subst connect_count [of _ i q]) (auto simp: find_peer_def f_def)
    have "nm_ok ?u"
    proof (rule nm_okI)
      show "distinct (map fst (nm_peers ?u))" unfolding ps using nm_okD(1) [OF t] by (simp add: case_prod_beta comp_def)
      show "np_id r = k \<and> peer_ok r" if "(k, r) \<in> set (nm_peers ?u)" for k r
      proof -
        from that obtain r' where r: "(k, r') \<in> set (nm_peers ?t)" "r = (if k = i then f r' else r')" unfolding ps by auto
        have "k = i \<Longrightarrow> r' = q" using r(1) q(1) nm_okD(1) [OF t] by (simp add: find_peer_def)
        then show ?thesis using r nm_okD(2) [OF t r(1)] q(4) by (auto simp: f_def peer_ok_def nm_consts)
      qed
      show "nm_bannedIps ?u = []" using nm_okD(3) [OF t] by simp
      show "int (connected_at h (nm_peers ?u)) \<le> ip_count ?u h \<and> ip_count ?u h \<le> MAX_PEERS_PER_IP" for h
      proof -
        have "int (connected_at h (nm_peers ?t)) \<le> ip_count s h" "ip_count s h \<le> MAX_PEERS_PER_IP"
          using nm_okD(4,5) [OF t, of h] by (simp_all add: ip_count_def ipt)
        then show ?thesis unfolding ip cc using n by auto
      qed
    qed
    then show ?thesis using Some c msg by (simp add: connectToPeer_def Let_def sendToPeer_def f_def)
  qed
  then show ?thesis using assms Some by (cases "np_banned p \<or> np_connected p \<or> ip_full s (np_host p)")
      (auto simp: connectToPeer_def split: option.splits)
qed (use assms in \<open>simp add: connectToPeer_def\<close>)

lemma connect_each_ok: "nm_ok s \<Longrightarrow> ends nm_ok (connect_each J clk ks s)"
  by (induction ks arbitrary: s) (auto intro!: ends_bind [OF connect_ok])

lemma append_ok:
  assumes ok: "nm_ok s" and p: "find_peer i s = None" "np_id p = i" "peer_ok p" "\<not> np_connected p"
  shows "nm_ok (s\<lparr>nm_peers := nm_peers s @ [(i, p)]\<rparr>)"
proof (rule nm_okI)
  show "distinct (map fst (nm_peers (s\<lparr>nm_peers := nm_peers s @ [(i, p)]\<rparr>)))"
    using nm_okD(1) [OF ok] p(1) by (auto simp: find_peer_def map_of_eq_None_iff)
  show "np_id q = k \<and> peer_ok q" if "(k, q) \<in> set (nm_peers (s\<lparr>nm_peers := nm_peers s @ [(i, p)]\<rparr>))" for k q
    using that nm_okD(2) [OF ok] p by auto
qed (use nm_okD(3,4,5) [OF ok] p(4) in \<open>simp_all add: ip_count_def\<close>)

lemma fresh_peer [simp]:
  "np_id (PeerState\<lparr>np_id := i, np_host := h, np_port := n, np_trusted := t, np_priority := pr, np_region := r, np_tags := ts\<rparr>) = i"
  "peer_ok (PeerState\<lparr>np_id := i, np_host := h, np_port := n, np_trusted := t, np_priority := pr, np_region := r, np_tags := ts\<rparr>)"
  "\<not> np_connected (PeerState\<lparr>np_id := i, np_host := h, np_port := n, np_trusted := t, np_priority := pr, np_region := r, np_tags := ts\<rparr>)"
  "peer_ok (PeerState\<lparr>np_id := i, np_host := h, np_port := n, np_trusted := t, np_priority := pr, np_tags := ts\<rparr>)"
  "\<not> np_connected (PeerState\<lparr>np_id := i, np_host := h, np_port := n, np_trusted := t, np_priority := pr, np_tags := ts\<rparr>)"
  by (simp_all add: PeerState_def peer_ok_def nm_consts)

lemma bootstrap_ok: "nm_ok s \<Longrightarrow> ends nm_ok (connectBootstrap J clk addrs s)"
  by (induction addrs arbitrary: s) (auto simp: Let_def intro!: ends_bind [OF connect_ok] append_ok split: prod.split sum.split option.split)

lemma add_ok: "nm_ok s \<Longrightarrow> nm_ok (nm_addPeer i h n t pr r ts s)"
  unfolding nm_addPeer_def by (auto intro!: append_ok)

lemma connected_at_removed:
  assumes "distinct (map fst ps)" "map_of ps i = Some p"
  shows "connected_at h ps = connected_at h (filter (\<lambda>(k, p). k \<noteq> i) ps) + (if np_connected p \<and> np_host p = h then 1 else 0)"
  using assms
proof (induction ps)
  case (Cons x ps)
  obtain k q where x: "x = (k, q)" by fastforce
  show ?case
  proof (cases "k = i")
    case True
    then have "filter (\<lambda>(k, p). k \<noteq> i) ps = ps" using Cons.prems(1) x by (auto simp: filter_id_conv image_iff)
    then show ?thesis using True Cons.prems x by simp
  qed (use Cons x in simp)
qed simp

lemma remove_ok:
  assumes "nm_ok s"
  shows "nm_ok (nm_removePeer i s)"
proof (cases "find_peer i s")
  case (Some p)
  let ?u = "nm_removePeer i s"
  have ps: "nm_peers ?u = filter (\<lambda>(k, p). k \<noteq> i) (nm_peers s)" using Some by (simp add: nm_removePeer_def)
  have m: "map_of (nm_peers s) i = Some p" using Some by (simp add: find_peer_def)
  have ip: "ip_count ?u h = (if np_connected p \<and> np_host p = h then ip_count s h - 1 else ip_count s h)" for h
    using Some by (simp add: nm_removePeer_def ip_count_def split: option.split)
  show ?thesis
  proof (rule nm_okI)
    show "distinct (map fst (nm_peers ?u))" unfolding ps using nm_okD(1) [OF assms] by (simp add: distinct_map_filter)
    show "np_id q = k \<and> peer_ok q" if "(k, q) \<in> set (nm_peers ?u)" for k q using that nm_okD(2) [OF assms, of k q] ps by simp
    show "nm_bannedIps ?u = []" using nm_okD(3) [OF assms] Some by (simp add: nm_removePeer_def)
    show "int (connected_at h (nm_peers ?u)) \<le> ip_count ?u h \<and> ip_count ?u h \<le> MAX_PEERS_PER_IP" for h
      using nm_okD(4,5) [OF assms, of h] connected_at_removed [OF nm_okD(1) [OF assms] m, of h] unfolding ip ps by (auto split: if_splits)
  qed
qed (use assms in \<open>simp add: nm_removePeer_def\<close>)

lemma job_ok: "nm_ok s \<Longrightarrow> nm_ok (send_job s)"
  by (auto simp: send_job_def sendToPeer_def upd_ok quiet_def peer_ok_def split: list.split)

lemma jobs_ok: "nm_ok s \<Longrightarrow> nm_ok ((send_job ^^ n) s)"
  by (induction n) (simp_all add: job_ok)

lemma stop_ok: "nm_ok s \<Longrightarrow> nm_ok (nm_stop s)"
  by (simp add: nm_stop_def Let_def jobs_ok)

lemma broadcast_ok: "nm_ok s \<Longrightarrow> ends nm_ok (broadcast t J j s)"
  by (simp add: broadcast_def split: option.split)

lemma start_ok: "nm_ok s \<Longrightarrow> nm_ok (nm_start s)"
  by (simp add: nm_start_def)

lemma worker_ok: "nm_ok s \<Longrightarrow> nm_ok (pool_worker s)"
  by (simp add: pool_worker_def job_ok)

lemmas ops_ok =
  process_ok connect_ok bootstrap_ok add_ok remove_ok ban_ok broadcast_ok ping_ok evict_ok unban_ok connect_each_ok start_ok stop_ok worker_ok

lemma run_ok: "nm_ok s \<Longrightarrow> ends nm_ok (run_nm J clk a s)"
  by (induction J clk a s rule: run_nm.induct)
    (simp_all only: run_nm.simps receiveRaw_def broadcastBlock_def broadcastTx_def pingAllPeers_def retryDisconnected_def ends_simps ops_ok)

lemma created_ok: "nm_ok (NetworkManager addr)"
  by (rule nm_okI) (simp_all add: NetworkManager_def ip_count_def nm_consts)

lemma reach_ok: "nm_reach J s \<Longrightarrow> nm_ok s"
proof (induction rule: nm_reach.induct)
  case (created addr)
  show ?case by (rule created_ok)
next
  case (operated s clk a s')
  then show ?case using run_ok [of s J clk a] by simp
qed

text \<open>C13: At every moment an identifier is registered once, a banned peer is neither connected nor trusted, the
  attempts to reconnect and their delay keep their limits, a score is a share of one, and at no host more
  than five peers are connected.
\<close>

theorem manager_invariant:
  assumes "nm_reach J s"
  shows "distinct (map fst (nm_peers s)) \<and>
    (\<forall>(k, p) \<in> set (nm_peers s). np_id p = k \<and> (np_banned p \<longrightarrow> \<not> np_connected p \<and> \<not> np_trusted p) \<and>
       0 \<le> np_retryCount p \<and> np_retryCount p \<le> 5 \<and> 1000 \<le> np_retryDelayMs p \<and> np_retryDelayMs p \<le> 60000 \<and>
       0 \<le> np_score p \<and> np_score p \<le> 1) \<and>
    connected_at h (nm_peers s) \<le> 5"
proof (intro conjI)
  note ok = reach_ok [OF assms]
  show "distinct (map fst (nm_peers s))" by (rule nm_okD(1) [OF ok])
  show "connected_at h (nm_peers s) \<le> 5" using nm_okD(4,5) [OF ok, of h] by (simp add: nm_consts)
  show "\<forall>(k, p) \<in> set (nm_peers s). np_id p = k \<and> (np_banned p \<longrightarrow> \<not> np_connected p \<and> \<not> np_trusted p) \<and>
       0 \<le> np_retryCount p \<and> np_retryCount p \<le> 5 \<and> 1000 \<le> np_retryDelayMs p \<and> np_retryDelayMs p \<le> 60000 \<and>
       0 \<le> np_score p \<and> np_score p \<le> 1"
  proof clarify
    fix k p
    assume "(k, p) \<in> set (nm_peers s)"
    from nm_okD(2) [OF ok this] show "np_id p = k \<and> (np_banned p \<longrightarrow> \<not> np_connected p \<and> \<not> np_trusted p) \<and>
       0 \<le> np_retryCount p \<and> np_retryCount p \<le> 5 \<and> 1000 \<le> np_retryDelayMs p \<and> np_retryDelayMs p \<le> 60000 \<and>
       0 \<le> np_score p \<and> np_score p \<le> 1"
      by (simp add: peer_ok_def nm_consts)
  qed
qed

lemma manager_invariant_witness:
  "connected_at ''h'' (nm_peers (nm_addPeer ''p'' ''h'' 1 False 2 [] [] (NetworkManager []))) \<le> 5"
proof -
  have "nm_reach (one_text JNull) (nm_addPeer ''p'' ''h'' 1 False 2 [] [] (NetworkManager []))"
    by (rule nm_reach.operated [OF nm_reach.created, where a = "NmAdd ''p'' ''h'' 1 False 2 [] []"]) simp
  from manager_invariant [OF this, of "''h''"] show ?thesis by blast
qed

section \<open>Blocking\<close>












section \<open>What a peer may send\<close>

lemma upd_upd: "upd_peer i f (upd_peer i g s) = upd_peer i (\<lambda>p. f (g p)) s"
  by (simp add: upd_peer_def comp_def case_prod_beta)

text \<open>The sender's record when a message of \<open>n\<close> bytes is let through.\<close>

definition received :: "clock \<Rightarrow> u64 \<Rightarrow> nm_peer \<Rightarrow> nm_peer" where
  "received clk n p =
     (let p = new_period clk p
      in p\<lparr>np_msgThisSecond := np_msgThisSecond p + 1, np_bytesThisSec := np_bytesThisSec p + n, np_lastSeen := fst clk,
           np_bytesReceived := np_bytesReceived p + n\<rparr>)"

lemma received_fields [simp]:
  "np_trusted (received clk n p) = np_trusted p" "np_banned (received clk n p) = np_banned p" "np_host (received clk n p) = np_host p"
  "np_connected (received clk n p) = np_connected p" "np_banCount (received clk n p) = np_banCount p"
  by (simp_all add: received_def new_period_def)

lemma reaches_switch:
  assumes "find_peer i s = Some p" "\<not> over_limit (word_of_nat (length raw)) (new_period clk p)" "length raw \<le> MAX_MESSAGE_BYTES"
    "js_parse J raw = Some msg" "jget ''type'' msg = Some (JUnsigned t)"
  shows "receiveRaw J clk i raw s = dispatch J clk i msg (ucast t)
     (upd_peer i (\<lambda>_. received clk (word_of_nat (length raw)) p) (nm_add NmBytesReceived (length raw) (nm_add NmMsgReceived 1 s)))"
  using assms by (simp add: receiveRaw_def processMessage_def checkRateLimit_def Let_def upd_upd received_def)

lemmas payload_codes = MSG_NEW_BLOCK_def MSG_NEW_TX_def MSG_BLOCKS_def MSG_TXS_def MSG_STATUS_def MSG_RECEIPTS_def

text \<open>
  A message with a payload from any registered identifier within its limits is handed to the message
  handler: nothing asks whether that peer is connected, has shaken hands, or is banned.
\<close>

theorem strangers_are_heard:
  assumes "find_peer i s = Some p" "\<not> over_limit (word_of_nat (length raw)) (new_period clk p)" "length raw \<le> MAX_MESSAGE_BYTES"
    "js_parse J raw = Some msg" "jget ''type'' msg = Some (JUnsigned t)" "t \<in> {6, 8, 9, 11, 12, 14}"
  shows "\<exists>s'. receiveRaw J clk i raw s = Done s' \<and> nm_events s' = nm_events s @ [EvMessage msg]"
proof -
  have t: "ucast t \<in> {MSG_NEW_BLOCK, MSG_NEW_TX, MSG_BLOCKS, MSG_TXS, MSG_STATUS, MSG_RECEIPTS}"
    "ucast t \<noteq> MSG_HELLO" "ucast t \<noteq> MSG_PING" "ucast t \<noteq> MSG_PONG" "ucast t \<noteq> MSG_GET_PEERS"
    using assms(6) by (auto simp: msg_codes)
  show ?thesis unfolding reaches_switch [OF assms(1-5)] dispatch_def using t by (simp add: upd_upd)
qed

lemma strangers_are_heard_witness:
  "\<exists>s'. receiveRaw (one_text (JObject [(''type'', JUnsigned 6)])) (0, 0) ''p'' ''x''
       (upd_peer ''p'' (\<lambda>p. p\<lparr>np_banned := True\<rparr>) (nm_addPeer ''p'' ''h'' 1 False 2 [] [] (NetworkManager []))) = Done s' \<and>
     nm_events s' = [EvMessage (JObject [(''type'', JUnsigned 6)])]"
  using strangers_are_heard [of "''p''" "upd_peer ''p'' (\<lambda>p. p\<lparr>np_banned := True\<rparr>) (nm_addPeer ''p'' ''h'' 1 False 2 [] [] (NetworkManager []))"
    _ "''x''" "(0, 0)" "one_text (JObject [(''type'', JUnsigned 6)])" "JObject [(''type'', JUnsigned 6)]" 6]
  by (simp add: nm_addPeer_def NetworkManager_def ip_full_def NM_MAX_PEERS_def find_peer_def upd_peer_def PeerState_def over_limit_def
    new_period_def MAX_MESSAGES_PER_SEC_def MAX_BYTES_PER_SEC_def MAX_MESSAGE_BYTES_def one_text_def)

text \<open>
  A hello that names another chain bans a registered peer that is not trusted, for one hour more than the last
  time and at most a day. The ban marks the peer as not connected, so that the disconnection that follows
  the failed handshake does nothing: it is not counted, its handler is not called, the host's count stays.
\<close>

theorem wrong_chain_banned:
  assumes "find_peer i s = Some p" "\<not> np_trusted p" "\<not> over_limit (word_of_nat (length raw)) (new_period clk p)"
    "length raw \<le> MAX_MESSAGE_BYTES" "js_parse J raw = Some msg" "jget ''type'' msg = Some (JUnsigned 0)"
    "jget ''chainId'' msg = Some c" "get_u32 c = Some peerChain" "peerChain \<noteq> nm_chainId s"
    "jget ''protocolVersion'' msg = Some v" "get_u32 v = Some peerVersion" "jget ''network'' msg = Some (JString net)"
  shows "\<exists>s' q. receiveRaw J clk i raw s = Done s' \<and> find_peer i s' = Some q \<and>
    np_banned q \<and> \<not> np_connected q \<and> np_banCount q = np_banCount p + 1 \<and>
    np_bannedUntil q = fst clk + min (3600 * word_of_int (np_banCount p + 1)) 86400 \<and>
    nm_events s' = nm_events s \<and> nm_counts s' NmDisconnections = nm_counts s NmDisconnections \<and> nm_ipCount s' = nm_ipCount s"
proof -
  have t: "ucast (0 :: u64) = MSG_HELLO" by (simp add: MSG_HELLO_def)
  show ?thesis unfolding reaches_switch [OF assms(1,3,4,5,6)] dispatch_def t
    using assms by (simp add: performHandshake_def nm_banPeer_def disconnectPeer_def ban_duration_def BAN_DURATION_SECS_def
      MAX_BAN_SECS_def)
qed

definition foreign_hello :: json where
  "foreign_hello = JObject [(''type'', JUnsigned 0), (''chainId'', JUnsigned 5), (''protocolVersion'', JUnsigned 1), (''network'', JString ''mainnet'')]"

definition one_peer :: net_manager where
  "one_peer = nm_addPeer ''p'' ''h'' 1 False 2 [] [] (NetworkManager [])"

lemma one_peer_known: "find_peer ''p'' one_peer = Some (PeerState\<lparr>np_id := ''p'', np_host := ''h'', np_port := 1\<rparr>)" "nm_reach J one_peer"
proof -
  show "find_peer ''p'' one_peer = Some (PeerState\<lparr>np_id := ''p'', np_host := ''h'', np_port := 1\<rparr>)"
    by (simp add: one_peer_def nm_addPeer_def NetworkManager_def ip_full_def NM_MAX_PEERS_def find_peer_def PeerState_def)
  show "nm_reach J one_peer" unfolding one_peer_def
    by (rule nm_reach.operated [OF nm_reach.created, where a = "NmAdd ''p'' ''h'' 1 False 2 [] []"]) simp
qed

lemma wrong_chain_banned_witness:
  "\<exists>s' q. receiveRaw (one_text foreign_hello) (100, 0) ''p'' ''x'' one_peer = Done s' \<and> find_peer ''p'' s' = Some q \<and>
     np_banned q \<and> np_bannedUntil q = 3700"
proof -
  let ?p = "PeerState\<lparr>np_id := ''p'', np_host := ''h'', np_port := 1\<rparr>"
  have p: "\<not> np_trusted ?p" "\<not> over_limit (word_of_nat (length ''x'')) (new_period (100, 0) ?p)" "np_banCount ?p = 0"
    by (simp_all add: PeerState_def over_limit_def new_period_def MAX_MESSAGES_PER_SEC_def MAX_BYTES_PER_SEC_def)
  have m: "js_parse (one_text foreign_hello) ''x'' = Some foreign_hello" by (simp add: one_text_def foreign_hello_def)
  have h: "jget ''type'' foreign_hello = Some (JUnsigned 0)" "jget ''chainId'' foreign_hello = Some (JUnsigned 5)" "get_u32 (JUnsigned 5) = Some 5"
    "jget ''protocolVersion'' foreign_hello = Some (JUnsigned 1)" "get_u32 (JUnsigned 1) = Some 1"
    "jget ''network'' foreign_hello = Some (JString ''mainnet'')"
    by (simp_all add: foreign_hello_def)
  have c: "5 \<noteq> nm_chainId one_peer"
    by (simp add: one_peer_def nm_addPeer_def NetworkManager_def ip_full_def NM_MAX_PEERS_def find_peer_def)
  have l: "length ''x'' \<le> MAX_MESSAGE_BYTES" by (simp add: MAX_MESSAGE_BYTES_def)
  show ?thesis using wrong_chain_banned [OF one_peer_known(1) p(1,2) l m h(1-3) c h(4-6)] by (auto simp: p(3))
qed

text \<open>
  A message of more than 20 MB is over every peer's rate limit: it is counted as a violation and dropped,
  or blocks the caller. The ban for messages of more than 32 MB is never reached.
\<close>

theorem big_message_only_limited:
  assumes "nm_reach J s" "find_peer i s = Some p" "20971520 < length raw" "length raw < 2 ^ 63"
  shows "receiveRaw J clk i raw s = Blocked \<or>
    (\<exists>s'. receiveRaw J clk i raw s = Done s' \<and> nm_counts s' NmRateLimited = nm_counts s NmRateLimited + 1 \<and>
       nm_counts s' NmBanned = nm_counts s NmBanned \<and> map_option np_violations (find_peer i s') = Some (np_violations p + 1))"
proof -
  have b: "peer_ok (new_period clk p)" using find_ok [OF reach_ok [OF assms(1)] assms(2)] by (simp add: new_period_ok)
  have "over_limit (word_of_nat (length raw)) (new_period clk p)" (is "over_limit ?n ?p")
  proof -
    have small: "unat (np_bytesThisSec ?p) \<le> 20971520"
      using b by (simp add: peer_ok_def MAX_BYTES_PER_SEC_def word_le_nat_alt)
    have n: "unat ?n = length raw" using assms(4) by (simp add: unat_of_nat take_bit_nat_eq_self)
    have "unat (np_bytesThisSec ?p + ?n) = unat (np_bytesThisSec ?p) + length raw"
      using small n assms(4) by (subst unat_add_lem [THEN iffD1]) simp_all
    then have "unat (np_bytesThisSec ?p + ?n) > 20971520" using assms(3) by simp
    then show ?thesis by (simp add: over_limit_def MAX_BYTES_PER_SEC_def word_less_nat_alt)
  qed
  then show ?thesis using assms(2)
    by (auto simp: receiveRaw_def processMessage_def checkRateLimit_def Let_def nm_banPeer_def upd_upd)
qed

lemma big_message_only_limited_witness:
  "receiveRaw (one_text JNull) (1, 0) ''p'' (replicate 33554433 CHR ''x'') one_peer = Blocked \<or>
    (\<exists>s'. receiveRaw (one_text JNull) (1, 0) ''p'' (replicate 33554433 CHR ''x'') one_peer = Done s' \<and> nm_counts s' NmBanned = nm_counts one_peer NmBanned)"
  using big_message_only_limited [OF one_peer_known(2,1), of "replicate 33554433 CHR ''x''" "one_text JNull" "(1, 0)"] by auto

section \<open>The counts of the hosts\<close>

abbreviation same_ips :: "net_manager \<Rightarrow> net_manager \<Rightarrow> bool" where
  "same_ips s s' \<equiv> nm_ipCount s' = nm_ipCount s"

abbreviation more_ips :: "net_manager \<Rightarrow> net_manager \<Rightarrow> bool" where
  "more_ips s s' \<equiv> \<forall>h. ip_count s h \<le> ip_count s' h"

lemma same_more: "ends (same_ips s) r \<Longrightarrow> ends (more_ips s) r"
  by (cases r) (simp_all add: ip_count_def)

lemma ban_ips: "ends (same_ips s) (nm_banPeer held clk i s)"
  by (simp add: nm_banPeer_def split: option.split)

lemma rate_ips: "ends (\<lambda>(ok, s'). same_ips s s') (checkRateLimit clk n i s)"
  by (simp add: checkRateLimit_def Let_def nm_banPeer_def split: option.split)

lemma reply_ips: "ends (same_ips s) (reply J i j s)"
  by (simp add: reply_def sendToPeer_def split: option.split)

lemma disconnect_ips: "ends (same_ips s) (disconnectPeer clk i s)"
  by (simp add: disconnectPeer_def Let_def scheduleReconnect_def split: option.split)

lemma handshake_ips: "ends (\<lambda>(ok, s'). same_ips s s') (performHandshake clk i j s)"
proof -
  have "ends (same_ips s) (nm_banPeer False clk i (nm_add NmHandshakeFailed 1 s))"
    using ban_ips [of "nm_add NmHandshakeFailed 1 s"] by simp
  then show ?thesis by (auto simp: performHandshake_def handshake_failed_def split: option.split intro: ends_bind)
qed

lemma dispatch_ips: "ends (same_ips s) (dispatch J clk i msg t s)"
proof -
  have "ends (same_ips s) (if \<not> ok then disconnectPeer clk i s' else Done s')" if "same_ips s s'" for ok s'
    using disconnect_ips [of s' clk i] that by simp
  then show ?thesis by (auto simp: dispatch_def reply_ips disconnect_ips intro!: ends_bind [OF handshake_ips])
qed

lemma process_ips: "ends (same_ips s) (processMessage J clk i raw s)"
proof -
  let ?t = "nm_add NmBytesReceived (length raw) (nm_add NmMsgReceived 1 s)"
  have "ends (same_ips s) (nm_banPeer False clk i s')" "ends (same_ips s) (dispatch J clk i msg t s')" if "same_ips s s'" for s' msg t
    using ban_ips [of s' False clk i] dispatch_ips [of s' J clk i msg t] that by simp_all
  moreover have "ends (\<lambda>(ok, s'). same_ips s s') (checkRateLimit clk (word_of_nat (length raw)) i ?t)"
    using rate_ips [of ?t] by simp
  ultimately show ?thesis by (auto simp: processMessage_def Let_def split: option.split intro!: ends_bind [of "\<lambda>(ok, s'). same_ips s s'"])
qed

lemma fold_ips: "(\<And>s x. same_ips s (f s x)) \<Longrightarrow> same_ips s (foldl f s xs)"
  by (induction xs arbitrary: s) simp_all

lemma evict_ips: "same_ips s (evictPeers s)"
  by (auto simp: evictPeers_def intro!: fold_ips)

lemma ping_ips: "ends (same_ips s) (ping_each J clk ks s)"
proof (induction ks arbitrary: s)
  case (Cons k ks)
  have "ends (same_ips s) (ping_each J clk ks s')" if "same_ips s s'" for s' using Cons.IH [of s'] that by simp
  moreover have "ends (same_ips s) (reply J k j (upd_peer k f s))" for j f using reply_ips [of "upd_peer k f s"] by simp
  ultimately show ?case by (auto intro!: ends_bind [of "same_ips s"])
qed simp

lemma jobs_ips: "same_ips s ((send_job ^^ n) s)"
  by (induction n) (simp_all add: send_job_def sendToPeer_def split: list.split)

lemma worker_ips: "same_ips s (pool_worker s)"
  by (simp add: pool_worker_def send_job_def sendToPeer_def split: list.split)

lemma stop_ips: "same_ips s (nm_stop s)"
  using jobs_ips by (simp add: nm_stop_def Let_def)

lemma connect_ips: "ends (more_ips s) (connectToPeer J clk i s)"
  by (auto simp: connectToPeer_def Let_def sendToPeer_def ip_count_def split: option.split)

lemma connect_each_ips: "ends (more_ips s) (connect_each J clk ks s)"
proof (induction ks arbitrary: s)
  case (Cons k ks)
  have "ends (more_ips s) (connect_each J clk ks s')" if "more_ips s s'" for s'
    using Cons.IH [of s'] that by (auto simp: ends_def intro: order_trans)
  then show ?case by (simp add: ends_bind [OF connect_ips])
qed simp

lemma bootstrap_ips: "ends (more_ips s) (connectBootstrap J clk addrs s)"
proof (induction addrs arbitrary: s)
  case (Cons a addrs)
  have next_one: "ends (more_ips s) (bind_outcome (connectToPeer J clk i t) (connectBootstrap J clk addrs))" if "same_ips s t" for i t
  proof (rule ends_bind [OF connect_ips])
    fix u
    assume "more_ips t u"
    then show "ends (more_ips s) (connectBootstrap J clk addrs u)"
      using Cons.IH [of u] that by (auto simp: ends_def ip_count_def intro: order_trans)
  qed
  show ?case by (auto simp: Let_def next_one split: prod.split sum.split option.split)
qed simp

lemma run_ips:
  assumes "\<And>i. a \<noteq> NmRemove i"
  shows "ends (more_ips s) (run_nm J clk a s)"
proof (cases a)
  case (NmReceive i raw)
  then show ?thesis by (simp add: receiveRaw_def same_more [OF process_ips])
next
  case (NmBan i)
  then show ?thesis by (simp add: same_more [OF ban_ips])
next
  case NmPing
  then show ?thesis by (simp add: pingAllPeers_def same_more [OF ping_ips])
next
  case NmEvict
  then show ?thesis using evict_ips [of s] by (simp add: ip_count_def)
next
  case NmStop
  then show ?thesis using stop_ips [of s] by (simp add: ip_count_def)
next
  case NmWorker
  then show ?thesis using worker_ips [of s] by (simp add: ip_count_def)
next
  case NmRetry
  then show ?thesis by (simp add: retryDisconnected_def connect_each_ips)
next
  case (NmConnect i)
  then show ?thesis by (simp add: connect_ips)
next
  case (NmBootstrap addrs)
  then show ?thesis by (simp add: bootstrap_ips)
qed (use assms in \<open>auto simp: broadcastBlock_def broadcastTx_def broadcast_def nm_addPeer_def unbanExpired_def
  nm_start_def ip_count_def split: option.split\<close>)

text \<open>A host that is full refuses a connection.\<close>

lemma full_refuses:
  assumes "find_peer i s = Some p" "ip_full s (np_host p)"
  shows "connectToPeer J clk i s = Done s"
  using assms by (simp add: connectToPeer_def)

lemma full_count: "nm_reach J s \<Longrightarrow> ip_full s h = (ip_count s h = 5)"
  using nm_okD(4,5) [OF reach_ok, of J s h] by (auto simp: ip_full_def ip_count_def nm_consts split: option.splits)

text \<open>The operation removes a connected peer of the host.\<close>

definition frees :: "nm_op \<Rightarrow> net_manager \<Rightarrow> string \<Rightarrow> bool" where
  "frees a s h \<longleftrightarrow> (case a of
     NmRemove i \<Rightarrow> (case find_peer i s of None \<Rightarrow> False | Some p \<Rightarrow> np_connected p \<and> np_host p = h)
   | _ \<Rightarrow> False)"

lemma remove_count: "ip_count (nm_removePeer i s) h = (if frees (NmRemove i) s h then ip_count s h - 1 else ip_count s h)"
  by (auto simp: nm_removePeer_def frees_def ip_count_def Let_def split: option.split)

lemma run_count:
  assumes "run_nm J clk a s = Done s'"
  shows "if frees a s h then ip_count s' h = ip_count s h - 1 else ip_count s h \<le> ip_count s' h"
proof (cases "\<exists>i. a = NmRemove i")
  case True
  then show ?thesis using assms by (auto simp: remove_count)
next
  case False
  then have "\<not> frees a s h" by (cases a) (simp_all add: frees_def)
  moreover have "ends (more_ips s) (run_nm J clk a s)" by (rule run_ips) (use False in simp)
  ultimately show ?thesis using assms by simp
qed

text \<open>C23: A disconnection does not give a host its place back. The removal of a connected peer of the host
  lowers its count by one, and no other operation lowers it: not the removal of a peer that is not connected,
  not a disconnection, an eviction or a ban. The count never exceeds five, and once it is five
  every connection to a peer of that host is refused, even when none of them is connected any more.
\<close>

theorem hosts_run_out:
  assumes "nm_reach J s" "run_nm J clk a s = Done s'"
  shows "(if \<exists>i p. a = NmRemove i \<and> find_peer i s = Some p \<and> np_connected p \<and> np_host p = h
      then ip_count s' h = ip_count s h - 1 else ip_count s h \<le> ip_count s' h) \<and>
    ip_count s' h \<le> 5 \<and>
    (\<forall>i p. ip_count s' h = 5 \<and> find_peer i s' = Some p \<and> np_host p = h \<longrightarrow> connectToPeer J clk' i s' = Done s')"
proof -
  have r: "nm_reach J s'" by (rule nm_reach.operated [OF assms])
  have f: "(\<exists>i p. a = NmRemove i \<and> find_peer i s = Some p \<and> np_connected p \<and> np_host p = h) = frees a s h"
    by (cases a) (auto simp: frees_def split: option.split)
  have "ip_count s' h \<le> 5" using nm_okD(5) [OF reach_ok [OF r], of h] by (simp add: nm_consts)
  moreover have "connectToPeer J clk' i s' = Done s'" if "ip_count s' h = 5" "find_peer i s' = Some p" "np_host p = h" for i p
    by (rule full_refuses [OF that(2)]) (simp add: full_count [OF r] that(1,3))
  ultimately show ?thesis using run_count [OF assms(2), of h] unfolding f by blast
qed

text \<open>One peer that connects and leaves again and again.\<close>

definition leaving_json :: json_lib where
  "leaving_json = \<lparr>js_dump = (\<lambda>j. Some ''x''), js_parse = (\<lambda>t. Some (JObject [(''type'', JUnsigned 1)]))\<rparr>"

definition visitor :: "nm_peer \<Rightarrow> bool" where
  "visitor p \<longleftrightarrow> \<not> np_banned p \<and> \<not> np_connected p \<and> \<not> np_trusted p \<and> np_host p = ''h''"

lemma visit:
  assumes "find_peer ''p'' s = Some p" "visitor p" "ip_count s ''h'' = n" "0 \<le> n" "n < 5" "np_ratePeriodStart p \<noteq> t"
  shows "\<exists>s1 s2 q. run_nm leaving_json (t, 0) (NmConnect ''p'') s = Done s1 \<and> run_nm leaving_json (t, 0) (NmReceive ''p'' ''x'') s1 = Done s2 \<and>
    find_peer ''p'' s2 = Some q \<and> visitor q \<and> ip_count s2 ''h'' = n + 1 \<and> np_ratePeriodStart q = t"
proof -
  have full: "\<not> ip_full s ''h''" using assms(3,4,5) by (simp add: ip_full_def ip_count_def nm_consts split: option.splits)
  have one: "(case nm_ipCount s ''h'' of None \<Rightarrow> 1 | Some k \<Rightarrow> k + 1) = n + 1"
    using assms(3) by (simp add: ip_count_def split: option.splits)
  show ?thesis using assms full one
    by (simp add: visitor_def connectToPeer_def leaving_json_def sendToPeer_def Let_def receiveRaw_def processMessage_def
      checkRateLimit_def new_period_def over_limit_def MAX_MESSAGES_PER_SEC_def MAX_BYTES_PER_SEC_def MAX_MESSAGE_BYTES_def
      dispatch_def msg_codes disconnectPeer_def ip_count_def)
qed

lemma visits: "n \<le> 5 \<Longrightarrow>
  \<exists>s p. nm_reach leaving_json s \<and> find_peer ''p'' s = Some p \<and> visitor p \<and> ip_count s ''h'' = int n \<and> np_ratePeriodStart p = of_nat n"
proof (induction n)
  case 0
  let ?s = "nm_addPeer ''p'' ''h'' 1 False 2 [] [] (NetworkManager [])"
  have "nm_reach leaving_json ?s"
    by (rule nm_reach.operated [OF nm_reach.created, where a = "NmAdd ''p'' ''h'' 1 False 2 [] []"]) simp
  moreover have "\<exists>p. find_peer ''p'' ?s = Some p \<and> visitor p \<and> ip_count ?s ''h'' = 0 \<and> np_ratePeriodStart p = 0"
    by (simp add: nm_addPeer_def NetworkManager_def ip_full_def NM_MAX_PEERS_def find_peer_def PeerState_def visitor_def ip_count_def)
  ultimately show ?case by auto
next
  case (Suc n)
  then obtain s p where s: "nm_reach leaving_json s" "find_peer ''p'' s = Some p" "visitor p" "ip_count s ''h'' = int n"
    "np_ratePeriodStart p = of_nat n" by auto
  obtain s1 s2 q where v: "run_nm leaving_json (of_nat (Suc n), 0) (NmConnect ''p'') s = Done s1"
    "run_nm leaving_json (of_nat (Suc n), 0) (NmReceive ''p'' ''x'') s1 = Done s2"
    "find_peer ''p'' s2 = Some q" "visitor q" "ip_count s2 ''h'' = int n + 1" "np_ratePeriodStart q = of_nat (Suc n)"
    using visit [OF s(2,3,4), of "of_nat (Suc n)"] Suc.prems s(5) by auto
  have "nm_reach leaving_json s2" by (rule nm_reach.operated [OF nm_reach.operated [OF s(1) v(1)] v(2)])
  then show ?case using v by auto
qed

lemma hosts_run_out_witness:
  "\<exists>s p. nm_reach leaving_json s \<and> find_peer ''p'' s = Some p \<and> \<not> np_connected p \<and> ip_count s ''h'' = 5 \<and>
     connectToPeer leaving_json (9, 0) ''p'' (unbanExpired (9, 0) s) = Done (unbanExpired (9, 0) s)"
proof -
  obtain s p where s: "nm_reach leaving_json s" "find_peer ''p'' s = Some p" "visitor p" "ip_count s ''h'' = 5"
    using visits [of 5] by auto
  have u: "run_nm leaving_json (9, 0) NmUnban s = Done (unbanExpired (9, 0) s)" by simp
  have "find_peer ''p'' (unbanExpired (9, 0) s) = Some p" "ip_count (unbanExpired (9, 0) s) ''h'' = 5"
    using s(2-4) by (simp_all add: find_peer_def unbanExpired_def map_of_map visitor_def ip_count_def)
  then have "connectToPeer leaving_json (9, 0) ''p'' (unbanExpired (9, 0) s) = Done (unbanExpired (9, 0) s)"
    using hosts_run_out [OF s(1) u, of "''h''" "(9, 0)"] s(3) by (auto simp: visitor_def)
  then show ?thesis using s by (auto simp: visitor_def)
qed

section \<open>The broadcast pool\<close>

lemma send_job_fields [simp]:
  "nm_queue (send_job s) = tl (nm_queue s)" "nm_poolStopped (send_job s) = nm_poolStopped s"
  by (simp_all add: send_job_def sendToPeer_def split: list.split)

lemma send_jobs_fields [simp]:
  "nm_queue ((send_job ^^ n) s) = drop n (nm_queue s)" "nm_poolStopped ((send_job ^^ n) s) = nm_poolStopped s"
  by (induction n) (simp_all add: drop_Suc tl_drop)

lemma workers_leave:
  assumes "nm_poolStopped s" "nm_queue s = []" "n \<le> nm_workers s"
  shows "(pool_worker ^^ n) s = s\<lparr>nm_workers := nm_workers s - n\<rparr>"
  using assms(3) by (induction n) (auto simp: pool_worker_def assms)

text \<open>
  The broadcast pool works once: after a stop its flag stays set, so that the threads of a second start leave
  while there is no job, and from then on no job is ever sent, though broadcasts go on to be accepted.
\<close>

theorem restarted_pool_is_dead:
  assumes "nm_running s" "0 < nm_workers s"
  shows "nm_running (nm_start (nm_stop s)) \<and>
    nm_workers ((pool_worker ^^ 8) (nm_start (nm_stop s))) = 0 \<and>
    pool_worker (((pool_worker ^^ 8) (nm_start (nm_stop s)))\<lparr>nm_queue := jobs\<rparr>) = ((pool_worker ^^ 8) (nm_start (nm_stop s)))\<lparr>nm_queue := jobs\<rparr>"
proof -
  let ?s = "nm_start (nm_stop s)"
  have stop: "nm_poolStopped (nm_stop s)" "nm_queue (nm_stop s) = []" "nm_workers (nm_stop s) = 0"
    using assms by (simp_all add: nm_stop_def Let_def)
  have s: "nm_poolStopped ?s" "nm_queue ?s = []" using stop by (simp_all add: nm_start_def)
  have run: "nm_running ?s" by (simp add: nm_start_def)
  have w: "nm_workers ?s = 8" if "\<not> nm_running (nm_stop s)" using that stop(3) by (simp add: nm_start_def BROADCAST_THREADS_def)
  have stopped: "\<not> nm_running ((send_job ^^ n) (s\<lparr>nm_running := False, nm_poolStopped := True\<rparr>))" for n
    by (induction n) (simp_all add: send_job_def sendToPeer_def upd_peer_def nm_add_def split: list.split)
  have "\<not> nm_running (nm_stop s)" using assms stopped by (simp add: nm_stop_def Let_def)
  then have "(pool_worker ^^ 8) ?s = ?s\<lparr>nm_workers := 0\<rparr>" using workers_leave [OF s, of 8] w by simp
  then show ?thesis using run by (simp add: pool_worker_def)
qed

lemma restarted_pool_is_dead_witness:
  "nm_workers ((pool_worker ^^ 8) (nm_start (nm_stop (nm_start (NetworkManager []))))) = 0"
  using restarted_pool_is_dead [of "nm_start (NetworkManager [])"] by (simp add: nm_start_def NetworkManager_def BROADCAST_THREADS_def)

end
