(* ===== verification/Secp256k1.thy ===== *)
theory Secp256k1
  imports Signature
begin

text \<open>
  The wrapper of libsecp256k1, \<^verbatim>\<open>src/src/crypto/secp256k1_wrapper.cpp\<close>: random bytes, the shared
  context that is made once, key generation, recoverable signatures, recovery of public keys. The library
  and the random sources of the operating system are parameters; the branch for Windows is not modelled,
  nor are logging, randomization of the context and threads.
\<close>

section \<open>Parameters\<close>

record ('pk, 'sg, 'rs) secp_lib = "('pk, 'sg, 'rs) secp" +
  sl_seckey_verify :: "bytes \<Rightarrow> bool"
  sl_pubkey_create :: "bytes \<Rightarrow> 'pk option"
  sl_sign :: "bytes \<Rightarrow> bytes \<Rightarrow> 'rs option"
  sl_recoverable_compact :: "'rs \<Rightarrow> bytes \<times> int"
  sl_was_high :: "'sg \<Rightarrow> bool"   \<comment> \<open>what the normalization answers\<close>
  sl_serialize_compact :: "'sg \<Rightarrow> bytes"

text \<open>Two sources of random bytes, \<open>None\<close> when fewer bytes than asked for are read.\<close>

record 'g random_os =
  os_getrandom :: "nat \<Rightarrow> 'g \<Rightarrow> bytes option \<times> 'g"
  os_urandom :: "nat \<Rightarrow> 'g \<Rightarrow> bytes option \<times> 'g"
  os_context :: bool   \<comment> \<open>the library's context can be allocated\<close>

record Secp256k1Keypair =
  kp_privkey :: bytes
  kp_compressed :: bytes
  kp_uncompressed :: bytes

record Secp256k1Signature =
  sig_r :: bytes
  sig_s :: bytes
  sig_recid :: int

text \<open>The wrapper's state: whether the context was made, and the random source.\<close>

record 'g wrapper =
  wr_ctx :: bool
  wr_rng :: 'g

section \<open>Random bytes and the context\<close>

definition secureRandom :: "'g random_os \<Rightarrow> nat \<Rightarrow> 'g \<Rightarrow> bytes option \<times> 'g" where
  "secureRandom R n g =
     (if n = 0 then (None, g)
      else
        case os_getrandom R n g of
          (Some buf, g) \<Rightarrow> (Some buf, g)
        | (None, g) \<Rightarrow> os_urandom R n g)"

definition entropyHealthCheck :: "'g random_os \<Rightarrow> 'g \<Rightarrow> bool \<times> 'g" where
  "entropyHealthCheck R g =
     (case secureRandom R 32 g of
        (None, g) \<Rightarrow> (False, g)
      | (Some a, g) \<Rightarrow>
          (case secureRandom R 32 g of
             (None, g) \<Rightarrow> (False, g)
           | (Some b, g) \<Rightarrow> if a = b then (False, g) else if list_all (\<lambda>x. x = 0) a then (False, g) else (True, g)))"

text \<open>An exception leaves the flag unset: the next call tries again.\<close>

definition getCtx :: "'g random_os \<Rightarrow> 'g wrapper \<Rightarrow> bool \<times> 'g wrapper" where
  "getCtx R w =
     (if wr_ctx w then (True, w)
      else
        case entropyHealthCheck R (wr_rng w) of
          (ok, g) \<Rightarrow>
            if \<not> ok then (False, w\<lparr>wr_rng := g\<rparr>)
            else if \<not> os_context R then (False, w\<lparr>wr_rng := g\<rparr>)
            else (True, w\<lparr>wr_ctx := True, wr_rng := snd (secureRandom R 32 g)\<rparr>))"

section \<open>Keys\<close>

definition MAX_ATTEMPTS :: nat where "MAX_ATTEMPTS = 64"

text \<open>One attempt with 32 random bytes.\<close>

definition keypair_of :: "('pk, 'sg, 'rs) secp_lib \<Rightarrow> bytes \<Rightarrow> Secp256k1Keypair option" where
  "keypair_of S k =
     (if \<not> sl_seckey_verify S k then None
      else
        case sl_pubkey_create S k of
          None \<Rightarrow> None
        | Some pub \<Rightarrow>
            if length (sp_compressed S pub) \<noteq> 33 then None
            else if length (sp_uncompressed S pub) \<noteq> 65 then None
            else Some \<lparr>kp_privkey = k, kp_compressed = sp_compressed S pub, kp_uncompressed = sp_uncompressed S pub\<rparr>)"

fun generate_loop :: "('pk, 'sg, 'rs) secp_lib \<Rightarrow> 'g random_os \<Rightarrow> nat \<Rightarrow> 'g \<Rightarrow> Secp256k1Keypair option \<times> 'g" where
  "generate_loop S R 0 g = (None, g)"
| "generate_loop S R (Suc n) g =
     (case secureRandom R 32 g of
        (None, g) \<Rightarrow> (None, g)
      | (Some k, g) \<Rightarrow> (case keypair_of S k of Some kp \<Rightarrow> (Some kp, g) | None \<Rightarrow> generate_loop S R n g))"

definition generateKeypair :: "('pk, 'sg, 'rs) secp_lib \<Rightarrow> 'g random_os \<Rightarrow> 'g wrapper \<Rightarrow> Secp256k1Keypair option \<times> 'g wrapper" where
  "generateKeypair S R w =
     (case getCtx R w of
        (ok, w) \<Rightarrow>
          if \<not> ok then (None, w)
          else case generate_loop S R MAX_ATTEMPTS (wr_rng w) of (kp, g) \<Rightarrow> (kp, w\<lparr>wr_rng := g\<rparr>))"

section \<open>Signatures\<close>

definition signRecoverable ::
    "('pk, 'sg, 'rs) secp_lib \<Rightarrow> 'g random_os \<Rightarrow> bytes \<Rightarrow> bytes \<Rightarrow> 'g wrapper \<Rightarrow> Secp256k1Signature option \<times> 'g wrapper" where
  "signRecoverable S R hash32 privkey w =
     (case getCtx R w of
        (ok, w) \<Rightarrow>
          if \<not> ok then (None, w)
          else if \<not> sl_seckey_verify S privkey then (None, w)
          else
            case sl_sign S hash32 privkey of
              None \<Rightarrow> (None, w)
            | Some sigRec \<Rightarrow>
                (case sl_recoverable_compact S sigRec of
                   (compact, recid) \<Rightarrow>
                     if recid < 0 \<or> recid > 1 then (None, w)
                     else (Some \<lparr>sig_r = take 32 compact, sig_s = take 32 (drop 32 compact), sig_recid = recid\<rparr>, w)))"

definition recoverRawPubkey ::
    "('pk, 'sg, 'rs) secp_lib \<Rightarrow> 'g random_os \<Rightarrow> bytes \<Rightarrow> Secp256k1Signature \<Rightarrow> 'g wrapper \<Rightarrow> 'pk option \<times> 'g wrapper" where
  "recoverRawPubkey S R hash32 sig w =
     (if sig_recid sig < 0 \<or> sig_recid sig > 3 then (None, w)
      else
        case getCtx R w of
          (ok, w) \<Rightarrow>
            if \<not> ok then (None, w)
            else
              case sp_parse_recoverable S (sig_r sig @ sig_s sig) (nat (sig_recid sig)) of
                None \<Rightarrow> (None, w)
              | Some sigRec \<Rightarrow> (sp_recover S sigRec hash32, w))"

definition recoverPubkeyUncompressed ::
    "('pk, 'sg, 'rs) secp_lib \<Rightarrow> 'g random_os \<Rightarrow> bytes \<Rightarrow> Secp256k1Signature \<Rightarrow> 'g wrapper \<Rightarrow> bytes option \<times> 'g wrapper" where
  "recoverPubkeyUncompressed S R hash32 sig w =
     (case recoverRawPubkey S R hash32 sig w of
        (None, w) \<Rightarrow> (None, w)
      | (Some pub, w) \<Rightarrow> if length (sp_uncompressed S pub) \<noteq> 65 then (None, w) else (Some (sp_uncompressed S pub), w))"

definition recoverPubkeyCompressed ::
    "('pk, 'sg, 'rs) secp_lib \<Rightarrow> 'g random_os \<Rightarrow> bytes \<Rightarrow> Secp256k1Signature \<Rightarrow> 'g wrapper \<Rightarrow> bytes option \<times> 'g wrapper" where
  "recoverPubkeyCompressed S R hash32 sig w =
     (case recoverRawPubkey S R hash32 sig w of
        (None, w) \<Rightarrow> (None, w)
      | (Some pub, w) \<Rightarrow> if length (sp_compressed S pub) \<noteq> 33 then (None, w) else (Some (sp_compressed S pub), w))"

section \<open>Generated keys\<close>

lemma keypair_of_SomeD:
  assumes "keypair_of S k = Some kp"
  shows "kp_privkey kp = k" "sl_seckey_verify S k" "\<exists>pub. sl_pubkey_create S k = Some pub \<and>
    kp_compressed kp = sp_compressed S pub \<and> kp_uncompressed kp = sp_uncompressed S pub"
    "length (kp_compressed kp) = 33" "length (kp_uncompressed kp) = 65"
  using assms by (auto simp: keypair_of_def split: if_splits option.splits)

text \<open>The state of the source before the \<open>i\<close>-th draw of 32 bytes, and the bytes of that draw.\<close>

definition before_draw :: "'g random_os \<Rightarrow> 'g \<Rightarrow> nat \<Rightarrow> 'g" where
  "before_draw R g i = ((\<lambda>g. snd (secureRandom R 32 g)) ^^ i) g"

definition draw :: "'g random_os \<Rightarrow> 'g \<Rightarrow> nat \<Rightarrow> bytes option" where
  "draw R g i = fst (secureRandom R 32 (before_draw R g i))"

lemma draw_Suc: "draw R g (Suc i) = draw R (snd (secureRandom R 32 g)) i"
  by (simp add: draw_def before_draw_def funpow_Suc_right del: funpow.simps)

lemma draw_0 [simp]: "draw R g 0 = fst (secureRandom R 32 g)"
  by (simp add: draw_def before_draw_def)

text \<open>The first draw that makes a keypair, among those before the source fails.\<close>

definition first_valid :: "('pk, 'sg, 'rs) secp_lib \<Rightarrow> (nat \<Rightarrow> bytes option) \<Rightarrow> nat \<Rightarrow> Secp256k1Keypair \<Rightarrow> bool" where
  "first_valid S d i kp \<longleftrightarrow> (\<exists>k. d i = Some k \<and> keypair_of S k = Some kp) \<and> (\<forall>j < i. \<exists>k. d j = Some k \<and> keypair_of S k = None)"

lemma first_valid_0: "first_valid S d 0 kp \<longleftrightarrow> (\<exists>k. d 0 = Some k \<and> keypair_of S k = Some kp)"
  by (simp add: first_valid_def)

lemma first_valid_Suc:
  "first_valid S d (Suc i) kp \<longleftrightarrow> (\<exists>k. d 0 = Some k \<and> keypair_of S k = None) \<and> first_valid S (\<lambda>j. d (Suc j)) i kp"
  unfolding first_valid_def All_less_Suc2 by blast

lemma generate_loop_first:
  "fst (generate_loop S R n g) = Some kp \<longleftrightarrow> (\<exists>i < n. first_valid S (draw R g) i kp)"
proof (induction n arbitrary: g)
  case (Suc n)
  let ?g = "snd (secureRandom R 32 g)"
  have rest: "(\<lambda>j. draw R g (Suc j)) = draw R ?g" by (simp add: draw_Suc)
  have step: "(\<exists>i < Suc n. first_valid S (draw R g) i kp) \<longleftrightarrow>
      first_valid S (draw R g) 0 kp \<or> (\<exists>i < n. first_valid S (draw R g) (Suc i) kp)"
    unfolding Ex_less_Suc2 by simp
  show ?case unfolding step first_valid_0 first_valid_Suc rest
    using Suc.IH [of ?g] by (auto split: prod.split option.split)
qed simp

text \<open>
  Key generation answers the keypair of the first of at most 64 draws that the library accepts, and
  nothing when the source fails before it or all of them are refused.
\<close>

theorem generateKeypair_first:
  assumes "wr_ctx w"
  shows "fst (generateKeypair S R w) = Some kp \<longleftrightarrow> (\<exists>i < 64. first_valid S (draw R (wr_rng w)) i kp)"
  using assms generate_loop_first [of S R MAX_ATTEMPTS "wr_rng w" kp]
  by (simp add: generateKeypair_def getCtx_def MAX_ATTEMPTS_def case_prod_beta)

section \<open>The check of the random source\<close>

text \<open>
  From a source that always answers the same bytes no context is made: no key is generated, nothing is
  signed and no key is recovered.
\<close>

theorem constant_source_refused:
  assumes "\<not> wr_ctx w" "\<And>g. fst (secureRandom R 32 g) = Some b"
  shows "\<not> fst (getCtx R w) \<and> fst (generateKeypair S R w) = None \<and> fst (signRecoverable S R h k w) = None \<and>
    fst (recoverPubkeyUncompressed S R h sig w) = None \<and> fst (recoverPubkeyCompressed S R h sig w) = None"
proof (intro conjI)
  have bad: "\<not> fst (entropyHealthCheck R (wr_rng w))"
    using assms(2) [of "wr_rng w"] assms(2) [of "snd (secureRandom R 32 (wr_rng w))"]
    by (cases "secureRandom R 32 (wr_rng w)"; cases "secureRandom R 32 (snd (secureRandom R 32 (wr_rng w)))") (simp add: entropyHealthCheck_def)
  show ctx: "\<not> fst (getCtx R w)" using assms(1) bad by (simp add: getCtx_def case_prod_beta)
  show "fst (generateKeypair S R w) = None" "fst (signRecoverable S R h k w) = None"
    using ctx by (simp_all add: generateKeypair_def signRecoverable_def case_prod_beta)
  have raw: "fst (recoverRawPubkey S R h sig w) = None" using ctx by (simp add: recoverRawPubkey_def case_prod_beta)
  then show "fst (recoverPubkeyUncompressed S R h sig w) = None" "fst (recoverPubkeyCompressed S R h sig w) = None"
    by (cases "recoverRawPubkey S R h sig w"; simp add: recoverPubkeyUncompressed_def recoverPubkeyCompressed_def)+
qed

section \<open>Signing and recovery\<close>

text \<open>
  What the library documents: a signature made with a valid secret key recovers that key's public key; the
  compact form of 64 bytes and the recovery id give the signature back; the lengths of the two forms of a key.
\<close>

definition secp_laws :: "('pk, 'sg, 'rs) secp_lib \<Rightarrow> bool" where
  "secp_laws S \<longleftrightarrow>
     (\<forall>h k rs. sl_sign S h k = Some rs \<longrightarrow> (\<exists>pk. sl_pubkey_create S k = Some pk \<and> sp_recover S rs h = Some pk)) \<and>
     (\<forall>h k rs. sl_sign S h k = Some rs \<longrightarrow> length (fst (sl_recoverable_compact S rs)) = 64 \<and>
        sp_parse_recoverable S (fst (sl_recoverable_compact S rs)) (nat (snd (sl_recoverable_compact S rs))) = Some rs) \<and>
     (\<forall>pk. length (sp_compressed S pk) = 33 \<and> length (sp_uncompressed S pk) = 65)"

text \<open>The public key of a keypair's secret key is recovered from what it signs.\<close>

lemma signed_recovers:
  assumes laws: "secp_laws S" and w: "wr_ctx w" and kp: "keypair_of S k = Some kp"
    and sig: "fst (signRecoverable S R h k w) = Some sig"
  shows "recoverPubkeyUncompressed S R h sig w = (Some (kp_uncompressed kp), w)"
    "recoverPubkeyCompressed S R h sig w = (Some (kp_compressed kp), w)"
    "0 \<le> sig_recid sig \<and> sig_recid sig \<le> 1" "length (sig_r sig) = 32 \<and> length (sig_s sig) = 32"
proof -
  from sig w obtain rs where rs: "sl_sign S h k = Some rs"
    and s: "sig = \<lparr>sig_r = take 32 (fst (sl_recoverable_compact S rs)), sig_s = take 32 (drop 32 (fst (sl_recoverable_compact S rs))),
        sig_recid = snd (sl_recoverable_compact S rs)\<rparr>" "0 \<le> snd (sl_recoverable_compact S rs)" "snd (sl_recoverable_compact S rs) \<le> 1"
    by (auto simp: signRecoverable_def getCtx_def case_prod_beta split: if_splits option.splits)
  from laws rs obtain pk where pk: "sl_pubkey_create S k = Some pk" "sp_recover S rs h = Some pk" unfolding secp_laws_def by blast
  have l: "length (fst (sl_recoverable_compact S rs)) = 64"
    "sp_parse_recoverable S (fst (sl_recoverable_compact S rs)) (nat (snd (sl_recoverable_compact S rs))) = Some rs"
    "length (sp_compressed S pk) = 33" "length (sp_uncompressed S pk) = 65"
    using laws rs unfolding secp_laws_def by blast+
  have rejoin: "take 32 (fst (sl_recoverable_compact S rs)) @ take 32 (drop 32 (fst (sl_recoverable_compact S rs))) = fst (sl_recoverable_compact S rs)"
    using l(1) by (metis append_take_drop_id take_all length_drop order_refl diff_add_inverse numeral_Bit0)
  have raw: "recoverRawPubkey S R h sig w = (Some pk, w)"
    using s w l(2) pk(2) by (simp add: recoverRawPubkey_def getCtx_def rejoin)
  show "recoverPubkeyUncompressed S R h sig w = (Some (kp_uncompressed kp), w)"
    "recoverPubkeyCompressed S R h sig w = (Some (kp_compressed kp), w)"
    using raw l(3,4) pk(1) keypair_of_SomeD(3) [OF kp] by (auto simp: recoverPubkeyUncompressed_def recoverPubkeyCompressed_def)
  show "0 \<le> sig_recid sig \<and> sig_recid sig \<le> 1" "length (sig_r sig) = 32 \<and> length (sig_s sig) = 32"
    using s l(1) by simp_all
qed

lemma getCtx_ready: "getCtx R w = (True, w') \<Longrightarrow> wr_ctx w'"
  by (auto simp: getCtx_def split: prod.splits if_splits)

lemma generated:
  assumes "generateKeypair S R w = (Some kp, w')"
  shows "wr_ctx w'" "keypair_of S (kp_privkey kp) = Some kp"
proof -
  have ok: "fst (getCtx R w)" using assms by (auto simp: generateKeypair_def case_prod_beta split: if_splits)
  then have "wr_ctx (snd (getCtx R w))" using getCtx_ready [of R w "snd (getCtx R w)"] by (metis prod.collapse)
  then show "wr_ctx w'" using assms ok by (auto simp: generateKeypair_def case_prod_beta)
  have "fst (generate_loop S R MAX_ATTEMPTS (wr_rng (snd (getCtx R w)))) = Some kp"
    using assms ok by (auto simp: generateKeypair_def case_prod_beta)
  then obtain i k where "keypair_of S k = Some kp" unfolding generate_loop_first first_valid_def by blast
  then show "keypair_of S (kp_privkey kp) = Some kp" using keypair_of_SomeD(1) by metis
qed

lemma sign_ready: "wr_ctx w \<Longrightarrow> snd (signRecoverable S R h k w) = w"
  by (auto simp: signRecoverable_def getCtx_def split: prod.splits option.splits)

text \<open>
  From a signature made with a generated secret key both forms of the generated public key are
  recovered, under the laws of the library.
\<close>

theorem sign_then_recover:
  assumes "secp_laws S" "generateKeypair S R w = (Some kp, w1)" "signRecoverable S R h (kp_privkey kp) w1 = (Some sig, w2)"
  shows "recoverPubkeyUncompressed S R h sig w2 = (Some (kp_uncompressed kp), w2) \<and>
    recoverPubkeyCompressed S R h sig w2 = (Some (kp_compressed kp), w2)"
proof -
  have w: "wr_ctx w1" "keypair_of S (kp_privkey kp) = Some kp" using generated [OF assms(2)] by auto
  have "w2 = w1" using sign_ready [OF w(1), of S R h "kp_privkey kp"] assms(3) by simp
  then show ?thesis using signed_recovers(1,2) [OF assms(1) w] assms(3) by simp
qed

section \<open>An instance\<close>

text \<open>A library with one key; signatures with a last byte of 255 are high.\<close>

definition one_key_lib :: "(unit, bytes, bytes \<times> nat) secp_lib" where
  "one_key_lib =
     \<lparr>sp_pubkey_parse = (\<lambda>b. Some ()), sp_parse_compact = (\<lambda>b. Some b),
      sp_normalize = (\<lambda>b. if last b = 255 then butlast b @ [1] else b), sp_verify = (\<lambda>s h k. True),
      sp_parse_recoverable = (\<lambda>b i. Some (b, i)), sp_recover = (\<lambda>s h. Some ()),
      sp_compressed = (\<lambda>k. 2 # replicate 32 7), sp_uncompressed = (\<lambda>k. 4 # replicate 64 7),
      sl_seckey_verify = (\<lambda>k. k \<noteq> replicate 32 0), sl_pubkey_create = (\<lambda>k. Some ()), sl_sign = (\<lambda>h k. Some (replicate 64 1, 0)),
      sl_recoverable_compact = (\<lambda>s. (fst s, int (snd s))),
      sl_was_high = (\<lambda>b. last b = 255), sl_serialize_compact = (\<lambda>b. b)\<rparr>"

definition counting_os :: "nat random_os" where
  "counting_os = \<lparr>os_getrandom = (\<lambda>n g. (Some (replicate n (word_of_nat g)), Suc g)), os_urandom = (\<lambda>n g. (None, g)), os_context = True\<rparr>"

lemma one_key_laws: "secp_laws one_key_lib"
  by (simp add: secp_laws_def one_key_lib_def)

abbreviation fresh_wrapper :: "nat wrapper" where
  "fresh_wrapper \<equiv> \<lparr>wr_ctx = False, wr_rng = 1\<rparr>"

abbreviation ready_wrapper :: "nat wrapper" where
  "ready_wrapper \<equiv> \<lparr>wr_ctx = True, wr_rng = 4\<rparr>"

definition some_keypair :: Secp256k1Keypair where
  "some_keypair = \<lparr>kp_privkey = replicate 32 4, kp_compressed = 2 # replicate 32 7, kp_uncompressed = 4 # replicate 64 7\<rparr>"

definition some_signature :: Secp256k1Signature where
  "some_signature = \<lparr>sig_r = replicate 32 1, sig_s = replicate 32 1, sig_recid = 0\<rparr>"

lemma random_counting: "n > 0 \<Longrightarrow> secureRandom counting_os n g = (Some (replicate n (word_of_nat g)), Suc g)"
  by (simp add: secureRandom_def counting_os_def)

lemma fresh_ready: "getCtx counting_os fresh_wrapper = (True, ready_wrapper)"
proof -
  have "entropyHealthCheck counting_os (Suc 0) = (True, 3)"
    by (simp add: entropyHealthCheck_def random_counting list_all_iff)
  then show ?thesis by (simp add: getCtx_def random_counting) (simp add: counting_os_def)
qed

lemma ready_generates:
  "generateKeypair one_key_lib counting_os ready_wrapper = (Some some_keypair, \<lparr>wr_ctx = True, wr_rng = 5\<rparr>)"
proof -
  have k: "keypair_of one_key_lib (replicate 32 4) = Some some_keypair"
    by (simp add: keypair_of_def one_key_lib_def some_keypair_def)
  have "generate_loop one_key_lib counting_os (Suc 63) 4 = (Some some_keypair, 5)"
    unfolding generate_loop.simps(2) by (simp add: random_counting k)
  then show ?thesis by (simp add: generateKeypair_def getCtx_def MAX_ATTEMPTS_def)
qed

lemma ready_signs:
  "signRecoverable one_key_lib counting_os h (kp_privkey some_keypair) \<lparr>wr_ctx = True, wr_rng = n\<rparr> =
     (Some some_signature, \<lparr>wr_ctx = True, wr_rng = n\<rparr>)"
  by (simp add: signRecoverable_def getCtx_def one_key_lib_def some_keypair_def some_signature_def)

lemma generateKeypair_first_witness:
  "\<exists>i < 64. first_valid one_key_lib (draw counting_os 4) i some_keypair"
  using generateKeypair_first [of ready_wrapper one_key_lib counting_os some_keypair] by (simp add: ready_generates)

lemma constant_source_refused_witness:
  "fst (generateKeypair one_key_lib (counting_os\<lparr>os_getrandom := (\<lambda>n g. (Some (replicate n 7), g))\<rparr>) fresh_wrapper) = None"
  using constant_source_refused [of fresh_wrapper "counting_os\<lparr>os_getrandom := (\<lambda>n g. (Some (replicate n 7), g))\<rparr>" "replicate 32 7" one_key_lib]
  by (simp add: secureRandom_def)

lemma sign_then_recover_witness:
  "recoverPubkeyUncompressed one_key_lib counting_os [1] some_signature \<lparr>wr_ctx = True, wr_rng = 5\<rparr> =
     (Some (kp_uncompressed some_keypair), \<lparr>wr_ctx = True, wr_rng = 5\<rparr>)"
  using sign_then_recover [OF one_key_laws ready_generates ready_signs] by blast

end
