(* ===== verification/NodeIdentity.thy ===== *)
theory NodeIdentity
  imports Secp256k1
begin

text \<open>
  The identity of a node, \<^verbatim>\<open>src/src/net/node_identity.cpp\<close>: the key file, keys and node identifiers,
  enode addresses, signatures with a domain tag in canonical form. Files are a map from paths to permission bits
  and contents; what each system call answers is an argument. The file is written as on POSIX systems; the
  branch for Windows is not modelled. An array in memory is a list of its length.
\<close>

section \<open>Hashes and comparison\<close>

definition DOMAIN_TAG :: bytes where
  "DOMAIN_TAG = 0x19 # map (\<lambda>c. of_char c) ''MedorCoin Signed Node Message:'' @ [0x0A] @ map (\<lambda>c. of_char c) ''32''"

definition toHex :: "bytes \<Rightarrow> nat \<Rightarrow> string" where
  "toHex data len = hex_bytes (take len data)"

definition constTimeEqual :: "bytes \<Rightarrow> bytes \<Rightarrow> nat \<Rightarrow> bool" where
  "constTimeEqual a b len =
     (if len = 0 then False else foldl (\<lambda>diff i. diff OR (a ! i XOR b ! i)) 0 [0..<len] = 0)"

text \<open>The flag and the hash.\<close>

definition domainHash :: "bytes \<Rightarrow> bool \<times> bytes" where
  "domainHash hash32 =
     (let result = Keccak256_ptr (Some (DOMAIN_TAG @ hash32)) (length (DOMAIN_TAG @ hash32))
      in if length result \<noteq> 32 then (False, replicate 32 0) else (True, result))"

definition deriveNodeId :: "bytes \<Rightarrow> string" where
  "deriveNodeId pubkey64 =
     (let hash = Keccak256_ptr (Some pubkey64) 64 in if length hash \<noteq> 32 then [] else toHex (drop 12 hash) 20)"

section \<open>Canonical signatures\<close>

text \<open>The signature afterwards, \<open>None\<close> when it is refused.\<close>

definition enforceCanonical ::
    "('pk, 'sg, 'rs) secp_lib \<Rightarrow> 'g random_os \<Rightarrow> Secp256k1Signature \<Rightarrow> 'g wrapper \<Rightarrow> Secp256k1Signature option \<times> 'g wrapper" where
  "enforceCanonical S R sig w =
     (if sig_recid sig < 0 \<or> sig_recid sig > 1 then (None, w)
      else if list_all (\<lambda>b. b = 0) (sig_r sig) \<or> list_all (\<lambda>b. b = 0) (sig_s sig) then (None, w)
      else
        case getCtx R w of
          (ok, w) \<Rightarrow>
            if \<not> ok then (None, w)
            else
              case sp_parse_compact S (sig_r sig @ sig_s sig) of
                None \<Rightarrow> (None, w)
              | Some libsig \<Rightarrow>
                  let compact = sl_serialize_compact S (sp_normalize S libsig);
                      recid = (if sl_was_high S libsig then 1 - sig_recid sig else sig_recid sig)
                  in if recid < 0 \<or> recid > 1 then (None, w)
                     else (Some \<lparr>sig_r = take 32 compact, sig_s = take 32 (drop 32 compact), sig_recid = recid\<rparr>, w))"

section \<open>The key file\<close>

type_synonym files = "string \<Rightarrow> (nat \<times> string) option"   \<comment> \<open>permission bits and content\<close>

record system_calls =
  sc_open :: bool
  sc_writes :: "int list"   \<comment> \<open>what each call of \<^verbatim>\<open>write\<close> answers\<close>
  sc_fsync :: bool
  sc_rename :: bool
  sc_unlink :: bool

text \<open>What was written, and whether it is all; a \<^verbatim>\<open>write\<close> without an answer fails.\<close>

fun write_loop :: "int list \<Rightarrow> string \<Rightarrow> string \<times> bool" where
  "write_loop ws [] = ([], True)"
| "write_loop [] content = ([], False)"
| "write_loop (n # ws) content =
     (if n \<le> 0 then ([], False)
      else case write_loop ws (drop (nat n) content) of (out, ok) \<Rightarrow> (take (nat n) content @ out, ok))"

text \<open>The answers of \<^verbatim>\<open>unlink\<close> and \<^verbatim>\<open>close\<close> are not looked at; an \<^verbatim>\<open>unlink\<close> that fails leaves the file.\<close>

definition unlink_file :: "system_calls \<Rightarrow> string \<Rightarrow> files \<Rightarrow> files" where
  "unlink_file sc path fs = (if sc_unlink sc then fs(path := None) else fs)"

definition writeKeyFilePosix :: "system_calls \<Rightarrow> string \<Rightarrow> string \<Rightarrow> files \<Rightarrow> (cxx_exn + unit) \<times> files" where
  "writeKeyFilePosix sc content path fs =
     (let tmp = path @ ''.tmp''
      in if \<not> sc_open sc then (Inl Runtime_error, fs)
         else
           let mode = (case fs tmp of None \<Rightarrow> 384 | Some (m, old) \<Rightarrow> m)   \<comment> \<open>0600 for a new file\<close>
           in case write_loop (sc_writes sc) content of
                (out, ok) \<Rightarrow>
                  let fs = fs(tmp \<mapsto> (mode, out))
                  in if \<not> ok then (Inl Runtime_error, unlink_file sc tmp fs)
                     else if \<not> sc_fsync sc then (Inl Runtime_error, unlink_file sc tmp fs)
                     else if \<not> sc_rename sc then (Inl Runtime_error, unlink_file sc tmp fs)
                     else (Inr (), fs(tmp := None, path := fs tmp)))"

text \<open>The bits of the group and of others that allow reading or writing, 0066.\<close>

definition checkFilePermissions :: "string \<Rightarrow> files \<Rightarrow> cxx_exn + unit" where
  "checkFilePermissions path fs =
     (case fs path of None \<Rightarrow> Inr () | Some (m, c) \<Rightarrow> if (m :: nat) AND 54 \<noteq> 0 then Inl Runtime_error else Inr ())"

definition key_content :: "bytes \<Rightarrow> string \<Rightarrow> string" where
  "key_content key path =
     ''# MedorCoin node private key'' @ [CHR 0x0A] @ ''# DO NOT share or commit this file.'' @ [CHR 0x0A] @
     ''# Add to .gitignore: '' @ path @ [CHR 0x0A] @ toHex key 32 @ [CHR 0x0A]"

definition savePrivkeyToFile :: "system_calls \<Rightarrow> bytes \<Rightarrow> string \<Rightarrow> files \<Rightarrow> (cxx_exn + unit) \<times> files" where
  "savePrivkeyToFile sc key path fs = writeKeyFilePosix sc (key_content key path) path fs"

text \<open>The lines that \<^verbatim>\<open>std::getline\<close> reads.\<close>

function file_lines :: "string \<Rightarrow> string list" where
  "file_lines text =
     (if text = [] then []
      else takeWhile (\<lambda>c. c \<noteq> CHR 0x0A) text # file_lines (drop 1 (dropWhile (\<lambda>c. c \<noteq> CHR 0x0A) text)))"
  by auto
termination
proof (relation "measure length")
  fix s :: string
  assume "s \<noteq> []"
  moreover have "length (dropWhile (\<lambda>c. c \<noteq> CHR 0x0A) s) \<le> length s" by (rule length_dropWhile_le)
  ultimately have "length (dropWhile (\<lambda>c. c \<noteq> CHR 0x0A) s) - 1 < length s" by (cases s) auto
  then show "(drop 1 (dropWhile (\<lambda>c. c \<noteq> CHR 0x0A) s), s) \<in> measure length" by simp
qed simp

declare file_lines.simps [simp del]

definition is_line_space :: "char \<Rightarrow> bool" where
  "is_line_space c \<longleftrightarrow> c \<in> {CHR 0x0D, CHR 0x0A, CHR '' '', CHR 0x09}"

definition trim_line :: "string \<Rightarrow> string" where
  "trim_line line = rev (dropWhile is_line_space (rev (dropWhile (\<lambda>c. c = CHR 0xEF \<or> is_line_space c) line)))"

text \<open>Pairs of hexadecimal digits.\<close>

fun read_hex :: "string \<Rightarrow> bytes" where
  "read_hex (c # d # cs) = word_of_nat (16 * the (hex_digit_val c) + the (hex_digit_val d)) # read_hex cs"
| "read_hex cs = []"

fun load_lines :: "string list \<Rightarrow> cxx_exn + bytes" where
  "load_lines [] = Inl Runtime_error"
| "load_lines (l # ls) =
     (let line = trim_line l
      in if line = [] \<or> hd line = CHR ''#'' then load_lines ls
         else if length line \<noteq> 64 then Inl Runtime_error
         else if \<not> list_all is_hex line then Inl Runtime_error
         else Inr (read_hex line))"

definition loadPrivkeyFromFile :: "string \<Rightarrow> files \<Rightarrow> cxx_exn + bytes" where
  "loadPrivkeyFromFile path fs =
     (case checkFilePermissions path fs of
        Inl e \<Rightarrow> Inl e
      | Inr _ \<Rightarrow> (case fs path of None \<Rightarrow> Inl Runtime_error | Some (m, text) \<Rightarrow> load_lines (file_lines text)))"

section \<open>Identities\<close>

record node_identity =
  ni_keypair :: Secp256k1Keypair
  ni_pubkey64 :: bytes
  ni_nodeId :: string

definition zero_keypair :: Secp256k1Keypair where
  "zero_keypair = \<lparr>kp_privkey = replicate 32 0, kp_compressed = replicate 33 0, kp_uncompressed = replicate 65 0\<rparr>"

text \<open>The moved identity and what is left of the source.\<close>

definition move_identity :: "node_identity \<Rightarrow> node_identity \<times> node_identity" where
  "move_identity src = (src, \<lparr>ni_keypair = zero_keypair, ni_pubkey64 = replicate 64 0, ni_nodeId = []\<rparr>)"

definition buildFromKeypair :: "Secp256k1Keypair \<Rightarrow> cxx_exn + node_identity" where
  "buildFromKeypair kp =
     (if hd (kp_compressed kp) \<noteq> 2 \<and> hd (kp_compressed kp) \<noteq> 3 then Inl Runtime_error
      else if hd (kp_uncompressed kp) \<noteq> 4 then Inl Runtime_error
      else
        let pubkey64 = take 64 (drop 1 (kp_uncompressed kp)); nodeId = deriveNodeId pubkey64
        in if nodeId = [] then Inl Runtime_error
           else Inr \<lparr>ni_keypair = kp, ni_pubkey64 = pubkey64, ni_nodeId = nodeId\<rparr>)"

definition loadFromFile ::
    "('pk, 'sg, 'rs) secp_lib \<Rightarrow> 'g random_os \<Rightarrow> string \<Rightarrow> files \<Rightarrow> 'g wrapper \<Rightarrow> (cxx_exn + node_identity) \<times> 'g wrapper" where
  "loadFromFile S R path fs w =
     (case loadPrivkeyFromFile path fs of
        Inl e \<Rightarrow> (Inl e, w)
      | Inr privkey \<Rightarrow>
          (case getCtx R w of
             (ok, w) \<Rightarrow>
               if \<not> ok then (Inl Runtime_error, w)
               else (case keypair_of S privkey of None \<Rightarrow> (Inl Runtime_error, w) | Some kp \<Rightarrow> (buildFromKeypair kp, w))))"

text \<open>The source tests the generated key once more.\<close>

definition generate ::
    "('pk, 'sg, 'rs) secp_lib \<Rightarrow> 'g random_os \<Rightarrow> system_calls \<Rightarrow> string \<Rightarrow> files \<Rightarrow> 'g wrapper \<Rightarrow>
     (cxx_exn + node_identity) \<times> files \<times> 'g wrapper" where
  "generate S R sc saveToPath fs w =
     (case generateKeypair S R w of
        (None, w) \<Rightarrow> (Inl Runtime_error, fs, w)
      | (Some kp, w) \<Rightarrow>
          (case getCtx R w of
             (ok, w) \<Rightarrow>
               if \<not> ok \<or> \<not> sl_seckey_verify S (kp_privkey kp) then (Inl Runtime_error, fs, w)
               else if saveToPath = [] then (buildFromKeypair kp, fs, w)
               else
                 case savePrivkeyToFile sc (kp_privkey kp) saveToPath fs of
                   (Inl e, fs) \<Rightarrow> (Inl e, fs, w)
                 | (Inr _, fs) \<Rightarrow> (buildFromKeypair kp, fs, w)))"

definition bracket_host :: "string \<Rightarrow> string" where
  "bracket_host host = (if CHR '':'' \<in> set host \<and> hd host \<noteq> CHR ''['' then ''['' @ host @ '']'' else host)"

definition enodeUrl :: "node_identity \<Rightarrow> string \<Rightarrow> 16 word \<Rightarrow> cxx_exn + string" where
  "enodeUrl self host port =
     (if host = [] then Inl Runtime_error
      else if list_ex (\<lambda>c. (of_char c :: nat) < 0x21 \<or> (of_char c :: nat) > 0x7E) host then Inl Runtime_error
      else Inr (''enode://'' @ toHex (ni_pubkey64 self) 64 @ ''@'' @ bracket_host host @ '':'' @ show_nat (unat port)))"

definition ni_sign ::
    "('pk, 'sg, 'rs) secp_lib \<Rightarrow> 'g random_os \<Rightarrow> node_identity \<Rightarrow> bytes \<Rightarrow> 'g wrapper \<Rightarrow> Secp256k1Signature option \<times> 'g wrapper" where
  "ni_sign S R self hash32 w =
     (case domainHash hash32 of
        (ok, tagged) \<Rightarrow>
          if \<not> ok then (None, w)
          else
            case signRecoverable S R tagged (kp_privkey (ni_keypair self)) w of
              (None, w) \<Rightarrow> (None, w)
            | (Some sig, w) \<Rightarrow> enforceCanonical S R sig w)"

definition ni_verify ::
    "('pk, 'sg, 'rs) secp_lib \<Rightarrow> 'g random_os \<Rightarrow> bytes \<Rightarrow> Secp256k1Signature \<Rightarrow> bytes \<Rightarrow> 'g wrapper \<Rightarrow> bool \<times> 'g wrapper" where
  "ni_verify S R hash32 sig expectedPubkey64 w =
     (if list_all (\<lambda>b. b = 0) expectedPubkey64 then (False, w)
      else
        case enforceCanonical S R sig w of
          (None, w) \<Rightarrow> (False, w)
        | (Some canonical, w) \<Rightarrow>
            (case domainHash hash32 of
               (ok, tagged) \<Rightarrow>
                 if \<not> ok then (False, w)
                 else
                   case recoverPubkeyUncompressed S R tagged canonical w of
                     (None, w) \<Rightarrow> (False, w)
                   | (Some recovered, w) \<Rightarrow>
                       if length recovered \<noteq> 65 then (False, w)
                       else
                         case getCtx R w of
                           (ok, w) \<Rightarrow>
                             if \<not> ok then (False, w)
                             else if sp_pubkey_parse S recovered = None then (False, w)
                             else (constTimeEqual (drop 1 recovered) expectedPubkey64 64, w)))"

section \<open>Comparison and hashes\<close>

lemma or_all_zero: "(foldl (\<lambda>d i. d OR f i) (d :: u8) is = 0) = (d = 0 \<and> (\<forall>i \<in> set is. f i = 0))"
proof (induction "is" arbitrary: d)
  case (Cons i "is")
  show ?case using Cons.IH [of "d OR f i"] by (auto simp: or_eq_0_iff)
qed simp

lemma constTimeEqual_iff:
  assumes "length a = len" "length b = len"
  shows "constTimeEqual a b len \<longleftrightarrow> 0 < len \<and> a = b"
proof -
  have "x XOR y = 0 \<longleftrightarrow> x = y" for x y :: u8 using xor_cancel [of x y y] by simp
  then have "constTimeEqual a b len \<longleftrightarrow> 0 < len \<and> (\<forall>i < len. a ! i = b ! i)" by (auto simp: constTimeEqual_def or_all_zero)
  also have "(\<forall>i < len. a ! i = b ! i) \<longleftrightarrow> a = b" using assms by (auto intro: nth_equalityI)
  finally show ?thesis .
qed

lemma length_digest [simp]: "length (Keccak256_ptr (Some d) n) = 32"
  by (simp add: Keccak256_ptr_def Keccak256_def)

lemma domainHash_ok: "domainHash h = (True, keccak256Core (DOMAIN_TAG @ h))"
  by (simp add: domainHash_def Let_def) (simp add: Keccak256_ptr_def Keccak256_def)

lemma toHex_full: "length data = n \<Longrightarrow> toHex data n = hex_bytes data"
  by (simp add: toHex_def)

section \<open>The key file\<close>

lemma file_lines_Nil [simp]: "file_lines [] = []"
  by (simp add: file_lines.simps)

lemma file_lines_line: "CHR 0x0A \<notin> set l \<Longrightarrow> file_lines (l @ CHR 0x0A # rest) = l # file_lines rest"
  by (subst file_lines.simps) (simp add: dropWhile_neq_append takeWhile_neq_append)

definition plain_char :: "char \<Rightarrow> bool" where
  "plain_char c \<longleftrightarrow> \<not> is_line_space c \<and> c \<noteq> CHR 0xEF"

lemma trim_plain: "list_all plain_char l \<Longrightarrow> trim_line l = l"
proof -
  assume l: "list_all plain_char l"
  have "dropWhile (\<lambda>c. c = CHR 0xEF \<or> is_line_space c) l = l" using l by (cases l) (auto simp: plain_char_def)
  moreover have "dropWhile is_line_space (rev l) = rev l" using l by (cases l rule: rev_cases) (auto simp: plain_char_def)
  ultimately show ?thesis by (simp add: trim_line_def)
qed

lemma hex_plain: "is_hex c \<Longrightarrow> plain_char c \<and> c \<noteq> CHR ''#'' \<and> c \<noteq> CHR 0x0A"
  by (auto simp: is_hex_def hex_digit_val_def Let_def plain_char_def is_line_space_def split: if_splits)

lemma hex_byte_digits: "list_all is_hex (hex_byte b)"
proof -
  have "unat b < 256" using unsigned_less [where w = b, where ?'a = nat] by simp
  then have "unat b div 16 < 16" by (simp add: less_mult_imp_div_less)
  then show ?thesis by (simp add: hex_byte_def)
qed

lemma hex_bytes_digits: "list_all is_hex (hex_bytes bs)"
  by (induction bs) (simp_all add: hex_byte_digits)

lemma read_hex_bytes: "read_hex (hex_bytes bs) = bs"
proof (induction bs)
  case (Cons b bs)
  have "unat b < 256" using unsigned_less [where w = b, where ?'a = nat] by simp
  then have "unat b div 16 < 16" by (simp add: less_mult_imp_div_less)
  then show ?case using Cons by (simp add: hex_byte_def)
qed simp

lemma load_key_line:
  assumes "length key = 32"
  shows "load_lines (hex_bytes key # ls) = Inr key"
proof -
  have d: "list_all is_hex (hex_bytes key)" by (rule hex_bytes_digits)
  then have "list_all plain_char (hex_bytes key)" using hex_plain by (auto simp: list_all_iff)
  moreover have ne: "hex_bytes key \<noteq> []" using assms by (metis length_0_conv length_hex_bytes mult_eq_0_iff zero_neq_numeral)
  moreover have "hd (hex_bytes key) \<noteq> CHR ''#''" using d ne hex_plain by (auto simp: list_all_iff)
  ultimately show ?thesis using d assms by (simp add: trim_plain read_hex_bytes load_lines.simps(2))
qed

lemma trim_back:
  assumes "c \<noteq> CHR 0xEF" "\<not> is_line_space c"
  shows "\<exists>l'. trim_line (c # l) = c # l'"
proof -
  have "trim_line (c # l) = rev (dropWhile is_line_space (rev l @ [c]))" using assms by (simp add: trim_line_def)
  also have "\<exists>u. dropWhile is_line_space (rev l @ [c]) = u @ [c]"
    using assms(2) by (induction "rev l") (auto simp: dropWhile_append)
  then obtain u where "dropWhile is_line_space (rev l @ [c]) = u @ [c]" by blast
  ultimately show ?thesis by (intro exI [of _ "rev u"]) simp
qed

declare load_lines.simps(2) [simp del]

lemma load_comment: "load_lines ((CHR ''#'' # l) # ls) = load_lines ls"
  using trim_back [of "CHR ''#''" l] by (auto simp: is_line_space_def load_lines.simps(2))

lemma key_content_lines:
  "file_lines (key_content key path) =
     ''# MedorCoin node private key'' # ''# DO NOT share or commit this file.'' #
     file_lines (''# Add to .gitignore: '' @ path @ CHR 0x0A # toHex key 32 @ [CHR 0x0A])"
  using file_lines_line [of "''# MedorCoin node private key''"] file_lines_line [of "''# DO NOT share or commit this file.''"]
  by (simp add: key_content_def)

text \<open>Lines of the path after its first line are lines of the file.\<close>

lemma load_key_content:
  "CHR 0x0A \<notin> set path \<Longrightarrow> load_lines (file_lines (key_content key path)) = load_lines (file_lines (toHex key 32 @ [CHR 0x0A]))"
  using file_lines_line [of "''# Add to .gitignore: '' @ path" "toHex key 32 @ [CHR 0x0A]"]
  by (simp add: key_content_lines load_comment)

lemma load_key_content_split:
  "CHR 0x0A \<notin> set path \<Longrightarrow>
   load_lines (file_lines (key_content key (path @ CHR 0x0A # rest))) = load_lines (file_lines (rest @ CHR 0x0A # toHex key 32 @ [CHR 0x0A]))"
  using file_lines_line [of "''# Add to .gitignore: '' @ path" "rest @ CHR 0x0A # toHex key 32 @ [CHR 0x0A]"]
  by (simp add: key_content_lines load_comment)

lemma load_hex:
  assumes "length key = 32"
  shows "load_lines (file_lines (hex_bytes key @ CHR 0x0A # rest)) = Inr key"
proof -
  have "CHR 0x0A \<notin> set (hex_bytes key)" using hex_bytes_digits hex_plain by (metis list_all_iff)
  then show ?thesis using assms by (simp add: file_lines_line load_key_line)
qed

lemma write_loop_all: "write_loop ws content = (out, ok) \<Longrightarrow> ok \<Longrightarrow> out = content"
  by (induction ws content arbitrary: out rule: write_loop.induct) (auto split: if_splits prod.splits)

lemma write_loop_prefix: "write_loop ws content = (out, ok) \<Longrightarrow> \<exists>n. out = take n content"
proof (induction ws content arbitrary: out rule: write_loop.induct)
  case (3 n ws c cs)
  show ?case
  proof (cases "n \<le> 0")
    case False
    obtain out' ok' where w: "write_loop ws (drop (nat n) (c # cs)) = (out', ok')" by fastforce
    from "3.IH" [OF False] w 3(2) False obtain k where "out' = take k (drop (nat n) (c # cs))" "ok' = ok" by fastforce
    then have "out = take (nat n + k) (c # cs)" using 3(2) w False by (simp add: take_add)
    then show ?thesis by blast
  qed (use 3 in \<open>auto intro: exI [of _ 0]\<close>)
qed (auto intro: exI [of _ 0])

text \<open>C19: Writing the key file is atomic for the file itself, whatever \<^verbatim>\<open>open\<close>, \<^verbatim>\<open>write\<close>, \<^verbatim>\<open>fsync\<close>, \<^verbatim>\<open>rename\<close>
  and \<^verbatim>\<open>unlink\<close> answer: a success leaves the whole content under the path and no temporary file; a failure leaves
  every file but the temporary one as it was. The temporary file is then untouched, when it could not be opened, or
  removed; only if \<^verbatim>\<open>unlink\<close> fails too, it stays behind with a part or all of the content, readable by the
  owner alone if it was not there before. The code ignores what \<^verbatim>\<open>close\<close> answers, so no step depends on it.
\<close>

theorem key_file_atomic:
  "case writeKeyFilePosix sc content path fs of
     (Inl e, fs') \<Rightarrow> (\<forall>q. q \<noteq> path @ ''.tmp'' \<longrightarrow> fs' q = fs q) \<and>
       (if \<not> sc_open sc then fs' = fs
        else if sc_unlink sc then fs' (path @ ''.tmp'') = None
        else \<exists>m n. fs' (path @ ''.tmp'') = Some (m, take n content) \<and> (fs (path @ ''.tmp'') \<noteq> None \<or> m = 384))
   | (Inr u, fs') \<Rightarrow> map_option snd (fs' path) = Some content \<and> fs' (path @ ''.tmp'') = None \<and>
       (\<forall>q. q \<noteq> path \<and> q \<noteq> path @ ''.tmp'' \<longrightarrow> fs' q = fs q)"
proof -
  obtain out ok where w: "write_loop (sc_writes sc) content = (out, ok)" by fastforce
  obtain n where "out = take n content" using write_loop_prefix [OF w] by blast
  then show ?thesis using w write_loop_all [of "sc_writes sc" content out ok]
      exI [where x = "length content" and P = "\<lambda>n. content = take n content"]
    by (auto simp: writeKeyFilePosix_def unlink_file_def Let_def split: option.splits)
qed

text \<open>What a successful write leaves.\<close>

lemma written_file:
  assumes "writeKeyFilePosix sc content path fs = (Inr u, fs')"
  shows "fs' path = Some (case fs (path @ ''.tmp'') of None \<Rightarrow> 384 | Some (m, old) \<Rightarrow> m, content)"
proof -
  obtain out ok where w: "write_loop (sc_writes sc) content = (out, ok)" by fastforce
  then show ?thesis using assms write_loop_all [OF w] by (auto simp: writeKeyFilePosix_def Let_def split: if_splits)
qed

lemma saved_loads:
  assumes "savePrivkeyToFile sc key path fs = (Inr u, fs')" "fs (path @ ''.tmp'') = None"
  shows "loadPrivkeyFromFile path fs' = load_lines (file_lines (key_content key path))"
proof -
  have "(384 :: nat) AND 54 = 0" by simp
  then show ?thesis using written_file [OF assms(1) [unfolded savePrivkeyToFile_def]] assms(2)
    by (simp add: loadPrivkeyFromFile_def checkFilePermissions_def)
qed

lemma saved_key:
  assumes "savePrivkeyToFile sc key path fs = (Inr u, fs')" "fs (path @ ''.tmp'') = None" "CHR 0x0A \<notin> set path" "length key = 32"
  shows "loadPrivkeyFromFile path fs' = Inr key"
  using load_hex [OF assms(4), of "[]"] assms(4)
  by (simp add: saved_loads [OF assms(1,2)] load_key_content [OF assms(3)] toHex_full)

text \<open>
  A path with a line break writes a line of its own into the key file: when what follows the break is another key's
  64 digits, that key is loaded from the file, not the one that was saved.
\<close>

theorem path_injects_key:
  assumes "savePrivkeyToFile sc key (p @ CHR 0x0A # hex_bytes other) fs = (Inr u, fs')"
    "fs ((p @ CHR 0x0A # hex_bytes other) @ ''.tmp'') = None" "CHR 0x0A \<notin> set p" "length other = 32"
  shows "loadPrivkeyFromFile (p @ CHR 0x0A # hex_bytes other) fs' = Inr other"
  using load_hex [OF assms(4)] by (simp add: saved_loads [OF assms(1,2)] load_key_content_split [OF assms(3)])

text \<open>
  The mode of the key file is that of a temporary file that was already there: when others may read that one, the
  saved key is readable for them, and loading it is refused.
\<close>

theorem stale_tmp_leaks_key:
  assumes "savePrivkeyToFile sc key path fs = (Inr u, fs')" "fs (path @ ''.tmp'') = Some (m, old)" "m AND 54 \<noteq> 0"
  shows "fs' path = Some (m, key_content key path) \<and> loadPrivkeyFromFile path fs' = Inl Runtime_error"
  using written_file [OF assms(1) [unfolded savePrivkeyToFile_def]] assms(2,3)
  by (simp add: loadPrivkeyFromFile_def checkFilePermissions_def)

text \<open>
  A file that starts with a byte order mark is never loaded, though the loader means to skip it: of its three bytes
  only the first is removed.
\<close>

theorem byte_order_mark_refused:
  "loadPrivkeyFromFile path (fs(path \<mapsto> (m, [CHR 0xEF, CHR 0xBB, CHR 0xBF] @ rest))) = Inl Runtime_error"
proof -
  let ?t = "[CHR 0xEF, CHR 0xBB, CHR 0xBF] @ rest"
  have "file_lines ?t = takeWhile (\<lambda>c. c \<noteq> CHR 0x0A) ?t # file_lines (drop 1 (dropWhile (\<lambda>c. c \<noteq> CHR 0x0A) ?t))"
    by (subst file_lines.simps) simp
  then obtain l ls where l: "file_lines ?t = (CHR 0xEF # CHR 0xBB # l) # ls" by simp
  have "trim_line (CHR 0xEF # CHR 0xBB # l) = trim_line (CHR 0xBB # l)" by (simp add: trim_line_def)
  moreover obtain l' where "trim_line (CHR 0xBB # l) = CHR 0xBB # l'" using trim_back [of "CHR 0xBB" l] by (auto simp: is_line_space_def)
  moreover have "\<not> is_hex (CHR 0xBB)" by (simp add: is_hex_def hex_digit_val_def Let_def)
  ultimately have "load_lines (file_lines ?t) = Inl Runtime_error" unfolding l by (simp add: load_lines.simps(2) Let_def)
  then show ?thesis by (auto simp: loadPrivkeyFromFile_def checkFilePermissions_def)
qed

section \<open>Identities\<close>

lemma built:
  assumes "buildFromKeypair kp = Inr self"
  shows "ni_keypair self = kp" "ni_pubkey64 self = take 64 (drop 1 (kp_uncompressed kp))" "ni_nodeId self = deriveNodeId (ni_pubkey64 self)"
  using assms by (auto simp: buildFromKeypair_def Let_def split: if_splits)

lemma nodeId_eq: "deriveNodeId k = hex_bytes (drop 12 (keccak256Core (take 64 k)))"
  by (simp add: deriveNodeId_def Let_def toHex_def) (simp add: Keccak256_ptr_def Keccak256_def)

text \<open>The random sources read as many bytes as they are asked for.\<close>

definition full_reads :: "'g random_os \<Rightarrow> bool" where
  "full_reads R \<longleftrightarrow> (\<forall>n g. \<forall>b \<in> set_option (fst (os_getrandom R n g)) \<union> set_option (fst (os_urandom R n g)). length b = n)"

lemma random_length: "full_reads R \<Longrightarrow> secureRandom R n g = (Some b, g') \<Longrightarrow> length b = n"
proof -
  assume full: "full_reads R" and b: "secureRandom R n g = (Some b, g')"
  have l: "fst (os_getrandom R n g) = Some c \<or> fst (os_urandom R n g) = Some c \<Longrightarrow> length c = n" for c n g
    using full unfolding full_reads_def by (metis UnCI option.set_intros)
  obtain o1 g1 where o: "os_getrandom R n g = (o1, g1)" by fastforce
  show ?thesis using b o l [of n g b] l [of n g1 b]
    by (cases o1) (auto simp: secureRandom_def split: if_splits)
qed

lemma loop_length: "full_reads R \<Longrightarrow> generate_loop S R n g = (Some kp, g') \<Longrightarrow> length (kp_privkey kp) = 32"
proof (induction n arbitrary: g)
  case (Suc n)
  then show ?case
    by (auto split: prod.splits option.splits dest: random_length keypair_of_SomeD(1))
qed simp

text \<open>C18: An identity that was generated and saved is the one that is loaded from its file, given a path without a line break
  and no temporary file of that name.
\<close>

theorem identity_survives_restart:
  assumes "full_reads R" "generate S R sc path fs w = (Inr self, fs', w')" "path \<noteq> []" "CHR 0x0A \<notin> set path"
    "fs (path @ ''.tmp'') = None"
  shows "loadFromFile S R path fs' w' = (Inr self, w')"
proof -
  from assms(2) obtain kp w1 where kp: "generateKeypair S R w = (Some kp, w1)"
    by (auto simp: generate_def split: prod.splits option.splits)
  have w1: "wr_ctx w1" "keypair_of S (kp_privkey kp) = Some kp" using generated [OF kp] by auto
  have ctx: "getCtx R w1 = (True, w1)" using w1(1) by (simp add: getCtx_def)
  have "w' = w1" "buildFromKeypair kp = Inr self" "\<exists>u. savePrivkeyToFile sc (kp_privkey kp) path fs = (Inr u, fs')"
    using assms(2,3) kp ctx by (auto simp: generate_def split: if_splits prod.splits sum.splits)
  moreover have "length (kp_privkey kp) = 32"
    using kp loop_length [OF assms(1)] by (auto simp: generateKeypair_def split: prod.splits if_splits)
  ultimately show ?thesis using saved_key [where key = "kp_privkey kp" and path = path and fs = fs and fs' = fs'] assms(4,5) ctx w1(2)
    by (auto simp: loadFromFile_def)
qed

section \<open>Signatures\<close>

definition recover_at :: "('pk, 'sg, 'rs) secp_lib \<Rightarrow> bytes \<Rightarrow> int \<Rightarrow> bytes \<Rightarrow> 'pk option" where
  "recover_at S compact i h = (case sp_parse_recoverable S compact (nat i) of None \<Rightarrow> None | Some rs \<Rightarrow> sp_recover S rs h)"

text \<open>
  What the library documents of normalization: it keeps \<^verbatim>\<open>r\<close>, replaces a high \<^verbatim>\<open>s\<close> by its negative, is idempotent,
  and the negative recovers the same key with the other parity. A public key's 64 bytes are not all zero, and parse.
\<close>

definition canonical_laws :: "('pk, 'sg, 'rs) secp_lib \<Rightarrow> bool" where
  "canonical_laws S \<longleftrightarrow>
     (\<forall>b sg. length b = 64 \<and> sp_parse_compact S b = Some sg \<longrightarrow>
        (let c = sl_serialize_compact S (sp_normalize S sg)
         in length c = 64 \<and> take 32 c = take 32 b \<and> (list_all (\<lambda>x. x = 0) (drop 32 c) \<longrightarrow> list_all (\<lambda>x. x = 0) (drop 32 b)) \<and>
            sp_parse_compact S c = Some (sp_normalize S sg) \<and> \<not> sl_was_high S (sp_normalize S sg) \<and>
            sp_normalize S (sp_normalize S sg) = sp_normalize S sg \<and>
            (\<forall>i h. 0 \<le> i \<and> i \<le> 1 \<longrightarrow> recover_at S c (if sl_was_high S sg then 1 - i else i) h = recover_at S b i h))) \<and>
     (\<forall>pk. sp_pubkey_parse S (sp_uncompressed S pk) = Some pk \<and> \<not> list_all (\<lambda>x. x = 0) (drop 1 (sp_uncompressed S pk)))"

definition sig_bytes :: "Secp256k1Signature \<Rightarrow> bool" where
  "sig_bytes sig \<longleftrightarrow> length (sig_r sig) = 32 \<and> length (sig_s sig) = 32"

lemma split64: "length c = 64 \<Longrightarrow> take 32 c @ take 32 (drop 32 c) = (c :: bytes)"
  by (metis append_take_drop_id take_all length_drop order_refl diff_add_inverse numeral_Bit0)

text \<open>The canonical form is its own canonical form and recovers the same key.\<close>

lemma canonical_form:
  assumes laws: "canonical_laws S" and w: "wr_ctx w" and l: "sig_bytes sig" and c: "enforceCanonical S R sig w = (Some c, w')"
  shows "w' = w" "enforceCanonical S R c w = (Some c, w)" "sig_bytes c" "0 \<le> sig_recid sig \<and> sig_recid sig \<le> 1"
    "0 \<le> sig_recid c \<and> sig_recid c \<le> 1"
    "recover_at S (sig_r c @ sig_s c) (sig_recid c) h = recover_at S (sig_r sig @ sig_s sig) (sig_recid sig) h"
proof -
  let ?b = "sig_r sig @ sig_s sig"
  have len: "length ?b = 64" using l by (simp add: sig_bytes_def)
  have ctx: "getCtx R w = (True, w)" using w by (simp add: getCtx_def)
  from c ctx obtain sg where sg: "sp_parse_compact S ?b = Some sg"
    by (auto simp: enforceCanonical_def split: if_splits option.splits)
  let ?c = "sl_serialize_compact S (sp_normalize S sg)"
  let ?i = "if sl_was_high S sg then 1 - sig_recid sig else sig_recid sig"
  have i: "0 \<le> sig_recid sig \<and> sig_recid sig \<le> 1" using c by (auto simp: enforceCanonical_def split: if_splits)
  have r: "w' = w" "c = \<lparr>sig_r = take 32 ?c, sig_s = take 32 (drop 32 ?c), sig_recid = ?i\<rparr>"
    using c ctx sg by (auto simp: enforceCanonical_def Let_def split: if_splits)
  have nz: "\<not> list_all (\<lambda>x. x = 0) (sig_r sig)" "\<not> list_all (\<lambda>x. x = 0) (sig_s sig)"
    using c by (auto simp: enforceCanonical_def split: if_splits)
  have law: "length ?c = 64" "take 32 ?c = take 32 ?b" "list_all (\<lambda>x. x = 0) (drop 32 ?c) \<longrightarrow> list_all (\<lambda>x. x = 0) (drop 32 ?b)"
    "sp_parse_compact S ?c = Some (sp_normalize S sg)" "\<not> sl_was_high S (sp_normalize S sg)"
    "sp_normalize S (sp_normalize S sg) = sp_normalize S sg"
    "recover_at S ?c ?i h = recover_at S ?b (sig_recid sig) h"
    using laws len sg i unfolding canonical_laws_def Let_def by blast+
  note join = split64 [OF law(1)]
  have d: "take 32 (drop 32 ?c) = drop 32 ?c" using law(1) by simp
  have z: "\<not> list_all (\<lambda>x. x = 0) (take 32 ?c)" "\<not> list_all (\<lambda>x. x = 0) (drop 32 ?c)"
    using law(2,3) nz l by (auto simp: sig_bytes_def)
  show "w' = w" "0 \<le> sig_recid sig \<and> sig_recid sig \<le> 1" by (fact r(1) i)+
  show "0 \<le> sig_recid c \<and> sig_recid c \<le> 1" using i by (simp add: r(2))
  show "sig_bytes c" using law(1) by (simp add: sig_bytes_def r(2))
  show "enforceCanonical S R c w = (Some c, w)"
    using i z ctx law(4,5,6) unfolding r(2) by (simp add: enforceCanonical_def d join Let_def)
  show "recover_at S (sig_r c @ sig_s c) (sig_recid c) h = recover_at S ?b (sig_recid sig) h"
    using law(7) by (simp add: r(2) join)
qed

lemma recovered_at:
  assumes "wr_ctx w" "0 \<le> sig_recid sig \<and> sig_recid sig \<le> 1"
  shows "recoverPubkeyUncompressed S R h sig w =
    (case recover_at S (sig_r sig @ sig_s sig) (sig_recid sig) h of
       None \<Rightarrow> (None, w)
     | Some pk \<Rightarrow> if length (sp_uncompressed S pk) \<noteq> 65 then (None, w) else (Some (sp_uncompressed S pk), w))"
  using assms by (simp add: recoverPubkeyUncompressed_def recoverRawPubkey_def getCtx_def recover_at_def split: option.split)

text \<open>
  The key that a signature of a tagged hash answers for: 65 bytes of which verification compares all but the first.
\<close>

definition signer_of :: "('pk, 'sg, 'rs) secp_lib \<Rightarrow> bytes \<Rightarrow> Secp256k1Signature \<Rightarrow> 'pk option" where
  "signer_of S hash32 sig = recover_at S (sig_r sig @ sig_s sig) (sig_recid sig) (keccak256Core (DOMAIN_TAG @ hash32))"

lemma verify_eq:
  assumes laws: "secp_laws S" "canonical_laws S" and w: "wr_ctx w" and l: "sig_bytes sig" "length K = 64"
  shows "ni_verify S R h sig K w =
    (fst (enforceCanonical S R sig w) \<noteq> None \<and> map_option (\<lambda>pk. drop 1 (sp_uncompressed S pk)) (signer_of S h sig) = Some K, w)"
proof -
  have ctx: "getCtx R w = (True, w)" using w by (simp add: getCtx_def)
  have refused: "snd (enforceCanonical S R sig w) = w" using ctx by (auto simp: enforceCanonical_def Let_def split: option.split)
  have pk: "length (sp_uncompressed S pk) = 65" "sp_pubkey_parse S (sp_uncompressed S pk) = Some pk"
    "\<not> list_all (\<lambda>x. x = 0) (drop 1 (sp_uncompressed S pk))" for pk
    using laws unfolding secp_laws_def canonical_laws_def by blast+
  show ?thesis
  proof (cases "enforceCanonical S R sig w")
    case (Pair c w1)
    show ?thesis
    proof (cases c)
      case None
      then show ?thesis using Pair refused by (simp add: ni_verify_def)
    next
      case (Some c')
      note c = canonical_form [OF laws(2) w l(1) Pair [unfolded Some]]
      have same: "recover_at S (sig_r c' @ sig_s c') (sig_recid c') (keccak256Core (DOMAIN_TAG @ h)) = signer_of S h sig"
        using c(6) by (simp add: signer_of_def)
      have "ni_verify S R h sig K w =
          (\<not> list_all (\<lambda>x. x = 0) K \<and> (case signer_of S h sig of None \<Rightarrow> False | Some pk \<Rightarrow> drop 1 (sp_uncompressed S pk) = K), w)"
        using Pair Some c(1) ctx pk(1,2) l(2)
        by (auto simp: ni_verify_def domainHash_ok recovered_at [OF w c(5)] same constTimeEqual_iff split: option.split)
      also have "\<dots> = (map_option (\<lambda>pk. drop 1 (sp_uncompressed S pk)) (signer_of S h sig) = Some K, w)"
        using pk(3) by (auto split: option.split)
      finally show ?thesis using Pair Some by simp
    qed
  qed
qed

text \<open>C17: What an identity signs is verified with its public key, and with no other: under the laws of the library, for an
  identity built from a keypair of the wrapper.
\<close>

theorem signed_verifies:
  assumes "secp_laws S" "canonical_laws S" "wr_ctx w" "keypair_of S k = Some kp" "buildFromKeypair kp = Inr self"
    "ni_sign S R self h w = (Some sig, w')" "length K = 64"
  shows "ni_verify S R h sig K w = (K = ni_pubkey64 self, w)"
proof -
  let ?t = "keccak256Core (DOMAIN_TAG @ h)"
  have kp: "ni_keypair self = kp" "kp_privkey kp = k" using built(1) [OF assms(5)] keypair_of_SomeD(1) [OF assms(4)] by auto
  obtain s0 w0 where s0: "signRecoverable S R ?t k w = (Some s0, w0)" "enforceCanonical S R s0 w0 = (Some sig, w')"
    using assms(6) by (auto simp: ni_sign_def domainHash_ok kp split: prod.splits option.splits)
  have w0: "w0 = w" using sign_ready [OF assms(3), of S R ?t k] s0(1) by simp
  note r = signed_recovers [OF assms(1,3,4), of R ?t s0, unfolded s0(1) fst_conv, OF refl]
  have b: "sig_bytes s0" using r(4) by (simp add: sig_bytes_def)
  note c = canonical_form [OF assms(2,3) b s0(2) [unfolded w0]]
  have "map_option (sp_uncompressed S) (recover_at S (sig_r s0 @ sig_s s0) (sig_recid s0) ?t) = Some (kp_uncompressed kp)"
    using r(1) recovered_at [OF assms(3) r(3), of S R ?t] by (auto split: option.splits if_splits)
  then have "map_option (\<lambda>pk. drop 1 (sp_uncompressed S pk)) (signer_of S h sig) = Some (drop 1 (kp_uncompressed kp))"
    using c(6) [of ?t] by (auto simp: signer_of_def)
  moreover have "drop 1 (kp_uncompressed kp) = ni_pubkey64 self"
    using built(2) [OF assms(5)] keypair_of_SomeD(5) [OF assms(4)] by simp
  ultimately show ?thesis using verify_eq [OF assms(1,2,3) c(3) assms(7)] c(2) by auto
qed

text \<open>
  Verification accepts a signature exactly when it accepts its canonical form: the form with the high \<^verbatim>\<open>s\<close> and
  the other parity passes too, so that from one signature of a node anyone makes a second one.
\<close>

theorem high_s_accepted:
  assumes "secp_laws S" "canonical_laws S" "wr_ctx w" "sig_bytes sig" "enforceCanonical S R sig w = (Some c, w')" "length K = 64"
  shows "ni_verify S R h sig K w = ni_verify S R h c K w"
proof -
  note c = canonical_form [OF assms(2-5)]
  have "signer_of S h sig = signer_of S h c" using c(6) by (simp add: signer_of_def)
  then show ?thesis
    using verify_eq [OF assms(1-4,6)] verify_eq [OF assms(1-3) c(3) assms(6)] c(2) assms(5) by simp
qed

section \<open>Addresses\<close>

lemma hex_bytes_inj: "hex_bytes a = hex_bytes b \<Longrightarrow> a = b"
  by (metis read_hex_bytes)

lemma last_mark:
  assumes "a @ c # x = b @ c # y" "c \<notin> set x" "c \<notin> set y"
  shows "a = b \<and> x = y"
proof -
  have x: "takeWhile (\<lambda>d. d \<noteq> c) (rev (a @ c # x)) = rev x" using takeWhile_neq_append [of c "rev x" "rev a"] assms(2) by simp
  have "takeWhile (\<lambda>d. d \<noteq> c) (rev (b @ c # y)) = rev y" using takeWhile_neq_append [of c "rev y" "rev b"] assms(3) by simp
  then have "x = y" using x [unfolded assms(1)] by simp
  then show ?thesis using assms(1) by simp
qed

text \<open>
  An enode address determines the public key, the host up to the brackets of an IPv6 address, and the port.
\<close>

theorem enode_url_determines:
  assumes "enodeUrl a h p = Inr u" "enodeUrl b h' p' = Inr u" "length (ni_pubkey64 a) = 64" "length (ni_pubkey64 b) = 64"
  shows "ni_pubkey64 a = ni_pubkey64 b \<and> bracket_host h = bracket_host h' \<and> p = p'"
proof -
  have u: "u = ''enode://'' @ hex_bytes (ni_pubkey64 a) @ ''@'' @ bracket_host h @ CHR '':'' # show_nat (unat p)"
    "u = ''enode://'' @ hex_bytes (ni_pubkey64 b) @ ''@'' @ bracket_host h' @ CHR '':'' # show_nat (unat p')"
    using assms by (auto simp: enodeUrl_def toHex_full split: if_splits)
  then have "hex_bytes (ni_pubkey64 a) @ ''@'' @ bracket_host h @ CHR '':'' # show_nat (unat p) =
      hex_bytes (ni_pubkey64 b) @ ''@'' @ bracket_host h' @ CHR '':'' # show_nat (unat p')" by simp
  moreover have "length (hex_bytes (ni_pubkey64 a)) = length (hex_bytes (ni_pubkey64 b))" using assms(3,4) by simp
  ultimately have hex: "hex_bytes (ni_pubkey64 a) = hex_bytes (ni_pubkey64 b)"
    and rest: "bracket_host h @ CHR '':'' # show_nat (unat p) = bracket_host h' @ CHR '':'' # show_nat (unat p')"
    by (simp_all add: append_eq_append_conv)
  have colon: "CHR '':'' \<notin> set (show_nat n)" for n by (rule show_nat_no_char) (simp add: is_digit_def)
  from last_mark [OF rest colon colon] have "bracket_host h = bracket_host h'" "show_nat (unat p) = show_nat (unat p')" by simp_all
  then show ?thesis using hex_bytes_inj [OF hex] show_nat_inj by (auto simp: word_unat_eq_iff)
qed

section \<open>Witnesses\<close>

lemma one_key_fields:
  "sp_normalize one_key_lib b = (if last b = 255 then butlast b @ [1] else b)" "sl_serialize_compact one_key_lib b = b"
  "sp_parse_compact one_key_lib b = Some b" "sl_was_high one_key_lib b = (last b = 255)"
  "sp_pubkey_parse one_key_lib k = Some ()" "sp_uncompressed one_key_lib u = 4 # replicate 64 7"
  "recover_at one_key_lib b i h = Some ()"
  by (simp_all add: one_key_lib_def recover_at_def)

lemma normalized_bytes:
  assumes "length b = 64"
  shows "length (butlast b @ [1]) = 64 \<and> take 32 (butlast b @ [1]) = take 32 b \<and> \<not> list_all (\<lambda>x. x = 0) (drop 32 (butlast b @ [1 :: u8]))"
proof (cases b rule: rev_cases)
  case (snoc b' x)
  then show ?thesis using assms by simp
qed (use assms in simp)

lemma one_key_canonical: "canonical_laws one_key_lib"
proof -
  let ?n = "sp_normalize one_key_lib"
  have n: "length (?n b) = 64 \<and> take 32 (?n b) = take 32 b \<and> (list_all (\<lambda>x. x = 0) (drop 32 (?n b)) \<longrightarrow> list_all (\<lambda>x. x = 0) (drop 32 b)) \<and>
      last (?n b) \<noteq> 255 \<and> ?n (?n b) = ?n b" if "length b = 64" for b
    using normalized_bytes [OF that] that unfolding one_key_fields(1) by simp
  show ?thesis unfolding canonical_laws_def Let_def one_key_fields(2-7)
    using n by (auto simp: list_all_iff)
qed

definition some_identity :: node_identity where
  "some_identity = \<lparr>ni_keypair = some_keypair, ni_pubkey64 = replicate 64 7, ni_nodeId = deriveNodeId (replicate 64 7)\<rparr>"

lemma some_built: "buildFromKeypair some_keypair = Inr some_identity"
proof -
  have "length (deriveNodeId (replicate 64 7)) = 40" by (simp add: nodeId_eq)
  then have "deriveNodeId (replicate 64 7) \<noteq> []" by (metis list.size(3) zero_neq_numeral)
  then show ?thesis by (simp add: buildFromKeypair_def some_identity_def some_keypair_def Let_def)
qed

text \<open>Calls that succeed, writing in two pieces, and an empty file system.\<close>

definition good_calls :: system_calls where
  "good_calls = \<lparr>sc_open = True, sc_writes = [100, 1000], sc_fsync = True, sc_rename = True, sc_unlink = True\<rparr>"

lemma write_loop_step:
  assumes "content \<noteq> []" "0 < n"
  shows "write_loop (n # ws) content = (case write_loop ws (drop (nat n) content) of (out, ok) \<Rightarrow> (take (nat n) content @ out, ok))"
proof -
  obtain c cs where "content = c # cs" using assms(1) by (cases content) auto
  then show ?thesis using assms(2) by simp
qed

lemma good_write:
  assumes "100 < length content" "length content \<le> 1100"
  shows "writeKeyFilePosix good_calls content path fs =
    (Inr (), fs(path @ ''.tmp'' := None, path \<mapsto> (case fs (path @ ''.tmp'') of None \<Rightarrow> 384 | Some (m, old) \<Rightarrow> m, content)))"
proof -
  have ne: "content \<noteq> []" "drop 100 content \<noteq> []" using assms(1) by auto
  have "write_loop [1000] (drop 100 content) = (drop 100 content, True)" using assms(2) by (simp add: write_loop_step [OF ne(2)])
  then have "write_loop [100, 1000] content = (content, True)" by (simp add: write_loop_step [OF ne(1)])
  then show ?thesis by (simp add: writeKeyFilePosix_def good_calls_def Let_def)
qed

lemma good_save:
  assumes "length key = 32" "length path \<le> 500"
  shows "savePrivkeyToFile good_calls key path fs =
    (Inr (), fs(path @ ''.tmp'' := None, path \<mapsto> (case fs (path @ ''.tmp'') of None \<Rightarrow> 384 | Some (m, old) \<Rightarrow> m, key_content key path)))"
  unfolding savePrivkeyToFile_def by (rule good_write) (use assms in \<open>simp_all add: key_content_def toHex_def\<close>)

text \<open>A disk that is full after ten bytes, and whose directory cannot be changed.\<close>

definition full_disk :: system_calls where
  "full_disk = \<lparr>sc_open = True, sc_writes = [10, - 1], sc_fsync = True, sc_rename = True, sc_unlink = False\<rparr>"

lemma key_file_atomic_witness:
  "map_option snd (snd (writeKeyFilePosix good_calls (replicate 200 CHR ''x'') ''k'' (\<lambda>q. None)) ''k'') = Some (replicate 200 CHR ''x'') \<and>
   (\<exists>n. snd (writeKeyFilePosix full_disk (replicate 200 CHR ''x'') ''k'' (\<lambda>q. None)) ''k.tmp'' = Some (384, take n (replicate 200 CHR ''x'')))"
proof -
  have "fst (writeKeyFilePosix full_disk (replicate 200 CHR ''x'') ''k'' (\<lambda>q. None)) = Inl Runtime_error"
    by (simp add: writeKeyFilePosix_def full_disk_def Let_def eval_nat_numeral)
  moreover have "sc_open full_disk" "\<not> sc_unlink full_disk" by (simp_all add: full_disk_def)
  ultimately have "\<exists>n. snd (writeKeyFilePosix full_disk (replicate 200 CHR ''x'') ''k'' (\<lambda>q. None)) ''k.tmp'' = Some (384, take n (replicate 200 CHR ''x''))"
    using key_file_atomic [where sc = full_disk and content = "replicate 200 CHR ''x''" and path = "''k''" and fs = "\<lambda>q. None"]
    by (cases "writeKeyFilePosix full_disk (replicate 200 CHR ''x'') ''k'' (\<lambda>q. None)") auto
  then show ?thesis
    using key_file_atomic [where sc = good_calls and content = "replicate 200 CHR ''x''" and path = "''k''" and fs = "\<lambda>q. None"]
      good_write [of "replicate 200 CHR ''x''" "''k''" "\<lambda>q. None"]
    by simp
qed

lemma path_injects_key_witness:
  "\<exists>fs'. savePrivkeyToFile good_calls (replicate 32 1) (''k'' @ CHR 0x0A # hex_bytes (replicate 32 2)) (\<lambda>q. None) = (Inr (), fs') \<and>
     loadPrivkeyFromFile (''k'' @ CHR 0x0A # hex_bytes (replicate 32 2)) fs' = Inr (replicate 32 2)"
proof -
  let ?path = "''k'' @ CHR 0x0A # hex_bytes (replicate 32 2)"
  have "length ?path \<le> 500" by simp
  then obtain fs' where s: "savePrivkeyToFile good_calls (replicate 32 1) ?path (\<lambda>q. None) = (Inr (), fs')"
    using good_save [of "replicate 32 1" ?path "\<lambda>q. None"] length_replicate by metis
  from path_injects_key [OF s] show ?thesis using s by auto
qed

lemma stale_tmp_leaks_key_witness:
  "\<exists>fs'. savePrivkeyToFile good_calls (replicate 32 1) ''k'' [''k.tmp'' \<mapsto> (420, [])] = (Inr (), fs') \<and> loadPrivkeyFromFile ''k'' fs' = Inl Runtime_error"
proof -
  obtain fs' where s: "savePrivkeyToFile good_calls (replicate 32 1) ''k'' [''k.tmp'' \<mapsto> (420, [])] = (Inr (), fs')"
    using good_save [of "replicate 32 1" "''k''"] by auto
  from stale_tmp_leaks_key [OF s, of 420 "[]"] show ?thesis using s by auto
qed

lemma some_generated:
  "\<exists>fs'. generate one_key_lib counting_os good_calls ''k'' (\<lambda>q. None) ready_wrapper = (Inr some_identity, fs', \<lparr>wr_ctx = True, wr_rng = 5\<rparr>)"
proof -
  have "sl_seckey_verify one_key_lib (kp_privkey some_keypair)" by (simp add: one_key_lib_def some_keypair_def)
  moreover obtain fs' where "savePrivkeyToFile good_calls (kp_privkey some_keypair) ''k'' (\<lambda>q. None) = (Inr (), fs')"
    using good_save [of "kp_privkey some_keypair" "''k''" "\<lambda>q. None"] by (auto simp: some_keypair_def)
  ultimately show ?thesis by (simp add: generate_def ready_generates getCtx_def some_built)
qed

lemma identity_survives_restart_witness:
  "\<exists>fs'. generate one_key_lib counting_os good_calls ''k'' (\<lambda>q. None) ready_wrapper = (Inr some_identity, fs', \<lparr>wr_ctx = True, wr_rng = 5\<rparr>) \<and>
     loadFromFile one_key_lib counting_os ''k'' fs' \<lparr>wr_ctx = True, wr_rng = 5\<rparr> = (Inr some_identity, \<lparr>wr_ctx = True, wr_rng = 5\<rparr>)"
proof -
  have r: "full_reads counting_os" by (simp add: full_reads_def counting_os_def)
  obtain fs' where g: "generate one_key_lib counting_os good_calls ''k'' (\<lambda>q. None) ready_wrapper = (Inr some_identity, fs', \<lparr>wr_ctx = True, wr_rng = 5\<rparr>)"
    using some_generated by blast
  from identity_survives_restart [OF r g] show ?thesis using g by auto
qed

lemma canonical_instance:
  assumes "x \<noteq> 0" "0 \<le> i" "i \<le> 1"
  shows "enforceCanonical one_key_lib R \<lparr>sig_r = replicate 32 1, sig_s = replicate 31 0 @ [x], sig_recid = i\<rparr> \<lparr>wr_ctx = True, wr_rng = g\<rparr> =
    (Some \<lparr>sig_r = replicate 32 1, sig_s = replicate 31 0 @ [if x = 255 then 1 else x], sig_recid = if x = 255 then 1 - i else i\<rparr>, \<lparr>wr_ctx = True, wr_rng = g\<rparr>)"
  using assms by (simp add: enforceCanonical_def getCtx_def one_key_fields Let_def butlast_append list_all_iff)

lemma signed_verifies_witness:
  "\<exists>sig. ni_sign one_key_lib counting_os some_identity (replicate 32 9) ready_wrapper = (Some sig, ready_wrapper) \<and>
     ni_verify one_key_lib counting_os (replicate 32 9) sig (replicate 64 7) ready_wrapper = (True, ready_wrapper)"
proof -
  have kp: "keypair_of one_key_lib (replicate 32 4) = Some some_keypair" by (simp add: keypair_of_def one_key_lib_def some_keypair_def)
  have "enforceCanonical one_key_lib counting_os some_signature ready_wrapper = (Some some_signature, ready_wrapper)"
    by (simp add: enforceCanonical_def getCtx_def one_key_fields Let_def list_all_iff some_signature_def)
  then have s: "ni_sign one_key_lib counting_os some_identity (replicate 32 9) ready_wrapper = (Some some_signature, ready_wrapper)"
    by (simp add: ni_sign_def domainHash_ok some_identity_def ready_signs)
  from signed_verifies [OF one_key_laws one_key_canonical _ kp some_built s, of "replicate 64 7"] show ?thesis
    using s by (simp add: some_identity_def)
qed

lemma high_s_accepted_witness:
  "ni_verify one_key_lib counting_os [] \<lparr>sig_r = replicate 32 1, sig_s = replicate 31 0 @ [255], sig_recid = 1\<rparr> (replicate 64 7) ready_wrapper =
   ni_verify one_key_lib counting_os [] \<lparr>sig_r = replicate 32 1, sig_s = replicate 31 0 @ [1], sig_recid = 0\<rparr> (replicate 64 7) ready_wrapper"
  by (rule high_s_accepted [OF one_key_laws one_key_canonical]) (use canonical_instance [of 255 1] in \<open>simp_all add: sig_bytes_def\<close>)

lemma enode_url_determines_witness:
  "enodeUrl some_identity ''::1'' 30303 = enodeUrl some_identity ''[::1]'' 30303 \<and> bracket_host ''::1'' = bracket_host ''[::1]''"
proof -
  have u: "enodeUrl some_identity ''::1'' 30303 = enodeUrl some_identity ''[::1]'' 30303" "\<exists>u. enodeUrl some_identity ''::1'' 30303 = Inr u"
    by (simp_all add: enodeUrl_def bracket_host_def)
  then show ?thesis using enode_url_determines [of some_identity "''::1''" 30303 _ some_identity "''[::1]''" 30303]
    by (auto simp: some_identity_def)
qed

end
