(* ===== verification/EvmSign.thy ===== *)
theory EvmSign
  imports Rlp NodeIdentity
begin

text \<open>
  Signing of transactions for the EVM, \<^verbatim>\<open>src/src/crypto/evm_sign.cpp\<close>, with the signing interface of
  \<^verbatim>\<open>signature.cpp\<close>, \<^verbatim>\<open>signature_helpers.cpp\<close> and \<^verbatim>\<open>recovery.cpp\<close>. Files and libsecp256k1 are those of
  the node identity and the wrapper.
\<close>

section \<open>Signing with a key\<close>

definition signHashWithKey ::
    "('pk, 'sg, 'rs) secp_lib \<Rightarrow> 'g random_os \<Rightarrow> bytes \<Rightarrow> bytes \<Rightarrow> 'g wrapper \<Rightarrow> (cxx_exn + bytes \<times> bytes \<times> u8) \<times> 'g wrapper" where
  "signHashWithKey S R digest privkey w =
     (case signRecoverable S R digest privkey w of
        (None, w) \<Rightarrow> (Inl Runtime_error, w)
      | (Some sig, w) \<Rightarrow> (Inr (sig_r sig, sig_s sig, word_of_int (sig_recid sig)), w))"

text \<open>A line's end without carriage returns, line feeds and spaces.\<close>

definition strip_end :: "string \<Rightarrow> string" where
  "strip_end line = rev (dropWhile (\<lambda>c. c \<in> {CHR 0x0D, CHR 0x0A, CHR '' ''}) (rev line))"

fun hex_key_lines :: "string list \<Rightarrow> cxx_exn + bytes" where
  "hex_key_lines [] = Inl Runtime_error"
| "hex_key_lines (l # ls) =
     (if l = [] \<or> hd l = CHR ''#'' then hex_key_lines ls
      else if length (strip_end l) \<noteq> 64 then Inl Runtime_error
      else if \<not> list_all is_hex (strip_end l) then Inl Runtime_error
      else Inr (read_hex (strip_end l)))"

definition loadPrivkeyHex :: "string \<Rightarrow> files \<Rightarrow> cxx_exn + bytes" where
  "loadPrivkeyHex path fs = (case fs path of None \<Rightarrow> Inl Runtime_error | Some (m, content) \<Rightarrow> hex_key_lines (file_lines content))"

definition signHash ::
    "('pk, 'sg, 'rs) secp_lib \<Rightarrow> 'g random_os \<Rightarrow> bytes \<Rightarrow> string \<Rightarrow> files \<Rightarrow> 'g wrapper \<Rightarrow> (cxx_exn + bytes \<times> bytes \<times> u8) \<times> 'g wrapper" where
  "signHash S R digest path fs w =
     (case loadPrivkeyHex path fs of Inl e \<Rightarrow> (Inl e, w) | Inr privkey \<Rightarrow> signHashWithKey S R digest privkey w)"

text \<open>The recovery id is an \<^verbatim>\<open>int\<close>; its cast extends the sign.\<close>

definition computeEip155V :: "int \<Rightarrow> u64 \<Rightarrow> u64" where
  "computeEip155V recid chainId = word_of_int recid + (chainId * 2 + 35)"

text \<open>The id and the buffer of the key.\<close>

fun try_recids :: "('pk, 'sg, 'rs) secp_lib \<Rightarrow> bytes \<Rightarrow> bytes \<Rightarrow> int list \<Rightarrow> bytes \<Rightarrow> int \<times> bytes" where
  "try_recids S hash compact [] out = (- 1, out)"
| "try_recids S hash compact (i # is) out =
     (case recover_at S compact i hash of
        None \<Rightarrow> try_recids S hash compact is out
      | Some pk \<Rightarrow> (i, sp_uncompressed S pk))"

definition findRecoveryId :: "('pk, 'sg, 'rs) secp_lib \<Rightarrow> bytes \<Rightarrow> bytes \<Rightarrow> bytes \<Rightarrow> bytes \<Rightarrow> int \<times> bytes" where
  "findRecoveryId S hash r s outPubkey = try_recids S hash (r @ s) [0, 1, 2, 3] outPubkey"

section \<open>Transactions\<close>

record evm_tx =
  et_chainId :: u64
  et_nonce :: u64
  et_maxPriorityFeePerGas :: u64
  et_maxFeePerGas :: u64
  et_gasLimit :: u64
  et_to :: bytes
  et_value :: bytes
  et_data :: bytes
  et_r :: bytes
  et_s :: bytes
  et_v :: u8

text \<open>The first nine fields; the access list is encoded as the number 0.\<close>

definition evm_fields :: "evm_tx \<Rightarrow> cxx_exn + bytes list" where
  "evm_fields tx =
     bind_sum (encodeUInt (et_chainId tx) []) (\<lambda>chainId.
     bind_sum (encodeUInt (et_nonce tx) []) (\<lambda>nonce.
     bind_sum (encodeUInt (et_maxPriorityFeePerGas tx) []) (\<lambda>maxPriority.
     bind_sum (encodeUInt (et_maxFeePerGas tx) []) (\<lambda>maxFee.
     bind_sum (encodeUInt (et_gasLimit tx) []) (\<lambda>gasLimit.
     bind_sum (encodeBytes (et_to tx) []) (\<lambda>to.
     bind_sum (encodeBytes (et_value tx) []) (\<lambda>v.
     bind_sum (encodeBytes (et_data tx) []) (\<lambda>data.
     bind_sum (encodeUInt 0 []) (\<lambda>accessList.
       Inr [chainId, nonce, maxPriority, maxFee, gasLimit, to, v, data, accessList])))))))))"

definition buildUnsignedRlp :: "evm_tx \<Rightarrow> cxx_exn + bytes" where
  "buildUnsignedRlp tx = bind_sum (evm_fields tx) (\<lambda>items. encodeList items [])"

text \<open>The transaction with its signature, and its encoding.\<close>

definition signEvmTransaction ::
    "('pk, 'sg, 'rs) secp_lib \<Rightarrow> 'g random_os \<Rightarrow> evm_tx \<Rightarrow> bytes \<Rightarrow> 'g wrapper \<Rightarrow> (cxx_exn + evm_tx \<times> bytes) \<times> 'g wrapper" where
  "signEvmTransaction S R tx privkey w =
     (case buildUnsignedRlp tx of
        Inl e \<Rightarrow> (Inl e, w)
      | Inr raw \<Rightarrow>
          (case signHashWithKey S R (Keccak256_vec raw) privkey w of
             (Inl e, w) \<Rightarrow> (Inl e, w)
           | (Inr (r, s, v), w) \<Rightarrow>
               let tx = tx\<lparr>et_r := r, et_s := s, et_v := v + 27\<rparr>
               in (bind_sum (evm_fields tx) (\<lambda>items.
                   bind_sum (encodeUInt (ucast (et_v tx)) []) (\<lambda>vEnc.
                   bind_sum (encodeBytes (et_r tx) []) (\<lambda>r.
                   bind_sum (encodeBytes (et_s tx) []) (\<lambda>s.
                   bind_sum (encodeList (items @ [vEnc, r, s]) []) (\<lambda>out. Inr (tx, out)))))), w)))"

section \<open>The encoding\<close>

text \<open>A number as bytes without leading zeros.\<close>

definition uint_bytes :: "u64 \<Rightarrow> bytes" where
  "uint_bytes v = rev (le_bytes (unat v))"

definition evm_values :: "evm_tx \<Rightarrow> rlp_value list" where
  "evm_values tx = map RBytes
     [uint_bytes (et_chainId tx), uint_bytes (et_nonce tx), uint_bytes (et_maxPriorityFeePerGas tx), uint_bytes (et_maxFeePerGas tx),
      uint_bytes (et_gasLimit tx), et_to tx, et_value tx, et_data tx, []]"

lemma encodeUInt_Inr: "encodeUInt v [] = Inr out \<Longrightarrow> out = enc (RBytes (uint_bytes v))"
  by (auto simp: encodeUInt_def uint_bytes_def enc_bytes_def enc_header_def dest!: encodeBytes_Inr split: if_splits)

lemma evm_fields_Inr: "evm_fields tx = Inr items \<Longrightarrow> items = map enc (evm_values tx)"
  by (auto simp: evm_fields_def bind_sum_Inr evm_values_def dest!: encodeUInt_Inr encodeBytes_Inr) (auto simp: uint_bytes_def)

lemma payload_size: "n + length (concat items) < 2 ^ 64 \<Longrightarrow> foldl (\<lambda>n item. sz_add n (length item)) n items = n + length (concat items)"
  by (induction items arbitrary: n) (simp_all add: add.assoc)

lemma foldl_append: "foldl (\<lambda>out item. out @ item) out items = out @ concat items"
  by (induction items arbitrary: out) simp_all

lemma encodeList_Inr:
  assumes "encodeList (map enc vs) [] = Inr out" "length out < 2 ^ 64"
  shows "out = enc (RList vs)"
proof -
  let ?p = "concat (map enc vs)" and ?n = "foldl (\<lambda>n item. sz_add n (length item)) 0 (map enc vs)"
  obtain h where h: "encodeLength ?n 0xC0 [] = Inr h" "out = h @ ?p"
    using assms(1) by (auto simp: encodeList_def Let_def bind_sum_Inr foldl_append)
  have "?n = length ?p" using payload_size [of 0 "map enc vs"] h(2) assms(2) by simp
  then show ?thesis using encodeLength_Inr [OF h(1)] h(2) by (simp add: Let_def)
qed

lemma unsigned_form:
  assumes "buildUnsignedRlp tx = Inr raw" "length raw < 2 ^ 64"
  shows "raw = enc (RList (evm_values tx))"
proof -
  obtain items where i: "evm_fields tx = Inr items" "encodeList items [] = Inr raw"
    using assms(1) by (auto simp: buildUnsignedRlp_def bind_sum_Inr)
  show ?thesis using encodeList_Inr [OF i(2) [unfolded evm_fields_Inr [OF i(1)]] assms(2)] .
qed

lemma decode_form: "length (enc v) < 2 ^ 64 \<Longrightarrow> decodeValue (enc v) 0 = Inr (v, length (enc v))"
  using decodeValue_enc [of "[]" v "[]"] by simp

lemma uint_bytes_inj: "uint_bytes v = uint_bytes w \<longleftrightarrow> v = w"
  by (auto simp: uint_bytes_def word_unat_eq_iff dest: arg_cong [where f = "\<lambda>b. be_val (rev b)"]) (metis be_val_le_bytes rev_rev_ident)

text \<open>
  The bytes that are hashed for the signature determine every field of the transaction: two transactions with the same
  unsigned encoding agree in all of them.
\<close>

theorem unsigned_tx_commits:
  assumes "buildUnsignedRlp tx = Inr raw" "buildUnsignedRlp tx' = Inr raw" "length raw < 2 ^ 64"
  shows "et_chainId tx = et_chainId tx' \<and> et_nonce tx = et_nonce tx' \<and> et_maxPriorityFeePerGas tx = et_maxPriorityFeePerGas tx' \<and>
    et_maxFeePerGas tx = et_maxFeePerGas tx' \<and> et_gasLimit tx = et_gasLimit tx' \<and> et_to tx = et_to tx' \<and>
    et_value tx = et_value tx' \<and> et_data tx = et_data tx'"
proof -
  note raw = unsigned_form [OF assms(1,3)] unsigned_form [OF assms(2,3)]
  have "decodeValue raw 0 = Inr (RList (evm_values tx), length raw)" "decodeValue raw 0 = Inr (RList (evm_values tx'), length raw)"
    using decode_form [of "RList (evm_values tx)"] decode_form [of "RList (evm_values tx')"] raw assms(3) by (simp_all del: enc.simps)
  then have "evm_values tx = evm_values tx'" by simp
  then show ?thesis by (simp add: evm_values_def uint_bytes_inj)
qed

lemma Keccak256_vec_eq: "Keccak256_vec d = keccak256Core d"
  by (simp add: Keccak256_vec_def Keccak256_ptr_def Keccak256_def)

lemma small_uint: "uint_bytes 27 = [27]" "uint_bytes 28 = [28]"
  by (simp_all add: uint_bytes_def le_bytes.simps [of 27] le_bytes.simps [of 28])

lemma sign_key:
  "signHashWithKey S R h k w = (Inr (r, s, v), w') \<longleftrightarrow>
   (\<exists>sig. signRecoverable S R h k w = (Some sig, w') \<and> r = sig_r sig \<and> s = sig_s sig \<and> v = word_of_int (sig_recid sig))"
  by (auto simp: signHashWithKey_def split: prod.splits option.splits)

text \<open>C20: A signed transaction carries the signature of the hash of its unsigned encoding, from which the signer's public key is
  recovered with \<^verbatim>\<open>v - 27\<close>; its encoding is a list of the nine fields, \<^verbatim>\<open>v\<close>, \<^verbatim>\<open>r\<close> and \<^verbatim>\<open>s\<close>. The
  ninth field, the access list, is an empty string and not an empty list, and no transaction type precedes the list.
\<close>

theorem signed_transaction:
  assumes "secp_laws S" "wr_ctx w" "keypair_of S k = Some kp" "signEvmTransaction S R tx k w = (Inr (tx', out), w')" "length out < 2 ^ 64"
  shows "\<exists>raw sig. buildUnsignedRlp tx = Inr raw \<and>
    tx' = tx\<lparr>et_r := sig_r sig, et_s := sig_s sig, et_v := word_of_int (sig_recid sig) + 27\<rparr> \<and> et_v tx' \<in> {27, 28} \<and>
    recoverPubkeyUncompressed S R (keccak256Core raw) sig w = (Some (kp_uncompressed kp), w) \<and>
    decodeValue out 0 = Inr (RList (evm_values tx @ map RBytes [[et_v tx'], et_r tx', et_s tx']), length out)"
proof -
  from assms(4) obtain raw sig w1 where raw: "buildUnsignedRlp tx = Inr raw"
    and sig: "signRecoverable S R (keccak256Core raw) k w = (Some sig, w1)"
    by (auto simp: signEvmTransaction_def Keccak256_vec_eq signHashWithKey_def split: sum.splits prod.splits option.splits)
  let ?tx = "tx\<lparr>et_r := sig_r sig, et_s := sig_s sig, et_v := word_of_int (sig_recid sig) + 27\<rparr>"
  from assms(4) raw sig obtain items vEnc r s where tx': "tx' = ?tx" and items: "evm_fields ?tx = Inr items"
      "encodeUInt (ucast (et_v ?tx)) [] = Inr vEnc" "encodeBytes (et_r ?tx) [] = Inr r" "encodeBytes (et_s ?tx) [] = Inr s"
      "encodeList (items @ [vEnc, r, s]) [] = Inr out"
    by (auto simp: signEvmTransaction_def Keccak256_vec_eq signHashWithKey_def Let_def bind_sum_Inr)
  note rec = signed_recovers [OF assms(1-3), of R "keccak256Core raw" sig, unfolded sig fst_conv, OF refl]
  have v: "sig_recid sig = 0 \<or> sig_recid sig = 1" using rec(3) by linarith
  then have tv: "et_v ?tx \<in> {27, 28}" by auto
  have vb: "uint_bytes (ucast (et_v ?tx)) = [et_v ?tx]" using v small_uint by auto
  have "items @ [vEnc, r, s] = map enc (evm_values tx @ map RBytes [[et_v ?tx], et_r ?tx, et_s ?tx])"
    using evm_fields_Inr [OF items(1)] encodeUInt_Inr [OF items(2)] encodeBytes_Inr [OF items(3)] encodeBytes_Inr [OF items(4)] vb
    by (simp add: evm_values_def)
  from encodeList_Inr [OF items(5) [unfolded this] assms(5)]
  have out: "out = enc (RList (evm_values tx @ map RBytes [[et_v ?tx], et_r ?tx, et_s ?tx]))" .
  have "decodeValue out 0 = Inr (RList (evm_values tx @ map RBytes [[et_v ?tx], et_r ?tx, et_s ?tx]), length out)"
    using decode_form assms(5) unfolding out by blast
  then show ?thesis using raw tv rec(1) unfolding tx' by blast
qed

section \<open>The recovery id\<close>

text \<open>
  The recovery id of EIP-155 is read back from \<^verbatim>\<open>v\<close> by the verifier, for every chain id that the verifier admits.
\<close>

theorem eip155_roundtrip:
  assumes "0 < chainId" "chainId \<le> (0xFFFFFFFFFFFFFFFF - 35) div 2" "recid = 0 \<or> recid = 1"
  shows "computeRecoveryId (computeEip155V recid chainId) chainId = recid"
  using assms by (auto simp: computeRecoveryId_def computeEip155V_def Let_def algebra_simps)

text \<open>
  The search for the recovery id answers the first id with which any key is recovered, whichever key made the
  signature, and -1 when there is none.
\<close>

theorem findRecoveryId_first:
  "fst (findRecoveryId S h r s out) = i \<longleftrightarrow>
     (i = - 1 \<and> (\<forall>j \<in> {0, 1, 2, 3}. recover_at S (r @ s) j h = None)) \<or>
     (i \<in> {0, 1, 2, 3} \<and> recover_at S (r @ s) i h \<noteq> None \<and> (\<forall>j \<in> {0, 1, 2, 3}. j < i \<longrightarrow> recover_at S (r @ s) j h = None))"
proof -
  let ?n = "\<lambda>j. recover_at S (r @ s) j h = None"
  have "fst (findRecoveryId S h r s out) = (if \<not> ?n 0 then 0 else if \<not> ?n 1 then 1 else if \<not> ?n 2 then 2 else if \<not> ?n 3 then 3 else - 1)"
    by (simp add: findRecoveryId_def split: option.split)
  then show ?thesis by auto
qed

section \<open>Keys from files\<close>

lemma hex_key_comment: "hex_key_lines ((CHR ''#'' # l) # ls) = hex_key_lines ls"
  by simp

lemma hex_key_line:
  assumes "length key = 32"
  shows "hex_key_lines (hex_bytes key # ls) = Inr key"
proof -
  have d: "list_all is_hex (hex_bytes key)" by (rule hex_bytes_digits)
  have ne: "hex_bytes key \<noteq> []" using assms by (metis length_0_conv length_hex_bytes mult_eq_0_iff zero_neq_numeral)
  have plain: "is_hex c \<Longrightarrow> c \<notin> {CHR 0x0D, CHR 0x0A, CHR '' ''}" for c
    using hex_plain [of c] by (auto simp: plain_char_def is_line_space_def)
  have "dropWhile (\<lambda>c. c \<in> {CHR 0x0D, CHR 0x0A, CHR '' ''}) (rev (hex_bytes key)) = rev (hex_bytes key)"
  proof (cases "rev (hex_bytes key)")
    case (Cons c cs)
    then have "c \<in> set (hex_bytes key)" by (metis list.set_intros(1) set_rev)
    then show ?thesis using Cons d plain [of c] by (simp add: list_all_iff)
  qed simp
  then have e: "strip_end (hex_bytes key) = hex_bytes key" by (simp add: strip_end_def)
  have "hd (hex_bytes key) \<noteq> CHR ''#''" using d ne hex_plain by (auto simp: list_all_iff)
  then show ?thesis using ne d assms by (simp add: e read_hex_bytes)
qed

text \<open>
  The key of an identity's file is the key that \<^verbatim>\<open>signHash\<close> signs with, given a path without a line break,
  and it is so even where the node itself refuses the file because others may read it.
\<close>

theorem identity_file_signs:
  assumes "savePrivkeyToFile sc key path fs = (Inr u, fs')" "CHR 0x0A \<notin> set path" "length key = 32"
  shows "signHash S R digest path fs' w = signHashWithKey S R digest key w"
proof -
  obtain m where f: "fs' path = Some (m, key_content key path)"
    using written_file [OF assms(1) [unfolded savePrivkeyToFile_def]] by blast
  have n: "CHR 0x0A \<notin> set (hex_bytes key)" using hex_bytes_digits hex_plain by (metis list_all_iff)
  have "hex_key_lines (file_lines (key_content key path)) = Inr key"
    using file_lines_line [of "''# Add to .gitignore: '' @ path" "toHex key 32 @ [CHR 0x0A]"] assms(2)
      file_lines_line [OF n, of "[]"] hex_key_line [OF assms(3)]
    by (simp add: key_content_lines hex_key_comment toHex_full [OF assms(3)] del: hex_key_lines.simps(2))
  then show ?thesis by (simp add: signHash_def loadPrivkeyHex_def f)
qed

section \<open>Witnesses\<close>

definition small_tx :: evm_tx where
  "small_tx = \<lparr>et_chainId = 1, et_nonce = 0, et_maxPriorityFeePerGas = 1, et_maxFeePerGas = 2, et_gasLimit = 3, et_to = [5, 6],
     et_value = [7], et_data = [], et_r = [], et_s = [], et_v = 0\<rparr>"

lemma small_le: "le_bytes 1 = [1]" "le_bytes (Suc 0) = [1]" "le_bytes 2 = [2]" "le_bytes 3 = [3]" "le_bytes 27 = [27]" "le_bytes 78 = [78]"
  by (simp_all add: le_bytes.simps [of 1] le_bytes.simps [of "Suc 0"] le_bytes.simps [of 2] le_bytes.simps [of 3] le_bytes.simps [of 27] le_bytes.simps [of 78])

lemma small_raw: "\<exists>raw. buildUnsignedRlp small_tx = Inr raw \<and> length raw = 12"
  by (simp add: buildUnsignedRlp_def evm_fields_def small_tx_def encodeUInt_def encodeBytes_def encodeLength_def encodeList_def small_le sz_add_def)

lemma unsigned_tx_commits_witness: "\<exists>raw. buildUnsignedRlp small_tx = Inr raw \<and> et_nonce small_tx = et_nonce (small_tx\<lparr>et_v := 9\<rparr>)"
proof -
  obtain raw where raw: "buildUnsignedRlp small_tx = Inr raw" "length raw = 12" using small_raw by blast
  have "buildUnsignedRlp (small_tx\<lparr>et_v := 9\<rparr>) = Inr raw" using raw(1) by (simp add: buildUnsignedRlp_def evm_fields_def)
  from unsigned_tx_commits [OF raw(1) this] raw show ?thesis by auto
qed

lemma small_signed:
  "\<exists>tx out. signEvmTransaction one_key_lib counting_os small_tx (replicate 32 4) ready_wrapper = (Inr (tx, out), ready_wrapper) \<and> length out = 80"
proof -
  obtain raw where raw: "buildUnsignedRlp small_tx = Inr raw" using small_raw by blast
  have s: "signRecoverable one_key_lib counting_os h (replicate 32 4) ready_wrapper = (Some some_signature, ready_wrapper)" for h
    using ready_signs [of h 4] by (simp add: some_keypair_def)
  let ?r = "0xA0 # replicate 32 1 :: bytes"
  have e: "encodeBytes (replicate 32 1) [] = Inr ?r" by (simp add: encodeBytes_def encodeLength_def)
  show ?thesis
    by (simp add: signEvmTransaction_def raw signHashWithKey_def s some_signature_def Let_def e)
      (simp add: evm_fields_def small_tx_def encodeUInt_def encodeBytes_def encodeLength_def encodeList_def small_le sz_add_def)
qed

lemma signed_transaction_witness:
  "\<exists>tx out. signEvmTransaction one_key_lib counting_os small_tx (replicate 32 4) ready_wrapper = (Inr (tx, out), ready_wrapper) \<and>
     decodeValue out 0 = Inr (RList (evm_values small_tx @ map RBytes [[et_v tx], et_r tx, et_s tx]), length out)"
proof -
  obtain tx out where t: "signEvmTransaction one_key_lib counting_os small_tx (replicate 32 4) ready_wrapper = (Inr (tx, out), ready_wrapper)" "length out = 80"
    using small_signed by blast
  have kp: "keypair_of one_key_lib (replicate 32 4) = Some some_keypair" by (simp add: keypair_of_def one_key_lib_def some_keypair_def)
  from signed_transaction [OF one_key_laws _ kp t(1)] t(2) show ?thesis using t(1) by auto
qed

lemma eip155_roundtrip_witness: "computeRecoveryId (computeEip155V 1 1337) 1337 = 1"
  by (rule eip155_roundtrip) simp_all

lemma identity_file_signs_witness:
  "\<exists>fs'. savePrivkeyToFile good_calls (replicate 32 4) ''k'' [''k.tmp'' \<mapsto> (420, [])] = (Inr (), fs') \<and>
     signHash one_key_lib counting_os [1] ''k'' fs' ready_wrapper = signHashWithKey one_key_lib counting_os [1] (replicate 32 4) ready_wrapper"
proof -
  obtain fs' where s: "savePrivkeyToFile good_calls (replicate 32 4) ''k'' [''k.tmp'' \<mapsto> (420, [])] = (Inr (), fs')"
    using good_save [of "replicate 32 4" "''k''"] by auto
  from identity_file_signs [OF s] show ?thesis using s by auto
qed

end
