(* ===== verification/Poa.thy ===== *)
theory Poa
  imports EvmSign Block
begin

text \<open>
  Proof of authority: signatures of block headers, \<^verbatim>\<open>src/src/consensus/poa_sign.cpp\<close>, and the registry of
  validators, \<^verbatim>\<open>validator_registry.cpp\<close>. The four-argument \<^verbatim>\<open>keccak\<close>, which is declared nowhere in the
  program, and libsecp256k1 are parameters. The code does not look at what the library answers to parsing and
  signing: what an object that was not set serializes to or recovers is an argument as well.
\<close>

section \<open>Hexadecimal pairs\<close>

text \<open>\<^verbatim>\<open>std::stoul(hex.substr(pos, n), nullptr, 16)\<close>.\<close>

definition stoul_substr :: "string \<Rightarrow> nat \<Rightarrow> nat \<Rightarrow> cxx_exn + u64" where
  "stoul_substr hex pos n = (if pos > length hex then Inl Out_of_range else stoul16 (take n (drop pos hex)))"

text \<open>The bytes from number \<open>i\<close> on, \<open>n\<close> of them.\<close>

fun hex_at :: "string \<Rightarrow> nat \<Rightarrow> nat \<Rightarrow> cxx_exn + bytes" where
  "hex_at hex i 0 = Inr []"
| "hex_at hex i (Suc n) = bind_sum (stoul_substr hex (2 * i) 2) (\<lambda>b. bind_sum (hex_at hex (Suc i) n) (\<lambda>bs. Inr (ucast b # bs)))"

definition hexToAddr :: "string \<Rightarrow> cxx_exn + bytes" where
  "hexToAddr hex = hex_at hex 0 20"

section \<open>The registry\<close>

definition VALIDATOR_HEX :: "string list" where
  "VALIDATOR_HEX = [replicate 40 CHR ''a'', replicate 40 CHR ''b'']"

definition KEYMAP :: "string \<Rightarrow> string option" where
  "KEYMAP = [replicate 40 CHR ''a'' \<mapsto> ''<privatekey_hex_1>'', replicate 40 CHR ''b'' \<mapsto> ''<privatekey_hex_2>'']"

fun load_validators :: "string list \<Rightarrow> bytes list \<Rightarrow> cxx_exn + bytes list" where
  "load_validators [] vs = Inr vs"
| "load_validators (h # hs) vs = bind_sum (hexToAddr h) (\<lambda>a. load_validators hs (vs @ [a]))"

definition loadValidators :: "bytes list \<Rightarrow> cxx_exn + bytes list" where
  "loadValidators validators = load_validators VALIDATOR_HEX []"

definition isValidator :: "bytes \<Rightarrow> bytes list \<Rightarrow> bool" where
  "isValidator addr validators \<longleftrightarrow> list_ex (\<lambda>v. v = addr) validators"

definition getPrivateKey :: "string \<Rightarrow> string" where
  "getPrivateKey addrHex = (case KEYMAP addrHex of None \<Rightarrow> [] | Some k \<Rightarrow> k)"

section \<open>Signatures\<close>

text \<open>\<open>unset\<close>: the compact form and the recovery id of a signature that was not made.\<close>

definition signBlockPoA ::
    "(bytes \<Rightarrow> bytes) \<Rightarrow> ('pk, 'sg, 'rs) secp_lib \<Rightarrow> bytes \<times> int \<Rightarrow> block \<Rightarrow> string \<Rightarrow> cxx_exn + string" where
  "signBlockPoA keccak S unset b validatorAddr =
     (let hash = keccak (serializeHeader b)
      in bind_sum (hex_at (getPrivateKey validatorAddr) 0 32) (\<lambda>privKey.
           case (case sl_sign S hash privKey of None \<Rightarrow> unset | Some rs \<Rightarrow> sl_recoverable_compact S rs) of
             (compact, recid) \<Rightarrow> Inr (hex_bytes (take 64 compact) @ show_hex (nat (recid mod 2 ^ 32)))))"

text \<open>\<open>unset\<close>: a signature that was not parsed.\<close>

definition verifyBlockPoA ::
    "(bytes \<Rightarrow> bytes) \<Rightarrow> ('pk, 'sg, 'rs) secp_lib \<Rightarrow> 'rs \<Rightarrow> bytes list \<Rightarrow> block \<Rightarrow> cxx_exn + bool" where
  "verifyBlockPoA keccak S unset validators b =
     (if blk_signature b = [] then Inr False
      else
        bind_sum (hex_at (blk_signature b) 0 64) (\<lambda>sigBytes.
        bind_sum (stoul_substr (blk_signature b) 128 1) (\<lambda>recid.
          let hash = keccak (serializeHeader b);
              sig = (case sp_parse_recoverable S sigBytes (unat recid) of None \<Rightarrow> unset | Some rs \<Rightarrow> rs)
          in case sp_recover S sig hash of
               None \<Rightarrow> Inr False
             | Some pk \<Rightarrow> Inr (isValidator (take 20 (drop 12 (keccak (take 64 (drop 1 (sp_uncompressed S pk)))))) validators))))"

section \<open>No block is signed\<close>

lemma placeholder_unread:
  "stoul_substr [] 0 2 = Inl Invalid_argument" "stoul_substr ''<privatekey_hex_1>'' 0 2 = Inl Invalid_argument"
  "stoul_substr ''<privatekey_hex_2>'' 0 2 = Inl Invalid_argument"
  by (simp_all add: stoul_substr_def stoul16_def is_space_def is_hex_def hex_digit_val_def Let_def)

text \<open>
  No block can be signed: the registry holds placeholders for the validators' keys and nothing for anyone else, so that
  reading the key throws for every address.
\<close>

theorem signBlockPoA_throws: "signBlockPoA keccak S unset b addr = Inl Invalid_argument"
proof -
  have "getPrivateKey addr = [] \<or> getPrivateKey addr = ''<privatekey_hex_1>'' \<or> getPrivateKey addr = ''<privatekey_hex_2>''"
    unfolding getPrivateKey_def KEYMAP_def fun_upd_def by (simp only: split: if_split option.split) blast
  then have "stoul_substr (getPrivateKey addr) 0 2 = Inl Invalid_argument"
    using placeholder_unread by metis
  moreover have "hex_at k 0 32 = bind_sum (stoul_substr k 0 2) (\<lambda>b. bind_sum (hex_at k 1 31) (\<lambda>bs. Inr (ucast b # bs)))" for k
    using hex_at.simps(2) [of k 0 31] by simp
  ultimately show ?thesis by (simp add: signBlockPoA_def Let_def)
qed

section \<open>Verification\<close>

lemma hex_at_hex:
  "length bs = n \<Longrightarrow> hex_at (hex_bytes pre @ hex_bytes bs @ rest) (length pre) n = Inr bs"
proof (induction bs arbitrary: pre n)
  case (Cons b bs)
  then obtain m where n: "n = Suc m" by (cases n) auto
  have "take 2 (drop (2 * length pre) (hex_bytes pre @ hex_byte b @ hex_bytes bs @ rest)) = hex_byte b"
    by (simp add: hex_byte_def)
  then have first: "stoul_substr (hex_bytes pre @ hex_byte b @ hex_bytes bs @ rest) (2 * length pre) 2 = Inr (ucast b)"
    by (simp add: stoul_substr_def)
  have "hex_bytes (pre @ [b]) = hex_bytes pre @ hex_byte b" by (simp add: hex_bytes_def)
  then have "hex_at (hex_bytes pre @ hex_byte b @ hex_bytes bs @ rest) (Suc (length pre)) m = Inr bs"
    using Cons.IH [of m "pre @ [b]"] Cons.prems n by simp
  moreover have "ucast (ucast b :: u64) = b" by (rule bit_word_eqI) (auto simp: bit_simps)
  ultimately show ?case using first by (simp add: n)
qed simp

text \<open>
  A signature of 64 bytes and a recovery id in the form that signing writes is accepted exactly when the key that the library
  recovers for the header has the address of a loaded validator, whatever text follows it.
\<close>

theorem poa_verify_exact:
  assumes "length sig = 64" "i < 16" "blk_signature b = hex_bytes sig @ digit_char i # rest"
  shows "verifyBlockPoA keccak S unset validators b =
    Inr (case sp_recover S (case sp_parse_recoverable S sig i of None \<Rightarrow> unset | Some rs \<Rightarrow> rs) (keccak (serializeHeader b)) of
           None \<Rightarrow> False
         | Some pk \<Rightarrow> take 20 (drop 12 (keccak (take 64 (drop 1 (sp_uncompressed S pk))))) \<in> set validators)"
proof -
  have ne: "blk_signature b \<noteq> []" unfolding assms(3) by simp
  have bytes: "hex_at (blk_signature b) 0 64 = Inr sig" using hex_at_hex [OF assms(1), of "[]"] by (simp add: assms(3))
  have "stoul16 [digit_char i] = Inr (word_of_nat i)"
    using assms(2) hex_not_space_sign [OF is_hex_digit_char [OF assms(2)]] by (simp add: stoul16_def Let_def)
  then have id: "stoul_substr (blk_signature b) 128 1 = Inr (word_of_nat i)" by (simp add: stoul_substr_def assms(1,3))
  have "unat (word_of_nat i :: u64) = i" using assms(2) by (simp add: unat_of_nat)
  then show ?thesis using ne bytes id
    by (simp add: verifyBlockPoA_def isValidator_def list_ex_iff Let_def split: option.split)
qed

text \<open>A signature of at most 128 characters that is not empty makes verification throw instead of answering false.\<close>

theorem short_signature_throws:
  assumes "blk_signature b \<noteq> []" "length (blk_signature b) \<le> 128"
  shows "\<exists>e. verifyBlockPoA keccak S unset validators b = Inl e"
proof -
  have "\<exists>e. stoul_substr (blk_signature b) 128 1 = Inl e" using assms(2) by (simp add: stoul_substr_def stoul16_def)
  then show ?thesis using assms(1) by (cases "hex_at (blk_signature b) 0 64") (auto simp: verifyBlockPoA_def)
qed

text \<open>
  Loading fills the registry with the two addresses of the list, whatever it held before; while it is empty no block passes.
\<close>

theorem validators_loaded:
  "loadValidators old = Inr [replicate 20 0xAA, replicate 20 0xBB] \<and> verifyBlockPoA keccak S unset [] b \<noteq> Inr True"
proof
  have hex: "hexToAddr (hex_bytes a) = Inr a" if "length a = 20" for a
    using hex_at_hex [OF that, of "[]" "[]"] by (simp add: hexToAddr_def)
  have rep: "hex_bytes (replicate n x) = concat (replicate n (hex_byte x))" for n x by (simp add: hex_bytes_def)
  have twice: "concat (replicate n [c, c]) = replicate (2 * n) c" for n and c :: char by (induction n) simp_all
  have "hex_byte 0xAA = [CHR ''a'', CHR ''a'']" "hex_byte 0xBB = [CHR ''b'', CHR ''b'']" by (simp_all add: hex_byte_def)
  then have "hex_bytes (replicate 20 0xAA) = replicate 40 CHR ''a''" "hex_bytes (replicate 20 0xBB) = replicate 40 CHR ''b''"
    using twice [of 20] by (simp_all only: rep) simp_all
  then have "hexToAddr (replicate 40 CHR ''a'') = Inr (replicate 20 0xAA)" "hexToAddr (replicate 40 CHR ''b'') = Inr (replicate 20 0xBB)"
    using hex [of "replicate 20 0xAA"] hex [of "replicate 20 0xBB"] by simp_all
  then show "loadValidators old = Inr [replicate 20 0xAA, replicate 20 0xBB]" by (simp only: loadValidators_def VALIDATOR_HEX_def load_validators.simps bind_sum_simps append.simps)
  show "verifyBlockPoA keccak S unset [] b \<noteq> Inr True"
    by (auto simp: verifyBlockPoA_def isValidator_def bind_sum_Inr Let_def split: option.splits)
qed

section \<open>Witnesses\<close>

lemma poa_verify_exact_witness:
  "verifyBlockPoA (\<lambda>d. replicate 32 3) one_key_lib ([], 0) [replicate 20 3]
     ((default_block 1)\<lparr>blk_signature := hex_bytes (replicate 64 1) @ digit_char 0 # ''tail''\<rparr>) = Inr True"
  using poa_verify_exact [of "replicate 64 1" 0 "(default_block 1)\<lparr>blk_signature := hex_bytes (replicate 64 1) @ digit_char 0 # ''tail''\<rparr>" "''tail''"
    "\<lambda>d. replicate 32 3" one_key_lib "([], 0)" "[replicate 20 3]"]
  by (simp add: one_key_lib_def)

lemma short_signature_throws_witness:
  "\<exists>e. verifyBlockPoA (\<lambda>d. replicate 32 3) one_key_lib ([], 0) [] ((default_block 1)\<lparr>blk_signature := ''ab''\<rparr>) = Inl e"
  by (rule short_signature_throws) simp_all

end
