(* ===== verification/Abi.thy ===== *)
theory Abi
  imports PeerDb
begin

text \<open>
  Calls of contracts: the encoder of arguments, \<^verbatim>\<open>src/src/abi/encode.cpp\<close>, and the reader of interface
  descriptions, \<^verbatim>\<open>src/src/abi/abi.cpp\<close>. The JSON library and the four-argument \<^verbatim>\<open>keccak\<close>, which is
  declared nowhere in the program, are parameters.
\<close>

section \<open>Arguments\<close>

text \<open>Pairs of digits, each read by \<^verbatim>\<open>std::stoul\<close>.\<close>

fun read_pairs :: "string \<Rightarrow> cxx_exn + bytes" where
  "read_pairs [] = Inr []"
| "read_pairs [c] = bind_sum (stoul16 [c]) (\<lambda>b. Inr [ucast b])"
| "read_pairs (c # d # cs) = bind_sum (stoul16 [c, d]) (\<lambda>b. bind_sum (read_pairs cs) (\<lambda>bs. Inr (ucast b # bs)))"

definition hexToBytes :: "string \<Rightarrow> cxx_exn + bytes" where
  "hexToBytes hex =
     (let s = (if length hex \<ge> 2 \<and> hex ! 0 = CHR ''0'' \<and> (hex ! 1 = CHR ''x'' \<or> hex ! 1 = CHR ''X'') then drop 2 hex else hex)
      in if s = [] then Inr []
         else if length s mod 2 \<noteq> 0 then
           bind_sum (stoul16 (CHR ''0'' # take 1 s)) (\<lambda>b. bind_sum (read_pairs (drop 1 s)) (\<lambda>bs. Inr (ucast b # bs)))
         else read_pairs s)"

definition encodeAddress :: "string \<Rightarrow> cxx_exn + bytes" where
  "encodeAddress addr =
     bind_sum (hexToBytes addr) (\<lambda>raw.
       let raw = (if length raw > 20 then drop (length raw - 20) raw else raw)
       in Inr (replicate (32 - length raw) 0 @ raw))"

fun uint_bytes_loop :: "nat \<Rightarrow> u64 \<Rightarrow> bytes" where
  "uint_bytes_loop 0 v = []"
| "uint_bytes_loop (Suc n) v = uint_bytes_loop n (drop_bit 8 v) @ [ucast (v AND 0xFF)]"

definition encodeUint256 :: "string \<Rightarrow> bytes" where
  "encodeUint256 txt = uint_bytes_loop 32 (case stoull txt of Inl e \<Rightarrow> 0 | Inr v \<Rightarrow> v)"

definition encodeBool :: "bool \<Rightarrow> bytes" where
  "encodeBool v = (replicate 32 0)[31 := if v then 1 else 0]"

definition encodeCall :: "bytes \<Rightarrow> bytes list \<Rightarrow> bytes" where
  "encodeCall selector args = foldl (\<lambda>out a. out @ a) selector args"

section \<open>Interface descriptions\<close>

record ABIFunction =
  abi_name :: string
  abi_signature :: string
  abi_inputs :: "(string \<times> string) list"   \<comment> \<open>names and types\<close>
  abi_outputs :: "(string \<times> string) list"

text \<open>What a loop over a JSON value visits.\<close>

fun json_items :: "json \<Rightarrow> json list" where
  "json_items (JArray js) = js"
| "json_items (JObject kvs) = map snd kvs"
| "json_items JNull = []"
| "json_items j = [j]"

text \<open>\<^verbatim>\<open>j.value(field, "")\<close>; an exception of the library is \<open>Runtime_error\<close>.\<close>

definition json_value :: "string \<Rightarrow> json \<Rightarrow> cxx_exn + string" where
  "json_value field j =
     (if \<not> is_object j then Inl Runtime_error
      else case jget field j of None \<Rightarrow> Inr [] | Some v \<Rightarrow> (case get_string v of None \<Rightarrow> Inl Runtime_error | Some s \<Rightarrow> Inr s))"

fun read_params :: "json list \<Rightarrow> cxx_exn + (string \<times> string) list" where
  "read_params [] = Inr []"
| "read_params (p # ps) =
     bind_sum (json_value ''name'' p) (\<lambda>n. bind_sum (json_value ''type'' p) (\<lambda>t. bind_sum (read_params ps) (\<lambda>rest. Inr ((n, t) # rest))))"

definition read_param_list :: "string \<Rightarrow> json \<Rightarrow> cxx_exn + (string \<times> string) list" where
  "read_param_list field item = (case jget field item of None \<Rightarrow> Inr [] | Some v \<Rightarrow> read_params (json_items v))"

definition abi_sig :: "string \<Rightarrow> (string \<times> string) list \<Rightarrow> string" where
  "abi_sig name inputs = name @ ''('' @ join_with CHR '','' (map snd inputs) @ '')''"

fun read_functions :: "json list \<Rightarrow> cxx_exn + ABIFunction list" where
  "read_functions [] = Inr []"
| "read_functions (item # items) =
     (if jget ''type'' item \<noteq> Some (JString ''function'') then read_functions items
      else
        bind_sum (json_value ''name'' item) (\<lambda>name.
        bind_sum (read_param_list ''inputs'' item) (\<lambda>inputs.
        bind_sum (read_param_list ''outputs'' item) (\<lambda>outputs.
        bind_sum (read_functions items) (\<lambda>fns.
          Inr (\<lparr>abi_name = name, abi_signature = abi_sig name inputs, abi_inputs = inputs, abi_outputs = outputs\<rparr> # fns))))))"

definition parseABI :: "json_lib \<Rightarrow> string \<Rightarrow> cxx_exn + ABIFunction list" where
  "parseABI J jsonText = (case js_parse J jsonText of None \<Rightarrow> Inl Runtime_error | Some j \<Rightarrow> read_functions (json_items j))"

definition generateSelector :: "(bytes \<Rightarrow> bytes) \<Rightarrow> string \<Rightarrow> bytes" where
  "generateSelector keccak funcSignature = take 4 (keccak (str_bytes funcSignature))"

section \<open>Arguments are encoded as words\<close>

lemma length_uint_loop [simp]: "length (uint_bytes_loop n v) = n"
  by (induction n arbitrary: v) simp_all

lemma uint_loop_val: "be_val (uint_bytes_loop n v) = unat v mod 256 ^ n"
proof (induction n arbitrary: v)
  case (Suc n)
  have low: "unat (ucast (v AND 0xFF) :: u8) = unat v mod 256"
    by (simp add: ucast_and_FF unsigned_ucast_eq take_bit_eq_mod)
  have "unat (drop_bit 8 v) = unat v div 256" by (simp add: drop_bit_eq_div unat_div)
  then show ?case using Suc.IH [of "drop_bit 8 v"] low by (simp add: be_val_append mod_mult2_eq)
qed simp

lemma stoull_show_big: "stoull (show_nat n) = (if n < 2 ^ 64 then Inr (word_of_nat n) else Inl Out_of_range)"
proof -
  let ?s = "show_nat n"
  have hd: "is_digit (hd ?s)" by (rule show_nat_digits [of _ n]) simp
  have all: "takeWhile is_digit ?s = ?s" by (simp add: show_nat_digits takeWhile_eq_all_conv)
  have drop: "dropWhile is_space ?s = ?s" using hd by (cases ?s) (auto dest: digit_not_space_sign)
  have sign: "hd ?s \<noteq> CHR ''-''" "hd ?s \<noteq> CHR ''+''" using digit_not_space_sign [OF hd] by auto
  show ?thesis by (simp add: stoull_def drop sign all digits_val_show Let_def)
qed

text \<open>
  A decimal number is encoded as 32 bytes with its value when it is below 2^64; from there on, the rest of the range of
  a \<^verbatim>\<open>uint256\<close>, it is encoded as zero.
\<close>

theorem encodeUint256_value:
  "length (encodeUint256 (show_nat n)) = 32 \<and> be_val (encodeUint256 (show_nat n)) = (if n < 2 ^ 64 then n else 0)"
proof -
  have "n mod 2 ^ 64 mod 256 ^ 32 = n" if "n < 2 ^ 64"
  proof -
    have "n < 256 ^ 32" by (rule less_trans [OF that]) simp
    then show ?thesis using that by simp
  qed
  then show ?thesis by (simp add: encodeUint256_def uint_loop_val stoull_show_big unat_of_nat)
qed

lemma read_pairs_hex: "read_pairs (hex_bytes bs) = Inr bs"
proof (induction bs)
  case (Cons b bs)
  have "read_pairs (hex_byte b @ cs) = bind_sum (stoul16 (hex_byte b)) (\<lambda>b. bind_sum (read_pairs cs) (\<lambda>bs. Inr (ucast b # bs)))" for cs
    by (simp add: hex_byte_def)
  moreover have "ucast (ucast b :: u64) = b" by (rule bit_word_eqI) (auto simp: bit_simps)
  ultimately show ?case using Cons by simp
qed simp

lemma hexToBytes_prefixed: "hexToBytes (''0x'' @ hex_bytes bs) = Inr bs"
  by (simp add: hexToBytes_def Let_def read_pairs_hex)

text \<open>
  An address of 20 bytes is encoded as 32 bytes that end in it; of a longer one everything but the last 20 bytes is
  dropped without an error.
\<close>

theorem encodeAddress_last20:
  assumes "length a = 20"
  shows "encodeAddress (''0x'' @ hex_bytes (p @ a)) = Inr (replicate 12 0 @ a)"
  using assms by (simp add: encodeAddress_def hexToBytes_prefixed Let_def del: append.simps)

lemma encodeAddress_last20_witness:
  "encodeAddress (''0x'' @ hex_bytes ([1, 2] @ replicate 20 9)) = Inr (replicate 12 0 @ replicate 20 9)"
  by (rule encodeAddress_last20) simp

section \<open>Interfaces are read back\<close>

text \<open>The description of functions, as compilers print it.\<close>

definition param_json :: "string \<times> string \<Rightarrow> json" where
  "param_json p = JObject [(''name'', JString (fst p)), (''type'', JString (snd p))]"

definition function_json :: "string \<times> (string \<times> string) list \<times> (string \<times> string) list \<Rightarrow> json" where
  "function_json f = JObject
     [(''inputs'', JArray (map param_json (fst (snd f)))), (''name'', JString (fst f)),
      (''outputs'', JArray (map param_json (snd (snd f)))), (''type'', JString ''function'')]"

definition event_json :: "string \<Rightarrow> json" where
  "event_json name = JObject [(''name'', JString name), (''type'', JString ''event'')]"

lemma read_params_json: "read_params (map param_json ps) = Inr ps"
  by (induction ps) (simp_all add: param_json_def json_value_def)

text \<open>
  From a description the functions are read in order with their parameters, and the signature of each is its name with
  the types of its inputs; events are left out.
\<close>

theorem parseABI_functions:
  assumes "js_parse J t = Some (JArray (map event_json es @ map function_json fs))"
  shows "parseABI J t =
    Inr (map (\<lambda>(name, ins, outs). \<lparr>abi_name = name, abi_signature = name @ ''('' @ join_with CHR '','' (map snd ins) @ '')'',
      abi_inputs = ins, abi_outputs = outs\<rparr>) fs)"
proof -
  have f: "read_functions (map function_json fs) =
      Inr (map (\<lambda>(name, ins, outs). \<lparr>abi_name = name, abi_signature = abi_sig name ins, abi_inputs = ins, abi_outputs = outs\<rparr>) fs)" for fs
    by (induction fs) (auto simp: function_json_def json_value_def read_param_list_def read_params_json)
  have "read_functions (map event_json es @ js) = read_functions js" for js
    by (induction es) (simp_all add: event_json_def)
  then show ?thesis using assms f by (simp add: parseABI_def abi_sig_def)
qed

lemma parseABI_functions_witness:
  "parseABI (one_text (JArray [event_json ''Paid'', function_json (''pay'', [(''to'', ''address''), (''n'', ''uint256'')], [])])) ''x'' =
     Inr [\<lparr>abi_name = ''pay'', abi_signature = ''pay(address,uint256)'', abi_inputs = [(''to'', ''address''), (''n'', ''uint256'')], abi_outputs = []\<rparr>]"
  using parseABI_functions [of "one_text (JArray [event_json ''Paid'', function_json (''pay'', [(''to'', ''address''), (''n'', ''uint256'')], [])])" "''x''"
    "[''Paid'']" "[(''pay'', [(''to'', ''address''), (''n'', ''uint256'')], [])]"]
  by (simp add: one_text_def event_json_def function_json_def param_json_def)

end
